(* ===== verification/Prelude.thy ===== *)
theory Prelude imports Main "HOL-Library.Word" begin

unbundle bit_operations_syntax

text \<open>
  Shared vocabulary of the development: the C integer types of the server headers as machine
  words, and the facts on words, bits and lists that the component theories use.

  The widths are those of the build the headers were generated for (my_config.h: \<open>int\<close> and
  \<open>long\<close> 32 bits, \<open>long long\<close> and \<open>size_t\<close> 64 bits). A signed C integer is the word of its
  two's complement representation and is read with \<open>sint\<close>; a cast between integer types is
  \<open>ucast\<close> (zero extension or truncation) or \<open>scast\<close> (sign extension).
\<close>

section \<open>C integer types\<close>

type_synonym uchar = "8 word"
type_synonym uint8 = "8 word"
type_synonym uint16 = "16 word"
type_synonym int16 = "16 word"
type_synonym uint32 = "32 word"
type_synonym int32 = "32 word"
type_synonym uint = "32 word"
type_synonym ulong = "32 word"
type_synonym ulonglong = "64 word"
type_synonym longlong = "64 word"
type_synonym size_t = "64 word"
type_synonym ha_rows = "64 word"

text \<open>A contiguous memory area; a pointer into it is an index.\<close>

type_synonym buffer = "uchar list"

text \<open>The C library's \<open>memcmp\<close> on two areas of one size: the sign of the first difference.\<close>

fun memcmp :: "buffer \<Rightarrow> buffer \<Rightarrow> int" where
  "memcmp (a # as) (b # bs) = (if a < b then - 1 else if b < a then 1 else memcmp as bs)"
| "memcmp _ _ = 0"

named_theorems bits_simps \<open>how a single bit of a composed word reads\<close>
named_theorems heap_simps \<open>reading a heap cell after a write\<close>

section \<open>Bits of words\<close>

lemma word_bit_length [simp]: "bit (w :: 'a::len word) n \<Longrightarrow> n < LENGTH('a)"
  by (rule bit_imp_le_length)

lemma bit_ucast_word [bits_simps]:
  "bit (ucast (w :: 'a::len word) :: 'b::len word) n \<longleftrightarrow> n < LENGTH('b) \<and> bit w n"
  by (simp add: bit_ucast_iff)

lemma bit_push_word [bits_simps]:
  "bit (push_bit k (w :: 'a::len word)) n \<longleftrightarrow> k \<le> n \<and> n < LENGTH('a) \<and> bit w (n - k)"
  by (auto simp: bit_push_bit_iff)

lemma bit_drop_word [bits_simps]: "bit (drop_bit k (w :: 'a::len word)) n \<longleftrightarrow> bit w (k + n)"
  by (simp add: bit_drop_bit_eq)

lemmas bit_logic_word [bits_simps] = bit_and_iff bit_or_iff bit_xor_iff

lemma bit_not_word [bits_simps]:
  "bit (NOT (w :: 'a::len word)) n \<longleftrightarrow> n < LENGTH('a) \<and> \<not> bit w n"
  by (auto simp: bit_not_iff)

lemma bit_mask_word [bits_simps]: "bit (mask k :: 'a::len word) n \<longleftrightarrow> n < LENGTH('a) \<and> n < k"
  by (auto simp: bit_mask_iff)

lemma word_bits_eqI:
  assumes "\<And>n. n < LENGTH('a) \<Longrightarrow> bit (v :: 'a::len word) n \<longleftrightarrow> bit w n"
  shows "v = w"
  using assms by (auto intro!: bit_word_eqI)

lemma word_nonzero_bit: "w \<noteq> 0 \<longleftrightarrow> (\<exists>n < LENGTH('a). bit (w :: 'a::len word) n)"
  by (auto simp: bit_eq_iff dest: bit_imp_le_length)

lemma bit_two_power [bits_simps]:
  "bit (2 ^ k :: 'a::len word) n \<longleftrightarrow> n = k \<and> n < LENGTH('a)"
  by (auto simp: bit_exp_iff)

lemma and_bit_nonzero: "(w AND 2 ^ k \<noteq> 0) \<longleftrightarrow> bit (w :: 'a::len word) k"
  by (subst word_nonzero_bit) (auto simp: bits_simps dest: bit_imp_le_length)

section \<open>Words as numbers\<close>

lemma unat_less_length: "unat (w :: 'a::len word) < 2 ^ LENGTH('a)"
  by (rule unsigned_less)

lemma unat_ucast_mod: "unat (ucast (w :: 'a::len word) :: 'b::len word) = unat w mod 2 ^ LENGTH('b)"
  by (simp add: unsigned_ucast_eq take_bit_eq_mod)

lemma unat_drop_bit_div: "unat (drop_bit n (w :: 'a::len word)) = unat w div 2 ^ n"
  by (simp add: unat_drop_bit_eq flip: drop_bit_eq_div)

lemma unat_add_small:
  "unat v + unat w < 2 ^ LENGTH('a) \<Longrightarrow> unat (v + w :: 'a::len word) = unat v + unat w"
  by (simp add: unat_word_ariths)

lemma unat_two_power: "k < LENGTH('a) \<Longrightarrow> unat (2 ^ k :: 'a::len word) = 2 ^ k"
proof -
  assume "k < LENGTH('a)"
  then have "(2 :: nat) ^ k < 2 ^ LENGTH('a)" by simp
  then have "unat (of_nat (2 ^ k) :: 'a word) = 2 ^ k" by (simp only: unat_of_nat mod_less)
  then show ?thesis by simp
qed

lemma all_less_16: "(\<forall>n < 16. P n) \<longleftrightarrow> P 0 \<and> P 1 \<and> P 2 \<and> P 3 \<and> P 4 \<and> P 5 \<and> P 6 \<and> P 7 \<and> P 8 \<and> P 9 \<and>
   P 10 \<and> P 11 \<and> P 12 \<and> P 13 \<and> P 14 \<and> P (15::nat)"
  by (simp add: eval_nat_numeral All_less_Suc) (metis One_nat_def)

lemma all_less_64: "(\<forall>n < (64 :: nat). P n) \<longleftrightarrow>
   P 0 \<and> P 1 \<and> P 2 \<and> P 3 \<and> P 4 \<and> P 5 \<and> P 6 \<and> P 7 \<and> P 8 \<and> P
   9 \<and> P 10 \<and> P 11 \<and> P 12 \<and> P 13 \<and> P 14 \<and> P 15 \<and> P 16 \<and> P 17
   \<and> P 18 \<and> P 19 \<and> P 20 \<and> P 21 \<and> P 22 \<and> P 23 \<and> P 24 \<and> P 25
   \<and> P 26 \<and> P 27 \<and> P 28 \<and> P 29 \<and> P 30 \<and> P 31 \<and> P 32 \<and> P 33
   \<and> P 34 \<and> P 35 \<and> P 36 \<and> P 37 \<and> P 38 \<and> P 39 \<and> P 40 \<and> P 41
   \<and> P 42 \<and> P 43 \<and> P 44 \<and> P 45 \<and> P 46 \<and> P 47 \<and> P 48 \<and> P 49
   \<and> P 50 \<and> P 51 \<and> P 52 \<and> P 53 \<and> P 54 \<and> P 55 \<and> P 56 \<and> P 57
   \<and> P 58 \<and> P 59 \<and> P 60 \<and> P 61 \<and> P 62 \<and> P 63"
proof -
  have "(\<forall>n < 64. P n) \<longleftrightarrow> (\<forall>n < 16. P n) \<and> (\<forall>n < 16. P (16 + n)) \<and> (\<forall>n < 16. P (32 + n)) \<and> (\<forall>n < 16. P (48 + n))"
  proof (intro iffI allI impI)
    fix n :: nat assume r: "(\<forall>n < 16. P n) \<and> (\<forall>n < 16. P (16 + n)) \<and> (\<forall>n < 16. P (32 + n)) \<and> (\<forall>n < 16. P (48 + n))" and "n < 64"
    then consider "n < 16" | "16 \<le> n" "n - 16 < 16" | "32 \<le> n" "n - 32 < 16" | "48 \<le> n" "n - 48 < 16" by linarith
    then show "P n"
    proof cases
      case 1 then show ?thesis using r by simp
    next
      case 2 then have "P (16 + (n - 16))" using r by blast
      then show ?thesis using 2 by simp
    next
      case 3 then have "P (32 + (n - 32))" using r by blast
      then show ?thesis using 3 by simp
    next
      case 4 then have "P (48 + (n - 48))" using r by blast
      then show ?thesis using 4 by simp
    qed
  qed auto
  then show ?thesis by (simp add: all_less_16)
qed

lemma mask_word_eq_minus_1: "LENGTH('a) \<le> k \<Longrightarrow> (mask k :: 'a::len word) = - 1"
  by (rule word_bits_eqI) (simp add: bits_simps)

lemma memcmp_zero [simp]: "length as = length bs \<Longrightarrow> memcmp as bs = 0 \<longleftrightarrow> as = bs"
  by (induction as bs rule: memcmp.induct) auto

lemma upt_split: "i \<le> j \<Longrightarrow> j \<le> k \<Longrightarrow> [i..<j] @ [j..<k] = [i..<k]"
  using upt_add_eq_append [of i j "k - j"] by simp

section \<open>Words byte by byte\<close>

lemma word16_bytes_eqI:
  fixes v w :: "16 word"
  assumes "\<And>j. j < 8 \<Longrightarrow> bit v (j) \<longleftrightarrow> bit w (j)"
    and "\<And>j. j < 8 \<Longrightarrow> bit v (8 + j) \<longleftrightarrow> bit w (8 + j)"
  shows "v = w"
proof (rule word_bits_eqI)
  fix n assume "n < LENGTH(16)"
  then consider "n < 8" | "8 \<le> n" "n < 16"
    using not_less by fastforce
  then show "bit v n \<longleftrightarrow> bit w n"
  proof cases
    case 1 then show ?thesis using assms(1) [of "n"] by simp
  next
    case 2 then show ?thesis using assms(2) [of "n - 8"] by simp
  qed
qed

lemma word32_bytes_eqI:
  fixes v w :: "32 word"
  assumes "\<And>j. j < 8 \<Longrightarrow> bit v (j) \<longleftrightarrow> bit w (j)"
    and "\<And>j. j < 8 \<Longrightarrow> bit v (8 + j) \<longleftrightarrow> bit w (8 + j)"
    and "\<And>j. j < 8 \<Longrightarrow> bit v (16 + j) \<longleftrightarrow> bit w (16 + j)"
    and "\<And>j. j < 8 \<Longrightarrow> bit v (24 + j) \<longleftrightarrow> bit w (24 + j)"
  shows "v = w"
proof (rule word_bits_eqI)
  fix n assume "n < LENGTH(32)"
  then consider "n < 8" | "8 \<le> n" "n < 16" | "16 \<le> n" "n < 24" | "24 \<le> n" "n < 32"
    using not_less by fastforce
  then show "bit v n \<longleftrightarrow> bit w n"
  proof cases
    case 1 then show ?thesis using assms(1) [of "n"] by simp
  next
    case 2 then show ?thesis using assms(2) [of "n - 8"] by simp
  next
    case 3 then show ?thesis using assms(3) [of "n - 16"] by simp
  next
    case 4 then show ?thesis using assms(4) [of "n - 24"] by simp
  qed
qed

lemma word64_bytes_eqI:
  fixes v w :: "64 word"
  assumes "\<And>j. j < 8 \<Longrightarrow> bit v (j) \<longleftrightarrow> bit w (j)"
    and "\<And>j. j < 8 \<Longrightarrow> bit v (8 + j) \<longleftrightarrow> bit w (8 + j)"
    and "\<And>j. j < 8 \<Longrightarrow> bit v (16 + j) \<longleftrightarrow> bit w (16 + j)"
    and "\<And>j. j < 8 \<Longrightarrow> bit v (24 + j) \<longleftrightarrow> bit w (24 + j)"
    and "\<And>j. j < 8 \<Longrightarrow> bit v (32 + j) \<longleftrightarrow> bit w (32 + j)"
    and "\<And>j. j < 8 \<Longrightarrow> bit v (40 + j) \<longleftrightarrow> bit w (40 + j)"
    and "\<And>j. j < 8 \<Longrightarrow> bit v (48 + j) \<longleftrightarrow> bit w (48 + j)"
    and "\<And>j. j < 8 \<Longrightarrow> bit v (56 + j) \<longleftrightarrow> bit w (56 + j)"
  shows "v = w"
proof (rule word_bits_eqI)
  fix n assume "n < LENGTH(64)"
  then consider "n < 8" | "8 \<le> n" "n < 16" | "16 \<le> n" "n < 24" | "24 \<le> n" "n < 32" | "32 \<le> n" "n < 40" | "40 \<le> n" "n < 48" | "48 \<le> n" "n < 56" | "56 \<le> n" "n < 64"
    using not_less by fastforce
  then show "bit v n \<longleftrightarrow> bit w n"
  proof cases
    case 1 then show ?thesis using assms(1) [of "n"] by simp
  next
    case 2 then show ?thesis using assms(2) [of "n - 8"] by simp
  next
    case 3 then show ?thesis using assms(3) [of "n - 16"] by simp
  next
    case 4 then show ?thesis using assms(4) [of "n - 24"] by simp
  next
    case 5 then show ?thesis using assms(5) [of "n - 32"] by simp
  next
    case 6 then show ?thesis using assms(6) [of "n - 40"] by simp
  next
    case 7 then show ?thesis using assms(7) [of "n - 48"] by simp
  next
    case 8 then show ?thesis using assms(8) [of "n - 56"] by simp
  qed
qed

lemma uchar_bit_ge [simp]: "8 \<le> n \<Longrightarrow> \<not> bit (b :: uchar) n"
  by (auto dest: bit_imp_le_length)

lemma ulonglong_bit_ge [simp]: "64 \<le> n \<Longrightarrow> \<not> bit (b :: ulonglong) n"
  by (auto dest: bit_imp_le_length)

lemma word_small_no_bit: "unat (w :: 'a::len word) < 2 ^ k \<Longrightarrow> k \<le> n \<Longrightarrow> \<not> bit w n"
proof -
  assume "unat w < 2 ^ k" "k \<le> n"
  then have "unat w < 2 ^ n" by (meson less_le_trans one_le_numeral power_increasing)
  then have "\<not> bit (unat w) n" by (simp add: bit_iff_odd)
  then show ?thesis by (simp add: bit_unsigned_iff)
qed

lemma unat_Suc_word: "unat w + 1 < 2 ^ LENGTH('a) \<Longrightarrow> unat (w + 1 :: 'a::len word) = unat w + 1"
  by (simp add: unat_word_ariths)

lemma unat_Suc_below:
  fixes w v :: "'a::len word"
  shows "unat w < unat v \<Longrightarrow> unat (w + 1) = unat w + 1"
  using unsigned_less [of v, where ?'a = nat] by (intro unat_Suc_word) linarith

lemma unat_of_nat_small: "n < 2 ^ LENGTH('a) \<Longrightarrow> unat (of_nat n :: 'a::len word) = n"
  by (simp only: unat_of_nat mod_less)

lemma sint_word_of_int_small:
  assumes "- (2 ^ (LENGTH('a) - 1)) \<le> k" "k < 2 ^ (LENGTH('a) - 1)"
  shows "sint (word_of_int k :: 'a::len word) = k"
  using assms by (simp add: sint_sbintrunc' signed_take_bit_int_eq_self)

lemma sint_unat_small:
  assumes "unat (w :: 'a::len word) < 2 ^ (LENGTH('a) - 1)"
  shows "sint w = int (unat w)"
proof -
  have "int (unat w) < 2 ^ (LENGTH('a) - 1)" using assms by (simp del: of_nat_unat)
  then have "sint (word_of_int (int (unat w)) :: 'a word) = int (unat w)"
    by (intro sint_word_of_int_small) (auto intro: order_trans [of _ 0] simp del: of_nat_unat)
  then show ?thesis by simp
qed

end
