(* ===== verification/My_Bit.thy ===== *)
theory My_Bit imports Prelude begin

unbundle bit_operations_syntax

text \<open>
  The bit functions of \<open>private/my_bit.h\<close>: the logarithm cascade, the parallel population
  count, rounding to a power of two, clearing the highest bit, reversing a word through the byte
  table, the masks, and the search for the lowest set bit. The byte table
  \<open>_my_bits_reverse_table\<close> is defined outside the headers and is a parameter.
\<close>

section \<open>Definitions\<close>

subsection \<open>Position of the highest bit\<close>

definition my_bit_log2_hex_digit :: "uint8 \<Rightarrow> uint" where
  "my_bit_log2_hex_digit value =
     (if value AND 0x0C \<noteq> 0 then (if value AND 0x08 \<noteq> 0 then 3 else 2)
      else (if value AND 0x02 \<noteq> 0 then 1 else 0))"

definition my_bit_log2_uint8 :: "uint8 \<Rightarrow> uint" where
  "my_bit_log2_uint8 value =
     (if value AND 0xF0 \<noteq> 0 then my_bit_log2_hex_digit (drop_bit 4 value) + 4
      else my_bit_log2_hex_digit value)"

definition my_bit_log2_uint16 :: "uint16 \<Rightarrow> uint" where
  "my_bit_log2_uint16 value =
     (if value AND 0xFF00 \<noteq> 0 then my_bit_log2_uint8 (ucast (drop_bit 8 value)) + 8
      else my_bit_log2_uint8 (ucast value))"

definition my_bit_log2_uint32 :: "uint32 \<Rightarrow> uint" where
  "my_bit_log2_uint32 value =
     (if value AND 0xFFFF0000 \<noteq> 0 then my_bit_log2_uint16 (ucast (drop_bit 16 value)) + 16
      else my_bit_log2_uint16 (ucast value))"

definition my_bit_log2_uint64 :: "ulonglong \<Rightarrow> uint" where
  "my_bit_log2_uint64 value =
     (if value AND 0xFFFFFFFF00000000 \<noteq> 0 then my_bit_log2_uint32 (ucast (drop_bit 32 value)) + 32
      else my_bit_log2_uint32 (ucast value))"

definition my_bit_log2_size_t :: "size_t \<Rightarrow> uint" where
  "my_bit_log2_size_t value = my_bit_log2_uint64 value"

subsection \<open>Counting bits\<close>

definition my_count_bits_uint32 :: "uint32 \<Rightarrow> uint" where
  "my_count_bits_uint32 v0 =
     (let v1 = v0 - (drop_bit 1 v0 AND 0x55555555);
          v2 = (v1 AND 0x33333333) + (drop_bit 2 v1 AND 0x33333333)
      in drop_bit 24 (((v2 + drop_bit 4 v2) AND 0xF0F0F0F) * 0x1010101))"

definition my_count_bits :: "ulonglong \<Rightarrow> uint" where
  "my_count_bits x = my_count_bits_uint32 (ucast x) + my_count_bits_uint32 (ucast (drop_bit 32 x))"

subsection \<open>Powers of two\<close>

definition my_round_up_to_next_power :: "uint32 \<Rightarrow> uint32" where
  "my_round_up_to_next_power v0 =
     (let v = v0 - 1;
          v = v OR drop_bit 1 v;
          v = v OR drop_bit 2 v;
          v = v OR drop_bit 4 v;
          v = v OR drop_bit 8 v;
          v = v OR drop_bit 16 v
      in v + 1)"

definition my_clear_highest_bit :: "uint32 \<Rightarrow> uint32" where
  "my_clear_highest_bit v =
     (let w = drop_bit 1 v;
          w = w OR drop_bit 1 w;
          w = w OR drop_bit 2 w;
          w = w OR drop_bit 4 w;
          w = w OR drop_bit 8 w;
          w = w OR drop_bit 16 w
      in v AND w)"

subsection \<open>Reversal and masks\<close>

definition my_reverse_bits :: "(uint32 \<Rightarrow> uchar) \<Rightarrow> uint32 \<Rightarrow> uint32" where
  "my_reverse_bits tbl key =
     push_bit 24 (ucast (tbl (key AND 255))) OR
     push_bit 16 (ucast (tbl (drop_bit 8 key AND 255))) OR
     push_bit 8 (ucast (tbl (drop_bit 16 key AND 255))) OR
     ucast (tbl (drop_bit 24 key))"

definition my_set_bits :: "nat \<Rightarrow> ulonglong" where
  "my_set_bits n = push_bit 1 (push_bit (n - 1) 1 - 1) OR 1"

definition last_byte_mask :: "uint \<Rightarrow> uchar" where
  "last_byte_mask bits =
     (let used = (bits - 1) AND 7 in ucast (push_bit (unat used) (2 :: uint) - 1))"

subsection \<open>Position of the lowest bit\<close>

definition last_bit :: "nat list" where
  "last_bit = [32, 0, 1, 0,
               2, 0, 1, 0,
               3, 0, 1, 0,
               2, 0, 1, 0]"

text \<open>
  The loop of the generic branch. The source leaves it only at a set bit; the model bounds the
  shift by the word width, and for the nonzero words the function is entered with, the bound is
  never reached (\<open>ffb_loop_least\<close> below).
\<close>

function ffb_loop :: "ulonglong \<Rightarrow> nat \<Rightarrow> nat" where
  "ffb_loop n shift =
     (let bit_nr = last_bit ! unat (drop_bit shift n AND 0xF)
      in if bit_nr = 32 \<and> shift < 64 then ffb_loop n (shift + 4) else shift + bit_nr)"
  by pat_completeness auto
termination
  by (relation "measure (\<lambda>(n, shift). 64 - shift)") auto

declare ffb_loop.simps [simp del]

definition my_find_first_bit :: "ulonglong \<Rightarrow> uint" where
  "my_find_first_bit n = (if n = 0 then 64 else word_of_nat (ffb_loop n 0))"

section \<open>The highest bit\<close>

text \<open>\<open>is_log2 w k\<close>: \<open>k\<close> is the position of the highest set bit of \<open>w\<close> (0 for 0).\<close>

definition is_log2 :: "'a::len word \<Rightarrow> uint \<Rightarrow> bool" where
  "is_log2 w k \<longleftrightarrow> (if w = 0 then k = 0
     else 2 ^ unat k \<le> unat w \<and> unat w < 2 ^ Suc (unat k))"

lemma power_two_bounds_unique:
  assumes "2 ^ a \<le> n" "n < 2 ^ Suc a" "2 ^ b \<le> n" "n < (2::nat) ^ Suc b"
  shows "a = b"
proof -
  have "2 ^ a < (2 :: nat) ^ Suc b" "2 ^ b < (2 :: nat) ^ Suc a"
    using assms by linarith+
  then have "a < Suc b" "b < Suc a"
    by (simp_all only: power_strict_increasing_iff)
  then show ?thesis by simp
qed

lemma is_log2_unique: "is_log2 w k \<Longrightarrow> is_log2 w k' \<Longrightarrow> k = k'"
  unfolding is_log2_def
  by (cases "w = 0") (auto simp del: power_Suc intro: power_two_bounds_unique word_unat_eq_iff [THEN iffD2])

text \<open>One step of the cascade: the logarithm of the upper half plus its offset, or of the lower half.\<close>

lemma is_log2_bound:
  assumes "is_log2 (w :: 'a::len word) k" shows "unat k < LENGTH('a)"
proof (cases "w = 0")
  case False
  have "(2 :: nat) ^ unat k < 2 ^ LENGTH('a)"
    using False assms unat_less_length [of w] unfolding is_log2_def by (meson le_less_trans)
  then show ?thesis by simp
qed (use assms in \<open>simp add: is_log2_def\<close>)

lemma is_log2_high:
  fixes w :: "'a::len word"
  assumes hi: "is_log2 (ucast (drop_bit s w) :: 'b::len word) k"
    and nz: "2 ^ s \<le> unat w" and len: "LENGTH('a) \<le> LENGTH('b) + s" and small: "LENGTH('b) + s < 2 ^ 32"
  shows "is_log2 w (k + word_of_nat s)"
proof -
  let ?h = "ucast (drop_bit s w) :: 'b word"
  have h: "unat ?h = unat w div 2 ^ s"
  proof -
    have "unat w < 2 ^ (LENGTH('b) + s)"
      using unat_less_length [of w] power_increasing [OF len, of "2::nat"] by linarith
    then have "unat w div 2 ^ s < 2 ^ LENGTH('b)"
      by (simp add: less_mult_imp_div_less power_add)
    then show ?thesis
      by (simp add: unat_ucast_mod unat_drop_bit_div)
  qed
  have pos: "0 < unat w div 2 ^ s"
    using nz by (simp add: div_greater_zero_iff)
  then have "?h \<noteq> 0" using h by (metis unat_0 less_irrefl)
  then have b: "2 ^ unat k \<le> unat w div 2 ^ s" "unat w div 2 ^ s < 2 ^ Suc (unat k)"
    using hi h by (auto simp: is_log2_def)
  have k: "unat k < LENGTH('b)" using is_log2_bound [OF hi] .
  then have ks: "unat (k + word_of_nat s) = unat k + s"
    using small by (simp add: unat_word_ariths unat_of_nat take_bit_eq_mod)
  have "2 ^ (unat k + s) \<le> unat w"
    using b(1) by (simp add: power_add less_eq_div_iff_mult_less_eq)
  moreover have "unat w < 2 ^ (Suc (unat k) + s)"
    using b(2) by (simp add: power_add div_less_iff_less_mult)
  moreover have "w \<noteq> 0" using nz by auto
  ultimately show ?thesis by (simp add: is_log2_def ks)
qed

lemma is_log2_low:
  fixes w :: "'a::len word"
  assumes lo: "is_log2 (ucast w :: 'b::len word) k" and fits: "unat w < 2 ^ LENGTH('b)"
  shows "is_log2 w k"
proof -
  have "unat (ucast w :: 'b word) = unat w"
    using fits by (simp add: unat_ucast_mod)
  then show ?thesis using lo unfolding is_log2_def by (metis unat_eq_zero)
qed

lemma high_part_zero:
  fixes w :: "'a::len word"
  shows "w AND NOT (mask s) = 0 \<longleftrightarrow> unat w < 2 ^ s"
proof -
  have "w AND NOT (mask s) = 0 \<longleftrightarrow> drop_bit s w = 0"
  proof
    assume "w AND NOT (mask s) = 0"
    then have "\<not> bit (w AND NOT (mask s)) (s + n)" for n by simp
    then show "drop_bit s w = 0"
      by (intro word_bits_eqI) (auto simp: bits_simps dest: bit_imp_le_length)
  next
    assume *: "drop_bit s w = 0"
    have "\<not> bit w n" if "s \<le> n" for n
    proof -
      have "bit (drop_bit s w) (n - s) = bit w n" using that by (simp only: bit_drop_word) simp
      then show ?thesis using * by simp
    qed
    then show "w AND NOT (mask s) = 0"
      by (intro word_bits_eqI) (auto simp: bits_simps not_less)
  qed
  also have "\<dots> \<longleftrightarrow> unat w div 2 ^ s = 0"
    by (metis unat_drop_bit_div unat_eq_zero)
  finally show ?thesis by (simp add: div_eq_0_iff)
qed

lemma high_mask8: "(v AND 0xF0 = 0) \<longleftrightarrow> unat v < 2 ^ 4" for v :: uint8
proof -
  have "(0xF0 :: uint8) = NOT (mask 4)" by (simp add: mask_eq_exp_minus_1)
  then show ?thesis by (simp only: high_part_zero)
qed

lemma high_mask16: "(v AND 0xFF00 = 0) \<longleftrightarrow> unat v < 2 ^ 8" for v :: uint16
proof -
  have "(0xFF00 :: uint16) = NOT (mask 8)" by (simp add: mask_eq_exp_minus_1)
  then show ?thesis by (simp only: high_part_zero)
qed

lemma high_mask32: "(v AND 0xFFFF0000 = 0) \<longleftrightarrow> unat v < 2 ^ 16" for v :: uint32
proof -
  have "(0xFFFF0000 :: uint32) = NOT (mask 16)" by (simp add: mask_eq_exp_minus_1)
  then show ?thesis by (simp only: high_part_zero)
qed

lemma high_mask64: "(v AND 0xFFFFFFFF00000000 = 0) \<longleftrightarrow> unat v < 2 ^ 32" for v :: ulonglong
proof -
  have "(0xFFFFFFFF00000000 :: ulonglong) = NOT (mask 32)" by (simp add: mask_eq_exp_minus_1)
  then show ?thesis by (simp only: high_part_zero)
qed

lemmas high_mask_zero = high_mask8 high_mask16 high_mask32 high_mask64

lemma is_log2_hex_digit: "unat v < 16 \<Longrightarrow> is_log2 v (my_bit_log2_hex_digit v)"
proof -
  have "list_all (\<lambda>n. is_log2 (word_of_nat n :: 8 word) (my_bit_log2_hex_digit (word_of_nat n))) [0..<16]"
    by code_simp
  then have "\<forall>n < 16. is_log2 (word_of_nat n :: 8 word) (my_bit_log2_hex_digit (word_of_nat n))"
    by (simp only: list_all_iff set_upt atLeastLessThan_iff) simp
  moreover assume "unat v < 16"
  ultimately show ?thesis by (metis of_nat_unat ucast_id)
qed

lemma is_log2_uint8: "is_log2 v (my_bit_log2_uint8 v)"
proof (cases "2 ^ 4 \<le> unat v")
  case True
  have "unat v < 2 ^ 8" using unat_less_length [of v] by simp
  then have "unat (drop_bit 4 v) < 16" by (simp add: unat_drop_bit_div)
  then have "is_log2 (ucast (drop_bit 4 v) :: 8 word) (my_bit_log2_hex_digit (drop_bit 4 v))"
    using is_log2_hex_digit by simp
  from is_log2_high [OF this True] True show ?thesis
    by (simp add: my_bit_log2_uint8_def high_mask_zero)
next
  case False
  then show ?thesis using is_log2_hex_digit [of v]
    by (simp add: my_bit_log2_uint8_def high_mask_zero)
qed

lemma is_log2_uint16: "is_log2 v (my_bit_log2_uint16 v)"
  using is_log2_high [OF is_log2_uint8, of 8 v] is_log2_low [OF is_log2_uint8, of v]
  by (auto simp: my_bit_log2_uint16_def high_mask_zero)

lemma is_log2_uint32: "is_log2 v (my_bit_log2_uint32 v)"
  using is_log2_high [OF is_log2_uint16, of 16 v] is_log2_low [OF is_log2_uint16, of v]
  by (auto simp: my_bit_log2_uint32_def high_mask_zero)

lemma is_log2_uint64: "is_log2 v (my_bit_log2_uint64 v)"
  using is_log2_high [OF is_log2_uint32, of 32 v] is_log2_low [OF is_log2_uint32, of v]
  by (auto simp: my_bit_log2_uint64_def high_mask_zero)

section \<open>Smearing the highest bit downwards\<close>

definition smeared :: "uint32 \<Rightarrow> nat \<Rightarrow> uint32 \<Rightarrow> bool" where
  "smeared v k w \<longleftrightarrow> (\<forall>n. bit w n \<longleftrightarrow> (\<exists>j < k. bit v (n + j)))"

lemma smeared_start: "smeared v 1 v"
  by (simp add: smeared_def)

lemma smeared_step:
  assumes "smeared v k w" shows "smeared v (2 * k) (w OR drop_bit k w)"
proof -
  have "(\<exists>j < k. bit v (n + j)) \<or> (\<exists>j < k. bit v (k + n + j)) \<longleftrightarrow> (\<exists>j < 2 * k. bit v (n + j))" for n
  proof
    assume "\<exists>j < 2 * k. bit v (n + j)"
    then obtain j where j: "j < 2 * k" "bit v (n + j)" by blast
    show "(\<exists>j < k. bit v (n + j)) \<or> (\<exists>j < k. bit v (k + n + j))"
    proof (cases "j < k")
      case False
      then have "j - k < k" "k + n + (j - k) = n + j" using j by auto
      then show ?thesis using j by metis
    qed (use j in blast)
  next
    assume "(\<exists>j < k. bit v (n + j)) \<or> (\<exists>j < k. bit v (k + n + j))"
    then show "\<exists>j < 2 * k. bit v (n + j)"
    proof
      assume "\<exists>j < k. bit v (k + n + j)"
      then obtain j where "j < k" "bit v (n + (k + j))" by (auto simp: ac_simps)
      then show ?thesis by (intro exI [of _ "k + j"]) simp
    next
      assume "\<exists>j < k. bit v (n + j)"
      then obtain j where "j < k" "bit v (n + j)" by blast
      then show ?thesis by (intro exI [of _ j]) simp
    qed
  qed
  then show ?thesis using assms by (simp add: smeared_def bits_simps)
qed

definition smear :: "uint32 \<Rightarrow> uint32" where
  "smear v = (let v = v OR drop_bit 1 v; v = v OR drop_bit 2 v; v = v OR drop_bit 4 v;
                  v = v OR drop_bit 8 v in v OR drop_bit 16 v)"

lemma bit_smear: "bit (smear v) n \<longleftrightarrow> (\<exists>m \<ge> n. bit v m)"
proof -
  have "smeared v 32 (smear v)"
    unfolding smear_def Let_def
    using smeared_step [OF smeared_step [OF smeared_step [OF smeared_step [OF smeared_step [OF smeared_start [of v]]]]]]
    by simp
  then have "bit (smear v) n \<longleftrightarrow> (\<exists>j < 32. bit v (n + j))" by (simp add: smeared_def)
  also have "\<dots> \<longleftrightarrow> (\<exists>m \<ge> n. bit v m)"
  proof
    assume "\<exists>m \<ge> n. bit v m"
    then obtain m where m: "n \<le> m" "bit v m" by blast
    from bit_imp_le_length [OF m(2)] have "m < 32" by simp
    then show "\<exists>j < 32. bit v (n + j)" using m by (intro exI [of _ "m - n"]) auto
  qed (meson le_add1)
  finally show ?thesis .
qed

lemma is_log2_bit:
  assumes "is_log2 (w :: 'a::len word) k" "w \<noteq> 0"
  shows "bit w (unat k)" and "bit w m \<Longrightarrow> m \<le> unat k"
proof -
  have b: "2 ^ unat k \<le> unat w" "unat w < 2 ^ Suc (unat k)" using assms by (auto simp: is_log2_def)
  have "unat w div 2 ^ unat k = 1"
    using b by (auto intro: div_nat_eqI)
  moreover have "bit w (unat k) = bit (unat w) (unat k)" by (simp add: bit_unsigned_iff)
  ultimately show "bit w (unat k)" by (simp add: bit_iff_odd)
  show "m \<le> unat k" if "bit w m"
  proof (rule ccontr)
    assume "\<not> m \<le> unat k"
    then have "unat w < 2 ^ m" using b(2) power_increasing [of "Suc (unat k)" m "2::nat"] by simp
    then have "\<not> bit (unat w) m" by (simp add: bit_iff_odd)
    then show False using that by (simp add: bit_unsigned_iff)
  qed
qed

lemma smear_mask:
  assumes "is_log2 v k" "v \<noteq> 0" shows "smear v = mask (Suc (unat k))"
  using is_log2_bit [OF assms] by (intro word_bits_eqI) (auto simp: bit_smear bits_simps less_Suc_eq_le intro: le_trans)

lemma my_round_up_spec:
  assumes "0 < unat v" "unat v \<le> 2 ^ 31"
  shows "\<exists>k \<le> 31. unat (my_round_up_to_next_power v) = 2 ^ k \<and> unat v \<le> 2 ^ k \<and> (\<forall>j. unat v \<le> 2 ^ j \<longrightarrow> k \<le> j)"
proof (cases "v = 1")
  case True
  then show ?thesis by (intro exI [of _ 0]) (simp add: my_round_up_to_next_power_def)
next
  case False
  have u: "unat (v - 1) = unat v - 1"
    using unat_sub [of 1 v] assms(1) by (simp add: word_le_nat_alt)
  have nz: "v - 1 \<noteq> 0" using False by simp
  let ?l = "my_bit_log2_uint32 (v - 1)"
  have l: "is_log2 (v - 1) ?l" by (rule is_log2_uint32)
  then have b: "2 ^ unat ?l \<le> unat v - 1" "unat v - 1 < 2 ^ Suc (unat ?l)"
    using nz u by (auto simp: is_log2_def)
  have "2 ^ unat ?l < (2::nat) ^ 31" using b(1) assms by linarith
  then have l31: "Suc (unat ?l) \<le> 31" by (simp only: power_strict_increasing_iff) 
  have r: "my_round_up_to_next_power v = mask (Suc (unat ?l)) + 1"
    using smear_mask [OF l nz] by (simp add: my_round_up_to_next_power_def smear_def Let_def)
  have "mask (Suc (unat ?l)) + 1 = (2 :: uint32) ^ Suc (unat ?l)"
    by (simp add: mask_eq_exp_minus_1)
  then have "unat (my_round_up_to_next_power v) = 2 ^ Suc (unat ?l)"
    using r l31 by (simp add: unat_two_power del: power_Suc)
  moreover have "unat v \<le> 2 ^ Suc (unat ?l)" using b(2) assms(1) by linarith
  moreover have "Suc (unat ?l) \<le> j" if "unat v \<le> 2 ^ j" for j
  proof -
    have "2 ^ unat ?l < (2::nat) ^ j" using b(1) assms(1) that by linarith
    then show ?thesis by (simp add: Suc_leI)
  qed
  ultimately show ?thesis using l31 by blast
qed

lemma my_clear_highest_bit_smear: "my_clear_highest_bit v = v AND smear (drop_bit 1 v)"
  by (simp add: my_clear_highest_bit_def smear_def Let_def)

lemma bit_clear_highest: "bit (my_clear_highest_bit v) n \<longleftrightarrow> bit v n \<and> (\<exists>m > n. bit v m)"
proof -
  have "(\<exists>m \<ge> n. bit v (1 + m)) \<longleftrightarrow> (\<exists>m > n. bit v m)"
    by (metis Suc_le_eq Suc_le_mono less_imp_Suc_add plus_1_eq_Suc le_add1)
  then show ?thesis by (simp only: my_clear_highest_bit_smear bit_and_iff bit_smear bit_drop_word)
qed

lemma my_clear_highest_bit_spec:
  assumes "v \<noteq> 0"
  shows "my_clear_highest_bit v = v AND NOT (2 ^ unat (my_bit_log2_uint32 v))"
proof (rule word_bits_eqI)
  fix n
  let ?k = "unat (my_bit_log2_uint32 v)"
  have k: "bit v ?k" "bit v m \<Longrightarrow> m \<le> ?k" for m
    by (rule is_log2_bit [OF is_log2_uint32 assms])+
  have "(\<exists>m > n. bit v m) \<longleftrightarrow> n < ?k" using k by (meson less_le_trans)
  moreover have "bit v n \<Longrightarrow> n < ?k \<longleftrightarrow> n \<noteq> ?k" using k(2) by (auto simp: le_less)
  ultimately show "bit (my_clear_highest_bit v) n = bit (v AND NOT (2 ^ ?k)) n"
    by (auto simp: bit_clear_highest bits_simps dest: bit_imp_le_length)
qed

definition reverses_bytes :: "(uint32 \<Rightarrow> uchar) \<Rightarrow> bool" where
  "reverses_bytes tbl \<longleftrightarrow> (\<forall>i < 256. \<forall>n < 8. bit (tbl i) n \<longleftrightarrow> bit i (7 - n))"

lemma and_255: "w AND 255 = take_bit 8 (w :: uint32)"
proof -
  have "(255 :: uint32) = mask 8" by (simp add: mask_eq_exp_minus_1)
  then show ?thesis by (simp only: take_bit_eq_mask)
qed

lemma my_reverse_bits_spec:
  assumes "reverses_bytes tbl" "n < 32"
  shows "bit (my_reverse_bits tbl key) n \<longleftrightarrow> bit key (31 - n)"
proof -
  have lt: "w AND 255 < (256 :: uint32)" for w
    by (rule le_less_trans [OF word_and_le1]) simp
  have "drop_bit 24 key < (256 :: uint32)"
    using unat_less_length [of key] by (simp add: word_less_nat_alt unat_drop_bit_div less_mult_imp_div_less)
  then have t: "m < 8 \<Longrightarrow> bit (tbl (drop_bit 24 key)) m \<longleftrightarrow> bit key (31 - m)"
    "m < 8 \<Longrightarrow> bit (tbl (drop_bit 16 key AND 255)) m \<longleftrightarrow> bit key (23 - m)"
    "m < 8 \<Longrightarrow> bit (tbl (drop_bit 8 key AND 255)) m \<longleftrightarrow> bit key (15 - m)"
    "m < 8 \<Longrightarrow> bit (tbl (key AND 255)) m \<longleftrightarrow> bit key (7 - m)" for m
    using assms(1) lt by (simp_all add: reverses_bytes_def bits_simps and_255 bit_take_bit_iff) linarith+
  have o: "bit (b :: uchar) m \<Longrightarrow> m < 8" for b m by (drule bit_imp_le_length) simp
  consider "n < 8" | "8 \<le> n" "n < 16" | "16 \<le> n" "n < 24" | "24 \<le> n" using assms(2) by linarith
  then show ?thesis
    using assms(2) by cases (auto simp: my_reverse_bits_def bits_simps t dest: o)
qed

lemma my_set_bits_spec:
  assumes "1 \<le> n" "n \<le> 64" shows "my_set_bits n = mask n"
proof -
  have m: "push_bit (n - 1) 1 - 1 = (mask (n - 1) :: ulonglong)" by (simp add: mask_eq_exp_minus_1)
  show ?thesis unfolding my_set_bits_def m
    using assms by (intro word_bits_eqI, unfold bits_simps bit_1_iff) auto
qed

lemma last_byte_mask_spec:
  assumes "bits \<noteq> 0" shows "last_byte_mask bits = mask (Suc ((unat bits - 1) mod 8))"
proof -
  have "(7 :: uint) = mask 3" by (simp add: mask_eq_exp_minus_1)
  then have "(bits - 1) AND 7 = take_bit 3 (bits - 1)" by (simp only: take_bit_eq_mask)
  then have "unat ((bits - 1) AND 7) = unat (bits - 1) mod 8"
    by (simp add: unsigned_take_bit_eq) (simp add: take_bit_eq_mod)
  moreover have "1 \<le> unat bits" using assms unat_gt_0 [of bits] by linarith
  ultimately have u: "unat ((bits - 1) AND 7) = (unat bits - 1) mod 8"
    using unat_sub [of 1 bits] by (simp add: word_le_nat_alt)
  have "push_bit k (2 :: uint) - 1 = mask (Suc k)" for k
    by (simp add: mask_eq_exp_minus_1 push_bit_eq_mult mult.commute)
  then have "last_byte_mask bits = ucast (mask (Suc ((unat bits - 1) mod 8)) :: uint)"
    by (simp only: last_byte_mask_def Let_def u)
  then show ?thesis by (auto intro!: word_bits_eqI simp: bits_simps)
qed

lemma last_bit_lowest:
  "k < 16 \<Longrightarrow> last_bit ! k =
     (if k = 0 then 32 else if odd k then 0 else if odd (k div 2) then 1 else if odd (k div 4) then 2 else 3)"
proof -
  have "\<forall>k < 16. last_bit ! k =
     (if k = 0 then 32 else if odd k then 0 else if odd (k div 2) then 1 else if odd (k div 4) then 2 else 3)"
    unfolding all_less_16 by (simp add: last_bit_def)
  then show "k < 16 \<Longrightarrow> ?thesis" by blast
qed

lemma bit_0_nat: "(k :: nat) = 0 \<longleftrightarrow> (\<forall>j. \<not> bit k j)"
  by (auto simp: bit_eq_iff)

lemma last_bit_spec:
  assumes "k < 16" "\<exists>j < 4. bit k j"
  shows "last_bit ! k < 4 \<and> bit k (last_bit ! k) \<and> (\<forall>i < last_bit ! k. \<not> bit k i)"
proof -
  have "k \<noteq> 0" using assms(2) bit_0_nat [of k] by auto
  have j: "j < 4 \<Longrightarrow> j = 0 \<or> j = 1 \<or> j = 2 \<or> j = 3" for j :: nat by auto
  consider "bit k 0" | "\<not> bit k 0" "bit k 1" | "\<not> bit k 0" "\<not> bit k 1" "bit k 2"
    | "\<not> bit k 0" "\<not> bit k 1" "\<not> bit k 2" "bit k 3"
    using assms(2) j by blast
  moreover have "bit k 0 \<longleftrightarrow> odd k" "bit k 1 \<longleftrightarrow> odd (k div 2)" "bit k 2 \<longleftrightarrow> odd (k div 4)"
    by (simp_all add: bit_iff_odd)
  moreover have "(\<forall>i < 2. P i) \<longleftrightarrow> P 0 \<and> P 1" "(\<forall>i < 3. P i) \<longleftrightarrow> P 0 \<and> P 1 \<and> P 2" for P :: "nat \<Rightarrow> bool"
    by (auto simp: numeral_eq_Suc less_Suc_eq)
  ultimately show ?thesis
    using last_bit_lowest [OF assms(1)] \<open>k \<noteq> 0\<close> by cases simp_all
qed

lemma ffb_nibble:
  fixes n :: ulonglong and shift :: nat
  defines "k \<equiv> unat (drop_bit shift n AND 0xF)"
  shows "k < 16" and "bit k j \<longleftrightarrow> j < 4 \<and> bit n (shift + j)"
proof -
  have "(0xF :: ulonglong) = mask 4" by (simp add: mask_eq_exp_minus_1)
  then have e: "drop_bit shift n AND 0xF = take_bit 4 (drop_bit shift n)" by (simp only: take_bit_eq_mask)
  show "k < 16" unfolding k_def e by (simp add: unsigned_take_bit_eq) (simp add: take_bit_eq_mod)
  show "bit k j \<longleftrightarrow> j < 4 \<and> bit n (shift + j)"
    unfolding k_def e by (auto simp: bit_unsigned_iff bit_take_bit_iff bits_simps)
qed

lemma ffb_loop_least:
  assumes "m \<ge> shift" "bit n m" "\<forall>i < shift. \<not> bit n i"
  shows "bit n (ffb_loop n shift) \<and> (\<forall>i < ffb_loop n shift. \<not> bit n i)"
  using assms
proof (induction n shift rule: ffb_loop.induct)
  case (1 n shift)
  let ?k = "unat (drop_bit shift n AND 0xF)"
  note k = ffb_nibble [of shift n]
  have m64: "m < 64" using bit_imp_le_length [OF 1(3)] by simp
  show ?case
  proof (cases "?k = 0")
    case True
    then have none: "\<not> bit n (shift + j)" if "j < 4" for j using k(2) [of j] that bit_0_nat [of ?k] by blast
    have below: "\<not> bit n i" if "i < shift + 4" for i
      using none [of "i - shift"] "1.prems"(3) that by (cases "i < shift") auto
    then have "shift + 4 \<le> m" using "1.prems"(2) not_less by blast
    moreover have "last_bit ! ?k = 32" using True by (simp add: last_bit_def)
    ultimately show ?thesis
      using "1.IH" [OF refl] m64 "1.prems" below by (subst (1 2) ffb_loop.simps) (simp add: Let_def)
  next
    case False
    define b where "b = last_bit ! ?k"
    obtain j where "bit ?k j" using False bit_0_nat [of ?k] by auto
    then have "\<exists>j < 4. bit ?k j" using k(2) [of j] by auto
    with k(1) have b: "b < 4 \<and> bit ?k b \<and> (\<forall>i < b. \<not> bit ?k i)"
      unfolding b_def by (rule last_bit_spec)
    then have b4: "b < 4" and bb: "bit ?k b" and bl: "\<forall>i < b. \<not> bit ?k i" by blast+
    have "ffb_loop n shift = shift + b"
      using b4 by (subst ffb_loop.simps) (simp add: Let_def b_def)
    moreover have "bit n (shift + b)" using bb k(2) by blast
    moreover have "\<not> bit n i" if "i < shift + b" for i
    proof (cases "i < shift")
      case False
      then have "i - shift < b" using that by linarith
      then have "\<not> bit ?k (i - shift)" using bl by blast
      then show ?thesis using k(2) [of "i - shift"] False \<open>i - shift < b\<close> b4 by simp
    qed (use "1.prems"(3) in blast)
    ultimately show ?thesis by simp
  qed
qed

lemma my_find_first_bit_zero: "my_find_first_bit n = 64 \<longleftrightarrow> n = 0"
  and my_find_first_bit_least:
    "n \<noteq> 0 \<Longrightarrow> bit n (unat (my_find_first_bit n)) \<and> (\<forall>i < unat (my_find_first_bit n). \<not> bit n i)"
proof -
  have *: "bit n (unat (my_find_first_bit n)) \<and> (\<forall>i < unat (my_find_first_bit n). \<not> bit n i)" if nz: "n \<noteq> 0"
  proof -
    obtain m where "bit n m" using nz by (auto simp: word_nonzero_bit)
    then have l: "bit n (ffb_loop n 0) \<and> (\<forall>i < ffb_loop n 0. \<not> bit n i)"
      by (intro ffb_loop_least) auto
    then have "ffb_loop n 0 < 64" using bit_imp_le_length [of n "ffb_loop n 0"] by simp
    then have "unat (my_find_first_bit n) = ffb_loop n 0"
      using nz by (simp add: my_find_first_bit_def unat_of_nat)
    then show ?thesis using l by simp
  qed
  then show "n \<noteq> 0 \<Longrightarrow> bit n (unat (my_find_first_bit n)) \<and> (\<forall>i < unat (my_find_first_bit n). \<not> bit n i)" .
  show "my_find_first_bit n = 64 \<longleftrightarrow> n = 0"
    using * bit_imp_le_length [of n 64] by (cases "n = 0") (auto simp: my_find_first_bit_def [of 0])
qed

section \<open>Properties\<close>

text \<open>For a nonzero 64-bit value, \<open>my_bit_log2_uint64\<close> returns the position of its highest set
  bit: the value lies between that power of two and the next one.\<close>

theorem log2_highest_bit:
  assumes "v \<noteq> 0"
  shows "2 ^ unat (my_bit_log2_uint64 v) \<le> unat v \<and> unat v < 2 ^ Suc (unat (my_bit_log2_uint64 v))
    \<and> bit v (unat (my_bit_log2_uint64 v))"
  using is_log2_uint64 [of v] is_log2_bit(1) [OF is_log2_uint64 assms] assms by (simp add: is_log2_def)

theorem log2_highest_bit_witness:
  "(0x123456789A :: ulonglong) \<noteq> 0 \<and> my_bit_log2_uint64 0x123456789A = 36
   \<and> 2 ^ unat (my_bit_log2_uint64 0x123456789A) \<le> unat (0x123456789A :: ulonglong)"
proof -
  have "(0x123456789A :: ulonglong) \<noteq> 0" by simp
  moreover have "my_bit_log2_uint64 0x123456789A = 36" by code_simp
  ultimately show ?thesis using log2_highest_bit [of "0x123456789A"] by simp
qed

text \<open>\<open>my_round_up_to_next_power\<close> returns the least power of two that is not below its argument
  for every argument from 1 to \<open>2 ^ 31\<close>, and 0 for 0 and for every larger argument, where the
  32-bit result wraps around.\<close>

theorem round_up_least_power:
  "if v = 0 \<or> 2 ^ 31 < unat v then my_round_up_to_next_power v = 0
   else (\<exists>k \<le> 31. unat (my_round_up_to_next_power v) = 2 ^ k \<and> unat v \<le> 2 ^ k
           \<and> (\<forall>j < k. 2 ^ j < unat v))"
proof (cases "v = 0 \<or> 2 ^ 31 < unat v")
  case True
  then have "2 ^ 31 \<le> unat (v - 1)" and nz: "v - 1 \<noteq> 0"
    using unat_sub [of 1 v] by (auto simp: word_le_nat_alt unsigned_minus_1_eq_mask mask_eq_exp_minus_1)
  moreover have l: "is_log2 (v - 1) (my_bit_log2_uint32 (v - 1))" by (rule is_log2_uint32)
  ultimately have "2 ^ 31 < (2 :: nat) ^ Suc (unat (my_bit_log2_uint32 (v - 1)))"
    unfolding is_log2_def by (auto intro: le_less_trans)
  then have "32 \<le> Suc (unat (my_bit_log2_uint32 (v - 1)))"
    by (simp only: power_strict_increasing_iff)
  then have "smear (v - 1) = - 1"
    using smear_mask [OF l nz] by (simp add: mask_word_eq_minus_1)
  moreover have "my_round_up_to_next_power v = smear (v - 1) + 1"
    by (simp only: my_round_up_to_next_power_def smear_def Let_def)
  ultimately have "my_round_up_to_next_power v = 0" by simp
  with True show ?thesis by (simp only: if_True)
next
  case False
  then have "0 < unat v" "unat v \<le> 2 ^ 31" by (auto simp: unat_gt_0)
  then obtain k where "k \<le> 31" "unat (my_round_up_to_next_power v) = 2 ^ k" "unat v \<le> 2 ^ k"
      "\<forall>j. unat v \<le> 2 ^ j \<longrightarrow> k \<le> j"
    using my_round_up_spec [of v] by blast
  then have "\<exists>k \<le> 31. unat (my_round_up_to_next_power v) = 2 ^ k \<and> unat v \<le> 2 ^ k
      \<and> (\<forall>j < k. 2 ^ j < unat v)"
    by (metis not_le)
  with False show ?thesis by (simp only: if_False)
qed

theorem round_up_least_power_witness:
  "my_round_up_to_next_power 1000 = 1024 \<and>
   (\<exists>k \<le> 31. unat (my_round_up_to_next_power 1000) = 2 ^ k \<and> (1000 :: nat) \<le> 2 ^ k)"
  using round_up_least_power [of 1000] by (auto simp: my_round_up_to_next_power_def)

text \<open>\<open>my_find_first_bit\<close> returns 64 exactly for 0 and otherwise the position of the lowest set
  bit; in particular the generic table loop terminates at that bit.\<close>

theorem find_first_bit_least:
  "if n = 0 then my_find_first_bit n = 64
   else unat (my_find_first_bit n) < 64 \<and> bit n (unat (my_find_first_bit n))
      \<and> (\<forall>i < unat (my_find_first_bit n). \<not> bit n i)"
  using my_find_first_bit_least [of n] bit_imp_le_length [of n "unat (my_find_first_bit n)"]
    my_find_first_bit_zero [of n] by auto

theorem find_first_bit_least_witness:
  "my_find_first_bit 0x50 = 4 \<and> bit (0x50 :: ulonglong) 4 \<and> \<not> bit (0x50 :: ulonglong) 3"
proof -
  have "my_find_first_bit 0x50 = 4" by code_simp
  then show ?thesis using find_first_bit_least [of "0x50"] by simp
qed

text \<open>With a byte table that reverses the bits of each byte, \<open>my_reverse_bits\<close> reverses the 32
  bits of its argument, and applying it twice gives the argument back.\<close>

theorem reverse_bits_involution:
  assumes "reverses_bytes tbl"
  shows "(\<forall>n < 32. bit (my_reverse_bits tbl key) n \<longleftrightarrow> bit key (31 - n))
    \<and> my_reverse_bits tbl (my_reverse_bits tbl key) = key"
proof (intro conjI allI impI)
  show "bit (my_reverse_bits tbl key) n \<longleftrightarrow> bit key (31 - n)" if "n < 32" for n
    by (rule my_reverse_bits_spec [OF assms that])
  show "my_reverse_bits tbl (my_reverse_bits tbl key) = key"
    by (rule word_bits_eqI) (simp add: my_reverse_bits_spec [OF assms])
qed

text \<open>A table with that property, for the witness.\<close>

definition reverse_table :: "uint32 \<Rightarrow> uchar" where
  "reverse_table i = horner_sum of_bool 2 (map (\<lambda>n. bit i (7 - n)) [0..<8])"

theorem reverse_bits_involution_witness:
  "reverses_bytes reverse_table \<and> bit (my_reverse_bits reverse_table 0x12345678) 3
   \<and> my_reverse_bits reverse_table (my_reverse_bits reverse_table 0x12345678) = 0x12345678"
proof -
  have h: "reverses_bytes reverse_table"
    by (simp add: reverses_bytes_def reverse_table_def bit_horner_sum_bit_word_iff)
  have "bit (0x12345678 :: uint32) 28" by simp
  then show ?thesis using h reverse_bits_involution [OF h, of "0x12345678"] by simp
qed

end
