(* ===== verification/My_Bit_Count.thy ===== *)
theory My_Bit_Count imports My_Bit begin

unbundle bit_operations_syntax

text \<open>
  Correctness of the parallel bit counters of \<open>private/my_bit.h\<close>. A 32-bit word is read as
  eight hexadecimal digits (\<open>hexval\<close>); each stage of the algorithm acts on the digits
  independently (\<open>count_stage1\<close>, \<open>count_stage2\<close>), and the final multiplication adds them
  (\<open>count_stage3\<close>).
\<close>

definition popcount :: "'a::len word \<Rightarrow> nat" where
  "popcount w = (\<Sum>n < LENGTH('a). of_bool (bit w n))"

fun hexval :: "nat list \<Rightarrow> nat" where
  "hexval [] = 0"
| "hexval (x # xs) = x + 16 * hexval xs"

definition nibble :: "nat \<Rightarrow> nat \<Rightarrow> nat" where
  "nibble n i = take_bit 4 (drop_bit (4 * i) n)"

lemma nibble_less: "nibble n i < 16"
  by (simp add: nibble_def take_bit_eq_mod)

lemma nibble_Suc: "nibble n (Suc i) = nibble (n div 16) i"
  by (simp add: nibble_def drop_bit_eq_div power_add flip: div_mult2_eq)

lemma nibble_0: "nibble n 0 = n mod 16"
  by (simp add: nibble_def take_bit_eq_mod)

lemma hexval_nibbles: "n < 16 ^ k \<Longrightarrow> hexval (map (nibble n) [0..<k]) = n"
proof (induction k arbitrary: n)
  case (Suc k)
  have "map (nibble n) [0..<Suc k] = nibble n 0 # map (nibble (n div 16)) [0..<k]"
    by (simp only: map_upt_Suc nibble_Suc)
  moreover have "n div 16 < 16 ^ k" using Suc.prems by (simp add: less_mult_imp_div_less mult.commute)
  ultimately show ?case using Suc.IH [of "n div 16"] by (simp add: nibble_0 del: upt_Suc)
qed simp

lemma bit_lane:
  fixes lo hi :: nat
  assumes "lo < 16"
  shows "bit (lo + 16 * hi) n \<longleftrightarrow> (if n < 4 then bit lo n else bit hi (n - 4))"
proof -
  have lo: "take_bit 4 (lo + 16 * hi) = lo" by (simp add: take_bit_eq_mod assms)
  have hi: "drop_bit 4 (lo + 16 * hi) = hi" by (simp add: drop_bit_eq_div assms)
  show ?thesis
    using bit_take_bit_iff [of 4 "lo + 16 * hi" n] bit_drop_bit_eq [of 4 "lo + 16 * hi"]
    unfolding lo hi by (auto simp: fun_eq_iff)
qed

lemma bit_small_nat: "m < 2 ^ k \<Longrightarrow> bit (m :: nat) n \<Longrightarrow> n < k"
  by (metis bit_take_bit_iff take_bit_nat_eq_self)

lemma shift_and_lane:
  fixes lo hi ml mh :: nat
  assumes "lo < 16" "ml < 2 ^ (4 - s)" "s \<le> 4"
  shows "drop_bit s (lo + 16 * hi) AND (ml + 16 * mh) = (drop_bit s lo AND ml) + 16 * (drop_bit s hi AND mh)"
proof (rule bit_eqI)
  fix n
  have ml: "ml < 16"
    using assms(2) power_increasing [of "4 - s" 4 "2::nat"] by simp
  have lo4: "bit lo m \<Longrightarrow> m < 4" for m using bit_small_nat [of lo 4] assms(1) by simp
  have mls: "bit ml m \<Longrightarrow> m + s < 4" for m using bit_small_nat [of ml "4 - s"] assms(2,3) by fastforce
  have "take_bit 4 (drop_bit s lo AND ml) = drop_bit s lo AND ml"
    by (intro bit_eqI) (auto simp: bit_take_bit_iff bit_and_iff dest: mls)
  then have l: "drop_bit s lo AND ml < 16"
    using mod_less_divisor [of 16 "drop_bit s lo AND ml"] by (simp add: take_bit_eq_mod)
  show "bit (drop_bit s (lo + 16 * hi) AND (ml + 16 * mh)) n =
        bit ((drop_bit s lo AND ml) + 16 * (drop_bit s hi AND mh)) n"
    unfolding bit_and_iff bit_drop_bit_eq o_def bit_lane [OF l] bit_lane [OF assms(1)] bit_lane [OF ml]
    by (auto simp: add.commute dest: mls lo4)
qed

lemma hexval_shift_and:
  assumes "\<forall>x \<in> set xs. x < 16" "m < 2 ^ (4 - s)" "s \<le> 4"
  shows "drop_bit s (hexval xs) AND hexval (map (\<lambda>_. m) xs) = hexval (map (\<lambda>x. drop_bit s x AND m) xs)"
  using assms by (induction xs) (simp_all add: shift_and_lane)

lemma hexval_const:
  assumes "length xs = 8" shows "hexval (map (\<lambda>_. m) xs) = m * 0x11111111"
proof -
  have "replicate 8 m = [m, m, m, m, m, m, m, m]" by (simp add: numeral_eq_Suc)
  then show ?thesis using assms by (simp add: map_replicate_const)
qed

definition pop4 :: "nat \<Rightarrow> nat" where
  "pop4 n = n mod 2 + n div 2 mod 2 + n div 4 mod 2 + n div 8 mod 2"

lemma pop4_bits: "pop4 n = (\<Sum>i<4. of_bool (bit n i))"
proof -
  have "{..<4::nat} = {0, 1, 2, 3}" by auto
  then show ?thesis by (simp add: pop4_def bit_iff_odd of_bool_odd_eq_mod_2)
qed
definition lane1 :: "nat \<Rightarrow> nat" where "lane1 b = b - (drop_bit 1 b AND 5)"
definition lane2 :: "nat \<Rightarrow> nat" where "lane2 c = (c AND 3) + (drop_bit 2 c AND 3)"

lemma lane_facts:
  assumes "n < 16"
  shows "drop_bit 1 n AND 5 \<le> n" "lane1 n < 16" "lane2 (lane1 n) = pop4 n" "pop4 n \<le> 4"
proof -
  have "\<forall>n < 16. drop_bit 1 n AND 5 \<le> n \<and> lane1 n < 16 \<and> lane2 (lane1 n) = pop4 n \<and> pop4 n \<le> 4"
    unfolding all_less_16 lane1_def lane2_def pop4_def
    by (simp add: drop_bit_eq_div)
  then show "drop_bit 1 n AND 5 \<le> n" "lane1 n < 16" "lane2 (lane1 n) = pop4 n" "pop4 n \<le> 4"
    using assms by blast+
qed

lemma popcount_nibbles:
  fixes v :: "32 word"
  shows "popcount v = sum_list (map (pop4 \<circ> nibble (unat v)) [0..<8])"
proof -
  have bt: "bit v n = bit (unat v) n" for n by (simp add: bit_unsigned_iff)
  have "popcount v = (\<Sum>n < 8 * 4. of_bool (bit (unat v) n))" by (simp add: popcount_def bt)
  also have "\<dots> = (\<Sum>m<8. \<Sum>n\<in>{m*4..<m*4+4}. of_bool (bit (unat v) n))" by (rule sum.nat_group [symmetric])
  also have "\<dots> = (\<Sum>m<8. pop4 (nibble (unat v) m))"
  proof (rule sum.cong)
    fix m :: nat
    have "(\<Sum>n\<in>{m*4..<m*4+4}. of_bool (bit (unat v) n)) = (\<Sum>i<4. of_bool (bit (unat v) (m * 4 + i)) :: nat)"
      using sum.shift_bounds_nat_ivl [of "\<lambda>n. of_bool (bit (unat v) n) :: nat" 0 "m * 4" 4]
      by (simp add: lessThan_atLeast0 add.commute)
    then show "(\<Sum>n\<in>{m*4..<m*4+4}. of_bool (bit (unat v) n)) = pop4 (nibble (unat v) m)"
      by (simp add: pop4_bits nibble_def bit_take_bit_iff bit_drop_bit_eq mult.commute)
  qed simp
  finally show ?thesis by (simp add: sum_list_sum_nth atLeast0LessThan)
qed

lemma hexval_bound: "\<forall>x \<in> set xs. x < 16 \<Longrightarrow> hexval xs < 16 ^ length xs"
proof (induction xs)
  case (Cons x xs)
  then have "hexval xs + 1 \<le> 16 ^ length xs" by simp
  with Cons.prems show ?case by simp
qed simp

lemma hexval_minus:
  assumes "\<forall>x \<in> set xs. f x \<le> x"
  shows "hexval (map f xs) \<le> hexval xs \<and> hexval xs - hexval (map f xs) = hexval (map (\<lambda>x. x - f x) xs)"
  using assms by (induction xs) auto

lemma hexval_plus: "hexval (map f xs) + hexval (map g xs) = hexval (map (\<lambda>x. f x + g x) xs)"
  by (induction xs) simp_all

lemma count_stage1:
  fixes v :: uint32
  assumes "unat v = hexval ns" "length ns = 8" "\<forall>x \<in> set ns. x < 16"
  shows "unat (v - (drop_bit 1 v AND 0x55555555)) = hexval (map lane1 ns)"
proof -
  have w: "unat (drop_bit 1 v AND 0x55555555) = hexval (map (\<lambda>x. drop_bit 1 x AND 5) ns)"
    using hexval_shift_and [of ns 5 1] assms hexval_const [of ns 5]
    by (simp add: unsigned_and_eq unat_drop_bit_eq)
  have "hexval (map (\<lambda>x. drop_bit 1 x AND 5) ns) \<le> hexval ns"
    and "hexval ns - hexval (map (\<lambda>x. drop_bit 1 x AND 5) ns) = hexval (map lane1 ns)"
    using hexval_minus [of ns "\<lambda>x. drop_bit 1 x AND 5"] assms(3) lane_facts(1)
    by (auto simp: lane1_def [abs_def])
  then show ?thesis using unat_sub [of "drop_bit 1 v AND 0x55555555" v] w assms(1)
    by (simp add: word_le_nat_alt)
qed

lemma count_stage2:
  fixes v :: uint32
  assumes "unat v = hexval ns" "length ns = 8" "\<forall>x \<in> set ns. x < 16" "\<forall>x \<in> set ns. lane2 x < 16"
  shows "unat ((v AND 0x33333333) + (drop_bit 2 v AND 0x33333333)) = hexval (map lane2 ns)"
proof -
  have a: "unat (v AND 0x33333333) = hexval (map (\<lambda>x. x AND 3) ns)"
    using hexval_shift_and [of ns 3 0] assms hexval_const [of ns 3] by (simp add: unsigned_and_eq)
  have b: "unat (drop_bit 2 v AND 0x33333333) = hexval (map (\<lambda>x. drop_bit 2 x AND 3) ns)"
    using hexval_shift_and [of ns 3 2] assms hexval_const [of ns 3]
    by (simp add: unsigned_and_eq unat_drop_bit_eq)
  have s: "hexval (map (\<lambda>x. x AND 3) ns) + hexval (map (\<lambda>x. drop_bit 2 x AND 3) ns) = hexval (map lane2 ns)"
    by (simp add: hexval_plus lane2_def [abs_def])
  have "hexval (map lane2 ns) < 16 ^ 8"
    using hexval_bound [of "map lane2 ns"] assms(2,4) by simp
  then show ?thesis using a b s by (subst unat_add_small) simp_all
qed

lemma and_low_nibbles:
  assumes "a < 16" "b < 16" "c < 16" "d < 16" "e < 16" "f < 16" "g < 16" "h < 16"
  shows "hexval [a, b, c, d, e, f, g, h] AND 0x0F0F0F0F = hexval [a, 0, c, 0, e, 0, g, 0]"
proof -
  have l: "(lo + 16 * hi) AND (ml + 16 * mh) = (lo AND ml) + 16 * (hi AND mh)"
    if "lo < 16" "ml < 16" for lo hi ml mh :: nat
    using shift_and_lane [of lo ml 0 hi mh] that by simp
  have 15: "x AND 15 = x" if "x < 16" for x :: nat
    using that take_bit_eq_mask [of 4 x] by (simp add: mask_eq_exp_minus_1 take_bit_eq_mod)
  have "(0x0F0F0F0F :: nat) = hexval [15, 0, 15, 0, 15, 0, 15, 0]" by simp
  then show ?thesis using assms by (simp only: hexval.simps l 15) simp
qed

lemma count_stage3:
  fixes v :: uint32
  assumes "unat v = hexval [a, b, c, d, e, f, g, h]"
    and "a \<le> 4" "b \<le> 4" "c \<le> 4" "d \<le> 4" "e \<le> 4" "f \<le> 4" "g \<le> 4" "h \<le> 4"
  shows "unat (drop_bit 24 (((v + drop_bit 4 v) AND 0xF0F0F0F) * 0x1010101)) = a + b + c + d + e + f + g + h"
proof -
  have "drop_bit 4 (hexval [a, b, c, d, e, f, g, h]) = hexval [b, c, d, e, f, g, h, 0]"
    using assms(2) by (simp add: drop_bit_eq_div)
  then have sh: "unat (drop_bit 4 v) = hexval [b, c, d, e, f, g, h, 0]"
    using assms(1) by (simp add: unat_drop_bit_eq)
  then have s: "unat (v + drop_bit 4 v) = hexval [a + b, b + c, c + d, d + e, e + f, f + g, g + h, h]"
    using assms by (subst unat_add_small) simp_all
  have m: "unat ((v + drop_bit 4 v) AND 0xF0F0F0F) = hexval [a + b, 0, c + d, 0, e + f, 0, g + h, 0]"
    unfolding unsigned_and_eq s using and_low_nibbles [of "a + b" "b + c" "c + d" "d + e" "e + f" "f + g" "g + h" h] assms
    by simp
  have "unat (((v + drop_bit 4 v) AND 0xF0F0F0F) * 0x1010101)
      = hexval [a + b, 0, c + d, 0, e + f, 0, g + h, 0] * 0x1010101 mod 2 ^ 32"
    using m by (simp add: unat_word_ariths)
  also have "hexval [a + b, 0, c + d, 0, e + f, 0, g + h, 0] * 0x1010101
      = ((a + b + c + d + e + f + g + h) * 2 ^ 24 + (a + b + c + d + e + f) * 2 ^ 16
        + (a + b + c + d) * 2 ^ 8 + (a + b)) + 2 ^ 32 * ((c + d) + 257 * (e + f) + 65793 * (g + h))"
    by simp
  also have "\<dots> mod 2 ^ 32 = (a + b + c + d + e + f + g + h) * 2 ^ 24 + (a + b + c + d + e + f) * 2 ^ 16
        + (a + b + c + d) * 2 ^ 8 + (a + b)"
    using assms by (simp only: mod_mult_self2) simp
  finally show ?thesis using assms by (simp add: unat_drop_bit_div)
qed

lemma my_count_bits_uint32_popcount: "unat (my_count_bits_uint32 v) = popcount v"
proof -
  define ns where "ns = map (nibble (unat v)) [0..<8]"
  have ns: "length ns = 8" "\<forall>x \<in> set ns. x < 16" by (auto simp: ns_def nibble_less)
  have v: "unat v = hexval ns"
    using hexval_nibbles [of "unat v" 8] unat_less_length [of v] by (simp add: ns_def)
  define v1 where "v1 = v - (drop_bit 1 v AND 0x55555555)"
  define v2 where "v2 = (v1 AND 0x33333333) + (drop_bit 2 v1 AND 0x33333333)"
  have v1: "unat v1 = hexval (map lane1 ns)"
    unfolding v1_def by (rule count_stage1 [OF v ns])
  have v2: "unat v2 = hexval (map lane2 (map lane1 ns))"
    unfolding v2_def
    by (rule count_stage2 [OF v1])
      (use ns lane_facts(2-4) in \<open>auto intro: le_less_trans [of _ 4 16]\<close>)
  also have "map lane2 (map lane1 ns) = map pop4 ns"
    using ns(2) lane_facts(3) by simp
  finally have v2: "unat v2 = hexval (map pop4 ns)" .
  obtain a b c d e f g h where n: "ns = [a, b, c, d, e, f, g, h]"
    using ns(1) by (auto simp: numeral_eq_Suc length_Suc_conv)
  have "popcount v = sum_list (map pop4 ns)"
    by (simp add: popcount_nibbles ns_def o_def)
  moreover have "unat (drop_bit 24 (((v2 + drop_bit 4 v2) AND 0xF0F0F0F) * 0x1010101)) = sum_list (map pop4 ns)"
    using count_stage3 [of v2 "pop4 a" "pop4 b" "pop4 c" "pop4 d" "pop4 e" "pop4 f" "pop4 g" "pop4 h"]
      v2 ns(2) n lane_facts(4) by simp
  ultimately show ?thesis by (simp add: my_count_bits_uint32_def Let_def v1_def v2_def)
qed

lemma popcount_ucast_split:
  fixes x :: ulonglong
  shows "popcount x = popcount (ucast x :: uint32) + popcount (ucast (drop_bit 32 x) :: uint32)"
proof -
  have "(\<Sum>n<64. of_bool (bit x n) :: nat) = (\<Sum>n<32. of_bool (bit x n)) + (\<Sum>n=32..<64. of_bool (bit x n))"
    by (subst sum.atLeastLessThan_concat [of 0 32 64, symmetric, folded lessThan_atLeast0]) (simp_all add: lessThan_atLeast0)
  also have "(\<Sum>n=32..<64. of_bool (bit x n) :: nat) = (\<Sum>n<32. of_bool (bit x (32 + n)))"
    using sum.shift_bounds_nat_ivl [of "\<lambda>n. of_bool (bit x n) :: nat" 0 32 32]
    by (simp add: lessThan_atLeast0 add.commute)
  finally show ?thesis by (simp add: popcount_def bits_simps)
qed

lemma popcount_le: "popcount (w :: 'a::len word) \<le> LENGTH('a)"
  using sum_mono [of "{..<LENGTH('a)}" "\<lambda>n. of_bool (bit w n)" "\<lambda>_. 1 :: nat"]
  by (simp add: popcount_def)

lemma my_count_bits_popcount: "unat (my_count_bits x) = popcount x"
proof -
  have "popcount (ucast x :: uint32) + popcount (ucast (drop_bit 32 x) :: uint32) \<le> 64"
    using popcount_le [of "ucast x :: uint32"] popcount_le [of "ucast (drop_bit 32 x) :: uint32"] by simp
  then show ?thesis
    unfolding my_count_bits_def
    by (subst unat_add_small) (simp_all add: my_count_bits_uint32_popcount popcount_ucast_split)
qed


section \<open>Properties\<close>

text \<open>\<open>my_count_bits\<close> returns the number of set bits of its 64-bit argument: the parallel
  algorithm agrees with counting the positions one by one.\<close>

theorem count_bits_popcount:
  "unat (my_count_bits x) = card {n. n < 64 \<and> bit x n}"
proof -
  have "{..<64} \<inter> {n. bit x n} = {n. n < 64 \<and> bit x n}" by auto
  then have "popcount x = card {n. n < 64 \<and> bit x n}"
    by (simp add: popcount_def sum_of_bool_eq)
  then show ?thesis by (simp only: my_count_bits_popcount)
qed

end
