(* ===== verification/Byte_Codec.thy ===== *)
theory Byte_Codec imports Prelude begin

text \<open>
  The contract of a fixed-width integer encoding in a memory area, as a locale: a store writes
  \<open>width\<close> bytes at an index and nothing else, and a load at that index gives the value back.
  The byte order theories interpret it for each pair of store and load macros; its client lemmas
  cover neighbouring fields and arrays of fields.
\<close>

section \<open>Arrays of fields\<close>

fun store_all :: "nat \<Rightarrow> (buffer \<Rightarrow> nat \<Rightarrow> 'v \<Rightarrow> buffer) \<Rightarrow> buffer \<Rightarrow> nat \<Rightarrow> 'v list \<Rightarrow> buffer" where
  "store_all w st buf t [] = buf"
| "store_all w st buf t (v # vs) = store_all w st (st buf t v) (t + w) vs"

definition load_all :: "nat \<Rightarrow> (buffer \<Rightarrow> nat \<Rightarrow> 'v) \<Rightarrow> buffer \<Rightarrow> nat \<Rightarrow> nat \<Rightarrow> 'v list" where
  "load_all w ld buf t n = map (\<lambda>i. ld buf (t + i * w)) [0..<n]"

lemma load_all_Suc: "load_all w ld buf t (Suc n) = ld buf t # load_all w ld buf (t + w) n"
  by (simp only: load_all_def map_upt_Suc) (simp add: add.assoc)

section \<open>The contract\<close>

locale byte_codec =
  fixes width :: nat
    and store :: "buffer \<Rightarrow> nat \<Rightarrow> 'v \<Rightarrow> buffer"
    and load :: "buffer \<Rightarrow> nat \<Rightarrow> 'v"
    and fits :: "'v \<Rightarrow> bool"
  assumes length_store [simp]: "length (store buf t v) = length buf"
    and store_frame: "i < t \<or> t + width \<le> i \<Longrightarrow> store buf t v ! i = buf ! i"
    and load_store: "t + width \<le> length buf \<Longrightarrow> fits v \<Longrightarrow> load (store buf t v) t = v"
    and load_local: "(\<And>i. t \<le> i \<Longrightarrow> i < t + width \<Longrightarrow> b1 ! i = b2 ! i) \<Longrightarrow> load b1 t = load b2 t"
begin

lemma load_store_other:
  assumes "s + width \<le> t \<or> t + width \<le> s"
  shows "load (store buf t v) s = load buf s"
  by (rule load_local) (use assms in \<open>auto intro!: store_frame\<close>)

lemma length_store_all [simp]: "length (store_all width store buf t vs) = length buf"
  by (induction vs arbitrary: buf t) simp_all

lemma store_all_frame:
  "i < t \<or> t + width * length vs \<le> i \<Longrightarrow> store_all width store buf t vs ! i = buf ! i"
  by (induction vs arbitrary: buf t) (auto simp: store_frame)

lemma load_before_store_all:
  "s + width \<le> t \<Longrightarrow> load (store_all width store buf t vs) s = load buf s"
  by (rule load_local) (auto intro!: store_all_frame)

lemma load_all_store_all:
  assumes "t + width * length vs \<le> length buf" and "\<forall>v \<in> set vs. fits v"
  shows "load_all width load (store_all width store buf t vs) t (length vs) = vs"
  using assms
proof (induction vs arbitrary: buf t)
  case Nil
  then show ?case by (simp add: load_all_def)
next
  case (Cons v vs)
  have "load (store_all width store (store buf t v) (t + width) vs) t = v"
    using Cons.prems by (simp add: load_before_store_all load_store)
  then show ?case
    using Cons by (simp add: load_all_Suc)
qed

end

end
