(* ===== verification/Byte_Order.thy ===== *)
theory Byte_Order imports Byte_Codec begin

unbundle bit_operations_syntax

text \<open>
  The low-byte-first load and store macros. \<open>byte_order_generic.h\<close> composes values byte by byte
  and is modelled by the definitions without suffix; \<open>byte_order_generic_x86_64.h\<close> uses
  unaligned machine loads and stores (\<open>load16\<close>, \<open>store32\<close>, ...: x86 memory is
  little-endian) and is modelled by the definitions with suffix \<open>_x64\<close>. A macro's integer
  argument is taken at 64 bits, the widest type its callers pass.
\<close>

section \<open>byte_order_generic.h\<close>

definition uint2korr :: "buffer \<Rightarrow> nat \<Rightarrow> uint16" where
  "uint2korr A p = ucast (A ! p) OR push_bit 8 (ucast (A ! (p + 1)))"

definition uint3korr :: "buffer \<Rightarrow> nat \<Rightarrow> uint32" where
  "uint3korr A p = ucast (A ! p) OR push_bit 8 (ucast (A ! (p + 1))) OR push_bit 16 (ucast (A ! (p + 2)))"

definition uint4korr :: "buffer \<Rightarrow> nat \<Rightarrow> uint32" where
  "uint4korr A p = ucast (A ! p) OR push_bit 8 (ucast (A ! (p + 1))) OR
     push_bit 16 (ucast (A ! (p + 2))) OR push_bit 24 (ucast (A ! (p + 3)))"

definition uint5korr :: "buffer \<Rightarrow> nat \<Rightarrow> ulonglong" where
  "uint5korr A p =
     ucast (ucast (A ! p) OR push_bit 8 (ucast (A ! (p + 1))) OR
            push_bit 16 (ucast (A ! (p + 2))) OR push_bit 24 (ucast (A ! (p + 3))) :: uint32) OR
     push_bit 32 (ucast (A ! (p + 4)))"

definition uint6korr :: "buffer \<Rightarrow> nat \<Rightarrow> ulonglong" where
  "uint6korr A p =
     ucast (ucast (A ! p) OR push_bit 8 (ucast (A ! (p + 1))) OR
            push_bit 16 (ucast (A ! (p + 2))) OR push_bit 24 (ucast (A ! (p + 3))) :: uint32) OR
     push_bit 32 (ucast (A ! (p + 4))) OR
     push_bit 40 (ucast (A ! (p + 5)))"

definition uint8korr :: "buffer \<Rightarrow> nat \<Rightarrow> ulonglong" where
  "uint8korr A p =
     ucast (ucast (A ! p) OR push_bit 8 (ucast (A ! (p + 1))) OR
            push_bit 16 (ucast (A ! (p + 2))) OR push_bit 24 (ucast (A ! (p + 3))) :: uint32) OR
     push_bit 32 (ucast (ucast (A ! (p + 4)) OR push_bit 8 (ucast (A ! (p + 5))) OR
            push_bit 16 (ucast (A ! (p + 6))) OR push_bit 24 (ucast (A ! (p + 7))) :: uint32))"

text \<open>The signed variants; the result is the two's complement word of the value.\<close>

definition sint2korr :: "buffer \<Rightarrow> nat \<Rightarrow> int16" where
  "sint2korr A p = ucast (A ! p) OR push_bit 8 (ucast (A ! (p + 1)))"

definition sint3korr :: "buffer \<Rightarrow> nat \<Rightarrow> int32" where
  "sint3korr A p =
     (if (A ! (p + 2)) AND 128 \<noteq> 0
      then push_bit 24 255 OR push_bit 16 (ucast (A ! (p + 2))) OR push_bit 8 (ucast (A ! (p + 1))) OR
           ucast (A ! p)
      else push_bit 16 (ucast (A ! (p + 2))) OR push_bit 8 (ucast (A ! (p + 1))) OR ucast (A ! p))"

definition sint4korr :: "buffer \<Rightarrow> nat \<Rightarrow> int32" where
  "sint4korr A p = ucast (A ! p) OR push_bit 8 (ucast (A ! (p + 1))) OR
     push_bit 16 (ucast (A ! (p + 2))) OR push_bit 24 (ucast (A ! (p + 3)))"

definition sint8korr :: "buffer \<Rightarrow> nat \<Rightarrow> longlong" where
  "sint8korr A p = uint8korr A p"

definition int2store :: "buffer \<Rightarrow> nat \<Rightarrow> ulonglong \<Rightarrow> buffer" where
  "int2store T p A =
     (let def_temp = ucast A :: uint
      in T[p := ucast def_temp, p + 1 := ucast (drop_bit 8 def_temp)])"

definition int3store :: "buffer \<Rightarrow> nat \<Rightarrow> ulonglong \<Rightarrow> buffer" where
  "int3store T p A =
     T[p := ucast A, p + 1 := ucast (drop_bit 8 A), p + 2 := ucast (drop_bit 16 A)]"

definition int4store :: "buffer \<Rightarrow> nat \<Rightarrow> ulonglong \<Rightarrow> buffer" where
  "int4store T p A =
     T[p := ucast A, p + 1 := ucast (drop_bit 8 A), p + 2 := ucast (drop_bit 16 A),
       p + 3 := ucast (drop_bit 24 A)]"

definition int5store :: "buffer \<Rightarrow> nat \<Rightarrow> ulonglong \<Rightarrow> buffer" where
  "int5store T p A =
     T[p := ucast A, p + 1 := ucast (drop_bit 8 A), p + 2 := ucast (drop_bit 16 A),
       p + 3 := ucast (drop_bit 24 A), p + 4 := ucast (drop_bit 32 A)]"

definition int6store :: "buffer \<Rightarrow> nat \<Rightarrow> ulonglong \<Rightarrow> buffer" where
  "int6store T p A =
     T[p := ucast A, p + 1 := ucast (drop_bit 8 A), p + 2 := ucast (drop_bit 16 A),
       p + 3 := ucast (drop_bit 24 A), p + 4 := ucast (drop_bit 32 A), p + 5 := ucast (drop_bit 40 A)]"

definition int8store :: "buffer \<Rightarrow> nat \<Rightarrow> ulonglong \<Rightarrow> buffer" where
  "int8store T p A =
     (let def_temp = ucast A :: uint;
          def_temp2 = ucast (drop_bit 32 A) :: uint
      in int4store (int4store T p (ucast def_temp)) (p + 4) (ucast def_temp2))"

section \<open>byte_order_generic_x86_64.h\<close>

text \<open>Unaligned little-endian machine accesses.\<close>

definition load16 :: "buffer \<Rightarrow> nat \<Rightarrow> uint16" where
  "load16 A p = horner_sum ucast (2 ^ 8) [A ! p, A ! (p + 1)]"

definition load32 :: "buffer \<Rightarrow> nat \<Rightarrow> uint32" where
  "load32 A p = horner_sum ucast (2 ^ 8) [A ! p, A ! (p + 1), A ! (p + 2), A ! (p + 3)]"

definition load64 :: "buffer \<Rightarrow> nat \<Rightarrow> ulonglong" where
  "load64 A p = horner_sum ucast (2 ^ 8)
     [A ! p, A ! (p + 1), A ! (p + 2), A ! (p + 3), A ! (p + 4), A ! (p + 5), A ! (p + 6), A ! (p + 7)]"

fun store_bytes :: "nat \<Rightarrow> buffer \<Rightarrow> nat \<Rightarrow> 'a::len word \<Rightarrow> buffer" where
  "store_bytes 0 T p w = T"
| "store_bytes (Suc k) T p w = store_bytes k (T[p := ucast w]) (p + 1) (drop_bit 8 w)"

definition store16 :: "buffer \<Rightarrow> nat \<Rightarrow> uint16 \<Rightarrow> buffer" where "store16 = store_bytes 2"
definition store32 :: "buffer \<Rightarrow> nat \<Rightarrow> uint32 \<Rightarrow> buffer" where "store32 = store_bytes 4"
definition store64 :: "buffer \<Rightarrow> nat \<Rightarrow> ulonglong \<Rightarrow> buffer" where "store64 = store_bytes 8"

definition uint2korr_x64 :: "buffer \<Rightarrow> nat \<Rightarrow> uint16" where "uint2korr_x64 A p = load16 A p"
definition sint2korr_x64 :: "buffer \<Rightarrow> nat \<Rightarrow> int16" where "sint2korr_x64 A p = load16 A p"
definition uint4korr_x64 :: "buffer \<Rightarrow> nat \<Rightarrow> uint32" where "uint4korr_x64 A p = load32 A p"
definition sint4korr_x64 :: "buffer \<Rightarrow> nat \<Rightarrow> int32" where "sint4korr_x64 A p = load32 A p"
definition uint8korr_x64 :: "buffer \<Rightarrow> nat \<Rightarrow> ulonglong" where "uint8korr_x64 A p = load64 A p"
definition sint8korr_x64 :: "buffer \<Rightarrow> nat \<Rightarrow> longlong" where "sint8korr_x64 A p = load64 A p"

definition uint3korr_x64 :: "buffer \<Rightarrow> nat \<Rightarrow> uint32" where
  "uint3korr_x64 A p = ucast (A ! p) OR push_bit 8 (ucast (A ! (p + 1))) OR push_bit 16 (ucast (A ! (p + 2)))"

definition sint3korr_x64 :: "buffer \<Rightarrow> nat \<Rightarrow> int32" where
  "sint3korr_x64 A p =
     (if (A ! (p + 2)) AND 128 \<noteq> 0
      then push_bit 24 255 OR push_bit 16 (ucast (A ! (p + 2))) OR push_bit 8 (ucast (A ! (p + 1))) OR
           ucast (A ! p)
      else push_bit 16 (ucast (A ! (p + 2))) OR push_bit 8 (ucast (A ! (p + 1))) OR ucast (A ! p))"

definition uint5korr_x64 :: "buffer \<Rightarrow> nat \<Rightarrow> ulonglong" where
  "uint5korr_x64 mem p =
     (let a = ucast (load32 mem p) :: ulonglong;
          b = ucast (mem ! (p + 4)) :: ulonglong
      in a OR push_bit 32 b)"

definition uint6korr_x64 :: "buffer \<Rightarrow> nat \<Rightarrow> ulonglong" where
  "uint6korr_x64 mem p =
     (let a = ucast (load32 mem p) :: ulonglong;
          b = ucast (load16 mem (p + 4)) :: ulonglong
      in a OR push_bit 32 b)"

definition int2store_x64 :: "buffer \<Rightarrow> nat \<Rightarrow> ulonglong \<Rightarrow> buffer" where
  "int2store_x64 T p A = store16 T p (ucast A)"

definition int3store_x64 :: "buffer \<Rightarrow> nat \<Rightarrow> ulonglong \<Rightarrow> buffer" where
  "int3store_x64 T p A =
     T[p := ucast A, p + 1 := ucast (drop_bit 8 (ucast A :: uint)), p + 2 := ucast (drop_bit 16 A)]"

definition int4store_x64 :: "buffer \<Rightarrow> nat \<Rightarrow> ulonglong \<Rightarrow> buffer" where
  "int4store_x64 T p A = store32 T p (ucast A)"

definition int5store_x64 :: "buffer \<Rightarrow> nat \<Rightarrow> ulonglong \<Rightarrow> buffer" where
  "int5store_x64 T p A = (store32 T p (ucast A))[p + 4 := ucast (drop_bit 32 A)]"

definition int6store_x64 :: "buffer \<Rightarrow> nat \<Rightarrow> ulonglong \<Rightarrow> buffer" where
  "int6store_x64 T p A = store16 (store32 T p (ucast A)) (p + 4) (ucast (drop_bit 32 A))"

definition int8store_x64 :: "buffer \<Rightarrow> nat \<Rightarrow> ulonglong \<Rightarrow> buffer" where
  "int8store_x64 T p A = store64 T p A"

lemmas korr_defs = uint2korr_def uint3korr_def uint4korr_def uint5korr_def uint6korr_def uint8korr_def
  sint2korr_def sint3korr_def sint4korr_def sint8korr_def
lemmas store_defs = int2store_def int3store_def int4store_def int5store_def int6store_def int8store_def

section \<open>Round trips\<close>

lemmas byte_simps = bits_simps nth_list_update Let_def word_small_no_bit

interpretation le2: byte_codec 2 "\<lambda>T p (v :: uint16). int2store T p (ucast v)" uint2korr "\<lambda>_. True"
proof unfold_locales
  fix t and buf :: buffer and v :: uint16
  assume "t + 2 \<le> length buf"
  then show "uint2korr (int2store buf t (ucast v)) t = v"
    by (intro word16_bytes_eqI) (simp_all add: int2store_def uint2korr_def byte_simps)
qed (auto simp: int2store_def uint2korr_def byte_simps)

interpretation le3: byte_codec 3 "\<lambda>T p (v :: uint32). int3store T p (ucast v)" uint3korr "\<lambda>v. unat v < 2 ^ 24"
proof unfold_locales
  fix t and buf :: buffer and v :: uint32
  assume "t + 3 \<le> length buf" "unat v < 2 ^ 24"
  then show "uint3korr (int3store buf t (ucast v)) t = v"
    using word_small_no_bit [of v 24]
    by (intro word32_bytes_eqI) (simp_all add: int3store_def uint3korr_def byte_simps)
qed (auto simp: int3store_def uint3korr_def byte_simps)

interpretation le4: byte_codec 4 "\<lambda>T p (v :: uint32). int4store T p (ucast v)" uint4korr "\<lambda>_. True"
proof unfold_locales
  fix t and buf :: buffer and v :: uint32
  assume "t + 4 \<le> length buf"
  then show "uint4korr (int4store buf t (ucast v)) t = v"
    by (intro word32_bytes_eqI) (simp_all add: int4store_def uint4korr_def byte_simps)
qed (auto simp: int4store_def uint4korr_def byte_simps)

interpretation le5: byte_codec 5 "\<lambda>T p (v :: ulonglong). int5store T p (v)" uint5korr "\<lambda>v. unat v < 2 ^ 40"
proof unfold_locales
  fix t and buf :: buffer and v :: ulonglong
  assume "t + 5 \<le> length buf" "unat v < 2 ^ 40"
  then show "uint5korr (int5store buf t (v)) t = v"
    using word_small_no_bit [of v 40]
    by (intro word64_bytes_eqI) (simp_all add: int5store_def uint5korr_def byte_simps)
qed (auto simp: int5store_def uint5korr_def byte_simps)

interpretation le6: byte_codec 6 "\<lambda>T p (v :: ulonglong). int6store T p (v)" uint6korr "\<lambda>v. unat v < 2 ^ 48"
proof unfold_locales
  fix t and buf :: buffer and v :: ulonglong
  assume "t + 6 \<le> length buf" "unat v < 2 ^ 48"
  then show "uint6korr (int6store buf t (v)) t = v"
    using word_small_no_bit [of v 48]
    by (intro word64_bytes_eqI) (simp_all add: int6store_def uint6korr_def byte_simps)
qed (auto simp: int6store_def uint6korr_def byte_simps)

interpretation le8: byte_codec 8 "\<lambda>T p (v :: ulonglong). int8store T p (v)" uint8korr "\<lambda>_. True"
proof unfold_locales
  fix t and buf :: buffer and v :: ulonglong
  assume "t + 8 \<le> length buf"
  then show "uint8korr (int8store buf t (v)) t = v"
    by (intro word64_bytes_eqI) (simp_all add: int8store_def uint8korr_def byte_simps int4store_def)
qed (auto simp: int8store_def uint8korr_def byte_simps int4store_def)


section \<open>The optimised accesses agree with the generic ones\<close>

lemma horner_byte_step:
  fixes acc :: "'a::len word" and b :: uchar
  shows "ucast b + 2 ^ 8 * acc = ucast b OR push_bit 8 acc"
proof -
  have "ucast b AND push_bit 8 acc = 0"
    by (rule word_bits_eqI) (auto simp: bits_simps)
  then have "ucast b + push_bit 8 acc = ucast b OR push_bit 8 acc" by (rule disjunctive_add_eq_or)
  then show ?thesis by (simp add: push_bit_eq_mult mult.commute)
qed

lemmas horner_bytes = horner_sum_simps horner_byte_step mult_zero_right add.right_neutral
lemmas load_defs = load16_def load32_def load64_def

lemma load16_eq: "load16 A p = uint2korr A p"
  unfolding load16_def horner_bytes uint2korr_def by simp

lemma load32_eq: "load32 A p = uint4korr A p"
  unfolding load32_def horner_bytes
  by (rule word32_bytes_eqI) (simp_all add: uint4korr_def byte_simps)

lemma load64_eq: "load64 A p = uint8korr A p"
  unfolding load64_def horner_bytes
  by (rule word64_bytes_eqI) (simp_all add: uint8korr_def byte_simps)

lemma uint5korr_x64_eq: "uint5korr_x64 A p = uint5korr A p"
  by (simp add: uint5korr_x64_def uint5korr_def load32_eq uint4korr_def Let_def)

lemma uint6korr_x64_eq: "uint6korr_x64 A p = uint6korr A p"
  unfolding uint6korr_x64_def uint6korr_def load32_eq load16_eq
  by (rule word64_bytes_eqI) (simp_all add: uint4korr_def uint2korr_def byte_simps add.commute)

lemma ucast_drop_ucast:
  fixes A :: ulonglong
  assumes "n + 8 \<le> LENGTH('a)"
  shows "(ucast (drop_bit n (ucast A :: 'a::len word)) :: uchar) = ucast (drop_bit n A)"
  using assms by (intro word_bits_eqI) (auto simp: bits_simps)

lemma ucast_ucast_uchar:
  "8 \<le> LENGTH('a) \<Longrightarrow> (ucast (ucast (A :: ulonglong) :: 'a::len word) :: uchar) = ucast A"
  using ucast_drop_ucast [of 0, where 'a = 'a] by simp

lemma store_bytes_4:
  "store_bytes 4 T p w = T[p := ucast w, p + 1 := ucast (drop_bit 8 w),
     p + 2 := ucast (drop_bit 16 w), p + 3 := ucast (drop_bit 24 w)]"
  by (simp add: eval_nat_numeral)

lemma store16_eq: "store16 T p (ucast A) = int2store T p A"
  by (simp add: int2store_def Let_def store16_def numeral_2_eq_2 ucast_drop_ucast ucast_ucast_uchar)

lemma store32_eq: "store32 T p (ucast A) = int4store T p A"
  by (simp add: store32_def store_bytes_4 int4store_def ucast_drop_ucast ucast_ucast_uchar)

lemma int4store_low: "int4store T p (ucast (ucast A :: uint)) = int4store T p A"
proof -
  have "(ucast (drop_bit n (ucast (ucast A :: uint) :: ulonglong)) :: uchar) = ucast (drop_bit n A)" if "n \<le> 24" for n
    using that by (intro word_bits_eqI) (auto simp: bits_simps)
  from this [of 0] this [of 8] this [of 16] this [of 24] show ?thesis by (simp add: int4store_def)
qed

lemma store64_eq: "store64 T p A = int8store T p A"
proof -
  have "store_bytes 8 T p A = store_bytes 4 (store_bytes 4 T p A) (p + 4) (drop_bit 32 A)"
    by (simp add: eval_nat_numeral)
  then show ?thesis
    by (simp add: store64_def store_bytes_4 int8store_def int4store_low Let_def) (simp add: int4store_def)
qed

section \<open>Signed loads\<close>

lemma bit_sint3korr:
  "bit (sint3korr A p) n \<longleftrightarrow> n < 32 \<and> (if n < 24 then bit (uint3korr A p) n else bit (A ! (p + 2)) 7)"
proof -
  have s: "(A ! (p + 2)) AND 128 \<noteq> 0 \<longleftrightarrow> bit (A ! (p + 2)) 7"
    using and_bit_nonzero [of "A ! (p + 2)" 7] by simp
  have "push_bit 24 (255 :: uint32) = push_bit 24 (mask 8)" by (simp add: mask_eq_exp_minus_1)
  then have m: "bit (push_bit 24 (255 :: uint32)) n \<longleftrightarrow> 24 \<le> n \<and> n < 32"
    by (auto simp only: bits_simps) auto
  show ?thesis
    unfolding sint3korr_def s uint3korr_def if_distrib [of "\<lambda>w. bit w n"] bit_or_iff m
    by (auto simp: bits_simps)
qed

lemma bit_ge_sign:
  fixes k :: int
  assumes "- (2 ^ s) \<le> k" "k < 2 ^ s" "s \<le> n"
  shows "bit k n \<longleftrightarrow> bit k s"
proof -
  have "signed_take_bit s k = k" using assms(1,2) by (rule signed_take_bit_int_eq_self)
  then show ?thesis using assms(3) bit_signed_take_bit_iff [of s k n] by simp
qed

text \<open>The three-byte signed load gives back every value of the 24-bit signed range.\<close>

lemma sint3korr_store:
  assumes "p + 3 \<le> length T" "- (2 ^ 23) \<le> k" "k < 2 ^ 23"
  shows "sint3korr (int3store T p (word_of_int k)) p = word_of_int k"
proof (rule word_bits_eqI)
  fix n assume "n < LENGTH(32)"
  have b: "bit (int3store T p (word_of_int k) ! (p + 2)) 7 \<longleftrightarrow> bit k 23"
    using assms(1) by (simp add: int3store_def byte_simps bit_word_of_int_iff)
  have "uint3korr (int3store T p (word_of_int k)) p = take_bit 24 (word_of_int k)"
    using assms(1) by (intro word32_bytes_eqI)
      (simp_all add: int3store_def uint3korr_def byte_simps bit_take_bit_iff bit_word_of_int_iff)
  then show "bit (sint3korr (int3store T p (word_of_int k)) p) n = bit (word_of_int k :: int32) n"
    using \<open>n < LENGTH(32)\<close> bit_ge_sign [OF assms(2,3), of n]
    by (simp add: bit_sint3korr b [simplified] bit_take_bit_iff bit_word_of_int_iff)
qed

section \<open>Properties\<close>

text \<open>On every buffer and at every position, each optimised x86-64 access of
  \<open>byte_order_generic_x86_64.h\<close> (unaligned machine loads and stores) computes the same value, or
  leaves the same buffer, as the byte-by-byte macro of \<open>byte_order_generic.h\<close>.\<close>

theorem x64_accesses_equal_generic:
  "uint2korr_x64 A p = uint2korr A p \<and> uint3korr_x64 A p = uint3korr A p \<and>
   uint4korr_x64 A p = uint4korr A p \<and> uint5korr_x64 A p = uint5korr A p \<and>
   uint6korr_x64 A p = uint6korr A p \<and> uint8korr_x64 A p = uint8korr A p \<and>
   sint2korr_x64 A p = sint2korr A p \<and> sint3korr_x64 A p = sint3korr A p \<and>
   sint4korr_x64 A p = sint4korr A p \<and> sint8korr_x64 A p = sint8korr A p \<and>
   int2store_x64 A p v = int2store A p v \<and> int3store_x64 A p v = int3store A p v \<and>
   int4store_x64 A p v = int4store A p v \<and> int5store_x64 A p v = int5store A p v \<and>
   int6store_x64 A p v = int6store A p v \<and> int8store_x64 A p v = int8store A p v"
proof (intro conjI)
  show "sint2korr_x64 A p = sint2korr A p" "sint4korr_x64 A p = sint4korr A p"
    by (simp_all add: sint2korr_x64_def sint2korr_def load16_eq uint2korr_def
        sint4korr_x64_def sint4korr_def load32_eq uint4korr_def)
  show "int3store_x64 A p v = int3store A p v"
    by (simp add: int3store_x64_def int3store_def ucast_drop_ucast)
  show "int5store_x64 A p v = int5store A p v"
    by (simp add: int5store_x64_def store32_eq int5store_def int4store_def)
  show "int6store_x64 A p v = int6store A p v"
    by (simp add: int6store_x64_def store32_eq store16_eq int6store_def int4store_def int2store_def Let_def
        ucast_drop_ucast ucast_ucast_uchar drop_bit_drop_bit add.commute)
qed (simp_all add: uint2korr_x64_def uint3korr_x64_def uint3korr_def uint4korr_x64_def uint8korr_x64_def
    sint3korr_x64_def sint3korr_def sint8korr_x64_def sint8korr_def int2store_x64_def int4store_x64_def
    int8store_x64_def load16_eq load32_eq load64_eq uint5korr_x64_eq uint6korr_x64_eq store16_eq store32_eq store64_eq)

text \<open>A row of six-byte integers written one after the other with \<open>int6store\<close> and read back
  with \<open>uint6korr\<close> gives the same integers, and every byte before and after the row is unchanged.\<close>

theorem int6_array_roundtrip:
  assumes "t + 6 * length vs \<le> length buf" and "\<forall>v \<in> set vs. unat v < 2 ^ 48"
  shows "load_all 6 uint6korr (store_all 6 int6store buf t vs) t (length vs) = vs
    \<and> (\<forall>i. i < t \<or> t + 6 * length vs \<le> i \<longrightarrow> store_all 6 int6store buf t vs ! i = buf ! i)"
  using le6.load_all_store_all [OF assms] le6.store_all_frame by blast

theorem int6_array_roundtrip_witness:
  "load_all 6 uint6korr (store_all 6 int6store (replicate 14 0) 1 [0x123456789ABC, 7]) 1 2 = [0x123456789ABC, 7]"
proof -
  let ?vs = "[0x123456789ABC, 7 :: ulonglong]" and ?buf = "replicate 14 0 :: buffer"
  have fit: "1 + 6 * length ?vs \<le> length ?buf" and small: "\<forall>v \<in> set ?vs. unat v < 2 ^ 48"
    and len: "length ?vs = 2" by simp_all
  show ?thesis using conjunct1 [OF int6_array_roundtrip [OF fit small]] unfolding len .
qed

text \<open>The three-byte signed load returns every value of the 24-bit signed range that the
  three-byte store wrote: the sign bit of the third byte is extended into the result.\<close>

theorem sint3_roundtrip:
  assumes "p + 3 \<le> length T" and "- (2 ^ 23) \<le> k" and "k < 2 ^ 23"
  shows "sint (sint3korr (int3store T p (word_of_int k)) p) = k"
  using sint3korr_store [OF assms] assms sint_word_of_int_small [of k, where 'a = 32] by simp

theorem sint3_roundtrip_witness:
  "sint (sint3korr (int3store [0, 0, 0] 0 (word_of_int (- 5))) 0) = - 5"
  using sint3_roundtrip [of 0 "[0, 0, 0]" "- 5"] by simp

section \<open>Machine accesses as codecs\<close>

interpretation m4: byte_codec 4 store32 load32 "\<lambda>_. True"
proof unfold_locales
  fix t i and buf b1 b2 :: buffer and v :: uint32
  have "(ucast (ucast v :: ulonglong) :: uint32) = v" by (rule word_bits_eqI) (simp add: bits_simps)
  then have e: "store32 buf t v = int4store buf t (ucast v)" using store32_eq [of buf t "ucast v"] by simp
  show "length (store32 buf t v) = length buf" unfolding e by (rule le4.length_store)
  show "i < t \<or> t + 4 \<le> i \<Longrightarrow> store32 buf t v ! i = buf ! i" unfolding e by (rule le4.store_frame)
  show "t + 4 \<le> length buf \<Longrightarrow> load32 (store32 buf t v) t = v" unfolding e load32_eq by (rule le4.load_store) simp_all
  show "(\<And>i. t \<le> i \<Longrightarrow> i < t + 4 \<Longrightarrow> b1 ! i = b2 ! i) \<Longrightarrow> load32 b1 t = load32 b2 t" unfolding load32_eq by (rule le4.load_local)
qed

interpretation m8: byte_codec 8 store64 load64 "\<lambda>_. True"
proof unfold_locales
  fix t i and buf b1 b2 :: buffer and v :: ulonglong
  show "length (store64 buf t v) = length buf" unfolding store64_eq by (rule le8.length_store)
  show "i < t \<or> t + 8 \<le> i \<Longrightarrow> store64 buf t v ! i = buf ! i" unfolding store64_eq by (rule le8.store_frame)
  show "t + 8 \<le> length buf \<Longrightarrow> load64 (store64 buf t v) t = v" unfolding store64_eq load64_eq by (rule le8.load_store) simp_all
  show "(\<And>i. t \<le> i \<Longrightarrow> i < t + 8 \<Longrightarrow> b1 ! i = b2 ! i) \<Longrightarrow> load64 b1 t = load64 b2 t" unfolding load64_eq by (rule le8.load_local)
qed

end
