(* ===== verification/Myisam_Pack.thy ===== *)
theory Myisam_Pack imports Byte_Order begin

unbundle bit_operations_syntax

text \<open>
  The high-byte-first macros of \<open>private/myisampack.h\<close>, used for index keys and file pointers,
  the bit fields and the variable-length key length of \<open>private/my_compare.h\<close>, and the
  byte-swapping loads of \<open>byte_order_generic_x86_64.h\<close> that replace the generic ones under GCC.
  \<open>ulong\<close> has 32 bits in this build. A float is the list of its bytes in memory order.
\<close>

section \<open>myisampack.h: loads\<close>

definition mi_sint1korr :: "buffer \<Rightarrow> nat \<Rightarrow> 8 word" where
  "mi_sint1korr A p = A ! p"

definition mi_uint1korr :: "buffer \<Rightarrow> nat \<Rightarrow> uint8" where
  "mi_uint1korr A p = A ! p"

definition mi_sint2korr :: "buffer \<Rightarrow> nat \<Rightarrow> int16" where
  "mi_sint2korr A p = ucast (A ! (p + 1)) OR push_bit 8 (ucast (A ! p))"

definition mi_sint4korr :: "buffer \<Rightarrow> nat \<Rightarrow> int32" where
  "mi_sint4korr A p = ucast (A ! (p + 3)) OR push_bit 8 (ucast (A ! (p + 2))) OR push_bit 16 (ucast (A ! (p + 1))) OR push_bit 24 (ucast (A ! p))"

definition mi_sint3korr :: "buffer \<Rightarrow> nat \<Rightarrow> int32" where
  "mi_sint3korr A p =
     (if (A ! p) AND 128 \<noteq> 0
      then push_bit 24 255 OR push_bit 16 (ucast (A ! p)) OR push_bit 8 (ucast (A ! (p + 1))) OR
           ucast (A ! (p + 2))
      else push_bit 16 (ucast (A ! p)) OR push_bit 8 (ucast (A ! (p + 1))) OR ucast (A ! (p + 2)))"

definition mi_uint2korr :: "buffer \<Rightarrow> nat \<Rightarrow> uint16" where
  "mi_uint2korr A p = ucast (A ! (p + 1)) OR push_bit 8 (ucast (A ! p))"

definition mi_uint3korr :: "buffer \<Rightarrow> nat \<Rightarrow> uint32" where
  "mi_uint3korr A p = ucast (A ! (p + 2)) OR push_bit 8 (ucast (A ! (p + 1))) OR push_bit 16 (ucast (A ! p))"

definition mi_uint4korr :: "buffer \<Rightarrow> nat \<Rightarrow> uint32" where
  "mi_uint4korr A p = ucast (A ! (p + 3)) OR push_bit 8 (ucast (A ! (p + 2))) OR push_bit 16 (ucast (A ! (p + 1))) OR push_bit 24 (ucast (A ! p))"

definition mi_uint5korr :: "buffer \<Rightarrow> nat \<Rightarrow> ulonglong" where
  "mi_uint5korr A p =
     ucast (ucast (A ! (p + 4)) OR push_bit 8 (ucast (A ! (p + 3))) OR push_bit 16 (ucast (A ! (p + 2))) OR push_bit 24 (ucast (A ! (p + 1))) :: uint32) OR
     push_bit 32 (ucast (A ! p))"

definition mi_uint6korr :: "buffer \<Rightarrow> nat \<Rightarrow> ulonglong" where
  "mi_uint6korr A p =
     ucast (ucast (A ! (p + 5)) OR push_bit 8 (ucast (A ! (p + 4))) OR push_bit 16 (ucast (A ! (p + 3))) OR push_bit 24 (ucast (A ! (p + 2))) :: uint32) OR
     push_bit 32 (ucast (ucast (A ! (p + 1)) OR push_bit 8 (ucast (A ! p)) :: uint32))"

definition mi_uint7korr :: "buffer \<Rightarrow> nat \<Rightarrow> ulonglong" where
  "mi_uint7korr A p =
     ucast (ucast (A ! (p + 6)) OR push_bit 8 (ucast (A ! (p + 5))) OR push_bit 16 (ucast (A ! (p + 4))) OR push_bit 24 (ucast (A ! (p + 3))) :: uint32) OR
     push_bit 32 (ucast (ucast (A ! (p + 2)) OR push_bit 8 (ucast (A ! (p + 1))) OR push_bit 16 (ucast (A ! p)) :: uint32))"

definition mi_uint8korr :: "buffer \<Rightarrow> nat \<Rightarrow> ulonglong" where
  "mi_uint8korr A p =
     ucast (ucast (A ! (p + 7)) OR push_bit 8 (ucast (A ! (p + 6))) OR push_bit 16 (ucast (A ! (p + 5))) OR push_bit 24 (ucast (A ! (p + 4))) :: uint32) OR
     push_bit 32 (ucast (ucast (A ! (p + 3)) OR push_bit 8 (ucast (A ! (p + 2))) OR push_bit 16 (ucast (A ! (p + 1))) OR push_bit 24 (ucast (A ! p)) :: uint32))"

definition mi_sint8korr :: "buffer \<Rightarrow> nat \<Rightarrow> longlong" where
  "mi_sint8korr A p = mi_uint8korr A p"

section \<open>myisampack.h: stores\<close>

definition mi_int1store :: "buffer \<Rightarrow> nat \<Rightarrow> ulonglong \<Rightarrow> buffer" where
  "mi_int1store T p A = T[p := ucast A]"

definition mi_int2store :: "buffer \<Rightarrow> nat \<Rightarrow> ulonglong \<Rightarrow> buffer" where
  "mi_int2store T p A =
     (let def_temp = ucast A :: uint
      in T[p + 1 := ucast def_temp, p := ucast (drop_bit 8 def_temp)])"

definition mi_int3store :: "buffer \<Rightarrow> nat \<Rightarrow> ulonglong \<Rightarrow> buffer" where
  "mi_int3store T p A =
     (let def_temp = ucast A :: ulong
      in T[p + 2 := ucast def_temp, p + 1 := ucast (drop_bit 8 def_temp), p := ucast (drop_bit 16 def_temp)])"

definition mi_int4store :: "buffer \<Rightarrow> nat \<Rightarrow> ulonglong \<Rightarrow> buffer" where
  "mi_int4store T p A =
     (let def_temp = ucast A :: ulong
      in T[p + 3 := ucast def_temp, p + 2 := ucast (drop_bit 8 def_temp), p + 1 := ucast (drop_bit 16 def_temp), p := ucast (drop_bit 24 def_temp)])"

definition mi_int5store :: "buffer \<Rightarrow> nat \<Rightarrow> ulonglong \<Rightarrow> buffer" where
  "mi_int5store T p A =
     (let def_temp = ucast A :: ulong;
          def_temp2 = ucast (drop_bit 32 A) :: ulong
      in T[p + 4 := ucast def_temp, p + 3 := ucast (drop_bit 8 def_temp), p + 2 := ucast (drop_bit 16 def_temp), p + 1 := ucast (drop_bit 24 def_temp),
           p := ucast def_temp2])"

definition mi_int6store :: "buffer \<Rightarrow> nat \<Rightarrow> ulonglong \<Rightarrow> buffer" where
  "mi_int6store T p A =
     (let def_temp = ucast A :: ulong;
          def_temp2 = ucast (drop_bit 32 A) :: ulong
      in T[p + 5 := ucast def_temp, p + 4 := ucast (drop_bit 8 def_temp), p + 3 := ucast (drop_bit 16 def_temp), p + 2 := ucast (drop_bit 24 def_temp),
           p + 1 := ucast def_temp2, p := ucast (drop_bit 8 def_temp2)])"

definition mi_int7store :: "buffer \<Rightarrow> nat \<Rightarrow> ulonglong \<Rightarrow> buffer" where
  "mi_int7store T p A =
     (let def_temp = ucast A :: ulong;
          def_temp2 = ucast (drop_bit 32 A) :: ulong
      in T[p + 6 := ucast def_temp, p + 5 := ucast (drop_bit 8 def_temp), p + 4 := ucast (drop_bit 16 def_temp), p + 3 := ucast (drop_bit 24 def_temp),
           p + 2 := ucast def_temp2, p + 1 := ucast (drop_bit 8 def_temp2), p := ucast (drop_bit 16 def_temp2)])"

definition mi_int8store :: "buffer \<Rightarrow> nat \<Rightarrow> ulonglong \<Rightarrow> buffer" where
  "mi_int8store T p A =
     (let def_temp3 = ucast A :: ulong;
          def_temp4 = ucast (drop_bit 32 A) :: ulong
      in mi_int4store (mi_int4store T p (ucast def_temp4)) (p + 4) (ucast def_temp3))"

text \<open>Row counts and file sizes: eight bytes, as \<open>BIG_TABLES\<close> and a 64-bit \<open>ha_rows\<close> are
  configured; \<open>off_t\<close> has four bytes, so sizes go through the branch with the error marker.\<close>

definition mi_rowstore :: "buffer \<Rightarrow> nat \<Rightarrow> ulonglong \<Rightarrow> buffer" where
  "mi_rowstore T p A = mi_int8store T p A"

definition mi_rowkorr :: "buffer \<Rightarrow> nat \<Rightarrow> ulonglong" where
  "mi_rowkorr T p = mi_uint8korr T p"

text \<open>\<open>mi_sizestore\<close>: the marker \<open>HA_OFFSET_ERROR\<close> (all ones) is eight bytes 255, any other
  offset four zero bytes and its low four bytes; \<open>mi_sizekorr\<close> reads the last four bytes.\<close>

definition HA_OFFSET_ERROR :: ulonglong where
  "HA_OFFSET_ERROR = NOT 0"

definition mi_sizestore :: "buffer \<Rightarrow> nat \<Rightarrow> ulonglong \<Rightarrow> buffer" where
  "mi_sizestore T p A =
     (if A = HA_OFFSET_ERROR
      then T[p := 255, p + 1 := 255, p + 2 := 255, p + 3 := 255,
             p + 4 := 255, p + 5 := 255, p + 6 := 255, p + 7 := 255]
      else mi_int4store (mi_int4store T p 0) (p + 4) A)"

definition mi_sizekorr :: "buffer \<Rightarrow> nat \<Rightarrow> uint32" where
  "mi_sizekorr T p = mi_uint4korr T (p + 4)"

text \<open>Floats on little-endian hardware: the bytes are stored in reverse memory order.\<close>

definition mi_float4store :: "buffer \<Rightarrow> nat \<Rightarrow> uchar list \<Rightarrow> buffer" where
  "mi_float4store T p A = T[p := A ! 3, p + 1 := A ! 2, p + 2 := A ! 1, p + 3 := A ! 0]"

definition mi_float4get :: "buffer \<Rightarrow> nat \<Rightarrow> uchar list" where
  "mi_float4get M p = [M ! (p + 3), M ! (p + 2), M ! (p + 1), M ! p]"

definition mi_float8store :: "buffer \<Rightarrow> nat \<Rightarrow> uchar list \<Rightarrow> buffer" where
  "mi_float8store T p V = T[p := V ! 7, p + 1 := V ! 6, p + 2 := V ! 5, p + 3 := V ! 4,
     p + 4 := V ! 3, p + 5 := V ! 2, p + 6 := V ! 1, p + 7 := V ! 0]"

definition mi_float8get :: "buffer \<Rightarrow> nat \<Rightarrow> uchar list" where
  "mi_float8get M p = [M ! (p + 7), M ! (p + 6), M ! (p + 5), M ! (p + 4),
     M ! (p + 3), M ! (p + 2), M ! (p + 1), M ! p]"

section \<open>byte_order_generic_x86_64.h: byte-swapping loads\<close>

text \<open>The instruction \<open>bswapq\<close>: byte \<open>i\<close> moves to position \<open>7 - i\<close>.\<close>

definition bswapq :: "ulonglong \<Rightarrow> ulonglong" where
  "bswapq v = foldr (OR) (map (\<lambda>i. push_bit (8 * (7 - i)) (take_bit 8 (drop_bit (8 * i) v))) [0, 1, 2, 3, 4, 5, 6, 7]) 0"

definition mi_uint5korr_x64 :: "buffer \<Rightarrow> nat \<Rightarrow> ulonglong" where
  "mi_uint5korr_x64 mem p =
     (let a = ucast (load32 mem p) :: ulonglong;
          b = ucast (mem ! (p + 4)) :: ulonglong
      in bswapq (push_bit 24 (a OR push_bit 32 b)))"

definition mi_uint6korr_x64 :: "buffer \<Rightarrow> nat \<Rightarrow> ulonglong" where
  "mi_uint6korr_x64 mem p =
     (let a = ucast (load32 mem p) :: ulonglong;
          b = ucast (load16 mem (p + 4)) :: ulonglong
      in bswapq (push_bit 16 (a OR push_bit 32 b)))"

definition mi_uint7korr_x64 :: "buffer \<Rightarrow> nat \<Rightarrow> ulonglong" where
  "mi_uint7korr_x64 mem p =
     (let a = ucast (load32 mem p) :: ulonglong;
          b = ucast (load16 mem (p + 4)) :: ulonglong;
          c = ucast (mem ! (p + 6)) :: ulonglong
      in bswapq (push_bit 8 (a OR push_bit 32 b OR push_bit 48 c)))"

definition mi_uint8korr_x64 :: "buffer \<Rightarrow> nat \<Rightarrow> ulonglong" where
  "mi_uint8korr_x64 mem p = bswapq (load64 mem p)"

section \<open>my_compare.h: key segments, key lengths and bit fields\<close>

record HA_KEYSEG =
  charset :: nat
  start :: uint32
  null_pos :: uint32
  bit_pos :: uint16
  flag :: uint16
  seg_length :: uint16
  language :: uint16
  seg_type :: uint8
  null_bit :: uint8
  bit_start :: uint8
  bit_length :: uint8

datatype check_result = CHECK_ERROR | CHECK_NEG | CHECK_POS | CHECK_OUT_OF_RANGE | CHECK_ABORTED_BY_USER

text \<open>A macro that advances the key pointer returns the new position after its result.\<close>

definition get_key_length :: "buffer \<Rightarrow> nat \<Rightarrow> uint \<times> nat" where
  "get_key_length T key =
     (if T ! key \<noteq> 255 then (ucast (T ! key), key + 1)
      else (ucast (mi_uint2korr T (key + 1)), key + 3))"

definition get_key_length_rdonly :: "buffer \<Rightarrow> nat \<Rightarrow> uint" where
  "get_key_length_rdonly T key =
     (if T ! key \<noteq> 255 then ucast (T ! key) else ucast (mi_uint2korr T (key + 1)))"

definition get_key_pack_length :: "buffer \<Rightarrow> nat \<Rightarrow> uint \<times> uint \<times> nat" where
  "get_key_pack_length T key =
     (if T ! key \<noteq> 255 then (ucast (T ! key), 1, key + 1)
      else (ucast (mi_uint2korr T (key + 1)), 3, key + 3))"

definition store_key_length_inc :: "buffer \<Rightarrow> nat \<Rightarrow> uint \<Rightarrow> buffer \<times> nat" where
  "store_key_length_inc T key len =
     (if len < 255 then (T[key := ucast len], key + 1)
      else (mi_int2store (T[key := 255]) (key + 1) (ucast len), key + 3))"

definition size_to_store_key_length :: "uint \<Rightarrow> nat" where
  "size_to_store_key_length len = (if len < 255 then 1 else 3)"

text \<open>The operands are promoted to 32-bit integers, as in C.\<close>

definition get_rec_bits :: "buffer \<Rightarrow> nat \<Rightarrow> nat \<Rightarrow> nat \<Rightarrow> uchar" where
  "get_rec_bits T p ofs len =
     (let val0 = ucast (T ! p) :: uint16;
          val = if ofs + len > 8 then val0 OR ucast (push_bit 8 (ucast (T ! (p + 1)) :: uint)) else val0
      in ucast (drop_bit ofs (ucast val :: uint) AND (push_bit len 1 - 1)))"

definition set_rec_bits :: "uint16 \<Rightarrow> buffer \<Rightarrow> nat \<Rightarrow> nat \<Rightarrow> nat \<Rightarrow> buffer" where
  "set_rec_bits bits T p ofs len =
     (let T1 = T[p := ucast ((ucast (T ! p) :: uint) AND NOT (push_bit ofs (push_bit len 1 - 1)) OR
                             push_bit ofs (ucast bits))]
      in if ofs + len > 8
         then T1[p + 1 := ucast ((ucast (T1 ! (p + 1)) :: uint) AND NOT (push_bit (len + ofs - 8) 1 - 1) OR
                                 drop_bit (8 - ofs) (ucast bits))]
         else T1)"

definition clr_rec_bits :: "buffer \<Rightarrow> nat \<Rightarrow> nat \<Rightarrow> nat \<Rightarrow> buffer" where
  "clr_rec_bits T p ofs len = set_rec_bits 0 T p ofs len"

section \<open>Round trips\<close>


interpretation be2: byte_codec 2 "\<lambda>T p (v :: uint16). mi_int2store T p (ucast v)" mi_uint2korr "\<lambda>_. True"
proof unfold_locales
  fix t and buf :: buffer and v :: uint16
  assume "t + 2 \<le> length buf"
  then show "mi_uint2korr (mi_int2store buf t (ucast v)) t = v"
    by (intro word16_bytes_eqI) (simp_all add: mi_int2store_def mi_uint2korr_def byte_simps)
qed (auto simp: mi_int2store_def mi_uint2korr_def byte_simps)


interpretation be3: byte_codec 3 "\<lambda>T p (v :: uint32). mi_int3store T p (ucast v)" mi_uint3korr "\<lambda>v. unat v < 2 ^ 24"
proof unfold_locales
  fix t and buf :: buffer and v :: uint32
  assume "t + 3 \<le> length buf" "unat v < 2 ^ 24"
  then show "mi_uint3korr (mi_int3store buf t (ucast v)) t = v"
    using word_small_no_bit [of v 24]
    by (intro word32_bytes_eqI) (simp_all add: mi_int3store_def mi_uint3korr_def byte_simps)
qed (auto simp: mi_int3store_def mi_uint3korr_def byte_simps)


interpretation be4: byte_codec 4 "\<lambda>T p (v :: uint32). mi_int4store T p (ucast v)" mi_uint4korr "\<lambda>_. True"
proof unfold_locales
  fix t and buf :: buffer and v :: uint32
  assume "t + 4 \<le> length buf"
  then show "mi_uint4korr (mi_int4store buf t (ucast v)) t = v"
    by (intro word32_bytes_eqI) (simp_all add: mi_int4store_def mi_uint4korr_def byte_simps)
qed (auto simp: mi_int4store_def mi_uint4korr_def byte_simps)


interpretation be5: byte_codec 5 "\<lambda>T p (v :: ulonglong). mi_int5store T p (v)" mi_uint5korr "\<lambda>v. unat v < 2 ^ 40"
proof unfold_locales
  fix t and buf :: buffer and v :: ulonglong
  assume "t + 5 \<le> length buf" "unat v < 2 ^ 40"
  then show "mi_uint5korr (mi_int5store buf t (v)) t = v"
    using word_small_no_bit [of v 40]
    by (intro word64_bytes_eqI) (simp_all add: mi_int5store_def mi_uint5korr_def byte_simps)
qed (auto simp: mi_int5store_def mi_uint5korr_def byte_simps)


interpretation be6: byte_codec 6 "\<lambda>T p (v :: ulonglong). mi_int6store T p (v)" mi_uint6korr "\<lambda>v. unat v < 2 ^ 48"
proof unfold_locales
  fix t and buf :: buffer and v :: ulonglong
  assume "t + 6 \<le> length buf" "unat v < 2 ^ 48"
  then show "mi_uint6korr (mi_int6store buf t (v)) t = v"
    using word_small_no_bit [of v 48]
    by (intro word64_bytes_eqI) (simp_all add: mi_int6store_def mi_uint6korr_def byte_simps)
qed (auto simp: mi_int6store_def mi_uint6korr_def byte_simps)


interpretation be7: byte_codec 7 "\<lambda>T p (v :: ulonglong). mi_int7store T p (v)" mi_uint7korr "\<lambda>v. unat v < 2 ^ 56"
proof unfold_locales
  fix t and buf :: buffer and v :: ulonglong
  assume "t + 7 \<le> length buf" "unat v < 2 ^ 56"
  then show "mi_uint7korr (mi_int7store buf t (v)) t = v"
    using word_small_no_bit [of v 56]
    by (intro word64_bytes_eqI) (simp_all add: mi_int7store_def mi_uint7korr_def byte_simps)
qed (auto simp: mi_int7store_def mi_uint7korr_def byte_simps)


interpretation be8: byte_codec 8 "\<lambda>T p (v :: ulonglong). mi_int8store T p (v)" mi_uint8korr "\<lambda>_. True"
proof unfold_locales
  fix t and buf :: buffer and v :: ulonglong
  assume "t + 8 \<le> length buf"
  then show "mi_uint8korr (mi_int8store buf t (v)) t = v"
    by (intro word64_bytes_eqI) (simp_all add: mi_int8store_def mi_uint8korr_def byte_simps mi_int4store_def)
qed (auto simp: mi_int8store_def mi_uint8korr_def byte_simps mi_int4store_def)



lemma sint8_store [simp]: "t + 8 \<le> length buf \<Longrightarrow> mi_sint8korr (mi_int8store buf t v) t = v"
  by (simp add: mi_sint8korr_def be8.load_store)

lemma float8_roundtrip:
  "p + 8 \<le> length T \<Longrightarrow> length V = 8 \<Longrightarrow> mi_float8get (mi_float8store T p V) p = V"
  by (auto simp: mi_float8get_def mi_float8store_def length_Suc_conv eval_nat_numeral)

section \<open>Bit fields\<close>

lemma shifted_one_minus_one: "(2 ^ len - 1 :: 'a::len word) = mask len"
  by (simp add: mask_eq_exp_minus_1)

lemma bit_get_rec_bits:
  assumes "ofs < 8" "len \<le> 8" "n < 8"
  shows "bit (get_rec_bits T p ofs len) n \<longleftrightarrow> n < len \<and> (if ofs + n < 8 then bit (T ! p) (ofs + n) else bit (T ! (p + 1)) (ofs + n - 8))"
  using assms by (auto simp: get_rec_bits_def shifted_one_minus_one bits_simps Let_def)

lemma set_rec_bits_low:
  assumes "p < length T" "n < 8" "ofs < 8"
  shows "bit (set_rec_bits bits T p ofs len ! p) n \<longleftrightarrow>
    (if n < ofs then bit (T ! p) n else bit bits (n - ofs) \<or> (ofs + len \<le> n \<and> bit (T ! p) n))"
  using assms by (auto simp: set_rec_bits_def shifted_one_minus_one bits_simps Let_def)

lemma set_rec_bits_high:
  assumes "p + 1 < length T" "n < 8" "ofs < 8" "8 < ofs + len"
  shows "bit (set_rec_bits bits T p ofs len ! (p + 1)) n \<longleftrightarrow>
    bit bits (8 - ofs + n) \<or> (ofs + len \<le> 8 + n \<and> bit (T ! (p + 1)) n)"
  using assms by (auto simp: set_rec_bits_def shifted_one_minus_one bits_simps Let_def)

lemma bits_below_length: "unat (w :: 'a::len word) < 2 ^ k \<Longrightarrow> bit w n \<Longrightarrow> n < k"
  using word_small_no_bit [of w k n] by (meson not_less)

lemma set_rec_bits_other:
  "i \<noteq> p \<Longrightarrow> i \<noteq> p + 1 \<or> ofs + len \<le> 8 \<Longrightarrow> set_rec_bits bits T p ofs len ! i = T ! i"
  by (auto simp: set_rec_bits_def Let_def)

section \<open>Byte order and numeric order\<close>

definition be_value :: "uchar list \<Rightarrow> nat" where
  "be_value xs = foldl (\<lambda>a b. a * 256 + unat b) 0 xs"

lemma be_value_snoc: "be_value (xs @ [b]) = be_value xs * 256 + unat b"
  by (simp add: be_value_def)

lemma horner_byte: "(n div 2 ^ (k + 8)) * 256 + n div 2 ^ k mod 256 = (n :: nat) div 2 ^ k"
  by (simp add: power_add div_mult2_eq)

lemma be_value_word:
  "be_value (map (\<lambda>i. ucast (drop_bit (8 * i) (v :: 'a::len word)) :: uchar) (rev [k..<n])) =
   unat v div 2 ^ (8 * k) mod 2 ^ (8 * (n - k))"
proof (induction "n - k" arbitrary: k)
  case 0
  then show ?case by (simp add: be_value_def)
next
  case (Suc m)
  then have less: "k < n" and m: "m = n - Suc k" by auto
  let ?b = "\<lambda>i. ucast (drop_bit (8 * i) v) :: uchar" and ?q = "unat v div 2 ^ (8 * k)"
  have "be_value (map ?b (rev [k..<n])) = be_value (map ?b (rev [Suc k..<n])) * 256 + unat (?b k)"
    using less by (simp add: upt_rec [of k] be_value_snoc)
  also have "\<dots> = (?q div 256 mod 2 ^ (8 * m)) * 256 + ?q mod 256"
    using Suc.hyps(1) [OF m] m
    by (simp add: unat_ucast_mod unat_drop_bit_div power_add flip: div_mult2_eq) (simp add: mult.commute)
  also have "\<dots> = ?q mod (256 * 2 ^ (8 * m))"
    by (simp add: mod_mult2_eq)
  also have "256 * 2 ^ (8 * m) = (2 :: nat) ^ (8 * (n - k))"
    using Suc.hyps(2) by (simp flip: Suc.hyps(2) add: power_add)
  finally show ?case .
qed

lemma be_value_Cons: "be_value (b # xs) = unat b * 256 ^ length xs + be_value xs"
  by (induction xs rule: rev_induct) (simp_all add: be_value_def algebra_simps)

lemma be_value_less: "be_value xs < 256 ^ length xs"
proof (induction xs)
  case (Cons b xs)
  have "unat b * 256 ^ length xs \<le> 255 * 256 ^ length xs"
    using unat_less_length [of b] by (intro mult_le_mono1) simp
  then have "unat b * 256 ^ length xs + be_value xs < 256 * 256 ^ length xs" using Cons by linarith
  then show ?case by (simp add: be_value_Cons)
qed (simp add: be_value_def)

lemma memcmp_be_value:
  "length xs = length ys \<Longrightarrow> memcmp xs ys < 0 \<longleftrightarrow> be_value xs < be_value ys"
proof (induction xs ys rule: memcmp.induct)
  case (1 a as b bs)
  have gap: "be_value (a # as) < be_value (b # bs)" if "a < b" "length as = length bs" for a b as bs
  proof -
    have "(unat a + 1) * 256 ^ length as \<le> unat b * 256 ^ length as"
      using that by (intro mult_le_mono1) (simp add: word_less_nat_alt)
    then show ?thesis using be_value_less [of as] that by (simp add: be_value_Cons)
  qed
  show ?case
  proof (cases a b rule: linorder_cases)
    case less then show ?thesis using gap [of a b as bs] 1 by simp
  next
    case equal then show ?thesis using 1 by (simp add: be_value_Cons)
  next
    case greater then show ?thesis using gap [of b a bs as] 1 by simp
  qed
qed auto

lemma take_drop_nth: "p + n \<le> length T \<Longrightarrow> take n (drop p T) = map (\<lambda>i. T ! (p + i)) [0..<n]"
  by (rule nth_equalityI) auto

lemma upt_8: "[0..<8] = [0, 1, 2, 3, 4, 5, 6, 7]"
  by (simp add: upt_rec)

lemma mi_int8store_bytes:
  "p + 8 \<le> length T \<Longrightarrow>
   take 8 (drop p (mi_int8store T p v)) = map (\<lambda>i. ucast (drop_bit (8 * i) v)) (rev [0..<8])"
  by (simp add: take_drop_nth upt_8)
    (simp add: mi_int8store_def mi_int4store_def Let_def nth_list_update ucast_drop_ucast ucast_ucast_uchar
      drop_bit_drop_bit, auto intro!: word_bits_eqI simp: bits_simps)

lemma bswapq_byte:
  assumes "j < 8"
  shows "bit (bswapq v) j \<longleftrightarrow> bit v (56 + j)" "bit (bswapq v) (8 + j) \<longleftrightarrow> bit v (48 + j)"
    "bit (bswapq v) (16 + j) \<longleftrightarrow> bit v (40 + j)" "bit (bswapq v) (24 + j) \<longleftrightarrow> bit v (32 + j)"
    "bit (bswapq v) (32 + j) \<longleftrightarrow> bit v (24 + j)" "bit (bswapq v) (40 + j) \<longleftrightarrow> bit v (16 + j)"
    "bit (bswapq v) (48 + j) \<longleftrightarrow> bit v (8 + j)" "bit (bswapq v) (56 + j) \<longleftrightarrow> bit v j"
  using assms by (auto simp: bswapq_def bits_simps bit_take_bit_iff)

section \<open>Properties\<close>

text \<open>Keys stored high byte first compare byte by byte as their values compare: \<open>memcmp\<close> of two
  eight-byte fields written by \<open>mi_int8store\<close> is negative exactly when the first value is smaller.\<close>

theorem key_order_preserved:
  assumes "p + 8 \<le> length T" and "q + 8 \<le> length U"
  shows "memcmp (take 8 (drop p (mi_int8store T p a))) (take 8 (drop q (mi_int8store U q b))) < 0 \<longleftrightarrow> a < b"
  using assms be_value_word [of a 0 8] be_value_word [of b 0 8] unat_less_length [of a] unat_less_length [of b]
  by (subst memcmp_be_value) (simp_all add: mi_int8store_bytes word_less_nat_alt)

theorem key_order_preserved_witness:
  "memcmp (take 8 (drop 0 (mi_int8store (replicate 8 0) 0 258))) (take 8 (drop 1 (mi_int8store (replicate 9 7) 1 513))) < 0"
  using key_order_preserved [of 0 "replicate 8 0" 1 "replicate 9 7" 258 513] by simp

text \<open>The byte-swapping x86-64 loads of 5, 6, 7 and 8 bytes return what the generic high-byte-first
  macros return; so the misspelt guard that drops the eight-byte one changes no value.\<close>

theorem bswap_loads_equal_generic:
  "mi_uint5korr_x64 A p = mi_uint5korr A p \<and> mi_uint6korr_x64 A p = mi_uint6korr A p \<and>
   mi_uint7korr_x64 A p = mi_uint7korr A p \<and> mi_uint8korr_x64 A p = mi_uint8korr A p"
  by (intro conjI; rule word64_bytes_eqI; simp add: mi_uint5korr_x64_def mi_uint6korr_x64_def
      mi_uint7korr_x64_def mi_uint8korr_x64_def bswapq_byte Let_def load16_eq load32_eq load64_eq
      mi_uint5korr_def mi_uint6korr_def mi_uint7korr_def mi_uint8korr_def uint2korr_def uint4korr_def uint8korr_def byte_simps
      add.commute [of p])

text \<open>C33: A bit field of up to eight bits at any bit of a byte, which may straddle two bytes: after \<open>set_rec_bits\<close> has stored a value of that many bits, \<open>get_rec_bits\<close> gives the
  value back, every bit of the record outside the field is unchanged and the record keeps its length. The record holds the byte of the first bit, and the next byte when the field reaches it.\<close>

theorem rec_bits_roundtrip:
  assumes "ofs < 8" and "len \<le> 8" and "p < length T" and "8 < ofs + len \<longrightarrow> p + 1 < length T" and "unat bits < 2 ^ len"
  shows "get_rec_bits (set_rec_bits bits T p ofs len) p ofs len = ucast bits
    \<and> (\<forall>i n. n < 8 \<and> (8 * i + n < 8 * p + ofs \<or> 8 * p + ofs + len \<le> 8 * i + n) \<longrightarrow>
         bit (set_rec_bits bits T p ofs len ! i) n = bit (T ! i) n)
    \<and> length (set_rec_bits bits T p ofs len) = length T"
proof (intro conjI)
  show "get_rec_bits (set_rec_bits bits T p ofs len) p ofs len = ucast bits"
  proof (rule word_bits_eqI)
    fix n assume "n < LENGTH(8)"
    then show "bit (get_rec_bits (set_rec_bits bits T p ofs len) p ofs len) n = bit (ucast bits :: uchar) n"
      using assms bits_below_length [OF assms(5), of n]
      by (cases "n < len") (auto simp: bit_get_rec_bits set_rec_bits_low set_rec_bits_high [simplified] bits_simps not_less)
  qed
next
  have "bit (set_rec_bits bits T p ofs len ! i) n = bit (T ! i) n"
    if "n < 8" "8 * i + n < 8 * p + ofs \<or> 8 * p + ofs + len \<le> 8 * i + n" for i n
  proof (cases "i = p \<or> (i = p + 1 \<and> 8 < ofs + len)")
    case True
    then show ?thesis
      using that assms bits_below_length [OF assms(5)] by (fastforce simp: set_rec_bits_low set_rec_bits_high [simplified])
  next
    case False
    then have "i \<noteq> p" "i \<noteq> p + 1 \<or> ofs + len \<le> 8" by auto
    then show ?thesis by (simp add: set_rec_bits_other)
  qed
  then show "\<forall>i n. n < 8 \<and> (8 * i + n < 8 * p + ofs \<or> 8 * p + ofs + len \<le> 8 * i + n) \<longrightarrow>
         bit (set_rec_bits bits T p ofs len ! i) n = bit (T ! i) n" by blast
qed (simp add: set_rec_bits_def Let_def)

theorem rec_bits_roundtrip_witness:
  "get_rec_bits (set_rec_bits 21 [255, 0] 0 5 5) 0 5 5 = ucast (21 :: uint16)"
  using rec_bits_roundtrip [of 5 5 0 "[255, 0]" 21] by simp

text \<open>A key length below 65536 written by \<open>store_key_length_inc\<close> is read back by
  \<open>get_key_length\<close>, both advance the key by \<open>size_to_store_key_length\<close> bytes, and the read-only and
  pack-length variants agree.\<close>

theorem key_length_roundtrip:
  assumes "key + 3 \<le> length T" and "len < 65536"
  shows "get_key_length (fst (store_key_length_inc T key len)) key = (len, key + size_to_store_key_length len)
    \<and> snd (store_key_length_inc T key len) = key + size_to_store_key_length len
    \<and> get_key_length_rdonly (fst (store_key_length_inc T key len)) key = len
    \<and> get_key_pack_length (fst (store_key_length_inc T key len)) key =
        (len, of_nat (size_to_store_key_length len), key + size_to_store_key_length len)"
proof (cases "len < 255")
  case True
  then have "unat len < 255" by (simp add: word_less_nat_alt)
  then have "(ucast len :: uchar) \<noteq> 255" and "(ucast (ucast len :: uchar) :: uint) = len"
    by (auto simp: word_unat_eq_iff unat_ucast_mod)
  then show ?thesis
    using True assms by (simp add: get_key_length_def get_key_length_rdonly_def get_key_pack_length_def
        store_key_length_inc_def size_to_store_key_length_def)
next
  case False
  let ?T = "mi_int2store (T[key := 255]) (key + 1) (ucast len)"
  have "ucast len = (ucast (ucast len :: uint16) :: ulonglong)" and wide: "(ucast (ucast len :: uint16) :: uint) = len"
    using assms(2) by (auto simp: word_unat_eq_iff unat_ucast_mod word_less_nat_alt)
  then have "mi_uint2korr ?T (key + 1) = ucast len"
    using assms(1) be2.load_store [of "key + 1" "T[key := 255]" "ucast len"] by simp
  moreover have "?T ! key = 255"
    using assms(1) be2.store_frame [of key "key + 1" "T[key := 255]" "ucast len"] by (simp add: mi_int2store_def Let_def)
  ultimately show ?thesis
    using False wide by (simp add: get_key_length_def get_key_length_rdonly_def get_key_pack_length_def
        store_key_length_inc_def size_to_store_key_length_def)
qed

theorem key_length_roundtrip_witness:
  "get_key_length (fst (store_key_length_inc [0, 0, 0, 0] 1 300)) 1 = (300, 4)"
  using key_length_roundtrip [of 1 "[0, 0, 0, 0]" 300] by (simp add: size_to_store_key_length_def)

end
