(* ===== verification/Bitset.thy ===== *)
theory Bitset imports Prelude begin

text \<open>
  The contract of a bitmap as a locale: membership, setting and clearing one bit, clearing and
  setting all bits, and the comparison. It is interpreted for \<open>MY_BITMAP\<close> (private/my_bitmap.h) and
  for \<open>Bitmap<width>\<close> (private/sql_bitmap.h).
\<close>

locale bitset =
  fixes valid :: "'m \<Rightarrow> bool"
    and size :: nat
    and is_set :: "'m \<Rightarrow> nat \<Rightarrow> bool"
    and set_bit clear_bit :: "'m \<Rightarrow> nat \<Rightarrow> 'm"
    and clear_all set_all :: "'m \<Rightarrow> 'm"
    and same :: "'m \<Rightarrow> 'm \<Rightarrow> bool"
  assumes valid_set: "valid m \<Longrightarrow> n < size \<Longrightarrow> valid (set_bit m n)"
    and valid_clear: "valid m \<Longrightarrow> n < size \<Longrightarrow> valid (clear_bit m n)"
    and valid_clear_all: "valid m \<Longrightarrow> valid (clear_all m)"
    and valid_set_all: "valid m \<Longrightarrow> valid (set_all m)"
    and is_set_set: "valid m \<Longrightarrow> n < size \<Longrightarrow> k < size \<Longrightarrow> is_set (set_bit m n) k \<longleftrightarrow> k = n \<or> is_set m k"
    and is_set_clear: "valid m \<Longrightarrow> n < size \<Longrightarrow> k < size \<Longrightarrow> is_set (clear_bit m n) k \<longleftrightarrow> k \<noteq> n \<and> is_set m k"
    and is_set_clear_all: "valid m \<Longrightarrow> k < size \<Longrightarrow> \<not> is_set (clear_all m) k"
    and is_set_set_all: "valid m \<Longrightarrow> k < size \<Longrightarrow> is_set (set_all m) k"
    and same_iff: "valid m \<Longrightarrow> valid m' \<Longrightarrow> same m m' \<longleftrightarrow> (\<forall>k < size. is_set m k \<longleftrightarrow> is_set m' k)"
begin

definition members :: "'m \<Rightarrow> nat set" where
  "members m = {k. k < size \<and> is_set m k}"

lemma members_finite [simp]: "finite (members m)"
  by (simp add: members_def)

lemma members_set: "valid m \<Longrightarrow> n < size \<Longrightarrow> members (set_bit m n) = insert n (members m)"
  by (auto simp: members_def is_set_set)

lemma members_clear: "valid m \<Longrightarrow> n < size \<Longrightarrow> members (clear_bit m n) = members m - {n}"
  by (auto simp: members_def is_set_clear)

lemma members_clear_all: "valid m \<Longrightarrow> members (clear_all m) = {}"
  by (auto simp: members_def is_set_clear_all)

lemma members_set_all: "valid m \<Longrightarrow> members (set_all m) = {..<size}"
  by (auto simp: members_def is_set_set_all)

lemma same_members: "valid m \<Longrightarrow> valid m' \<Longrightarrow> same m m' \<longleftrightarrow> members m = members m'"
  by (auto simp: members_def same_iff)

lemma valid_fold_set: "valid m \<Longrightarrow> set ns \<subseteq> {..<size} \<Longrightarrow> valid (foldl set_bit m ns)"
  by (induction ns arbitrary: m) (auto simp: valid_set)

lemma members_fold_set:
  "valid m \<Longrightarrow> set ns \<subseteq> {..<size} \<Longrightarrow> members (foldl set_bit m ns) = set ns \<union> members m"
  by (induction ns arbitrary: m) (auto simp: valid_set members_set)

lemma build_members:
  assumes "valid m" and "set ns \<subseteq> {..<size}"
  shows "{k. k < size \<and> is_set (foldl set_bit (clear_all m) ns) k} = set ns"
  using members_fold_set [of "clear_all m" ns] assms
  by (simp add: valid_clear_all members_clear_all flip: members_def)

lemma build_same_iff:
  assumes "valid m" "valid m'" "set ns \<subseteq> {..<size}" "set ks \<subseteq> {..<size}"
  shows "same (foldl set_bit (clear_all m) ns) (foldl set_bit (clear_all m') ks) \<longleftrightarrow> set ns = set ks"
  using assms by (simp add: same_members valid_fold_set valid_clear_all members_fold_set members_clear_all)

lemma set_clear_undo:
  assumes "valid m" "n < size" "\<not> is_set m n"
  shows "same (clear_bit (set_bit m n) n) m"
  using assms by (auto simp: same_iff valid_set valid_clear is_set_set is_set_clear)

end

end
