(* ===== verification/My_Bitmap.thy ===== *)
theory My_Bitmap imports Bitset Byte_Order begin

unbundle bit_operations_syntax

text \<open>
  \<open>MY_BITMAP\<close> of \<open>private/my_bitmap.h\<close>: the inline and macro operations on a bitmap stored in an array of
  32-bit words that is accessed byte by byte. The memory behind \<open>bitmap\<close> is its byte list,
  \<open>last_word_ptr\<close> the byte index of the last word. The functions declared \<open>extern\<close> in the header
  have their bodies elsewhere; what the inline code relies on of \<open>create_last_word_mask\<close> (the mask
  holds the unused bits of the last word) is part of the invariant \<open>wf_bitmap\<close>.
\<close>

section \<open>Data and operations\<close>

record MY_BITMAP =
  bitmap :: buffer
  last_word_ptr :: nat
  last_word_mask :: uint32
  n_bits :: uint32

definition bitmap_buffer_size :: "uint \<Rightarrow> uint" where
  "bitmap_buffer_size bits = ((bits + 31) div 32) * 4"

definition no_bytes_in_map :: "MY_BITMAP \<Rightarrow> uint" where
  "no_bytes_in_map bm = (n_bits bm + 7) div 8"

definition no_words_in_map :: "MY_BITMAP \<Rightarrow> uint" where
  "no_words_in_map bm = (n_bits bm + 31) div 32"

definition bytes_word_aligned :: "uint \<Rightarrow> uint" where
  "bytes_word_aligned bytes = 4 * ((bytes + 3) div 4)"

definition bitmap_set_bit :: "MY_BITMAP \<Rightarrow> uint \<Rightarrow> MY_BITMAP" where
  "bitmap_set_bit bm bt =
     (let b = unat (bt div 8)
      in bm\<lparr>bitmap := (bitmap bm)[b := ucast ((ucast (bitmap bm ! b) :: uint) OR push_bit (unat (bt AND 7)) 1)]\<rparr>)"

definition bitmap_flip_bit :: "MY_BITMAP \<Rightarrow> uint \<Rightarrow> MY_BITMAP" where
  "bitmap_flip_bit bm bt =
     (let b = unat (bt div 8)
      in bm\<lparr>bitmap := (bitmap bm)[b := ucast ((ucast (bitmap bm ! b) :: uint) XOR push_bit (unat (bt AND 7)) 1)]\<rparr>)"

definition bitmap_clear_bit :: "MY_BITMAP \<Rightarrow> uint \<Rightarrow> MY_BITMAP" where
  "bitmap_clear_bit bm bt =
     (let b = unat (bt div 8)
      in bm\<lparr>bitmap := (bitmap bm)[b := ucast ((ucast (bitmap bm ! b) :: uint) AND NOT (push_bit (unat (bt AND 7)) 1))]\<rparr>)"

definition bitmap_is_set :: "MY_BITMAP \<Rightarrow> uint \<Rightarrow> bool" where
  "bitmap_is_set bm bt = ((ucast (bitmap bm ! unat (bt div 8)) :: uint) AND push_bit (unat (bt AND 7)) 1 \<noteq> 0)"

definition bitmap_cmp :: "MY_BITMAP \<Rightarrow> MY_BITMAP \<Rightarrow> bool" where
  "bitmap_cmp bm1 bm2 =
     (let n = unat (4 * (no_words_in_map bm1 - 1))
      in if memcmp (take n (bitmap bm1)) (take n (bitmap bm2)) \<noteq> 0 then False
         else load32 (bitmap bm1) (last_word_ptr bm1) OR last_word_mask bm1 =
              load32 (bitmap bm2) (last_word_ptr bm2) OR last_word_mask bm2)"

definition bitmap_clear_all :: "MY_BITMAP \<Rightarrow> MY_BITMAP" where
  "bitmap_clear_all bm =
     (let n = unat (4 * no_words_in_map bm) in bm\<lparr>bitmap := replicate n 0 @ drop n (bitmap bm)\<rparr>)"

definition bitmap_set_all :: "MY_BITMAP \<Rightarrow> MY_BITMAP" where
  "bitmap_set_all bm =
     (let n = unat (4 * no_words_in_map bm) in bm\<lparr>bitmap := replicate n 0xFF @ drop n (bitmap bm)\<rparr>)"

section \<open>Invariant\<close>

definition words_needed :: "uint32 \<Rightarrow> nat" where
  "words_needed n = (unat n + 31) div 32"

definition wf_bitmap :: "MY_BITMAP \<Rightarrow> bool" where
  "wf_bitmap bm \<longleftrightarrow>
     0 < unat (n_bits bm) \<and> unat (n_bits bm) + 31 < 2 ^ 32 \<and>
     length (bitmap bm) = 4 * words_needed (n_bits bm) \<and>
     last_word_ptr bm = 4 * (words_needed (n_bits bm) - 1) \<and>
     last_word_mask bm = (if n_bits bm AND 31 = 0 then 0 else NOT (mask (unat (n_bits bm AND 31))))"

definition bm_bit :: "MY_BITMAP \<Rightarrow> nat \<Rightarrow> bool" where
  "bm_bit bm n = bit (bitmap bm ! (n div 8)) (n mod 8)"

lemma unat_and_7: "unat (b AND 7 :: uint) = unat b mod 8"
proof -
  have "b AND 7 = take_bit 3 b" by (simp add: take_bit_eq_mask mask_eq_exp_minus_1)
  then show ?thesis by (simp add: take_bit_eq_mod unat_mod)
qed

lemma unat_and_31: "unat (b AND 31 :: uint) = unat b mod 32"
proof -
  have "b AND 31 = take_bit 5 b" by (simp add: take_bit_eq_mask mask_eq_exp_minus_1)
  then show ?thesis by (simp add: take_bit_eq_mod unat_mod)
qed

lemma unat_div_8: "unat (b div 8 :: uint) = unat b div 8"
  by (simp add: unat_div)

lemma no_words_in_map_eq: "wf_bitmap bm \<Longrightarrow> unat (no_words_in_map bm) = words_needed (n_bits bm)"
  by (simp add: no_words_in_map_def wf_bitmap_def words_needed_def unat_div unat_add_small)

lemma words_needed_bounds:
  "wf_bitmap bm \<Longrightarrow> 0 < words_needed (n_bits bm) \<and> words_needed (n_bits bm) < 2 ^ 28"
  by (auto simp: wf_bitmap_def words_needed_def)

lemma four_words_eq: "wf_bitmap bm \<Longrightarrow> unat (4 * no_words_in_map bm) = 4 * words_needed (n_bits bm)"
  using words_needed_bounds [of bm] by (simp add: unat_word_ariths no_words_in_map_eq)

lemma four_words_minus_eq:
  assumes "wf_bitmap bm"
  shows "unat (4 * (no_words_in_map bm - 1)) = 4 * (words_needed (n_bits bm) - 1)"
proof -
  have "unat (no_words_in_map bm - 1) = words_needed (n_bits bm) - 1"
    using words_needed_bounds [OF assms] no_words_in_map_eq [OF assms]
    by (subst unat_minus_one) (auto simp: unat_eq_0 [symmetric])
  then show ?thesis
    using words_needed_bounds [OF assms] by (subst unat_mult_lem [THEN iffD1]) auto
qed

lemma bitmap_is_set_bit: "bitmap_is_set bm b = bm_bit bm (unat b)"
  by (simp add: bitmap_is_set_def and_bit_nonzero bm_bit_def unat_and_7 unat_div_8 bits_simps)
    (auto dest: bit_imp_le_length)

lemma byte_index_in_range:
  "wf_bitmap bm \<Longrightarrow> b < unat (n_bits bm) \<Longrightarrow> b div 8 < length (bitmap bm)"
  by (auto simp: wf_bitmap_def words_needed_def)


lemma byte_of_write:
  fixes b :: uint
  assumes "wf_bitmap bm" "unat b < unat (n_bits bm)" "k < unat (n_bits bm)"
  shows "bm_bit (bm\<lparr>bitmap := (bitmap bm)[unat (b div 8) := v]\<rparr>) k \<longleftrightarrow>
    (if k div 8 = unat b div 8 then bit v (k mod 8) else bm_bit bm k)"
  using assms by (auto simp: bm_bit_def nth_list_update unat_div_8 byte_index_in_range)

lemma same_byte_bit: "k div 8 = b div 8 \<Longrightarrow> k mod 8 = b mod 8 \<longleftrightarrow> k = (b :: nat)"
  by (metis div_mult_mod_eq)

lemma bm_bit_ops:
  fixes b :: uint
  assumes "wf_bitmap bm" "unat b < unat (n_bits bm)" "k < unat (n_bits bm)"
  shows bm_bit_set: "bm_bit (bitmap_set_bit bm b) k \<longleftrightarrow> k = unat b \<or> bm_bit bm k"
    and bm_bit_clear: "bm_bit (bitmap_clear_bit bm b) k \<longleftrightarrow> k \<noteq> unat b \<and> bm_bit bm k"
    and bm_bit_flip: "bm_bit (bitmap_flip_bit bm b) k \<longleftrightarrow> (k = unat b) \<noteq> bm_bit bm k"
  unfolding bitmap_set_bit_def bitmap_clear_bit_def bitmap_flip_bit_def Let_def byte_of_write [OF assms]
  by (auto simp: bits_simps unat_and_7 unat_div_8 bm_bit_def dest: same_byte_bit)

lemma wf_bitmap_ops:
  assumes "wf_bitmap bm"
  shows wf_bitmap_set: "wf_bitmap (bitmap_set_bit bm b)"
    and wf_bitmap_clear: "wf_bitmap (bitmap_clear_bit bm b)"
    and wf_bitmap_flip: "wf_bitmap (bitmap_flip_bit bm b)"
    and wf_bitmap_clear_all: "wf_bitmap (bitmap_clear_all bm)"
    and wf_bitmap_set_all: "wf_bitmap (bitmap_set_all bm)"
  using assms four_words_eq [OF assms]
  by (simp_all add: wf_bitmap_def bitmap_set_bit_def bitmap_clear_bit_def bitmap_flip_bit_def
      bitmap_clear_all_def bitmap_set_all_def Let_def)

lemma n_bits_unchanged [simp]:
  "n_bits (bitmap_set_bit bm b) = n_bits bm" "n_bits (bitmap_clear_bit bm b) = n_bits bm"
  "n_bits (bitmap_flip_bit bm b) = n_bits bm" "n_bits (bitmap_clear_all bm) = n_bits bm"
  "n_bits (bitmap_set_all bm) = n_bits bm"
  by (simp_all add: bitmap_set_bit_def bitmap_clear_bit_def bitmap_flip_bit_def bitmap_clear_all_def
      bitmap_set_all_def Let_def)

lemma bm_bit_all_ops:
  assumes "wf_bitmap bm" "k < unat (n_bits bm)"
  shows bm_bit_clear_all: "\<not> bm_bit (bitmap_clear_all bm) k"
    and bm_bit_set_all: "bm_bit (bitmap_set_all bm) k"
proof -
  have len: "k div 8 < 4 * words_needed (n_bits bm)"
    using byte_index_in_range [OF assms] assms(1) by (simp add: wf_bitmap_def)
  have "(0xFF :: uchar) = mask 8" by (simp add: mask_eq_exp_minus_1)
  then have ff: "bit (0xFF :: uchar) (k mod 8)" by (simp only: bit_mask_word) simp
  show "\<not> bm_bit (bitmap_clear_all bm) k" "bm_bit (bitmap_set_all bm) k"
    using len ff four_words_eq [OF assms(1)]
    by (simp_all add: bm_bit_def bitmap_clear_all_def bitmap_set_all_def Let_def nth_append)
qed

section \<open>Comparison\<close>

lemma bit_load32:
  assumes "j < 32"
  shows "bit (load32 A p) j \<longleftrightarrow> bit (A ! (p + j div 8)) (j mod 8)"
proof -
  have "\<forall>r < 8. bit (load32 A p) (8 * i + r) \<longleftrightarrow> bit (A ! (p + i)) r" if "i < 4" for i
  proof -
    consider "i = 0" | "i = 1" | "i = 2" | "i = 3" using \<open>i < 4\<close> by linarith
    then show ?thesis by cases (auto simp: load32_eq uint4korr_def bits_simps)
  qed
  from this [of "j div 8", rule_format, of "j mod 8"] assms show ?thesis
    by (simp add: less_mult_imp_div_less)
qed

lemma bytes_eq_iff_bits:
  "(\<forall>i < m. A ! i = B ! i) \<longleftrightarrow> (\<forall>k < 8 * m. bit (A ! (k div 8) :: uchar) (k mod 8) \<longleftrightarrow> bit (B ! (k div 8)) (k mod 8))"
proof
  assume r: "\<forall>k < 8 * m. bit (A ! (k div 8)) (k mod 8) \<longleftrightarrow> bit (B ! (k div 8)) (k mod 8)"
  show "\<forall>i < m. A ! i = B ! i"
  proof (intro allI impI)
    fix i assume "i < m"
    then have "bit (A ! i) r \<longleftrightarrow> bit (B ! i) r" if "r < 8" for r
      using r [rule_format, of "8 * i + r"] that by simp
    then show "A ! i = B ! i" by (intro word_bits_eqI) simp
  qed
qed auto

lemma take_eq_iff_nth:
  "n \<le> length A \<Longrightarrow> n \<le> length B \<Longrightarrow> take n A = take n B \<longleftrightarrow> (\<forall>i < n. A ! i = B ! i)"
  by (auto simp: list_eq_iff_nth_eq)

lemma masked_word_eq:
  fixes v w :: uint32
  assumes "0 < r" "r \<le> 32" "m = (if r = 32 then 0 else NOT (mask r))"
  shows "v OR m = w OR m \<longleftrightarrow> (\<forall>j < r. bit v j \<longleftrightarrow> bit w j)"
proof -
  have "v OR m = w OR m \<longleftrightarrow> (\<forall>j < 32. bit (v OR m) j \<longleftrightarrow> bit (w OR m) j)"
    by (auto intro: word_bits_eqI)
  also have "\<dots> \<longleftrightarrow> (\<forall>j < r. bit v j \<longleftrightarrow> bit w j)"
  proof (cases "r = 32")
    case False
    then have "bit (u OR m) j \<longleftrightarrow> bit u j \<or> r \<le> j" if "j < 32" for u j
      using that assms(3) by (auto simp: bits_simps)
    then have "(\<forall>j < 32. bit (v OR m) j \<longleftrightarrow> bit (w OR m) j) \<longleftrightarrow>
        (\<forall>j < 32. \<not> r \<le> j \<longrightarrow> (bit v j \<longleftrightarrow> bit w j))" by blast
    then show ?thesis using assms(2) by (simp add: not_le) (meson less_le_trans)
  qed (simp add: assms)
  finally show ?thesis .
qed

lemma split_last_word:
  assumes "0 < N" "W = (N + 31) div 32" "r = (if N mod 32 = 0 then 32 else N mod (32::nat))"
  shows "(\<forall>k < N. P k) \<longleftrightarrow> (\<forall>k < 32 * (W - 1). P k) \<and> (\<forall>j < r. P (32 * (W - 1) + j))"
proof -
  have N: "N = 32 * (W - 1) + r"
  proof (cases "N mod 32 = 0")
    case True
    then obtain q where "N = 32 * q" by auto
    then show ?thesis using assms by auto
  next
    case False
    have "N = 32 * (N div 32) + N mod 32" "N mod 32 < 32" by simp_all
    then have "W = Suc (N div 32)" using assms(2) False by linarith
    then show ?thesis using False assms(3) by simp
  qed
  have "k < 32 * (W - 1) \<or> (\<exists>j < r. k = 32 * (W - 1) + j)" if "k < 32 * (W - 1) + r" for k
    using that by (cases "k < 32 * (W - 1)") (auto intro!: exI [of _ "k - 32 * (W - 1)"])
  then show ?thesis unfolding N by (metis nat_add_left_cancel_less trans_less_add1)
qed

lemma word_byte_index: "(32 * m + j) div 8 = 4 * m + j div 8" "(32 * m + j) mod 8 = j mod (8 :: nat)"
proof -
  have "32 * m + j = 8 * (4 * m) + j" by simp
  then show "(32 * m + j) div 8 = 4 * m + j div 8" "(32 * m + j) mod 8 = j mod 8"
    by (simp_all only: mod_mult_self4 div_mult_self4)
qed

lemma bitmap_cmp_iff:
  assumes "wf_bitmap bm1" "wf_bitmap bm2" "n_bits bm1 = n_bits bm2"
  shows "bitmap_cmp bm1 bm2 \<longleftrightarrow> (\<forall>k < unat (n_bits bm1). bm_bit bm1 k \<longleftrightarrow> bm_bit bm2 k)"
proof -
  define N where "N = unat (n_bits bm1)"
  define W where "W = (N + 31) div 32"
  define r where "r = (if N mod 32 = 0 then 32 else N mod 32)"
  have N: "0 < N" and W: "words_needed (n_bits bm1) = W" "0 < W"
    using assms(1) words_needed_bounds [OF assms(1)] by (auto simp: wf_bitmap_def N_def W_def words_needed_def)
  have len: "length (bitmap bm1) = 4 * W" "length (bitmap bm2) = 4 * W"
    and ptr: "last_word_ptr bm1 = 4 * (W - 1)" "last_word_ptr bm2 = 4 * (W - 1)"
    using assms W by (simp_all add: wf_bitmap_def)
  have and31: "n_bits bm1 AND 31 = 0 \<longleftrightarrow> N mod 32 = 0"
    by (simp add: N_def flip: unat_and_31) (simp add: unat_eq_0)
  have msk: "last_word_mask bm1 = (if r = 32 then 0 else NOT (mask r))" "last_word_mask bm2 = last_word_mask bm1"
    using assms and31 by (auto simp: wf_bitmap_def r_def unat_and_31 N_def dest: mod_less_divisor)
  have r: "0 < r" "r \<le> 32" by (auto simp: r_def intro: less_imp_le)
  let ?q = "\<lambda>k. bm_bit bm1 k \<longleftrightarrow> bm_bit bm2 k"
  have "bitmap_cmp bm1 bm2 \<longleftrightarrow>
      (\<forall>i < 4 * (W - 1). bitmap bm1 ! i = bitmap bm2 ! i) \<and>
      (\<forall>j < r. bit (load32 (bitmap bm1) (4 * (W - 1))) j \<longleftrightarrow> bit (load32 (bitmap bm2) (4 * (W - 1))) j)"
    unfolding bitmap_cmp_def Let_def four_words_minus_eq [OF assms(1)] W(1) ptr msk(2)
    using len by (simp add: take_eq_iff_nth masked_word_eq [OF r msk(1)])
  also have "\<dots> \<longleftrightarrow> (\<forall>k < 32 * (W - 1). ?q k) \<and> (\<forall>j < r. ?q (32 * (W - 1) + j))"
    using r by (subst bytes_eq_iff_bits) (auto simp: bm_bit_def bit_load32 word_byte_index)
  also have "\<dots> \<longleftrightarrow> (\<forall>k < N. ?q k)"
    using split_last_word [OF N W_def r_def, of ?q] by simp
  finally show ?thesis by (simp add: N_def)
qed

section \<open>The contract\<close>

text \<open>The client side numbers bits by \<open>nat\<close>; a call passes them as \<open>uint\<close>.\<close>

interpretation mb: bitset "\<lambda>bm. wf_bitmap bm \<and> n_bits bm = N" "unat N"
  "\<lambda>bm k. bitmap_is_set bm (of_nat k)" "\<lambda>bm k. bitmap_set_bit bm (of_nat k)"
  "\<lambda>bm k. bitmap_clear_bit bm (of_nat k)" bitmap_clear_all bitmap_set_all bitmap_cmp for N
proof -
  have small: "unat (of_nat k :: uint) = k" if "k < unat N" for k
    using that unat_less_length [of N] by (simp add: unat_of_nat)
  show "bitset (\<lambda>bm. wf_bitmap bm \<and> n_bits bm = N) (unat N)
     (\<lambda>bm k. bitmap_is_set bm (of_nat k)) (\<lambda>bm k. bitmap_set_bit bm (of_nat k))
     (\<lambda>bm k. bitmap_clear_bit bm (of_nat k)) bitmap_clear_all bitmap_set_all bitmap_cmp"
    by unfold_locales
      (auto simp: wf_bitmap_set wf_bitmap_clear wf_bitmap_clear_all wf_bitmap_set_all bitmap_is_set_bit small
        bm_bit_set bm_bit_clear bm_bit_clear_all bm_bit_set_all bitmap_cmp_iff)
qed

lemma flip_as_set_or_clear:
  assumes "wf_bitmap bm" "unat b < unat (n_bits bm)"
  shows "bitmap_cmp (bitmap_flip_bit bm b) (if bitmap_is_set bm b then bitmap_clear_bit bm b else bitmap_set_bit bm b)"
  using assms by (auto simp: bitmap_cmp_iff wf_bitmap_flip wf_bitmap_set wf_bitmap_clear bm_bit_flip bm_bit_set
      bm_bit_clear bitmap_is_set_bit)

section \<open>Properties\<close>

text \<open>Two maps built by clearing them and setting bits one by one compare equal exactly when the
  same bits were set, in whatever order and however often, whatever the unused bits of the last
  word hold; and the bits read back are exactly those that were set.\<close>

theorem my_bitmap_represents_set:
  assumes "wf_bitmap bm" "wf_bitmap bm'" "n_bits bm' = n_bits bm"
    and "set ns \<subseteq> {..<unat (n_bits bm)}" "set ks \<subseteq> {..<unat (n_bits bm)}"
  shows "{k. k < unat (n_bits bm) \<and>
            bitmap_is_set (foldl (\<lambda>m k. bitmap_set_bit m (of_nat k)) (bitmap_clear_all bm) ns) (of_nat k)} = set ns
    \<and> (bitmap_cmp (foldl (\<lambda>m k. bitmap_set_bit m (of_nat k)) (bitmap_clear_all bm) ns)
                    (foldl (\<lambda>m k. bitmap_set_bit m (of_nat k)) (bitmap_clear_all bm') ks) \<longleftrightarrow> set ns = set ks)"
  using assms mb.build_members [of bm "n_bits bm" ns] mb.build_same_iff [of bm "n_bits bm" bm' ns ks] by simp_all

definition bitmap_10 :: MY_BITMAP where
  "bitmap_10 = \<lparr>bitmap = [7, 0, 0, 0xAB], last_word_ptr = 0, last_word_mask = NOT (mask 10), n_bits = 10\<rparr>"

lemma wf_bitmap_10: "wf_bitmap bitmap_10" "n_bits bitmap_10 = 10"
  by (simp_all add: bitmap_10_def wf_bitmap_def words_needed_def)

theorem my_bitmap_represents_set_witness:
  "bitmap_cmp (foldl (\<lambda>m k. bitmap_set_bit m (of_nat k)) (bitmap_clear_all bitmap_10) [1, 9, 1])
              (foldl (\<lambda>m k. bitmap_set_bit m (of_nat k)) (bitmap_clear_all bitmap_10) [9, 1])"
  using my_bitmap_represents_set [OF wf_bitmap_10(1) wf_bitmap_10(1) refl, of "[1, 9, 1]" "[9, 1]"]
  by (simp add: wf_bitmap_10 insert_commute)

text \<open>Flipping a bit reverses that bit and no other, and flipping it twice restores a map that
  compares equal to the original.\<close>

theorem bitmap_flip_twice:
  assumes "wf_bitmap bm" and "b < n_bits bm"
  shows "bitmap_cmp (bitmap_flip_bit (bitmap_flip_bit bm b) b) bm
    \<and> (\<forall>k < n_bits bm. bitmap_is_set (bitmap_flip_bit bm b) k = ((k = b) \<noteq> bitmap_is_set bm k))"
  using assms by (auto simp: bitmap_cmp_iff wf_bitmap_flip bm_bit_flip bitmap_is_set_bit word_less_nat_alt word_unat_eq_iff)

theorem bitmap_flip_twice_witness:
  "bitmap_cmp (bitmap_flip_bit (bitmap_flip_bit bitmap_10 9) 9) bitmap_10"
  using bitmap_flip_twice [OF wf_bitmap_10(1), of 9] by (simp add: wf_bitmap_10)

end
