(* ===== verification/Sql_Bitmap.thy ===== *)
theory Sql_Bitmap imports Bitset My_Bit_Count begin

unbundle bit_operations_syntax

text \<open>
  \<open>private/sql_bitmap.h\<close>: the class template \<open>Bitmap<width>\<close> (bits kept in an array of 64-bit words), the
  iterator over the bits of one word \<open>Table_map_iterator\<close>, and the iterator over a bitmap. The
  template argument is the first parameter of each operation; an object is its \<open>buffer\<close>.
\<close>

section \<open>Table_map_iterator\<close>

definition TMI_BITMAP_END :: uint where
  "TMI_BITMAP_END = 64"

text \<open>\<open>next_bit\<close> returns the result and the new value of \<open>bmp\<close>.\<close>

definition next_bit :: "ulonglong \<Rightarrow> uint \<times> ulonglong" where
  "next_bit bmp =
     (if bmp = 0 then (TMI_BITMAP_END, bmp)
      else let bt = my_find_first_bit bmp in (bt, bmp AND NOT (push_bit (unat bt) 1)))"

section \<open>Bitmap\<close>

definition BITS_PER_ELEMENT :: nat where
  "BITS_PER_ELEMENT = 64"

definition ARRAY_ELEMENTS :: "nat \<Rightarrow> nat" where
  "ARRAY_ELEMENTS width = (width + BITS_PER_ELEMENT - 1) div BITS_PER_ELEMENT"

definition ALL_BITS_SET :: ulonglong where
  "ALL_BITS_SET = 0xFFFFFFFFFFFFFFFF"

definition bit_index :: "nat \<Rightarrow> nat \<Rightarrow> nat" where
  "bit_index width n = (if ARRAY_ELEMENTS width = 1 then 0 else n div BITS_PER_ELEMENT)"

definition bit_mask :: "nat \<Rightarrow> nat \<Rightarrow> ulonglong" where
  "bit_mask width n =
     (if ARRAY_ELEMENTS width = 1 then push_bit n 1 else push_bit (n mod BITS_PER_ELEMENT) 1)"

definition last_element_mask :: "nat \<Rightarrow> nat \<Rightarrow> ulonglong" where
  "last_element_mask width n = bit_mask width n - 1"

definition Bitmap_length :: "nat \<Rightarrow> nat" where
  "Bitmap_length width = width"

definition Bitmap_set_bit :: "nat \<Rightarrow> ulonglong list \<Rightarrow> nat \<Rightarrow> ulonglong list" where
  "Bitmap_set_bit width buf n = buf[bit_index width n := buf ! bit_index width n OR bit_mask width n]"

definition Bitmap_clear_bit :: "nat \<Rightarrow> ulonglong list \<Rightarrow> nat \<Rightarrow> ulonglong list" where
  "Bitmap_clear_bit width buf n = buf[bit_index width n := buf ! bit_index width n AND NOT (bit_mask width n)]"

definition Bitmap_is_set :: "nat \<Rightarrow> ulonglong list \<Rightarrow> nat \<Rightarrow> bool" where
  "Bitmap_is_set width buf n = (buf ! bit_index width n AND bit_mask width n \<noteq> 0)"

text \<open>A loop that assigns \<open>v\<close> to the elements from \<open>i\<close> up to \<open>n\<close>.\<close>

definition fill :: "nat \<Rightarrow> nat \<Rightarrow> ulonglong \<Rightarrow> ulonglong list \<Rightarrow> ulonglong list" where
  "fill i n v buf = fold (\<lambda>k b. b[k := v]) [i..<n] buf"

definition set_prefix :: "nat \<Rightarrow> ulonglong list \<Rightarrow> nat \<Rightarrow> ulonglong list" where
  "set_prefix width buf prefix0 =
     (let prefix_size = min prefix0 width;
          idx = prefix_size div BITS_PER_ELEMENT;
          buf1 = fill 0 idx ALL_BITS_SET buf;
          (buf2, idx2) = (if prefix_size mod BITS_PER_ELEMENT \<noteq> 0
                          then (buf1[idx := last_element_mask width prefix_size], idx + 1)
                          else (buf1, idx))
      in fill idx2 (ARRAY_ELEMENTS width) 0 buf2)"

definition Bitmap_init :: "nat \<Rightarrow> ulonglong list \<Rightarrow> nat \<Rightarrow> ulonglong list" where
  "Bitmap_init width buf prefix = set_prefix width buf prefix"

definition is_prefix :: "nat \<Rightarrow> ulonglong list \<Rightarrow> nat \<Rightarrow> bool" where
  "is_prefix width buf prefix_size =
     (let idx = prefix_size div BITS_PER_ELEMENT in
      if \<not> list_all (\<lambda>i. buf ! i = ALL_BITS_SET) [0..<idx] then False
      else if prefix_size mod BITS_PER_ELEMENT \<noteq> 0
      then if buf ! idx \<noteq> last_element_mask width prefix_size then False
           else list_all (\<lambda>i. buf ! i = 0) [idx + 1..<ARRAY_ELEMENTS width]
      else list_all (\<lambda>i. buf ! i = 0) [idx..<ARRAY_ELEMENTS width])"

definition Bitmap_set_all :: "nat \<Rightarrow> ulonglong list \<Rightarrow> ulonglong list" where
  "Bitmap_set_all width buf =
     (if width mod BITS_PER_ELEMENT \<noteq> 0 then set_prefix width buf width
      else if ARRAY_ELEMENTS width > 1 then replicate (ARRAY_ELEMENTS width) 0xFFFFFFFFFFFFFFFF
      else buf[0 := ALL_BITS_SET])"

definition Bitmap_clear_all :: "nat \<Rightarrow> ulonglong list \<Rightarrow> ulonglong list" where
  "Bitmap_clear_all width buf =
     (if ARRAY_ELEMENTS width > 1 then replicate (ARRAY_ELEMENTS width) 0 else buf[0 := 0])"

definition Bitmap_intersect :: "nat \<Rightarrow> ulonglong list \<Rightarrow> ulonglong list \<Rightarrow> ulonglong list" where
  "Bitmap_intersect width buf buf2 = map (\<lambda>i. buf ! i AND buf2 ! i) [0..<ARRAY_ELEMENTS width]"

definition intersect_and_pad :: "nat \<Rightarrow> ulonglong list \<Rightarrow> ulonglong \<Rightarrow> bool \<Rightarrow> ulonglong list" where
  "intersect_and_pad width buf map2buff pad_with_ones =
     (let b1 = buf[0 := buf ! 0 AND map2buff];
          b2 = fill 1 (ARRAY_ELEMENTS width) (if pad_with_ones then ALL_BITS_SET else 0) b1
      in if ARRAY_ELEMENTS width > 1 \<and> width mod BITS_PER_ELEMENT \<noteq> 0 \<and> pad_with_ones
         then b2[ARRAY_ELEMENTS width - 1 := last_element_mask width width] else b2)"

definition intersect_word :: "nat \<Rightarrow> ulonglong list \<Rightarrow> ulonglong \<Rightarrow> ulonglong list" where
  "intersect_word width buf map2buff = intersect_and_pad width buf map2buff False"

definition intersect_extended :: "nat \<Rightarrow> ulonglong list \<Rightarrow> ulonglong \<Rightarrow> ulonglong list" where
  "intersect_extended width buf map2buff =
     intersect_and_pad width buf map2buff (map2buff AND push_bit 63 1 \<noteq> 0)"

definition Bitmap_subtract :: "nat \<Rightarrow> ulonglong list \<Rightarrow> ulonglong list \<Rightarrow> ulonglong list" where
  "Bitmap_subtract width buf buf2 = map (\<lambda>i. buf ! i AND NOT (buf2 ! i)) [0..<ARRAY_ELEMENTS width]"

definition Bitmap_merge :: "nat \<Rightarrow> ulonglong list \<Rightarrow> ulonglong list \<Rightarrow> ulonglong list" where
  "Bitmap_merge width buf buf2 = map (\<lambda>i. buf ! i OR buf2 ! i) [0..<ARRAY_ELEMENTS width]"

definition is_clear_all :: "nat \<Rightarrow> ulonglong list \<Rightarrow> bool" where
  "is_clear_all width buf = list_all (\<lambda>i. buf ! i = 0) [0..<ARRAY_ELEMENTS width]"

definition is_subset :: "nat \<Rightarrow> ulonglong list \<Rightarrow> ulonglong list \<Rightarrow> bool" where
  "is_subset width buf buf2 = list_all (\<lambda>i. buf ! i AND NOT (buf2 ! i) = 0) [0..<ARRAY_ELEMENTS width]"

definition is_overlapping :: "nat \<Rightarrow> ulonglong list \<Rightarrow> ulonglong list \<Rightarrow> bool" where
  "is_overlapping width buf buf2 = list_ex (\<lambda>i. buf ! i AND buf2 ! i \<noteq> 0) [0..<ARRAY_ELEMENTS width]"

definition Bitmap_eq :: "nat \<Rightarrow> ulonglong list \<Rightarrow> ulonglong list \<Rightarrow> bool" where
  "Bitmap_eq width buf buf2 = (if ARRAY_ELEMENTS width > 1 then buf = buf2 else buf ! 0 = buf2 ! 0)"

definition Bitmap_neq :: "nat \<Rightarrow> ulonglong list \<Rightarrow> ulonglong list \<Rightarrow> bool" where
  "Bitmap_neq width buf buf2 = (\<not> Bitmap_eq width buf buf2)"

definition to_ulonglong :: "ulonglong list \<Rightarrow> ulonglong" where
  "to_ulonglong buf = buf ! 0"

definition bits_set :: "nat \<Rightarrow> ulonglong list \<Rightarrow> uint" where
  "bits_set width buf = foldl (\<lambda>res i. res + my_count_bits (buf ! i)) 0 [0..<ARRAY_ELEMENTS width]"

section \<open>Bitmap::print\<close>

text \<open>The hexadecimal dump. A shift of a 64-bit value by 64 or more has no defined result in C: the
  model returns \<open>None\<close> there. \<open>longlong2str\<close> writes a number over the start of the output buffer;
  it is not part of the headers and is a parameter.\<close>

fun last_nonzero :: "ulonglong list \<Rightarrow> nat \<Rightarrow> nat" where
  "last_nonzero buf 0 = 0"
| "last_nonzero buf (Suc k) = (if buf ! Suc k = 0 then last_nonzero buf k else Suc k)"

fun print_digits :: "string \<Rightarrow> ulonglong \<Rightarrow> nat \<Rightarrow> nat \<Rightarrow> nat \<Rightarrow> string option" where
  "print_digits out num shift pos 0 = Some out"
| "print_digits out num shift pos (Suc k) =
     (if shift \<ge> 64 then None
      else print_digits (out[pos := ''0123456789ABCDEF'' ! unat (drop_bit shift num AND 0xf)]) num (shift + 4) (pos + 1) k)"

definition print :: "(ulonglong \<Rightarrow> string \<Rightarrow> string) \<Rightarrow> nat \<Rightarrow> ulonglong list \<Rightarrow> string \<Rightarrow> string option" where
  "print longlong2str width buf out =
     (let last = last_nonzero buf (ARRAY_ELEMENTS width - 1);
          hex_digits_per_element = BITS_PER_ELEMENT div 4
      in map_option (longlong2str (buf ! last))
           (foldl (\<lambda>r i. case r of None \<Rightarrow> None
                       | Some o1 \<Rightarrow> print_digits o1 (buf ! i) (BITS_PER_ELEMENT - 4) (i * hex_digits_per_element)
                                      hex_digits_per_element)
                  (Some out) [0..<last]))"

section \<open>Bitmap::Iterator\<close>

record Iterator =
  offset :: nat
  tmi :: ulonglong

definition Iterator_init :: "ulonglong list \<Rightarrow> Iterator" where
  "Iterator_init buf = \<lparr>offset = 0, tmi = buf ! 0\<rparr>"

text \<open>\<open>operator++\<close>: the endless loop of the source ends because the offset grows up to \<open>width\<close>.\<close>

function Iterator_next :: "nat \<Rightarrow> ulonglong list \<Rightarrow> Iterator \<Rightarrow> nat \<times> Iterator" where
  "Iterator_next width buf it =
     (let (nextbit, tmi') = next_bit (tmi it) in
      if nextbit \<noteq> TMI_BITMAP_END then (offset it + unat nextbit, it\<lparr>tmi := tmi'\<rparr>)
      else if offset it + BITS_PER_ELEMENT \<ge> width then (width, it\<lparr>tmi := tmi'\<rparr>)
      else Iterator_next width buf \<lparr>offset = offset it + BITS_PER_ELEMENT,
             tmi = buf ! ((offset it + BITS_PER_ELEMENT) div BITS_PER_ELEMENT)\<rparr>)"
  by pat_completeness auto
termination
  by (relation "measure (\<lambda>(width, buf, it). width - offset it)") (auto simp: BITS_PER_ELEMENT_def)

declare Iterator_next.simps [simp del]

text \<open>The usual client loop: call \<open>operator++\<close> until it returns \<open>BITMAP_END\<close>.\<close>

fun collect :: "nat \<Rightarrow> nat \<Rightarrow> ulonglong list \<Rightarrow> Iterator \<Rightarrow> nat list" where
  "collect 0 width buf it = []"
| "collect (Suc fuel) width buf it =
     (let (n, it') = Iterator_next width buf it in if n = width then [] else n # collect fuel width buf it')"

section \<open>Invariant\<close>

definition bitmap_member :: "ulonglong list \<Rightarrow> nat \<Rightarrow> bool" where
  "bitmap_member buf n = bit (buf ! (n div 64)) (n mod 64)"

definition wf_Bitmap :: "nat \<Rightarrow> ulonglong list \<Rightarrow> bool" where
  "wf_Bitmap width buf \<longleftrightarrow>
     0 < width \<and> length buf = ARRAY_ELEMENTS width \<and>
     (\<forall>k < 64 * length buf. width \<le> k \<longrightarrow> \<not> bitmap_member buf k)"

section \<open>Word and bit positions\<close>

lemma array_elements_bounds: "width \<le> 64 * ARRAY_ELEMENTS width" "0 < width \<Longrightarrow> 64 * (ARRAY_ELEMENTS width - 1) < width"
  by (simp_all add: ARRAY_ELEMENTS_def BITS_PER_ELEMENT_def)

lemma array_elements_one: "0 < width \<Longrightarrow> ARRAY_ELEMENTS width = 1 \<longleftrightarrow> width \<le> 64"
  by (auto simp: ARRAY_ELEMENTS_def BITS_PER_ELEMENT_def)

lemma array_elements_pos: "0 < width \<Longrightarrow> 0 < ARRAY_ELEMENTS width"
  using array_elements_bounds(1) [of width] by linarith

lemma word_index_in_range: "n < width \<Longrightarrow> n div 64 < ARRAY_ELEMENTS width"
  using array_elements_bounds(1) [of width] by linarith

lemma bit_index_eq: "n < width \<Longrightarrow> bit_index width n = n div 64"
  using array_elements_one [of width] by (auto simp: bit_index_def BITS_PER_ELEMENT_def)

lemma bit_mask_eq: "n < width \<Longrightarrow> bit_mask width n = 2 ^ (n mod 64)"
  using array_elements_one [of width] by (auto simp: bit_mask_def BITS_PER_ELEMENT_def)

lemma last_element_mask_eq:
  assumes "n \<le> width" "n mod 64 \<noteq> 0"
  shows "last_element_mask width n = mask (n mod 64)"
proof -
  have "n < 64" if "ARRAY_ELEMENTS width = 1"
    using that assms array_elements_one [of width] by (cases "n = 64"; cases "width = 0") auto
  then show ?thesis
    by (auto simp: last_element_mask_def bit_mask_def BITS_PER_ELEMENT_def mask_eq_exp_minus_1)
qed

lemma all_bits_set_mask: "ALL_BITS_SET = mask 64" "(0xFFFFFFFFFFFFFFFF :: ulonglong) = mask 64"
  by (simp_all add: ALL_BITS_SET_def mask_eq_exp_minus_1)

lemma same_word_bit: "k div 64 = n div 64 \<Longrightarrow> k mod 64 = n mod 64 \<longleftrightarrow> k = (n :: nat)"
  by (metis div_mult_mod_eq)

lemma less_by_word: "k < q \<longleftrightarrow> k div 64 < q div 64 \<or> (k div 64 = q div 64 \<and> k mod 64 < q mod (64 :: nat))"
proof -
  have "k = 64 * (k div 64) + k mod 64" "k mod 64 < 64" "q = 64 * (q div 64) + q mod 64" "q mod 64 < 64" by simp_all
  then show ?thesis by linarith
qed

lemma is_set_member: "n < width \<Longrightarrow> Bitmap_is_set width buf n = bitmap_member buf n"
  by (simp add: Bitmap_is_set_def bit_index_eq bit_mask_eq and_bit_nonzero bitmap_member_def)

lemma words_eq_iff_members:
  assumes "length buf = length buf'"
  shows "buf = buf' \<longleftrightarrow> (\<forall>k < 64 * length buf. bitmap_member buf k \<longleftrightarrow> bitmap_member buf' k)"
proof
  assume r: "\<forall>k < 64 * length buf. bitmap_member buf k \<longleftrightarrow> bitmap_member buf' k"
  show "buf = buf'"
  proof (rule nth_equalityI)
    fix i assume "i < length buf"
    then have "bit (buf ! i) j \<longleftrightarrow> bit (buf' ! i) j" if "j < 64" for j
      using r [rule_format, of "64 * i + j"] that by (simp add: bitmap_member_def)
    then show "buf ! i = buf' ! i" by (intro word_bits_eqI) simp
  qed (rule assms)
qed simp

lemma wf_Bitmap_eqI:
  assumes "wf_Bitmap width buf" "wf_Bitmap width buf'" "\<And>k. k < width \<Longrightarrow> bitmap_member buf k \<longleftrightarrow> bitmap_member buf' k"
  shows "buf = buf'"
proof (rule words_eq_iff_members [THEN iffD2])
  show "\<forall>k < 64 * length buf. bitmap_member buf k \<longleftrightarrow> bitmap_member buf' k"
    using assms by (metis not_le wf_Bitmap_def)
qed (use assms in \<open>simp add: wf_Bitmap_def\<close>)

lemma wf_BitmapI:
  assumes "wf_Bitmap width buf" "length buf' = length buf"
    and "\<And>k. k < 64 * length buf \<Longrightarrow> width \<le> k \<Longrightarrow> \<not> bitmap_member buf k \<Longrightarrow> \<not> bitmap_member buf' k"
  shows "wf_Bitmap width buf'"
  using assms by (auto simp: wf_Bitmap_def)

section \<open>Membership after each operation\<close>

lemma member_update:
  assumes "n div 64 < length buf"
  shows "bitmap_member (buf[n div 64 := v]) k \<longleftrightarrow> (if k div 64 = n div 64 then bit v (k mod 64) else bitmap_member buf k)"
  using assms by (auto simp: bitmap_member_def nth_list_update)

lemma member_bit_ops:
  assumes "wf_Bitmap width buf" "n < width"
  shows member_set_bit: "bitmap_member (Bitmap_set_bit width buf n) k \<longleftrightarrow> k = n \<or> bitmap_member buf k"
    and member_clear_bit: "bitmap_member (Bitmap_clear_bit width buf n) k \<longleftrightarrow> k \<noteq> n \<and> bitmap_member buf k"
  using assms word_index_in_range [of n width]
  by (simp_all add: Bitmap_set_bit_def Bitmap_clear_bit_def bit_index_eq bit_mask_eq member_update wf_Bitmap_def)
    (auto simp: bits_simps bitmap_member_def dest: same_word_bit)

lemma length_fill [simp]: "length (fill i n v buf) = length buf"
  unfolding fill_def by (rule fold_invariant [where Q = "\<lambda>_. True"]) auto

lemma fill_nth: "k < length buf \<Longrightarrow> fill i n v buf ! k = (if i \<le> k \<and> k < n then v else buf ! k)"
proof (induction n)
  case (Suc n)
  then show ?case
    using length_fill [of i n v buf]
    by (cases "i \<le> n") (auto simp: fill_def nth_list_update less_Suc_eq)
qed (simp add: fill_def)

lemma length_set_prefix [simp]: "length (set_prefix width buf p) = length buf"
  by (simp add: set_prefix_def Let_def split: prod.split)

lemma member_set_prefix:
  assumes "length buf = ARRAY_ELEMENTS width" "k < 64 * length buf"
  shows "bitmap_member (set_prefix width buf p) k \<longleftrightarrow> k < min p width"
proof -
  define q where "q = min p width"
  have k: "k div 64 < length buf" and le: "q \<le> width" using assms(2) by (auto simp: q_def)
  have cut: "k < q \<longleftrightarrow> k div 64 < q div 64 \<or> (k div 64 = q div 64 \<and> k mod 64 < q mod 64)"
    by (rule less_by_word)
  show ?thesis
  proof (cases "q mod 64 = 0")
    case True
    then show ?thesis using assms(1) k cut
      by (auto simp: set_prefix_def Let_def BITS_PER_ELEMENT_def bitmap_member_def fill_nth all_bits_set_mask
          bits_simps simp flip: q_def)
  next
    case False
    then show ?thesis using assms(1) k cut last_element_mask_eq [OF le]
      by (auto simp: set_prefix_def Let_def BITS_PER_ELEMENT_def bitmap_member_def fill_nth nth_list_update
          all_bits_set_mask bits_simps simp flip: q_def)
  qed
qed


lemma member_all_ops:
  assumes "wf_Bitmap width buf" "k < 64 * length buf"
  shows member_set_all: "bitmap_member (Bitmap_set_all width buf) k \<longleftrightarrow> k < width"
    and member_clear_all: "\<not> bitmap_member (Bitmap_clear_all width buf) k"
proof -
  have len: "length buf = ARRAY_ELEMENTS width" and k: "k div 64 < ARRAY_ELEMENTS width"
    using assms by (auto simp: wf_Bitmap_def)
  have full: "k < width" if "width mod 64 = 0"
    using that assms(2) len by (auto simp: ARRAY_ELEMENTS_def BITS_PER_ELEMENT_def)
  show "bitmap_member (Bitmap_set_all width buf) k \<longleftrightarrow> k < width"
    using full len k member_set_prefix [OF len assms(2), of width]
    by (auto simp: Bitmap_set_all_def BITS_PER_ELEMENT_def bitmap_member_def all_bits_set_mask bits_simps
        nth_list_update not_less)
  show "\<not> bitmap_member (Bitmap_clear_all width buf) k"
    using len k by (auto simp: Bitmap_clear_all_def bitmap_member_def not_less)
qed

lemma length_ops [simp]:
  "length (Bitmap_set_bit width buf n) = length buf" "length (Bitmap_clear_bit width buf n) = length buf"
  "length (Bitmap_intersect width buf b2) = ARRAY_ELEMENTS width" "length (Bitmap_merge width buf b2) = ARRAY_ELEMENTS width"
  "length (Bitmap_subtract width buf b2) = ARRAY_ELEMENTS width"
  "length buf = ARRAY_ELEMENTS width \<Longrightarrow> length (Bitmap_set_all width buf) = length buf"
  "length buf = ARRAY_ELEMENTS width \<Longrightarrow> length (Bitmap_clear_all width buf) = length buf"
  "length (intersect_and_pad width buf w pad) = length buf"
  by (simp_all add: Bitmap_set_bit_def Bitmap_clear_bit_def Bitmap_intersect_def Bitmap_merge_def Bitmap_subtract_def
      Bitmap_set_all_def Bitmap_clear_all_def intersect_and_pad_def Let_def)

lemma member_set_ops:
  assumes "k div 64 < ARRAY_ELEMENTS width"
  shows member_intersect: "bitmap_member (Bitmap_intersect width buf b2) k \<longleftrightarrow> bitmap_member buf k \<and> bitmap_member b2 k"
    and member_merge: "bitmap_member (Bitmap_merge width buf b2) k \<longleftrightarrow> bitmap_member buf k \<or> bitmap_member b2 k"
    and member_subtract: "bitmap_member (Bitmap_subtract width buf b2) k \<longleftrightarrow> bitmap_member buf k \<and> \<not> bitmap_member b2 k"
  using assms
  by (simp_all add: Bitmap_intersect_def Bitmap_merge_def Bitmap_subtract_def bitmap_member_def bits_simps)

lemma wf_ops:
  assumes "wf_Bitmap width buf"
  shows wf_set_bit: "n < width \<Longrightarrow> wf_Bitmap width (Bitmap_set_bit width buf n)"
    and wf_clear_bit: "n < width \<Longrightarrow> wf_Bitmap width (Bitmap_clear_bit width buf n)"
    and wf_set_all: "wf_Bitmap width (Bitmap_set_all width buf)"
    and wf_clear_all: "wf_Bitmap width (Bitmap_clear_all width buf)"
    and wf_set_prefix: "wf_Bitmap width (set_prefix width buf p)"
    and wf_intersect: "wf_Bitmap width (Bitmap_intersect width buf b2)"
    and wf_merge: "wf_Bitmap width b2 \<Longrightarrow> wf_Bitmap width (Bitmap_merge width buf b2)"
    and wf_subtract: "wf_Bitmap width (Bitmap_subtract width buf b2)"
  using assms
  by (auto simp: wf_Bitmap_def member_set_bit [OF assms] member_clear_bit [OF assms] member_set_all [OF assms]
      member_clear_all [OF assms] member_set_prefix member_intersect member_merge member_subtract)

lemma Bitmap_eq_iff:
  assumes "wf_Bitmap width buf" "wf_Bitmap width b2"
  shows "Bitmap_eq width buf b2 \<longleftrightarrow> buf = b2"
proof -
  have len: "length buf = ARRAY_ELEMENTS width" "length b2 = ARRAY_ELEMENTS width" "0 < ARRAY_ELEMENTS width"
    using assms array_elements_pos by (auto simp: wf_Bitmap_def)
  then have "buf = b2" if "buf ! 0 = b2 ! 0" "\<not> 1 < ARRAY_ELEMENTS width"
  proof -
    have "ARRAY_ELEMENTS width = 1" using that(2) len(3) by linarith
    then show ?thesis using that(1) len by (intro nth_equalityI) auto
  qed
  then show ?thesis by (auto simp: Bitmap_eq_def)
qed

interpretation sb: bitset "wf_Bitmap width" width "Bitmap_is_set width" "Bitmap_set_bit width"
  "Bitmap_clear_bit width" "Bitmap_clear_all width" "Bitmap_set_all width" "Bitmap_eq width" for width
proof unfold_locales
  fix m m' assume wf: "wf_Bitmap width m" "wf_Bitmap width m'"
  show "Bitmap_eq width m m' \<longleftrightarrow> (\<forall>k < width. Bitmap_is_set width m k \<longleftrightarrow> Bitmap_is_set width m' k)"
    using wf_Bitmap_eqI [OF wf] by (auto simp: Bitmap_eq_iff [OF wf] is_set_member)
qed (use array_elements_bounds(1) [of width] in \<open>auto simp: wf_set_bit wf_clear_bit wf_set_all wf_clear_all is_set_member member_set_bit
    member_clear_bit member_set_all member_clear_all wf_Bitmap_def intro: less_le_trans\<close>)

section \<open>Bitmaps as sets\<close>

definition Bitmap_members :: "nat \<Rightarrow> ulonglong list \<Rightarrow> nat set" where
  "Bitmap_members width buf = {k. k < width \<and> Bitmap_is_set width buf k}"

lemma Bitmap_members_eq: "Bitmap_members width buf = {k. k < width \<and> bitmap_member buf k}"
  by (auto simp: Bitmap_members_def is_set_member)

lemma member_beyond:
  "wf_Bitmap width buf \<Longrightarrow> k < 64 * ARRAY_ELEMENTS width \<Longrightarrow> bitmap_member buf k \<Longrightarrow> k < width"
  by (auto simp: wf_Bitmap_def intro: leI)

lemma words_zero_iff:
  "(\<forall>i < n. (f i :: ulonglong) = 0) \<longleftrightarrow> (\<forall>k < 64 * n. \<not> bit (f (k div 64)) (k mod 64))"
proof
  assume r: "\<forall>k < 64 * n. \<not> bit (f (k div 64)) (k mod 64)"
  show "\<forall>i < n. f i = 0"
  proof (intro allI impI)
    fix i assume "i < n"
    then have "\<not> bit (f i) j" if "j < 64" for j using r [rule_format, of "64 * i + j"] that by simp
    then show "f i = 0" by (intro word_bits_eqI) simp
  qed
qed auto

lemma list_all_upt: "list_all P [0..<n] \<longleftrightarrow> (\<forall>i < n. P i)"
  by (auto simp: list_all_iff)

lemma is_clear_all_iff:
  "wf_Bitmap width buf \<Longrightarrow> is_clear_all width buf \<longleftrightarrow> Bitmap_members width buf = {}"
  using array_elements_bounds(1) [of width] member_beyond [of width buf]
  by (auto simp: is_clear_all_def list_all_upt Bitmap_members_eq words_zero_iff simp flip: bitmap_member_def)

lemma is_subset_iff:
  "wf_Bitmap width buf \<Longrightarrow> is_subset width buf b2 \<longleftrightarrow> Bitmap_members width buf \<subseteq> Bitmap_members width b2"
  using array_elements_bounds(1) [of width] member_beyond [of width buf]
  by (auto simp: is_subset_def list_all_upt Bitmap_members_eq words_zero_iff bits_simps simp flip: bitmap_member_def)

lemma is_overlapping_iff:
  "wf_Bitmap width buf \<Longrightarrow> is_overlapping width buf b2 \<longleftrightarrow> Bitmap_members width buf \<inter> Bitmap_members width b2 \<noteq> {}"
proof -
  assume wf: "wf_Bitmap width buf"
  have "\<not> is_overlapping width buf b2 \<longleftrightarrow> (\<forall>i < ARRAY_ELEMENTS width. buf ! i AND b2 ! i = 0)"
    by (auto simp: is_overlapping_def list_ex_iff)
  also have "\<dots> \<longleftrightarrow> Bitmap_members width buf \<inter> Bitmap_members width b2 = {}"
    using array_elements_bounds(1) [of width] member_beyond [OF wf]
    by (auto simp: Bitmap_members_eq words_zero_iff bits_simps simp flip: bitmap_member_def)
  finally show ?thesis by blast
qed

lemma prefix_words_iff:
  assumes "length buf = ARRAY_ELEMENTS width" "p \<le> width"
  shows "is_prefix width buf p \<longleftrightarrow> buf = set_prefix width buf p"
proof -
  have "p = 64 * (p div 64) + p mod 64" by simp
  then have q: "p div 64 \<le> ARRAY_ELEMENTS width" "p mod 64 \<noteq> 0 \<longrightarrow> p div 64 < ARRAY_ELEMENTS width"
    using assms(2) array_elements_bounds(1) [of width] by linarith+
  have eq: "buf = set_prefix width buf p \<longleftrightarrow> (\<forall>i < ARRAY_ELEMENTS width. buf ! i = set_prefix width buf p ! i)"
    using assms(1) by (auto simp: list_eq_iff_nth_eq)
  show ?thesis
    unfolding eq using q assms
    by (cases "p mod 64 = 0")
      (auto simp: is_prefix_def set_prefix_def Let_def BITS_PER_ELEMENT_def list_all_iff fill_nth nth_list_update min_def
        not_less split: if_splits, (metis Suc_leD leD nat_neq_iff)+)
qed

lemma is_prefix_iff:
  assumes "wf_Bitmap width buf" "p \<le> width"
  shows "is_prefix width buf p \<longleftrightarrow> Bitmap_members width buf = {..<p}"
proof -
  have len: "length buf = ARRAY_ELEMENTS width" using assms(1) by (simp add: wf_Bitmap_def)
  have "is_prefix width buf p \<longleftrightarrow> (\<forall>k < 64 * length buf. bitmap_member buf k \<longleftrightarrow> k < p)"
    unfolding prefix_words_iff [OF len assms(2)] using assms(2)
    by (subst words_eq_iff_members) (simp_all add: member_set_prefix [OF len])
  also have "\<dots> \<longleftrightarrow> Bitmap_members width buf = {..<p}"
    using assms(2) array_elements_bounds(1) [of width] member_beyond [OF assms(1)] len
    by (auto simp: Bitmap_members_eq set_eq_iff)
  finally show ?thesis .
qed

section \<open>Iteration\<close>

definition word_bits :: "ulonglong \<Rightarrow> nat list" where
  "word_bits w = filter (bit w) [0..<64]"

lemma next_bit_zero: "next_bit 0 = (TMI_BITMAP_END, 0)"
  by (simp add: next_bit_def)

lemma next_bit_nonzero:
  assumes "w \<noteq> 0" "next_bit w = (b, w')"
  shows "b \<noteq> TMI_BITMAP_END" "word_bits w = unat b # word_bits w'"
proof -
  define m where "m = unat b"
  have b: "b = my_find_first_bit w" and w': "w' = w AND NOT (2 ^ m)"
    using assms by (auto simp: next_bit_def Let_def m_def)
  have m: "bit w m" "\<forall>i < m. \<not> bit w i"
    using my_find_first_bit_least [OF assms(1)] by (simp_all add: m_def b)
  then have "m < 64" by (auto dest: bit_imp_le_length)
  then show "b \<noteq> TMI_BITMAP_END" by (auto simp: m_def TMI_BITMAP_END_def)
  have split: "[0..<64] = [0..<m] @ m # [Suc m..<64]"
    using \<open>m < 64\<close> by (metis less_imp_add_positive upt_add_eq_append upt_conv_Cons zero_le less_imp_le)
  have bits: "bit w' i \<longleftrightarrow> i \<noteq> m \<and> bit w i" for i
    by (auto simp: w' bits_simps dest: bit_imp_le_length)
  have "filter (bit w') [Suc m..<64] = filter (bit w) [Suc m..<64]"
    by (rule filter_cong) (auto simp: bits)
  moreover have "filter (bit w) [0..<m] = []" "filter (bit w') [0..<m] = []"
    using m(2) by (simp_all add: bits filter_empty_conv)
  ultimately show "word_bits w = unat b # word_bits w'"
    using m(1) by (simp add: word_bits_def split bits flip: m_def)
qed

text \<open>The bits the iterator still has to deliver.\<close>

definition remaining :: "nat \<Rightarrow> ulonglong list \<Rightarrow> Iterator \<Rightarrow> nat list" where
  "remaining width buf it =
     map (\<lambda>j. offset it + j) (word_bits (tmi it)) @
     filter (bitmap_member buf) [offset it + 64..<64 * ARRAY_ELEMENTS width]"

lemma word_bits_shift:
  "map (\<lambda>j. 64 * i + j) (word_bits (buf ! i)) = filter (bitmap_member buf) [64 * i..<64 * i + 64]"
proof -
  have "map (\<lambda>j. 64 * i + j) [0..<64] = [64 * i..<64 * i + 64]"
    using map_add_upt [of "64 * i" 64] by (simp add: add.commute)
  then have "filter (bitmap_member buf) [64 * i..<64 * i + 64] =
      map (\<lambda>j. 64 * i + j) (filter (bitmap_member buf \<circ> (\<lambda>j. 64 * i + j)) [0..<64])"
    by (metis filter_map)
  also have "filter (bitmap_member buf \<circ> (\<lambda>j. 64 * i + j)) [0..<64] = word_bits (buf ! i)"
    unfolding word_bits_def by (rule filter_cong) (auto simp: bitmap_member_def)
  finally show ?thesis by simp
qed

lemma remaining_advance:
  assumes "64 dvd offset it" "offset it + 64 < width" "tmi it = 0"
  shows "remaining width buf it =
    remaining width buf \<lparr>offset = offset it + 64, tmi = buf ! ((offset it + 64) div 64)\<rparr>"
proof -
  obtain i where i: "offset it = 64 * i" using assms(1) by auto
  have "Suc i < ARRAY_ELEMENTS width"
    using assms(2) i array_elements_bounds(1) [of width] by linarith
  then have "[64 * i + 64..<64 * ARRAY_ELEMENTS width] = [64 * Suc i..<64 * Suc i + 64] @ [64 * Suc i + 64..<64 * ARRAY_ELEMENTS width]"
    by (subst upt_split) (auto simp: add.commute)
  then show ?thesis
    using word_bits_shift [of "Suc i" buf] assms(3)
    by (simp add: remaining_def i word_bits_def algebra_simps)
qed

lemma remaining_end:
  assumes "64 dvd offset it" "width \<le> offset it + 64" "tmi it = 0"
  shows "remaining width buf it = []"
proof -
  have "64 * ARRAY_ELEMENTS width \<le> offset it + 64"
    using assms(1,2) less_mult_imp_div_less [of "63 + width" "Suc (Suc (offset it div 64))" 64]
    by (auto simp: ARRAY_ELEMENTS_def BITS_PER_ELEMENT_def elim!: dvdE)
  then show ?thesis using assms(3) by (simp add: remaining_def word_bits_def)
qed

lemma Iterator_next_remaining:
  assumes "64 dvd offset it" "\<forall>k \<in> set (remaining width buf it). k < width" "Iterator_next width buf it = (n, it')"
  shows "64 dvd offset it' \<and> (if remaining width buf it = [] then n = width
      else n < width \<and> remaining width buf it = n # remaining width buf it')"
  using assms
proof (induction width buf it arbitrary: n it' rule: Iterator_next.induct)
  case (1 width buf it)
  obtain b w' where nb: "next_bit (tmi it) = (b, w')" by fastforce
  show ?case
  proof (cases "tmi it = 0")
    case True
    then have b: "b = TMI_BITMAP_END" "w' = 0" using nb by (simp_all add: next_bit_zero)
    show ?thesis
    proof (cases "offset it + 64 \<ge> width")
      case True
      then have "n = width" "it' = it\<lparr>tmi := 0\<rparr>"
        using 1(4) nb b by (simp_all add: Iterator_next.simps [of width buf it] BITS_PER_ELEMENT_def)
      then show ?thesis using 1(2) True \<open>tmi it = 0\<close> remaining_end [of it width buf] by simp
    next
      case False
      let ?it = "\<lparr>offset = offset it + 64, tmi = buf ! ((offset it + 64) div 64)\<rparr>"
      have rem: "remaining width buf it = remaining width buf ?it"
        using remaining_advance [of it width buf] 1(2) False \<open>tmi it = 0\<close> by simp
      have step: "Iterator_next width buf it = Iterator_next width buf ?it"
        using nb b False by (subst Iterator_next.simps) (simp add: BITS_PER_ELEMENT_def)
      show ?thesis
        using 1(1) [OF nb [symmetric] refl, of n it', unfolded BITS_PER_ELEMENT_def] 1(2-4) b False
        unfolding rem step by (simp cong: if_cong)
    qed
  next
    case False
    note nz = next_bit_nonzero [OF False nb]
    have res: "n = offset it + unat b" "it' = it\<lparr>tmi := w'\<rparr>" using 1(4) nb nz(1) by (simp_all add: Iterator_next.simps [of width buf it])
    have "remaining width buf it = n # remaining width buf it'" using nz(2) by (simp add: remaining_def res)
    then show ?thesis using 1(2,3) res by simp
  qed
qed

lemma collect_remaining:
  assumes "64 dvd offset it" "\<forall>k \<in> set (remaining width buf it). k < width" "length (remaining width buf it) < fuel"
  shows "collect fuel width buf it = remaining width buf it"
  using assms
proof (induction fuel arbitrary: it)
  case (Suc fuel)
  obtain n it' where nx: "Iterator_next width buf it = (n, it')" by fastforce
  note st = Iterator_next_remaining [OF Suc.prems(1,2) nx]
  show ?case
  proof (cases "remaining width buf it = []")
    case True then show ?thesis using st nx by simp
  next
    case False
    then have rem: "remaining width buf it = n # remaining width buf it'" "n < width" "64 dvd offset it'" using st by auto
    then have "collect fuel width buf it' = remaining width buf it'"
      using Suc.prems by (intro Suc.IH) auto
    then show ?thesis using rem nx by simp
  qed
qed simp

lemma remaining_init:
  assumes "wf_Bitmap width buf"
  shows "remaining width buf (Iterator_init buf) = filter (Bitmap_is_set width buf) [0..<width]"
proof -
  let ?A = "64 * ARRAY_ELEMENTS width"
  have A: "width \<le> ?A" "64 \<le> ?A"
    using assms array_elements_bounds(1) [of width] array_elements_pos [of width] by (auto simp: wf_Bitmap_def)
  have "remaining width buf (Iterator_init buf) = filter (bitmap_member buf) ([0..<64] @ [64..<?A])"
    using word_bits_shift [of 0 buf] by (simp add: remaining_def Iterator_init_def)
  also have "[0..<64] @ [64..<?A] = [0..<width] @ [width..<?A]"
    using A by (simp add: upt_split)
  also have "filter (bitmap_member buf) ([0..<width] @ [width..<?A]) = filter (bitmap_member buf) [0..<width]"
    using member_beyond [OF assms] by (auto simp: filter_empty_conv) (meson not_le)
  also have "\<dots> = filter (Bitmap_is_set width buf) [0..<width]"
    by (rule filter_cong) (simp_all add: is_set_member)
  finally show ?thesis .
qed

section \<open>Counting\<close>

lemma popcount_word_bits: "popcount (w :: ulonglong) = length (word_bits w)"
proof -
  have "popcount w = (\<Sum>n \<in> set [0..<64]. if bit w n then 1 else 0)"
    by (simp add: popcount_def atLeast0LessThan of_bool_def)
  also have "\<dots> = length (filter (bit w) [0..<64])"
    by (subst distinct_length_filter) (simp_all add: sum.If_cases atLeast0LessThan Int_commute)
  finally show ?thesis by (simp only: word_bits_def)
qed

lemma bits_set_words:
  assumes "64 * m < 2 ^ 32"
  shows "unat (foldl (\<lambda>res i. res + my_count_bits (buf ! i)) 0 [0..<m]) = length (filter (bitmap_member buf) [0..<64 * m])
    \<and> length (filter (bitmap_member buf) [0..<64 * m]) \<le> 64 * m"
  using assms
proof (induction m)
  case (Suc m)
  have le: "length (word_bits w) \<le> 64" for w
    unfolding word_bits_def using length_filter_le [of "bit w" "[0..<64]"] by simp
  have "filter (bitmap_member buf) [0..<64 * Suc m] =
      filter (bitmap_member buf) [0..<64 * m] @ map (\<lambda>j. 64 * m + j) (word_bits (buf ! m))"
    unfolding word_bits_shift filter_append [symmetric] by (subst upt_split) (simp_all add: add.commute)
  then show ?case
    using Suc le [of "buf ! m"] by (simp add: unat_add_small my_count_bits_popcount popcount_word_bits)
qed simp

section \<open>Properties\<close>

text \<open>\<open>Bitmap<width>\<close> implements sets of bit numbers below \<open>width\<close>: intersection, union and difference
  of bitmaps are those of the sets, and the tests for subset, overlap, emptiness and equality decide
  them. The word-wise loops never read a bit beyond \<open>width\<close>, for widths that fill their last word
  and widths that do not.\<close>

theorem Bitmap_set_algebra:
  assumes "wf_Bitmap width a" and "wf_Bitmap width b"
  shows "Bitmap_members width (Bitmap_intersect width a b) = Bitmap_members width a \<inter> Bitmap_members width b
    \<and> Bitmap_members width (Bitmap_merge width a b) = Bitmap_members width a \<union> Bitmap_members width b
    \<and> Bitmap_members width (Bitmap_subtract width a b) = Bitmap_members width a - Bitmap_members width b
    \<and> (is_subset width a b \<longleftrightarrow> Bitmap_members width a \<subseteq> Bitmap_members width b)
    \<and> (is_overlapping width a b \<longleftrightarrow> Bitmap_members width a \<inter> Bitmap_members width b \<noteq> {})
    \<and> (is_clear_all width a \<longleftrightarrow> Bitmap_members width a = {})
    \<and> (Bitmap_eq width a b \<longleftrightarrow> Bitmap_members width a = Bitmap_members width b)"
proof (intro conjI)
  show "Bitmap_eq width a b \<longleftrightarrow> Bitmap_members width a = Bitmap_members width b"
    using sb.same_members [OF assms] by (simp add: sb.members_def Bitmap_members_def)
qed (simp_all only: is_subset_iff [OF assms(1)] is_overlapping_iff [OF assms(1)] is_clear_all_iff [OF assms(1)],
    auto simp: Bitmap_members_eq member_intersect member_merge member_subtract word_index_in_range)

lemma wf_zero_70: "wf_Bitmap 70 [0, 0]"
  by (simp add: wf_Bitmap_def ARRAY_ELEMENTS_def BITS_PER_ELEMENT_def bitmap_member_def nth_Cons' )

theorem Bitmap_set_algebra_witness:
  "is_subset 70 (set_prefix 70 [0, 0] 65) (set_prefix 70 [0, 0] 68) \<longleftrightarrow>
   Bitmap_members 70 (set_prefix 70 [0, 0] 65) \<subseteq> Bitmap_members 70 (set_prefix 70 [0, 0] 68)"
  using Bitmap_set_algebra [OF wf_set_prefix [OF wf_zero_70] wf_set_prefix [OF wf_zero_70]] by blast

text \<open>\<open>set_prefix\<close> leaves exactly the bits below the prefix size (cut to \<open>width\<close>) set, whatever the
  buffer held before, and \<open>is_prefix\<close> recognises exactly the bitmaps of that form.\<close>

theorem prefix_exact:
  assumes "wf_Bitmap width buf" and "q \<le> width"
  shows "Bitmap_members width (set_prefix width buf p) = {..<min p width}
    \<and> (is_prefix width buf q \<longleftrightarrow> Bitmap_members width buf = {..<q})
    \<and> is_prefix width (set_prefix width buf q) q"
proof -
  have mem: "Bitmap_members width (set_prefix width buf p) = {..<min p width}" for p
    using assms(1) array_elements_bounds(1) [of width]
    by (auto simp: Bitmap_members_eq member_set_prefix wf_Bitmap_def)
  then show ?thesis
    using is_prefix_iff [OF assms] is_prefix_iff [OF wf_set_prefix [OF assms(1)] assms(2)] assms(2) by (simp add: min_def)
qed

theorem prefix_exact_witness:
  "Bitmap_members 70 (set_prefix 70 [0, 0] 66) = {..<66} \<and> is_prefix 70 (set_prefix 70 [0, 0] 65) 65"
  using prefix_exact [OF wf_zero_70, of 65 66] by simp

text \<open>C35: Walking a bitmap with its iterator until \<open>BITMAP_END\<close> yields every set bit exactly once in
  increasing order; \<open>width + 1\<close> calls always reach the end marker.\<close>

theorem iterator_complete:
  assumes "wf_Bitmap width buf"
  shows "collect (width + 1) width buf (Iterator_init buf) = filter (Bitmap_is_set width buf) [0..<width]"
proof -
  have "length (filter (Bitmap_is_set width buf) [0..<width]) < width + 1"
    using length_filter_le [of _ "[0..<width]"] by (simp add: le_imp_less_Suc)
  then have "collect (width + 1) width buf (Iterator_init buf) = remaining width buf (Iterator_init buf)"
    using remaining_init [OF assms] by (intro collect_remaining) (auto simp: Iterator_init_def)
  then show ?thesis by (simp only: remaining_init [OF assms])
qed

theorem iterator_complete_witness:
  "collect (70 + 1) 70 [0, 0] (Iterator_init [0, 0]) = filter (Bitmap_is_set 70 [0, 0]) [0..<70]"
  by (rule iterator_complete [OF wf_zero_70])

text \<open>\<open>bits_set\<close> is the number of members, with no overflow of its 32-bit sum.\<close>

theorem bits_set_counts:
  assumes "wf_Bitmap width buf" and "width + 63 < 2 ^ 32"
  shows "unat (bits_set width buf) = card (Bitmap_members width buf)"
proof -
  let ?A = "ARRAY_ELEMENTS width"
  have A: "64 * ?A < 2 ^ 32"
    using assms(2) by (simp add: ARRAY_ELEMENTS_def BITS_PER_ELEMENT_def)
  have "unat (bits_set width buf) = card ({k. bitmap_member buf k} \<inter> set [0..<64 * ?A])"
    unfolding bits_set_def using bits_set_words [OF A, of buf] by (subst (asm) distinct_length_filter) simp_all
  also have "{k. bitmap_member buf k} \<inter> set [0..<64 * ?A] = Bitmap_members width buf"
    using member_beyond [OF assms(1)] array_elements_bounds(1) [of width] by (auto simp: Bitmap_members_eq)
  finally show ?thesis .
qed

theorem bits_set_counts_witness:
  "unat (bits_set 70 [0, 0]) = card (Bitmap_members 70 [0, 0])"
  using bits_set_counts [OF wf_zero_70] by simp

text \<open>\<open>print\<close> of a bitmap whose last non-zero word is not the first one has no defined result: the
  digit loop increases its shift count beyond the width of the word instead of decreasing it.\<close>

theorem print_shift_out_of_range:
  assumes "last_nonzero buf (ARRAY_ELEMENTS width - 1) \<noteq> 0"
  shows "print longlong2str width buf out = None"
proof -
  have none: "foldl (\<lambda>r i. case r of None \<Rightarrow> None | Some o1 \<Rightarrow> f o1 i) None xs = None" for f :: "string \<Rightarrow> nat \<Rightarrow> string option" and xs
    by (induction xs) auto
  have "print_digits o1 num 60 pos 16 = None" for o1 num pos
    by (simp add: numeral_eq_Suc)
  then show ?thesis
    using assms unfolding print_def Let_def
    by (simp add: BITS_PER_ELEMENT_def upt_conv_Cons none)
qed

theorem print_shift_out_of_range_witness:
  "print (\<lambda>n s. s) 70 [1, 1] (replicate 40 CHR ''0'') = None"
  using print_shift_out_of_range [of "[1, 1]" 70]
  by (simp add: ARRAY_ELEMENTS_def BITS_PER_ELEMENT_def)

end
