(* ===== verification/Privilege.thy ===== *)
theory Privilege imports My_Bit begin

unbundle bit_operations_syntax

text \<open>
  \<open>private/privilege.h\<close>: the privilege bits of the access control, the sets of privileges the server
  grants at each level (column, table, database, routine, global), and the functions that pack the
  bits of a level into the contiguous form stored in the system tables (\<open>get_rights_for_*\<close>) and
  unpack them again (\<open>fix_rights_for_*\<close>). \<open>privilege_t\<close> is an enumeration over 64-bit values that
  also holds combinations; the deleted comparison operators of the header only restrict which
  source texts compile. The privileges each server action requires are in \<open>Privilege_Actions\<close>.
\<close>

named_theorems acl_bits \<open>the bits of each single privilege\<close>
named_theorems acl_sets \<open>the definitions of the sets of privileges\<close>

section \<open>Privilege bits\<close>

type_synonym privilege_t = ulonglong

definition NO_ACL :: privilege_t where
  "NO_ACL = 0"

definition SELECT_ACL :: privilege_t where
  "SELECT_ACL = push_bit 0 1"

definition INSERT_ACL :: privilege_t where
  "INSERT_ACL = push_bit 1 1"

definition UPDATE_ACL :: privilege_t where
  "UPDATE_ACL = push_bit 2 1"

definition DELETE_ACL :: privilege_t where
  "DELETE_ACL = push_bit 3 1"

definition CREATE_ACL :: privilege_t where
  "CREATE_ACL = push_bit 4 1"

definition DROP_ACL :: privilege_t where
  "DROP_ACL = push_bit 5 1"

definition RELOAD_ACL :: privilege_t where
  "RELOAD_ACL = push_bit 6 1"

definition SHUTDOWN_ACL :: privilege_t where
  "SHUTDOWN_ACL = push_bit 7 1"

definition PROCESS_ACL :: privilege_t where
  "PROCESS_ACL = push_bit 8 1"

definition FILE_ACL :: privilege_t where
  "FILE_ACL = push_bit 9 1"

definition GRANT_ACL :: privilege_t where
  "GRANT_ACL = push_bit 10 1"

definition REFERENCES_ACL :: privilege_t where
  "REFERENCES_ACL = push_bit 11 1"

definition INDEX_ACL :: privilege_t where
  "INDEX_ACL = push_bit 12 1"

definition ALTER_ACL :: privilege_t where
  "ALTER_ACL = push_bit 13 1"

definition SHOW_DB_ACL :: privilege_t where
  "SHOW_DB_ACL = push_bit 14 1"

definition SUPER_ACL :: privilege_t where
  "SUPER_ACL = push_bit 15 1"

definition CREATE_TMP_ACL :: privilege_t where
  "CREATE_TMP_ACL = push_bit 16 1"

definition LOCK_TABLES_ACL :: privilege_t where
  "LOCK_TABLES_ACL = push_bit 17 1"

definition EXECUTE_ACL :: privilege_t where
  "EXECUTE_ACL = push_bit 18 1"

definition REPL_SLAVE_ACL :: privilege_t where
  "REPL_SLAVE_ACL = push_bit 19 1"

definition BINLOG_MONITOR_ACL :: privilege_t where
  "BINLOG_MONITOR_ACL = push_bit 20 1"

definition CREATE_VIEW_ACL :: privilege_t where
  "CREATE_VIEW_ACL = push_bit 21 1"

definition SHOW_VIEW_ACL :: privilege_t where
  "SHOW_VIEW_ACL = push_bit 22 1"

definition CREATE_PROC_ACL :: privilege_t where
  "CREATE_PROC_ACL = push_bit 23 1"

definition ALTER_PROC_ACL :: privilege_t where
  "ALTER_PROC_ACL = push_bit 24 1"

definition CREATE_USER_ACL :: privilege_t where
  "CREATE_USER_ACL = push_bit 25 1"

definition EVENT_ACL :: privilege_t where
  "EVENT_ACL = push_bit 26 1"

definition TRIGGER_ACL :: privilege_t where
  "TRIGGER_ACL = push_bit 27 1"

definition CREATE_TABLESPACE_ACL :: privilege_t where
  "CREATE_TABLESPACE_ACL = push_bit 28 1"

definition DELETE_HISTORY_ACL :: privilege_t where
  "DELETE_HISTORY_ACL = push_bit 29 1"

definition SET_USER_ACL :: privilege_t where
  "SET_USER_ACL = push_bit 30 1"

definition FEDERATED_ADMIN_ACL :: privilege_t where
  "FEDERATED_ADMIN_ACL = push_bit 31 1"

definition CONNECTION_ADMIN_ACL :: privilege_t where
  "CONNECTION_ADMIN_ACL = push_bit 32 1"

definition READ_ONLY_ADMIN_ACL :: privilege_t where
  "READ_ONLY_ADMIN_ACL = push_bit 33 1"

definition REPL_SLAVE_ADMIN_ACL :: privilege_t where
  "REPL_SLAVE_ADMIN_ACL = push_bit 34 1"

definition REPL_MASTER_ADMIN_ACL :: privilege_t where
  "REPL_MASTER_ADMIN_ACL = push_bit 35 1"

definition BINLOG_ADMIN_ACL :: privilege_t where
  "BINLOG_ADMIN_ACL = push_bit 36 1"

definition BINLOG_REPLAY_ACL :: privilege_t where
  "BINLOG_REPLAY_ACL = push_bit 37 1"

definition SLAVE_MONITOR_ACL :: privilege_t where
  "SLAVE_MONITOR_ACL = push_bit 38 1"

definition ALL_KNOWN_BITS :: "privilege_t \<Rightarrow> privilege_t" where
  "ALL_KNOWN_BITS x = x OR (x - 1)"

definition LAST_100304_ACL :: privilege_t where
  "LAST_100304_ACL = DELETE_HISTORY_ACL"

definition LAST_100502_ACL :: privilege_t where
  "LAST_100502_ACL = BINLOG_REPLAY_ACL"

definition LAST_100508_ACL :: privilege_t where
  "LAST_100508_ACL = SLAVE_MONITOR_ACL"

definition LAST_CURRENT_ACL :: privilege_t where
  "LAST_CURRENT_ACL = LAST_100508_ACL"

definition ALL_KNOWN_ACL_100304 :: privilege_t where
  "ALL_KNOWN_ACL_100304 = ALL_KNOWN_BITS LAST_100304_ACL"

definition ALL_KNOWN_ACL_100502 :: privilege_t where
  "ALL_KNOWN_ACL_100502 = ALL_KNOWN_BITS LAST_100502_ACL"

definition ALL_KNOWN_ACL_100508 :: privilege_t where
  "ALL_KNOWN_ACL_100508 = ALL_KNOWN_BITS LAST_100508_ACL"

definition ALL_KNOWN_ACL_100509 :: privilege_t where
  "ALL_KNOWN_ACL_100509 = ALL_KNOWN_ACL_100508"

definition ALL_KNOWN_ACL :: privilege_t where
  "ALL_KNOWN_ACL = ALL_KNOWN_BITS LAST_CURRENT_ACL"

definition PRIVILEGE_T_MAX_BIT :: uint where
  "PRIVILEGE_T_MAX_BIT = my_bit_log2_uint64 LAST_CURRENT_ACL"

section \<open>Operators\<close>

text \<open>The operators on \<open>privilege_t\<close>, with a privilege or a plain integer on either side.\<close>

definition priv_not :: "privilege_t \<Rightarrow> ulonglong" where
  "priv_not access = NOT access"

definition priv_and :: "ulonglong \<Rightarrow> ulonglong \<Rightarrow> privilege_t" where
  "priv_and a b = a AND b"

definition priv_or :: "privilege_t \<Rightarrow> privilege_t \<Rightarrow> privilege_t" where
  "priv_or a b = a OR b"

text \<open>The assignment operators return the new value of their left operand.\<close>

definition priv_and_assign :: "privilege_t \<Rightarrow> ulonglong \<Rightarrow> privilege_t" where
  "priv_and_assign a b = priv_and a b"

definition priv_or_assign :: "privilege_t \<Rightarrow> privilege_t \<Rightarrow> privilege_t" where
  "priv_or_assign a b = priv_or a b"

section \<open>Sets of privileges\<close>

definition GLOBAL_SUPER_ADDED_SINCE_USER_TABLE_ACLS :: privilege_t where
  "GLOBAL_SUPER_ADDED_SINCE_USER_TABLE_ACLS = SET_USER_ACL OR FEDERATED_ADMIN_ACL OR
     CONNECTION_ADMIN_ACL OR READ_ONLY_ADMIN_ACL OR REPL_SLAVE_ADMIN_ACL OR BINLOG_ADMIN_ACL OR
     BINLOG_REPLAY_ACL"

definition COL_DML_ACLS :: privilege_t where
  "COL_DML_ACLS = SELECT_ACL OR INSERT_ACL OR UPDATE_ACL OR DELETE_ACL"

definition VIEW_ACLS :: privilege_t where
  "VIEW_ACLS = CREATE_VIEW_ACL OR SHOW_VIEW_ACL"

definition STD_TABLE_DDL_ACLS :: privilege_t where
  "STD_TABLE_DDL_ACLS = CREATE_ACL OR DROP_ACL OR ALTER_ACL"

definition ALL_TABLE_DDL_ACLS :: privilege_t where
  "ALL_TABLE_DDL_ACLS = STD_TABLE_DDL_ACLS OR INDEX_ACL"

definition COL_ACLS :: privilege_t where
  "COL_ACLS = SELECT_ACL OR INSERT_ACL OR UPDATE_ACL OR REFERENCES_ACL"

definition PROC_DDL_ACLS :: privilege_t where
  "PROC_DDL_ACLS = CREATE_PROC_ACL OR ALTER_PROC_ACL"

definition SHOW_PROC_ACLS :: privilege_t where
  "SHOW_PROC_ACLS = PROC_DDL_ACLS OR EXECUTE_ACL"

definition TABLE_ACLS :: privilege_t where
  "TABLE_ACLS = COL_DML_ACLS OR ALL_TABLE_DDL_ACLS OR VIEW_ACLS OR GRANT_ACL OR REFERENCES_ACL OR
     TRIGGER_ACL OR DELETE_HISTORY_ACL"

definition DB_ACLS :: privilege_t where
  "DB_ACLS = TABLE_ACLS OR PROC_DDL_ACLS OR EXECUTE_ACL OR CREATE_TMP_ACL OR LOCK_TABLES_ACL OR
     EVENT_ACL"

definition PROC_ACLS :: privilege_t where
  "PROC_ACLS = ALTER_PROC_ACL OR EXECUTE_ACL OR GRANT_ACL"

definition GLOBAL_ACLS :: privilege_t where
  "GLOBAL_ACLS = DB_ACLS OR SHOW_DB_ACL OR CREATE_USER_ACL OR CREATE_TABLESPACE_ACL OR SUPER_ACL OR
     RELOAD_ACL OR SHUTDOWN_ACL OR PROCESS_ACL OR FILE_ACL OR REPL_SLAVE_ACL OR BINLOG_MONITOR_ACL OR
     GLOBAL_SUPER_ADDED_SINCE_USER_TABLE_ACLS OR REPL_MASTER_ADMIN_ACL OR SLAVE_MONITOR_ACL"

definition DEFAULT_CREATE_PROC_ACLS :: privilege_t where
  "DEFAULT_CREATE_PROC_ACLS = ALTER_PROC_ACL OR EXECUTE_ACL"

definition SHOW_CREATE_TABLE_ACLS :: privilege_t where
  "SHOW_CREATE_TABLE_ACLS = COL_DML_ACLS OR ALL_TABLE_DDL_ACLS OR TRIGGER_ACL OR REFERENCES_ACL OR
     GRANT_ACL OR VIEW_ACLS"

definition TMP_TABLE_ACLS :: privilege_t where
  "TMP_TABLE_ACLS = COL_DML_ACLS OR ALL_TABLE_DDL_ACLS"

section \<open>Stored rights\<close>

definition DB_CHUNK0 :: privilege_t where
  "DB_CHUNK0 = COL_DML_ACLS OR CREATE_ACL OR DROP_ACL"

definition DB_CHUNK1 :: privilege_t where
  "DB_CHUNK1 = GRANT_ACL OR REFERENCES_ACL OR INDEX_ACL OR ALTER_ACL"

definition DB_CHUNK2 :: privilege_t where
  "DB_CHUNK2 = CREATE_TMP_ACL OR LOCK_TABLES_ACL"

definition DB_CHUNK3 :: privilege_t where
  "DB_CHUNK3 = VIEW_ACLS OR PROC_DDL_ACLS"

definition DB_CHUNK4 :: privilege_t where
  "DB_CHUNK4 = EXECUTE_ACL"

definition DB_CHUNK5 :: privilege_t where
  "DB_CHUNK5 = EVENT_ACL OR TRIGGER_ACL"

definition DB_CHUNK6 :: privilege_t where
  "DB_CHUNK6 = DELETE_HISTORY_ACL"

definition fix_rights_for_db :: "privilege_t \<Rightarrow> privilege_t" where
  "fix_rights_for_db A =
     (A AND DB_CHUNK0) OR (push_bit 4 A AND DB_CHUNK1) OR (push_bit 6 A AND DB_CHUNK2) OR
     (push_bit 9 A AND DB_CHUNK3) OR (push_bit 2 A AND DB_CHUNK4) OR (push_bit 9 A AND DB_CHUNK5) OR
     (push_bit 10 A AND DB_CHUNK6)"

definition get_rights_for_db :: "privilege_t \<Rightarrow> privilege_t" where
  "get_rights_for_db A =
     (A AND DB_CHUNK0) OR drop_bit 4 (A AND DB_CHUNK1) OR drop_bit 6 (A AND DB_CHUNK2) OR
     drop_bit 9 (A AND DB_CHUNK3) OR drop_bit 2 (A AND DB_CHUNK4) OR drop_bit 9 (A AND DB_CHUNK5) OR
     drop_bit 10 (A AND DB_CHUNK6)"

definition TBL_CHUNK0 :: privilege_t where
  "TBL_CHUNK0 = DB_CHUNK0"

definition TBL_CHUNK1 :: privilege_t where
  "TBL_CHUNK1 = DB_CHUNK1"

definition TBL_CHUNK2 :: privilege_t where
  "TBL_CHUNK2 = CREATE_VIEW_ACL OR SHOW_VIEW_ACL"

definition TBL_CHUNK3 :: privilege_t where
  "TBL_CHUNK3 = TRIGGER_ACL"

definition TBL_CHUNK4 :: privilege_t where
  "TBL_CHUNK4 = DELETE_HISTORY_ACL"

definition fix_rights_for_table :: "privilege_t \<Rightarrow> privilege_t" where
  "fix_rights_for_table A =
     (A AND TBL_CHUNK0) OR (push_bit 4 A AND TBL_CHUNK1) OR (push_bit 11 A AND TBL_CHUNK2) OR
     (push_bit 15 A AND TBL_CHUNK3) OR (push_bit 16 A AND TBL_CHUNK4)"

definition get_rights_for_table :: "privilege_t \<Rightarrow> privilege_t" where
  "get_rights_for_table A =
     (A AND TBL_CHUNK0) OR drop_bit 4 (A AND TBL_CHUNK1) OR drop_bit 11 (A AND TBL_CHUNK2) OR
     drop_bit 15 (A AND TBL_CHUNK3) OR drop_bit 16 (A AND TBL_CHUNK4)"

definition fix_rights_for_column :: "privilege_t \<Rightarrow> privilege_t" where
  "fix_rights_for_column A =
     (let mask = SELECT_ACL OR INSERT_ACL OR UPDATE_ACL
      in priv_or (priv_and A mask) (push_bit 8 (priv_and A (NOT mask))))"

definition get_rights_for_column :: "privilege_t \<Rightarrow> privilege_t" where
  "get_rights_for_column A =
     (let mask = SELECT_ACL OR INSERT_ACL OR UPDATE_ACL in (A AND mask) OR drop_bit 8 A)"

definition fix_rights_for_procedure :: "privilege_t \<Rightarrow> privilege_t" where
  "fix_rights_for_procedure A =
     (push_bit 18 A AND EXECUTE_ACL) OR (push_bit 23 A AND ALTER_PROC_ACL) OR (push_bit 8 A AND GRANT_ACL)"

definition get_rights_for_procedure :: "privilege_t \<Rightarrow> privilege_t" where
  "get_rights_for_procedure A =
     drop_bit 18 (A AND EXECUTE_ACL) OR drop_bit 23 (A AND ALTER_PROC_ACL) OR drop_bit 8 (A AND GRANT_ACL)"

section \<open>Bits of the privileges\<close>

lemma bit_single: "k < 64 \<Longrightarrow> bit (push_bit k 1 :: ulonglong) n \<longleftrightarrow> n = k"
  unfolding bit_push_word by (auto simp: bit_1_iff)

lemma bit_acl [acl_bits]:
  "bit SELECT_ACL n \<longleftrightarrow> n = 0"
  "bit INSERT_ACL n \<longleftrightarrow> n = 1"
  "bit UPDATE_ACL n \<longleftrightarrow> n = 2"
  "bit DELETE_ACL n \<longleftrightarrow> n = 3"
  "bit CREATE_ACL n \<longleftrightarrow> n = 4"
  "bit DROP_ACL n \<longleftrightarrow> n = 5"
  "bit RELOAD_ACL n \<longleftrightarrow> n = 6"
  "bit SHUTDOWN_ACL n \<longleftrightarrow> n = 7"
  "bit PROCESS_ACL n \<longleftrightarrow> n = 8"
  "bit FILE_ACL n \<longleftrightarrow> n = 9"
  "bit GRANT_ACL n \<longleftrightarrow> n = 10"
  "bit REFERENCES_ACL n \<longleftrightarrow> n = 11"
  "bit INDEX_ACL n \<longleftrightarrow> n = 12"
  "bit ALTER_ACL n \<longleftrightarrow> n = 13"
  "bit SHOW_DB_ACL n \<longleftrightarrow> n = 14"
  "bit SUPER_ACL n \<longleftrightarrow> n = 15"
  "bit CREATE_TMP_ACL n \<longleftrightarrow> n = 16"
  "bit LOCK_TABLES_ACL n \<longleftrightarrow> n = 17"
  "bit EXECUTE_ACL n \<longleftrightarrow> n = 18"
  "bit REPL_SLAVE_ACL n \<longleftrightarrow> n = 19"
  "bit BINLOG_MONITOR_ACL n \<longleftrightarrow> n = 20"
  "bit CREATE_VIEW_ACL n \<longleftrightarrow> n = 21"
  "bit SHOW_VIEW_ACL n \<longleftrightarrow> n = 22"
  "bit CREATE_PROC_ACL n \<longleftrightarrow> n = 23"
  "bit ALTER_PROC_ACL n \<longleftrightarrow> n = 24"
  "bit CREATE_USER_ACL n \<longleftrightarrow> n = 25"
  "bit EVENT_ACL n \<longleftrightarrow> n = 26"
  "bit TRIGGER_ACL n \<longleftrightarrow> n = 27"
  "bit CREATE_TABLESPACE_ACL n \<longleftrightarrow> n = 28"
  "bit DELETE_HISTORY_ACL n \<longleftrightarrow> n = 29"
  "bit SET_USER_ACL n \<longleftrightarrow> n = 30"
  "bit FEDERATED_ADMIN_ACL n \<longleftrightarrow> n = 31"
  "bit CONNECTION_ADMIN_ACL n \<longleftrightarrow> n = 32"
  "bit READ_ONLY_ADMIN_ACL n \<longleftrightarrow> n = 33"
  "bit REPL_SLAVE_ADMIN_ACL n \<longleftrightarrow> n = 34"
  "bit REPL_MASTER_ADMIN_ACL n \<longleftrightarrow> n = 35"
  "bit BINLOG_ADMIN_ACL n \<longleftrightarrow> n = 36"
  "bit BINLOG_REPLAY_ACL n \<longleftrightarrow> n = 37"
  "bit SLAVE_MONITOR_ACL n \<longleftrightarrow> n = 38"
  unfolding SELECT_ACL_def INSERT_ACL_def UPDATE_ACL_def DELETE_ACL_def CREATE_ACL_def DROP_ACL_def
    RELOAD_ACL_def SHUTDOWN_ACL_def PROCESS_ACL_def FILE_ACL_def GRANT_ACL_def REFERENCES_ACL_def
    INDEX_ACL_def ALTER_ACL_def SHOW_DB_ACL_def SUPER_ACL_def CREATE_TMP_ACL_def
    LOCK_TABLES_ACL_def EXECUTE_ACL_def REPL_SLAVE_ACL_def BINLOG_MONITOR_ACL_def
    CREATE_VIEW_ACL_def SHOW_VIEW_ACL_def CREATE_PROC_ACL_def ALTER_PROC_ACL_def
    CREATE_USER_ACL_def EVENT_ACL_def TRIGGER_ACL_def CREATE_TABLESPACE_ACL_def
    DELETE_HISTORY_ACL_def SET_USER_ACL_def FEDERATED_ADMIN_ACL_def CONNECTION_ADMIN_ACL_def
    READ_ONLY_ADMIN_ACL_def REPL_SLAVE_ADMIN_ACL_def REPL_MASTER_ADMIN_ACL_def BINLOG_ADMIN_ACL_def
    BINLOG_REPLAY_ACL_def SLAVE_MONITOR_ACL_def
  by (rule bit_single, simp)+

lemmas acl_set_defs [acl_sets] =
  GLOBAL_SUPER_ADDED_SINCE_USER_TABLE_ACLS_def COL_DML_ACLS_def VIEW_ACLS_def
  STD_TABLE_DDL_ACLS_def ALL_TABLE_DDL_ACLS_def COL_ACLS_def PROC_DDL_ACLS_def SHOW_PROC_ACLS_def
  TABLE_ACLS_def DB_ACLS_def PROC_ACLS_def GLOBAL_ACLS_def DEFAULT_CREATE_PROC_ACLS_def
  SHOW_CREATE_TABLE_ACLS_def TMP_TABLE_ACLS_def DB_CHUNK0_def DB_CHUNK1_def DB_CHUNK2_def
  DB_CHUNK3_def DB_CHUNK4_def DB_CHUNK5_def DB_CHUNK6_def TBL_CHUNK0_def TBL_CHUNK1_def
  TBL_CHUNK2_def TBL_CHUNK3_def TBL_CHUNK4_def

section \<open>The contract of stored rights\<close>

text \<open>
  \<open>get\<close> packs the rights of a level into the stored form, \<open>unpack\<close> restores them; \<open>acls\<close> are the
  rights of the level and \<open>stored\<close> the bits of the stored form. Granting and revoking can then be
  done on the stored form.
\<close>

definition within :: "ulonglong \<Rightarrow> ulonglong \<Rightarrow> bool" where
  "within a m \<longleftrightarrow> a AND NOT m = 0"

lemma within_iff: "within a m \<longleftrightarrow> (\<forall>n. bit a n \<longrightarrow> bit m n)"
  unfolding within_def bit_eq_iff using bit_imp_le_length [of a] by (auto simp: bits_simps)

lemma within_and: "within (a AND m) m"
  by (simp add: within_iff bits_simps)

locale rights_store =
  fixes get unpack :: "privilege_t \<Rightarrow> privilege_t"
    and acls stored :: privilege_t
  assumes get_within: "within a acls \<Longrightarrow> within (get a) stored"
    and unpack_within: "within s stored \<Longrightarrow> within (unpack s) acls"
    and unpack_get: "within a acls \<Longrightarrow> unpack (get a) = a"
    and get_unpack: "within s stored \<Longrightarrow> get (unpack s) = s"
    and get_or: "get (a OR b) = get a OR get b"
    and get_and_not: "within a acls \<Longrightarrow> within b acls \<Longrightarrow> get (a AND NOT b) = get a AND NOT (get b)"
begin

lemma within_or: "within a m \<Longrightarrow> within b m \<Longrightarrow> within (a OR b) m"
  by (auto simp: within_iff bits_simps)

lemma within_and_not: "within a m \<Longrightarrow> within (a AND NOT b) m"
  by (auto simp: within_iff bits_simps)

lemma bijection: "bij_betw get {a. within a acls} {s. within s stored}"
  by (rule bij_betw_byWitness [where f' = unpack]) (auto simp: unpack_get get_unpack get_within unpack_within)

lemma get_inj: "within a acls \<Longrightarrow> within b acls \<Longrightarrow> get a = get b \<longleftrightarrow> a = b"
  using unpack_get by metis

lemma grant_stored:
  assumes "within a acls" "within b acls"
  shows "unpack (get a OR get b) = a OR b"
  using unpack_get [OF within_or [OF assms]] by (simp add: get_or)

lemma revoke_stored:
  assumes "within a acls" "within b acls"
  shows "unpack (get a AND NOT (get b)) = a AND NOT b"
  using unpack_get [OF within_and_not [OF assms(1), of b]] assms by (simp add: get_and_not)

end

lemmas rights_defs = fix_rights_for_db_def get_rights_for_db_def fix_rights_for_table_def get_rights_for_table_def
  fix_rights_for_column_def get_rights_for_column_def fix_rights_for_procedure_def get_rights_for_procedure_def
  priv_and_def priv_or_def

lemma privilege_eq_iff: "a = (b :: privilege_t) \<longleftrightarrow> (\<forall>n < 64. bit a n \<longleftrightarrow> bit b n)"
  by (auto intro: word_bits_eqI)

lemma within_less_64: "within a m \<longleftrightarrow> (\<forall>n < 64. bit a n \<longrightarrow> bit m n)"
  using bit_imp_le_length [of a] by (auto simp: within_iff)

text \<open>Facts about fixed sets of privileges are decided bit by bit.\<close>

lemmas bitwise = privilege_eq_iff within_less_64 all_less_64 bits_simps acl_bits

interpretation db_rights: rights_store get_rights_for_db fix_rights_for_db DB_ACLS "mask 20"
proof unfold_locales
  fix a b :: privilege_t
  show "get_rights_for_db (a OR b) = get_rights_for_db a OR get_rights_for_db b"
    by (rule word_bits_eqI) (auto simp: get_rights_for_db_def bits_simps Let_def)
qed (simp_all add: bitwise fix_rights_for_db_def get_rights_for_db_def acl_sets)

interpretation table_rights: rights_store get_rights_for_table fix_rights_for_table TABLE_ACLS "mask 14"
proof unfold_locales
  fix a b :: privilege_t
  show "get_rights_for_table (a OR b) = get_rights_for_table a OR get_rights_for_table b"
    by (rule word_bits_eqI) (auto simp: get_rights_for_table_def bits_simps Let_def)
qed (simp_all add: bitwise fix_rights_for_table_def get_rights_for_table_def acl_sets)

interpretation column_rights: rights_store get_rights_for_column fix_rights_for_column COL_ACLS "mask 4"
proof unfold_locales
  fix a b :: privilege_t
  show "get_rights_for_column (a OR b) = get_rights_for_column a OR get_rights_for_column b"
    by (rule word_bits_eqI) (auto simp: get_rights_for_column_def bits_simps Let_def)
qed (simp_all add: bitwise fix_rights_for_column_def get_rights_for_column_def acl_sets Let_def priv_and_def priv_or_def)

interpretation procedure_rights: rights_store get_rights_for_procedure fix_rights_for_procedure PROC_ACLS "mask 3"
proof unfold_locales
  fix a b :: privilege_t
  show "get_rights_for_procedure (a OR b) = get_rights_for_procedure a OR get_rights_for_procedure b"
    by (rule word_bits_eqI) (auto simp: get_rights_for_procedure_def bits_simps Let_def)
qed (simp_all add: bitwise fix_rights_for_procedure_def get_rights_for_procedure_def acl_sets)

section \<open>Versions\<close>

lemma all_known_bits_power: "k < 64 \<Longrightarrow> ALL_KNOWN_BITS (push_bit k 1) = mask (Suc k)"
proof -
  assume "k < 64"
  then have "(push_bit k 1 :: privilege_t) - 1 = mask k" by (simp add: mask_eq_exp_minus_1)
  then show ?thesis
    using \<open>k < 64\<close> by (intro word_bits_eqI) (auto simp: ALL_KNOWN_BITS_def bits_simps bit_1_iff simp del: push_bit_of_1)
qed

lemma all_known_acl: "ALL_KNOWN_ACL = mask 39"
  using all_known_bits_power [of 38]
  by (simp add: ALL_KNOWN_ACL_def LAST_CURRENT_ACL_def LAST_100508_ACL_def SLAVE_MONITOR_ACL_def)

lemma all_known_acl_100304: "ALL_KNOWN_ACL_100304 = mask 30"
  using all_known_bits_power [of 29]
  by (simp add: ALL_KNOWN_ACL_100304_def LAST_100304_ACL_def DELETE_HISTORY_ACL_def)

lemma all_known_acl_100502: "ALL_KNOWN_ACL_100502 = mask 38"
  using all_known_bits_power [of 37]
  by (simp add: ALL_KNOWN_ACL_100502_def LAST_100502_ACL_def BINLOG_REPLAY_ACL_def)

section \<open>Properties\<close>

text \<open>At each of the four levels the rights of the level and the codes of their contiguous stored form
  (20 bits for a database, 14 for a table, 4 for a column, 3 for a routine) correspond one to one:
  packing is a bijection onto all codes of that width and the matching \<open>fix_rights\<close> function undoes it.\<close>

theorem stored_rights_bijection:
  "bij_betw get_rights_for_db {a. within a DB_ACLS} {s. within s (mask 20)}
   \<and> bij_betw get_rights_for_table {a. within a TABLE_ACLS} {s. within s (mask 14)}
   \<and> bij_betw get_rights_for_column {a. within a COL_ACLS} {s. within s (mask 4)}
   \<and> bij_betw get_rights_for_procedure {a. within a PROC_ACLS} {s. within s (mask 3)}
   \<and> (\<forall>a. fix_rights_for_db (get_rights_for_db (a AND DB_ACLS)) = a AND DB_ACLS)
   \<and> (\<forall>a. fix_rights_for_table (get_rights_for_table (a AND TABLE_ACLS)) = a AND TABLE_ACLS)
   \<and> (\<forall>a. fix_rights_for_column (get_rights_for_column (a AND COL_ACLS)) = a AND COL_ACLS)
   \<and> (\<forall>a. fix_rights_for_procedure (get_rights_for_procedure (a AND PROC_ACLS)) = a AND PROC_ACLS)"
  by (intro conjI allI db_rights.bijection table_rights.bijection column_rights.bijection procedure_rights.bijection
      db_rights.unpack_get table_rights.unpack_get column_rights.unpack_get procedure_rights.unpack_get within_and)

text \<open>C32: Granting and revoking table rights can be done on the stored form: unpacking the union
  (difference) of two packed sets gives the union (difference) of the sets.\<close>

theorem grant_revoke_stored_table:
  assumes "within a TABLE_ACLS" and "within b TABLE_ACLS"
  shows "fix_rights_for_table (get_rights_for_table a OR get_rights_for_table b) = a OR b
    \<and> fix_rights_for_table (get_rights_for_table a AND NOT (get_rights_for_table b)) = a AND NOT b"
  using table_rights.grant_stored [OF assms] table_rights.revoke_stored [OF assms] by simp

theorem grant_revoke_stored_table_witness:
  "fix_rights_for_table (get_rights_for_table SELECT_ACL OR get_rights_for_table TRIGGER_ACL) = SELECT_ACL OR TRIGGER_ACL"
proof -
  have "within SELECT_ACL TABLE_ACLS" "within TRIGGER_ACL TABLE_ACLS"
    by (simp_all add: within_iff bits_simps acl_bits acl_sets)
  from grant_revoke_stored_table [OF this] show ?thesis by simp
qed

text \<open>The privilege table is complete: the global set holds exactly the 39 privileges known to the current version
  (those the version marker covers), each level contains the levels below it, each version marker
  covers the earlier ones, and the header's static assertion on the highest bit holds.\<close>

theorem privilege_levels:
  "GLOBAL_ACLS = ALL_KNOWN_ACL
   \<and> within COL_ACLS TABLE_ACLS \<and> within TABLE_ACLS DB_ACLS \<and> within PROC_ACLS DB_ACLS \<and> within DB_ACLS GLOBAL_ACLS
   \<and> within TMP_TABLE_ACLS TABLE_ACLS \<and> within SHOW_CREATE_TABLE_ACLS TABLE_ACLS
   \<and> within ALL_KNOWN_ACL_100304 ALL_KNOWN_ACL_100502 \<and> within ALL_KNOWN_ACL_100502 ALL_KNOWN_ACL
   \<and> within GLOBAL_SUPER_ADDED_SINCE_USER_TABLE_ACLS (ALL_KNOWN_ACL AND NOT ALL_KNOWN_ACL_100304)
   \<and> push_bit (unat PRIVILEGE_T_MAX_BIT) 1 = LAST_CURRENT_ACL"
proof (intro conjI)
  have "LAST_CURRENT_ACL = 2 ^ 38"
    by (simp add: LAST_CURRENT_ACL_def LAST_100508_ACL_def SLAVE_MONITOR_ACL_def)
  moreover have "unat (my_bit_log2_uint64 (2 ^ 38)) = 38"
    using is_log2_bit(1) [OF is_log2_uint64, of "2 ^ 38"] unfolding bit_two_power by simp
  ultimately show "push_bit (unat PRIVILEGE_T_MAX_BIT) 1 = LAST_CURRENT_ACL"
    by (simp add: PRIVILEGE_T_MAX_BIT_def)
qed (simp_all only: all_known_acl all_known_acl_100304 all_known_acl_100502,
    simp_all add: bitwise acl_sets)

end
