(* ===== verification/Privilege_Actions.thy ===== *)
theory Privilege_Actions imports Privilege begin

unbundle bit_operations_syntax

text \<open>
  The action part of \<open>private/privilege.h\<close>: for each server action (a statement, a protocol command, setting
  a system variable) the privileges of which a user needs one. An access check tests
  that the user's rights and the action's constant have a bit in common.
\<close>

named_theorems action_defs \<open>the definitions of the action privileges\<close>

definition PRIV_LOCK_TABLES :: privilege_t where
  "PRIV_LOCK_TABLES = SELECT_ACL OR LOCK_TABLES_ACL"

definition PRIV_DEFINER_CLAUSE :: privilege_t where
  "PRIV_DEFINER_CLAUSE = SET_USER_ACL OR SUPER_ACL"

definition PRIV_REVEAL_MISSING_DEFINER :: privilege_t where
  "PRIV_REVEAL_MISSING_DEFINER = SET_USER_ACL OR SUPER_ACL"

definition PRIV_DES_DECRYPT_ONE_ARG :: privilege_t where
  "PRIV_DES_DECRYPT_ONE_ARG = SUPER_ACL"

definition PRIV_LOG_BIN_TRUSTED_SP_CREATOR :: privilege_t where
  "PRIV_LOG_BIN_TRUSTED_SP_CREATOR = SUPER_ACL"

definition PRIV_DEBUG :: privilege_t where
  "PRIV_DEBUG = SUPER_ACL"

definition PRIV_SET_GLOBAL_SYSTEM_VARIABLE :: privilege_t where
  "PRIV_SET_GLOBAL_SYSTEM_VARIABLE = SUPER_ACL"

definition PRIV_SET_RESTRICTED_SESSION_SYSTEM_VARIABLE :: privilege_t where
  "PRIV_SET_RESTRICTED_SESSION_SYSTEM_VARIABLE = SUPER_ACL"

definition PRIV_SET_SYSTEM_VAR_BINLOG_FORMAT :: privilege_t where
  "PRIV_SET_SYSTEM_VAR_BINLOG_FORMAT = SUPER_ACL OR BINLOG_ADMIN_ACL"

definition PRIV_SET_SYSTEM_VAR_BINLOG_DIRECT_NON_TRANSACTIONAL_UPDATES :: privilege_t where
  "PRIV_SET_SYSTEM_VAR_BINLOG_DIRECT_NON_TRANSACTIONAL_UPDATES = SUPER_ACL OR BINLOG_ADMIN_ACL"

definition PRIV_SET_SYSTEM_VAR_BINLOG_ANNOTATE_ROW_EVENTS :: privilege_t where
  "PRIV_SET_SYSTEM_VAR_BINLOG_ANNOTATE_ROW_EVENTS = SUPER_ACL OR BINLOG_ADMIN_ACL"

definition PRIV_SET_SYSTEM_VAR_BINLOG_ROW_IMAGE :: privilege_t where
  "PRIV_SET_SYSTEM_VAR_BINLOG_ROW_IMAGE = SUPER_ACL OR BINLOG_ADMIN_ACL"

definition PRIV_SET_SYSTEM_VAR_SQL_LOG_BIN :: privilege_t where
  "PRIV_SET_SYSTEM_VAR_SQL_LOG_BIN = SUPER_ACL OR BINLOG_ADMIN_ACL"

definition PRIV_SET_SYSTEM_GLOBAL_VAR_BINLOG_CACHE_SIZE :: privilege_t where
  "PRIV_SET_SYSTEM_GLOBAL_VAR_BINLOG_CACHE_SIZE = SUPER_ACL OR BINLOG_ADMIN_ACL"

definition PRIV_SET_SYSTEM_GLOBAL_VAR_BINLOG_FILE_CACHE_SIZE :: privilege_t where
  "PRIV_SET_SYSTEM_GLOBAL_VAR_BINLOG_FILE_CACHE_SIZE = SUPER_ACL OR BINLOG_ADMIN_ACL"

definition PRIV_SET_SYSTEM_GLOBAL_VAR_BINLOG_STMT_CACHE_SIZE :: privilege_t where
  "PRIV_SET_SYSTEM_GLOBAL_VAR_BINLOG_STMT_CACHE_SIZE = SUPER_ACL OR BINLOG_ADMIN_ACL"

definition PRIV_SET_SYSTEM_GLOBAL_VAR_BINLOG_COMMIT_WAIT_COUNT :: privilege_t where
  "PRIV_SET_SYSTEM_GLOBAL_VAR_BINLOG_COMMIT_WAIT_COUNT = SUPER_ACL OR BINLOG_ADMIN_ACL"

definition PRIV_SET_SYSTEM_GLOBAL_VAR_BINLOG_COMMIT_WAIT_USEC :: privilege_t where
  "PRIV_SET_SYSTEM_GLOBAL_VAR_BINLOG_COMMIT_WAIT_USEC = SUPER_ACL OR BINLOG_ADMIN_ACL"

definition PRIV_SET_SYSTEM_GLOBAL_VAR_BINLOG_ROW_METADATA :: privilege_t where
  "PRIV_SET_SYSTEM_GLOBAL_VAR_BINLOG_ROW_METADATA = SUPER_ACL OR BINLOG_ADMIN_ACL"

definition PRIV_SET_SYSTEM_GLOBAL_VAR_EXPIRE_LOGS_DAYS :: privilege_t where
  "PRIV_SET_SYSTEM_GLOBAL_VAR_EXPIRE_LOGS_DAYS = SUPER_ACL OR BINLOG_ADMIN_ACL"

definition PRIV_SET_SYSTEM_GLOBAL_VAR_LOG_BIN_COMPRESS :: privilege_t where
  "PRIV_SET_SYSTEM_GLOBAL_VAR_LOG_BIN_COMPRESS = SUPER_ACL OR BINLOG_ADMIN_ACL"

definition PRIV_SET_SYSTEM_GLOBAL_VAR_LOG_BIN_COMPRESS_MIN_LEN :: privilege_t where
  "PRIV_SET_SYSTEM_GLOBAL_VAR_LOG_BIN_COMPRESS_MIN_LEN = SUPER_ACL OR BINLOG_ADMIN_ACL"

definition PRIV_SET_SYSTEM_GLOBAL_VAR_LOG_BIN_TRUST_FUNCTION_CREATORS :: privilege_t where
  "PRIV_SET_SYSTEM_GLOBAL_VAR_LOG_BIN_TRUST_FUNCTION_CREATORS = SUPER_ACL OR BINLOG_ADMIN_ACL"

definition PRIV_SET_SYSTEM_GLOBAL_VAR_MAX_BINLOG_CACHE_SIZE :: privilege_t where
  "PRIV_SET_SYSTEM_GLOBAL_VAR_MAX_BINLOG_CACHE_SIZE = SUPER_ACL OR BINLOG_ADMIN_ACL"

definition PRIV_SET_SYSTEM_GLOBAL_VAR_MAX_BINLOG_STMT_CACHE_SIZE :: privilege_t where
  "PRIV_SET_SYSTEM_GLOBAL_VAR_MAX_BINLOG_STMT_CACHE_SIZE = SUPER_ACL OR BINLOG_ADMIN_ACL"

definition PRIV_SET_SYSTEM_GLOBAL_VAR_MAX_BINLOG_SIZE :: privilege_t where
  "PRIV_SET_SYSTEM_GLOBAL_VAR_MAX_BINLOG_SIZE = SUPER_ACL OR BINLOG_ADMIN_ACL"

definition PRIV_SET_SYSTEM_GLOBAL_VAR_SYNC_BINLOG :: privilege_t where
  "PRIV_SET_SYSTEM_GLOBAL_VAR_SYNC_BINLOG = SUPER_ACL OR BINLOG_ADMIN_ACL"

definition PRIV_IGNORE_READ_ONLY :: privilege_t where
  "PRIV_IGNORE_READ_ONLY = READ_ONLY_ADMIN_ACL OR SUPER_ACL"

definition PRIV_SET_SYSTEM_GLOBAL_VAR_READ_ONLY :: privilege_t where
  "PRIV_SET_SYSTEM_GLOBAL_VAR_READ_ONLY = READ_ONLY_ADMIN_ACL OR SUPER_ACL"

definition PRIV_IGNORE_INIT_CONNECT :: privilege_t where
  "PRIV_IGNORE_INIT_CONNECT = CONNECTION_ADMIN_ACL OR SUPER_ACL"

definition PRIV_IGNORE_MAX_USER_CONNECTIONS :: privilege_t where
  "PRIV_IGNORE_MAX_USER_CONNECTIONS = CONNECTION_ADMIN_ACL OR SUPER_ACL"

definition PRIV_IGNORE_MAX_CONNECTIONS :: privilege_t where
  "PRIV_IGNORE_MAX_CONNECTIONS = CONNECTION_ADMIN_ACL OR SUPER_ACL"

definition PRIV_IGNORE_MAX_PASSWORD_ERRORS :: privilege_t where
  "PRIV_IGNORE_MAX_PASSWORD_ERRORS = CONNECTION_ADMIN_ACL OR SUPER_ACL"

definition PRIV_KILL_OTHER_USER_PROCESS :: privilege_t where
  "PRIV_KILL_OTHER_USER_PROCESS = CONNECTION_ADMIN_ACL OR SUPER_ACL"

definition PRIV_SET_SYSTEM_GLOBAL_VAR_CONNECT_TIMEOUT :: privilege_t where
  "PRIV_SET_SYSTEM_GLOBAL_VAR_CONNECT_TIMEOUT = CONNECTION_ADMIN_ACL OR SUPER_ACL"

definition PRIV_SET_SYSTEM_GLOBAL_VAR_DISCONNECT_ON_EXPIRED_PASSWORD :: privilege_t where
  "PRIV_SET_SYSTEM_GLOBAL_VAR_DISCONNECT_ON_EXPIRED_PASSWORD = CONNECTION_ADMIN_ACL OR SUPER_ACL"

definition PRIV_SET_SYSTEM_GLOBAL_VAR_EXTRA_MAX_CONNECTIONS :: privilege_t where
  "PRIV_SET_SYSTEM_GLOBAL_VAR_EXTRA_MAX_CONNECTIONS = CONNECTION_ADMIN_ACL OR SUPER_ACL"

definition PRIV_SET_SYSTEM_GLOBAL_VAR_INIT_CONNECT :: privilege_t where
  "PRIV_SET_SYSTEM_GLOBAL_VAR_INIT_CONNECT = CONNECTION_ADMIN_ACL OR SUPER_ACL"

definition PRIV_SET_SYSTEM_GLOBAL_VAR_MAX_CONNECTIONS :: privilege_t where
  "PRIV_SET_SYSTEM_GLOBAL_VAR_MAX_CONNECTIONS = CONNECTION_ADMIN_ACL OR SUPER_ACL"

definition PRIV_SET_SYSTEM_GLOBAL_VAR_MAX_CONNECT_ERRORS :: privilege_t where
  "PRIV_SET_SYSTEM_GLOBAL_VAR_MAX_CONNECT_ERRORS = CONNECTION_ADMIN_ACL OR SUPER_ACL"

definition PRIV_SET_SYSTEM_GLOBAL_VAR_MAX_PASSWORD_ERRORS :: privilege_t where
  "PRIV_SET_SYSTEM_GLOBAL_VAR_MAX_PASSWORD_ERRORS = CONNECTION_ADMIN_ACL OR SUPER_ACL"

definition PRIV_SET_SYSTEM_GLOBAL_VAR_PROXY_PROTOCOL_NETWORKS :: privilege_t where
  "PRIV_SET_SYSTEM_GLOBAL_VAR_PROXY_PROTOCOL_NETWORKS = CONNECTION_ADMIN_ACL OR SUPER_ACL"

definition PRIV_SET_SYSTEM_GLOBAL_VAR_SECURE_AUTH :: privilege_t where
  "PRIV_SET_SYSTEM_GLOBAL_VAR_SECURE_AUTH = CONNECTION_ADMIN_ACL OR SUPER_ACL"

definition PRIV_SET_SYSTEM_GLOBAL_VAR_SLOW_LAUNCH_TIME :: privilege_t where
  "PRIV_SET_SYSTEM_GLOBAL_VAR_SLOW_LAUNCH_TIME = CONNECTION_ADMIN_ACL OR SUPER_ACL"

definition PRIV_SET_SYSTEM_GLOBAL_VAR_THREAD_POOL :: privilege_t where
  "PRIV_SET_SYSTEM_GLOBAL_VAR_THREAD_POOL = CONNECTION_ADMIN_ACL OR SUPER_ACL"

definition PRIV_STMT_SHOW_BINLOG_STATUS :: privilege_t where
  "PRIV_STMT_SHOW_BINLOG_STATUS = BINLOG_MONITOR_ACL OR SUPER_ACL"

definition PRIV_STMT_SHOW_BINARY_LOGS :: privilege_t where
  "PRIV_STMT_SHOW_BINARY_LOGS = BINLOG_MONITOR_ACL OR SUPER_ACL"

definition PRIV_STMT_PURGE_BINLOG :: privilege_t where
  "PRIV_STMT_PURGE_BINLOG = BINLOG_ADMIN_ACL OR SUPER_ACL"

definition PRIV_STMT_SHOW_BINLOG_EVENTS :: privilege_t where
  "PRIV_STMT_SHOW_BINLOG_EVENTS = BINLOG_MONITOR_ACL"

definition PRIV_COM_REGISTER_SLAVE :: privilege_t where
  "PRIV_COM_REGISTER_SLAVE = REPL_SLAVE_ACL"

definition PRIV_COM_BINLOG_DUMP :: privilege_t where
  "PRIV_COM_BINLOG_DUMP = REPL_SLAVE_ACL"

definition PRIV_STMT_SHOW_SLAVE_HOSTS :: privilege_t where
  "PRIV_STMT_SHOW_SLAVE_HOSTS = REPL_MASTER_ADMIN_ACL"

definition PRIV_SET_SYSTEM_GLOBAL_VAR_RPL_SEMI_SYNC_MASTER_ENABLED :: privilege_t where
  "PRIV_SET_SYSTEM_GLOBAL_VAR_RPL_SEMI_SYNC_MASTER_ENABLED = REPL_MASTER_ADMIN_ACL OR SUPER_ACL"

definition PRIV_SET_SYSTEM_GLOBAL_VAR_RPL_SEMI_SYNC_MASTER_TIMEOUT :: privilege_t where
  "PRIV_SET_SYSTEM_GLOBAL_VAR_RPL_SEMI_SYNC_MASTER_TIMEOUT = REPL_MASTER_ADMIN_ACL OR SUPER_ACL"

definition PRIV_SET_SYSTEM_GLOBAL_VAR_RPL_SEMI_SYNC_MASTER_WAIT_NO_SLAVE :: privilege_t where
  "PRIV_SET_SYSTEM_GLOBAL_VAR_RPL_SEMI_SYNC_MASTER_WAIT_NO_SLAVE = REPL_MASTER_ADMIN_ACL OR SUPER_ACL"

definition PRIV_SET_SYSTEM_GLOBAL_VAR_RPL_SEMI_SYNC_MASTER_TRACE_LEVEL :: privilege_t where
  "PRIV_SET_SYSTEM_GLOBAL_VAR_RPL_SEMI_SYNC_MASTER_TRACE_LEVEL = REPL_MASTER_ADMIN_ACL OR SUPER_ACL"

definition PRIV_SET_SYSTEM_GLOBAL_VAR_RPL_SEMI_SYNC_MASTER_WAIT_POINT :: privilege_t where
  "PRIV_SET_SYSTEM_GLOBAL_VAR_RPL_SEMI_SYNC_MASTER_WAIT_POINT = REPL_MASTER_ADMIN_ACL OR SUPER_ACL"

definition PRIV_SET_SYSTEM_GLOBAL_VAR_MASTER_VERIFY_CHECKSUM :: privilege_t where
  "PRIV_SET_SYSTEM_GLOBAL_VAR_MASTER_VERIFY_CHECKSUM = REPL_MASTER_ADMIN_ACL OR SUPER_ACL"

definition PRIV_SET_SYSTEM_GLOBAL_VAR_GTID_BINLOG_STATE :: privilege_t where
  "PRIV_SET_SYSTEM_GLOBAL_VAR_GTID_BINLOG_STATE = REPL_MASTER_ADMIN_ACL OR SUPER_ACL"

definition PRIV_SET_SYSTEM_GLOBAL_VAR_SERVER_ID :: privilege_t where
  "PRIV_SET_SYSTEM_GLOBAL_VAR_SERVER_ID = REPL_MASTER_ADMIN_ACL OR SUPER_ACL"

definition PRIV_SET_SYSTEM_GLOBAL_VAR_GTID_DOMAIN_ID :: privilege_t where
  "PRIV_SET_SYSTEM_GLOBAL_VAR_GTID_DOMAIN_ID = REPL_MASTER_ADMIN_ACL OR SUPER_ACL"

definition PRIV_STMT_START_SLAVE :: privilege_t where
  "PRIV_STMT_START_SLAVE = REPL_SLAVE_ADMIN_ACL OR SUPER_ACL"

definition PRIV_STMT_STOP_SLAVE :: privilege_t where
  "PRIV_STMT_STOP_SLAVE = REPL_SLAVE_ADMIN_ACL OR SUPER_ACL"

definition PRIV_STMT_CHANGE_MASTER :: privilege_t where
  "PRIV_STMT_CHANGE_MASTER = REPL_SLAVE_ADMIN_ACL OR SUPER_ACL"

definition PRIV_STMT_SHOW_SLAVE_STATUS :: privilege_t where
  "PRIV_STMT_SHOW_SLAVE_STATUS = SLAVE_MONITOR_ACL OR SUPER_ACL"

definition PRIV_STMT_SHOW_RELAYLOG_EVENTS :: privilege_t where
  "PRIV_STMT_SHOW_RELAYLOG_EVENTS = SLAVE_MONITOR_ACL"

definition PRIV_STMT_BINLOG :: privilege_t where
  "PRIV_STMT_BINLOG = BINLOG_REPLAY_ACL OR SUPER_ACL"

definition PRIV_SET_SYSTEM_SESSION_VAR_GTID_SEQ_NO :: privilege_t where
  "PRIV_SET_SYSTEM_SESSION_VAR_GTID_SEQ_NO = BINLOG_REPLAY_ACL OR SUPER_ACL"

definition PRIV_SET_SYSTEM_SESSION_VAR_PSEUDO_THREAD_ID :: privilege_t where
  "PRIV_SET_SYSTEM_SESSION_VAR_PSEUDO_THREAD_ID = BINLOG_REPLAY_ACL OR SUPER_ACL"

definition PRIV_SET_SYSTEM_SESSION_VAR_SERVER_ID :: privilege_t where
  "PRIV_SET_SYSTEM_SESSION_VAR_SERVER_ID = BINLOG_REPLAY_ACL OR SUPER_ACL"

definition PRIV_SET_SYSTEM_SESSION_VAR_GTID_DOMAIN_ID :: privilege_t where
  "PRIV_SET_SYSTEM_SESSION_VAR_GTID_DOMAIN_ID = BINLOG_REPLAY_ACL OR SUPER_ACL"

definition PRIV_SET_SYSTEM_GLOBAL_VAR_REPLICATE_EVENTS_MARKED_FOR_SKIP :: privilege_t where
  "PRIV_SET_SYSTEM_GLOBAL_VAR_REPLICATE_EVENTS_MARKED_FOR_SKIP = REPL_SLAVE_ADMIN_ACL OR SUPER_ACL"

definition PRIV_SET_SYSTEM_GLOBAL_VAR_REPLICATE_DO_DB :: privilege_t where
  "PRIV_SET_SYSTEM_GLOBAL_VAR_REPLICATE_DO_DB = REPL_SLAVE_ADMIN_ACL OR SUPER_ACL"

definition PRIV_SET_SYSTEM_GLOBAL_VAR_REPLICATE_DO_TABLE :: privilege_t where
  "PRIV_SET_SYSTEM_GLOBAL_VAR_REPLICATE_DO_TABLE = REPL_SLAVE_ADMIN_ACL OR SUPER_ACL"

definition PRIV_SET_SYSTEM_GLOBAL_VAR_REPLICATE_IGNORE_DB :: privilege_t where
  "PRIV_SET_SYSTEM_GLOBAL_VAR_REPLICATE_IGNORE_DB = REPL_SLAVE_ADMIN_ACL OR SUPER_ACL"

definition PRIV_SET_SYSTEM_GLOBAL_VAR_REPLICATE_IGNORE_TABLE :: privilege_t where
  "PRIV_SET_SYSTEM_GLOBAL_VAR_REPLICATE_IGNORE_TABLE = REPL_SLAVE_ADMIN_ACL OR SUPER_ACL"

definition PRIV_SET_SYSTEM_GLOBAL_VAR_REPLICATE_WILD_DO_TABLE :: privilege_t where
  "PRIV_SET_SYSTEM_GLOBAL_VAR_REPLICATE_WILD_DO_TABLE = REPL_SLAVE_ADMIN_ACL OR SUPER_ACL"

definition PRIV_SET_SYSTEM_GLOBAL_VAR_REPLICATE_WILD_IGNORE_TABLE :: privilege_t where
  "PRIV_SET_SYSTEM_GLOBAL_VAR_REPLICATE_WILD_IGNORE_TABLE = REPL_SLAVE_ADMIN_ACL OR SUPER_ACL"

definition PRIV_SET_SYSTEM_GLOBAL_VAR_READ_BINLOG_SPEED_LIMIT :: privilege_t where
  "PRIV_SET_SYSTEM_GLOBAL_VAR_READ_BINLOG_SPEED_LIMIT = REPL_SLAVE_ADMIN_ACL OR SUPER_ACL"

definition PRIV_SET_SYSTEM_GLOBAL_VAR_SLAVE_COMPRESSED_PROTOCOL :: privilege_t where
  "PRIV_SET_SYSTEM_GLOBAL_VAR_SLAVE_COMPRESSED_PROTOCOL = REPL_SLAVE_ADMIN_ACL OR SUPER_ACL"

definition PRIV_SET_SYSTEM_GLOBAL_VAR_SLAVE_DDL_EXEC_MODE :: privilege_t where
  "PRIV_SET_SYSTEM_GLOBAL_VAR_SLAVE_DDL_EXEC_MODE = REPL_SLAVE_ADMIN_ACL OR SUPER_ACL"

definition PRIV_SET_SYSTEM_GLOBAL_VAR_SLAVE_DOMAIN_PARALLEL_THREADS :: privilege_t where
  "PRIV_SET_SYSTEM_GLOBAL_VAR_SLAVE_DOMAIN_PARALLEL_THREADS = REPL_SLAVE_ADMIN_ACL OR SUPER_ACL"

definition PRIV_SET_SYSTEM_GLOBAL_VAR_SLAVE_EXEC_MODE :: privilege_t where
  "PRIV_SET_SYSTEM_GLOBAL_VAR_SLAVE_EXEC_MODE = REPL_SLAVE_ADMIN_ACL OR SUPER_ACL"

definition PRIV_SET_SYSTEM_GLOBAL_VAR_SLAVE_MAX_ALLOWED_PACKET :: privilege_t where
  "PRIV_SET_SYSTEM_GLOBAL_VAR_SLAVE_MAX_ALLOWED_PACKET = REPL_SLAVE_ADMIN_ACL OR SUPER_ACL"

definition PRIV_SET_SYSTEM_GLOBAL_VAR_SLAVE_NET_TIMEOUT :: privilege_t where
  "PRIV_SET_SYSTEM_GLOBAL_VAR_SLAVE_NET_TIMEOUT = REPL_SLAVE_ADMIN_ACL OR SUPER_ACL"

definition PRIV_SET_SYSTEM_GLOBAL_VAR_SLAVE_PARALLEL_MAX_QUEUED :: privilege_t where
  "PRIV_SET_SYSTEM_GLOBAL_VAR_SLAVE_PARALLEL_MAX_QUEUED = REPL_SLAVE_ADMIN_ACL OR SUPER_ACL"

definition PRIV_SET_SYSTEM_GLOBAL_VAR_SLAVE_PARALLEL_MODE :: privilege_t where
  "PRIV_SET_SYSTEM_GLOBAL_VAR_SLAVE_PARALLEL_MODE = REPL_SLAVE_ADMIN_ACL OR SUPER_ACL"

definition PRIV_SET_SYSTEM_GLOBAL_VAR_SLAVE_PARALLEL_THREADS :: privilege_t where
  "PRIV_SET_SYSTEM_GLOBAL_VAR_SLAVE_PARALLEL_THREADS = REPL_SLAVE_ADMIN_ACL OR SUPER_ACL"

definition PRIV_SET_SYSTEM_GLOBAL_VAR_SLAVE_PARALLEL_WORKERS :: privilege_t where
  "PRIV_SET_SYSTEM_GLOBAL_VAR_SLAVE_PARALLEL_WORKERS = REPL_SLAVE_ADMIN_ACL OR SUPER_ACL"

definition PRIV_SET_SYSTEM_GLOBAL_VAR_SLAVE_RUN_TRIGGERS_FOR_RBR :: privilege_t where
  "PRIV_SET_SYSTEM_GLOBAL_VAR_SLAVE_RUN_TRIGGERS_FOR_RBR = REPL_SLAVE_ADMIN_ACL OR SUPER_ACL"

definition PRIV_SET_SYSTEM_GLOBAL_VAR_SLAVE_SQL_VERIFY_CHECKSUM :: privilege_t where
  "PRIV_SET_SYSTEM_GLOBAL_VAR_SLAVE_SQL_VERIFY_CHECKSUM = REPL_SLAVE_ADMIN_ACL OR SUPER_ACL"

definition PRIV_SET_SYSTEM_GLOBAL_VAR_SLAVE_TRANSACTION_RETRY_INTERVAL :: privilege_t where
  "PRIV_SET_SYSTEM_GLOBAL_VAR_SLAVE_TRANSACTION_RETRY_INTERVAL = REPL_SLAVE_ADMIN_ACL OR SUPER_ACL"

definition PRIV_SET_SYSTEM_GLOBAL_VAR_SLAVE_TYPE_CONVERSIONS :: privilege_t where
  "PRIV_SET_SYSTEM_GLOBAL_VAR_SLAVE_TYPE_CONVERSIONS = REPL_SLAVE_ADMIN_ACL OR SUPER_ACL"

definition PRIV_SET_SYSTEM_GLOBAL_VAR_INIT_SLAVE :: privilege_t where
  "PRIV_SET_SYSTEM_GLOBAL_VAR_INIT_SLAVE = REPL_SLAVE_ADMIN_ACL OR SUPER_ACL"

definition PRIV_SET_SYSTEM_GLOBAL_VAR_RPL_SEMI_SYNC_SLAVE_ENABLED :: privilege_t where
  "PRIV_SET_SYSTEM_GLOBAL_VAR_RPL_SEMI_SYNC_SLAVE_ENABLED = REPL_SLAVE_ADMIN_ACL OR SUPER_ACL"

definition PRIV_SET_SYSTEM_GLOBAL_VAR_RPL_SEMI_SYNC_SLAVE_TRACE_LEVEL :: privilege_t where
  "PRIV_SET_SYSTEM_GLOBAL_VAR_RPL_SEMI_SYNC_SLAVE_TRACE_LEVEL = REPL_SLAVE_ADMIN_ACL OR SUPER_ACL"

definition PRIV_SET_SYSTEM_GLOBAL_VAR_RPL_SEMI_SYNC_SLAVE_DELAY_MASTER :: privilege_t where
  "PRIV_SET_SYSTEM_GLOBAL_VAR_RPL_SEMI_SYNC_SLAVE_DELAY_MASTER = REPL_SLAVE_ADMIN_ACL OR SUPER_ACL"

definition PRIV_SET_SYSTEM_GLOBAL_VAR_RPL_SEMI_SYNC_SLAVE_KILL_CONN_TIMEOUT :: privilege_t where
  "PRIV_SET_SYSTEM_GLOBAL_VAR_RPL_SEMI_SYNC_SLAVE_KILL_CONN_TIMEOUT = REPL_SLAVE_ADMIN_ACL OR SUPER_ACL"

definition PRIV_SET_SYSTEM_GLOBAL_VAR_RELAY_LOG_PURGE :: privilege_t where
  "PRIV_SET_SYSTEM_GLOBAL_VAR_RELAY_LOG_PURGE = REPL_SLAVE_ADMIN_ACL OR SUPER_ACL"

definition PRIV_SET_SYSTEM_GLOBAL_VAR_RELAY_LOG_RECOVERY :: privilege_t where
  "PRIV_SET_SYSTEM_GLOBAL_VAR_RELAY_LOG_RECOVERY = REPL_SLAVE_ADMIN_ACL OR SUPER_ACL"

definition PRIV_SET_SYSTEM_GLOBAL_VAR_SYNC_MASTER_INFO :: privilege_t where
  "PRIV_SET_SYSTEM_GLOBAL_VAR_SYNC_MASTER_INFO = REPL_SLAVE_ADMIN_ACL OR SUPER_ACL"

definition PRIV_SET_SYSTEM_GLOBAL_VAR_SYNC_RELAY_LOG :: privilege_t where
  "PRIV_SET_SYSTEM_GLOBAL_VAR_SYNC_RELAY_LOG = REPL_SLAVE_ADMIN_ACL OR SUPER_ACL"

definition PRIV_SET_SYSTEM_GLOBAL_VAR_SYNC_RELAY_LOG_INFO :: privilege_t where
  "PRIV_SET_SYSTEM_GLOBAL_VAR_SYNC_RELAY_LOG_INFO = REPL_SLAVE_ADMIN_ACL OR SUPER_ACL"

definition PRIV_SET_SYSTEM_GLOBAL_VAR_GTID_CLEANUP_BATCH_SIZE :: privilege_t where
  "PRIV_SET_SYSTEM_GLOBAL_VAR_GTID_CLEANUP_BATCH_SIZE = REPL_SLAVE_ADMIN_ACL OR SUPER_ACL"

definition PRIV_SET_SYSTEM_GLOBAL_VAR_GTID_IGNORE_DUPLICATES :: privilege_t where
  "PRIV_SET_SYSTEM_GLOBAL_VAR_GTID_IGNORE_DUPLICATES = REPL_SLAVE_ADMIN_ACL OR SUPER_ACL"

definition PRIV_SET_SYSTEM_GLOBAL_VAR_GTID_POS_AUTO_ENGINES :: privilege_t where
  "PRIV_SET_SYSTEM_GLOBAL_VAR_GTID_POS_AUTO_ENGINES = REPL_SLAVE_ADMIN_ACL OR SUPER_ACL"

definition PRIV_SET_SYSTEM_GLOBAL_VAR_GTID_SLAVE_POS :: privilege_t where
  "PRIV_SET_SYSTEM_GLOBAL_VAR_GTID_SLAVE_POS = REPL_SLAVE_ADMIN_ACL OR SUPER_ACL"

definition PRIV_SET_SYSTEM_GLOBAL_VAR_GTID_STRICT_MODE :: privilege_t where
  "PRIV_SET_SYSTEM_GLOBAL_VAR_GTID_STRICT_MODE = REPL_SLAVE_ADMIN_ACL OR SUPER_ACL"

definition PRIV_STMT_CREATE_SERVER :: privilege_t where
  "PRIV_STMT_CREATE_SERVER = FEDERATED_ADMIN_ACL OR SUPER_ACL"

definition PRIV_STMT_ALTER_SERVER :: privilege_t where
  "PRIV_STMT_ALTER_SERVER = FEDERATED_ADMIN_ACL OR SUPER_ACL"

definition PRIV_STMT_DROP_SERVER :: privilege_t where
  "PRIV_STMT_DROP_SERVER = FEDERATED_ADMIN_ACL OR SUPER_ACL"

definition PRIV_COM_PROCESS_INFO :: privilege_t where
  "PRIV_COM_PROCESS_INFO = PROCESS_ACL"

definition PRIV_STMT_SHOW_EXPLAIN :: privilege_t where
  "PRIV_STMT_SHOW_EXPLAIN = PROCESS_ACL"

definition PRIV_STMT_SHOW_ENGINE_STATUS :: privilege_t where
  "PRIV_STMT_SHOW_ENGINE_STATUS = PROCESS_ACL"

definition PRIV_STMT_SHOW_ENGINE_MUTEX :: privilege_t where
  "PRIV_STMT_SHOW_ENGINE_MUTEX = PROCESS_ACL"

definition PRIV_STMT_SHOW_PROCESSLIST :: privilege_t where
  "PRIV_STMT_SHOW_PROCESSLIST = PROCESS_ACL"

text \<open>The actions open to holders of \<open>SUPER\<close>, and the others.\<close>

definition super_actions :: "privilege_t list" where
  "super_actions =
    [PRIV_DEFINER_CLAUSE, PRIV_REVEAL_MISSING_DEFINER,
     PRIV_DES_DECRYPT_ONE_ARG, PRIV_LOG_BIN_TRUSTED_SP_CREATOR,
     PRIV_DEBUG, PRIV_SET_GLOBAL_SYSTEM_VARIABLE,
     PRIV_SET_RESTRICTED_SESSION_SYSTEM_VARIABLE, PRIV_SET_SYSTEM_VAR_BINLOG_FORMAT,
     PRIV_SET_SYSTEM_VAR_BINLOG_DIRECT_NON_TRANSACTIONAL_UPDATES, PRIV_SET_SYSTEM_VAR_BINLOG_ANNOTATE_ROW_EVENTS,
     PRIV_SET_SYSTEM_VAR_BINLOG_ROW_IMAGE, PRIV_SET_SYSTEM_VAR_SQL_LOG_BIN,
     PRIV_SET_SYSTEM_GLOBAL_VAR_BINLOG_CACHE_SIZE, PRIV_SET_SYSTEM_GLOBAL_VAR_BINLOG_FILE_CACHE_SIZE,
     PRIV_SET_SYSTEM_GLOBAL_VAR_BINLOG_STMT_CACHE_SIZE, PRIV_SET_SYSTEM_GLOBAL_VAR_BINLOG_COMMIT_WAIT_COUNT,
     PRIV_SET_SYSTEM_GLOBAL_VAR_BINLOG_COMMIT_WAIT_USEC, PRIV_SET_SYSTEM_GLOBAL_VAR_BINLOG_ROW_METADATA,
     PRIV_SET_SYSTEM_GLOBAL_VAR_EXPIRE_LOGS_DAYS, PRIV_SET_SYSTEM_GLOBAL_VAR_LOG_BIN_COMPRESS,
     PRIV_SET_SYSTEM_GLOBAL_VAR_LOG_BIN_COMPRESS_MIN_LEN, PRIV_SET_SYSTEM_GLOBAL_VAR_LOG_BIN_TRUST_FUNCTION_CREATORS,
     PRIV_SET_SYSTEM_GLOBAL_VAR_MAX_BINLOG_CACHE_SIZE, PRIV_SET_SYSTEM_GLOBAL_VAR_MAX_BINLOG_STMT_CACHE_SIZE,
     PRIV_SET_SYSTEM_GLOBAL_VAR_MAX_BINLOG_SIZE, PRIV_SET_SYSTEM_GLOBAL_VAR_SYNC_BINLOG,
     PRIV_IGNORE_READ_ONLY, PRIV_SET_SYSTEM_GLOBAL_VAR_READ_ONLY,
     PRIV_IGNORE_INIT_CONNECT, PRIV_IGNORE_MAX_USER_CONNECTIONS,
     PRIV_IGNORE_MAX_CONNECTIONS, PRIV_IGNORE_MAX_PASSWORD_ERRORS,
     PRIV_KILL_OTHER_USER_PROCESS, PRIV_SET_SYSTEM_GLOBAL_VAR_CONNECT_TIMEOUT,
     PRIV_SET_SYSTEM_GLOBAL_VAR_DISCONNECT_ON_EXPIRED_PASSWORD, PRIV_SET_SYSTEM_GLOBAL_VAR_EXTRA_MAX_CONNECTIONS,
     PRIV_SET_SYSTEM_GLOBAL_VAR_INIT_CONNECT, PRIV_SET_SYSTEM_GLOBAL_VAR_MAX_CONNECTIONS,
     PRIV_SET_SYSTEM_GLOBAL_VAR_MAX_CONNECT_ERRORS, PRIV_SET_SYSTEM_GLOBAL_VAR_MAX_PASSWORD_ERRORS,
     PRIV_SET_SYSTEM_GLOBAL_VAR_PROXY_PROTOCOL_NETWORKS, PRIV_SET_SYSTEM_GLOBAL_VAR_SECURE_AUTH,
     PRIV_SET_SYSTEM_GLOBAL_VAR_SLOW_LAUNCH_TIME, PRIV_SET_SYSTEM_GLOBAL_VAR_THREAD_POOL,
     PRIV_STMT_SHOW_BINLOG_STATUS, PRIV_STMT_SHOW_BINARY_LOGS,
     PRIV_STMT_PURGE_BINLOG, PRIV_SET_SYSTEM_GLOBAL_VAR_RPL_SEMI_SYNC_MASTER_ENABLED,
     PRIV_SET_SYSTEM_GLOBAL_VAR_RPL_SEMI_SYNC_MASTER_TIMEOUT, PRIV_SET_SYSTEM_GLOBAL_VAR_RPL_SEMI_SYNC_MASTER_WAIT_NO_SLAVE,
     PRIV_SET_SYSTEM_GLOBAL_VAR_RPL_SEMI_SYNC_MASTER_TRACE_LEVEL, PRIV_SET_SYSTEM_GLOBAL_VAR_RPL_SEMI_SYNC_MASTER_WAIT_POINT,
     PRIV_SET_SYSTEM_GLOBAL_VAR_MASTER_VERIFY_CHECKSUM, PRIV_SET_SYSTEM_GLOBAL_VAR_GTID_BINLOG_STATE,
     PRIV_SET_SYSTEM_GLOBAL_VAR_SERVER_ID, PRIV_SET_SYSTEM_GLOBAL_VAR_GTID_DOMAIN_ID,
     PRIV_STMT_START_SLAVE, PRIV_STMT_STOP_SLAVE,
     PRIV_STMT_CHANGE_MASTER, PRIV_STMT_SHOW_SLAVE_STATUS,
     PRIV_STMT_BINLOG, PRIV_SET_SYSTEM_SESSION_VAR_GTID_SEQ_NO,
     PRIV_SET_SYSTEM_SESSION_VAR_PSEUDO_THREAD_ID, PRIV_SET_SYSTEM_SESSION_VAR_SERVER_ID,
     PRIV_SET_SYSTEM_SESSION_VAR_GTID_DOMAIN_ID, PRIV_SET_SYSTEM_GLOBAL_VAR_REPLICATE_EVENTS_MARKED_FOR_SKIP,
     PRIV_SET_SYSTEM_GLOBAL_VAR_REPLICATE_DO_DB, PRIV_SET_SYSTEM_GLOBAL_VAR_REPLICATE_DO_TABLE,
     PRIV_SET_SYSTEM_GLOBAL_VAR_REPLICATE_IGNORE_DB, PRIV_SET_SYSTEM_GLOBAL_VAR_REPLICATE_IGNORE_TABLE,
     PRIV_SET_SYSTEM_GLOBAL_VAR_REPLICATE_WILD_DO_TABLE, PRIV_SET_SYSTEM_GLOBAL_VAR_REPLICATE_WILD_IGNORE_TABLE,
     PRIV_SET_SYSTEM_GLOBAL_VAR_READ_BINLOG_SPEED_LIMIT, PRIV_SET_SYSTEM_GLOBAL_VAR_SLAVE_COMPRESSED_PROTOCOL,
     PRIV_SET_SYSTEM_GLOBAL_VAR_SLAVE_DDL_EXEC_MODE, PRIV_SET_SYSTEM_GLOBAL_VAR_SLAVE_DOMAIN_PARALLEL_THREADS,
     PRIV_SET_SYSTEM_GLOBAL_VAR_SLAVE_EXEC_MODE, PRIV_SET_SYSTEM_GLOBAL_VAR_SLAVE_MAX_ALLOWED_PACKET,
     PRIV_SET_SYSTEM_GLOBAL_VAR_SLAVE_NET_TIMEOUT, PRIV_SET_SYSTEM_GLOBAL_VAR_SLAVE_PARALLEL_MAX_QUEUED,
     PRIV_SET_SYSTEM_GLOBAL_VAR_SLAVE_PARALLEL_MODE, PRIV_SET_SYSTEM_GLOBAL_VAR_SLAVE_PARALLEL_THREADS,
     PRIV_SET_SYSTEM_GLOBAL_VAR_SLAVE_PARALLEL_WORKERS, PRIV_SET_SYSTEM_GLOBAL_VAR_SLAVE_RUN_TRIGGERS_FOR_RBR,
     PRIV_SET_SYSTEM_GLOBAL_VAR_SLAVE_SQL_VERIFY_CHECKSUM, PRIV_SET_SYSTEM_GLOBAL_VAR_SLAVE_TRANSACTION_RETRY_INTERVAL,
     PRIV_SET_SYSTEM_GLOBAL_VAR_SLAVE_TYPE_CONVERSIONS, PRIV_SET_SYSTEM_GLOBAL_VAR_INIT_SLAVE,
     PRIV_SET_SYSTEM_GLOBAL_VAR_RPL_SEMI_SYNC_SLAVE_ENABLED, PRIV_SET_SYSTEM_GLOBAL_VAR_RPL_SEMI_SYNC_SLAVE_TRACE_LEVEL,
     PRIV_SET_SYSTEM_GLOBAL_VAR_RPL_SEMI_SYNC_SLAVE_DELAY_MASTER, PRIV_SET_SYSTEM_GLOBAL_VAR_RPL_SEMI_SYNC_SLAVE_KILL_CONN_TIMEOUT,
     PRIV_SET_SYSTEM_GLOBAL_VAR_RELAY_LOG_PURGE, PRIV_SET_SYSTEM_GLOBAL_VAR_RELAY_LOG_RECOVERY,
     PRIV_SET_SYSTEM_GLOBAL_VAR_SYNC_MASTER_INFO, PRIV_SET_SYSTEM_GLOBAL_VAR_SYNC_RELAY_LOG,
     PRIV_SET_SYSTEM_GLOBAL_VAR_SYNC_RELAY_LOG_INFO, PRIV_SET_SYSTEM_GLOBAL_VAR_GTID_CLEANUP_BATCH_SIZE,
     PRIV_SET_SYSTEM_GLOBAL_VAR_GTID_IGNORE_DUPLICATES, PRIV_SET_SYSTEM_GLOBAL_VAR_GTID_POS_AUTO_ENGINES,
     PRIV_SET_SYSTEM_GLOBAL_VAR_GTID_SLAVE_POS, PRIV_SET_SYSTEM_GLOBAL_VAR_GTID_STRICT_MODE,
     PRIV_STMT_CREATE_SERVER, PRIV_STMT_ALTER_SERVER,
     PRIV_STMT_DROP_SERVER]"

text \<open>The actions \<open>SUPER\<close> alone does not open.\<close>

definition other_actions :: "privilege_t list" where
  "other_actions =
    [PRIV_LOCK_TABLES, PRIV_STMT_SHOW_BINLOG_EVENTS,
     PRIV_COM_REGISTER_SLAVE, PRIV_COM_BINLOG_DUMP,
     PRIV_STMT_SHOW_SLAVE_HOSTS, PRIV_STMT_SHOW_RELAYLOG_EVENTS,
     PRIV_COM_PROCESS_INFO, PRIV_STMT_SHOW_EXPLAIN,
     PRIV_STMT_SHOW_ENGINE_STATUS, PRIV_STMT_SHOW_ENGINE_MUTEX,
     PRIV_STMT_SHOW_PROCESSLIST]"

lemmas action_priv_defs [action_defs] =
  PRIV_LOCK_TABLES_def
  PRIV_DEFINER_CLAUSE_def
  PRIV_REVEAL_MISSING_DEFINER_def
  PRIV_DES_DECRYPT_ONE_ARG_def
  PRIV_LOG_BIN_TRUSTED_SP_CREATOR_def
  PRIV_DEBUG_def
  PRIV_SET_GLOBAL_SYSTEM_VARIABLE_def
  PRIV_SET_RESTRICTED_SESSION_SYSTEM_VARIABLE_def
  PRIV_SET_SYSTEM_VAR_BINLOG_FORMAT_def
  PRIV_SET_SYSTEM_VAR_BINLOG_DIRECT_NON_TRANSACTIONAL_UPDATES_def
  PRIV_SET_SYSTEM_VAR_BINLOG_ANNOTATE_ROW_EVENTS_def
  PRIV_SET_SYSTEM_VAR_BINLOG_ROW_IMAGE_def
  PRIV_SET_SYSTEM_VAR_SQL_LOG_BIN_def
  PRIV_SET_SYSTEM_GLOBAL_VAR_BINLOG_CACHE_SIZE_def
  PRIV_SET_SYSTEM_GLOBAL_VAR_BINLOG_FILE_CACHE_SIZE_def
  PRIV_SET_SYSTEM_GLOBAL_VAR_BINLOG_STMT_CACHE_SIZE_def
  PRIV_SET_SYSTEM_GLOBAL_VAR_BINLOG_COMMIT_WAIT_COUNT_def
  PRIV_SET_SYSTEM_GLOBAL_VAR_BINLOG_COMMIT_WAIT_USEC_def
  PRIV_SET_SYSTEM_GLOBAL_VAR_BINLOG_ROW_METADATA_def
  PRIV_SET_SYSTEM_GLOBAL_VAR_EXPIRE_LOGS_DAYS_def
  PRIV_SET_SYSTEM_GLOBAL_VAR_LOG_BIN_COMPRESS_def
  PRIV_SET_SYSTEM_GLOBAL_VAR_LOG_BIN_COMPRESS_MIN_LEN_def
  PRIV_SET_SYSTEM_GLOBAL_VAR_LOG_BIN_TRUST_FUNCTION_CREATORS_def
  PRIV_SET_SYSTEM_GLOBAL_VAR_MAX_BINLOG_CACHE_SIZE_def
  PRIV_SET_SYSTEM_GLOBAL_VAR_MAX_BINLOG_STMT_CACHE_SIZE_def
  PRIV_SET_SYSTEM_GLOBAL_VAR_MAX_BINLOG_SIZE_def
  PRIV_SET_SYSTEM_GLOBAL_VAR_SYNC_BINLOG_def
  PRIV_IGNORE_READ_ONLY_def
  PRIV_SET_SYSTEM_GLOBAL_VAR_READ_ONLY_def
  PRIV_IGNORE_INIT_CONNECT_def
  PRIV_IGNORE_MAX_USER_CONNECTIONS_def
  PRIV_IGNORE_MAX_CONNECTIONS_def
  PRIV_IGNORE_MAX_PASSWORD_ERRORS_def
  PRIV_KILL_OTHER_USER_PROCESS_def
  PRIV_SET_SYSTEM_GLOBAL_VAR_CONNECT_TIMEOUT_def
  PRIV_SET_SYSTEM_GLOBAL_VAR_DISCONNECT_ON_EXPIRED_PASSWORD_def
  PRIV_SET_SYSTEM_GLOBAL_VAR_EXTRA_MAX_CONNECTIONS_def
  PRIV_SET_SYSTEM_GLOBAL_VAR_INIT_CONNECT_def
  PRIV_SET_SYSTEM_GLOBAL_VAR_MAX_CONNECTIONS_def
  PRIV_SET_SYSTEM_GLOBAL_VAR_MAX_CONNECT_ERRORS_def
  PRIV_SET_SYSTEM_GLOBAL_VAR_MAX_PASSWORD_ERRORS_def
  PRIV_SET_SYSTEM_GLOBAL_VAR_PROXY_PROTOCOL_NETWORKS_def
  PRIV_SET_SYSTEM_GLOBAL_VAR_SECURE_AUTH_def
  PRIV_SET_SYSTEM_GLOBAL_VAR_SLOW_LAUNCH_TIME_def
  PRIV_SET_SYSTEM_GLOBAL_VAR_THREAD_POOL_def
  PRIV_STMT_SHOW_BINLOG_STATUS_def
  PRIV_STMT_SHOW_BINARY_LOGS_def
  PRIV_STMT_PURGE_BINLOG_def
  PRIV_STMT_SHOW_BINLOG_EVENTS_def
  PRIV_COM_REGISTER_SLAVE_def
  PRIV_COM_BINLOG_DUMP_def
  PRIV_STMT_SHOW_SLAVE_HOSTS_def
  PRIV_SET_SYSTEM_GLOBAL_VAR_RPL_SEMI_SYNC_MASTER_ENABLED_def
  PRIV_SET_SYSTEM_GLOBAL_VAR_RPL_SEMI_SYNC_MASTER_TIMEOUT_def
  PRIV_SET_SYSTEM_GLOBAL_VAR_RPL_SEMI_SYNC_MASTER_WAIT_NO_SLAVE_def
  PRIV_SET_SYSTEM_GLOBAL_VAR_RPL_SEMI_SYNC_MASTER_TRACE_LEVEL_def
  PRIV_SET_SYSTEM_GLOBAL_VAR_RPL_SEMI_SYNC_MASTER_WAIT_POINT_def
  PRIV_SET_SYSTEM_GLOBAL_VAR_MASTER_VERIFY_CHECKSUM_def
  PRIV_SET_SYSTEM_GLOBAL_VAR_GTID_BINLOG_STATE_def
  PRIV_SET_SYSTEM_GLOBAL_VAR_SERVER_ID_def
  PRIV_SET_SYSTEM_GLOBAL_VAR_GTID_DOMAIN_ID_def
  PRIV_STMT_START_SLAVE_def
  PRIV_STMT_STOP_SLAVE_def
  PRIV_STMT_CHANGE_MASTER_def
  PRIV_STMT_SHOW_SLAVE_STATUS_def
  PRIV_STMT_SHOW_RELAYLOG_EVENTS_def
  PRIV_STMT_BINLOG_def
  PRIV_SET_SYSTEM_SESSION_VAR_GTID_SEQ_NO_def
  PRIV_SET_SYSTEM_SESSION_VAR_PSEUDO_THREAD_ID_def
  PRIV_SET_SYSTEM_SESSION_VAR_SERVER_ID_def
  PRIV_SET_SYSTEM_SESSION_VAR_GTID_DOMAIN_ID_def
  PRIV_SET_SYSTEM_GLOBAL_VAR_REPLICATE_EVENTS_MARKED_FOR_SKIP_def
  PRIV_SET_SYSTEM_GLOBAL_VAR_REPLICATE_DO_DB_def
  PRIV_SET_SYSTEM_GLOBAL_VAR_REPLICATE_DO_TABLE_def
  PRIV_SET_SYSTEM_GLOBAL_VAR_REPLICATE_IGNORE_DB_def
  PRIV_SET_SYSTEM_GLOBAL_VAR_REPLICATE_IGNORE_TABLE_def
  PRIV_SET_SYSTEM_GLOBAL_VAR_REPLICATE_WILD_DO_TABLE_def
  PRIV_SET_SYSTEM_GLOBAL_VAR_REPLICATE_WILD_IGNORE_TABLE_def
  PRIV_SET_SYSTEM_GLOBAL_VAR_READ_BINLOG_SPEED_LIMIT_def
  PRIV_SET_SYSTEM_GLOBAL_VAR_SLAVE_COMPRESSED_PROTOCOL_def
  PRIV_SET_SYSTEM_GLOBAL_VAR_SLAVE_DDL_EXEC_MODE_def
  PRIV_SET_SYSTEM_GLOBAL_VAR_SLAVE_DOMAIN_PARALLEL_THREADS_def
  PRIV_SET_SYSTEM_GLOBAL_VAR_SLAVE_EXEC_MODE_def
  PRIV_SET_SYSTEM_GLOBAL_VAR_SLAVE_MAX_ALLOWED_PACKET_def
  PRIV_SET_SYSTEM_GLOBAL_VAR_SLAVE_NET_TIMEOUT_def
  PRIV_SET_SYSTEM_GLOBAL_VAR_SLAVE_PARALLEL_MAX_QUEUED_def
  PRIV_SET_SYSTEM_GLOBAL_VAR_SLAVE_PARALLEL_MODE_def
  PRIV_SET_SYSTEM_GLOBAL_VAR_SLAVE_PARALLEL_THREADS_def
  PRIV_SET_SYSTEM_GLOBAL_VAR_SLAVE_PARALLEL_WORKERS_def
  PRIV_SET_SYSTEM_GLOBAL_VAR_SLAVE_RUN_TRIGGERS_FOR_RBR_def
  PRIV_SET_SYSTEM_GLOBAL_VAR_SLAVE_SQL_VERIFY_CHECKSUM_def
  PRIV_SET_SYSTEM_GLOBAL_VAR_SLAVE_TRANSACTION_RETRY_INTERVAL_def
  PRIV_SET_SYSTEM_GLOBAL_VAR_SLAVE_TYPE_CONVERSIONS_def
  PRIV_SET_SYSTEM_GLOBAL_VAR_INIT_SLAVE_def
  PRIV_SET_SYSTEM_GLOBAL_VAR_RPL_SEMI_SYNC_SLAVE_ENABLED_def
  PRIV_SET_SYSTEM_GLOBAL_VAR_RPL_SEMI_SYNC_SLAVE_TRACE_LEVEL_def
  PRIV_SET_SYSTEM_GLOBAL_VAR_RPL_SEMI_SYNC_SLAVE_DELAY_MASTER_def
  PRIV_SET_SYSTEM_GLOBAL_VAR_RPL_SEMI_SYNC_SLAVE_KILL_CONN_TIMEOUT_def
  PRIV_SET_SYSTEM_GLOBAL_VAR_RELAY_LOG_PURGE_def
  PRIV_SET_SYSTEM_GLOBAL_VAR_RELAY_LOG_RECOVERY_def
  PRIV_SET_SYSTEM_GLOBAL_VAR_SYNC_MASTER_INFO_def
  PRIV_SET_SYSTEM_GLOBAL_VAR_SYNC_RELAY_LOG_def
  PRIV_SET_SYSTEM_GLOBAL_VAR_SYNC_RELAY_LOG_INFO_def
  PRIV_SET_SYSTEM_GLOBAL_VAR_GTID_CLEANUP_BATCH_SIZE_def
  PRIV_SET_SYSTEM_GLOBAL_VAR_GTID_IGNORE_DUPLICATES_def
  PRIV_SET_SYSTEM_GLOBAL_VAR_GTID_POS_AUTO_ENGINES_def
  PRIV_SET_SYSTEM_GLOBAL_VAR_GTID_SLAVE_POS_def
  PRIV_SET_SYSTEM_GLOBAL_VAR_GTID_STRICT_MODE_def
  PRIV_STMT_CREATE_SERVER_def
  PRIV_STMT_ALTER_SERVER_def
  PRIV_STMT_DROP_SERVER_def
  PRIV_COM_PROCESS_INFO_def
  PRIV_STMT_SHOW_EXPLAIN_def
  PRIV_STMT_SHOW_ENGINE_STATUS_def
  PRIV_STMT_SHOW_ENGINE_MUTEX_def
  PRIV_STMT_SHOW_PROCESSLIST_def

section \<open>Access checks\<close>

definition opens :: "privilege_t \<Rightarrow> privilege_t \<Rightarrow> bool" where
  "opens access action_priv \<longleftrightarrow> access AND action_priv \<noteq> 0"

lemma opens_iff: "opens a p \<longleftrightarrow> (\<exists>n. bit a n \<and> bit p n)"
  unfolding opens_def word_nonzero_bit using bit_imp_le_length [of a] by (auto simp: bits_simps)

lemma opens_or: "opens a (p OR q) \<longleftrightarrow> opens a p \<or> opens a q"
  by (auto simp: opens_iff bits_simps)

lemma opens_acl: "opens SUPER_ACL p \<longleftrightarrow> bit p 15"
  by (simp add: opens_iff acl_bits)

section \<open>Properties\<close>

text \<open>A user who holds \<open>SUPER\<close> passes the check of every action that was bound to \<open>SUPER\<close> before the
  privileges were split up; \<open>SUPER\<close> alone opens none of the other actions; and every action is bound
  to privileges the server knows, so each can be granted.\<close>

theorem super_user_actions:
  assumes "opens access SUPER_ACL"
  shows "list_all (opens access) super_actions
    \<and> list_all (\<lambda>p. \<not> opens SUPER_ACL p) other_actions
    \<and> list_all (\<lambda>p. within p ALL_KNOWN_ACL \<and> p \<noteq> NO_ACL) (super_actions @ other_actions)"
proof (intro conjI)
  show "list_all (opens access) super_actions"
    using assms by (simp add: super_actions_def action_defs opens_or)
  show "list_all (\<lambda>p. \<not> opens SUPER_ACL p) other_actions"
    by (simp add: other_actions_def action_defs opens_acl bits_simps acl_bits)
  have nonzero: "p \<noteq> NO_ACL" if "bit p n" for p n using that by (auto simp: NO_ACL_def)
  have within_or: "within (p OR q) m \<longleftrightarrow> within p m \<and> within q m" for p q m by (auto simp: within_iff bits_simps)
  have nonzero_or: "(p OR q \<noteq> NO_ACL) \<longleftrightarrow> p \<noteq> NO_ACL \<or> q \<noteq> NO_ACL" for p q by (auto simp: NO_ACL_def or_eq_0_iff)
  have single: "within SUPER_ACL ALL_KNOWN_ACL" "within BINLOG_ADMIN_ACL ALL_KNOWN_ACL" "within SET_USER_ACL ALL_KNOWN_ACL"
    "within READ_ONLY_ADMIN_ACL ALL_KNOWN_ACL" "within CONNECTION_ADMIN_ACL ALL_KNOWN_ACL" "within BINLOG_MONITOR_ACL ALL_KNOWN_ACL"
    "within REPL_MASTER_ADMIN_ACL ALL_KNOWN_ACL" "within REPL_SLAVE_ADMIN_ACL ALL_KNOWN_ACL" "within SLAVE_MONITOR_ACL ALL_KNOWN_ACL"
    "within BINLOG_REPLAY_ACL ALL_KNOWN_ACL" "within FEDERATED_ADMIN_ACL ALL_KNOWN_ACL" "within PROCESS_ACL ALL_KNOWN_ACL"
    "within REPL_SLAVE_ACL ALL_KNOWN_ACL" "within SELECT_ACL ALL_KNOWN_ACL" "within LOCK_TABLES_ACL ALL_KNOWN_ACL"
    unfolding all_known_acl within_iff acl_bits bit_mask_word by simp_all
  have some: "SUPER_ACL \<noteq> NO_ACL" "BINLOG_MONITOR_ACL \<noteq> NO_ACL" "REPL_MASTER_ADMIN_ACL \<noteq> NO_ACL" "SLAVE_MONITOR_ACL \<noteq> NO_ACL"
    "PROCESS_ACL \<noteq> NO_ACL" "REPL_SLAVE_ACL \<noteq> NO_ACL" "SELECT_ACL \<noteq> NO_ACL"
    by (rule nonzero, simp add: acl_bits)+
  show "list_all (\<lambda>p. within p ALL_KNOWN_ACL \<and> p \<noteq> NO_ACL) (super_actions @ other_actions)"
    by (simp add: super_actions_def other_actions_def action_defs single some within_or nonzero_or)
qed

theorem super_user_actions_witness:
  "list_all (opens (SELECT_ACL OR SUPER_ACL)) super_actions"
  using super_user_actions [of "SELECT_ACL OR SUPER_ACL"] by (simp add: opens_iff bits_simps acl_bits)

end
