(* ===== verification/Sql_List.thy ===== *)
theory Sql_List imports Prelude "HOL-Library.Monad_Syntax" begin

text \<open>
  \<open>base_list\<close> and \<open>base_list_iterator\<close> of \<open>private/sql_list.h\<close>, the singly linked lists of the SQL layer.
  The classes work on shared nodes through pointers to \<open>next\<close> fields, so the model has an explicit
  store: nodes and list headers have addresses, \<open>node_ptr\<close> is a \<open>list_node *\<close>, \<open>next_loc\<close> the address of a
  \<open>list_node *\<close> variable (the \<open>first\<close> field of a list or the \<open>next\<close> field of a node). The result
  of an operation is \<open>None\<close> where the code would follow a null or dangling pointer. The typed
  wrappers \<open>List<T>\<close>, \<open>List_iterator<T>\<close> add casts only.

  \<open>new list_node\<close> takes its memory from an allocator outside the headers: its result, an
  unused address or failure, is a parameter of the operations that allocate.
\<close>

section \<open>Store\<close>

datatype node_ptr = Null | EndOfList | Node nat
datatype next_loc = FirstOf nat | NextOf node_ptr

record list_node =
  "next" :: node_ptr
  info :: nat

record base_list =
  first :: node_ptr
  last_ptr :: next_loc
  elements :: uint

record store =
  nodes :: "nat \<Rightarrow> list_node option"
  lists :: "nat \<Rightarrow> base_list option"
  end_of_list :: list_node

text \<open>A \<open>void *\<close> is a number, the null pointer 0. \<open>eol_node\<close> is what the constructor
  \<open>list_node()\<close> makes of \<open>end_of_list\<close>.\<close>

definition eol_node :: list_node where
  "eol_node = \<lparr>next = EndOfList, info = 0\<rparr>"

definition get_node :: "store \<Rightarrow> node_ptr \<Rightarrow> list_node option" where
  "get_node h p = (case p of Null \<Rightarrow> None | EndOfList \<Rightarrow> Some (end_of_list h) | Node a \<Rightarrow> nodes h a)"

definition put_node :: "store \<Rightarrow> node_ptr \<Rightarrow> list_node \<Rightarrow> store option" where
  "put_node h p n = (case p of Null \<Rightarrow> None | EndOfList \<Rightarrow> Some (h\<lparr>end_of_list := n\<rparr>)
     | Node a \<Rightarrow> if nodes h a = None then None else Some (h\<lparr>nodes := (nodes h)(a := Some n)\<rparr>))"

definition put_list :: "store \<Rightarrow> nat \<Rightarrow> base_list \<Rightarrow> store" where
  "put_list h i L = h\<lparr>lists := (lists h)(i := Some L)\<rparr>"

definition get_loc :: "store \<Rightarrow> next_loc \<Rightarrow> node_ptr option" where
  "get_loc h l = (case l of FirstOf i \<Rightarrow> map_option first (lists h i) | NextOf p \<Rightarrow> map_option next (get_node h p))"

definition put_loc :: "store \<Rightarrow> next_loc \<Rightarrow> node_ptr \<Rightarrow> store option" where
  "put_loc h l v = (case l of
       FirstOf i \<Rightarrow> do { L \<leftarrow> lists h i; Some (put_list h i (L\<lparr>first := v\<rparr>)) }
     | NextOf p \<Rightarrow> do { n \<leftarrow> get_node h p; put_node h p (n\<lparr>next := v\<rparr>) })"

text \<open>\<open>new list_node(info, next)\<close> at a given result of the allocator.\<close>

definition new_node :: "store \<Rightarrow> nat option \<Rightarrow> nat \<Rightarrow> node_ptr \<Rightarrow> node_ptr \<times> store" where
  "new_node h res dat nxt = (case res of None \<Rightarrow> (Null, h)
     | Some a \<Rightarrow> (Node a, h\<lparr>nodes := (nodes h)(a := Some \<lparr>next = nxt, info = dat\<rparr>)\<rparr>))"

section \<open>base_list\<close>

definition list_eq :: "store \<Rightarrow> nat \<Rightarrow> nat \<Rightarrow> bool option" where
  "list_eq h i j = do { L \<leftarrow> lists h i; R \<leftarrow> lists h j;
     Some (elements L = elements R \<and> first L = first R \<and> last_ptr L = last_ptr R) }"

definition list_assign :: "store \<Rightarrow> nat \<Rightarrow> nat \<Rightarrow> store option" where
  "list_assign h i j = do { R \<leftarrow> lists h j;
     Some (put_list h i \<lparr>first = first R, last_ptr = if elements R \<noteq> 0 then last_ptr R else FirstOf i, elements = elements R\<rparr>) }"

definition list_empty :: "store \<Rightarrow> nat \<Rightarrow> store" where
  "list_empty h i = put_list h i \<lparr>first = EndOfList, last_ptr = FirstOf i, elements = 0\<rparr>"

definition push_back :: "store \<Rightarrow> nat \<Rightarrow> nat option \<Rightarrow> nat \<Rightarrow> (bool \<times> store) option" where
  "push_back h i res dat = do {
     L \<leftarrow> lists h i;
     let (node, h0) = new_node h res dat EndOfList;
     h1 \<leftarrow> put_loc h0 (last_ptr L) node;
     if node \<noteq> Null
     then do { L1 \<leftarrow> lists h1 i; Some (False, put_list h1 i (L1\<lparr>last_ptr := NextOf node, elements := elements L1 + 1\<rparr>)) }
     else Some (True, h1) }"

definition push_front_impl :: "store \<Rightarrow> nat \<Rightarrow> node_ptr \<Rightarrow> (bool \<times> store) option" where
  "push_front_impl h i node = do {
     L \<leftarrow> lists h i;
     if node \<noteq> Null
     then Some (False, put_list h i \<lparr>first = node, last_ptr = if last_ptr L = FirstOf i then NextOf node else last_ptr L,
                                     elements = elements L + 1\<rparr>)
     else Some (True, h) }"

definition push_front :: "store \<Rightarrow> nat \<Rightarrow> nat option \<Rightarrow> nat \<Rightarrow> (bool \<times> store) option" where
  "push_front h i res dat = do {
     L \<leftarrow> lists h i;
     let (node, h0) = new_node h res dat (first L);
     push_front_impl h0 i node }"

text \<open>\<open>remove(prev)\<close>: \<open>delete\<close> of a \<open>Sql_alloc\<close> object returns no memory, the node stays readable.\<close>

definition list_remove :: "store \<Rightarrow> nat \<Rightarrow> next_loc \<Rightarrow> store option" where
  "list_remove h i prev = do {
     p \<leftarrow> get_loc h prev;
     n \<leftarrow> get_node h p;
     L \<leftarrow> lists h i;
     let L1 = L\<lparr>elements := elements L - 1\<rparr>;
     let L2 = (if elements L1 = 0 then L1\<lparr>last_ptr := FirstOf i\<rparr>
               else if last_ptr L1 = NextOf p then L1\<lparr>last_ptr := prev\<rparr> else L1);
     put_loc (put_list h i L2) prev (next n) }"

definition is_empty :: "store \<Rightarrow> nat \<Rightarrow> bool option" where
  "is_empty h i = do { L \<leftarrow> lists h i; Some (first L = EndOfList) }"

definition list_append :: "store \<Rightarrow> nat \<Rightarrow> nat \<Rightarrow> store option" where
  "list_append h i j = do {
     ej \<leftarrow> is_empty h j;
     ei \<leftarrow> is_empty h i;
     if ej then Some h
     else if ei then list_assign h i j
     else do {
       L \<leftarrow> lists h i; R \<leftarrow> lists h j;
       h1 \<leftarrow> put_loc h (last_ptr L) (first R);
       L1 \<leftarrow> lists h1 i; R1 \<leftarrow> lists h1 j;
       Some (put_list h1 i (L1\<lparr>last_ptr := last_ptr R1, elements := elements L1 + elements R1\<rparr>)) } }"

definition pop :: "store \<Rightarrow> nat \<Rightarrow> (nat \<times> store) option" where
  "pop h i = do {
     L \<leftarrow> lists h i;
     if first L = EndOfList then Some (0, h)
     else do {
       tmp \<leftarrow> get_node h (first L);
       let L1 = L\<lparr>first := next tmp, elements := elements L - 1\<rparr>;
       let L2 = (if elements L1 = 0 then L1\<lparr>last_ptr := FirstOf i\<rparr> else L1);
       Some (info tmp, put_list h i L2) } }"

text \<open>The loop of \<open>disjoin\<close> over the nodes; \<open>fuel\<close> bounds the number of steps, \<open>None\<close> with no fuel left.
  The last component tells whether the early return was taken.\<close>

fun disjoin_loop :: "nat \<Rightarrow> store \<Rightarrow> node_ptr \<Rightarrow> next_loc \<Rightarrow> node_ptr \<Rightarrow> uint \<Rightarrow> (next_loc \<times> uint \<times> bool) option" where
  "disjoin_loop 0 h list_first prev node cnt = None"
| "disjoin_loop (Suc fuel) h list_first prev node cnt =
     (if node \<noteq> EndOfList \<and> node \<noteq> list_first
      then do {
        n \<leftarrow> get_node h node;
        if next n = EndOfList then Some (NextOf node, cnt + 1, True)
        else disjoin_loop fuel h list_first (NextOf node) (next n) (cnt + 1) }
      else Some (prev, cnt, False))"

definition disjoin :: "nat \<Rightarrow> store \<Rightarrow> nat \<Rightarrow> nat \<Rightarrow> store option" where
  "disjoin fuel h i j = do {
     L \<leftarrow> lists h i; R \<leftarrow> lists h j;
     (prev, cnt, early) \<leftarrow> disjoin_loop fuel h (first R) (FirstOf i) (first L) 0;
     let h1 = put_list h i (L\<lparr>elements := cnt\<rparr>);
     if early then Some h1
     else do {
       h2 \<leftarrow> put_loc h1 prev EndOfList;
       L2 \<leftarrow> lists h2 i;
       Some (put_list h2 i (L2\<lparr>last_ptr := prev\<rparr>)) } }"

definition prepend :: "store \<Rightarrow> nat \<Rightarrow> nat \<Rightarrow> store option" where
  "prepend h i j = do {
     ej \<leftarrow> is_empty h j;
     ei \<leftarrow> is_empty h i;
     if ej then Some h
     else do {
       L \<leftarrow> lists h i; R \<leftarrow> lists h j;
       let h1 = (if ei then put_list h i (L\<lparr>last_ptr := last_ptr R\<rparr>) else h);
       h2 \<leftarrow> put_loc h1 (last_ptr R) (first L);
       L2 \<leftarrow> lists h2 i; R2 \<leftarrow> lists h2 j;
       Some (put_list h2 i (L2\<lparr>first := first R2, elements := elements L2 + elements R2\<rparr>)) } }"

definition swap :: "store \<Rightarrow> nat \<Rightarrow> nat \<Rightarrow> store option" where
  "swap h i j = do {
     L \<leftarrow> lists h i; R \<leftarrow> lists h j;
     let rhs_last = last_ptr R;
     let R1 = \<lparr>first = first L, last_ptr = (if last_ptr L = FirstOf i then FirstOf j else last_ptr L), elements = elements L\<rparr>;
     let L1 = \<lparr>first = first R, last_ptr = (if rhs_last = FirstOf j then FirstOf i else rhs_last), elements = elements R\<rparr>;
     Some (put_list (put_list h j R1) i L1) }"

definition last_node :: "store \<Rightarrow> nat \<Rightarrow> node_ptr option" where
  "last_node h i = do { L \<leftarrow> lists h i; get_loc h (last_ptr L) }"

definition first_node :: "store \<Rightarrow> nat \<Rightarrow> node_ptr option" where
  "first_node h i = map_option first (lists h i)"

definition head :: "store \<Rightarrow> nat \<Rightarrow> nat option" where
  "head h i = do { L \<leftarrow> lists h i; n \<leftarrow> get_node h (first L); Some (info n) }"

text \<open>A \<open>void **\<close> to the \<open>info\<close> field of a node is the pointer to the node; null is \<open>Null\<close>.\<close>

definition head_ref :: "store \<Rightarrow> nat \<Rightarrow> node_ptr option" where
  "head_ref h i = do { L \<leftarrow> lists h i; Some (if first L \<noteq> EndOfList then first L else Null) }"

definition last_ref :: node_ptr where
  "last_ref = EndOfList"

fun find_loop :: "nat \<Rightarrow> store \<Rightarrow> (nat \<Rightarrow> nat \<Rightarrow> bool) \<Rightarrow> nat \<Rightarrow> node_ptr \<Rightarrow> node_ptr option" where
  "find_loop 0 h eq dat node = None"
| "find_loop (Suc fuel) h eq dat node =
     (if node = EndOfList then Some node
      else do { n \<leftarrow> get_node h node; if eq (info n) dat then Some node else find_loop fuel h eq dat (next n) })"

definition add_unique :: "nat \<Rightarrow> store \<Rightarrow> nat \<Rightarrow> nat option \<Rightarrow> nat \<Rightarrow> (nat \<Rightarrow> nat \<Rightarrow> bool) \<Rightarrow> (bool \<times> store) option" where
  "add_unique fuel h i res dat eq = do {
     L \<leftarrow> lists h i;
     node \<leftarrow> find_loop fuel h eq dat (first L);
     if node = EndOfList then push_back h i res dat else Some (True, h) }"

text \<open>\<open>elem(n)\<close>: the loop over \<open>i\<close> from 0 to \<open>n\<close>, here by its number of remaining rounds.\<close>

fun elem_loop :: "store \<Rightarrow> node_ptr \<Rightarrow> nat \<Rightarrow> nat \<Rightarrow> nat option" where
  "elem_loop h node data 0 = Some data"
| "elem_loop h node data (Suc k) =
     (if node = EndOfList then Some 0
      else do { n \<leftarrow> get_node h node; elem_loop h (next n) (info n) k })"

definition elem :: "store \<Rightarrow> nat \<Rightarrow> nat \<Rightarrow> nat option" where
  "elem h i n = do { L \<leftarrow> lists h i; elem_loop h (first L) 0 (n + 1) }"

definition after :: "store \<Rightarrow> nat \<Rightarrow> nat option \<Rightarrow> nat \<Rightarrow> node_ptr \<Rightarrow> store option" where
  "after h i res dat node = do {
     n \<leftarrow> get_node h node;
     let (new_node, h0) = new_node h res dat (next n);
     h1 \<leftarrow> put_loc h0 (NextOf node) new_node;
     L \<leftarrow> lists h1 i;
     let L1 = L\<lparr>elements := elements L + 1\<rparr>;
     Some (put_list h1 i (if last_ptr L1 = NextOf node then L1\<lparr>last_ptr := NextOf new_node\<rparr> else L1)) }"

text \<open>The invariant check of debug builds.\<close>

fun check_loop :: "nat \<Rightarrow> store \<Rightarrow> node_ptr \<Rightarrow> uint \<Rightarrow> (node_ptr \<times> uint) option option" where
  "check_loop 0 h node cnt = None"
| "check_loop (Suc fuel) h node cnt = do {
     n \<leftarrow> get_node h node;
     if next n \<noteq> EndOfList
     then (if info n = 0 then Some None else check_loop fuel h (next n) (cnt + 1))
     else Some (Some (node, cnt)) }"

definition check_list :: "nat \<Rightarrow> store \<Rightarrow> nat \<Rightarrow> bool option" where
  "check_list fuel h i = do {
     L \<leftarrow> lists h i;
     r \<leftarrow> check_loop fuel h (first L) 0;
     case r of None \<Rightarrow> Some False
     | Some (node, cnt) \<Rightarrow>
         if last_ptr L \<noteq> NextOf node then Some False
         else if cnt + 1 \<noteq> elements L then Some False
         else Some True }"

text \<open>\<open>List<T>::delete_elements\<close>: the destructor of each element, called with its pointer, is a parameter that acts on a log of calls.\<close>

fun delete_loop :: "nat \<Rightarrow> store \<Rightarrow> node_ptr \<Rightarrow> nat list \<Rightarrow> nat list option" where
  "delete_loop 0 h node acc = None"
| "delete_loop (Suc fuel) h node acc =
     (if node = EndOfList then Some acc
      else do { n \<leftarrow> get_node h node; delete_loop fuel h (next n) (acc @ [info n]) })"

definition delete_elements :: "nat \<Rightarrow> store \<Rightarrow> nat \<Rightarrow> (nat list \<times> store) option" where
  "delete_elements fuel h i = do {
     L \<leftarrow> lists h i;
     deleted \<leftarrow> delete_loop fuel h (first L) [];
     Some (deleted, list_empty h i) }"

section \<open>base_list_iterator\<close>

record base_list_iterator =
  it_list :: nat
  el :: next_loc
  prev :: "next_loc option"
  current :: node_ptr

definition it_init :: "nat \<Rightarrow> base_list_iterator" where
  "it_init i = \<lparr>it_list = i, el = FirstOf i, prev = None, current = Null\<rparr>"

definition it_next :: "store \<Rightarrow> base_list_iterator \<Rightarrow> (nat \<times> base_list_iterator) option" where
  "it_next h it = do {
     cur \<leftarrow> get_loc h (el it);
     n \<leftarrow> get_node h cur;
     Some (info n, it\<lparr>prev := Some (el it), current := cur, el := NextOf cur\<rparr>) }"

definition it_peek :: "store \<Rightarrow> base_list_iterator \<Rightarrow> nat option" where
  "it_peek h it = do { p \<leftarrow> get_loc h (el it); n \<leftarrow> get_node h p; Some (info n) }"

definition it_next_fast :: "store \<Rightarrow> base_list_iterator \<Rightarrow> (nat \<times> base_list_iterator) option" where
  "it_next_fast h it = do {
     tmp \<leftarrow> get_loc h (el it);
     n \<leftarrow> get_node h tmp;
     Some (info n, it\<lparr>el := NextOf tmp\<rparr>) }"

definition it_rewind :: "base_list_iterator \<Rightarrow> base_list_iterator" where
  "it_rewind it = it\<lparr>el := FirstOf (it_list it)\<rparr>"

definition it_replace :: "store \<Rightarrow> base_list_iterator \<Rightarrow> nat \<Rightarrow> (nat \<times> store) option" where
  "it_replace h it element = do {
     n \<leftarrow> get_node h (current it);
     h1 \<leftarrow> put_node h (current it) (n\<lparr>info := element\<rparr>);
     Some (info n, h1) }"

definition it_replace_list :: "store \<Rightarrow> base_list_iterator \<Rightarrow> nat \<Rightarrow> (nat \<times> store) option" where
  "it_replace_list h it j = do {
     n \<leftarrow> get_node h (current it);
     e \<leftarrow> is_empty h j;
     if e then Some (info n, h)
     else do {
       R \<leftarrow> lists h j;
       h1 \<leftarrow> put_loc h (last_ptr R) (next n);
       R1 \<leftarrow> lists h1 j;
       f \<leftarrow> get_node h1 (first R1);
       h2 \<leftarrow> put_node h1 (current it) \<lparr>next = next f, info = info f\<rparr>;
       L \<leftarrow> lists h2 (it_list it);
       let L1 = (if last_ptr L = NextOf (current it) \<and> elements R1 > 1 then L\<lparr>last_ptr := last_ptr R1\<rparr> else L);
       Some (info n, put_list h2 (it_list it) (L1\<lparr>elements := elements L1 + (elements R1 - 1)\<rparr>)) } }"

definition it_remove :: "store \<Rightarrow> base_list_iterator \<Rightarrow> (store \<times> base_list_iterator) option" where
  "it_remove h it = do {
     pv \<leftarrow> prev it;
     h1 \<leftarrow> list_remove h (it_list it) pv;
     Some (h1, it\<lparr>el := pv, current := Null\<rparr>) }"

definition it_after :: "store \<Rightarrow> base_list_iterator \<Rightarrow> nat option \<Rightarrow> nat \<Rightarrow> (store \<times> base_list_iterator) option" where
  "it_after h it res element = do {
     h1 \<leftarrow> after h (it_list it) res element (current it);
     n \<leftarrow> get_node h1 (current it);
     Some (h1, it\<lparr>current := next n, el := NextOf (next n)\<rparr>) }"

definition it_ref :: "base_list_iterator \<Rightarrow> node_ptr" where
  "it_ref it = current it"

definition it_is_last :: "base_list_iterator \<Rightarrow> bool" where
  "it_is_last it = (el it = NextOf last_ref)"

definition it_at_end :: "base_list_iterator \<Rightarrow> bool" where
  "it_at_end it = (current it = EndOfList)"

definition it_sublist :: "store \<Rightarrow> base_list_iterator \<Rightarrow> nat \<Rightarrow> uint \<Rightarrow> store option" where
  "it_sublist h it j elm = do {
     f \<leftarrow> get_loc h (el it);
     L \<leftarrow> lists h (it_list it);
     Some (put_list h j \<lparr>first = f, last_ptr = last_ptr L, elements = elm\<rparr>) }"

end
