(* ===== verification/Sql_List_Inv.thy ===== *)
theory Sql_List_Inv imports Sql_List begin

text \<open>
  The representation invariant of \<open>base_list\<close> and what each operation does to the sequence a list
  stands for. \<open>repr h i as\<close>: list \<open>i\<close> consists of the nodes \<open>as\<close> (distinct addresses, linked in this order, the last
  one pointing to \<open>end_of_list\<close>), \<open>elements\<close> is their number and \<open>last\<close> the address of the pointer to \<open>end_of_list\<close>. This is
  what \<open>check_list\<close> tests in debug builds, for the empty list too. \<open>infos h as\<close> are the elements themselves.
\<close>

section \<open>Segments\<close>

fun lseg :: "store \<Rightarrow> node_ptr \<Rightarrow> nat list \<Rightarrow> node_ptr \<Rightarrow> bool" where
  "lseg h p [] q = (p = q)"
| "lseg h p (a # as) q = (p = Node a \<and> (case nodes h a of None \<Rightarrow> False | Some n \<Rightarrow> lseg h (next n) as q))"

definition infos :: "store \<Rightarrow> nat list \<Rightarrow> nat list" where
  "infos h as = map (\<lambda>a. case nodes h a of None \<Rightarrow> 0 | Some n \<Rightarrow> info n) as"

definition tail_loc :: "nat \<Rightarrow> nat list \<Rightarrow> next_loc" where
  "tail_loc i as = (if as = [] then FirstOf i else NextOf (Node (List.last as)))"

text \<open>\<open>open_list h i as v\<close>: as \<open>repr\<close>, but the last pointer holds \<open>v\<close>; the operations pass through such states.\<close>

definition open_list :: "store \<Rightarrow> nat \<Rightarrow> nat list \<Rightarrow> node_ptr \<Rightarrow> bool" where
  "open_list h i as v \<longleftrightarrow>
     end_of_list h = eol_node \<and> distinct as \<and> length as < 2 ^ 32 \<and>
     (case lists h i of None \<Rightarrow> False
      | Some L \<Rightarrow> lseg h (first L) as v \<and> last_ptr L = tail_loc i as \<and> elements L = of_nat (length as))"

definition repr :: "store \<Rightarrow> nat \<Rightarrow> nat list \<Rightarrow> bool" where
  "repr h i as \<longleftrightarrow> open_list h i as EndOfList"

text \<open>\<open>touches h h' I A\<close>: at most the lists \<open>I\<close> and the nodes \<open>A\<close> differ.\<close>

definition touches :: "store \<Rightarrow> store \<Rightarrow> nat set \<Rightarrow> nat set \<Rightarrow> bool" where
  "touches h h' I A \<longleftrightarrow>
     (\<forall>j. j \<notin> I \<longrightarrow> lists h' j = lists h j) \<and> (\<forall>a. a \<notin> A \<longrightarrow> nodes h' a = nodes h a) \<and> end_of_list h' = end_of_list h"

lemma lseg_append: "lseg h p (as @ bs) q \<longleftrightarrow> (\<exists>r. lseg h p as r \<and> lseg h r bs q)"
  by (induction as arbitrary: p) (auto split: option.splits)

lemma lseg_cong: "(\<And>a. a \<in> set as \<Longrightarrow> nodes h' a = nodes h a) \<Longrightarrow> lseg h' p as q = lseg h p as q"
  by (induction as arbitrary: p) (auto split: option.splits)

lemma infos_cong: "(\<And>a. a \<in> set as \<Longrightarrow> nodes h' a = nodes h a) \<Longrightarrow> infos h' as = infos h as"
  by (simp add: infos_def)

lemma infos_simps [simp]: "infos h [] = []" "infos h (as @ bs) = infos h as @ infos h bs" "length (infos h as) = length as"
  by (simp_all add: infos_def)

lemma infos_Cons: "nodes h a = Some n \<Longrightarrow> infos h (a # as) = info n # infos h as"
  by (simp add: infos_def)

lemma lseg_nodes: "lseg h p as q \<Longrightarrow> a \<in> set as \<Longrightarrow> nodes h a \<noteq> None"
  by (induction as arbitrary: p) (auto split: option.splits)

lemma lseg_upd_other:
  "a \<notin> set as \<Longrightarrow> lseg (h\<lparr>nodes := (nodes h)(a := v)\<rparr>) p as q = lseg h p as q"
  by (rule lseg_cong) auto

lemma lseg_relink:
  assumes "lseg h p (as @ [a]) q" "distinct (as @ [a])" "nodes h a = Some n"
  shows "lseg (h\<lparr>nodes := (nodes h)(a := Some (n\<lparr>next := r\<rparr>))\<rparr>) p (as @ [a]) r"
  using assms by (auto simp: lseg_append lseg_upd_other)

lemma infos_relink:
  "nodes h a = Some n \<Longrightarrow> infos (h\<lparr>nodes := (nodes h)(a := Some (n\<lparr>next := r\<rparr>))\<rparr>) as = infos h as"
  by (simp add: infos_def)

text \<open>The list headers do not matter for segments.\<close>

lemma lseg_lists [simp]: "lseg (h\<lparr>lists := f\<rparr>) p as q = lseg h p as q" "lseg (put_list h i L) p as q = lseg h p as q"
  by (rule lseg_cong, simp add: put_list_def)+

lemma infos_lists [simp]: "infos (h\<lparr>lists := f\<rparr>) as = infos h as" "infos (put_list h i L) as = infos h as"
  by (simp_all add: infos_def put_list_def)

lemma put_list_sel [simp]:
  "nodes (put_list h i L) = nodes h" "end_of_list (put_list h i L) = end_of_list h"
  "lists (put_list h i L) = (lists h)(i := Some L)"
  by (simp_all add: put_list_def)

lemma get_node_simps [simp]:
  "get_node h Null = None" "get_node h EndOfList = Some (end_of_list h)" "get_node h (Node a) = nodes h a"
  by (simp_all add: get_node_def)

lemma put_loc_First: "lists h i = Some L \<Longrightarrow> put_loc h (FirstOf i) v = Some (put_list h i (L\<lparr>first := v\<rparr>))"
  by (simp add: put_loc_def)

lemma put_loc_Next:
  "nodes h a = Some n \<Longrightarrow> put_loc h (NextOf (Node a)) v = Some (h\<lparr>nodes := (nodes h)(a := Some (n\<lparr>next := v\<rparr>))\<rparr>)"
  by (simp add: put_loc_def put_node_def)

section \<open>Reading the invariant\<close>

lemma open_listE:
  assumes "open_list h i as v"
  obtains L where "lists h i = Some L" "lseg h (first L) as v" "last_ptr L = tail_loc i as"
    "elements L = of_nat (length as)" "distinct as" "length as < 2 ^ 32" "end_of_list h = eol_node"
  using assms by (auto simp: open_list_def split: option.splits)

lemma open_listI:
  "lists h i = Some L \<Longrightarrow> lseg h (first L) as v \<Longrightarrow> last_ptr L = tail_loc i as \<Longrightarrow>
   elements L = of_nat (length as) \<Longrightarrow> distinct as \<Longrightarrow> length as < 2 ^ 32 \<Longrightarrow> end_of_list h = eol_node \<Longrightarrow> open_list h i as v"
  by (simp add: open_list_def)

lemmas reprE = open_listE [where v = EndOfList, folded repr_def]
lemmas reprI = open_listI [where v = EndOfList, folded repr_def]

lemma repr_put:
  "lseg h (first L) as EndOfList \<Longrightarrow> last_ptr L = tail_loc i as \<Longrightarrow> elements L = of_nat (length as) \<Longrightarrow>
   distinct as \<Longrightarrow> length as < 2 ^ 32 \<Longrightarrow> end_of_list h = eol_node \<Longrightarrow> repr (put_list h i L) i as"
  by (rule reprI) auto

lemma lseg_first_empty: "lseg h p as EndOfList \<Longrightarrow> p = EndOfList \<longleftrightarrow> as = []"
  by (cases as) auto

lemma repr_is_empty: "repr h i as \<Longrightarrow> is_empty h i = Some (as = [])"
  by (erule reprE) (auto simp: is_empty_def lseg_first_empty)

lemma count_zero: "length as < 2 ^ 32 \<Longrightarrow> (of_nat (length as) :: uint) = 0 \<longleftrightarrow> as = []"
proof -
  assume "length as < 2 ^ 32"
  then have "unat (of_nat (length as) :: uint) = length as" by (simp add: unat_of_nat)
  then show ?thesis by (metis length_0_conv unat_0 unat_eq_zero)
qed

lemma repr_distinct: "repr h i as \<Longrightarrow> distinct as"
  by (simp add: repr_def open_list_def)

lemma repr_nodes: "repr h i as \<Longrightarrow> a \<in> set as \<Longrightarrow> nodes h a \<noteq> None"
  by (erule reprE) (rule lseg_nodes)

lemma repr_fresh: "repr h i as \<Longrightarrow> nodes h a = None \<Longrightarrow> a \<notin> set as"
  using repr_nodes by blast

section \<open>Frames\<close>

lemma touchesD:
  assumes "touches h h' I A"
  shows "j \<notin> I \<Longrightarrow> lists h' j = lists h j" "a \<notin> A \<Longrightarrow> nodes h' a = nodes h a" "end_of_list h' = end_of_list h"
  using assms by (auto simp: touches_def)

lemma touches_trans:
  "touches h h1 I A \<Longrightarrow> touches h1 h2 I' A' \<Longrightarrow> I \<subseteq> J \<Longrightarrow> I' \<subseteq> J \<Longrightarrow> A \<subseteq> B \<Longrightarrow> A' \<subseteq> B \<Longrightarrow> touches h h2 J B"
  unfolding touches_def by (metis subsetD)

lemma touches_put_list: "touches h (put_list h i L) {i} {}"
  by (simp add: touches_def)

lemma touches_node: "touches h (h\<lparr>nodes := (nodes h)(a := v)\<rparr>) {} {a}"
  by (simp add: touches_def)

lemma touches_list: "touches h h' I A \<Longrightarrow> i \<in> I \<Longrightarrow> touches h (put_list h' i L) I A"
  by (auto simp: touches_def)

lemma open_list_frame:
  assumes "open_list h j bs v" "touches h h' I A" "j \<notin> I" "set bs \<inter> A = {}"
  shows "open_list h' j bs v"
proof -
  have "nodes h' a = nodes h a" if "a \<in> set bs" for a
    using that assms(4) touchesD(2) [OF assms(2)] by blast
  from lseg_cong [of bs h' h, OF this] show ?thesis
    using assms(1) touchesD(1) [OF assms(2,3)] touchesD(3) [OF assms(2)] by (simp add: open_list_def split: option.splits)
qed

lemmas repr_frame = open_list_frame [where v = EndOfList, folded repr_def]

lemma lseg_frame: "touches h h' I A \<Longrightarrow> set bs \<inter> A = {} \<Longrightarrow> lseg h' p bs q = lseg h p bs q"
  by (rule lseg_cong) (auto dest: touchesD(2))

lemma infos_frame: "touches h h' I A \<Longrightarrow> set bs \<inter> A = {} \<Longrightarrow> infos h' bs = infos h bs"
  by (rule infos_cong) (auto dest: touchesD(2))

section \<open>The operations\<close>

lemma repr_empty: "end_of_list h = eol_node \<Longrightarrow> repr (list_empty h i) i []"
  unfolding list_empty_def by (rule repr_put) (auto simp: tail_loc_def)

text \<open>Storing \<open>v\<close> at \<open>tail_loc i as\<close> redirects the pointer behind the nodes \<open>as\<close>, and nothing else.\<close>

lemma redirect:
  assumes "lists h i = Some L" "lseg h (first L) as w" "distinct as"
  shows "\<exists>h' L'. put_loc h (tail_loc i as) v = Some h' \<and> lists h' i = Some L' \<and> lseg h' (first L') as v \<and>
    last_ptr L' = last_ptr L \<and> elements L' = elements L \<and> touches h h' {i} (set as) \<and> infos h' = infos h"
proof (cases as rule: rev_cases)
  case Nil
  then show ?thesis using assms(1) by (auto simp: tail_loc_def put_loc_First touches_def)
next
  case (snoc bs b)
  obtain n where n: "nodes h b = Some n" using lseg_nodes [OF assms(2), of b] snoc by auto
  let ?h = "h\<lparr>nodes := (nodes h)(b := Some (n\<lparr>next := v\<rparr>))\<rparr>"
  have "lseg ?h (first L) as v"
    using lseg_relink [of h "first L" bs b w n v] assms n snoc by simp
  moreover have "put_loc h (tail_loc i as) v = Some ?h" using n by (simp add: tail_loc_def snoc put_loc_Next)
  moreover have "touches h ?h {i} (set as)" by (auto simp: touches_def snoc)
  moreover have "infos ?h = infos h" by (rule ext) (rule infos_relink [OF n])
  ultimately show ?thesis using assms(1) by auto
qed

lemma get_tail: "lists h i = Some L \<Longrightarrow> lseg h (first L) as w \<Longrightarrow> get_loc h (tail_loc i as) = Some w"
  by (cases as rule: rev_cases) (auto simp: get_loc_def tail_loc_def lseg_append split: option.splits)

lemma put_tail:
  assumes "open_list h i as w"
  shows "\<exists>h'. put_loc h (tail_loc i as) v = Some h' \<and> open_list h' i as v \<and> touches h h' {i} (set as) \<and> infos h' = infos h"
proof -
  from assms obtain L where L: "lists h i = Some L" "lseg h (first L) as w" "last_ptr L = tail_loc i as"
    "elements L = of_nat (length as)" "distinct as" "length as < 2 ^ 32" "end_of_list h = eol_node" by (rule open_listE)
  from redirect [OF L(1,2,5), of v] obtain h' L' where h': "put_loc h (tail_loc i as) v = Some h'" "lists h' i = Some L'"
    "lseg h' (first L') as v" "last_ptr L' = last_ptr L" "elements L' = elements L" "touches h h' {i} (set as)" "infos h' = infos h"
    by blast
  then have "open_list h' i as v" using L touchesD(3) [OF h'(6)] by (intro open_listI [of _ _ L']) auto
  with h' show ?thesis by blast
qed

lemma push_back_repr:
  assumes "repr h i as" "nodes h a = None" "length as + 1 < 2 ^ 32"
  shows "\<exists>h'. push_back h i (Some a) dat = Some (False, h') \<and> repr h' i (as @ [a])
    \<and> infos h' (as @ [a]) = infos h as @ [dat] \<and> touches h h' {i} (insert a (set as))"
proof -
  let ?h0 = "h\<lparr>nodes := (nodes h)(a := Some \<lparr>next = EndOfList, info = dat\<rparr>)\<rparr>"
  have fresh: "a \<notin> set as" using repr_fresh [OF assms(1,2)] .
  have "open_list ?h0 i as EndOfList"
    using open_list_frame [OF assms(1) [unfolded repr_def] touches_node [of h a]] fresh by simp
  then obtain h1 where h1: "put_loc ?h0 (tail_loc i as) (Node a) = Some h1" "open_list h1 i as (Node a)"
    "touches ?h0 h1 {i} (set as)" "infos h1 = infos ?h0" using put_tail by blast
  from h1(2) obtain L where L: "lists h1 i = Some L" "lseg h1 (first L) as (Node a)" "elements L = of_nat (length as)"
    "distinct as" "end_of_list h1 = eol_node" by (rule open_listE)
  from assms(1) obtain L0 where L0: "lists h i = Some L0" "last_ptr L0 = tail_loc i as" by (rule reprE)
  have na: "nodes h1 a = Some \<lparr>next = EndOfList, info = dat\<rparr>" using touchesD(2) [OF h1(3) fresh] by simp
  let ?h = "put_list h1 i (L\<lparr>last_ptr := NextOf (Node a), elements := elements L + 1\<rparr>)"
  have "push_back h i (Some a) dat = Some (False, ?h)"
    using L0 h1(1) L(1) by (simp add: push_back_def new_node_def)
  moreover have "repr ?h i (as @ [a])"
    using L na fresh assms(3) by (intro repr_put) (auto simp: lseg_append tail_loc_def)
  moreover have "infos ?h (as @ [a]) = infos h as @ [dat]"
    using h1(4) infos_frame [OF touches_node [of h a], of as] fresh by (simp add: infos_Cons)
  moreover have "touches h ?h {i} (insert a (set as))"
    by (rule touches_list, rule touches_trans [OF touches_node h1(3)]) auto
  ultimately show ?thesis by blast
qed

text \<open>When the allocator fails, \<open>push_back\<close> reports it, but it has already overwritten the pointer to \<open>end_of_list\<close>.\<close>

lemma push_back_no_memory:
  assumes "repr h i as"
  shows "\<exists>h'. push_back h i None dat = Some (True, h') \<and> open_list h' i as Null"
proof -
  from put_tail [OF assms [unfolded repr_def]] obtain h' where
    "put_loc h (tail_loc i as) Null = Some h'" "open_list h' i as Null" by blast
  then show ?thesis using assms by (elim reprE) (simp add: push_back_def new_node_def)
qed

lemma push_front_repr:
  assumes "repr h i as" "nodes h a = None" "length as + 1 < 2 ^ 32"
  shows "\<exists>h'. push_front h i (Some a) dat = Some (False, h') \<and> repr h' i (a # as)
    \<and> infos h' (a # as) = dat # infos h as \<and> touches h h' {i} {a}"
proof -
  from assms(1) obtain L where L: "lists h i = Some L" "lseg h (first L) as EndOfList" "last_ptr L = tail_loc i as"
    "elements L = of_nat (length as)" "distinct as" "length as < 2 ^ 32" "end_of_list h = eol_node" by (rule reprE)
  let ?h0 = "h\<lparr>nodes := (nodes h)(a := Some \<lparr>next = first L, info = dat\<rparr>)\<rparr>"
  let ?h = "put_list ?h0 i \<lparr>first = Node a, last_ptr = if last_ptr L = FirstOf i then NextOf (Node a) else last_ptr L,
      elements = elements L + 1\<rparr>"
  have fresh: "a \<notin> set as" using repr_fresh [OF assms(1,2)] .
  have "push_front h i (Some a) dat = Some (False, ?h)"
    using L(1) by (simp add: push_front_def new_node_def push_front_impl_def)
  moreover have "repr ?h i (a # as)"
    using L fresh assms(3) by (intro repr_put) (auto simp: tail_loc_def lseg_upd_other)
  moreover have "infos ?h (a # as) = dat # infos h as"
    using infos_frame [OF touches_node [of h a], of as] fresh by (simp add: infos_def)
  moreover have "touches h ?h {i} {a}"
    by (auto simp: touches_def)
  ultimately show ?thesis by blast
qed

lemma pop_repr:
  assumes "repr h i (a # as)"
  shows "\<exists>h'. pop h i = Some (hd (infos h (a # as)), h') \<and> repr h' i as \<and> infos h' as = infos h as \<and> touches h h' {i} {}"
proof -
  from assms obtain L where L: "lists h i = Some L" "lseg h (first L) (a # as) EndOfList" "last_ptr L = tail_loc i (a # as)"
    "elements L = of_nat (length (a # as))" "distinct (a # as)" "length (a # as) < 2 ^ 32" "end_of_list h = eol_node" by (rule reprE)
  obtain n where n: "first L = Node a" "nodes h a = Some n" "lseg h (next n) as EndOfList"
    using L(2) by (auto split: option.splits)
  have cnt: "elements L - 1 = of_nat (length as)" using L(4) by simp
  let ?h = "put_list h i \<lparr>first = next n, last_ptr = if as = [] then FirstOf i else last_ptr L, elements = of_nat (length as)\<rparr>"
  have "pop h i = Some (info n, ?h)"
    using L(1,6) n cnt count_zero [of as] by (cases L) (simp add: pop_def)
  moreover have "repr ?h i as" using L n by (intro repr_put) (auto simp: tail_loc_def)
  moreover have "hd (infos h (a # as)) = info n" using n by (simp add: infos_def)
  ultimately show ?thesis using touches_put_list by auto
qed

lemma pop_empty: "repr h i [] \<Longrightarrow> pop h i = Some (0, h)"
  by (erule reprE) (simp add: pop_def)

lemma of_nat_length_append: "of_nat (length as) + of_nat (length bs) = (of_nat (length (as @ bs)) :: uint)"
  by simp

lemma append_repr:
  assumes "repr h i as" "repr h j bs" "i \<noteq> j" "set as \<inter> set bs = {}" "length as + length bs < 2 ^ 32"
  shows "\<exists>h'. list_append h i j = Some h' \<and> repr h' i (as @ bs) \<and> infos h' (as @ bs) = infos h as @ infos h bs
    \<and> touches h h' {i} (set as)"
proof -
  from assms(2) obtain R where R: "lists h j = Some R" "lseg h (first R) bs EndOfList" "last_ptr R = tail_loc j bs"
    "elements R = of_nat (length bs)" "distinct bs" "length bs < 2 ^ 32" by (rule reprE)
  from assms(1) obtain L where L: "lists h i = Some L" "last_ptr L = tail_loc i as" "end_of_list h = eol_node" "distinct as" by (rule reprE)
  note e = repr_is_empty [OF assms(1)] repr_is_empty [OF assms(2)]
  consider "bs = []" | "bs \<noteq> []" "as = []" | "bs \<noteq> []" "as \<noteq> []" by blast
  then show ?thesis
  proof cases
    case 1
    then show ?thesis using e assms(1) by (auto simp: list_append_def touches_def)
  next
    case 2
    let ?h = "put_list h i \<lparr>first = first R, last_ptr = last_ptr R, elements = elements R\<rparr>"
    have "list_append h i j = Some ?h"
      using e 2 R count_zero [OF R(6)] by (simp add: list_append_def list_assign_def)
    moreover have "repr ?h i (as @ bs)" using R L 2 by (intro repr_put) (auto simp: tail_loc_def)
    ultimately show ?thesis using 2 touches_put_list by auto
  next
    case 3
    from put_tail [OF assms(1) [unfolded repr_def], of "first R"] obtain h1 where h1:
      "put_loc h (tail_loc i as) (first R) = Some h1" "open_list h1 i as (first R)" "touches h h1 {i} (set as)" "infos h1 = infos h"
      by blast
    from h1(2) obtain L1 where L1: "lists h1 i = Some L1" "lseg h1 (first L1) as (first R)" "elements L1 = of_nat (length as)"
      "end_of_list h1 = eol_node" by (rule open_listE)
    have Rh: "lists h1 j = Some R" "lseg h1 (first R) bs EndOfList"
      using R touchesD(1) [OF h1(3), of j] assms(3,4) lseg_frame [OF h1(3), of bs] by (auto simp: Int_commute)
    let ?h = "put_list h1 i (L1\<lparr>last_ptr := last_ptr R, elements := elements L1 + elements R\<rparr>)"
    have "list_append h i j = Some ?h"
      using e 3 L R h1(1) L1(1) Rh by (simp add: list_append_def)
    moreover have "repr ?h i (as @ bs)"
      using L L1 R Rh 3 assms(4,5) by (intro repr_put) (auto simp: lseg_append tail_loc_def)
    moreover have "infos ?h (as @ bs) = infos h as @ infos h bs" using h1(4) by simp
    moreover have "touches h ?h {i} (set as)" using h1(3) by (rule touches_list) simp
    ultimately show ?thesis by blast
  qed
qed

lemma prepend_repr:
  assumes "repr h i as" "repr h j bs" "i \<noteq> j" "set as \<inter> set bs = {}" "length as + length bs < 2 ^ 32"
  shows "\<exists>h'. prepend h i j = Some h' \<and> repr h' i (bs @ as) \<and> infos h' (bs @ as) = infos h bs @ infos h as
    \<and> touches h h' {i, j} (set bs)"
proof (cases "bs = []")
  case True
  then show ?thesis
    using assms(1) repr_is_empty [OF assms(1)] repr_is_empty [OF assms(2)] by (auto simp: prepend_def touches_def)
next
  case False
  from assms(1) obtain L where L: "lists h i = Some L" "lseg h (first L) as EndOfList" "last_ptr L = tail_loc i as"
    "elements L = of_nat (length as)" "distinct as" "end_of_list h = eol_node" by (rule reprE)
  from assms(2) obtain R where R: "lists h j = Some R" "last_ptr R = tail_loc j bs" "distinct bs" by (rule reprE)
  let ?h0 = "if as = [] then put_list h i (L\<lparr>last_ptr := last_ptr R\<rparr>) else h"
  have t0: "touches h ?h0 {i} {}" by (auto simp: touches_def)
  have "open_list ?h0 j bs EndOfList"
    using open_list_frame [OF assms(2) [unfolded repr_def] t0] assms(3) by simp
  from put_tail [OF this, of "first L"] obtain h2 where h2: "put_loc ?h0 (tail_loc j bs) (first L) = Some h2"
    "open_list h2 j bs (first L)" "touches ?h0 h2 {j} (set bs)" "infos h2 = infos ?h0" by blast
  from h2(2) obtain R2 where R2: "lists h2 j = Some R2" "lseg h2 (first R2) bs (first L)" "elements R2 = of_nat (length bs)"
    "end_of_list h2 = eol_node" by (rule open_listE)
  define L2 where "L2 = (if as = [] then L\<lparr>last_ptr := last_ptr R\<rparr> else L)"
  have L2: "lists h2 i = Some L2" "first L2 = first L" "elements L2 = of_nat (length as)"
    using touchesD(1) [OF h2(3), of i] assms(3) L by (auto simp: L2_def)
  have seg: "lseg h2 (first L) as EndOfList"
    using L(2) lseg_frame [OF h2(3) assms(4)] lseg_frame [OF t0, of as] by simp
  let ?h = "put_list h2 i (L2\<lparr>first := first R2, elements := elements L2 + elements R2\<rparr>)"
  have "prepend h i j = Some ?h"
    using repr_is_empty [OF assms(1)] repr_is_empty [OF assms(2)] False L R h2(1) L2 R2 by (simp add: prepend_def)
  moreover have "repr ?h i (bs @ as)"
    using L R R2 L2 seg assms(4,5) False
    by (intro repr_put) (auto simp: lseg_append tail_loc_def L2_def add.commute)
  moreover have "infos ?h (bs @ as) = infos h bs @ infos h as" using h2(4) by simp
  moreover have "touches h ?h {i, j} (set bs)"
    by (rule touches_list, rule touches_trans [OF t0 h2(3)]) auto
  ultimately show ?thesis by blast
qed

lemma swap_repr:
  assumes "repr h i as" "repr h j bs" "i \<noteq> j"
  shows "\<exists>h'. swap h i j = Some h' \<and> repr h' i bs \<and> repr h' j as \<and> infos h' = infos h \<and> touches h h' {i, j} {}"
proof -
  from assms(1) obtain L where L: "lists h i = Some L" "lseg h (first L) as EndOfList" "last_ptr L = tail_loc i as"
    "elements L = of_nat (length as)" "distinct as" "length as < 2 ^ 32" "end_of_list h = eol_node" by (rule reprE)
  from assms(2) obtain R where R: "lists h j = Some R" "lseg h (first R) bs EndOfList" "last_ptr R = tail_loc j bs"
    "elements R = of_nat (length bs)" "distinct bs" "length bs < 2 ^ 32" by (rule reprE)
  let ?h = "put_list (put_list h j \<lparr>first = first L, last_ptr = tail_loc j as, elements = elements L\<rparr>) i
      \<lparr>first = first R, last_ptr = tail_loc i bs, elements = elements R\<rparr>"
  have "swap h i j = Some ?h" using L R by (simp add: swap_def tail_loc_def)
  moreover have "repr ?h i bs" "repr ?h j as" using L R assms(3) by (auto intro!: repr_put reprI)
  moreover have "infos ?h = infos h" by (rule ext) simp
  moreover have "touches h ?h {i, j} {}" by (auto simp: touches_def)
  ultimately show ?thesis by blast
qed

lemma remove_repr:
  assumes "repr h i (as @ a # bs)"
  shows "\<exists>h'. list_remove h i (tail_loc i as) = Some h' \<and> repr h' i (as @ bs) \<and> infos h' = infos h \<and> touches h h' {i} (set as)"
proof -
  let ?all = "as @ a # bs"
  from assms obtain L where L: "lists h i = Some L" "lseg h (first L) ?all EndOfList" "last_ptr L = tail_loc i ?all"
    "elements L = of_nat (length ?all)" "distinct ?all" "length ?all < 2 ^ 32" "end_of_list h = eol_node" by (rule reprE)
  obtain n where n: "lseg h (first L) as (Node a)" "nodes h a = Some n" "lseg h (next n) bs EndOfList"
    using L(2) by (auto simp: lseg_append split: option.splits)
  have cnt: "elements L - 1 = of_nat (length (as @ bs))" using L(4) by simp
  define L2 where "L2 = L\<lparr>elements := of_nat (length (as @ bs)), last_ptr := tail_loc i (as @ bs)\<rparr>"
  have upd: "(let L1 = L\<lparr>elements := elements L - 1\<rparr>
       in if elements L1 = 0 then L1\<lparr>last_ptr := FirstOf i\<rparr>
          else if last_ptr L1 = NextOf (Node a) then L1\<lparr>last_ptr := tail_loc i as\<rparr> else L1) = L2"
  proof (cases "as @ bs = []")
    case False
    then have "(of_nat (length (as @ bs)) :: uint) \<noteq> 0" using count_zero [of "as @ bs"] L(6) by simp
    moreover have "last_ptr L = NextOf (Node a) \<longleftrightarrow> bs = []"
      using L(3,5) last_in_set [of bs] by (auto simp: tail_loc_def)
    moreover have "tail_loc i (as @ bs) = (if bs = [] then tail_loc i as else last_ptr L)"
      using L(3) by (auto simp: tail_loc_def)
    ultimately show ?thesis using cnt by (cases L) (simp add: L2_def Let_def)
  qed (use cnt in \<open>cases L; simp add: L2_def tail_loc_def Let_def\<close>)
  let ?h1 = "put_list h i L2"
  have "lists ?h1 i = Some L2" "lseg ?h1 (first L2) as (Node a)" "distinct as" using n L(5) by (auto simp: L2_def)
  from redirect [OF this, of "next n"] obtain h' L' where h': "put_loc ?h1 (tail_loc i as) (next n) = Some h'" "lists h' i = Some L'"
    "lseg h' (first L') as (next n)" "last_ptr L' = last_ptr L2" "elements L' = elements L2" "touches ?h1 h' {i} (set as)"
    "infos h' = infos ?h1" by blast
  have "list_remove h i (tail_loc i as) = Some h'"
    using L(1) n h'(1) get_tail [OF L(1) n(1)] upd by (simp add: list_remove_def Let_def)
  moreover have "repr h' i (as @ bs)"
  proof (rule reprI [OF h'(2)])
    have "lseg h' (next n) bs EndOfList" using n(3) lseg_frame [OF h'(6), of bs] L(5) by auto
    then show "lseg h' (first L') (as @ bs) EndOfList" using h'(3) by (auto simp: lseg_append)
  qed (use h' L touchesD(3) [OF h'(6)] in \<open>auto simp: L2_def\<close>)
  moreover have "infos h' = infos h" using h'(7) by (auto simp: fun_eq_iff)
  moreover have "touches h h' {i} (set as)"
    by (rule touches_trans [OF touches_put_list h'(6)]) auto
  ultimately show ?thesis by blast
qed

lemma after_repr:
  assumes "repr h i (as @ a # bs)" "nodes h c = None" "length (as @ a # bs) + 1 < 2 ^ 32"
  shows "\<exists>h'. after h i (Some c) dat (Node a) = Some h' \<and> repr h' i (as @ a # c # bs)
    \<and> infos h' (as @ a # c # bs) = infos h (as @ [a]) @ dat # infos h bs \<and> touches h h' {i} {a, c}"
proof -
  let ?all = "as @ a # bs"
  from assms(1) obtain L where L: "lists h i = Some L" "lseg h (first L) ?all EndOfList" "last_ptr L = tail_loc i ?all"
    "elements L = of_nat (length ?all)" "distinct ?all" "end_of_list h = eol_node" by (rule reprE)
  have fresh: "c \<notin> set ?all" using repr_fresh [OF assms(1,2)] .
  obtain n where n: "lseg h (first L) as (Node a)" "nodes h a = Some n" "lseg h (next n) bs EndOfList"
    using L(2) by (auto simp: lseg_append split: option.splits)
  let ?h1 = "h\<lparr>nodes := (nodes h)(c := Some \<lparr>next = next n, info = dat\<rparr>, a := Some (n\<lparr>next := Node c\<rparr>))\<rparr>"
  let ?L1 = "L\<lparr>elements := elements L + 1, last_ptr := if bs = [] then NextOf (Node c) else last_ptr L\<rparr>"
  have t: "touches h ?h1 {} {a, c}" by (auto simp: touches_def)
  have lastp: "last_ptr L = NextOf (Node a) \<longleftrightarrow> bs = []"
    using L(3,5) last_in_set [of bs] by (auto simp: tail_loc_def)
  have "after h i (Some c) dat (Node a) = Some (put_list ?h1 i ?L1)"
    using L(1) n fresh lastp by (cases L) (auto simp: after_def new_node_def put_loc_Next)
  moreover have "repr (put_list ?h1 i ?L1) i (as @ a # c # bs)"
    using n L fresh assms(3) lseg_frame [OF t, of as] lseg_frame [OF t, of bs]
    by (intro repr_put) (auto simp: lseg_append tail_loc_def)
  moreover have "infos (put_list ?h1 i ?L1) (as @ a # c # bs) = infos h (as @ [a]) @ dat # infos h bs"
    using n fresh L(5) infos_frame [OF t, of as] infos_frame [OF t, of bs] by (simp add: infos_Cons)
  moreover have "touches h (put_list ?h1 i ?L1) {i} {a, c}" by (auto simp: touches_def)
  ultimately show ?thesis by blast
qed

end
