(* ===== verification/Sql_List_Iter.thy ===== *)
theory Sql_List_Iter imports Sql_List_Inv begin

text \<open>
  The traversals of \<open>base_list\<close> (\<open>elem\<close>, \<open>add_unique\<close>, \<open>disjoin\<close>, \<open>check_list\<close>, \<open>delete_elements\<close>) and the
  iterator, over the representation of \<open>Sql_List_Inv\<close>. Each loop that the source runs until it meets \<open>end_of_list\<close> is shown to
  end: fuel one more than the number of nodes is enough.
\<close>

section \<open>Traversals\<close>

lemma lseg_Cons_E:
  assumes "lseg h p (a # as) q"
  obtains n where "p = Node a" "nodes h a = Some n" "lseg h (next n) as q"
  using assms by (auto split: option.splits)

lemma elem_loop_lseg:
  "lseg h p as EndOfList \<Longrightarrow> elem_loop h p d (Suc k) = Some (if k < length as then infos h as ! k else 0)"
proof (induction as arbitrary: p d k)
  case (Cons a as)
  then obtain n where n: "p = Node a" "nodes h a = Some n" "lseg h (next n) as EndOfList" by (elim lseg_Cons_E) blast
  show ?case using n Cons.IH [OF n(3)] by (cases k) (auto simp: infos_Cons)
qed simp

lemma elem_repr: "repr h i as \<Longrightarrow> elem h i n = Some (if n < length as then infos h as ! n else 0)"
  by (erule reprE) (simp add: elem_def elem_loop_lseg del: elem_loop.simps)

lemma find_loop_lseg:
  assumes "lseg h p as EndOfList" "length as < fuel"
  shows "\<exists>q. find_loop fuel h eq d p = Some q \<and> (q = EndOfList \<longleftrightarrow> (\<forall>v \<in> set (infos h as). \<not> eq v d))"
  using assms
proof (induction as arbitrary: p fuel)
  case Nil
  then show ?case by (cases fuel) auto
next
  case (Cons a as)
  then obtain n fuel' where n: "p = Node a" "nodes h a = Some n" "lseg h (next n) as EndOfList" "fuel = Suc fuel'"
    by (cases fuel) (auto split: option.splits)
  then show ?case using Cons.IH [OF n(3), of fuel'] Cons.prems(2) by (auto simp: infos_Cons)
qed

lemma add_unique_repr:
  assumes "repr h i as" "nodes h a = None" "length as + 1 < 2 ^ 32" "length as < fuel"
  shows "if \<exists>v \<in> set (infos h as). eq v dat then add_unique fuel h i (Some a) dat eq = Some (True, h)
    else \<exists>h'. add_unique fuel h i (Some a) dat eq = Some (False, h') \<and> repr h' i (as @ [a]) \<and> infos h' (as @ [a]) = infos h as @ [dat]"
proof -
  from assms(1) obtain L where L: "lists h i = Some L" "lseg h (first L) as EndOfList" by (rule reprE)
  from find_loop_lseg [OF L(2) assms(4), of eq dat] push_back_repr [OF assms(1,2,3), of dat] show ?thesis
    using L(1) by (auto simp: add_unique_def)
qed

lemma delete_loop_lseg:
  "lseg h p as EndOfList \<Longrightarrow> length as < fuel \<Longrightarrow> delete_loop fuel h p acc = Some (acc @ infos h as)"
proof (induction as arbitrary: p fuel acc)
  case Nil
  then show ?case by (cases fuel) auto
next
  case (Cons a as)
  then obtain n fuel' where "p = Node a" "nodes h a = Some n" "lseg h (next n) as EndOfList" "fuel = Suc fuel'"
    by (cases fuel) (auto split: option.splits)
  then show ?case using Cons by (simp add: infos_Cons)
qed

lemma delete_elements_repr:
  assumes "repr h i as" "length as < fuel"
  shows "delete_elements fuel h i = Some (infos h as, list_empty h i) \<and> repr (list_empty h i) i []"
  using assms by (elim reprE) (simp add: delete_elements_def delete_loop_lseg repr_empty)

text \<open>\<open>check_list\<close> accepts exactly what the invariant promises, for a non-empty list without null elements.\<close>

lemma check_loop_lseg:
  assumes "lseg h p (as @ [b]) EndOfList" "length as < fuel"
  shows "check_loop fuel h p cnt = Some (if 0 \<in> set (infos h as) then None else Some (Node b, cnt + of_nat (length as)))"
  using assms
proof (induction as arbitrary: p fuel cnt)
  case Nil
  then obtain n fuel' where "p = Node b" "nodes h b = Some n" "next n = EndOfList" "fuel = Suc fuel'"
    by (auto split: option.splits dest: less_imp_Suc_add)
  then show ?case by simp
next
  case (Cons a as)
  then obtain n fuel' where n: "p = Node a" "nodes h a = Some n" "lseg h (next n) (as @ [b]) EndOfList" "fuel = Suc fuel'"
    by (cases fuel) (auto split: option.splits)
  have "next n \<noteq> EndOfList" using n(3) by (cases as) auto
  then show ?case using n Cons.IH [OF n(3), of fuel' "cnt + 1"] Cons.prems(2) by (auto simp: infos_Cons algebra_simps)
qed

lemma check_list_repr:
  assumes "repr h i as" "as \<noteq> []" "0 \<notin> set (infos h as)" "length as \<le> fuel"
  shows "check_list fuel h i = Some True"
proof -
  obtain bs b where as: "as = bs @ [b]" using assms(2) by (cases as rule: rev_cases) auto
  from assms(1) obtain L where L: "lists h i = Some L" "lseg h (first L) as EndOfList" "last_ptr L = tail_loc i as"
    "elements L = of_nat (length as)" by (rule reprE)
  have "check_loop fuel h (first L) 0 = Some (Some (Node b, of_nat (length bs)))"
    using check_loop_lseg [of h "first L" bs b fuel 0] L(2) assms(3,4) by (auto simp: as)
  then show ?thesis using L by (simp add: check_list_def as tail_loc_def)
qed

section \<open>disjoin\<close>

lemma disjoin_loop_lseg:
  assumes "lseg h p as q" "q \<notin> Node ` set as" "lseg h q bs EndOfList" "length as < fuel" "as = [] \<or> bs \<noteq> []"
  shows "disjoin_loop fuel h q pv p cnt = Some (if as = [] then pv else NextOf (Node (List.last as)), cnt + of_nat (length as), False)"
  using assms
proof (induction as arbitrary: p pv cnt fuel)
  case Nil
  then show ?case by (cases fuel) auto
next
  case (Cons a as)
  then obtain n fuel' where n: "p = Node a" "nodes h a = Some n" "lseg h (next n) as q" "fuel = Suc fuel'"
    by (cases fuel) (auto split: option.splits)
  have bs: "bs \<noteq> []" using Cons.prems by auto
  have "next n \<noteq> EndOfList" using n(3) Cons.prems(3) bs by (cases as; cases bs) auto
  moreover have "Node a \<noteq> q" using Cons.prems(2) by auto
  ultimately show ?case
    using n Cons.IH [OF n(3), of fuel' "NextOf (Node a)" "cnt + 1"] Cons.prems bs by (auto simp: algebra_simps)
qed

lemma disjoin_repr:
  assumes "repr h i (as @ bs)" "repr h j bs" "i \<noteq> j" "bs \<noteq> []" "length as < fuel"
  shows "\<exists>h'. disjoin fuel h i j = Some h' \<and> repr h' i as \<and> infos h' = infos h \<and> repr h' j bs"
proof -
  from assms(1) obtain L where L: "lists h i = Some L" "lseg h (first L) (as @ bs) EndOfList" "distinct (as @ bs)"
    "length (as @ bs) < 2 ^ 32" "end_of_list h = eol_node" by (rule reprE)
  from assms(2) obtain R where R: "lists h j = Some R" "lseg h (first R) bs EndOfList" by (rule reprE)
  obtain q where q: "lseg h (first L) as q" "lseg h q bs EndOfList" using L(2) by (auto simp: lseg_append)
  have qR: "first R = q" using q(2) R(2) assms(4) by (cases bs) auto
  have "q \<notin> Node ` set as" using q(2) L(3) assms(4) by (cases bs) auto
  then have loop: "disjoin_loop fuel h (first R) (FirstOf i) (first L) 0 = Some (tail_loc i as, of_nat (length as), False)"
    using disjoin_loop_lseg [OF q(1) _ q(2) assms(5), of "FirstOf i" 0] assms(4) by (auto simp: qR tail_loc_def)
  let ?h1 = "put_list h i (L\<lparr>elements := of_nat (length as)\<rparr>)"
  have "lists ?h1 i = Some (L\<lparr>elements := of_nat (length as)\<rparr>)" "lseg ?h1 (first (L\<lparr>elements := of_nat (length as)\<rparr>)) as q" "distinct as"
    using q L(3) by auto
  from redirect [OF this, of EndOfList] obtain h2 L2 where h2: "put_loc ?h1 (tail_loc i as) EndOfList = Some h2" "lists h2 i = Some L2"
    "lseg h2 (first L2) as EndOfList" "elements L2 = of_nat (length as)" "touches ?h1 h2 {i} (set as)" "infos h2 = infos ?h1" by auto
  let ?h = "put_list h2 i (L2\<lparr>last_ptr := tail_loc i as\<rparr>)"
  have "disjoin fuel h i j = Some ?h" using L(1) R(1) loop h2(1,2) by (simp add: disjoin_def)
  moreover have "repr ?h i as" using h2 L touchesD(3) [OF h2(5)] by (intro repr_put) auto
  moreover have "repr ?h j bs"
    using assms(2) by (rule repr_frame [OF _ touches_list [OF touches_trans [OF touches_put_list h2(5)]], where I = "{i}"])
      (use assms(3) L(3) in auto)
  moreover have "infos ?h = infos h" using h2(6) by (auto simp: fun_eq_iff)
  ultimately show ?thesis by blast
qed

section \<open>The iterator\<close>

lemma it_next_repr:
  assumes "repr h i (as @ b # bs)" "el it = tail_loc i as"
  shows "it_next h it = Some (hd (infos h [b]), it\<lparr>prev := Some (tail_loc i as), current := Node b, el := tail_loc i (as @ [b])\<rparr>)"
proof -
  from assms(1) obtain L where L: "lists h i = Some L" "lseg h (first L) (as @ b # bs) EndOfList" by (rule reprE)
  obtain n where n: "lseg h (first L) as (Node b)" "nodes h b = Some n"
    using L(2) by (auto simp: lseg_append split: option.splits)
  show ?thesis
    using get_tail [OF L(1) n(1)] n(2) assms(2) by (simp add: it_next_def infos_Cons tail_loc_def)
qed

lemma it_next_end:
  assumes "repr h i as" "el it = tail_loc i as"
  shows "it_next h it = Some (0, it\<lparr>prev := Some (tail_loc i as), current := EndOfList, el := NextOf EndOfList\<rparr>)"
proof -
  from assms(1) obtain L where L: "lists h i = Some L" "lseg h (first L) as EndOfList" "end_of_list h = eol_node" by (rule reprE)
  then show ?thesis using get_tail [OF L(1,2)] assms(2) by (simp add: it_next_def eol_node_def)
qed

lemma it_remove_repr:
  assumes "repr h i (as @ b # bs)" "it_list it = i" "prev it = Some (tail_loc i as)"
  shows "\<exists>h'. it_remove h it = Some (h', it\<lparr>el := tail_loc i as, current := Null\<rparr>) \<and> repr h' i (as @ bs) \<and> infos h' = infos h"
  using remove_repr [OF assms(1)] assms(2,3) by (auto simp: it_remove_def)

lemma it_after_repr:
  assumes "repr h i (as @ a # bs)" "it_list it = i" "current it = Node a" "nodes h c = None" "length (as @ a # bs) + 1 < 2 ^ 32"
  shows "\<exists>h'. it_after h it (Some c) dat = Some (h', it\<lparr>current := Node c, el := tail_loc i (as @ [a, c])\<rparr>)
    \<and> repr h' i (as @ a # c # bs) \<and> infos h' (as @ a # c # bs) = infos h (as @ [a]) @ dat # infos h bs"
proof -
  from after_repr [OF assms(1,4,5), of dat] obtain h' where h': "after h i (Some c) dat (Node a) = Some h'"
    "repr h' i (as @ a # c # bs)" "infos h' (as @ a # c # bs) = infos h (as @ [a]) @ dat # infos h bs" by blast
  from h'(2) obtain L n where "nodes h' a = Some n" "next n = Node c"
    by (elim reprE) (auto simp: lseg_append split: option.splits)
  then show ?thesis using h' assms(2,3) by (simp add: it_after_def tail_loc_def)
qed

text \<open>\<open>replace(element)\<close> changes the element and nothing else.\<close>

lemma info_update:
  fixes v :: nat
  assumes "repr h i (as @ b # bs)" "nodes h b = Some n"
  defines "h' \<equiv> h\<lparr>nodes := (nodes h)(b := Some (n\<lparr>info := v\<rparr>))\<rparr>"
  shows "repr h' i (as @ b # bs)" "infos h' (as @ b # bs) = infos h as @ v # infos h bs"
proof -
  have t: "touches h h' {} {b}" by (auto simp: touches_def h'_def)
  from assms(1) obtain L where L: "lists h i = Some L" "lseg h (first L) (as @ b # bs) EndOfList" "last_ptr L = tail_loc i (as @ b # bs)"
    "elements L = of_nat (length (as @ b # bs))" "distinct (as @ b # bs)" "length (as @ b # bs) < 2 ^ 32" "end_of_list h = eol_node" by (rule reprE)
  have "lseg h' (first L) (as @ b # bs) EndOfList"
    using L(2,5) assms(2) lseg_frame [OF t, of as] lseg_frame [OF t, of bs]
    by (auto simp: lseg_append h'_def)
  then show "repr h' i (as @ b # bs)" using L by (intro reprI [of _ _ L]) (auto simp: h'_def)
  show "infos h' (as @ b # bs) = infos h as @ v # infos h bs"
    using L(5) infos_frame [OF t, of as] infos_frame [OF t, of bs] by (simp add: infos_Cons h'_def)
qed

lemma it_replace_repr:
  assumes "repr h i (as @ b # bs)" "current it = Node b"
  shows "\<exists>h'. it_replace h it v = Some (hd (infos h [b]), h') \<and> repr h' i (as @ b # bs)
    \<and> infos h' (as @ b # bs) = infos h as @ v # infos h bs"
proof -
  obtain n where n: "nodes h b = Some n" using repr_nodes [OF assms(1), of b] by auto
  then show ?thesis using info_update [OF assms(1) n, of v] assms(2) by (simp add: it_replace_def put_node_def infos_Cons)
qed

text \<open>A client: walk the list and remove what does not satisfy a test.\<close>

fun filter_loop :: "nat \<Rightarrow> (nat \<Rightarrow> bool) \<Rightarrow> store \<Rightarrow> base_list_iterator \<Rightarrow> store option" where
  "filter_loop 0 P h it = None"
| "filter_loop (Suc fuel) P h it = do {
     (v, it1) \<leftarrow> it_next h it;
     if v = 0 then Some h
     else if P v then filter_loop fuel P h it1
     else do { (h1, it2) \<leftarrow> it_remove h it1; filter_loop fuel P h1 it2 } }"

lemma filter_loop_repr:
  assumes "repr h i (as @ bs)" "it_list it = i" "el it = tail_loc i as" "0 \<notin> set (infos h bs)" "length bs < fuel"
  shows "\<exists>h' cs. filter_loop fuel P h it = Some h' \<and> repr h' i (as @ cs) \<and> infos h' = infos h \<and> infos h cs = filter P (infos h bs)"
  using assms
proof (induction fuel arbitrary: h it as bs)
  case (Suc fuel)
  show ?case
  proof (cases bs)
    case Nil
    then show ?thesis using Suc.prems it_next_end [of h i as it] by (auto intro: exI [of _ "[]"])
  next
    case (Cons b bs')
    obtain n where n: "nodes h b = Some n" using repr_nodes [OF Suc.prems(1), of b] Cons by auto
    let ?v = "info n" and ?it1 = "it\<lparr>prev := Some (tail_loc i as), current := Node b, el := tail_loc i (as @ [b])\<rparr>"
    have v: "infos h (b # cs) = ?v # infos h cs" for cs by (rule infos_Cons [OF n])
    have vb: "infos h bs = ?v # infos h bs'" by (simp add: Cons v)
    have nx: "it_next h it = Some (?v, ?it1)"
      using it_next_repr [of h i as b bs' it] Suc.prems(1,3) v [of "[]"] by (simp add: Cons)
    have nz: "?v \<noteq> 0" using vb Suc.prems(4) by auto
    show ?thesis
    proof (cases "P ?v")
      case True
      from Suc.IH [of h "as @ [b]" bs' ?it1] obtain h' cs where
        "filter_loop fuel P h ?it1 = Some h'" "repr h' i (as @ b # cs)" "infos h' = infos h" "infos h cs = filter P (infos h bs')"
        using Suc.prems vb by (auto simp: Cons)
      then show ?thesis using nx nz True v vb by (intro exI [of _ h'] exI [of _ "b # cs"]) simp
    next
      case False
      let ?it2 = "?it1\<lparr>el := tail_loc i as, current := Null\<rparr>"
      from it_remove_repr [of h i as b bs' ?it1] obtain h1 where h1: "it_remove h ?it1 = Some (h1, ?it2)"
        "repr h1 i (as @ bs')" "infos h1 = infos h" using Suc.prems by (auto simp: Cons)
      from Suc.IH [of h1 as bs' ?it2] obtain h' cs where
        "filter_loop fuel P h1 ?it2 = Some h'" "repr h' i (as @ cs)" "infos h' = infos h" "infos h cs = filter P (infos h bs')"
        using h1 Suc.prems vb by (auto simp: Cons)
      then show ?thesis using nx nz False vb h1(1) by (intro exI [of _ h'] exI [of _ cs]) simp
    qed
  qed
qed simp

end
