(* ===== verification/Sequence.thy ===== *)
theory Sequence imports Prelude "HOL-Library.Monad_Syntax" begin

text \<open>
  The contract of a linked list as its clients see it: an element is added at either end or taken
  from the front, and the list stands for the sequence of its elements. \<open>fresh s vs v\<close> says that the element (or the
  node that will hold it) is not in use in state \<open>s\<close> with contents \<open>vs\<close>, \<open>cap\<close> is the bound of the element counter, and \<open>out\<close> is what taking an element
  returns. Interpreted for \<open>base_list\<close> (private/sql_list.h), \<open>I_P_List\<close> (private/sql_plist.h) and
  \<open>ilist\<close> (ilist.h).
\<close>

fun iter_push :: "('s \<Rightarrow> 'v \<Rightarrow> 's option) \<Rightarrow> 's \<Rightarrow> 'v list \<Rightarrow> 's option" where
  "iter_push push s [] = Some s"
| "iter_push push s (v # vs) = do { s' \<leftarrow> push s v; iter_push push s' vs }"

fun iter_pop :: "('s \<Rightarrow> ('o \<times> 's) option) \<Rightarrow> 's \<Rightarrow> nat \<Rightarrow> ('o list \<times> 's) option" where
  "iter_pop pop s 0 = Some ([], s)"
| "iter_pop pop s (Suc n) = do { (x, s') \<leftarrow> pop s; (xs, s'') \<leftarrow> iter_pop pop s' n; Some (x # xs, s'') }"

locale sequence =
  fixes inv :: "'s \<Rightarrow> 'v list \<Rightarrow> bool"
    and fresh :: "'s \<Rightarrow> 'v list \<Rightarrow> 'v \<Rightarrow> bool"
    and key :: "'v \<Rightarrow> 'k"
    and cap :: nat
    and push_back push_front :: "'s \<Rightarrow> 'v \<Rightarrow> 's option"
    and pop :: "'s \<Rightarrow> ('o \<times> 's) option"
    and out :: "'v \<Rightarrow> 'o"
  assumes push_back: "inv s vs \<Longrightarrow> fresh s vs v \<Longrightarrow> length vs + 1 < cap \<Longrightarrow>
      \<exists>s'. push_back s v = Some s' \<and> inv s' (vs @ [v]) \<and> (\<forall>w. key w \<noteq> key v \<and> fresh s vs w \<longrightarrow> fresh s' (vs @ [v]) w)"
    and push_front: "inv s vs \<Longrightarrow> fresh s vs v \<Longrightarrow> length vs + 1 < cap \<Longrightarrow>
      \<exists>s'. push_front s v = Some s' \<and> inv s' (v # vs) \<and> (\<forall>w. key w \<noteq> key v \<and> fresh s vs w \<longrightarrow> fresh s' (v # vs) w)"
    and pop: "inv s (v # vs) \<Longrightarrow> \<exists>s'. pop s = Some (out v, s') \<and> inv s' vs"
begin

lemma push_back_all:
  assumes "inv s vs" "\<forall>w \<in> set ws. fresh s vs w" "distinct (map key ws)" "length vs + length ws < cap"
  shows "\<exists>s'. iter_push push_back s ws = Some s' \<and> inv s' (vs @ ws)"
  using assms
proof (induction ws arbitrary: s vs)
  case (Cons w ws)
  then obtain s' where s': "push_back s w = Some s'" "inv s' (vs @ [w])" "\<forall>x. key x \<noteq> key w \<and> fresh s vs x \<longrightarrow> fresh s' (vs @ [w]) x"
    using push_back [of s vs w] by auto
  have "\<forall>x \<in> set ws. fresh s' (vs @ [w]) x" using Cons.prems(2,3) s'(3) by (metis distinct.simps(2) image_eqI list.set_intros(2) list.simps(9) set_map)
  then show ?case using Cons.IH [of s' "vs @ [w]"] Cons.prems s' by auto
qed simp

lemma push_front_all:
  assumes "inv s vs" "\<forall>w \<in> set ws. fresh s vs w" "distinct (map key ws)" "length vs + length ws < cap"
  shows "\<exists>s'. iter_push push_front s ws = Some s' \<and> inv s' (rev ws @ vs)"
  using assms
proof (induction ws arbitrary: s vs)
  case (Cons w ws)
  then obtain s' where s': "push_front s w = Some s'" "inv s' (w # vs)" "\<forall>x. key x \<noteq> key w \<and> fresh s vs x \<longrightarrow> fresh s' (w # vs) x"
    using push_front [of s vs w] by auto
  have "\<forall>x \<in> set ws. fresh s' (w # vs) x" using Cons.prems(2,3) s'(3) by (metis distinct.simps(2) image_eqI list.set_intros(2) list.simps(9) set_map)
  then show ?case using Cons.IH [of s' "w # vs"] Cons.prems s' by auto
qed simp

lemma pop_all:
  "inv s (vs @ ws) \<Longrightarrow> \<exists>s'. iter_pop pop s (length vs) = Some (map out vs, s') \<and> inv s' ws"
proof (induction vs arbitrary: s)
  case (Cons v vs)
  then obtain s1 where s1: "pop s = Some (out v, s1)" "inv s1 (vs @ ws)" using pop [of s v "vs @ ws"] by auto
  with Cons.IH [of s1] show ?case by auto
qed simp

lemma queue_order:
  assumes "inv s []" "\<forall>w \<in> set ws. fresh s [] w" "distinct (map key ws)" "length ws < cap"
  shows "\<exists>s1 s2. iter_push push_back s ws = Some s1 \<and> iter_pop pop s1 (length ws) = Some (map out ws, s2) \<and> inv s2 []"
  using push_back_all [OF assms(1-3)] assms(4) pop_all [of _ ws "[]"] by fastforce

lemma stack_order:
  assumes "inv s []" "\<forall>w \<in> set ws. fresh s [] w" "distinct (map key ws)" "length ws < cap"
  shows "\<exists>s1 s2. iter_push push_front s ws = Some s1 \<and> iter_pop pop s1 (length ws) = Some (map out (rev ws), s2) \<and> inv s2 []"
  using push_front_all [OF assms(1-3)] assms(4) pop_all [of _ "rev ws" "[]"] by fastforce

end

end
