(* ===== verification/Sql_List_Sort.thy ===== *)
theory Sql_List_Sort imports Sql_List_Iter Sequence "HOL-Library.Multiset" begin

text \<open>
  \<open>bubble_sort\<close> of \<open>private/sql_list.h\<close>. It moves the elements between the nodes through references to their \<open>info\<close>
  fields and remembers in \<open>ref1\<close> where the last pass stopped comparing. The sort function is a
  parameter; the locale \<open>sort_order\<close> states what it has to satisfy.
\<close>

section \<open>Model\<close>

fun sort_pass :: "nat \<Rightarrow> (nat \<Rightarrow> nat \<Rightarrow> int) \<Rightarrow> store \<Rightarrow> base_list_iterator \<Rightarrow> nat \<Rightarrow> node_ptr \<Rightarrow> node_ptr \<Rightarrow> bool \<Rightarrow>
    (store \<times> node_ptr \<times> bool) option" where
  "sort_pass 0 sort_func h it item1 ref1 stop_ref swapped = None"
| "sort_pass (Suc fuel) sort_func h it item1 ref1 stop_ref swapped = do {
     (item2, it2) \<leftarrow> it_next h it;
     if item2 = 0 \<or> it_ref it2 = stop_ref then Some (h, ref1, swapped)
     else if sort_func item1 item2 > 0
     then do {
       n1 \<leftarrow> get_node h ref1;
       h1 \<leftarrow> put_node h ref1 (n1\<lparr>info := item2\<rparr>);
       n2 \<leftarrow> get_node h1 (it_ref it2);
       h2 \<leftarrow> put_node h1 (it_ref it2) (n2\<lparr>info := item1\<rparr>);
       sort_pass fuel sort_func h2 it2 item1 (it_ref it2) stop_ref True }
     else sort_pass fuel sort_func h it2 item2 (it_ref it2) stop_ref swapped }"

fun sort_passes :: "nat \<Rightarrow> nat \<Rightarrow> (nat \<Rightarrow> nat \<Rightarrow> int) \<Rightarrow> store \<Rightarrow> base_list_iterator \<Rightarrow> node_ptr \<Rightarrow> store option" where
  "sort_passes 0 inner sort_func h it ref1 = None"
| "sort_passes (Suc fuel) inner sort_func h it ref1 = do {
     let stop_ref = ref1;
     (item1, it1) \<leftarrow> it_next h it;
     (h1, ref1', swapped) \<leftarrow> sort_pass inner sort_func h it1 item1 (it_ref it1) stop_ref False;
     if swapped then sort_passes fuel inner sort_func h1 (it_rewind it1) ref1' else Some h1 }"

text \<open>\<open>fuel\<close> bounds the passes and the steps of a pass.\<close>

definition bubble_sort :: "nat \<Rightarrow> (nat \<Rightarrow> nat \<Rightarrow> int) \<Rightarrow> store \<Rightarrow> nat \<Rightarrow> store option" where
  "bubble_sort fuel sort_func h i = sort_passes fuel fuel sort_func h (it_init i) Null"

section \<open>One pass on a sequence of elements\<close>

fun bubble :: "('v \<Rightarrow> 'v \<Rightarrow> int) \<Rightarrow> 'v \<Rightarrow> 'v list \<Rightarrow> 'v list \<times> bool" where
  "bubble f x [] = ([x], False)"
| "bubble f x (y # ys) =
     (if f x y > 0 then let (zs, s) = bubble f x ys in (y # zs, True)
      else let (zs, s) = bubble f y ys in (x # zs, s))"

lemma bubble_mset: "mset (fst (bubble f x ys)) = add_mset x (mset ys)"
  by (induction f x ys rule: bubble.induct) (auto simp: Let_def split: prod.splits)

lemma bubble_length [simp]: "length (fst (bubble f x ys)) = Suc (length ys)"
  using arg_cong [OF bubble_mset, of size] by simp

lemma bubble_set: "set (fst (bubble f x ys)) = insert x (set ys)"
  using arg_cong [OF bubble_mset, of set_mset] by simp

lemma bubble_nonempty: "fst (bubble f x ys) \<noteq> []"
  using bubble_length [of f x ys] by (metis Suc_neq_Zero list.size(3))

text \<open>The sort function orders the elements: it is transitive in the sense of \<open>not greater\<close>, and of two
  elements one is not greater than the other.\<close>

locale sort_order =
  fixes f :: "nat \<Rightarrow> nat \<Rightarrow> int"
  assumes total: "f x y > 0 \<Longrightarrow> f y x \<le> 0"
    and trans: "f x y \<le> 0 \<Longrightarrow> f y z \<le> 0 \<Longrightarrow> f x z \<le> 0"
begin

definition le :: "nat \<Rightarrow> nat \<Rightarrow> bool" where
  "le x y \<longleftrightarrow> f x y \<le> 0"

lemma le_refl: "le x x"
  using total [of x x] by (auto simp: le_def not_le [symmetric])

lemma le_trans: "le x y \<Longrightarrow> le y z \<Longrightarrow> le x z"
  using trans by (simp add: le_def)

lemma bubble_max: "\<forall>z \<in> set (fst (bubble f x ys)). le z (List.last (fst (bubble f x ys)))"
proof (induction ys arbitrary: x)
  case (Cons y ys)
  obtain u s where u: "u = (if f x y > 0 then x else y)" and s: "s = (if f x y > 0 then y else x)" by blast
  have fst: "fst (bubble f x (y # ys)) = s # fst (bubble f u ys)" by (simp add: u s split: prod.splits)
  have "le s u" using total [of x y] by (auto simp: u s le_def)
  moreover have "le u (List.last (fst (bubble f u ys)))" using Cons.IH [of u] bubble_set [of f u ys] by auto
  ultimately have "le s (List.last (fst (bubble f u ys)))" by (rule le_trans)
  then show ?case using Cons.IH [of u] bubble_nonempty [of f u ys] unfolding fst by auto
qed (simp add: le_refl)

lemma bubble_unswapped: "\<not> snd (bubble f x ys) \<Longrightarrow> fst (bubble f x ys) = x # ys \<and> sorted_wrt le (x # ys)"
proof (induction ys arbitrary: x)
  case (Cons y ys)
  then have le: "\<not> f x y > 0" "\<not> snd (bubble f y ys)" by (auto split: if_splits prod.splits)
  note ih = Cons.IH [OF le(2)]
  have "le x y" using le(1) by (simp add: le_def)
  then have "\<forall>z \<in> set (y # ys). le x z" using ih le_trans [of x y] by auto
  then show ?case using le(1) ih by (simp add: case_prod_beta)
qed simp

lemma snoc_sorted:
  assumes "sorted_wrt le rest" "\<forall>x \<in> set act. \<forall>y \<in> set rest. le x y" "\<forall>x \<in> set act. le x m" "m \<in> set act"
  shows "sorted_wrt le (m # rest)"
  using assms by auto

end

section \<open>A pass on the store\<close>

lemma put_info:
  "nodes h a = Some n \<Longrightarrow> put_node h (Node a) (n\<lparr>info := v\<rparr>) = Some (h\<lparr>nodes := (nodes h)(a := Some (n\<lparr>info := v\<rparr>))\<rparr>)"
  by (simp add: put_node_def)

lemma two_updates:
  fixes v w :: nat
  assumes "repr h i (ps @ r # b # bs)" "nodes h r = Some n1" "nodes h b = Some n2"
  defines "h2 \<equiv> h\<lparr>nodes := (nodes h)(r := Some (n1\<lparr>info := v\<rparr>), b := Some (n2\<lparr>info := w\<rparr>))\<rparr>"
  shows "repr h2 i (ps @ r # b # bs)" "infos h2 (ps @ r # b # bs) = infos h ps @ v # w # infos h bs"
proof -
  let ?h1 = "h\<lparr>nodes := (nodes h)(r := Some (n1\<lparr>info := v\<rparr>))\<rparr>"
  have d: "r \<noteq> b" using repr_distinct [OF assms(1)] by auto
  note one = info_update [OF assms(1,2), of v]
  have n2: "nodes ?h1 b = Some n2" using assms(3) d by simp
  have h2: "h2 = ?h1\<lparr>nodes := (nodes ?h1)(b := Some (n2\<lparr>info := w\<rparr>))\<rparr>" by (simp add: h2_def)
  have one': "repr ?h1 i ((ps @ [r]) @ b # bs)" using one(1) by simp
  note two = info_update [OF one' n2, of w, folded h2]
  show "repr h2 i (ps @ r # b # bs)" using two(1) by simp
  have "infos ?h1 (ps @ [r]) = infos h ps @ [v]" "infos ?h1 bs = infos h bs"
    using one(2) assms(2,3) d by (simp_all add: infos_def)
  then show "infos h2 (ps @ r # b # bs) = infos h ps @ v # w # infos h bs" using two(2) by simp
qed

text \<open>The nodes of the list are \<open>ps\<close> (done), \<open>r\<close> (behind \<open>ref1\<close>), \<open>ns\<close> (still to compare) and \<open>rest\<close> (from \<open>last_ref\<close> on).\<close>

lemma sort_pass_repr:
  assumes "repr h i (ps @ r # ns @ rest)" "el it = tail_loc i (ps @ [r])" "it_list it = i"
    and "infos h [r] = [item1]" "0 \<notin> set (infos h ns)"
    and "stop_ref \<notin> Node ` set ns" "rest = [] \<or> stop_ref = Node (hd rest)" "length ns < fuel"
  shows "\<exists>h'. sort_pass fuel sort_func h it item1 (Node r) stop_ref sw =
        Some (h', Node (List.last (r # ns)), sw \<or> snd (bubble sort_func item1 (infos h ns)))
      \<and> repr h' i (ps @ r # ns @ rest)
      \<and> infos h' (ps @ r # ns @ rest) = infos h ps @ fst (bubble sort_func item1 (infos h ns)) @ infos h rest"
  using assms
proof (induction ns arbitrary: h ps r it item1 fuel sw)
  case Nil
  then obtain fuel' where fuel: "fuel = Suc fuel'" by (cases fuel) auto
  show ?case
  proof (cases rest)
    case Nil': Nil
    have "repr h i (ps @ [r])" using Nil.prems(1) Nil' by simp
    from it_next_end [OF this Nil.prems(2)] show ?thesis
      using Nil.prems fuel Nil' by simp
  next
    case (Cons c cs)
    obtain n where n: "nodes h c = Some n" using repr_nodes [OF Nil.prems(1), of c] Cons by auto
    have "repr h i ((ps @ [r]) @ c # cs)" using Nil.prems(1) Cons by simp
    from it_next_repr [OF this Nil.prems(2)] show ?thesis
      using Nil.prems fuel Cons infos_simps(2) [of h "[r]" rest] by (simp add: it_ref_def)
  qed
next
  case (Cons b ns)
  then obtain fuel' where fuel: "fuel = Suc fuel'" by (cases fuel) auto
  obtain n1 where n1: "nodes h r = Some n1" using repr_nodes [OF Cons.prems(1), of r] by auto
  obtain n2 where n2: "nodes h b = Some n2" using repr_nodes [OF Cons.prems(1), of b] by auto
  have item1: "item1 = info n1" using Cons.prems(4) n1 by (simp add: infos_Cons)
  let ?it2 = "it\<lparr>prev := Some (tail_loc i (ps @ [r])), current := Node b, el := tail_loc i ((ps @ [r]) @ [b])\<rparr>"
  have "repr h i ((ps @ [r]) @ b # (ns @ rest))" using Cons.prems(1) by simp
  from it_next_repr [OF this Cons.prems(2)] have nx: "it_next h it = Some (info n2, ?it2)"
    using n2 by (simp add: infos_Cons)
  have go: "info n2 \<noteq> 0" "it_ref ?it2 = Node b" "Node b \<noteq> stop_ref"
    using Cons.prems(5,6) n2 by (auto simp: infos_Cons it_ref_def)
  have ib: "infos h (b # ns) = info n2 # infos h ns" using n2 by (simp add: infos_Cons)
  have d: "distinct (ps @ r # b # ns @ rest)" using repr_distinct [OF Cons.prems(1)] by simp
  show ?case
  proof (cases "sort_func item1 (info n2) > 0")
    case True
    let ?h2 = "h\<lparr>nodes := (nodes h)(r := Some (n1\<lparr>info := info n2\<rparr>), b := Some (n2\<lparr>info := item1\<rparr>))\<rparr>"
    have rp: "repr h i (ps @ r # b # (ns @ rest))" using Cons.prems(1) by simp
    note up = two_updates [OF rp n1 n2, where v = "info n2" and w = item1]
    have parts: "infos ?h2 (ps @ [r]) = infos h ps @ [info n2]" "infos ?h2 [b] = [item1]" "infos ?h2 ns = infos h ns" "infos ?h2 rest = infos h rest"
      using d by (auto simp: infos_def)
    have "\<exists>h'. sort_pass fuel' sort_func ?h2 ?it2 item1 (Node b) stop_ref True =
        Some (h', Node (List.last (b # ns)), True \<or> snd (bubble sort_func item1 (infos ?h2 ns)))
      \<and> repr h' i ((ps @ [r]) @ b # ns @ rest)
      \<and> infos h' ((ps @ [r]) @ b # ns @ rest) = infos ?h2 (ps @ [r]) @ fst (bubble sort_func item1 (infos ?h2 ns)) @ infos ?h2 rest"
      by (rule Cons.IH) (use up Cons.prems fuel parts ib in \<open>auto\<close>)
    then obtain h' where h': "sort_pass fuel' sort_func ?h2 ?it2 item1 (Node b) stop_ref True = Some (h', Node (List.last (b # ns)), True)"
      "repr h' i (ps @ r # b # ns @ rest)"
      "infos h' (ps @ r # b # ns @ rest) = infos h ps @ info n2 # fst (bubble sort_func item1 (infos h ns)) @ infos h rest"
      using parts by auto
    have "b \<noteq> r" using d by auto
    then have "sort_pass fuel sort_func h it item1 (Node r) stop_ref sw = Some (h', Node (List.last (b # ns)), True)"
      using fuel nx go True n1 n2 h'(1) by (simp add: put_info fun_upd_twist)
    then show ?thesis using h' True ib by (auto simp: split: prod.splits)
  next
    case False
    have "\<exists>h'. sort_pass fuel' sort_func h ?it2 (info n2) (Node b) stop_ref sw =
        Some (h', Node (List.last (b # ns)), sw \<or> snd (bubble sort_func (info n2) (infos h ns)))
      \<and> repr h' i ((ps @ [r]) @ b # ns @ rest)
      \<and> infos h' ((ps @ [r]) @ b # ns @ rest) = infos h (ps @ [r]) @ fst (bubble sort_func (info n2) (infos h ns)) @ infos h rest"
      by (rule Cons.IH) (use Cons.prems fuel n2 ib in \<open>auto simp: infos_Cons\<close>)
    then show ?thesis
      using fuel nx go False Cons.prems(4) ib by (auto split: prod.splits)
  qed
qed

section \<open>All passes\<close>

context sort_order
begin

lemma sort_passes_repr:
  assumes "repr h i (act @ rest)" "it_list it = i" "el it = FirstOf i" "act \<noteq> []" "0 \<notin> set (infos h act)"
    and "ref \<notin> Node ` set act" "rest = [] \<or> ref = Node (hd rest)"
    and "sorted_wrt le (infos h rest)" "\<forall>x \<in> set (infos h act). \<forall>y \<in> set (infos h rest). le x y"
    and "length act \<le> fuel" "length act \<le> inner"
  shows "\<exists>h'. sort_passes fuel inner f h it ref = Some h' \<and> repr h' i (act @ rest)
    \<and> mset (infos h' (act @ rest)) = mset (infos h (act @ rest)) \<and> sorted_wrt le (infos h' (act @ rest))"
  using assms
proof (induction fuel arbitrary: h act rest it ref)
  case (Suc fuel)
  from Suc.prems(4) obtain a ns where act: "act = a # ns" by (cases act) auto
  let ?l = "List.last act" and ?ns = "butlast act"
  have split: "act = ?ns @ [?l]" using Suc.prems(4) by simp
  obtain n where n: "nodes h a = Some n" using repr_nodes [OF Suc.prems(1), of a] act by auto
  have ia: "infos h act = info n # infos h ns" using n by (simp add: act infos_Cons)
  define zs sw where "zs = fst (bubble f (info n) (infos h ns))" and "sw = snd (bubble f (info n) (infos h ns))"
  let ?it1 = "it\<lparr>prev := Some (FirstOf i), current := Node a, el := tail_loc i [a]\<rparr>"
  have nx: "it_next h it = Some (info n, ?it1)"
    using it_next_repr [of h i "[]" a "ns @ rest" it] Suc.prems(1,3) n by (simp add: act infos_Cons tail_loc_def)
  obtain h1 where h1: "sort_pass inner f h ?it1 (info n) (Node a) ref False = Some (h1, Node ?l, sw)"
    "repr h1 i (act @ rest)" "infos h1 (act @ rest) = zs @ infos h rest"
    using sort_pass_repr [of h i "[]" a ns rest ?it1 "info n" ref inner f False] Suc.prems n ia
    by (auto simp: act infos_Cons zs_def sw_def)
  have zs: "mset zs = mset (infos h act)" "set zs = set (infos h act)" "zs \<noteq> []" "length zs = length act"
    by (simp_all add: zs_def ia bubble_mset bubble_set bubble_nonempty) (simp add: act)
  have parts: "infos h1 act = zs" "infos h1 rest = infos h rest" using h1(3) zs(4) by simp_all
  show ?case
  proof (cases sw)
    case False
    have "sorted_wrt le zs" using bubble_unswapped [of "info n" "infos h ns"] False by (simp add: zs_def sw_def)
    then have "sorted_wrt le (zs @ infos h rest)" using Suc.prems(8,9) zs(2) by (simp add: sorted_wrt_append)
    then show ?thesis using nx h1 False zs(1) by (simp add: it_ref_def parts)
  next
    case True
    then have "ns \<noteq> []" by (auto simp: sw_def)
    then have ne: "?ns \<noteq> []" by (simp add: act)
    have zb: "infos h1 ?ns = butlast zs" "infos h1 [?l] = [List.last zs]"
      using parts(1) infos_simps(2) [of h1 ?ns "[?l]"] split zs(3)
      by (metis append_butlast_last_id append_eq_append_conv infos_simps(3) length_butlast zs(4))+
    have zl: "infos h1 (?l # rest) = List.last zs # infos h rest"
      using infos_simps(2) [of h1 "[?l]" rest] zb(2) parts(2) by simp
    have d: "distinct (?ns @ ?l # rest)" using repr_distinct [OF Suc.prems(1)] by (metis append_Cons append_Nil append_assoc split)
    have mx: "\<forall>z \<in> set zs. le z (List.last zs)" using bubble_max unfolding zs_def .
    have inz: "set (butlast zs) \<subseteq> set zs" "List.last zs \<in> set zs" using zs(3) by (auto dest: in_set_butlastD)
    have cross: "\<forall>x \<in> set zs. \<forall>y \<in> set (infos h rest). le x y" using Suc.prems(9) zs(2) by simp
    have "\<exists>h'. sort_passes fuel inner f h1 (it_rewind ?it1) (Node ?l) = Some h' \<and> repr h' i (?ns @ ?l # rest)
      \<and> mset (infos h' (?ns @ ?l # rest)) = mset (infos h1 (?ns @ ?l # rest)) \<and> sorted_wrt le (infos h' (?ns @ ?l # rest))"
    proof (rule Suc.IH)
      show "repr h1 i (?ns @ ?l # rest)" using h1(2) split by (metis append_Cons append_Nil append_assoc)
      show "0 \<notin> set (infos h1 ?ns)" using zb(1) inz(1) zs(2) Suc.prems(5) by auto
      show "Node ?l \<notin> Node ` set ?ns" using d by auto
      show "sorted_wrt le (infos h1 (?l # rest))" using Suc.prems(8) cross inz(2) by (simp add: zl)
      show "\<forall>x \<in> set (infos h1 ?ns). \<forall>y \<in> set (infos h1 (?l # rest)). le x y"
        using mx cross inz(1) by (auto simp: zl zb(1))
    qed (use Suc.prems ne in \<open>auto simp: it_rewind_def\<close>)
    moreover have eq: "?ns @ ?l # rest = act @ rest" using split by (metis append_Cons append_Nil append_assoc)
    ultimately show ?thesis using nx h1 True zs(1) by (auto simp: it_ref_def parts)
  qed
qed simp

lemma bubble_sort_repr:
  assumes "repr h i as" "0 \<notin> set (infos h as)" "length as < fuel"
  shows "\<exists>h'. bubble_sort fuel f h i = Some h' \<and> repr h' i as \<and> mset (infos h' as) = mset (infos h as) \<and> sorted_wrt le (infos h' as)"
proof (cases "as = []")
  case False
  then show ?thesis
    using sort_passes_repr [of h i as "[]" "it_init i" Null fuel fuel] assms
    by (auto simp: bubble_sort_def it_init_def)
next
  case True
  then obtain fuel' where fuel: "fuel = Suc fuel'" using assms(3) by (cases fuel) auto
  have h: "end_of_list h = eol_node" "repr h i []" using assms(1) True by (auto elim: reprE)
  let ?it = "it_init i\<lparr>prev := Some (FirstOf i), current := EndOfList, el := NextOf EndOfList\<rparr>"
  have "it_next h (it_init i) = Some (0, ?it)"
    using it_next_end [OF h(2), of "it_init i"] by (simp add: it_init_def tail_loc_def)
  moreover have "it_next h ?it = Some (0, ?it\<lparr>prev := Some (NextOf EndOfList)\<rparr>)"
    using h(1) by (simp add: it_next_def get_loc_def eol_node_def)
  ultimately show ?thesis using assms(1) True by (simp add: bubble_sort_def fuel)
qed

end

section \<open>The contract of a list\<close>

text \<open>An element is a pair of the address of its node and the pointer stored in it.\<close>

definition list_inv :: "nat \<Rightarrow> store \<Rightarrow> (nat \<times> nat) list \<Rightarrow> bool" where
  "list_inv i h vs \<longleftrightarrow> repr h i (map fst vs) \<and> infos h (map fst vs) = map snd vs"

definition list_push_back :: "nat \<Rightarrow> store \<Rightarrow> nat \<times> nat \<Rightarrow> store option" where
  "list_push_back i h v = map_option snd (push_back h i (Some (fst v)) (snd v))"

definition list_push_front :: "nat \<Rightarrow> store \<Rightarrow> nat \<times> nat \<Rightarrow> store option" where
  "list_push_front i h v = map_option snd (push_front h i (Some (fst v)) (snd v))"

interpretation bl: sequence "list_inv i" "\<lambda>h vs v. nodes h (fst v) = None" fst "2 ^ 32"
  "list_push_back i" "list_push_front i" "\<lambda>h. pop h i" snd for i
proof
  fix h vs and v :: "nat \<times> nat"
  assume v: "list_inv i h vs" "nodes h (fst v) = None" "length vs + 1 < 2 ^ 32"
  let ?as = "map fst vs"
  from v have r: "repr h i ?as" "infos h ?as = map snd vs" "length ?as + 1 < 2 ^ 32" by (auto simp: list_inv_def)
  have old: "nodes h b \<noteq> None" if "b \<in> set ?as" for b using repr_nodes [OF r(1)] that by blast
  from push_back_repr [OF r(1) v(2) r(3), of "snd v"] obtain h' where h': "push_back h i (Some (fst v)) (snd v) = Some (False, h')"
    "repr h' i (?as @ [fst v])" "infos h' (?as @ [fst v]) = infos h ?as @ [snd v]" "touches h h' {i} (insert (fst v) (set ?as))" by blast
  have "nodes h' (fst w) = None" if "fst w \<noteq> fst v" "nodes h (fst w) = None" for w :: "nat \<times> nat"
    using touchesD(2) [OF h'(4), of "fst w"] old [of "fst w"] that by auto
  then show "\<exists>s'. list_push_back i h v = Some s' \<and> list_inv i s' (vs @ [v]) \<and>
      (\<forall>w. fst w \<noteq> fst v \<and> nodes h (fst w) = None \<longrightarrow> nodes s' (fst w) = None)"
    using h' r(2) by (auto simp: list_push_back_def list_inv_def)
  from push_front_repr [OF r(1) v(2) r(3), of "snd v"] obtain h'' where h'': "push_front h i (Some (fst v)) (snd v) = Some (False, h'')"
    "repr h'' i (fst v # ?as)" "infos h'' (fst v # ?as) = snd v # infos h ?as" "touches h h'' {i} {fst v}" by blast
  then show "\<exists>s'. list_push_front i h v = Some s' \<and> list_inv i s' (v # vs) \<and>
      (\<forall>w. fst w \<noteq> fst v \<and> nodes h (fst w) = None \<longrightarrow> nodes s' (fst w) = None)"
    using r(2) touchesD(2) [OF h''(4)] by (auto simp: list_push_front_def list_inv_def)
next
  fix h v and vs :: "(nat \<times> nat) list"
  assume "list_inv i h (v # vs)"
  then have r: "repr h i (fst v # map fst vs)" "infos h (fst v # map fst vs) = snd v # map snd vs" by (auto simp: list_inv_def)
  have "infos h (map fst vs) = map snd vs" using r(2) by (simp add: infos_def)
  with pop_repr [OF r(1)] r(2) show "\<exists>s'. pop h i = Some (snd v, s') \<and> list_inv i s' vs"
    by (auto simp: list_inv_def)
qed

section \<open>Properties\<close>

text \<open>A \<open>base_list\<close> filled with \<open>push_back\<close> is a queue: popping as often as was pushed returns the elements in
  the order of the pushes and leaves the list empty and well formed, whatever allocator results the nodes have.\<close>

theorem base_list_queue:
  assumes "list_inv i h []" and "\<forall>w \<in> set ws. nodes h (fst w) = None" and "distinct (map fst ws)" and "length ws < 2 ^ 32"
  shows "\<exists>h1 h2. iter_push (list_push_back i) h ws = Some h1 \<and>
    iter_pop (\<lambda>h. pop h i) h1 (length ws) = Some (map snd ws, h2) \<and> list_inv i h2 []"
  using bl.queue_order [OF assms] .

definition store0 :: store where
  "store0 = list_empty (list_empty \<lparr>nodes = (\<lambda>_. None), lists = (\<lambda>_. None), end_of_list = eol_node\<rparr> 2) 3"

lemma store0_repr: "repr store0 2 []" "repr store0 3 []" "nodes store0 a = None"
  by (simp_all add: store0_def list_empty_def repr_def open_list_def tail_loc_def)

theorem base_list_queue_witness:
  "\<exists>h1 h2. iter_push (list_push_back 2) store0 [(10, 7), (20, 8)] = Some h1 \<and>
    iter_pop (\<lambda>h. pop h 2) h1 (length [(10 :: nat, 7 :: nat), (20, 8)]) = Some (map snd [(10 :: nat, 7), (20, 8)], h2) \<and> list_inv 2 h2 []"
  by (rule base_list_queue) (auto simp: list_inv_def store0_repr)

text \<open>Joining two disjoint lists: \<open>append\<close> and \<open>prepend\<close> give the concatenation in the respective order,
  \<open>swap\<close> exchanges the two sequences, and \<open>disjoin\<close> takes a list that is a non-empty tail of this one off again; the
  invariant (links, element count, pointer to the last link) holds after each.\<close>

theorem base_list_join:
  assumes "repr h i as" and "repr h j bs" and "i \<noteq> j" and "set as \<inter> set bs = {}" and "length as + length bs < 2 ^ 32"
  shows "(\<exists>h'. list_append h i j = Some h' \<and> repr h' i (as @ bs) \<and> infos h' (as @ bs) = infos h as @ infos h bs)
    \<and> (\<exists>h'. prepend h i j = Some h' \<and> repr h' i (bs @ as) \<and> infos h' (bs @ as) = infos h bs @ infos h as)
    \<and> (\<exists>h'. swap h i j = Some h' \<and> repr h' i bs \<and> repr h' j as \<and> infos h' = infos h)
    \<and> (bs \<noteq> [] \<longrightarrow> (\<exists>h' h''. list_append h i j = Some h' \<and> disjoin (length as + 1) h' i j = Some h'' \<and> repr h'' i as \<and> repr h'' j bs))"
proof (intro conjI impI)
  from append_repr [OF assms] obtain h' where h': "list_append h i j = Some h'" "repr h' i (as @ bs)"
    "infos h' (as @ bs) = infos h as @ infos h bs" "touches h h' {i} (set as)" by blast
  then show "\<exists>h'. list_append h i j = Some h' \<and> repr h' i (as @ bs) \<and> infos h' (as @ bs) = infos h as @ infos h bs" by blast
  have "repr h' j bs" using repr_frame [OF assms(2) h'(4)] assms(3,4) by auto
  then show "\<exists>h' h''. list_append h i j = Some h' \<and> disjoin (length as + 1) h' i j = Some h'' \<and> repr h'' i as \<and> repr h'' j bs" if "bs \<noteq> []"
    using disjoin_repr [OF h'(2) _ assms(3) that, of "length as + 1"] h'(1) by auto
qed (use prepend_repr [OF assms] swap_repr [OF assms(1-3)] in blast)+

theorem base_list_join_witness:
  "\<exists>h'. list_append store0 2 3 = Some h' \<and> repr h' 2 ([] @ [])"
  using base_list_join [OF store0_repr(1,2)] by auto

text \<open>Walking a list with the iterator and removing the elements that fail a test leaves exactly the
  elements that pass it, in order, in a well-formed list; the walk ends after at most one step per element and the end marker.\<close>

theorem iterator_filter:
  assumes "repr h i as" and "0 \<notin> set (infos h as)"
  shows "\<exists>h' bs. filter_loop (length as + 1) P h (it_init i) = Some h' \<and> repr h' i bs \<and> infos h' bs = filter P (infos h as)"
  using filter_loop_repr [of h i "[]" as "it_init i" "length as + 1" P] assms by (auto simp: it_init_def tail_loc_def)

definition store3 :: store where
  "store3 = \<lparr>nodes = (\<lambda>_. None)(10 := Some \<lparr>next = Node 20, info = 33\<rparr>, 20 := Some \<lparr>next = Node 30, info = 11\<rparr>, 30 := Some \<lparr>next = EndOfList, info = 22\<rparr>),
     lists = (\<lambda>_. None)(2 := Some \<lparr>first = Node 10, last_ptr = NextOf (Node 30), elements = 3\<rparr>), end_of_list = eol_node\<rparr>"

lemma store3_repr: "repr store3 2 [10, 20, 30]" "infos store3 [10, 20, 30] = [33, 11, 22]"
  by (simp_all add: store3_def repr_def open_list_def tail_loc_def infos_def)

theorem iterator_filter_witness:
  "\<exists>h' bs. filter_loop (length [10, 20, 30 :: nat] + 1) (\<lambda>v. v > 15) store3 (it_init 2) = Some h' \<and> repr h' 2 bs
    \<and> infos h' bs = filter (\<lambda>v. v > 15) (infos store3 [10, 20, 30])"
  using iterator_filter [OF store3_repr(1), of "\<lambda>v. v > 15"] by (simp add: store3_repr(2))

text \<open>C20: \<open>bubble_sort\<close> ends and sorts: the nodes and links stay as they were, the elements are a permutation of the
  former ones and no element is greater than a later one, for every sort function that orders the elements.\<close>

theorem bubble_sort_sorts:
  assumes "sort_order sort_func" and "repr h i as" and "0 \<notin> set (infos h as)"
  shows "\<exists>h'. bubble_sort (length as + 1) sort_func h i = Some h' \<and> repr h' i as \<and> mset (infos h' as) = mset (infos h as)
    \<and> sorted_wrt (\<lambda>x y. sort_func x y \<le> 0) (infos h' as)"
proof -
  have "sort_order.le sort_func = (\<lambda>x y. sort_func x y \<le> 0)"
    using sort_order.le_def [OF assms(1)] by (auto simp: fun_eq_iff)
  then show ?thesis using sort_order.bubble_sort_repr [OF assms, of "length as + 1"] by simp
qed

text \<open>Pointers compared by their addresses, as a sort function may do.\<close>

interpretation addr: sort_order "\<lambda>x y. int x - int y"
  by unfold_locales auto

theorem bubble_sort_sorts_witness:
  "\<exists>h'. bubble_sort (length [10, 20, 30 :: nat] + 1) (\<lambda>x y. int x - int y) store3 2 = Some h' \<and> repr h' 2 [10, 20, 30]
    \<and> mset (infos h' [10, 20, 30]) = mset (infos store3 [10, 20, 30]) \<and> sorted_wrt (\<lambda>x y. int x - int y \<le> 0) (infos h' [10, 20, 30])"
  by (rule bubble_sort_sorts [OF addr.sort_order_axioms store3_repr(1)]) (simp add: store3_repr(2))

text \<open>When the allocator fails, \<open>push_back\<close> returns an error but has stored a null pointer in the last link: the
  list no longer ends in \<open>end_of_list\<close>, and an iterator that walks to its end follows the null pointer.\<close>

theorem push_back_failure_breaks_list:
  assumes "repr h i as"
  shows "\<exists>h'. push_back h i None dat = Some (True, h') \<and> \<not> repr h' i as \<and> it_next h' \<lparr>it_list = i, el = tail_loc i as, prev = None, current = Null\<rparr> = None"
proof -
  from push_back_no_memory [OF assms, of dat] obtain h' where h': "push_back h i None dat = Some (True, h')" "open_list h' i as Null" by blast
  from h'(2) obtain L where L: "lists h' i = Some L" "lseg h' (first L) as Null" by (rule open_listE)
  have "\<not> repr h' i as"
  proof
    assume "repr h' i as"
    then have "lseg h' (first L) as EndOfList" using L(1) by (auto elim: reprE)
    from get_tail [OF L(1) this] get_tail [OF L] show False by simp
  qed
  moreover have "it_next h' \<lparr>it_list = i, el = tail_loc i as, prev = None, current = Null\<rparr> = None"
    using get_tail [OF L] by (simp add: it_next_def)
  ultimately show ?thesis using h'(1) by blast
qed

theorem push_back_failure_breaks_list_witness:
  "\<exists>h'. push_back store0 2 None 5 = Some (True, h') \<and> \<not> repr h' 2 [] \<and>
    it_next h' \<lparr>it_list = 2, el = tail_loc 2 [], prev = None, current = Null\<rparr> = None"
  by (rule push_back_failure_breaks_list [OF store0_repr(1)])

end
