(* ===== verification/Ilist.thy ===== *)
theory Ilist imports Sequence begin

text \<open>
  \<open>private/ilist.h\<close>: the intrusive doubly linked list \<open>ilist\<close> with a sentinel node, and \<open>sized_ilist\<close>, which adds an element
  counter. A node is identified by its address and lives inside the user's object, so the store has the \<open>next\<close> and \<open>prev\<close>
  field of every address; a list is the address of its \<open>sentinel_\<close>. This is the build with
  \<open>DBUG_OFF\<close>: \<open>erase\<close> leaves the fields of the erased node alone.
\<close>

section \<open>ilist\<close>

record ilist_store =
  inext :: "nat \<Rightarrow> nat"
  iprev :: "nat \<Rightarrow> nat"

definition set_next :: "nat \<Rightarrow> nat \<Rightarrow> ilist_store \<Rightarrow> ilist_store" where
  "set_next a v h = h\<lparr>inext := (inext h)(a := v)\<rparr>"

definition set_prev :: "nat \<Rightarrow> nat \<Rightarrow> ilist_store \<Rightarrow> ilist_store" where
  "set_prev a v h = h\<lparr>iprev := (iprev h)(a := v)\<rparr>"

text \<open>The constructor and \<open>clear\<close> make the sentinel point to itself.\<close>

definition ilist_init :: "ilist_store \<Rightarrow> nat \<Rightarrow> ilist_store" where
  "ilist_init h s = set_prev s s (set_next s s h)"

definition ilist_clear :: "ilist_store \<Rightarrow> nat \<Rightarrow> ilist_store" where
  "ilist_clear h s = set_prev s s (set_next s s h)"

text \<open>An iterator is the address of its node.\<close>

definition ilist_begin :: "ilist_store \<Rightarrow> nat \<Rightarrow> nat" where
  "ilist_begin h s = inext h s"

definition ilist_end :: "nat \<Rightarrow> nat" where
  "ilist_end s = s"

definition Iterator_inc :: "ilist_store \<Rightarrow> nat \<Rightarrow> nat" where
  "Iterator_inc h node = inext h node"

definition Iterator_dec :: "ilist_store \<Rightarrow> nat \<Rightarrow> nat" where
  "Iterator_dec h node = iprev h node"

definition Iterator_eq :: "nat \<Rightarrow> nat \<Rightarrow> bool" where
  "Iterator_eq lhs rhs = (lhs = rhs)"

definition ilist_front :: "ilist_store \<Rightarrow> nat \<Rightarrow> nat" where
  "ilist_front h s = ilist_begin h s"

definition ilist_back :: "ilist_store \<Rightarrow> nat \<Rightarrow> nat" where
  "ilist_back h s = Iterator_dec h (ilist_end s)"

definition ilist_empty :: "ilist_store \<Rightarrow> nat \<Rightarrow> bool" where
  "ilist_empty h s = (inext h s = s)"

definition ilist_insert :: "ilist_store \<Rightarrow> nat \<Rightarrow> nat \<Rightarrow> nat \<times> ilist_store" where
  "ilist_insert h pos v =
     (let curr = pos;
          prev = iprev h pos;
          h1 = set_next prev v h;
          h2 = set_prev curr v h1;
          h3 = set_prev v prev h2
      in (v, set_next v curr h3))"

definition ilist_erase :: "ilist_store \<Rightarrow> nat \<Rightarrow> nat \<times> ilist_store" where
  "ilist_erase h pos =
     (let prev = iprev h pos;
          nxt = inext h pos
      in (nxt, set_prev nxt prev (set_next prev nxt h)))"

definition ilist_push_back :: "ilist_store \<Rightarrow> nat \<Rightarrow> nat \<Rightarrow> ilist_store" where
  "ilist_push_back h s v = snd (ilist_insert h (ilist_end s) v)"

definition ilist_pop_back :: "ilist_store \<Rightarrow> nat \<Rightarrow> ilist_store" where
  "ilist_pop_back h s = snd (ilist_erase h (ilist_end s))"

definition ilist_push_front :: "ilist_store \<Rightarrow> nat \<Rightarrow> nat \<Rightarrow> ilist_store" where
  "ilist_push_front h s v = snd (ilist_insert h (ilist_begin h s) v)"

definition ilist_pop_front :: "ilist_store \<Rightarrow> nat \<Rightarrow> ilist_store" where
  "ilist_pop_front h s = snd (ilist_erase h (ilist_begin h s))"

definition ilist_remove :: "ilist_store \<Rightarrow> nat \<Rightarrow> ilist_store" where
  "ilist_remove h v = snd (ilist_erase h v)"

section \<open>sized_ilist\<close>

record sized_ilist =
  base :: ilist_store
  ilist_size :: size_t

definition sized_init :: "ilist_store \<Rightarrow> nat \<Rightarrow> sized_ilist" where
  "sized_init h s = \<lparr>base = ilist_init h s, ilist_size = 0\<rparr>"

definition sized_clear :: "sized_ilist \<Rightarrow> nat \<Rightarrow> sized_ilist" where
  "sized_clear z s = \<lparr>base = ilist_clear (base z) s, ilist_size = 0\<rparr>"

definition sized_insert :: "sized_ilist \<Rightarrow> nat \<Rightarrow> nat \<Rightarrow> nat \<times> sized_ilist" where
  "sized_insert z pos v = (let (r, h) = ilist_insert (base z) pos v in (r, \<lparr>base = h, ilist_size = ilist_size z + 1\<rparr>))"

definition sized_erase :: "sized_ilist \<Rightarrow> nat \<Rightarrow> nat \<times> sized_ilist" where
  "sized_erase z pos = (let (r, h) = ilist_erase (base z) pos in (r, \<lparr>base = h, ilist_size = ilist_size z - 1\<rparr>))"

definition sized_push_back :: "sized_ilist \<Rightarrow> nat \<Rightarrow> nat \<Rightarrow> sized_ilist" where
  "sized_push_back z s v = snd (sized_insert z (ilist_end s) v)"

definition sized_pop_back :: "sized_ilist \<Rightarrow> nat \<Rightarrow> sized_ilist" where
  "sized_pop_back z s = snd (sized_erase z (ilist_end s))"

definition sized_push_front :: "sized_ilist \<Rightarrow> nat \<Rightarrow> nat \<Rightarrow> sized_ilist" where
  "sized_push_front z s v = snd (sized_insert z (ilist_begin (base z) s) v)"

definition sized_pop_front :: "sized_ilist \<Rightarrow> nat \<Rightarrow> sized_ilist" where
  "sized_pop_front z s = snd (sized_erase z (ilist_begin (base z) s))"

definition sized_remove :: "sized_ilist \<Rightarrow> nat \<Rightarrow> sized_ilist" where
  "sized_remove z v = snd (sized_erase z v)"

section \<open>The ring of nodes\<close>

definition link :: "ilist_store \<Rightarrow> nat \<Rightarrow> nat \<Rightarrow> bool" where
  "link h a b \<longleftrightarrow> inext h a = b \<and> iprev h b = a"

text \<open>Sentinel, elements, sentinel: each pair of neighbours is linked both ways.\<close>

definition ring :: "ilist_store \<Rightarrow> nat \<Rightarrow> nat list \<Rightarrow> bool" where
  "ring h s as \<longleftrightarrow> distinct (s # as) \<and> successively (link h) (s # as @ [s])"

lemma successively_link_cong:
  assumes "\<forall>a \<in> set (butlast xs). inext h' a = inext h a" "\<forall>b \<in> set (tl xs). iprev h' b = iprev h b"
  shows "successively (link h') xs = successively (link h) xs"
  using assms by (induction xs rule: induct_list012) (auto simp: link_def split: if_splits)

lemma successively_append2:
  "l1 \<noteq> [] \<Longrightarrow> l2 \<noteq> [] \<Longrightarrow> successively P (l1 @ l2) \<longleftrightarrow> successively P l1 \<and> successively P l2 \<and> P (last l1) (hd l2)"
  by (auto simp: successively_append_iff)

lemma link_store [simp]:
  "inext (set_next a v h) = (inext h)(a := v)" "iprev (set_next a v h) = iprev h"
  "inext (set_prev a v h) = inext h" "iprev (set_prev a v h) = (iprev h)(a := v)"
  by (simp_all add: set_next_def set_prev_def)

text \<open>Redirecting the two pointers between \<open>x\<close>, the last of the first part, and \<open>y\<close>, the first of the second part.\<close>

lemma parts_kept:
  assumes "successively (link h) l1" "successively (link h) l2" "l1 \<noteq> []" "l2 \<noteq> []"
    and "last l1 \<notin> set (butlast l1)" "last l1 \<notin> set (butlast l2)" "hd l2 \<notin> set (tl l1)" "hd l2 \<notin> set (tl l2)"
    and "v \<notin> set (l1 @ l2)"
  shows "successively (link (set_next v a (set_prev v b (set_prev (hd l2) c (set_next (last l1) d h))))) l1"
    and "successively (link (set_next v a (set_prev v b (set_prev (hd l2) c (set_next (last l1) d h))))) l2"
proof -
  have sub: "set (butlast l) \<subseteq> set l" "set (tl l) \<subseteq> set l" for l :: "nat list"
    by (auto dest: in_set_butlastD list.set_sel(2) intro: list.set_sel(2))
  show "successively (link (set_next v a (set_prev v b (set_prev (hd l2) c (set_next (last l1) d h))))) l1"
    by (subst successively_link_cong [where h = h]) (use assms sub [of l1] in \<open>auto\<close>)
  show "successively (link (set_next v a (set_prev v b (set_prev (hd l2) c (set_next (last l1) d h))))) l2"
    by (subst successively_link_cong [where h = h]) (use assms sub [of l2] in \<open>auto\<close>)
qed

lemma ring_split:
  assumes "ring h s (as @ bs)"
  shows "successively (link h) (s # as)" "successively (link h) (bs @ [s])" "link h (last (s # as)) (hd (bs @ [s]))"
  using assms successively_append2 [of "s # as" "bs @ [s]" "link h"] by (auto simp: ring_def)

lemma ring_ends:
  assumes "distinct (s # as @ bs)"
  shows "last (s # as) \<notin> set (butlast (s # as))" "last (s # as) \<notin> set (butlast (bs @ [s]))"
    "hd (bs @ [s]) \<notin> set (tl (s # as))" "hd (bs @ [s]) \<notin> set (tl (bs @ [s]))"
proof -
  have "distinct (butlast (s # as) @ [last (s # as)])" using assms by (subst append_butlast_last_id) auto
  then show "last (s # as) \<notin> set (butlast (s # as))" by (simp only: distinct_append) auto
  have "last (s # as) \<in> set (s # as)" by (rule last_in_set) simp
  moreover have "set (s # as) \<inter> set bs = {}" using assms by auto
  ultimately show "last (s # as) \<notin> set (butlast (bs @ [s]))" unfolding butlast_snoc by blast
  show "hd (bs @ [s]) \<notin> set (tl (s # as))" "hd (bs @ [s]) \<notin> set (tl (bs @ [s]))"
    using assms by (cases bs; auto)+
qed

lemma ring_insert:
  assumes "ring h s (as @ bs)" "v \<notin> set (s # as @ bs)"
  shows "ring (snd (ilist_insert h (hd (bs @ [s])) v)) s (as @ v # bs)"
proof -
  let ?x = "last (s # as)" and ?y = "hd (bs @ [s])"
  let ?h = "set_next v ?y (set_prev v ?x (set_prev ?y v (set_next ?x v h)))"
  note sp = ring_split [OF assms(1)]
  have d: "distinct (s # as @ bs)" using assms(1) by (simp add: ring_def)
  have eq: "snd (ilist_insert h ?y v) = ?h" using sp(3) by (simp add: ilist_insert_def Let_def link_def)
  have vxy: "v \<noteq> ?x" "v \<noteq> ?y" using assms(2) last_in_set [of "s # as"] hd_in_set [of "bs @ [s]"] by (auto simp del: hd_append2)
  have vn: "v \<notin> set ((s # as) @ (bs @ [s]))" using assms(2) by auto
  note kept = parts_kept [OF sp(1,2) _ _ ring_ends [OF d] vn, of ?y ?x v v]
  have "link ?h ?x v" "link ?h v ?y" using vxy by (auto simp: link_def)
  then have "successively (link ?h) ((s # as) @ v # (bs @ [s]))"
    using kept successively_append2 [of "s # as" "v # (bs @ [s])" "link ?h"]
      successively_append2 [of "[v]" "bs @ [s]" "link ?h"] by simp
  then show ?thesis using d assms(2) by (simp add: eq ring_def)
qed

lemma ring_erase:
  assumes "ring h s (as @ a # bs)"
  shows "ring (snd (ilist_erase h a)) s (as @ bs)" "fst (ilist_erase h a) = hd (bs @ [s])"
proof -
  let ?x = "last (s # as)" and ?y = "hd (bs @ [s])"
  have d: "distinct (s # as @ bs)" "a \<notin> set (s # as @ bs)" using assms by (auto simp: ring_def)
  have one: "successively (link h) (s # as)" "link h ?x a" using ring_split [OF assms] by auto
  have two: "successively (link h) (bs @ [s])" "link h a ?y" using ring_split [of h s "as @ [a]" bs] assms by auto
  let ?h = "set_prev ?y ?x (set_next ?x ?y h)"
  have eq: "ilist_erase h a = (?y, ?h)" using one(2) two(2) by (simp add: ilist_erase_def Let_def link_def)
  then show "fst (ilist_erase h a) = ?y" by simp
  have fresh: "a \<notin> set ((s # as) @ (bs @ [s]))" using d(2) by auto
  let ?k = "set_next a (inext h a) (set_prev a (iprev h a) ?h)"
  have "?x \<noteq> a" "?y \<noteq> a" using d(2) last_in_set [of "s # as"] hd_in_set [of "bs @ [s]"] by (auto simp del: hd_append2)
  then have same: "?k = ?h" by (auto simp: set_next_def set_prev_def fun_eq_iff)
  note kept = parts_kept [OF one(1) two(1) _ _ ring_ends [OF d(1)] fresh, of "inext h a" "iprev h a" ?x ?y, unfolded same]
  have "link ?h ?x ?y" by (simp add: link_def)
  then have "successively (link ?h) ((s # as) @ (bs @ [s]))"
    using kept successively_append2 [of "s # as" "bs @ [s]" "link ?h"] by simp
  then show "ring (snd (ilist_erase h a)) s (as @ bs)" using d by (simp add: eq ring_def)
qed

lemma ring_init: "ring (ilist_init h s) s []"
  by (simp add: ring_def ilist_init_def link_def)

lemma ring_begin: "ring h s (a # as) \<Longrightarrow> ilist_begin h s = a" "ring h s [] \<Longrightarrow> ilist_begin h s = s"
  by (simp_all add: ring_def ilist_begin_def link_def)

lemma ring_begin_hd: "ring h s as \<Longrightarrow> ilist_begin h s = hd (as @ [s])"
  by (cases as) (auto dest: ring_begin)

lemma ring_push_back: "ring h s as \<Longrightarrow> v \<notin> set (s # as) \<Longrightarrow> ring (ilist_push_back h s v) s (as @ [v])"
  using ring_insert [of h s as "[]" v] by (simp add: ilist_push_back_def ilist_end_def)

lemma ring_push_front: "ring h s as \<Longrightarrow> v \<notin> set (s # as) \<Longrightarrow> ring (ilist_push_front h s v) s (v # as)"
  using ring_insert [of h s "[]" as v] by (simp add: ilist_push_front_def ring_begin_hd)

lemma ring_pop_front: "ring h s (a # as) \<Longrightarrow> ring (ilist_pop_front h s) s as"
  using ring_erase(1) [of h s "[]" a as] by (simp add: ilist_pop_front_def ring_begin)

section \<open>The contract\<close>

text \<open>Taking the front element is \<open>front()\<close> followed by \<open>pop_front()\<close>.\<close>

definition ilist_take :: "nat \<Rightarrow> ilist_store \<Rightarrow> (nat \<times> ilist_store) option" where
  "ilist_take s h = Some (ilist_front h s, ilist_pop_front h s)"

interpretation il: sequence "\<lambda>h as. ring h s as" "\<lambda>h as v. v \<notin> set (s # as)" "\<lambda>v. v" cap
  "\<lambda>h v. Some (ilist_push_back h s v)" "\<lambda>h v. Some (ilist_push_front h s v)" "ilist_take s" "\<lambda>v. v" for s cap
proof
  fix h v vs assume "ring h s (v # vs)"
  then show "\<exists>s'. ilist_take s h = Some (v, s') \<and> ring s' s vs"
    by (simp add: ilist_take_def ilist_front_def ring_begin ring_pop_front)
qed (auto intro: ring_push_back ring_push_front)

text \<open>The counter of \<open>sized_ilist\<close>.\<close>

definition sized_ring :: "sized_ilist \<Rightarrow> nat \<Rightarrow> nat list \<Rightarrow> bool" where
  "sized_ring z s as \<longleftrightarrow> ring (base z) s as \<and> ilist_size z = of_nat (length as)"

section \<open>Properties\<close>

text \<open>Every modifying operation of \<open>sized_ilist\<close> except \<open>pop_back\<close> keeps the ring of nodes linked in both
  directions, does to the sequence what its name says and keeps the counter equal to the number of elements.\<close>

theorem sized_ilist_operations:
  assumes "sized_ring z s (as @ bs)" and "v \<notin> set (s # as @ bs)" and "bs \<noteq> []"
  shows "sized_ring (snd (sized_insert z (hd bs) v)) s (as @ v # bs)
    \<and> sized_ring (snd (sized_erase z (hd bs))) s (as @ tl bs)
    \<and> fst (sized_erase z (hd bs)) = hd (tl bs @ [s])
    \<and> sized_ring (sized_push_back z s v) s (as @ bs @ [v])
    \<and> sized_ring (sized_push_front z s v) s (v # as @ bs)
    \<and> sized_ring (sized_pop_front z s) s (tl (as @ bs))
    \<and> sized_ring (sized_remove z (hd bs)) s (as @ tl bs)
    \<and> sized_ring (sized_clear z s) s []"
proof -
  obtain b cs where b: "bs = b # cs" using assms(3) by (cases bs) auto
  obtain d ds where ds: "as @ bs = d # ds" using b by (cases as) auto
  have r: "ring (base z) s (as @ b # cs)" "ilist_size z = of_nat (length (as @ bs))" "ring (base z) s (d # ds)"
    using assms(1) b by (auto simp: sized_ring_def ds [symmetric])
  have "length as + length cs = length ds" using arg_cong [OF ds, of length] b by simp
  then have cnt: "(of_nat (length ds) :: size_t) = of_nat (length as) + of_nat (length cs)" by (metis of_nat_add)
  have ins: "ring (snd (ilist_insert (base z) b v)) s (as @ v # bs)" using ring_insert [of "base z" s as bs v] r(1) assms(2) b by simp
  have pb: "ring (ilist_push_back (base z) s v) s ((as @ bs) @ [v])" using ring_push_back [of "base z" s "as @ bs" v] r(1) assms(2) b by simp
  have pf: "ring (ilist_push_front (base z) s v) s (v # as @ bs)" using ring_push_front [of "base z" s "as @ bs" v] r(1) assms(2) b by simp
  have po: "ring (ilist_pop_front (base z) s) s ds" using ring_pop_front [OF r(3)] .
  have tlds: "tl (as @ bs) = ds" by (simp add: ds)
  note er = ring_erase [OF r(1)]
  show ?thesis
    unfolding tlds
    using ins pb pf po er r(2) ring_init [of "base z" s]
    by (simp add: sized_ring_def b sized_insert_def sized_erase_def sized_push_back_def sized_push_front_def sized_pop_front_def
        sized_remove_def sized_clear_def ilist_push_back_def ilist_push_front_def ilist_pop_front_def ilist_clear_def ilist_init_def
        case_prod_beta cnt algebra_simps)
qed

text \<open>A list with sentinel 0 and elements 1, 2.\<close>

definition two_list :: sized_ilist where
  "two_list = sized_push_back (sized_push_back (sized_init \<lparr>inext = (\<lambda>_. 0), iprev = (\<lambda>_. 0)\<rparr> 0) 0 10) 0 20"

lemma two_list_ring: "sized_ring two_list 0 ([10] @ [20])"
  by (simp add: two_list_def sized_ring_def ring_def sized_push_back_def sized_init_def ilist_init_def sized_insert_def
      ilist_insert_def ilist_end_def link_def Let_def)

theorem sized_ilist_operations_witness:
  "sized_ring (sized_pop_front two_list 0) 0 (tl ([10] @ [20])) \<and> sized_ring (sized_remove two_list (hd [20])) 0 ([10] @ tl [20])"
  using sized_ilist_operations [OF two_list_ring, of 30] by simp

text \<open>\<open>pop_back\<close> erases the sentinel instead of the last element: the sentinel still points to the same first and
  last element, the last element now links to the first, and the ring through the sentinel is broken.\<close>

theorem ilist_pop_back_erases_sentinel:
  assumes "ring h s as" and "as \<noteq> []"
  shows "ilist_begin (ilist_pop_back h s) s = hd as \<and> ilist_back (ilist_pop_back h s) s = last as
    \<and> inext (ilist_pop_back h s) (last as) = hd as \<and> \<not> ring (ilist_pop_back h s) s bs"
proof -
  let ?h = "ilist_pop_back h s"
  obtain a cs where a: "as = a # cs" using assms(2) by (cases as) auto
  have d: "distinct (s # as)" using assms(1) by (simp add: ring_def)
  have s: "inext h s = hd as" "iprev h s = last as"
    using assms(1) ring_split(3) [of h s as "[]"] a by (auto simp: ring_def link_def)
  have ne: "hd as \<noteq> s" "last as \<noteq> s" using d a last_in_set [of as] by auto
  have h: "?h = set_prev (hd as) (last as) (set_next (last as) (hd as) h)"
    by (simp add: ilist_pop_back_def ilist_end_def ilist_erase_def s Let_def)
  have "\<not> ring ?h s bs"
  proof
    assume r: "ring ?h s bs"
    have "inext ?h (iprev ?h s) = s"
      using ring_split(3) [of ?h s bs "[]"] r by (simp add: link_def)
    then show False using ne s by (simp add: h)
  qed
  then show ?thesis using ne s by (simp add: h ilist_begin_def ilist_back_def Iterator_dec_def ilist_end_def)
qed

theorem ilist_pop_back_erases_sentinel_witness:
  "ilist_begin (ilist_pop_back (base two_list) 0) 0 = 10 \<and> ilist_back (ilist_pop_back (base two_list) 0) 0 = 20"
  using ilist_pop_back_erases_sentinel [of "base two_list" 0 "[10, 20]" "[]"] two_list_ring by (simp add: sized_ring_def)

end
