(* ===== verification/Sql_Plist.thy ===== *)
theory Sql_Plist imports Sequence begin

text \<open>
  \<open>private/sql_plist.h\<close>: \<open>I_P_List\<close>, the intrusive list whose elements hold a \<open>next\<close> pointer and the address of the pointer
  that points to them. An element is its address; \<open>ptr_loc\<close> is a \<open>T **\<close>: the \<open>m_first\<close> field of a list or
  the \<open>next\<close> field of an element. The policy classes for counting (\<open>I_P_List_null_counter\<close>,
  \<open>I_P_List_counter\<close>) and for fast \<open>push_back\<close> (\<open>I_P_List_no_push_back\<close>, \<open>I_P_List_fast_push_back\<close>) are the two flags of
  a \<open>policy\<close>.
\<close>

section \<open>Data\<close>

datatype ptr_loc = FirstP nat | NextP nat

record policy =
  counted :: bool
  fast :: bool

record I_P_List =
  m_first :: "nat option"
  m_counter :: uint
  m_last :: ptr_loc

record pstore =
  pnext :: "nat \<Rightarrow> nat option"
  pprev :: "nat \<Rightarrow> ptr_loc"
  plists :: "nat \<Rightarrow> I_P_List"

definition set_pnext :: "nat \<Rightarrow> nat option \<Rightarrow> pstore \<Rightarrow> pstore" where
  "set_pnext a v h = h\<lparr>pnext := (pnext h)(a := v)\<rparr>"

definition set_pprev :: "nat \<Rightarrow> ptr_loc \<Rightarrow> pstore \<Rightarrow> pstore" where
  "set_pprev a v h = h\<lparr>pprev := (pprev h)(a := v)\<rparr>"

definition upd_list :: "nat \<Rightarrow> (I_P_List \<Rightarrow> I_P_List) \<Rightarrow> pstore \<Rightarrow> pstore" where
  "upd_list i f h = h\<lparr>plists := (plists h)(i := f (plists h i))\<rparr>"

text \<open>Reading and writing a \<open>T *\<close> through its address.\<close>

definition deref :: "pstore \<Rightarrow> ptr_loc \<Rightarrow> nat option" where
  "deref h l = (case l of FirstP i \<Rightarrow> m_first (plists h i) | NextP a \<Rightarrow> pnext h a)"

definition assign :: "ptr_loc \<Rightarrow> nat option \<Rightarrow> pstore \<Rightarrow> pstore" where
  "assign l v h = (case l of FirstP i \<Rightarrow> upd_list i (\<lambda>L. L\<lparr>m_first := v\<rparr>) h | NextP a \<Rightarrow> set_pnext a v h)"

section \<open>Policies\<close>

definition C_reset :: "policy \<Rightarrow> I_P_List \<Rightarrow> I_P_List" where
  "C_reset pol L = (if counted pol then L\<lparr>m_counter := 0\<rparr> else L)"

definition C_inc :: "policy \<Rightarrow> I_P_List \<Rightarrow> I_P_List" where
  "C_inc pol L = (if counted pol then L\<lparr>m_counter := m_counter L + 1\<rparr> else L)"

definition C_dec :: "policy \<Rightarrow> I_P_List \<Rightarrow> I_P_List" where
  "C_dec pol L = (if counted pol then L\<lparr>m_counter := m_counter L - 1\<rparr> else L)"

definition C_swap :: "policy \<Rightarrow> nat \<Rightarrow> nat \<Rightarrow> pstore \<Rightarrow> pstore" where
  "C_swap pol i j h =
     (if counted pol
      then let ci = m_counter (plists h i); cj = m_counter (plists h j)
           in upd_list j (\<lambda>L. L\<lparr>m_counter := ci\<rparr>) (upd_list i (\<lambda>L. L\<lparr>m_counter := cj\<rparr>) h)
      else h)"

definition elements :: "I_P_List \<Rightarrow> uint" where
  "elements L = m_counter L"

definition I_set_last :: "policy \<Rightarrow> ptr_loc \<Rightarrow> I_P_List \<Rightarrow> I_P_List" where
  "I_set_last pol l L = (if fast pol then L\<lparr>m_last := l\<rparr> else L)"

definition I_get_last :: "I_P_List \<Rightarrow> ptr_loc" where
  "I_get_last L = m_last L"

definition I_swap :: "policy \<Rightarrow> nat \<Rightarrow> nat \<Rightarrow> pstore \<Rightarrow> pstore" where
  "I_swap pol i j h =
     (if fast pol
      then let li = m_last (plists h i); lj = m_last (plists h j)
           in upd_list j (\<lambda>L. L\<lparr>m_last := li\<rparr>) (upd_list i (\<lambda>L. L\<lparr>m_last := lj\<rparr>) h)
      else h)"

section \<open>I_P_List\<close>

text \<open>The constructor leaves the counter and last pointer of the null policies alone.\<close>

definition plist_init :: "policy \<Rightarrow> nat \<Rightarrow> pstore \<Rightarrow> pstore" where
  "plist_init pol i h = upd_list i (\<lambda>L. C_reset pol (I_set_last pol (FirstP i) (L\<lparr>m_first := None\<rparr>))) h"

definition plist_empty :: "policy \<Rightarrow> nat \<Rightarrow> pstore \<Rightarrow> pstore" where
  "plist_empty pol i h = upd_list i (\<lambda>L. I_set_last pol (FirstP i) (C_reset pol (L\<lparr>m_first := None\<rparr>))) h"

definition plist_is_empty :: "pstore \<Rightarrow> nat \<Rightarrow> bool" where
  "plist_is_empty h i = (m_first (plists h i) = None)"

definition plist_push_front :: "policy \<Rightarrow> nat \<Rightarrow> nat \<Rightarrow> pstore \<Rightarrow> pstore" where
  "plist_push_front pol i a h =
     (let h1 = set_pnext a (m_first (plists h i)) h;
          h2 = (case m_first (plists h i) of
                  Some f \<Rightarrow> set_pprev f (NextP a) h1
                | None \<Rightarrow> upd_list i (I_set_last pol (NextP a)) h1);
          h3 = upd_list i (\<lambda>L. L\<lparr>m_first := Some a\<rparr>) h2;
          h4 = set_pprev a (FirstP i) h3
      in upd_list i (C_inc pol) h4)"

definition plist_push_back :: "policy \<Rightarrow> nat \<Rightarrow> nat \<Rightarrow> pstore \<Rightarrow> pstore" where
  "plist_push_back pol i a h =
     (let last = I_get_last (plists h i);
          h1 = set_pnext a (deref h last) h;
          h2 = assign last (Some a) h1;
          h3 = set_pprev a last h2;
          h4 = upd_list i (I_set_last pol (NextP a)) h3
      in upd_list i (C_inc pol) h4)"

definition plist_insert_after :: "policy \<Rightarrow> nat \<Rightarrow> nat option \<Rightarrow> nat \<Rightarrow> pstore \<Rightarrow> pstore" where
  "plist_insert_after pol i pos a h =
     (case pos of None \<Rightarrow> plist_push_front pol i a h
      | Some q \<Rightarrow>
          let h1 = set_pnext a (pnext h q) h;
              h2 = set_pprev a (NextP q) h1;
              h3 = set_pnext q (Some a) h2;
              h4 = (case pnext h3 a of
                      Some old_next \<Rightarrow> set_pprev old_next (NextP a) h3
                    | None \<Rightarrow> upd_list i (I_set_last pol (NextP a)) h3)
          in upd_list i (C_inc pol) h4)"

definition plist_remove :: "policy \<Rightarrow> nat \<Rightarrow> nat \<Rightarrow> pstore \<Rightarrow> pstore" where
  "plist_remove pol i a h =
     (let nxt = pnext h a;
          h1 = (case nxt of
                  Some n \<Rightarrow> set_pprev n (pprev h a) h
                | None \<Rightarrow> upd_list i (I_set_last pol (pprev h a)) h);
          h2 = assign (pprev h1 a) nxt h1
      in upd_list i (C_dec pol) h2)"

definition plist_front :: "pstore \<Rightarrow> nat \<Rightarrow> nat option" where
  "plist_front h i = m_first (plists h i)"

definition plist_pop_front :: "policy \<Rightarrow> nat \<Rightarrow> pstore \<Rightarrow> nat option \<times> pstore" where
  "plist_pop_front pol i h =
     (case plist_front h i of None \<Rightarrow> (None, h) | Some r \<Rightarrow> (Some r, plist_remove pol i r h))"

definition plist_swap :: "policy \<Rightarrow> nat \<Rightarrow> nat \<Rightarrow> pstore \<Rightarrow> pstore" where
  "plist_swap pol i j h =
     (let fi = m_first (plists h i); fj = m_first (plists h j);
          h1 = upd_list j (\<lambda>L. L\<lparr>m_first := fi\<rparr>) (upd_list i (\<lambda>L. L\<lparr>m_first := fj\<rparr>) h);
          h2 = I_swap pol i j h1;
          h3 = (case m_first (plists h2 i) of
                  Some f \<Rightarrow> set_pprev f (FirstP i) h2
                | None \<Rightarrow> upd_list i (I_set_last pol (FirstP i)) h2);
          h4 = (case m_first (plists h3 j) of
                  Some f \<Rightarrow> set_pprev f (FirstP j) h3
                | None \<Rightarrow> upd_list i (I_set_last pol (FirstP j)) h3)
      in C_swap pol i j h4)"

section \<open>I_P_List_iterator\<close>

record I_P_List_iterator =
  it_plist :: nat
  it_current :: "nat option"

definition pit_init :: "pstore \<Rightarrow> nat \<Rightarrow> I_P_List_iterator" where
  "pit_init h i = \<lparr>it_plist = i, it_current = m_first (plists h i)\<rparr>"

definition pit_post_inc :: "pstore \<Rightarrow> I_P_List_iterator \<Rightarrow> nat option \<times> I_P_List_iterator" where
  "pit_post_inc h it =
     (case it_current it of None \<Rightarrow> (None, it) | Some c \<Rightarrow> (Some c, it\<lparr>it_current := pnext h c\<rparr>))"

text \<open>\<open>++it\<close> reads the next pointer of the current element with no test for null: \<open>None\<close> then.\<close>

definition pit_pre_inc :: "pstore \<Rightarrow> I_P_List_iterator \<Rightarrow> (nat option \<times> I_P_List_iterator) option" where
  "pit_pre_inc h it =
     (case it_current it of None \<Rightarrow> None | Some c \<Rightarrow> Some (pnext h c, it\<lparr>it_current := pnext h c\<rparr>))"

definition pit_rewind :: "pstore \<Rightarrow> I_P_List_iterator \<Rightarrow> I_P_List_iterator" where
  "pit_rewind h it = it\<lparr>it_current := m_first (plists h (it_plist it))\<rparr>"

section \<open>Invariant\<close>

text \<open>\<open>pseg h l p as q\<close>: the pointer at \<open>l\<close> holds \<open>p\<close>, the elements \<open>as\<close> follow, each knows the address of the
  pointer to it, and the last pointer holds \<open>q\<close>.\<close>

fun pseg :: "pstore \<Rightarrow> ptr_loc \<Rightarrow> nat option \<Rightarrow> nat list \<Rightarrow> nat option \<Rightarrow> bool" where
  "pseg h l p [] q = (p = q)"
| "pseg h l p (a # as) q = (p = Some a \<and> pprev h a = l \<and> pseg h (NextP a) (pnext h a) as q)"

definition end_loc :: "ptr_loc \<Rightarrow> nat list \<Rightarrow> ptr_loc" where
  "end_loc l as = (if as = [] then l else NextP (last as))"

definition plist_ok :: "policy \<Rightarrow> pstore \<Rightarrow> nat \<Rightarrow> nat list \<Rightarrow> bool" where
  "plist_ok pol h i as \<longleftrightarrow>
     distinct as \<and> pseg h (FirstP i) (m_first (plists h i)) as None \<and>
     (fast pol \<longrightarrow> m_last (plists h i) = end_loc (FirstP i) as) \<and>
     (counted pol \<longrightarrow> m_counter (plists h i) = of_nat (length as))"

lemma pstore_simps [simp]:
  "pnext (set_pnext a v h) = (pnext h)(a := v)" "pprev (set_pnext a v h) = pprev h" "plists (set_pnext a v h) = plists h"
  "pnext (set_pprev a l h) = pnext h" "pprev (set_pprev a l h) = (pprev h)(a := l)" "plists (set_pprev a l h) = plists h"
  "pnext (upd_list i f h) = pnext h" "pprev (upd_list i f h) = pprev h"
  "plists (upd_list i f h) = (plists h)(i := f (plists h i))"
  by (simp_all add: set_pnext_def set_pprev_def upd_list_def)

lemma policy_simps [simp]:
  "m_first (C_inc pol L) = m_first L" "m_first (C_dec pol L) = m_first L" "m_first (I_set_last pol l L) = m_first L"
  "m_first (C_reset pol L) = m_first L" "m_last (C_inc pol L) = m_last L" "m_last (C_dec pol L) = m_last L" "m_last (C_reset pol L) = m_last L"
  "m_counter (I_set_last pol l L) = m_counter L"
  "fast pol \<Longrightarrow> m_last (I_set_last pol l L) = l"
  "counted pol \<Longrightarrow> m_counter (C_inc pol L) = m_counter L + 1" "counted pol \<Longrightarrow> m_counter (C_dec pol L) = m_counter L - 1"
  "counted pol \<Longrightarrow> m_counter (C_reset pol L) = 0"
  by (simp_all add: C_inc_def C_dec_def I_set_last_def C_reset_def)

lemma pseg_append: "pseg h l p (as @ bs) q \<longleftrightarrow> (\<exists>r. pseg h l p as r \<and> pseg h (end_loc l as) r bs q)"
  by (induction as arbitrary: l p) (auto simp: end_loc_def)

lemma pseg_cong:
  "\<forall>a \<in> set as. pnext h' a = pnext h a \<and> pprev h' a = pprev h a \<Longrightarrow> pseg h' l p as q = pseg h l p as q"
  by (induction as arbitrary: l p) auto

lemma pseg_hd: "pseg h l p as None \<Longrightarrow> p = (case as of [] \<Rightarrow> None | a # _ \<Rightarrow> Some a)"
  by (cases as) auto

lemma pseg_prefix:
  assumes "pseg h l p as q" "distinct as" "\<forall>b \<in> set as. pprev h' b = pprev h b"
    and "\<forall>b \<in> set as. b \<noteq> last as \<longrightarrow> pnext h' b = pnext h b" "as \<noteq> [] \<Longrightarrow> pnext h' (last as) = q'" "as = [] \<Longrightarrow> p' = q'" "as \<noteq> [] \<Longrightarrow> p' = p"
  shows "pseg h' l p' as q'"
proof (cases as rule: rev_cases)
  case (snoc bs b)
  have "pseg h l p bs (Some b)" "pprev h b = end_loc l bs" using assms(1) by (auto simp: snoc pseg_append)
  moreover have "pseg h' l p bs r = pseg h l p bs r" for r using assms(2,3,4) by (intro pseg_cong) (auto simp: snoc)
  moreover have "pprev h' b = pprev h b" "pnext h' b = q'" "p' = p" using assms(3,5,7) by (simp_all add: snoc)
  ultimately show ?thesis by (simp add: snoc pseg_append)
qed (use assms in simp)

lemma pseg_suffix:
  assumes "pseg h l p bs q" "distinct bs" "\<forall>c \<in> set bs. pnext h' c = pnext h c"
    and "\<forall>c \<in> set bs. c \<noteq> hd bs \<longrightarrow> pprev h' c = pprev h c" "bs \<noteq> [] \<Longrightarrow> pprev h' (hd bs) = l'"
  shows "pseg h' l' p bs q"
proof (cases bs)
  case (Cons b cs)
  have "p = Some b" "pseg h (NextP b) (pnext h b) cs q" using assms(1) by (auto simp: Cons)
  moreover have "pseg h' (NextP b) r cs q = pseg h (NextP b) r cs q" for r using assms(2,3,4) by (intro pseg_cong) (auto simp: Cons)
  moreover have "pprev h' b = l'" "pnext h' b = pnext h b" using assms(3,5) by (simp_all add: Cons)
  ultimately show ?thesis by (simp add: Cons)
qed (use assms in simp)

lemma disjoint_ends:
  assumes "set as \<inter> set bs = {}"
  shows "c \<in> set as \<Longrightarrow> bs = [] \<or> c \<noteq> hd bs" "c \<in> set bs \<Longrightarrow> as = [] \<or> c \<noteq> last as"
  using assms hd_in_set [of bs] last_in_set [of as] by blast+

lemma insert_between:
  assumes ok: "plist_ok pol h i (as @ bs)" and fresh: "a \<notin> set (as @ bs)"
    and nx: "\<forall>c \<in> set (as @ bs). (as = [] \<or> c \<noteq> last as) \<longrightarrow> pnext h' c = pnext h c" "as \<noteq> [] \<Longrightarrow> pnext h' (last as) = Some a"
    and pv: "\<forall>c \<in> set (as @ bs). (bs = [] \<or> c \<noteq> hd bs) \<longrightarrow> pprev h' c = pprev h c" "bs \<noteq> [] \<Longrightarrow> pprev h' (hd bs) = NextP a"
    and el: "pnext h' a = (if bs = [] then None else Some (hd bs))" "pprev h' a = end_loc (FirstP i) as"
    and hd: "m_first (plists h' i) = (if as = [] then Some a else m_first (plists h i))"
    and pol: "fast pol \<Longrightarrow> m_last (plists h' i) = end_loc (FirstP i) (as @ a # bs)"
      "counted pol \<Longrightarrow> m_counter (plists h' i) = m_counter (plists h i) + 1"
  shows "plist_ok pol h' i (as @ a # bs)"
proof -
  have d: "distinct (as @ bs)" using ok by (simp add: plist_ok_def)
  note ends = disjoint_ends [of as bs]
  obtain r where r: "pseg h (FirstP i) (m_first (plists h i)) as r" "pseg h (end_loc (FirstP i) as) r bs None"
    using ok by (auto simp: plist_ok_def pseg_append)
  have rb: "r = pnext h' a" using pseg_hd [OF r(2)] el(1) by (auto split: list.splits)
  have one: "pseg h' (FirstP i) (m_first (plists h' i)) as (Some a)"
    by (rule pseg_prefix [OF r(1)]) (use nx pv hd d ends in \<open>auto split: if_splits\<close>)
  have two: "pseg h' (NextP a) (pnext h' a) bs None"
    by (rule pseg_suffix [OF r(2) [unfolded rb]]) (use nx pv d ends in auto)
  show ?thesis
    using one two d fresh el(2) pol ok by (auto simp: plist_ok_def pseg_append)
qed

lemma remove_between:
  assumes ok: "plist_ok pol h i (as @ a # bs)"
    and nx: "\<forall>c \<in> set (as @ bs). (as = [] \<or> c \<noteq> last as) \<longrightarrow> pnext h' c = pnext h c" "as \<noteq> [] \<Longrightarrow> pnext h' (last as) = pnext h a"
    and pv: "\<forall>c \<in> set (as @ bs). (bs = [] \<or> c \<noteq> hd bs) \<longrightarrow> pprev h' c = pprev h c" "bs \<noteq> [] \<Longrightarrow> pprev h' (hd bs) = end_loc (FirstP i) as"
    and hd: "m_first (plists h' i) = (if as = [] then pnext h a else m_first (plists h i))"
    and pol: "fast pol \<Longrightarrow> m_last (plists h' i) = end_loc (FirstP i) (as @ bs)"
      "counted pol \<Longrightarrow> m_counter (plists h' i) = m_counter (plists h i) - 1"
  shows "plist_ok pol h' i (as @ bs)"
proof -
  have d: "distinct (as @ a # bs)" using ok by (simp add: plist_ok_def)
  note ends = disjoint_ends [of as bs]
  have r: "pseg h (FirstP i) (m_first (plists h i)) as (Some a)" "pseg h (NextP a) (pnext h a) bs None"
    using ok by (auto simp: plist_ok_def pseg_append)
  have one: "pseg h' (FirstP i) (m_first (plists h' i)) as (pnext h a)"
    by (rule pseg_prefix [OF r(1)]) (use nx pv hd d ends in \<open>auto split: if_splits\<close>)
  have two: "pseg h' (end_loc (FirstP i) as) (pnext h a) bs None"
    by (rule pseg_suffix [OF r(2)]) (use nx pv d ends in auto)
  show ?thesis
    using one two d pol ok by (auto simp: plist_ok_def pseg_append)
qed

section \<open>The operations\<close>

lemma plist_first: "plist_ok pol h i as \<Longrightarrow> m_first (plists h i) = (case as of [] \<Rightarrow> None | a # _ \<Rightarrow> Some a)"
  by (auto simp: plist_ok_def dest: pseg_hd)

lemma plist_empty_ok: "plist_ok pol (plist_empty pol i h) i []" "plist_ok pol (plist_init pol i h) i []"
  by (auto simp: plist_ok_def plist_empty_def plist_init_def end_loc_def C_reset_def I_set_last_def)

lemma plist_push_front_ok:
  assumes "plist_ok pol h i as" "a \<notin> set as"
  shows "plist_ok pol (plist_push_front pol i a h) i (a # as)"
proof -
  have d: "distinct as" using assms(1) by (simp add: plist_ok_def)
  have f: "m_first (plists h i) = (case as of [] \<Rightarrow> None | a # _ \<Rightarrow> Some a)" using plist_first [OF assms(1)] .
  have "plist_ok pol (plist_push_front pol i a h) i ([] @ a # as)"
    by (rule insert_between [where h = h]) (use assms d f in \<open>auto simp: plist_push_front_def Let_def end_loc_def plist_ok_def split: list.splits\<close>)
  then show ?thesis by simp
qed

lemma plist_end_deref: "plist_ok pol h i as \<Longrightarrow> deref h (end_loc (FirstP i) as) = None"
proof (cases as rule: rev_cases)
  case (snoc bs b)
  then show "plist_ok pol h i as \<Longrightarrow> ?thesis" by (auto simp: plist_ok_def pseg_append deref_def end_loc_def)
qed (auto simp: plist_ok_def deref_def end_loc_def)

lemma plist_push_back_ok:
  assumes "plist_ok pol h i as" "a \<notin> set as" "fast pol"
  shows "plist_ok pol (plist_push_back pol i a h) i (as @ [a])"
proof -
  have l: "m_last (plists h i) = end_loc (FirstP i) as" using assms by (simp add: plist_ok_def)
  note e = plist_end_deref [OF assms(1)]
  have ne: "as \<noteq> [] \<Longrightarrow> last as \<noteq> a" using assms(2) last_in_set [of as] by auto
  have "plist_ok pol (plist_push_back pol i a h) i (as @ a # [])"
    by (rule insert_between [where h = h])
      (use assms l e ne in \<open>auto simp: plist_push_back_def Let_def I_get_last_def end_loc_def assign_def\<close>)
  then show ?thesis by simp
qed

lemma pnext_mid: "plist_ok pol h i (as @ a # bs) \<Longrightarrow> pnext h a = (if bs = [] then None else Some (hd bs))"
  by (cases bs) (auto simp: plist_ok_def pseg_append dest: pseg_hd)

lemma pprev_mid: "plist_ok pol h i (as @ a # bs) \<Longrightarrow> pprev h a = end_loc (FirstP i) as"
  by (auto simp: plist_ok_def pseg_append)

lemma plist_insert_after_ok:
  assumes "plist_ok pol h i (as @ q # bs)" "a \<notin> set (as @ q # bs)"
  shows "plist_ok pol (plist_insert_after pol i (Some q) a h) i (as @ q # a # bs)"
proof -
  have d: "distinct (as @ q # bs)" using assms(1) by (simp add: plist_ok_def)
  note nx = pnext_mid [OF assms(1)]
  have ok: "plist_ok pol h i ((as @ [q]) @ bs)" using assms(1) by simp
  have l: "fast pol \<Longrightarrow> m_last (plists h i) = end_loc (FirstP i) (as @ q # bs)" using assms(1) by (simp add: plist_ok_def)
  have "plist_ok pol (plist_insert_after pol i (Some q) a h) i ((as @ [q]) @ a # bs)"
  proof (rule insert_between [OF ok])
  qed (use assms d nx l in \<open>(cases bs; auto simp: plist_insert_after_def Let_def end_loc_def)+\<close>)
  then show ?thesis by simp
qed

lemma plist_remove_ok:
  assumes "plist_ok pol h i (as @ a # bs)"
  shows "plist_ok pol (plist_remove pol i a h) i (as @ bs)"
proof -
  have d: "distinct (as @ a # bs)" using assms by (simp add: plist_ok_def)
  note nx = pnext_mid [OF assms] and pv = pprev_mid [OF assms]
  have l: "fast pol \<Longrightarrow> m_last (plists h i) = end_loc (FirstP i) (as @ a # bs)" using assms by (simp add: plist_ok_def)
  have ne: "bs \<noteq> [] \<Longrightarrow> hd bs \<noteq> a" using d hd_in_set [of bs] by auto
  show ?thesis
    by (rule remove_between [OF assms])
      (use d nx pv l ne in \<open>(cases bs; auto simp: plist_remove_def Let_def end_loc_def assign_def)+\<close>)
qed

lemma plist_pop_front_ok:
  "plist_ok pol h i (a # as) \<Longrightarrow> \<exists>h'. plist_pop_front pol i h = (Some a, h') \<and> plist_ok pol h' i as"
  using plist_remove_ok [of pol h i "[]" a as] plist_first [of pol h i "a # as"]
  by (simp add: plist_pop_front_def plist_front_def)

lemma plist_pop_front_empty: "plist_ok pol h i [] \<Longrightarrow> plist_pop_front pol i h = (None, h)"
  using plist_first [of pol h i "[]"] by (simp add: plist_pop_front_def plist_front_def)

section \<open>The contract\<close>

definition plist_take :: "policy \<Rightarrow> nat \<Rightarrow> pstore \<Rightarrow> (nat \<times> pstore) option" where
  "plist_take pol i h = (case plist_pop_front pol i h of (None, _) \<Rightarrow> None | (Some a, h') \<Rightarrow> Some (a, h'))"

definition full :: policy where
  "full = \<lparr>counted = True, fast = True\<rparr>"

interpretation pl: sequence "\<lambda>h as. plist_ok full h i as" "\<lambda>h as v. v \<notin> set as" "\<lambda>v. v" cap
  "\<lambda>h v. Some (plist_push_back full i v h)" "\<lambda>h v. Some (plist_push_front full i v h)" "plist_take full i" "\<lambda>v. v" for i cap
proof
  fix h v vs assume "plist_ok full h i (v # vs)"
  from plist_pop_front_ok [OF this] show "\<exists>s'. plist_take full i h = Some (v, s') \<and> plist_ok full s' i vs"
    by (auto simp: plist_take_def)
qed (auto intro: plist_push_back_ok plist_push_front_ok simp: full_def)

section \<open>swap\<close>

lemma plist_swap_first:
  assumes "i \<noteq> j"
  shows "m_first (plists (plist_swap pol i j h) i) = m_first (plists h j)" "m_first (plists (plist_swap pol i j h) j) = m_first (plists h i)"
  using assms by (auto simp: plist_swap_def Let_def I_swap_def C_swap_def I_set_last_def split: option.splits)

lemma plist_swap_ok:
  assumes "plist_ok pol h i as" "plist_ok pol h j bs" "i \<noteq> j" "set as \<inter> set bs = {}" "as \<noteq> [] \<or> \<not> fast pol"
  shows "plist_ok pol (plist_swap pol i j h) i bs \<and> plist_ok pol (plist_swap pol i j h) j as"
proof -
  let ?h = "plist_swap pol i j h"
  note fi = plist_first [OF assms(1)] and fj = plist_first [OF assms(2)]
  have d: "distinct as" "distinct bs" using assms by (auto simp: plist_ok_def)
  note ends = disjoint_ends [OF assms(4)]
  have nx: "pnext ?h = pnext h"
    by (simp add: plist_swap_def Let_def I_swap_def C_swap_def split: option.splits)
  have pv: "pprev ?h = (case as of [] \<Rightarrow> (\<lambda>f. f) | a # _ \<Rightarrow> (\<lambda>f. f(a := FirstP j)))
      ((case bs of [] \<Rightarrow> (\<lambda>f. f) | b # _ \<Rightarrow> (\<lambda>f. f(b := FirstP i))) (pprev h))"
    using fi fj assms(3) by (auto simp: plist_swap_def Let_def I_swap_def C_swap_def I_set_last_def split: list.splits)
  have dis: "hd as \<notin> set bs" if "as \<noteq> []" using that assms(4) hd_in_set by blast
  have one: "pseg ?h (FirstP i) (m_first (plists h j)) bs None"
    by (rule pseg_suffix [of h "FirstP j"])
      (use assms(2) d dis in \<open>auto simp: plist_ok_def nx pv split: list.splits\<close>)
  have two: "pseg ?h (FirstP j) (m_first (plists h i)) as None"
    by (rule pseg_suffix [of h "FirstP i"])
      (use assms(1,4) d in \<open>auto simp: plist_ok_def nx pv split: list.splits\<close>)
  have lasts: "m_last (plists ?h i) = end_loc (FirstP i) bs" "m_last (plists ?h j) = end_loc (FirstP j) as" if "fast pol"
    using that assms fi fj
    by (auto simp: plist_swap_def Let_def I_swap_def C_swap_def I_set_last_def plist_ok_def end_loc_def split: list.splits option.splits)
  have counts: "m_counter (plists ?h i) = of_nat (length bs)" "m_counter (plists ?h j) = of_nat (length as)" if "counted pol"
    using that assms(1,2,3)
    by (auto simp: plist_swap_def Let_def I_swap_def C_swap_def I_set_last_def plist_ok_def split: option.splits)
  show ?thesis using one two lasts counts d assms(3) by (simp add: plist_ok_def plist_swap_first)
qed

section \<open>Properties\<close>

text \<open>C34: On every list, the empty one included, and with any combination of policies, \<open>push_front\<close>, \<open>insert_after\<close>, \<open>remove\<close>, \<open>pop_front\<close>, \<open>empty\<close> and (with the fast policy)
  \<open>push_back\<close> do to the sequence what their names say and keep the invariant: links in both directions, element counter and the last pointer, which is the address of the first
  pointer when the list is empty and of the last element's next pointer when it is not. \<open>front\<close> and \<open>is_empty\<close> read the sequence.\<close>

theorem plist_operations:
  assumes "plist_ok pol h i vs" and "v \<notin> set vs"
  shows "plist_ok pol (plist_push_front pol i v h) i (v # vs)
    \<and> plist_ok pol (plist_insert_after pol i None v h) i (v # vs)
    \<and> (fast pol \<longrightarrow> plist_ok pol (plist_push_back pol i v h) i (vs @ [v]))
    \<and> (\<forall>as b bs. vs = as @ b # bs \<longrightarrow> plist_ok pol (plist_insert_after pol i (Some b) v h) i (as @ b # v # bs)
         \<and> plist_ok pol (plist_remove pol i b h) i (as @ bs))
    \<and> (case vs of [] \<Rightarrow> plist_pop_front pol i h = (None, h)
        | a # as \<Rightarrow> \<exists>h'. plist_pop_front pol i h = (Some a, h') \<and> plist_ok pol h' i as)
    \<and> plist_ok pol (plist_empty pol i h) i []
    \<and> plist_front h i = (if vs = [] then None else Some (hd vs)) \<and> plist_is_empty h i = (vs = [])"
proof (intro conjI allI impI)
  fix as b bs assume vs: "vs = as @ b # bs"
  show "plist_ok pol (plist_insert_after pol i (Some b) v h) i (as @ b # v # bs)" "plist_ok pol (plist_remove pol i b h) i (as @ bs)"
    using plist_insert_after_ok plist_remove_ok assms unfolding vs by blast+
next
  show "case vs of [] \<Rightarrow> plist_pop_front pol i h = (None, h) | a # as \<Rightarrow> \<exists>h'. plist_pop_front pol i h = (Some a, h') \<and> plist_ok pol h' i as"
    using plist_pop_front_empty plist_pop_front_ok assms(1) by (auto split: list.splits)
  show "plist_front h i = (if vs = [] then None else Some (hd vs))" "plist_is_empty h i = (vs = [])"
    using plist_first [OF assms(1)] by (auto simp: plist_front_def plist_is_empty_def split: list.splits)
qed (use plist_push_front_ok [OF assms] plist_push_back_ok [OF assms] plist_empty_ok in \<open>simp_all add: plist_insert_after_def\<close>)

definition plist_store :: pstore where
  "plist_store = plist_push_back full 5 20 (plist_push_back full 5 10 (plist_empty full 5 (plist_empty full 6
     \<lparr>pnext = (\<lambda>_. None), pprev = (\<lambda>_. FirstP 0), plists = (\<lambda>_. \<lparr>m_first = None, m_counter = 0, m_last = FirstP 0\<rparr>)\<rparr>)))"

lemma plist_store_ok: "plist_ok full plist_store 5 ([10] @ 20 # [])" "plist_ok full plist_store 6 []"
proof -
  let ?h = "plist_empty full 5 (plist_empty full 6
     \<lparr>pnext = (\<lambda>_. None), pprev = (\<lambda>_. FirstP 0), plists = (\<lambda>_. \<lparr>m_first = None, m_counter = 0, m_last = FirstP 0\<rparr>)\<rparr>)"
  have "plist_ok full (plist_push_back full 5 10 ?h) 5 ([] @ [10])"
    by (rule plist_push_back_ok) (simp_all add: plist_empty_ok full_def)
  then have "plist_ok full plist_store 5 ([] @ [10] @ [20])"
    using plist_push_back_ok [of full "plist_push_back full 5 10 ?h" 5 "[10]" 20] by (simp add: plist_store_def full_def)
  then show "plist_ok full plist_store 5 ([10] @ 20 # [])" by simp
  show "plist_ok full plist_store 6 []"
    by (simp add: plist_store_def plist_ok_def plist_push_back_def plist_empty_def Let_def I_get_last_def assign_def
        I_set_last_def C_inc_def C_reset_def full_def end_loc_def)
qed

theorem plist_operations_witness:
  "plist_ok full (plist_remove full 5 20 plist_store) 5 [10] \<and> plist_ok full (plist_push_front full 6 30 plist_store) 6 [30]"
proof
  have "\<forall>as b bs. [10] @ 20 # [] = as @ b # bs \<longrightarrow> plist_ok full (plist_remove full 5 b plist_store) 5 (as @ bs)"
    using plist_operations [OF plist_store_ok(1), of 30] by simp
  from this [rule_format, OF refl] show "plist_ok full (plist_remove full 5 20 plist_store) 5 [10]" by simp
  show "plist_ok full (plist_push_front full 6 30 plist_store) 6 [30]"
    using plist_operations [OF plist_store_ok(2), of 30] by simp
qed

text \<open>\<open>swap\<close> called on an empty list that keeps a last pointer crosses the last pointers of the two lists: the
  next \<open>push_back\<close> to this list puts the element at the front of the other list and leaves this one as it is.\<close>

theorem plist_swap_empty_crosses:
  assumes "plist_ok pol h i []" and "i \<noteq> j" and "fast pol"
  shows "m_last (plists (plist_swap pol i j h) i) = FirstP j \<and> m_last (plists (plist_swap pol i j h) j) = FirstP i
    \<and> m_first (plists (plist_push_back pol i v (plist_swap pol i j h)) j) = Some v
    \<and> m_first (plists (plist_push_back pol i v (plist_swap pol i j h)) i) = m_first (plists h j)"
proof -
  have e: "m_first (plists h i) = None" "m_last (plists h i) = FirstP i" using assms by (auto simp: plist_ok_def end_loc_def)
  have l: "m_last (plists (plist_swap pol i j h) i) = FirstP j" "m_last (plists (plist_swap pol i j h) j) = FirstP i"
    using e assms(2,3) by (auto simp: plist_swap_def Let_def I_swap_def C_swap_def I_set_last_def split: option.splits)
  then show ?thesis
    using plist_swap_first [OF assms(2), of pol h] assms(2)
    by (simp add: plist_push_back_def Let_def I_get_last_def assign_def)
qed

theorem plist_swap_empty_crosses_witness:
  "m_first (plists (plist_push_back full 6 30 (plist_swap full 6 5 plist_store)) 5) = Some 30"
  using plist_swap_empty_crosses [OF plist_store_ok(2), of 5 30] by (simp add: full_def)

end
