(* ===== verification/Memory.thy ===== *)
theory Memory imports Prelude "HOL-Library.Monad_Syntax" begin

text \<open>
  Byte memory for the components that copy and hand around areas: \<open>memcpy\<close> and reading a range within
  one area, and a store of allocated blocks with pointers into them. An access outside a block, through a null pointer or to a block that was
  freed has no defined result in C; it is \<open>None\<close> here.
\<close>

section \<open>One area\<close>

definition memcpy :: "buffer \<Rightarrow> nat \<Rightarrow> buffer \<Rightarrow> buffer" where
  "memcpy mem p data = take p mem @ data @ drop (p + length data) mem"

definition bytes :: "buffer \<Rightarrow> nat \<Rightarrow> nat \<Rightarrow> buffer" where
  "bytes mem p n = take n (drop p mem)"

lemma length_memcpy [simp]: "p + length d \<le> length mem \<Longrightarrow> length (memcpy mem p d) = length mem"
  by (simp add: memcpy_def)

lemma bytes_append: "bytes mem p (n + m) = bytes mem p n @ bytes mem (p + n) m"
  by (simp add: bytes_def take_add drop_drop add.commute [of p n])

lemma memcpy_Nil [simp]: "memcpy mem p [] = mem"
  by (simp add: memcpy_def)

lemma bytes_0 [simp]: "bytes mem p 0 = []"
  by (simp add: bytes_def)

lemma bytes_memcpy_same: "p + length d \<le> length mem \<Longrightarrow> bytes (memcpy mem p d) p (length d) = d"
  by (simp add: bytes_def memcpy_def)

lemma bytes_memcpy_before: "q + n \<le> p \<Longrightarrow> p \<le> length mem \<Longrightarrow> bytes (memcpy mem p d) q n = bytes mem q n"
  by (rule nth_equalityI) (auto simp: bytes_def memcpy_def nth_append)

lemma bytes_memcpy_after: "p + length d \<le> q \<Longrightarrow> p + length d \<le> length mem \<Longrightarrow> bytes (memcpy mem p d) q n = bytes mem q n"
  by (auto simp: bytes_def memcpy_def)

lemma length_bytes: "p + n \<le> length mem \<Longrightarrow> length (bytes mem p n) = n"
  by (simp add: bytes_def)

section \<open>Blocks and pointers\<close>

type_synonym blocks = "nat \<rightharpoonup> buffer"
type_synonym ptr = "(nat \<times> nat) option"

definition ptr_add :: "ptr \<Rightarrow> nat \<Rightarrow> ptr" where
  "ptr_add p i = map_option (\<lambda>(b, off). (b, off + i)) p"

definition rd :: "blocks \<Rightarrow> ptr \<Rightarrow> nat \<Rightarrow> nat \<Rightarrow> buffer option" where
  "rd mem p i n = (if n = 0 then Some [] else
     do { (b, off) \<leftarrow> p; blk \<leftarrow> mem b; if off + i + n \<le> length blk then Some (bytes blk (off + i) n) else None })"

definition wr :: "blocks \<Rightarrow> ptr \<Rightarrow> nat \<Rightarrow> buffer \<Rightarrow> blocks option" where
  "wr mem p i d = (if d = [] then Some mem else
     do { (b, off) \<leftarrow> p; blk \<leftarrow> mem b; if off + i + length d \<le> length blk then Some (mem(b \<mapsto> memcpy blk (off + i) d)) else None })"

definition my_free :: "blocks \<Rightarrow> ptr \<Rightarrow> blocks" where
  "my_free mem p = (case p of None \<Rightarrow> mem | Some (b, off) \<Rightarrow> mem(b := None))"

definition block_of :: "ptr \<Rightarrow> nat option" where
  "block_of p = map_option fst p"

text \<open>\<open>span mem p n\<close>: the \<open>n\<close> bytes from \<open>p\<close> on lie in one live block.\<close>

definition span :: "blocks \<Rightarrow> ptr \<Rightarrow> nat \<Rightarrow> bool" where
  "span mem p n = (case p of None \<Rightarrow> n = 0 | Some (b, off) \<Rightarrow> (case mem b of None \<Rightarrow> False | Some blk \<Rightarrow> off + n \<le> length blk))"

lemma span_mono: "span mem p n \<Longrightarrow> m \<le> n \<Longrightarrow> span mem p m"
  by (auto simp: span_def split: option.splits)

lemma rd_span: "span mem p n \<Longrightarrow> i + k \<le> n \<Longrightarrow> \<exists>d. rd mem p i k = Some d \<and> length d = k"
  by (cases p; cases "k = 0") (auto simp: span_def rd_def length_bytes split: option.splits)

lemma rd_length: "rd mem p i k = Some d \<Longrightarrow> length d = k"
  by (auto simp: rd_def length_bytes bind_eq_Some_conv split: if_splits option.splits)

lemma wr_span:
  assumes "span mem p n" "i + length d \<le> n"
  shows "\<exists>mem'. wr mem p i d = Some mem' \<and> (\<forall>q k. span mem' q k = span mem q k) \<and> rd mem' p i (length d) = Some d \<and>
     (\<forall>j k. j + k \<le> i \<or> i + length d \<le> j \<longrightarrow> rd mem' p j k = rd mem p j k) \<and> (\<forall>b. Some b \<noteq> block_of p \<longrightarrow> mem' b = mem b)"
proof (cases "d = []")
  case True then show ?thesis by (simp add: wr_def rd_def)
next
  case False
  then obtain b off blk where p: "p = Some (b, off)" "mem b = Some blk" "off + n \<le> length blk"
    using assms by (auto simp: span_def split: option.splits)
  let ?mem = "mem(b \<mapsto> memcpy blk (off + i) d)"
  have fit: "off + i + length d \<le> length blk" using p(3) assms(2) by simp
  have "rd ?mem p j k = rd mem p j k" if "j + k \<le> i \<or> i + length d \<le> j" for j k
    using that fit p by (cases "k = 0") (auto simp: rd_def bytes_memcpy_before bytes_memcpy_after)
  moreover have "span ?mem q k = span mem q k" for q k using fit p by (auto simp: span_def split: option.splits)
  moreover have "rd ?mem p i (length d) = Some d" using fit p False by (simp add: rd_def bytes_memcpy_same)
  ultimately show ?thesis using p fit False by (auto simp: wr_def block_of_def)
qed

lemma rd_append: "span mem p (i + n + m) \<Longrightarrow> rd mem p i n = Some d \<Longrightarrow> rd mem p (i + n) m = Some e \<Longrightarrow> rd mem p i (n + m) = Some (d @ e)"
  by (cases p) (auto simp: rd_def span_def bytes_append add.assoc split: if_splits option.splits)

lemma rd_other_block: "(\<And>b. Some b = block_of q \<Longrightarrow> mem' b = mem b) \<Longrightarrow> rd mem' q i n = rd mem q i n"
  by (cases q) (auto simp: rd_def block_of_def)

end
