(* ===== verification/Lifo_Buffer.thy ===== *)
theory Lifo_Buffer imports Memory begin

text \<open>
  \<open>private/sql_lifo_buffer.h\<close>: the two stacks of fixed-size elements (single byte strings or pairs) that multi-range read keeps in
  memory given by its user; one fills its space upwards, the other downwards. The memory is one byte
  list, pointers are indices into it. The data behind \<open>write_ptr1\<close> and \<open>write_ptr2\<close> is an argument of
  \<open>write\<close> (\<open>write_ptr2\<close> may be null), and \<open>read\<close> returns the positions it stores into \<open>read_ptr1\<close> and \<open>read_ptr2\<close>.
  \<open>my_qsort2\<close>, which \<open>sort\<close> calls, is outside the headers and a parameter.
\<close>

section \<open>Lifo_buffer\<close>

datatype enum_direction = BACKWARD | FORWARD

record Lifo_buffer =
  size1 :: nat
  size2 :: nat
  start :: nat
  end_ptr :: nat
  pos :: nat

definition setup_writing :: "Lifo_buffer \<Rightarrow> nat \<Rightarrow> nat \<Rightarrow> Lifo_buffer" where
  "setup_writing b len1 len2 = b\<lparr>size1 := len1, size2 := len2\<rparr>"

text \<open>\<open>setup_reading\<close> only asserts that the sizes match.\<close>

definition setup_reading :: "Lifo_buffer \<Rightarrow> nat \<Rightarrow> nat \<Rightarrow> Lifo_buffer" where
  "setup_reading b len1 len2 = b"

section \<open>Forward_lifo_buffer\<close>

definition F_type :: enum_direction where
  "F_type = FORWARD"

definition F_used_size :: "Lifo_buffer \<Rightarrow> nat" where
  "F_used_size b = pos b - start b"

definition F_reset :: "Lifo_buffer \<Rightarrow> Lifo_buffer" where
  "F_reset b = b\<lparr>pos := start b\<rparr>"

definition F_set_buffer_space :: "Lifo_buffer \<Rightarrow> nat \<Rightarrow> nat \<Rightarrow> Lifo_buffer" where
  "F_set_buffer_space b start_arg end_arg = F_reset (b\<lparr>start := start_arg, end_ptr := end_arg\<rparr>)"

definition F_end_of_space :: "Lifo_buffer \<Rightarrow> nat" where
  "F_end_of_space b = pos b"

definition F_have_space_for :: "Lifo_buffer \<Rightarrow> nat \<Rightarrow> bool" where
  "F_have_space_for b n = (pos b + n < end_ptr b)"

definition F_can_write :: "Lifo_buffer \<Rightarrow> bool" where
  "F_can_write b = F_have_space_for b (size1 b + size2 b)"

definition F_is_empty :: "Lifo_buffer \<Rightarrow> bool" where
  "F_is_empty b = (F_used_size b = 0)"

definition F_write_bytes :: "buffer \<Rightarrow> Lifo_buffer \<Rightarrow> buffer \<Rightarrow> nat \<Rightarrow> buffer \<times> Lifo_buffer" where
  "F_write_bytes mem b data n = (memcpy mem (pos b) (take n data), b\<lparr>pos := pos b + n\<rparr>)"

definition F_write :: "buffer \<Rightarrow> Lifo_buffer \<Rightarrow> buffer \<Rightarrow> buffer option \<Rightarrow> (buffer \<times> Lifo_buffer) option" where
  "F_write mem b write_ptr1 write_ptr2 =
     (let (mem1, b1) = F_write_bytes mem b write_ptr1 (size1 b) in
      if size2 b \<noteq> 0 then do { d2 \<leftarrow> write_ptr2; Some (F_write_bytes mem1 b1 d2 (size2 b)) } else Some (mem1, b1))"

definition F_have_data :: "Lifo_buffer \<Rightarrow> nat \<Rightarrow> nat \<Rightarrow> bool" where
  "F_have_data b position n = (int position - int (start b) \<ge> int n)"

definition F_read_bytes :: "nat \<Rightarrow> nat \<Rightarrow> nat \<times> nat" where
  "F_read_bytes position n = (position - n, position - n)"

text \<open>\<open>read(position, ptr1, ptr2)\<close>: \<open>None\<close> is the return value TRUE; else the new position and both pointers.\<close>

definition F_read_at :: "Lifo_buffer \<Rightarrow> nat \<Rightarrow> (nat \<times> nat \<times> nat option) option" where
  "F_read_at b position =
     (if \<not> F_have_data b position (size1 b + size2 b) then None
      else let (ptr2, position1) = (if size2 b \<noteq> 0 then let (r, p) = F_read_bytes position (size2 b) in (Some r, p) else (None, position));
               (ptr1, position2) = F_read_bytes position1 (size1 b)
           in Some (position2, ptr1, ptr2))"

definition F_read :: "Lifo_buffer \<Rightarrow> ((nat \<times> nat option) \<times> Lifo_buffer) option" where
  "F_read b = do { (p, ptr1, ptr2) \<leftarrow> F_read_at b (pos b); Some ((ptr1, ptr2), b\<lparr>pos := p\<rparr>) }"

definition F_grow :: "Lifo_buffer \<Rightarrow> nat \<Rightarrow> nat \<Rightarrow> Lifo_buffer" where
  "F_grow b unused_start unused_end = b\<lparr>end_ptr := unused_end\<rparr>"

definition F_used_area :: "Lifo_buffer \<Rightarrow> nat" where
  "F_used_area b = start b"

definition F_get_pos :: "Lifo_buffer \<Rightarrow> nat" where
  "F_get_pos b = pos b"

definition F_sort :: "(buffer \<Rightarrow> nat \<Rightarrow> nat \<Rightarrow> nat \<Rightarrow> buffer) \<Rightarrow> buffer \<Rightarrow> Lifo_buffer \<Rightarrow> buffer" where
  "F_sort my_qsort2 mem b =
     (let elem_size = size1 b + size2 b; n_elements = F_used_size b div elem_size
      in my_qsort2 mem (F_used_area b) n_elements elem_size)"

section \<open>Backward_lifo_buffer\<close>

definition B_type :: enum_direction where
  "B_type = BACKWARD"

definition B_used_size :: "Lifo_buffer \<Rightarrow> nat" where
  "B_used_size b = end_ptr b - pos b"

definition B_reset :: "Lifo_buffer \<Rightarrow> Lifo_buffer" where
  "B_reset b = b\<lparr>pos := end_ptr b\<rparr>"

definition B_set_buffer_space :: "Lifo_buffer \<Rightarrow> nat \<Rightarrow> nat \<Rightarrow> Lifo_buffer" where
  "B_set_buffer_space b start_arg end_arg = B_reset (b\<lparr>start := start_arg, end_ptr := end_arg\<rparr>)"

definition B_end_of_space :: "Lifo_buffer \<Rightarrow> nat" where
  "B_end_of_space b = end_ptr b"

definition B_have_space_for :: "Lifo_buffer \<Rightarrow> nat \<Rightarrow> bool" where
  "B_have_space_for b n = (int (pos b) - int n \<ge> int (start b))"

definition B_can_write :: "Lifo_buffer \<Rightarrow> bool" where
  "B_can_write b = B_have_space_for b (size1 b + size2 b)"

definition B_is_empty :: "Lifo_buffer \<Rightarrow> bool" where
  "B_is_empty b = (B_used_size b = 0)"

definition B_write_bytes :: "buffer \<Rightarrow> Lifo_buffer \<Rightarrow> buffer \<Rightarrow> nat \<Rightarrow> buffer \<times> Lifo_buffer" where
  "B_write_bytes mem b data n = (memcpy mem (pos b - n) (take n data), b\<lparr>pos := pos b - n\<rparr>)"

definition B_write :: "buffer \<Rightarrow> Lifo_buffer \<Rightarrow> buffer \<Rightarrow> buffer option \<Rightarrow> (buffer \<times> Lifo_buffer) option" where
  "B_write mem b write_ptr1 write_ptr2 =
     (let (mem1, b1) = (case write_ptr2 of Some d2 \<Rightarrow> B_write_bytes mem b d2 (size2 b) | None \<Rightarrow> (mem, b))
      in Some (B_write_bytes mem1 b1 write_ptr1 (size1 b)))"

definition B_have_data :: "Lifo_buffer \<Rightarrow> nat \<Rightarrow> nat \<Rightarrow> bool" where
  "B_have_data b position n = (int (end_ptr b) - int position \<ge> int n)"

definition B_read_bytes :: "nat \<Rightarrow> nat \<Rightarrow> nat \<times> nat" where
  "B_read_bytes position n = (position, position + n)"

definition B_read_at :: "Lifo_buffer \<Rightarrow> nat \<Rightarrow> (nat \<times> nat \<times> nat option) option" where
  "B_read_at b position =
     (if \<not> B_have_data b position (size1 b + size2 b) then None
      else let (ptr1, position1) = B_read_bytes position (size1 b);
               (ptr2, position2) = (if size2 b \<noteq> 0 then let (r, p) = B_read_bytes position1 (size2 b) in (Some r, p) else (None, position1))
           in Some (position2, ptr1, ptr2))"

definition B_read :: "Lifo_buffer \<Rightarrow> ((nat \<times> nat option) \<times> Lifo_buffer) option" where
  "B_read b = do { (p, ptr1, ptr2) \<leftarrow> B_read_at b (pos b); Some ((ptr1, ptr2), b\<lparr>pos := p\<rparr>) }"

definition B_remove_unused_space :: "Lifo_buffer \<Rightarrow> nat \<times> nat \<times> Lifo_buffer" where
  "B_remove_unused_space b = (start b, pos b, b\<lparr>start := pos b\<rparr>)"

definition B_used_area :: "Lifo_buffer \<Rightarrow> nat" where
  "B_used_area b = pos b"

definition B_get_pos :: "Lifo_buffer \<Rightarrow> nat" where
  "B_get_pos b = pos b"

definition B_sort :: "(buffer \<Rightarrow> nat \<Rightarrow> nat \<Rightarrow> nat \<Rightarrow> buffer) \<Rightarrow> buffer \<Rightarrow> Lifo_buffer \<Rightarrow> buffer" where
  "B_sort my_qsort2 mem b =
     (let elem_size = size1 b + size2 b; n_elements = B_used_size b div elem_size
      in my_qsort2 mem (B_used_area b) n_elements elem_size)"

section \<open>Lifo_buffer_iterator\<close>

text \<open>The iterator keeps its own position and reads through the virtual \<open>read\<close> of the buffer.\<close>

definition iterator_init :: "(Lifo_buffer \<Rightarrow> nat) \<Rightarrow> Lifo_buffer \<Rightarrow> nat" where
  "iterator_init get_pos b = get_pos b"

definition iterator_read :: "(Lifo_buffer \<Rightarrow> nat \<Rightarrow> (nat \<times> nat \<times> nat option) option) \<Rightarrow> Lifo_buffer \<Rightarrow> nat \<Rightarrow> ((nat \<times> nat option) \<times> nat) option" where
  "iterator_read read_at b p = do { (p', ptr1, ptr2) \<leftarrow> read_at b p; Some ((ptr1, ptr2), p') }"

section \<open>The contract of a stack\<close>

fun fill_buf :: "('s \<Rightarrow> bool) \<Rightarrow> ('s \<Rightarrow> 'e \<Rightarrow> 's option) \<Rightarrow> 's \<Rightarrow> 'e list \<Rightarrow> ('e list \<times> 's) option" where
  "fill_buf room push s [] = Some ([], s)"
| "fill_buf room push s (e # es) =
     (if room s then do { s1 \<leftarrow> push s e; (acc, s2) \<leftarrow> fill_buf room push s1 es; Some (e # acc, s2) } else Some ([], s))"

fun drain :: "('s \<Rightarrow> ('e \<times> 's) option) \<Rightarrow> nat \<Rightarrow> 's \<Rightarrow> 'e list" where
  "drain pop 0 s = []"
| "drain pop (Suc n) s = (case pop s of None \<Rightarrow> [] | Some (e, s') \<Rightarrow> e # drain pop n s')"

locale lifo_stack =
  fixes inv :: "'s \<Rightarrow> 'e list \<Rightarrow> bool"
    and room :: "'s \<Rightarrow> bool"
    and fits :: "'s \<Rightarrow> 'e \<Rightarrow> bool"
    and cap :: "'s \<Rightarrow> nat"
    and push :: "'s \<Rightarrow> 'e \<Rightarrow> 's option"
    and pop :: "'s \<Rightarrow> ('e \<times> 's) option"
  assumes push: "inv s es \<Longrightarrow> room s \<Longrightarrow> fits s e \<Longrightarrow> \<exists>s'. push s e = Some s' \<and> inv s' (e # es) \<and> fits s' = fits s \<and> cap s' = cap s"
    and room: "inv s es \<Longrightarrow> room s \<longleftrightarrow> length es < cap s"
    and pop: "inv s (e # es) \<Longrightarrow> \<exists>s'. pop s = Some (e, s') \<and> inv s' es"
    and pop_empty: "inv s [] \<Longrightarrow> pop s = None"
begin

lemma fill_inv:
  assumes "inv s es" "\<forall>e \<in> set new. fits s e"
  shows "\<exists>s'. fill_buf room push s new = Some (take (cap s - length es) new, s') \<and> inv s' (rev (take (cap s - length es) new) @ es)"
  using assms
proof (induction new arbitrary: s es)
  case (Cons e new)
  show ?case
  proof (cases "room s")
    case True
    from push [OF Cons.prems(1) True, of e] Cons.prems(2) obtain s1 where
      s1: "push s e = Some s1" "inv s1 (e # es)" "fits s1 = fits s" "cap s1 = cap s" by auto
    have "cap s - length es = Suc (cap s - length (e # es))" using True room [OF Cons.prems(1)] by simp
    moreover from Cons.IH [OF s1(2)] Cons.prems(2) s1(3) obtain s' where
      "fill_buf room push s1 new = Some (take (cap s1 - length (e # es)) new, s')" "inv s' (rev (take (cap s1 - length (e # es)) new) @ e # es)" by auto
    ultimately show ?thesis using True s1 by simp
  next
    case False
    then show ?thesis using Cons.prems(1) room [OF Cons.prems(1)] by simp
  qed
qed simp

lemma drain_inv: "inv s es \<Longrightarrow> length es \<le> n \<Longrightarrow> drain pop n s = es"
proof (induction n arbitrary: s es)
  case (Suc n)
  show ?case
  proof (cases es)
    case Nil then show ?thesis using pop_empty [of s] Suc.prems by simp
  next
    case (Cons e es') then show ?thesis using pop [of s e es'] Suc by auto
  qed
qed simp

lemma last_in_first_out:
  assumes "inv s []" "\<forall>e \<in> set new. fits s e"
  shows "\<exists>s'. fill_buf room push s new = Some (take (cap s) new, s') \<and> drain pop (length new) s' = rev (take (cap s) new)"
  using fill_inv [OF assms] drain_inv [of _ "rev (take (cap s) new)" "length new"] by auto

end

section \<open>Elements in the used area\<close>

text \<open>The state of a buffer with its memory; an element is a pair of byte strings of the two sizes.\<close>

type_synonym lifo_state = "buffer \<times> Lifo_buffer"

definition elem_fits :: "lifo_state \<Rightarrow> buffer \<times> buffer \<Rightarrow> bool" where
  "elem_fits s e \<longleftrightarrow> length (fst e) = size1 (snd s) \<and> length (snd e) = size2 (snd s)"

definition elem_size :: "Lifo_buffer \<Rightarrow> nat" where
  "elem_size b = size1 b + size2 b"

definition flat :: "buffer \<times> buffer \<Rightarrow> buffer" where
  "flat e = fst e @ snd e"

definition F_inv :: "lifo_state \<Rightarrow> (buffer \<times> buffer) list \<Rightarrow> bool" where
  "F_inv s es \<longleftrightarrow> (let (mem, b) = s in
     0 < elem_size b \<and> pos b = start b + length es * elem_size b \<and> pos b \<le> end_ptr b \<and> end_ptr b \<le> length mem \<and>
     list_all (elem_fits s) es \<and> bytes mem (start b) (pos b - start b) = concat (map flat (rev es)))"

definition B_inv :: "lifo_state \<Rightarrow> (buffer \<times> buffer) list \<Rightarrow> bool" where
  "B_inv s es \<longleftrightarrow> (let (mem, b) = s in
     0 < elem_size b \<and> start b \<le> pos b \<and> end_ptr b = pos b + length es * elem_size b \<and> end_ptr b \<le> length mem \<and>
     list_all (elem_fits s) es \<and> bytes mem (pos b) (end_ptr b - pos b) = concat (map flat es))"

text \<open>How many elements each buffer takes: the strict comparison in \<open>Forward_lifo_buffer::have_space_for\<close> costs it the last byte of its space.\<close>

definition F_cap :: "Lifo_buffer \<Rightarrow> nat" where
  "F_cap b = (end_ptr b - start b - 1) div elem_size b"

definition B_cap :: "Lifo_buffer \<Rightarrow> nat" where
  "B_cap b = (end_ptr b - start b) div elem_size b"

definition F_push :: "lifo_state \<Rightarrow> buffer \<times> buffer \<Rightarrow> lifo_state option" where
  "F_push s e = F_write (fst s) (snd s) (fst e) (Some (snd e))"

definition B_push :: "lifo_state \<Rightarrow> buffer \<times> buffer \<Rightarrow> lifo_state option" where
  "B_push s e = B_write (fst s) (snd s) (fst e) (Some (snd e))"

definition load_elem :: "lifo_state \<Rightarrow> nat \<times> nat option \<Rightarrow> buffer \<times> buffer" where
  "load_elem s r = (bytes (fst s) (fst r) (size1 (snd s)), case snd r of None \<Rightarrow> [] | Some q \<Rightarrow> bytes (fst s) q (size2 (snd s)))"

definition F_pop :: "lifo_state \<Rightarrow> ((buffer \<times> buffer) \<times> lifo_state) option" where
  "F_pop s = do { (r, b) \<leftarrow> F_read (snd s); Some (load_elem s r, (fst s, b)) }"

definition B_pop :: "lifo_state \<Rightarrow> ((buffer \<times> buffer) \<times> lifo_state) option" where
  "B_pop s = do { (r, b) \<leftarrow> B_read (snd s); Some (load_elem s r, (fst s, b)) }"

lemma elem_fits_cong: "size1 b' = size1 b \<Longrightarrow> size2 b' = size2 b \<Longrightarrow> elem_fits (m', b') = elem_fits (m, b)"
  by (simp add: elem_fits_def fun_eq_iff)

lemma F_area: "F_inv (mem, b) es \<Longrightarrow> bytes mem (start b) (pos b - start b) = concat (map flat (rev es))"
  unfolding F_inv_def Let_def prod.case by blast

lemma B_area: "B_inv (mem, b) es \<Longrightarrow> bytes mem (pos b) (end_ptr b - pos b) = concat (map flat es)"
  unfolding B_inv_def Let_def prod.case by blast

lemma F_push_inv:
  assumes "F_inv (mem, b) es" "F_can_write b" "elem_fits (mem, b) e"
  shows "\<exists>s'. F_push (mem, b) e = Some s' \<and> F_inv s' (e # es) \<and> elem_fits s' = elem_fits (mem, b) \<and> F_cap (snd s') = F_cap b"
proof -
  obtain d1 d2 where e: "e = (d1, d2)" "length d1 = size1 b" "length d2 = size2 b" using assms(3) by (cases e) (auto simp: elem_fits_def)
  let ?m = "memcpy mem (pos b) d1" and ?p = "pos b + size1 b"
  let ?m2 = "memcpy ?m ?p d2" and ?b2 = "b\<lparr>pos := ?p + size2 b\<rparr>"
  have room: "?p + size2 b < end_ptr b" using assms(2) by (simp add: F_can_write_def F_have_space_for_def)
  note inv = assms(1) [unfolded F_inv_def, simplified]
  have fit: "pos b + length d1 \<le> length mem" "?p + length d2 \<le> length ?m" using room inv e by auto
  have nil: "size2 b = 0 \<Longrightarrow> ?m2 = ?m" using e(3) by simp
  have push: "F_push (mem, b) e = Some (?m2, ?b2)"
    using e nil by (cases "size2 b = 0") (auto simp: F_push_def F_write_def F_write_bytes_def Let_def)
  have "bytes ?m2 (start b) (pos b - start b + (size1 b + size2 b)) =
      bytes ?m2 (start b) (pos b - start b) @ bytes ?m2 (pos b) (size1 b) @ bytes ?m2 ?p (size2 b)"
    using inv by (simp add: bytes_append)
  also have "\<dots> = concat (map flat (rev es)) @ d1 @ d2"
  proof -
    have "bytes ?m2 (start b) (pos b - start b) = bytes mem (start b) (pos b - start b)"
      using inv fit by (subst bytes_memcpy_before, simp, simp, subst bytes_memcpy_before) auto
    moreover have "bytes ?m2 (pos b) (size1 b) = d1"
      using fit e bytes_memcpy_same [OF fit(1)] by (subst bytes_memcpy_before) auto
    moreover have "bytes ?m2 ?p (size2 b) = d2" using bytes_memcpy_same [OF fit(2)] e by simp
    ultimately show ?thesis using F_area [OF assms(1)] by simp
  qed
  finally have area: "bytes ?m2 (start b) (pos b - start b + (size1 b + size2 b)) = concat (map flat (rev (e # es)))" by (simp add: e flat_def)
  have fitseq: "elem_fits (?m2, ?b2) = elem_fits (mem, b)" by (simp add: elem_fits_cong)
  have "F_inv (?m2, ?b2) (e # es)"
    unfolding F_inv_def Let_def prod.case fitseq using inv area room fit assms(3) by (simp add: elem_size_def add.assoc)
  then show ?thesis using push fitseq by (simp add: F_cap_def elem_size_def)
qed

lemma F_pop_inv:
  assumes "F_inv (mem, b) (e # es)"
  shows "\<exists>s'. F_pop (mem, b) = Some (e, s') \<and> F_inv s' es"
proof -
  obtain d1 d2 where e: "e = (d1, d2)" "length d1 = size1 b" "length d2 = size2 b"
    using assms by (cases e) (auto simp: F_inv_def elem_fits_def)
  note inv = assms [unfolded F_inv_def, simplified]
  let ?p = "start b + length es * elem_size b"
  have area: "bytes mem (start b) (pos b - start b) = concat (map flat (rev es)) @ d1 @ d2" using F_area [OF assms] by (simp add: e flat_def)
  have pos: "pos b = ?p + size1 b + size2 b" using inv by (simp add: elem_size_def)
  have whole: "bytes mem (start b) (length es * elem_size b) @ bytes mem ?p (size1 b) @ bytes mem (?p + size1 b) (size2 b) =
      concat (map flat (rev es)) @ d1 @ d2"
  proof -
    have "pos b - start b = length es * elem_size b + (size1 b + size2 b)" using pos by simp
    then have "bytes mem (start b) (length es * elem_size b + (size1 b + size2 b)) = concat (map flat (rev es)) @ d1 @ d2"
      using area by simp
    then show ?thesis by (simp add: bytes_append)
  qed
  have lens: "length (bytes mem ?p (size1 b)) = size1 b" "length (bytes mem (?p + size1 b) (size2 b)) = size2 b"
    using inv pos by (auto intro!: length_bytes)
  have parts: "bytes mem (start b) (length es * elem_size b) = concat (map flat (rev es))" "bytes mem ?p (size1 b) = d1" "bytes mem (?p + size1 b) (size2 b) = d2"
    using whole lens e by (auto simp: append_eq_append_conv)
  have "F_pop (mem, b) = Some (e, (mem, b\<lparr>pos := ?p\<rparr>))"
    using pos parts e
    by (auto simp: F_pop_def F_read_def F_read_at_def F_have_data_def F_read_bytes_def load_elem_def Let_def)
  moreover have "F_inv (mem, b\<lparr>pos := ?p\<rparr>) es"
    using inv parts pos by (auto simp: F_inv_def elem_size_def elem_fits_def list_all_iff)
  ultimately show ?thesis by blast
qed

lemma F_pop_empty: "F_inv (mem, b) [] \<Longrightarrow> F_pop (mem, b) = None"
  by (auto simp: F_inv_def F_pop_def F_read_def F_read_at_def F_have_data_def elem_size_def)

lemma B_push_inv:
  assumes "B_inv (mem, b) es" "B_can_write b" "elem_fits (mem, b) e"
  shows "\<exists>s'. B_push (mem, b) e = Some s' \<and> B_inv s' (e # es) \<and> elem_fits s' = elem_fits (mem, b) \<and> B_cap (snd s') = B_cap b"
proof -
  obtain d1 d2 where e: "e = (d1, d2)" "length d1 = size1 b" "length d2 = size2 b" using assms(3) by (cases e) (auto simp: elem_fits_def)
  define p2 where "p2 = pos b - size2 b"
  define p1 where "p1 = p2 - size1 b"
  let ?m = "memcpy mem p2 d2"
  let ?m2 = "memcpy ?m p1 d1" and ?b2 = "b\<lparr>pos := p1\<rparr>"
  have room: "size1 b + size2 b + start b \<le> pos b" using assms(2) by (simp add: B_can_write_def B_have_space_for_def)
  note inv = assms(1) [unfolded B_inv_def, simplified]
  have ps: "p2 + size2 b = pos b" "p1 + size1 b = p2" "start b \<le> p1" using room by (auto simp: p1_def p2_def)
  have fit: "p2 + length d2 \<le> length mem" "p1 + length d1 \<le> length ?m" using room inv e ps by auto
  have push: "B_push (mem, b) e = Some (?m2, ?b2)"
    using e by (simp add: B_push_def B_write_def B_write_bytes_def p1_def p2_def)
  have "bytes ?m2 p1 (size1 b + (size2 b + (end_ptr b - pos b))) = bytes ?m2 p1 (size1 b) @ bytes ?m2 p2 (size2 b) @ bytes ?m2 (pos b) (end_ptr b - pos b)"
    using ps by (simp add: bytes_append)
  also have "\<dots> = d1 @ d2 @ concat (map flat es)"
    using B_area [OF assms(1)] fit e ps bytes_memcpy_same [OF fit(1)] bytes_memcpy_same [OF fit(2)] by (simp add: bytes_memcpy_after)
  finally have area: "bytes ?m2 p1 (end_ptr b - p1) = concat (map flat (e # es))"
  proof -
    have "end_ptr b - p1 = size1 b + (size2 b + (end_ptr b - pos b))" using ps inv by linarith
    then show "bytes ?m2 p1 (size1 b + (size2 b + (end_ptr b - pos b))) = d1 @ d2 @ concat (map flat es) \<Longrightarrow> ?thesis" by (simp add: e flat_def)
  qed
  have fitseq: "elem_fits (?m2, ?b2) = elem_fits (mem, b)" by (simp add: elem_fits_cong)
  have "B_inv (?m2, ?b2) (e # es)"
    unfolding B_inv_def Let_def prod.case fitseq using inv area fit ps assms(3) by (simp add: elem_size_def)
  then show ?thesis using push fitseq by (simp add: B_cap_def elem_size_def)
qed

lemma B_pop_inv:
  assumes "B_inv (mem, b) (e # es)"
  shows "\<exists>s'. B_pop (mem, b) = Some (e, s') \<and> B_inv s' es"
proof -
  obtain d1 d2 where e: "e = (d1, d2)" "length d1 = size1 b" "length d2 = size2 b"
    using assms by (cases e) (auto simp: B_inv_def elem_fits_def)
  note inv = assms [unfolded B_inv_def, simplified]
  let ?p1 = "pos b + size1 b"
  let ?p = "?p1 + size2 b" and ?n = "length es * elem_size b"
  have area: "bytes mem (pos b) (end_ptr b - pos b) = d1 @ d2 @ concat (map flat es)" using B_area [OF assms] by (simp add: e flat_def)
  have whole: "bytes mem (pos b) (size1 b) @ bytes mem ?p1 (size2 b) @ bytes mem ?p ?n = d1 @ d2 @ concat (map flat es)"
  proof -
    have "end_ptr b - pos b = size1 b + (size2 b + ?n)" using inv by (simp add: elem_size_def)
    then have "bytes mem (pos b) (size1 b + (size2 b + ?n)) = d1 @ d2 @ concat (map flat es)" using area by simp
    then show ?thesis by (simp add: bytes_append)
  qed
  have lens: "length (bytes mem (pos b) (size1 b)) = size1 b" "length (bytes mem ?p1 (size2 b)) = size2 b"
    using inv by (auto intro!: length_bytes simp: elem_size_def)
  have parts: "bytes mem (pos b) (size1 b) = d1" "bytes mem ?p1 (size2 b) = d2" "bytes mem ?p ?n = concat (map flat es)"
    using whole lens e by (auto simp: append_eq_append_conv)
  have "end_ptr b = ?p + ?n" using inv by (simp add: elem_size_def)
  then have "B_pop (mem, b) = Some (e, (mem, b\<lparr>pos := ?p\<rparr>))"
    using parts e
    by (auto simp: B_pop_def B_read_def B_read_at_def B_have_data_def B_read_bytes_def load_elem_def Let_def)
  moreover have "B_inv (mem, b\<lparr>pos := ?p\<rparr>) es"
    using inv parts by (auto simp: B_inv_def elem_size_def elem_fits_def list_all_iff)
  ultimately show ?thesis by blast
qed

lemma B_pop_empty: "B_inv (mem, b) [] \<Longrightarrow> B_pop (mem, b) = None"
  by (auto simp: B_inv_def B_pop_def B_read_def B_read_at_def B_have_data_def elem_size_def)

lemma F_room:
  assumes "F_inv (mem, b) es"
  shows "F_can_write b \<longleftrightarrow> length es < F_cap b"
proof -
  have sz: "0 < elem_size b" "pos b = start b + length es * elem_size b" using assms by (auto simp: F_inv_def)
  have "F_can_write b \<longleftrightarrow> Suc (length es) * elem_size b \<le> end_ptr b - start b - 1"
    using sz by (auto simp: F_can_write_def F_have_space_for_def elem_size_def)
  also have "\<dots> \<longleftrightarrow> Suc (length es) \<le> F_cap b" unfolding F_cap_def using sz(1) by (simp add: less_eq_div_iff_mult_less_eq)
  finally show ?thesis by (simp only: Suc_le_eq)
qed

lemma B_room:
  assumes "B_inv (mem, b) es"
  shows "B_can_write b \<longleftrightarrow> length es < B_cap b"
proof -
  have sz: "0 < elem_size b" "end_ptr b = pos b + length es * elem_size b" "start b \<le> pos b" using assms by (auto simp: B_inv_def)
  have "B_can_write b \<longleftrightarrow> Suc (length es) * elem_size b \<le> end_ptr b - start b"
    using sz by (auto simp: B_can_write_def B_have_space_for_def elem_size_def)
  also have "\<dots> \<longleftrightarrow> Suc (length es) \<le> B_cap b" unfolding B_cap_def using sz(1) by (simp add: less_eq_div_iff_mult_less_eq)
  finally show ?thesis by (simp only: Suc_le_eq)
qed

interpretation forward: lifo_stack F_inv "\<lambda>s. F_can_write (snd s)" elem_fits "F_cap \<circ> snd" F_push F_pop
proof unfold_locales
  fix s es e assume "F_inv s es" "F_can_write (snd s)" "elem_fits s e"
  then show "\<exists>s'. F_push s e = Some s' \<and> F_inv s' (e # es) \<and> elem_fits s' = elem_fits s \<and> (F_cap \<circ> snd) s' = (F_cap \<circ> snd) s"
    using F_push_inv by (cases s) simp
next
  fix s es assume "F_inv s es" then show "F_can_write (snd s) \<longleftrightarrow> length es < (F_cap \<circ> snd) s" using F_room by (cases s) simp
next
  fix s e es assume "F_inv s (e # es)" then show "\<exists>s'. F_pop s = Some (e, s') \<and> F_inv s' es" using F_pop_inv by (cases s) simp
next
  fix s assume "F_inv s []" then show "F_pop s = None" using F_pop_empty by (cases s) simp
qed

interpretation backward: lifo_stack B_inv "\<lambda>s. B_can_write (snd s)" elem_fits "B_cap \<circ> snd" B_push B_pop
proof unfold_locales
  fix s es e assume "B_inv s es" "B_can_write (snd s)" "elem_fits s e"
  then show "\<exists>s'. B_push s e = Some s' \<and> B_inv s' (e # es) \<and> elem_fits s' = elem_fits s \<and> (B_cap \<circ> snd) s' = (B_cap \<circ> snd) s"
    using B_push_inv by (cases s) simp
next
  fix s es assume "B_inv s es" then show "B_can_write (snd s) \<longleftrightarrow> length es < (B_cap \<circ> snd) s" using B_room by (cases s) simp
next
  fix s e es assume "B_inv s (e # es)" then show "\<exists>s'. B_pop s = Some (e, s') \<and> B_inv s' es" using B_pop_inv by (cases s) simp
next
  fix s assume "B_inv s []" then show "B_pop s = None" using B_pop_empty by (cases s) simp
qed

lemma F_empty_inv: "0 < l1 + l2 \<Longrightarrow> s \<le> e \<Longrightarrow> e \<le> length mem \<Longrightarrow> F_inv (mem, F_set_buffer_space (setup_writing b l1 l2) s e) []"
  by (simp add: F_inv_def elem_size_def setup_writing_def F_set_buffer_space_def F_reset_def bytes_def)

lemma B_empty_inv: "0 < l1 + l2 \<Longrightarrow> s \<le> e \<Longrightarrow> e \<le> length mem \<Longrightarrow> B_inv (mem, B_set_buffer_space (setup_writing b l1 l2) s e) []"
  by (simp add: B_inv_def elem_size_def setup_writing_def B_set_buffer_space_def B_reset_def bytes_def)

section \<open>Handing space from a backward to a forward buffer\<close>

lemma F_push_frame:
  assumes "F_inv (mem, b) es" "F_can_write b" "elem_fits (mem, b) e" "F_push (mem, b) e = Some (mem', b')" "end_ptr b \<le> q"
  shows "length mem' = length mem \<and> bytes mem' q n = bytes mem q n"
proof -
  have "length (fst e) = size1 b" "length (snd e) = size2 b" "pos b + size1 b + size2 b < end_ptr b" "end_ptr b \<le> length mem"
    using assms(1-3) by (auto simp: elem_fits_def F_can_write_def F_have_space_for_def F_inv_def)
  moreover from this have "mem' = memcpy (memcpy mem (pos b) (fst e)) (pos b + size1 b) (snd e)"
    using assms(4) by (cases "size2 b = 0") (auto simp: F_push_def F_write_def F_write_bytes_def)
  ultimately show ?thesis using assms(5) by (simp add: bytes_memcpy_after)
qed

lemma B_inv_frame: "B_inv (mem, b) es \<Longrightarrow> length mem' = length mem \<Longrightarrow> bytes mem' (pos b) (end_ptr b - pos b) = bytes mem (pos b) (end_ptr b - pos b) \<Longrightarrow> B_inv (mem', b) es"
  unfolding B_inv_def Let_def prod.case elem_fits_cong [OF refl refl, of mem' b mem] by metis

text \<open>C21: Both LIFO buffers set up on a space take elements while \<open>can_write\<close> allows, which is exactly the
  first \<open>(size - 1) div element size\<close> of them for the forward buffer and \<open>size div element size\<close> for the backward one, and reading returns exactly
  those, last written first.\<close>

theorem lifo_buffers_last_in_first_out:
  assumes "0 < l1 + l2" "s \<le> e" "e \<le> length mem" "\<forall>x \<in> set new. length (fst x) = l1 \<and> length (snd x) = l2"
  shows "(\<exists>t. fill_buf (\<lambda>s. F_can_write (snd s)) F_push (mem, F_set_buffer_space (setup_writing b l1 l2) s e) new = Some (take ((e - s - 1) div (l1 + l2)) new, t) \<and>
              drain F_pop (length new) t = rev (take ((e - s - 1) div (l1 + l2)) new)) \<and>
         (\<exists>t. fill_buf (\<lambda>s. B_can_write (snd s)) B_push (mem, B_set_buffer_space (setup_writing b l1 l2) s e) new = Some (take ((e - s) div (l1 + l2)) new, t) \<and>
              drain B_pop (length new) t = rev (take ((e - s) div (l1 + l2)) new))"
proof (intro conjI)
  let ?f = "F_set_buffer_space (setup_writing b l1 l2) s e" and ?b = "B_set_buffer_space (setup_writing b l1 l2) s e"
  have sizes: "elem_size ?f = l1 + l2" "start ?f = s" "end_ptr ?f = e" "elem_size ?b = l1 + l2" "start ?b = s" "end_ptr ?b = e"
    "size1 ?f = l1" "size2 ?f = l2" "size1 ?b = l1" "size2 ?b = l2"
    by (simp_all add: elem_size_def setup_writing_def F_set_buffer_space_def F_reset_def B_set_buffer_space_def B_reset_def)
  show "\<exists>t. fill_buf (\<lambda>s. F_can_write (snd s)) F_push (mem, ?f) new = Some (take ((e - s - 1) div (l1 + l2)) new, t) \<and>
              drain F_pop (length new) t = rev (take ((e - s - 1) div (l1 + l2)) new)"
    using forward.last_in_first_out [OF F_empty_inv [OF assms(1-3), of b], of new] assms(4) by (simp add: F_cap_def sizes elem_fits_def)
  show "\<exists>t. fill_buf (\<lambda>s. B_can_write (snd s)) B_push (mem, ?b) new = Some (take ((e - s) div (l1 + l2)) new, t) \<and>
              drain B_pop (length new) t = rev (take ((e - s) div (l1 + l2)) new)"
    using backward.last_in_first_out [OF B_empty_inv [OF assms(1-3), of b], of new] assms(4) by (simp add: B_cap_def sizes elem_fits_def)
qed

theorem lifo_buffers_last_in_first_out_witness:
  "\<exists>t. fill_buf (\<lambda>s. F_can_write (snd s)) F_push ([0, 0, 0, 0], F_set_buffer_space (setup_writing \<lparr>size1 = 0, size2 = 0, start = 0, end_ptr = 0, pos = 0\<rparr> 2 0) 0 4) [([1, 2], []), ([3, 4], [])] = Some (take ((4 - 0 - 1) div (2 + 0)) [([1, 2], []), ([3, 4], [])], t) \<and>
     drain F_pop (length [([1, 2], []), ([3, 4 :: uchar], [] :: uchar list)]) t = rev (take ((4 - 0 - 1) div (2 + 0)) [([1, 2], []), ([3, 4], [])])"
proof -
  have "0 < (2 :: nat) + 0" "0 \<le> (4 :: nat)" "4 \<le> length [0, 0, 0, 0 :: uchar]" "\<forall>x \<in> set [([1, 2], []), ([3, 4 :: uchar], [] :: uchar list)]. length (fst x) = 2 \<and> length (snd x) = 0" by simp_all
  from lifo_buffers_last_in_first_out [OF this, of "\<lparr>size1 = 0, size2 = 0, start = 0, end_ptr = 0, pos = 0\<rparr>"] show ?thesis by (rule conjunct1)
qed

text \<open>When the backward buffer gives its unused space to the forward buffer that ends where it starts, both keep their contents and stay adjacent,
  and whatever the forward buffer then writes leaves the elements of the backward one unchanged.\<close>

theorem lifo_space_handover:
  assumes "B_inv (mem, bb) es" "F_inv (mem, fb) fs" "end_ptr fb = start bb" "B_remove_unused_space bb = (us, ue, bb')"
  shows "B_inv (mem, bb') es \<and> F_inv (mem, F_grow fb us ue) fs \<and> end_ptr (F_grow fb us ue) = start bb' \<and>
    (\<forall>e mem' fb'. F_can_write (F_grow fb us ue) \<longrightarrow> elem_fits (mem, F_grow fb us ue) e \<longrightarrow> F_push (mem, F_grow fb us ue) e = Some (mem', fb') \<longrightarrow>
       F_inv (mem', fb') (e # fs) \<and> B_inv (mem', bb') es)"
proof -
  have bb': "bb' = bb\<lparr>start := pos bb\<rparr>" "us = start bb" "ue = pos bb" using assms(4) by (auto simp: B_remove_unused_space_def)
  have B: "B_inv (mem, bb') es"
    using assms(1) B_area [OF assms(1)] by (simp add: B_inv_def bb' elem_size_def elem_fits_cong [of "bb\<lparr>start := pos bb\<rparr>" bb mem mem])
  have F: "F_inv (mem, F_grow fb us ue) fs"
    using assms(1-3) F_area [OF assms(2)] by (simp add: F_inv_def B_inv_def bb' F_grow_def elem_size_def elem_fits_cong [of "fb\<lparr>end_ptr := pos bb\<rparr>" fb mem mem])
  have "F_inv (mem', fb') (e # fs) \<and> B_inv (mem', bb') es"
    if w: "F_can_write (F_grow fb us ue)" "elem_fits (mem, F_grow fb us ue) e" "F_push (mem, F_grow fb us ue) e = Some (mem', fb')" for e mem' fb'
  proof
    show "F_inv (mem', fb') (e # fs)" using F_push_inv [OF F w(1,2)] w(3) by auto
    have "end_ptr (F_grow fb us ue) \<le> pos bb'" by (simp add: F_grow_def bb')
    from F_push_frame [OF F w this] show "B_inv (mem', bb') es" by (intro B_inv_frame [OF B]) auto
  qed
  then show ?thesis using B F by (simp add: F_grow_def bb')
qed

theorem lifo_space_handover_witness:
  "F_inv ([1, 0, 0, 9], F_grow \<lparr>size1 = 1, size2 = 0, start = 0, end_ptr = 2, pos = 1\<rparr> 2 3) [([1], [])] \<and>
   B_inv ([1, 0, 0, 9], \<lparr>size1 = 1, size2 = 0, start = 3, end_ptr = 4, pos = 3\<rparr>) [([9], [])]"
proof -
  have "B_inv ([1, 0, 0, 9], \<lparr>size1 = 1, size2 = 0, start = 2, end_ptr = 4, pos = 3\<rparr>) [([9], [])]"
    "F_inv ([1, 0, 0, 9], \<lparr>size1 = 1, size2 = 0, start = 0, end_ptr = 2, pos = 1\<rparr>) [([1], [])]"
    by (simp_all add: B_inv_def F_inv_def elem_size_def elem_fits_def bytes_def flat_def)
  from lifo_space_handover [OF this, of 2 3 "\<lparr>size1 = 1, size2 = 0, start = 3, end_ptr = 4, pos = 3\<rparr>"] show ?thesis
    by (simp add: B_remove_unused_space_def)
qed

end
