(* ===== verification/Sql_String.thy ===== *)
theory Sql_String imports Memory Byte_Order begin

text \<open>
  \<open>private/sql_string.h\<close>, class \<open>Binary_string\<close>: a byte string with its used and its allocated length over a
  store of blocks. The buffer belongs to the string when \<open>alloced\<close> is set, else it is lent to it; an
  \<open>Alloced_length\<close> of 0 marks memory that must not be written. \<open>real_alloc\<close> and \<open>realloc_raw\<close> are only declared in the header and are parameters:
  they return TRUE on failure together with the new store and string. Every operation that
  touches memory returns \<open>None\<close> when the access is outside a live block. Lengths are 32-bit words as in the class,
  arguments of type \<open>size_t\<close> 64-bit words.
\<close>

section \<open>The class and its constructors\<close>

record Binary_string =
  Ptr :: ptr
  str_length :: uint32
  Alloced_length :: uint32
  extra_alloc :: uint32
  alloced :: bool
  thread_specific :: bool

type_synonym bstate = "blocks \<times> Binary_string"
type_synonym allocator = "blocks \<Rightarrow> Binary_string \<Rightarrow> size_t \<Rightarrow> bool \<times> bstate"

definition init_private_data :: Binary_string where
  "init_private_data = \<lparr>Ptr = None, str_length = 0, Alloced_length = 0, extra_alloc = 0, alloced = False, thread_specific = False\<rparr>"

definition free_buffer :: "blocks \<Rightarrow> Binary_string \<Rightarrow> bstate" where
  "free_buffer mem s = (if alloced s then (my_free mem (Ptr s), s\<lparr>alloced := False\<rparr>) else (mem, s))"

definition Binary_string_alloc :: "allocator \<Rightarrow> blocks \<Rightarrow> size_t \<Rightarrow> bstate" where
  "Binary_string_alloc real_alloc mem length_arg = snd (real_alloc mem init_private_data length_arg)"

definition Binary_string_const :: "ptr \<Rightarrow> size_t \<Rightarrow> Binary_string" where
  "Binary_string_const str len = \<lparr>Ptr = str, str_length = ucast len, Alloced_length = 0, extra_alloc = 0, alloced = False, thread_specific = False\<rparr>"

definition Binary_string_buf :: "ptr \<Rightarrow> size_t \<Rightarrow> Binary_string" where
  "Binary_string_buf str len = \<lparr>Ptr = str, str_length = ucast len, Alloced_length = ucast len, extra_alloc = 0, alloced = False, thread_specific = False\<rparr>"

definition Binary_string_copy :: "Binary_string \<Rightarrow> Binary_string" where
  "Binary_string_copy str =
     \<lparr>Ptr = Ptr str, str_length = str_length str, Alloced_length = Alloced_length str, extra_alloc = 0, alloced = False, thread_specific = False\<rparr>"

section \<open>Reading\<close>

definition get_char :: "blocks \<Rightarrow> Binary_string \<Rightarrow> nat \<Rightarrow> uchar option" where
  "get_char mem s i = map_option hd (rd mem (Ptr s) i 1)"

definition set_length :: "Binary_string \<Rightarrow> size_t \<Rightarrow> Binary_string" where
  "set_length s len = s\<lparr>str_length := ucast len\<rparr>"

definition is_empty :: "Binary_string \<Rightarrow> bool" where
  "is_empty s = (str_length s = 0)"

definition end_of :: "Binary_string \<Rightarrow> ptr" where
  "end_of s = ptr_add (Ptr s) (unat (str_length s))"

definition my_isascii :: "uchar \<Rightarrow> bool" where
  "my_isascii c = (c AND NOT 0x7F = 0)"

fun ascii_loop :: "blocks \<Rightarrow> ptr \<Rightarrow> nat \<Rightarrow> nat \<Rightarrow> bool option" where
  "ascii_loop mem p i 0 = Some False"
| "ascii_loop mem p i (Suc n) = do { c \<leftarrow> rd mem p i 1; if \<not> my_isascii (hd c) then Some True else ascii_loop mem p (i + 1) n }"

definition has_8bit_bytes :: "blocks \<Rightarrow> Binary_string \<Rightarrow> bool option" where
  "has_8bit_bytes mem s = ascii_loop mem (Ptr s) 0 (unat (str_length s))"

definition bin_eq :: "blocks \<Rightarrow> Binary_string \<Rightarrow> Binary_string \<Rightarrow> bool option" where
  "bin_eq mem s other =
     (if str_length s = str_length other
      then do { a \<leftarrow> rd mem (Ptr s) 0 (unat (str_length s)); b \<leftarrow> rd mem (Ptr other) 0 (unat (str_length s)); Some (memcmp a b = 0) }
      else Some False)"

definition to_lex_cstring :: "Binary_string \<Rightarrow> ptr \<times> size_t" where
  "to_lex_cstring s = (Ptr s, ucast (str_length s))"

definition uses_buffer_owned_by :: "Binary_string \<Rightarrow> Binary_string \<Rightarrow> bool" where
  "uses_buffer_owned_by s other = (alloced other \<and>
     (case (Ptr s, Ptr other) of (Some (b, i), Some (b', j)) \<Rightarrow> b = b' \<and> j \<le> i \<and> i < j + unat (Alloced_length other) | _ \<Rightarrow> False))"

section \<open>Changing the string in place\<close>

definition chop :: "blocks \<Rightarrow> Binary_string \<Rightarrow> bstate option" where
  "chop mem s =
     (if str_length s \<noteq> 0 then do { mem1 \<leftarrow> wr mem (Ptr s) (unat (str_length s - 1)) [0]; Some (mem1, s\<lparr>str_length := str_length s - 1\<rparr>) }
      else Some (mem, s))"

definition q_append_char :: "blocks \<Rightarrow> Binary_string \<Rightarrow> uchar \<Rightarrow> bstate option" where
  "q_append_char mem s c = do { mem1 \<leftarrow> wr mem (Ptr s) (unat (str_length s)) [c]; Some (mem1, s\<lparr>str_length := str_length s + 1\<rparr>) }"

definition q_append2b :: "blocks \<Rightarrow> Binary_string \<Rightarrow> uint32 \<Rightarrow> bstate option" where
  "q_append2b mem s n =
     do { mem1 \<leftarrow> wr mem (Ptr s) (unat (str_length s)) (int2store [0, 0] 0 (ucast n)); Some (mem1, s\<lparr>str_length := str_length s + 2\<rparr>) }"

definition q_append_uint32 :: "blocks \<Rightarrow> Binary_string \<Rightarrow> uint32 \<Rightarrow> bstate option" where
  "q_append_uint32 mem s n =
     do { mem1 \<leftarrow> wr mem (Ptr s) (unat (str_length s)) (int4store [0, 0, 0, 0] 0 (ucast n)); Some (mem1, s\<lparr>str_length := str_length s + 4\<rparr>) }"

definition q_append :: "blocks \<Rightarrow> Binary_string \<Rightarrow> ptr \<Rightarrow> size_t \<Rightarrow> bstate option" where
  "q_append mem s data data_len =
     do { mem1 \<leftarrow> (if data_len \<noteq> 0 then do { d \<leftarrow> rd mem data 0 (unat data_len); wr mem (Ptr s) (unat (str_length s)) d } else Some mem);
          Some (mem1, s\<lparr>str_length := str_length s + ucast data_len\<rparr>) }"

definition write_at_position :: "blocks \<Rightarrow> Binary_string \<Rightarrow> uint32 \<Rightarrow> uint32 \<Rightarrow> bstate option" where
  "write_at_position mem s position value =
     do { mem1 \<leftarrow> wr mem (Ptr s) (unat position) (int4store [0, 0, 0, 0] 0 (ucast value)); Some (mem1, s) }"

definition set_thread_specific :: "Binary_string \<Rightarrow> Binary_string" where
  "set_thread_specific s = (if \<not> alloced s then s\<lparr>thread_specific := True\<rparr> else s)"

definition extra_allocation :: "Binary_string \<Rightarrow> size_t \<Rightarrow> Binary_string" where
  "extra_allocation s len = s\<lparr>extra_alloc := ucast len\<rparr>"

definition mark_as_const :: "Binary_string \<Rightarrow> Binary_string" where
  "mark_as_const s = s\<lparr>Alloced_length := 0\<rparr>"

section \<open>Exchanging buffers\<close>

definition swap_strings :: "Binary_string \<Rightarrow> Binary_string \<Rightarrow> Binary_string \<times> Binary_string" where
  "swap_strings a s =
     (a\<lparr>Ptr := Ptr s, str_length := str_length s, Alloced_length := Alloced_length s, alloced := alloced s\<rparr>,
      s\<lparr>Ptr := Ptr a, str_length := str_length a, Alloced_length := Alloced_length a, alloced := alloced a\<rparr>)"

definition set_alloced :: "blocks \<Rightarrow> Binary_string \<Rightarrow> ptr \<Rightarrow> size_t \<Rightarrow> size_t \<Rightarrow> bstate" where
  "set_alloced mem s str len alloced_length =
     (let (mem1, s1) = free_buffer mem s
      in (mem1, s1\<lparr>Ptr := str, str_length := ucast len, Alloced_length := ucast alloced_length\<rparr>))"

definition set_buf :: "blocks \<Rightarrow> Binary_string \<Rightarrow> ptr \<Rightarrow> size_t \<Rightarrow> bstate" where
  "set_buf mem s str arg_length = set_alloced mem s str arg_length arg_length"

definition set_const :: "blocks \<Rightarrow> Binary_string \<Rightarrow> ptr \<Rightarrow> size_t \<Rightarrow> bstate" where
  "set_const mem s str len =
     (let (mem1, s1) = free_buffer mem s in (mem1, s1\<lparr>Ptr := str, str_length := ucast len, Alloced_length := 0\<rparr>))"

definition set_part :: "blocks \<Rightarrow> Binary_string \<Rightarrow> Binary_string \<Rightarrow> size_t \<Rightarrow> size_t \<Rightarrow> bstate" where
  "set_part mem s str offset len =
     (let (mem1, s1) = free_buffer mem s;
          s2 = s1\<lparr>Ptr := ptr_add (Ptr str) (unat offset), str_length := ucast len, Alloced_length := 0\<rparr>
      in (mem1, if Alloced_length str \<noteq> 0 then s2\<lparr>Alloced_length := ucast (ucast (Alloced_length str) - offset)\<rparr> else s2))"

definition reset :: "blocks \<Rightarrow> Binary_string \<Rightarrow> ptr \<Rightarrow> size_t \<Rightarrow> size_t \<Rightarrow> bstate" where
  "reset mem s ptr_arg length_arg alloced_length_arg =
     (let (mem1, s1) = set_alloced mem s ptr_arg length_arg alloced_length_arg in (mem1, s1\<lparr>alloced := ptr_arg \<noteq> None\<rparr>))"

definition release :: "Binary_string \<Rightarrow> ptr \<times> Binary_string" where
  "release s = (Ptr s, init_private_data)"

definition set_buffer_if_not_allocated :: "Binary_string \<Rightarrow> ptr \<Rightarrow> size_t \<Rightarrow> Binary_string" where
  "set_buffer_if_not_allocated s str arg_length =
     (if \<not> alloced s then s\<lparr>Ptr := str, str_length := ucast arg_length, Alloced_length := ucast arg_length\<rparr> else s)"

text \<open>\<open>operator=\<close> for two different objects.\<close>

definition assign :: "blocks \<Rightarrow> Binary_string \<Rightarrow> Binary_string \<Rightarrow> bstate" where
  "assign mem this s = set_alloced mem this (Ptr s) (ucast (str_length s)) (ucast (Alloced_length s))"

definition free :: "blocks \<Rightarrow> Binary_string \<Rightarrow> bstate" where
  "free mem s =
     (let (mem1, s1) = free_buffer mem s in (mem1, s1\<lparr>Ptr := None, str_length := 0, Alloced_length := 0, extra_alloc := 0\<rparr>))"

definition move :: "blocks \<Rightarrow> Binary_string \<Rightarrow> Binary_string \<Rightarrow> blocks \<times> Binary_string \<times> Binary_string" where
  "move mem this s =
     (let (mem1, t) = set_alloced mem this (Ptr s) (ucast (str_length s)) (ucast (Alloced_length s))
      in (mem1, t\<lparr>extra_alloc := extra_alloc s, alloced := alloced s, thread_specific := thread_specific s\<rparr>, s\<lparr>alloced := False\<rparr>))"

section \<open>Growing\<close>

definition alloc :: "allocator \<Rightarrow> blocks \<Rightarrow> Binary_string \<Rightarrow> size_t \<Rightarrow> bool \<times> bstate" where
  "alloc real_alloc mem s arg_length =
     (if arg_length \<le> ucast (Alloced_length s) \<and> Alloced_length s \<noteq> 0 then (False, mem, s) else real_alloc mem s arg_length)"

definition realloc :: "allocator \<Rightarrow> blocks \<Rightarrow> Binary_string \<Rightarrow> size_t \<Rightarrow> (bool \<times> bstate) option" where
  "realloc realloc_raw mem s arg_length =
     (let (err, mem1, s1) = realloc_raw mem s (arg_length + 1) in
      if err then Some (True, mem1, s1)
      else do { mem2 \<leftarrow> wr mem1 (Ptr s1) (unat arg_length) [0]; Some (False, mem2, s1) })"

definition realloc_with_extra :: "allocator \<Rightarrow> blocks \<Rightarrow> Binary_string \<Rightarrow> size_t \<Rightarrow> (bool \<times> bstate) option" where
  "realloc_with_extra realloc_raw mem s arg_length =
     (let s0 = (if extra_alloc s < 4096 then s\<lparr>extra_alloc := extra_alloc s * 2 + 128\<rparr> else s);
          (err, mem1, s1) = realloc_raw mem s0 (arg_length + ucast (extra_alloc s0)) in
      if err then Some (True, mem1, s1)
      else do { mem2 \<leftarrow> wr mem1 (Ptr s1) (unat arg_length) [0]; Some (False, mem2, s1) })"

definition realloc_with_extra_if_needed :: "allocator \<Rightarrow> blocks \<Rightarrow> Binary_string \<Rightarrow> size_t \<Rightarrow> (bool \<times> bstate) option" where
  "realloc_with_extra_if_needed realloc_raw mem s arg_length =
     (if arg_length < ucast (Alloced_length s)
      then do { mem1 \<leftarrow> wr mem (Ptr s) (unat arg_length) [0]; Some (False, mem1, s) }
      else realloc_with_extra realloc_raw mem s arg_length)"

definition append_data :: "allocator \<Rightarrow> blocks \<Rightarrow> Binary_string \<Rightarrow> ptr \<Rightarrow> size_t \<Rightarrow> (bool \<times> bstate) option" where
  "append_data realloc_raw mem s data sz =
     (if sz = 0 then Some (False, mem, s)
      else do { (err, mem1, s1) \<leftarrow> realloc_with_extra_if_needed realloc_raw mem s (ucast (str_length s) + sz);
                if err then Some (True, mem1, s1)
                else do { (mem2, s2) \<leftarrow> q_append mem1 s1 data sz; Some (False, mem2, s2) } })"

definition append_string :: "allocator \<Rightarrow> blocks \<Rightarrow> Binary_string \<Rightarrow> Binary_string \<Rightarrow> (bool \<times> bstate) option" where
  "append_string realloc_raw mem s other = append_data realloc_raw mem s (Ptr other) (ucast (str_length other))"

definition append_char :: "allocator \<Rightarrow> blocks \<Rightarrow> Binary_string \<Rightarrow> uchar \<Rightarrow> (bool \<times> bstate) option" where
  "append_char realloc_raw mem s chr =
     (if str_length s < Alloced_length s
      then do { (mem1, s1) \<leftarrow> q_append_char mem s chr; Some (False, mem1, s1) }
      else do { (err, mem1, s1) \<leftarrow> realloc_with_extra realloc_raw mem s (ucast (str_length s + 1));
                if err then Some (True, mem1, s1)
                else do { (mem2, s2) \<leftarrow> q_append_char mem1 s1 chr; Some (False, mem2, s2) } })"

text \<open>\<open>append_hex\<close>: the table \<open>_dig_vec_lower\<close> is defined outside the headers. The bytes of \<open>src\<close> are read one by one as the loop
  reaches them.\<close>

fun append_hex_loop :: "allocator \<Rightarrow> (nat \<Rightarrow> uchar) \<Rightarrow> blocks \<Rightarrow> Binary_string \<Rightarrow> ptr \<Rightarrow> nat \<Rightarrow> nat \<Rightarrow> (bool \<times> bstate) option" where
  "append_hex_loop realloc_raw dig_vec_lower mem s src i 0 = Some (False, mem, s)"
| "append_hex_loop realloc_raw dig_vec_lower mem s src i (Suc n) =
     do { c \<leftarrow> rd mem src i 1;
          (err1, mem1, s1) \<leftarrow> append_char realloc_raw mem s (dig_vec_lower (unat (drop_bit 4 (hd c))));
          if err1 then Some (True, mem1, s1)
          else do { c' \<leftarrow> rd mem1 src i 1;
                    (err2, mem2, s2) \<leftarrow> append_char realloc_raw mem1 s1 (dig_vec_lower (unat (hd c' AND 0x0F)));
                    if err2 then Some (True, mem2, s2) else append_hex_loop realloc_raw dig_vec_lower mem2 s2 src (i + 1) n } }"

definition append_hex :: "allocator \<Rightarrow> (nat \<Rightarrow> uchar) \<Rightarrow> blocks \<Rightarrow> Binary_string \<Rightarrow> ptr \<Rightarrow> uint32 \<Rightarrow> (bool \<times> bstate) option" where
  "append_hex realloc_raw dig_vec_lower mem s src srclen = append_hex_loop realloc_raw dig_vec_lower mem s src 0 (unat srclen)"

definition append_with_step :: "allocator \<Rightarrow> blocks \<Rightarrow> Binary_string \<Rightarrow> ptr \<Rightarrow> uint32 \<Rightarrow> uint32 \<Rightarrow> (bool \<times> bstate) option" where
  "append_with_step realloc_raw mem s data arg_length step_alloc =
     (let new_length = arg_length + str_length s in
      do { (err, mem1, s1) \<leftarrow> (if new_length > Alloced_length s then realloc realloc_raw mem s (ucast (new_length + step_alloc)) else Some (False, mem, s));
           if err then Some (True, mem1, s1)
           else do { (mem2, s2) \<leftarrow> q_append mem1 s1 data (ucast arg_length); Some (False, mem2, s2) } })"

definition prep_append :: "allocator \<Rightarrow> blocks \<Rightarrow> Binary_string \<Rightarrow> uint32 \<Rightarrow> uint32 \<Rightarrow> (ptr \<times> bstate) option" where
  "prep_append realloc_raw mem s arg_length step_alloc =
     (let new_length = arg_length + str_length s in
      do { (err, mem1, s1) \<leftarrow> (if new_length > Alloced_length s then realloc realloc_raw mem s (ucast (new_length + step_alloc)) else Some (False, mem, s));
           if err then Some (None, mem1, s1)
           else Some (ptr_add (Ptr s1) (unat (str_length s1)), mem1, s1\<lparr>str_length := str_length s1 + arg_length\<rparr>) })"

definition reserve :: "allocator \<Rightarrow> blocks \<Rightarrow> Binary_string \<Rightarrow> size_t \<Rightarrow> (bool \<times> bstate) option" where
  "reserve realloc_raw mem s space_needed = realloc realloc_raw mem s (ucast (str_length s) + space_needed)"

text \<open>\<open>c_ptr\<close> returns the literal \<open>""\<close> for a null buffer, which is \<open>Inl\<close> here.\<close>

definition c_ptr :: "allocator \<Rightarrow> blocks \<Rightarrow> Binary_string \<Rightarrow> ((string + ptr) \<times> bstate) option" where
  "c_ptr realloc_raw mem s =
     (if Ptr s = None then Some (Inl [], mem, s)
      else do { nul \<leftarrow> (if \<not> alloced s then map_option (\<lambda>c. hd c = 0) (rd mem (Ptr s) (unat (str_length s)) 1) else Some False);
                if nul then Some (Inr (Ptr s), mem, s)
                else if str_length s < Alloced_length s
                then do { mem1 \<leftarrow> wr mem (Ptr s) (unat (str_length s)) [0]; Some (Inr (Ptr s), mem1, s) }
                else do { (err, mem1, s1) \<leftarrow> realloc realloc_raw mem s (ucast (str_length s)); Some (Inr (Ptr s1), mem1, s1) } })"

definition c_ptr_safe :: "allocator \<Rightarrow> blocks \<Rightarrow> Binary_string \<Rightarrow> (ptr \<times> bstate) option" where
  "c_ptr_safe realloc_raw mem s =
     (if Ptr s \<noteq> None \<and> str_length s < Alloced_length s
      then do { mem1 \<leftarrow> wr mem (Ptr s) (unat (str_length s)) [0]; Some (Ptr s, mem1, s) }
      else do { (err, mem1, s1) \<leftarrow> realloc realloc_raw mem s (ucast (str_length s)); Some (Ptr s1, mem1, s1) })"

section \<open>Well-formed strings and the contract of the allocator\<close>

definition bs_ok :: "blocks \<Rightarrow> Binary_string \<Rightarrow> bool" where
  "bs_ok mem s \<longleftrightarrow> span mem (Ptr s) (unat (str_length s)) \<and> span mem (Ptr s) (unat (Alloced_length s))"

definition contents :: "blocks \<Rightarrow> Binary_string \<Rightarrow> buffer option" where
  "contents mem s = rd mem (Ptr s) 0 (unat (str_length s))"

text \<open>\<open>kept mem s mem' s'\<close>: the string still has its contents, perhaps in another block, and no block that
  was in use and is not its own has changed or become its own.\<close>

definition kept :: "blocks \<Rightarrow> Binary_string \<Rightarrow> blocks \<Rightarrow> Binary_string \<Rightarrow> bool" where
  "kept mem s mem' s' \<longleftrightarrow> bs_ok mem' s' \<and> str_length s' = str_length s \<and> contents mem' s' = contents mem s \<and>
     (\<forall>b. mem b \<noteq> None \<longrightarrow> Some b \<noteq> block_of (Ptr s) \<longrightarrow> mem' b = mem b \<and> Some b \<noteq> block_of (Ptr s'))"

definition realloc_contract :: "allocator \<Rightarrow> bool" where
  "realloc_contract R \<longleftrightarrow> (\<forall>mem s n err mem' s'. bs_ok mem s \<longrightarrow> unat (str_length s) \<le> unat n \<longrightarrow> R mem s n = (err, mem', s') \<longrightarrow>
     (if err then mem' = mem \<and> s' = s else kept mem s mem' s' \<and> unat n \<le> unat (Alloced_length s')))"

lemma realloc_contractD:
  "realloc_contract R \<Longrightarrow> bs_ok mem s \<Longrightarrow> unat (str_length s) \<le> unat n \<Longrightarrow> R mem s n = (err, mem', s') \<Longrightarrow>
     (if err then mem' = mem \<and> s' = s else kept mem s mem' s' \<and> unat n \<le> unat (Alloced_length s'))"
  unfolding realloc_contract_def by blast

lemma kept_refl: "bs_ok mem s \<Longrightarrow> kept mem s mem s"
  by (auto simp: kept_def)

lemma kept_extra [simp]: "kept mem (s\<lparr>extra_alloc := x\<rparr>) = kept mem s" "kept mem s mem' (s'\<lparr>extra_alloc := x\<rparr>) = kept mem s mem' s'"
  by (auto simp: kept_def contents_def bs_ok_def fun_eq_iff)

lemma bs_ok_extra [simp]: "bs_ok mem (s\<lparr>extra_alloc := x\<rparr>) = bs_ok mem s"
  by (simp add: bs_ok_def)

lemma kept_ok: "kept mem s mem' s' \<Longrightarrow> bs_ok mem' s'"
  by (simp add: kept_def)

lemma contents_ok: "bs_ok mem s \<Longrightarrow> \<exists>d. contents mem s = Some d \<and> length d = unat (str_length s)"
  unfolding contents_def bs_ok_def using rd_span [of mem "Ptr s" "unat (str_length s)" 0 "unat (str_length s)"] by simp

lemma kept_wr:
  assumes "kept mem s mem1 s1" "unat (str_length s1) \<le> i" "i + length d \<le> unat (Alloced_length s1)"
  shows "\<exists>mem2. wr mem1 (Ptr s1) i d = Some mem2 \<and> kept mem s mem2 s1 \<and> rd mem2 (Ptr s1) i (length d) = Some d"
proof -
  have "span mem1 (Ptr s1) (unat (Alloced_length s1))" using kept_ok [OF assms(1)] by (simp add: bs_ok_def)
  from wr_span [OF this assms(3)] obtain mem2 where w: "wr mem1 (Ptr s1) i d = Some mem2" "\<forall>q k. span mem2 q k = span mem1 q k"
    "rd mem2 (Ptr s1) i (length d) = Some d" "\<forall>j k. j + k \<le> i \<or> i + length d \<le> j \<longrightarrow> rd mem2 (Ptr s1) j k = rd mem1 (Ptr s1) j k"
    "\<forall>b. Some b \<noteq> block_of (Ptr s1) \<longrightarrow> mem2 b = mem1 b" by blast
  have "kept mem s mem2 s1"
    using assms(1,2) w(2) w(4) [rule_format, of 0 "unat (str_length s1)"] w(5) by (auto simp: kept_def bs_ok_def contents_def)
  then show ?thesis using w by blast
qed

lemma extra_positive:
  fixes x :: uint32
  assumes "x' = (if x < 4096 then x * 2 + 128 else x)"
  shows "1 \<le> unat x'"
proof (cases "x < 4096")
  case True
  then have "unat x < 4096" by (simp add: word_less_nat_alt)
  then have "unat (x * 2 + 128) = unat x * 2 + 128" by (simp add: unat_word_ariths)
  then show ?thesis using assms True by simp
next
  case False
  then have "4096 \<le> unat x" by (simp add: word_less_nat_alt)
  then show ?thesis using assms False by simp
qed

lemma realloc_with_extra_ok:
  assumes R: "realloc_contract R" and ok: "bs_ok mem s" and n: "unat (str_length s) \<le> unat n" "unat n < 2 ^ 63 + 2 ^ 32"
  shows "\<exists>err mem' s'. realloc_with_extra R mem s n = Some (err, mem', s') \<and> kept mem s mem' s' \<and> (\<not> err \<longrightarrow> unat n < unat (Alloced_length s'))"
proof -
  define x where "x = (if extra_alloc s < 4096 then extra_alloc s * 2 + 128 else extra_alloc s)"
  define s0 where "s0 = s\<lparr>extra_alloc := x\<rparr>"
  have s0: "(if extra_alloc s < 4096 then s\<lparr>extra_alloc := extra_alloc s * 2 + 128\<rparr> else s) = s0" by (simp add: s0_def x_def)
  have x: "1 \<le> unat x" using extra_positive [OF x_def] .
  have sum: "unat (n + ucast x) = unat n + unat x"
    using unat_less_length [of x] n(2) by (subst unat_add_small) (simp_all add: unat_ucast_mod)
  obtain err mem1 s1 where r: "R mem s0 (n + ucast x) = (err, mem1, s1)" by (metis prod_cases3)
  have ok0: "bs_ok mem s0" "unat (str_length s0) \<le> unat (n + ucast x)" using ok n sum by (simp_all add: s0_def)
  note c = realloc_contractD [OF R ok0 r]
  show ?thesis
  proof (cases err)
    case True
    then show ?thesis using c r ok kept_refl [OF ok] by (auto simp: realloc_with_extra_def s0 Let_def s0_def)
  next
    case False
    then have k: "kept mem s mem1 s1" "unat n + unat x \<le> unat (Alloced_length s1)" using c sum by (simp_all add: s0_def)
    have "unat (str_length s1) \<le> unat n" using k(1) n(1) by (simp add: kept_def)
    from kept_wr [OF k(1) this, of "[0]"] k(2) x obtain mem2 where "wr mem1 (Ptr s1) (unat n) [0] = Some mem2" "kept mem s mem2 s1" by auto
    then show ?thesis using False r k(2) x by (auto simp: realloc_with_extra_def s0 Let_def s0_def)
  qed
qed

lemma realloc_if_needed_ok:
  assumes R: "realloc_contract R" and ok: "bs_ok mem s" and n: "unat (str_length s) \<le> unat n" "unat n < 2 ^ 63 + 2 ^ 32"
  shows "\<exists>err mem' s'. realloc_with_extra_if_needed R mem s n = Some (err, mem', s') \<and> kept mem s mem' s' \<and> (\<not> err \<longrightarrow> unat n < unat (Alloced_length s'))"
proof (cases "n < ucast (Alloced_length s)")
  case True
  then have "unat n < unat (Alloced_length s)" using unat_less_length [of "Alloced_length s"] by (simp add: word_less_nat_alt unat_ucast_mod)
  then show ?thesis using kept_wr [OF kept_refl [OF ok] n(1), of "[0]"] True by (auto simp: realloc_with_extra_if_needed_def)
next
  case False
  then show ?thesis using realloc_with_extra_ok [OF assms] by (simp add: realloc_with_extra_if_needed_def)
qed

lemma append_within:
  assumes k: "kept mem s mem1 s1" and len: "unat (str_length s1) + length d \<le> unat (Alloced_length s1)" and c: "contents mem s = Some t"
  shows "\<exists>mem2. wr mem1 (Ptr s1) (unat (str_length s1)) d = Some mem2 \<and> bs_ok mem2 (s1\<lparr>str_length := str_length s1 + word_of_nat (length d)\<rparr>) \<and>
     contents mem2 (s1\<lparr>str_length := str_length s1 + word_of_nat (length d)\<rparr>) = Some (t @ d) \<and>
     (\<forall>b. mem b \<noteq> None \<longrightarrow> Some b \<noteq> block_of (Ptr s) \<longrightarrow> mem2 b = mem b \<and> Some b \<noteq> block_of (Ptr s1))"
proof -
  from kept_wr [OF k le_refl len] obtain mem2 where w: "wr mem1 (Ptr s1) (unat (str_length s1)) d = Some mem2" "kept mem s mem2 s1"
    "rd mem2 (Ptr s1) (unat (str_length s1)) (length d) = Some d" by blast
  have "length d < 2 ^ 32" "unat (str_length s1) + length d < 2 ^ 32" using len unat_less_length [of "Alloced_length s1"] by simp_all
  then have sum: "unat (str_length s1 + word_of_nat (length d)) = unat (str_length s1) + length d"
    by (simp add: unat_word_ariths unat_of_nat)
  have sp: "span mem2 (Ptr s1) (unat (str_length s1) + length d)"
    using kept_ok [OF w(2)] len by (auto simp: bs_ok_def elim: span_mono)
  have "contents mem2 s1 = Some t" using w(2) c by (simp add: kept_def)
  then have "rd mem2 (Ptr s1) 0 (unat (str_length s1) + length d) = Some (t @ d)"
    using rd_append [of mem2 "Ptr s1" 0 "unat (str_length s1)" "length d" t d] sp w(3) by (simp add: contents_def)
  then have "contents mem2 (s1\<lparr>str_length := str_length s1 + word_of_nat (length d)\<rparr>) = Some (t @ d)" by (simp add: contents_def sum)
  moreover have "bs_ok mem2 (s1\<lparr>str_length := str_length s1 + word_of_nat (length d)\<rparr>)"
    using sp kept_ok [OF w(2)] by (simp add: bs_ok_def sum)
  ultimately show ?thesis using w(1) w(2) [unfolded kept_def] by blast
qed

section \<open>Appending\<close>

text \<open>What an append leaves in memory: the string holds \<open>t\<close> and the blocks of others are untouched.\<close>

definition appended :: "blocks \<Rightarrow> Binary_string \<Rightarrow> blocks \<Rightarrow> Binary_string \<Rightarrow> buffer \<Rightarrow> bool" where
  "appended mem s mem' s' t \<longleftrightarrow> bs_ok mem' s' \<and> contents mem' s' = Some t \<and>
     (\<forall>b. mem b \<noteq> None \<longrightarrow> Some b \<noteq> block_of (Ptr s) \<longrightarrow> mem' b = mem b \<and> Some b \<noteq> block_of (Ptr s'))"

lemma appended_kept: "kept mem s mem' s' \<Longrightarrow> contents mem s = Some t \<Longrightarrow> appended mem s mem' s' t"
  unfolding appended_def kept_def by auto

lemma appended_trans: "appended mem s mem1 s1 t1 \<Longrightarrow> appended mem1 s1 mem2 s2 t2 \<Longrightarrow> appended mem s mem2 s2 t2"
  unfolding appended_def by metis

lemma appended_rd:
  assumes "appended mem s mem' s' t" "span mem p n" "i + k \<le> n" "block_of p \<noteq> block_of (Ptr s)"
  shows "rd mem' p i k = rd mem p i k \<and> span mem' p n \<and> (p \<noteq> None \<longrightarrow> block_of p \<noteq> block_of (Ptr s'))"
proof (cases p)
  case None then show ?thesis using assms by (simp add: rd_def span_def)
next
  case (Some q)
  then obtain b off where p: "p = Some (b, off)" by (cases q) auto
  then have "mem b \<noteq> None" using assms(2) by (auto simp: span_def split: option.splits)
  moreover have "Some b \<noteq> block_of (Ptr s)" using assms(4) p by (simp add: block_of_def)
  ultimately have "mem' b = mem b \<and> Some b \<noteq> block_of (Ptr s')" using assms(1) unfolding appended_def by blast
  then show ?thesis using p assms(2) by (auto simp: rd_def span_def block_of_def)
qed

lemma append_data_appended:
  assumes R: "realloc_contract R" and ok: "bs_ok mem s" and t: "contents mem s = Some t"
    and src: "span mem data (unat sz)" "block_of data \<noteq> block_of (Ptr s)" and sz: "unat sz < 2 ^ 63"
  shows "\<exists>err mem' s'. append_data R mem s data sz = Some (err, mem', s') \<and>
     appended mem s mem' s' (if err then t else t @ the (rd mem data 0 (unat sz)))"
proof (cases "sz = 0")
  case True
  then show ?thesis using appended_kept [OF kept_refl [OF ok] t] by (auto simp: append_data_def rd_def)
next
  case False
  let ?n = "ucast (str_length s) + sz"
  have n: "unat ?n = unat (str_length s) + unat sz"
    using unat_less_length [of "str_length s"] sz by (subst unat_add_small) (simp_all add: unat_ucast_mod)
  then have bounds: "unat (str_length s) \<le> unat ?n" "unat ?n < 2 ^ 63 + 2 ^ 32" using unat_less_length [of "str_length s"] sz by simp_all
  from realloc_if_needed_ok [OF R ok bounds] obtain err mem1 s1 where
    r: "realloc_with_extra_if_needed R mem s ?n = Some (err, mem1, s1)" "kept mem s mem1 s1" "\<not> err \<Longrightarrow> unat ?n < unat (Alloced_length s1)" by blast
  show ?thesis
  proof (cases err)
    case True
    then show ?thesis using r False appended_kept [OF r(2) t] by (auto simp: append_data_def)
  next
    case ok1: False
    obtain d where d: "rd mem data 0 (unat sz) = Some d" "length d = unat sz" using rd_span [OF src(1), of 0 "unat sz"] by auto
    have d1: "rd mem1 data 0 (unat sz) = Some d"
      using appended_rd [OF appended_kept [OF r(2) t] src(1) _ src(2), of 0 "unat sz"] d by simp
    have "unat (str_length s1) + length d \<le> unat (Alloced_length s1)" using r(2,3) ok1 n d by (simp add: kept_def)
    from append_within [OF r(2) this t] d obtain mem2 where
      "wr mem1 (Ptr s1) (unat (str_length s1)) d = Some mem2" "appended mem s mem2 (s1\<lparr>str_length := str_length s1 + ucast sz\<rparr>) (t @ d)"
      by (auto simp: appended_def)
    then show ?thesis using r(1) ok1 False d d1 by (auto simp: append_data_def q_append_def)
  qed
qed

lemma append_char_appended:
  assumes R: "realloc_contract R" and ok: "bs_ok mem s" and t: "contents mem s = Some t" and len: "unat (str_length s) + 1 < 2 ^ 32"
  shows "\<exists>err mem' s'. append_char R mem s c = Some (err, mem', s') \<and> appended mem s mem' s' (if err then t else t @ [c])"
proof (cases "str_length s < Alloced_length s")
  case True
  then have "unat (str_length s) + length [c] \<le> unat (Alloced_length s)" by (simp add: word_less_nat_alt)
  from append_within [OF kept_refl [OF ok] this t] True show ?thesis by (auto simp: append_char_def q_append_char_def appended_def)
next
  case False
  let ?n = "ucast (str_length s + 1) :: size_t"
  have n: "unat ?n = unat (str_length s) + 1" using len by (simp add: unat_ucast_mod unat_word_ariths)
  then have bounds: "unat (str_length s) \<le> unat ?n" "unat ?n < 2 ^ 63 + 2 ^ 32" using len by simp_all
  from realloc_with_extra_ok [OF R ok bounds] obtain err mem1 s1 where
    r: "realloc_with_extra R mem s ?n = Some (err, mem1, s1)" "kept mem s mem1 s1" "\<not> err \<Longrightarrow> unat ?n < unat (Alloced_length s1)" by blast
  show ?thesis
  proof (cases err)
    case True
    then show ?thesis using r False appended_kept [OF r(2) t] by (auto simp: append_char_def)
  next
    case ok1: False
    have "unat (str_length s1) + length [c] \<le> unat (Alloced_length s1)" using r(2,3) ok1 n by (simp add: kept_def)
    from append_within [OF r(2) this t] r(1) ok1 False show ?thesis by (auto simp: append_char_def q_append_char_def appended_def)
  qed
qed

section \<open>Hexadecimal text\<close>

definition hex_of :: "(nat \<Rightarrow> uchar) \<Rightarrow> buffer \<Rightarrow> buffer" where
  "hex_of dig d = concat (map (\<lambda>c. [dig (unat (drop_bit 4 c)), dig (unat (c AND 0x0F))]) d)"

lemma hex_of_Cons: "hex_of dig (c # d) = dig (unat (drop_bit 4 c)) # dig (unat (c AND 0x0F)) # hex_of dig d"
  by (simp add: hex_of_def)

lemma appended_length: "appended mem s mem' s' t \<Longrightarrow> unat (str_length s') = length t"
  unfolding appended_def using contents_ok by fastforce

lemma rd_first: "span mem p (i + Suc n) \<Longrightarrow> rd mem p i (Suc n) = Some d \<Longrightarrow> rd mem p i 1 = Some [hd d] \<and> rd mem p (Suc i) n = Some (tl d)"
proof -
  assume sp: "span mem p (i + Suc n)" and d: "rd mem p i (Suc n) = Some d"
  obtain a where a: "rd mem p i 1 = Some a" "length a = 1" using rd_span [OF sp, of i 1] by auto
  obtain r where r: "rd mem p (i + 1) n = Some r" using rd_span [OF sp, of "i + 1" n] by auto
  have "d = a @ r" using rd_append [of mem p i 1 n a r] sp a(1) r d by simp
  then show ?thesis using a r by (cases a) auto
qed

lemma append_hex_loop_appended:
  assumes R: "realloc_contract R"
  shows "bs_ok mem s \<Longrightarrow> contents mem s = Some t \<Longrightarrow> span mem src (i + n) \<Longrightarrow> block_of src \<noteq> block_of (Ptr s) \<Longrightarrow> src \<noteq> None \<Longrightarrow>
     rd mem src i n = Some d \<Longrightarrow> length t + 2 * n < 2 ^ 32 \<Longrightarrow>
     \<exists>err mem' s' k. append_hex_loop R dig mem s src i n = Some (err, mem', s') \<and> (\<not> err \<longrightarrow> k = 2 * n) \<and>
       appended mem s mem' s' (t @ take k (hex_of dig d))"
proof (induction n arbitrary: mem s t i d)
  case 0
  then show ?case using appended_kept [OF kept_refl [OF 0(1)] 0(2)] by (auto simp: rd_def hex_of_def)
next
  case (Suc n)
  define hi where "hi = dig (unat (drop_bit 4 (hd d)))"
  define lo where "lo = dig (unat (hd d AND 0x0F))"
  have d: "d = hd d # tl d" using rd_length [OF Suc.prems(6)] by (cases d) auto
  have hex: "hex_of dig d = hi # lo # hex_of dig (tl d)" by (subst d) (simp add: hex_of_Cons hi_def lo_def)
  from rd_first [OF Suc.prems(3,6)] have c: "rd mem src i 1 = Some [hd d]" "rd mem src (Suc i) n = Some (tl d)" by auto
  have tlen: "length t = unat (str_length s)" using contents_ok [OF Suc.prems(1)] Suc.prems(2) by simp
  obtain err1 mem1 s1 where a1: "append_char R mem s hi = Some (err1, mem1, s1)" "appended mem s mem1 s1 (if err1 then t else t @ [hi])"
    using append_char_appended [OF R Suc.prems(1,2), of hi] tlen Suc.prems(7) by auto
  show ?case
  proof (cases err1)
    case True
    then show ?thesis using a1 c(1) by (intro exI [of _ True] exI [of _ mem1] exI [of _ s1] exI [of _ 0]) (simp add: hi_def)
  next
    case ok1: False
    then have A1: "appended mem s mem1 s1 (t @ [hi])" "bs_ok mem1 s1" "contents mem1 s1 = Some (t @ [hi])" using a1(2) by (auto simp: appended_def)
    note src1 = appended_rd [OF A1(1) Suc.prems(3) _ Suc.prems(4)]
    obtain err2 mem2 s2 where a2: "append_char R mem1 s1 lo = Some (err2, mem2, s2)" "appended mem1 s1 mem2 s2 (if err2 then t @ [hi] else (t @ [hi]) @ [lo])"
      using append_char_appended [OF R A1(2,3), of lo] appended_length [OF A1(1)] Suc.prems(7) by auto
    have A2: "appended mem s mem2 s2 (if err2 then t @ [hi] else t @ [hi, lo])" using appended_trans [OF A1(1) a2(2)] by (cases err2) simp_all
    have step: "append_hex_loop R dig mem s src i (Suc n) = (if err2 then Some (True, mem2, s2) else append_hex_loop R dig mem2 s2 src (i + 1) n)"
      using c(1) a1 ok1 a2(1) src1 [of i 1] by (simp add: hi_def lo_def)
    show ?thesis
    proof (cases err2)
      case True
      then show ?thesis using step A2 hex by (intro exI [of _ True] exI [of _ mem2] exI [of _ s2] exI [of _ 1]) simp
    next
      case ok2: False
      then have B: "bs_ok mem2 s2" "contents mem2 s2 = Some (t @ [hi, lo])" using A2 by (auto simp: appended_def)
      note src2 = appended_rd [OF A2 Suc.prems(3) _ Suc.prems(4)]
      from Suc.IH [OF B, of "i + 1" "tl d"] src2 [of "i + 1" n] c(2) Suc.prems(5,7) obtain err mem' s' k where
        "append_hex_loop R dig mem2 s2 src (i + 1) n = Some (err, mem', s')" "\<not> err \<longrightarrow> k = 2 * n" "appended mem2 s2 mem' s' ((t @ [hi, lo]) @ take k (hex_of dig (tl d)))"
        by auto
      then show ?thesis using step ok2 hex appended_trans [OF A2]
        by (intro exI [of _ err] exI [of _ mem'] exI [of _ s'] exI [of _ "Suc (Suc k)"]) simp
    qed
  qed
qed

section \<open>A concrete allocator\<close>

text \<open>An allocator that meets the contract: it takes the first free block of a small pool and copies the contents.\<close>

definition pool_realloc :: allocator where
  "pool_realloc mem s n =
     (if unat n \<le> unat (Alloced_length s) then (False, mem, s)
      else case (if 2 ^ 32 \<le> unat n then None else find (\<lambda>b. mem b = None) [0..<8], contents mem s) of
        (Some b, Some d) \<Rightarrow> (False, (if alloced s then my_free mem (Ptr s) else mem)(b \<mapsto> d @ replicate (unat n - length d) 0),
           s\<lparr>Ptr := Some (b, 0), Alloced_length := ucast n, alloced := True\<rparr>)
      | _ \<Rightarrow> (True, mem, s))"

lemma pool_realloc_contract: "realloc_contract pool_realloc"
  unfolding realloc_contract_def
proof (intro allI impI)
  fix mem s n err mem' s'
  assume ok: "bs_ok mem s" and n: "unat (str_length s) \<le> unat n" and r: "pool_realloc mem s n = (err, mem', s')"
  obtain d where d: "contents mem s = Some d" "length d = unat (str_length s)" using contents_ok [OF ok] by blast
  show "if err then mem' = mem \<and> s' = s else kept mem s mem' s' \<and> unat n \<le> unat (Alloced_length s')"
  proof (cases "unat n \<le> unat (Alloced_length s)")
    case True then show ?thesis using r kept_refl [OF ok] by (simp add: pool_realloc_def)
  next
    case big: False
    show ?thesis
    proof (cases "if 2 ^ 32 \<le> unat n then None else find (\<lambda>b. mem b = None) [0..<8]")
      case None then show ?thesis using r big by (simp add: pool_realloc_def)
    next
      case (Some b)
      then have b: "mem b = None" "unat n < 2 ^ 32" by (auto simp: find_Some_iff split: if_splits)
      let ?m = "(if alloced s then my_free mem (Ptr s) else mem)(b \<mapsto> d @ replicate (unat n - length d) 0)"
      let ?s = "s\<lparr>Ptr := Some (b, 0), Alloced_length := ucast n, alloced := True\<rparr>"
      have res: "err = False" "mem' = ?m" "s' = ?s" using r big Some d(1) by (simp_all add: pool_realloc_def)
      have size: "unat (ucast n :: uint32) = unat n" using b(2) by (simp add: unat_ucast_mod)
      have "rd ?m (Some (b, 0)) 0 (unat (str_length s)) = Some d" using d n by (cases "unat (str_length s) = 0") (auto simp: rd_def bytes_def)
      then have "contents ?m ?s = contents mem s" unfolding d(1) by (simp add: contents_def split del: if_split)
      moreover have "bs_ok ?m ?s" using size d n by (simp add: bs_ok_def span_def)
      moreover have "\<forall>b'. mem b' \<noteq> None \<longrightarrow> Some b' \<noteq> block_of (Ptr s) \<longrightarrow> ?m b' = mem b' \<and> Some b' \<noteq> block_of (Ptr ?s)"
        using b(1) by (auto simp: my_free_def block_of_def split: option.splits)
      ultimately have "kept mem s ?m ?s" unfolding kept_def by simp
      then show ?thesis unfolding res using size by simp
    qed
  qed
qed

section \<open>Properties\<close>

text \<open>C22: Appending bytes from another block always returns without touching memory out of bounds. On success the
  string holds its old contents followed by the bytes, in a buffer that is large enough, and the 32-bit length has not wrapped; on failure the contents are the old ones. No other block in use changes.\<close>

theorem binary_string_append:
  assumes "realloc_contract R" "bs_ok mem s" "span mem data (unat sz)" "block_of data \<noteq> block_of (Ptr s)" "unat sz < 2 ^ 63"
  shows "\<exists>err mem' s'. append_data R mem s data sz = Some (err, mem', s') \<and> bs_ok mem' s' \<and>
     contents mem' s' = (if err then contents mem s else Some (the (contents mem s) @ the (rd mem data 0 (unat sz)))) \<and>
     (\<not> err \<longrightarrow> unat (str_length s') = unat (str_length s) + unat sz) \<and>
     (\<forall>b. mem b \<noteq> None \<longrightarrow> Some b \<noteq> block_of (Ptr s) \<longrightarrow> mem' b = mem b)"
proof -
  obtain t where t: "contents mem s = Some t" "length t = unat (str_length s)" using contents_ok [OF assms(2)] by blast
  obtain d where d: "rd mem data 0 (unat sz) = Some d" "length d = unat sz" using rd_span [OF assms(3), of 0 "unat sz"] by auto
  from append_data_appended [OF assms(1,2) t(1) assms(3-5)] obtain err mem' s' where
    a: "append_data R mem s data sz = Some (err, mem', s')" "appended mem s mem' s' (if err then t else t @ d)" unfolding d option.sel by blast
  then show ?thesis using t d appended_length [OF a(2)] by (auto simp: appended_def)
qed

theorem binary_string_append_witness:
  "\<exists>err mem' s'. append_data pool_realloc [0 \<mapsto> [7], 2 \<mapsto> [8, 9]] (Binary_string_const (Some (0, 0)) 1) (Some (2, 0)) 2 = Some (err, mem', s') \<and>
     bs_ok mem' s' \<and> contents mem' s' = (if err then Some [7] else Some ([7] @ [8, 9]))"
proof -
  let ?m = "[0 \<mapsto> [7], 2 \<mapsto> [8, 9]] :: blocks" and ?s = "Binary_string_const (Some (0, 0)) 1"
  have h: "bs_ok ?m ?s" "span ?m (Some (2, 0)) (unat (2 :: size_t))" "block_of (Some (2, 0)) \<noteq> block_of (Ptr ?s)" "unat (2 :: size_t) < 2 ^ 63"
    by (simp_all add: bs_ok_def Binary_string_const_def span_def block_of_def)
  have c: "contents ?m ?s = Some [7]" "rd ?m (Some (2, 0)) 0 (unat (2 :: size_t)) = Some [8, 9]"
    by (simp_all add: contents_def Binary_string_const_def rd_def bytes_def)
  show ?thesis using binary_string_append [OF pool_realloc_contract h] unfolding c option.sel by blast
qed

text \<open>\<open>append_hex\<close> never accesses memory out of bounds. It appends the two digits of every byte in order, high half first; if memory runs out it
  stops after a prefix of them.\<close>

theorem append_hex_digits:
  assumes "realloc_contract R" "bs_ok mem s" "span mem src (unat n)" "src \<noteq> None" "block_of src \<noteq> block_of (Ptr s)"
    "unat (str_length s) + 2 * unat n < 2 ^ 32"
  shows "\<exists>err mem' s' k. append_hex R dig mem s src n = Some (err, mem', s') \<and> bs_ok mem' s' \<and> (\<not> err \<longrightarrow> k = 2 * unat n) \<and>
     contents mem' s' = Some (the (contents mem s) @
       take k (concat (map (\<lambda>c. [dig (unat (drop_bit 4 c)), dig (unat (c AND 0x0F))]) (the (rd mem src 0 (unat n))))))"
proof -
  obtain t where t: "contents mem s = Some t" "length t = unat (str_length s)" using contents_ok [OF assms(2)] by blast
  obtain d where d: "rd mem src 0 (unat n) = Some d" using rd_span [OF assms(3), of 0 "unat n"] by auto
  from append_hex_loop_appended [OF assms(1,2) t(1), of src 0 "unat n" d dig] assms(3-6) t d obtain err mem' s' k where
    "append_hex R dig mem s src n = Some (err, mem', s')" "\<not> err \<longrightarrow> k = 2 * unat n" "appended mem s mem' s' (t @ take k (hex_of dig d))"
    by (auto simp: append_hex_def)
  then show ?thesis using t d unfolding appended_def hex_of_def by auto
qed

theorem append_hex_digits_witness:
  "\<exists>err mem' s' k. append_hex pool_realloc word_of_nat [0 \<mapsto> [7], 2 \<mapsto> [0x2A]] (Binary_string_const (Some (0, 0)) 1) (Some (2, 0)) 1 = Some (err, mem', s') \<and>
     (\<not> err \<longrightarrow> k = 2 * unat (1 :: uint32)) \<and> contents mem' s' = Some ([7] @ take k [2, 10])"
proof -
  let ?m = "[0 \<mapsto> [7], 2 \<mapsto> [0x2A]] :: blocks" and ?s = "Binary_string_const (Some (0, 0)) 1"
  have h: "bs_ok ?m ?s" "span ?m (Some (2, 0)) (unat (1 :: uint32))" "Some (2 :: nat, 0 :: nat) \<noteq> None" "block_of (Some (2, 0)) \<noteq> block_of (Ptr ?s)"
    "unat (str_length ?s) + 2 * unat (1 :: uint32) < 2 ^ 32"
    by (simp_all add: bs_ok_def Binary_string_const_def span_def block_of_def)
  have c: "contents ?m ?s = Some [7]" "rd ?m (Some (2, 0)) 0 (unat (1 :: uint32)) = Some [0x2A]"
    by (simp_all add: contents_def Binary_string_const_def rd_def bytes_def)
  have d: "concat (map (\<lambda>c :: uchar. [word_of_nat (unat (drop_bit 4 c)), word_of_nat (unat (c AND 0x0F))]) [0x2A]) = [2, 10 :: uchar]" by simp
  show ?thesis using append_hex_digits [OF pool_realloc_contract h, of word_of_nat] unfolding c option.sel d by blast
qed

text \<open>\<open>append_with_step\<close> adds the lengths in 32 bits. When the sum wraps to a value that fits the buffer it does not grow it and
  writes beyond its end.\<close>

theorem append_with_step_overflow:
  assumes "2 ^ 32 \<le> unat (str_length s) + unat n" "n + str_length s \<le> Alloced_length s" "Ptr s = Some (b, 0)" "mem b = Some blk"
    "length blk = unat (Alloced_length s)" "span mem data (unat n)"
  shows "append_with_step R mem s data n step = None"
proof -
  have "n \<noteq> 0" using assms(1) unat_less_length [of "str_length s"] by auto
  then have n0: "(ucast n :: size_t) \<noteq> 0" "unat (ucast n :: size_t) = unat n"
    using unat_less_length [of n] by (simp_all add: unat_ucast_mod unat_eq_0 flip: unat_0_iff)
  obtain d where d: "rd mem data 0 (unat n) = Some d" "length d = unat n" using rd_span [OF assms(6), of 0 "unat n"] by auto
  then have "wr mem (Ptr s) (unat (str_length s)) d = None"
    using assms(1,3-5) unat_less_length [of "Alloced_length s"] unat_less_length [of "str_length s"] by (auto simp: wr_def)
  moreover have "\<not> Alloced_length s < n + str_length s" using assms(2) by (simp add: not_less)
  ultimately show ?thesis using n0 d by (simp add: append_with_step_def q_append_def)
qed

theorem append_with_step_overflow_witness:
  "append_with_step pool_realloc [0 \<mapsto> replicate (unat (- 1 :: uint32)) 0] \<lparr>Ptr = Some (0, 0), str_length = - 1, Alloced_length = - 1, extra_alloc = 0, alloced = True, thread_specific = False\<rparr>
     (Some (0, 0)) 1 0 = None"
proof -
  let ?s = "\<lparr>Ptr = Some (0, 0), str_length = - 1, Alloced_length = - 1, extra_alloc = 0, alloced = True, thread_specific = False\<rparr>"
  let ?m = "[0 \<mapsto> replicate (unat (- 1 :: uint32)) 0] :: blocks"
  have "unat (- 1 :: uint32) = mask 32" by (simp add: unsigned_minus_1_eq_mask)
  then have pos: "1 \<le> unat (- 1 :: uint32)" and "2 ^ 32 \<le> unat (str_length ?s) + unat (1 :: uint32)" by (simp_all add: mask_eq_exp_minus_1)
  moreover from pos have "span ?m (Some (0, 0)) (unat (1 :: uint32))" by (simp add: span_def)
  ultimately show ?thesis
    by (intro append_with_step_overflow [where b = 0 and blk = "replicate (unat (- 1 :: uint32)) 0"]) simp_all
qed

end
