(* ===== verification/Sql_Type_Int.thy ===== *)
theory Sql_Type_Int imports My_Bit_Count begin

text \<open>
  \<open>private/sql_type_int.h\<close>: 64-bit integers that may be NULL (\<open>Longlong_null\<close>, the operands of the SQL bit operators) and integers that
  are signed or unsigned by a flag (\<open>Longlong_hybrid\<close>, the results of \<open>val_int()\<close>). A \<open>longlong\<close> is its 64-bit word; \<open>number_of\<close> reads the
  integer a hybrid stands for, and the lemmas compare the word-level code with the integers.
\<close>

section \<open>Longlong_null\<close>

record Longlong_null =
  m_value :: longlong
  m_is_null :: bool

definition Longlong_null_default :: Longlong_null where
  "Longlong_null_default = \<lparr>m_value = 0, m_is_null = True\<rparr>"

definition Longlong_null_of :: "longlong \<Rightarrow> Longlong_null" where
  "Longlong_null_of nr = \<lparr>m_value = nr, m_is_null = False\<rparr>"

definition op_or :: "Longlong_null \<Rightarrow> Longlong_null \<Rightarrow> Longlong_null" where
  "op_or a other = (if m_is_null a \<or> m_is_null other then Longlong_null_default else Longlong_null_of (m_value a OR m_value other))"

definition op_and :: "Longlong_null \<Rightarrow> Longlong_null \<Rightarrow> Longlong_null" where
  "op_and a other = (if m_is_null a \<or> m_is_null other then Longlong_null_default else Longlong_null_of (m_value a AND m_value other))"

definition op_xor :: "Longlong_null \<Rightarrow> Longlong_null \<Rightarrow> Longlong_null" where
  "op_xor a other = (if m_is_null a \<or> m_is_null other then Longlong_null_default else Longlong_null_of (m_value a XOR m_value other))"

definition op_not :: "Longlong_null \<Rightarrow> Longlong_null" where
  "op_not a = (if m_is_null a then a else Longlong_null_of (NOT (m_value a)))"

definition op_shl :: "Longlong_null \<Rightarrow> Longlong_null \<Rightarrow> Longlong_null" where
  "op_shl a llshift =
     (if m_is_null a \<or> m_is_null llshift then Longlong_null_default
      else let shift = ucast (m_value llshift) :: uint;
               res = (if shift < 8 * 8 then push_bit (unat shift) (m_value a) else 0)
           in Longlong_null_of res)"

definition op_shr :: "Longlong_null \<Rightarrow> Longlong_null \<Rightarrow> Longlong_null" where
  "op_shr a llshift =
     (if m_is_null a \<or> m_is_null llshift then Longlong_null_default
      else let shift = ucast (m_value llshift) :: uint;
               res = (if shift < 8 * 8 then drop_bit (unat shift) (m_value a) else 0)
           in Longlong_null_of res)"

definition bit_count :: "Longlong_null \<Rightarrow> Longlong_null" where
  "bit_count a = (if m_is_null a then a else Longlong_null_of (ucast (my_count_bits (m_value a))))"

section \<open>Longlong_hybrid\<close>

record Longlong_hybrid =
  h_value :: longlong
  m_unsigned :: bool

definition LONGLONG_MAX :: longlong where "LONGLONG_MAX = 0x7FFFFFFFFFFFFFFF"
definition LONGLONG_MIN :: longlong where "LONGLONG_MIN = 0x8000000000000000"

definition cmp_signed :: "Longlong_hybrid \<Rightarrow> Longlong_hybrid \<Rightarrow> int" where
  "cmp_signed a other = (if sint (h_value a) < sint (h_value other) then - 1 else if h_value a = h_value other then 0 else 1)"

definition cmp_unsigned :: "Longlong_hybrid \<Rightarrow> Longlong_hybrid \<Rightarrow> int" where
  "cmp_unsigned a other = (if h_value a < h_value other then - 1 else if h_value a = h_value other then 0 else 1)"

definition is_unsigned_outside_of_signed_range :: "Longlong_hybrid \<Rightarrow> bool" where
  "is_unsigned_outside_of_signed_range a = (m_unsigned a \<and> h_value a > LONGLONG_MAX)"

definition neg :: "Longlong_hybrid \<Rightarrow> bool" where
  "neg a = (sint (h_value a) < 0 \<and> \<not> m_unsigned a)"

definition hybrid_abs :: "Longlong_hybrid \<Rightarrow> ulonglong" where
  "hybrid_abs a =
     (if m_unsigned a then h_value a
      else if h_value a = LONGLONG_MIN then LONGLONG_MAX + 1
      else if sint (h_value a) < 0 then - h_value a else h_value a)"

definition to_ulonglong :: "Longlong_hybrid \<Rightarrow> ulonglong \<Rightarrow> ulonglong" where
  "to_ulonglong a upper_bound = (if neg a then 0 else if h_value a > upper_bound then upper_bound else h_value a)"

definition to_uint :: "Longlong_hybrid \<Rightarrow> uint \<Rightarrow> uint" where
  "to_uint a upper_bound = ucast (to_ulonglong a (ucast upper_bound))"

definition cmp :: "Longlong_hybrid \<Rightarrow> Longlong_hybrid \<Rightarrow> int" where
  "cmp a other =
     (if m_unsigned a = m_unsigned other then (if m_unsigned a then cmp_unsigned a other else cmp_signed a other)
      else if is_unsigned_outside_of_signed_range a then 1
      else if is_unsigned_outside_of_signed_range other then - 1
      else cmp_signed a other)"

definition eq_hybrid :: "Longlong_hybrid \<Rightarrow> Longlong_hybrid \<Rightarrow> bool" where
  "eq_hybrid a nr = (cmp a nr = 0)"

definition eq_ulonglong :: "Longlong_hybrid \<Rightarrow> ulonglong \<Rightarrow> bool" where
  "eq_ulonglong a nr = (cmp a \<lparr>h_value = nr, m_unsigned = True\<rparr> = 0)"

definition eq_uint :: "Longlong_hybrid \<Rightarrow> uint \<Rightarrow> bool" where
  "eq_uint a nr = (cmp a \<lparr>h_value = ucast nr, m_unsigned = True\<rparr> = 0)"

definition eq_longlong :: "Longlong_hybrid \<Rightarrow> longlong \<Rightarrow> bool" where
  "eq_longlong a nr = (cmp a \<lparr>h_value = nr, m_unsigned = False\<rparr> = 0)"

definition eq_int :: "Longlong_hybrid \<Rightarrow> int32 \<Rightarrow> bool" where
  "eq_int a nr = (cmp a \<lparr>h_value = scast nr, m_unsigned = False\<rparr> = 0)"

section \<open>Longlong_hybrid_null\<close>

record Longlong_hybrid_null = Longlong_hybrid +
  h_is_null :: bool

definition Longlong_hybrid_null_of :: "Longlong_null \<Rightarrow> bool \<Rightarrow> Longlong_hybrid_null" where
  "Longlong_hybrid_null_of nr unsigned_flag = \<lparr>h_value = m_value nr, m_unsigned = unsigned_flag, h_is_null = m_is_null nr\<rparr>"

section \<open>The integer a hybrid stands for\<close>

definition number_of :: "Longlong_hybrid \<Rightarrow> int" where
  "number_of a = (if m_unsigned a then uint (h_value a) else sint (h_value a))"

lemma sint_cases: "sint (w :: longlong) = (if uint w < 2 ^ 63 then uint w else uint w - 2 ^ 64)"
proof -
  have r: "0 \<le> uint w" "uint w < 2 ^ 64" using unsigned_less [of w, where ?'a = int] by simp_all
  have "signed_take_bit 63 (uint w) = signed_take_bit 63 (uint w - 2 ^ 64)"
    unfolding signed_take_bit_eq_iff_take_bit_eq by (simp add: take_bit_eq_mod)
  moreover have "signed_take_bit 63 (uint w - 2 ^ 64) = uint w - 2 ^ 64" if "2 ^ 63 \<le> uint w"
    by (rule signed_take_bit_int_eq_self) (use r that in simp_all)
  moreover have "signed_take_bit 63 (uint w) = uint w" if "uint w < 2 ^ 63"
    by (rule signed_take_bit_int_eq_self) (use r that in linarith)+
  ultimately show ?thesis by (simp add: sint_uint not_less)
qed

lemma uint_bounds: "0 \<le> uint (w :: ulonglong)" "uint w < 2 ^ 64"
  using unsigned_less [of w, where ?'a = int] by simp_all

lemma uint_widen: "uint (ucast (v :: 32 word) :: ulonglong) = uint v"
  using unsigned_less [of v, where ?'a = int] by (simp add: unsigned_ucast_eq take_bit_int_eq_self_iff)

lemma above_max: "LONGLONG_MAX < w \<longleftrightarrow> 2 ^ 63 \<le> uint w"
  unfolding LONGLONG_MAX_def word_less_def by auto

lemmas hybrid_arith = sint_cases word_uint_eq_iff word_less_def above_max

lemma cmp_unsigned_sgn: "cmp_unsigned a b = sgn (uint (h_value a) - uint (h_value b))"
  by (auto simp: cmp_unsigned_def hybrid_arith)

lemma cmp_signed_sgn: "cmp_signed a b = sgn (sint (h_value a) - sint (h_value b))"
  by (auto simp: cmp_signed_def sgn_if dest: signed_word_eqI)

section \<open>Properties\<close>

text \<open>\<open>Longlong_hybrid::cmp\<close> compares the integers its arguments stand for, in every combination of signed and unsigned, and all the
  equality operators agree with integer equality.\<close>

theorem hybrid_cmp_exact:
  "cmp a b = sgn (number_of a - number_of b) \<and>
   (eq_hybrid a b \<longleftrightarrow> number_of a = number_of b) \<and>
   (eq_ulonglong a u \<longleftrightarrow> number_of a = uint u) \<and> (eq_uint a v \<longleftrightarrow> number_of a = uint v) \<and>
   (eq_longlong a l \<longleftrightarrow> number_of a = sint l) \<and> (eq_int a i \<longleftrightarrow> number_of a = sint i)"
proof -
  have cmp: "cmp a b = sgn (number_of a - number_of b)" for a b
    using uint_bounds [of "h_value a"] uint_bounds [of "h_value b"]
    by (auto simp: cmp_def cmp_unsigned_sgn cmp_signed_sgn number_of_def is_unsigned_outside_of_signed_range_def above_max sint_cases)
  have "uint (ucast v :: ulonglong) = uint v" by (rule uint_widen)
  moreover have "sint (scast i :: longlong) = sint i"
    using sint_greater_eq [of i] sint_less [of i] by (simp add: signed_scast_eq signed_take_bit_int_eq_self_iff)
  ultimately show ?thesis
    by (simp add: cmp eq_hybrid_def eq_ulonglong_def eq_uint_def eq_longlong_def eq_int_def number_of_def sgn_eq_0_iff)
qed

lemma uint_minus: "0 < uint (w :: longlong) \<Longrightarrow> uint (- w) = 2 ^ 64 - uint w"
  using uint_bounds [of w] by (simp add: uint_word_ariths mod_minus_eq zmod_zminus1_eq_if)

lemma hybrid_abs_exact: "uint (hybrid_abs a) = \<bar>number_of a\<bar>"
  using uint_bounds [of "h_value a"] uint_minus [of "h_value a"] by (auto simp: hybrid_abs_def number_of_def sint_cases LONGLONG_MIN_def LONGLONG_MAX_def)

text \<open>\<open>abs\<close> gives the absolute value of the integer, also for the most negative one, and \<open>to_ulonglong\<close> and \<open>to_uint\<close> clamp it between
  0 and the bound.\<close>

theorem hybrid_conversions:
  "uint (hybrid_abs a) = \<bar>number_of a\<bar> \<and>
   uint (to_ulonglong a bound) = max 0 (min (number_of a) (uint bound)) \<and>
   uint (to_uint a ubound) = max 0 (min (number_of a) (uint ubound))"
proof (intro conjI)
  note bounds = uint_bounds [of "h_value a"]
  show "uint (hybrid_abs a) = \<bar>number_of a\<bar>" by (rule hybrid_abs_exact)
  have clamp: "uint (to_ulonglong a u) = max 0 (min (number_of a) (uint u))" for u
    using bounds uint_bounds [of u] by (auto simp: to_ulonglong_def neg_def number_of_def sint_cases word_less_def)
  then show "uint (to_ulonglong a bound) = max 0 (min (number_of a) (uint bound))" .
  have "uint ubound < 2 ^ 32" using unsigned_less [of ubound, where ?'a = int] by simp
  moreover note uint_widen [of ubound]
  ultimately show "uint (to_uint a ubound) = max 0 (min (number_of a) (uint ubound))"
    unfolding to_uint_def using clamp [of "ucast ubound"] by (simp add: unsigned_ucast_eq take_bit_int_eq_self)
qed

text \<open>The shift operators are NULL when an operand is NULL, and for shift counts below \<open>2 ^ 32\<close> multiply or divide by the power of two, giving 0
  from 64 on. A count of \<open>2 ^ 32\<close> or more is first cut to 32 bits, so that shifting by \<open>2 ^ 32\<close> changes nothing.\<close>

theorem null_shifts:
  "(m_is_null (op_shl a n) \<longleftrightarrow> m_is_null a \<or> m_is_null n) \<and> (m_is_null (op_shr a n) \<longleftrightarrow> m_is_null a \<or> m_is_null n) \<and>
   (\<not> m_is_null a \<and> \<not> m_is_null n \<and> uint (m_value n) < 2 ^ 32 \<longrightarrow>
      uint (m_value (op_shl a n)) = uint (m_value a) * 2 ^ unat (m_value n) mod 2 ^ 64 \<and>
      uint (m_value (op_shr a n)) = uint (m_value a) div 2 ^ unat (m_value n)) \<and>
   (\<not> m_is_null a \<longrightarrow> op_shl a (Longlong_null_of 0x100000000) = Longlong_null_of (m_value a) \<and> op_shr a (Longlong_null_of 0x100000000) = Longlong_null_of (m_value a))"
proof (intro conjI impI)
  show "m_is_null (op_shl a n) \<longleftrightarrow> m_is_null a \<or> m_is_null n" "m_is_null (op_shr a n) \<longleftrightarrow> m_is_null a \<or> m_is_null n"
    by (simp_all add: op_shl_def op_shr_def Longlong_null_default_def Longlong_null_of_def Let_def)
next
  assume h: "\<not> m_is_null a \<and> \<not> m_is_null n \<and> uint (m_value n) < 2 ^ 32"
  let ?k = "unat (m_value n)"
  have "int ?k < int (2 ^ 32)" using h by simp
  then have "?k < 2 ^ 32" by (simp only: of_nat_less_iff)
  then have k: "unat (ucast (m_value n) :: uint) = ?k" by (simp add: unat_ucast_mod)
  then have lt: "(ucast (m_value n) :: uint) < 8 * 8 \<longleftrightarrow> ?k < 64" by (simp add: word_less_nat_alt)
  show "uint (m_value (op_shl a n)) = uint (m_value a) * 2 ^ ?k mod 2 ^ 64"
  proof (cases "?k < 64")
    case True
    have "uint (push_bit ?k (m_value a)) = uint (m_value a) * 2 ^ ?k mod 2 ^ 64"
      by (subst unsigned_push_bit_eq, simp only: push_bit_eq_mult take_bit_eq_mod) simp
    then show ?thesis using True h k lt by (simp add: op_shl_def Let_def Longlong_null_of_def)
  next
    case False
    then have "(2 :: int) ^ 64 dvd uint (m_value a) * 2 ^ ?k" by (intro dvd_mult le_imp_power_dvd) simp
    then show ?thesis using False h lt by (simp add: op_shl_def Let_def Longlong_null_of_def)
  qed
  show "uint (m_value (op_shr a n)) = uint (m_value a) div 2 ^ ?k"
  proof (cases "?k < 64")
    case True
    have "take_bit 64 (uint (m_value a)) = uint (m_value a)" by (rule take_bit_int_eq_self) (rule uint_bounds)+
    then have "uint (drop_bit ?k (m_value a)) = uint (m_value a) div 2 ^ ?k"
      by (subst unsigned_drop_bit_eq) (simp add: drop_bit_eq_div)
    then show ?thesis using True h k lt by (simp add: op_shr_def Let_def Longlong_null_of_def)
  next
    case False
    then have "(2 :: int) ^ 64 \<le> 2 ^ ?k" by (intro power_increasing) simp_all
    then have "uint (m_value a) < 2 ^ ?k" using uint_bounds [of "m_value a"] by linarith
    then show ?thesis using False h lt by (simp add: op_shr_def Let_def Longlong_null_of_def div_pos_pos_trivial)
  qed
next
  assume "\<not> m_is_null a"
  moreover have "(ucast (0x100000000 :: longlong) :: uint) = 0" by (simp add: word_uint_eq_iff unsigned_ucast_eq)
  ultimately show "op_shl a (Longlong_null_of 0x100000000) = Longlong_null_of (m_value a)" "op_shr a (Longlong_null_of 0x100000000) = Longlong_null_of (m_value a)"
    by (simp_all add: op_shl_def op_shr_def Longlong_null_of_def)
qed

theorem null_shifts_witness: "uint (m_value (op_shl (Longlong_null_of 3) (Longlong_null_of 2))) = 12"
  using null_shifts [of "Longlong_null_of 3" "Longlong_null_of 2"] by (simp add: Longlong_null_of_def)

end
