(* ===== verification/Sql_Error.thy ===== *)
theory Sql_Error imports Sql_Plist Sql_List Sql_String begin

text \<open>
  \<open>private/sql_error.h\<close>: SQLSTATE values, the hierarchy of condition identities, \<open>Sql_condition\<close>, the per-statement \<open>Warning_info\<close>
  and the \<open>Diagnostics_area\<close> with its stack of \<open>Warning_info\<close> objects. Both lists are \<open>I_P_List\<close>s with counter and
  last pointer and use the model of Sql_Plist. Objects are addresses into a \<open>diag_store\<close>; the functions of
  the class that the header only declares (\<open>clear\<close>, \<open>push_warning\<close>, \<open>append_warning_info\<close>, \<open>set_builtin_message_text\<close>) are parameters.
  The character set of the \<open>String\<close> items is left out: they are \<open>Binary_string\<close>s.
\<close>

section \<open>Sql_state\<close>

definition SQLSTATE_LENGTH :: nat where "SQLSTATE_LENGTH = 5"

record Sql_state =
  m_sqlstate :: buffer

definition Sql_state_default :: Sql_state where
  "Sql_state_default = \<lparr>m_sqlstate = replicate (SQLSTATE_LENGTH + 1) 0\<rparr>"

definition set_sqlstate_other :: "'a Sql_state_scheme \<Rightarrow> Sql_state \<Rightarrow> 'a Sql_state_scheme" where
  "set_sqlstate_other s other = s\<lparr>m_sqlstate := m_sqlstate other\<rparr>"

text \<open>\<open>sqlstate\<close> points to at least \<open>SQLSTATE_LENGTH\<close> bytes.\<close>

definition set_sqlstate :: "'a Sql_state_scheme \<Rightarrow> buffer \<Rightarrow> 'a Sql_state_scheme" where
  "set_sqlstate s sqlstate = s\<lparr>m_sqlstate := take SQLSTATE_LENGTH sqlstate @ [0]\<rparr>"

definition Sql_state_of :: "buffer \<Rightarrow> Sql_state" where
  "Sql_state_of sqlstate = set_sqlstate \<lparr>m_sqlstate = replicate (SQLSTATE_LENGTH + 1) 0\<rparr> sqlstate"

definition strcmp_equal :: "buffer \<Rightarrow> buffer \<Rightarrow> bool" where
  "strcmp_equal a b = (takeWhile (\<lambda>c. c \<noteq> 0) a = takeWhile (\<lambda>c. c \<noteq> 0) b)"

definition sqlstate_eq :: "'a Sql_state_scheme \<Rightarrow> 'b Sql_state_scheme \<Rightarrow> bool" where
  "sqlstate_eq s other = strcmp_equal (m_sqlstate s) (m_sqlstate other)"

definition has_sql_state :: "'a Sql_state_scheme \<Rightarrow> bool" where
  "has_sql_state s = (m_sqlstate s ! 0 \<noteq> 0)"

text \<open>The literals are \<open>'0'\<close> = 48, \<open>'1'\<close> = 49, \<open>'2'\<close> = 50; \<open>char\<close> is signed in this build.\<close>

definition is_warning :: "'a Sql_state_scheme \<Rightarrow> bool" where
  "is_warning s = (m_sqlstate s ! 0 = 48 \<and> m_sqlstate s ! 1 = 49)"

definition is_not_found :: "'a Sql_state_scheme \<Rightarrow> bool" where
  "is_not_found s = (m_sqlstate s ! 0 = 48 \<and> m_sqlstate s ! 1 = 50)"

definition is_exception :: "'a Sql_state_scheme \<Rightarrow> bool" where
  "is_exception s = (m_sqlstate s ! 0 \<noteq> 48 \<or> sint (m_sqlstate s ! 1) > 50)"

definition is_sqlstate_completion :: "buffer \<Rightarrow> bool" where
  "is_sqlstate_completion s = (s ! 0 = 48 \<and> s ! 1 = 48)"

section \<open>Errno, level and user condition\<close>

record Sql_state_errno = Sql_state +
  m_sql_errno :: uint

definition Sql_state_errno_default :: Sql_state_errno where
  "Sql_state_errno_default = \<lparr>m_sqlstate = replicate (SQLSTATE_LENGTH + 1) 0, m_sql_errno = 0\<rparr>"

definition Sql_state_errno_of :: "uint \<Rightarrow> Sql_state_errno" where
  "Sql_state_errno_of sql_errno = \<lparr>m_sqlstate = replicate (SQLSTATE_LENGTH + 1) 0, m_sql_errno = sql_errno\<rparr>"

definition Sql_state_errno_state :: "uint \<Rightarrow> buffer \<Rightarrow> Sql_state_errno" where
  "Sql_state_errno_state sql_errno sql_state = \<lparr>m_sqlstate = m_sqlstate (Sql_state_of sql_state), m_sql_errno = sql_errno\<rparr>"

definition set_errno_state :: "'a Sql_state_errno_scheme \<Rightarrow> uint \<Rightarrow> buffer \<Rightarrow> 'a Sql_state_errno_scheme" where
  "set_errno_state s sql_errno sqlstate = set_sqlstate (s\<lparr>m_sql_errno := sql_errno\<rparr>) sqlstate"

definition clear_errno :: "'a Sql_state_errno_scheme \<Rightarrow> 'a Sql_state_errno_scheme" where
  "clear_errno s = s\<lparr>m_sql_errno := 0\<rparr>"

datatype enum_warning_level = WARN_LEVEL_NOTE | WARN_LEVEL_WARN | WARN_LEVEL_ERROR | WARN_LEVEL_END

fun level_index :: "enum_warning_level \<Rightarrow> nat" where
  "level_index WARN_LEVEL_NOTE = 0"
| "level_index WARN_LEVEL_WARN = 1"
| "level_index WARN_LEVEL_ERROR = 2"
| "level_index WARN_LEVEL_END = 3"

record Sql_state_errno_level = Sql_state_errno +
  m_level :: enum_warning_level

definition Sql_state_errno_level_default :: Sql_state_errno_level where
  "Sql_state_errno_level_default = Sql_state_errno.extend Sql_state_errno_default \<lparr>m_level = WARN_LEVEL_ERROR\<rparr>"

definition Sql_state_errno_level_state :: "uint \<Rightarrow> buffer \<Rightarrow> enum_warning_level \<Rightarrow> Sql_state_errno_level" where
  "Sql_state_errno_level_state sqlerrno sqlstate level = Sql_state_errno.extend (Sql_state_errno_state sqlerrno sqlstate) \<lparr>m_level = level\<rparr>"

definition Sql_state_errno_level_of :: "Sql_state_errno \<Rightarrow> enum_warning_level \<Rightarrow> Sql_state_errno_level" where
  "Sql_state_errno_level_of state_errno level = Sql_state_errno.extend state_errno \<lparr>m_level = level\<rparr>"

definition clear_level :: "'a Sql_state_errno_level_scheme \<Rightarrow> 'a Sql_state_errno_level_scheme" where
  "clear_level s = clear_errno (s\<lparr>m_level := WARN_LEVEL_ERROR\<rparr>)"

text \<open>\<open>Sql_user_condition_identity\<close>: the address of a parse-time \<open>sp_condition_value\<close>, or null.\<close>

type_synonym Sql_user_condition_identity = "nat option"

record Sql_condition_identity = Sql_state_errno_level +
  m_user_condition_value :: Sql_user_condition_identity

definition Sql_condition_identity_level :: "Sql_state_errno_level \<Rightarrow> Sql_user_condition_identity \<Rightarrow> Sql_condition_identity" where
  "Sql_condition_identity_level st ucid = Sql_state_errno_level.extend st \<lparr>m_user_condition_value = ucid\<rparr>"

definition Sql_condition_identity_errno :: "Sql_state_errno \<Rightarrow> enum_warning_level \<Rightarrow> Sql_user_condition_identity \<Rightarrow> Sql_condition_identity" where
  "Sql_condition_identity_errno st level ucid = Sql_condition_identity_level (Sql_state_errno_level_of st level) ucid"

definition Sql_condition_identity_state :: "uint \<Rightarrow> buffer \<Rightarrow> enum_warning_level \<Rightarrow> Sql_user_condition_identity \<Rightarrow> Sql_condition_identity" where
  "Sql_condition_identity_state sqlerrno sqlstate level ucid = Sql_condition_identity_level (Sql_state_errno_level_state sqlerrno sqlstate level) ucid"

definition clear_identity :: "'a Sql_condition_identity_scheme \<Rightarrow> 'a Sql_condition_identity_scheme" where
  "clear_identity s = (clear_level s)\<lparr>m_user_condition_value := None\<rparr>"

section \<open>Sql_condition\<close>

record Sql_condition_items =
  m_class_origin :: Binary_string
  m_subclass_origin :: Binary_string
  m_constraint_catalog :: Binary_string
  m_constraint_schema :: Binary_string
  m_constraint_name :: Binary_string
  m_catalog_name :: Binary_string
  m_schema_name :: Binary_string
  m_table_name :: Binary_string
  m_column_name :: Binary_string
  m_cursor_name :: Binary_string
  m_row_number :: ulong

definition Sql_condition_items_default :: Sql_condition_items where
  "Sql_condition_items_default =
     (let e = Binary_string_const None 0 in
      \<lparr>m_class_origin = e, m_subclass_origin = e, m_constraint_catalog = e, m_constraint_schema = e, m_constraint_name = e,
       m_catalog_name = e, m_schema_name = e, m_table_name = e, m_column_name = e, m_cursor_name = e, m_row_number = 0\<rparr>)"

definition clear_items :: "Sql_condition_items \<Rightarrow> Sql_condition_items" where
  "clear_items c =
     \<lparr>m_class_origin = set_length (m_class_origin c) 0, m_subclass_origin = set_length (m_subclass_origin c) 0,
      m_constraint_catalog = set_length (m_constraint_catalog c) 0, m_constraint_schema = set_length (m_constraint_schema c) 0,
      m_constraint_name = set_length (m_constraint_name c) 0, m_catalog_name = set_length (m_catalog_name c) 0,
      m_schema_name = set_length (m_schema_name c) 0, m_table_name = set_length (m_table_name c) 0,
      m_column_name = set_length (m_column_name c) 0, m_cursor_name = set_length (m_cursor_name c) 0, m_row_number = 0\<rparr>"

record Sql_condition =
  identity :: Sql_condition_identity
  items :: Sql_condition_items
  m_message_text :: Binary_string
  m_mem_root :: "nat option"

definition MYSQL_TIME_WARN_WARNINGS :: uint where
  "MYSQL_TIME_WARN_WARNINGS = 1 OR 2 OR 4 OR 8"

definition time_warn_level :: "uint \<Rightarrow> enum_warning_level" where
  "time_warn_level warnings = (if warnings AND MYSQL_TIME_WARN_WARNINGS \<noteq> 0 then WARN_LEVEL_WARN else WARN_LEVEL_NOTE)"

definition Sql_condition_init :: "Sql_condition \<Rightarrow> nat option \<Rightarrow> Sql_condition" where
  "Sql_condition_init c mem_root = c\<lparr>m_mem_root := mem_root\<rparr>"

definition Sql_condition_root :: "nat option \<Rightarrow> Sql_condition" where
  "Sql_condition_root mem_root =
     \<lparr>identity = Sql_condition_identity_level Sql_state_errno_level_default None, items = Sql_condition_items_default,
      m_message_text = init_private_data, m_mem_root = mem_root\<rparr>"

definition Sql_condition_user :: "nat option \<Rightarrow> Sql_user_condition_identity \<Rightarrow> Sql_condition" where
  "Sql_condition_user mem_root ucid =
     (Sql_condition_root mem_root)\<lparr>identity := Sql_condition_identity_level Sql_state_errno_level_default ucid\<rparr>"

definition Sql_condition_message ::
  "(Sql_condition \<Rightarrow> string \<Rightarrow> Sql_condition) \<Rightarrow> nat option \<Rightarrow> Sql_condition_identity \<Rightarrow> string \<Rightarrow> ulong \<Rightarrow> Sql_condition" where
  "Sql_condition_message set_builtin_message_text mem_root v msg current_row_for_warning =
     (let c = set_builtin_message_text ((Sql_condition_root mem_root)\<lparr>identity := v\<rparr>) msg
      in c\<lparr>items := (items c)\<lparr>m_row_number := current_row_for_warning\<rparr>\<rparr>)"

definition clear_condition :: "Sql_condition \<Rightarrow> Sql_condition" where
  "clear_condition c =
     c\<lparr>identity := clear_identity (identity c), items := clear_items (items c), m_message_text := set_length (m_message_text c) 0\<rparr>"

section \<open>Warning_info\<close>

record Warning_info =
  m_warn_count :: "uint list"
  m_current_statement_warn_count :: uint
  m_current_row_for_warning :: ulong
  m_warn_id :: ulonglong
  m_error_condition :: "nat option"
  m_allow_unlimited_warnings :: bool
  wi_initialized :: bool
  m_read_only :: bool

text \<open>All \<open>Warning_info\<close> objects by address; the list \<open>m_warn_list\<close> of object \<open>w\<close> is number \<open>w\<close> in \<open>cond_links\<close>, its list of
  marked conditions number \<open>w\<close> in \<open>marked\<close>, and the links of the stacks are in \<open>wi_links\<close>.\<close>

record diag_store =
  wis :: "nat \<Rightarrow> Warning_info"
  wi_links :: pstore
  cond_links :: pstore
  marked :: store

text \<open>\<open>clear\<close> empties the list of conditions and resets the counters of object \<open>w\<close>; its body is elsewhere, so it is a parameter on the whole store.\<close>

definition opt_clear :: "(nat \<Rightarrow> ulonglong \<Rightarrow> diag_store \<Rightarrow> diag_store) \<Rightarrow> nat \<Rightarrow> ulonglong \<Rightarrow> diag_store \<Rightarrow> diag_store" where
  "opt_clear clear w query_id h = (if query_id \<noteq> m_warn_id (wis h w) then clear w query_id h else h)"

definition reset_for_next_command :: "Warning_info \<Rightarrow> Warning_info" where
  "reset_for_next_command w = w\<lparr>m_current_statement_warn_count := 0\<rparr>"

definition unmark_sql_conditions_from_removal :: "nat \<Rightarrow> diag_store \<Rightarrow> diag_store" where
  "unmark_sql_conditions_from_removal w h = h\<lparr>marked := list_empty (marked h) w\<rparr>"

definition mark_condition_for_removal :: "nat option \<Rightarrow> nat \<Rightarrow> nat \<Rightarrow> diag_store \<Rightarrow> diag_store option" where
  "mark_condition_for_removal node w cond h = do { (err, m) \<leftarrow> push_back (marked h) w node cond; Some (h\<lparr>marked := m\<rparr>) }"

definition warn_count :: "Warning_info \<Rightarrow> ulong" where
  "warn_count w =
     m_warn_count w ! level_index WARN_LEVEL_NOTE + m_warn_count w ! level_index WARN_LEVEL_ERROR + m_warn_count w ! level_index WARN_LEVEL_WARN"

definition error_count :: "Warning_info \<Rightarrow> ulong" where
  "error_count w = m_warn_count w ! level_index WARN_LEVEL_ERROR"

definition cond_count :: "diag_store \<Rightarrow> nat \<Rightarrow> uint" where
  "cond_count h w = Sql_Plist.elements (plists (cond_links h) w)"

definition wi_id :: "Warning_info \<Rightarrow> ulonglong" where
  "wi_id w = m_warn_id w"

definition set_id :: "ulonglong \<Rightarrow> Warning_info \<Rightarrow> Warning_info" where
  "set_id id_arg w = w\<lparr>m_warn_id := id_arg\<rparr>"

definition wi_is_empty :: "diag_store \<Rightarrow> nat \<Rightarrow> bool" where
  "wi_is_empty h w = plist_is_empty (cond_links h) w"

definition inc_current_row_for_warning :: "Warning_info \<Rightarrow> Warning_info" where
  "inc_current_row_for_warning w = w\<lparr>m_current_row_for_warning := m_current_row_for_warning w + 1\<rparr>"

definition reset_current_row_for_warning :: "int32 \<Rightarrow> Warning_info \<Rightarrow> Warning_info" where
  "reset_current_row_for_warning n w = w\<lparr>m_current_row_for_warning := n\<rparr>"

definition set_read_only :: "bool \<Rightarrow> Warning_info \<Rightarrow> Warning_info" where
  "set_read_only read_only_arg w = w\<lparr>m_read_only := read_only_arg\<rparr>"

definition set_error_condition :: "nat option \<Rightarrow> Warning_info \<Rightarrow> Warning_info" where
  "set_error_condition error_condition w = w\<lparr>m_error_condition := error_condition\<rparr>"

definition clear_error_condition :: "Warning_info \<Rightarrow> Warning_info" where
  "clear_error_condition w = w\<lparr>m_error_condition := None\<rparr>"

section \<open>Diagnostics_area\<close>

datatype enum_diagnostics_status = DA_EMPTY | DA_OK | DA_EOF | DA_OK_BULK | DA_EOF_BULK | DA_ERROR | DA_DISABLED

record Diagnostics_area = Sql_state_errno +
  da_user_condition :: Sql_user_condition_identity
  m_is_sent :: bool
  m_can_overwrite_status :: bool
  m_message :: string
  m_affected_rows :: ulonglong
  m_last_insert_id :: ulonglong
  m_statement_warn_count :: uint
  m_status :: enum_diagnostics_status
  is_bulk_execution :: bool
  m_main_wi :: nat
  m_wi_stack :: nat

definition set_overwrite_status :: "bool \<Rightarrow> Diagnostics_area \<Rightarrow> Diagnostics_area" where
  "set_overwrite_status can_overwrite_status d = d\<lparr>m_can_overwrite_status := can_overwrite_status\<rparr>"

definition set_is_sent :: "bool \<Rightarrow> Diagnostics_area \<Rightarrow> Diagnostics_area" where
  "set_is_sent is_sent_arg d = d\<lparr>m_is_sent := is_sent_arg\<rparr>"

definition is_set :: "Diagnostics_area \<Rightarrow> bool" where "is_set d = (m_status d \<noteq> DA_EMPTY)"
definition is_error :: "Diagnostics_area \<Rightarrow> bool" where "is_error d = (m_status d = DA_ERROR)"
definition is_eof :: "Diagnostics_area \<Rightarrow> bool" where "is_eof d = (m_status d = DA_EOF)"
definition is_ok :: "Diagnostics_area \<Rightarrow> bool" where "is_ok d = (m_status d = DA_OK)"
definition is_disabled :: "Diagnostics_area \<Rightarrow> bool" where "is_disabled d = (m_status d = DA_DISABLED)"

definition set_bulk_execution :: "bool \<Rightarrow> Diagnostics_area \<Rightarrow> Diagnostics_area" where
  "set_bulk_execution bulk d = d\<lparr>is_bulk_execution := bulk\<rparr>"

definition get_error_condition_identity :: "Diagnostics_area \<Rightarrow> Sql_condition_identity" where
  "get_error_condition_identity d = Sql_condition_identity_errno (Sql_state_errno.truncate d) WARN_LEVEL_ERROR (da_user_condition d)"

definition increment_warning :: "Diagnostics_area \<Rightarrow> Diagnostics_area" where
  "increment_warning d = (if m_status d \<noteq> DA_EMPTY then d\<lparr>m_statement_warn_count := m_statement_warn_count d + 1\<rparr> else d)"

definition push_warning_info :: "Diagnostics_area \<Rightarrow> nat \<Rightarrow> diag_store \<Rightarrow> diag_store" where
  "push_warning_info d w h = h\<lparr>wi_links := plist_push_front full (m_wi_stack d) w (wi_links h)\<rparr>"

definition get_warning_info :: "Diagnostics_area \<Rightarrow> diag_store \<Rightarrow> nat option" where
  "get_warning_info d h = plist_front (wi_links h) (m_wi_stack d)"

text \<open>\<open>remove(front())\<close> reads through a null pointer when the stack is empty.\<close>

definition pop_warning_info :: "Diagnostics_area \<Rightarrow> diag_store \<Rightarrow> diag_store option" where
  "pop_warning_info d h =
     do { w \<leftarrow> plist_front (wi_links h) (m_wi_stack d); Some (h\<lparr>wi_links := plist_remove full (m_wi_stack d) w (wi_links h)\<rparr>) }"

text \<open>The operations that the area passes on to the current \<open>Warning_info\<close>: those that write its members, and those that ask it.\<close>

definition on_wi :: "Diagnostics_area \<Rightarrow> (Warning_info \<Rightarrow> Warning_info) \<Rightarrow> diag_store \<Rightarrow> diag_store option" where
  "on_wi d f h = do { w \<leftarrow> get_warning_info d h; Some (h\<lparr>wis := (wis h)(w := f (wis h w))\<rparr>) }"

definition ask_wi :: "Diagnostics_area \<Rightarrow> (diag_store \<Rightarrow> nat \<Rightarrow> 'a) \<Rightarrow> diag_store \<Rightarrow> 'a option" where
  "ask_wi d f h = do { w \<leftarrow> get_warning_info d h; Some (f h w) }"

definition da_set_warning_info_id :: "Diagnostics_area \<Rightarrow> ulonglong \<Rightarrow> diag_store \<Rightarrow> diag_store option" where
  "da_set_warning_info_id d i = on_wi d (set_id i)"

definition da_warning_info_id :: "Diagnostics_area \<Rightarrow> diag_store \<Rightarrow> ulonglong option" where
  "da_warning_info_id d = ask_wi d (\<lambda>h w. wi_id (wis h w))"

definition da_warning_info_changed :: "Diagnostics_area \<Rightarrow> nat \<Rightarrow> diag_store \<Rightarrow> bool option" where
  "da_warning_info_changed d other = ask_wi d (\<lambda>h w. wi_id (wis h w) \<noteq> wi_id (wis h other))"

definition da_is_warning_info_empty :: "Diagnostics_area \<Rightarrow> diag_store \<Rightarrow> bool option" where
  "da_is_warning_info_empty d = ask_wi d wi_is_empty"

definition da_current_statement_warn_count :: "Diagnostics_area \<Rightarrow> diag_store \<Rightarrow> ulong option" where
  "da_current_statement_warn_count d = ask_wi d (\<lambda>h w. m_current_statement_warn_count (wis h w))"

definition da_reset_for_next_command :: "Diagnostics_area \<Rightarrow> diag_store \<Rightarrow> diag_store option" where
  "da_reset_for_next_command d = on_wi d reset_for_next_command"

definition da_clear_warning_info :: "(nat \<Rightarrow> ulonglong \<Rightarrow> diag_store \<Rightarrow> diag_store) \<Rightarrow> Diagnostics_area \<Rightarrow> ulonglong \<Rightarrow> diag_store \<Rightarrow> diag_store option" where
  "da_clear_warning_info clear d i h = do { w \<leftarrow> get_warning_info d h; Some (clear w i h) }"

definition da_opt_clear_warning_info :: "(nat \<Rightarrow> ulonglong \<Rightarrow> diag_store \<Rightarrow> diag_store) \<Rightarrow> Diagnostics_area \<Rightarrow> ulonglong \<Rightarrow> diag_store \<Rightarrow> diag_store option" where
  "da_opt_clear_warning_info clear d query_id h = do { w \<leftarrow> get_warning_info d h; Some (opt_clear clear w query_id h) }"

definition da_current_row_for_warning :: "Diagnostics_area \<Rightarrow> diag_store \<Rightarrow> ulong option" where
  "da_current_row_for_warning d = ask_wi d (\<lambda>h w. m_current_row_for_warning (wis h w))"

definition da_inc_current_row_for_warning :: "Diagnostics_area \<Rightarrow> diag_store \<Rightarrow> diag_store option" where
  "da_inc_current_row_for_warning d = on_wi d inc_current_row_for_warning"

definition da_reset_current_row_for_warning :: "Diagnostics_area \<Rightarrow> int32 \<Rightarrow> diag_store \<Rightarrow> diag_store option" where
  "da_reset_current_row_for_warning d n = on_wi d (reset_current_row_for_warning n)"

definition da_is_warning_info_read_only :: "Diagnostics_area \<Rightarrow> diag_store \<Rightarrow> bool option" where
  "da_is_warning_info_read_only d = ask_wi d (\<lambda>h w. m_read_only (wis h w))"

definition da_set_warning_info_read_only :: "Diagnostics_area \<Rightarrow> bool \<Rightarrow> diag_store \<Rightarrow> diag_store option" where
  "da_set_warning_info_read_only d ro = on_wi d (set_read_only ro)"

definition da_error_count :: "Diagnostics_area \<Rightarrow> diag_store \<Rightarrow> ulong option" where
  "da_error_count d = ask_wi d (\<lambda>h w. error_count (wis h w))"

definition da_warn_count :: "Diagnostics_area \<Rightarrow> diag_store \<Rightarrow> ulong option" where
  "da_warn_count d = ask_wi d (\<lambda>h w. warn_count (wis h w))"

definition da_cond_count :: "Diagnostics_area \<Rightarrow> diag_store \<Rightarrow> uint option" where
  "da_cond_count d = ask_wi d cond_count"

definition da_push_warning ::
  "(nat \<Rightarrow> Sql_condition_identity \<Rightarrow> string \<Rightarrow> ulong \<Rightarrow> diag_store \<Rightarrow> nat option \<times> diag_store) \<Rightarrow>
   Diagnostics_area \<Rightarrow> uint \<Rightarrow> buffer \<Rightarrow> enum_warning_level \<Rightarrow> Sql_user_condition_identity \<Rightarrow> string \<Rightarrow> ulong \<Rightarrow> diag_store \<Rightarrow> (nat option \<times> diag_store) option" where
  "da_push_warning push_warning d sql_errno_arg sqlstate level ucid msg current_row_number h =
     (let tmp = Sql_condition_identity_state sql_errno_arg sqlstate level ucid
      in do { w \<leftarrow> get_warning_info d h; Some (push_warning w tmp msg current_row_number h) })"

definition da_push_warning_simple ::
  "(nat \<Rightarrow> Sql_condition_identity \<Rightarrow> string \<Rightarrow> ulong \<Rightarrow> diag_store \<Rightarrow> nat option \<times> diag_store) \<Rightarrow>
   Diagnostics_area \<Rightarrow> uint \<Rightarrow> buffer \<Rightarrow> enum_warning_level \<Rightarrow> string \<Rightarrow> diag_store \<Rightarrow> (nat option \<times> diag_store) option" where
  "da_push_warning_simple push_warning d sqlerrno sqlstate level msg h = da_push_warning push_warning d sqlerrno sqlstate level None msg 0 h"

definition da_unmark_sql_conditions_from_removal :: "Diagnostics_area \<Rightarrow> diag_store \<Rightarrow> diag_store option" where
  "da_unmark_sql_conditions_from_removal d h = do { w \<leftarrow> get_warning_info d h; Some (unmark_sql_conditions_from_removal w h) }"

definition da_get_error_condition :: "Diagnostics_area \<Rightarrow> diag_store \<Rightarrow> nat option option" where
  "da_get_error_condition d = ask_wi d (\<lambda>h w. m_error_condition (wis h w))"

definition da_copy_sql_conditions_to_wi ::
  "(nat \<Rightarrow> nat \<Rightarrow> diag_store \<Rightarrow> diag_store) \<Rightarrow> Diagnostics_area \<Rightarrow> nat \<Rightarrow> diag_store \<Rightarrow> diag_store option" where
  "da_copy_sql_conditions_to_wi append_warning_info d dst_wi h = do { w \<leftarrow> get_warning_info d h; Some (append_warning_info dst_wi w h) }"

definition da_copy_sql_conditions_from_wi ::
  "(nat \<Rightarrow> nat \<Rightarrow> diag_store \<Rightarrow> diag_store) \<Rightarrow> Diagnostics_area \<Rightarrow> nat \<Rightarrow> diag_store \<Rightarrow> diag_store option" where
  "da_copy_sql_conditions_from_wi append_warning_info d src_wi h = do { w \<leftarrow> get_warning_info d h; Some (append_warning_info w src_wi h) }"

section \<open>SQLSTATE classes\<close>

definition sqlstate_char :: "uchar \<Rightarrow> bool" where
  "sqlstate_char c = (48 \<le> c \<and> c \<le> 57 \<or> 65 \<le> c \<and> c \<le> 90)"

lemma sqlstate_char_facts: "sqlstate_char c \<Longrightarrow> c \<noteq> 0" "sqlstate_char c \<Longrightarrow> sint c = uint c" "sqlstate_char c \<Longrightarrow> 48 \<le> uint c"
proof -
  assume "sqlstate_char c"
  then have b: "48 \<le> uint c" "uint c \<le> 90" by (auto simp: sqlstate_char_def word_le_def)
  then show "c \<noteq> 0" "48 \<le> uint c" by auto
  have "signed_take_bit 7 (uint c) = uint c" by (rule signed_take_bit_int_eq_self) (use b in auto)
  then show "sint c = uint c" by (simp add: sint_uint)
qed

lemma uchar_eq_uint: "(c :: uchar) = numeral k \<longleftrightarrow> uint c = uint (numeral k :: uchar)"
  by (simp add: word_uint_eq_iff)

lemma clear_keeps_sqlstate: "m_sqlstate (identity (clear_condition c)) = m_sqlstate (identity c)"
  by (simp add: clear_condition_def clear_identity_def clear_level_def clear_errno_def)

lemma opt_clear_once:
  "m_warn_id (wis (clear w q h) w) = q \<Longrightarrow> opt_clear clear w q (opt_clear clear w q h) = opt_clear clear w q h"
  by (simp add: opt_clear_def)

section \<open>The stack of Warning_info objects\<close>

lemma front_of_stack: "plist_ok full (wi_links h) (m_wi_stack d) (w # ws) \<Longrightarrow> get_warning_info d h = Some w"
  using plist_first [of full "wi_links h" "m_wi_stack d" "w # ws"] by (simp add: get_warning_info_def plist_front_def)

lemma pop_warning_info_ok:
  "plist_ok full (wi_links h) (m_wi_stack d) (w # ws) \<Longrightarrow>
     \<exists>h'. pop_warning_info d h = Some h' \<and> plist_ok full (wi_links h') (m_wi_stack d) ws \<and> wis h' = wis h"
  using plist_remove_ok [of full "wi_links h" "m_wi_stack d" "[]" w ws] front_of_stack [of h d w ws]
  by (simp add: pop_warning_info_def get_warning_info_def)

fun on_wi_all :: "Diagnostics_area \<Rightarrow> (Warning_info \<Rightarrow> Warning_info) list \<Rightarrow> diag_store \<Rightarrow> diag_store option" where
  "on_wi_all d [] h = Some h"
| "on_wi_all d (f # fs) h = do { h1 \<leftarrow> on_wi d f h; on_wi_all d fs h1 }"

lemma on_wi_all_current:
  "get_warning_info d h = Some w \<Longrightarrow>
     \<exists>h'. on_wi_all d fs h = Some h' \<and> wi_links h' = wi_links h \<and> wis h' = (wis h)(w := fold (\<lambda>f x. f x) fs (wis h w))"
proof (induction fs arbitrary: h)
  case (Cons f fs)
  let ?h = "h\<lparr>wis := (wis h)(w := f (wis h w))\<rparr>"
  have "get_warning_info d ?h = Some w" using Cons.prems by (simp add: get_warning_info_def)
  from Cons.IH [OF this] show ?case using Cons.prems by (auto simp: on_wi_def fun_eq_iff)
qed simp

section \<open>Properties\<close>

text \<open>A valid SQLSTATE (digits and capital letters) belongs to exactly one of the classes completion, warning, not found and
  exception, and two states built from valid strings are equal exactly when their five characters are.\<close>

theorem sqlstate_classes:
  assumes "length st = 5" "list_all sqlstate_char st" "length st' = 5" "list_all sqlstate_char st'"
  shows "length (filter (\<lambda>b. b) [is_sqlstate_completion (m_sqlstate (Sql_state_of st)), is_warning (Sql_state_of st), is_not_found (Sql_state_of st), is_exception (Sql_state_of st)]) = 1 \<and>
    (sqlstate_eq (Sql_state_of st) (Sql_state_of st') \<longleftrightarrow> st = st')"
proof
  have stored: "m_sqlstate (Sql_state_of t) = t @ [0]" if "length t = 5" for t using that by (simp add: Sql_state_of_def set_sqlstate_def SQLSTATE_LENGTH_def)
  obtain a b r where st: "st = a # b # r" "sqlstate_char a" "sqlstate_char b" using assms(1,2) by (cases st; cases "tl st") auto
  have "sint b > 50 \<longleftrightarrow> b \<noteq> 48 \<and> b \<noteq> 49 \<and> b \<noteq> 50"
    using sqlstate_char_facts [OF st(3)] by (auto simp: uchar_eq_uint)
  then show "length (filter (\<lambda>b. b) [is_sqlstate_completion (m_sqlstate (Sql_state_of st)), is_warning (Sql_state_of st), is_not_found (Sql_state_of st), is_exception (Sql_state_of st)]) = 1"
    using stored [OF assms(1)] by (auto simp: st(1) is_sqlstate_completion_def is_warning_def is_not_found_def is_exception_def)
  have "takeWhile (\<lambda>c. c \<noteq> 0) (t @ [0]) = t" if "list_all sqlstate_char t" for t
    using that sqlstate_char_facts(1) by (induction t) auto
  then show "sqlstate_eq (Sql_state_of st) (Sql_state_of st') \<longleftrightarrow> st = st'"
    using assms stored by (simp add: sqlstate_eq_def strcmp_equal_def)
qed

theorem sqlstate_classes_witness: "is_exception (Sql_state_of [52, 50, 48, 48, 48]) \<and> \<not> sqlstate_eq (Sql_state_of [52, 50, 48, 48, 48]) (Sql_state_of [48, 49, 48, 48, 48])"
proof -
  have "length [52, 50, 48, 48, 48 :: uchar] = 5" "list_all sqlstate_char [52, 50, 48, 48, 48]" "length [48, 49, 48, 48, 48 :: uchar] = 5" "list_all sqlstate_char [48, 49, 48, 48, 48]"
    by (simp_all add: sqlstate_char_def)
  from sqlstate_classes [OF this] show ?thesis
    by (simp add: is_exception_def Sql_state_of_def set_sqlstate_def SQLSTATE_LENGTH_def)
qed

text \<open>After a \<open>Warning_info\<close> is pushed, the operations that write members of the current object (those given by \<open>on_wi\<close>: id, counters of rows and of the statement, read only) reach that
  object; popping it makes the previous one current again, with the stack and all other objects as they were. Operations on the lists of conditions are not among them.\<close>

theorem nested_warning_info:
  assumes "plist_ok full (wi_links h) (m_wi_stack d) (w # ws)" "v \<notin> set (w # ws)"
  shows "\<exists>h1 h2. on_wi_all d fs (push_warning_info d v h) = Some h1 \<and> get_warning_info d h1 = Some v \<and> wis h1 v = fold (\<lambda>f x. f x) fs (wis h v) \<and>
     pop_warning_info d h1 = Some h2 \<and> get_warning_info d h2 = Some w \<and> plist_ok full (wi_links h2) (m_wi_stack d) (w # ws) \<and>
     (\<forall>u. u \<noteq> v \<longrightarrow> wis h2 u = wis h u)"
proof -
  let ?h = "push_warning_info d v h"
  have ok: "plist_ok full (wi_links ?h) (m_wi_stack d) (v # w # ws)"
    using plist_push_front_ok [OF assms] by (simp add: push_warning_info_def)
  from on_wi_all_current [OF front_of_stack [OF ok], of fs] obtain h1 where
    h1: "on_wi_all d fs ?h = Some h1" "wi_links h1 = wi_links ?h" "wis h1 = (wis ?h)(v := fold (\<lambda>f x. f x) fs (wis ?h v))" by blast
  from ok h1(2) have ok1: "plist_ok full (wi_links h1) (m_wi_stack d) (v # w # ws)" by simp
  from pop_warning_info_ok [OF this] obtain h2 where h2: "pop_warning_info d h1 = Some h2" "plist_ok full (wi_links h2) (m_wi_stack d) (w # ws)" "wis h2 = wis h1" by blast
  have "wis ?h = wis h" by (simp add: push_warning_info_def)
  then show ?thesis using h1 h2 front_of_stack [OF ok1] front_of_stack [OF h2(2)] by auto
qed

definition start_area :: Diagnostics_area where
  "start_area = \<lparr>m_sqlstate = [0, 0, 0, 0, 0, 0], m_sql_errno = 0, da_user_condition = None, m_is_sent = False, m_can_overwrite_status = False, m_message = [],
     m_affected_rows = 0, m_last_insert_id = 0, m_statement_warn_count = 0, m_status = DA_EMPTY, is_bulk_execution = False, m_main_wi = 7, m_wi_stack = 5\<rparr>"

definition start_links :: pstore where
  "start_links = \<lparr>pnext = \<lambda>_. None, pprev = \<lambda>_. FirstP 0, plists = \<lambda>_. \<lparr>m_first = None, m_counter = 0, m_last = FirstP 0\<rparr>\<rparr>"

definition start_store :: diag_store where
  "start_store = \<lparr>wis = \<lambda>_. \<lparr>m_warn_count = [0, 0, 0], m_current_statement_warn_count = 0, m_current_row_for_warning = 3, m_warn_id = 0, m_error_condition = None,
       m_allow_unlimited_warnings = False, wi_initialized = True, m_read_only = False\<rparr>,
     wi_links = plist_push_front full 5 7 (plist_init full 5 start_links), cond_links = start_links,
     marked = \<lparr>nodes = \<lambda>_. None, lists = \<lambda>_. None, end_of_list = eol_node\<rparr>\<rparr>"

theorem nested_warning_info_witness:
  "\<exists>h1 h2. on_wi_all start_area [inc_current_row_for_warning] (push_warning_info start_area 9 start_store) = Some h1 \<and>
     m_current_row_for_warning (wis h1 9) = 4 \<and> pop_warning_info start_area h1 = Some h2 \<and> get_warning_info start_area h2 = Some 7 \<and>
     wis h2 7 = wis start_store 7"
proof -
  have ok: "plist_ok full (wi_links start_store) (m_wi_stack start_area) (7 # [])"
    using plist_push_front_ok [OF plist_empty_ok(2) [of full 5 start_links], of 7] by (simp add: start_store_def start_area_def)
  have "m_current_row_for_warning (inc_current_row_for_warning (wis start_store 9)) = 4" by (simp add: start_store_def inc_current_row_for_warning_def)
  with nested_warning_info [OF ok, of 9 "[inc_current_row_for_warning]"] show ?thesis by auto
qed

end
