(* ===== verification/Sql_Limit.thy ===== *)
theory Sql_Limit imports Prelude begin

text \<open>
  \<open>private/sql_limit.h\<close>: the LIMIT and OFFSET counters of a query. \<open>select_limit_cnt\<close> holds limit plus
  offset; a row is skipped while fewer rows than the offset were seen, and the query stops when \<open>select_limit_cnt\<close> rows were.
\<close>

definition HA_POS_ERROR :: ha_rows where "HA_POS_ERROR = NOT 0"

record Select_limit_counters =
  select_limit_cnt :: ha_rows
  offset_limit_cnt :: ha_rows
  with_ties :: bool

definition Select_limit_counters_init :: Select_limit_counters where
  "Select_limit_counters_init = \<lparr>select_limit_cnt = 0, offset_limit_cnt = 0, with_ties = False\<rparr>"

definition set_limit :: "ha_rows \<Rightarrow> ha_rows \<Rightarrow> bool \<Rightarrow> Select_limit_counters" where
  "set_limit limit off with_ties_arg =
     (let off' = (if limit = 0 then 0 else off) in
      \<lparr>select_limit_cnt = (if limit + off' \<ge> limit then limit + off' else HA_POS_ERROR), offset_limit_cnt = off', with_ties = with_ties_arg\<rparr>)"

definition set_single_row :: Select_limit_counters where
  "set_single_row = \<lparr>select_limit_cnt = 1, offset_limit_cnt = 0, with_ties = False\<rparr>"

definition is_unlimited :: "Select_limit_counters \<Rightarrow> bool" where
  "is_unlimited c = (select_limit_cnt c = HA_POS_ERROR)"

definition set_unlimited :: "Select_limit_counters \<Rightarrow> Select_limit_counters" where
  "set_unlimited c = c\<lparr>select_limit_cnt := HA_POS_ERROR\<rparr>"

definition clear_limit :: "Select_limit_counters \<Rightarrow> Select_limit_counters" where
  "clear_limit c = c\<lparr>select_limit_cnt := HA_POS_ERROR, offset_limit_cnt := 0, with_ties := False\<rparr>"

definition check_offset :: "Select_limit_counters \<Rightarrow> ha_rows \<Rightarrow> bool" where
  "check_offset c sent = (sent < offset_limit_cnt c)"

definition remove_offset :: "Select_limit_counters \<Rightarrow> Select_limit_counters" where
  "remove_offset c = c\<lparr>offset_limit_cnt := 0\<rparr>"

section \<open>Rows that are returned\<close>

definition returned :: "Select_limit_counters \<Rightarrow> ha_rows \<Rightarrow> bool" where
  "returned c row \<longleftrightarrow> \<not> check_offset c row \<and> row < select_limit_cnt c"

lemma no_overflow_iff: "(a :: ha_rows) \<le> a + b \<longleftrightarrow> uint a + uint b < 2 ^ 64"
proof -
  have r: "0 \<le> uint a" "uint a < 2 ^ 64" "0 \<le> uint b" "uint b < 2 ^ 64" using unsigned_less [of a, where ?'a = int] unsigned_less [of b, where ?'a = int] by simp_all
  have "uint (a + b) = (if uint a + uint b < 2 ^ 64 then uint a + uint b else uint a + uint b - 2 ^ 64)"
    using r by (simp add: uint_plus_if')
  then show ?thesis using r unfolding word_le_def by simp
qed

text \<open>With \<open>LIMIT l OFFSET o\<close> set, the row with number \<open>n\<close> (counted from 0) is returned exactly when \<open>l\<close> is not 0 and \<open>o \<le> n < o + l\<close> as
  integers, also when the sum does not fit in 64 bits; the largest row number, which stands for no limit, is never returned.\<close>

theorem limit_window:
  "returned (set_limit l off ties) n \<longleftrightarrow> uint off \<le> uint n \<and> uint n < uint off + uint l \<and> n \<noteq> HA_POS_ERROR"
proof -
  have r: "0 \<le> uint l" "uint l < 2 ^ 64" "0 \<le> uint off" "uint off < 2 ^ 64" "0 \<le> uint n" "uint n < 2 ^ 64"
    using unsigned_less [of l, where ?'a = int] unsigned_less [of off, where ?'a = int] unsigned_less [of n, where ?'a = int] by simp_all
  have top: "n < HA_POS_ERROR \<longleftrightarrow> n \<noteq> HA_POS_ERROR" by (simp add: HA_POS_ERROR_def word_order.not_eq_extremum)
  show ?thesis
  proof (cases "l = 0")
    case True
    then show ?thesis by (auto simp: returned_def set_limit_def check_offset_def)
  next
    case False
    show ?thesis
    proof (cases "uint l + uint off < 2 ^ 64")
      case True
      then have sum: "uint (l + off) = uint l + uint off" using r by (simp add: uint_plus_if')
      have "n < l + off \<Longrightarrow> n \<noteq> HA_POS_ERROR" by (auto simp: HA_POS_ERROR_def)
      then show ?thesis using False True sum by (auto simp: returned_def set_limit_def check_offset_def Let_def no_overflow_iff word_less_def not_less)
    next
      case over: False
      then show ?thesis using False top r by (auto simp: returned_def set_limit_def check_offset_def Let_def no_overflow_iff word_less_def [of n off] not_less)
    qed
  qed
qed

end
