(* ===== verification/Sql_I_List.thy ===== *)
theory Sql_I_List imports Prelude begin

text \<open>
  \<open>private/sql_list.h\<close>, class \<open>SQL_I_List\<close>: the parser's intrusive list. An element is its address, its link field is in
  \<open>links\<close>; a list has a first pointer, a counter and the address \<open>next\<close> of the pointer to fill next, which is its own
  \<open>first\<close> field (\<open>HeadOf\<close>) or the link of an element (\<open>LinkOf\<close>).
\<close>

datatype iloc = HeadOf nat | LinkOf nat

record SQL_I_List =
  i_elements :: uint
  i_first :: "nat option"
  i_next :: iloc

record sil_store =
  links :: "nat \<Rightarrow> nat option"
  heads :: "nat \<Rightarrow> SQL_I_List"

definition upd_head :: "nat \<Rightarrow> (SQL_I_List \<Rightarrow> SQL_I_List) \<Rightarrow> sil_store \<Rightarrow> sil_store" where
  "upd_head i f h = h\<lparr>heads := (heads h)(i := f (heads h i))\<rparr>"

text \<open>\<open>*l= v\<close>\<close>

definition store_at :: "iloc \<Rightarrow> nat option \<Rightarrow> sil_store \<Rightarrow> sil_store" where
  "store_at l v h = (case l of HeadOf i \<Rightarrow> upd_head i (\<lambda>L. L\<lparr>i_first := v\<rparr>) h | LinkOf a \<Rightarrow> h\<lparr>links := (links h)(a := v)\<rparr>)"

definition sil_empty :: "nat \<Rightarrow> sil_store \<Rightarrow> sil_store" where
  "sil_empty i h = upd_head i (\<lambda>L. \<lparr>i_elements = 0, i_first = None, i_next = HeadOf i\<rparr>) h"

text \<open>The copy constructor and the assignment operator.\<close>

definition sil_copy :: "nat \<Rightarrow> nat \<Rightarrow> sil_store \<Rightarrow> sil_store" where
  "sil_copy i tmp h =
     (let T = heads h tmp in
      upd_head i (\<lambda>L. \<lparr>i_elements = i_elements T, i_first = i_first T, i_next = (if i_elements T \<noteq> 0 then i_next T else HeadOf i)\<rparr>) h)"

definition sil_assign :: "nat \<Rightarrow> nat \<Rightarrow> sil_store \<Rightarrow> sil_store" where
  "sil_assign i tmp h = (let T = heads h tmp in upd_head i (\<lambda>L. L\<lparr>i_elements := i_elements T, i_first := i_first T, i_next := i_next T\<rparr>) h)"

definition link_in_list :: "nat \<Rightarrow> nat \<Rightarrow> iloc \<Rightarrow> sil_store \<Rightarrow> sil_store" where
  "link_in_list i element next_ptr h =
     (let h1 = upd_head i (\<lambda>L. L\<lparr>i_elements := i_elements L + 1\<rparr>) h;
          h2 = store_at (i_next (heads h1 i)) (Some element) h1;
          h3 = upd_head i (\<lambda>L. L\<lparr>i_next := next_ptr\<rparr>) h2
      in store_at (i_next (heads h3 i)) None h3)"

definition save_and_clear :: "nat \<Rightarrow> nat \<Rightarrow> sil_store \<Rightarrow> sil_store" where
  "save_and_clear i save h = sil_empty i (sil_assign save i h)"

definition sil_push_front :: "nat \<Rightarrow> nat \<Rightarrow> sil_store \<Rightarrow> sil_store" where
  "sil_push_front i save h =
     (let h1 = store_at (i_next (heads h save)) (i_first (heads h i)) h;
          h2 = upd_head i (\<lambda>L. L\<lparr>i_first := i_first (heads h1 save)\<rparr>) h1
      in upd_head i (\<lambda>L. L\<lparr>i_elements := i_elements L + i_elements (heads h2 save)\<rparr>) h2)"

definition sil_push_back :: "nat \<Rightarrow> nat \<Rightarrow> sil_store \<Rightarrow> sil_store" where
  "sil_push_back i save h =
     (if i_first (heads h save) \<noteq> None
      then let h1 = store_at (i_next (heads h i)) (i_first (heads h save)) h;
               h2 = upd_head i (\<lambda>L. L\<lparr>i_next := i_next (heads h1 save)\<rparr>) h1
           in upd_head i (\<lambda>L. L\<lparr>i_elements := i_elements L + i_elements (heads h2 save)\<rparr>) h2
      else h)"

section \<open>Invariant\<close>

fun chain :: "sil_store \<Rightarrow> nat option \<Rightarrow> nat list \<Rightarrow> nat option \<Rightarrow> bool" where
  "chain h p [] q = (p = q)"
| "chain h p (a # as) q = (p = Some a \<and> chain h (links h a) as q)"

definition sil_ok :: "sil_store \<Rightarrow> nat \<Rightarrow> nat list \<Rightarrow> bool" where
  "sil_ok h i as \<longleftrightarrow> distinct as \<and> chain h (i_first (heads h i)) as None \<and>
     i_next (heads h i) = (if as = [] then HeadOf i else LinkOf (last as)) \<and> i_elements (heads h i) = of_nat (length as)"

lemma sil_simps [simp]:
  "links (upd_head i f h) = links h" "heads (upd_head i f h) = (heads h)(i := f (heads h i))"
  "links (store_at (HeadOf i) v h) = links h" "links (store_at (LinkOf a) v h) = (links h)(a := v)"
  "heads (store_at (HeadOf i) v h) = (heads h)(i := (heads h i)\<lparr>i_first := v\<rparr>)" "heads (store_at (LinkOf a) v h) = heads h"
  by (simp_all add: upd_head_def store_at_def)

lemma chain_append: "chain h p (as @ bs) q \<longleftrightarrow> (\<exists>r. chain h p as r \<and> chain h r bs q)"
  by (induction as arbitrary: p) auto

lemma chain_cong: "\<forall>a \<in> set as. links h' a = links h a \<Longrightarrow> chain h' p as q = chain h p as q"
  by (induction as arbitrary: p) auto

lemma chain_redirect:
  assumes "chain h p (as @ [a]) q" "distinct (as @ [a])" "links h' a = q'" "\<forall>b \<in> set as. links h' b = links h b"
  shows "chain h' p (as @ [a]) q'"
proof -
  have "chain h p as (Some a)" using assms(1) by (auto simp: chain_append)
  then have "chain h' p as (Some a)" using chain_cong [of as h' h] assms(4) by blast
  then show ?thesis using assms(3) by (simp add: chain_append)
qed

lemma sil_empty_ok: "sil_ok (sil_empty i h) i []"
  by (simp add: sil_ok_def sil_empty_def)

lemma sil_ok_frame:
  "sil_ok h j bs \<Longrightarrow> heads h' j = heads h j \<Longrightarrow> \<forall>b \<in> set bs. links h' b = links h b \<Longrightarrow> sil_ok h' j bs"
  using chain_cong [of bs h' h] by (auto simp: sil_ok_def)

lemma link_in_list_ok:
  assumes "sil_ok h i as" "a \<notin> set as"
  shows "sil_ok (link_in_list i a (LinkOf a) h) i (as @ [a])"
proof (cases as rule: rev_cases)
  case Nil
  then show ?thesis using assms by (simp add: sil_ok_def link_in_list_def Let_def)
next
  case (snoc bs b)
  let ?h = "link_in_list i a (LinkOf a) h"
  have d: "distinct (bs @ [b])" "a \<noteq> b" "a \<notin> set bs" and n: "i_next (heads h i) = LinkOf b"
    using assms snoc by (auto simp: sil_ok_def)
  have l: "links ?h = (links h)(b := Some a, a := None)" using n by (simp add: link_in_list_def Let_def)
  have "chain ?h (i_first (heads h i)) (bs @ [b]) (Some a)"
    by (rule chain_redirect [of h _ bs b None]) (use assms d in \<open>auto simp: sil_ok_def snoc l\<close>)
  then have "chain ?h (i_first (heads h i)) (as @ [a]) None" using l by (simp add: snoc chain_append [of _ _ "bs @ [b]" "[a]", simplified])
  then show ?thesis using assms n d by (simp add: sil_ok_def link_in_list_def Let_def snoc)
qed

lemma sil_push_back_ok:
  assumes "sil_ok h i as" "sil_ok h s bs" "i \<noteq> s" "set as \<inter> set bs = {}"
  shows "sil_ok (sil_push_back i s h) i (as @ bs)"
proof (cases bs)
  case Nil
  then show ?thesis using assms by (simp add: sil_ok_def sil_push_back_def)
next
  case (Cons b bs')
  let ?h = "sil_push_back i s h"
  have f: "i_first (heads h s) = Some b" using assms(2) by (simp add: sil_ok_def Cons)
  have B: "chain h (Some b) bs None" using assms(2) f by (simp add: sil_ok_def)
  show ?thesis
  proof (cases as rule: rev_cases)
    case Nil
    have "links ?h = links h" using f assms(1) Nil by (simp add: sil_push_back_def sil_ok_def Let_def)
    then have "chain ?h (Some b) bs None" using B chain_cong [of bs ?h h] by simp
    then show ?thesis using assms f Nil Cons by (simp add: sil_ok_def sil_push_back_def Let_def)
  next
    case (snoc as' a)
    have l: "links ?h = (links h)(a := Some b)" using f assms(1) snoc by (simp add: sil_push_back_def sil_ok_def Let_def)
    have "chain ?h (i_first (heads h i)) (as' @ [a]) (Some b)"
      by (rule chain_redirect [of h _ as' a None]) (use assms in \<open>auto simp: sil_ok_def snoc l\<close>)
    moreover have "chain ?h (Some b) bs None" using B assms(4) chain_cong [of bs ?h h] by (auto simp: l snoc)
    ultimately have "chain ?h (i_first (heads h i)) (as @ bs) None" by (auto simp: snoc chain_append simp del: append_assoc)
    then show ?thesis using assms f snoc Cons by (simp add: sil_ok_def sil_push_back_def Let_def)
  qed
qed

lemma sil_push_front_ok:
  assumes "sil_ok h i as" "sil_ok h s bs" "i \<noteq> s" "set as \<inter> set bs = {}" "as \<noteq> []"
  shows "sil_ok (sil_push_front i s h) i (bs @ as)"
proof (cases bs rule: rev_cases)
  case Nil
  let ?h = "sil_push_front i s h"
  have "links ?h = links h" using assms(2) Nil by (simp add: sil_push_front_def sil_ok_def Let_def)
  then have "chain ?h p as None = chain h p as None" for p using chain_cong [of as ?h h] by simp
  then show ?thesis using assms Nil by (simp add: sil_ok_def sil_push_front_def Let_def)
next
  case (snoc bs' b)
  let ?h = "sil_push_front i s h"
  have l: "links ?h = (links h)(b := i_first (heads h i))" using assms(2) snoc by (simp add: sil_push_front_def sil_ok_def Let_def)
  have "chain ?h (i_first (heads h s)) (bs' @ [b]) (i_first (heads h i))"
    by (rule chain_redirect [of h _ bs' b None]) (use assms in \<open>auto simp: sil_ok_def snoc l\<close>)
  moreover have "chain ?h (i_first (heads h i)) as None"
    using assms chain_cong [of as ?h h] by (auto simp: sil_ok_def l snoc)
  ultimately have "chain ?h (i_first (heads h s)) (bs @ as) None" by (auto simp: snoc chain_append simp del: append_assoc)
  moreover have "set bs \<inter> set as = {}" using assms(4) by blast
  ultimately show ?thesis using assms snoc by (simp add: sil_ok_def sil_push_front_def Let_def add.commute)
qed

section \<open>Properties\<close>

text \<open>\<open>link_in_list\<close> adds an element at the end, \<open>push_back\<close> adds another list at the end, and \<open>push_front\<close> puts another list in front of
  a non-empty one; each keeps links, counter and the address of the pointer to fill next.\<close>

theorem sql_i_list_operations:
  assumes "sil_ok h i as" "sil_ok h s bs" "i \<noteq> s" "set as \<inter> set bs = {}" "a \<notin> set as"
  shows "sil_ok (link_in_list i a (LinkOf a) h) i (as @ [a]) \<and> sil_ok (sil_push_back i s h) i (as @ bs) \<and>
    (as \<noteq> [] \<longrightarrow> sil_ok (sil_push_front i s h) i (bs @ as))"
  using link_in_list_ok sil_push_back_ok sil_push_front_ok assms by blast

definition sil_start :: sil_store where
  "sil_start = sil_empty 4 (sil_empty 5 \<lparr>links = \<lambda>_. None, heads = \<lambda>_. \<lparr>i_elements = 0, i_first = None, i_next = HeadOf 0\<rparr>\<rparr>)"

theorem sql_i_list_operations_witness: "sil_ok (link_in_list 4 9 (LinkOf 9) sil_start) 4 [9]"
proof -
  have "sil_ok sil_start 4 []" "sil_ok sil_start 5 []" by (simp_all add: sil_ok_def sil_start_def sil_empty_def)
  from sql_i_list_operations [OF this, of 9] show ?thesis by simp
qed

text \<open>\<open>save_and_clear\<close> on an empty list saves the address of that list's own first pointer. When elements are then linked into the list,
  a \<open>push_front\<close> of the saved empty list sets the first pointer to null: the elements are lost while the counter still counts them.\<close>

theorem save_and_clear_empty_loses_list:
  assumes "sil_ok h i []" "i \<noteq> s"
  shows "i_first (heads (sil_push_front i s (link_in_list i a (LinkOf a) (save_and_clear i s h))) i) = None \<and>
    i_elements (heads (sil_push_front i s (link_in_list i a (LinkOf a) (save_and_clear i s h))) i) = 1"
  using assms by (simp add: sil_ok_def sil_push_front_def link_in_list_def save_and_clear_def sil_assign_def sil_empty_def Let_def)

theorem save_and_clear_empty_loses_list_witness:
  "i_first (heads (sil_push_front 4 5 (link_in_list 4 9 (LinkOf 9) (save_and_clear 4 5 sil_start))) 4) = None"
proof -
  have "sil_ok sil_start 4 []" by (simp add: sil_ok_def sil_start_def sil_empty_def)
  from save_and_clear_empty_loses_list [OF this, of 5 9] show ?thesis by simp
qed

end
