(* ===== verification/Ilink.thy ===== *)
theory Ilink imports Sequence begin

text \<open>
  \<open>private/sql_list.h\<close>, \<open>ilink\<close>, \<open>base_ilist\<close> and \<open>base_ilist_iterator\<close>: the doubly linked list of connections, in which an
  element unlinks itself. The address of an \<open>ilink\<close> is an element or the sentinel \<open>last\<close> of a
  list; \<open>prev\<close> is the address of the pointer that points to the object: the \<open>first\<close> field of a list or the \<open>next\<close> field of an \<open>ilink\<close>.
\<close>

section \<open>ilink\<close>

datatype link = Elem nat | Sent nat
datatype lloc = FirstL nat | NextL link

record ilink =
  lprev :: "lloc option"
  lnext :: "link option"

record il_store =
  inodes :: "link \<Rightarrow> ilink"
  ifirst :: "nat \<Rightarrow> link option"

definition get_ptr :: "il_store \<Rightarrow> lloc \<Rightarrow> link option" where
  "get_ptr h l = (case l of FirstL i \<Rightarrow> ifirst h i | NextL x \<Rightarrow> lnext (inodes h x))"

definition set_next :: "link \<Rightarrow> link option \<Rightarrow> il_store \<Rightarrow> il_store" where
  "set_next x v h = h\<lparr>inodes := (inodes h)(x := (inodes h x)\<lparr>lnext := v\<rparr>)\<rparr>"

definition set_prev :: "link \<Rightarrow> lloc option \<Rightarrow> il_store \<Rightarrow> il_store" where
  "set_prev x l h = h\<lparr>inodes := (inodes h)(x := (inodes h x)\<lparr>lprev := l\<rparr>)\<rparr>"

definition set_first :: "nat \<Rightarrow> link option \<Rightarrow> il_store \<Rightarrow> il_store" where
  "set_first i v h = h\<lparr>ifirst := (ifirst h)(i := v)\<rparr>"

definition put_ptr :: "lloc \<Rightarrow> link option \<Rightarrow> il_store \<Rightarrow> il_store" where
  "put_ptr l v h = (case l of FirstL i \<Rightarrow> set_first i v h | NextL x \<Rightarrow> set_next x v h)"

definition ilink_init :: "link \<Rightarrow> il_store \<Rightarrow> il_store" where
  "ilink_init x h = set_next x None (set_prev x None h)"

definition unlink :: "link \<Rightarrow> il_store \<Rightarrow> il_store" where
  "unlink x h =
     (let h1 = (case lprev (inodes h x) of Some l \<Rightarrow> put_ptr l (lnext (inodes h x)) h | None \<Rightarrow> h);
          h2 = (case lnext (inodes h1 x) of Some y \<Rightarrow> set_prev y (lprev (inodes h1 x)) h1 | None \<Rightarrow> h1)
      in set_next x None (set_prev x None h2))"

section \<open>base_ilist\<close>

definition il_empty :: "nat \<Rightarrow> il_store \<Rightarrow> il_store" where
  "il_empty i h = set_prev (Sent i) (Some (FirstL i)) (set_first i (Some (Sent i)) h)"

text \<open>The constructor first constructs the sentinel.\<close>

definition il_init :: "nat \<Rightarrow> il_store \<Rightarrow> il_store" where
  "il_init i h = il_empty i (ilink_init (Sent i) h)"

definition il_is_empty :: "il_store \<Rightarrow> nat \<Rightarrow> bool" where
  "il_is_empty h i = (ifirst h i = Some (Sent i))"

definition il_is_last :: "il_store \<Rightarrow> nat \<Rightarrow> link \<Rightarrow> bool" where
  "il_is_last h i p = (lnext (inodes h p) = None \<or> lnext (inodes h p) = Some (Sent i))"

text \<open>\<open>append\<close> puts the element in front; \<open>None\<close> is a read through a null pointer.\<close>

definition il_append :: "nat \<Rightarrow> link \<Rightarrow> il_store \<Rightarrow> il_store option" where
  "il_append i a h = do {
     f \<leftarrow> ifirst h i;
     let h1 = set_prev f (Some (NextL a)) h;
     let h2 = set_next a (ifirst h1 i) h1;
     let h3 = set_prev a (Some (FirstL i)) h2;
     Some (set_first i (Some a) h3) }"

definition il_push_back :: "nat \<Rightarrow> link \<Rightarrow> il_store \<Rightarrow> il_store option" where
  "il_push_back i a h = do {
     l \<leftarrow> lprev (inodes h (Sent i));
     let h1 = put_ptr l (Some a) h;
     let h2 = set_next a (Some (Sent i)) h1;
     let h3 = set_prev a (lprev (inodes h2 (Sent i))) h2;
     Some (set_prev (Sent i) (Some (NextL a)) h3) }"

definition il_get :: "nat \<Rightarrow> il_store \<Rightarrow> (link option \<times> il_store) option" where
  "il_get i h = do {
     first_link \<leftarrow> ifirst h i;
     if first_link = Sent i then Some (None, h) else Some (Some first_link, unlink first_link h) }"

definition il_head :: "il_store \<Rightarrow> nat \<Rightarrow> link option" where
  "il_head h i = (if ifirst h i \<noteq> Some (Sent i) then ifirst h i else None)"

definition move_elements_to :: "nat \<Rightarrow> nat \<Rightarrow> il_store \<Rightarrow> il_store" where
  "move_elements_to i new_owner h =
     (let h1 = set_first new_owner (ifirst h i) h;
          h2 = h1\<lparr>inodes := (inodes h1)(Sent new_owner := inodes h1 (Sent i))\<rparr>
      in il_empty i h2)"

section \<open>base_ilist_iterator\<close>

record base_ilist_iterator =
  bi_list :: nat
  bi_el :: lloc
  bi_current :: "link option"

definition bi_init :: "nat \<Rightarrow> base_ilist_iterator" where
  "bi_init i = \<lparr>bi_list = i, bi_el = FirstL i, bi_current = None\<rparr>"

text \<open>A null \<open>current\<close> is taken for an element by the comparison with the sentinel; the address of its \<open>next\<close> field is
  then not usable, and the iterator is not advanced here.\<close>

definition bi_next :: "il_store \<Rightarrow> base_ilist_iterator \<Rightarrow> link option \<times> base_ilist_iterator" where
  "bi_next h it =
     (let it1 = it\<lparr>bi_current := get_ptr h (bi_el it)\<rparr> in
      case bi_current it1 of
        None \<Rightarrow> (None, it1)
      | Some x \<Rightarrow> if x = Sent (bi_list it1) then (None, it1) else (Some x, it1\<lparr>bi_el := NextL x\<rparr>))"

fun bi_walk :: "nat \<Rightarrow> il_store \<Rightarrow> base_ilist_iterator \<Rightarrow> link list" where
  "bi_walk 0 h it = []"
| "bi_walk (Suc n) h it = (case bi_next h it of (None, _) \<Rightarrow> [] | (Some x, it') \<Rightarrow> x # bi_walk n h it')"

section \<open>Invariant\<close>

text \<open>\<open>dseg h l xs\<close>: the pointer at \<open>l\<close> points to the first of \<open>xs\<close>, every object knows the address of the pointer to it and points to the
  next one. Nothing is said about the \<open>next\<close> field of the last object, which is the sentinel in \<open>ilist_ok\<close>.\<close>

fun dseg :: "il_store \<Rightarrow> lloc \<Rightarrow> link list \<Rightarrow> bool" where
  "dseg h l [] = True"
| "dseg h l (x # xs) = (get_ptr h l = Some x \<and> lprev (inodes h x) = Some l \<and> dseg h (NextL x) xs)"

definition end_l :: "lloc \<Rightarrow> link list \<Rightarrow> lloc" where
  "end_l l us = (if us = [] then l else NextL (last us))"

definition ilist_ok :: "il_store \<Rightarrow> nat \<Rightarrow> nat list \<Rightarrow> bool" where
  "ilist_ok h i as \<longleftrightarrow> distinct as \<and> dseg h (FirstL i) (map Elem as @ [Sent i])"

lemma il_simps [simp]:
  "inodes (set_next x v h) = (inodes h)(x := (inodes h x)\<lparr>lnext := v\<rparr>)" "ifirst (set_next x v h) = ifirst h"
  "inodes (set_prev x l h) = (inodes h)(x := (inodes h x)\<lparr>lprev := l\<rparr>)" "ifirst (set_prev x l h) = ifirst h"
  "inodes (set_first i v h) = inodes h" "ifirst (set_first i v h) = (ifirst h)(i := v)"
  by (simp_all add: set_next_def set_prev_def set_first_def)

lemma dseg_append: "dseg h l (us @ vs) \<longleftrightarrow> dseg h l us \<and> dseg h (end_l l us) vs"
  by (induction us arbitrary: l) (auto simp: end_l_def)

lemma dseg_frame:
  assumes "\<And>x. x \<in> set xs \<Longrightarrow> lprev (inodes h' x) = lprev (inodes h x)" "xs \<noteq> [] \<Longrightarrow> get_ptr h' l = get_ptr h l"
    "\<And>x. x \<in> set (butlast xs) \<Longrightarrow> lnext (inodes h' x) = lnext (inodes h x)"
  shows "dseg h' l xs = dseg h l xs"
  using assms
proof (induction xs arbitrary: l)
  case (Cons x xs)
  have "dseg h' (NextL x) xs = dseg h (NextL x) xs"
  proof (rule Cons.IH)
    fix z assume "z \<in> set (butlast xs)" then show "lnext (inodes h' z) = lnext (inodes h z)" by (intro Cons.prems(3)) auto
  qed (use Cons.prems(1,3) in \<open>auto simp: get_ptr_def\<close>)
  then show ?case using Cons.prems(1,2) by simp
qed simp

text \<open>Every change goes through one of two surgeries.\<close>

lemma dseg_insert:
  assumes seg: "dseg h (FirstL i) (us @ y # vs)" and fresh: "x \<notin> set (us @ y # vs)" and dist: "distinct (us @ y # vs)"
    and nxt: "\<And>z. z \<noteq> x \<Longrightarrow> us = [] \<or> z \<noteq> last us \<Longrightarrow> lnext (inodes h' z) = lnext (inodes h z)"
    and prv: "\<And>z. z \<noteq> x \<Longrightarrow> z \<noteq> y \<Longrightarrow> lprev (inodes h' z) = lprev (inodes h z)"
    and fst: "ifirst h' i = (if us = [] then Some x else ifirst h i)"
    and new: "us \<noteq> [] \<Longrightarrow> lnext (inodes h' (last us)) = Some x" "lnext (inodes h' x) = Some y"
      "lprev (inodes h' x) = Some (end_l (FirstL i) us)" "lprev (inodes h' y) = Some (NextL x)"
  shows "dseg h' (FirstL i) (us @ x # y # vs)"
proof -
  have us: "dseg h (FirstL i) us" and yvs: "dseg h (NextL y) vs" using seg by (auto simp: dseg_append)
  have notlast: "z \<in> set (butlast us) \<Longrightarrow> z \<noteq> last us" for z
    using dist by (cases us rule: rev_cases) auto
  have pus: "lprev (inodes h' z) = lprev (inodes h z)" if "z \<in> set us" for z by (rule prv) (use that fresh dist in auto)
  have nus: "lnext (inodes h' z) = lnext (inodes h z)" if "z \<in> set (butlast us)" for z
    by (rule nxt) (use that fresh dist notlast [OF that] in \<open>auto dest: in_set_butlastD\<close>)
  have gus: "get_ptr h' (FirstL i) = get_ptr h (FirstL i)" if "us \<noteq> []" using that fst by (simp add: get_ptr_def)
  have ne: "us = [] \<or> z \<noteq> last us" if "z \<in> set (y # vs)" for z using that dist by (cases us rule: rev_cases) auto
  have pvs: "lprev (inodes h' z) = lprev (inodes h z)" if "z \<in> set vs" for z by (rule prv) (use that fresh dist in auto)
  have nvs: "lnext (inodes h' z) = lnext (inodes h z)" if "z \<in> set (butlast vs)" for z
    by (rule nxt) (use that fresh dist ne [of z] in \<open>auto dest: in_set_butlastD\<close>)
  have "lnext (inodes h' y) = lnext (inodes h y)" by (rule nxt) (use fresh dist ne [of y] in auto)
  then have gvs: "get_ptr h' (NextL y) = get_ptr h (NextL y)" by (simp add: get_ptr_def)
  have "dseg h' (FirstL i) us = dseg h (FirstL i) us" by (rule dseg_frame) (use pus gus nus in blast)+
  then have "dseg h' (FirstL i) us" using us by simp
  moreover have "get_ptr h' (end_l (FirstL i) us) = Some x" using new(1) fst by (simp add: get_ptr_def end_l_def)
  moreover have "dseg h' (NextL y) vs = dseg h (NextL y) vs" by (rule dseg_frame) (use pvs gvs nvs in blast)+
  ultimately show ?thesis using new yvs by (simp add: dseg_append) (simp add: get_ptr_def)
qed

lemma dseg_remove:
  assumes seg: "dseg h (FirstL i) (us @ x # y # vs)" and dist: "distinct (us @ x # y # vs)"
    and nxt: "\<And>z. z \<noteq> x \<Longrightarrow> us = [] \<or> z \<noteq> last us \<Longrightarrow> lnext (inodes h' z) = lnext (inodes h z)"
    and prv: "\<And>z. z \<noteq> x \<Longrightarrow> z \<noteq> y \<Longrightarrow> lprev (inodes h' z) = lprev (inodes h z)"
    and fst: "ifirst h' i = (if us = [] then Some y else ifirst h i)"
    and new: "us \<noteq> [] \<Longrightarrow> lnext (inodes h' (last us)) = Some y" "lprev (inodes h' y) = Some (end_l (FirstL i) us)"
  shows "dseg h' (FirstL i) (us @ y # vs)"
proof -
  have us: "dseg h (FirstL i) us" and yvs: "dseg h (NextL y) vs" using seg by (auto simp: dseg_append)
  have notlast: "z \<in> set (butlast us) \<Longrightarrow> z \<noteq> last us" for z
    using dist by (cases us rule: rev_cases) auto
  have pus: "lprev (inodes h' z) = lprev (inodes h z)" if "z \<in> set us" for z by (rule prv) (use that dist in auto)
  have nus: "lnext (inodes h' z) = lnext (inodes h z)" if "z \<in> set (butlast us)" for z
    by (rule nxt) (use that dist notlast [OF that] in \<open>auto dest: in_set_butlastD\<close>)
  have gus: "get_ptr h' (FirstL i) = get_ptr h (FirstL i)" if "us \<noteq> []" using that fst by (simp add: get_ptr_def)
  have ne: "us = [] \<or> z \<noteq> last us" if "z \<in> set (y # vs)" for z using that dist by (cases us rule: rev_cases) auto
  have pvs: "lprev (inodes h' z) = lprev (inodes h z)" if "z \<in> set vs" for z by (rule prv) (use that dist in auto)
  have nvs: "lnext (inodes h' z) = lnext (inodes h z)" if "z \<in> set (butlast vs)" for z
    by (rule nxt) (use that dist ne [of z] in \<open>auto dest: in_set_butlastD\<close>)
  have "lnext (inodes h' y) = lnext (inodes h y)" by (rule nxt) (use dist ne [of y] in auto)
  then have gvs: "get_ptr h' (NextL y) = get_ptr h (NextL y)" by (simp add: get_ptr_def)
  have "dseg h' (FirstL i) us = dseg h (FirstL i) us" by (rule dseg_frame) (use pus gus nus in blast)+
  then have "dseg h' (FirstL i) us" using us by simp
  moreover have "get_ptr h' (end_l (FirstL i) us) = Some y" using new(1) fst by (simp add: get_ptr_def end_l_def)
  moreover have "dseg h' (NextL y) vs = dseg h (NextL y) vs" by (rule dseg_frame) (use pvs gvs nvs in blast)+
  ultimately show ?thesis using new yvs by (simp add: dseg_append)
qed

section \<open>The operations\<close>

lemma ilist_distinct: "distinct as \<Longrightarrow> distinct (map Elem as @ [Sent i])"
  by (auto simp: distinct_map inj_on_def)

lemma il_init_ok: "ilist_ok (il_init i h) i []"
  by (simp add: ilist_ok_def il_init_def il_empty_def get_ptr_def)

lemma sentinel_prev: "ilist_ok h i as \<Longrightarrow> lprev (inodes h (Sent i)) = Some (end_l (FirstL i) (map Elem as))"
  by (simp add: ilist_ok_def dseg_append)

lemma il_push_back_ok:
  assumes "ilist_ok h i as" "a \<notin> set as"
  shows "\<exists>h'. il_push_back i (Elem a) h = Some h' \<and> ilist_ok h' i (as @ [a])"
proof -
  let ?l = "end_l (FirstL i) (map Elem as)" and ?us = "map Elem as"
  obtain h' where h': "il_push_back i (Elem a) h = Some h'"
    "h' = set_prev (Sent i) (Some (NextL (Elem a))) (set_prev (Elem a) (Some ?l) (set_next (Elem a) (Some (Sent i)) (put_ptr ?l (Some (Elem a)) h)))"
    using sentinel_prev [OF assms(1)] by (cases as rule: rev_cases) (simp_all add: il_push_back_def put_ptr_def end_l_def)
  have d: "distinct as" "dseg h (FirstL i) (?us @ Sent i # [])" using assms(1) by (simp_all add: ilist_ok_def)
  have ne: "as \<noteq> [] \<Longrightarrow> last as \<noteq> a" using assms(2) last_in_set by blast
  have "dseg h' (FirstL i) (?us @ Elem a # Sent i # [])"
    by (rule dseg_insert [OF d(2)])
      (use assms(2) ilist_distinct [OF d(1), of i] ne in \<open>auto simp: h'(2) put_ptr_def end_l_def last_map split: if_splits lloc.splits\<close>)
  then show ?thesis using h'(1) d(1) assms(2) by (simp add: ilist_ok_def)
qed

lemma il_append_ok:
  assumes "ilist_ok h i as" "a \<notin> set as"
  shows "\<exists>h'. il_append i (Elem a) h = Some h' \<and> ilist_ok h' i (a # as)"
proof -
  obtain y vs where yvs: "map Elem as @ [Sent i] = y # vs" by (cases as) auto
  have d: "distinct as" "dseg h (FirstL i) ([] @ y # vs)" using assms(1) yvs by (simp_all add: ilist_ok_def)
  have y: "ifirst h i = Some y" using d(2) by (simp add: get_ptr_def)
  have fr: "Elem a \<notin> set (y # vs)" unfolding yvs [symmetric] using assms(2) by auto
  obtain h' where h': "il_append i (Elem a) h = Some h'"
    "h' = set_first i (Some (Elem a)) (set_prev (Elem a) (Some (FirstL i)) (set_next (Elem a) (Some y) (set_prev y (Some (NextL (Elem a))) h)))"
    using y by (simp add: il_append_def)
  have "dseg h' (FirstL i) ([] @ Elem a # y # vs)"
    by (rule dseg_insert [OF d(2)]) (use fr ilist_distinct [OF d(1), of i] yvs in \<open>auto simp: h'(2) end_l_def\<close>)
  then show ?thesis using h'(1) d(1) assms(2) yvs by (simp add: ilist_ok_def)
qed

lemma unlink_ok:
  assumes "ilist_ok h i (as @ a # bs)"
  shows "ilist_ok (unlink (Elem a) h) i (as @ bs) \<and> inodes (unlink (Elem a) h) (Elem a) = \<lparr>lprev = None, lnext = None\<rparr>"
proof
  let ?us = "map Elem as" and ?h = "unlink (Elem a) h"
  obtain y vs where yvs: "map Elem bs @ [Sent i] = y # vs" by (cases bs) auto
  have d: "distinct (as @ a # bs)" using assms by (simp add: ilist_ok_def)
  have seg: "dseg h (FirstL i) (?us @ Elem a # y # vs)" using assms yvs by (simp add: ilist_ok_def)
  have dist: "distinct (?us @ Elem a # y # vs)" using ilist_distinct [OF d, of i] yvs by simp
  have pn: "lprev (inodes h (Elem a)) = Some (end_l (FirstL i) ?us)" "lnext (inodes h (Elem a)) = Some y"
    using seg by (simp_all add: dseg_append get_ptr_def)
  have ne: "as \<noteq> [] \<Longrightarrow> last as \<noteq> a" "y \<noteq> Elem a" "as \<noteq> [] \<Longrightarrow> y \<noteq> Elem (last as)"
    using dist by (cases as rule: rev_cases; auto)+
  have eff: "?h = set_next (Elem a) None (set_prev (Elem a) None (set_prev y (Some (end_l (FirstL i) ?us)) (put_ptr (end_l (FirstL i) ?us) (Some y) h)))"
    using pn ne by (cases as rule: rev_cases) (simp_all add: unlink_def put_ptr_def end_l_def)
  have "dseg ?h (FirstL i) (?us @ y # vs)"
    by (rule dseg_remove [OF seg dist])
      (use ne in \<open>auto simp: eff put_ptr_def end_l_def last_map split: if_splits lloc.splits\<close>)
  then show "ilist_ok ?h i (as @ bs)" using d yvs by (simp add: ilist_ok_def)
  show "inodes ?h (Elem a) = \<lparr>lprev = None, lnext = None\<rparr>" by (simp add: eff)
qed

definition il_take :: "nat \<Rightarrow> il_store \<Rightarrow> (link \<times> il_store) option" where
  "il_take i h = do { (r, h') \<leftarrow> il_get i h; x \<leftarrow> r; Some (x, h') }"

lemma il_get_ok:
  "ilist_ok h i (a # as) \<Longrightarrow> \<exists>h'. il_get i h = Some (Some (Elem a), h') \<and> ilist_ok h' i as"
  using unlink_ok [of h i "[]" a as] by (simp add: il_get_def ilist_ok_def get_ptr_def)

lemma il_get_empty: "ilist_ok h i [] \<Longrightarrow> il_get i h = Some (None, h)"
  by (simp add: il_get_def ilist_ok_def get_ptr_def)

interpretation bil: sequence "\<lambda>h as. ilist_ok h i as" "\<lambda>h as v. v \<notin> set as" "\<lambda>v. v" cap
  "\<lambda>h v. il_push_back i (Elem v) h" "\<lambda>h v. il_append i (Elem v) h" "il_take i" Elem for i cap
proof
  fix h vs v assume "ilist_ok h i vs" "v \<notin> set vs"
  from il_push_back_ok [OF this] show "\<exists>s'. il_push_back i (Elem v) h = Some s' \<and> ilist_ok s' i (vs @ [v]) \<and> (\<forall>w. w \<noteq> v \<and> w \<notin> set vs \<longrightarrow> w \<notin> set (vs @ [v]))" by auto
next
  fix h vs v assume "ilist_ok h i vs" "v \<notin> set vs"
  from il_append_ok [OF this] show "\<exists>s'. il_append i (Elem v) h = Some s' \<and> ilist_ok s' i (v # vs) \<and> (\<forall>w. w \<noteq> v \<and> w \<notin> set vs \<longrightarrow> w \<notin> set (v # vs))" by auto
next
  fix h v vs assume "ilist_ok h i (v # vs)"
  from il_get_ok [OF this] show "\<exists>s'. il_take i h = Some (Elem v, s') \<and> ilist_ok s' i vs" by (auto simp: il_take_def)
qed

section \<open>Iteration\<close>

lemma bi_walk_seg:
  "dseg h l (map Elem as @ [Sent i]) \<Longrightarrow> length as < n \<Longrightarrow> bi_walk n h \<lparr>bi_list = i, bi_el = l, bi_current = c\<rparr> = map Elem as"
proof (induction as arbitrary: l c n)
  case Nil then show ?case by (cases n) (auto simp: bi_next_def)
next
  case (Cons a as)
  then obtain m where m: "n = Suc m" by (cases n) auto
  show ?case using Cons.prems Cons.IH [of "NextL (Elem a)" m] by (simp add: m bi_next_def)
qed

section \<open>Properties\<close>

text \<open>\<open>append\<close> adds in front, \<open>push_back\<close> adds at the end, \<open>get\<close> takes the first element, \<open>unlink\<close> takes any element
  out of the list it is in and resets its links, and the iterator visits the elements in order; each keeps the doubly linked list.\<close>

theorem base_ilist_operations:
  assumes "ilist_ok h i (as @ a # bs)" "c \<notin> set (as @ a # bs)"
  shows "(\<exists>h'. il_append i (Elem c) h = Some h' \<and> ilist_ok h' i (c # as @ a # bs)) \<and>
    (\<exists>h'. il_push_back i (Elem c) h = Some h' \<and> ilist_ok h' i (as @ a # bs @ [c])) \<and>
    (\<exists>h'. il_get i h = Some (Some (Elem (hd (as @ [a]))), h') \<and> ilist_ok h' i (tl (as @ a # bs))) \<and>
    ilist_ok (unlink (Elem a) h) i (as @ bs) \<and> inodes (unlink (Elem a) h) (Elem a) = \<lparr>lprev = None, lnext = None\<rparr> \<and>
    bi_walk (length as + length bs + 2) h (bi_init i) = map Elem (as @ a # bs)"
proof (intro conjI)
  show "\<exists>h'. il_append i (Elem c) h = Some h' \<and> ilist_ok h' i (c # as @ a # bs)" using il_append_ok [OF assms] .
  show "\<exists>h'. il_push_back i (Elem c) h = Some h' \<and> ilist_ok h' i (as @ a # bs @ [c])" using il_push_back_ok [OF assms] by simp
  show "\<exists>h'. il_get i h = Some (Some (Elem (hd (as @ [a]))), h') \<and> ilist_ok h' i (tl (as @ a # bs))"
    using assms(1) il_get_ok by (cases as) auto
  show "ilist_ok (unlink (Elem a) h) i (as @ bs)" "inodes (unlink (Elem a) h) (Elem a) = \<lparr>lprev = None, lnext = None\<rparr>"
    using unlink_ok [OF assms(1)] by simp_all
  show "bi_walk (length as + length bs + 2) h (bi_init i) = map Elem (as @ a # bs)"
    unfolding bi_init_def by (rule bi_walk_seg) (use assms(1) in \<open>simp_all add: ilist_ok_def\<close>)
qed

definition il_start :: il_store where
  "il_start = il_init 4 (il_init 5 \<lparr>inodes = \<lambda>_. \<lparr>lprev = None, lnext = None\<rparr>, ifirst = \<lambda>_. None\<rparr>)"

definition il_one :: il_store where
  "il_one = the (il_push_back 4 (Elem 7) il_start)"

lemma il_one_ok: "ilist_ok il_one 4 [7]"
  using il_push_back_ok [OF il_init_ok, of 7 4 "il_init 5 \<lparr>inodes = \<lambda>_. \<lparr>lprev = None, lnext = None\<rparr>, ifirst = \<lambda>_. None\<rparr>"]
  by (auto simp: il_one_def il_start_def)

theorem base_ilist_operations_witness: "ilist_ok (unlink (Elem 7) il_one) 4 [] \<and> (\<exists>h'. il_append 4 (Elem 9) il_one = Some h' \<and> ilist_ok h' 4 [9, 7])"
  using base_ilist_operations [of il_one 4 "[]" 7 "[]" 9] il_one_ok by simp

text \<open>\<open>move_elements_to\<close> copies the sentinel but leaves the last element pointing to the sentinel of the old list: when the new
  owner is walked, that sentinel is returned as if it were an element after the last one, and \<open>is_last\<close> of the last element is false.\<close>

theorem move_elements_leaks_sentinel:
  assumes "ilist_ok h i (as @ [a])" "i \<noteq> j" "lnext (inodes h (Sent i)) = None"
  shows "bi_walk (length as + 3) (move_elements_to i j h) (bi_init j) = map Elem (as @ [a]) @ [Sent i] \<and>
    \<not> il_is_last (move_elements_to i j h) j (Elem a)"
proof -
  let ?h = "move_elements_to i j h" and ?xs = "map Elem as @ [Elem a]"
  have nx: "lnext (inodes ?h (Elem b)) = lnext (inodes h (Elem b))" "lprev (inodes ?h (Elem b)) = lprev (inodes h (Elem b))" for b
    by (simp_all add: move_elements_to_def il_empty_def)
  have f: "ifirst ?h j = ifirst h i" "lnext (inodes ?h (Sent i)) = None"
    using assms(2,3) by (simp_all add: move_elements_to_def il_empty_def)
  have seg: "dseg h (FirstL i) (map Elem as @ [Elem a, Sent i])" using assms(1) by (simp add: ilist_ok_def)
  have walk: "bi_walk (length cs + 3) ?h \<lparr>bi_list = j, bi_el = l', bi_current = c\<rparr> = map Elem (cs @ [a]) @ [Sent i]"
    if "dseg h l (map Elem cs @ [Elem a, Sent i])" "get_ptr ?h l' = get_ptr h l" for cs l l' c
    using that
  proof (induction cs arbitrary: l l' c)
    case Nil
    have "get_ptr ?h l' = Some (Elem a)" "get_ptr ?h (NextL (Elem a)) = Some (Sent i)" "get_ptr ?h (NextL (Sent i)) = None"
      using Nil f(2) nx(1) [of a] by (simp_all add: get_ptr_def)
    then show ?case using assms(2) by (simp add: bi_next_def numeral_3_eq_3)
  next
    case (Cons b cs)
    have "get_ptr ?h (NextL (Elem b)) = get_ptr h (NextL (Elem b))" by (simp add: get_ptr_def nx)
    then have rest: "bi_walk (length cs + 3) ?h \<lparr>bi_list = j, bi_el = NextL (Elem b), bi_current = c'\<rparr> = map Elem (cs @ [a]) @ [Sent i]" for c'
      using Cons.IH [of "NextL (Elem b)"] Cons.prems(1) by simp
    have "bi_walk (Suc m) ?h \<lparr>bi_list = j, bi_el = l', bi_current = c\<rparr> =
        Elem b # bi_walk m ?h \<lparr>bi_list = j, bi_el = NextL (Elem b), bi_current = Some (Elem b)\<rparr>" for m
      using Cons.prems by (simp add: bi_next_def)
    from this [of "length cs + 3"] rest show ?case by (simp only: list.size list.map append_Cons add_Suc add_Suc_right add_0_right)
  qed
  have "lnext (inodes ?h (Elem a)) = Some (Sent i)" using seg nx(1) [of a] by (simp add: dseg_append get_ptr_def)
  then have "\<not> il_is_last ?h j (Elem a)" using assms(2) by (simp add: il_is_last_def)
  moreover have "bi_walk (length as + 3) ?h (bi_init j) = map Elem (as @ [a]) @ [Sent i]"
    unfolding bi_init_def by (rule walk [OF seg]) (simp add: get_ptr_def f)
  ultimately show ?thesis by simp
qed

theorem move_elements_leaks_sentinel_witness: "bi_walk (length [] + 3) (move_elements_to 4 5 il_one) (bi_init 5) = [Elem 7, Sent 4]"
proof -
  have "lnext (inodes il_one (Sent 4)) = None"
    by (simp add: il_one_def il_start_def il_push_back_def il_init_def il_empty_def ilink_init_def put_ptr_def)
  then show ?thesis using move_elements_leaks_sentinel [of il_one 4 "[]" 7 5] il_one_ok by simp
qed

end
