(* ===== verification/Thread_Cache.thy ===== *)
theory Thread_Cache imports Ilink begin

text \<open>
  \<open>private/thread_cache.h\<close>: the cache of connection threads, shared by every thread of the server. The queue of
  connection requests is the \<open>I_List\<close> of Ilink (list number 0). The code between two points where
  \<open>LOCK_thread_cache\<close> is given up is one definition; the threads, what they wait for and the two condition variables are a step relation. A thread
  blocked on a condition variable is woken by a signal, a broadcast or, in \<open>park\<close>, its timeout; the increment of \<open>kill_cached_threads\<close> in
  \<open>final_flush\<close>, which is outside the lock, is taken as one step. \<open>thread_cache_size\<close> is fixed.
\<close>

section \<open>Thread_cache\<close>

record Thread_cache =
  conn_list :: il_store
  cached_thread_count :: ulong
  kill_cached_threads :: uint32

definition tc_init :: "Thread_cache \<Rightarrow> Thread_cache" where
  "tc_init c = \<lparr>conn_list = il_empty 0 (conn_list c), cached_thread_count = 0, kill_cached_threads = 0\<rparr>"

text \<open>The loop test of \<open>flush\<close>: \<open>True\<close> when the caller broadcasts \<open>COND_thread_cache\<close> and waits, else the flush is over.\<close>

definition flush_test :: "Thread_cache \<Rightarrow> bool \<times> Thread_cache" where
  "flush_test c =
     (if cached_thread_count c \<noteq> 0 then (True, c) else (False, c\<lparr>kill_cached_threads := kill_cached_threads c - 1\<rparr>))"

definition flush_begin :: "Thread_cache \<Rightarrow> bool \<times> Thread_cache" where
  "flush_begin c = flush_test (c\<lparr>kill_cached_threads := kill_cached_threads c + 1\<rparr>)"

definition final_flush_begin :: "Thread_cache \<Rightarrow> Thread_cache" where
  "final_flush_begin c = c\<lparr>kill_cached_threads := kill_cached_threads c + 1\<rparr>"

definition enqueue :: "Thread_cache \<Rightarrow> nat \<Rightarrow> (bool \<times> Thread_cache) option" where
  "enqueue c connect =
     (if cached_thread_count c \<noteq> 0
      then do { l \<leftarrow> il_push_back 0 (Elem connect) (conn_list c);
                Some (True, c\<lparr>conn_list := l, cached_thread_count := cached_thread_count c - 1\<rparr>) }
      else Some (False, c))"

text \<open>\<open>park\<close> up to its first wait, and from a wake-up to the next wait or the return. \<open>Leave connect flushed\<close>: the thread leaves and, when
  \<open>flushed\<close>, signals \<open>COND_flush_thread_cache\<close> after it gave up the lock.\<close>

datatype park_result = Stay | Leave "link option" bool

definition park_begin :: "ulong \<Rightarrow> Thread_cache \<Rightarrow> (park_result \<times> Thread_cache) option" where
  "park_begin thread_cache_size c =
     do { (connect, l) \<leftarrow> il_get 0 (conn_list c);
          Some (if connect \<noteq> None then (Leave connect False, c\<lparr>conn_list := l, cached_thread_count := cached_thread_count c + 1\<rparr>)
                else if cached_thread_count c < thread_cache_size \<and> kill_cached_threads c = 0
                then (Stay, c\<lparr>conn_list := l, cached_thread_count := cached_thread_count c + 1\<rparr>)
                else (Leave None False, c\<lparr>conn_list := l\<rparr>)) }"

definition park_wake :: "bool \<Rightarrow> Thread_cache \<Rightarrow> (park_result \<times> Thread_cache) option" where
  "park_wake timed_out c =
     (let flushed = kill_cached_threads c \<noteq> 0 in
      do { (connect, l) \<leftarrow> il_get 0 (conn_list c);
           Some (if connect \<noteq> None then (Leave connect flushed, c\<lparr>conn_list := l\<rparr>)
                 else if flushed \<or> timed_out then (Leave None flushed, c\<lparr>conn_list := l, cached_thread_count := cached_thread_count c - 1\<rparr>)
                 else (Stay, c\<lparr>conn_list := l\<rparr>)) })"

definition tc_size :: "Thread_cache \<Rightarrow> ulong" where
  "tc_size c = cached_thread_count c"

section \<open>Threads\<close>

text \<open>What a thread is doing: nothing with the cache, waiting on \<open>COND_thread_cache\<close> in \<open>park\<close> or on \<open>COND_flush_thread_cache\<close> in \<open>flush\<close> (the flag says
  that it was woken), or about to signal one of them after giving up the lock.\<close>

datatype pc = Idle | Parked bool | FlushWait bool | SignalParked | SignalFlush

fun is_parked :: "pc \<Rightarrow> bool" where
  "is_parked (Parked w) = True"
| "is_parked _ = False"

fun is_flushing :: "pc \<Rightarrow> bool" where
  "is_flushing (FlushWait w) = True"
| "is_flushing _ = False"

text \<open>The history of the requests that were queued and of those handed to a thread, and whether the pre-shutdown \<open>final_flush\<close> ran, are kept for the properties.\<close>

record sys =
  tc :: Thread_cache
  pcs :: "nat \<Rightarrow> pc"
  arrived :: "nat list"
  served :: "nat list"
  final_done :: bool

definition set_pc :: "nat \<Rightarrow> pc \<Rightarrow> sys \<Rightarrow> sys" where
  "set_pc t p s = s\<lparr>pcs := (pcs s)(t := p)\<rparr>"

fun wake_all :: "pc \<Rightarrow> pc" where
  "wake_all (Parked w) = Parked True"
| "wake_all p = p"

definition broadcast :: "sys \<Rightarrow> sys" where
  "broadcast s = s\<lparr>pcs := wake_all \<circ> pcs s\<rparr>"

fun serve :: "link option \<Rightarrow> sys \<Rightarrow> sys" where
  "serve (Some (Elem c)) s = s\<lparr>served := served s @ [c]\<rparr>"
| "serve _ s = s"

definition parked :: "nat \<Rightarrow> sys \<Rightarrow> nat set" where
  "parked n s = {t. t < n \<and> is_parked (pcs s t)}"

definition flushers :: "nat \<Rightarrow> sys \<Rightarrow> nat set" where
  "flushers n s = {t. t < n \<and> is_flushing (pcs s t)}"

definition signallers :: "nat \<Rightarrow> sys \<Rightarrow> nat set" where
  "signallers n s = {t. t < n \<and> pcs s t = SignalFlush}"

definition woken :: "nat \<Rightarrow> sys \<Rightarrow> nat set" where
  "woken n s = {t. t < n \<and> pcs s t = Parked True}"

definition notifiers :: "nat \<Rightarrow> sys \<Rightarrow> nat set" where
  "notifiers n s = {t. t < n \<and> pcs s t = SignalParked}"

definition after_test :: "nat \<Rightarrow> bool \<times> Thread_cache \<Rightarrow> sys \<Rightarrow> sys" where
  "after_test t r s = (if fst r then broadcast (set_pc t (FlushWait False) (s\<lparr>tc := snd r\<rparr>)) else set_pc t Idle (s\<lparr>tc := snd r\<rparr>))"

text \<open>The steps of \<open>n\<close> threads. With \<open>conc\<close> a flush may start while another one waits. A request is a fresh \<open>CONNECT\<close>: its links are null.\<close>

inductive step :: "nat \<Rightarrow> ulong \<Rightarrow> bool \<Rightarrow> sys \<Rightarrow> sys \<Rightarrow> bool" for n sz conc where
  enqueue_taken: "t < n \<Longrightarrow> pcs s t = Idle \<Longrightarrow> inodes (conn_list (tc s)) (Elem c) = \<lparr>lprev = None, lnext = None\<rparr> \<Longrightarrow>
     enqueue (tc s) c = Some (True, k) \<Longrightarrow> step n sz conc s (set_pc t SignalParked (s\<lparr>tc := k, arrived := arrived s @ [c]\<rparr>))"
| enqueue_refused: "t < n \<Longrightarrow> pcs s t = Idle \<Longrightarrow> enqueue (tc s) c = Some (False, k) \<Longrightarrow> step n sz conc s (s\<lparr>tc := k\<rparr>)"
| signal_parked: "t < n \<Longrightarrow> pcs s t = SignalParked \<Longrightarrow> u < n \<Longrightarrow> pcs s u = Parked False \<Longrightarrow>
     step n sz conc s (set_pc u (Parked True) (set_pc t Idle s))"
| signal_nobody: "t < n \<Longrightarrow> pcs s t = SignalParked \<Longrightarrow> \<forall>u < n. pcs s u \<noteq> Parked False \<Longrightarrow> step n sz conc s (set_pc t Idle s)"
| park_stay: "t < n \<Longrightarrow> pcs s t = Idle \<Longrightarrow> park_begin sz (tc s) = Some (Stay, k) \<Longrightarrow> step n sz conc s (set_pc t (Parked False) (s\<lparr>tc := k\<rparr>))"
| park_leave: "t < n \<Longrightarrow> pcs s t = Idle \<Longrightarrow> park_begin sz (tc s) = Some (Leave x False, k) \<Longrightarrow> step n sz conc s (serve x (s\<lparr>tc := k\<rparr>))"
| wake_stay: "t < n \<Longrightarrow> pcs s t = Parked w \<Longrightarrow> w \<or> timed_out \<Longrightarrow> park_wake timed_out (tc s) = Some (Stay, k) \<Longrightarrow>
     step n sz conc s (set_pc t (Parked False) (s\<lparr>tc := k\<rparr>))"
| wake_leave: "t < n \<Longrightarrow> pcs s t = Parked w \<Longrightarrow> w \<or> timed_out \<Longrightarrow> park_wake timed_out (tc s) = Some (Leave x flushed, k) \<Longrightarrow>
     step n sz conc s (serve x (set_pc t (if flushed then SignalFlush else Idle) (s\<lparr>tc := k\<rparr>)))"
| signal_flush: "t < n \<Longrightarrow> pcs s t = SignalFlush \<Longrightarrow> u < n \<Longrightarrow> pcs s u = FlushWait False \<Longrightarrow>
     step n sz conc s (set_pc u (FlushWait True) (set_pc t Idle s))"
| signal_no_flush: "t < n \<Longrightarrow> pcs s t = SignalFlush \<Longrightarrow> \<forall>u < n. pcs s u \<noteq> FlushWait False \<Longrightarrow> step n sz conc s (set_pc t Idle s)"
| flush: "t < n \<Longrightarrow> pcs s t = Idle \<Longrightarrow> conc \<or> flushers n s = {} \<Longrightarrow> step n sz conc s (after_test t (flush_begin (tc s)) s)"
| flush_woken: "t < n \<Longrightarrow> pcs s t = FlushWait True \<Longrightarrow> step n sz conc s (after_test t (flush_test (tc s)) s)"
| final_flush: "t < n \<Longrightarrow> pcs s t = Idle \<Longrightarrow> \<not> final_done s \<Longrightarrow> step n sz conc s (s\<lparr>tc := final_flush_begin (tc s), final_done := True\<rparr>)"

definition start :: sys where
  "start = \<lparr>tc = tc_init \<lparr>conn_list = il_init 0 \<lparr>inodes = \<lambda>_. \<lparr>lprev = None, lnext = None\<rparr>, ifirst = \<lambda>_. None\<rparr>, cached_thread_count = 0, kill_cached_threads = 0\<rparr>,
     pcs = \<lambda>_. Idle, arrived = [], served = [], final_done = False\<rparr>"

inductive reach :: "nat \<Rightarrow> ulong \<Rightarrow> bool \<Rightarrow> sys \<Rightarrow> bool" for n sz conc where
  start: "reach n sz conc start"
| step: "reach n sz conc s \<Longrightarrow> step n sz conc s s' \<Longrightarrow> reach n sz conc s'"

section \<open>Invariant\<close>

text \<open>The queue holds the requests not yet served, in order of arrival; every queued request and every counted thread has its own parked thread; the parked threads are
  at most \<open>thread_cache_size\<close>; there is a woken thread or a pending signal for every queued request; \<open>kill_cached_threads\<close> counts the waiting flushes and the final one.\<close>

definition tc_inv :: "nat \<Rightarrow> ulong \<Rightarrow> sys \<Rightarrow> nat list \<Rightarrow> bool" where
  "tc_inv n sz s q \<longleftrightarrow> ilist_ok (conn_list (tc s)) 0 q \<and> arrived s = served s @ q \<and>
     card (parked n s) = unat (cached_thread_count (tc s)) + length q \<and> card (parked n s) \<le> unat sz \<and>
     length q \<le> card (woken n s) + card (notifiers n s) \<and>
     unat (kill_cached_threads (tc s)) = card (flushers n s) + (if final_done s then 1 else 0)"

lemma set_pc_simps [simp]:
  "tc (set_pc t p s) = tc s" "pcs (set_pc t p s) = (pcs s)(t := p)" "arrived (set_pc t p s) = arrived s" "served (set_pc t p s) = served s"
  "final_done (set_pc t p s) = final_done s"
  by (simp_all add: set_pc_def)

lemma broadcast_simps [simp]:
  "tc (broadcast s) = tc s" "arrived (broadcast s) = arrived s" "served (broadcast s) = served s" "final_done (broadcast s) = final_done s"
  "pcs (broadcast s) t = wake_all (pcs s t)"
  by (simp_all add: broadcast_def)

lemma serve_simps [simp]:
  "tc (serve x s) = tc s" "pcs (serve x s) = pcs s" "arrived (serve x s) = arrived s" "final_done (serve x s) = final_done s"
  by (cases "(x, s)" rule: serve.cases; simp)+

lemma wake_all_kinds [simp]: "is_parked (wake_all p) = is_parked p" "is_flushing (wake_all p) = is_flushing p" "wake_all p = SignalFlush \<longleftrightarrow> p = SignalFlush"
  "wake_all p = SignalParked \<longleftrightarrow> p = SignalParked" "wake_all p = Parked True \<longleftrightarrow> is_parked p"
  by (cases p; simp)+

lemma finite_sets [simp]: "finite (parked n s)" "finite (flushers n s)" "finite (signallers n s)" "finite (woken n s)" "finite (notifiers n s)"
  by (simp_all add: parked_def flushers_def signallers_def woken_def notifiers_def)

lemma parked_upd: "t < n \<Longrightarrow> parked n (set_pc t p s) = (if is_parked p then insert t (parked n s) else parked n s - {t})"
  by (auto simp: parked_def)

lemma flushers_upd: "t < n \<Longrightarrow> flushers n (set_pc t p s) = (if is_flushing p then insert t (flushers n s) else flushers n s - {t})"
  by (auto simp: flushers_def)

lemma signallers_upd: "t < n \<Longrightarrow> signallers n (set_pc t p s) = (if p = SignalFlush then insert t (signallers n s) else signallers n s - {t})"
  by (auto simp: signallers_def)

lemma woken_upd: "t < n \<Longrightarrow> woken n (set_pc t p s) = (if p = Parked True then insert t (woken n s) else woken n s - {t})"
  by (auto simp: woken_def)

lemma notifiers_upd: "t < n \<Longrightarrow> notifiers n (set_pc t p s) = (if p = SignalParked then insert t (notifiers n s) else notifiers n s - {t})"
  by (auto simp: notifiers_def)

lemma sets_fields [simp]:
  "parked n (tc_update f s) = parked n s" "flushers n (tc_update f s) = flushers n s" "signallers n (tc_update f s) = signallers n s"
  "woken n (tc_update f s) = woken n s" "notifiers n (tc_update f s) = notifiers n s"
  "parked n (arrived_update g s) = parked n s" "flushers n (arrived_update g s) = flushers n s" "signallers n (arrived_update g s) = signallers n s"
  "woken n (arrived_update g s) = woken n s" "notifiers n (arrived_update g s) = notifiers n s"
  "parked n (final_done_update b s) = parked n s" "flushers n (final_done_update b s) = flushers n s" "signallers n (final_done_update b s) = signallers n s"
  "woken n (final_done_update b s) = woken n s" "notifiers n (final_done_update b s) = notifiers n s"
  "parked n (serve x s) = parked n s" "flushers n (serve x s) = flushers n s" "signallers n (serve x s) = signallers n s"
  "woken n (serve x s) = woken n s" "notifiers n (serve x s) = notifiers n s"
  by (simp_all add: parked_def flushers_def signallers_def woken_def notifiers_def)

lemma sets_broadcast [simp]: "parked n (broadcast s) = parked n s" "flushers n (broadcast s) = flushers n s" "signallers n (broadcast s) = signallers n s"
  "woken n (broadcast s) = parked n s" "notifiers n (broadcast s) = notifiers n s"
  by (simp_all add: parked_def flushers_def signallers_def woken_def notifiers_def)

lemma member_sets: "t < n \<Longrightarrow> t \<in> parked n s \<longleftrightarrow> is_parked (pcs s t)" "t < n \<Longrightarrow> t \<in> flushers n s \<longleftrightarrow> is_flushing (pcs s t)"
  "t < n \<Longrightarrow> t \<in> signallers n s \<longleftrightarrow> pcs s t = SignalFlush"
  "t < n \<Longrightarrow> t \<in> woken n s \<longleftrightarrow> pcs s t = Parked True" "t < n \<Longrightarrow> t \<in> notifiers n s \<longleftrightarrow> pcs s t = SignalParked"
  by (auto simp: parked_def flushers_def signallers_def woken_def notifiers_def)

lemmas pc_sets = parked_upd flushers_upd signallers_upd woken_upd notifiers_upd member_sets card_insert_if card_Diff_singleton

lemma unlinked_fresh: "ilist_ok h 0 q \<Longrightarrow> inodes h (Elem c) = \<lparr>lprev = None, lnext = None\<rparr> \<Longrightarrow> c \<notin> set q"
proof
  assume ok: "ilist_ok h 0 q" and un: "inodes h (Elem c) = \<lparr>lprev = None, lnext = None\<rparr>" and "c \<in> set q"
  then obtain as bs where "q = as @ c # bs" by (metis split_list)
  then show False using ok un by (simp add: ilist_ok_def dseg_append)
qed

lemma flushers_bound: "card (flushers n s) \<le> n"
proof -
  have "flushers n s \<subseteq> {..<n}" by (auto simp: flushers_def)
  then show ?thesis by (metis card_lessThan card_mono finite_lessThan)
qed

lemma unat_pred: "w \<noteq> 0 \<Longrightarrow> unat (w - 1 :: 'a::len word) = unat w - 1"
  by (simp add: unat_minus_one)

text \<open>The operations on a well-formed queue, branch by branch.\<close>

lemma enqueue_cases:
  assumes "ilist_ok (conn_list c) 0 q" "inodes (conn_list c) (Elem x) = \<lparr>lprev = None, lnext = None\<rparr>" "enqueue c x = Some (True, k)"
  shows "ilist_ok (conn_list k) 0 (q @ [x]) \<and> cached_thread_count c \<noteq> 0 \<and> cached_thread_count k = cached_thread_count c - 1 \<and>
         kill_cached_threads k = kill_cached_threads c"
  using il_push_back_ok [OF assms(1) unlinked_fresh [OF assms(1,2)]] assms(3) by (auto simp: enqueue_def split: if_splits)

lemma enqueue_refused_same: "enqueue c x = Some (False, k) \<Longrightarrow> k = c"
  by (auto simp: enqueue_def bind_eq_Some_conv split: if_splits)

lemma park_begin_cases:
  assumes "ilist_ok (conn_list c) 0 q" "park_begin sz c = Some (r, k)"
  shows "kill_cached_threads k = kill_cached_threads c \<and>
     (case q of x # xs \<Rightarrow> r = Leave (Some (Elem x)) False \<and> ilist_ok (conn_list k) 0 xs \<and> cached_thread_count k = cached_thread_count c + 1
      | [] \<Rightarrow> ilist_ok (conn_list k) 0 [] \<and>
          (if cached_thread_count c < sz \<and> kill_cached_threads c = 0 then r = Stay \<and> cached_thread_count k = cached_thread_count c + 1
           else r = Leave None False \<and> cached_thread_count k = cached_thread_count c))"
  using assms il_get_ok [of "conn_list c" 0] il_get_empty [of "conn_list c" 0]
  by (cases q) (force simp: park_begin_def split: if_splits)+

lemma park_wake_cases:
  assumes "ilist_ok (conn_list c) 0 q" "park_wake timed_out c = Some (r, k)"
  shows "kill_cached_threads k = kill_cached_threads c \<and>
     (case q of x # xs \<Rightarrow> r = Leave (Some (Elem x)) (kill_cached_threads c \<noteq> 0) \<and> ilist_ok (conn_list k) 0 xs \<and> cached_thread_count k = cached_thread_count c
      | [] \<Rightarrow> ilist_ok (conn_list k) 0 [] \<and>
          (if kill_cached_threads c \<noteq> 0 \<or> timed_out then r = Leave None (kill_cached_threads c \<noteq> 0) \<and> cached_thread_count k = cached_thread_count c - 1
           else r = Stay \<and> cached_thread_count k = cached_thread_count c))"
  using assms il_get_ok [of "conn_list c" 0] il_get_empty [of "conn_list c" 0]
  by (cases q) (force simp: park_wake_def Let_def split: if_splits)+

lemma tc_invI:
  "ilist_ok (conn_list (tc s)) 0 q \<Longrightarrow> arrived s = served s @ q \<Longrightarrow> card (parked n s) = unat (cached_thread_count (tc s)) + length q \<Longrightarrow>
   card (parked n s) \<le> unat sz \<Longrightarrow> length q \<le> card (woken n s) + card (notifiers n s) \<Longrightarrow>
   unat (kill_cached_threads (tc s)) = card (flushers n s) + (if final_done s then 1 else 0) \<Longrightarrow> tc_inv n sz s q"
  by (simp add: tc_inv_def)

lemma all_woken: "\<forall>u < n. pcs s u \<noteq> Parked False \<Longrightarrow> woken n s = parked n s"
proof -
  assume "\<forall>u < n. pcs s u \<noteq> Parked False"
  moreover have "is_parked p \<Longrightarrow> p \<noteq> Parked False \<Longrightarrow> p = Parked True" for p by (cases p) auto
  ultimately show ?thesis by (fastforce simp: woken_def parked_def)
qed

lemma members_pos: "t \<in> A \<Longrightarrow> finite A \<Longrightarrow> 0 < card A"
  by (auto simp: card_gt_0_iff)

lemma step_tc_inv:
  assumes st: "step n sz conc s s'" and inv: "tc_inv n sz s q" and n: "n + 2 < 2 ^ 32"
  shows "\<exists>q'. tc_inv n sz s' q'"
proof -
  have ok: "ilist_ok (conn_list (tc s)) 0 q" and fifo: "arrived s = served s @ q" and cnt: "card (parked n s) = unat (cached_thread_count (tc s)) + length q"
    and cap: "card (parked n s) \<le> unat sz" and wk: "length q \<le> card (woken n s) + card (notifiers n s)"
    and kill: "unat (kill_cached_threads (tc s)) = card (flushers n s) + (if final_done s then 1 else 0)"
    using inv by (simp_all add: tc_inv_def)
  note pos = members_pos [of _ "parked n s"] members_pos [of _ "woken n s"] members_pos [of _ "notifiers n s"] members_pos [of _ "flushers n s"]
  show ?thesis
    using st
  proof cases
    case (enqueue_taken t c k)
    then show ?thesis
      using enqueue_cases [OF ok, of c k] fifo cnt cap wk kill
      by (intro exI [of _ "q @ [c]"] tc_invI) (auto simp: pc_sets unat_pred unat_gt_0)
  next
    case (enqueue_refused t c k)
    then show ?thesis using inv enqueue_refused_same [of "tc s" c k] by auto
  next
    case (signal_parked t u)
    then show ?thesis using ok fifo cnt cap wk kill pos(3) [of t]
      by (intro exI [of _ q] tc_invI) (auto simp: pc_sets)
  next
    case (signal_nobody t)
    then show ?thesis using ok fifo cnt cap wk kill all_woken [of n s]
      by (intro exI [of _ q] tc_invI) (auto simp: pc_sets)
  next
    case (final_flush t)
    then show ?thesis using ok fifo cnt cap wk kill flushers_bound [of n s] n
      by (intro exI [of _ q] tc_invI) (auto simp: final_flush_begin_def unat_Suc_word)
  next
    case (signal_flush t u)
    then show ?thesis using ok fifo cnt cap wk kill
      by (intro exI [of _ q] tc_invI) (auto simp: pc_sets)
  next
    case (signal_no_flush t)
    then show ?thesis using ok fifo cnt cap wk kill
      by (intro exI [of _ q] tc_invI) (auto simp: pc_sets)
  next
    case (park_stay t k)
    then have q: "q = []" "unat (cached_thread_count (tc s)) < unat sz" "kill_cached_threads k = kill_cached_threads (tc s)"
      "cached_thread_count k = cached_thread_count (tc s) + 1" "ilist_ok (conn_list k) 0 []"
      using park_begin_cases [OF ok, of sz Stay k] by (auto simp: word_less_nat_alt split: list.splits if_splits)
    show ?thesis using park_stay q fifo cnt cap wk kill
      by (intro exI [of _ "[]"] tc_invI) (auto simp: pc_sets unat_Suc_below)
  next
    case (park_leave t x k)
    then show ?thesis using park_begin_cases [OF ok, of sz "Leave x False" k] fifo cnt cap wk kill unat_Suc_below [of "cached_thread_count (tc s)" sz]
      by (intro exI [of _ "tl q"] tc_invI) (auto split: list.splits if_splits)
  next
    case (wake_stay t w timed_out k)
    then show ?thesis using park_wake_cases [OF ok, of timed_out Stay k] fifo cnt cap wk kill
      by (intro exI [of _ q] tc_invI) (auto simp: pc_sets split: list.splits if_splits)
  next
    case (wake_leave t w timed_out x flushed k)
    have "0 < card (parked n s)" using wake_leave by (intro pos(1) [of t]) (simp_all add: pc_sets)
    moreover have "card (woken n s) \<le> Suc (card (woken n s - {t}))" by (cases "t \<in> woken n s") (simp_all add: card_Diff_singleton)
    ultimately show ?thesis using wake_leave park_wake_cases [OF ok, of timed_out "Leave x flushed" k] fifo cnt cap wk kill
      by (intro exI [of _ "tl q"] tc_invI) (auto simp: pc_sets unat_pred unat_gt_0 split: list.splits if_splits)
  next
    case (flush t)
    then show ?thesis using ok fifo cnt cap wk kill flushers_bound [of n s] n
      by (intro exI [of _ q] tc_invI) (auto simp: after_test_def flush_begin_def flush_test_def pc_sets unat_Suc_word)
  next
    case (flush_woken t)
    then have "0 < card (flushers n s)" by (intro pos(4) [of t]) (simp_all add: pc_sets)
    moreover from this have "kill_cached_threads (tc s) \<noteq> 0" using kill by auto
    ultimately show ?thesis using flush_woken ok fifo cnt cap wk kill
      by (intro exI [of _ q] tc_invI) (auto simp: after_test_def flush_test_def pc_sets unat_pred)
  qed
qed

lemma start_tc_inv: "tc_inv n sz start []"
  by (rule tc_invI) (simp_all add: start_def tc_init_def parked_def flushers_def ilist_ok_def il_init_def il_empty_def get_ptr_def)

lemma reach_tc_inv: "reach n sz conc s \<Longrightarrow> n + 2 < 2 ^ 32 \<Longrightarrow> \<exists>q. tc_inv n sz s q"
  by (induction rule: reach.induct) (blast intro: start_tc_inv step_tc_inv)+

section \<open>A flush ends\<close>

text \<open>While one flush waits, every parked thread was woken, and one of them or a thread about to signal is left.\<close>

definition flush_inv :: "nat \<Rightarrow> sys \<Rightarrow> bool" where
  "flush_inv n s \<longleftrightarrow> (\<forall>t < n. \<forall>u < n. is_flushing (pcs s t) \<longrightarrow> is_flushing (pcs s u) \<longrightarrow> t = u) \<and>
     (\<forall>t < n. pcs s t = FlushWait False \<longrightarrow> woken n s = parked n s \<and> (parked n s \<noteq> {} \<or> signallers n s \<noteq> {}))"

lemma killed: "tc_inv n sz s q \<Longrightarrow> t < n \<Longrightarrow> is_flushing (pcs s t) \<Longrightarrow> kill_cached_threads (tc s) \<noteq> 0"
  using members_pos [of t "flushers n s"] by (auto simp: tc_inv_def member_sets)

lemma counted: "tc_inv n sz s q \<Longrightarrow> cached_thread_count (tc s) \<noteq> 0 \<Longrightarrow> parked n s \<noteq> {}"
  by (auto simp: tc_inv_def unat_eq_zero)

lemma park_wake_killed:
  assumes "ilist_ok (conn_list c) 0 q" "kill_cached_threads c \<noteq> 0"
  shows "\<exists>x k. park_wake timed_out c = Some (Leave x True, k)"
  using assms il_get_ok [of "conn_list c" 0] il_get_empty [of "conn_list c" 0] by (cases q) (fastforce simp: park_wake_def)+

lemma flush_invI:
  "(\<And>t u. t < n \<Longrightarrow> u < n \<Longrightarrow> is_flushing (pcs s t) \<Longrightarrow> is_flushing (pcs s u) \<Longrightarrow> t = u) \<Longrightarrow>
   (\<And>t. t < n \<Longrightarrow> pcs s t = FlushWait False \<Longrightarrow> woken n s = parked n s \<and> (parked n s \<noteq> {} \<or> signallers n s \<noteq> {})) \<Longrightarrow> flush_inv n s"
  by (simp add: flush_inv_def)

lemma step_flush_inv:
  assumes st: "step n sz False s s'" and inv: "tc_inv n sz s q" and fi: "flush_inv n s"
  shows "flush_inv n s'"
proof -
  have ok: "ilist_ok (conn_list (tc s)) 0 q" using inv by (simp add: tc_inv_def)
  have one: "\<And>t u. t < n \<Longrightarrow> u < n \<Longrightarrow> is_flushing (pcs s t) \<Longrightarrow> is_flushing (pcs s u) \<Longrightarrow> t = u"
    and wait: "\<And>t. t < n \<Longrightarrow> pcs s t = FlushWait False \<Longrightarrow> woken n s = parked n s \<and> (parked n s \<noteq> {} \<or> signallers n s \<noteq> {})"
    using fi by (auto simp: flush_inv_def)
  have kill: "\<And>t. t < n \<Longrightarrow> pcs s t = FlushWait False \<Longrightarrow> kill_cached_threads (tc s) \<noteq> 0" using killed [OF inv] by auto
  show ?thesis
    using st
  proof cases
    case (enqueue_taken t c k)
    then show ?thesis using one wait by (intro flush_invI) (auto simp: pc_sets split: if_splits)
  next
    case (enqueue_refused t c k)
    then show ?thesis using fi enqueue_refused_same [of "tc s" c k] by auto
  next
    case (signal_parked t u)
    then show ?thesis using one wait by (intro flush_invI) (auto simp: pc_sets split: if_splits)
  next
    case (signal_nobody t)
    then show ?thesis using one wait by (intro flush_invI) (auto simp: pc_sets split: if_splits)
  next
    case (park_stay t k)
    then have "kill_cached_threads (tc s) = 0"
      using park_begin_cases [OF ok, of sz Stay k] by (auto split: list.splits if_splits)
    then show ?thesis using park_stay one kill by (intro flush_invI) (auto simp: pc_sets split: if_splits)
  next
    case (park_leave t x k)
    then show ?thesis using one wait by (intro flush_invI) auto
  next
    case (wake_stay t w timed_out k)
    then have "kill_cached_threads (tc s) = 0"
      using park_wake_cases [OF ok, of timed_out Stay k] by (auto split: list.splits if_splits)
    then show ?thesis using wake_stay one kill by (intro flush_invI) (auto simp: pc_sets split: if_splits)
  next
    case (wake_leave t w timed_out x flushed k)
    then have "flushed \<longleftrightarrow> kill_cached_threads (tc s) \<noteq> 0"
      using park_wake_cases [OF ok, of timed_out "Leave x flushed" k] by (auto split: list.splits if_splits)
    then show ?thesis using wake_leave one wait kill by (intro flush_invI) (auto simp: pc_sets split: if_splits)
  next
    case (signal_flush t u)
    then show ?thesis using one wait by (intro flush_invI) (fastforce simp: pc_sets split: if_splits)+
  next
    case (signal_no_flush t)
    then show ?thesis using one wait by (intro flush_invI) (auto simp: pc_sets split: if_splits)
  next
    case (flush t)
    then have "\<And>u. u < n \<Longrightarrow> \<not> is_flushing (pcs s u)" by (auto simp: flushers_def)
    with flush show ?thesis using counted [OF inv] wait
      by (intro flush_invI) (auto simp: after_test_def flush_begin_def flush_test_def pc_sets split: if_splits) 
  next
    case (flush_woken t)
    then show ?thesis using one wait counted [OF inv]
     by (intro flush_invI) (auto simp: after_test_def flush_test_def pc_sets split: if_splits)
  next
    case (final_flush t)
    then show ?thesis using one wait by (intro flush_invI) auto
  qed
qed

lemma reach_flush_inv: "reach n sz False s \<Longrightarrow> n + 2 < 2 ^ 32 \<Longrightarrow> flush_inv n s"
proof (induction rule: reach.induct)
  case start
  show ?case by (simp add: flush_inv_def start_def)
next
  case (step s s')
  then show ?case using reach_tc_inv step_flush_inv by blast
qed

definition flush_left :: "nat \<Rightarrow> sys \<Rightarrow> nat \<Rightarrow> nat" where
  "flush_left n s t = 2 * (2 * card (parked n s) + card (signallers n s)) + (if pcs s t = FlushWait True then 1 else 0)"

lemma flush_progress:
  assumes r: "reach n sz False s" and n: "n + 2 < 2 ^ 32" and t: "t < n" "is_flushing (pcs s t)"
  shows "\<exists>s'. step n sz False s s' \<and>
    (pcs s' t = Idle \<and> cached_thread_count (tc s') = 0 \<or> is_flushing (pcs s' t) \<and> flush_left n s' t < flush_left n s t)"
proof -
  obtain q where inv: "tc_inv n sz s q" using reach_tc_inv [OF r n] by blast
  have ok: "ilist_ok (conn_list (tc s)) 0 q" using inv by (simp add: tc_inv_def)
  consider "pcs s t = FlushWait True"
    | u where "pcs s t = FlushWait False" "u < n" "pcs s u = SignalFlush"
    | u where "pcs s t = FlushWait False" "u < n" "pcs s u = Parked True"
  proof (cases "pcs s t = FlushWait True")
    case False
    then have w: "pcs s t = FlushWait False" using t(2) by (cases "pcs s t") auto
    moreover from this have "woken n s \<noteq> {} \<or> signallers n s \<noteq> {}" using reach_flush_inv [OF r n] t(1) by (fastforce simp: flush_inv_def)
    ultimately show ?thesis using that(2,3) by (auto simp: woken_def signallers_def)
  qed
  then show ?thesis
  proof cases
    case 1
    let ?s = "after_test t (flush_test (tc s)) s"
    have "step n sz False s ?s" using t(1) 1 by (rule step.flush_woken)
    moreover have "pcs ?s t = Idle \<and> cached_thread_count (tc ?s) = 0 \<or> is_flushing (pcs ?s t) \<and> flush_left n ?s t < flush_left n s t"
      using 1 t by (simp add: after_test_def flush_test_def flush_left_def pc_sets)
    ultimately show ?thesis by blast
  next
    case 2
    have "step n sz False s (set_pc t (FlushWait True) (set_pc u Idle s))" using 2(2,3) t(1) 2(1) by (rule step.signal_flush)
    moreover have "0 < card (signallers n s)" using 2 by (intro members_pos [of u]) (simp_all add: pc_sets)
    ultimately show ?thesis using 2 t by (intro exI conjI disjI2) (auto simp: flush_left_def pc_sets)
  next
    case 3
    obtain x k where "park_wake False (tc s) = Some (Leave x True, k)" using park_wake_killed [OF ok killed [OF inv t]] by blast
    then have "step n sz False s (serve x (set_pc u SignalFlush (s\<lparr>tc := k\<rparr>)))"
      using step.wake_leave [of u n s True False x True k sz False] 3 by simp
    moreover have "0 < card (parked n s)" using 3 by (intro members_pos [of u]) (simp_all add: pc_sets)
    ultimately show ?thesis using 3 t by (intro exI conjI disjI2) (auto simp: flush_left_def pc_sets)
  qed
qed

text \<open>C2: a flush that does not overlap another one always can be completed: from every reachable state in which \<open>flush\<close> waits, steps of the threads that are
  parked or about to signal lead to a state where it has returned, and the cache is then empty.\<close>

theorem flush_completes:
  assumes "reach n sz False s" "n + 2 < 2 ^ 32" "t < n" "is_flushing (pcs s t)"
  shows "\<exists>s'. (step n sz False)\<^sup>*\<^sup>* s s' \<and> pcs s' t = Idle \<and> cached_thread_count (tc s') = 0"
  using assms(1,4)
proof (induction "flush_left n s t" arbitrary: s rule: less_induct)
  case less
  obtain s' where s': "step n sz False s s'"
    "pcs s' t = Idle \<and> cached_thread_count (tc s') = 0 \<or> is_flushing (pcs s' t) \<and> flush_left n s' t < flush_left n s t"
    using flush_progress [OF less.prems(1) assms(2,3) less.prems(2)] by blast
  have "\<exists>s''. (step n sz False)\<^sup>*\<^sup>* s' s'' \<and> pcs s'' t = Idle \<and> cached_thread_count (tc s'') = 0"
    using s'(2) less.hyps reach.step [OF less.prems(1) s'(1)] by blast
  then show ?case using s'(1) by (blast intro: converse_rtranclp_into_rtranclp)
qed

section \<open>Overlapping flushes\<close>

definition stuck :: "nat \<Rightarrow> nat \<Rightarrow> sys \<Rightarrow> bool" where
  "stuck n t s \<longleftrightarrow> parked n s = {} \<and> signallers n s = {} \<and> pcs s t = FlushWait False"

lemma step_stuck:
  assumes st: "step n sz conc s s'" and inv: "tc_inv n sz s q" and stuck: "stuck n t s" and t: "t < n"
  shows "stuck n t s'"
proof -
  have p: "parked n s = {}" "signallers n s = {}" "pcs s t = FlushWait False" using stuck by (simp_all add: stuck_def)
  have ok: "ilist_ok (conn_list (tc s)) 0 q" and c: "cached_thread_count (tc s) = 0" using inv p by (auto simp: tc_inv_def unat_eq_zero)
  have kill: "kill_cached_threads (tc s) \<noteq> 0" using killed [OF inv t] p by simp
  have none: "u < n \<Longrightarrow> \<not> is_parked (pcs s u) \<and> pcs s u \<noteq> SignalFlush" for u using p(1,2) member_sets(1,3) [of u n s] by auto
  show ?thesis
    using st
  proof cases
    case (park_stay u k)
    then show ?thesis using park_begin_cases [OF ok, of sz Stay k] kill by (auto split: list.splits)
  next
    case (flush u)
    then show ?thesis using p c t by (auto simp: stuck_def after_test_def flush_begin_def flush_test_def pc_sets)
  next
    case (flush_woken u)
    then show ?thesis using p c t by (auto simp: stuck_def after_test_def flush_test_def pc_sets)
  qed (use p t none in \<open>auto simp: stuck_def pc_sets dest!: none\<close>)
qed

lemma run_stuck:
  assumes "(step n sz conc)\<^sup>*\<^sup>* s s'" "reach n sz conc s" "stuck n t s" "t < n" "n + 2 < 2 ^ 32"
  shows "reach n sz conc s' \<and> stuck n t s'"
  using assms(1)
proof (induction rule: rtranclp_induct)
  case base
  show ?case using assms by simp
next
  case (step y z)
  then show ?case using step_stuck reach_tc_inv reach.step assms(4,5) by metis
qed

text \<open>The run: thread 0 parks, threads 1 and 2 flush, thread 0 leaves the cache and signals thread 1, which returns.\<close>

definition run_parked :: sys where
  "run_parked = set_pc 0 (Parked False) (start\<lparr>tc := (tc start)\<lparr>cached_thread_count := 1\<rparr>\<rparr>)"

definition run_flush :: sys where
  "run_flush = after_test 1 (flush_begin (tc run_parked)) run_parked"

definition run_two :: sys where
  "run_two = after_test 2 (flush_begin (tc run_flush)) run_flush"

definition run_left :: sys where
  "run_left = set_pc 0 SignalFlush (run_two\<lparr>tc := (tc run_two)\<lparr>cached_thread_count := 0\<rparr>\<rparr>)"

definition run_signalled :: sys where
  "run_signalled = set_pc 1 (FlushWait True) (set_pc 0 Idle run_left)"

definition run_one :: sys where
  "run_one = after_test 1 (flush_test (tc run_signalled)) run_signalled"

lemma start_queue: "il_get 0 (conn_list (tc start)) = Some (None, conn_list (tc start))"
  using start_tc_inv [of 0 0] by (intro il_get_empty) (simp add: tc_inv_def)

lemma run_fields:
  "pcs start = (\<lambda>_. Idle)" "cached_thread_count (tc start) = 0" "kill_cached_threads (tc start) = 0"
  by (simp_all add: start_def tc_init_def)

lemmas run_defs = run_parked_def run_flush_def run_two_def run_left_def run_signalled_def run_one_def after_test_def flush_begin_def flush_test_def broadcast_def run_fields

lemma reach_parked: "0 < n \<Longrightarrow> 0 < sz \<Longrightarrow> reach n sz conc run_parked"
  unfolding run_parked_def
  by (rule reach.step [OF reach.start step.park_stay]) (simp_all add: park_begin_def start_queue run_fields)

lemma reach_flush: "1 < n \<Longrightarrow> 0 < sz \<Longrightarrow> reach n sz conc run_flush"
  unfolding run_flush_def
  by (rule reach.step [OF reach_parked step.flush]) (simp_all add: run_parked_def run_fields flushers_def)

lemma reach_two: "2 < n \<Longrightarrow> 0 < sz \<Longrightarrow> reach n sz True run_two"
  unfolding run_two_def
  by (rule reach.step [OF reach_flush step.flush]) (simp_all add: run_defs)

lemma reach_left: "2 < n \<Longrightarrow> 0 < sz \<Longrightarrow> reach n sz True run_left"
  using reach.step [OF reach_two step.wake_leave [of 0 n run_two True False None True]]
  by (simp add: run_left_def) (simp add: run_defs park_wake_def start_queue)

lemma reach_signalled: "2 < n \<Longrightarrow> 0 < sz \<Longrightarrow> reach n sz True run_signalled"
  unfolding run_signalled_def
  by (rule reach.step [OF reach_left step.signal_flush]) (simp_all add: run_defs)

lemma reach_one: "2 < n \<Longrightarrow> 0 < sz \<Longrightarrow> reach n sz True run_one"
  unfolding run_one_def
  by (rule reach.step [OF reach_signalled step.flush_woken]) (simp_all add: run_defs)

lemma run_one_stuck: "stuck n 2 run_one"
  by (simp add: stuck_def run_defs parked_def signallers_def)

text \<open>C39: when two flushes overlap, the signal of the last thread that leaves the cache ends only one of them. There is a reachable state in which the cache is
  empty and the other \<open>flush\<close> waits, and it still waits after any further steps of all threads.\<close>

theorem overlapping_flush_waits_forever:
  assumes "2 < n" "n + 2 < 2 ^ 32" "0 < sz"
  shows "\<exists>s. reach n sz True s \<and> cached_thread_count (tc s) = 0 \<and> (\<forall>s'. (step n sz True)\<^sup>*\<^sup>* s s' \<longrightarrow> pcs s' 2 = FlushWait False)"
proof (intro exI conjI allI impI)
  show "reach n sz True run_one" using reach_one assms by simp
  show "cached_thread_count (tc run_one) = 0" by (simp add: run_defs)
  show "pcs s' 2 = FlushWait False" if "(step n sz True)\<^sup>*\<^sup>* run_one s'" for s'
    using run_stuck [OF that reach_one run_one_stuck] assms by (simp add: stuck_def)
qed

theorem overlapping_flush_waits_forever_witness:
  "\<exists>s. reach 3 8 True s \<and> cached_thread_count (tc s) = 0 \<and> (\<forall>s'. (step 3 8 True)\<^sup>*\<^sup>* s s' \<longrightarrow> pcs s' 2 = FlushWait False)"
  by (rule overlapping_flush_waits_forever) simp_all

theorem flush_completes_witness: "\<exists>s'. (step 3 8 False)\<^sup>*\<^sup>* run_flush s' \<and> pcs s' 1 = Idle \<and> cached_thread_count (tc s') = 0"
  by (rule flush_completes) (simp_all add: reach_flush, simp add: run_defs)

text \<open>C1: in every reachable state, whatever the interleaving and with any number of overlapping flushes: the requests leave the queue in the order in which they came and none is lost
  or served twice; the parked threads are the counted ones plus one for each queued request, so a queued request always has a thread; they are at most
  \<open>thread_cache_size\<close>; a woken thread or a pending signal exists for every queued request; and \<open>kill_cached_threads\<close> is the number of waiting flushes, plus one after
  \<open>final_flush\<close>.\<close>

theorem thread_cache_invariant:
  assumes "reach n sz conc s" "n + 2 < 2 ^ 32"
  shows "\<exists>q. ilist_ok (conn_list (tc s)) 0 q \<and> arrived s = served s @ q \<and> card (parked n s) = unat (cached_thread_count (tc s)) + length q \<and>
    card (parked n s) \<le> unat sz \<and> length q \<le> card (woken n s) + card (notifiers n s) \<and>
    unat (kill_cached_threads (tc s)) = card (flushers n s) + (if final_done s then 1 else 0)"
  using reach_tc_inv [OF assms] by (simp add: tc_inv_def)

theorem thread_cache_invariant_witness:
  "\<exists>q. ilist_ok (conn_list (tc run_two)) 0 q \<and> card (parked 3 run_two) = unat (cached_thread_count (tc run_two)) + length q \<and>
    unat (kill_cached_threads (tc run_two)) = card (flushers 3 run_two) + (if final_done run_two then 1 else 0)"
proof -
  have "reach 3 8 True run_two" by (rule reach_two) simp_all
  from thread_cache_invariant [OF this] show ?thesis by auto
qed

end
