(* ===== verification/Hash_Filo.thy ===== *)
theory Hash_Filo imports Prelude "HOL-Library.Monad_Syntax" begin

text \<open>
  \<open>private/hash_filo.h\<close>: a hash of bounded size whose elements are also chained in the order of their last use; a full hash gives up the element
  at the end of the chain. The pointers \<open>next_used\<close> and \<open>prev_used\<close> of the elements are a store indexed by the element's address. The hash itself
  (\<open>mysys/hash.c\<close>, declared in \<open>hash.h\<close>) is a parameter, a record of its operations, and \<open>hash_contract\<close> is what the class relies on. A null pointer
  that is dereferenced is \<open>None\<close>, and so is locking a mutex before it is initialised. The functions that lock the mutex run as a whole under it.
\<close>

section \<open>An interface of caches ordered by use\<close>

fun add_all :: "('s \<Rightarrow> nat \<Rightarrow> (bool \<times> 's) option) \<Rightarrow> 's \<Rightarrow> nat list \<Rightarrow> 's option" where
  "add_all add s [] = Some s"
| "add_all add s (e # es) = (case add s e of Some (False, s') \<Rightarrow> add_all add s' es | _ \<Rightarrow> None)"

locale lru_cache =
  fixes inv :: "'s \<Rightarrow> nat list \<Rightarrow> bool" and cap :: "'s \<Rightarrow> nat" and search :: "'s \<Rightarrow> 'k \<Rightarrow> (nat option \<times> 's) option"
    and add :: "'s \<Rightarrow> nat \<Rightarrow> (bool \<times> 's) option" and key :: "nat \<Rightarrow> 'k"
  assumes search_total: "inv s xs \<Longrightarrow> \<exists>r s'. search s k = Some (r, s')"
    and search_hit: "inv s xs \<Longrightarrow> search s k = Some (Some e, s') \<Longrightarrow> e \<in> set xs \<and> key e = k \<and> inv s' (e # remove1 e xs) \<and> cap s' = cap s"
    and search_miss: "inv s xs \<Longrightarrow> search s k = Some (None, s') \<Longrightarrow> s' = s \<and> (\<forall>e \<in> set xs. key e \<noteq> k)"
    and add_done: "inv s xs \<Longrightarrow> e \<notin> set xs \<Longrightarrow> add s e = Some (False, s') \<Longrightarrow> inv s' (take (cap s) (e # xs)) \<and> cap s' = cap s"
begin

lemma add_all_keeps:
  "inv s xs \<Longrightarrow> distinct es \<Longrightarrow> set es \<inter> set xs = {} \<Longrightarrow> add_all add s es = Some s' \<Longrightarrow> inv s' (take (cap s) (rev es @ xs)) \<or> es = [] \<and> s' = s"
proof (induction es arbitrary: s xs)
  case (Cons e es)
  then obtain s1 where s1: "add s e = Some (False, s1)" "add_all add s1 es = Some s'" by (auto split: option.splits prod.splits bool.splits)
  then have a: "inv s1 (take (cap s) (e # xs))" "cap s1 = cap s" using add_done Cons.prems by auto
  have "set es \<inter> set (take (cap s) (e # xs)) = {}" using Cons.prems set_take_subset [of "cap s" "e # xs"] by auto
  then have "inv s' (take (cap s) (rev es @ take (cap s) (e # xs))) \<or> es = [] \<and> s' = s1" using Cons.IH [OF a(1)] Cons.prems s1 a(2) by auto
  then show ?case using a(1) by (auto simp: min_def)
qed simp

lemma recent_found:
  assumes "inv s xs" "search s k = Some (Some e, s1)" "distinct es" "set es \<inter> set xs = {}" "length es < cap s" "add_all add s1 es = Some s2"
  shows "\<exists>e' s3. search s2 k = Some (Some e', s3) \<and> key e' = k"
proof -
  let ?ys = "e # remove1 e xs"
  have s1: "e \<in> set xs" "key e = k" "inv s1 ?ys" "cap s1 = cap s" using search_hit [OF assms(1,2)] by auto
  have "set es \<inter> set ?ys = {}" using assms(4) s1(1) set_remove1_subset [of e xs] by auto
  from add_all_keeps [OF s1(3) assms(3) this assms(6)]
  have "inv s2 (take (cap s1) (rev es @ ?ys)) \<or> inv s2 ?ys" using s1(3) by auto
  moreover have "e \<in> set (take (cap s1) (rev es @ ?ys))" using assms(5) s1(4) by (cases "cap s - length es") auto
  ultimately obtain zs where zs: "inv s2 zs" "e \<in> set zs" by auto
  obtain r s3 where r: "search s2 k = Some (r, s3)" using search_total [OF zs(1)] by blast
  then show ?thesis using search_miss [OF zs(1)] search_hit [OF zs(1)] zs(2) s1(2) by (cases r) auto
qed

end

section \<open>hash_filo\<close>

record hash_filo_element =
  next_used :: "nat option"
  prev_used :: "nat option"

type_synonym used_chain = "nat \<Rightarrow> hash_filo_element"

record ('h, 'k) hash_ops =
  my_hash_search :: "'h \<Rightarrow> 'k \<Rightarrow> nat option"
  my_hash_insert :: "'h \<Rightarrow> nat \<Rightarrow> bool \<times> 'h"
  my_hash_delete :: "'h \<Rightarrow> nat \<Rightarrow> 'h"
  my_hash_free :: "'h \<Rightarrow> 'h"
  my_hash_init :: "'h \<Rightarrow> uint \<Rightarrow> 'h"
  records :: "'h \<Rightarrow> ulong"

record 'h hash_filo =
  m_size :: uint
  init :: bool
  first_link :: "nat option"
  last_link :: "nat option"
  cache :: 'h

type_synonym 'h filo_state = "'h hash_filo \<times> used_chain"

definition set_next_used :: "nat \<Rightarrow> nat option \<Rightarrow> used_chain \<Rightarrow> used_chain" where
  "set_next_used a v u = u(a := (u a)\<lparr>next_used := v\<rparr>)"

definition set_prev_used :: "nat \<Rightarrow> nat option \<Rightarrow> used_chain \<Rightarrow> used_chain" where
  "set_prev_used a v u = u(a := (u a)\<lparr>prev_used := v\<rparr>)"

definition hf_init :: "'h \<Rightarrow> uint \<Rightarrow> 'h hash_filo" where
  "hf_init zero size_arg = \<lparr>m_size = size_arg, init = False, first_link = None, last_link = None, cache = zero\<rparr>"

definition hf_clear :: "('h, 'k) hash_ops \<Rightarrow> 'h hash_filo \<Rightarrow> 'h hash_filo" where
  "hf_clear ops f = f\<lparr>init := True, first_link := None, last_link := None, cache := my_hash_init ops (my_hash_free ops (cache f)) (m_size f)\<rparr>"

definition hf_first :: "'h hash_filo \<Rightarrow> nat option" where
  "hf_first f = first_link f"

definition hf_last :: "'h hash_filo \<Rightarrow> nat option" where
  "hf_last f = last_link f"

text \<open>Taking a found entry that is not the first one out of the chain.\<close>

definition hf_unlink :: "nat \<Rightarrow> 'h filo_state \<Rightarrow> 'h filo_state option" where
  "hf_unlink entry = (\<lambda>(f, u).
     if last_link f = Some entry
     then do { l \<leftarrow> prev_used (u entry);
               Some (f\<lparr>last_link := Some l\<rparr>, set_next_used l None u) }
     else do { nx \<leftarrow> next_used (u entry);
               let u1 = set_prev_used nx (prev_used (u entry)) u;
               pv \<leftarrow> prev_used (u1 entry);
               Some (f, set_next_used pv (next_used (u1 entry)) u1) })"

definition hf_search :: "('h, 'k) hash_ops \<Rightarrow> 'h filo_state \<Rightarrow> 'k \<Rightarrow> (nat option \<times> 'h filo_state) option" where
  "hf_search ops = (\<lambda>(f, u) key.
     case my_hash_search ops (cache f) key of
       None \<Rightarrow> Some (None, f, u)
     | Some entry \<Rightarrow>
         if first_link f = Some entry then Some (Some entry, f, u)
         else do { (f1, u1) \<leftarrow> hf_unlink entry (f, u);
                   let u2 = set_next_used entry (first_link f1) (set_prev_used entry None u1);
                   first \<leftarrow> first_link f1;
                   Some (Some entry, f1\<lparr>first_link := Some entry\<rparr>, set_prev_used first (Some entry) u2) })"

text \<open>The first part of \<open>add\<close>: a full hash loses the element at the end of the chain.\<close>

definition hf_evict :: "('h, 'k) hash_ops \<Rightarrow> 'h filo_state \<Rightarrow> 'h filo_state option" where
  "hf_evict ops = (\<lambda>(f, u).
     if records ops (cache f) = m_size f
     then do { tmp \<leftarrow> last_link f;
               let l = prev_used (u tmp);
               let f1 = f\<lparr>last_link := l, cache := my_hash_delete ops (cache f) tmp\<rparr>;
               Some (case l of Some x \<Rightarrow> (f1, set_next_used x None u) | None \<Rightarrow> (f1\<lparr>first_link := None\<rparr>, u)) }
     else Some (f, u))"

definition hf_link_first :: "nat \<Rightarrow> 'h filo_state \<Rightarrow> 'h filo_state" where
  "hf_link_first entry = (\<lambda>(f, u).
     let u1 = set_next_used entry (first_link f) (set_prev_used entry None u) in
     case first_link f of
       Some x \<Rightarrow> (f\<lparr>first_link := Some entry\<rparr>, set_prev_used x (Some entry) u1)
     | None \<Rightarrow> (f\<lparr>last_link := Some entry, first_link := Some entry\<rparr>, u1))"

definition hf_add :: "('h, 'k) hash_ops \<Rightarrow> 'h filo_state \<Rightarrow> nat \<Rightarrow> (bool \<times> 'h filo_state) option" where
  "hf_add ops = (\<lambda>(f, u) entry.
     if m_size f = 0 then Some (True, f, u)
     else do { (f1, u1) \<leftarrow> hf_evict ops (f, u);
               let (err, c) = my_hash_insert ops (cache f1) entry;
               Some (if err then (True, f1\<lparr>cache := c\<rparr>, u1) else (False, hf_link_first entry (f1\<lparr>cache := c\<rparr>, u1))) })"

definition hf_size :: "'h hash_filo \<Rightarrow> uint" where
  "hf_size f = m_size f"

definition hf_resize :: "('h, 'k) hash_ops \<Rightarrow> 'h hash_filo \<Rightarrow> uint \<Rightarrow> 'h hash_filo option" where
  "hf_resize ops f new_size = (if init f then Some (hf_clear ops (f\<lparr>m_size := new_size\<rparr>)) else None)"

section \<open>Contract of the hash, and the invariant\<close>

text \<open>What the class relies on: \<open>content h\<close> are the elements of the hash \<open>h\<close> and \<open>key e\<close> is the key of an element.\<close>

definition hash_contract :: "('h, 'k) hash_ops \<Rightarrow> ('h \<Rightarrow> nat set) \<Rightarrow> (nat \<Rightarrow> 'k) \<Rightarrow> bool" where
  "hash_contract ops content key \<longleftrightarrow>
     (\<forall>h. finite (content h) \<and> unat (records ops h) = card (content h)) \<and>
     (\<forall>h k e. my_hash_search ops h k = Some e \<longrightarrow> e \<in> content h \<and> key e = k) \<and>
     (\<forall>h k. my_hash_search ops h k = None \<longrightarrow> (\<forall>e \<in> content h. key e \<noteq> k)) \<and>
     (\<forall>h e err h'. e \<notin> content h \<longrightarrow> my_hash_insert ops h e = (err, h') \<longrightarrow> content h' = (if err then content h else insert e (content h))) \<and>
     (\<forall>h e. e \<in> content h \<longrightarrow> content (my_hash_delete ops h e) = content h - {e}) \<and>
     (\<forall>h n. content (my_hash_init ops (my_hash_free ops h) n) = {})"

definition opt_hd :: "'a list \<Rightarrow> 'a option" where
  "opt_hd xs = (case xs of [] \<Rightarrow> None | x # _ \<Rightarrow> Some x)"

fun uchain :: "used_chain \<Rightarrow> nat option \<Rightarrow> nat list \<Rightarrow> nat option \<Rightarrow> bool" where
  "uchain u p [] q = True"
| "uchain u p (x # xs) q = (prev_used (u x) = p \<and> next_used (u x) = (if xs = [] then q else opt_hd xs) \<and> uchain u (Some x) xs q)"

definition links_ok :: "'h filo_state \<Rightarrow> nat list \<Rightarrow> bool" where
  "links_ok = (\<lambda>(f, u) xs. distinct xs \<and> uchain u None xs None \<and> first_link f = opt_hd xs \<and> last_link f = opt_hd (rev xs))"

definition filo_ok :: "('h \<Rightarrow> nat set) \<Rightarrow> 'h filo_state \<Rightarrow> nat list \<Rightarrow> bool" where
  "filo_ok content s xs \<longleftrightarrow> links_ok s xs \<and> content (cache (fst s)) = set xs \<and> length xs \<le> unat (m_size (fst s))"

lemma opt_hd_simps [simp]: "opt_hd [] = None" "opt_hd (x # xs) = Some x" "opt_hd xs = None \<longleftrightarrow> xs = []"
  by (cases xs; simp add: opt_hd_def)+

lemma opt_hd_append: "opt_hd (xs @ ys) = (if xs = [] then opt_hd ys else opt_hd xs)"
  by (cases xs) auto

lemma uchain_append:
  "uchain u p (xs @ ys) q \<longleftrightarrow> uchain u p xs (if ys = [] then q else opt_hd ys) \<and> uchain u (if xs = [] then p else opt_hd (rev xs)) ys q"
proof (induction xs arbitrary: p)
  case (Cons x xs)
  show ?case
    unfolding append_Cons uchain.simps(2) Cons.IH by (cases xs; cases ys) (simp_all add: opt_hd_append)
qed simp

lemma uchain_frame: "\<forall>x \<in> set xs. u' x = u x \<Longrightarrow> uchain u' p xs q = uchain u p xs q"
  by (induction xs arbitrary: p) simp_all

lemma used_simps [simp]:
  "next_used (set_next_used a v u b) = (if b = a then v else next_used (u b))" "prev_used (set_next_used a v u b) = prev_used (u b)"
  "prev_used (set_prev_used a v u b) = (if b = a then v else prev_used (u b))" "next_used (set_prev_used a v u b) = next_used (u b)"
  "b \<noteq> a \<Longrightarrow> set_next_used a v u b = u b" "b \<noteq> a \<Longrightarrow> set_prev_used a v u b = u b"
  by (simp_all add: set_next_used_def set_prev_used_def)

lemma uchain_other [simp]:
  "a \<notin> set xs \<Longrightarrow> uchain (set_next_used a v u) p xs q = uchain u p xs q" "a \<notin> set xs \<Longrightarrow> uchain (set_prev_used a v u) p xs q = uchain u p xs q"
  by (rule uchain_frame; metis used_simps(5,6))+

lemma rev_exhaust_hd: "xs \<noteq> [] \<Longrightarrow> opt_hd (rev xs) = Some (last xs)"
  by (cases xs rule: rev_cases) simp_all

lemma hf_link_first_ok:
  assumes "links_ok (f, u) xs" "e \<notin> set xs"
  shows "links_ok (hf_link_first e (f, u)) (e # xs)"
proof (cases xs)
  case Nil
  then show ?thesis using assms by (simp add: links_ok_def hf_link_first_def)
next
  case (Cons x ys)
  then show ?thesis using assms by (auto simp: links_ok_def hf_link_first_def opt_hd_append rev_exhaust_hd)
qed

lemma hf_unlink_ok:
  assumes "links_ok (f, u) (as @ e # bs)" "as \<noteq> []"
  shows "\<exists>f' u'. hf_unlink e (f, u) = Some (f', u') \<and> links_ok (f', u') (as @ bs) \<and> first_link f' = first_link f \<and> cache f' = cache f \<and> m_size f' = m_size f"
proof -
  obtain cs a where as: "as = cs @ [a]" using assms(2) by (cases as rule: rev_cases) auto
  show ?thesis
  proof (cases bs)
    case Nil
    then show ?thesis using assms(1) as by (auto simp: links_ok_def hf_unlink_def uchain_append opt_hd_append)
  next
    case (Cons b ds)
    then show ?thesis using assms(1) as by (auto simp: links_ok_def hf_unlink_def uchain_append opt_hd_append rev_exhaust_hd)
  qed
qed

lemma hash_contractD:
  assumes "hash_contract ops content key"
  shows contract_records: "unat (records ops h) = card (content h)"
    and contract_hit: "my_hash_search ops h k = Some e \<Longrightarrow> e \<in> content h \<and> key e = k"
    and contract_miss: "my_hash_search ops h k = None \<Longrightarrow> \<forall>e \<in> content h. key e \<noteq> k"
    and contract_insert: "e \<notin> content h \<Longrightarrow> my_hash_insert ops h e = (err, h') \<Longrightarrow> content h' = (if err then content h else insert e (content h))"
    and contract_delete: "e \<in> content h \<Longrightarrow> content (my_hash_delete ops h e) = content h - {e}"
    and contract_init: "content (my_hash_init ops (my_hash_free ops h) n) = {}"
  using assms by (simp_all add: hash_contract_def)

lemma hf_clear_ok: "hash_contract ops content key \<Longrightarrow> filo_ok content (hf_clear ops f, u) []"
  using contract_init [of ops content key "cache f" "m_size f"] by (simp add: filo_ok_def links_ok_def hf_clear_def)

lemma hf_search_miss:
  assumes "my_hash_search ops (cache f) k = None"
  shows "hf_search ops (f, u) k = Some (None, f, u)"
  using assms by (simp add: hf_search_def)

lemma hf_search_hit:
  assumes c: "hash_contract ops content key" and ok: "filo_ok content (f, u) xs" and e: "my_hash_search ops (cache f) k = Some e"
  shows "\<exists>f' u'. hf_search ops (f, u) k = Some (Some e, f', u') \<and> e \<in> set xs \<and> key e = k \<and> filo_ok content (f', u') (e # remove1 e xs) \<and> m_size f' = m_size f"
proof -
  have e': "e \<in> set xs" "key e = k" using contract_hit [OF c e] ok by (simp_all add: filo_ok_def)
  then obtain as bs where xs: "xs = as @ e # bs" "e \<notin> set as" by (metis split_list_first)
  have l: "links_ok (f, u) xs" and cs: "content (cache f) = set xs" "length xs \<le> unat (m_size f)" using ok by (simp_all add: filo_ok_def)
  have r: "remove1 e xs = as @ bs" using xs by (simp add: remove1_append)
  show ?thesis
  proof (cases as)
    case Nil
    then show ?thesis using l ok e e' xs r by (simp add: hf_search_def links_ok_def)
  next
    case (Cons a as')
    then obtain f1 u1 where 1: "hf_unlink e (f, u) = Some (f1, u1)" "links_ok (f1, u1) (as @ bs)" "first_link f1 = first_link f" "cache f1 = cache f" "m_size f1 = m_size f"
      using hf_unlink_ok [of f u as e bs] l xs by auto
    have fl: "first_link f = Some a" "a \<noteq> e" using l xs Cons by (auto simp: links_ok_def)
    have "hf_search ops (f, u) k = Some (Some e, hf_link_first e (f1, u1))"
      using e fl 1 by (simp add: hf_search_def hf_link_first_def)
    moreover have "links_ok (hf_link_first e (f1, u1)) (e # as @ bs)"
      using 1(2) l xs by (intro hf_link_first_ok) (auto simp: links_ok_def)
    moreover have "cache (fst (hf_link_first e (f1, u1))) = cache f" "m_size (fst (hf_link_first e (f1, u1))) = m_size f"
      using 1 fl by (simp_all add: hf_link_first_def)
    ultimately show ?thesis using e' r xs cs by (cases "hf_link_first e (f1, u1)") (auto simp: filo_ok_def)
  qed
qed

lemma hf_evict_ok:
  assumes c: "hash_contract ops content key" and ok: "filo_ok content (f, u) xs" and m: "m_size f \<noteq> 0"
  shows "\<exists>f' u'. hf_evict ops (f, u) = Some (f', u') \<and> links_ok (f', u') (take (unat (m_size f) - 1) xs) \<and>
    content (cache f') = set (take (unat (m_size f) - 1) xs) \<and> m_size f' = m_size f"
proof -
  have l: "links_ok (f, u) xs" and cs: "content (cache f) = set xs" "length xs \<le> unat (m_size f)" using ok by (simp_all add: filo_ok_def)
  have rec: "unat (records ops (cache f)) = length xs" using contract_records [OF c] cs l by (simp add: distinct_card links_ok_def)
  show ?thesis
  proof (cases "records ops (cache f) = m_size f")
    case False
    then have "length xs < unat (m_size f)" using rec cs(2) by (simp add: word_unat_eq_iff)
    then show ?thesis using False l cs by (simp add: hf_evict_def)
  next
    case True
    then have full: "length xs = unat (m_size f)" using rec by simp
    then obtain ys z where xs: "xs = ys @ [z]" using m by (cases xs rule: rev_cases) (auto simp: unat_eq_zero)
    have t: "take (unat (m_size f) - 1) xs = ys" using full xs by simp
    have d: "content (my_hash_delete ops (cache f) z) = set ys" using contract_delete [OF c, of z "cache f"] cs xs l by (auto simp: links_ok_def)
    show ?thesis unfolding t
      using True l d xs by (cases ys rule: rev_cases) (auto simp: hf_evict_def links_ok_def uchain_append opt_hd_append)
  qed
qed

lemma hf_add_cases:
  assumes c: "hash_contract ops content key" and ok: "filo_ok content (f, u) xs" and e: "e \<notin> set xs"
  shows "\<exists>err f' u'. hf_add ops (f, u) e = Some (err, f', u') \<and> m_size f' = m_size f \<and>
    (if err then filo_ok content (f', u') (take (unat (m_size f) - 1) xs) else filo_ok content (f', u') (take (unat (m_size f)) (e # xs)))"
proof (cases "m_size f = 0")
  case True
  then show ?thesis using ok by (intro exI [of _ True]) (auto simp: hf_add_def filo_ok_def)
next
  case False
  let ?ys = "take (unat (m_size f) - 1) xs"
  obtain f1 u1 where 1: "hf_evict ops (f, u) = Some (f1, u1)" "links_ok (f1, u1) ?ys" "content (cache f1) = set ?ys" "m_size f1 = m_size f"
    using hf_evict_ok [OF c ok False] by blast
  have ey: "e \<notin> set ?ys" using e by (meson in_set_takeD)
  obtain err h where i: "my_hash_insert ops (cache f1) e = (err, h)" by fastforce
  have h: "content h = (if err then set ?ys else insert e (set ?ys))" using contract_insert [OF c _ i] 1(3) ey by simp
  have l: "links_ok (f1\<lparr>cache := h\<rparr>, u1) ?ys" using 1(2) by (simp add: links_ok_def)
  have m: "0 < unat (m_size f)" using False by (simp add: unat_gt_0)
  have t: "take (unat (m_size f)) (e # xs) = e # ?ys" using m by (cases "unat (m_size f)") simp_all
  have s: "cache (fst (hf_link_first e (f1\<lparr>cache := h\<rparr>, u1))) = h" "m_size (fst (hf_link_first e (f1\<lparr>cache := h\<rparr>, u1))) = m_size f"
    using 1(4) by (simp_all add: hf_link_first_def Let_def split: option.split)
  show ?thesis
  proof (cases err)
    case True
    then show ?thesis using False 1 i h l by (intro exI [of _ True]) (auto simp: hf_add_def filo_ok_def)
  next
    case not: False
    obtain f2 u2 where 2: "hf_link_first e (f1\<lparr>cache := h\<rparr>, u1) = (f2, u2)" by fastforce
    have "hf_add ops (f, u) e = Some (False, f2, u2)" using False 1(1) i not 2 by (simp add: hf_add_def)
    moreover have "filo_ok content (f2, u2) (e # ?ys)" using hf_link_first_ok [OF l ey] s m h not 2 by (simp add: filo_ok_def)
    ultimately show ?thesis unfolding t using s(2) 2 by (intro exI [of _ False]) simp
  qed
qed

definition filo_inv :: "('h, 'k) hash_ops \<Rightarrow> ('h \<Rightarrow> nat set) \<Rightarrow> (nat \<Rightarrow> 'k) \<Rightarrow> 'h filo_state \<Rightarrow> nat list \<Rightarrow> bool" where
  "filo_inv ops content key s xs \<longleftrightarrow> hash_contract ops content key \<and> filo_ok content s xs"

interpretation filo: lru_cache "filo_inv ops content key" "\<lambda>s. unat (m_size (fst s))" "hf_search ops" "hf_add ops" key for ops content key
proof
  fix s xs k assume inv: "filo_inv ops content key s xs"
  obtain f u where s: "s = (f, u)" by fastforce
  have c: "hash_contract ops content key" and ok: "filo_ok content (f, u) xs" using inv s by (simp_all add: filo_inv_def)
  note hit = hf_search_hit [OF c ok]
  show "\<exists>r s'. hf_search ops s k = Some (r, s')"
    using hit [of k] hf_search_miss [of ops f k u] s by (cases "my_hash_search ops (cache f) k") auto
  show "e \<in> set xs \<and> key e = k \<and> filo_inv ops content key s' (e # remove1 e xs) \<and> unat (m_size (fst s')) = unat (m_size (fst s))"
    if "hf_search ops s k = Some (Some e, s')" for e s'
    using that hit [of k] hf_search_miss [of ops f k u] s c by (cases "my_hash_search ops (cache f) k") (auto simp: filo_inv_def)
  show "s' = s \<and> (\<forall>e \<in> set xs. key e \<noteq> k)" if "hf_search ops s k = Some (None, s')" for s'
    using that hit [of k] hf_search_miss [of ops f k u] contract_miss [OF c, of "cache f" k] ok s
    by (cases "my_hash_search ops (cache f) k") (auto simp: filo_ok_def)
  show "filo_inv ops content key s' (take (unat (m_size (fst s))) (e # xs)) \<and> unat (m_size (fst s')) = unat (m_size (fst s))"
    if "e \<notin> set xs" "hf_add ops s e = Some (False, s')" for e s'
    using hf_add_cases [OF c ok that(1)] that(2) s c by (auto simp: filo_inv_def)
qed

section \<open>Properties\<close>

text \<open>C5: \<open>search\<close> and \<open>add\<close> never follow a null pointer and implement a list in the order of last use: a search that finds an entry with the key moves it to the front
  and keeps the order of the others, a search without result means that no entry has the key and changes nothing, and \<open>add\<close> puts the new entry in front and keeps the first
  \<open>m_size\<close> entries; when it fails, which includes a size of 0, the chain is still intact and at most the oldest entry is gone.\<close>

theorem hash_filo_lru:
  assumes "hash_contract ops content key" "filo_ok content (f, u) xs"
  shows "(\<exists>r f' u'. hf_search ops (f, u) k = Some (r, f', u') \<and>
      (case r of None \<Rightarrow> f' = f \<and> u' = u \<and> k \<notin> key ` set xs | Some e \<Rightarrow> e \<in> set xs \<and> key e = k \<and> filo_ok content (f', u') (e # remove1 e xs))) \<and>
    (e \<notin> set xs \<longrightarrow> (\<exists>err f' u'. hf_add ops (f, u) e = Some (err, f', u') \<and> (m_size f = 0 \<longrightarrow> err) \<and>
      filo_ok content (f', u') (if err then take (unat (m_size f) - 1) xs else take (unat (m_size f)) (e # xs))))"
proof (intro conjI impI)
  have inv: "filo_inv ops content key (f, u) xs" using assms by (simp add: filo_inv_def)
  obtain r f' u' where r: "hf_search ops (f, u) k = Some (r, f', u')" using filo.search_total [OF inv, of k] by auto
  show "\<exists>r f' u'. hf_search ops (f, u) k = Some (r, f', u') \<and>
      (case r of None \<Rightarrow> f' = f \<and> u' = u \<and> k \<notin> key ` set xs | Some e \<Rightarrow> e \<in> set xs \<and> key e = k \<and> filo_ok content (f', u') (e # remove1 e xs))"
    using r filo.search_miss [OF inv, of k "(f', u')"] filo.search_hit [OF inv, of k _ "(f', u')"] by (cases r) (auto simp: filo_inv_def)
  assume e: "e \<notin> set xs"
  obtain err f' u' where a: "hf_add ops (f, u) e = Some (err, f', u')"
    "if err then filo_ok content (f', u') (take (unat (m_size f) - 1) xs) else filo_ok content (f', u') (take (unat (m_size f)) (e # xs))"
    using hf_add_cases [OF assms e] by blast
  have "m_size f = 0 \<longrightarrow> err" using a(1) by (auto simp: hf_add_def)
  then show "\<exists>err f' u'. hf_add ops (f, u) e = Some (err, f', u') \<and> (m_size f = 0 \<longrightarrow> err) \<and>
      filo_ok content (f', u') (if err then take (unat (m_size f) - 1) xs else take (unat (m_size f)) (e # xs))"
    using a by (cases err) auto
qed

text \<open>an entry that was found is still in the cache after fewer than \<open>m_size\<close> further additions: searching its key again finds an entry with that key.\<close>

theorem hash_filo_keeps_recent:
  assumes "hash_contract ops content key" "filo_ok content s xs" "hf_search ops s k = Some (Some e, s1)"
    and "distinct es" "set es \<inter> set xs = {}" "length es < unat (m_size (fst s))" "add_all (hf_add ops) s1 es = Some s2"
  shows "\<exists>e' s3. hf_search ops s2 k = Some (Some e', s3) \<and> key e' = k"
  using assms by (intro filo.recent_found [of ops content key s xs k e s1 es s2]) (simp_all add: filo_inv_def)

text \<open>A hash with two places, whose keys are the elements themselves; insertion fails when both are taken.\<close>

definition pair_content :: "nat option \<times> nat option \<Rightarrow> nat set" where
  "pair_content h = set_option (fst h) \<union> set_option (snd h)"

definition pair_hash :: "(nat option \<times> nat option, nat) hash_ops" where
  "pair_hash = \<lparr>my_hash_search = (\<lambda>h k. if fst h = Some k \<or> snd h = Some k then Some k else None),
     my_hash_insert = (\<lambda>h e. if fst h = None then (False, (Some e, snd h)) else if snd h = None then (False, (fst h, Some e)) else (True, h)),
     my_hash_delete = (\<lambda>h e. (if fst h = Some e then None else fst h, if snd h = Some e then None else snd h)), my_hash_free = (\<lambda>h. (None, None)),
     my_hash_init = (\<lambda>h n. h), records = (\<lambda>h. if h = (None, None) then 0 else if fst h = snd h \<or> fst h = None \<or> snd h = None then 1 else 2)\<rparr>"

lemma pair_contract: "hash_contract pair_hash pair_content (\<lambda>e. e)"
  unfolding hash_contract_def
proof (intro conjI allI impI)
  fix h :: "nat option \<times> nat option"
  show "unat (records pair_hash h) = card (pair_content h)"
    by (cases h; cases "fst h"; cases "snd h") (auto simp: pair_hash_def pair_content_def)
qed (auto simp: pair_hash_def pair_content_def split: if_splits)

definition no_links :: used_chain where
  "no_links = (\<lambda>_. \<lparr>next_used = None, prev_used = None\<rparr>)"

definition pair_two :: "(nat option \<times> nat option) filo_state" where
  "pair_two = (\<lparr>m_size = 2, init = True, first_link = Some 7, last_link = Some 5, cache = (Some 5, Some 7)\<rparr>,
     no_links(5 := \<lparr>next_used = None, prev_used = Some 7\<rparr>, 7 := \<lparr>next_used = Some 5, prev_used = None\<rparr>))"

lemma pair_two_ok: "filo_ok pair_content pair_two [7, 5]"
  by (auto simp: filo_ok_def links_ok_def pair_two_def pair_content_def)

theorem hash_filo_lru_witness:
  "(\<exists>r f' u'. hf_search pair_hash pair_two 5 = Some (r, f', u')) \<and> (\<exists>err f' u'. hf_add pair_hash pair_two 9 = Some (err, f', u'))"
  using hash_filo_lru [OF pair_contract pair_two_ok [unfolded pair_two_def], of 5 9] by (auto simp: pair_two_def)

theorem hash_filo_keeps_recent_witness:
  "\<exists>s1 s2 e' s3. hf_search pair_hash pair_two 5 = Some (Some 5, s1) \<and> add_all (hf_add pair_hash) s1 [9] = Some s2 \<and> hf_search pair_hash s2 5 = Some (Some e', s3) \<and> e' = 5"
proof -
  obtain s1 where s1: "hf_search pair_hash pair_two 5 = Some (Some 5, s1)" 
    by (simp add: hf_search_def pair_two_def pair_hash_def hf_unlink_def)
  then obtain s2 where s2: "add_all (hf_add pair_hash) s1 [9] = Some s2"
    by (auto simp: hf_search_def pair_two_def pair_hash_def hf_unlink_def hf_add_def hf_evict_def hf_link_first_def Let_def)
  have "\<exists>e' s3. hf_search pair_hash s2 5 = Some (Some e', s3) \<and> e' = 5"
    by (rule hash_filo_keeps_recent [OF pair_contract pair_two_ok s1 _ _ _ s2]) (simp_all add: pair_two_def)
  then show ?thesis using s1 s2 by blast
qed

end
