(* ===== verification/Bounded_Queue.thy ===== *)
theory Bounded_Queue imports Prelude "HOL-Library.Multiset" "HOL-Library.Monad_Syntax" begin

text \<open>
  \<open>private/bounded_queue.h\<close> on the QUEUE structure and macros of \<open>private/queues.h\<close>: the queue that keeps the first rows of a sorted result.
  The key buffers behind \<open>m_sort_keys\<close> are a function from the slot number to the key, and an element of the QUEUE is the number of the slot it points to.
  The functions of \<open>mysys/queues.c\<close> that the headers only declare (\<open>init_queue\<close>, \<open>queue_insert\<close>, \<open>_downheap\<close>, \<open>queue_remove\<close>) are
  parameters; \<open>queue_contract\<close> states what a binary heap promises. \<open>le a b\<close> is the order in which the top is the last element: the compare function as it is
  when the biggest element is on top, turned round otherwise.
\<close>

section \<open>QUEUE\<close>

record QUEUE =
  root :: "nat list"
  elements :: uint
  max_elements :: uint

definition queue_top :: "QUEUE \<Rightarrow> nat option" where
  "queue_top q = (if 1 < length (root q) then Some (root q ! 1) else None)"

definition queue_is_full :: "QUEUE \<Rightarrow> bool" where
  "queue_is_full q \<longleftrightarrow> elements q = max_elements q"

record 'k queue_ops =
  init_queue :: "uint \<Rightarrow> bool \<Rightarrow> bool \<times> QUEUE"
  queue_insert :: "(nat \<Rightarrow> 'k) \<Rightarrow> QUEUE \<Rightarrow> nat \<Rightarrow> QUEUE"
  downheap :: "(nat \<Rightarrow> 'k) \<Rightarrow> QUEUE \<Rightarrow> uint \<Rightarrow> QUEUE"
  queue_remove :: "(nat \<Rightarrow> 'k) \<Rightarrow> QUEUE \<Rightarrow> uint \<Rightarrow> nat \<times> QUEUE"

definition queue_replace_top :: "'k queue_ops \<Rightarrow> (nat \<Rightarrow> 'k) \<Rightarrow> QUEUE \<Rightarrow> QUEUE" where
  "queue_replace_top ops sort_keys q = downheap ops sort_keys q 1"

section \<open>Bounded_queue\<close>

record ('e, 'k) Bounded_queue =
  m_sort_keys :: "nat \<Rightarrow> 'k"
  m_keymaker :: "'e \<Rightarrow> 'k"
  m_queue :: QUEUE

definition UINT_MAX :: "64 word" where
  "UINT_MAX = 4294967295"

text \<open>The result \<open>True\<close> is the error; on it the members are set and the queue is as \<open>init_queue\<close> left it.\<close>

definition bq_init :: "'k queue_ops \<Rightarrow> ('e, 'k) Bounded_queue \<Rightarrow> 64 word \<Rightarrow> bool \<Rightarrow> ('e \<Rightarrow> 'k) \<Rightarrow> (nat \<Rightarrow> 'k) \<Rightarrow> bool \<times> ('e, 'k) Bounded_queue" where
  "bq_init ops b max_elts max_at_top keymaker sort_keys =
     (let b1 = b\<lparr>m_sort_keys := sort_keys, m_keymaker := keymaker\<rparr> in
      if max_elts \<ge> UINT_MAX - 1 then (True, b1)
      else let (err, q) = init_queue ops (ucast max_elts + 1) max_at_top in (err, b1\<lparr>m_queue := q\<rparr>))"

definition bq_push :: "'k queue_ops \<Rightarrow> ('e, 'k) Bounded_queue \<Rightarrow> 'e \<Rightarrow> ('e, 'k) Bounded_queue option" where
  "bq_push ops b element =
     (if queue_is_full (m_queue b)
      then do { pq_top \<leftarrow> queue_top (m_queue b);
                let ks = (m_sort_keys b)(pq_top := m_keymaker b element);
                Some (b\<lparr>m_sort_keys := ks, m_queue := queue_replace_top ops ks (m_queue b)\<rparr>) }
      else let slot = unat (elements (m_queue b)); ks = (m_sort_keys b)(slot := m_keymaker b element) in
           Some (b\<lparr>m_sort_keys := ks, m_queue := queue_insert ops ks (m_queue b) slot\<rparr>))"

definition bq_pop :: "'k queue_ops \<Rightarrow> ('e, 'k) Bounded_queue \<Rightarrow> nat option \<times> ('e, 'k) Bounded_queue" where
  "bq_pop ops b =
     (let q = (if queue_is_full (m_queue b) then snd (queue_remove ops (m_sort_keys b) (m_queue b) 0) else m_queue b) in
      if elements q = 0 then (None, b\<lparr>m_queue := q\<rparr>)
      else let (r, q') = queue_remove ops (m_sort_keys b) q 0 in (Some r, b\<lparr>m_queue := q'\<rparr>))"

definition num_elements :: "('e, 'k) Bounded_queue \<Rightarrow> uint" where
  "num_elements b = elements (m_queue b)"

definition is_initialized :: "('e, 'k) Bounded_queue \<Rightarrow> bool" where
  "is_initialized b \<longleftrightarrow> max_elements (m_queue b) > 0"

fun push_all :: "'k queue_ops \<Rightarrow> ('e, 'k) Bounded_queue \<Rightarrow> 'e list \<Rightarrow> ('e, 'k) Bounded_queue option" where
  "push_all ops b [] = Some b"
| "push_all ops b (e # es) = do { b' \<leftarrow> bq_push ops b e; push_all ops b' es }"

section \<open>Contract of the heap functions\<close>

definition used :: "QUEUE \<Rightarrow> nat list" where
  "used q = take (unat (elements q)) (tl (root q))"

definition queue_wf :: "QUEUE \<Rightarrow> bool" where
  "queue_wf q \<longleftrightarrow> length (root q) = unat (max_elements q) + 1 \<and> unat (elements q) \<le> unat (max_elements q)"

text \<open>Heap order at the positions whose parent is \<open>j\<close> or later; positions count from 1, as in \<open>queues.h\<close>.\<close>

definition heap_from :: "('k \<Rightarrow> 'k \<Rightarrow> bool) \<Rightarrow> nat \<Rightarrow> 'k list \<Rightarrow> bool" where
  "heap_from le j ks \<longleftrightarrow> (\<forall>i. 2 \<le> i \<longrightarrow> i \<le> length ks \<longrightarrow> j \<le> i div 2 \<longrightarrow> le (ks ! (i - 1)) (ks ! (i div 2 - 1)))"

definition total_preorder :: "('k \<Rightarrow> 'k \<Rightarrow> bool) \<Rightarrow> bool" where
  "total_preorder le \<longleftrightarrow> (\<forall>a b. le a b \<or> le b a) \<and> (\<forall>a b c. le a b \<longrightarrow> le b c \<longrightarrow> le a c)"

definition queue_contract :: "'k queue_ops \<Rightarrow> ('k \<Rightarrow> 'k \<Rightarrow> bool) \<Rightarrow> bool" where
  "queue_contract ops le \<longleftrightarrow>
     (\<forall>n top q. init_queue ops n top = (False, q) \<longrightarrow> elements q = 0 \<and> max_elements q = n \<and> queue_wf q) \<and>
     (\<forall>ks q s. queue_wf q \<longrightarrow> elements q < max_elements q \<longrightarrow> heap_from le 1 (map ks (used q)) \<longrightarrow>
        (let q' = queue_insert ops ks q s in queue_wf q' \<and> max_elements q' = max_elements q \<and> elements q' = elements q + 1 \<and>
           mset (used q') = add_mset s (mset (used q)) \<and> heap_from le 1 (map ks (used q')))) \<and>
     (\<forall>ks q. queue_wf q \<longrightarrow> heap_from le 2 (map ks (used q)) \<longrightarrow>
        (let q' = downheap ops ks q 1 in queue_wf q' \<and> max_elements q' = max_elements q \<and> elements q' = elements q \<and>
           mset (used q') = mset (used q) \<and> heap_from le 1 (map ks (used q'))))"

lemma heap_top:
  assumes "heap_from le 1 ks" "total_preorder le" "i < length ks"
  shows "le (ks ! i) (ks ! 0)"
  using assms(3)
proof (induction i rule: less_induct)
  case (less i)
  show ?case
  proof (cases "i = 0")
    case True
    then show ?thesis using assms(2) by (auto simp: total_preorder_def)
  next
    case False
    let ?p = "(i + 1) div 2 - 1"
    have "le (ks ! i) (ks ! ?p)" using assms(1) [unfolded heap_from_def, rule_format, of "i + 1"] False less.prems by simp
    moreover have "le (ks ! ?p) (ks ! 0)" using less.IH [of ?p] less.prems False by simp
    ultimately show ?thesis using assms(2) unfolding total_preorder_def by blast
  qed
qed

lemma heap_top_all: "heap_from le 1 (t # ts) \<Longrightarrow> total_preorder le \<Longrightarrow> \<forall>k \<in> set ts. le k t"
  using heap_top [of le "t # ts"] by (metis in_set_conv_nth length_Cons Suc_less_eq nth_Cons_0 nth_Cons_Suc)

lemma heap_replace_top: "heap_from le 1 (t # ts) \<Longrightarrow> heap_from le 2 (x # ts)"
  unfolding heap_from_def
proof (intro allI impI)
  fix i assume h: "\<forall>i. 2 \<le> i \<longrightarrow> i \<le> length (t # ts) \<longrightarrow> 1 \<le> i div 2 \<longrightarrow> le ((t # ts) ! (i - 1)) ((t # ts) ! (i div 2 - 1))"
    and i: "2 \<le> i" "i \<le> length (x # ts)" "2 \<le> i div 2"
  have "le ((t # ts) ! (i - 1)) ((t # ts) ! (i div 2 - 1))" by (rule h [rule_format]) (use i in auto)
  moreover have "i - 1 \<noteq> 0" "i div 2 - 1 \<noteq> 0" using i by auto
  ultimately show "le ((x # ts) ! (i - 1)) ((x # ts) ! (i div 2 - 1))" by (simp add: nth_Cons')
qed

text \<open>Exchanging the top for a new key keeps the others below everything that was given up.\<close>

lemma below_step:
  assumes "total_preorder le" "mset (t # ts) = add_mset x (mset r)" "\<forall>k \<in> set ts. le k t" "\<forall>k \<in> set r. le k d"
  shows "\<forall>k \<in> set ts. le k d"
proof (cases "t \<in> set r")
  case True
  then show ?thesis using assms unfolding total_preorder_def by blast
next
  case False
  then have "t = x" using assms(2) by (metis insert_iff list.set_intros(1) set_mset_add_mset_insert set_mset_mset)
  then have "mset ts = mset r" using assms(2) by simp
  then show ?thesis using assms(4) by (metis set_mset_mset)
qed

definition bq_inv :: "('k \<Rightarrow> 'k \<Rightarrow> bool) \<Rightarrow> nat \<Rightarrow> ('e, 'k) Bounded_queue \<Rightarrow> 'k list \<Rightarrow> bool" where
  "bq_inv le n b pushed \<longleftrightarrow> (let q = m_queue b; hs = map (m_sort_keys b) (used q) in
     queue_wf q \<and> unat (max_elements q) = n + 1 \<and> unat (elements q) = min (n + 1) (length pushed) \<and> heap_from le 1 hs \<and>
     distinct (used q) \<and> set (used q) = {..<unat (elements q)} \<and>
     (\<exists>D. mset pushed = mset hs + D \<and> (length pushed \<le> n + 1 \<longrightarrow> D = {#}) \<and> (\<forall>k \<in> set (tl hs). \<forall>d \<in># D. le k d)))"

lemma bq_invI:
  assumes "queue_wf (m_queue b)" "unat (max_elements (m_queue b)) = n + 1" "unat (elements (m_queue b)) = min (n + 1) (length pushed)"
    and "heap_from le 1 (map (m_sort_keys b) (used (m_queue b)))" "distinct (used (m_queue b))" "set (used (m_queue b)) = {..<unat (elements (m_queue b))}"
    and "mset pushed = mset (map (m_sort_keys b) (used (m_queue b))) + D" "length pushed \<le> n + 1 \<longrightarrow> D = {#}"
    and "\<forall>k \<in> set (tl (map (m_sort_keys b) (used (m_queue b)))). \<forall>d \<in># D. le k d"
  shows "bq_inv le n b pushed"
  using assms unfolding bq_inv_def Let_def by blast

lemma queue_contractD:
  assumes "queue_contract ops le"
  shows contract_init_queue: "init_queue ops n mx = (False, q) \<Longrightarrow> elements q = 0 \<and> max_elements q = n \<and> queue_wf q"
    and contract_queue_insert: "queue_wf q \<Longrightarrow> elements q < max_elements q \<Longrightarrow> heap_from le 1 (map ks (used q)) \<Longrightarrow>
        queue_wf (queue_insert ops ks q s) \<and> max_elements (queue_insert ops ks q s) = max_elements q \<and> elements (queue_insert ops ks q s) = elements q + 1 \<and>
        mset (used (queue_insert ops ks q s)) = add_mset s (mset (used q)) \<and> heap_from le 1 (map ks (used (queue_insert ops ks q s)))"
    and contract_downheap: "queue_wf q \<Longrightarrow> heap_from le 2 (map ks (used q)) \<Longrightarrow>
        queue_wf (downheap ops ks q 1) \<and> max_elements (downheap ops ks q 1) = max_elements q \<and> elements (downheap ops ks q 1) = elements q \<and>
        mset (used (downheap ops ks q 1)) = mset (used q) \<and> heap_from le 1 (map ks (used (downheap ops ks q 1)))"
  using assms by (simp_all add: queue_contract_def Let_def)

lemma length_used: "queue_wf q \<Longrightarrow> length (used q) = unat (elements q)"
  by (simp add: queue_wf_def used_def)

lemma mset_distinct_set: "mset xs = mset ys \<Longrightarrow> distinct ys \<Longrightarrow> distinct xs \<and> set xs = set ys"
  by (metis mset_eq_setD mset_eq_imp_distinct_iff)

lemma bq_push_full:
  assumes c: "queue_contract ops le" "total_preorder le" and inv: "bq_inv le n b pushed" and full: "queue_is_full (m_queue b)"
  shows "\<exists>b'. bq_push ops b e = Some b' \<and> bq_inv le n b' (pushed @ [m_keymaker b e]) \<and> m_keymaker b' = m_keymaker b"
proof -
  let ?q = "m_queue b" and ?x = "m_keymaker b e"
  obtain D where q: "queue_wf ?q" "unat (max_elements ?q) = n + 1" "unat (elements ?q) = min (n + 1) (length pushed)"
      "heap_from le 1 (map (m_sort_keys b) (used ?q))" "distinct (used ?q)" "set (used ?q) = {..<unat (elements ?q)}"
    and D: "mset pushed = mset (map (m_sort_keys b) (used ?q)) + D" "\<forall>k \<in> set (tl (map (m_sort_keys b) (used ?q))). \<forall>d \<in># D. le k d"
    using inv unfolding bq_inv_def Let_def by blast
  have n: "unat (elements ?q) = n + 1" "n + 1 \<le> length pushed" using full q by (simp_all add: queue_is_full_def)
  obtain z t us where r: "root ?q = z # t # us" using q(1,2) by (cases "root ?q"; cases "tl (root ?q)") (auto simp: queue_wf_def)
  let ?us = "take n us" and ?ks = "(m_sort_keys b)(t := ?x)"
  have u: "used ?q = t # ?us" using r n by (simp add: used_def)
  have m: "map ?ks (used ?q) = ?x # map (m_sort_keys b) ?us" using q(5) u by auto
  let ?q' = "downheap ops ?ks ?q 1"
  have "heap_from le 2 (map ?ks (used ?q))" unfolding m using q(4) u heap_replace_top [of le "m_sort_keys b t"] by simp
  then have d: "queue_wf ?q'" "max_elements ?q' = max_elements ?q" "elements ?q' = elements ?q" "mset (used ?q') = mset (used ?q)" "heap_from le 1 (map ?ks (used ?q'))"
    using contract_downheap [OF c(1) q(1)] by blast+
  have push: "bq_push ops b e = Some (b\<lparr>m_sort_keys := ?ks, m_queue := ?q'\<rparr>)"
    using full r by (simp add: bq_push_def queue_top_def queue_replace_top_def Let_def)
  obtain t' ts where h: "map ?ks (used ?q') = t' # ts" using length_used [OF d(1)] d(3) n by (cases "map ?ks (used ?q')") auto
  have ms: "mset (t' # ts) = add_mset ?x (mset (map (m_sort_keys b) ?us))" using h m d(4) by (metis mset_map mset.simps(2))
  let ?D = "add_mset (m_sort_keys b t) D"
  have "\<forall>k \<in> set ts. le k d" if "d \<in># ?D" for d
  proof (rule below_step [OF c(2) ms])
    show "\<forall>k \<in> set ts. le k t'" using heap_top_all [of le t' ts] d(5) h c(2) by simp
    show "\<forall>k \<in> set (map (m_sort_keys b) ?us). le k d" using that heap_top_all [of le "m_sort_keys b t"] q(4) c(2) D(2) u by auto
  qed
  moreover have "mset (pushed @ [?x]) = mset (t' # ts) + ?D" using D(1) ms u by simp
  ultimately have "bq_inv le n (b\<lparr>m_sort_keys := ?ks, m_queue := ?q'\<rparr>) (pushed @ [?x])"
    using d q n h mset_distinct_set [OF d(4) q(5)] by (intro bq_invI [where D = ?D]) simp_all
  then show ?thesis using push by simp
qed

lemma bq_push_room:
  assumes c: "queue_contract ops le" and inv: "bq_inv le n b pushed" and room: "\<not> queue_is_full (m_queue b)"
  shows "\<exists>b'. bq_push ops b e = Some b' \<and> bq_inv le n b' (pushed @ [m_keymaker b e]) \<and> m_keymaker b' = m_keymaker b"
proof -
  let ?q = "m_queue b" and ?x = "m_keymaker b e"
  obtain D where q: "queue_wf ?q" "unat (max_elements ?q) = n + 1" "unat (elements ?q) = min (n + 1) (length pushed)"
      "heap_from le 1 (map (m_sort_keys b) (used ?q))" "distinct (used ?q)" "set (used ?q) = {..<unat (elements ?q)}"
    and D: "mset pushed = mset (map (m_sort_keys b) (used ?q)) + D" "length pushed \<le> n + 1 \<longrightarrow> D = {#}"
    using inv unfolding bq_inv_def Let_def by blast
  have lt: "unat (elements ?q) < n + 1" using room q(1,2) by (simp add: queue_is_full_def queue_wf_def word_unat_eq_iff)
  let ?s = "unat (elements ?q)" let ?ks = "(m_sort_keys b)(?s := ?x)"
  have m: "map ?ks (used ?q) = map (m_sort_keys b) (used ?q)" using q(6) by auto
  let ?q' = "queue_insert ops ?ks ?q ?s"
  have d: "queue_wf ?q'" "max_elements ?q' = max_elements ?q" "elements ?q' = elements ?q + 1" "mset (used ?q') = add_mset ?s (mset (used ?q))" "heap_from le 1 (map ?ks (used ?q'))"
    using contract_queue_insert [OF c q(1), of ?ks ?s] lt q(2,4) m by (auto simp: word_less_nat_alt)
  have push: "bq_push ops b e = Some (b\<lparr>m_sort_keys := ?ks, m_queue := ?q'\<rparr>)"
    using room by (simp add: bq_push_def Let_def)
  have e: "unat (elements ?q') = ?s + 1" using d(3) lt q(2) unat_Suc_below [of "elements ?q" "max_elements ?q"] by simp
  have "mset (used ?q') = mset (?s # used ?q)" using d(4) by simp
  from mset_distinct_set [OF this] have ds: "distinct (used ?q')" "set (used ?q') = insert ?s (set (used ?q))" using q(5,6) by simp_all
  have ms: "mset (map ?ks (used ?q')) = add_mset ?x (mset (map (m_sort_keys b) (used ?q)))"
    unfolding m [symmetric] unfolding mset_map d(4) by simp
  have "bq_inv le n (b\<lparr>m_sort_keys := ?ks, m_queue := ?q'\<rparr>) (pushed @ [?x])"
    using d q D lt ms ds e by (intro bq_invI [where D = "{#}"]) (simp_all add: lessThan_Suc)
  then show ?thesis using push by simp
qed

lemma push_all_inv:
  assumes c: "queue_contract ops le" "total_preorder le"
  shows "bq_inv le n b pushed \<Longrightarrow> \<exists>b'. push_all ops b es = Some b' \<and> bq_inv le n b' (pushed @ map (m_keymaker b) es)"
proof (induction es arbitrary: b pushed)
  case (Cons e es)
  obtain b' where b': "bq_push ops b e = Some b'" "bq_inv le n b' (pushed @ [m_keymaker b e])" "m_keymaker b' = m_keymaker b"
    using bq_push_full [OF c Cons.prems] bq_push_room [OF c(1) Cons.prems] by blast
  then show ?case using Cons.IH [OF b'(2)] by simp
qed simp

lemma bq_init_inv:
  assumes c: "queue_contract ops le" and i: "bq_init ops b0 n mx km keys = (False, b)"
  shows "bq_inv le (unat n) b [] \<and> m_keymaker b = km"
proof -
  have n: "n < UINT_MAX - 1" using i by (auto simp: bq_init_def Let_def not_le split: if_splits)
  then have le: "unat n < 4294967294" by (simp add: UINT_MAX_def word_less_nat_alt)
  then have u: "unat (ucast n :: uint) = unat n" by (simp add: unsigned_ucast_eq take_bit_nat_eq_self)
  then have s: "unat (ucast n + 1 :: uint) = unat n + 1" using le unat_Suc_word [of "ucast n :: uint"] by simp
  obtain q where q: "init_queue ops (ucast n + 1) mx = (False, q)" "b = b0\<lparr>m_sort_keys := keys, m_keymaker := km, m_queue := q\<rparr>"
    using i n [unfolded linorder_not_le [symmetric]] by (cases "init_queue ops (ucast n + 1) mx") (simp add: bq_init_def Let_def)
  have "elements q = 0" "max_elements q = ucast n + 1" "queue_wf q" using contract_init_queue [OF c q(1)] by simp_all
  then show ?thesis using q(2) s by (auto intro!: bq_invI [where D = "{#}"] simp: used_def heap_from_def)
qed

section \<open>Properties\<close>

text \<open>a queue for \<open>n\<close> elements keeps the first \<open>n\<close> keys of everything pushed: pushing never fails, and the kept keys (all of them while at most \<open>n\<close> were pushed, else all
  but the one on top, which is the place for the next push) are \<open>min n\<close> of the number of pushed ones and come before or equal to each key that was given up. The size \<open>n + 1\<close> handed to
  the heap does not wrap.\<close>

theorem bounded_queue_keeps_first:
  assumes "queue_contract ops le" "total_preorder le" "bq_init ops b0 n mx km keys = (False, b)"
  shows "\<exists>b' kept D. push_all ops b es = Some b' \<and>
     kept = (let hs = map (m_sort_keys b') (used (m_queue b')) in if length es \<le> unat n then hs else tl hs) \<and>
     mset (map km es) = mset kept + D \<and> length kept = min (unat n) (length es) \<and> (\<forall>k \<in> set kept. \<forall>d \<in># D. le k d)"
proof -
  have i: "bq_inv le (unat n) b []" "m_keymaker b = km" using bq_init_inv [OF assms(1,3)] by simp_all
  obtain b' where b': "push_all ops b es = Some b'" "bq_inv le (unat n) b' (map km es)" using push_all_inv [OF assms(1,2) i(1)] i(2) by auto
  let ?hs = "map (m_sort_keys b') (used (m_queue b'))"
  obtain D where h: "queue_wf (m_queue b')" "unat (elements (m_queue b')) = min (unat n + 1) (length es)" "heap_from le 1 ?hs"
    "mset (map km es) = mset ?hs + D" "length es \<le> unat n + 1 \<longrightarrow> D = {#}" "\<forall>k \<in> set (tl ?hs). \<forall>d \<in># D. le k d"
    using b'(2) unfolding bq_inv_def Let_def by auto
  have l: "length ?hs = min (unat n + 1) (length es)" using length_used [OF h(1)] h(2) by simp
  show ?thesis
  proof (cases "length es \<le> unat n")
    case True
    then show ?thesis using b'(1) h l by (intro exI [of _ b'] exI [of _ ?hs] exI [of _ "{#}"]) simp
  next
    case False
    then obtain t ts where t: "?hs = t # ts" using l by (cases ?hs) auto
    have "\<forall>k \<in> set ts. le k t" using heap_top_all assms(2) h(3) t by metis
    then show ?thesis using b'(1) h(4,6) l False t by (intro exI [of _ b'] exI [of _ ts] exI [of _ "add_mset t D"]) auto
  qed
qed

text \<open>Heap functions that keep the used part in falling order.\<close>

definition put_sorted :: "(nat \<Rightarrow> nat) \<Rightarrow> QUEUE \<Rightarrow> nat list \<Rightarrow> QUEUE" where
  "put_sorted ks q us = \<lparr>root = 0 # rev (sort_key ks us) @ replicate (unat (max_elements q) - length us) 0, elements = of_nat (length us), max_elements = max_elements q\<rparr>"

definition sorted_ops :: "nat queue_ops" where
  "sorted_ops = \<lparr>init_queue = (\<lambda>n top. (False, \<lparr>root = replicate (unat n + 1) 0, elements = 0, max_elements = n\<rparr>)),
     queue_insert = (\<lambda>ks q s. put_sorted ks q (s # used q)), downheap = (\<lambda>ks q i. put_sorted ks q (used q)),
     queue_remove = (\<lambda>ks q i. (root q ! 1, put_sorted ks q (tl (used q))))\<rparr>"

lemma sorted_rev_heap: "sorted (rev hs) \<Longrightarrow> heap_from (\<le>) 1 hs"
  unfolding heap_from_def by (auto intro!: sorted_rev_nth_mono)

lemma put_sorted_ok:
  assumes "length us \<le> unat (max_elements q)"
  shows "queue_wf (put_sorted ks q us) \<and> unat (elements (put_sorted ks q us)) = length us \<and> mset (used (put_sorted ks q us)) = mset us \<and>
    heap_from (\<le>) 1 (map ks (used (put_sorted ks q us)))"
proof -
  have b: "length us < 2 ^ 32" using assms unsigned_less [of "max_elements q", where ?'a = nat] by simp
  then have e: "unat (of_nat (length us) :: uint) = length us" by (simp add: unat_of_nat)
  then have u: "used (put_sorted ks q us) = rev (sort_key ks us)" by (simp add: used_def put_sorted_def)
  have "sorted (rev (map ks (rev (sort_key ks us))))" by (simp add: rev_map [symmetric])
  then have "heap_from (\<le>) 1 (map ks (rev (sort_key ks us)))" by (rule sorted_rev_heap)
  then show ?thesis using assms u e by (simp add: queue_wf_def put_sorted_def)
qed

lemma sorted_contract: "queue_contract sorted_ops (\<le>)"
  unfolding queue_contract_def
proof (intro conjI allI impI)
  fix n top q assume "init_queue sorted_ops n top = (False, q)"
  then show "elements q = 0" "max_elements q = n" "queue_wf q" by (auto simp: sorted_ops_def queue_wf_def)
next
  fix ks q s assume a: "queue_wf q" "elements q < max_elements q"
  then have "length (s # used q) \<le> unat (max_elements q)" "unat (elements q + 1) = length (s # used q)"
    using unat_Suc_below [of "elements q" "max_elements q"] by (simp_all add: length_used word_less_nat_alt)
  with put_sorted_ok [of "s # used q" q ks]
  show "let q' = queue_insert sorted_ops ks q s in queue_wf q' \<and> max_elements q' = max_elements q \<and> elements q' = elements q + 1 \<and>
       mset (used q') = add_mset s (mset (used q)) \<and> heap_from (\<le>) 1 (map ks (used q'))"
    by (simp add: sorted_ops_def word_unat_eq_iff) (simp add: put_sorted_def)
next
  fix ks q assume a: "queue_wf q"
  then have "length (used q) \<le> unat (max_elements q)" "unat (elements q) = length (used q)" by (simp_all add: length_used queue_wf_def)
  with put_sorted_ok [of "used q" q ks]
  show "let q' = downheap sorted_ops ks q 1 in queue_wf q' \<and> max_elements q' = max_elements q \<and> elements q' = elements q \<and>
       mset (used q') = mset (used q) \<and> heap_from (\<le>) 1 (map ks (used q'))"
    by (simp add: sorted_ops_def word_unat_eq_iff) (simp add: put_sorted_def)
qed

theorem bounded_queue_keeps_first_witness:
  "\<exists>b b' kept D. bq_init sorted_ops \<lparr>m_sort_keys = \<lambda>_. 0, m_keymaker = \<lambda>e. e, m_queue = \<lparr>root = [], elements = 0, max_elements = 0\<rparr>\<rparr> 2 True (\<lambda>e. e + 1) (\<lambda>_. 0) = (False, b) \<and>
     push_all sorted_ops b [5, 8, 3, 9 :: nat] = Some b' \<and> mset [6, 9, 4, 10 :: nat] = mset kept + D \<and> length kept = 2 \<and> (\<forall>k \<in> set kept. \<forall>d \<in># D. k \<le> d)"
proof -
  obtain b where b: "bq_init sorted_ops \<lparr>m_sort_keys = \<lambda>_. 0, m_keymaker = \<lambda>e. e, m_queue = \<lparr>root = [], elements = 0, max_elements = 0\<rparr>\<rparr> 2 True (\<lambda>e. e + 1) (\<lambda>_. 0) = (False, b)"
    by (simp add: bq_init_def sorted_ops_def UINT_MAX_def)
  show ?thesis
    using bounded_queue_keeps_first [OF sorted_contract _ b, of "[5, 8, 3, 9]"] b by (force simp: total_preorder_def)
qed

end
