(* ===== verification/Sql_Sequence.thy ===== *)
theory Sql_Sequence imports Sql_Type_Int "HOL-Library.Monad_Syntax" begin

text \<open>
  \<open>private/sql_sequence.h\<close>: the definition of a sequence and the step to its next value. Signed 64-bit arithmetic that overflows is undefined in the language; it is
  \<open>None\<close> here, and evaluation follows the order and the short cuts of the conditions. The functions that read and write the sequence table are only declared in the header.
\<close>

section \<open>sequence_definition\<close>

record sequence_definition =
  reserved_until :: longlong
  min_value :: longlong
  max_value :: longlong
  start :: longlong
  increment :: longlong
  cache :: longlong
  round :: ulonglong
  restart :: longlong
  cycle :: bool
  used_fields :: uint
  real_increment :: longlong
  next_free_value :: longlong

text \<open>The constructor leaves three members as they are.\<close>

definition sequence_definition_default :: "sequence_definition \<Rightarrow> sequence_definition" where
  "sequence_definition_default d = d\<lparr>min_value := 1, max_value := LONGLONG_MAX - 1, start := 1, increment := 1, cache := 1000, round := 0,
     restart := 0, cycle := False, used_fields := 0\<rparr>"

record SEQUENCE = sequence_definition +
  all_values_used :: bool

text \<open>\<open>copy\<close> assigns the definition and calls \<open>adjust_values\<close>, which the header only declares.\<close>

definition seq_copy :: "(longlong \<Rightarrow> SEQUENCE \<Rightarrow> SEQUENCE) \<Rightarrow> SEQUENCE \<Rightarrow> sequence_definition \<Rightarrow> SEQUENCE" where
  "seq_copy adjust_values s seq =
     (let s1 = sequence_definition.extend seq (SEQUENCE.fields (all_values_used s));
          s2 = adjust_values (reserved_until s1) s1 in s2\<lparr>all_values_used := False\<rparr>)"

definition add_ll :: "longlong \<Rightarrow> longlong \<Rightarrow> longlong option" where
  "add_ll a b = (if - (2 ^ 63) \<le> sint a + sint b \<and> sint a + sint b < 2 ^ 63 then Some (a + b) else None)"

definition sub_ll :: "longlong \<Rightarrow> longlong \<Rightarrow> longlong option" where
  "sub_ll a b = (if - (2 ^ 63) \<le> sint a - sint b \<and> sint a - sint b < 2 ^ 63 then Some (a - b) else None)"

definition increment_value :: "'a sequence_definition_scheme \<Rightarrow> longlong \<Rightarrow> longlong option" where
  "increment_value s value =
     (if 0 <s real_increment s
      then do { d \<leftarrow> sub_ll (max_value s) (real_increment s);
                over \<leftarrow> (if d <s value then Some True else do { v \<leftarrow> add_ll value (real_increment s); Some (max_value s <s v) });
                if over then add_ll (max_value s) 1 else add_ll value (real_increment s) }
      else do { v \<leftarrow> add_ll value (real_increment s);
                under \<leftarrow> (if v <s min_value s then Some True else do { d \<leftarrow> sub_ll (min_value s) (real_increment s); Some (value <s d) });
                if under then sub_ll (min_value s) 1 else add_ll value (real_increment s) })"

section \<open>Properties\<close>

lemma sint_ll_bounds: "- (2 ^ 63) \<le> sint (a :: longlong)" "sint a < 2 ^ 63"
  using sint_greater_eq [of a] sint_less [of a] by simp_all

lemma add_ll_Some: "- (2 ^ 63) \<le> sint a + sint b \<Longrightarrow> sint a + sint b < 2 ^ 63 \<Longrightarrow> add_ll a b = Some (a + b) \<and> sint (a + b) = sint a + sint b"
  by (simp add: add_ll_def sint_word_ariths signed_take_bit_int_eq_self)

lemma sub_ll_Some: "- (2 ^ 63) \<le> sint a - sint b \<Longrightarrow> sint a - sint b < 2 ^ 63 \<Longrightarrow> sub_ll a b = Some (a - b) \<and> sint (a - b) = sint a - sint b"
  by (simp add: sub_ll_def sint_word_ariths signed_take_bit_int_eq_self)

lemma ascending_step:
  assumes "sint (max_value s) < 2 ^ 63 - 1" "0 < sint (real_increment s)" "- (2 ^ 63) \<le> sint (max_value s) - sint (real_increment s)"
  shows "\<exists>r. increment_value s v = Some r \<and>
    sint r = (if sint v + sint (real_increment s) \<le> sint (max_value s) then sint v + sint (real_increment s) else sint (max_value s) + 1)"
proof -
  let ?i = "real_increment s" and ?m = "max_value s"
  note b = sint_ll_bounds [of v] sint_ll_bounds [of ?m]
  have d: "sub_ll ?m ?i = Some (?m - ?i)" "sint (?m - ?i) = sint ?m - sint ?i" using sub_ll_Some [of ?m ?i] assms b by simp_all
  have m: "add_ll ?m 1 = Some (?m + 1)" "sint (?m + 1) = sint ?m + 1" using add_ll_Some [of ?m 1] assms b by simp_all
  show ?thesis
  proof (cases "sint v + sint ?i \<le> sint ?m")
    case True
    then have "add_ll v ?i = Some (v + ?i)" "sint (v + ?i) = sint v + sint ?i" using add_ll_Some [of v ?i] assms b by simp_all
    then show ?thesis using True assms d by (simp add: increment_value_def word_sless_alt)
  next
    case False
    then show ?thesis using assms d m by (simp add: increment_value_def word_sless_alt)
  qed
qed

lemma descending_step:
  assumes "- (2 ^ 63) < sint (min_value s)" "sint (real_increment s) \<le> 0" "- (2 ^ 63) \<le> sint v + sint (real_increment s)"
    and "sint (min_value s) - sint (real_increment s) < 2 ^ 63"
  shows "\<exists>r. increment_value s v = Some r \<and>
    sint r = (if sint (min_value s) \<le> sint v + sint (real_increment s) then sint v + sint (real_increment s) else sint (min_value s) - 1)"
proof -
  let ?i = "real_increment s" and ?m = "min_value s"
  note b = sint_ll_bounds [of v] sint_ll_bounds [of ?m]
  have v: "add_ll v ?i = Some (v + ?i)" "sint (v + ?i) = sint v + sint ?i" using add_ll_Some [of v ?i] assms b by simp_all
  have d: "sub_ll ?m ?i = Some (?m - ?i)" "sint (?m - ?i) = sint ?m - sint ?i" using sub_ll_Some [of ?m ?i] assms b by simp_all
  have m: "sub_ll ?m 1 = Some (?m - 1)" "sint (?m - 1) = sint ?m - 1" using sub_ll_Some [of ?m 1] assms b by simp_all
  show ?thesis using assms v d m by (auto simp: increment_value_def word_sless_alt)
qed

text \<open>the next value is exact whenever the bounds that are computed fit: an ascending step gives the sum, or one more than the maximum when the sum is above it; a descending
  step gives the sum, or one less than the minimum when the sum is below it.\<close>

theorem increment_value_exact:
  assumes "sint LONGLONG_MIN < sint (min_value s)" "sint (max_value s) < sint LONGLONG_MAX"
  shows "if 0 < sint (real_increment s)
    then - (2 ^ 63) \<le> sint (max_value s) - sint (real_increment s) \<longrightarrow>
      (\<exists>r. increment_value s v = Some r \<and>
        sint r = (if sint v + sint (real_increment s) \<le> sint (max_value s) then sint v + sint (real_increment s) else sint (max_value s) + 1))
    else - (2 ^ 63) \<le> sint v + sint (real_increment s) \<and> sint (min_value s) - sint (real_increment s) < 2 ^ 63 \<longrightarrow>
      (\<exists>r. increment_value s v = Some r \<and>
        sint r = (if sint (min_value s) \<le> sint v + sint (real_increment s) then sint v + sint (real_increment s) else sint (min_value s) - 1))"
proof -
  have "- (2 ^ 63) < sint (min_value s)" "sint (max_value s) < 2 ^ 63 - 1" using assms by (simp_all add: LONGLONG_MIN_def LONGLONG_MAX_def)
  then show ?thesis using ascending_step [of s v] descending_step [of s v] by simp
qed

definition seq_example :: sequence_definition where
  "seq_example = (sequence_definition_default \<lparr>reserved_until = 0, min_value = 0, max_value = 0, start = 0, increment = 0, cache = 0, round = 0, restart = 0,
     cycle = False, used_fields = 0, real_increment = 10, next_free_value = 0\<rparr>)\<lparr>max_value := 95\<rparr>"

theorem increment_value_exact_witness:
  "\<exists>r. increment_value seq_example 90 = Some r \<and> sint r = 96"
  using increment_value_exact [of seq_example 90] by (simp add: seq_example_def sequence_definition_default_def LONGLONG_MIN_def LONGLONG_MAX_def)

text \<open>a descending step that would pass the smallest 64-bit integer is undefined, although the sequence only has to leave its range by one: the sum is computed before the test that
  would have excluded it. The ascending step tests first and is defined for every value.\<close>

theorem descending_step_overflows:
  assumes "sint (real_increment s) < 0" "sint v + sint (real_increment s) < - (2 ^ 63)"
  shows "increment_value s v = None"
  using assms by (simp add: increment_value_def add_ll_def word_sless_alt)

theorem descending_step_overflows_witness:
  "increment_value (seq_example\<lparr>min_value := LONGLONG_MIN + 1, max_value := -1, real_increment := -10\<rparr>) (LONGLONG_MIN + 4) = None"
  by (rule descending_step_overflows) (simp_all add: LONGLONG_MIN_def)

end
