(* ===== verification/Mem_Root_Array.thy ===== *)
theory Mem_Root_Array imports Prelude "HOL-Library.Monad_Syntax" begin

text \<open>
  \<open>private/mem_root_array.h\<close>: an array that grows in a MEM_ROOT. A place of the array either is raw memory or holds an object; copying from or
  destroying a place that holds none, and every access outside the block, is \<open>None\<close>. \<open>alloc_root\<close> (\<open>mysys/my_alloc.c\<close>) is a parameter: it either fails or gives a block
  of just the requested number of bytes. The size of an element and whether its destructor is trivial are parameters as in the template. Since a MEM_ROOT never gives memory back,
  the block that is left behind by \<open>reserve\<close> stays readable; \<open>reserve\<close> returns it for the callers that still hold a reference into it.
\<close>

section \<open>Mem_root_array\<close>

datatype 'a place = Raw | Obj 'a

record ('a, 'r) Mem_root_array =
  m_root :: 'r
  m_array :: "'a place list"
  m_size :: size_t
  m_capacity :: size_t

record 'r array_type =
  alloc_root :: "'r \<Rightarrow> size_t \<Rightarrow> bool \<times> 'r"
  element_size :: size_t
  has_trivial_destructor :: bool

definition mra_init :: "'r \<Rightarrow> ('a, 'r) Mem_root_array" where
  "mra_init r = \<lparr>m_root = r, m_array = [], m_size = 0, m_capacity = 0\<rparr>"

definition mra_empty :: "('a, 'r) Mem_root_array \<Rightarrow> bool" where
  "mra_empty a \<longleftrightarrow> m_size a = 0"

definition place_at :: "'a place list \<Rightarrow> nat \<Rightarrow> 'a option" where
  "place_at ps i = (if i < length ps then case ps ! i of Obj x \<Rightarrow> Some x | Raw \<Rightarrow> None else None)"

definition construct :: "nat \<Rightarrow> 'a \<Rightarrow> 'a place list \<Rightarrow> 'a place list option" where
  "construct i x ps = (if i < length ps then Some (ps[i := Obj x]) else None)"

definition destroy :: "nat \<Rightarrow> 'a place list \<Rightarrow> 'a place list option" where
  "destroy i ps = (case place_at ps i of Some x \<Rightarrow> Some (ps[i := Raw]) | None \<Rightarrow> None)"

definition mra_at :: "('a, 'r) Mem_root_array \<Rightarrow> size_t \<Rightarrow> 'a option" where
  "mra_at a n = place_at (m_array a) (unat n)"

definition mra_back :: "('a, 'r) Mem_root_array \<Rightarrow> 'a option" where
  "mra_back a = mra_at a (m_size a - 1)"

text \<open>The loop of \<open>chop\<close> over \<open>k\<close> elements from \<open>ix\<close> on.\<close>

fun destroy_range :: "nat \<Rightarrow> nat \<Rightarrow> 'a place list \<Rightarrow> 'a place list option" where
  "destroy_range 0 ix ps = Some ps"
| "destroy_range (Suc k) ix ps = do { ps' \<leftarrow> destroy ix ps; destroy_range k (Suc ix) ps' }"

definition mra_chop :: "'r array_type \<Rightarrow> size_t \<Rightarrow> ('a, 'r) Mem_root_array \<Rightarrow> ('a, 'r) Mem_root_array option" where
  "mra_chop ty pos a =
     do { ps \<leftarrow> (if has_trivial_destructor ty then Some (m_array a) else destroy_range (unat (m_size a) - unat pos) (unat pos) (m_array a));
          Some (a\<lparr>m_array := ps, m_size := pos\<rparr>) }"

definition mra_clear :: "'r array_type \<Rightarrow> ('a, 'r) Mem_root_array \<Rightarrow> ('a, 'r) Mem_root_array option" where
  "mra_clear ty a = (if mra_empty a then Some a else mra_chop ty 0 a)"

text \<open>The loop of \<open>reserve\<close>: \<open>k\<close> elements from \<open>ix\<close> on are copied to the new block and destroyed in the old one.\<close>

fun move_range :: "bool \<Rightarrow> nat \<Rightarrow> nat \<Rightarrow> 'a place list \<Rightarrow> 'a place list \<Rightarrow> ('a place list \<times> 'a place list) option" where
  "move_range triv 0 ix old new = Some (old, new)"
| "move_range triv (Suc k) ix old new =
     do { x \<leftarrow> place_at old ix;
          new' \<leftarrow> construct ix x new;
          old' \<leftarrow> (if triv then Some old else destroy ix old);
          move_range triv k (Suc ix) old' new' }"

definition mra_reserve :: "'r array_type \<Rightarrow> size_t \<Rightarrow> ('a, 'r) Mem_root_array \<Rightarrow> (bool \<times> ('a, 'r) Mem_root_array \<times> 'a place list) option" where
  "mra_reserve ty n a =
     (if n \<le> m_capacity a then Some (False, a, m_array a)
      else let (got, r) = alloc_root ty (m_root a) (n * element_size ty) in
           if \<not> got then Some (True, a\<lparr>m_root := r\<rparr>, m_array a)
           else do { (old, new) \<leftarrow> move_range (has_trivial_destructor ty) (unat (m_size a)) 0 (m_array a)
                                     (replicate (unat (n * element_size ty) div unat (element_size ty)) Raw);
                     Some (False, a\<lparr>m_root := r, m_array := new, m_capacity := n\<rparr>, old) })"

text \<open>The argument of \<open>push_back\<close> is a reference: to an object elsewhere, or to an element of this array as it was when the function was called.\<close>

datatype 'a element_ref = Elsewhere 'a | Inside nat

fun deref :: "'a place list \<Rightarrow> 'a element_ref \<Rightarrow> 'a option" where
  "deref ps (Elsewhere x) = Some x"
| "deref ps (Inside i) = place_at ps i"

definition min_capacity :: size_t where
  "min_capacity = 20"

definition expansion_factor :: size_t where
  "expansion_factor = 2"

definition mra_push_back :: "'r array_type \<Rightarrow> 'a element_ref \<Rightarrow> ('a, 'r) Mem_root_array \<Rightarrow> (bool \<times> ('a, 'r) Mem_root_array) option" where
  "mra_push_back ty element a =
     do { (err0, a0, old0) \<leftarrow> (if m_capacity a = 0 then mra_reserve ty min_capacity a else Some (False, a, m_array a));
          if err0 then Some (True, a0)
          else do { (err, a1, old) \<leftarrow> (if m_size a0 = m_capacity a0 then mra_reserve ty (m_capacity a0 * expansion_factor) a0 else Some (False, a0, old0));
                    if err then Some (True, a1)
                    else do { x \<leftarrow> deref old element;
                              ps \<leftarrow> construct (unat (m_size a1)) x (m_array a1);
                              Some (False, a1\<lparr>m_array := ps, m_size := m_size a1 + 1\<rparr>) } } }"

definition mra_pop_back :: "'r array_type \<Rightarrow> ('a, 'r) Mem_root_array \<Rightarrow> ('a, 'r) Mem_root_array option" where
  "mra_pop_back ty a =
     do { ps \<leftarrow> (if has_trivial_destructor ty then Some (m_array a) else destroy (unat (m_size a - 1)) (m_array a));
          Some (a\<lparr>m_array := ps, m_size := m_size a - 1\<rparr>) }"

text \<open>The two loops of \<open>resize\<close>; the result of \<open>push_back\<close> is ignored.\<close>

partial_function (option) push_until :: "'r array_type \<Rightarrow> size_t \<Rightarrow> 'a \<Rightarrow> ('a, 'r) Mem_root_array \<Rightarrow> ('a, 'r) Mem_root_array option" where
  "push_until ty n v a = (if n = m_size a then Some a else do { (err, a') \<leftarrow> mra_push_back ty (Elsewhere v) a; push_until ty n v a' })"

partial_function (option) pop_until :: "'r array_type \<Rightarrow> size_t \<Rightarrow> ('a, 'r) Mem_root_array \<Rightarrow> ('a, 'r) Mem_root_array option" where
  "pop_until ty n a = (if n = m_size a then Some a else do { a' \<leftarrow> mra_pop_back ty a; pop_until ty n a' })"

definition mra_resize :: "'r array_type \<Rightarrow> size_t \<Rightarrow> 'a \<Rightarrow> ('a, 'r) Mem_root_array \<Rightarrow> ('a, 'r) Mem_root_array option" where
  "mra_resize ty n v a =
     (if n = m_size a then Some a
      else if n > m_size a then do { (err, a1, old) \<leftarrow> mra_reserve ty n a; if err then Some a1 else push_until ty n v a1 }
      else do { a1 \<leftarrow> (if has_trivial_destructor ty then Some a else pop_until ty n a); Some (a1\<lparr>m_size := n\<rparr>) })"

definition mra_init_size :: "'r array_type \<Rightarrow> 'r \<Rightarrow> size_t \<Rightarrow> 'a \<Rightarrow> ('a, 'r) Mem_root_array option" where
  "mra_init_size ty r n v = mra_resize ty n v (mra_init r)"

section \<open>Invariant\<close>

text \<open>The block has as many places as the capacity says; the first \<open>m_size\<close> hold objects, and with a destructor the others hold none.\<close>

definition mra_ok :: "'r array_type \<Rightarrow> ('a, 'r) Mem_root_array \<Rightarrow> 'a list \<Rightarrow> bool" where
  "mra_ok ty a xs \<longleftrightarrow> length (m_array a) = unat (m_capacity a) \<and> length xs = unat (m_size a) \<and> length xs \<le> length (m_array a) \<and>
     (\<forall>i < length xs. m_array a ! i = Obj (xs ! i)) \<and>
     (\<not> has_trivial_destructor ty \<longrightarrow> (\<forall>i. length xs \<le> i \<longrightarrow> i < length (m_array a) \<longrightarrow> m_array a ! i = Raw))"

text \<open>The bytes for \<open>n\<close> elements can be counted in a \<open>size_t\<close>.\<close>

definition fits :: "'r array_type \<Rightarrow> nat \<Rightarrow> bool" where
  "fits ty n \<longleftrightarrow> 0 < unat (element_size ty) \<and> n * unat (element_size ty) < 2 ^ 64"

lemma fits_places: "fits ty (unat n) \<Longrightarrow> unat (n * element_size ty) div unat (element_size ty) = unat n"
  by (simp add: fits_def unat_word_ariths)

lemma fits_mono: "fits ty n \<Longrightarrow> m \<le> n \<Longrightarrow> fits ty m"
  unfolding fits_def by (meson le_less_trans mult_le_mono1)

lemma fits_bound: "fits ty n \<Longrightarrow> n < 2 ^ 64"
  unfolding fits_def by (metis le_less_trans mult_le_mono2 nat_mult_1_right Suc_leI One_nat_def)

lemma place_at_simps [simp]: "i < length ps \<Longrightarrow> ps ! i = Obj x \<Longrightarrow> place_at ps i = Some x" "i < length ps \<Longrightarrow> ps ! i = Raw \<Longrightarrow> place_at ps i = None"
  by (simp_all add: place_at_def)

lemma move_range_ok:
  assumes "k + ix = length xs" "length xs \<le> length old" "length xs \<le> length new" "\<forall>i. ix \<le> i \<longrightarrow> i < length xs \<longrightarrow> old ! i = Obj (xs ! i)"
  shows "\<exists>old' new'. move_range triv k ix old new = Some (old', new') \<and> length old' = length old \<and> length new' = length new \<and>
    (\<forall>i. new' ! i = (if ix \<le> i \<and> i < length xs then Obj (xs ! i) else new ! i)) \<and>
    (\<forall>i. old' ! i = (if ix \<le> i \<and> i < length xs \<and> \<not> triv then Raw else old ! i))"
  using assms
proof (induction k arbitrary: ix old new)
  case (Suc k)
  then have ix: "ix < length xs" by simp
  define o1 where "o1 = (if triv then old else old[ix := Raw])"
  let ?new = "new[ix := Obj (xs ! ix)]"
  have o1: "length o1 = length old" "\<forall>i. o1 ! i = (if i = ix \<and> \<not> triv then Raw else old ! i)" using Suc.prems(2) ix by (auto simp: o1_def nth_list_update)
  then have "\<forall>i. Suc ix \<le> i \<longrightarrow> i < length xs \<longrightarrow> o1 ! i = Obj (xs ! i)" using Suc.prems(4) by simp
  then obtain old' new' where m: "move_range triv k (Suc ix) o1 ?new = Some (old', new')" "length old' = length old" "length new' = length new"
    "\<forall>i. new' ! i = (if Suc ix \<le> i \<and> i < length xs then Obj (xs ! i) else ?new ! i)"
    "\<forall>i. old' ! i = (if Suc ix \<le> i \<and> i < length xs \<and> \<not> triv then Raw else o1 ! i)"
    using Suc.IH [of "Suc ix" o1 ?new] Suc.prems o1(1) by auto
  have "move_range triv (Suc k) ix old new = Some (old', new')" using m(1) Suc.prems ix by (auto simp: construct_def destroy_def o1_def)
  moreover have "\<forall>i. new' ! i = (if ix \<le> i \<and> i < length xs then Obj (xs ! i) else new ! i)" using m(4) ix Suc.prems by (auto simp: nth_list_update)
  moreover have "\<forall>i. old' ! i = (if ix \<le> i \<and> i < length xs \<and> \<not> triv then Raw else old ! i)" using m(5) o1(2) ix by auto
  ultimately show ?case using m by blast
qed auto

lemma mra_reserve_ok:
  assumes ok: "mra_ok ty a xs" and f: "fits ty (unat n)"
  shows "\<exists>err a' old. mra_reserve ty n a = Some (err, a', old) \<and> mra_ok ty a' xs \<and> (err \<longrightarrow> m_capacity a' = m_capacity a \<and> m_array a' = m_array a) \<and>
    (\<not> err \<longrightarrow> n \<le> m_capacity a' \<and> (m_capacity a' = n \<or> m_capacity a' = m_capacity a)) \<and> m_size a' = m_size a \<and>
    (\<forall>i < length xs. has_trivial_destructor ty \<or> m_capacity a' = m_capacity a \<longrightarrow> i < length old \<and> old ! i = Obj (xs ! i))"
proof (cases "n \<le> m_capacity a")
  case True
  then show ?thesis using ok by (auto simp: mra_reserve_def mra_ok_def)
next
  case False
  obtain got r where g: "alloc_root ty (m_root a) (n * element_size ty) = (got, r)" by fastforce
  show ?thesis
  proof (cases got)
    case no: False
    then show ?thesis using ok g False by (auto simp: mra_reserve_def mra_ok_def)
  next
    case True
    let ?new = "replicate (unat n) Raw"
    have len: "length xs = unat (m_size a)" "length xs \<le> length (m_array a)" "length (m_array a) = unat (m_capacity a)" "unat (m_capacity a) < unat n"
      using ok False by (simp_all add: mra_ok_def not_le word_less_nat_alt)
    obtain old' new' where m: "move_range (has_trivial_destructor ty) (unat (m_size a)) 0 (m_array a) ?new = Some (old', new')"
      "length old' = length (m_array a)" "length new' = unat n" "\<forall>i. new' ! i = (if i < length xs then Obj (xs ! i) else ?new ! i)"
      "\<forall>i. old' ! i = (if i < length xs \<and> \<not> has_trivial_destructor ty then Raw else m_array a ! i)"
      using move_range_ok [of "unat (m_size a)" 0 xs "m_array a" ?new "has_trivial_destructor ty"] ok len by (auto simp: mra_ok_def)
    have "mra_reserve ty n a = Some (False, a\<lparr>m_root := r, m_array := new', m_capacity := n\<rparr>, old')"
      using False True g m(1) by (simp add: mra_reserve_def fits_places [OF f])
    moreover have "mra_ok ty (a\<lparr>m_root := r, m_array := new', m_capacity := n\<rparr>) xs" using m len by (auto simp: mra_ok_def)
    moreover have "\<forall>i < length xs. has_trivial_destructor ty \<longrightarrow> i < length old' \<and> old' ! i = Obj (xs ! i)" using m len ok by (auto simp: mra_ok_def)
    moreover have "n \<noteq> m_capacity a" using False by auto
    ultimately show ?thesis by (intro exI [of _ False]) auto
  qed
qed

lemma construct_ok:
  assumes ok: "mra_ok ty a xs" and room: "m_size a < m_capacity a"
  shows "\<exists>ps. construct (unat (m_size a)) x (m_array a) = Some ps \<and> mra_ok ty (a\<lparr>m_array := ps, m_size := m_size a + 1\<rparr>) (xs @ [x])"
proof -
  have l: "unat (m_size a) < length (m_array a)" "length xs = unat (m_size a)" "unat (m_size a + 1) = unat (m_size a) + 1"
    using ok room unat_Suc_below [of "m_size a" "m_capacity a"] by (simp_all add: mra_ok_def word_less_nat_alt)
  then show ?thesis using ok by (auto simp: construct_def mra_ok_def nth_append nth_list_update)
qed

lemma push_back_room:
  assumes ok: "mra_ok ty a xs" and room: "m_size a < m_capacity a" and x: "deref (m_array a) e = Some x"
  shows "\<exists>a'. mra_push_back ty e a = Some (False, a') \<and> mra_ok ty a' (xs @ [x]) \<and> m_capacity a' = m_capacity a \<and> m_size a' = m_size a + 1"
proof -
  have "m_capacity a \<noteq> 0" "m_size a \<noteq> m_capacity a" using room by auto
  then show ?thesis using construct_ok [OF ok room, of x] x by (auto simp: mra_push_back_def)
qed

lemma push_back_grow:
  assumes ok: "mra_ok ty a xs" and full: "m_size a = m_capacity a" and f: "fits ty (max 20 (2 * unat (m_capacity a)))"
    and e: "case e of Elsewhere x \<Rightarrow> y = x | Inside i \<Rightarrow> has_trivial_destructor ty \<and> i < length xs \<and> y = xs ! i"
  shows "\<exists>err a'. mra_push_back ty e a = Some (err, a') \<and> mra_ok ty a' (if err then xs else xs @ [y])"
proof -
  define n where "n = (if m_capacity a = 0 then min_capacity else m_capacity a * expansion_factor)"
  have un: "unat n = (if m_capacity a = 0 then 20 else 2 * unat (m_capacity a))"
    using fits_bound [OF f] by (simp add: n_def min_capacity_def expansion_factor_def unat_word_ariths)
  have "fits ty (unat n)" using fits_mono [OF f] un by simp
  then obtain err a1 old where r: "mra_reserve ty n a = Some (err, a1, old)" "mra_ok ty a1 xs" "\<not> err \<longrightarrow> n \<le> m_capacity a1" "m_size a1 = m_size a"
    "\<forall>i < length xs. has_trivial_destructor ty \<longrightarrow> i < length old \<and> old ! i = Obj (xs ! i)"
    using mra_reserve_ok [OF ok] by blast
  have push: "mra_push_back ty e a = (if err then Some (True, a1) else do { x \<leftarrow> deref old e; ps \<leftarrow> construct (unat (m_size a1)) x (m_array a1);
      Some (False, a1\<lparr>m_array := ps, m_size := m_size a1 + 1\<rparr>) })"
  proof (cases "m_capacity a = 0")
    case True
    then have "err \<or> m_size a1 \<noteq> m_capacity a1" using r(3,4) full by (auto simp: n_def min_capacity_def)
    then show ?thesis using True r(1) by (auto simp: mra_push_back_def n_def)
  next
    case False
    then show ?thesis using full r(1) by (auto simp: mra_push_back_def n_def)
  qed
  show ?thesis
  proof (cases err)
    case True
    then show ?thesis using push r(2) by auto
  next
    case False
    have "deref old e = Some y" using e r(5) by (cases e) auto
    moreover have "m_size a < n" using full un unat_gt_0 [of "m_capacity a"] by (auto simp: word_less_nat_alt)
    then have "m_size a1 < m_capacity a1" using r(3,4) False by auto
    ultimately show ?thesis using False push construct_ok [OF r(2), of y] by auto
  qed
qed

lemma pop_back_ok:
  assumes ok: "mra_ok ty a (xs @ [x])"
  shows "\<exists>a'. mra_pop_back ty a = Some a' \<and> mra_ok ty a' xs \<and> m_size a' = m_size a - 1 \<and> m_capacity a' = m_capacity a"
proof -
  have s: "unat (m_size a) = length xs + 1" "length xs < length (m_array a)" using ok by (simp_all add: mra_ok_def)
  then have "m_size a \<noteq> 0" by auto
  then have u: "unat (m_size a - 1) = length xs" using s unat_minus_one [of "m_size a"] by simp
  show ?thesis using ok s u
    by (auto simp: mra_pop_back_def mra_ok_def destroy_def nth_append nth_list_update split: if_splits)
qed

lemma destroy_range_ok:
  "\<forall>i. ix \<le> i \<longrightarrow> i < ix + k \<longrightarrow> i < length ps \<and> (\<exists>x. ps ! i = Obj x) \<Longrightarrow>
   \<exists>ps'. destroy_range k ix ps = Some ps' \<and> length ps' = length ps \<and> (\<forall>i. ps' ! i = (if ix \<le> i \<and> i < ix + k then Raw else ps ! i))"
proof (induction k arbitrary: ix ps)
  case (Suc k)
  then obtain x where x: "ix < length ps" "ps ! ix = Obj x" by auto
  obtain ps' where p: "destroy_range k (Suc ix) (ps[ix := Raw]) = Some ps'" "length ps' = length ps"
    "\<forall>i. ps' ! i = (if Suc ix \<le> i \<and> i < Suc ix + k then Raw else ps[ix := Raw] ! i)"
    using Suc.IH [of "Suc ix" "ps[ix := Raw]"] Suc.prems by auto
  have "destroy_range (Suc k) ix ps = Some ps'" using x p(1) by (simp add: destroy_def)
  moreover have "\<forall>i. ps' ! i = (if ix \<le> i \<and> i < ix + Suc k then Raw else ps ! i)" using p(3) x by (auto simp: nth_list_update)
  ultimately show ?case using p(2) by blast
qed auto

lemma chop_ok:
  assumes ok: "mra_ok ty a xs" and pos: "unat pos \<le> length xs"
  shows "\<exists>a'. mra_chop ty pos a = Some a' \<and> mra_ok ty a' (take (unat pos) xs)"
proof (cases "has_trivial_destructor ty")
  case True
  then show ?thesis using ok pos by (simp add: mra_chop_def mra_ok_def)
next
  case False
  have s: "length xs = unat (m_size a)" using ok by (simp add: mra_ok_def)
  obtain ps where p: "destroy_range (unat (m_size a) - unat pos) (unat pos) (m_array a) = Some ps" "length ps = length (m_array a)"
    "\<forall>i. ps ! i = (if unat pos \<le> i \<and> i < length xs then Raw else m_array a ! i)"
    using destroy_range_ok [of "unat pos" "unat (m_size a) - unat pos" "m_array a"] ok pos s by (fastforce simp: mra_ok_def)
  then show ?thesis using ok pos s False by (simp add: mra_chop_def mra_ok_def)
qed

lemma push_until_ok:
  assumes "mra_ok ty a xs" "length xs \<le> unat n" "n \<le> m_capacity a"
  shows "\<exists>a'. push_until ty n v a = Some a' \<and> mra_ok ty a' (xs @ replicate (unat n - length xs) v)"
  using assms
proof (induction "unat n - length xs" arbitrary: a xs)
  case 0
  then have "n = m_size a" by (simp add: mra_ok_def word_unat_eq_iff)
  then show ?case using 0 by (simp add: push_until.simps)
next
  case (Suc d)
  have s: "length xs = unat (m_size a)" using Suc.prems by (simp add: mra_ok_def)
  then have lt: "m_size a < n" using Suc.hyps(2) by (simp add: word_less_nat_alt)
  then have "m_size a < m_capacity a" using Suc.prems(3) by simp
  then obtain a' where a': "mra_push_back ty (Elsewhere v) a = Some (False, a')" "mra_ok ty a' (xs @ [v])" "m_capacity a' = m_capacity a"
    using push_back_room [OF Suc.prems(1), of "Elsewhere v" v] by auto
  have d: "d = unat n - length (xs @ [v])" "length (xs @ [v]) \<le> unat n" using Suc.hyps(2) by simp_all
  obtain a'' where "push_until ty n v a' = Some a''" "mra_ok ty a'' ((xs @ [v]) @ replicate (unat n - length (xs @ [v])) v)"
    using Suc.hyps(1) [OF d(1) a'(2) d(2)] a'(3) Suc.prems(3) by auto
  moreover have "(xs @ [v]) @ replicate (unat n - length (xs @ [v])) v = xs @ replicate (unat n - length xs) v"
    using Suc.hyps(2) by (cases "unat n - length xs") auto
  ultimately show ?case using a'(1) lt by (auto simp: push_until.simps [of ty n v a])
qed

lemma pop_until_ok:
  assumes "mra_ok ty a xs" "unat n \<le> length xs"
  shows "\<exists>a'. pop_until ty n a = Some a' \<and> mra_ok ty a' (take (unat n) xs) \<and> m_size a' = n"
  using assms
proof (induction xs arbitrary: a rule: rev_induct)
  case Nil
  then have "m_size a = n" by (simp add: mra_ok_def word_unat_eq_iff)
  then show ?case using Nil by (simp add: pop_until.simps)
next
  case (snoc x xs)
  show ?case
  proof (cases "n = m_size a")
    case True
    then have "take (unat n) (xs @ [x]) = xs @ [x]" using snoc.prems(1) by (intro take_all) (simp add: mra_ok_def)
    then show ?thesis using snoc.prems(1) True by (simp add: pop_until.simps)
  next
    case False
    then have "unat n \<le> length xs" using snoc.prems by (auto simp: mra_ok_def word_unat_eq_iff)
    moreover obtain a' where "mra_pop_back ty a = Some a'" "mra_ok ty a' xs" using pop_back_ok [OF snoc.prems(1)] by blast
    ultimately show ?thesis using snoc.IH [of a'] False by (simp add: pop_until.simps [of ty n a])
  qed
qed

lemma resize_ok:
  assumes ok: "mra_ok ty a xs" and f: "fits ty (unat n)"
  shows "\<exists>a'. mra_resize ty n v a = Some a' \<and>
    (mra_ok ty a' (take (unat n) xs @ replicate (unat n - length xs) v) \<or> m_size a < n \<and> mra_ok ty a' xs \<and> m_capacity a' < n)"
proof -
  have s: "length xs = unat (m_size a)" using ok by (simp add: mra_ok_def)
  consider "n = m_size a" | "m_size a < n" | "n < m_size a" by fastforce
  then show ?thesis
  proof cases
    case 1
    then show ?thesis using ok s by (simp add: mra_resize_def)
  next
    case 2
    obtain err a1 old where r: "mra_reserve ty n a = Some (err, a1, old)" "mra_ok ty a1 xs" "err \<longrightarrow> m_capacity a1 = m_capacity a" "\<not> err \<longrightarrow> n \<le> m_capacity a1"
      using mra_reserve_ok [OF ok f] by blast
    show ?thesis
    proof (cases err)
      case True
      then have "\<not> n \<le> m_capacity a" using r(1) by (auto simp: mra_reserve_def)
      then show ?thesis using 2 r True by (auto simp: mra_resize_def)
    next
      case False
      then show ?thesis using push_until_ok [OF r(2), of n v] 2 s r by (auto simp: mra_resize_def word_less_nat_alt)
    qed
  next
    case 3
    then have n: "unat n < length xs" using s by (simp add: word_less_nat_alt)
    show ?thesis
    proof (cases "has_trivial_destructor ty")
      case True
      then show ?thesis using ok 3 n by (auto simp: mra_resize_def mra_ok_def)
    next
      case False
      obtain a1 where "pop_until ty n a = Some a1" "mra_ok ty a1 (take (unat n) xs)" "m_size a1 = n" using pop_until_ok [OF ok, of n] n by auto
      moreover from this have "a1\<lparr>m_size := n\<rparr> = a1" by simp
      ultimately show ?thesis using False 3 n by (auto simp: mra_resize_def)
    qed
  qed
qed

section \<open>Properties\<close>

text \<open>C23: as long as the bytes of the array can be counted in a \<open>size_t\<close>, the array is a list: \<open>at\<close> reads its elements, \<open>push_back\<close> appends an object from elsewhere or
  reports that memory is out and changes nothing, \<open>pop_back\<close> and \<open>chop\<close> cut the end off, and \<open>resize\<close> cuts or fills the list to the wanted length, or leaves it when
  memory is out. No operation touches a place outside the block, destroys an object twice or reads one that is gone, and the loops of \<open>resize\<close> end.\<close>

theorem mem_root_array_is_list:
  assumes ok: "mra_ok ty a xs" and f: "fits ty (max (unat n) (max 20 (2 * unat (m_capacity a))))"
  shows "(unat i < length xs \<longrightarrow> mra_at a i = Some (xs ! unat i)) \<and>
    (\<exists>err a'. mra_push_back ty (Elsewhere x) a = Some (err, a') \<and> mra_ok ty a' (if err then xs else xs @ [x])) \<and>
    (xs \<noteq> [] \<longrightarrow> mra_back a = Some (last xs) \<and> (\<exists>a'. mra_pop_back ty a = Some a' \<and> mra_ok ty a' (butlast xs))) \<and>
    (unat pos \<le> length xs \<longrightarrow> (\<exists>a'. mra_chop ty pos a = Some a' \<and> mra_ok ty a' (take (unat pos) xs))) \<and>
    (\<exists>a'. mra_resize ty n v a = Some a' \<and>
      (mra_ok ty a' (take (unat n) xs @ replicate (unat n - length xs) v) \<or> m_size a < n \<and> mra_ok ty a' xs \<and> m_capacity a' < n))"
proof (intro conjI impI)
  have s: "length xs = unat (m_size a)" "length xs \<le> length (m_array a)" "length (m_array a) = unat (m_capacity a)" using ok by (simp_all add: mra_ok_def)
  show "mra_at a i = Some (xs ! unat i)" if "unat i < length xs" for i using that ok by (simp add: mra_at_def mra_ok_def)
  note at = this
  show "\<exists>err a'. mra_push_back ty (Elsewhere x) a = Some (err, a') \<and> mra_ok ty a' (if err then xs else xs @ [x])"
  proof (cases "m_size a < m_capacity a")
    case True
    then show ?thesis using push_back_room [OF ok True, of "Elsewhere x" x] by (intro exI [of _ False]) auto
  next
    case False
    then have "m_size a = m_capacity a" using s by (simp add: word_less_nat_alt word_unat_eq_iff)
    then show ?thesis using push_back_grow [OF ok, where e = "Elsewhere x" and y = x] fits_mono [OF f] by simp
  qed
  show "\<exists>a'. mra_chop ty pos a = Some a' \<and> mra_ok ty a' (take (unat pos) xs)" if "unat pos \<le> length xs" using chop_ok [OF ok that] .
  show "\<exists>a'. mra_resize ty n v a = Some a' \<and>
      (mra_ok ty a' (take (unat n) xs @ replicate (unat n - length xs) v) \<or> m_size a < n \<and> mra_ok ty a' xs \<and> m_capacity a' < n)"
    using resize_ok [OF ok] fits_mono [OF f] by simp
  assume ne: "xs \<noteq> []"
  then have "m_size a \<noteq> 0" using s(1) by (auto simp: unat_eq_zero)
  then have u: "unat (m_size a - 1) = length xs - 1" using s(1) by (simp add: unat_minus_one)
  then show "mra_back a = Some (last xs)" using at [of "m_size a - 1"] ne by (simp add: mra_back_def last_conv_nth)
  show "\<exists>a'. mra_pop_back ty a = Some a' \<and> mra_ok ty a' (butlast xs)"
    using pop_back_ok [of ty a "butlast xs" "last xs"] ok ne by auto
qed

text \<open>\<open>push_back\<close> of a reference to one of the array's own elements is sound while there is room, but not when the array is full and the elements have a destructor:
  \<open>reserve\<close> destroys the referenced object before it is copied.\<close>

theorem push_back_own_element:
  assumes ok: "mra_ok ty a xs" and i: "i < length xs" and f: "fits ty (max 20 (2 * unat (m_capacity a)))"
  shows "(m_size a < m_capacity a \<longrightarrow> (\<exists>a'. mra_push_back ty (Inside i) a = Some (False, a') \<and> mra_ok ty a' (xs @ [xs ! i]))) \<and>
    (m_size a = m_capacity a \<and> \<not> has_trivial_destructor ty \<and> fst (alloc_root ty (m_root a) (m_capacity a * expansion_factor * element_size ty)) \<longrightarrow>
      mra_push_back ty (Inside i) a = None)"
proof (intro conjI impI)
  have s: "length xs = unat (m_size a)" "length xs \<le> length (m_array a)" "length (m_array a) = unat (m_capacity a)" "m_array a ! i = Obj (xs ! i)"
    using ok i by (simp_all add: mra_ok_def)
  show "\<exists>a'. mra_push_back ty (Inside i) a = Some (False, a') \<and> mra_ok ty a' (xs @ [xs ! i])" if "m_size a < m_capacity a"
    using push_back_room [OF ok that, of "Inside i" "xs ! i"] s i by auto
  assume full: "m_size a = m_capacity a \<and> \<not> has_trivial_destructor ty \<and> fst (alloc_root ty (m_root a) (m_capacity a * expansion_factor * element_size ty))"
  let ?n = "m_capacity a * expansion_factor"
  have c: "0 < unat (m_capacity a)" using full i s by auto
  have n: "unat ?n = 2 * unat (m_capacity a)" using fits_bound [OF f] by (simp add: expansion_factor_def unat_word_ariths)
  obtain r where r: "alloc_root ty (m_root a) (?n * element_size ty) = (True, r)" using full by (metis prod.collapse)
  obtain old' new' where m: "move_range False (unat (m_size a)) 0 (m_array a) (replicate (unat ?n) Raw) = Some (old', new')"
      "length old' = length (m_array a)" "\<forall>i. old' ! i = (if i < length xs then Raw else m_array a ! i)"
    using move_range_ok [of "unat (m_size a)" 0 xs "m_array a" "replicate (unat ?n) Raw" False] ok s n by (auto simp: mra_ok_def)
  have big: "\<not> ?n \<le> m_capacity a" using n c by (simp add: word_le_nat_alt)
  have "mra_reserve ty ?n a = Some (False, a\<lparr>m_root := r, m_array := new', m_capacity := ?n\<rparr>, old')"
    using big full r m(1) fits_places [of ty ?n] fits_mono [OF f] n by (simp add: mra_reserve_def)
  moreover have "deref old' (Inside i) = None" using m i s by simp
  moreover have "m_capacity a \<noteq> 0" using c by auto
  ultimately show "mra_push_back ty (Inside i) a = None" using full by (simp add: mra_push_back_def)
qed

text \<open>when the number of bytes does not fit a \<open>size_t\<close> the product wraps, \<open>reserve\<close> still reports success and the array has fewer places than its capacity says.\<close>

theorem reserve_wraps:
  assumes "mra_ok ty a []" "n > m_capacity a" "2 ^ 64 \<le> unat n * unat (element_size ty)" "fst (alloc_root ty (m_root a) (n * element_size ty))"
  shows "\<exists>a' old. mra_reserve ty n a = Some (False, a', old) \<and> m_capacity a' = n \<and> length (m_array a') < unat (m_capacity a')"
proof -
  obtain r where r: "alloc_root ty (m_root a) (n * element_size ty) = (True, r)" using assms(4) by (metis prod.collapse)
  have e: "unat (element_size ty) \<noteq> 0" using assms(3) by (auto intro: ccontr)
  have "unat (n * element_size ty) < unat n * unat (element_size ty)"
    using assms(3) unsigned_less [of "n * element_size ty", where ?'a = nat] by simp
  then have "unat (n * element_size ty) div unat (element_size ty) < unat n" using e by (simp add: div_less_iff_less_mult)
  moreover have "unat (m_size a) = 0" using assms(1) by (simp add: mra_ok_def)
  ultimately show ?thesis using assms(2) r by (auto simp: mra_reserve_def)
qed

definition plain_type :: "bool \<Rightarrow> nat array_type" where
  "plain_type triv = \<lparr>alloc_root = \<lambda>r n. (True, r + unat n), element_size = 8, has_trivial_destructor = triv\<rparr>"

definition two_items :: "(nat, nat) Mem_root_array" where
  "two_items = \<lparr>m_root = 0, m_array = [Obj 7, Obj 9], m_size = 2, m_capacity = 2\<rparr>"

lemma two_items_ok: "mra_ok (plain_type triv) two_items [7, 9]"
  by (auto simp: mra_ok_def two_items_def plain_type_def less_Suc_eq)

theorem mem_root_array_is_list_witness:
  "\<exists>err a'. mra_push_back (plain_type False) (Elsewhere 4) two_items = Some (err, a') \<and> mra_ok (plain_type False) a' (if err then [7, 9] else [7, 9, 4])"
proof -
  have "fits (plain_type False) (max (unat (5 :: size_t)) (max 20 (2 * unat (m_capacity two_items))))" by (simp add: fits_def plain_type_def two_items_def)
  from mem_root_array_is_list [OF two_items_ok this, of 0 4 0 0] show ?thesis by (simp only: append.simps)
qed

theorem push_back_own_element_witness: "mra_push_back (plain_type False) (Inside 0) two_items = None"
  using push_back_own_element [OF two_items_ok, of 0 False] by (simp add: fits_def plain_type_def two_items_def)

theorem reserve_wraps_witness:
  "\<exists>a' old. mra_reserve (plain_type True) (2305843009213693953) (mra_init 0 :: (nat, nat) Mem_root_array) = Some (False, a', old) \<and> length (m_array a') < unat (m_capacity a')"
  using reserve_wraps [of "plain_type True" "mra_init 0 :: (nat, nat) Mem_root_array" 2305843009213693953] by (auto simp: mra_ok_def mra_init_def plain_type_def)

end
