(* ===== verification/Lex_Input_Stream.thy ===== *)
theory Lex_Input_Stream imports Memory begin

text \<open>
  \<open>private/sql_lex.h\<close>, class \<open>Lex_input_stream\<close>: the characters of a query on their way to the parser. The query is read from the raw buffer; while
  \<open>m_echo\<close> is set, what is read is also written to the pre-processed buffer. Pointers into the two buffers are offsets; a position outside its buffer has no
  defined access and is \<open>None\<close>. The scanner proper (\<open>lex_one_token\<close>, \<open>consume_comment\<close>, the body in UTF-8) is only declared in the header; \<open>my_isspace\<close>, a look-up in the
  tables of the character set, is a parameter.
\<close>

section \<open>Lex_input_stream\<close>

datatype enum_comment_state = NO_COMMENT | PRESERVE_COMMENT | DISCARD_COMMENT

record Lex_input_stream =
  m_buf :: buffer
  m_ptr :: nat
  m_tok_start :: nat
  m_tok_end :: nat
  m_end_of_query :: nat
  m_tok_start_prev :: nat
  m_echo :: bool
  m_echo_saved :: bool
  m_cpp_buf :: buffer
  m_cpp_ptr :: nat
  m_cpp_tok_start :: nat
  m_cpp_tok_start_prev :: nat
  m_cpp_tok_end :: nat
  lookahead_token :: int
  in_comment :: enum_comment_state
  in_comment_saved :: enum_comment_state

definition set_echo :: "bool \<Rightarrow> Lex_input_stream \<Rightarrow> Lex_input_stream" where
  "set_echo echo s = s\<lparr>m_echo := echo\<rparr>"

definition save_in_comment_state :: "Lex_input_stream \<Rightarrow> Lex_input_stream" where
  "save_in_comment_state s = s\<lparr>m_echo_saved := m_echo s, in_comment_saved := in_comment s\<rparr>"

definition restore_in_comment_state :: "Lex_input_stream \<Rightarrow> Lex_input_stream" where
  "restore_in_comment_state s = s\<lparr>m_echo := m_echo_saved s, in_comment := in_comment_saved s\<rparr>"

text \<open>Reading and writing one character, and moving a pointer by \<open>n\<close>, within a buffer.\<close>

definition char_at :: "buffer \<Rightarrow> nat \<Rightarrow> uchar option" where
  "char_at b i = (if i < length b then Some (b ! i) else None)"

definition put_char :: "nat \<Rightarrow> uchar \<Rightarrow> buffer \<Rightarrow> buffer option" where
  "put_char i c b = (if i < length b then Some (b[i := c]) else None)"

definition move_ptr :: "buffer \<Rightarrow> nat \<Rightarrow> int \<Rightarrow> nat option" where
  "move_ptr b i n = (if 0 \<le> int i + n \<and> int i + n \<le> int (length b) then Some (nat (int i + n)) else None)"

definition yySkipn :: "int \<Rightarrow> Lex_input_stream \<Rightarrow> Lex_input_stream option" where
  "yySkipn n s =
     do { p \<leftarrow> move_ptr (m_buf s) (m_ptr s) n;
          if m_echo s
          then if 0 \<le> n \<and> m_cpp_ptr s + nat n \<le> length (m_cpp_buf s)
               then Some (s\<lparr>m_cpp_buf := memcpy (m_cpp_buf s) (m_cpp_ptr s) (bytes (m_buf s) (m_ptr s) (nat n)), m_cpp_ptr := m_cpp_ptr s + nat n, m_ptr := p\<rparr>)
               else None
          else Some (s\<lparr>m_ptr := p\<rparr>) }"

definition skip_binary :: "int \<Rightarrow> Lex_input_stream \<Rightarrow> Lex_input_stream option" where
  "skip_binary n s =
     do { p \<leftarrow> move_ptr (m_buf s) (m_ptr s) n;
          if m_echo s
          then if 0 \<le> n \<and> m_cpp_ptr s + nat n \<le> length (m_cpp_buf s)
               then Some (s\<lparr>m_cpp_buf := memcpy (m_cpp_buf s) (m_cpp_ptr s) (bytes (m_buf s) (m_ptr s) (nat n)), m_cpp_ptr := m_cpp_ptr s + nat n, m_ptr := p\<rparr>)
               else None
          else Some (s\<lparr>m_ptr := p\<rparr>) }"

definition yyGet :: "Lex_input_stream \<Rightarrow> (uchar \<times> Lex_input_stream) option" where
  "yyGet s =
     do { c \<leftarrow> char_at (m_buf s) (m_ptr s);
          let s1 = s\<lparr>m_ptr := m_ptr s + 1\<rparr>;
          if m_echo s then do { b \<leftarrow> put_char (m_cpp_ptr s) c (m_cpp_buf s); Some (c, s1\<lparr>m_cpp_buf := b, m_cpp_ptr := m_cpp_ptr s + 1\<rparr>) }
          else Some (c, s1) }"

definition yyGetLast :: "Lex_input_stream \<Rightarrow> uchar option" where
  "yyGetLast s = (if m_ptr s = 0 then None else char_at (m_buf s) (m_ptr s - 1))"

definition yyPeek :: "Lex_input_stream \<Rightarrow> uchar option" where
  "yyPeek s = char_at (m_buf s) (m_ptr s)"

definition yyPeekn :: "int \<Rightarrow> Lex_input_stream \<Rightarrow> uchar option" where
  "yyPeekn n s = do { p \<leftarrow> move_ptr (m_buf s) (m_ptr s) n; char_at (m_buf s) p }"

definition yyUnget :: "Lex_input_stream \<Rightarrow> Lex_input_stream option" where
  "yyUnget s =
     do { p \<leftarrow> move_ptr (m_buf s) (m_ptr s) (-1);
          if m_echo s then do { q \<leftarrow> move_ptr (m_cpp_buf s) (m_cpp_ptr s) (-1); Some (s\<lparr>m_ptr := p, m_cpp_ptr := q\<rparr>) }
          else Some (s\<lparr>m_ptr := p\<rparr>) }"

definition yySkip :: "Lex_input_stream \<Rightarrow> Lex_input_stream option" where
  "yySkip s =
     (if m_echo s
      then do { c \<leftarrow> char_at (m_buf s) (m_ptr s);
                b \<leftarrow> put_char (m_cpp_ptr s) c (m_cpp_buf s);
                Some (s\<lparr>m_cpp_buf := b, m_cpp_ptr := m_cpp_ptr s + 1, m_ptr := m_ptr s + 1\<rparr>) }
      else do { p \<leftarrow> move_ptr (m_buf s) (m_ptr s) 1; Some (s\<lparr>m_ptr := p\<rparr>) })"

definition yyUnput :: "uchar \<Rightarrow> Lex_input_stream \<Rightarrow> Lex_input_stream option" where
  "yyUnput ch s =
     do { p \<leftarrow> move_ptr (m_buf s) (m_ptr s) (-1);
          b \<leftarrow> put_char p ch (m_buf s);
          let s1 = s\<lparr>m_ptr := p, m_buf := b\<rparr>;
          if m_echo s then do { q \<leftarrow> move_ptr (m_cpp_buf s) (m_cpp_ptr s) (-1); Some (s1\<lparr>m_cpp_ptr := q\<rparr>) } else Some s1 }"

definition eof_n :: "int \<Rightarrow> Lex_input_stream \<Rightarrow> bool" where
  "eof_n n s \<longleftrightarrow> int (m_ptr s) + n \<ge> int (m_end_of_query s)"

definition start_token :: "Lex_input_stream \<Rightarrow> Lex_input_stream" where
  "start_token s = s\<lparr>m_tok_start_prev := m_tok_start s, m_tok_start := m_ptr s, m_tok_end := m_ptr s,
     m_cpp_tok_start_prev := m_cpp_tok_start s, m_cpp_tok_start := m_cpp_ptr s, m_cpp_tok_end := m_cpp_ptr s\<rparr>"

definition restart_token :: "Lex_input_stream \<Rightarrow> Lex_input_stream" where
  "restart_token s = s\<lparr>m_tok_start := m_ptr s, m_cpp_tok_start := m_cpp_ptr s\<rparr>"

definition yyLength :: "Lex_input_stream \<Rightarrow> uint" where
  "yyLength s = word_of_int (int (m_ptr s) - int (m_tok_start s) - 1)"

definition has_lookahead :: "Lex_input_stream \<Rightarrow> bool" where
  "has_lookahead s \<longleftrightarrow> lookahead_token s \<ge> 0"

definition eof :: "Lex_input_stream \<Rightarrow> bool" where
  "eof s \<longleftrightarrow> m_ptr s \<ge> m_end_of_query s"

definition get_tok_start :: "Lex_input_stream \<Rightarrow> nat" where
  "get_tok_start s = (if has_lookahead s then m_tok_start_prev s else m_tok_start s)"

definition set_cpp_tok_start :: "nat \<Rightarrow> Lex_input_stream \<Rightarrow> Lex_input_stream" where
  "set_cpp_tok_start pos s = s\<lparr>m_cpp_tok_start := pos\<rparr>"

definition get_cpp_tok_start :: "Lex_input_stream \<Rightarrow> nat" where
  "get_cpp_tok_start s = (if has_lookahead s then m_cpp_tok_start_prev s else m_cpp_tok_start s)"

text \<open>The loop of the two \<open>rtrim\<close> functions, from the position \<open>p\<close> down.\<close>

fun rtrim :: "(uchar \<Rightarrow> bool) \<Rightarrow> buffer \<Rightarrow> nat \<Rightarrow> nat" where
  "rtrim my_isspace b 0 = 0"
| "rtrim my_isspace b (Suc p) = (if my_isspace (b ! p) then rtrim my_isspace b p else Suc p)"

definition get_cpp_tok_end_rtrim :: "(uchar \<Rightarrow> bool) \<Rightarrow> Lex_input_stream \<Rightarrow> nat" where
  "get_cpp_tok_end_rtrim my_isspace s = rtrim my_isspace (m_cpp_buf s) (m_cpp_tok_end s)"

definition get_cpp_ptr_rtrim :: "(uchar \<Rightarrow> bool) \<Rightarrow> Lex_input_stream \<Rightarrow> nat" where
  "get_cpp_ptr_rtrim my_isspace s = rtrim my_isspace (m_cpp_buf s) (m_cpp_ptr s)"

section \<open>Operation sequences\<close>

datatype lex_op = Get | Skip | Skipn nat | SkipBinary nat | Unget | Unput uchar | SetEcho bool | SaveComment | RestoreComment | StartToken | RestartToken

fun lex_step :: "lex_op \<Rightarrow> Lex_input_stream \<Rightarrow> Lex_input_stream option" where
  "lex_step Get s = map_option snd (yyGet s)"
| "lex_step Skip s = yySkip s"
| "lex_step (Skipn n) s = yySkipn (int n) s"
| "lex_step (SkipBinary n) s = skip_binary (int n) s"
| "lex_step Unget s = yyUnget s"
| "lex_step (Unput ch) s = yyUnput ch s"
| "lex_step (SetEcho b) s = Some (set_echo b s)"
| "lex_step SaveComment s = Some (save_in_comment_state s)"
| "lex_step RestoreComment s = Some (restore_in_comment_state s)"
| "lex_step StartToken s = Some (start_token s)"
| "lex_step RestartToken s = Some (restart_token s)"

fun lex_run :: "lex_op list \<Rightarrow> Lex_input_stream \<Rightarrow> Lex_input_stream option" where
  "lex_run [] s = Some s"
| "lex_run (op # ops) s = do { s' \<leftarrow> lex_step op s; lex_run ops s' }"

text \<open>The specification: the characters consumed so far, each with the echo mode it was read in, and those to come. A character is put back in the mode it was read in.\<close>

record lex_spec =
  consumed :: "(bool \<times> uchar) list"
  upcoming :: buffer
  echo :: bool
  echo_saved :: bool

definition spec_take :: "nat \<Rightarrow> lex_spec \<Rightarrow> lex_spec option" where
  "spec_take n a = (if n \<le> length (upcoming a)
     then Some (a\<lparr>consumed := consumed a @ map (Pair (echo a)) (take n (upcoming a)), upcoming := drop n (upcoming a)\<rparr>) else None)"

definition spec_back :: "(uchar \<Rightarrow> uchar) \<Rightarrow> lex_spec \<Rightarrow> lex_spec option" where
  "spec_back f a = (if consumed a \<noteq> [] \<and> fst (last (consumed a)) = echo a
     then Some (a\<lparr>consumed := butlast (consumed a), upcoming := f (snd (last (consumed a))) # upcoming a\<rparr>) else None)"

fun spec_step :: "lex_op \<Rightarrow> lex_spec \<Rightarrow> lex_spec option" where
  "spec_step Get a = spec_take 1 a"
| "spec_step Skip a = spec_take 1 a"
| "spec_step (Skipn n) a = spec_take n a"
| "spec_step (SkipBinary n) a = spec_take n a"
| "spec_step Unget a = spec_back (\<lambda>c. c) a"
| "spec_step (Unput ch) a = spec_back (\<lambda>c. ch) a"
| "spec_step (SetEcho b) a = Some (a\<lparr>echo := b\<rparr>)"
| "spec_step SaveComment a = Some (a\<lparr>echo_saved := echo a\<rparr>)"
| "spec_step RestoreComment a = Some (a\<lparr>echo := echo_saved a\<rparr>)"
| "spec_step StartToken a = Some a"
| "spec_step RestartToken a = Some a"

fun spec_run :: "lex_op list \<Rightarrow> lex_spec \<Rightarrow> lex_spec option" where
  "spec_run [] a = Some a"
| "spec_run (op # ops) a = do { a' \<leftarrow> spec_step op a; spec_run ops a' }"

definition echoed :: "lex_spec \<Rightarrow> buffer" where
  "echoed a = map snd (filter fst (consumed a))"

definition lex_rel :: "Lex_input_stream \<Rightarrow> lex_spec \<Rightarrow> bool" where
  "lex_rel s a \<longleftrightarrow> m_buf s = map snd (consumed a) @ upcoming a \<and> m_ptr s = length (consumed a) \<and> m_echo s = echo a \<and> m_echo_saved s = echo_saved a \<and>
     take (m_cpp_ptr s) (m_cpp_buf s) = echoed a \<and> m_cpp_ptr s = length (echoed a) \<and> length (m_buf s) \<le> length (m_cpp_buf s)"

lemma memcpy_one: "p < length b \<Longrightarrow> memcpy b p [c] = b[p := c]"
  by (simp add: memcpy_def upd_conv_take_nth_drop)

lemma bytes_one: "p < length b \<Longrightarrow> bytes b p 1 = [b ! p]"
  by (simp add: bytes_def take_Suc Cons_nth_drop_Suc [symmetric])

lemma skip_binary_is_skipn: "skip_binary n s = yySkipn n s"
  by (simp add: skip_binary_def yySkipn_def)

lemma yySkip_is_skipn: "m_ptr s < length (m_buf s) \<Longrightarrow> yySkip s = yySkipn 1 s"
  by (auto simp: yySkip_def yySkipn_def char_at_def put_char_def move_ptr_def bytes_one [unfolded One_nat_def] memcpy_one nat_add_distrib)

lemma yyGet_is_skipn: "m_ptr s < length (m_buf s) \<Longrightarrow> map_option snd (yyGet s) = yySkipn 1 s"
  by (auto simp: yyGet_def yySkipn_def char_at_def put_char_def move_ptr_def bytes_one [unfolded One_nat_def] memcpy_one nat_add_distrib Let_def)

lemma echoed_length: "length (echoed a) \<le> length (consumed a)"
  by (simp add: echoed_def)

lemma echoed_take: "echoed (a\<lparr>consumed := consumed a @ map (Pair e) cs, upcoming := u\<rparr>) = echoed a @ (if e then cs else [])"
  by (simp add: echoed_def o_def)

lemma lex_relD:
  assumes "lex_rel s a"
  shows rel_buf: "m_buf s = map snd (consumed a) @ upcoming a" and rel_ptr: "m_ptr s = length (consumed a)" and rel_echo: "m_echo s = echo a" "m_echo_saved s = echo_saved a"
    and rel_cpp: "take (length (echoed a)) (m_cpp_buf s) = echoed a" "m_cpp_ptr s = length (echoed a)" and rel_room: "length (consumed a) + length (upcoming a) \<le> length (m_cpp_buf s)"
  using assms by (auto simp: lex_rel_def)

lemma yySkipn_sim:
  assumes r: "lex_rel s a" and a: "spec_take n a = Some a'"
  shows "\<exists>s'. yySkipn (int n) s = Some s' \<and> lex_rel s' a'"
proof -
  have n: "n \<le> length (upcoming a)" and a': "a' = a\<lparr>consumed := consumed a @ map (Pair (echo a)) (take n (upcoming a)), upcoming := drop n (upcoming a)\<rparr>"
    using a by (auto simp: spec_take_def split: if_splits)
  note rr = lex_relD [OF r]
  have mv: "move_ptr (m_buf s) (m_ptr s) (int n) = Some (m_ptr s + n)" using rr n by (simp add: move_ptr_def nat_add_distrib)
  have fit: "m_cpp_ptr s + n \<le> length (m_cpp_buf s)" using rr n echoed_length [of a] by simp
  have bs: "bytes (m_buf s) (m_ptr s) n = take n (upcoming a)" using rr by (simp add: bytes_def)
  show ?thesis
  proof (cases "echo a")
    case True
    then show ?thesis
      using mv fit bs rr n unfolding a' by (simp add: yySkipn_def lex_rel_def echoed_take memcpy_def o_def)
  next
    case False
    then show ?thesis using mv rr n unfolding a' by (simp add: yySkipn_def lex_rel_def echoed_take o_def)
  qed
qed

lemma back_sim:
  assumes r: "lex_rel s a" and a: "spec_back f a = Some a'"
  shows "\<exists>c p q. m_ptr s = Suc p \<and> p < length (m_buf s) \<and> m_buf s ! p = c \<and> (m_echo s \<longrightarrow> m_cpp_ptr s = Suc q \<and> Suc q \<le> length (m_cpp_buf s)) \<and>
    lex_rel (s\<lparr>m_ptr := p, m_buf := (m_buf s)[p := f c], m_cpp_ptr := if m_echo s then q else m_cpp_ptr s\<rparr>) a'"
proof -
  obtain cs e c where c: "consumed a = cs @ [(e, c)]" and e: "e = echo a" and a': "a' = a\<lparr>consumed := cs, upcoming := f c # upcoming a\<rparr>"
    using a by (cases "consumed a" rule: rev_cases) (auto simp: spec_back_def split: if_splits)
  note rr = lex_relD [OF r]
  have ea: "echoed a = echoed a' @ (if e then [c] else [])" using c a' by (simp add: echoed_def)
  have q: "take (length (echoed a')) (m_cpp_buf s) = echoed a'" using rr(5) ea by (metis append_eq_conv_conj take_take min.absorb1 le_add1 length_append)
  have l: "length (echoed a) \<le> length (m_cpp_buf s)" using rr(7) echoed_length [of a] by simp
  show ?thesis
    using rr q l ea c e a' by (intro exI [of _ c] exI [of _ "length cs"] exI [of _ "length (echoed a')"]) (auto simp: lex_rel_def nth_append list_update_append)
qed

lemma unget_sim:
  assumes r: "lex_rel s a" and a: "spec_back (\<lambda>c. c) a = Some a'"
  shows "\<exists>s'. yyUnget s = Some s' \<and> lex_rel s' a'"
  using back_sim [OF r a] by (auto simp: yyUnget_def move_ptr_def lex_rel_def split: if_splits)

lemma unput_sim:
  assumes r: "lex_rel s a" and a: "spec_back (\<lambda>c. ch) a = Some a'"
  shows "\<exists>s'. yyUnput ch s = Some s' \<and> lex_rel s' a'"
  using back_sim [OF r a] by (auto simp: yyUnput_def move_ptr_def put_char_def Let_def lex_rel_def split: if_splits)

lemma lex_step_sim:
  assumes r: "lex_rel s a" and a: "spec_step op a = Some a'"
  shows "\<exists>s'. lex_step op s = Some s' \<and> lex_rel s' a'"
proof -
  have one: "m_ptr s < length (m_buf s)" if "spec_take 1 a = Some a'" using that lex_relD [OF r] by (auto simp: spec_take_def split: if_splits)
  show ?thesis
  proof (cases op)
    case Get
    then show ?thesis using yySkipn_sim [OF r, of 1] a one yyGet_is_skipn [of s] by auto
  next
    case Skip
    then show ?thesis using yySkipn_sim [OF r, of 1] a one yySkip_is_skipn [of s] by auto
  next
    case (SkipBinary n)
    then show ?thesis using yySkipn_sim [OF r, of n] a by (simp add: skip_binary_is_skipn)
  next
    case Unget
    then show ?thesis using unget_sim [OF r] a by simp
  next
    case (Unput ch)
    then show ?thesis using unput_sim [OF r] a by simp
  next
    case (Skipn n)
    then show ?thesis using yySkipn_sim [OF r, of n] a by simp
  qed (use r a in \<open>auto simp: lex_rel_def echoed_def set_echo_def save_in_comment_state_def restore_in_comment_state_def start_token_def restart_token_def\<close>)
qed

lemma lex_run_sim: "lex_rel s a \<Longrightarrow> spec_run ops a = Some a' \<Longrightarrow> \<exists>s'. lex_run ops s = Some s' \<and> lex_rel s' a'"
proof (induction ops arbitrary: s a)
  case (Cons op ops)
  then obtain a1 where a1: "spec_step op a = Some a1" "spec_run ops a1 = Some a'" by (auto simp: bind_eq_Some_conv)
  obtain s1 where "lex_step op s = Some s1" "lex_rel s1 a1" using lex_step_sim [OF Cons.prems(1) a1(1)] by blast
  then show ?case using Cons.IH a1(2) by simp
qed simp

section \<open>Properties\<close>

text \<open>C19: whatever sequence of operations the scanner performs, as long as it reads no further than the text and puts a character back in the echo mode in which it was read: every
  access stays inside the two buffers although the pre-processed one is only as long as the text, the raw pointer is the number of characters consumed, and the pre-processed buffer holds just
  the characters that were read in echo mode and not put back.\<close>

theorem lex_input_stream_preprocesses:
  assumes "spec_run ops \<lparr>consumed = [], upcoming = m_buf s, echo = m_echo s, echo_saved = m_echo_saved s\<rparr> = Some a"
    and "m_ptr s = 0" "m_cpp_ptr s = 0" "length (m_buf s) \<le> length (m_cpp_buf s)"
  shows "\<exists>s'. lex_run ops s = Some s' \<and> m_ptr s' = length (consumed a) \<and> m_buf s' = map snd (consumed a) @ upcoming a \<and>
    take (m_cpp_ptr s') (m_cpp_buf s') = echoed a \<and> m_cpp_ptr s' = length (echoed a) \<and> m_cpp_ptr s' \<le> m_ptr s'"
proof -
  have "lex_rel s \<lparr>consumed = [], upcoming = m_buf s, echo = m_echo s, echo_saved = m_echo_saved s\<rparr>" using assms by (simp add: lex_rel_def echoed_def)
  from lex_run_sim [OF this assms(1)] obtain s' where s': "lex_run ops s = Some s'" "lex_rel s' a" by blast
  then show ?thesis using echoed_length [of a] by (auto simp: lex_rel_def)
qed

definition lex_example :: Lex_input_stream where
  "lex_example = \<lparr>m_buf = [47, 42, 65, 32, 0], m_ptr = 0, m_tok_start = 0, m_tok_end = 0, m_end_of_query = 4, m_tok_start_prev = 0, m_echo = False, m_echo_saved = False,
     m_cpp_buf = [0, 0, 0, 0, 0], m_cpp_ptr = 0, m_cpp_tok_start = 0, m_cpp_tok_start_prev = 0, m_cpp_tok_end = 0, lookahead_token = -1, in_comment = NO_COMMENT,
     in_comment_saved = NO_COMMENT\<rparr>"

theorem lex_input_stream_preprocesses_witness:
  "\<exists>s'. lex_run [Skipn 2, SetEcho True, StartToken, Get, Get, Unget] lex_example = Some s' \<and> m_ptr s' = 3 \<and> take (m_cpp_ptr s') (m_cpp_buf s') = [65]"
  using lex_input_stream_preprocesses [of "[Skipn 2, SetEcho True, StartToken, Get, Get, Unget]" lex_example]
  by (auto simp: lex_example_def spec_take_def spec_back_def echoed_def)

text \<open>The trimmed end is the last position before which there is no space.\<close>

theorem rtrim_exact: "rtrim sp b p \<le> p \<and> (\<forall>i. rtrim sp b p \<le> i \<longrightarrow> i < p \<longrightarrow> sp (b ! i)) \<and> (rtrim sp b p = 0 \<or> \<not> sp (b ! (rtrim sp b p - 1)))"
  by (induction p) (auto simp: less_Suc_eq)

end
