(* ===== verification/Sql_Temporal.thy ===== *)
theory Sql_Temporal imports Sql_Type_Int "HOL-Library.Signed_Division" begin

text \<open>
  \<open>mysql_time.h\<close>, \<open>private/my_time.h\<close>, \<open>private/sql_time.h\<close> and the first part of the temporal classes of \<open>private/sql_type.h\<close>: \<open>MYSQL_TIME\<close>, cutting
  fractions of a second, fixed-point seconds (\<open>Sec6\<close>, \<open>Sec9\<close>), rounding by nanoseconds, \<open>Timestamp\<close>. The table \<open>log_10_int\<close> is declared in \<open>my_time.h\<close> and filled elsewhere: it is a
  parameter, and \<open>powers_of_ten\<close> is what the code relies on. The conversions of \<open>sql-common/my_time.c\<close> are parameters too. A parameter that fills in a structure and a warning
  returns both.
\<close>

section \<open>mysql_time.h, my_time.h\<close>

datatype timestamp_type = MYSQL_TIMESTAMP_NONE | MYSQL_TIMESTAMP_ERROR | MYSQL_TIMESTAMP_DATE | MYSQL_TIMESTAMP_DATETIME | MYSQL_TIMESTAMP_TIME

record MYSQL_TIME =
  year :: uint
  month :: uint
  day :: uint
  hour :: uint
  minute :: uint
  second :: uint
  second_part :: ulong
  t_neg :: bool
  time_type :: timestamp_type

definition TIMESTAMP_MAX_YEAR :: uint where "TIMESTAMP_MAX_YEAR = 2038"
definition YY_PART_YEAR :: uint where "YY_PART_YEAR = 70"
definition TIMESTAMP_MIN_YEAR :: uint where "TIMESTAMP_MIN_YEAR = 1900 + YY_PART_YEAR - 1"
definition MYSQL_TIME_WARN_OUT_OF_RANGE :: uint where "MYSQL_TIME_WARN_OUT_OF_RANGE = 2"
definition MYSQL_TIME_NOTE_TRUNCATED :: uint where "MYSQL_TIME_NOTE_TRUNCATED = 16"
definition SECONDS_IN_24H :: ulonglong where "SECONDS_IN_24H = 86400"
definition TIME_MAX_INTERVAL_HOUR :: uint where "TIME_MAX_INTERVAL_HOUR = 87649415"
definition TIME_MAX_HOUR :: uint where "TIME_MAX_HOUR = 838"
definition TIME_MAX_MINUTE :: uint where "TIME_MAX_MINUTE = 59"
definition TIME_MAX_SECOND :: uint where "TIME_MAX_SECOND = 59"
definition TIME_MAX_SECOND_PART :: uint where "TIME_MAX_SECOND_PART = 999999"
definition TIME_SECOND_PART_DIGITS :: uint where "TIME_SECOND_PART_DIGITS = 6"
definition TIME_MAX_VALUE_SECONDS :: ulonglong where
  "TIME_MAX_VALUE_SECONDS = ucast TIME_MAX_HOUR * 3600 + ucast TIME_MAX_MINUTE * 60 + ucast TIME_MAX_SECOND"

definition validate_timestamp_range :: "MYSQL_TIME \<Rightarrow> bool" where
  "validate_timestamp_range t \<longleftrightarrow>
     \<not> ((year t > TIMESTAMP_MAX_YEAR \<or> year t < TIMESTAMP_MIN_YEAR) \<or>
        (year t = TIMESTAMP_MAX_YEAR \<and> (month t > 1 \<or> day t > 19)) \<or>
        (year t = TIMESTAMP_MIN_YEAR \<and> (month t < 12 \<or> day t < 31)))"

type_synonym log10_table = "nat \<Rightarrow> ulonglong"

text \<open>Signed division and remainder of C, rounding towards zero.\<close>

definition sec_part_shift :: "log10_table \<Rightarrow> longlong \<Rightarrow> uint \<Rightarrow> longlong" where
  "sec_part_shift log_10_int part digits = word_of_int (sint part sdiv sint (log_10_int (unat (TIME_SECOND_PART_DIGITS - digits))))"

definition sec_part_unshift :: "log10_table \<Rightarrow> longlong \<Rightarrow> uint \<Rightarrow> longlong" where
  "sec_part_unshift log_10_int part digits = part * log_10_int (unat (TIME_SECOND_PART_DIGITS - digits))"

definition my_time_fraction_remainder :: "log10_table \<Rightarrow> int32 \<Rightarrow> uint \<Rightarrow> int32" where
  "my_time_fraction_remainder log_10_int nr decimals =
     word_of_int (sint nr smod sint (ucast (log_10_int (unat (TIME_SECOND_PART_DIGITS - decimals))) :: int32))"

definition my_datetime_trunc :: "log10_table \<Rightarrow> uint \<Rightarrow> MYSQL_TIME \<Rightarrow> MYSQL_TIME" where
  "my_datetime_trunc log_10_int decimals t = t\<lparr>second_part := second_part t - my_time_fraction_remainder log_10_int (second_part t) decimals\<rparr>"

definition my_time_trunc :: "log10_table \<Rightarrow> uint \<Rightarrow> MYSQL_TIME \<Rightarrow> MYSQL_TIME" where
  "my_time_trunc log_10_int decimals t =
     (let t1 = t\<lparr>second_part := second_part t - my_time_fraction_remainder log_10_int (second_part t) decimals\<rparr> in
      if second_part t1 = 0 \<and> t_neg t1 \<and> hour t1 = 0 \<and> minute t1 = 0 \<and> second t1 = 0 then t1\<lparr>t_neg := False\<rparr> else t1)"

record timeval =
  tv_sec :: int32
  tv_usec :: int32

definition my_timeval_trunc :: "log10_table \<Rightarrow> uint \<Rightarrow> timeval \<Rightarrow> timeval" where
  "my_timeval_trunc log_10_int decimals tv = tv\<lparr>tv_usec := tv_usec tv - my_time_fraction_remainder log_10_int (tv_usec tv) decimals\<rparr>"

section \<open>sql_time.h\<close>

definition datetime_to_date :: "MYSQL_TIME \<Rightarrow> MYSQL_TIME" where
  "datetime_to_date t = t\<lparr>second_part := 0, hour := 0, minute := 0, second := 0, time_type := MYSQL_TIMESTAMP_DATE\<rparr>"

definition date_to_datetime :: "MYSQL_TIME \<Rightarrow> MYSQL_TIME" where
  "date_to_datetime t = t\<lparr>time_type := MYSQL_TIMESTAMP_DATETIME\<rparr>"

definition non_zero_hhmmssuu :: "MYSQL_TIME \<Rightarrow> bool" where
  "non_zero_hhmmssuu t \<longleftrightarrow> hour t \<noteq> 0 \<or> minute t \<noteq> 0 \<or> second t \<noteq> 0 \<or> second_part t \<noteq> 0"

definition non_zero_YYMMDD :: "MYSQL_TIME \<Rightarrow> bool" where
  "non_zero_YYMMDD t \<longleftrightarrow> year t \<noteq> 0 \<or> month t \<noteq> 0 \<or> day t \<noteq> 0"

definition non_zero_date :: "MYSQL_TIME \<Rightarrow> bool" where
  "non_zero_date t \<longleftrightarrow> non_zero_YYMMDD t \<or> (time_type t = MYSQL_TIMESTAMP_DATETIME \<and> non_zero_hhmmssuu t)"

section \<open>Sec6, Sec9\<close>

record Sec6 =
  m_sec :: ulonglong
  m_usec :: ulong
  m_neg :: bool
  m_truncated :: bool

definition make_from_int :: "Longlong_hybrid \<Rightarrow> Sec6" where
  "make_from_int nr = \<lparr>m_sec = hybrid_abs nr, m_usec = 0, m_neg = neg nr, m_truncated = False\<rparr>"

definition sec6_reset :: "'x Sec6_scheme \<Rightarrow> 'x Sec6_scheme" where
  "sec6_reset s = s\<lparr>m_sec := 0, m_usec := 0, m_neg := False, m_truncated := False\<rparr>"

definition add_nanoseconds :: "uint \<Rightarrow> 'x Sec6_scheme \<Rightarrow> bool \<times> 'x Sec6_scheme" where
  "add_nanoseconds nanoseconds s =
     (if nanoseconds < 500 then (False, s)
      else let u = m_usec s + (nanoseconds + 500) div 1000 in
           if u < 1000000 then (False, s\<lparr>m_usec := u\<rparr>) else (True, s\<lparr>m_usec := u mod 1000000\<rparr>))"

text \<open>The conversions of a number that the dispatchers below choose from: the result \<open>True\<close> is the failure.\<close>

record conversions =
  number_to_time_only :: "bool \<Rightarrow> ulonglong \<Rightarrow> ulong \<Rightarrow> uint \<Rightarrow> bool \<times> MYSQL_TIME \<times> uint"
  number_to_datetime_or_date :: "ulonglong \<Rightarrow> ulong \<Rightarrow> ulonglong \<Rightarrow> bool \<times> MYSQL_TIME \<times> uint"

definition to_interval_hhmmssff_only :: "conversions \<Rightarrow> 'x Sec6_scheme \<Rightarrow> bool \<times> MYSQL_TIME \<times> uint" where
  "to_interval_hhmmssff_only cv s = number_to_time_only cv (m_neg s) (m_sec s) (m_usec s) TIME_MAX_INTERVAL_HOUR"

definition to_datetime_or_date :: "conversions \<Rightarrow> ulonglong \<Rightarrow> 'x Sec6_scheme \<Rightarrow> MYSQL_TIME \<Rightarrow> bool \<times> MYSQL_TIME \<times> uint" where
  "to_datetime_or_date cv flags s to =
     (if m_neg s then (True, to, MYSQL_TIME_WARN_OUT_OF_RANGE) else number_to_datetime_or_date cv (m_sec s) (m_usec s) flags)"

definition to_datetime_or_to_interval_hhmmssff :: "conversions \<Rightarrow> ulonglong \<Rightarrow> 'x Sec6_scheme \<Rightarrow> MYSQL_TIME \<Rightarrow> bool \<times> MYSQL_TIME \<times> uint" where
  "to_datetime_or_to_interval_hhmmssff cv time_invalid_dates s to =
     (if m_sec s > 999999995959 \<and> m_sec s \<le> 99991231235959 \<and> \<not> m_neg s then to_datetime_or_date cv time_invalid_dates s to
      else if m_sec s div 10000 > ucast TIME_MAX_INTERVAL_HOUR then (True, to, MYSQL_TIME_WARN_OUT_OF_RANGE)
      else to_interval_hhmmssff_only cv s)"

definition to_datetime_or_time :: "conversions \<Rightarrow> ulonglong \<Rightarrow> 'x Sec6_scheme \<Rightarrow> bool \<times> MYSQL_TIME \<times> uint" where
  "to_datetime_or_time cv mode s =
     (if m_sec s > 9999999 \<and> m_sec s \<le> 99991231235959 \<and> \<not> m_neg s then number_to_datetime_or_date cv (m_sec s) (m_usec s) mode
      else number_to_time_only cv (m_neg s) (m_sec s) (m_usec s) TIME_MAX_HOUR)"

text \<open>\<open>set_zero_time\<close> fills in a structure of the given type, and \<open>check_time_range\<close> sets a value out of range to the largest one for the number of decimals; both are parameters.\<close>

definition sec_to_time :: "(timestamp_type \<Rightarrow> MYSQL_TIME) \<Rightarrow> (MYSQL_TIME \<Rightarrow> uint \<Rightarrow> MYSQL_TIME) \<Rightarrow> 'x Sec6_scheme \<Rightarrow> uint \<Rightarrow> bool \<times> MYSQL_TIME" where
  "sec_to_time set_zero_time check_time_range s dec =
     (let t = (set_zero_time MYSQL_TIMESTAMP_TIME)\<lparr>t_neg := m_neg s\<rparr> in
      if m_sec s > TIME_MAX_VALUE_SECONDS then (True, check_time_range (t\<lparr>hour := TIME_MAX_HOUR + 1\<rparr>) dec)
      else (False, t\<lparr>hour := ucast (m_sec s div 3600), minute := ucast (m_sec s mod 3600) div 60, second := ucast (m_sec s) mod 60, second_part := m_usec s\<rparr>))"

definition sec6_trunc :: "log10_table \<Rightarrow> uint \<Rightarrow> 'x Sec6_scheme \<Rightarrow> 'x Sec6_scheme" where
  "sec6_trunc log_10_int dec s = s\<lparr>m_usec := m_usec s - my_time_fraction_remainder log_10_int (m_usec s) dec\<rparr>"

record Sec9 = Sec6 +
  m_nsec :: ulong

datatype time_round_mode = FRAC_NONE | FRAC_TRUNCATE | FRAC_ROUND

definition sec9_make_from_int :: "Longlong_hybrid \<Rightarrow> Sec9" where
  "sec9_make_from_int nr = Sec6.extend (make_from_int nr) (Sec9.fields 0)"

definition sec9_trunc :: "log10_table \<Rightarrow> uint \<Rightarrow> Sec9 \<Rightarrow> Sec9" where
  "sec9_trunc log_10_int dec s = sec6_trunc log_10_int dec (s\<lparr>m_nsec := 0\<rparr>)"

definition sec9_round :: "log10_table \<Rightarrow> (uint \<Rightarrow> Sec9 \<Rightarrow> Sec9) \<Rightarrow> uint \<Rightarrow> time_round_mode \<Rightarrow> Sec9 \<Rightarrow> Sec9" where
  "sec9_round log_10_int round dec mode s = (if mode = FRAC_TRUNCATE then sec9_trunc log_10_int dec s else round dec s)"

section \<open>Temporal\<close>

definition is_valid_temporal :: "MYSQL_TIME \<Rightarrow> bool" where
  "is_valid_temporal t \<longleftrightarrow> time_type t \<noteq> MYSQL_TIMESTAMP_NONE"

definition make_from_out_of_range :: "MYSQL_TIME \<Rightarrow> MYSQL_TIME \<times> uint" where
  "make_from_out_of_range t = (t\<lparr>time_type := MYSQL_TIMESTAMP_NONE\<rparr>, MYSQL_TIME_WARN_OUT_OF_RANGE)"

definition has_valid_mmssff :: "MYSQL_TIME \<Rightarrow> bool" where
  "has_valid_mmssff t \<longleftrightarrow> minute t \<le> TIME_MAX_MINUTE \<and> second t \<le> TIME_MAX_SECOND \<and> second_part t \<le> TIME_MAX_SECOND_PART"

definition has_zero_YYYYMM :: "MYSQL_TIME \<Rightarrow> bool" where
  "has_zero_YYYYMM t \<longleftrightarrow> year t = 0 \<and> month t = 0"

definition has_zero_YYYYMMDD :: "MYSQL_TIME \<Rightarrow> bool" where
  "has_zero_YYYYMMDD t \<longleftrightarrow> year t = 0 \<and> month t = 0 \<and> day t = 0"

definition time_hhmmssff_set_max :: "uint \<Rightarrow> MYSQL_TIME \<Rightarrow> MYSQL_TIME" where
  "time_hhmmssff_set_max max_hour t =
     t\<lparr>hour := max_hour, minute := TIME_MAX_MINUTE, second := TIME_MAX_SECOND, second_part := TIME_MAX_SECOND_PART\<rparr>"

definition add_nanoseconds_ssff :: "uint \<Rightarrow> MYSQL_TIME \<Rightarrow> bool \<times> MYSQL_TIME" where
  "add_nanoseconds_ssff nanoseconds t =
     (if nanoseconds < 500 then (False, t)
      else let p = second_part t + (nanoseconds + 500) div 1000 in
           if p < 1000000 then (False, t\<lparr>second_part := p\<rparr>)
           else let t1 = t\<lparr>second_part := p mod 1000000\<rparr> in
                if second t1 < 59 then (False, t1\<lparr>second := second t1 + 1\<rparr>) else (True, t1\<lparr>second := 0\<rparr>))"

definition add_nanoseconds_mmssff :: "uint \<Rightarrow> MYSQL_TIME \<Rightarrow> bool \<times> MYSQL_TIME" where
  "add_nanoseconds_mmssff nanoseconds t =
     (let (carry, t1) = add_nanoseconds_ssff nanoseconds t in
      if \<not> carry then (False, t1)
      else if minute t1 < 59 then (False, t1\<lparr>minute := minute t1 + 1\<rparr>) else (True, t1\<lparr>minute := 0\<rparr>))"

section \<open>Timestamp\<close>

definition add_nanoseconds_usec :: "uint \<Rightarrow> timeval \<Rightarrow> bool \<times> timeval" where
  "add_nanoseconds_usec nanoseconds tv =
     (if nanoseconds < 500 then (False, tv)
      else let u = tv_usec tv + (nanoseconds + 500) div 1000 in
           if u <s 1000000 then (False, tv\<lparr>tv_usec := u\<rparr>) else (True, tv\<lparr>tv_usec := word_of_int (sint u smod 1000000)\<rparr>))"

definition timestamp_cmp :: "timeval \<Rightarrow> timeval \<Rightarrow> int" where
  "timestamp_cmp a b =
     (if tv_sec a <s tv_sec b then -1 else if tv_sec b <s tv_sec a then 1
      else if tv_usec a <s tv_usec b then -1 else if tv_usec b <s tv_usec a then 1 else 0)"

definition timestamp_round :: "log10_table \<Rightarrow> (uint \<Rightarrow> timeval \<Rightarrow> timeval) \<Rightarrow> uint \<Rightarrow> time_round_mode \<Rightarrow> timeval \<Rightarrow> timeval" where
  "timestamp_round log_10_int round_or_set_max dec mode tv =
     (case mode of FRAC_NONE \<Rightarrow> my_timeval_trunc log_10_int dec tv | FRAC_TRUNCATE \<Rightarrow> my_timeval_trunc log_10_int dec tv | FRAC_ROUND \<Rightarrow> round_or_set_max dec tv)"

record Timestamp_or_zero_datetime = timeval +
  m_is_zero_datetime :: bool

definition ts_or_zero_trunc :: "log10_table \<Rightarrow> uint \<Rightarrow> Timestamp_or_zero_datetime \<Rightarrow> Timestamp_or_zero_datetime" where
  "ts_or_zero_trunc log_10_int decimals t =
     (if \<not> m_is_zero_datetime t then t\<lparr>tv_usec := tv_usec (my_timeval_trunc log_10_int decimals (timeval.truncate t))\<rparr> else t)"

definition ts_or_zero_cmp :: "Timestamp_or_zero_datetime \<Rightarrow> Timestamp_or_zero_datetime \<Rightarrow> int" where
  "ts_or_zero_cmp a b =
     (if m_is_zero_datetime a then (if m_is_zero_datetime b then 0 else -1)
      else if m_is_zero_datetime b then 1 else timestamp_cmp (timeval.truncate a) (timeval.truncate b))"

section \<open>Properties\<close>

definition powers_of_ten :: "log10_table \<Rightarrow> bool" where
  "powers_of_ten log_10_int \<longleftrightarrow> (\<forall>i < 20. log_10_int i = 10 ^ i)"

definition zero_time :: "(timestamp_type \<Rightarrow> MYSQL_TIME) \<Rightarrow> bool" where
  "zero_time set_zero_time \<longleftrightarrow> (\<forall>ty. let t = set_zero_time ty in year t = 0 \<and> month t = 0 \<and> day t = 0 \<and> hour t = 0 \<and> minute t = 0 \<and> second t = 0 \<and>
     second_part t = 0 \<and> \<not> t_neg t \<and> time_type t = ty)"

text \<open>A valid time in microseconds since the last full hour, and nanoseconds rounded to microseconds, half up.\<close>

definition mmssff :: "MYSQL_TIME \<Rightarrow> nat" where
  "mmssff t = (unat (minute t) * 60 + unat (second t)) * 1000000 + unat (second_part t)"

definition rounded :: "uint \<Rightarrow> nat" where
  "rounded nsec = (unat nsec + 500) div 1000"

lemma rounded_word:
  assumes "unat nsec \<le> 1000000000"
  shows "unat ((nsec + 500) div 1000) = rounded nsec" "rounded nsec \<le> 1000000"
proof -
  have "unat (nsec + 500) = unat nsec + 500" using assms by (simp add: unat_word_ariths)
  then show "unat ((nsec + 500) div 1000) = rounded nsec" by (simp add: unat_div rounded_def)
  show "rounded nsec \<le> 1000000" using assms by (simp add: rounded_def)
qed

lemma rounded_small: "nsec < 500 \<Longrightarrow> rounded nsec = 0"
  by (simp add: rounded_def word_less_nat_alt)

lemma unat_add_less: "unat a + unat b < 4294967296 \<Longrightarrow> unat (a + b :: uint) = unat a + unat b"
  by (simp add: unat_word_ariths)

lemma ssff_exact:
  assumes t: "second t \<le> 59" "second_part t \<le> 999999" and n: "unat nsec \<le> 1000000000" and r: "add_nanoseconds_ssff nsec t = (carry, t')"
  shows "unat (second t) * 1000000 + unat (second_part t) + rounded nsec = unat (second t') * 1000000 + unat (second_part t') + (if carry then 60000000 else 0)"
    and "second t' \<le> 59 \<and> second_part t' \<le> 999999" and "t' = t\<lparr>second := second t', second_part := second_part t'\<rparr>"
proof -
  let ?p = "second_part t + (nsec + 500) div 1000"
  have b: "unat (second t) \<le> 59" "unat (second_part t) \<le> 999999" using t by (simp_all add: word_le_nat_alt)
  have p: "unat ?p = unat (second_part t) + rounded nsec" using rounded_word [OF n] b unat_add_less [of "second_part t" "(nsec + 500) div 1000"] by simp
  have s: "second t < 59 \<Longrightarrow> unat (second t + 1) = unat (second t) + 1" using unat_Suc_below [of "second t" 59] by (simp add: word_less_nat_alt)
  have m: "\<not> ?p < 1000000 \<Longrightarrow> unat (?p mod 1000000) + 1000000 = unat ?p"
  proof -
    assume "\<not> ?p < 1000000"
    then have "1000000 \<le> unat ?p" "unat ?p < 2000000" using p b rounded_word(2) [OF n] by (simp_all add: word_less_nat_alt)
    then show ?thesis by (simp add: unat_mod le_mod_geq)
  qed
  consider "nsec < 500" | "\<not> nsec < 500" "?p < 1000000" | "\<not> nsec < 500" "\<not> ?p < 1000000" "second t < 59" | "\<not> nsec < 500" "\<not> ?p < 1000000" "\<not> second t < 59" by blast
  then have "unat (second t) * 1000000 + unat (second_part t) + rounded nsec = unat (second t') * 1000000 + unat (second_part t') + (if carry then 60000000 else 0) \<and>
    unat (second t') \<le> 59 \<and> unat (second_part t') \<le> 999999 \<and> t' = t\<lparr>second := second t', second_part := second_part t'\<rparr>"
  proof cases
    case 1
    then show ?thesis using r b rounded_small by (auto simp: add_nanoseconds_ssff_def)
  next
    case 2
    then show ?thesis using r b p by (auto simp: add_nanoseconds_ssff_def Let_def word_less_nat_alt)
  next
    case 3
    then have "carry = False" "second t' = second t + 1" "second_part t' = ?p mod 1000000" "t' = t\<lparr>second := second t', second_part := second_part t'\<rparr>"
      using r by (auto simp: add_nanoseconds_ssff_def Let_def)
    then show ?thesis using s [OF 3(3)] m [OF 3(2)] p b rounded_word(2) [OF n] 3(3) by (simp add: word_less_nat_alt)
  next
    case 4
    then have "carry" "second t' = 0" "second_part t' = ?p mod 1000000" "t' = t\<lparr>second := second t', second_part := second_part t'\<rparr>"
      using r by (auto simp: add_nanoseconds_ssff_def Let_def)
    moreover have "unat (second t) = 59" using 4(3) b by (simp add: word_less_nat_alt)
    ultimately show ?thesis using m [OF 4(2)] p b rounded_word(2) [OF n] by simp
  qed
  then show "unat (second t) * 1000000 + unat (second_part t) + rounded nsec = unat (second t') * 1000000 + unat (second_part t') + (if carry then 60000000 else 0)"
    and "second t' \<le> 59 \<and> second_part t' \<le> 999999" and "t' = t\<lparr>second := second t', second_part := second_part t'\<rparr>"
    by (simp_all add: word_le_nat_alt)
qed

text \<open>rounding a valid time by nanoseconds is exact: minutes, seconds and microseconds grow by the nanoseconds rounded half up, an hour is carried just when they pass the full
  hour, and the fields stay valid; hour, date, sign and type are untouched.\<close>

theorem add_nanoseconds_exact:
  assumes v: "has_valid_mmssff t" and n: "unat nsec \<le> 1000000000"
  shows "case add_nanoseconds_mmssff nsec t of (carry, t') \<Rightarrow>
    mmssff t + rounded nsec = mmssff t' + (if carry then 3600000000 else 0) \<and> has_valid_mmssff t' \<and>
    t' = t\<lparr>minute := minute t', second := second t', second_part := second_part t'\<rparr>"
proof -
  obtain c t1 where r: "add_nanoseconds_ssff nsec t = (c, t1)" by fastforce
  have b: "minute t \<le> 59" "second t \<le> 59" "second_part t \<le> 999999" using v by (simp_all add: has_valid_mmssff_def TIME_MAX_MINUTE_def TIME_MAX_SECOND_def TIME_MAX_SECOND_PART_def)
  obtain x y where t1: "t1 = t\<lparr>second := x, second_part := y\<rparr>" using ssff_exact(3) [OF b(2,3) n r] by blast
  have s: "unat (second t) * 1000000 + unat (second_part t) + rounded nsec = unat x * 1000000 + unat y + (if c then 60000000 else 0)" "x \<le> 59" "y \<le> 999999"
    using ssff_exact(1,2) [OF b(2,3) n r] by (simp_all add: t1)
  have m: "minute t < 59 \<Longrightarrow> unat (minute t + 1) = unat (minute t) + 1" using unat_Suc_below [of "minute t" 59] by (simp add: word_less_nat_alt)
  have m59: "\<not> minute t < 59 \<Longrightarrow> unat (minute t) = 59" using b(1) by (simp add: word_less_nat_alt word_le_nat_alt)
  have le: "minute t < 59 \<Longrightarrow> minute t + 1 \<le> 59" using m by (simp add: word_less_nat_alt word_le_nat_alt)
  show ?thesis
    using s b(1) m m59 le
    by (simp add: add_nanoseconds_mmssff_def r t1 mmssff_def has_valid_mmssff_def TIME_MAX_MINUTE_def TIME_MAX_SECOND_def TIME_MAX_SECOND_PART_def algebra_simps)
qed

lemma sint_small:
  assumes "uint (w :: int32) < 2 ^ 31"
  shows "sint w = uint w"
proof -
  have "- (2 ^ 31) \<le> uint w" by (rule order_trans [of _ 0]) simp_all
  then show ?thesis using assms by (simp add: sint_uint signed_take_bit_int_eq_self)
qed

lemma smod_nonneg: "0 \<le> a \<Longrightarrow> 0 < b \<Longrightarrow> (a :: int) smod b = a mod b"
  by (cases "a = 0") (simp_all add: smod_int_alt_def)

lemma remainder_exact:
  assumes L: "powers_of_ten log_10_int" and d: "unat dec \<le> 6" and n: "unat nr < 1000000"
  shows "unat (my_time_fraction_remainder log_10_int nr dec) = unat nr mod 10 ^ (6 - unat dec)"
proof -
  let ?k = "6 - unat dec"
  have u: "unat (TIME_SECOND_PART_DIGITS - dec) = ?k" using d by (simp add: TIME_SECOND_PART_DIGITS_def unat_sub word_le_nat_alt)
  have k: "(10 :: nat) ^ ?k \<le> 10 ^ 6" by (rule power_increasing) simp_all
  have t: "log_10_int ?k = 10 ^ ?k" using L by (simp add: powers_of_ten_def)
  have "?k \<in> {0, 1, 2, 3, 4, 5, 6}" by (simp; linarith)
  then have b: "sint (ucast (10 ^ ?k :: ulonglong) :: int32) = 10 ^ ?k" by auto
  have n': "uint nr < 1000000" using n [unfolded unat_eq_nat_uint] by linarith
  then have a: "sint nr = uint nr" by (simp add: sint_small)
  have "my_time_fraction_remainder log_10_int nr dec = word_of_int (uint nr mod 10 ^ ?k)"
    by (simp add: my_time_fraction_remainder_def u t a b smod_nonneg)
  moreover have "uint nr mod 10 ^ ?k \<le> uint nr" by (rule zmod_le_nonneg_dividend) simp
  then have "uint nr mod 10 ^ ?k < 2 ^ 32" using n' by simp
  ultimately have "uint (my_time_fraction_remainder log_10_int nr dec) = uint nr mod 10 ^ ?k" by (simp add: uint_word_of_int)
  then show ?thesis unfolding unat_eq_nat_uint by (simp add: nat_mod_distrib nat_power_eq del: nat_uint_eq)
qed

text \<open>Cutting a time to a number of decimals gives the largest multiple of that unit not above the fraction, changes no other field, and never leaves a negative zero.\<close>

theorem time_trunc_exact:
  assumes L: "powers_of_ten log_10_int" and d: "unat dec \<le> 6" and t: "second_part t \<le> TIME_MAX_SECOND_PART"
  shows "let t' = my_time_trunc log_10_int dec t in
    unat (second_part t') = (unat (second_part t) div 10 ^ (6 - unat dec)) * 10 ^ (6 - unat dec) \<and>
    t' = t\<lparr>second_part := second_part t', t_neg := t_neg t'\<rparr> \<and> (t_neg t' \<longleftrightarrow> t_neg t \<and> non_zero_hhmmssuu t')"
proof -
  let ?r = "my_time_fraction_remainder log_10_int (second_part t) dec" and ?k = "6 - unat dec"
  have n: "unat (second_part t) < 1000000" using t by (simp add: TIME_MAX_SECOND_PART_def word_le_nat_alt)
  have r: "unat ?r = unat (second_part t) mod 10 ^ ?k" by (rule remainder_exact [OF L d n])
  then have "?r \<le> second_part t" by (simp add: word_le_nat_alt)
  then have "unat (second_part t - ?r) = unat (second_part t) - unat (second_part t) mod 10 ^ ?k" using r by (simp add: unat_sub)
  also have "\<dots> = (unat (second_part t) div 10 ^ ?k) * 10 ^ ?k" by (simp add: minus_mod_eq_div_mult)
  finally show ?thesis by (auto simp: my_time_trunc_def Let_def non_zero_hhmmssuu_def)
qed

definition table10 :: log10_table where
  "table10 i = 10 ^ i"

definition eve :: MYSQL_TIME where
  "eve = \<lparr>year = 0, month = 0, day = 0, hour = 0, minute = 59, second = 59, second_part = 999999, t_neg = True, time_type = MYSQL_TIMESTAMP_TIME\<rparr>"

theorem add_nanoseconds_exact_witness: "case add_nanoseconds_mmssff 500 eve of (carry, t') \<Rightarrow> mmssff eve + 1 = mmssff t' + (if carry then 3600000000 else 0) \<and> has_valid_mmssff t'"
proof -
  have "has_valid_mmssff eve" by (simp add: has_valid_mmssff_def eve_def TIME_MAX_MINUTE_def TIME_MAX_SECOND_def TIME_MAX_SECOND_PART_def)
  from add_nanoseconds_exact [OF this, of 500] show ?thesis by (auto simp: rounded_def split: prod.splits)
qed

theorem time_trunc_exact_witness: "unat (second_part (my_time_trunc table10 2 eve)) = 990000"
proof -
  have "powers_of_ten table10" by (simp add: powers_of_ten_def table10_def)
  from time_trunc_exact [OF this, of 2 eve] show ?thesis by (simp add: Let_def eve_def TIME_MAX_SECOND_PART_def)
qed

end
