(* ===== verification/Sql_Time.thy ===== *)
theory Sql_Time imports Sql_Temporal begin

text \<open>
  \<open>private/sql_type.h\<close>, the classes \<open>Extract_source\<close> (the argument of EXTRACT), \<open>Time\<close> (TIME values and how other values become one) and \<open>Sec6_add\<close> (sums of times). What they call in
  \<open>sql_time.cc\<close> and \<open>my_time.c\<close> is a parameter: the difference of two values, the check of the range, the rounding that may reach the maximum.
\<close>

section \<open>Extract_source\<close>

definition time_to_daytime_interval :: "MYSQL_TIME \<Rightarrow> MYSQL_TIME" where
  "time_to_daytime_interval t = t\<lparr>day := hour t div 24, hour := hour t mod 24\<rparr>"

definition Extract_source_of :: "MYSQL_TIME \<Rightarrow> MYSQL_TIME" where
  "Extract_source_of t = (if time_type t = MYSQL_TIMESTAMP_TIME then time_to_daytime_interval t else t)"

definition is_valid_extract_source_slow :: "MYSQL_TIME \<Rightarrow> bool" where
  "is_valid_extract_source_slow t \<longleftrightarrow> is_valid_temporal t \<and> hour t < 24 \<and> (has_zero_YYYYMM t \<or> time_type t \<noteq> MYSQL_TIMESTAMP_TIME)"

definition ex_sign :: "MYSQL_TIME \<Rightarrow> int32" where "ex_sign t = (if t_neg t then -1 else 1)"
definition ex_day :: "MYSQL_TIME \<Rightarrow> int32" where "ex_day t = day t * ex_sign t"
definition ex_hour :: "MYSQL_TIME \<Rightarrow> int32" where "ex_hour t = hour t * ex_sign t"
definition ex_minute :: "MYSQL_TIME \<Rightarrow> int32" where "ex_minute t = minute t * ex_sign t"
definition ex_second :: "MYSQL_TIME \<Rightarrow> int32" where "ex_second t = second t * ex_sign t"
definition ex_microsecond :: "MYSQL_TIME \<Rightarrow> int32" where "ex_microsecond t = second_part t * ex_sign t"
definition year_month :: "MYSQL_TIME \<Rightarrow> uint" where "year_month t = year t * 100 + month t"
definition quarter :: "MYSQL_TIME \<Rightarrow> uint" where "quarter t = (month t + 2) div 3"
definition second_microsecond :: "MYSQL_TIME \<Rightarrow> longlong" where "second_microsecond t = scast (ex_second t) * 1000000 + scast (ex_microsecond t)"
definition day_hour :: "MYSQL_TIME \<Rightarrow> longlong" where "day_hour t = scast (ex_day t) * 100 + scast (ex_hour t)"
definition day_minute :: "MYSQL_TIME \<Rightarrow> longlong" where "day_minute t = day_hour t * 100 + scast (ex_minute t)"
definition day_second :: "MYSQL_TIME \<Rightarrow> longlong" where "day_second t = day_minute t * 100 + scast (ex_second t)"
definition day_microsecond :: "MYSQL_TIME \<Rightarrow> longlong" where "day_microsecond t = day_second t * 1000000 + scast (ex_microsecond t)"
definition hour_minute :: "MYSQL_TIME \<Rightarrow> int32" where "hour_minute t = ex_hour t * 100 + ex_minute t"
definition hour_second :: "MYSQL_TIME \<Rightarrow> int32" where "hour_second t = hour_minute t * 100 + ex_second t"
definition hour_microsecond :: "MYSQL_TIME \<Rightarrow> longlong" where "hour_microsecond t = scast (hour_second t) * 1000000 + scast (ex_microsecond t)"
definition minute_second :: "MYSQL_TIME \<Rightarrow> int32" where "minute_second t = ex_minute t * 100 + ex_second t"
definition minute_microsecond :: "MYSQL_TIME \<Rightarrow> longlong" where "minute_microsecond t = scast (minute_second t) * 1000000 + scast (ex_microsecond t)"

section \<open>Time\<close>

datatype datetime_to_time_mode = DATETIME_TO_TIME_DISALLOW | DATETIME_TO_TIME_YYYYMMDD_000000DD_MIX_TO_HOURS | DATETIME_TO_TIME_YYYYMMDD_TRUNCATE
  | DATETIME_TO_TIME_YYYYMMDD_00000000_ONLY | DATETIME_TO_TIME_MINUS_CURRENT_DATE

text \<open>The functions of other files that class \<open>Time\<close> calls; \<open>calc_time_diff\<close> is the one that stores its result as a time.\<close>

record time_env =
  set_zero_time :: "timestamp_type \<Rightarrow> MYSQL_TIME"
  current_date :: MYSQL_TIME
  calc_time_diff :: "MYSQL_TIME \<Rightarrow> MYSQL_TIME \<Rightarrow> int \<Rightarrow> MYSQL_TIME"
  check_time_range :: "MYSQL_TIME \<Rightarrow> uint \<Rightarrow> uint \<Rightarrow> bool \<times> MYSQL_TIME \<times> uint"
  round_or_set_max :: "uint \<Rightarrow> uint \<Rightarrow> uint \<Rightarrow> MYSQL_TIME \<Rightarrow> MYSQL_TIME \<times> uint"
  round_or_set_max_dec :: "uint \<Rightarrow> uint \<Rightarrow> MYSQL_TIME \<Rightarrow> MYSQL_TIME \<times> uint"

definition is_valid_time_slow :: "MYSQL_TIME \<Rightarrow> bool" where
  "is_valid_time_slow t \<longleftrightarrow> time_type t = MYSQL_TIMESTAMP_TIME \<and> has_zero_YYYYMMDD t \<and> has_valid_mmssff t"

definition is_valid_value_slow :: "MYSQL_TIME \<Rightarrow> bool" where
  "is_valid_value_slow t \<longleftrightarrow> time_type t = MYSQL_TIMESTAMP_NONE \<or> is_valid_time_slow t"

definition hhmmssff_copy :: "MYSQL_TIME \<Rightarrow> MYSQL_TIME \<Rightarrow> MYSQL_TIME" where
  "hhmmssff_copy from t = t\<lparr>hour := hour from, minute := minute from, second := second from, second_part := second_part from\<rparr>"

definition datetime_to_time_mix_to_hours :: "uint \<Rightarrow> uint \<Rightarrow> uint \<Rightarrow> uint \<Rightarrow> MYSQL_TIME \<Rightarrow> MYSQL_TIME \<times> uint" where
  "datetime_to_time_mix_to_hours warn from_year from_month from_day t =
     (if from_year \<noteq> 0 \<or> from_month \<noteq> 0 then (t, warn OR MYSQL_TIME_NOTE_TRUNCATED) else (t\<lparr>hour := hour t + from_day * 24\<rparr>, warn))"

definition datetime_to_time_minus_current_date :: "time_env \<Rightarrow> MYSQL_TIME \<Rightarrow> MYSQL_TIME" where
  "datetime_to_time_minus_current_date env t = fst (snd (check_time_range env (calc_time_diff env t (current_date env) 1) TIME_SECOND_PART_DIGITS 0))"

definition valid_datetime_to_valid_time :: "time_env \<Rightarrow> datetime_to_time_mode \<Rightarrow> uint \<Rightarrow> MYSQL_TIME \<Rightarrow> MYSQL_TIME \<times> uint" where
  "valid_datetime_to_valid_time env mode warn t =
     (if mode = DATETIME_TO_TIME_MINUS_CURRENT_DATE then (datetime_to_time_minus_current_date env t, warn)
      else let (t1, warn1) = (if mode = DATETIME_TO_TIME_YYYYMMDD_000000DD_MIX_TO_HOURS then datetime_to_time_mix_to_hours warn (year t) (month t) (day t) t else (t, warn)) in
           (t1\<lparr>year := 0, month := 0, day := 0, time_type := MYSQL_TIMESTAMP_TIME\<rparr>, warn1))"

definition valid_MYSQL_TIME_to_valid_value :: "time_env \<Rightarrow> datetime_to_time_mode \<Rightarrow> uint \<Rightarrow> MYSQL_TIME \<Rightarrow> MYSQL_TIME \<times> uint" where
  "valid_MYSQL_TIME_to_valid_value env mode warn t =
     (case time_type t of
        MYSQL_TIMESTAMP_NONE \<Rightarrow> (t, warn)
      | MYSQL_TIMESTAMP_ERROR \<Rightarrow> (set_zero_time env MYSQL_TIMESTAMP_TIME, warn)
      | MYSQL_TIMESTAMP_TIME \<Rightarrow> (t, warn)
      | _ \<Rightarrow> if mode = DATETIME_TO_TIME_YYYYMMDD_00000000_ONLY \<and> (year t \<noteq> 0 \<or> month t \<noteq> 0 \<or> day t \<noteq> 0) then make_from_out_of_range t
            else if mode = DATETIME_TO_TIME_DISALLOW then make_from_out_of_range t
            else valid_datetime_to_valid_time env mode warn t)"

definition adjust_time_range_or_invalidate :: "time_env \<Rightarrow> uint \<Rightarrow> MYSQL_TIME \<Rightarrow> MYSQL_TIME \<times> uint" where
  "adjust_time_range_or_invalidate env warn t =
     (let (err, t1, warn1) = check_time_range env t TIME_SECOND_PART_DIGITS warn in (if err then t1\<lparr>time_type := MYSQL_TIMESTAMP_NONE\<rparr> else t1, warn1))"

definition Time_of :: "time_env \<Rightarrow> datetime_to_time_mode \<Rightarrow> MYSQL_TIME \<Rightarrow> MYSQL_TIME" where
  "Time_of env mode ltime = fst (valid_MYSQL_TIME_to_valid_value env mode 0 ltime)"

text \<open>From a number; \<open>invalid_dates\<close> is the flag \<open>TIME_INVALID_DATES\<close> as the conversion understands it.\<close>

definition Time_of_sec6 :: "time_env \<Rightarrow> conversions \<Rightarrow> ulonglong \<Rightarrow> datetime_to_time_mode \<Rightarrow> 'x Sec6_scheme \<Rightarrow> MYSQL_TIME \<times> uint" where
  "Time_of_sec6 env cv invalid_dates mode nr =
     (let (err, t, warn) = to_datetime_or_time cv invalid_dates nr in
      valid_MYSQL_TIME_to_valid_value env mode warn (if err then t\<lparr>time_type := MYSQL_TIMESTAMP_NONE\<rparr> else t))"

definition is_valid_time :: "MYSQL_TIME \<Rightarrow> bool" where
  "is_valid_time t \<longleftrightarrow> time_type t = MYSQL_TIMESTAMP_TIME"

text \<open>The product and the sum are computed in an unsigned 32-bit \<open>long\<close> and then widened.\<close>

definition to_seconds_abs :: "MYSQL_TIME \<Rightarrow> longlong" where
  "to_seconds_abs t = ucast (hour t * 3600 + minute t * 60 + second t)"

definition to_seconds :: "MYSQL_TIME \<Rightarrow> longlong" where
  "to_seconds t = (if t_neg t then - to_seconds_abs t else to_seconds_abs t)"

definition time_trunc :: "log10_table \<Rightarrow> uint \<Rightarrow> MYSQL_TIME \<Rightarrow> MYSQL_TIME" where
  "time_trunc log_10_int dec t = (if is_valid_time t then my_time_trunc log_10_int dec t else t)"

definition time_ceiling :: "log10_table \<Rightarrow> time_env \<Rightarrow> uint \<Rightarrow> MYSQL_TIME \<Rightarrow> MYSQL_TIME \<times> uint" where
  "time_ceiling log_10_int env warn t =
     (if is_valid_time t
      then if t_neg t then (my_time_trunc log_10_int 0 t, warn) else if second_part t \<noteq> 0 then round_or_set_max env 0 warn 999999999 t else (t, warn)
      else (t, warn))"

definition time_floor :: "log10_table \<Rightarrow> time_env \<Rightarrow> uint \<Rightarrow> MYSQL_TIME \<Rightarrow> MYSQL_TIME \<times> uint" where
  "time_floor log_10_int env warn t =
     (if is_valid_time t
      then if \<not> t_neg t then (my_time_trunc log_10_int 0 t, warn) else if second_part t \<noteq> 0 then round_or_set_max env 0 warn 999999999 t else (t, warn)
      else (t, warn))"

definition time_round :: "log10_table \<Rightarrow> time_env \<Rightarrow> uint \<Rightarrow> time_round_mode \<Rightarrow> uint \<Rightarrow> MYSQL_TIME \<Rightarrow> MYSQL_TIME \<times> uint" where
  "time_round log_10_int env dec mode warn t =
     (case mode of FRAC_NONE \<Rightarrow> (time_trunc log_10_int dec t, warn) | FRAC_TRUNCATE \<Rightarrow> (time_trunc log_10_int dec t, warn)
      | FRAC_ROUND \<Rightarrow> (if is_valid_time t then round_or_set_max_dec env dec warn t else (t, warn)))"

section \<open>Sec6_add\<close>

record Sec6_add =
  a_sec :: ulonglong
  a_usec :: ulong
  a_neg :: bool
  a_error :: bool

text \<open>\<open>diff\<close> is the \<open>calc_time_diff\<close> that gives sign, seconds and microseconds.\<close>

definition Sec6_add_of :: "(MYSQL_TIME \<Rightarrow> MYSQL_TIME \<Rightarrow> int \<Rightarrow> bool \<times> ulonglong \<times> ulong) \<Rightarrow> MYSQL_TIME \<Rightarrow> MYSQL_TIME \<Rightarrow> int \<Rightarrow> Sec6_add \<Rightarrow> Sec6_add" where
  "Sec6_add_of diff t1 t2 sign a =
     (if time_type t2 \<noteq> MYSQL_TIMESTAMP_TIME then a\<lparr>a_error := True\<rparr>
      else let sign1 = (if t_neg t1 \<noteq> t_neg t2 then - sign else sign);
               (n, s, u) = diff t1 t2 (- sign1) in
           \<lparr>a_sec = s, a_usec = u, a_neg = (if t_neg t1 \<and> (s \<noteq> 0 \<or> u \<noteq> 0) then \<not> n else n), a_error = False\<rparr>)"

definition to_days_abs :: "Sec6_add \<Rightarrow> int32" where
  "to_days_abs a = ucast (a_sec a div SECONDS_IN_24H)"

section \<open>Properties\<close>

lemmas time_limits = TIME_MAX_HOUR_def TIME_MAX_MINUTE_def TIME_MAX_SECOND_def TIME_MAX_SECOND_PART_def

subsection \<open>From a DATE or DATETIME\<close>

lemma mixed_hours:
  assumes "d < (32 :: uint)" "h < 24"
  shows "unat (h + d * 24) = unat h + unat d * 24"
proof -
  have "unat d < 32" "unat h < 24" using assms by (simp_all add: word_less_nat_alt)
  then show ?thesis by (simp add: unat_word_ariths)
qed

lemma mixed_hours_bound:
  assumes "d < (32 :: uint)" "h < 24"
  shows "h + d * 24 \<le> 767" "h \<le> 767"
proof -
  have "unat d < 32" "unat h < 24" using assms by (simp_all add: word_less_nat_alt)
  then show "h + d * 24 \<le> 767" "h \<le> 767" using mixed_hours [OF assms] by (simp_all add: word_le_nat_alt)
qed

lemma datetime_refused:
  assumes "time_type t = MYSQL_TIMESTAMP_DATE \<or> time_type t = MYSQL_TIMESTAMP_DATETIME"
    and "mode = DATETIME_TO_TIME_DISALLOW \<or> mode = DATETIME_TO_TIME_YYYYMMDD_00000000_ONLY \<and> \<not> has_zero_YYYYMMDD t"
  shows "valid_MYSQL_TIME_to_valid_value env mode warn t = (t\<lparr>time_type := MYSQL_TIMESTAMP_NONE\<rparr>, MYSQL_TIME_WARN_OUT_OF_RANGE)"
  using assms by (auto simp: valid_MYSQL_TIME_to_valid_value_def make_from_out_of_range_def has_zero_YYYYMMDD_def)

lemma datetime_accepted:
  assumes "time_type t = MYSQL_TIMESTAMP_DATE \<or> time_type t = MYSQL_TIMESTAMP_DATETIME"
    and "\<not> (mode = DATETIME_TO_TIME_DISALLOW \<or> mode = DATETIME_TO_TIME_YYYYMMDD_00000000_ONLY \<and> \<not> has_zero_YYYYMMDD t)"
  shows "valid_MYSQL_TIME_to_valid_value env mode warn t = valid_datetime_to_valid_time env mode warn t"
  using assms by (auto simp: valid_MYSQL_TIME_to_valid_value_def has_zero_YYYYMMDD_def)

text \<open>C36: A DATE or DATETIME within the ranges of its fields, turned into a TIME in each mode. The mode that disallows it, and the mode for a zero date only when the date is not zero, give no value and the
  warning that it is out of range, which replaces earlier warnings. The difference to the current date, computed elsewhere, is checked for the range of TIME without a warning. Every other mode gives a valid
  TIME of at most 767 hours with a zero date, the same minutes, seconds, fraction and sign; its hours are those of the value, to which only the default mode adds the days, and only when
  year and month are zero; when they are not, that mode adds the note that the value was truncated.\<close>

theorem Time_from_datetime:
  assumes "time_type t = MYSQL_TIMESTAMP_DATE \<or> time_type t = MYSQL_TIMESTAMP_DATETIME"
    and "day t < 32" "hour t < 24" "has_valid_mmssff t"
  shows "case valid_MYSQL_TIME_to_valid_value env mode warn t of (t', warn') \<Rightarrow>
    if mode = DATETIME_TO_TIME_DISALLOW \<or> mode = DATETIME_TO_TIME_YYYYMMDD_00000000_ONLY \<and> \<not> has_zero_YYYYMMDD t
    then time_type t' = MYSQL_TIMESTAMP_NONE \<and> warn' = MYSQL_TIME_WARN_OUT_OF_RANGE
    else if mode = DATETIME_TO_TIME_MINUS_CURRENT_DATE
    then (\<exists>err w. check_time_range env (calc_time_diff env t (current_date env) 1) TIME_SECOND_PART_DIGITS 0 = (err, t', w)) \<and> warn' = warn
    else is_valid_time_slow t' \<and> hour t' \<le> 767 \<and>
      unat (hour t') = unat (hour t) + (if mode = DATETIME_TO_TIME_YYYYMMDD_000000DD_MIX_TO_HOURS \<and> has_zero_YYYYMM t then unat (day t) * 24 else 0) \<and>
      minute t' = minute t \<and> second t' = second t \<and> second_part t' = second_part t \<and> t_neg t' = t_neg t \<and>
      warn' = (if mode = DATETIME_TO_TIME_YYYYMMDD_000000DD_MIX_TO_HOURS \<and> \<not> has_zero_YYYYMM t then warn OR MYSQL_TIME_NOTE_TRUNCATED else warn)"
proof (cases "mode = DATETIME_TO_TIME_DISALLOW \<or> mode = DATETIME_TO_TIME_YYYYMMDD_00000000_ONLY \<and> \<not> has_zero_YYYYMMDD t")
  case True
  then show ?thesis using datetime_refused [OF assms(1) True] by simp
next
  case accepted: False
  note d = mixed_hours [OF assms(2,3)] mixed_hours_bound [OF assms(2,3)]
  show ?thesis
  proof (cases "mode = DATETIME_TO_TIME_MINUS_CURRENT_DATE")
    case True
    then show ?thesis
      using accepted datetime_accepted [OF assms(1) accepted]
      by (simp add: valid_datetime_to_valid_time_def datetime_to_time_minus_current_date_def) (metis prod.collapse)
  next
    case False
    then show ?thesis
      using accepted d assms(4) datetime_accepted [OF assms(1) accepted]
      by (auto simp: valid_datetime_to_valid_time_def datetime_to_time_mix_to_hours_def is_valid_time_slow_def has_zero_YYYYMMDD_def
        has_zero_YYYYMM_def has_valid_mmssff_def split: prod.splits if_splits)
  qed
qed

subsection \<open>Seconds and back\<close>

lemma to_seconds_abs_exact:
  assumes "unat h \<le> 838" "unat m \<le> 59" "unat c \<le> 59"
  shows "unat (h * 3600 + m * 60 + c :: uint) = unat h * 3600 + unat m * 60 + unat c"
  using assms by (simp add: unat_word_ariths)

lemma hms_parts:
  assumes "(n :: nat) \<le> 3020399"
  shows "n div 3600 \<le> 838" "n mod 3600 div 60 \<le> 59" "n mod 60 \<le> 59"
  using assms less_mult_imp_div_less [of n 839 3600] less_mult_imp_div_less [of "n mod 3600" 60 60] mod_less_divisor [of 60 n] by simp_all

lemma hms_sum: "(n :: nat) div 3600 * 3600 + n mod 3600 div 60 * 60 + n mod 60 = n"
proof -
  have "n mod 60 = n mod 3600 mod 60" by (simp add: mod_mod_cancel)
  then have "n mod 3600 div 60 * 60 + n mod 60 = n mod 3600" by (simp only: div_mult_mod_eq)
  then show ?thesis using div_mult_mod_eq [of n 3600] by linarith
qed

text \<open>Seconds within the range become a valid TIME without an error, and counting its seconds gives them back with their sign.\<close>

lemma sec_to_time_exact:
  assumes z: "zero_time zt" and s: "m_sec s \<le> TIME_MAX_VALUE_SECONDS" and u: "m_usec s \<le> TIME_MAX_SECOND_PART"
  shows "case sec_to_time zt cr s dec of (err, t) \<Rightarrow>
    \<not> err \<and> is_valid_time_slow t \<and> hour t \<le> TIME_MAX_HOUR \<and> second_part t = m_usec s \<and>
    to_seconds t = (if m_neg s then - m_sec s else m_sec s)"
proof -
  let ?n = "unat (m_sec s)"
  have n: "?n \<le> 3020399" using s by (simp add: TIME_MAX_VALUE_SECONDS_def time_limits word_le_nat_alt)
  have uc: "unat (ucast w :: uint) = unat w" if "unat w \<le> 3020399" for w :: ulonglong
    using that by (simp add: unat_ucast_mod)
  have h: "unat (ucast (m_sec s div 3600) :: uint) = ?n div 3600" by (subst uc) (use n in \<open>simp_all add: unat_div\<close>)
  have m: "unat (ucast (m_sec s mod 3600) div 60 :: uint) = ?n mod 3600 div 60"
    by (subst unat_div, subst uc) (use n in \<open>simp_all add: unat_mod\<close>)
  have c: "unat (ucast (m_sec s) mod 60 :: uint) = ?n mod 60" by (subst unat_mod, subst uc) (use n in simp_all)
  let ?h = "ucast (m_sec s div 3600) :: uint" and ?m = "ucast (m_sec s mod 3600) div 60 :: uint" and ?c = "ucast (m_sec s) mod 60 :: uint"
  have b: "unat ?h \<le> 838" "unat ?m \<le> 59" "unat ?c \<le> 59" unfolding h m c by (rule hms_parts [OF n])+
  have "unat (?h * 3600 + ?m * 60 + ?c) = unat ?h * 3600 + unat ?m * 60 + unat ?c" by (rule to_seconds_abs_exact [OF b])
  also have "\<dots> = ?n div 3600 * 3600 + ?n mod 3600 div 60 * 60 + ?n mod 60" by (simp only: h m c)
  also have "\<dots> = ?n" by (rule hms_sum)
  finally have sum: "(ucast (?h * 3600 + ?m * 60 + ?c) :: longlong) = m_sec s"
    using n by (simp add: word_unat_eq_iff unat_ucast_mod)
  have le: "?h \<le> 838" "?m \<le> 59" "?c \<le> 59" using b by (simp_all add: word_le_nat_alt)
  show ?thesis
    using z s u le sum by (simp add: sec_to_time_def zero_time_def Let_def is_valid_time_slow_def has_zero_YYYYMMDD_def has_valid_mmssff_def to_seconds_def to_seconds_abs_def time_limits not_less)
qed

subsection \<open>EXTRACT\<close>

definition sgn_of :: "MYSQL_TIME \<Rightarrow> int" where
  "sgn_of t = (if t_neg t then -1 else 1)"

lemma signed_field: "x * ex_sign t = word_of_int (sgn_of t * uint x)"
  by (simp add: ex_sign_def sgn_of_def)

lemma sint_of_int32: "\<bar>i\<bar> < 2 ^ 31 \<Longrightarrow> sint (word_of_int i :: int32) = i"
  by (simp add: signed_of_int signed_take_bit_int_eq_self)

lemma sint_of_longlong: "\<bar>i\<bar> < 2 ^ 63 \<Longrightarrow> sint (word_of_int i :: longlong) = i"
  by (simp add: signed_of_int signed_take_bit_int_eq_self)

lemma scast_of_int: "\<bar>i\<bar> < 2 ^ 31 \<Longrightarrow> (scast (word_of_int i :: int32) :: longlong) = word_of_int i"
  by (simp add: scast_eq sint_of_int32)

lemma abs_signed: "\<bar>sgn_of t * i\<bar> = \<bar>i\<bar>"
  by (simp add: sgn_of_def)

lemmas extract_fields = ex_day_def ex_hour_def ex_minute_def ex_second_def ex_microsecond_def signed_field


text \<open>The fields of a value as unbounded integers, and the ranges in which the machine words keep them.\<close>

definition extract_range :: "MYSQL_TIME \<Rightarrow> bool" where
  "extract_range t \<longleftrightarrow> uint (day t) \<le> 3652058 \<and> uint (hour t) \<le> 23 \<and> uint (minute t) \<le> 59 \<and> uint (second t) \<le> 59 \<and> uint (second_part t) \<le> 999999"

lemma horner_of_int: "(word_of_int a :: 'a::len word) * numeral k + word_of_int b = word_of_int (a * numeral k + b)"
  by (simp add: of_int_numeral)

lemma widened_field: "uint x \<le> 3652058 \<Longrightarrow> (scast (word_of_int (sgn_of t * uint x) :: int32) :: longlong) = word_of_int (sgn_of t * uint x)"
  by (rule scast_of_int) (simp add: abs_signed)

lemma day_time_words:
  assumes r: "extract_range t"
  defines "f \<equiv> \<lambda>x. sgn_of t * uint x"
  shows "day_microsecond t = word_of_int ((((f (day t) * 100 + f (hour t)) * 100 + f (minute t)) * 100 + f (second t)) * 1000000 + f (second_part t))"
    and "hour_second t = word_of_int ((f (hour t) * 100 + f (minute t)) * 100 + f (second t))"
    and "minute_second t = word_of_int (f (minute t) * 100 + f (second t))"
    and "second_microsecond t = word_of_int (f (second t) * 1000000 + f (second_part t))"
proof -
  have w: "scast (ex_day t) = (word_of_int (f (day t)) :: longlong)" "scast (ex_hour t) = (word_of_int (f (hour t)) :: longlong)"
    "scast (ex_minute t) = (word_of_int (f (minute t)) :: longlong)" "scast (ex_second t) = (word_of_int (f (second t)) :: longlong)"
    "scast (ex_microsecond t) = (word_of_int (f (second_part t)) :: longlong)"
    unfolding extract_fields f_def by (rule widened_field, use r in \<open>simp add: extract_range_def\<close>)+
  show "day_microsecond t = word_of_int ((((f (day t) * 100 + f (hour t)) * 100 + f (minute t)) * 100 + f (second t)) * 1000000 + f (second_part t))"
    by (simp only: day_microsecond_def day_second_def day_minute_def day_hour_def w horner_of_int)
  show "hour_second t = word_of_int ((f (hour t) * 100 + f (minute t)) * 100 + f (second t))" by (simp only: hour_second_def hour_minute_def extract_fields f_def horner_of_int)
  show "minute_second t = word_of_int (f (minute t) * 100 + f (second t))" by (simp only: minute_second_def extract_fields f_def horner_of_int)
  show "second_microsecond t = word_of_int (f (second t) * 1000000 + f (second_part t))" by (simp only: second_microsecond_def w horner_of_int)
qed

lemma extract_values:
  assumes r: "extract_range t"
  shows "sint (day_microsecond t) =
      sgn_of t * ((((uint (day t) * 100 + uint (hour t)) * 100 + uint (minute t)) * 100 + uint (second t)) * 1000000 + uint (second_part t))"
    and "sint (hour_microsecond t) = sgn_of t * (((uint (hour t) * 100 + uint (minute t)) * 100 + uint (second t)) * 1000000 + uint (second_part t))"
    and "sint (minute_microsecond t) = sgn_of t * ((uint (minute t) * 100 + uint (second t)) * 1000000 + uint (second_part t))"
    and "sint (second_microsecond t) = sgn_of t * (uint (second t) * 1000000 + uint (second_part t))"
proof -
  have nn: "0 \<le> uint (day t)" "0 \<le> uint (hour t)" "0 \<le> uint (minute t)" "0 \<le> uint (second t)" "0 \<le> uint (second_part t)" by simp_all
  note b = r [unfolded extract_range_def] nn
  have d: "day_microsecond t = word_of_int (sgn_of t * ((((uint (day t) * 100 + uint (hour t)) * 100 + uint (minute t)) * 100 + uint (second t)) * 1000000 + uint (second_part t)))"
    by (simp only: day_time_words(1) [OF r]) (simp only: algebra_simps)
  have s: "second_microsecond t = word_of_int (sgn_of t * (uint (second t) * 1000000 + uint (second_part t)))"
    by (simp only: day_time_words(4) [OF r]) (simp only: algebra_simps)
  have hs: "hour_second t = word_of_int (sgn_of t * ((uint (hour t) * 100 + uint (minute t)) * 100 + uint (second t)))"
    by (simp only: day_time_words(2) [OF r]) (simp only: algebra_simps)
  have ms: "minute_second t = word_of_int (sgn_of t * (uint (minute t) * 100 + uint (second t)))"
    by (simp only: day_time_words(3) [OF r]) (simp only: algebra_simps)
  have us: "(scast (ex_microsecond t) :: longlong) = word_of_int (sgn_of t * uint (second_part t))"
    using b widened_field [of "second_part t" t] by (simp add: extract_fields)
  have "(scast (hour_second t) :: longlong) = word_of_int (sgn_of t * ((uint (hour t) * 100 + uint (minute t)) * 100 + uint (second t)))"
    unfolding hs by (rule scast_of_int) (use b in \<open>simp add: abs_signed\<close>)
  then have h: "hour_microsecond t = word_of_int (sgn_of t * (((uint (hour t) * 100 + uint (minute t)) * 100 + uint (second t)) * 1000000 + uint (second_part t)))"
    unfolding hour_microsecond_def us by (simp only: horner_of_int) (simp only: algebra_simps)
  have "(scast (minute_second t) :: longlong) = word_of_int (sgn_of t * (uint (minute t) * 100 + uint (second t)))"
    unfolding ms by (rule scast_of_int) (use b in \<open>simp add: abs_signed\<close>)
  then have m: "minute_microsecond t = word_of_int (sgn_of t * ((uint (minute t) * 100 + uint (second t)) * 1000000 + uint (second_part t)))"
    unfolding minute_microsecond_def us by (simp only: horner_of_int) (simp only: algebra_simps)
  show "sint (day_microsecond t) =
      sgn_of t * ((((uint (day t) * 100 + uint (hour t)) * 100 + uint (minute t)) * 100 + uint (second t)) * 1000000 + uint (second_part t))"
    unfolding d by (rule sint_of_longlong) (use b in \<open>simp add: abs_signed\<close>)
  show "sint (hour_microsecond t) = sgn_of t * (((uint (hour t) * 100 + uint (minute t)) * 100 + uint (second t)) * 1000000 + uint (second_part t))"
    unfolding h by (rule sint_of_longlong) (use b in \<open>simp add: abs_signed\<close>)
  show "sint (minute_microsecond t) = sgn_of t * ((uint (minute t) * 100 + uint (second t)) * 1000000 + uint (second_part t))"
    unfolding m by (rule sint_of_longlong) (use b in \<open>simp add: abs_signed\<close>)
  show "sint (second_microsecond t) = sgn_of t * (uint (second t) * 1000000 + uint (second_part t))"
    unfolding s by (rule sint_of_longlong) (use b in \<open>simp add: abs_signed\<close>)
qed

text \<open>C37: EXTRACT of a TIME is exact and never overflows: for every TIME up to the longest interval the composite fields, computed in 32- and 64-bit words, are the decimal
  number of days, hours of the day, minutes, seconds and microseconds with the sign of the value.\<close>

theorem extract_of_time_exact:
  assumes t: "time_type t = MYSQL_TIMESTAMP_TIME" "has_valid_mmssff t" "hour t \<le> TIME_MAX_INTERVAL_HOUR"
  shows "sint (day_microsecond (Extract_source_of t)) =
      sgn_of t * ((((uint (hour t) div 24 * 100 + uint (hour t) mod 24) * 100 + uint (minute t)) * 100 + uint (second t)) * 1000000 + uint (second_part t)) \<and>
    sint (hour_microsecond (Extract_source_of t)) =
      sgn_of t * (((uint (hour t) mod 24 * 100 + uint (minute t)) * 100 + uint (second t)) * 1000000 + uint (second_part t)) \<and>
    sint (minute_microsecond (Extract_source_of t)) = sgn_of t * ((uint (minute t) * 100 + uint (second t)) * 1000000 + uint (second_part t)) \<and>
    sint (second_microsecond (Extract_source_of t)) = sgn_of t * (uint (second t) * 1000000 + uint (second_part t))"
proof -
  let ?e = "Extract_source_of t"
  have e: "uint (day ?e) = uint (hour t) div 24" "uint (hour ?e) = uint (hour t) mod 24" "minute ?e = minute t" "second ?e = second t" "second_part ?e = second_part t" "sgn_of ?e = sgn_of t"
    using t(1) by (simp_all add: Extract_source_of_def time_to_daytime_interval_def sgn_of_def uint_div uint_mod)
  have "uint (hour t) \<le> 87649415" "uint (minute t) \<le> 59" "uint (second t) \<le> 59" "uint (second_part t) \<le> 999999"
    using t(2,3) by (simp_all add: TIME_MAX_INTERVAL_HOUR_def has_valid_mmssff_def time_limits word_le_def)
  moreover from this have "uint (hour t) div 24 \<le> 3652058" "uint (hour t) mod 24 \<le> 23" by simp_all
  ultimately have "extract_range ?e" unfolding extract_range_def e by simp
  from extract_values [OF this] show ?thesis unfolding e by blast
qed

section \<open>Witnesses\<close>

definition zero_of :: "timestamp_type \<Rightarrow> MYSQL_TIME" where
  "zero_of ty = \<lparr>year = 0, month = 0, day = 0, hour = 0, minute = 0, second = 0, second_part = 0, t_neg = False, time_type = ty\<rparr>"

definition plain_env :: time_env where
  "plain_env = \<lparr>set_zero_time = zero_of, current_date = zero_of MYSQL_TIMESTAMP_DATE,
     calc_time_diff = (\<lambda>a b sign. (zero_of MYSQL_TIMESTAMP_TIME)\<lparr>hour := (day a - day b) * 24 + hour a\<rparr>),
     check_time_range = (\<lambda>t dec warn. if hour t \<le> TIME_MAX_HOUR then (False, t, warn) else (False, time_hhmmssff_set_max TIME_MAX_HOUR t, warn OR MYSQL_TIME_WARN_OUT_OF_RANGE)),
     round_or_set_max = (\<lambda>dec warn nsec t. (t, warn)), round_or_set_max_dec = (\<lambda>dec warn t. (t, warn))\<rparr>"

definition days2 :: MYSQL_TIME where
  "days2 = \<lparr>year = 0, month = 0, day = 2, hour = 10, minute = 59, second = 58, second_part = 7, t_neg = False, time_type = MYSQL_TIMESTAMP_DATETIME\<rparr>"

theorem Time_from_datetime_witness:
  "unat (hour (fst (valid_MYSQL_TIME_to_valid_value plain_env DATETIME_TO_TIME_YYYYMMDD_000000DD_MIX_TO_HOURS 0 days2))) = 58 \<and>
   time_type (fst (valid_MYSQL_TIME_to_valid_value plain_env DATETIME_TO_TIME_DISALLOW 0 days2)) = MYSQL_TIMESTAMP_NONE"
  using Time_from_datetime [where t = days2 and env = plain_env and mode = DATETIME_TO_TIME_YYYYMMDD_000000DD_MIX_TO_HOURS and warn = 0]
    Time_from_datetime [where t = days2 and env = plain_env and mode = DATETIME_TO_TIME_DISALLOW and warn = 0]
  by (simp add: days2_def has_zero_YYYYMM_def has_valid_mmssff_def time_limits split: prod.splits)

theorem extract_of_time_exact_witness: "sint (day_microsecond (Extract_source_of (eve\<lparr>hour := 50\<rparr>))) = - 2025959999999"
  using extract_of_time_exact [of "eve\<lparr>hour := 50\<rparr>"]
  by (simp add: eve_def has_valid_mmssff_def time_limits TIME_MAX_INTERVAL_HOUR_def sgn_of_def Extract_source_of_def time_to_daytime_interval_def)

end
