(* ===== verification/Tranx_Allocator.thy ===== *)
theory Tranx_Allocator imports Prelude "HOL-Library.Monad_Syntax" begin

text \<open>
  \<open>private/semisync_master.h\<close>, class \<open>Tranx_node_allocator\<close>: the nodes of the active transactions of semi-synchronous replication, handed out in sequence from
  linked blocks of sixteen. Pointers are addresses, so that the comparison by which \<open>free_nodes_before\<close> finds the block of a node is the one of the code; \<open>heap\<close> holds the
  allocated blocks. Reading or writing a block that is not allocated, or through a null pointer, is \<open>None\<close>. What \<open>my_malloc\<close> returns is an argument: the address and the old contents, or nothing.
\<close>

section \<open>Blocks\<close>

type_synonym addr = nat

record Tranx_node =
  log_name :: "uchar list"
  log_pos :: ulonglong
  n_next :: "addr option"
  hash_next :: "addr option"

record Block =
  b_next :: "addr option"
  nodes :: "Tranx_node list"

definition BLOCK_TRANX_NODES :: nat where "BLOCK_TRANX_NODES = 16"

text \<open>Sizes: a file name of \<open>FN_REFLEN\<close> = 512 bytes, a position and two pointers; a block is a pointer and its nodes.\<close>

definition NODE_SIZE :: nat where "NODE_SIZE = 512 + 8 + 8 + 8"
definition BLOCK_SIZE :: nat where "BLOCK_SIZE = 8 + BLOCK_TRANX_NODES * NODE_SIZE"

definition node_addr :: "addr \<Rightarrow> nat \<Rightarrow> addr" where
  "node_addr b i = b + 8 + i * NODE_SIZE"

record Tranx_node_allocator =
  reserved_blocks :: uint
  first_block :: "addr option"
  last_block :: "addr option"
  current_block :: "addr option"
  last_node :: int
  block_num :: uint
  heap :: "addr \<rightharpoonup> Block"

definition tna_init :: "uint \<Rightarrow> Tranx_node_allocator" where
  "tna_init reserved_nodes =
     \<lparr>reserved_blocks = reserved_nodes div 16 + (if reserved_nodes mod 16 > 1 then 2 else 1), first_block = None, last_block = None, current_block = None, last_node = - 1,
      block_num = 0, heap = Map.empty\<rparr>"

text \<open>\<open>p->next\<close> and \<open>p->next= q\<close>.\<close>

definition get_next :: "Tranx_node_allocator \<Rightarrow> addr option \<Rightarrow> addr option option" where
  "get_next s p = do { b \<leftarrow> p; B \<leftarrow> heap s b; Some (b_next B) }"

definition set_next :: "addr option \<Rightarrow> addr option \<Rightarrow> Tranx_node_allocator \<Rightarrow> Tranx_node_allocator option" where
  "set_next p q s = do { b \<leftarrow> p; B \<leftarrow> heap s b; Some (s\<lparr>heap := (heap s)(b \<mapsto> B\<lparr>b_next := q\<rparr>)\<rparr>) }"

section \<open>Operations\<close>

definition allocate_block :: "(addr \<times> Tranx_node list) option \<Rightarrow> Tranx_node_allocator \<Rightarrow> (bool \<times> Tranx_node_allocator) option" where
  "allocate_block malloc s =
     (case malloc of
        None \<Rightarrow> Some (True, s)
      | Some (b, old) \<Rightarrow>
          do { let s1 = s\<lparr>heap := (heap s)(b \<mapsto> \<lparr>b_next = None, nodes = old\<rparr>)\<rparr>;
               s2 \<leftarrow> (if first_block s1 = None then Some (s1\<lparr>first_block := Some b\<rparr>) else set_next (last_block s1) (Some b) s1);
               Some (False, s2\<lparr>last_block := Some b, current_block := Some b, block_num := block_num s2 + 1\<rparr>) })"

definition free_block :: "addr \<Rightarrow> Tranx_node_allocator \<Rightarrow> Tranx_node_allocator option" where
  "free_block b s = (case heap s b of None \<Rightarrow> None | Some B \<Rightarrow> Some (s\<lparr>heap := (heap s)(b := None), block_num := block_num s - 1\<rparr>))"

text \<open>The loop of \<open>free_blocks\<close>; it returns the block at which it stopped.\<close>

partial_function (option) free_loop :: "addr option \<Rightarrow> Tranx_node_allocator \<Rightarrow> (addr option \<times> Tranx_node_allocator) option" where
  "free_loop block s =
     (if block_num s > reserved_blocks s \<and> block \<noteq> None
      then do { next \<leftarrow> get_next s block; s1 \<leftarrow> free_block (the block) s; free_loop next s1 }
      else Some (block, s))"

definition free_blocks :: "Tranx_node_allocator \<Rightarrow> Tranx_node_allocator option" where
  "free_blocks s =
     (if current_block s = None then Some s
      else do { behind \<leftarrow> get_next s (current_block s);
                if behind = None then Some s
                else do { start \<leftarrow> get_next s behind;
                          (block, s1) \<leftarrow> free_loop start s;
                          kept \<leftarrow> get_next s1 (current_block s1);
                          s2 \<leftarrow> set_next kept block s1;
                          if block = None then do { kept2 \<leftarrow> get_next s2 (current_block s2); Some (s2\<lparr>last_block := kept2\<rparr>) } else Some s2 } })"

definition allocate_node :: "(addr \<times> Tranx_node list) option \<Rightarrow> Tranx_node_allocator \<Rightarrow> (addr option \<times> Tranx_node_allocator) option" where
  "allocate_node malloc s =
     do { let block = current_block s;
          s1 \<leftarrow> (if last_node s = int BLOCK_TRANX_NODES - 1 then do { n \<leftarrow> get_next s (current_block s); Some (s\<lparr>current_block := n, last_node := - 1\<rparr>) } else Some s);
          (err, s2) \<leftarrow> (if current_block s1 = None then allocate_block malloc s1 else Some (False, s1));
          if err then Some (None, (let s3 = s2\<lparr>current_block := block\<rparr> in if block \<noteq> None then s3\<lparr>last_node := int BLOCK_TRANX_NODES - 1\<rparr> else s3))
          else do { b \<leftarrow> current_block s2;
                    B \<leftarrow> heap s2 b;
                    let i = last_node s2 + 1;
                    if 0 \<le> i \<and> nat i < length (nodes B)
                    then let n = (nodes B ! nat i)\<lparr>log_name := (log_name (nodes B ! nat i))[0 := 0], log_pos := 0, n_next := None, hash_next := None\<rparr> in
                         Some (Some (node_addr b (nat i)), s2\<lparr>last_node := i, heap := (heap s2)(b \<mapsto> B\<lparr>nodes := (nodes B)[nat i := n]\<rparr>)\<rparr>)
                    else None } }"

definition free_all_nodes :: "Tranx_node_allocator \<Rightarrow> Tranx_node_allocator option" where
  "free_all_nodes s = free_blocks (s\<lparr>current_block := first_block s, last_node := - 1\<rparr>)"

text \<open>The loop of \<open>free_nodes_before\<close>. The result \<open>True\<close> is the error.\<close>

partial_function (option) before_loop :: "addr \<Rightarrow> addr option \<Rightarrow> addr option \<Rightarrow> Tranx_node_allocator \<Rightarrow> (bool \<times> Tranx_node_allocator) option" where
  "before_loop node prev_block block s =
     do { stop \<leftarrow> get_next s (current_block s);
          if block = stop then Some (True, s)
          else do { b \<leftarrow> block;
                    if node_addr b 0 \<le> node \<and> node_addr b BLOCK_TRANX_NODES \<ge> node
                    then if first_block s \<noteq> block
                         then do { s1 \<leftarrow> set_next (last_block s) (first_block s) s;
                                   s2 \<leftarrow> set_next prev_block None (s1\<lparr>first_block := block, last_block := prev_block\<rparr>);
                                   s3 \<leftarrow> free_blocks s2;
                                   Some (False, s3) }
                         else Some (False, s)
                    else do { next \<leftarrow> get_next s block; before_loop node block next s } } }"

definition free_nodes_before :: "addr \<Rightarrow> Tranx_node_allocator \<Rightarrow> (bool \<times> Tranx_node_allocator) option" where
  "free_nodes_before node s = before_loop node None (first_block s) s"

text \<open>The loop of the destructor.\<close>

partial_function (option) tna_destroy_loop :: "addr option \<Rightarrow> Tranx_node_allocator \<Rightarrow> Tranx_node_allocator option" where
  "tna_destroy_loop block s =
     (if block = None then Some s else do { next \<leftarrow> get_next s block; s1 \<leftarrow> free_block (the block) s; tna_destroy_loop next s1 })"

definition tna_destroy :: "Tranx_node_allocator \<Rightarrow> Tranx_node_allocator option" where
  "tna_destroy s = tna_destroy_loop (first_block s) s"

section \<open>Invariant\<close>

text \<open>A segment of linked blocks, the head of a list as a pointer, and blocks that do not overlap.\<close>

fun bseg :: "(addr \<rightharpoonup> Block) \<Rightarrow> addr option \<Rightarrow> addr list \<Rightarrow> addr option \<Rightarrow> bool" where
  "bseg h p [] q = (p = q)"
| "bseg h p (b # bs) q = (p = Some b \<and> (\<exists>B. h b = Some B \<and> bseg h (b_next B) bs q))"

definition head_ptr :: "addr list \<Rightarrow> addr option" where
  "head_ptr bs = (case bs of [] \<Rightarrow> None | b # _ \<Rightarrow> Some b)"

definition apart :: "addr set \<Rightarrow> bool" where
  "apart bs \<longleftrightarrow> (\<forall>a \<in> bs. \<forall>b \<in> bs. a \<noteq> b \<longrightarrow> a + BLOCK_SIZE \<le> b \<or> b + BLOCK_SIZE \<le> a)"

text \<open>The nodes in use, as block and index: all nodes of the blocks \<open>us\<close> and the first \<open>n\<close> of the current one.\<close>

definition used_nodes :: "addr list \<Rightarrow> addr \<Rightarrow> nat \<Rightarrow> (addr \<times> nat) list" where
  "used_nodes us c n = concat (map (\<lambda>b. map (Pair b) [0..<16]) us) @ map (Pair c) [0..<n]"

definition tna_blocks :: "Tranx_node_allocator \<Rightarrow> addr list \<Rightarrow> bool" where
  "tna_blocks s bs \<longleftrightarrow> distinct bs \<and> dom (heap s) = set bs \<and> bseg (heap s) (first_block s) bs None \<and> last_block s = (if bs = [] then None else Some (last bs)) \<and>
     block_num s = of_nat (length bs) \<and> (\<forall>B \<in> ran (heap s). length (nodes B) = 16) \<and> apart (set bs)"

definition tna_inv :: "Tranx_node_allocator \<Rightarrow> addr list \<Rightarrow> (addr \<times> nat) list \<Rightarrow> bool" where
  "tna_inv s bs used \<longleftrightarrow> tna_blocks s bs \<and>
     (if bs = [] then current_block s = None \<and> last_node s = - 1 \<and> used = []
      else \<exists>us c fs. bs = us @ c # fs \<and> current_block s = Some c \<and> - 1 \<le> last_node s \<and> last_node s \<le> 15 \<and> used = used_nodes us c (nat (last_node s + 1)))"

definition node_at :: "Tranx_node_allocator \<Rightarrow> addr \<times> nat \<Rightarrow> Tranx_node" where
  "node_at s p = nodes (the (heap s (fst p))) ! snd p"

text \<open>\<open>my_malloc\<close> fails or gives memory for a block apart from the allocated ones.\<close>

definition malloc_ok :: "Tranx_node_allocator \<Rightarrow> (addr \<times> Tranx_node list) option \<Rightarrow> bool" where
  "malloc_ok s m \<longleftrightarrow> (case m of None \<Rightarrow> True | Some (b, old) \<Rightarrow> length old = 16 \<and> (\<forall>a \<in> dom (heap s). a + BLOCK_SIZE \<le> b \<or> b + BLOCK_SIZE \<le> a))"

lemma bseg_append: "bseg h p (as @ bs) q \<longleftrightarrow> (\<exists>r. bseg h p as r \<and> bseg h r bs q)"
  by (induction as arbitrary: p) auto

lemma bseg_cong: "\<forall>b \<in> set bs. h' b = h b \<Longrightarrow> bseg h' p bs q = bseg h p bs q"
  by (induction bs arbitrary: p) auto

lemma bseg_head: "bseg h p bs None \<Longrightarrow> p = head_ptr bs"
  by (cases bs) (auto simp: head_ptr_def)

lemma bseg_dom: "bseg h p bs q \<Longrightarrow> set bs \<subseteq> dom h"
  by (induction bs arbitrary: p) auto

lemma bseg_redirect:
  assumes "bseg h p (as @ [a]) q" "a \<notin> set as" "h a = Some B" "\<forall>b \<in> set as. h' b = h b" "h' a = Some B'" "b_next B' = q'"
  shows "bseg h' p (as @ [a]) q'"
proof -
  have "bseg h p as (Some a)" using assms(1) by (auto simp: bseg_append)
  then have "bseg h' p as (Some a)" using bseg_cong [of as h' h] assms(4) by blast
  then show ?thesis using assms(5,6) by (auto simp: bseg_append)
qed

lemma head_ptr_simps [simp]: "head_ptr [] = None" "head_ptr (b # bs) = Some b"
  by (simp_all add: head_ptr_def)

lemma head_ptr_None [simp]: "head_ptr bs = None \<longleftrightarrow> bs = []"
  by (cases bs) simp_all

lemma used_nodes_step: "used_nodes us c (Suc n) = used_nodes us c n @ [(c, n)]"
  by (simp add: used_nodes_def)

lemma used_nodes_full: "used_nodes us c 16 = used_nodes (us @ [c]) d 0"
  by (simp add: used_nodes_def)

lemma used_nodes_append: "used_nodes (as @ us) c n = concat (map (\<lambda>b. map (Pair b) [0..<16]) as) @ used_nodes us c n"
  by (simp add: used_nodes_def)

lemma used_nodes_mem: "(b, i) \<in> set (used_nodes us c n) \<longleftrightarrow> b \<in> set us \<and> i < 16 \<or> b = c \<and> i < n"
  by (auto simp: used_nodes_def image_iff)

lemma get_next_Some: "heap s b = Some B \<Longrightarrow> get_next s (Some b) = Some (b_next B)"
  by (simp add: get_next_def)

lemma set_next_Some: "heap s b = Some B \<Longrightarrow> set_next (Some b) q s = Some (s\<lparr>heap := (heap s)(b \<mapsto> B\<lparr>b_next := q\<rparr>)\<rparr>)"
  by (simp add: set_next_def)

lemma restrict_map_all [simp]: "m |` UNIV = m"
  by (simp add: restrict_map_def)

lemma le_minus_1: "r < (n :: 'a::len word) \<Longrightarrow> r \<le> n - 1"
  by (cases "n = 0") (simp_all add: word_le_nat_alt word_less_nat_alt unat_minus_one)

section \<open>Freeing blocks\<close>

lemma free_loop_ok:
  assumes "bseg (heap s) p fs None" "distinct fs"
  shows "\<exists>fs1 fs2. fs = fs1 @ fs2 \<and>
    free_loop p s = Some (head_ptr fs2, s\<lparr>heap := heap s |` (- set fs1), block_num := block_num s - of_nat (length fs1)\<rparr>) \<and>
    (fs2 = [] \<or> block_num s - of_nat (length fs1) \<le> reserved_blocks s) \<and> (fs1 = [] \<or> reserved_blocks s \<le> block_num s - of_nat (length fs1))"
  using assms
proof (induction fs arbitrary: p s)
  case Nil
  then show ?case by (auto simp: free_loop.simps)
next
  case (Cons f fs)
  then obtain B where B: "p = Some f" "heap s f = Some B" "bseg (heap s) (b_next B) fs None" by auto
  show ?case
  proof (cases "block_num s > reserved_blocks s")
    case False
    then show ?thesis by - (rule exI [of _ "[]"], rule exI [of _ "f # fs"], simp add: B(1) free_loop.simps [of "Some f"])
  next
    case True
    define s1 where "s1 = s\<lparr>heap := (heap s)(f := None), block_num := block_num s - 1\<rparr>"
    have "bseg (heap s1) (b_next B) fs None" using B(3) Cons.prems(2) bseg_cong [of fs "heap s1" "heap s"] by (auto simp: s1_def)
    from Cons.IH [OF this] Cons.prems(2) obtain fs1 fs2 where r: "fs = fs1 @ fs2"
      "free_loop (b_next B) s1 = Some (head_ptr fs2, s1\<lparr>heap := heap s1 |` (- set fs1), block_num := block_num s1 - of_nat (length fs1)\<rparr>)"
      "fs2 = [] \<or> block_num s1 - of_nat (length fs1) \<le> reserved_blocks s1" "fs1 = [] \<or> reserved_blocks s1 \<le> block_num s1 - of_nat (length fs1)" by auto
    have h: "heap s1 |` (- set fs1) = heap s |` (- set (f # fs1))" by (auto simp: s1_def restrict_map_def fun_eq_iff)
    have n: "block_num s1 - of_nat (length fs1) = block_num s - of_nat (length (f # fs1))" by (simp add: s1_def)
    have "free_loop p s = free_loop (b_next B) s1" using True B by (simp add: free_loop.simps [of "Some f"] get_next_Some free_block_def s1_def)
    also have "\<dots> = Some (head_ptr fs2, s\<lparr>heap := heap s |` (- set (f # fs1)), block_num := block_num s - of_nat (length (f # fs1))\<rparr>)"
      unfolding r(2) h n by (simp add: s1_def)
    finally have loop: "free_loop p s = Some (head_ptr fs2, s\<lparr>heap := heap s |` (- set (f # fs1)), block_num := block_num s - of_nat (length (f # fs1))\<rparr>)" .
    have "reserved_blocks s \<le> block_num s - 1" using True by (rule le_minus_1)
    then have "reserved_blocks s \<le> block_num s - of_nat (length (f # fs1))" using r(4) by (cases "fs1 = []") (simp_all add: s1_def diff_diff_eq)
    then show ?thesis using r(1,3) loop n by - (rule exI [of _ "f # fs1"], rule exI [of _ fs2], simp add: s1_def diff_diff_eq)
  qed
qed

lemma apart_mono: "apart A \<Longrightarrow> B \<subseteq> A \<Longrightarrow> apart B"
  unfolding apart_def by blast

text \<open>What remains of the free blocks, the sizes, and the contents of the nodes.\<close>

lemma free_blocks_ok:
  assumes ok: "tna_blocks s (us @ c # fs)" and c: "current_block s = Some c"
  shows "\<exists>s' fs'. free_blocks s = Some s' \<and> tna_blocks s' (us @ c # fs') \<and> set fs' \<subseteq> set fs \<and>
    current_block s' = Some c \<and> last_node s' = last_node s \<and> first_block s' = first_block s \<and> reserved_blocks s' = reserved_blocks s \<and>
    (\<forall>b \<in> set (us @ c # fs'). map_option nodes (heap s' b) = map_option nodes (heap s b)) \<and>
    (length fs' \<le> 1 \<or> block_num s' \<le> reserved_blocks s) \<and> (fs' = fs \<or> reserved_blocks s \<le> block_num s')"
proof -
  obtain r C where seg: "bseg (heap s) (first_block s) us (Some c)" "heap s c = Some C" "bseg (heap s) (b_next C) fs None"
    and d: "distinct (us @ c # fs)" and dm: "dom (heap s) = set (us @ c # fs)" using ok by (auto simp: tna_blocks_def bseg_append)
  show ?thesis
  proof (cases fs)
    case Nil
    then show ?thesis using ok c seg by - (rule exI [of _ s], rule exI [of _ fs], simp add: free_blocks_def get_next_Some)
  next
    case (Cons f gs)
    then obtain F where F: "b_next C = Some f" "heap s f = Some F" "bseg (heap s) (b_next F) gs None" using seg(3) by auto
    obtain g1 g2 where g: "gs = g1 @ g2" "free_loop (b_next F) s = Some (head_ptr g2, s\<lparr>heap := heap s |` (- set g1), block_num := block_num s - of_nat (length g1)\<rparr>)"
      "g2 = [] \<or> block_num s - of_nat (length g1) \<le> reserved_blocks s" "g1 = [] \<or> reserved_blocks s \<le> block_num s - of_nat (length g1)"
      using free_loop_ok [OF F(3)] d Cons by auto
    define h where "h = (heap s |` (- set g1))(f \<mapsto> F\<lparr>b_next := head_ptr g2\<rparr>)"
    define s' where "s' = s\<lparr>heap := h, block_num := block_num s - of_nat (length g1), last_block := (if g2 = [] then Some f else last_block s)\<rparr>"
    have nin: "f \<notin> set g1" "c \<notin> set g1" "f \<noteq> c" using d Cons g(1) by auto
    have last: "g2 \<noteq> [] \<Longrightarrow> last_block s = Some (last g2)" using ok by (simp add: tna_blocks_def Cons g(1))
    have run: "free_blocks s = Some s'"
      using c seg(2) F nin by (simp add: free_blocks_def get_next_Some set_next_Some g(2) s'_def h_def)
    let ?bs = "us @ c # f # g2"
    have hs: "\<forall>b \<in> set (us @ c # g2). h b = heap s b" using d Cons g(1) by (auto simp: h_def restrict_map_def)
    have "bseg (heap s) (head_ptr g2) g2 None" using F(3) g(1) by (auto simp: bseg_append dest: bseg_head)
    then have g2': "bseg h (head_ptr g2) g2 None" using bseg_cong [of g2 h "heap s"] hs by simp
    have us': "bseg h (first_block s) us (Some c)" using seg(1) bseg_cong [of us h "heap s"] hs by simp
    have seg': "bseg h (first_block s) ?bs None" using us' g2' hs seg(2) F(1) by (auto simp: bseg_append h_def)
    have dom': "dom h = set ?bs" using dm d Cons g(1) F(2) by (auto simp: h_def dom_def restrict_map_def split: if_splits)
    have nod: "\<forall>b \<in> set ?bs. map_option nodes (h b) = map_option nodes (heap s b)" using hs F(2) by (auto simp: h_def)
    have "\<forall>B \<in> ran h. length (nodes B) = 16"
    proof
      fix B assume "B \<in> ran h"
      then obtain b where b: "h b = Some B" by (auto simp: ran_def)
      then have "map_option nodes (heap s b) = Some (nodes B)" using nod dom' by (metis domI option.simps(9))
      then show "length (nodes B) = 16" using ok by (auto simp: tna_blocks_def ran_def)
    qed
    moreover have "apart (set ?bs)"
    proof (rule apart_mono)
      show "apart (set (us @ c # fs))" using ok unfolding tna_blocks_def by blast
      show "set ?bs \<subseteq> set (us @ c # fs)" unfolding Cons g(1) by auto
    qed
    moreover have "block_num s - of_nat (length g1) = of_nat (length ?bs)" using ok by (simp add: tna_blocks_def Cons g(1))
    moreover have "distinct ?bs" using d by (auto simp: Cons g(1))
    ultimately have "tna_blocks s' ?bs" using last seg' dom' by (simp add: tna_blocks_def s'_def Cons g(1))
    moreover have "length (f # g2) \<le> 1 \<or> block_num s' \<le> reserved_blocks s" "f # g2 = fs \<or> reserved_blocks s \<le> block_num s'" using g(1,3,4) by (auto simp: s'_def Cons)
    moreover have "\<forall>b \<in> set ?bs. map_option nodes (heap s' b) = map_option nodes (heap s b)" using nod by (simp add: s'_def)
    moreover have "set (f # g2) \<subseteq> set fs" "current_block s' = Some c" "last_node s' = last_node s" "first_block s' = first_block s" "reserved_blocks s' = reserved_blocks s"
      using c by (auto simp: s'_def Cons g(1))
    ultimately show ?thesis using run by blast
  qed
qed

section \<open>Allocating\<close>

lemma tna_invE:
  assumes "tna_inv s bs used" "bs \<noteq> []"
  obtains us c fs where "bs = us @ c # fs" "tna_blocks s (us @ c # fs)" "current_block s = Some c" "- 1 \<le> last_node s" "last_node s \<le> 15" "used = used_nodes us c (nat (last_node s + 1))"
  using assms unfolding tna_inv_def by auto

lemma tna_invI: "tna_blocks s (us @ c # fs) \<Longrightarrow> current_block s = Some c \<Longrightarrow> - 1 \<le> last_node s \<Longrightarrow> last_node s \<le> 15 \<Longrightarrow> tna_inv s (us @ c # fs) (used_nodes us c (nat (last_node s + 1)))"
  unfolding tna_inv_def by auto

lemma block_length: "tna_blocks s bs \<Longrightarrow> heap s b = Some B \<Longrightarrow> length (nodes B) = 16"
  unfolding tna_blocks_def by (blast intro: ranI)

lemma current_heap:
  assumes "tna_blocks s (us @ c # fs)"
  shows "\<exists>C. heap s c = Some C \<and> length (nodes C) = 16 \<and> b_next C = head_ptr fs"
proof -
  obtain C where "heap s c = Some C" "bseg (heap s) (b_next C) fs None" using assms by (auto simp: tna_blocks_def bseg_append)
  then show ?thesis using block_length [OF assms] bseg_head by blast
qed

lemma used_not_next: "distinct (us @ c # fs) \<Longrightarrow> (c, n) \<notin> set (used_nodes us c n)"
  by (simp add: used_nodes_mem)

text \<open>Handing out the next node of the current block.\<close>

definition take_node :: "addr \<Rightarrow> nat \<Rightarrow> Tranx_node_allocator \<Rightarrow> Tranx_node_allocator" where
  "take_node c n s =
     (let C = the (heap s c); x = nodes C ! n in
      s\<lparr>last_node := int n, heap := (heap s)(c \<mapsto> C\<lparr>nodes := (nodes C)[n := x\<lparr>log_name := (log_name x)[0 := 0], log_pos := 0, n_next := None, hash_next := None\<rparr>]\<rparr>)\<rparr>)"

definition fresh_node :: "Tranx_node \<Rightarrow> bool" where
  "fresh_node n \<longleftrightarrow> log_pos n = 0 \<and> n_next n = None \<and> hash_next n = None \<and> take 1 (log_name n) \<in> {[], [0]}"

lemma take_node_ok:
  assumes ok: "tna_blocks s (us @ c # fs)" and c: "current_block s = Some c" and n: "n < 16"
  shows "tna_inv (take_node c n s) (us @ c # fs) (used_nodes us c n @ [(c, n)])" (is ?I)
    and "fresh_node (node_at (take_node c n s) (c, n))"
    and "p \<noteq> (c, n) \<Longrightarrow> node_at (take_node c n s) p = node_at s p"
proof -
  let ?s = "take_node c n s"
  obtain C where C: "heap s c = Some C" "length (nodes C) = 16" using current_heap [OF ok] by blast
  obtain D where D: "heap ?s = (heap s)(c \<mapsto> D)" "b_next D = b_next C" "length (nodes D) = 16"
    using C by (simp add: take_node_def Let_def)
  have "bseg (heap ?s) (first_block s) (us @ c # fs) None"
  proof -
    have "bseg (heap s) (first_block s) us (Some c)" "bseg (heap s) (b_next C) fs None" "distinct (us @ c # fs)" using ok C(1) by (auto simp: tna_blocks_def bseg_append)
    then show ?thesis using bseg_cong [of us "heap ?s" "heap s"] bseg_cong [of fs "heap ?s" "heap s"] D(1,2) by (auto simp: bseg_append)
  qed
  moreover have "dom (heap ?s) = dom (heap s)" using C(1) by (auto simp: D(1))
  moreover have "\<forall>B \<in> ran (heap ?s). length (nodes B) = 16" using ok D(3) by (auto simp: D(1) tna_blocks_def ran_def)
  ultimately have "tna_blocks ?s (us @ c # fs)" using ok by (simp add: tna_blocks_def take_node_def Let_def)
  then have "tna_inv ?s (us @ c # fs) (used_nodes us c (nat (last_node ?s + 1)))"
    by (rule tna_invI) (use c n in \<open>simp_all add: take_node_def Let_def\<close>)
  moreover have "nat (last_node ?s + 1) = Suc n" by (simp add: take_node_def Let_def)
  ultimately show ?I by (simp add: used_nodes_step)
  show "fresh_node (node_at ?s (c, n))" using C n by (cases "log_name (nodes C ! n)") (simp_all add: node_at_def take_node_def Let_def fresh_node_def)
  show "p \<noteq> (c, n) \<Longrightarrow> node_at ?s p = node_at s p" using C by (cases p) (auto simp: node_at_def take_node_def Let_def)
qed

lemma allocate_tail:
  assumes "tna_blocks s (us @ c # fs)" "n < 16"
  shows "(do { b \<leftarrow> Some c; B \<leftarrow> heap s b; let i = int n;
       if 0 \<le> i \<and> nat i < length (nodes B)
       then let x = (nodes B ! nat i)\<lparr>log_name := (log_name (nodes B ! nat i))[0 := 0], log_pos := 0, n_next := None, hash_next := None\<rparr> in
            Some (Some (node_addr b (nat i)), s\<lparr>last_node := i, heap := (heap s)(b \<mapsto> B\<lparr>nodes := (nodes B)[nat i := x]\<rparr>)\<rparr>)
       else None }) = Some (Some (node_addr c n), take_node c n s)"
  using current_heap [OF assms(1)] assms(2) by (auto simp: take_node_def Let_def)

lemma allocate_block_ok:
  assumes ok: "tna_blocks s bs" and m: "malloc_ok s (Some (b, old))"
  shows "\<exists>s'. allocate_block (Some (b, old)) s = Some (False, s') \<and> tna_blocks s' (bs @ [b]) \<and> current_block s' = Some b \<and> last_node s' = last_node s \<and>
    (\<forall>a \<in> set bs. map_option nodes (heap s' a) = map_option nodes (heap s a))"
proof -
  have old: "length old = 16" and far: "\<forall>a \<in> set bs. a + BLOCK_SIZE \<le> b \<or> b + BLOCK_SIZE \<le> a" using m ok by (auto simp: malloc_ok_def tna_blocks_def)
  have new: "b \<notin> set bs" using far by (auto simp: BLOCK_SIZE_def)
  have ap: "apart (set (bs @ [b]))" using ok far unfolding tna_blocks_def apart_def by auto
  let ?B = "\<lparr>b_next = None, nodes = old\<rparr>"
  show ?thesis
  proof (cases bs rule: rev_cases)
    case Nil
    then show ?thesis using ok old ap by (auto simp: allocate_block_def tna_blocks_def ran_def)
  next
    case (snoc as a)
    obtain A where A: "heap s a = Some A" using ok by (auto simp: tna_blocks_def snoc bseg_append)
    define h where "h = (heap s)(b \<mapsto> ?B, a \<mapsto> A\<lparr>b_next := Some b\<rparr>)"
    define s' where "s' = s\<lparr>heap := h, last_block := Some b, current_block := Some b, block_num := block_num s + 1\<rparr>"
    have first: "first_block s \<noteq> None" using ok by (cases as) (auto simp: tna_blocks_def snoc)
    have "a \<noteq> b" using new by (simp add: snoc)
    then have run: "allocate_block (Some (b, old)) s = Some (False, s')"
      using ok first A by (auto simp: allocate_block_def tna_blocks_def snoc set_next_def s'_def h_def fun_upd_twist)
    have "bseg h (first_block s) (as @ [a]) (Some b)"
      by (rule bseg_redirect [of "heap s" _ as a None A h]) (use ok A new in \<open>auto simp: tna_blocks_def snoc h_def\<close>)
    then have "bseg h (first_block s) (bs @ [b]) None" using \<open>a \<noteq> b\<close> unfolding snoc bseg_append [of _ _ "as @ [a]" "[b]"] by (auto simp: h_def)
    moreover have "dom h = set (bs @ [b])" using ok by (auto simp: h_def tna_blocks_def snoc)
    moreover have "\<forall>B \<in> ran h. length (nodes B) = 16" using old block_length [OF ok] A by (auto simp: h_def ran_def)
    moreover have "distinct (bs @ [b])" "block_num s + 1 = of_nat (length (bs @ [b]))" using ok new by (auto simp: tna_blocks_def)
    ultimately have "tna_blocks s' (bs @ [b])" using ap by (simp add: tna_blocks_def s'_def)
    moreover have "\<forall>x \<in> set bs. map_option nodes (h x) = map_option nodes (heap s x)" using new A by (auto simp: h_def)
    ultimately show ?thesis using run by (auto simp: s'_def)
  qed
qed

definition allocated :: "Tranx_node_allocator \<Rightarrow> (addr \<times> nat) list \<Rightarrow> addr \<Rightarrow> Tranx_node_allocator \<Rightarrow> bool" where
  "allocated s used p s' \<longleftrightarrow> (\<exists>b i bs'. p = node_addr b i \<and> (b, i) \<notin> set used \<and> tna_inv s' bs' (used @ [(b, i)]) \<and> fresh_node (node_at s' (b, i)) \<and> (\<forall>x \<in> set used. node_at s' x = node_at s x))"

lemma allocatedI:
  assumes "tna_blocks t (us @ c # fs)" "current_block t = Some c" "n < 16" "used = used_nodes us c n" "\<forall>x \<in> set used. node_at t x = node_at s x"
  shows "allocated s used (node_addr c n) (take_node c n t)"
proof -
  have "distinct (us @ c # fs)" using assms(1) by (simp add: tna_blocks_def)
  then have nin: "(c, n) \<notin> set used" using used_not_next assms(4) by blast
  note t = take_node_ok [OF assms(1-3)]
  have "\<forall>x \<in> set used. node_at (take_node c n t) x = node_at s x" using t(3) nin assms(5) by metis
  then show ?thesis using t(1,2) nin assms(4) unfolding allocated_def by blast
qed

lemma node_at_same: "map_option nodes (heap s' (fst x)) = map_option nodes (heap s (fst x)) \<Longrightarrow> fst x \<in> dom (heap s) \<Longrightarrow> node_at s' x = node_at s x"
  by (auto simp: node_at_def)

text \<open>One more block, and its first node.\<close>

lemma allocate_new_block:
  assumes ok: "tna_blocks s bs" and m: "malloc_ok s (Some (b, old))" and l: "last_node s = - 1" and u: "used = used_nodes bs b 0" and c: "current_block s = None"
  shows "\<exists>p s'. allocate_node (Some (b, old)) s = Some (Some p, s') \<and> allocated s used p s'"
proof -
  obtain t where t: "allocate_block (Some (b, old)) s = Some (False, t)" "tna_blocks t (bs @ [b])" "current_block t = Some b" "last_node t = - 1"
    "\<forall>a \<in> set bs. map_option nodes (heap t a) = map_option nodes (heap s a)" using allocate_block_ok [OF ok m] l by auto
  have run: "allocate_node (Some (b, old)) s = Some (Some (node_addr b 0), take_node b 0 t)"
    using allocate_tail [OF t(2), of 0] t(1,3,4) c l by (simp add: allocate_node_def BLOCK_TRANX_NODES_def)
  have "\<forall>x \<in> set used. fst x \<in> set bs" by (auto simp: u used_nodes_mem)
  then have "\<forall>x \<in> set used. node_at t x = node_at s x" using t(5) ok by (auto intro!: node_at_same simp: tna_blocks_def)
  then have "allocated s used (node_addr b 0) (take_node b 0 t)" using allocatedI [of t bs b "[]" 0] t(2,3) u by simp
  then show ?thesis using run by blast
qed

lemma tna_blocks_cursor [simp]: "tna_blocks (s\<lparr>current_block := c, last_node := l\<rparr>) bs = tna_blocks s bs"
  by (simp add: tna_blocks_def)

lemma node_at_cursor [simp]: "node_at (s\<lparr>current_block := c, last_node := l\<rparr>) x = node_at s x"
  by (simp add: node_at_def)

lemma allocated_cursor [simp]: "allocated (s\<lparr>current_block := c, last_node := l\<rparr>) used p s' = allocated s used p s'"
  by (simp add: allocated_def)

lemma malloc_ok_cursor [simp]: "malloc_ok (s\<lparr>current_block := c, last_node := l\<rparr>) m = malloc_ok s m"
  by (auto simp: malloc_ok_def split: option.splits)

lemma allocate_node_ok:
  assumes inv: "tna_inv s bs used" and m: "malloc_ok s m"
  shows "allocate_node m s = Some (None, s) \<and> m = None \<or> (\<exists>p s'. allocate_node m s = Some (Some p, s') \<and> allocated s used p s')"
proof (cases "bs = []")
  case True
  then have s: "tna_blocks s []" "current_block s = None" "last_node s = - 1" "used = []" using inv by (auto simp: tna_inv_def)
  show ?thesis
  proof (cases m)
    case None
    then show ?thesis using s by (simp add: allocate_node_def allocate_block_def BLOCK_TRANX_NODES_def)
  next
    case (Some bo)
    then show ?thesis using allocate_new_block [of s "[]" "fst bo" "snd bo" used] s m by (auto simp: used_nodes_def)
  qed
next
  case False
  then obtain us c fs where s: "tna_blocks s (us @ c # fs)" "current_block s = Some c" "- 1 \<le> last_node s" "last_node s \<le> 15" "used = used_nodes us c (nat (last_node s + 1))"
    using tna_invE [OF inv] by metis
  obtain C where C: "heap s c = Some C" "b_next C = head_ptr fs" using current_heap [OF s(1)] by blast
  show ?thesis
  proof (cases "last_node s = 15")
    case False
    define n where "n = nat (last_node s + 1)"
    have n: "n < 16" "last_node s + 1 = int n" using s(3,4) False by (auto simp: n_def)
    have "allocate_node m s = Some (Some (node_addr c n), take_node c n s)"
      using allocate_tail [OF s(1) n(1)] s(2) False n(2) by (simp add: allocate_node_def BLOCK_TRANX_NODES_def)
    then show ?thesis using allocatedI [OF s(1,2) n(1)] s(5) n_def by blast
  next
    case True
    then have u: "used = used_nodes (us @ [c]) d 0" for d using s(5) used_nodes_full by simp
    let ?t = "s\<lparr>current_block := head_ptr fs, last_node := - 1\<rparr>"
    show ?thesis
    proof (cases fs)
      case (Cons f gs)
      have t: "tna_blocks ?t ((us @ [c]) @ f # gs)" using s(1) Cons by simp
      have "allocate_node m s = Some (Some (node_addr f 0), take_node f 0 ?t)"
        using current_heap [OF t] s(2) True C Cons by (auto simp: allocate_node_def BLOCK_TRANX_NODES_def get_next_Some take_node_def Let_def)
      moreover have "allocated s used (node_addr f 0) (take_node f 0 ?t)" using allocatedI [OF t, of 0 used ?t] u [of f] Cons by simp
      ultimately show ?thesis by blast
    next
      case Nil
      have same: "s\<lparr>current_block := Some c, last_node := 15\<rparr> = s" using s(2) True by simp
      show ?thesis
      proof (cases m)
        case None
        then show ?thesis using s(2) True C Nil same by (simp add: allocate_node_def allocate_block_def BLOCK_TRANX_NODES_def get_next_Some)
      next
        case (Some bo)
        obtain t' where "allocate_block m ?t = Some (False, t')" using allocate_block_ok [of ?t "us @ [c]" "fst bo" "snd bo"] s(1) m Nil Some by auto
        then have "allocate_node m s = allocate_node m ?t" using s(2) True C Nil by (simp add: allocate_node_def BLOCK_TRANX_NODES_def get_next_Some Let_def)
        moreover have "\<exists>p s'. allocate_node (Some (fst bo, snd bo)) ?t = Some (Some p, s') \<and> allocated ?t used p s'"
          by (rule allocate_new_block [where bs = "us @ [c]"]) (use s(1) m u Nil Some in simp_all)
        ultimately show ?thesis using Some by simp
      qed
    qed
  qed
qed

section \<open>Freeing nodes\<close>

lemma node_in_block: "i < 16 \<Longrightarrow> node_addr b 0 \<le> node_addr b i \<and> node_addr b i \<le> node_addr b BLOCK_TRANX_NODES"
  by (simp add: node_addr_def BLOCK_TRANX_NODES_def)

lemma node_other_block:
  assumes "i < 16" "a + BLOCK_SIZE \<le> b \<or> b + BLOCK_SIZE \<le> a"
  shows "\<not> (node_addr a 0 \<le> node_addr b i \<and> node_addr a BLOCK_TRANX_NODES \<ge> node_addr b i)"
proof -
  have "i * 536 \<le> 15 * 536" using assms(1) by (intro mult_le_mono1) simp
  then show ?thesis using assms(2) by (auto simp: node_addr_def BLOCK_SIZE_def BLOCK_TRANX_NODES_def NODE_SIZE_def)
qed

lemma apartD: "apart S \<Longrightarrow> a \<in> S \<Longrightarrow> b \<in> S \<Longrightarrow> a \<noteq> b \<Longrightarrow> a + BLOCK_SIZE \<le> b \<or> b + BLOCK_SIZE \<le> a"
  unfolding apart_def by blast

text \<open>Moving the blocks \<open>as\<close> before \<open>b\<close> to the rear.\<close>

definition rotated :: "addr list \<Rightarrow> addr \<Rightarrow> Tranx_node_allocator \<Rightarrow> Tranx_node_allocator option" where
  "rotated as b s = do { s1 \<leftarrow> set_next (last_block s) (first_block s) s; set_next (Some (last as)) None (s1\<lparr>first_block := Some b, last_block := Some (last as)\<rparr>) }"

lemma rotated_ok:
  assumes ok: "tna_blocks s (as @ bs)" and ne: "as \<noteq> []" "bs \<noteq> []" and b: "b = hd bs"
  shows "\<exists>s'. rotated as b s = Some s' \<and> tna_blocks s' (bs @ as) \<and> current_block s' = current_block s \<and> last_node s' = last_node s \<and> reserved_blocks s' = reserved_blocks s \<and>
    (\<forall>x. map_option nodes (heap s' x) = map_option nodes (heap s x))"
proof -
  obtain as' a where as: "as = as' @ [a]" using ne(1) by (cases as rule: rev_cases) auto
  obtain bs' z where bs: "bs = bs' @ [z]" using ne(2) by (cases bs rule: rev_cases) auto
  have d: "distinct (as @ bs)" and dm: "dom (heap s) = set (as @ bs)" and lb: "last_block s = Some z" using ok ne by (auto simp: tna_blocks_def bs)
  obtain r where seg: "bseg (heap s) (first_block s) as r" "bseg (heap s) r bs None" using ok by (auto simp: tna_blocks_def bseg_append)
  have r: "r = Some b" using seg(2) ne(2) b by (cases bs) auto
  obtain A Z where A: "heap s a = Some A" "heap s z = Some Z" using dm by (force simp: as bs)
  have az: "a \<noteq> z" using d by (auto simp: as bs)
  define h where "h = (heap s)(z \<mapsto> Z\<lparr>b_next := first_block s\<rparr>, a \<mapsto> A\<lparr>b_next := None\<rparr>)"
  define s' where "s' = s\<lparr>heap := h, first_block := Some b, last_block := Some a\<rparr>"
  have run: "rotated as b s = Some s'" using A az lb by (simp add: rotated_def set_next_Some as s'_def h_def)
  have "bseg h (Some b) bs (first_block s)"
    unfolding bs by (rule bseg_redirect [of "heap s" _ bs' z None Z]) (use seg(2) r d A az in \<open>auto simp: bs as h_def\<close>)
  moreover have "bseg h (first_block s) as None"
    unfolding as by (rule bseg_redirect [of "heap s" _ as' a r A]) (use seg(1) d A az in \<open>auto simp: bs as h_def\<close>)
  ultimately have "bseg h (Some b) (bs @ as) None" by (auto simp: bseg_append)
  moreover have "dom h = set (bs @ as)" using dm by (auto simp: h_def as bs)
  moreover have "\<forall>B \<in> ran h. length (nodes B) = 16" using block_length [OF ok] A by (auto simp: h_def ran_def)
  moreover have "distinct (bs @ as)" "set (bs @ as) = set (as @ bs)" using d by auto
  ultimately have "tna_blocks s' (bs @ as)" using ok as unfolding tna_blocks_def s'_def by (simp add: add.commute)
  moreover have "\<forall>x. map_option nodes (h x) = map_option nodes (heap s x)" using A by (auto simp: h_def)
  ultimately show ?thesis using run by (auto simp: s'_def)
qed

lemma before_loop_ok:
  assumes ok: "tna_blocks s (us @ c # fs)" and c: "current_block s = Some c" and i: "i < 16"
    and split: "us @ [c] = as @ ys" and b: "b \<in> set ys" and prev: "prev = (if as = [] then None else Some (last as))"
  shows "\<exists>as' bs'. us @ [c] = as' @ b # bs' \<and> before_loop (node_addr b i) prev (head_ptr ys) s =
    (if as' = [] then Some (False, s) else do { s2 \<leftarrow> rotated as' b s; s3 \<leftarrow> free_blocks s2; Some (False, s3) })"
  using split b prev
proof (induction ys arbitrary: as prev)
  case (Cons y ys)
  have bs: "us @ c # fs = as @ y # ys @ fs" using Cons.prems(1) by (metis append.assoc append_Cons append_Nil)
  then have ok': "tna_blocks s (as @ y # (ys @ fs))" using ok unfolding bs by simp
  have stop: "get_next s (current_block s) = Some (head_ptr fs)" using current_heap [OF ok] c by (auto simp: get_next_Some)
  have y: "get_next s (Some y) = Some (head_ptr (ys @ fs))" using current_heap [OF ok'] by (auto simp: get_next_Some)
  have "y \<notin> set fs" using ok' by (auto simp: tna_blocks_def)
  then have neq: "Some y \<noteq> head_ptr fs" by (cases fs) auto
  have first: "first_block s = head_ptr (as @ [y])" using ok' by (cases as) (auto simp: tna_blocks_def)
  show ?case
  proof (cases "y = b")
    case True
    have "first_block s \<noteq> Some y \<longleftrightarrow> as \<noteq> []" using first ok' by (cases as) (auto simp: tna_blocks_def)
    then have "before_loop (node_addr b i) prev (head_ptr (y # ys)) s = (if as = [] then Some (False, s) else do { s2 \<leftarrow> rotated as b s; s3 \<leftarrow> free_blocks s2; Some (False, s3) })"
      using stop neq node_in_block [OF i] True Cons.prems(3) by (simp add: before_loop.simps [of _ _ "Some b"] rotated_def)
    then show ?thesis using Cons.prems(1) True by blast
  next
    case False
    then have "ys \<noteq> []" using Cons.prems(2) by auto
    then have n: "get_next s (Some y) = Some (head_ptr ys)" using y by (cases ys) simp_all
    have "b \<in> set (us @ c # fs)" "y \<in> set (us @ c # fs)" using Cons.prems(2) False unfolding bs by auto
    then have "y + BLOCK_SIZE \<le> b \<or> b + BLOCK_SIZE \<le> y" using apartD ok False unfolding tna_blocks_def by blast
    then have "before_loop (node_addr b i) prev (head_ptr (y # ys)) s = before_loop (node_addr b i) (Some y) (head_ptr ys) s"
      using stop neq node_other_block [OF i] n by (subst before_loop.simps) auto
    moreover have "us @ [c] = (as @ [y]) @ ys" "b \<in> set ys" using Cons.prems False by auto
    ultimately show ?thesis using Cons.IH [of "as @ [y]" "Some y"] by simp
  qed
qed simp

lemma free_nodes_before_ok:
  assumes inv: "tna_inv s bs used" and p: "(b, i) \<in> set used"
  shows "\<exists>s' bs' gone used'. free_nodes_before (node_addr b i) s = Some (False, s') \<and> used = gone @ used' \<and> tna_inv s' bs' used' \<and>
    i < length used' \<and> used' ! i = (b, i) \<and> (\<forall>x \<in> set used'. node_at s' x = node_at s x)"
proof -
  have "bs \<noteq> []" using inv p by (auto simp: tna_inv_def)
  then obtain us c fs where s: "tna_blocks s (us @ c # fs)" "current_block s = Some c" "- 1 \<le> last_node s" "last_node s \<le> 15" "used = used_nodes us c (nat (last_node s + 1))"
    using tna_invE [OF inv] by metis
  let ?n = "nat (last_node s + 1)"
  have i: "i < 16" and b: "b \<in> set (us @ [c])" and bi: "b = c \<and> b \<notin> set us \<longrightarrow> i < ?n" using p s(4) by (auto simp: s(5) used_nodes_mem)
  have d: "distinct (us @ c # fs)" using s(1) by (simp add: tna_blocks_def)
  have first: "first_block s = head_ptr (us @ [c])" using s(1) by (cases us) (auto simp: tna_blocks_def)
  obtain as cs where split: "us @ [c] = as @ b # cs" and run: "free_nodes_before (node_addr b i) s =
    (if as = [] then Some (False, s) else do { s2 \<leftarrow> rotated as b s; s3 \<leftarrow> free_blocks s2; Some (False, s3) })"
    using before_loop_ok [OF s(1,2) i, of "[]" "us @ [c]" b None] b first by (auto simp: free_nodes_before_def)
  obtain vs where v: "us = as @ vs" "vs @ [c] = b # cs" using split by (cases cs rule: rev_cases) auto
  have idx: "i < length (used_nodes vs c ?n) \<and> used_nodes vs c ?n ! i = (b, i)"
  proof (cases vs)
    case Nil
    then show ?thesis using v bi d by (auto simp: used_nodes_def)
  next
    case (Cons w ws)
    then show ?thesis using v i by (simp add: used_nodes_def nth_append)
  qed
  have u: "used = concat (map (\<lambda>b. map (Pair b) [0..<16]) as) @ used_nodes vs c ?n" unfolding s(5) v(1) by (rule used_nodes_append)
  show ?thesis
  proof (cases "as = []")
    case True
    then have "free_nodes_before (node_addr b i) s = Some (False, s)" "used = [] @ used_nodes vs c ?n" using run u by simp_all
    then show ?thesis using inv idx by fastforce
  next
    case False
    have "tna_blocks s (as @ (vs @ c # fs))" using s(1) v(1) by simp
    moreover have "b = hd (vs @ c # fs)" using v(2) by (cases vs) auto
    ultimately obtain t where t: "rotated as b s = Some t" "tna_blocks t (vs @ c # fs @ as)" "current_block t = Some c" "last_node t = last_node s"
      "\<forall>x. map_option nodes (heap t x) = map_option nodes (heap s x)" using rotated_ok [of s as "vs @ c # fs" b] False s(2) by auto
    obtain s' fs' where f: "free_blocks t = Some s'" "tna_blocks s' (vs @ c # fs')" "current_block s' = Some c" "last_node s' = last_node t"
      "\<forall>b \<in> set (vs @ c # fs'). map_option nodes (heap s' b) = map_option nodes (heap t b)" using free_blocks_ok [OF t(2,3)] by blast
    have "free_nodes_before (node_addr b i) s = Some (False, s')" using run False t(1) f(1) by simp
    moreover have "tna_inv s' (vs @ c # fs') (used_nodes vs c ?n)" using tna_invI [OF f(2,3)] f(4) t(4) s(3,4) by simp
    moreover have "\<forall>x \<in> set (used_nodes vs c ?n). node_at s' x = node_at s x"
    proof
      fix x assume x: "x \<in> set (used_nodes vs c ?n)"
      then have "fst x \<in> set (vs @ [c])" using used_nodes_mem [of "fst x" "snd x" vs c ?n] by auto
      then show "node_at s' x = node_at s x" using f(5) t(5) s(1) v(1) by (intro node_at_same) (auto simp: tna_blocks_def)
    qed
    ultimately show ?thesis using u idx by blast
  qed
qed

lemma free_all_nodes_ok:
  assumes inv: "tna_inv s bs used"
  shows "\<exists>s' bs'. free_all_nodes s = Some s' \<and> tna_inv s' bs' [] \<and> (length bs' \<le> 2 \<or> block_num s' \<le> reserved_blocks s')"
proof (cases bs)
  case Nil
  then show ?thesis using inv by (intro exI [of _ s]) (auto simp: tna_inv_def tna_blocks_def free_all_nodes_def free_blocks_def)
next
  case (Cons b cs)
  let ?t = "s\<lparr>current_block := first_block s, last_node := - 1\<rparr>"
  have ok: "tna_blocks ?t ([] @ b # cs)" "current_block ?t = Some b" using inv Cons by (auto simp: tna_inv_def tna_blocks_def)
  obtain s' cs' where "free_blocks ?t = Some s'" "tna_blocks s' ([] @ b # cs')" "current_block s' = Some b" "last_node s' = - 1" "reserved_blocks s' = reserved_blocks s"
    "length cs' \<le> 1 \<or> block_num s' \<le> reserved_blocks s"
    using free_blocks_ok [OF ok] by auto
  then show ?thesis using tna_invI [of s' "[]" b cs'] unfolding free_all_nodes_def by (intro exI [of _ s'] exI [of _ "b # cs'"]) (auto simp: used_nodes_def)
qed

lemma destroy_loop_ok:
  assumes "bseg (heap s) p bs None" "distinct bs"
  shows "\<exists>s'. tna_destroy_loop p s = Some s' \<and> heap s' = heap s |` (- set bs)"
  using assms
proof (induction bs arbitrary: p s)
  case Nil
  then show ?case by (simp add: tna_destroy_loop.simps)
next
  case (Cons b bs)
  then obtain B where B: "p = Some b" "heap s b = Some B" "bseg (heap s) (b_next B) bs None" by auto
  define t where "t = s\<lparr>heap := (heap s)(b := None), block_num := block_num s - 1\<rparr>"
  have "bseg (heap t) (b_next B) bs None" using B(3) Cons.prems(2) bseg_cong [of bs "heap t" "heap s"] by (auto simp: t_def)
  from Cons.IH [OF this] Cons.prems(2) obtain s' where s': "tna_destroy_loop (b_next B) t = Some s'" "heap s' = heap t |` (- set bs)" by auto
  have "tna_destroy_loop p s = tna_destroy_loop (b_next B) t" using B by (simp add: tna_destroy_loop.simps [of "Some b"] get_next_Some free_block_def t_def)
  moreover have "heap t |` (- set bs) = heap s |` (- set (b # bs))" by (auto simp: t_def restrict_map_def fun_eq_iff)
  ultimately show ?case using s' by simp
qed

section \<open>Properties\<close>

lemma tna_init_inv: "tna_inv (tna_init r) [] []"
  by (simp add: tna_inv_def tna_blocks_def tna_init_def apart_def)

text \<open>The addresses of the nodes in use are all different.\<close>

lemma used_addresses:
  assumes "tna_inv s bs used" "x \<in> set used" "y \<in> set used" "node_addr (fst x) (snd x) = node_addr (fst y) (snd y)"
  shows "x = y"
proof -
  have "bs \<noteq> []" using assms by (auto simp: tna_inv_def)
  then obtain us c fs where s: "tna_blocks s (us @ c # fs)" "last_node s \<le> 15" "used = used_nodes us c (nat (last_node s + 1))" using tna_invE [OF assms(1)] by metis
  obtain a i b j where xy: "x = (a, i)" "y = (b, j)" by fastforce
  have m: "i < 16" "j < 16" "a \<in> set (us @ c # fs)" "b \<in> set (us @ c # fs)" using assms(2,3) s(2) by (auto simp: xy s(3) used_nodes_mem)
  have "a = b"
  proof (rule ccontr)
    assume "a \<noteq> b"
    then have "a + BLOCK_SIZE \<le> b \<or> b + BLOCK_SIZE \<le> a" using apartD s(1) m unfolding tna_blocks_def by blast
    then show False using node_other_block [OF m(2), of a b] node_in_block [OF m(1), of a] assms(4) by (simp add: xy)
  qed
  then show ?thesis using assms(4) by (simp add: xy node_addr_def NODE_SIZE_def)
qed

text \<open>C6: the allocator hands out nodes in sequence: with the nodes in use as a queue, \<open>allocate_node\<close> appends one fresh node that overlaps none in use, or changes nothing when no
  memory is left; \<open>free_nodes_before\<close> removes nodes in front only, finds the block of the node, and leaves the node at its own index in front part of the queue, so that fewer than sixteen nodes
  before it are kept; \<open>free_all_nodes\<close> empties the queue and keeps no more than the reserved blocks or two. All of them return, never touch freed memory, keep the block list, and change no
  node that stays in use.\<close>

theorem tranx_allocator_sequence:
  assumes inv: "tna_inv s bs used"
  shows "(malloc_ok s m \<longrightarrow> allocate_node m s = Some (None, s) \<and> m = None \<or>
      (\<exists>b i bs' s'. allocate_node m s = Some (Some (node_addr b i), s') \<and> tna_inv s' bs' (used @ [(b, i)]) \<and> fresh_node (node_at s' (b, i)) \<and>
        (\<forall>x \<in> set used. node_addr (fst x) (snd x) \<noteq> node_addr b i \<and> node_at s' x = node_at s x))) \<and>
    ((b, i) \<in> set used \<longrightarrow>
      (\<exists>s' bs' gone used'. free_nodes_before (node_addr b i) s = Some (False, s') \<and> used = gone @ used' \<and> tna_inv s' bs' used' \<and>
        i < length used' \<and> used' ! i = (b, i) \<and> (\<forall>x \<in> set used'. node_at s' x = node_at s x))) \<and>
    (\<exists>s' bs'. free_all_nodes s = Some s' \<and> tna_inv s' bs' [] \<and> (length bs' \<le> 2 \<or> block_num s' \<le> reserved_blocks s'))"
proof (intro conjI impI)
  assume "malloc_ok s m"
  from allocate_node_ok [OF inv this]
  show "allocate_node m s = Some (None, s) \<and> m = None \<or>
      (\<exists>b i bs' s'. allocate_node m s = Some (Some (node_addr b i), s') \<and> tna_inv s' bs' (used @ [(b, i)]) \<and> fresh_node (node_at s' (b, i)) \<and>
        (\<forall>x \<in> set used. node_addr (fst x) (snd x) \<noteq> node_addr b i \<and> node_at s' x = node_at s x))"
  proof (elim disjE exE conjE)
    fix p s' assume r: "allocate_node m s = Some (Some p, s')" and a: "allocated s used p s'"
    from a obtain b i bs' where f: "p = node_addr b i" "(b, i) \<notin> set used" "tna_inv s' bs' (used @ [(b, i)])" "fresh_node (node_at s' (b, i))"
      "\<forall>x \<in> set used. node_at s' x = node_at s x" unfolding allocated_def by blast
    have "\<forall>x \<in> set used. node_addr (fst x) (snd x) \<noteq> node_addr b i" using used_addresses [OF f(3), of _ "(b, i)"] f(2) by fastforce
    then show ?thesis using r f by blast
  qed simp
qed (use free_nodes_before_ok [OF inv] free_all_nodes_ok [OF inv] in blast)+

text \<open>The destructor frees every block, each once.\<close>

theorem tranx_allocator_destroy:
  assumes inv: "tna_inv s bs used"
  shows "\<exists>s'. tna_destroy s = Some s' \<and> heap s' = Map.empty"
proof -
  have s: "bseg (heap s) (first_block s) bs None" "distinct bs" "dom (heap s) = set bs" using inv by (auto simp: tna_inv_def tna_blocks_def)
  from destroy_loop_ok [OF s(1,2)] obtain s' where "tna_destroy s = Some s'" "heap s' = heap s |` (- set bs)" unfolding tna_destroy_def by blast
  moreover have "heap s |` (- set bs) = Map.empty" unfolding s(3) [symmetric] by (auto simp: restrict_map_def fun_eq_iff)
  ultimately show ?thesis by simp
qed

definition raw_nodes :: "Tranx_node list" where
  "raw_nodes = replicate 16 \<lparr>log_name = replicate 512 7, log_pos = 9, n_next = None, hash_next = None\<rparr>"

theorem tranx_allocator_sequence_witness:
  "\<exists>b i bs' s'. allocate_node (Some (4096, raw_nodes)) (tna_init 40) = Some (Some (node_addr b i), s') \<and> tna_inv s' bs' [(b, i)] \<and> fresh_node (node_at s' (b, i))"
proof -
  have "malloc_ok (tna_init 40) (Some (4096, raw_nodes))" by (simp add: malloc_ok_def tna_init_def raw_nodes_def)
  then show ?thesis using tranx_allocator_sequence [OF tna_init_inv, of 40 "Some (4096, raw_nodes)" 0 0] by fastforce
qed

theorem tranx_allocator_destroy_witness: "\<exists>s'. tna_destroy (tna_init 40) = Some s' \<and> heap s' = Map.empty"
  by (rule tranx_allocator_destroy [OF tna_init_inv])

end
