(* ===== verification/Xid.thy ===== *)
theory Xid imports Byte_Order Memory begin

text \<open>
  \<open>private/handler.h\<close>, \<open>struct xid_t\<close>: the identifiers of XA transactions and the ones the server makes from a number and a server id. A copy or comparison past the end of an area is \<open>None\<close>. \<open>set(XID *)\<close> copies a prefix of the structure as bytes, so the model has the byte image of the structure.
\<close>

section \<open>XID\<close>

record XID =
  formatID :: int32
  gtrid_length :: int32
  bqual_length :: int32
  xdata :: buffer

definition XIDDATASIZE :: nat where "XIDDATASIZE = 128"
definition MYSQL_XID_PREFIX :: buffer where "MYSQL_XID_PREFIX = [77, 121, 83, 81, 76, 88, 105, 100]"
definition MYSQL_XID_PREFIX_LEN :: nat where "MYSQL_XID_PREFIX_LEN = 8"
definition MYSQL_XID_OFFSET :: nat where "MYSQL_XID_OFFSET = MYSQL_XID_PREFIX_LEN + 4"
definition MYSQL_XID_GTRID_LEN :: nat where "MYSQL_XID_GTRID_LEN = MYSQL_XID_OFFSET + 8"

text \<open>\<open>memcpy(data + off, src, n)\<close> and \<open>memcmp(a, b, n)\<close> for a signed 32-bit \<open>n\<close>, which is converted to \<open>size_t\<close>.\<close>

definition copy_in :: "buffer \<Rightarrow> int \<Rightarrow> buffer \<Rightarrow> int32 \<Rightarrow> buffer option" where
  "copy_in area off src n =
     (if 0 \<le> off \<and> 0 \<le> sint n \<and> nat (sint n) \<le> length src \<and> nat off + nat (sint n) \<le> length area then Some (memcpy area (nat off) (take (nat (sint n)) src)) else None)"

definition compare_prefix :: "buffer \<Rightarrow> buffer \<Rightarrow> int32 \<Rightarrow> int option" where
  "compare_prefix a b n =
     (if 0 \<le> sint n \<and> nat (sint n) \<le> length a \<and> nat (sint n) \<le> length b then Some (memcmp (take (nat (sint n)) a) (take (nat (sint n)) b)) else None)"

definition xid_is_null :: "XID \<Rightarrow> bool" where
  "xid_is_null x \<longleftrightarrow> formatID x = - 1"

definition xid_null :: "XID \<Rightarrow> XID" where
  "xid_null x = x\<lparr>formatID := - 1\<rparr>"

definition xid_eq_parts :: "int32 \<Rightarrow> int32 \<Rightarrow> buffer \<Rightarrow> XID \<Rightarrow> bool option" where
  "xid_eq_parts g b d x =
     (if \<not> xid_is_null x \<and> g = gtrid_length x \<and> b = bqual_length x then do { c \<leftarrow> compare_prefix d (xdata x) (g + b); Some (c = 0) } else Some False)"

definition xid_eq :: "XID \<Rightarrow> XID \<Rightarrow> bool option" where
  "xid_eq x y = (if xid_is_null y then Some False else xid_eq_parts (gtrid_length y) (bqual_length y) (xdata y) x)"

definition key_length :: "XID \<Rightarrow> uint" where
  "key_length x = ucast ((8 :: size_t) + scast (gtrid_length x) + scast (bqual_length x))"

definition xid_length :: "XID \<Rightarrow> uint" where
  "xid_length x = 4 + key_length x"

text \<open>The structure as it lies in memory.\<close>

definition xid_image :: "XID \<Rightarrow> buffer" where
  "xid_image x = store32 (store32 (store32 (replicate 12 0 @ xdata x) 0 (formatID x)) 4 (gtrid_length x)) 8 (bqual_length x)"

definition xid_of_image :: "buffer \<Rightarrow> XID" where
  "xid_of_image m = \<lparr>formatID = load32 m 0, gtrid_length = load32 m 4, bqual_length = load32 m 8, xdata = drop 12 m\<rparr>"

definition xid_set :: "XID \<Rightarrow> XID \<Rightarrow> XID option" where
  "xid_set y x =
     (let n = unat (xid_length y) in
      if n \<le> length (xid_image y) \<and> n \<le> length (xid_image x) then Some (xid_of_image (memcpy (xid_image x) 0 (take n (xid_image y)))) else None)"

text \<open>The bytes that \<open>key()\<close> and \<open>key_length()\<close> give to a hash.\<close>

definition xid_key :: "XID \<Rightarrow> buffer option" where
  "xid_key x = (if 4 + unat (key_length x) \<le> length (xid_image x) then Some (bytes (xid_image x) 4 (unat (key_length x))) else None)"

definition xid_set_parts :: "int32 \<Rightarrow> buffer \<Rightarrow> int32 \<Rightarrow> buffer \<Rightarrow> int32 \<Rightarrow> XID \<Rightarrow> XID option" where
  "xid_set_parts f g gl b bl x =
     do { let x1 = x\<lparr>formatID := f, gtrid_length := gl\<rparr>;
          d1 \<leftarrow> (if gl \<noteq> 0 then copy_in (xdata x1) 0 g gl else Some (xdata x1));
          let x2 = x1\<lparr>xdata := d1, bqual_length := bl\<rparr>;
          d2 \<leftarrow> (if bl \<noteq> 0 then copy_in (xdata x2) (sint gl) b bl else Some (xdata x2));
          Some (x2\<lparr>xdata := d2\<rparr>) }"

definition xid_set_data :: "int32 \<Rightarrow> int32 \<Rightarrow> buffer \<Rightarrow> XID \<Rightarrow> XID option" where
  "xid_set_data g b d x = do { c \<leftarrow> copy_in (xdata x) 0 d (g + b); Some (x\<lparr>formatID := 1, gtrid_length := g, bqual_length := b, xdata := c\<rparr>) }"

definition xid_set_my :: "ulonglong \<Rightarrow> ulong \<Rightarrow> XID \<Rightarrow> XID option" where
  "xid_set_my xid trx_server_id x =
     do { x1 \<leftarrow> xid_set_data (of_nat MYSQL_XID_PREFIX_LEN) 0 MYSQL_XID_PREFIX (x\<lparr>formatID := 1\<rparr>);
          if MYSQL_XID_GTRID_LEN \<le> length (xdata x1)
          then Some (x1\<lparr>xdata := store64 (store32 (xdata x1) MYSQL_XID_PREFIX_LEN trx_server_id) MYSQL_XID_OFFSET xid, gtrid_length := of_nat MYSQL_XID_GTRID_LEN\<rparr>)
          else None }"

definition quick_get_my_xid :: "XID \<Rightarrow> ulonglong" where
  "quick_get_my_xid x = load64 (xdata x) MYSQL_XID_OFFSET"

definition get_my_xid :: "XID \<Rightarrow> ulonglong" where
  "get_my_xid x =
     (if gtrid_length x = of_nat MYSQL_XID_GTRID_LEN \<and> bqual_length x = 0 \<and> memcmp (take MYSQL_XID_PREFIX_LEN (xdata x)) MYSQL_XID_PREFIX = 0 then quick_get_my_xid x else 0)"

definition get_trx_server_id :: "XID \<Rightarrow> ulong" where
  "get_trx_server_id x = load32 (xdata x) MYSQL_XID_PREFIX_LEN"

section \<open>Properties\<close>

text \<open>An XID as the X/Open specification wants it.\<close>

definition xid_valid :: "XID \<Rightarrow> bool" where
  "xid_valid x \<longleftrightarrow> length (xdata x) = XIDDATASIZE \<and> 0 \<le> sint (gtrid_length x) \<and> 0 \<le> sint (bqual_length x) \<and> sint (gtrid_length x) + sint (bqual_length x) \<le> int XIDDATASIZE"

definition id_length :: "XID \<Rightarrow> nat" where
  "id_length x = nat (sint (gtrid_length x) + sint (bqual_length x))"

text \<open>What identifies a transaction: the two parts of the name.\<close>

definition xid_name :: "XID \<Rightarrow> int32 \<times> int32 \<times> buffer" where
  "xid_name x = (gtrid_length x, bqual_length x, take (id_length x) (xdata x))"

lemma sum_small:
  assumes "0 \<le> sint (a :: int32)" "0 \<le> sint b" "sint a + sint b \<le> 128"
  shows "sint (a + b) = sint a + sint b"
  using assms by (simp add: sint_word_add signed_take_bit_int_eq_self)

lemma xid_validD:
  assumes "xid_valid x"
  shows "length (xdata x) = 128" "id_length x \<le> 128" "sint (gtrid_length x + bqual_length x) = int (id_length x)" "unat (key_length x) = 8 + id_length x"
proof -
  have v: "0 \<le> sint (gtrid_length x)" "0 \<le> sint (bqual_length x)" "sint (gtrid_length x) + sint (bqual_length x) \<le> 128"
    using assms by (simp_all add: xid_valid_def XIDDATASIZE_def)
  show "length (xdata x) = 128" using assms by (simp add: xid_valid_def XIDDATASIZE_def)
  show "id_length x \<le> 128" using v by (simp add: id_length_def)
  show "sint (gtrid_length x + bqual_length x) = int (id_length x)" using sum_small [OF v] v by (simp add: id_length_def)
  define k where "k = 8 + sint (gtrid_length x) + sint (bqual_length x)"
  have "(8 :: size_t) + scast (gtrid_length x) + scast (bqual_length x) = word_of_int k" by (simp add: k_def)
  also have "k = int (8 + id_length x)" using v by (simp add: k_def id_length_def)
  finally have w: "(8 :: size_t) + scast (gtrid_length x) + scast (bqual_length x) = of_nat (8 + id_length x)" by simp
  show "unat (key_length x) = 8 + id_length x" unfolding key_length_def w unat_ucast_mod unat_of_nat using \<open>id_length x \<le> 128\<close> by simp
qed

lemma image_length [simp]: "length (xid_image x) = 12 + length (xdata x)"
  by (simp add: xid_image_def)

lemma image_data: "12 \<le> i \<Longrightarrow> i < 12 + length (xdata x) \<Longrightarrow> xid_image x ! i = xdata x ! (i - 12)"
  by (simp add: xid_image_def m4.store_frame nth_append)

lemma image_fields: "load32 (xid_image x) 0 = formatID x" "load32 (xid_image x) 4 = gtrid_length x" "load32 (xid_image x) 8 = bqual_length x"
  by (simp_all add: xid_image_def m4.load_store m4.load_store_other)

lemma drop_image: "drop 12 (xid_image x) = xdata x"
  by (rule nth_equalityI) (simp_all add: image_data)

lemma xid_of_image_image: "xid_of_image (xid_image x) = x"
  by (simp add: xid_of_image_def image_fields drop_image)

lemma copy_image:
  assumes "12 \<le> n" "n \<le> length (xid_image y)" "n \<le> length (xid_image x)"
  shows "xid_of_image (memcpy (xid_image x) 0 (take n (xid_image y))) = y\<lparr>xdata := take (n - 12) (xdata y) @ drop (n - 12) (xdata x)\<rparr>"
proof -
  let ?m = "memcpy (xid_image x) 0 (take n (xid_image y))"
  have m: "?m = take n (xid_image y) @ drop n (xid_image x)" using assms by (simp add: memcpy_def)
  have "?m ! i = xid_image y ! i" if "i < 12" for i using that assms by (simp add: m nth_append)
  then have l: "load32 ?m t = load32 (xid_image y) t" if "t + 4 \<le> 12" for t using that by (intro m4.load_local) auto
  have "drop 12 ?m = take (n - 12) (xdata y) @ drop (n - 12) (xdata x)"
  proof -
    have "drop n (xid_image x) = drop (n - 12) (drop 12 (xid_image x))" using assms(1) by simp
    then show ?thesis using assms by (simp add: m drop_take drop_image)
  qed
  then show ?thesis using l [of 0] l [of 4] l [of 8] by (simp add: xid_of_image_def image_fields)
qed

lemma xid_key_eq:
  assumes "xid_valid x"
  shows "xid_key x = Some (bytes (xid_image x) 4 8 @ take (id_length x) (xdata x))"
proof -
  have "bytes (xid_image x) 4 (8 + id_length x) = bytes (xid_image x) 4 8 @ take (id_length x) (xdata x)"
    unfolding bytes_append by (simp add: bytes_def drop_image)
  then show ?thesis using xid_validD [OF assms] by (simp add: xid_key_def)
qed

lemma header_bytes:
  "length (xdata x) = 128 \<Longrightarrow> length (xdata y) = 128 \<Longrightarrow>
   bytes (xid_image x) 4 8 = bytes (xid_image y) 4 8 \<longleftrightarrow> gtrid_length x = gtrid_length y \<and> bqual_length x = bqual_length y"
proof
  assume l: "length (xdata x) = 128" "length (xdata y) = 128" and e: "bytes (xid_image x) 4 8 = bytes (xid_image y) 4 8"
  have "xid_image x ! i = xid_image y ! i" if "4 \<le> i" "i < 12" for i
    using arg_cong [OF e, of "\<lambda>b. b ! (i - 4)"] that l by (simp add: bytes_def)
  then have "load32 (xid_image x) 4 = load32 (xid_image y) 4" "load32 (xid_image x) 8 = load32 (xid_image y) 8"
    by (intro m4.load_local; simp)+
  then show "gtrid_length x = gtrid_length y \<and> bqual_length x = bqual_length y" by (simp add: image_fields)
next
  assume l: "length (xdata x) = 128" "length (xdata y) = 128" and e: "gtrid_length x = gtrid_length y \<and> bqual_length x = bqual_length y"
  show "bytes (xid_image x) 4 8 = bytes (xid_image y) 4 8"
  proof (rule nth_equalityI)
    fix i assume "i < length (bytes (xid_image x) 4 8)"
    then have i: "i < 8" by (simp add: bytes_def)
    let ?h = "\<lambda>z. store32 (replicate 12 0 @ xdata z) 0 (formatID z)"
    have "xid_image z ! (i + 4) = store32 (store32 (replicate 12 0) 4 (gtrid_length z)) 8 (bqual_length z) ! (i + 4)" if "length (xdata z) = 128" for z
    proof -
      have "store32 (store32 (?h z) 4 g) 8 b ! (i + 4) = store32 (store32 (replicate 12 0) 4 g) 8 b ! (i + 4)" for g b
        using i that by (simp add: store32_def store_bytes_4 nth_list_update nth_append)
      then show ?thesis by (simp add: xid_image_def)
    qed
    then show "bytes (xid_image x) 4 8 ! i = bytes (xid_image y) 4 8 ! i" using e l i by (simp add: bytes_def add.commute)
  qed (use l in \<open>simp add: bytes_def\<close>)
qed

lemma xid_name_eqD: "xid_name x = xid_name y \<Longrightarrow> gtrid_length x = gtrid_length y \<and> bqual_length x = bqual_length y \<and> id_length x = id_length y"
  by (auto simp: xid_name_def id_length_def)

lemma xid_eq_name:
  assumes "xid_valid x" "xid_valid y"
  shows "xid_eq x y = Some (\<not> xid_is_null x \<and> \<not> xid_is_null y \<and> xid_name x = xid_name y)"
proof (cases "gtrid_length y = gtrid_length x \<and> bqual_length y = bqual_length x")
  case True
  then have n: "id_length y = id_length x" by (simp add: id_length_def)
  show ?thesis
    using True n xid_validD [OF assms(1)] xid_validD [OF assms(2)] by (auto simp: xid_eq_def xid_eq_parts_def compare_prefix_def xid_name_def)
next
  case False
  then show ?thesis by (auto simp: xid_eq_def xid_eq_parts_def xid_name_def)
qed

text \<open>C25: for valid identifiers \<open>eq\<close> compares the two parts of the name, the bytes handed to a hash by \<open>key\<close> and \<open>key_length\<close> are equal just when the names are, and
  \<open>set(XID *)\<close>, which copies only the used bytes, makes an equal identifier with the same format.\<close>

theorem xid_identity:
  assumes x: "xid_valid x" and y: "xid_valid y"
  shows "xid_eq x y = Some (\<not> xid_is_null x \<and> \<not> xid_is_null y \<and> xid_name x = xid_name y) \<and>
    (xid_key x = xid_key y \<longleftrightarrow> xid_name x = xid_name y) \<and>
    (\<exists>z. xid_set y x = Some z \<and> xid_valid z \<and> xid_name z = xid_name y \<and> formatID z = formatID y)"
proof (intro conjI)
  show "xid_eq x y = Some (\<not> xid_is_null x \<and> \<not> xid_is_null y \<and> xid_name x = xid_name y)" by (rule xid_eq_name [OF x y])
  have l: "length (xdata x) = 128" "length (xdata y) = 128" using x y xid_validD by blast+
  have "length (bytes (xid_image x) 4 8) = length (bytes (xid_image y) 4 8)" using l by (simp add: bytes_def)
  then have "xid_key x = xid_key y \<longleftrightarrow> bytes (xid_image x) 4 8 = bytes (xid_image y) 4 8 \<and> take (id_length x) (xdata x) = take (id_length y) (xdata y)"
    by (simp add: xid_key_eq x y)
  then show "xid_key x = xid_key y \<longleftrightarrow> xid_name x = xid_name y" unfolding header_bytes [OF l] by (auto simp: xid_name_def)
  let ?n = "id_length y" and ?z = "y\<lparr>xdata := take (id_length y) (xdata y) @ drop (id_length y) (xdata x)\<rparr>"
  have "xid_length y = 4 + key_length y" by (simp add: xid_length_def)
  moreover have "unat (4 + key_length y) = 4 + unat (key_length y)" by (subst unat_add_small) (use xid_validD(2,4) [OF y] in simp_all)
  ultimately have "unat (xid_length y) = 12 + ?n" using xid_validD(4) [OF y] by simp
  then have "xid_set y x = Some ?z" using copy_image [of "12 + ?n" y x] xid_validD(2) [OF y] l by (simp add: xid_set_def)
  moreover have "xid_valid ?z" using y l xid_validD(2) [OF y] by (simp add: xid_valid_def XIDDATASIZE_def)
  moreover have "xid_name ?z = xid_name y" using xid_validD(2) [OF y] l by (simp add: xid_name_def id_length_def)
  ultimately show "\<exists>z. xid_set y x = Some z \<and> xid_valid z \<and> xid_name z = xid_name y \<and> formatID z = formatID y" by auto
qed

text \<open>an identifier made from a transaction number and a server id gives both back, is valid, not null and as long as
  \<open>MYSQL_XID_GTRID_LEN\<close> says.\<close>

theorem my_xid_roundtrip:
  assumes "length (xdata x) = XIDDATASIZE"
  shows "\<exists>y. xid_set_my xid sid x = Some y \<and> get_my_xid y = xid \<and> get_trx_server_id y = sid \<and> xid_valid y \<and> \<not> xid_is_null y \<and> id_length y = MYSQL_XID_GTRID_LEN"
proof -
  let ?d = "memcpy (xdata x) 0 MYSQL_XID_PREFIX" and ?p = "MYSQL_XID_PREFIX"
  let ?e = "store64 (store32 ?d 8 sid) 12 xid"
  define y where "y = \<lparr>formatID = 1, gtrid_length = 20, bqual_length = 0, xdata = ?e\<rparr>"
  have l: "length (xdata x) = 128" "length ?p = 8" "length ?d = 128" using assms by (simp_all add: XIDDATASIZE_def MYSQL_XID_PREFIX_def memcpy_def)
  have set: "xid_set_my xid sid x = Some y"
    using l by (cases x) (simp add: xid_set_my_def xid_set_data_def copy_in_def MYSQL_XID_PREFIX_LEN_def MYSQL_XID_GTRID_LEN_def MYSQL_XID_OFFSET_def y_def)
  have "take 8 ?e = take 8 ?d"
    by (rule nth_equalityI) (simp_all add: l m4.store_frame m8.store_frame)
  then have pre: "take 8 ?e = ?p" using l by (simp add: memcpy_def)
  have "get_my_xid y = xid"
    using m8.load_store [of 12 "store32 ?d 8 sid" xid] pre l by (simp add: get_my_xid_def quick_get_my_xid_def y_def MYSQL_XID_PREFIX_LEN_def MYSQL_XID_GTRID_LEN_def MYSQL_XID_OFFSET_def)
  moreover have "load32 ?e 8 = load32 (store32 ?d 8 sid) 8" by (rule m4.load_local) (simp add: m8.store_frame)
  then have "get_trx_server_id y = sid" using m4.load_store [of 8 ?d sid] l by (simp add: get_trx_server_id_def y_def MYSQL_XID_PREFIX_LEN_def)
  moreover have "xid_valid y" "\<not> xid_is_null y" "id_length y = MYSQL_XID_GTRID_LEN"
    using l by (simp_all add: xid_valid_def y_def XIDDATASIZE_def xid_is_null_def id_length_def MYSQL_XID_GTRID_LEN_def MYSQL_XID_OFFSET_def MYSQL_XID_PREFIX_LEN_def)
  ultimately show ?thesis using set by blast
qed

definition xid0 :: XID where
  "xid0 = \<lparr>formatID = 1, gtrid_length = 3, bqual_length = 2, xdata = replicate 128 65\<rparr>"

theorem xid_identity_witness: "xid_eq xid0 (xid0\<lparr>formatID := 5\<rparr>) = Some True"
proof -
  have "xid_valid xid0" "xid_valid (xid0\<lparr>formatID := 5\<rparr>)" by (simp_all add: xid_valid_def xid0_def XIDDATASIZE_def)
  from xid_identity [OF this] show ?thesis by (simp add: xid_is_null_def xid_name_def xid0_def id_length_def)
qed

theorem my_xid_roundtrip_witness: "\<exists>y. xid_set_my 77 4 xid0 = Some y \<and> get_my_xid y = 77 \<and> get_trx_server_id y = 4"
  using my_xid_roundtrip [of xid0 77 4] by (auto simp: xid0_def XIDDATASIZE_def)

end
