(* ===== verification/Json_Writer.thy ===== *)
theory Json_Writer imports Prelude begin

text \<open>
  \<open>private/my_json_writer.h\<close>: \<open>String_with_limit\<close>, and the scoped classes \<open>Json_writer_object\<close> and \<open>Json_writer_array\<close> by which the optimizer trace writes its
  document. The members of \<open>Json_writer\<close> itself are only declared in the header; the model keeps the sequence of their calls. A scoped object remembers whether it has a
  writer (tracing may be off) and whether it was closed; a call through a missing writer is \<open>None\<close>. Doubles, expressions and tables are opaque types.
\<close>

section \<open>String_with_limit\<close>

record String_with_limit =
  str :: buffer
  size_limit :: size_t
  truncated_len :: size_t

definition swl_init :: String_with_limit where
  "swl_init = \<lparr>str = [], size_limit = - 1, truncated_len = 0\<rparr>"

definition get_truncated_bytes :: "String_with_limit \<Rightarrow> size_t" where
  "get_truncated_bytes s = truncated_len s"

definition set_size_limit :: "size_t \<Rightarrow> String_with_limit \<Rightarrow> String_with_limit" where
  "set_size_limit limit s = s\<lparr>size_limit := limit\<rparr>"

text \<open>\<open>app\<close> is \<open>String::append\<close>; the length is that of the contents.\<close>

definition str_length :: "String_with_limit \<Rightarrow> size_t" where
  "str_length s = of_nat (length (str s))"

definition swl_append :: "(buffer \<Rightarrow> buffer \<Rightarrow> buffer) \<Rightarrow> buffer \<Rightarrow> size_t \<Rightarrow> String_with_limit \<Rightarrow> String_with_limit" where
  "swl_append app p n s =
     (if str_length s + n \<le> size_limit s then s\<lparr>str := app (str s) (take (unat n) p)\<rparr>
      else if str_length s < size_limit s
      then let bytes_to_add = size_limit s - str_length s in
           s\<lparr>str := app (str s) (take (unat bytes_to_add) p), truncated_len := truncated_len s + (n - bytes_to_add)\<rparr>
      else s\<lparr>truncated_len := truncated_len s + n\<rparr>)"

definition swl_append_str :: "(buffer \<Rightarrow> buffer \<Rightarrow> buffer) \<Rightarrow> buffer \<Rightarrow> String_with_limit \<Rightarrow> String_with_limit" where
  "swl_append_str app p s = swl_append app p (of_nat (length p)) s"

definition swl_append_char :: "(buffer \<Rightarrow> buffer \<Rightarrow> buffer) \<Rightarrow> uchar \<Rightarrow> String_with_limit \<Rightarrow> String_with_limit" where
  "swl_append_char app c s = (if str_length s + 1 > size_limit s then s\<lparr>truncated_len := truncated_len s + 1\<rparr> else s\<lparr>str := app (str s) [c]\<rparr>)"

section \<open>Calls of Json_writer\<close>

datatype ('d, 'i, 't) call =
  Add_member string | Start_object | End_object | Start_array | End_array
  | Add_str string | Add_item 'i | Add_ll longlong | Add_ull ulonglong | Add_double 'd | Add_bool bool | Add_null | Add_tab 't | Add_table 't

type_synonym ('d, 'i, 't) calls = "('d, 'i, 't) call list"

text \<open>\<open>Json_value_helper\<close>\<close>

definition h_add_str :: "string \<Rightarrow> ('d, 'i, 't) calls \<Rightarrow> ('d, 'i, 't) calls" where "h_add_str v w = w @ [Add_str v]"
definition h_add_str_n :: "string \<Rightarrow> size_t \<Rightarrow> ('d, 'i, 't) calls \<Rightarrow> ('d, 'i, 't) calls" where "h_add_str_n v n w = w @ [Add_str (take (unat n) v)]"
definition h_add_item :: "'i \<Rightarrow> ('d, 'i, 't) calls \<Rightarrow> ('d, 'i, 't) calls" where "h_add_item i w = w @ [Add_item i]"
definition h_add_ll :: "longlong \<Rightarrow> ('d, 'i, 't) calls \<Rightarrow> ('d, 'i, 't) calls" where "h_add_ll v w = w @ [Add_ll v]"
definition h_add_double :: "'d \<Rightarrow> ('d, 'i, 't) calls \<Rightarrow> ('d, 'i, 't) calls" where "h_add_double v w = w @ [Add_double v]"
definition h_add_bool :: "bool \<Rightarrow> ('d, 'i, 't) calls \<Rightarrow> ('d, 'i, 't) calls" where "h_add_bool v w = w @ [Add_bool v]"
definition h_add_null :: "('d, 'i, 't) calls \<Rightarrow> ('d, 'i, 't) calls" where "h_add_null w = w @ [Add_null]"
definition h_add_tab :: "'t \<Rightarrow> ('d, 'i, 't) calls \<Rightarrow> ('d, 'i, 't) calls" where "h_add_tab t w = w @ [Add_tab t]"
definition h_add_table :: "'t \<Rightarrow> ('d, 'i, 't) calls \<Rightarrow> ('d, 'i, 't) calls" where "h_add_table t w = w @ [Add_table t]"

record Json_writer_struct =
  my_writer :: bool
  closed :: bool

definition struct_init :: "bool \<Rightarrow> Json_writer_struct" where
  "struct_init writer = \<lparr>my_writer = writer, closed = False\<rparr>"

definition trace_started :: "Json_writer_struct \<Rightarrow> bool" where
  "trace_started j = my_writer j"

section \<open>Json_writer_object\<close>

definition obj_add_member :: "string \<Rightarrow> ('d, 'i, 't) calls \<Rightarrow> ('d, 'i, 't) calls" where
  "obj_add_member name w = w @ [Add_member name]"

definition obj_init :: "bool \<Rightarrow> string option \<Rightarrow> ('d, 'i, 't) calls \<Rightarrow> Json_writer_struct \<times> ('d, 'i, 't) calls" where
  "obj_init writer name w =
     (let j = struct_init writer in
      (j, if my_writer j then (case name of Some n \<Rightarrow> obj_add_member n w | None \<Rightarrow> w) @ [Start_object] else w))"

definition obj_destroy :: "Json_writer_struct \<Rightarrow> ('d, 'i, 't) calls \<Rightarrow> Json_writer_struct \<times> ('d, 'i, 't) calls" where
  "obj_destroy j w = (j\<lparr>closed := True\<rparr>, if my_writer j \<and> \<not> closed j then w @ [End_object] else w)"

definition obj_end :: "Json_writer_struct \<Rightarrow> ('d, 'i, 't) calls \<Rightarrow> Json_writer_struct \<times> ('d, 'i, 't) calls" where
  "obj_end j w = (j\<lparr>closed := True\<rparr>, if my_writer j then w @ [End_object] else w)"

definition obj_add_bool :: "Json_writer_struct \<Rightarrow> string \<Rightarrow> bool \<Rightarrow> ('d, 'i, 't) calls \<Rightarrow> ('d, 'i, 't) calls" where
  "obj_add_bool j name v w = (if my_writer j then h_add_bool v (obj_add_member name w) else w)"

definition obj_add_ull :: "Json_writer_struct \<Rightarrow> string \<Rightarrow> ulonglong \<Rightarrow> ('d, 'i, 't) calls \<Rightarrow> ('d, 'i, 't) calls" where
  "obj_add_ull j name v w = (if my_writer j then obj_add_member name w @ [Add_ull v] else w)"

definition obj_add_int :: "Json_writer_struct \<Rightarrow> string \<Rightarrow> longlong \<Rightarrow> ('d, 'i, 't) calls \<Rightarrow> ('d, 'i, 't) calls" where
  "obj_add_int j name v w = (if my_writer j then h_add_ll v (obj_add_member name w) else w)"

definition obj_add_double :: "Json_writer_struct \<Rightarrow> string \<Rightarrow> 'd \<Rightarrow> ('d, 'i, 't) calls \<Rightarrow> ('d, 'i, 't) calls" where
  "obj_add_double j name v w = (if my_writer j then h_add_double v (obj_add_member name w) else w)"

definition obj_add_str :: "Json_writer_struct \<Rightarrow> string \<Rightarrow> string \<Rightarrow> ('d, 'i, 't) calls \<Rightarrow> ('d, 'i, 't) calls" where
  "obj_add_str j name v w = (if my_writer j then h_add_str v (obj_add_member name w) else w)"

definition obj_add_bytes :: "Json_writer_struct \<Rightarrow> string \<Rightarrow> string \<Rightarrow> size_t \<Rightarrow> ('d, 'i, 't) calls \<Rightarrow> ('d, 'i, 't) calls option" where
  "obj_add_bytes j name v n w = (if my_writer j then Some (h_add_str_n v n (obj_add_member name w)) else None)"

definition obj_add_lex :: "Json_writer_struct \<Rightarrow> string \<Rightarrow> string \<Rightarrow> ('d, 'i, 't) calls \<Rightarrow> ('d, 'i, 't) calls" where
  "obj_add_lex j name v w = (if my_writer j then h_add_str v (obj_add_member name w) else w)"

definition obj_add_item :: "Json_writer_struct \<Rightarrow> string \<Rightarrow> 'i \<Rightarrow> ('d, 'i, 't) calls \<Rightarrow> ('d, 'i, 't) calls" where
  "obj_add_item j name v w = (if my_writer j then h_add_item v (obj_add_member name w) else w)"

definition obj_add_null :: "Json_writer_struct \<Rightarrow> string \<Rightarrow> ('d, 'i, 't) calls \<Rightarrow> ('d, 'i, 't) calls" where
  "obj_add_null j name w = (if my_writer j then h_add_null (obj_add_member name w) else w)"

definition obj_add_tab :: "Json_writer_struct \<Rightarrow> 't \<Rightarrow> ('d, 'i, 't) calls \<Rightarrow> ('d, 'i, 't) calls" where
  "obj_add_tab j t w = (if my_writer j then h_add_tab t (obj_add_member ''table'' w) else w)"

definition obj_add_table :: "Json_writer_struct \<Rightarrow> 't \<Rightarrow> ('d, 'i, 't) calls \<Rightarrow> ('d, 'i, 't) calls" where
  "obj_add_table j t w = (if my_writer j then h_add_table t (obj_add_member ''table'' w) else w)"

definition FAKE_SELECT_LEX_ID :: uint where "FAKE_SELECT_LEX_ID = - 1"

definition obj_add_select_number :: "Json_writer_struct \<Rightarrow> uint \<Rightarrow> ('d, 'i, 't) calls \<Rightarrow> ('d, 'i, 't) calls" where
  "obj_add_select_number j n w =
     (if my_writer j
      then let w1 = obj_add_member ''select_id'' w in if n = FAKE_SELECT_LEX_ID then h_add_str ''fake'' w1 else h_add_ll (ucast n) w1
      else w)"

section \<open>Json_writer_array\<close>

definition arr_init :: "bool \<Rightarrow> string option \<Rightarrow> ('d, 'i, 't) calls \<Rightarrow> Json_writer_struct \<times> ('d, 'i, 't) calls" where
  "arr_init writer name w =
     (let j = struct_init writer in
      (j, if my_writer j then (case name of Some n \<Rightarrow> obj_add_member n w | None \<Rightarrow> w) @ [Start_array] else w))"

definition arr_destroy :: "Json_writer_struct \<Rightarrow> ('d, 'i, 't) calls \<Rightarrow> Json_writer_struct \<times> ('d, 'i, 't) calls" where
  "arr_destroy j w = (if my_writer j \<and> \<not> closed j then (j\<lparr>closed := True\<rparr>, w @ [End_array]) else (j, w))"

definition arr_end :: "Json_writer_struct \<Rightarrow> ('d, 'i, 't) calls \<Rightarrow> Json_writer_struct \<times> ('d, 'i, 't) calls" where
  "arr_end j w = (j\<lparr>closed := True\<rparr>, if my_writer j then w @ [End_array] else w)"

definition arr_add_bool :: "Json_writer_struct \<Rightarrow> bool \<Rightarrow> ('d, 'i, 't) calls \<Rightarrow> ('d, 'i, 't) calls" where
  "arr_add_bool j v w = (if my_writer j then h_add_bool v w else w)"

definition arr_add_ull :: "Json_writer_struct \<Rightarrow> ulonglong \<Rightarrow> ('d, 'i, 't) calls \<Rightarrow> ('d, 'i, 't) calls" where
  "arr_add_ull j v w = (if my_writer j then h_add_ll v w else w)"

definition arr_add_ll :: "Json_writer_struct \<Rightarrow> longlong \<Rightarrow> ('d, 'i, 't) calls \<Rightarrow> ('d, 'i, 't) calls" where
  "arr_add_ll j v w = (if my_writer j then h_add_ll v w else w)"

definition arr_add_double :: "Json_writer_struct \<Rightarrow> 'd \<Rightarrow> ('d, 'i, 't) calls \<Rightarrow> ('d, 'i, 't) calls" where
  "arr_add_double j v w = (if my_writer j then h_add_double v w else w)"

definition arr_add_str :: "Json_writer_struct \<Rightarrow> string \<Rightarrow> ('d, 'i, 't) calls \<Rightarrow> ('d, 'i, 't) calls" where
  "arr_add_str j v w = (if my_writer j then h_add_str v w else w)"

definition arr_add_bytes :: "Json_writer_struct \<Rightarrow> string \<Rightarrow> size_t \<Rightarrow> ('d, 'i, 't) calls \<Rightarrow> ('d, 'i, 't) calls" where
  "arr_add_bytes j v n w = (if my_writer j then h_add_str_n v n w else w)"

definition arr_add_lex :: "Json_writer_struct \<Rightarrow> string \<Rightarrow> ('d, 'i, 't) calls \<Rightarrow> ('d, 'i, 't) calls" where
  "arr_add_lex j v w = (if my_writer j then h_add_str v w else w)"

definition arr_add_item :: "Json_writer_struct \<Rightarrow> 'i \<Rightarrow> ('d, 'i, 't) calls \<Rightarrow> ('d, 'i, 't) calls" where
  "arr_add_item j v w = (if my_writer j then h_add_item v w else w)"

definition arr_add_null :: "Json_writer_struct \<Rightarrow> ('d, 'i, 't) calls \<Rightarrow> ('d, 'i, 't) calls" where
  "arr_add_null j w = (if my_writer j then h_add_null w else w)"

definition arr_add_tab :: "Json_writer_struct \<Rightarrow> 't \<Rightarrow> ('d, 'i, 't) calls \<Rightarrow> ('d, 'i, 't) calls" where
  "arr_add_tab j t w = (if my_writer j then h_add_tab t w else w)"

definition arr_add_table :: "Json_writer_struct \<Rightarrow> 't \<Rightarrow> ('d, 'i, 't) calls \<Rightarrow> ('d, 'i, 't) calls" where
  "arr_add_table j t w = (if my_writer j then h_add_table t w else w)"

section \<open>Scopes\<close>

text \<open>A block-structured client: values added to the innermost scoped object, and nested scopes, each closed by \<open>end\<close> or by leaving the block (the destructor runs in both cases).\<close>

datatype ('d, 'i, 't) scalar = SBool bool | SUll ulonglong | SInt longlong | SDouble 'd | SStr string | SBytes string size_t | SLex string | SItem 'i | SNull

datatype ('d, 'i, 't) tree = Leaf "('d, 'i, 't) scalar" | Obj bool "(string \<times> ('d, 'i, 't) tree) list" | Arr bool "('d, 'i, 't) tree list"

fun obj_add :: "Json_writer_struct \<Rightarrow> string \<Rightarrow> ('d, 'i, 't) scalar \<Rightarrow> ('d, 'i, 't) calls \<Rightarrow> ('d, 'i, 't) calls option" where
  "obj_add j n (SBool v) w = Some (obj_add_bool j n v w)"
| "obj_add j n (SUll v) w = Some (obj_add_ull j n v w)"
| "obj_add j n (SInt v) w = Some (obj_add_int j n v w)"
| "obj_add j n (SDouble v) w = Some (obj_add_double j n v w)"
| "obj_add j n (SStr v) w = Some (obj_add_str j n v w)"
| "obj_add j n (SBytes v k) w = obj_add_bytes j n v k w"
| "obj_add j n (SLex v) w = Some (obj_add_lex j n v w)"
| "obj_add j n (SItem v) w = Some (obj_add_item j n v w)"
| "obj_add j n SNull w = Some (obj_add_null j n w)"

fun arr_add :: "Json_writer_struct \<Rightarrow> ('d, 'i, 't) scalar \<Rightarrow> ('d, 'i, 't) calls \<Rightarrow> ('d, 'i, 't) calls option" where
  "arr_add j (SBool v) w = Some (arr_add_bool j v w)"
| "arr_add j (SUll v) w = Some (arr_add_ull j v w)"
| "arr_add j (SInt v) w = Some (arr_add_ll j v w)"
| "arr_add j (SDouble v) w = Some (arr_add_double j v w)"
| "arr_add j (SStr v) w = Some (arr_add_str j v w)"
| "arr_add j (SBytes v k) w = Some (arr_add_bytes j v k w)"
| "arr_add j (SLex v) w = Some (arr_add_lex j v w)"
| "arr_add j (SItem v) w = Some (arr_add_item j v w)"
| "arr_add j SNull w = Some (arr_add_null j w)"

definition close_obj :: "bool \<Rightarrow> Json_writer_struct \<Rightarrow> ('d, 'i, 't) calls \<Rightarrow> ('d, 'i, 't) calls" where
  "close_obj early j w = (let (j1, w1) = (if early then obj_end j w else (j, w)) in snd (obj_destroy j1 w1))"

definition close_arr :: "bool \<Rightarrow> Json_writer_struct \<Rightarrow> ('d, 'i, 't) calls \<Rightarrow> ('d, 'i, 't) calls" where
  "close_arr early j w = (let (j1, w1) = (if early then arr_end j w else (j, w)) in snd (arr_destroy j1 w1))"

text \<open>\<open>owner\<close> is the enclosing scoped object, with the name of the member if it is an object. A nested scope takes the writer of the trace, not of its owner.\<close>

datatype owner = In_object Json_writer_struct string | In_array Json_writer_struct | At_top

fun add_scalar :: "owner \<Rightarrow> ('d, 'i, 't) scalar \<Rightarrow> ('d, 'i, 't) calls \<Rightarrow> ('d, 'i, 't) calls option" where
  "add_scalar (In_object j n) v w = obj_add j n v w"
| "add_scalar (In_array j) v w = arr_add j v w"
| "add_scalar At_top v w = Some w"

fun owner_name :: "owner \<Rightarrow> string option" where
  "owner_name (In_object j n) = Some n"
| "owner_name (In_array j) = None"
| "owner_name At_top = None"

fun run :: "bool \<Rightarrow> owner \<Rightarrow> ('d, 'i, 't) tree \<Rightarrow> ('d, 'i, 't) calls \<Rightarrow> ('d, 'i, 't) calls option"
  and run_fields :: "bool \<Rightarrow> Json_writer_struct \<Rightarrow> (string \<times> ('d, 'i, 't) tree) list \<Rightarrow> ('d, 'i, 't) calls \<Rightarrow> ('d, 'i, 't) calls option"
  and run_elems :: "bool \<Rightarrow> Json_writer_struct \<Rightarrow> ('d, 'i, 't) tree list \<Rightarrow> ('d, 'i, 't) calls \<Rightarrow> ('d, 'i, 't) calls option" where
  "run wr ow (Leaf v) w = add_scalar ow v w"
| "run wr ow (Obj early fs) w = (let (j, w1) = obj_init wr (owner_name ow) w in map_option (close_obj early j) (run_fields wr j fs w1))"
| "run wr ow (Arr early ts) w = (let (j, w1) = arr_init wr (owner_name ow) w in map_option (close_arr early j) (run_elems wr j ts w1))"
| "run_fields wr j [] w = Some w"
| "run_fields wr j ((n, t) # fs) w = (case run wr (In_object j n) t w of None \<Rightarrow> None | Some w1 \<Rightarrow> run_fields wr j fs w1)"
| "run_elems wr j [] w = Some w"
| "run_elems wr j (t # ts) w = (case run wr (In_array j) t w of None \<Rightarrow> None | Some w1 \<Rightarrow> run_elems wr j ts w1)"

section \<open>Well-formed documents\<close>

text \<open>A reader of the calls with the open scopes: in an object with or without a member name waiting for its value, in an array, or before the document.\<close>

datatype scope = Await_name | Await_value | Elements | Start | Finished

fun value_at :: "scope list \<Rightarrow> scope list option" where
  "value_at (Await_value # cs) = Some (Await_name # cs)"
| "value_at (Elements # cs) = Some (Elements # cs)"
| "value_at (Start # cs) = Some (Finished # cs)"
| "value_at _ = None"

fun read :: "('d, 'i, 't) call \<Rightarrow> scope list \<Rightarrow> scope list option" where
  "read (Add_member n) (Await_name # cs) = Some (Await_value # cs)"
| "read (Add_member n) _ = None"
| "read Start_object cs = map_option ((#) Await_name) (value_at cs)"
| "read Start_array cs = map_option ((#) Elements) (value_at cs)"
| "read End_object (Await_name # cs) = Some cs"
| "read End_object _ = None"
| "read End_array (Elements # cs) = Some cs"
| "read End_array _ = None"
| "read _ cs = value_at cs"

fun read_all :: "('d, 'i, 't) calls \<Rightarrow> scope list \<Rightarrow> scope list option" where
  "read_all [] cs = Some cs"
| "read_all (c # w) cs = (case read c cs of None \<Rightarrow> None | Some cs1 \<Rightarrow> read_all w cs1)"

lemma read_all_append: "read_all (v @ w) cs = (case read_all v cs of None \<Rightarrow> None | Some cs1 \<Rightarrow> read_all w cs1)"
  by (induction v arbitrary: cs) (auto split: option.splits)

lemmas add_defs = obj_add_bool_def obj_add_ull_def obj_add_int_def obj_add_double_def obj_add_str_def obj_add_bytes_def obj_add_lex_def obj_add_item_def obj_add_null_def
  arr_add_bool_def arr_add_ull_def arr_add_ll_def arr_add_double_def arr_add_str_def arr_add_bytes_def arr_add_lex_def arr_add_item_def arr_add_null_def
  obj_add_member_def h_add_str_def h_add_str_n_def h_add_item_def h_add_ll_def h_add_double_def h_add_bool_def h_add_null_def

lemmas scope_defs = obj_init_def arr_init_def struct_init_def close_obj_def close_arr_def obj_end_def arr_end_def obj_destroy_def arr_destroy_def Let_def obj_add_member_def

definition open_struct :: Json_writer_struct where
  "open_struct = \<lparr>my_writer = True, closed = False\<rparr>"

text \<open>The contexts in which the next value of a scope may stand.\<close>

fun ready :: "owner \<Rightarrow> scope list \<Rightarrow> bool" where
  "ready (In_object j n) cs \<longleftrightarrow> j = open_struct \<and> cs \<noteq> [] \<and> hd cs = Await_name"
| "ready (In_array j) cs \<longleftrightarrow> j = open_struct \<and> cs \<noteq> [] \<and> hd cs = Elements"
| "ready At_top cs \<longleftrightarrow> cs = [Start]"

fun after :: "owner \<Rightarrow> scope list \<Rightarrow> scope list" where
  "after At_top cs = [Finished]"
| "after _ cs = cs"

fun top_scope :: "owner \<Rightarrow> ('d, 'i, 't) tree \<Rightarrow> bool" where
  "top_scope At_top (Leaf v) = False"
| "top_scope _ _ = True"

lemma obj_add_reads: "\<exists>v. obj_add open_struct n x w = Some (w @ v) \<and> read_all v (Await_name # cs) = Some (Await_name # cs)"
  by (cases x) (auto simp: add_defs open_struct_def)

lemma arr_add_reads: "\<exists>v. arr_add open_struct x w = Some (w @ v) \<and> read_all v (Elements # cs) = Some (Elements # cs)"
  by (cases x) (auto simp: add_defs open_struct_def)

lemma scope_opens:
  assumes "ready ow cs"
  shows "\<exists>v. obj_init True (owner_name ow) w = (open_struct, w @ v) \<and> read_all v cs = Some (Await_name # after ow cs)"
    and "\<exists>v. arr_init True (owner_name ow) w = (open_struct, w @ v) \<and> read_all v cs = Some (Elements # after ow cs)"
  using assms by (cases ow; cases cs; auto simp: scope_defs open_struct_def)+

lemma scope_closes: "close_obj early open_struct w = w @ [End_object]" "close_arr early open_struct w = w @ [End_array]"
  by (cases early; simp add: scope_defs open_struct_def)+

definition reads :: "('d, 'i, 't) tree \<Rightarrow> bool" where
  "reads t \<longleftrightarrow> (\<forall>ow w cs. ready ow cs \<longrightarrow> top_scope ow t \<longrightarrow> (\<exists>v. run True ow t w = Some (w @ v) \<and> read_all v cs = Some (after ow cs)))"

lemma readsD: "reads t \<Longrightarrow> ready ow cs \<Longrightarrow> top_scope ow t \<Longrightarrow> \<exists>v. run True ow t w = Some (w @ v) \<and> read_all v cs = Some (after ow cs)"
  unfolding reads_def by blast

lemma fields_read:
  assumes "\<forall>t \<in> snd ` set fs. reads t"
  shows "\<exists>v. run_fields True open_struct fs w = Some (w @ v) \<and> read_all v (Await_name # cs) = Some (Await_name # cs)"
  using assms
proof (induction fs arbitrary: w)
  case (Cons f fs)
  obtain n t where f: "f = (n, t)" by fastforce
  from readsD [of t "In_object open_struct n" "Await_name # cs" w] Cons.prems obtain v where
    v: "run True (In_object open_struct n) t w = Some (w @ v)" "read_all v (Await_name # cs) = Some (Await_name # cs)" by (auto simp: f)
  from Cons.IH [of "w @ v"] Cons.prems obtain u where "run_fields True open_struct fs (w @ v) = Some ((w @ v) @ u)" "read_all u (Await_name # cs) = Some (Await_name # cs)" by auto
  then show ?case using v by (intro exI [of _ "v @ u"]) (simp add: f read_all_append)
qed simp

lemma elems_read:
  assumes "\<forall>t \<in> set ts. reads t"
  shows "\<exists>v. run_elems True open_struct ts w = Some (w @ v) \<and> read_all v (Elements # cs) = Some (Elements # cs)"
  using assms
proof (induction ts arbitrary: w)
  case (Cons t ts)
  from readsD [of t "In_array open_struct" "Elements # cs" w] Cons.prems obtain v where
    v: "run True (In_array open_struct) t w = Some (w @ v)" "read_all v (Elements # cs) = Some (Elements # cs)" by auto
  from Cons.IH [of "w @ v"] Cons.prems obtain u where "run_elems True open_struct ts (w @ v) = Some ((w @ v) @ u)" "read_all u (Elements # cs) = Some (Elements # cs)" by auto
  then show ?case using v by (intro exI [of _ "v @ u"]) (simp add: read_all_append)
qed simp

lemma all_read:
  fixes t :: "('d, 'i, 't) tree"
  shows "reads t"
proof (induction t)
  case (Leaf x)
  show ?case unfolding reads_def
  proof (intro allI impI)
    fix ow cs and w :: "('d, 'i, 't) calls" assume r: "ready ow cs" and "top_scope ow (Leaf x)"
    then show "\<exists>v. run True ow (Leaf x) w = Some (w @ v) \<and> read_all v cs = Some (after ow cs)"
      using obj_add_reads [of _ x w "tl cs"] arr_add_reads [of x w "tl cs"] by (cases ow; cases cs) auto
  qed
next
  case (Obj early fs)
  show ?case unfolding reads_def
  proof (intro allI impI)
    fix ow cs and w :: "('d, 'i, 't) calls" assume "ready ow cs"
    then obtain a where a: "obj_init True (owner_name ow) w = (open_struct, w @ a)" "read_all a cs = Some (Await_name # after ow cs)" using scope_opens(1) by blast
    have "\<forall>t \<in> snd ` set fs. reads t" using Obj.IH by (auto simp: snds.simps)
    then obtain b where b: "run_fields True open_struct fs (w @ a) = Some ((w @ a) @ b)" "read_all b (Await_name # after ow cs) = Some (Await_name # after ow cs)"
      using fields_read by blast
    show "\<exists>v. run True ow (Obj early fs) w = Some (w @ v) \<and> read_all v cs = Some (after ow cs)"
      using a b by (intro exI [of _ "a @ b @ [End_object]"]) (simp add: scope_closes read_all_append)
  qed
next
  case (Arr early ts)
  show ?case unfolding reads_def
  proof (intro allI impI)
    fix ow cs and w :: "('d, 'i, 't) calls" assume "ready ow cs"
    then obtain a where a: "arr_init True (owner_name ow) w = (open_struct, w @ a)" "read_all a cs = Some (Elements # after ow cs)" using scope_opens(2) by blast
    have "\<forall>t \<in> set ts. reads t" using Arr.IH by blast
    then obtain b where b: "run_elems True open_struct ts (w @ a) = Some ((w @ a) @ b)" "read_all b (Elements # after ow cs) = Some (Elements # after ow cs)"
      using elems_read by blast
    show "\<exists>v. run True ow (Arr early ts) w = Some (w @ v) \<and> read_all v cs = Some (after ow cs)"
      using a b by (intro exI [of _ "a @ b @ [End_array]"]) (simp add: scope_closes read_all_append)
  qed
qed

section \<open>Tracing switched off\<close>

text \<open>A string with a length is added to an object somewhere in the tree.\<close>

fun counted_member :: "bool \<Rightarrow> ('d, 'i, 't) tree \<Rightarrow> bool" where
  "counted_member member (Leaf v) \<longleftrightarrow> member \<and> (\<exists>s n. v = SBytes s n)"
| "counted_member member (Obj early fs) \<longleftrightarrow> (\<exists>t \<in> snd ` set fs. counted_member True t)"
| "counted_member member (Arr early ts) \<longleftrightarrow> (\<exists>t \<in> set ts. counted_member False t)"

definition silent :: "('d, 'i, 't) tree \<Rightarrow> bool" where
  "silent t \<longleftrightarrow> (\<forall>n w. run False (In_object (struct_init False) n) t w = (if counted_member True t then None else Some w)) \<and>
     (\<forall>ow w. ow = At_top \<or> ow = In_array (struct_init False) \<longrightarrow> run False ow t w = (if counted_member False t then None else Some w))"

lemma silent_member: "silent t \<Longrightarrow> run False (In_object (struct_init False) n) t w = (if counted_member True t then None else Some w)"
  unfolding silent_def by blast

lemma silent_elem: "silent t \<Longrightarrow> run False (In_array (struct_init False)) t w = (if counted_member False t then None else Some w)"
  unfolding silent_def by blast

lemma silent_fields: "\<forall>t \<in> snd ` set fs. silent t \<Longrightarrow> run_fields False (struct_init False) fs w = (if \<exists>t \<in> snd ` set fs. counted_member True t then None else Some w)"
proof (induction fs arbitrary: w)
  case (Cons f fs)
  then show ?case by (cases f) (simp add: silent_member)
qed simp

lemma silent_elems: "\<forall>t \<in> set ts. silent t \<Longrightarrow> run_elems False (struct_init False) ts w = (if \<exists>t \<in> set ts. counted_member False t then None else Some w)"
  by (induction ts arbitrary: w) (simp_all add: silent_elem)

lemma silent_close: "close_obj early (struct_init False) w = w" "close_arr early (struct_init False) w = w"
  "obj_init False n w = (struct_init False, w)" "arr_init False n w = (struct_init False, w)"
  by (cases early; simp add: scope_defs)+

lemma all_silent: "silent t"
proof (induction t)
  case (Leaf x)
  show ?case by (cases x) (auto simp: silent_def add_defs struct_init_def)
next
  case (Obj early fs)
  then have "\<forall>t \<in> snd ` set fs. silent t" by (auto simp: snds.simps)
  then show ?case by (auto simp: silent_def silent_close silent_fields)
next
  case (Arr early ts)
  then have "\<forall>t \<in> set ts. silent t" by blast
  then show ?case by (auto simp: silent_def silent_close silent_elems)
qed

section \<open>Properties\<close>

text \<open>C24: whatever values and scopes a block-structured client opens, closes early or leaves, the calls it makes form one well-formed document: every member has a name and
  one value, names appear in objects only, and every scope is closed once and in order.\<close>

theorem json_document_well_formed:
  fixes t :: "('d, 'i, 't) tree"
  assumes "top_scope At_top t"
  shows "\<exists>v. run True At_top t w = Some (w @ v) \<and> read_all v [Start] = Some [Finished]"
  using readsD [OF all_read, of At_top "[Start]" t w] assms by simp

text \<open>with tracing off a client writes nothing, unless it adds a string with its length to an object: that member function alone does not test for the writer.\<close>

theorem json_trace_off: "run False At_top t w = (if counted_member False t then None else Some w)"
  using all_silent [of t] by (simp add: silent_def)

text \<open>An unsigned number in an array is written as a signed one and keeps its value just below \<open>2 ^ 63\<close>; in an object it always keeps its value.\<close>

theorem json_unsigned_values:
  "\<exists>x. arr_add_ull open_struct v w = w @ [Add_ll x] \<and> (sint x = uint v \<longleftrightarrow> uint v < 2 ^ 63) \<and> obj_add_ull open_struct n v w = w @ [Add_member n, Add_ull v]"
proof -
  have "sint v = uint v \<longleftrightarrow> uint v < 2 ^ 63"
  proof
    assume "uint v < 2 ^ 63"
    moreover have "- (2 ^ 63) \<le> uint v" by (rule order_trans [of _ 0]) simp_all
    ultimately show "sint v = uint v" by (simp add: sint_uint signed_take_bit_int_eq_self)
  next
    assume "sint v = uint v"
    then show "uint v < 2 ^ 63" using sint_less [of v] by simp
  qed
  then show ?thesis by (simp add: arr_add_ull_def obj_add_ull_def h_add_ll_def obj_add_member_def open_struct_def)
qed

subsection \<open>The limit\<close>

definition pieces :: "(buffer \<Rightarrow> buffer \<Rightarrow> buffer) \<Rightarrow> buffer list \<Rightarrow> String_with_limit \<Rightarrow> String_with_limit" where
  "pieces app ps s = fold (swl_append_str app) ps s"

text \<open>\<open>whole\<close> is everything that was appended.\<close>

definition swl_ok :: "size_t \<Rightarrow> buffer \<Rightarrow> String_with_limit \<Rightarrow> bool" where
  "swl_ok limit whole s \<longleftrightarrow> size_limit s = limit \<and> str s = take (unat limit) whole \<and> unat (truncated_len s) = length whole - unat limit"

lemma swl_append_ok:
  assumes ok: "swl_ok limit whole s" and big: "length whole + length p < 2 ^ 64"
  shows "swl_ok limit (whole @ p) (swl_append_str (@) p s)"
proof -
  let ?L = "unat limit" and ?n = "length (str s)"
  have n: "?n = min (length whole) ?L" using ok by (simp add: swl_ok_def)
  have L: "?L < 2 ^ 64" using unat_less_length [of limit] by simp
  have len: "unat (str_length s) = ?n" "unat (of_nat (length p) :: size_t) = length p" using n L big by (simp_all add: str_length_def unat_of_nat)
  have sum: "unat (str_length s + of_nat (length p)) = ?n + length p" by (subst unat_add_small) (use len n big in simp_all)
  consider "length whole + length p \<le> ?L" | "length whole < ?L" "?L < length whole + length p" | "?L \<le> length whole" "p = []" | "?L \<le> length whole" "p \<noteq> []" by linarith
  then show ?thesis
  proof cases
    case 1
    then show ?thesis using ok len sum n by (simp add: swl_ok_def swl_append_str_def swl_append_def word_le_nat_alt)
  next
    case 2
    have "str_length s \<le> limit" using 2 n len by (simp add: word_le_nat_alt)
    then have a: "unat (limit - str_length s) = ?L - length whole" using 2 n len by (simp add: unat_sub)
    then have "limit - str_length s \<le> of_nat (length p)" using 2 len by (simp add: word_le_nat_alt)
    then have b: "unat (of_nat (length p) - (limit - str_length s)) = length whole + length p - ?L" using a 2 len by (simp add: unat_sub)
    have "unat (truncated_len s) = 0" using ok 2 by (simp add: swl_ok_def)
    then have "truncated_len s = 0" by (simp add: unat_eq_zero)
    then show ?thesis using ok len sum n a b 2 by (simp add: swl_ok_def swl_append_str_def swl_append_def word_le_nat_alt word_less_nat_alt Let_def)
  next
    case 3
    then show ?thesis using ok len n by (simp add: swl_ok_def swl_append_str_def swl_append_def word_le_nat_alt)
  next
    case 4
    have "unat (truncated_len s + of_nat (length p)) = length whole - ?L + length p" by (subst unat_add_small) (use ok len big in \<open>simp_all add: swl_ok_def\<close>)
    then show ?thesis using ok len sum n 4 by (simp add: swl_ok_def swl_append_str_def swl_append_def word_le_nat_alt word_less_nat_alt)
  qed
qed

text \<open>a string with a limit holds exactly the first bytes of everything appended to it, up to the limit, and counts the bytes it dropped.\<close>

theorem string_with_limit_prefix:
  assumes "length (concat ps) < 2 ^ 64"
  shows "swl_ok limit (concat ps) (pieces (@) ps (set_size_limit limit swl_init))"
  using assms
proof (induction ps rule: rev_induct)
  case Nil
  then show ?case by (simp add: swl_ok_def pieces_def set_size_limit_def swl_init_def)
next
  case (snoc p ps)
  then show ?case using swl_append_ok [of limit "concat ps" "pieces (@) ps (set_size_limit limit swl_init)" p] by (simp add: pieces_def)
qed

theorem json_document_well_formed_witness:
  "\<exists>v. run True At_top (Obj True [(''a'', Leaf (SBool True)), (''b'', Arr False [Leaf SNull, Leaf (SUll 5)])] :: (nat, nat, nat) tree) [] = Some v \<and> read_all v [Start] = Some [Finished]"
  using json_document_well_formed [of "Obj True [(''a'', Leaf (SBool True)), (''b'', Arr False [Leaf SNull, Leaf (SUll 5)])] :: (nat, nat, nat) tree" "[]"] by simp

theorem string_with_limit_prefix_witness: "str (pieces (@) [[3, 4], [5, 6], [7]] (set_size_limit 3 swl_init)) = [3, 4, 5]"
  using string_with_limit_prefix [of "[[3, 4], [5, 6], [7]]" 3] by (simp add: swl_ok_def)

end
