(* ===== verification/Spatial_Mbr.thy ===== *)
theory Spatial_Mbr imports Prelude begin

text \<open>
  \<open>private/spatial.h\<close>, \<open>struct MBR\<close>: minimal bounding rectangles. The coordinates are doubles that are only compared and copied (\<open>buffer\<close>, which computes with them, is left
  out), so the model takes any linearly ordered type; a NaN is not a coordinate. \<open>DBL_MAX\<close> and its negative are the arguments \<open>big\<close> and \<open>small\<close>. \<open>within\<close> is only declared in
  the header and is a parameter.
\<close>

section \<open>MBR\<close>

record 'a MBR =
  xmin :: 'a
  ymin :: 'a
  xmax :: 'a
  ymax :: 'a

definition mbr_init :: "'a \<Rightarrow> 'a \<Rightarrow> 'a MBR" where
  "mbr_init small big = \<lparr>xmin = big, ymin = big, xmax = small, ymax = small\<rparr>"

definition mbr_of :: "'a \<Rightarrow> 'a \<Rightarrow> 'a \<Rightarrow> 'a \<Rightarrow> 'a MBR" where
  "mbr_of x0 y0 x1 y1 = \<lparr>xmin = x0, ymin = y0, xmax = x1, ymax = y1\<rparr>"

record 'a st_point_2d =
  px :: 'a
  py :: 'a

definition mbr_of_points :: "'a st_point_2d \<Rightarrow> 'a st_point_2d \<Rightarrow> 'a MBR" where
  "mbr_of_points p q = \<lparr>xmin = px p, ymin = py p, xmax = px q, ymax = py q\<rparr>"

definition add_xy :: "'a::linorder \<Rightarrow> 'a \<Rightarrow> 'a MBR \<Rightarrow> 'a MBR" where
  "add_xy x y m =
     (let m1 = (if x < xmin m then m\<lparr>xmin := x\<rparr> else m);
          m2 = (if x > xmax m1 then m1\<lparr>xmax := x\<rparr> else m1);
          m3 = (if y < ymin m2 then m2\<lparr>ymin := y\<rparr> else m2)
      in if y > ymax m3 then m3\<lparr>ymax := y\<rparr> else m3)"

definition add_mbr :: "'a::linorder MBR \<Rightarrow> 'a MBR \<Rightarrow> 'a MBR" where
  "add_mbr b m =
     (let m1 = (if xmin b < xmin m then m\<lparr>xmin := xmin b\<rparr> else m);
          m2 = (if xmax b > xmax m1 then m1\<lparr>xmax := xmax b\<rparr> else m1);
          m3 = (if ymin b < ymin m2 then m2\<lparr>ymin := ymin b\<rparr> else m2)
      in if ymax b > ymax m3 then m3\<lparr>ymax := ymax b\<rparr> else m3)"

definition mbr_union :: "'a::linorder MBR \<Rightarrow> 'a MBR \<Rightarrow> 'a MBR" where
  "mbr_union a b = add_mbr b \<lparr>xmin = xmin a, ymin = ymin a, xmax = xmax a, ymax = ymax a\<rparr>"

definition mbr_equals :: "'a::linorder MBR \<Rightarrow> 'a MBR \<Rightarrow> bool" where
  "mbr_equals m b \<longleftrightarrow> xmin b = xmin m \<and> ymin b = ymin m \<and> xmax b = xmax m \<and> ymax b = ymax m"

definition mbr_disjoint :: "'a::linorder MBR \<Rightarrow> 'a MBR \<Rightarrow> bool" where
  "mbr_disjoint m b \<longleftrightarrow> xmin b > xmax m \<or> ymin b > ymax m \<or> xmax b < xmin m \<or> ymax b < ymin m"

definition intersects :: "'a::linorder MBR \<Rightarrow> 'a MBR \<Rightarrow> bool" where
  "intersects m b \<longleftrightarrow> \<not> mbr_disjoint m b"

definition touches :: "'a::linorder MBR \<Rightarrow> 'a MBR \<Rightarrow> bool" where
  "touches m b \<longleftrightarrow>
     ((xmin b = xmax m \<or> xmax b = xmin m) \<and> ((ymin b \<ge> ymin m \<and> ymin b \<le> ymax m) \<or> (ymax b \<ge> ymin m \<and> ymax b \<le> ymax m))) \<or>
     ((ymin b = ymax m \<or> ymax b = ymin m) \<and> ((xmin b \<ge> xmin m \<and> xmin b \<le> xmax m) \<or> (xmax b \<ge> xmin m \<and> xmax b \<le> xmax m)))"

definition contains :: "'a::linorder MBR \<Rightarrow> 'a MBR \<Rightarrow> bool" where
  "contains m b \<longleftrightarrow> xmin b \<ge> xmin m \<and> ymin b \<ge> ymin m \<and> xmax b \<le> xmax m \<and> ymax b \<le> ymax m"

definition inner_point :: "'a::linorder \<Rightarrow> 'a \<Rightarrow> 'a MBR \<Rightarrow> bool" where
  "inner_point x y m \<longleftrightarrow> xmin m < x \<and> xmax m > x \<and> ymin m < y \<and> ymax m > y"

definition dimension :: "'a::linorder MBR \<Rightarrow> int" where
  "dimension m =
     (if xmin m > xmax m then - 1
      else let d = (if xmin m < xmax m then 1 else 0) in
           if ymin m > ymax m then - 1 else if ymin m < ymax m then d + 1 else d)"

definition overlaps :: "('a MBR \<Rightarrow> 'a MBR \<Rightarrow> bool) \<Rightarrow> 'a::linorder MBR \<Rightarrow> 'a MBR \<Rightarrow> bool" where
  "overlaps within m b =
     (let d = dimension m in
      if d \<noteq> dimension b \<or> d \<le> 0 \<or> contains m b \<or> within m b then False
      else d = dimension (mbr_of (max (xmin m) (xmin b)) (max (ymin m) (ymin b)) (min (xmax m) (xmax b)) (min (ymax m) (ymax b))))"

definition mbr_valid :: "'a::linorder MBR \<Rightarrow> bool" where
  "mbr_valid m \<longleftrightarrow> xmin m \<le> xmax m \<and> ymin m \<le> ymax m"

section \<open>Properties\<close>

text \<open>The points of a rectangle, and those not on its border.\<close>

definition points :: "'a::linorder MBR \<Rightarrow> ('a \<times> 'a) set" where
  "points m = {xmin m..xmax m} \<times> {ymin m..ymax m}"

definition interior :: "'a::linorder MBR \<Rightarrow> ('a \<times> 'a) set" where
  "interior m = {xmin m<..<xmax m} \<times> {ymin m<..<ymax m}"

lemma mbr_valid_points: "mbr_valid m \<longleftrightarrow> points m \<noteq> {}"
  by (auto simp: mbr_valid_def points_def)

lemma inner_point_interior: "inner_point x y m \<longleftrightarrow> (x, y) \<in> interior m"
  by (auto simp: inner_point_def interior_def)

lemma add_mbr_fields:
  "add_mbr b m = m\<lparr>xmin := min (xmin m) (xmin b), ymin := min (ymin m) (ymin b), xmax := max (xmax m) (xmax b), ymax := max (ymax m) (ymax b)\<rparr>"
  by (cases m) (auto simp: add_mbr_def Let_def min_def max_def)

lemma contains_points: "mbr_valid b \<Longrightarrow> contains m b \<longleftrightarrow> points b \<subseteq> points m"
  by (auto simp: contains_def points_def mbr_valid_def times_subset_iff)

lemma intersects_points:
  assumes "mbr_valid m" "mbr_valid b"
  shows "intersects m b \<longleftrightarrow> points m \<inter> points b \<noteq> {}"
proof -
  have "points m \<inter> points b = {max (xmin m) (xmin b)..min (xmax m) (xmax b)} \<times> {max (ymin m) (ymin b)..min (ymax m) (ymax b)}"
    by (auto simp: points_def)
  then show ?thesis using assms by (auto simp: intersects_def mbr_disjoint_def mbr_valid_def not_less)
qed

lemma union_least:
  assumes "mbr_valid a" "mbr_valid b" "mbr_valid m"
  shows "contains m (mbr_union a b) \<longleftrightarrow> points a \<union> points b \<subseteq> points m"
proof -
  have "contains m (mbr_union a b) \<longleftrightarrow> contains m a \<and> contains m b" by (auto simp: contains_def mbr_union_def add_mbr_fields)
  then show ?thesis using assms by (simp add: contains_points)
qed

text \<open>the predicates say what they mean on valid rectangles, seen as sets of points: \<open>intersects\<close> is a common point, \<open>contains\<close> is inclusion, the rectangle built from two others is the
  smallest valid one around both, adding a point gives the smallest one around the rectangle and the point, and a point added to the initial empty rectangle is a rectangle of its own.\<close>

theorem mbr_predicates:
  assumes a: "mbr_valid a" and b: "mbr_valid b" and m: "mbr_valid m"
  shows "(intersects a b \<longleftrightarrow> points a \<inter> points b \<noteq> {}) \<and> (contains a b \<longleftrightarrow> points b \<subseteq> points a) \<and>
    mbr_valid (mbr_union a b) \<and> (contains m (mbr_union a b) \<longleftrightarrow> points a \<union> points b \<subseteq> points m) \<and>
    (contains m (add_xy x y a) \<longleftrightarrow> (x, y) \<in> points m \<and> points a \<subseteq> points m) \<and>
    (small \<le> x \<and> x \<le> big \<and> small \<le> y \<and> y \<le> big \<longrightarrow> points (add_xy x y (mbr_init small big)) = {(x, y)})"
proof (intro conjI impI)
  show "intersects a b \<longleftrightarrow> points a \<inter> points b \<noteq> {}" by (rule intersects_points [OF a b])
  show "contains a b \<longleftrightarrow> points b \<subseteq> points a" by (rule contains_points [OF b])
  show "mbr_valid (mbr_union a b)" using a b by (auto simp: mbr_valid_def mbr_union_def add_mbr_fields min_le_iff_disj le_max_iff_disj)
  show "contains m (mbr_union a b) \<longleftrightarrow> points a \<union> points b \<subseteq> points m" by (rule union_least [OF a b m])
  have "add_xy x y a = add_mbr (mbr_of x y x y) a" by (simp add: add_xy_def add_mbr_def mbr_of_def)
  then have "contains m (add_xy x y a) \<longleftrightarrow> (x, y) \<in> points m \<and> contains m a" by (auto simp: add_mbr_fields contains_def mbr_of_def points_def)
  then show "contains m (add_xy x y a) \<longleftrightarrow> (x, y) \<in> points m \<and> points a \<subseteq> points m" by (simp add: contains_points [OF a])
  assume "small \<le> x \<and> x \<le> big \<and> small \<le> y \<and> y \<le> big"
  then show "points (add_xy x y (mbr_init small big)) = {(x, y)}" by (auto simp: add_xy_def mbr_init_def points_def Let_def)
qed

text \<open>With \<open>within\<close> as the converse of \<open>contains\<close>, \<open>overlaps\<close> does not depend on the order.\<close>

lemma overlaps_sym:
  assumes "\<forall>m b. within m b = contains b m"
  shows "overlaps within a b = overlaps within b a"
  using assms by (auto simp: overlaps_def Let_def max.commute min.commute)

lemma touches_sound: "mbr_valid a \<Longrightarrow> mbr_valid b \<Longrightarrow> touches a b \<Longrightarrow> intersects a b \<and> interior a \<inter> interior b = {}"
  by (auto simp: touches_def intersects_def mbr_disjoint_def interior_def mbr_valid_def)

text \<open>Rectangles that touch have a common point but no common interior point; yet two rectangles that share part of a side touch in one order only, when the side of one is
  longer at both ends.\<close>

theorem touches_not_symmetric:
  "(\<forall>a b :: int MBR. mbr_valid a \<longrightarrow> mbr_valid b \<longrightarrow> touches a b \<longrightarrow> intersects a b \<and> interior a \<inter> interior b = {}) \<and>
   (\<exists>a b :: int MBR. mbr_valid a \<and> mbr_valid b \<and> touches a b \<and> \<not> touches b a)"
proof
  show "\<forall>a b :: int MBR. mbr_valid a \<longrightarrow> mbr_valid b \<longrightarrow> touches a b \<longrightarrow> intersects a b \<and> interior a \<inter> interior b = {}" using touches_sound by blast
  let ?a = "mbr_of 0 0 1 (10 :: int)" and ?b = "mbr_of 1 3 2 (4 :: int)"
  have "mbr_valid ?a \<and> mbr_valid ?b \<and> touches ?a ?b \<and> \<not> touches ?b ?a"
    by (simp add: mbr_valid_def mbr_of_def touches_def)
  then show "\<exists>a b :: int MBR. mbr_valid a \<and> mbr_valid b \<and> touches a b \<and> \<not> touches b a" by blast
qed

theorem mbr_predicates_witness: "points (mbr_of 2 3 4 (6 :: int)) \<inter> points (mbr_of 4 5 9 9) \<noteq> {}"
proof -
  have "mbr_valid (mbr_of 2 3 4 (6 :: int))" "mbr_valid (mbr_of 4 5 9 (9 :: int))" by (simp_all add: mbr_valid_def mbr_of_def)
  from mbr_predicates [OF this this(1)] show ?thesis by (simp add: intersects_def mbr_disjoint_def mbr_of_def)
qed

theorem touches_not_symmetric_witness: "intersects (mbr_of 0 0 2 9) (mbr_of 2 3 5 (4 :: int)) \<and> (\<exists>a b :: int MBR. touches a b \<and> \<not> touches b a)"
proof -
  have "mbr_valid (mbr_of 0 0 2 (9 :: int))" "mbr_valid (mbr_of 2 3 5 (4 :: int))" "touches (mbr_of 0 0 2 9) (mbr_of 2 3 5 (4 :: int))"
    by (simp_all add: mbr_valid_def mbr_of_def touches_def)
  then show ?thesis using touches_not_symmetric by blast
qed

end
