(* ===== verification/Handler_Trx.thy ===== *)
theory Handler_Trx imports Prelude begin

text \<open>
  \<open>private/handler.h\<close>, \<open>THD_TRANS\<close> and \<open>Ha_trx_info\<close>: the storage engines that take part in a transaction or statement, and whether it can be rolled back. An engine record is
  an address in \<open>infos\<close>; a transaction has the head of the list of its engines.
\<close>

section \<open>Data\<close>

record 'e Ha_trx_info =
  m_next :: "nat option"
  m_ht :: "'e option"
  m_flags :: uchar

record 'e trx_store =
  infos :: "nat \<Rightarrow> 'e Ha_trx_info"

record THD_TRANS =
  no_2pc :: bool
  ha_list :: "nat option"
  modified_non_trans_table :: bool
  m_unsafe_rollback_flags :: uint

definition MODIFIED_NON_TRANS_TABLE :: uint where "MODIFIED_NON_TRANS_TABLE = 1"
definition CREATED_TEMP_TABLE :: uint where "CREATED_TEMP_TABLE = 2"
definition DROPPED_TEMP_TABLE :: uint where "DROPPED_TEMP_TABLE = 4"
definition DID_WAIT :: uint where "DID_WAIT = 8"
definition DID_DDL :: uint where "DID_DDL = 0x10"
definition EXECUTED_TABLE_ADMIN_CMD :: uint where "EXECUTED_TABLE_ADMIN_CMD = 0x20"
definition TRX_READ_ONLY :: uchar where "TRX_READ_ONLY = 0"
definition TRX_READ_WRITE :: uchar where "TRX_READ_WRITE = 1"

section \<open>THD_TRANS\<close>

definition trans_reset :: "THD_TRANS \<Rightarrow> THD_TRANS" where
  "trans_reset t = t\<lparr>no_2pc := False, modified_non_trans_table := False, m_unsafe_rollback_flags := 0\<rparr>"

definition trans_is_empty :: "THD_TRANS \<Rightarrow> bool" where
  "trans_is_empty t \<longleftrightarrow> ha_list t = None"

definition mark_modified_non_trans_temp_table :: "THD_TRANS \<Rightarrow> THD_TRANS" where
  "mark_modified_non_trans_temp_table t = t\<lparr>m_unsafe_rollback_flags := m_unsafe_rollback_flags t OR MODIFIED_NON_TRANS_TABLE\<rparr>"

definition has_modified_non_trans_temp_table :: "THD_TRANS \<Rightarrow> bool" where
  "has_modified_non_trans_temp_table t \<longleftrightarrow> m_unsafe_rollback_flags t AND MODIFIED_NON_TRANS_TABLE \<noteq> 0"

definition mark_executed_table_admin_cmd :: "THD_TRANS \<Rightarrow> THD_TRANS" where
  "mark_executed_table_admin_cmd t = t\<lparr>m_unsafe_rollback_flags := m_unsafe_rollback_flags t OR EXECUTED_TABLE_ADMIN_CMD\<rparr>"

definition trans_executed_admin_cmd :: "THD_TRANS \<Rightarrow> bool" where
  "trans_executed_admin_cmd t \<longleftrightarrow> m_unsafe_rollback_flags t AND EXECUTED_TABLE_ADMIN_CMD \<noteq> 0"

definition mark_created_temp_table :: "THD_TRANS \<Rightarrow> THD_TRANS" where
  "mark_created_temp_table t = t\<lparr>m_unsafe_rollback_flags := m_unsafe_rollback_flags t OR CREATED_TEMP_TABLE\<rparr>"

definition mark_dropped_temp_table :: "THD_TRANS \<Rightarrow> THD_TRANS" where
  "mark_dropped_temp_table t = t\<lparr>m_unsafe_rollback_flags := m_unsafe_rollback_flags t OR DROPPED_TEMP_TABLE\<rparr>"

definition has_created_dropped_temp_table :: "THD_TRANS \<Rightarrow> bool" where
  "has_created_dropped_temp_table t \<longleftrightarrow> m_unsafe_rollback_flags t AND (CREATED_TEMP_TABLE OR DROPPED_TEMP_TABLE) \<noteq> 0"

definition mark_trans_did_wait :: "THD_TRANS \<Rightarrow> THD_TRANS" where
  "mark_trans_did_wait t = t\<lparr>m_unsafe_rollback_flags := m_unsafe_rollback_flags t OR DID_WAIT\<rparr>"

definition trans_did_wait :: "THD_TRANS \<Rightarrow> bool" where
  "trans_did_wait t \<longleftrightarrow> m_unsafe_rollback_flags t AND DID_WAIT \<noteq> 0"

definition mark_trans_did_ddl :: "THD_TRANS \<Rightarrow> THD_TRANS" where
  "mark_trans_did_ddl t = t\<lparr>m_unsafe_rollback_flags := m_unsafe_rollback_flags t OR DID_DDL\<rparr>"

definition trans_did_ddl :: "THD_TRANS \<Rightarrow> bool" where
  "trans_did_ddl t \<longleftrightarrow> m_unsafe_rollback_flags t AND DID_DDL \<noteq> 0"

section \<open>Ha_trx_info\<close>

definition upd_info :: "nat \<Rightarrow> ('e Ha_trx_info \<Rightarrow> 'e Ha_trx_info) \<Rightarrow> 'e trx_store \<Rightarrow> 'e trx_store" where
  "upd_info a f h = h\<lparr>infos := (infos h)(a := f (infos h a))\<rparr>"

definition info_reset :: "nat \<Rightarrow> 'e trx_store \<Rightarrow> 'e trx_store" where
  "info_reset a h = upd_info a (\<lambda>i. i\<lparr>m_next := None, m_ht := None, m_flags := 0\<rparr>) h"

definition register_ha :: "nat \<Rightarrow> 'e \<Rightarrow> THD_TRANS \<Rightarrow> 'e trx_store \<Rightarrow> THD_TRANS \<times> 'e trx_store" where
  "register_ha a ht_arg t h = (t\<lparr>ha_list := Some a\<rparr>, upd_info a (\<lambda>i. i\<lparr>m_ht := Some ht_arg, m_flags := TRX_READ_ONLY, m_next := ha_list t\<rparr>) h)"

definition is_started :: "nat \<Rightarrow> 'e trx_store \<Rightarrow> bool" where
  "is_started a h \<longleftrightarrow> m_ht (infos h a) \<noteq> None"

definition set_trx_read_write :: "nat \<Rightarrow> 'e trx_store \<Rightarrow> 'e trx_store" where
  "set_trx_read_write a h = upd_info a (\<lambda>i. i\<lparr>m_flags := m_flags i OR TRX_READ_WRITE\<rparr>) h"

definition info_is_trx_read_write :: "nat \<Rightarrow> 'e trx_store \<Rightarrow> bool" where
  "info_is_trx_read_write a h \<longleftrightarrow> m_flags (infos h a) AND TRX_READ_WRITE \<noteq> 0"

definition coalesce_trx_with :: "nat \<Rightarrow> nat \<Rightarrow> 'e trx_store \<Rightarrow> 'e trx_store" where
  "coalesce_trx_with a stmt_trx h = (if info_is_trx_read_write stmt_trx h then set_trx_read_write a h else h)"

text \<open>The loop of \<open>THD_TRANS::is_trx_read_write\<close> over the list.\<close>

partial_function (option) rw_loop :: "nat option \<Rightarrow> 'e trx_store \<Rightarrow> bool option" where
  "rw_loop p h = (case p of None \<Rightarrow> Some False | Some a \<Rightarrow> if info_is_trx_read_write a h then Some True else rw_loop (m_next (infos h a)) h)"

definition trans_is_trx_read_write :: "THD_TRANS \<Rightarrow> 'e trx_store \<Rightarrow> bool option" where
  "trans_is_trx_read_write t h = rw_loop (ha_list t) h"

section \<open>Properties\<close>

fun engine_list :: "'e trx_store \<Rightarrow> nat option \<Rightarrow> nat list \<Rightarrow> bool" where
  "engine_list h p [] = (p = None)"
| "engine_list h p (a # as) = (p = Some a \<and> is_started a h \<and> engine_list h (m_next (infos h a)) as)"

definition trans_ok :: "'e trx_store \<Rightarrow> THD_TRANS \<Rightarrow> nat list \<Rightarrow> bool" where
  "trans_ok h t as \<longleftrightarrow> distinct as \<and> engine_list h (ha_list t) as"

lemma infos_upd [simp]: "infos (upd_info a f h) = (infos h)(a := f (infos h a))"
  by (simp add: upd_info_def)

lemma engine_list_cong: "\<forall>a \<in> set as. m_next (infos h' a) = m_next (infos h a) \<and> m_ht (infos h' a) = m_ht (infos h a) \<Longrightarrow> engine_list h' p as = engine_list h p as"
  by (induction as arbitrary: p) (auto simp: is_started_def)

lemma rw_loop_list: "engine_list h p as \<Longrightarrow> rw_loop p h = Some (\<exists>a \<in> set as. info_is_trx_read_write a h)"
proof (induction as arbitrary: p)
  case Nil
  then show ?case by (simp add: rw_loop.simps)
next
  case (Cons a as)
  then show ?case by (auto simp: rw_loop.simps [of "Some a"])
qed

lemma rw_flag: "(f OR TRX_READ_WRITE) AND TRX_READ_WRITE \<noteq> 0"
proof -
  have "bit (f OR TRX_READ_WRITE) 0" by (simp add: TRX_READ_WRITE_def bit_or_iff)
  then show ?thesis using and_bit_nonzero [of "f OR TRX_READ_WRITE" 0] by (simp add: TRX_READ_WRITE_def)
qed

text \<open>Merging the engines of a statement into the transaction, engine by engine.\<close>

definition merge_stmt :: "(nat \<times> nat) list \<Rightarrow> 'e trx_store \<Rightarrow> 'e trx_store" where
  "merge_stmt ps h = fold (\<lambda>(a, s) h. coalesce_trx_with a s h) ps h"

lemma coalesce_frame:
  "m_next (infos (coalesce_trx_with a s h) b) = m_next (infos h b)" "m_ht (infos (coalesce_trx_with a s h) b) = m_ht (infos h b)"
  "b \<noteq> a \<Longrightarrow> infos (coalesce_trx_with a s h) b = infos h b"
  by (simp_all add: coalesce_trx_with_def set_trx_read_write_def)

lemma coalesce_flag: "info_is_trx_read_write a (coalesce_trx_with a s h) \<longleftrightarrow> info_is_trx_read_write a h \<or> info_is_trx_read_write s h"
  using rw_flag by (auto simp: coalesce_trx_with_def set_trx_read_write_def info_is_trx_read_write_def)

lemma merge_stmt_flags:
  assumes "distinct (map fst ps)" "fst ` set ps \<inter> snd ` set ps = {}"
  shows "(\<forall>b. m_next (infos (merge_stmt ps h) b) = m_next (infos h b) \<and> m_ht (infos (merge_stmt ps h) b) = m_ht (infos h b)) \<and>
    (\<forall>b. b \<notin> fst ` set ps \<longrightarrow> infos (merge_stmt ps h) b = infos h b) \<and>
    (\<forall>(a, s) \<in> set ps. info_is_trx_read_write a (merge_stmt ps h) \<longleftrightarrow> info_is_trx_read_write a h \<or> info_is_trx_read_write s h)"
  using assms
proof (induction ps arbitrary: h)
  case (Cons p ps)
  obtain a s where p: "p = (a, s)" by fastforce
  let ?h = "coalesce_trx_with a s h"
  have m: "merge_stmt (p # ps) h = merge_stmt ps ?h" by (simp add: merge_stmt_def p)
  have IH: "(\<forall>b. m_next (infos (merge_stmt ps ?h) b) = m_next (infos ?h b) \<and> m_ht (infos (merge_stmt ps ?h) b) = m_ht (infos ?h b)) \<and>
    (\<forall>b. b \<notin> fst ` set ps \<longrightarrow> infos (merge_stmt ps ?h) b = infos ?h b) \<and>
    (\<forall>(a, s) \<in> set ps. info_is_trx_read_write a (merge_stmt ps ?h) \<longleftrightarrow> info_is_trx_read_write a ?h \<or> info_is_trx_read_write s ?h)"
    using Cons.IH [of ?h] Cons.prems by auto
  have a: "a \<notin> fst ` set ps" "a \<notin> snd ` set ps" using Cons.prems by (auto simp: p image_iff)
  have same: "info_is_trx_read_write b ?h = info_is_trx_read_write b h" if "b \<noteq> a" for b using that by (simp add: info_is_trx_read_write_def coalesce_frame)
  have "info_is_trx_read_write a (merge_stmt ps ?h) \<longleftrightarrow> info_is_trx_read_write a h \<or> info_is_trx_read_write s h"
    using IH a coalesce_flag by (metis (no_types, lifting) info_is_trx_read_write_def)
  moreover have "\<forall>(a', s') \<in> set ps. info_is_trx_read_write a' (merge_stmt ps ?h) \<longleftrightarrow> info_is_trx_read_write a' h \<or> info_is_trx_read_write s' h"
  proof clarify
    fix a' s' assume x: "(a', s') \<in> set ps"
    then have "a' \<noteq> a" "s' \<noteq> a" using a by (auto simp: image_iff)
    then show "info_is_trx_read_write a' (merge_stmt ps ?h) \<longleftrightarrow> info_is_trx_read_write a' h \<or> info_is_trx_read_write s' h" using IH x same by fastforce
  qed
  ultimately show ?case using IH a unfolding m by (simp add: p coalesce_frame)
qed (simp add: merge_stmt_def)

text \<open>the engines of a transaction: registering an engine that is not yet in the list adds it once, in front and read-only; after the engines of a statement are merged into the
  transaction, the list is the same and \<open>is_trx_read_write\<close>, whose loop ends, tells whether some engine was read-write in the transaction or in the statement.\<close>

theorem transaction_engines:
  assumes ok: "trans_ok h t as" and new: "b \<notin> set as" and d: "distinct (map fst ps)" and split: "fst ` set ps \<inter> snd ` set ps = {}" and all: "fst ` set ps = set as"
  shows "(case register_ha b e t h of (t', h') \<Rightarrow> trans_ok h' t' (b # as) \<and> m_ht (infos h' b) = Some e \<and>
      trans_is_trx_read_write t' h' = trans_is_trx_read_write t h \<and> trans_is_trx_read_write t h \<noteq> None) \<and>
    trans_ok (merge_stmt ps h) t as \<and>
    trans_is_trx_read_write t (merge_stmt ps h) = Some (\<exists>(a, s) \<in> set ps. info_is_trx_read_write a h \<or> info_is_trx_read_write s h)"
proof -
  have list: "engine_list h (ha_list t) as" using ok by (simp add: trans_ok_def)
  obtain t' h' where r: "register_ha b e t h = (t', h')" by fastforce
  have i: "infos h' = (infos h)(b := \<lparr>m_next = ha_list t, m_ht = Some e, m_flags = 0\<rparr>)" "ha_list t' = Some b"
    using r by (auto simp: register_ha_def TRX_READ_ONLY_def)
  have "engine_list h' (ha_list t) as" using engine_list_cong [of as h' h "ha_list t"] list new i(1) by auto
  then have l': "engine_list h' (ha_list t') (b # as)" using i by (simp add: is_started_def)
  then have "trans_ok h' t' (b # as)" using ok new by (simp add: trans_ok_def)
  moreover have "trans_is_trx_read_write t' h' = trans_is_trx_read_write t h"
  proof -
    have "\<forall>a \<in> set as. info_is_trx_read_write a h' = info_is_trx_read_write a h" "\<not> info_is_trx_read_write b h'"
      using new i(1) by (auto simp: info_is_trx_read_write_def)
    then show ?thesis unfolding trans_is_trx_read_write_def rw_loop_list [OF l'] rw_loop_list [OF list] by simp
  qed
  moreover note m = merge_stmt_flags [OF d split, of h]
  have "engine_list (merge_stmt ps h) (ha_list t) as" using engine_list_cong [of as "merge_stmt ps h" h "ha_list t"] list m by blast
  moreover from this have "trans_is_trx_read_write t (merge_stmt ps h) = Some (\<exists>a \<in> set as. info_is_trx_read_write a (merge_stmt ps h))"
    unfolding trans_is_trx_read_write_def by (rule rw_loop_list)
  moreover have "(\<exists>a \<in> set as. info_is_trx_read_write a (merge_stmt ps h)) \<longleftrightarrow> (\<exists>(a, s) \<in> set ps. info_is_trx_read_write a h \<or> info_is_trx_read_write s h)"
    using m unfolding all [symmetric] by fastforce
  ultimately show ?thesis using r i rw_loop_list [OF list] ok by (simp add: trans_ok_def trans_is_trx_read_write_def)
qed

definition store0 :: "nat trx_store" where
  "store0 = \<lparr>infos = (\<lambda>a. if a = 4 then \<lparr>m_next = None, m_ht = Some 9, m_flags = 0\<rparr> else \<lparr>m_next = None, m_ht = Some 9, m_flags = 1\<rparr>)\<rparr>"

definition trans0 :: THD_TRANS where
  "trans0 = \<lparr>no_2pc = False, ha_list = Some 4, modified_non_trans_table = False, m_unsafe_rollback_flags = 0\<rparr>"

theorem transaction_engines_witness: "trans_is_trx_read_write trans0 (merge_stmt [(4, 7)] store0) = Some True \<and> trans_ok store0 trans0 [4]"
proof -
  have ok: "trans_ok store0 trans0 [4]" by (simp add: trans_ok_def trans0_def store0_def is_started_def)
  from transaction_engines [OF this, of 5 "[(4, 7)]" 3] show ?thesis using ok by (simp add: info_is_trx_read_write_def store0_def TRX_READ_WRITE_def)
qed

end
