(* ===== verification/Handler_Scan.thy ===== *)
theory Handler_Scan imports Prelude begin

text \<open>
  \<open>private/handler.h\<close>, class \<open>handler\<close>: the public functions that open and close scans and the reading of keys only, around the virtual functions of a storage engine. The engine
  is not part of the repository: what it answers is an argument of each operation, and \<open>calls\<close> keeps the calls it received. The assertions of the code, which the build leaves out, are the
  guards of the step relation.
\<close>

section \<open>State\<close>

datatype init_stat = NONE | INDEX | RND

datatype engine_call =
  Index_init uint bool int | Index_end | Rnd_init bool int | Rnd_end | Position | Rnd_pos
  | Pre_index_init uint bool int | Pre_index_end | Pre_rnd_init bool int | Pre_rnd_end
  | Extra_keyread uint | Extra_no_keyread | Start_bulk_insert ha_rows uint | Ft_end | Reset_copy_info

record ha_copy_info =
  records :: ha_rows
  touched :: ha_rows
  copied :: ha_rows
  deleted :: ha_rows
  updated :: ha_rows

definition zero_copy_info :: ha_copy_info where
  "zero_copy_info = \<lparr>records = 0, touched = 0, copied = 0, deleted = 0, updated = 0\<rparr>"

record 'r handler =
  inited :: init_stat
  pre_inited :: init_stat
  active_index :: uint
  keyread :: uint
  end_range :: "'r option"
  ft_handler :: "'r option"
  estimation_rows_to_insert :: ha_rows
  rows_read :: ulonglong
  rows_tmp_read :: ulonglong
  rows_changed :: ulonglong
  index_rows_read :: "ulonglong list"
  copy_info :: ha_copy_info
  calls :: "engine_call list"

definition MAX_KEY :: uint where "MAX_KEY = 64"

definition call :: "engine_call \<Rightarrow> 'r handler \<Rightarrow> 'r handler" where
  "call c h = h\<lparr>calls := calls h @ [c]\<rparr>"

section \<open>Operations\<close>

definition reset_statistics :: "'r handler \<Rightarrow> 'r handler" where
  "reset_statistics h = h\<lparr>rows_read := 0, rows_changed := 0, rows_tmp_read := 0, index_rows_read := replicate (length (index_rows_read h)) 0, copy_info := zero_copy_info\<rparr>"

text \<open>The constructor; \<open>old\<close> is what the memory held.\<close>

definition handler_init :: "'r handler \<Rightarrow> 'r handler" where
  "handler_init old =
     reset_statistics (old\<lparr>inited := NONE, pre_inited := NONE, active_index := MAX_KEY, keyread := MAX_KEY, end_range := None, ft_handler := None, estimation_rows_to_insert := 0, calls := []\<rparr>)"

definition ha_reset_copy_info :: "'r handler \<Rightarrow> 'r handler" where
  "ha_reset_copy_info h = call Reset_copy_info (h\<lparr>copy_info := zero_copy_info\<rparr>)"

definition ha_index_init :: "int \<Rightarrow> uint \<Rightarrow> bool \<Rightarrow> 'r handler \<Rightarrow> int \<times> 'r handler" where
  "ha_index_init answer idx srt h =
     (let h1 = call (Index_init idx srt answer) h in
      (answer, if answer = 0 then h1\<lparr>inited := INDEX, active_index := idx, end_range := None\<rparr> else h1))"

definition ha_index_end :: "int \<Rightarrow> 'r handler \<Rightarrow> int \<times> 'r handler" where
  "ha_index_end answer h = (answer, call Index_end (h\<lparr>inited := NONE, active_index := MAX_KEY, end_range := None\<rparr>))"

definition ha_rnd_init :: "int \<Rightarrow> bool \<Rightarrow> 'r handler \<Rightarrow> int \<times> 'r handler" where
  "ha_rnd_init answer scan h = (let h1 = call (Rnd_init scan answer) h in (answer, h1\<lparr>inited := (if answer \<noteq> 0 then NONE else RND), end_range := None\<rparr>))"

definition ha_rnd_end :: "int \<Rightarrow> 'r handler \<Rightarrow> int \<times> 'r handler" where
  "ha_rnd_end answer h = (answer, call Rnd_end (h\<lparr>inited := NONE, end_range := None\<rparr>))"

definition ha_index_or_rnd_end :: "int \<Rightarrow> 'r handler \<Rightarrow> int \<times> 'r handler" where
  "ha_index_or_rnd_end answer h = (if inited h = INDEX then ha_index_end answer h else if inited h = RND then ha_rnd_end answer h else (0, h))"

definition rnd_pos_by_record :: "int \<Rightarrow> int \<Rightarrow> int \<Rightarrow> 'r handler \<Rightarrow> int \<times> 'r handler" where
  "rnd_pos_by_record init_answer pos_answer end_answer h =
     (let (error, h1) = ha_rnd_init init_answer False h in
      if error \<noteq> 0 then (error, h1) else (pos_answer, snd (ha_rnd_end end_answer (call Rnd_pos (call Position h1)))))"

definition get_index :: "'r handler \<Rightarrow> uint" where
  "get_index h = (if inited h = INDEX then active_index h else MAX_KEY)"

definition keyread_enabled :: "'r handler \<Rightarrow> bool" where
  "keyread_enabled h \<longleftrightarrow> keyread h < MAX_KEY"

definition ha_start_keyread :: "int \<Rightarrow> uint \<Rightarrow> 'r handler \<Rightarrow> int \<times> 'r handler" where
  "ha_start_keyread answer idx h =
     (let (res, h1) = (if keyread_enabled h then (0, h) else (answer, call (Extra_keyread idx) h)) in (res, h1\<lparr>keyread := idx\<rparr>))"

definition ha_end_keyread :: "int \<Rightarrow> 'r handler \<Rightarrow> int \<times> 'r handler" where
  "ha_end_keyread answer h = (if \<not> keyread_enabled h then (0, h) else (answer, call Extra_no_keyread (h\<lparr>keyread := MAX_KEY\<rparr>)))"

definition ha_pre_rnd_init :: "int \<Rightarrow> bool \<Rightarrow> 'r handler \<Rightarrow> int \<times> 'r handler" where
  "ha_pre_rnd_init answer scan h = (let h1 = call (Pre_rnd_init scan answer) h in (answer, h1\<lparr>pre_inited := (if answer \<noteq> 0 then NONE else RND)\<rparr>))"

definition ha_pre_rnd_end :: "int \<Rightarrow> 'r handler \<Rightarrow> int \<times> 'r handler" where
  "ha_pre_rnd_end answer h = (answer, call Pre_rnd_end (h\<lparr>pre_inited := NONE\<rparr>))"

definition ha_pre_index_init :: "int \<Rightarrow> uint \<Rightarrow> bool \<Rightarrow> 'r handler \<Rightarrow> int \<times> 'r handler" where
  "ha_pre_index_init answer idx srt h = (let h1 = call (Pre_index_init idx srt answer) h in (answer, if answer = 0 then h1\<lparr>pre_inited := INDEX\<rparr> else h1))"

definition ha_pre_index_end :: "int \<Rightarrow> 'r handler \<Rightarrow> int \<times> 'r handler" where
  "ha_pre_index_end answer h = (answer, call Pre_index_end (h\<lparr>pre_inited := NONE\<rparr>))"

definition ha_pre_index_or_rnd_end :: "int \<Rightarrow> 'r handler \<Rightarrow> int \<times> 'r handler" where
  "ha_pre_index_or_rnd_end answer h = (if pre_inited h = INDEX then ha_pre_index_end answer h else if pre_inited h = RND then ha_pre_rnd_end answer h else (0, h))"

definition ha_start_bulk_insert :: "ha_rows \<Rightarrow> uint \<Rightarrow> 'r handler \<Rightarrow> 'r handler" where
  "ha_start_bulk_insert rows flags h = call (Start_bulk_insert rows flags) (h\<lparr>estimation_rows_to_insert := rows, copy_info := zero_copy_info\<rparr>)"

definition ha_ft_end :: "'r handler \<Rightarrow> 'r handler" where
  "ha_ft_end h = (call Ft_end h)\<lparr>ft_handler := None\<rparr>"

section \<open>Steps\<close>

text \<open>
  The uses that the assertions allow; the range of a scan may be set at any time. An engine may set the active index during a table scan, as the comment of \<open>get_index\<close> says, and
  nothing restores it when that scan ends.
\<close>

inductive hstep :: "'r handler \<Rightarrow> 'r handler \<Rightarrow> bool" where
  index_init: "inited h = NONE \<Longrightarrow> hstep h (snd (ha_index_init answer idx srt h))"
| index_end: "inited h = INDEX \<Longrightarrow> hstep h (snd (ha_index_end answer h))"
| rnd_init: "inited h = NONE \<or> inited h = RND \<and> scan \<Longrightarrow> hstep h (snd (ha_rnd_init answer scan h))"
| rnd_end: "inited h = RND \<Longrightarrow> hstep h (snd (ha_rnd_end answer h))"
| any_end: "hstep h (snd (ha_index_or_rnd_end answer h))"
| by_record: "inited h = NONE \<Longrightarrow> hstep h (snd (rnd_pos_by_record a1 a2 a3 h))"
| start_keyread: "idx < MAX_KEY \<Longrightarrow> hstep h (snd (ha_start_keyread answer idx h))"
| end_keyread: "hstep h (snd (ha_end_keyread answer h))"
| pre_index_init: "pre_inited h = NONE \<Longrightarrow> hstep h (snd (ha_pre_index_init answer idx srt h))"
| pre_rnd_init: "pre_inited h = NONE \<or> pre_inited h = RND \<and> scan \<Longrightarrow> hstep h (snd (ha_pre_rnd_init answer scan h))"
| pre_end: "hstep h (snd (ha_pre_index_or_rnd_end answer h))"
| bulk_insert: "hstep h (ha_start_bulk_insert rows flags h)"
| reset_copy: "hstep h (ha_reset_copy_info h)"
| reset_stats: "hstep h (reset_statistics h)"
| ft_end: "hstep h (ha_ft_end h)"
| set_range: "inited h \<noteq> NONE \<Longrightarrow> hstep h (h\<lparr>end_range := r\<rparr>)"
| engine_index: "inited h = RND \<Longrightarrow> hstep h (h\<lparr>active_index := i\<rparr>)"

inductive reachable :: "'r handler \<Rightarrow> bool" where
  start: "reachable (handler_init old)"
| step: "reachable h \<Longrightarrow> hstep h h' \<Longrightarrow> reachable h'"

section \<open>The view of the engine\<close>

text \<open>What the engine must think is open after the calls so far: an index scan, a table scan, the same for scans in advance, and reading keys only. A call out of order has no result.\<close>

datatype scan = Closed | On_index uint | On_table

record view =
  v_scan :: scan
  v_pre :: scan
  v_keyread :: bool

fun engine_step :: "engine_call \<Rightarrow> view \<Rightarrow> view option" where
  "engine_step (Index_init idx srt answer) v = (if v_scan v = Closed then Some (if answer = 0 then v\<lparr>v_scan := On_index idx\<rparr> else v) else None)"
| "engine_step Index_end v = (case v_scan v of On_index i \<Rightarrow> Some (v\<lparr>v_scan := Closed\<rparr>) | _ \<Rightarrow> None)"
| "engine_step (Rnd_init scan answer) v =
     (if v_scan v = Closed \<or> v_scan v = On_table \<and> scan then Some (v\<lparr>v_scan := (if answer = 0 then On_table else Closed)\<rparr>) else None)"
| "engine_step Rnd_end v = (if v_scan v = On_table then Some (v\<lparr>v_scan := Closed\<rparr>) else None)"
| "engine_step Position v = (if v_scan v = On_table then Some v else None)"
| "engine_step Rnd_pos v = (if v_scan v = On_table then Some v else None)"
| "engine_step (Pre_index_init idx srt answer) v = (if v_pre v = Closed then Some (if answer = 0 then v\<lparr>v_pre := On_index idx\<rparr> else v) else None)"
| "engine_step Pre_index_end v = (case v_pre v of On_index i \<Rightarrow> Some (v\<lparr>v_pre := Closed\<rparr>) | _ \<Rightarrow> None)"
| "engine_step (Pre_rnd_init scan answer) v =
     (if v_pre v = Closed \<or> v_pre v = On_table \<and> scan then Some (v\<lparr>v_pre := (if answer = 0 then On_table else Closed)\<rparr>) else None)"
| "engine_step Pre_rnd_end v = (if v_pre v = On_table then Some (v\<lparr>v_pre := Closed\<rparr>) else None)"
| "engine_step (Extra_keyread idx) v = (if v_keyread v then None else Some (v\<lparr>v_keyread := True\<rparr>))"
| "engine_step Extra_no_keyread v = (if v_keyread v then Some (v\<lparr>v_keyread := False\<rparr>) else None)"
| "engine_step (Start_bulk_insert rows flags) v = Some v"
| "engine_step Ft_end v = Some v"
| "engine_step Reset_copy_info v = Some v"

fun engine_view :: "engine_call list \<Rightarrow> view \<Rightarrow> view option" where
  "engine_view [] v = Some v"
| "engine_view (c # cs) v = (case engine_step c v of None \<Rightarrow> None | Some v1 \<Rightarrow> engine_view cs v1)"

definition view0 :: view where
  "view0 = \<lparr>v_scan = Closed, v_pre = Closed, v_keyread = False\<rparr>"

definition matches :: "init_stat \<Rightarrow> uint \<Rightarrow> scan \<Rightarrow> bool" where
  "matches st idx s \<longleftrightarrow> (case s of Closed \<Rightarrow> st = NONE | On_index i \<Rightarrow> st = INDEX \<and> idx = i | On_table \<Rightarrow> st = RND)"

definition pre_matches :: "init_stat \<Rightarrow> scan \<Rightarrow> bool" where
  "pre_matches st s \<longleftrightarrow> (case s of Closed \<Rightarrow> st = NONE | On_index i \<Rightarrow> st = INDEX | On_table \<Rightarrow> st = RND)"

definition handler_ok :: "'r handler \<Rightarrow> view \<Rightarrow> bool" where
  "handler_ok h v \<longleftrightarrow> engine_view (calls h) view0 = Some v \<and> matches (inited h) (active_index h) (v_scan v) \<and> pre_matches (pre_inited h) (v_pre v) \<and>
     v_keyread v = keyread_enabled h \<and> (inited h = NONE \<longrightarrow> end_range h = None)"

lemma engine_view_append: "engine_view (cs @ ds) v = (case engine_view cs v of None \<Rightarrow> None | Some v1 \<Rightarrow> engine_view ds v1)"
  by (induction cs arbitrary: v) (auto split: option.splits)

lemmas handler_defs = ha_index_init_def ha_index_end_def ha_rnd_init_def ha_rnd_end_def ha_index_or_rnd_end_def rnd_pos_by_record_def ha_start_keyread_def ha_end_keyread_def
  ha_pre_rnd_init_def ha_pre_rnd_end_def ha_pre_index_init_def ha_pre_index_end_def ha_pre_index_or_rnd_end_def ha_start_bulk_insert_def ha_ft_end_def reset_statistics_def ha_reset_copy_info_def call_def Let_def

lemmas view_defs = handler_ok_def matches_def pre_matches_def engine_view_append keyread_enabled_def

lemma hstep_ok:
  assumes "hstep h h'" "handler_ok h v"
  shows "\<exists>v'. handler_ok h' v'"
  using assms
  by (cases rule: hstep.cases) (auto simp: handler_defs view_defs split: scan.splits if_splits)

lemma reachable_ok: "reachable h \<Longrightarrow> \<exists>v. handler_ok h v"
proof (induction rule: reachable.induct)
  case (start old)
  have "handler_ok (handler_init old) view0" by (simp add: handler_init_def reset_statistics_def view_defs view0_def)
  then show ?case by blast
next
  case (step h h')
  then show ?case using hstep_ok by blast
qed

text \<open>C7: however the users of a handler open, restart, abandon and close scans within the assertions, and whatever the engine answers, the engine receives a call sequence in order: no
  end without an open scan of its kind, no second open scan, no switch to or from reading keys twice. Although an engine
  may set the active index during a table scan, \<open>get_index\<close> is the index that is open in the engine, and no index when none is; and \<open>ha_index_or_rnd_end\<close> leaves
  nothing open in the engine.\<close>

theorem handler_scan_protocol:
  assumes "reachable h"
  shows "\<exists>v. engine_view (calls h) view0 = Some v \<and> v_keyread v = keyread_enabled h \<and>
    get_index h = (case v_scan v of On_index i \<Rightarrow> i | _ \<Rightarrow> MAX_KEY) \<and>
    (\<exists>v'. engine_view (calls (snd (ha_index_or_rnd_end answer h))) view0 = Some v' \<and> v_scan v' = Closed \<and> v_pre v' = v_pre v)"
proof -
  obtain v where v: "handler_ok h v" using reachable_ok [OF assms] by blast
  have "get_index h = (case v_scan v of On_index i \<Rightarrow> i | _ \<Rightarrow> MAX_KEY)" using v by (auto simp: get_index_def view_defs split: scan.splits)
  moreover have "\<exists>v'. engine_view (calls (snd (ha_index_or_rnd_end answer h))) view0 = Some v' \<and> v_scan v' = Closed \<and> v_pre v' = v_pre v"
    using v by (auto simp: handler_defs view_defs split: scan.splits)
  ultimately show ?thesis using v unfolding handler_ok_def by blast
qed

definition raw_handler :: "nat handler" where
  "raw_handler = \<lparr>inited = RND, pre_inited = INDEX, active_index = 7, keyread = 3, end_range = None, ft_handler = None, estimation_rows_to_insert = 5,
     rows_read = 1, rows_tmp_read = 2, rows_changed = 3, index_rows_read = replicate 65 8, copy_info = \<lparr>records = 1, touched = 2, copied = 3, deleted = 4, updated = 5\<rparr>, calls = []\<rparr>"

theorem handler_scan_protocol_witness:
  "\<exists>v. engine_view (calls (snd (ha_index_init 0 2 True (handler_init raw_handler)))) view0 = Some v \<and> v_scan v = On_index 2"
proof -
  let ?h = "snd (ha_index_init 0 2 True (handler_init raw_handler))"
  have "reachable ?h" by (rule reachable.step [OF reachable.start [of raw_handler] hstep.index_init]) (simp add: handler_init_def reset_statistics_def)
  from handler_scan_protocol [OF this, of 0] obtain v where "engine_view (calls ?h) view0 = Some v" by blast
  then show ?thesis by (auto simp: ha_index_init_def call_def handler_init_def reset_statistics_def view0_def)
qed

end
