(* ===== verification/Opt_Range.thy ===== *)
theory Opt_Range imports Memory begin

unbundle bit_operations_syntax

text \<open>
  \<open>private/opt_range.h\<close>: the intervals \<open>SEL_ARG\<close> of the range optimizer, the keys that are built from a graph of them, and \<open>QUICK_RANGE\<close>. A value is the bytes its pointer shows.
  The comparison \<open>sel_cmp\<close>, the constructor with all arguments, and \<open>first\<close> and \<open>last\<close> of the tree of intervals are only declared in the header: they are arguments here, and \<open>sel_cmp_ok\<close>,
  \<open>constructor_ok\<close> and \<open>graph_ok\<close> say what the code relies on. A link is the number of a \<open>SEL_ARG\<close> in the store \<open>graph\<close>. The members for balancing the tree and counting references are left out.
\<close>

section \<open>Flags\<close>

definition NO_MIN_RANGE :: "'a::len word" where "NO_MIN_RANGE = 1"
definition NO_MAX_RANGE :: "'a::len word" where "NO_MAX_RANGE = 2"
definition NEAR_MIN :: "'a::len word" where "NEAR_MIN = 4"
definition NEAR_MAX :: "'a::len word" where "NEAR_MAX = 8"
definition EQ_RANGE :: "'a::len word" where "EQ_RANGE = 32"
definition GEOM_FLAG :: "'a::len word" where "GEOM_FLAG = 128"
definition HA_REVERSE_SORT :: "'a::len word" where "HA_REVERSE_SORT = 128"

definition invert_min_flag :: "uint \<Rightarrow> uint" where
  "invert_min_flag min_flag =
     (let f0 = min_flag AND NOT (NEAR_MIN OR NO_MIN_RANGE);
          f1 = (if min_flag AND NEAR_MIN \<noteq> 0 then f0 OR NEAR_MAX else f0)
      in if min_flag AND NO_MIN_RANGE \<noteq> 0 then f1 OR NO_MAX_RANGE else f1)"

definition invert_max_flag :: "uint \<Rightarrow> uint" where
  "invert_max_flag max_flag =
     (let f0 = max_flag AND NOT (NEAR_MAX OR NO_MAX_RANGE);
          f1 = (if max_flag AND NEAR_MAX \<noteq> 0 then f0 OR NEAR_MIN else f0)
      in if max_flag AND NO_MAX_RANGE \<noteq> 0 then f1 OR NO_MIN_RANGE else f1)"

section \<open>Intervals\<close>

record KEY_PART =
  store_length :: uint16
  kp_flag :: uint8

datatype sel_type = IMPOSSIBLE | MAYBE | MAYBE_KEY | KEY_RANGE

record SEL_ARG =
  min_flag :: uint8
  max_flag :: uint8
  maybe_flag :: uint8
  part :: uint8
  maybe_null :: bool
  min_value :: buffer
  max_value :: buffer
  s_next :: "nat option"
  s_prev :: "nat option"
  next_key_part :: "nat option"
  sel_type :: sel_type

type_synonym graph = "nat \<Rightarrow> SEL_ARG"
type_synonym sel_cmp = "buffer \<Rightarrow> buffer \<Rightarrow> uint8 \<Rightarrow> uint8 \<Rightarrow> int"
type_synonym new_sel_arg = "uint8 \<Rightarrow> buffer \<Rightarrow> buffer \<Rightarrow> uint8 \<Rightarrow> uint8 \<Rightarrow> uint8 \<Rightarrow> SEL_ARG"

definition cmp_min_to_min :: "sel_cmp \<Rightarrow> SEL_ARG \<Rightarrow> SEL_ARG \<Rightarrow> int" where
  "cmp_min_to_min cmp a arg = cmp (min_value a) (min_value arg) (min_flag a) (min_flag arg)"

definition cmp_min_to_max :: "sel_cmp \<Rightarrow> SEL_ARG \<Rightarrow> SEL_ARG \<Rightarrow> int" where
  "cmp_min_to_max cmp a arg = cmp (min_value a) (max_value arg) (min_flag a) (max_flag arg)"

definition cmp_max_to_max :: "sel_cmp \<Rightarrow> SEL_ARG \<Rightarrow> SEL_ARG \<Rightarrow> int" where
  "cmp_max_to_max cmp a arg = cmp (max_value a) (max_value arg) (max_flag a) (max_flag arg)"

definition cmp_max_to_min :: "sel_cmp \<Rightarrow> SEL_ARG \<Rightarrow> SEL_ARG \<Rightarrow> int" where
  "cmp_max_to_min cmp a arg = cmp (max_value a) (min_value arg) (max_flag a) (min_flag arg)"

definition is_same :: "sel_cmp \<Rightarrow> SEL_ARG \<Rightarrow> SEL_ARG \<Rightarrow> bool" where
  "is_same cmp a arg =
     (if sel_type a \<noteq> sel_type arg \<or> part a \<noteq> part arg then False
      else if sel_type a \<noteq> KEY_RANGE then True
      else cmp_min_to_min cmp a arg = 0 \<and> cmp_max_to_max cmp a arg = 0)"

text \<open>The loop of \<open>all_same\<close>; the result says whether both lists ended.\<close>

partial_function (option) same_loop :: "sel_cmp \<Rightarrow> graph \<Rightarrow> nat option \<Rightarrow> nat option \<Rightarrow> bool option" where
  "same_loop cmp g cur_arg cmp_arg =
     (case (cur_arg, cmp_arg) of
        (Some x, Some y) \<Rightarrow> if is_same cmp (g x) (g y) then same_loop cmp g (s_next (g x)) (s_next (g y)) else Some False
      | _ \<Rightarrow> Some (cur_arg = None \<and> cmp_arg = None))"

definition all_same :: "sel_cmp \<Rightarrow> (nat \<Rightarrow> nat) \<Rightarrow> graph \<Rightarrow> nat \<Rightarrow> nat \<Rightarrow> bool option" where
  "all_same cmp first_of g this arg =
     (if sel_type (g this) \<noteq> sel_type (g arg) \<or> part (g this) \<noteq> part (g arg) then Some False
      else if sel_type (g this) \<noteq> KEY_RANGE then Some True
      else if arg = this then Some True
      else same_loop cmp g (Some (first_of this)) (Some (first_of arg)))"

definition merge_flags :: "SEL_ARG \<Rightarrow> SEL_ARG \<Rightarrow> SEL_ARG" where
  "merge_flags arg a = a\<lparr>maybe_flag := maybe_flag a OR maybe_flag arg\<rparr>"

definition maybe_smaller :: "SEL_ARG \<Rightarrow> SEL_ARG" where
  "maybe_smaller a = a\<lparr>maybe_flag := 1\<rparr>"

definition byte_at :: "buffer \<Rightarrow> nat \<Rightarrow> uchar option" where
  "byte_at v i = (if i < length v then Some (v ! i) else None)"

definition is_null_interval :: "SEL_ARG \<Rightarrow> bool option" where
  "is_null_interval a = (if maybe_null a then map_option (\<lambda>b. b = 1) (byte_at (max_value a) 0) else Some False)"

definition clone_and :: "sel_cmp \<Rightarrow> new_sel_arg \<Rightarrow> SEL_ARG \<Rightarrow> SEL_ARG \<Rightarrow> SEL_ARG" where
  "clone_and cmp mk a arg =
     (let (new_min, flag_min) = (if cmp_min_to_min cmp a arg \<ge> 0 then (min_value a, min_flag a) else (min_value arg, min_flag arg));
          (new_max, flag_max) = (if cmp_max_to_max cmp a arg \<le> 0 then (max_value a, max_flag a) else (max_value arg, max_flag arg))
      in mk (part a) new_min new_max flag_min flag_max (if maybe_flag a \<noteq> 0 \<and> maybe_flag arg \<noteq> 0 then 1 else 0))"

definition clone_first :: "new_sel_arg \<Rightarrow> SEL_ARG \<Rightarrow> SEL_ARG \<Rightarrow> SEL_ARG" where
  "clone_first mk a arg =
     mk (part a) (min_value a) (min_value arg) (min_flag a) (if min_flag arg AND NEAR_MIN \<noteq> 0 then 0 else NEAR_MAX) (maybe_flag a OR maybe_flag arg)"

definition clone_last :: "new_sel_arg \<Rightarrow> SEL_ARG \<Rightarrow> SEL_ARG \<Rightarrow> SEL_ARG" where
  "clone_last mk a arg = mk (part a) (min_value a) (max_value arg) (min_flag a) (max_flag arg) (maybe_flag a OR maybe_flag arg)"

text \<open>The result \<open>True\<close> of \<open>copy_min\<close> and \<open>copy_max\<close> stands for a full range.\<close>

definition copy_min :: "sel_cmp \<Rightarrow> SEL_ARG \<Rightarrow> SEL_ARG \<Rightarrow> bool \<times> SEL_ARG" where
  "copy_min cmp arg a =
     (let a1 = (if cmp_min_to_min cmp a arg > 0 then a\<lparr>min_value := min_value arg, min_flag := min_flag arg\<rparr> else a) in
      if cmp_min_to_min cmp a arg > 0 \<and> max_flag a1 AND (NO_MAX_RANGE OR NO_MIN_RANGE) = NO_MAX_RANGE OR NO_MIN_RANGE then (True, a1)
      else (False, a1\<lparr>maybe_flag := maybe_flag a1 OR maybe_flag arg\<rparr>))"

definition copy_max :: "sel_cmp \<Rightarrow> SEL_ARG \<Rightarrow> SEL_ARG \<Rightarrow> bool \<times> SEL_ARG" where
  "copy_max cmp arg a =
     (let a1 = (if cmp_max_to_max cmp a arg \<le> 0 then a\<lparr>max_value := max_value arg, max_flag := max_flag arg\<rparr> else a) in
      if cmp_max_to_max cmp a arg \<le> 0 \<and> max_flag a1 AND (NO_MAX_RANGE OR NO_MIN_RANGE) = NO_MAX_RANGE OR NO_MIN_RANGE then (True, a1)
      else (False, a1\<lparr>maybe_flag := maybe_flag a1 OR maybe_flag arg\<rparr>))"

definition copy_min_to_min :: "SEL_ARG \<Rightarrow> SEL_ARG \<Rightarrow> SEL_ARG" where
  "copy_min_to_min arg a = a\<lparr>min_value := min_value arg, min_flag := min_flag arg\<rparr>"

definition copy_min_to_max :: "SEL_ARG \<Rightarrow> SEL_ARG \<Rightarrow> SEL_ARG" where
  "copy_min_to_max arg a = a\<lparr>max_value := min_value arg, max_flag := (if min_flag arg AND NEAR_MIN \<noteq> 0 then 0 else NEAR_MAX)\<rparr>"

definition copy_max_to_min :: "SEL_ARG \<Rightarrow> SEL_ARG \<Rightarrow> SEL_ARG" where
  "copy_max_to_min arg a = a\<lparr>min_value := max_value arg, min_flag := (if max_flag arg AND NEAR_MAX \<noteq> 0 then 0 else NEAR_MIN)\<rparr>"

definition is_singlepoint :: "(buffer \<Rightarrow> buffer \<Rightarrow> int) \<Rightarrow> SEL_ARG \<Rightarrow> bool option" where
  "is_singlepoint key_cmp a =
     (if min_flag a \<noteq> 0 \<or> max_flag a \<noteq> 0 then Some False
      else if maybe_null a
      then do { x \<leftarrow> byte_at (min_value a) 0; y \<leftarrow> byte_at (max_value a) 0;
                if x \<noteq> y then Some False else if x \<noteq> 0 then Some True else Some (key_cmp (drop 1 (min_value a)) (drop 1 (max_value a)) = 0) }
      else Some (key_cmp (min_value a) (max_value a) = 0))"

section \<open>Keys\<close>

text \<open>The key under construction: the area and the place of the next part.\<close>

record key_area =
  area :: buffer
  place :: nat

definition put :: "buffer \<Rightarrow> key_area \<Rightarrow> key_area option" where
  "put d k = (if place k + length d \<le> length (area k) then Some (k\<lparr>area := memcpy (area k) (place k) d, place := place k + length d\<rparr>) else None)"

text \<open>The bytes of one part: a null indicator and zeros, or the first bytes of the value.\<close>

definition part_image :: "uint \<Rightarrow> bool \<Rightarrow> buffer \<Rightarrow> buffer option" where
  "part_image len null v =
     do { first_byte \<leftarrow> (if null then byte_at v 0 else Some 0);
          if first_byte \<noteq> 0 then Some (1 # replicate (unat (len - 1)) 0)
          else if unat len \<le> length v then Some (take (unat len) v) else None }"

text \<open>Both return the number of parts stored. The pointer advances by the length, also where \<open>bzero\<close> cleared fewer or more bytes, which only happens for the length zero.\<close>

definition store_part :: "uint \<Rightarrow> bool \<Rightarrow> buffer \<Rightarrow> key_area \<Rightarrow> key_area option" where
  "store_part len null v k = do { d \<leftarrow> part_image len null v; k1 \<leftarrow> put d k; Some (k1\<lparr>place := place k + unat len\<rparr>) }"

definition store_min :: "uint \<Rightarrow> uint \<Rightarrow> SEL_ARG \<Rightarrow> key_area \<Rightarrow> (uint \<times> key_area) option" where
  "store_min len min_key_flag a k =
     (if min_flag a AND GEOM_FLAG \<noteq> 0 \<or> min_flag a AND NO_MIN_RANGE = 0 \<and> min_key_flag AND (NO_MIN_RANGE OR NEAR_MIN) = 0
      then map_option (Pair 1) (store_part len (maybe_null a) (min_value a) k)
      else Some (0, k))"

definition store_max :: "uint \<Rightarrow> uint \<Rightarrow> SEL_ARG \<Rightarrow> key_area \<Rightarrow> (uint \<times> key_area) option" where
  "store_max len max_key_flag a k =
     (if max_flag a AND NO_MAX_RANGE = 0 \<and> max_key_flag AND (NO_MAX_RANGE OR NEAR_MAX) = 0
      then map_option (Pair 1) (store_part len (maybe_null a) (max_value a) k)
      else Some (0, k))"

definition reverse_part :: "KEY_PART list \<Rightarrow> uint8 \<Rightarrow> bool" where
  "reverse_part kp p \<longleftrightarrow> kp_flag (kp ! unat p) AND HA_REVERSE_SORT \<noteq> 0"

definition store_min_max :: "KEY_PART list \<Rightarrow> uint \<Rightarrow> SEL_ARG \<Rightarrow> key_area \<Rightarrow> uint \<Rightarrow> key_area \<Rightarrow> uint \<Rightarrow> uint \<Rightarrow> uint \<Rightarrow> (key_area \<times> key_area \<times> uint \<times> uint) option" where
  "store_min_max kp len a min_key mn max_key mx min_part max_part =
     (if reverse_part kp (part a)
      then do { (n, max_key1) \<leftarrow> store_min len mn a max_key; (m, min_key1) \<leftarrow> store_max len mx a min_key; Some (min_key1, max_key1, min_part + m, max_part + n) }
      else do { (n, min_key1) \<leftarrow> store_min len mn a min_key; (m, max_key1) \<leftarrow> store_max len mx a max_key; Some (min_key1, max_key1, min_part + n, max_part + m) })"

definition get_min_flag :: "KEY_PART list \<Rightarrow> SEL_ARG \<Rightarrow> uint" where
  "get_min_flag kp a = (if reverse_part kp (part a) then invert_max_flag (ucast (max_flag a)) else ucast (min_flag a))"

definition get_max_flag :: "KEY_PART list \<Rightarrow> SEL_ARG \<Rightarrow> uint" where
  "get_max_flag kp a = (if reverse_part kp (part a) then invert_min_flag (ucast (min_flag a)) else ucast (max_flag a))"

definition index_order_prev :: "KEY_PART list \<Rightarrow> SEL_ARG \<Rightarrow> nat option" where
  "index_order_prev kp a = (if reverse_part kp (part a) then s_next a else s_prev a)"

definition index_order_next :: "KEY_PART list \<Rightarrow> SEL_ARG \<Rightarrow> nat option" where
  "index_order_next kp a = (if reverse_part kp (part a) then s_prev a else s_next a)"

text \<open>The calls go along the parts of the key; the first argument bounds their number.\<close>

definition part_length :: "KEY_PART list \<Rightarrow> uint8 \<Rightarrow> uint" where
  "part_length key p = ucast (store_length (key ! unat p))"

definition next_part :: "graph \<Rightarrow> uint \<Rightarrow> SEL_ARG \<Rightarrow> nat option" where
  "next_part g last_part t =
     (case next_key_part t of
        None \<Rightarrow> None
      | Some n \<Rightarrow> if sel_type (g n) = KEY_RANGE \<and> ucast (part t) \<noteq> last_part \<and> unat (part (g n)) = unat (part t) + 1 then Some n else None)"

fun store_min_key :: "nat \<Rightarrow> (nat \<Rightarrow> nat) \<Rightarrow> (nat \<Rightarrow> nat) \<Rightarrow> graph \<Rightarrow> KEY_PART list \<Rightarrow> uint \<Rightarrow> bool \<Rightarrow> nat \<Rightarrow> uint \<Rightarrow> key_area \<Rightarrow> (uint \<times> uint \<times> key_area) option"
  and store_max_key :: "nat \<Rightarrow> (nat \<Rightarrow> nat) \<Rightarrow> (nat \<Rightarrow> nat) \<Rightarrow> graph \<Rightarrow> KEY_PART list \<Rightarrow> uint \<Rightarrow> bool \<Rightarrow> nat \<Rightarrow> uint \<Rightarrow> key_area \<Rightarrow> (uint \<times> uint \<times> key_area) option" where
  "store_min_key 0 first_of last_of g key last_part start_key root range_key_flag k = None"
| "store_min_key (Suc fuel) first_of last_of g key last_part start_key root range_key_flag k =
     do { let key_tree = g (first_of root);
          (res, k1) \<leftarrow> store_min (part_length key (part key_tree)) range_key_flag key_tree k;
          if res = 0 then Some (0, range_key_flag, k1)
          else do { let flag1 = range_key_flag OR ucast (min_flag key_tree);
                    case next_part g last_part key_tree of
                      None \<Rightarrow> Some (res, flag1, k1)
                    | Some nkp \<Rightarrow>
                        if flag1 AND (NO_MIN_RANGE OR NEAR_MIN) \<noteq> 0 then Some (res, flag1, k1)
                        else if start_key = (\<not> reverse_part key (part key_tree))
                        then do { (n, flag2, k2) \<leftarrow> store_min_key fuel first_of last_of g key last_part start_key nkp flag1 k1; Some (res + n, flag2, k2) }
                        else do { (n, tmp_flag, k2) \<leftarrow> store_max_key fuel first_of last_of g key last_part start_key nkp (invert_min_flag flag1) k1;
                                  Some (res + n, invert_max_flag tmp_flag, k2) } } }"
| "store_max_key 0 first_of last_of g key last_part start_key root range_key_flag k = None"
| "store_max_key (Suc fuel) first_of last_of g key last_part start_key root range_key_flag k =
     do { let key_tree = g (last_of root);
          (res, k1) \<leftarrow> store_max (part_length key (part key_tree)) range_key_flag key_tree k;
          if res = 0 then Some (0, range_key_flag, k1)
          else do { let flag1 = range_key_flag OR ucast (max_flag key_tree);
                    case next_part g last_part key_tree of
                      None \<Rightarrow> Some (res, flag1, k1)
                    | Some nkp \<Rightarrow>
                        if flag1 AND (NO_MAX_RANGE OR NEAR_MAX) \<noteq> 0 then Some (res, flag1, k1)
                        else if \<not> start_key \<and> \<not> reverse_part key (part key_tree) \<or> start_key \<and> reverse_part key (part key_tree)
                        then do { (n, flag2, k2) \<leftarrow> store_max_key fuel first_of last_of g key last_part start_key nkp flag1 k1; Some (res + n, flag2, k2) }
                        else do { (n, tmp_flag, k2) \<leftarrow> store_min_key fuel first_of last_of g key last_part start_key nkp (invert_max_flag flag1) k1;
                                  Some (res + n, invert_min_flag tmp_flag, k2) } } }"

section \<open>Ranges for the engine\<close>

datatype ha_rkey_function =
  HA_READ_KEY_EXACT | HA_READ_KEY_OR_NEXT | HA_READ_KEY_OR_PREV | HA_READ_AFTER_KEY | HA_READ_BEFORE_KEY | HA_READ_PREFIX | HA_READ_PREFIX_LAST
  | HA_READ_PREFIX_LAST_OR_PREV | HA_READ_MBR_CONTAIN | HA_READ_MBR_INTERSECT | HA_READ_MBR_WITHIN | HA_READ_MBR_DISJOINT | HA_READ_MBR_EQUAL

record key_range =
  kr_key :: buffer
  kr_length :: uint
  kr_keypart_map :: ulong
  kr_flag :: ha_rkey_function

record QUICK_RANGE =
  min_key :: buffer
  max_key :: buffer
  min_length :: uint16
  max_length :: uint16
  qr_flag :: uint16
  min_keypart_map :: ulong
  max_keypart_map :: ulong

definition quick_range :: "buffer \<Rightarrow> uint \<Rightarrow> ulong \<Rightarrow> buffer \<Rightarrow> uint \<Rightarrow> ulong \<Rightarrow> uint \<Rightarrow> QUICK_RANGE" where
  "quick_range mn mn_length mn_map mx mx_length mx_map flags =
     \<lparr>min_key = take (unat (mn_length + 1)) mn, max_key = take (unat (mx_length + 1)) mx, min_length = ucast mn_length, max_length = ucast mx_length, qr_flag = ucast flags,
      min_keypart_map = mn_map, max_keypart_map = mx_map\<rparr>"

definition make_min_endpoint :: "QUICK_RANGE \<Rightarrow> key_range" where
  "make_min_endpoint q =
     \<lparr>kr_key = min_key q, kr_length = ucast (min_length q), kr_keypart_map = min_keypart_map q,
      kr_flag = (if qr_flag q AND NEAR_MIN \<noteq> 0 then HA_READ_AFTER_KEY else if qr_flag q AND EQ_RANGE \<noteq> 0 then HA_READ_KEY_EXACT else HA_READ_KEY_OR_NEXT)\<rparr>"

definition make_max_endpoint :: "QUICK_RANGE \<Rightarrow> key_range" where
  "make_max_endpoint q =
     \<lparr>kr_key = max_key q, kr_length = ucast (max_length q), kr_keypart_map = max_keypart_map q,
      kr_flag = (if qr_flag q AND NEAR_MAX \<noteq> 0 then HA_READ_BEFORE_KEY else HA_READ_AFTER_KEY)\<rparr>"

definition make_min_endpoint_prefix :: "uint \<Rightarrow> ulong \<Rightarrow> QUICK_RANGE \<Rightarrow> key_range" where
  "make_min_endpoint_prefix prefix_length m q = (let kr = make_min_endpoint q in kr\<lparr>kr_length := min (kr_length kr) prefix_length, kr_keypart_map := kr_keypart_map kr AND m\<rparr>)"

definition make_max_endpoint_prefix :: "uint \<Rightarrow> ulong \<Rightarrow> QUICK_RANGE \<Rightarrow> key_range" where
  "make_max_endpoint_prefix prefix_length m q = (let kr = make_max_endpoint q in kr\<lparr>kr_length := min (kr_length kr) prefix_length, kr_keypart_map := kr_keypart_map kr AND m\<rparr>)"

section \<open>Endpoints and ranges\<close>

text \<open>An endpoint lies before all values, after all, or at, just before or just after a value. Values are compared by their rank in the order of the field.\<close>

datatype 'k edge = Below | At 'k int | Above

instantiation edge :: (linorder) linorder
begin

definition less_eq_edge :: "'a edge \<Rightarrow> 'a edge \<Rightarrow> bool" where
  "less_eq_edge e f = (case (e, f) of (Below, _) \<Rightarrow> True | (_, Above) \<Rightarrow> True | (At x i, At y j) \<Rightarrow> x < y \<or> x = y \<and> i \<le> j | _ \<Rightarrow> False)"

definition less_edge :: "'a edge \<Rightarrow> 'a edge \<Rightarrow> bool" where
  "less_edge e f = (e \<le> f \<and> \<not> f \<le> e)"

instance
  by standard (auto simp: less_eq_edge_def less_edge_def split: edge.splits)

end

lemma edge_le [simp]: "Below \<le> e" "e \<le> Above" "At x i \<le> At y j \<longleftrightarrow> x < y \<or> x = y \<and> i \<le> j" "\<not> At x i \<le> Below" "\<not> Above \<le> At x i" "\<not> Above \<le> Below" for e :: "'k::linorder edge"
  by (auto simp: less_eq_edge_def split: edge.splits)

lemma edge_less [simp]: "At x i < At y j \<longleftrightarrow> x < y \<or> x = y \<and> i < j" "\<not> e < Below" "\<not> Above < e" "Below < At x i" "At x i < Above" for e :: "'k::linorder edge"
  by (auto simp: not_le [symmetric] less_edge_def)

definition edge :: "(buffer \<Rightarrow> 'k) \<Rightarrow> buffer \<Rightarrow> uint8 \<Rightarrow> 'k edge" where
  "edge rank v f =
     (if f AND NO_MIN_RANGE \<noteq> 0 then Below else if f AND NO_MAX_RANGE \<noteq> 0 then Above
      else At (rank v) (if f AND NEAR_MIN \<noteq> 0 then 1 else if f AND NEAR_MAX \<noteq> 0 then - 1 else 0))"

definition min_flags :: "uint8 \<Rightarrow> bool" where
  "min_flags f \<longleftrightarrow> f AND (NO_MAX_RANGE OR NEAR_MAX OR GEOM_FLAG) = 0"

definition max_flags :: "uint8 \<Rightarrow> bool" where
  "max_flags f \<longleftrightarrow> f AND (NO_MIN_RANGE OR NEAR_MIN OR GEOM_FLAG) = 0"

text \<open>What \<open>sel_cmp\<close> does with two endpoints of intervals: it tells their order.\<close>

definition sel_cmp_ok :: "(buffer \<Rightarrow> 'k::linorder) \<Rightarrow> sel_cmp \<Rightarrow> bool" where
  "sel_cmp_ok rank cmp \<longleftrightarrow> (\<forall>a b f g. (min_flags f \<or> max_flags f) \<and> (min_flags g \<or> max_flags g) \<longrightarrow>
     (cmp a b f g < 0 \<longleftrightarrow> edge rank a f < edge rank b g) \<and> (cmp a b f g = 0 \<longleftrightarrow> edge rank a f = edge rank b g))"

definition constructor_ok :: "new_sel_arg \<Rightarrow> bool" where
  "constructor_ok mk \<longleftrightarrow> (\<forall>p mn mx f g m. part (mk p mn mx f g m) = p \<and> min_value (mk p mn mx f g m) = mn \<and> max_value (mk p mn mx f g m) = mx \<and>
     min_flag (mk p mn mx f g m) = f \<and> max_flag (mk p mn mx f g m) = g \<and> maybe_flag (mk p mn mx f g m) = m \<and> sel_type (mk p mn mx f g m) = KEY_RANGE)"

definition min_edge :: "(buffer \<Rightarrow> 'k) \<Rightarrow> SEL_ARG \<Rightarrow> 'k edge" where
  "min_edge rank a = edge rank (min_value a) (min_flag a)"

definition max_edge :: "(buffer \<Rightarrow> 'k) \<Rightarrow> SEL_ARG \<Rightarrow> 'k edge" where
  "max_edge rank a = edge rank (max_value a) (max_flag a)"

definition lower :: "(buffer \<Rightarrow> 'k::linorder) \<Rightarrow> SEL_ARG \<Rightarrow> 'k set" where
  "lower rank a = {x. min_edge rank a \<le> At x 0}"

definition upper :: "(buffer \<Rightarrow> 'k::linorder) \<Rightarrow> SEL_ARG \<Rightarrow> 'k set" where
  "upper rank a = {x. At x 0 \<le> max_edge rank a}"

definition range_of :: "(buffer \<Rightarrow> 'k::linorder) \<Rightarrow> SEL_ARG \<Rightarrow> 'k set" where
  "range_of rank a = lower rank a \<inter> upper rank a"

definition flags_ok :: "SEL_ARG \<Rightarrow> bool" where
  "flags_ok a \<longleftrightarrow> min_flags (min_flag a) \<and> max_flags (max_flag a)"

lemmas flag_values = NO_MIN_RANGE_def NO_MAX_RANGE_def NEAR_MIN_def NEAR_MAX_def EQ_RANGE_def GEOM_FLAG_def HA_REVERSE_SORT_def

lemma cmp_edges:
  assumes "sel_cmp_ok rank cmp" "flags_ok a" "flags_ok b"
  shows "cmp_min_to_min cmp a b < 0 \<longleftrightarrow> min_edge rank a < min_edge rank b" "cmp_min_to_min cmp a b = 0 \<longleftrightarrow> min_edge rank a = min_edge rank b"
    "cmp_max_to_max cmp a b < 0 \<longleftrightarrow> max_edge rank a < max_edge rank b" "cmp_max_to_max cmp a b = 0 \<longleftrightarrow> max_edge rank a = max_edge rank b"
    "cmp_min_to_max cmp a b < 0 \<longleftrightarrow> min_edge rank a < max_edge rank b" "cmp_min_to_max cmp a b = 0 \<longleftrightarrow> min_edge rank a = max_edge rank b"
    "cmp_max_to_min cmp a b < 0 \<longleftrightarrow> max_edge rank a < min_edge rank b" "cmp_max_to_min cmp a b = 0 \<longleftrightarrow> max_edge rank a = min_edge rank b"
  using assms
  by (simp_all add: sel_cmp_ok_def flags_ok_def min_edge_def max_edge_def cmp_min_to_min_def cmp_max_to_max_def cmp_min_to_max_def cmp_max_to_min_def)

lemma cmp_edges_signs:
  assumes "sel_cmp_ok rank cmp" "flags_ok a" "flags_ok b"
  shows "cmp_min_to_min cmp a b \<ge> 0 \<longleftrightarrow> min_edge rank b \<le> min_edge rank a" "cmp_min_to_min cmp a b > 0 \<longleftrightarrow> min_edge rank b < min_edge rank a"
    "cmp_max_to_max cmp a b \<le> 0 \<longleftrightarrow> max_edge rank a \<le> max_edge rank b"
proof -
  note c = cmp_edges [OF assms]
  show "cmp_min_to_min cmp a b \<ge> 0 \<longleftrightarrow> min_edge rank b \<le> min_edge rank a" using c(1) by (simp add: not_less [symmetric])
  show "cmp_min_to_min cmp a b > 0 \<longleftrightarrow> min_edge rank b < min_edge rank a" using c(1,2) by (metis less_irrefl not_less_iff_gr_or_eq)
  show "cmp_max_to_max cmp a b \<le> 0 \<longleftrightarrow> max_edge rank a \<le> max_edge rank b" using c(3,4) by (auto simp: le_less)
qed

lemma clone_and_range:
  assumes "sel_cmp_ok rank cmp" "constructor_ok mk" "flags_ok a" "flags_ok b"
  shows "flags_ok (clone_and cmp mk a b) \<and> range_of rank (clone_and cmp mk a b) = range_of rank a \<inter> range_of rank b"
proof -
  note c = cmp_edges_signs [OF assms(1,3,4)]
  let ?c = "clone_and cmp mk a b"
  have "min_edge rank ?c = max (min_edge rank a) (min_edge rank b)"
    using c(1) assms(2) by (auto simp: clone_and_def constructor_ok_def min_edge_def max_def)
  moreover have "max_edge rank ?c = min (max_edge rank a) (max_edge rank b)"
    using c(3) assms(2) by (auto simp: clone_and_def constructor_ok_def max_edge_def min_def)
  moreover have "flags_ok ?c" using assms by (auto simp: clone_and_def constructor_ok_def flags_ok_def)
  ultimately show ?thesis by (auto simp: range_of_def lower_def upper_def)
qed

lemma and_or_0: "(w :: 'a::len word) AND (a OR b) = 0 \<longleftrightarrow> w AND a = 0 \<and> w AND b = 0"
  by (simp add: bit.conj_disj_distrib or_eq_0_iff)

text \<open>The flag of the endpoint on the other side of a value.\<close>

lemma edge_before:
  assumes "min_flags f" "f AND NO_MIN_RANGE = 0"
  shows "max_flags (if f AND NEAR_MIN \<noteq> 0 then 0 else NEAR_MAX)"
    "At x 0 \<le> edge rank v (if f AND NEAR_MIN \<noteq> 0 then 0 else NEAR_MAX) \<longleftrightarrow> \<not> edge rank v f \<le> At x 0"
proof -
  show "max_flags (if f AND NEAR_MIN \<noteq> 0 then 0 else NEAR_MAX)" by (simp add: max_flags_def flag_values)
  have "f AND NO_MAX_RANGE = 0" "f AND NEAR_MAX = 0" using assms(1) by (simp_all add: min_flags_def and_or_0)
  then show "At x 0 \<le> edge rank v (if f AND NEAR_MIN \<noteq> 0 then 0 else NEAR_MAX) \<longleftrightarrow> \<not> edge rank v f \<le> At x 0"
    using assms(2) by (auto simp: edge_def flag_values)
qed

lemma edge_after:
  assumes "max_flags f" "f AND NO_MAX_RANGE = 0"
  shows "min_flags (if f AND NEAR_MAX \<noteq> 0 then 0 else NEAR_MIN)"
    "edge rank v (if f AND NEAR_MAX \<noteq> 0 then 0 else NEAR_MIN) \<le> At x 0 \<longleftrightarrow> \<not> At x 0 \<le> edge rank v f"
proof -
  show "min_flags (if f AND NEAR_MAX \<noteq> 0 then 0 else NEAR_MIN)" by (simp add: min_flags_def flag_values)
  have "f AND NO_MIN_RANGE = 0" "f AND NEAR_MIN = 0" using assms(1) by (simp_all add: max_flags_def and_or_0)
  then show "edge rank v (if f AND NEAR_MAX \<noteq> 0 then 0 else NEAR_MIN) \<le> At x 0 \<longleftrightarrow> \<not> At x 0 \<le> edge rank v f"
    using assms(2) by (auto simp: edge_def flag_values)
qed

lemma min_bounded: "min_edge rank a < min_edge rank b \<Longrightarrow> min_flag b AND NO_MIN_RANGE = 0"
  by (auto simp: min_edge_def edge_def split: if_splits)

lemma clone_first_range:
  assumes "constructor_ok mk" "flags_ok a" "flags_ok b" "min_edge rank a < min_edge rank b"
  shows "flags_ok (clone_first mk a b) \<and> range_of rank (clone_first mk a b) = lower rank a - lower rank b"
proof -
  have b: "min_flags (min_flag b)" using assms(3) by (simp add: flags_ok_def)
  note e = edge_before [OF b min_bounded [OF assms(4)]]
  show ?thesis using assms(1,2) e(1) by (auto simp: clone_first_def constructor_ok_def flags_ok_def range_of_def lower_def upper_def min_edge_def max_edge_def e(2))
qed

lemma clone_last_range:
  assumes "constructor_ok mk" "flags_ok a" "flags_ok b"
  shows "flags_ok (clone_last mk a b) \<and> range_of rank (clone_last mk a b) = lower rank a \<inter> upper rank b"
  using assms by (auto simp: clone_last_def constructor_ok_def flags_ok_def range_of_def lower_def upper_def min_edge_def max_edge_def)

text \<open>Full ranges are never reported: the test looks for both marks in the flags of the maximum.\<close>

lemma copy_no_full:
  assumes "flags_ok a" "flags_ok b"
  shows "\<not> fst (copy_min cmp b a)" "\<not> fst (copy_max cmp b a)"
proof -
  have z: "max_flag c AND NO_MIN_RANGE = 0" if "flags_ok c" for c using that by (simp add: flags_ok_def max_flags_def and_or_0)
  have n: "max_flag c AND (NO_MAX_RANGE OR NO_MIN_RANGE) \<noteq> NO_MAX_RANGE OR NO_MIN_RANGE" if "flags_ok c" for c
  proof
    assume "max_flag c AND (NO_MAX_RANGE OR NO_MIN_RANGE) = NO_MAX_RANGE OR NO_MIN_RANGE"
    then have "bit (max_flag c AND (NO_MAX_RANGE OR NO_MIN_RANGE)) 0" by (simp add: flag_values)
    then have "bit (max_flag c) 0" by (simp add: bit_and_iff)
    then show False using z [OF that] and_bit_nonzero [of "max_flag c" 0] by (simp add: NO_MIN_RANGE_def)
  qed
  show "\<not> fst (copy_min cmp b a)" "\<not> fst (copy_max cmp b a)" using n [OF assms(1)] n [OF assms(2)] by (simp_all add: copy_min_def copy_max_def Let_def)
qed

lemma copy_min_range:
  assumes "sel_cmp_ok rank cmp" "flags_ok a" "flags_ok b" "copy_min cmp b a = (full, c)"
  shows "flags_ok c \<and> \<not> full \<and> range_of rank c = (lower rank a \<union> lower rank b) \<inter> upper rank a"
proof -
  note s = cmp_edges_signs(2) [OF assms(1-3)]
  have f: "\<not> full" using copy_no_full(1) [OF assms(2,3), of cmp] assms(4) by simp
  then have "min_value c = min_value (if min_edge rank b < min_edge rank a then b else a)" "min_flag c = min_flag (if min_edge rank b < min_edge rank a then b else a)"
    "max_value c = max_value a" "max_flag c = max_flag a"
    using assms(4) by (auto simp: copy_min_def s Let_def split: if_splits)
  then show ?thesis using assms(2,3) f by (auto simp: flags_ok_def range_of_def lower_def upper_def min_edge_def max_edge_def split: if_splits)
qed

lemma copy_max_range:
  assumes "sel_cmp_ok rank cmp" "flags_ok a" "flags_ok b" "copy_max cmp b a = (full, c)"
  shows "flags_ok c \<and> \<not> full \<and> range_of rank c = lower rank a \<inter> (upper rank a \<union> upper rank b)"
proof -
  note s = cmp_edges_signs(3) [OF assms(1-3)]
  have f: "\<not> full" using copy_no_full(2) [OF assms(2,3), of cmp] assms(4) by simp
  then have "max_value c = max_value (if max_edge rank a \<le> max_edge rank b then b else a)" "max_flag c = max_flag (if max_edge rank a \<le> max_edge rank b then b else a)"
    "min_value c = min_value a" "min_flag c = min_flag a"
    using assms(4) by (auto simp: copy_max_def s Let_def split: if_splits)
  then show ?thesis using assms(2,3) f by (auto simp: flags_ok_def range_of_def lower_def upper_def min_edge_def max_edge_def split: if_splits)
qed

lemma copy_edge_ranges:
  assumes "flags_ok a" "flags_ok b"
  shows "flags_ok (copy_min_to_min b a) \<and> range_of rank (copy_min_to_min b a) = lower rank b \<inter> upper rank a"
    "min_flag b AND NO_MIN_RANGE = 0 \<Longrightarrow> flags_ok (copy_min_to_max b a) \<and> range_of rank (copy_min_to_max b a) = lower rank a - lower rank b"
    "max_flag b AND NO_MAX_RANGE = 0 \<Longrightarrow> flags_ok (copy_max_to_min b a) \<and> range_of rank (copy_max_to_min b a) = upper rank a - upper rank b"
proof -
  have f: "min_flags (min_flag b)" "max_flags (max_flag b)" using assms(2) by (simp_all add: flags_ok_def)
  show "flags_ok (copy_min_to_min b a) \<and> range_of rank (copy_min_to_min b a) = lower rank b \<inter> upper rank a"
    using assms by (auto simp: copy_min_to_min_def flags_ok_def range_of_def lower_def upper_def min_edge_def max_edge_def)
  show "flags_ok (copy_min_to_max b a) \<and> range_of rank (copy_min_to_max b a) = lower rank a - lower rank b" if "min_flag b AND NO_MIN_RANGE = 0"
    using assms(1) edge_before(1) [OF f(1) that] by (auto simp: copy_min_to_max_def flags_ok_def range_of_def lower_def upper_def min_edge_def max_edge_def edge_before(2) [OF f(1) that])
  show "flags_ok (copy_max_to_min b a) \<and> range_of rank (copy_max_to_min b a) = upper rank a - upper rank b" if "max_flag b AND NO_MAX_RANGE = 0"
    using assms(1) edge_after(1) [OF f(2) that] by (auto simp: copy_max_to_min_def flags_ok_def range_of_def lower_def upper_def min_edge_def max_edge_def edge_after(2) [OF f(2) that])
qed

lemma disjoint_ranges:
  assumes "max_edge rank a < min_edge rank b"
  shows "range_of rank a \<inter> range_of rank b = {}"
proof -
  have False if "At x 0 \<le> max_edge rank a" "min_edge rank b \<le> At x 0" for x using assms that by (meson less_le_trans leD order.trans)
  then show ?thesis by (auto simp: range_of_def lower_def upper_def)
qed

text \<open>How the optimizer cuts overlapping intervals apart: an interval that starts before another and reaches it is the part before and the part from the start of the other on.\<close>

lemma split_at_min:
  assumes "constructor_ok mk" "flags_ok a" "flags_ok b" "min_edge rank a < min_edge rank b" "min_edge rank b \<le> max_edge rank a"
  shows "range_of rank a = range_of rank (clone_first mk a b) \<union> range_of rank (copy_min_to_min b a)"
    "range_of rank (clone_first mk a b) \<inter> range_of rank (copy_min_to_min b a) = {}"
proof -
  have "\<And>x. min_edge rank b \<le> At x 0 \<Longrightarrow> min_edge rank a \<le> At x 0" "\<And>x. At x 0 < min_edge rank b \<Longrightarrow> At x 0 \<le> max_edge rank a" using assms(4,5) by order+
  then show "range_of rank a = range_of rank (clone_first mk a b) \<union> range_of rank (copy_min_to_min b a)"
    unfolding conjunct2 [OF clone_first_range [OF assms(1-4)]] conjunct2 [OF copy_edge_ranges(1) [OF assms(2,3)]]
    by (auto simp: range_of_def lower_def upper_def not_le)
  show "range_of rank (clone_first mk a b) \<inter> range_of rank (copy_min_to_min b a) = {}"
    unfolding conjunct2 [OF clone_first_range [OF assms(1-4)]] conjunct2 [OF copy_edge_ranges(1) [OF assms(2,3)]] by auto
qed

lemma invert_flags_inverse:
  assumes "f AND (NO_MAX_RANGE OR NEAR_MAX) = 0"
  shows "invert_max_flag (invert_min_flag f) = f"
proof -
  have "f AND NO_MAX_RANGE = 0" "f AND NEAR_MAX = 0" using assms by (simp_all add: and_or_0)
  then have z: "\<not> bit f 1" "\<not> bit f 3" using and_bit_nonzero [of f 1] and_bit_nonzero [of f 3] by (simp_all add: flag_values)
  have b: "f AND NEAR_MIN \<noteq> 0 \<longleftrightarrow> bit f 2" "f AND NO_MIN_RANGE \<noteq> 0 \<longleftrightarrow> bit f 0" for f :: uint using and_bit_nonzero [of f 2] and_bit_nonzero [of f 0] by (simp_all add: flag_values)
  have c: "f AND NEAR_MAX \<noteq> 0 \<longleftrightarrow> bit f 3" "f AND NO_MAX_RANGE \<noteq> 0 \<longleftrightarrow> bit f 1" for f :: uint using and_bit_nonzero [of f 3] and_bit_nonzero [of f 1] by (simp_all add: flag_values)
  have k: "bit (NO_MIN_RANGE :: uint) n \<longleftrightarrow> n = 0" "bit (NO_MAX_RANGE :: uint) n \<longleftrightarrow> n = 1" "bit (NEAR_MIN :: uint) n \<longleftrightarrow> n = 2" "bit (NEAR_MAX :: uint) n \<longleftrightarrow> n = 3" for n
    using bit_two_power [of 0 n, where ?'a = 32] bit_two_power [of 1 n, where ?'a = 32] bit_two_power [of 2 n, where ?'a = 32] bit_two_power [of 3 n, where ?'a = 32] by (auto simp: flag_values)
  show ?thesis
    unfolding invert_max_flag_def invert_min_flag_def Let_def b c
    by (rule bit_word_eqI) (use z in \<open>auto simp: bit_and_iff bit_or_iff bit_not_iff k intro: gr0I\<close>)
qed

text \<open>The nodes of an interval list.\<close>

fun next_list :: "graph \<Rightarrow> nat option \<Rightarrow> nat list \<Rightarrow> bool" where
  "next_list g p [] = (p = None)"
| "next_list g p (n # ns) = (p = Some n \<and> next_list g (s_next (g n)) ns)"

lemma same_loop_list: "next_list g p ms \<Longrightarrow> next_list g q ns \<Longrightarrow> same_loop cmp g p q = Some (list_all2 (\<lambda>m n. is_same cmp (g m) (g n)) ms ns)"
proof (induction ms arbitrary: p q ns)
  case Nil then show ?case by (subst same_loop.simps) (cases ns; auto)
next
  case (Cons m ms)
  show ?case
  proof (cases ns)
    case Nil then show ?thesis using Cons.prems by (subst same_loop.simps) auto
  next
    case (Cons n ns')
    then show ?thesis using Cons.prems Cons.IH [of "s_next (g m)" "s_next (g n)" ns'] by (subst same_loop.simps) simp
  qed
qed

text \<open>\<open>all_same\<close> ends on interval lists that end, and on two lists of one part compares them interval by interval.\<close>

lemma all_same_lists:
  assumes "sel_type (g a) = KEY_RANGE" "sel_type (g b) = KEY_RANGE" "part (g a) = part (g b)" "next_list g (Some (first_of a)) ms" "next_list g (Some (first_of b)) ns" "a \<noteq> b"
  shows "all_same cmp first_of g a b = Some (list_all2 (\<lambda>m n. is_same cmp (g m) (g n)) ms ns)"
  using same_loop_list [OF assms(4,5)] assms by (simp add: all_same_def)

section \<open>Properties\<close>

text \<open>C30: intervals as sets of values: \<open>clone_and\<close> is the intersection, \<open>copy_min\<close> and \<open>copy_max\<close> extend an interval to the lower start and the higher end and never report a full range, an
  interval that starts before another and reaches its start is cut by \<open>clone_first\<close> and \<open>copy_min_to_min\<close> into two disjoint parts, and an interval whose end compares below the start
  of another has no value in common with it.\<close>

theorem range_algebra:
  fixes rank :: "buffer \<Rightarrow> 'k::linorder"
  assumes cmp: "sel_cmp_ok rank cmp" and mk: "constructor_ok mk" and a: "flags_ok a" and b: "flags_ok b"
  shows "range_of rank (clone_and cmp mk a b) = range_of rank a \<inter> range_of rank b \<and>
    (case copy_min cmp b a of (full, c) \<Rightarrow> \<not> full \<and> range_of rank c = (lower rank a \<union> lower rank b) \<inter> upper rank a) \<and>
    (case copy_max cmp b a of (full, c) \<Rightarrow> \<not> full \<and> range_of rank c = lower rank a \<inter> (upper rank a \<union> upper rank b)) \<and>
    (cmp_min_to_min cmp a b < 0 \<and> cmp_max_to_min cmp a b \<ge> 0 \<longrightarrow>
      range_of rank a = range_of rank (clone_first mk a b) \<union> range_of rank (copy_min_to_min b a) \<and> range_of rank (clone_first mk a b) \<inter> range_of rank (copy_min_to_min b a) = {}) \<and>
    (cmp_max_to_min cmp a b < 0 \<longrightarrow> range_of rank a \<inter> range_of rank b = {})"
proof -
  note c = cmp_edges [OF cmp a b]
  have s: "cmp_max_to_min cmp a b \<ge> 0 \<longleftrightarrow> min_edge rank b \<le> max_edge rank a" using c(7) by (simp add: not_less [symmetric])
  obtain f1 c1 f2 c2 where r: "copy_min cmp b a = (f1, c1)" "copy_max cmp b a = (f2, c2)" by fastforce
  show ?thesis unfolding c(1,7) s r
    using clone_and_range [OF cmp mk a b] copy_min_range [OF cmp a b r(1)] copy_max_range [OF cmp a b r(2)] split_at_min [OF mk a b, of rank] disjoint_ranges [of rank a b]
    by simp
qed

section \<open>Examples\<close>

definition byte_rank :: "buffer \<Rightarrow> nat" where
  "byte_rank v = (case v of [] \<Rightarrow> 0 | b # _ \<Rightarrow> unat b)"

definition byte_cmp :: sel_cmp where
  "byte_cmp a b f g = (if edge byte_rank a f < edge byte_rank b g then - 1 else if edge byte_rank a f = edge byte_rank b g then 0 else 1)"

definition interval :: new_sel_arg where
  "interval p mn mx f g m = \<lparr>min_flag = f, max_flag = g, maybe_flag = m, part = p, maybe_null = False, min_value = mn, max_value = mx,
     s_next = None, s_prev = None, next_key_part = None, sel_type = KEY_RANGE\<rparr>"

lemma byte_cmp_ok: "sel_cmp_ok byte_rank byte_cmp"
  by (auto simp: sel_cmp_ok_def byte_cmp_def)

lemma interval_ok: "constructor_ok interval"
  by (simp add: constructor_ok_def interval_def)

theorem range_algebra_witness:
  "range_of byte_rank (clone_and byte_cmp interval (interval 0 [2] [7] 0 8 0) (interval 0 [5] [9] 4 0 0)) =
     range_of byte_rank (interval 0 [2] [7] 0 8 0) \<inter> range_of byte_rank (interval 0 [5] [9] 4 0 0)"
proof -
  have "flags_ok (interval 0 [2] [7] 0 8 0)" "flags_ok (interval 0 [5] [9] 4 0 0)" by (simp_all add: flags_ok_def min_flags_def max_flags_def interval_def flag_values)
  from range_algebra [OF byte_cmp_ok interval_ok this] show ?thesis by blast
qed

end
