(* ===== verification/Opt_Range_Keys.thy ===== *)
theory Opt_Range_Keys imports Opt_Range begin

unbundle bit_operations_syntax

text \<open>
  The keys that \<open>store_min_key\<close> and \<open>store_max_key\<close> build from a graph of intervals (\<open>private/opt_range.h\<close>), compared with the rows that satisfy the graph: for an index whose parts have one direction
  the start and end key enclose the rows; for parts of different directions they need not.
\<close>

section \<open>Rows of a graph\<close>

type_synonym 'k part_rank = "uint8 \<Rightarrow> buffer \<Rightarrow> 'k"

definition node_range :: "'k::linorder part_rank \<Rightarrow> SEL_ARG \<Rightarrow> 'k set" where
  "node_range rank a = range_of (rank (part a)) a"

text \<open>What the code relies on in a graph over an index: \<open>ivals\<close> are the intervals of a tree in order, and \<open>first\<close> and \<open>last\<close> find the outer ones; the intervals of one tree are of one part,
  not empty, apart from each other and in order; the values have as many bytes as the part stores.\<close>

definition node_ok :: "'k::linorder part_rank \<Rightarrow> KEY_PART list \<Rightarrow> SEL_ARG \<Rightarrow> bool" where
  "node_ok rank key a \<longleftrightarrow> flags_ok a \<and> node_range rank a \<noteq> {} \<and> unat (part a) < length key \<and> 0 < part_length key (part a) \<and>
     unat (part_length key (part a)) \<le> length (min_value a) \<and> unat (part_length key (part a)) \<le> length (max_value a)"

definition tree_ok :: "'k::linorder part_rank \<Rightarrow> KEY_PART list \<Rightarrow> (nat \<Rightarrow> nat list) \<Rightarrow> (nat \<Rightarrow> nat) \<Rightarrow> (nat \<Rightarrow> nat) \<Rightarrow> graph \<Rightarrow> nat \<Rightarrow> bool" where
  "tree_ok rank key ivals first_of last_of g root \<longleftrightarrow> ivals root \<noteq> [] \<and> first_of root = hd (ivals root) \<and> last_of root = last (ivals root) \<and>
     (\<forall>n \<in> set (ivals root). node_ok rank key (g n) \<and> part (g n) = part (g root)) \<and>
     sorted_wrt (\<lambda>m n. \<forall>x \<in> node_range rank (g m). \<forall>y \<in> node_range rank (g n). x < y) (ivals root)"

definition graph_ok :: "'k::linorder part_rank \<Rightarrow> KEY_PART list \<Rightarrow> (nat \<Rightarrow> nat list) \<Rightarrow> (nat \<Rightarrow> nat) \<Rightarrow> (nat \<Rightarrow> nat) \<Rightarrow> graph \<Rightarrow> bool" where
  "graph_ok rank key ivals first_of last_of g \<longleftrightarrow> (\<forall>root. sel_type (g root) = KEY_RANGE \<longrightarrow> tree_ok rank key ivals first_of last_of g root)"

text \<open>The rows that satisfy the condition of a graph, as the values of the parts from the part of the root on.\<close>

inductive sat :: "'k::linorder part_rank \<Rightarrow> (nat \<Rightarrow> nat list) \<Rightarrow> graph \<Rightarrow> nat \<Rightarrow> 'k list \<Rightarrow> bool" for rank ivals g where
  in_interval: "n \<in> set (ivals root) \<Longrightarrow> v \<in> node_range rank (g n) \<Longrightarrow>
     (\<And>m. next_key_part (g n) = Some m \<Longrightarrow> sel_type (g m) = KEY_RANGE \<Longrightarrow> unat (part (g m)) = unat (part (g n)) + 1 \<Longrightarrow> sat rank ivals g m vs) \<Longrightarrow>
     sat rank ivals g root (v # vs)"

text \<open>A row comes after a key, which may be shorter, in the order of the parts; \<open>strict\<close> leaves out the rows that begin with the key.\<close>

fun row_after :: "('k \<Rightarrow> 'k \<Rightarrow> bool) \<Rightarrow> 'k list \<Rightarrow> bool \<Rightarrow> 'k list \<Rightarrow> bool" where
  "row_after lt [] strict row = (\<not> strict)"
| "row_after lt (k # ks) strict [] = False"
| "row_after lt (k # ks) strict (v # vs) = (lt k v \<or> k = v \<and> row_after lt ks strict vs)"

definition room :: "KEY_PART list \<Rightarrow> nat \<Rightarrow> nat" where
  "room key p = (\<Sum>q \<leftarrow> drop p key. unat (store_length q))"

definition min_image :: "KEY_PART list \<Rightarrow> SEL_ARG \<Rightarrow> buffer" where
  "min_image key a = the (part_image (part_length key (part a)) (maybe_null a) (min_value a))"

definition max_image :: "KEY_PART list \<Rightarrow> SEL_ARG \<Rightarrow> buffer" where
  "max_image key a = the (part_image (part_length key (part a)) (maybe_null a) (max_value a))"

lemma room_step: "p < length key \<Longrightarrow> room key p = unat (store_length (key ! p)) + room key (p + 1)"
  by (simp add: room_def flip: Cons_nth_drop_Suc)

lemma unat_part_length: "unat (part_length key p) = unat (store_length (key ! unat p))"
proof -
  have "unat (store_length (key ! unat p)) < 2 ^ 16" using unat_less_length [of "store_length (key ! unat p)"] by simp
  then show ?thesis by (simp add: part_length_def unat_ucast_mod)
qed

lemma memcpy_append:
  assumes "p + length d + length e \<le> length mem"
  shows "memcpy (memcpy mem p d) (p + length d) e = memcpy mem p (d @ e)"
  using assms by (simp add: memcpy_def ac_simps)

lemma part_image_ok:
  assumes "0 < len" "unat len \<le> length v"
  shows "\<exists>d. part_image len null v = Some d \<and> length d = unat len"
proof -
  have "unat (len - 1) = unat len - 1" using assms(1) by (simp add: unat_minus_one word_neq_0_conv)
  moreover have "0 < unat len" "0 < length v" using assms by (auto simp: word_less_nat_alt)
  ultimately show ?thesis using assms(2) by (auto simp: part_image_def byte_at_def)
qed

lemma store_part_ok:
  assumes "0 < len" "unat len \<le> length v" "place k + unat len \<le> length (area k)"
  shows "\<exists>d. part_image len null v = Some d \<and> length d = unat len \<and> store_part len null v k = Some (k\<lparr>area := memcpy (area k) (place k) d, place := place k + unat len\<rparr>)"
proof -
  obtain d where d: "part_image len null v = Some d" "length d = unat len" using part_image_ok [OF assms(1,2)] by blast
  then show ?thesis using assms(3) by (auto simp: store_part_def put_def)
qed

definition written :: "buffer \<Rightarrow> key_area \<Rightarrow> key_area" where
  "written d k = k\<lparr>area := memcpy (area k) (place k) d, place := place k + length d\<rparr>"

lemma written_append: "place k + length d + length e \<le> length (area k) \<Longrightarrow> written e (written d k) = written (d @ e) k"
  by (simp add: written_def memcpy_append)

lemma written_Nil [simp]: "written [] k = k"
  by (simp add: written_def)

lemma length_area_written: "place k + length d \<le> length (area k) \<Longrightarrow> length (area (written d k)) = length (area k) \<and> place (written d k) = place k + length d"
  by (simp add: written_def)

lemma near_of_edge: "min_flags f \<Longrightarrow> f AND NO_MIN_RANGE = 0 \<Longrightarrow> edge rank v f \<le> At x 0 \<longleftrightarrow> rank v < x \<or> rank v = x \<and> f AND NEAR_MIN = 0"
  "max_flags f \<Longrightarrow> f AND NO_MAX_RANGE = 0 \<Longrightarrow> At x 0 \<le> edge rank v f \<longleftrightarrow> x < rank v \<or> x = rank v \<and> f AND NEAR_MAX = 0"
  by (auto simp: edge_def min_flags_def max_flags_def and_or_0)

lemma first_lower:
  assumes tree: "tree_ok rank key ivals first_of last_of g root" and n: "n \<in> set (ivals root)" and v: "v \<in> node_range rank (g n)"
    and t: "t = g (first_of root)" "min_flag t AND NO_MIN_RANGE = 0"
  shows "rank (part t) (min_value t) < v \<or> rank (part t) (min_value t) = v \<and> n = first_of root \<and> min_flag t AND NEAR_MIN = 0"
proof -
  obtain ns where i: "ivals root = first_of root # ns" using tree by (cases "ivals root") (auto simp: tree_ok_def)
  have ok: "node_ok rank key t" using tree i t(1) by (simp add: tree_ok_def)
  have b: "rank (part t) (min_value t) < x \<or> rank (part t) (min_value t) = x \<and> min_flag t AND NEAR_MIN = 0" if "x \<in> node_range rank t" for x
    using near_of_edge(1) [of "min_flag t" "rank (part t)" "min_value t" x] that ok t(2) by (auto simp: node_ok_def flags_ok_def node_range_def range_of_def lower_def min_edge_def)
  show ?thesis
  proof (cases "n = first_of root")
    case True
    then show ?thesis using b v t(1) by simp
  next
    case False
    obtain x where x: "x \<in> node_range rank t" using ok by (auto simp: node_ok_def)
    have "x < v" using tree n v x False t(1) i by (auto simp: tree_ok_def)
    then show ?thesis using b [OF x] by auto
  qed
qed

lemma last_upper:
  assumes tree: "tree_ok rank key ivals first_of last_of g root" and n: "n \<in> set (ivals root)" and v: "v \<in> node_range rank (g n)"
    and t: "t = g (last_of root)" "max_flag t AND NO_MAX_RANGE = 0"
  shows "v < rank (part t) (max_value t) \<or> v = rank (part t) (max_value t) \<and> n = last_of root \<and> max_flag t AND NEAR_MAX = 0"
proof -
  obtain ns where i: "ivals root = ns @ [last_of root]" using tree append_butlast_last_id by (metis tree_ok_def)
  have ok: "node_ok rank key t" using tree i t(1) by (simp add: tree_ok_def)
  have b: "x < rank (part t) (max_value t) \<or> x = rank (part t) (max_value t) \<and> max_flag t AND NEAR_MAX = 0" if "x \<in> node_range rank t" for x
    using near_of_edge(2) [of "max_flag t" x "rank (part t)" "max_value t"] that ok t(2) by (auto simp: node_ok_def flags_ok_def node_range_def range_of_def upper_def max_edge_def)
  show ?thesis
  proof (cases "n = last_of root")
    case True
    then show ?thesis using b v t(1) by simp
  next
    case False
    obtain x where x: "x \<in> node_range rank t" using ok by (auto simp: node_ok_def)
    have "v < x" using tree n v x False t(1) i by (auto simp: tree_ok_def sorted_wrt_append)
    then show ?thesis using b [OF x] by auto
  qed
qed

text \<open>What a key built from a tree promises: the bytes of the parts stored, and a bound for every row.\<close>

definition bounds_rows :: "('k \<Rightarrow> 'k \<Rightarrow> bool) \<Rightarrow> 'k::linorder part_rank \<Rightarrow> (nat \<Rightarrow> nat list) \<Rightarrow> graph \<Rightarrow> nat \<Rightarrow> 'k list \<Rightarrow> bool \<Rightarrow> bool" where
  "bounds_rows lt rank ivals g root ks strict \<longleftrightarrow> (\<forall>row. sat rank ivals g root row \<longrightarrow> row_after lt ks strict row)"

lemma bounds_rows_step:
  assumes first: "\<And>n v. n \<in> set (ivals root) \<Longrightarrow> v \<in> node_range rank (g n) \<Longrightarrow> lt m v \<or> m = v \<and> n = f \<and> \<not> near"
    and rest: "\<not> near \<Longrightarrow> ks = [] \<and> \<not> strict \<or>
      (\<exists>nkp. next_key_part (g f) = Some nkp \<and> sel_type (g nkp) = KEY_RANGE \<and> unat (part (g nkp)) = unat (part (g f)) + 1 \<and> bounds_rows lt rank ivals g nkp ks strict)"
  shows "bounds_rows lt rank ivals g root (m # ks) strict"
  unfolding bounds_rows_def
proof (intro allI impI)
  fix row assume "sat rank ivals g root row"
  then show "row_after lt (m # ks) strict row"
  proof (cases rule: sat.cases)
    case (in_interval n v vs)
    from first [OF in_interval(2,3)] show ?thesis
    proof
      assume f: "m = v \<and> n = f \<and> \<not> near"
      then have "ks = [] \<and> \<not> strict \<or> row_after lt ks strict vs" using rest in_interval(4) unfolding bounds_rows_def by blast
      then show ?thesis using f in_interval(1) by auto
    qed (simp add: in_interval(1))
  qed
qed

lemma ucast_flag_0: "ucast (f :: uint8) AND (NEAR_MIN :: uint) = 0 \<longleftrightarrow> f AND NEAR_MIN = 0" "ucast f AND (NO_MIN_RANGE :: uint) = 0 \<longleftrightarrow> f AND NO_MIN_RANGE = 0"
  "ucast f AND (NEAR_MAX :: uint) = 0 \<longleftrightarrow> f AND NEAR_MAX = 0" "ucast f AND (NO_MAX_RANGE :: uint) = 0 \<longleftrightarrow> f AND NO_MAX_RANGE = 0"
proof -
  have "ucast f AND (2 ^ k :: uint) = 0 \<longleftrightarrow> f AND 2 ^ k = 0" if "k < 8" for k :: nat
    using and_bit_nonzero [of f k] and_bit_nonzero [of "ucast f :: uint" k] that by (auto simp: bits_simps)
  from this [of 0] this [of 1] this [of 2] this [of 3]
  show "ucast f AND (NEAR_MIN :: uint) = 0 \<longleftrightarrow> f AND NEAR_MIN = 0" "ucast f AND (NO_MIN_RANGE :: uint) = 0 \<longleftrightarrow> f AND NO_MIN_RANGE = 0"
    "ucast f AND (NEAR_MAX :: uint) = 0 \<longleftrightarrow> f AND NEAR_MAX = 0" "ucast f AND (NO_MAX_RANGE :: uint) = 0 \<longleftrightarrow> f AND NO_MAX_RANGE = 0"
    by (simp_all add: flag_values)
qed

lemma or_flag_0: "((a :: 'a::len word) OR b) AND c = 0 \<longleftrightarrow> a AND c = 0 \<and> b AND c = 0"
  by (metis and.commute and_or_0)

lemma store_min_ok:
  assumes "node_ok rank key t" "flag AND (NO_MIN_RANGE OR NEAR_MIN) = 0" "place k + unat (part_length key (part t)) \<le> length (area k)"
  shows "store_min (part_length key (part t)) flag t k = Some (if min_flag t AND NO_MIN_RANGE = 0 then (1, written (min_image key t) k) else (0, k))"
    "length (min_image key t) = unat (part_length key (part t))"
proof -
  have l: "0 < part_length key (part t)" "unat (part_length key (part t)) \<le> length (min_value t)" using assms(1) by (auto simp: node_ok_def)
  have g: "min_flag t AND GEOM_FLAG = 0" using assms(1) by (simp add: node_ok_def flags_ok_def min_flags_def and_or_0)
  from store_part_ok [OF l assms(3), of "maybe_null t"] show "length (min_image key t) = unat (part_length key (part t))"
    "store_min (part_length key (part t)) flag t k = Some (if min_flag t AND NO_MIN_RANGE = 0 then (1, written (min_image key t) k) else (0, k))"
    using g assms(2) by (auto simp: store_min_def min_image_def written_def)
qed

lemma store_max_ok:
  assumes "node_ok rank key t" "flag AND (NO_MAX_RANGE OR NEAR_MAX) = 0" "place k + unat (part_length key (part t)) \<le> length (area k)"
  shows "store_max (part_length key (part t)) flag t k = Some (if max_flag t AND NO_MAX_RANGE = 0 then (1, written (max_image key t) k) else (0, k))"
    "length (max_image key t) = unat (part_length key (part t))"
proof -
  have l: "0 < part_length key (part t)" "unat (part_length key (part t)) \<le> length (max_value t)" using assms(1) by (auto simp: node_ok_def)
  from store_part_ok [OF l assms(3), of "maybe_null t"] show "length (max_image key t) = unat (part_length key (part t))"
    "store_max (part_length key (part t)) flag t k = Some (if max_flag t AND NO_MAX_RANGE = 0 then (1, written (max_image key t) k) else (0, k))"
    using assms(2) by (auto simp: store_max_def max_image_def written_def)
qed

lemma next_partD: "next_part g last_part t = Some n \<Longrightarrow> next_key_part t = Some n \<and> sel_type (g n) = KEY_RANGE \<and> unat (part (g n)) = unat (part t) + 1"
  by (auto simp: next_part_def split: option.splits if_splits)

text \<open>\<open>key_result\<close> is what both functions promise: the nodes whose parts are stored, the bytes, and the bound.\<close>

definition key_result :: "('k \<Rightarrow> 'k \<Rightarrow> bool) \<Rightarrow> 'k::linorder part_rank \<Rightarrow> (nat \<Rightarrow> nat list) \<Rightarrow> graph \<Rightarrow> KEY_PART list \<Rightarrow> (KEY_PART list \<Rightarrow> SEL_ARG \<Rightarrow> buffer) \<Rightarrow> (SEL_ARG \<Rightarrow> buffer) \<Rightarrow> uint \<Rightarrow>
    nat \<Rightarrow> key_area \<Rightarrow> (uint \<times> uint \<times> key_area) option \<Rightarrow> nat list \<Rightarrow> bool" where
  "key_result lt rank ivals g key img val near root k r ps \<longleftrightarrow>
     (\<exists>flag. r = Some (of_nat (length ps), flag, written (concat (map (\<lambda>n. img key (g n)) ps)) k) \<and>
       length (concat (map (\<lambda>n. img key (g n)) ps)) \<le> room key (unat (part (g root))) \<and>
       bounds_rows lt rank ivals g root (map (\<lambda>n. rank (part (g n)) (val (g n))) ps) (flag AND near \<noteq> 0))"

lemma key_result_Cons:
  assumes r: "key_result lt rank ivals g key img val near nkp (written (img key (g f)) k) (Some (n, flag, k')) ps"
    and nkp: "next_key_part (g f) = Some nkp" "sel_type (g nkp) = KEY_RANGE" "unat (part (g nkp)) = unat (part (g f)) + 1"
    and f: "part (g f) = part (g root)" "unat (part (g f)) < length key" "length (img key (g f)) = unat (part_length key (part (g f)))"
    and fits: "place k + room key (unat (part (g root))) \<le> length (area k)"
    and first: "\<And>n v. n \<in> set (ivals root) \<Longrightarrow> v \<in> node_range rank (g n) \<Longrightarrow> lt (rank (part (g f)) (val (g f))) v \<or> rank (part (g f)) (val (g f)) = v \<and> n = f \<and> \<not> False"
  shows "key_result lt rank ivals g key img val near root k (Some (1 + n, flag, k')) (f # ps)"
proof -
  let ?ds = "concat (map (\<lambda>n. img key (g n)) ps)"
  have d: "n = of_nat (length ps)" "k' = written ?ds (written (img key (g f)) k)" "length ?ds \<le> room key (unat (part (g nkp)))"
    and b: "bounds_rows lt rank ivals g nkp (map (\<lambda>n. rank (part (g n)) (val (g n))) ps) (flag AND near \<noteq> 0)"
    using r by (auto simp: key_result_def)
  have rm: "room key (unat (part (g root))) = length (img key (g f)) + room key (unat (part (g nkp)))"
    using room_step [OF f(2)] f(1,3) nkp(3) by (simp add: unat_part_length)
  have "k' = written (img key (g f) @ ?ds) k" unfolding d(2) by (rule written_append) (use d(3) rm fits in simp)
  moreover have "bounds_rows lt rank ivals g root (rank (part (g f)) (val (g f)) # map (\<lambda>n. rank (part (g n)) (val (g n))) ps) (flag AND near \<noteq> 0)"
    by (rule bounds_rows_step [of ivals root rank g lt _ f False, OF first]) (use nkp b in auto)
  ultimately show ?thesis using d rm by (simp add: key_result_def)
qed

lemma key_result_None: "bounds_rows lt rank ivals g root [] False \<Longrightarrow> flag AND near = 0 \<Longrightarrow> key_result lt rank ivals g key img val near root k (Some (0, flag, k)) []"
  by (simp add: key_result_def)

lemma bounds_nothing: "bounds_rows lt rank ivals g root [] False"
  by (simp add: bounds_rows_def)

lemma key_result_one:
  assumes "part (g f) = part (g root)" "unat (part (g f)) < length key" "length (img key (g f)) = unat (part_length key (part (g f)))"
    and first: "\<And>n v. n \<in> set (ivals root) \<Longrightarrow> v \<in> node_range rank (g n) \<Longrightarrow> lt (rank (part (g f)) (val (g f))) v \<or> rank (part (g f)) (val (g f)) = v \<and> n = f \<and> \<not> (flag AND near \<noteq> 0)"
  shows "key_result lt rank ivals g key img val near root k (Some (1, flag, written (img key (g f)) k)) [f]"
proof -
  have "bounds_rows lt rank ivals g root [rank (part (g f)) (val (g f))] (flag AND near \<noteq> 0)"
    by (rule bounds_rows_step [of ivals root rank g lt _ f "flag AND near \<noteq> 0", OF first]) auto
  moreover have "length (img key (g f)) \<le> room key (unat (part (g root)))"
    using room_step [OF assms(2)] assms(1,3) by (simp add: unat_part_length)
  ultimately show ?thesis by (simp add: key_result_def)
qed

lemma graph_node:
  assumes "graph_ok rank key ivals first_of last_of g" "sel_type (g root) = KEY_RANGE"
  shows "tree_ok rank key ivals first_of last_of g root" "node_ok rank key (g (first_of root))" "part (g (first_of root)) = part (g root)"
    "node_ok rank key (g (last_of root))" "part (g (last_of root)) = part (g root)"
proof -
  show t: "tree_ok rank key ivals first_of last_of g root" using assms by (simp add: graph_ok_def)
  then have "first_of root \<in> set (ivals root)" "last_of root \<in> set (ivals root)" by (auto simp: tree_ok_def)
  then show "node_ok rank key (g (first_of root))" "part (g (first_of root)) = part (g root)" "node_ok rank key (g (last_of root))" "part (g (last_of root)) = part (g root)"
    using t by (auto simp: tree_ok_def)
qed

lemma key_step:
  assumes f: "part (g f) = part (g root)" "unat (part (g f)) < length key" "length (img key (g f)) = unat (part_length key (part (g f)))"
    and fits: "place k + room key (unat (part (g root))) \<le> length (area k)"
    and first: "\<And>n v. n \<in> set (ivals root) \<Longrightarrow> v \<in> node_range rank (g n) \<Longrightarrow> lt (rank (part (g f)) (val (g f))) v \<or> rank (part (g f)) (val (g f)) = v \<and> n = f \<and> flag1 AND near = 0"
    and k1: "k1 = written (img key (g f)) k"
    and ih: "\<And>nkp. next_part g last_part (g f) = Some nkp \<Longrightarrow> flag1 AND near = 0 \<Longrightarrow> place k1 + room key (unat (part (g nkp))) \<le> length (area k1) \<Longrightarrow>
      \<exists>ps. key_result lt rank ivals g key img val near nkp k1 (rec nkp) ps"
  shows "\<exists>ps. key_result lt rank ivals g key img val near root k
    (case next_part g last_part (g f) of None \<Rightarrow> Some (1, flag1, k1)
     | Some nkp \<Rightarrow> if flag1 AND near \<noteq> 0 then Some (1, flag1, k1) else rec nkp \<bind> (\<lambda>(n, flag2, k2). Some (1 + n, flag2, k2))) ps" (is "\<exists>ps. ?res ps")
proof -
  have stop: "key_result lt rank ivals g key img val near root k (Some (1, flag1, k1)) [f]" unfolding k1 by (rule key_result_one) (use f first in auto)
  show ?thesis
  proof (cases "flag1 AND near = 0 \<and> next_part g last_part (g f) \<noteq> None")
    case False
    then show ?thesis using stop by (auto split: option.splits)
  next
    case True
    then obtain nkp where nkp: "next_part g last_part (g f) = Some nkp" by auto
    note nk = next_partD [OF nkp]
    have "room key (unat (part (g root))) = length (img key (g f)) + room key (unat (part (g nkp)))" using room_step [OF f(2)] f(1,3) nk by (simp add: unat_part_length)
    then have "place k1 + room key (unat (part (g nkp))) \<le> length (area k1)" using fits length_area_written [of k "img key (g f)"] by (simp add: k1)
    from ih [OF nkp _ this] True obtain ps where "key_result lt rank ivals g key img val near nkp k1 (rec nkp) ps" by blast
    then obtain n f2 k2 where r: "rec nkp = Some (n, f2, k2)" "key_result lt rank ivals g key img val near nkp k1 (Some (n, f2, k2)) ps" by (auto simp: key_result_def)
    have "key_result lt rank ivals g key img val near root k (Some (1 + n, f2, k2)) (f # ps)"
      by (rule key_result_Cons [where nkp = nkp]) (use r(2) nk f fits first k1 True in auto)
    then show ?thesis using nkp r(1) True by auto
  qed
qed

lemma store_min_key_ok:
  assumes graph: "graph_ok rank key ivals first_of last_of g" and one: "\<forall>p. unat p < length key \<longrightarrow> reverse_part key p \<noteq> start_key"
  shows "sel_type (g root) = KEY_RANGE \<Longrightarrow> flag AND (NO_MIN_RANGE OR NEAR_MIN) = 0 \<Longrightarrow> 256 - unat (part (g root)) \<le> fuel \<Longrightarrow>
    place k + room key (unat (part (g root))) \<le> length (area k) \<Longrightarrow>
    \<exists>ps. key_result (<) rank ivals g key min_image min_value NEAR_MIN root k (store_min_key fuel first_of last_of g key last_part start_key root flag k) ps"
proof (induction fuel arbitrary: root flag k)
  case 0
  have "unat (part (g root)) < 256" using unat_less_length [of "part (g root)"] by simp
  then show ?case using 0 by simp
next
  case (Suc fuel)
  define f where "f = first_of root"
  note node = graph_node [OF graph Suc.prems(1)]
  have t: "node_ok rank key (g f)" "part (g f) = part (g root)" using node f_def by simp_all
  then have p: "unat (part (g f)) < length key" by (simp add: node_ok_def)
  have pl: "place k + unat (part_length key (part (g f))) \<le> length (area k)" using room_step [OF p] t(2) Suc.prems(4) by (simp add: unat_part_length)
  note st = store_min_ok [OF t(1) Suc.prems(2) pl]
  show ?case
  proof (cases "min_flag (g f) AND NO_MIN_RANGE = 0")
    case False
    then have "store_min_key (Suc fuel) first_of last_of g key last_part start_key root flag k = Some (0, flag, k)" using st(1) by (simp add: f_def)
    moreover have "flag AND NEAR_MIN = 0" using Suc.prems(2) by (simp add: and_or_0)
    ultimately show ?thesis using key_result_None [OF bounds_nothing] by fastforce
  next
    case True
    let ?flag = "flag OR ucast (min_flag (g f))" and ?k = "written (min_image key (g f)) k"
    have fl: "?flag AND NO_MIN_RANGE = 0" "?flag AND NEAR_MIN = 0 \<longleftrightarrow> min_flag (g f) AND NEAR_MIN = 0"
      using True Suc.prems(2) by (simp_all add: or_flag_0 ucast_flag_0 and_or_0)
    have z: "?flag AND (NO_MIN_RANGE OR NEAR_MIN) = ?flag AND NEAR_MIN" using fl(1) by (simp add: bit.conj_disj_distrib)
    have eq: "store_min_key (Suc fuel) first_of last_of g key last_part start_key root flag k =
      (case next_part g last_part (g f) of None \<Rightarrow> Some (1, ?flag, ?k)
       | Some nkp \<Rightarrow> if ?flag AND NEAR_MIN \<noteq> 0 then Some (1, ?flag, ?k)
         else store_min_key fuel first_of last_of g key last_part start_key nkp ?flag ?k \<bind> (\<lambda>(n, flag2, k2). Some (1 + n, flag2, k2)))"
      using st(1) True one p z by (auto simp: f_def [symmetric] Let_def split: option.splits)
    have lw: "rank (part (g f)) (min_value (g f)) < v \<or> rank (part (g f)) (min_value (g f)) = v \<and> n = f \<and> min_flag (g f) AND NEAR_MIN = 0"
      if "n \<in> set (ivals root)" "v \<in> node_range rank (g n)" for n v using first_lower [OF node(1) that, of "g f"] True f_def by auto
    have ih: "\<exists>ps. key_result (<) rank ivals g key min_image min_value NEAR_MIN nkp ?k (store_min_key fuel first_of last_of g key last_part start_key nkp ?flag ?k) ps"
      if "next_part g last_part (g f) = Some nkp" "?flag AND NEAR_MIN = 0" "place ?k + room key (unat (part (g nkp))) \<le> length (area ?k)" for nkp
      by (rule Suc.IH) (use next_partD [OF that(1)] that z Suc.prems(3) t(2) in auto)
    show ?thesis unfolding eq by (rule key_step) (use t(2) p st(2) Suc.prems(4) fl lw ih in auto)
  qed
qed

lemma store_max_key_ok:
  assumes graph: "graph_ok rank key ivals first_of last_of g" and one: "\<forall>p. unat p < length key \<longrightarrow> reverse_part key p = start_key"
  shows "sel_type (g root) = KEY_RANGE \<Longrightarrow> flag AND (NO_MAX_RANGE OR NEAR_MAX) = 0 \<Longrightarrow> 256 - unat (part (g root)) \<le> fuel \<Longrightarrow>
    place k + room key (unat (part (g root))) \<le> length (area k) \<Longrightarrow>
    \<exists>ps. key_result (>) rank ivals g key max_image max_value NEAR_MAX root k (store_max_key fuel first_of last_of g key last_part start_key root flag k) ps"
proof (induction fuel arbitrary: root flag k)
  case 0
  have "unat (part (g root)) < 256" using unat_less_length [of "part (g root)"] by simp
  then show ?case using 0 by simp
next
  case (Suc fuel)
  define f where "f = last_of root"
  note node = graph_node [OF graph Suc.prems(1)]
  have t: "node_ok rank key (g f)" "part (g f) = part (g root)" using node f_def by simp_all
  then have p: "unat (part (g f)) < length key" by (simp add: node_ok_def)
  have pl: "place k + unat (part_length key (part (g f))) \<le> length (area k)" using room_step [OF p] t(2) Suc.prems(4) by (simp add: unat_part_length)
  note st = store_max_ok [OF t(1) Suc.prems(2) pl]
  show ?case
  proof (cases "max_flag (g f) AND NO_MAX_RANGE = 0")
    case False
    then have "store_max_key (Suc fuel) first_of last_of g key last_part start_key root flag k = Some (0, flag, k)" using st(1) by (simp add: f_def)
    moreover have "flag AND NEAR_MAX = 0" using Suc.prems(2) by (simp add: and_or_0)
    ultimately show ?thesis using key_result_None [OF bounds_nothing] by fastforce
  next
    case True
    let ?flag = "flag OR ucast (max_flag (g f))" and ?k = "written (max_image key (g f)) k"
    have fl: "?flag AND NO_MAX_RANGE = 0" "?flag AND NEAR_MAX = 0 \<longleftrightarrow> max_flag (g f) AND NEAR_MAX = 0"
      using True Suc.prems(2) by (simp_all add: or_flag_0 ucast_flag_0 and_or_0)
    have z: "?flag AND (NO_MAX_RANGE OR NEAR_MAX) = ?flag AND NEAR_MAX" using fl(1) by (simp add: bit.conj_disj_distrib)
    have eq: "store_max_key (Suc fuel) first_of last_of g key last_part start_key root flag k =
      (case next_part g last_part (g f) of None \<Rightarrow> Some (1, ?flag, ?k)
       | Some nkp \<Rightarrow> if ?flag AND NEAR_MAX \<noteq> 0 then Some (1, ?flag, ?k)
         else store_max_key fuel first_of last_of g key last_part start_key nkp ?flag ?k \<bind> (\<lambda>(n, flag2, k2). Some (1 + n, flag2, k2)))"
      using st(1) True one p z by (auto simp: f_def [symmetric] Let_def split: option.splits)
    have lw: "rank (part (g f)) (max_value (g f)) > v \<or> rank (part (g f)) (max_value (g f)) = v \<and> n = f \<and> max_flag (g f) AND NEAR_MAX = 0"
      if "n \<in> set (ivals root)" "v \<in> node_range rank (g n)" for n v using last_upper [OF node(1) that, of "g f"] True f_def by auto
    have ih: "\<exists>ps. key_result (>) rank ivals g key max_image max_value NEAR_MAX nkp ?k (store_max_key fuel first_of last_of g key last_part start_key nkp ?flag ?k) ps"
      if "next_part g last_part (g f) = Some nkp" "?flag AND NEAR_MAX = 0" "place ?k + room key (unat (part (g nkp))) \<le> length (area ?k)" for nkp
      by (rule Suc.IH) (use next_partD [OF that(1)] that z Suc.prems(3) t(2) in auto)
    show ?thesis unfolding eq by (rule key_step) (use t(2) p st(2) Suc.prems(4) fl lw ih in auto)
  qed
qed

section \<open>Properties\<close>

definition index_lt :: "bool \<Rightarrow> 'k::linorder \<Rightarrow> 'k \<Rightarrow> bool" where
  "index_lt desc = (if desc then (>) else (<))"

text \<open>C10: keys for an index whose parts all have the same direction: the start key and the end key are built, within the space of the parts and after at most as many calls as there are part numbers, from the
  bytes of the outer intervals, and in the order of the index every row of the graph comes after the start key and before the end key, strictly so when the key carries the mark of an open end.\<close>

theorem range_keys_bound_rows:
  assumes graph: "graph_ok rank key ivals first_of last_of g" and root: "sel_type (g root) = KEY_RANGE" and one: "\<forall>p. unat p < length key \<longrightarrow> reverse_part key p = desc"
    and fits: "place k + room key (unat (part (g root))) \<le> length (area k)"
  shows "\<exists>ps qs.
    (if desc then key_result (index_lt desc) rank ivals g key max_image max_value NEAR_MAX root k (store_max_key 256 first_of last_of g key last_part True root 0 k) ps
     else key_result (index_lt desc) rank ivals g key min_image min_value NEAR_MIN root k (store_min_key 256 first_of last_of g key last_part True root 0 k) ps) \<and>
    (if desc then key_result (index_lt (\<not> desc)) rank ivals g key min_image min_value NEAR_MIN root k (store_min_key 256 first_of last_of g key last_part False root 0 k) qs
     else key_result (index_lt (\<not> desc)) rank ivals g key max_image max_value NEAR_MAX root k (store_max_key 256 first_of last_of g key last_part False root 0 k) qs)"
proof (cases desc)
  case True
  have "\<exists>ps. key_result (>) rank ivals g key max_image max_value NEAR_MAX root k (store_max_key 256 first_of last_of g key last_part True root 0 k) ps"
    "\<exists>ps. key_result (<) rank ivals g key min_image min_value NEAR_MIN root k (store_min_key 256 first_of last_of g key last_part False root 0 k) ps"
    by (rule store_max_key_ok [OF graph _ root] store_min_key_ok [OF graph _ root]; use one True fits in simp)+
  then show ?thesis using True by (simp add: index_lt_def)
next
  case False
  have "\<exists>ps. key_result (<) rank ivals g key min_image min_value NEAR_MIN root k (store_min_key 256 first_of last_of g key last_part True root 0 k) ps"
    "\<exists>ps. key_result (>) rank ivals g key max_image max_value NEAR_MAX root k (store_max_key 256 first_of last_of g key last_part False root 0 k) ps"
    by (rule store_max_key_ok [OF graph _ root] store_min_key_ok [OF graph _ root]; use one False fits in simp)+
  then show ?thesis using False by (simp add: index_lt_def)
qed

text \<open>C40: for an index with an ascending part followed by a descending one the start key takes the direction of the second part from the first: it ends with the minimum of the second part, although the
  row with the maximum, which satisfies the condition, comes before it in the index.\<close>

theorem mixed_directions_miss_rows:
  assumes graph: "graph_ok rank key ivals first_of last_of g" and root: "sel_type (g root) = KEY_RANGE" "ivals root = [f]" "ivals nkp = [s]"
    and links: "next_part g last_part (g f) = Some nkp" "next_key_part (g s) = None" and flags: "min_flag (g f) = 0" "min_flag (g s) = 0" "max_flag (g s) = 0"
    and dirs: "\<not> reverse_part key (part (g f))" "reverse_part key (part (g s))" and more: "rank (part (g s)) (min_value (g s)) < rank (part (g s)) (max_value (g s))"
    and fits: "place k + room key (unat (part (g root))) \<le> length (area k)"
  shows "\<exists>row. store_min_key (Suc (Suc fuel)) first_of last_of g key last_part True root 0 k = Some (2, 0, written (min_image key (g f) @ min_image key (g s)) k) \<and>
    sat rank ivals g root row \<and> row = [rank (part (g f)) (min_value (g f)), rank (part (g s)) (max_value (g s))] \<and>
    index_lt (reverse_part key (part (g s))) (row ! 1) (rank (part (g s)) (min_value (g s)))"
proof -
  note nk = next_partD [OF links(1)]
  note nf = graph_node [OF graph root(1)] and ns = graph_node [OF graph conjunct1 [OF conjunct2 [OF nk]]]
  have f: "first_of root = f" "first_of nkp = s" using nf(1) ns(1) root by (simp_all add: tree_ok_def)
  have ok: "node_ok rank key (g f)" "node_ok rank key (g s)" "part (g f) = part (g root)" "part (g s) = part (g nkp)" using nf ns f by simp_all
  have p: "unat (part (g f)) < length key" "unat (part (g f)) + 1 < length key" using ok nk by (auto simp: node_ok_def)
  have rm: "place k + unat (part_length key (part (g f))) + unat (part_length key (part (g s))) \<le> length (area k)"
    using fits room_step [OF p(1)] room_step [OF p(2)] ok(3,4) nk by (simp add: unat_part_length)
  let ?k1 = "written (min_image key (g f)) k" and ?k2 = "written (min_image key (g f) @ min_image key (g s)) k"
  have st: "store_min (part_length key (part (g f))) 0 (g f) k = Some (1, ?k1)" and l1: "length (min_image key (g f)) = unat (part_length key (part (g f)))"
    using store_min_ok [OF ok(1), of 0 k] rm flags by simp_all
  have "place ?k1 + unat (part_length key (part (g s))) \<le> length (area ?k1)" using length_area_written [of k "min_image key (g f)"] rm l1 by simp
  from store_min_ok [OF ok(2) _ this, of 0] have st2: "store_min (part_length key (part (g s))) 0 (g s) ?k1 = Some (1, ?k2)"
    using written_append [of k "min_image key (g f)" "min_image key (g s)"] rm l1 flags by simp
  have stop: "next_part g last_part (g s) = None" using links(2) by (simp add: next_part_def)
  have "store_min_key (Suc (Suc fuel)) first_of last_of g key last_part True root 0 k = Some (2, 0, ?k2)"
    using st st2 f flags links(1) dirs(1) stop by (simp add: Let_def)
  moreover have m1: "rank (part (g s)) (max_value (g s)) \<in> node_range rank (g s)"
    using more flags by (auto simp: node_range_def range_of_def lower_def upper_def min_edge_def max_edge_def edge_def)
  obtain x where "x \<in> node_range rank (g f)" using ok(1) by (auto simp: node_ok_def)
  then have "edge (rank (part (g f))) (min_value (g f)) 0 \<le> At x 0" "At x 0 \<le> max_edge (rank (part (g f))) (g f)" using flags(1) by (auto simp: node_range_def range_of_def lower_def upper_def min_edge_def)
  then have "At (rank (part (g f)) (min_value (g f))) 0 \<le> max_edge (rank (part (g f))) (g f)" by (rule_tac order.trans) (auto simp: edge_def)
  then have m0: "rank (part (g f)) (min_value (g f)) \<in> node_range rank (g f)"
    using flags(1) by (auto simp: node_range_def range_of_def lower_def upper_def min_edge_def edge_def)
  have sn: "sat rank ivals g nkp [rank (part (g s)) (max_value (g s))]" by (rule sat.in_interval [of s]) (use m1 root links(2) in simp_all)
  have "sat rank ivals g root [rank (part (g f)) (min_value (g f)), rank (part (g s)) (max_value (g s))]"
    by (rule sat.in_interval [of f]) (use m0 root nk sn in simp_all)
  ultimately show ?thesis using dirs(2) more by (simp add: index_lt_def)
qed

section \<open>Examples\<close>

text \<open>Two parts of one byte each: the first between 2 and 7, the second between 1 and 3; all trees have one interval.\<close>

definition graph0 :: graph where
  "graph0 n = (if n = 0 then (interval 0 [2] [7] 0 0 0)\<lparr>next_key_part := Some 5\<rparr> else if n = 5 then interval 1 [1] [3] 0 0 0 else (interval 0 [] [] 0 0 0)\<lparr>sel_type := MAYBE\<rparr>)"

definition key0 :: "bool \<Rightarrow> bool \<Rightarrow> KEY_PART list" where
  "key0 d e = [\<lparr>store_length = 1, kp_flag = (if d then 128 else 0)\<rparr>, \<lparr>store_length = 1, kp_flag = (if e then 128 else 0)\<rparr>]"

definition area0 :: key_area where
  "area0 = \<lparr>area = [0, 0, 0], place = 0\<rparr>"

lemma graph0_ok: "graph_ok (\<lambda>p. byte_rank) (key0 d e) (\<lambda>r. [r]) id id graph0"
proof -
  have "n = 0 \<or> n = 5" if "sel_type (graph0 n) = KEY_RANGE" for n using that by (simp add: graph0_def split: if_splits)
  moreover have "node_ok (\<lambda>p. byte_rank) (key0 d e) (graph0 n)" if "n = 0 \<or> n = 5" for n
  proof -
    have "3 \<in> node_range (\<lambda>p. byte_rank) (graph0 n)"
      using that by (auto simp: graph0_def interval_def node_range_def range_of_def lower_def upper_def min_edge_def max_edge_def edge_def byte_rank_def)
    then show ?thesis using that by (auto simp: node_ok_def flags_ok_def min_flags_def max_flags_def graph0_def interval_def part_length_def key0_def)
  qed
  ultimately show ?thesis by (simp add: graph_ok_def tree_ok_def)
qed

lemma key0_parts: "reverse_part (key0 d e) 0 = d" "reverse_part (key0 d e) 1 = e" "room (key0 d e) 0 = 2" "part (graph0 0) = 0" "part (graph0 5) = 1"
  by (simp_all add: reverse_part_def key0_def HA_REVERSE_SORT_def room_def graph0_def interval_def)

theorem range_keys_bound_rows_witness:
  "\<exists>ps. key_result (<) (\<lambda>p. byte_rank) (\<lambda>r. [r]) graph0 (key0 False False) min_image min_value NEAR_MIN 0 area0
     (store_min_key 256 id id graph0 (key0 False False) 64 True 0 0 area0) ps"
proof -
  have "\<forall>p. unat p < length (key0 False False) \<longrightarrow> reverse_part (key0 False False) p = False"
    by (auto simp: key0_def reverse_part_def less_Suc_eq numeral_2_eq_2)
  moreover have "sel_type (graph0 0) = KEY_RANGE" by (simp add: graph0_def interval_def)
  ultimately show ?thesis
    using range_keys_bound_rows [OF graph0_ok [of False False], where root = 0 and desc = False and k = area0 and last_part = 64]
    by (simp add: key0_parts area0_def index_lt_def)
qed

theorem mixed_directions_miss_rows_witness:
  "sat (\<lambda>p. byte_rank) (\<lambda>r. [r]) graph0 0 [2, 3] \<and> reverse_part (key0 False True) (part (graph0 5)) \<and> byte_rank (min_value (graph0 5)) = 1"
proof -
  have n: "sel_type (graph0 0) = KEY_RANGE" "[0] = [0 :: nat]" "[5] = [5 :: nat]" "next_part graph0 64 (graph0 0) = Some 5" "next_key_part (graph0 5) = None"
    "min_flag (graph0 0) = 0" "min_flag (graph0 5) = 0" "max_flag (graph0 5) = 0" by (simp_all add: next_part_def graph0_def interval_def)
  have v: "byte_rank (min_value (graph0 0)) = 2" "byte_rank (min_value (graph0 5)) = 1" "byte_rank (max_value (graph0 5)) = 3" by (simp_all add: graph0_def interval_def byte_rank_def)
  have "\<not> reverse_part (key0 False True) (part (graph0 0))" "reverse_part (key0 False True) (part (graph0 5))" "byte_rank (min_value (graph0 5)) < byte_rank (max_value (graph0 5))"
    "place area0 + room (key0 False True) (unat (part (graph0 0))) \<le> length (area area0)" unfolding v by (simp_all add: key0_parts area0_def)
  from mixed_directions_miss_rows [OF graph0_ok n this, of 0] show ?thesis unfolding v by (simp add: key0_parts)
qed

end
