(* ===== verification/Filesort_Buffer.thy ===== *)
theory Filesort_Buffer imports Byte_Order Memory begin

text \<open>
  \<open>private/filesort_utils.h\<close>, class \<open>Filesort_buffer\<close>: one area that holds the records of a sort from its start and pointers to them, eight bytes each, from its end backwards. \<open>m_rawmem\<close> is the
  contents of the area; pointers into it are offsets, also those stored in it. \<open>alloc_sort_buffer\<close> and \<open>sort_buffer\<close> are only declared in the header: \<open>fsb_shape\<close> says what the former sets up. An access
  outside the area is \<open>None\<close>. The assignment operator, which makes two objects share an area, is left out.
\<close>

section \<open>State\<close>

record Filesort_buffer =
  m_next_rec_ptr :: "nat option"
  m_rawmem :: "buffer option"
  m_record_pointers :: "nat option"
  m_sort_keys :: "nat option"
  m_num_records :: uint
  m_record_length :: uint
  m_sort_length :: uint
  m_size_in_bytes :: size_t
  m_idx :: longlong

definition fsb_init :: Filesort_buffer where
  "fsb_init = \<lparr>m_next_rec_ptr = None, m_rawmem = None, m_record_pointers = None, m_sort_keys = None, m_num_records = 0, m_record_length = 0, m_sort_length = 0, m_size_in_bytes = 0, m_idx = 0\<rparr>"

text \<open>The element \<open>i\<close> of an array of pointers at \<open>p\<close>.\<close>

definition elem :: "nat option \<Rightarrow> int \<Rightarrow> nat option" where
  "elem p i = do { a \<leftarrow> p; if 0 \<le> int a + 8 * i then Some (nat (int a + 8 * i)) else None }"

definition rd_ptr :: "buffer \<Rightarrow> nat option \<Rightarrow> int \<Rightarrow> ulonglong option" where
  "rd_ptr mem p i = do { a \<leftarrow> elem p i; if a + 8 \<le> length mem then Some (load64 mem a) else None }"

definition wr_ptr :: "buffer \<Rightarrow> nat option \<Rightarrow> int \<Rightarrow> ulonglong \<Rightarrow> buffer option" where
  "wr_ptr mem p i v = do { a \<leftarrow> elem p i; if a + 8 \<le> length mem then Some (store64 mem a v) else None }"

section \<open>Operations\<close>

definition get_sort_keys :: "Filesort_buffer \<Rightarrow> nat option option" where
  "get_sort_keys b = (if m_idx b = 0 then Some None else map_option Some (elem (m_record_pointers b) (1 - sint (m_idx b))))"

text \<open>The loop of \<open>reverse_record_pointers\<close>; it runs while \<open>ix\<close> is at most half of \<open>count\<close>.\<close>

partial_function (option) rev_loop :: "nat option \<Rightarrow> int \<Rightarrow> int \<Rightarrow> buffer \<Rightarrow> buffer option" where
  "rev_loop keys count ix mem =
     (if ix \<le> count div 2
      then do { tmp \<leftarrow> rd_ptr mem keys (count - ix);
                x \<leftarrow> rd_ptr mem keys ix;
                mem1 \<leftarrow> wr_ptr mem keys (count - ix) x;
                mem2 \<leftarrow> wr_ptr mem1 keys ix tmp;
                rev_loop keys count (ix + 1) mem2 }
      else Some mem)"

definition reverse_record_pointers :: "Filesort_buffer \<Rightarrow> Filesort_buffer option" where
  "reverse_record_pointers b =
     (if sint (m_idx b) < 2 then Some b
      else do { keys \<leftarrow> get_sort_keys b;
                mem \<leftarrow> m_rawmem b;
                mem1 \<leftarrow> rev_loop keys (sint (m_idx b - 1)) 0 mem;
                Some (b\<lparr>m_rawmem := Some mem1\<rparr>) })"

definition init_next_record_pointer :: "Filesort_buffer \<Rightarrow> Filesort_buffer" where
  "init_next_record_pointer b = b\<lparr>m_idx := 0, m_next_rec_ptr := map_option (\<lambda>_. 0) (m_rawmem b), m_sort_keys := None\<rparr>"

definition get_next_record_pointer :: "Filesort_buffer \<Rightarrow> (nat \<times> Filesort_buffer) option" where
  "get_next_record_pointer b =
     do { retval \<leftarrow> m_next_rec_ptr b;
          mem \<leftarrow> m_rawmem b;
          mem1 \<leftarrow> wr_ptr mem (m_record_pointers b) (- sint (m_idx b)) (of_nat retval);
          Some (retval, b\<lparr>m_rawmem := Some mem1, m_idx := m_idx b + 1, m_next_rec_ptr := Some (retval + unat (m_record_length b))\<rparr>) }"

partial_function (option) fill_pointers :: "Filesort_buffer \<Rightarrow> Filesort_buffer option" where
  "fill_pointers b = (if sint (m_idx b) < uint (m_num_records b) then do { (p, b1) \<leftarrow> get_next_record_pointer b; fill_pointers b1 } else Some b)"

definition init_record_pointers :: "Filesort_buffer \<Rightarrow> Filesort_buffer option" where
  "init_record_pointers b = do { b1 \<leftarrow> fill_pointers (init_next_record_pointer b); reverse_record_pointers b1 }"

definition space_used_for_data :: "Filesort_buffer \<Rightarrow> size_t" where
  "space_used_for_data b = (case m_next_rec_ptr b of None \<Rightarrow> 0 | Some p \<Rightarrow> of_nat p)"

definition spaceleft :: "Filesort_buffer \<Rightarrow> size_t" where
  "spaceleft b = (let spaceused = (case m_next_rec_ptr b of None \<Rightarrow> 0 | Some p \<Rightarrow> of_nat p) + m_idx b * 8 in m_size_in_bytes b - spaceused)"

definition isfull :: "Filesort_buffer \<Rightarrow> bool" where
  "isfull b = (if sint (m_idx b) < uint (m_num_records b) then False else spaceleft b < ucast (m_record_length b) + 8)"

definition adjust_next_record_pointer :: "uint \<Rightarrow> Filesort_buffer \<Rightarrow> Filesort_buffer option" where
  "adjust_next_record_pointer val b =
     do { p \<leftarrow> m_next_rec_ptr b; let d = unat (m_record_length b - val); if d \<le> p then Some (b\<lparr>m_next_rec_ptr := Some (p - d)\<rparr>) else None }"

definition sort_buffer_size :: "Filesort_buffer \<Rightarrow> size_t" where
  "sort_buffer_size b = m_size_in_bytes b"

definition is_allocated :: "Filesort_buffer \<Rightarrow> bool" where
  "is_allocated b \<longleftrightarrow> m_rawmem b \<noteq> None"

definition fsb_reset :: "Filesort_buffer \<Rightarrow> Filesort_buffer" where
  "fsb_reset b = b\<lparr>m_rawmem := None\<rparr>"

definition get_sorted_record :: "uint \<Rightarrow> Filesort_buffer \<Rightarrow> ulonglong option" where
  "get_sorted_record ix b = do { mem \<leftarrow> m_rawmem b; rd_ptr mem (m_sort_keys b) (uint ix) }"

definition get_raw_buf :: "Filesort_buffer \<Rightarrow> buffer option" where
  "get_raw_buf b = do { mem \<leftarrow> m_rawmem b; if unat (m_size_in_bytes b) \<le> length mem then Some (take (unat (m_size_in_bytes b)) mem) else None }"

definition set_sort_length :: "uint \<Rightarrow> Filesort_buffer \<Rightarrow> Filesort_buffer" where
  "set_sort_length val b = b\<lparr>m_sort_length := val\<rparr>"

text \<open>How the sort adds a record: at most the announced length is written at the pointer, then the pointer is adjusted to the length used.\<close>

definition add_record :: "buffer \<Rightarrow> Filesort_buffer \<Rightarrow> Filesort_buffer option" where
  "add_record r b =
     do { (p, b1) \<leftarrow> get_next_record_pointer b;
          mem \<leftarrow> m_rawmem b1;
          if p + length r \<le> length mem then adjust_next_record_pointer (of_nat (length r)) (b1\<lparr>m_rawmem := Some (memcpy mem p r)\<rparr>) else None }"

section \<open>Records in the buffer\<close>

definition offsets :: "buffer list \<Rightarrow> nat list" where
  "offsets rs = map (\<lambda>i. length (concat (take i rs))) [0..<length rs]"

text \<open>The buffer as \<open>alloc_sort_buffer\<close> leaves it: the pointer array starts in the last eight bytes, and there is space for the announced number of records.\<close>

definition fsb_shape :: "Filesort_buffer \<Rightarrow> buffer \<Rightarrow> bool" where
  "fsb_shape b mem \<longleftrightarrow> m_rawmem b = Some mem \<and> length mem = unat (m_size_in_bytes b) \<and> unat (m_size_in_bytes b) < 2 ^ 62 \<and> 8 \<le> unat (m_size_in_bytes b) \<and>
     m_record_pointers b = Some (unat (m_size_in_bytes b) - 8) \<and> unat (m_num_records b) * (unat (m_record_length b) + 8) \<le> unat (m_size_in_bytes b)"

definition key_array :: "Filesort_buffer \<Rightarrow> nat \<Rightarrow> buffer \<Rightarrow> ulonglong list" where
  "key_array b n mem = load_all 8 load64 mem (unat (m_size_in_bytes b) - 8 * n) n"

text \<open>The buffer holds \<open>rs\<close>, with the pointers \<open>ks\<close> in the array.\<close>

definition fsb_holds :: "Filesort_buffer \<Rightarrow> buffer list \<Rightarrow> nat list \<Rightarrow> bool" where
  "fsb_holds b rs ks \<longleftrightarrow> (\<exists>mem. fsb_shape b mem \<and> m_idx b = of_nat (length rs) \<and> m_next_rec_ptr b = Some (length (concat rs)) \<and>
     (\<forall>r \<in> set rs. length r \<le> unat (m_record_length b)) \<and> length (concat rs) + 8 * length rs \<le> length mem \<and>
     take (length (concat rs)) mem = concat rs \<and> key_array b (length rs) mem = map of_nat ks)"

lemma uint_int_unat: "uint (w :: 'a::len word) = int (unat w)"
  by simp

lemma sint_of_nat_small: "n < 2 ^ 63 \<Longrightarrow> sint (of_nat n :: longlong) = int n"
  using sint_word_of_int_small [of "int n", where 'a = 64] by simp

lemma elem_below: "8 * (n + 1) \<le> s \<Longrightarrow> elem (Some (s - 8)) (- int n) = Some (s - 8 * (n + 1))"
  by (auto simp: elem_def)

lemma elem_first: "1 \<le> n \<Longrightarrow> 8 * n \<le> s \<Longrightarrow> elem (Some (s - 8)) (1 - int n) = Some (s - 8 * n)"
  by (auto simp: elem_def)

lemma elem_nat [simp]: "elem (Some t) (int j) = Some (t + j * 8)"
  by (auto simp: elem_def nat_add_distrib nat_mult_distrib)

lemma wr_ptr_nat: "t + k * 8 + 8 \<le> length m \<Longrightarrow> wr_ptr m (Some t) (int k) v = Some (store64 m (t + k * 8) v)"
  by (simp add: wr_ptr_def)

lemma take_store64: "p \<le> a \<Longrightarrow> take p (store64 mem a v) = take p mem"
  by (rule nth_equalityI) (auto simp: m8.store_frame)

lemma load_all_cong:
  assumes "\<And>i. t \<le> i \<Longrightarrow> i < t + 8 * n \<Longrightarrow> m1 ! i = m2 ! i"
  shows "load_all 8 load64 m1 t n = load_all 8 load64 m2 t n"
proof -
  have "load64 m1 (t + i * 8) = load64 m2 (t + i * 8)" if "i < n" for i
  proof (rule m8.load_local)
    fix j assume "t + i * 8 \<le> j" "j < t + i * 8 + 8"
    then show "m1 ! j = m2 ! j" using assms [of j] that by simp
  qed
  then show ?thesis by (simp add: load_all_def)
qed

lemma nth_load_all: "j < n \<Longrightarrow> load_all 8 load64 mem t n ! j = load64 mem (t + j * 8)"
  by (simp add: load_all_def)

lemma load_all_store:
  assumes "t + 8 * n \<le> length mem" "j < n"
  shows "load_all 8 load64 (store64 mem (t + j * 8) v) t n = (load_all 8 load64 mem t n)[j := v]"
proof (rule nth_equalityI)
  fix i assume "i < length (load_all 8 load64 (store64 mem (t + j * 8) v) t n)"
  then have i: "i < n" by (simp add: load_all_def)
  have "load64 (store64 mem (t + j * 8) v) (t + i * 8) = (if i = j then v else load64 mem (t + i * 8))"
    using m8.load_store [of "t + j * 8" mem v] assms by (auto intro!: m8.load_store_other)
  then show "load_all 8 load64 (store64 mem (t + j * 8) v) t n ! i = (load_all 8 load64 mem t n)[j := v] ! i"
    using i assms(2) by (auto simp: nth_load_all nth_list_update load_all_def)
qed (simp add: load_all_def)

lemma offsets_snoc: "offsets (rs @ [r]) = offsets rs @ [length (concat rs)]"
  by (simp add: offsets_def)

lemma length_concat_le: "\<forall>r \<in> set rs. length r \<le> k \<Longrightarrow> length (concat rs) \<le> length rs * k"
  by (induction rs) auto

lemma fsb_holds_idx:
  assumes "fsb_holds b rs ks"
  shows "8 * length rs \<le> unat (m_size_in_bytes b)" "length rs < 2 ^ 59" "sint (m_idx b) = int (length rs)" "m_idx b = of_nat (length rs)"
proof -
  show l: "8 * length rs \<le> unat (m_size_in_bytes b)" "m_idx b = of_nat (length rs)" using assms by (auto simp: fsb_holds_def fsb_shape_def)
  then show m: "length rs < 2 ^ 59" using assms by (auto simp: fsb_holds_def fsb_shape_def)
  show "sint (m_idx b) = int (length rs)" unfolding l(2) by (rule sint_of_nat_small) (use m in simp)
qed

text \<open>While the buffer is not full there is space for one more record of the announced length and its pointer.\<close>

lemma not_full_room:
  assumes h: "fsb_holds b rs ks" and "\<not> isfull b"
  shows "length (concat rs) + unat (m_record_length b) + 8 * (length rs + 1) \<le> unat (m_size_in_bytes b)"
proof (cases "length rs < unat (m_num_records b)")
  case True
  let ?l = "unat (m_record_length b)" and ?n = "length rs"
  have "length (concat rs) \<le> ?n * ?l" using h length_concat_le by (auto simp: fsb_holds_def)
  then have "length (concat rs) + ?l + 8 * (?n + 1) \<le> (?n + 1) * (?l + 8)" by (simp add: algebra_simps)
  also have "\<dots> \<le> unat (m_num_records b) * (?l + 8)" using True by (intro mult_le_mono1) simp
  also have "\<dots> \<le> unat (m_size_in_bytes b)" using h by (auto simp: fsb_holds_def fsb_shape_def)
  finally show ?thesis .
next
  case False
  note i = fsb_holds_idx [OF h]
  let ?u = "length (concat rs) + 8 * length rs"
  have u: "?u \<le> unat (m_size_in_bytes b)" "unat (m_size_in_bytes b) < 2 ^ 62" using h by (auto simp: fsb_holds_def fsb_shape_def)
  have "\<not> sint (m_idx b) < uint (m_num_records b)" using False i(3) uint_int_unat by (metis of_nat_less_iff)
  then have "ucast (m_record_length b) + 8 \<le> spaceleft b" using assms(2) by (simp add: isfull_def not_less)
  moreover have "spaceleft b = m_size_in_bytes b - of_nat ?u" using h i(4) by (auto simp: fsb_holds_def spaceleft_def Let_def mult.commute)
  moreover have "unat (m_size_in_bytes b - of_nat ?u) = unat (m_size_in_bytes b) - ?u"
  proof -
    have "unat (of_nat ?u :: size_t) = ?u" using u by (intro unat_of_nat_small) simp
    then show ?thesis using u(1) by (metis unat_sub word_le_nat_alt)
  qed
  moreover have "unat (ucast (m_record_length b) + 8 :: size_t) = unat (m_record_length b) + 8"
  proof -
    have l: "unat (m_record_length b) < 2 ^ 32" using unat_less_length [of "m_record_length b"] by simp
    then have "unat (ucast (m_record_length b) :: size_t) = unat (m_record_length b)" by (simp add: unat_ucast_mod)
    then show ?thesis using l by (subst unat_add_small) simp_all
  qed
  ultimately show ?thesis using u(1) by (auto simp: word_le_nat_alt)
qed

lemma get_next_record_pointer_ok:
  assumes h: "fsb_holds b rs ks" and room: "length (concat rs) + unat (m_record_length b) + 8 * (length rs + 1) \<le> unat (m_size_in_bytes b)"
  shows "\<exists>b' r. get_next_record_pointer b = Some (length (concat rs), b') \<and> length r = unat (m_record_length b) \<and> fsb_holds b' (rs @ [r]) (length (concat rs) # ks) \<and>
    m_record_length b' = m_record_length b \<and> m_num_records b' = m_num_records b"
proof -
  let ?p = "length (concat rs)" and ?n = "length rs" and ?s = "unat (m_size_in_bytes b)" and ?l = "unat (m_record_length b)"
  obtain mem where m: "fsb_shape b mem" "m_next_rec_ptr b = Some ?p" "\<forall>r \<in> set rs. length r \<le> ?l" "take ?p mem = concat rs" "key_array b ?n mem = map of_nat ks"
    using h by (auto simp: fsb_holds_def)
  note i = fsb_holds_idx [OF h]
  let ?a = "?s - 8 * (?n + 1)"
  define mem1 where "mem1 = store64 mem ?a (of_nat ?p)"
  have sh: "m_rawmem b = Some mem" "length mem = ?s" "m_record_pointers b = Some (?s - 8)" using m(1) by (auto simp: fsb_shape_def)
  have "elem (m_record_pointers b) (- sint (m_idx b)) = Some ?a" unfolding sh(3) i(3) by (rule elem_below) (use room in simp)
  then have "wr_ptr mem (m_record_pointers b) (- sint (m_idx b)) (of_nat ?p) = Some mem1" using room sh(2) by (simp add: wr_ptr_def mem1_def)
  then have r: "get_next_record_pointer b = Some (?p, b\<lparr>m_rawmem := Some mem1, m_idx := m_idx b + 1, m_next_rec_ptr := Some (?p + ?l)\<rparr>)" (is "_ = Some (_, ?b)")
    using m(2) sh(1) by (simp add: get_next_record_pointer_def)
  have len: "length mem1 = ?s" using sh(2) by (simp add: mem1_def)
  have "8 * (?n + 1) \<le> ?s" using room by simp
  then have "?a + 8 = ?s - 8 * ?n" by simp
  moreover have "load_all 8 load64 mem1 (?s - 8 * ?n) ?n = load_all 8 load64 mem (?s - 8 * ?n) ?n"
    by (rule load_all_cong) (use \<open>?a + 8 = _\<close> in \<open>simp add: mem1_def m8.store_frame\<close>)
  moreover have "load64 mem1 ?a = of_nat ?p" unfolding mem1_def by (rule m8.load_store) (use room sh(2) in auto)
  ultimately have k: "key_array b (?n + 1) mem1 = map of_nat (?p # ks)" using m(5) by (simp add: key_array_def load_all_Suc)
  let ?r = "bytes mem1 ?p ?l"
  have lr: "length ?r = ?l" using room len by (simp add: length_bytes)
  have "take ?p mem1 = concat rs" using m(4) room by (simp add: mem1_def take_store64)
  then have "take (?p + ?l) mem1 = concat (rs @ [?r])" by (simp add: take_add bytes_def)
  then have "fsb_holds ?b (rs @ [?r]) (?p # ks)"
    using m(1,3) lr len room k i(4) unfolding fsb_holds_def by (intro exI [of _ mem1]) (auto simp: fsb_shape_def key_array_def)
  then show ?thesis using r lr by (intro exI [of _ ?b] exI [of _ ?r]) simp
qed

lemma add_record_ok:
  assumes h: "fsb_holds b rs ks" and len: "length r \<le> unat (m_record_length b)"
    and room: "length (concat rs) + unat (m_record_length b) + 8 * (length rs + 1) \<le> unat (m_size_in_bytes b)"
  shows "\<exists>b'. add_record r b = Some b' \<and> fsb_holds b' (rs @ [r]) (length (concat rs) # ks) \<and> m_record_length b' = m_record_length b \<and> m_num_records b' = m_num_records b"
proof -
  let ?p = "length (concat rs)" and ?l = "unat (m_record_length b)"
  obtain b1 x where g: "get_next_record_pointer b = Some (?p, b1)" "length x = ?l" "fsb_holds b1 (rs @ [x]) (?p # ks)" "m_record_length b1 = m_record_length b" "m_num_records b1 = m_num_records b"
    using get_next_record_pointer_ok [OF h room] by blast
  obtain mem where m: "fsb_shape b1 mem" "m_idx b1 = of_nat (length rs + 1)" "m_next_rec_ptr b1 = Some (?p + ?l)" "\<forall>r \<in> set rs. length r \<le> ?l" "?p + ?l + 8 * (length rs + 1) \<le> length mem"
    "take (?p + ?l) mem = concat rs @ x" "key_array b1 (length rs + 1) mem = map of_nat (?p # ks)"
    using g(2-4) by (auto simp: fsb_holds_def)
  let ?mem = "memcpy mem ?p r"
  have sh: "m_rawmem b1 = Some mem" "length mem = unat (m_size_in_bytes b1)" using m(1) by (auto simp: fsb_shape_def)
  have fit: "?p + length r \<le> length mem" using m(5) len by simp
  then have lm: "length ?mem = length mem" by simp
  have "length r < 2 ^ 32" using len unat_less_length [of "m_record_length b"] by simp
  then have ur: "unat (of_nat (length r) :: uint) = length r" by (intro unat_of_nat_small) simp
  then have "unat (m_record_length b1 - of_nat (length r)) = ?l - length r" using len g(4) by (metis unat_sub word_le_nat_alt)
  then have r: "add_record r b = Some (b1\<lparr>m_rawmem := Some ?mem, m_next_rec_ptr := Some (?p + length r)\<rparr>)" (is "_ = Some ?b")
    using g(1) sh(1) fit m(3) len by (simp add: add_record_def adjust_next_record_pointer_def Let_def)
  have "take ?p mem = concat rs" using arg_cong [OF m(6), of "take ?p"] by simp
  then have t: "take (?p + length r) ?mem = concat (rs @ [r])" using fit by (simp add: memcpy_def)
  have "?mem ! i = mem ! i" if "unat (m_size_in_bytes b1) - 8 * (length rs + 1) \<le> i" "i < unat (m_size_in_bytes b1) - 8 * (length rs + 1) + 8 * (length rs + 1)" for i
  proof -
    have "?p + length r \<le> i" using that(1) m(5) sh(2) len by linarith
    then show ?thesis using fit by (auto simp: memcpy_def nth_append)
  qed
  then have "key_array b1 (length rs + 1) ?mem = key_array b1 (length rs + 1) mem" unfolding key_array_def by (rule load_all_cong)
  then have "fsb_holds ?b (rs @ [r]) (?p # ks)"
    using m sh t lm len g(4) unfolding fsb_holds_def by (intro exI [of _ ?mem]) (auto simp: fsb_shape_def key_array_def)
  then show ?thesis using r g(4,5) by simp
qed

text \<open>The array after \<open>j\<close> exchanges.\<close>

definition swapped :: "nat \<Rightarrow> 'v list \<Rightarrow> 'v list" where
  "swapped j xs = map (\<lambda>i. if i < j \<or> length xs - 1 - i < j then xs ! (length xs - 1 - i) else xs ! i) [0..<length xs]"

lemma swapped_0: "swapped 0 xs = xs"
  by (auto simp: swapped_def intro: nth_equalityI)

lemma swapped_all: "(length xs - 1) div 2 < j \<Longrightarrow> swapped j xs = rev xs"
  by (rule nth_equalityI) (auto simp: swapped_def rev_nth)

lemma swapped_Suc:
  assumes "j \<le> (length xs - 1) div 2" "xs \<noteq> []"
  shows "(swapped j xs)[length xs - 1 - j := swapped j xs ! j, j := swapped j xs ! (length xs - 1 - j)] = swapped (Suc j) xs"
proof (rule nth_equalityI)
  fix i assume "i < length ((swapped j xs)[length xs - 1 - j := swapped j xs ! j, j := swapped j xs ! (length xs - 1 - j)])"
  then have i: "i < length xs" by (simp add: swapped_def)
  have j: "j < length xs" "length xs - 1 - j < length xs" "j \<le> length xs - 1 - j" using assms by (cases xs; simp; linarith)+
  then show "(swapped j xs)[length xs - 1 - j := swapped j xs ! j, j := swapped j xs ! (length xs - 1 - j)] ! i = swapped (Suc j) xs ! i"
    using i by (auto simp: swapped_def nth_list_update less_Suc_eq)
qed (simp add: swapped_def)

lemma rev_loop_ok:
  assumes "2 \<le> length xs" "t + 8 * length xs \<le> length mem" "load_all 8 load64 mem t (length xs) = swapped j xs"
  shows "\<exists>mem'. rev_loop (Some t) (int (length xs) - 1) (int j) mem = Some mem' \<and> length mem' = length mem \<and> load_all 8 load64 mem' t (length xs) = rev xs \<and> (\<forall>i < t. mem' ! i = mem ! i)"
  using assms
proof (induction "length xs - j" arbitrary: j mem rule: less_induct)
  case less
  let ?n = "length xs"
  have c: "(int ?n - 1) div 2 = int ((?n - 1) div 2)" using less.prems(1) by (simp add: of_nat_diff zdiv_int)
  show ?case
  proof (cases "j \<le> (?n - 1) div 2")
    case False
    then have "rev_loop (Some t) (int ?n - 1) (int j) mem = Some mem" using c by (subst rev_loop.simps) simp
    then show ?thesis using False less.prems by (simp add: swapped_all)
  next
    case True
    have j: "j < ?n" "?n - 1 - j < ?n" using True less.prems(1) by linarith+
    have ij: "int ?n - 1 - int j = int (?n - 1 - j)" using j less.prems(1) by (simp add: of_nat_diff)
    have rd: "rd_ptr mem (Some t) (int k) = Some (swapped j xs ! k)" if "k < ?n" for k
      using that less.prems(2) nth_load_all [OF that, of mem t] by (simp add: rd_ptr_def less.prems(3))
    let ?m1 = "store64 mem (t + (?n - 1 - j) * 8) (swapped j xs ! j)"
    let ?m2 = "store64 ?m1 (t + j * 8) (swapped j xs ! (?n - 1 - j))"
    have wr: "wr_ptr mem (Some t) (int (?n - 1 - j)) (swapped j xs ! j) = Some ?m1" "wr_ptr ?m1 (Some t) (int j) (swapped j xs ! (?n - 1 - j)) = Some ?m2"
      using j less.prems(2) by (intro wr_ptr_nat; simp)+
    have "load_all 8 load64 ?m2 t ?n = (swapped j xs)[?n - 1 - j := swapped j xs ! j, j := swapped j xs ! (?n - 1 - j)]"
      using load_all_store [of t ?n ?m1 j] load_all_store [of t ?n mem "?n - 1 - j"] j less.prems by simp
    then have l: "load_all 8 load64 ?m2 t ?n = swapped (Suc j) xs" using swapped_Suc [of j xs] True less.prems(1) by force
    have "\<exists>mem'. rev_loop (Some t) (int ?n - 1) (int (Suc j)) ?m2 = Some mem' \<and> length mem' = length ?m2 \<and> load_all 8 load64 mem' t ?n = rev xs \<and> (\<forall>i < t. mem' ! i = ?m2 ! i)"
      by (rule less.hyps) (use j less.prems l in simp_all)
    moreover have "rev_loop (Some t) (int ?n - 1) (int j) mem = rev_loop (Some t) (int ?n - 1) (int (Suc j)) ?m2"
      by (subst rev_loop.simps) (use True c rd [OF j(1)] rd [OF j(2), folded ij] wr [folded ij] in \<open>simp add: add.commute\<close>)
    moreover have "?m2 ! i = mem ! i" if "i < t" for i using that by (simp add: m8.store_frame)
    ultimately show ?thesis by auto
  qed
qed

lemma reverse_record_pointers_ok:
  assumes h: "fsb_holds b rs ks"
  shows "\<exists>b'. reverse_record_pointers b = Some b' \<and> fsb_holds b' rs (rev ks)"
proof -
  obtain mem where m: "fsb_shape b mem" "m_next_rec_ptr b = Some (length (concat rs))" "\<forall>r \<in> set rs. length r \<le> unat (m_record_length b)"
    "length (concat rs) + 8 * length rs \<le> length mem" "take (length (concat rs)) mem = concat rs" "key_array b (length rs) mem = map of_nat ks"
    using h by (auto simp: fsb_holds_def)
  note i = fsb_holds_idx [OF h]
  have lk: "length ks = length rs" using arg_cong [OF m(6), of length] by (simp add: key_array_def load_all_def)
  show ?thesis
  proof (cases "length rs < 2")
    case True
    then have "rev ks = ks" using lk by (cases ks; cases "tl ks"; simp)
    then show ?thesis using True i(3) h by (simp add: reverse_record_pointers_def)
  next
    case False
    let ?t = "unat (m_size_in_bytes b) - 8 * length rs" and ?xs = "map of_nat ks :: ulonglong list"
    have sh: "m_rawmem b = Some mem" "length mem = unat (m_size_in_bytes b)" "m_record_pointers b = Some (unat (m_size_in_bytes b) - 8)" using m(1) by (auto simp: fsb_shape_def)
    have "sint (m_idx b - 1) = int (length rs) - 1"
    proof -
      have "m_idx b - 1 = of_nat (length rs - 1)" using False i(4) by (simp add: of_nat_diff)
      then show ?thesis using sint_of_nat_small [of "length rs - 1"] i(2) False by (simp add: of_nat_diff)
    qed
    moreover have "get_sort_keys b = Some (Some ?t)"
    proof -
      have "m_idx b \<noteq> 0" using i(3) False by auto
      then show ?thesis unfolding get_sort_keys_def i(3) sh(3) using elem_first [of "length rs" "unat (m_size_in_bytes b)"] False i(1) by simp
    qed
    moreover have "\<exists>mem'. rev_loop (Some ?t) (int (length ?xs) - 1) (int 0) mem = Some mem' \<and> length mem' = length mem \<and> load_all 8 load64 mem' ?t (length ?xs) = rev ?xs \<and> (\<forall>i < ?t. mem' ! i = mem ! i)"
      by (rule rev_loop_ok) (use False lk i(1) sh(2) m(6) in \<open>simp_all add: swapped_0 key_array_def\<close>)
    then obtain mem' where r: "rev_loop (Some ?t) (int (length rs) - 1) 0 mem = Some mem'" "length mem' = length mem" "load_all 8 load64 mem' ?t (length rs) = map of_nat (rev ks)" "\<forall>i < ?t. mem' ! i = mem ! i"
      using lk by (auto simp: rev_map)
    ultimately have "reverse_record_pointers b = Some (b\<lparr>m_rawmem := Some mem'\<rparr>)" using False i(3) sh(1) by (simp add: reverse_record_pointers_def)
    moreover have "take (length (concat rs)) mem' = concat rs" using r(2,4) m(4) sh(2) by (subst m(5) [symmetric]) (rule nth_equalityI; simp)
    then have "fsb_holds (b\<lparr>m_rawmem := Some mem'\<rparr>) rs (rev ks)"
      using m r i(4) unfolding fsb_holds_def by (intro exI [of _ mem']) (simp add: fsb_shape_def key_array_def)
    ultimately show ?thesis by blast
  qed
qed

lemma init_next_ok: "fsb_shape b mem \<Longrightarrow> fsb_holds (init_next_record_pointer b) [] []"
  by (auto simp: fsb_holds_def fsb_shape_def init_next_record_pointer_def key_array_def load_all_def)

lemma below_number_not_full: "fsb_holds b rs ks \<Longrightarrow> length rs < unat (m_num_records b) \<Longrightarrow> \<not> isfull b"
  using fsb_holds_idx(3) by (metis isfull_def of_nat_less_iff uint_int_unat)

lemma fill_pointers_ok:
  assumes "fsb_holds b rs (rev (offsets rs))" "length rs \<le> unat (m_num_records b)"
  shows "\<exists>b' xs. fill_pointers b = Some b' \<and> fsb_holds b' (rs @ xs) (rev (offsets (rs @ xs))) \<and> length (rs @ xs) = unat (m_num_records b) \<and> (\<forall>x \<in> set xs. length x = unat (m_record_length b))"
  using assms
proof (induction "unat (m_num_records b) - length rs" arbitrary: b rs)
  case 0
  then have "\<not> sint (m_idx b) < uint (m_num_records b)" using fsb_holds_idx(3) [OF 0(2)] by (simp add: uint_int_unat del: of_nat_unat)
  then have "fill_pointers b = Some b" by (subst fill_pointers.simps) simp
  then show ?case using 0 by (intro exI [of _ b] exI [of _ "[]"]) simp
next
  case (Suc n)
  then have l: "length rs < unat (m_num_records b)" by simp
  obtain b1 r where g: "get_next_record_pointer b = Some (length (concat rs), b1)" "length r = unat (m_record_length b)" "fsb_holds b1 (rs @ [r]) (length (concat rs) # rev (offsets rs))"
    "m_record_length b1 = m_record_length b" "m_num_records b1 = m_num_records b"
    using get_next_record_pointer_ok [OF Suc.prems(1) not_full_room [OF Suc.prems(1) below_number_not_full [OF Suc.prems(1) l]]] by blast
  have "sint (m_idx b) < uint (m_num_records b)" using fsb_holds_idx(3) [OF Suc.prems(1)] l by (simp add: uint_int_unat del: of_nat_unat)
  then have f: "fill_pointers b = fill_pointers b1" using g(1) by (subst fill_pointers.simps) simp
  have "\<exists>b' xs. fill_pointers b1 = Some b' \<and> fsb_holds b' ((rs @ [r]) @ xs) (rev (offsets ((rs @ [r]) @ xs))) \<and> length ((rs @ [r]) @ xs) = unat (m_num_records b1) \<and> (\<forall>x \<in> set xs. length x = unat (m_record_length b1))"
    by (rule Suc.hyps(1)) (use Suc.hyps(2) g l in \<open>simp_all add: offsets_snoc\<close>)
  then obtain b' xs where "fill_pointers b1 = Some b'" "fsb_holds b' (rs @ r # xs) (rev (offsets (rs @ r # xs)))" "length (rs @ r # xs) = unat (m_num_records b)" "\<forall>x \<in> set xs. length x = unat (m_record_length b)"
    using g(4,5) by auto
  then show ?case using f g(2) by (intro exI [of _ b'] exI [of _ "r # xs"]) simp
qed

lemma offsets_fixed: "\<forall>x \<in> set xs. length x = k \<Longrightarrow> offsets xs = map (\<lambda>i. i * k) [0..<length xs]"
  by (induction xs rule: rev_induct) (auto simp: offsets_snoc offsets_def sum_list_triv length_concat cong: map_cong)

lemma record_bytes:
  assumes "fsb_holds b rs ks" "i < length rs"
  shows "\<exists>mem. m_rawmem b = Some mem \<and> bytes mem (offsets rs ! i) (length (rs ! i)) = rs ! i"
proof -
  obtain mem where m: "m_rawmem b = Some mem" "take (length (concat rs)) mem = concat rs" using assms(1) by (auto simp: fsb_holds_def fsb_shape_def)
  have c: "concat rs = concat (take i rs) @ rs ! i @ concat (drop (Suc i) rs)" using assms(2) by (metis append_take_drop_id Cons_nth_drop_Suc concat.simps(2) concat_append)
  then have "take (length (concat (take i rs)) + length (rs ! i)) (take (length (concat rs)) mem) = concat (take i rs) @ rs ! i" unfolding m(2) by simp
  moreover have "length (concat (take i rs)) + length (rs ! i) \<le> length (concat rs)" unfolding arg_cong [OF c, of length] by simp
  ultimately have "take (length (concat (take i rs)) + length (rs ! i)) mem = concat (take i rs) @ rs ! i" by (simp add: min_absorb1)
  then have "bytes mem (length (concat (take i rs))) (length (rs ! i)) = rs ! i" by (simp add: bytes_def take_drop) (metis add.commute append_eq_conv_conj)
  then show ?thesis using m(1) assms(2) by (simp add: offsets_def)
qed

section \<open>Properties\<close>

text \<open>C8: the sort buffer: while it is not full a record of at most the announced length can be added without touching the records and pointers before, and the announced number of records always fits;
  every record can be read at its offset; the array of pointers shows the records last first, and \<open>reverse_record_pointers\<close>, whose loop ends, puts them in the order of insertion;
  \<open>init_record_pointers\<close> prepares the announced number of places of the announced length in order. No access leaves the area.\<close>

theorem sort_buffer_holds_records:
  assumes h: "fsb_holds b rs (rev (offsets rs))"
  shows "(length rs < unat (m_num_records b) \<longrightarrow> \<not> isfull b) \<and>
    (\<not> isfull b \<and> length r \<le> unat (m_record_length b) \<longrightarrow> (\<exists>b'. add_record r b = Some b' \<and> fsb_holds b' (rs @ [r]) (rev (offsets (rs @ [r]))))) \<and>
    (\<forall>i < length rs. \<exists>mem. m_rawmem b = Some mem \<and> bytes mem (offsets rs ! i) (length (rs ! i)) = rs ! i) \<and>
    (\<exists>b'. reverse_record_pointers b = Some b' \<and> fsb_holds b' rs (offsets rs)) \<and>
    (\<exists>b' rs'. init_record_pointers b = Some b' \<and> fsb_holds b' rs' (map (\<lambda>i. i * unat (m_record_length b)) [0..<unat (m_num_records b)]))"
proof (intro conjI impI allI)
  assume "\<not> isfull b \<and> length r \<le> unat (m_record_length b)"
  then show "\<exists>b'. add_record r b = Some b' \<and> fsb_holds b' (rs @ [r]) (rev (offsets (rs @ [r])))"
    using add_record_ok [OF h _ not_full_room [OF h]] by (auto simp: offsets_snoc)
next
  show "\<exists>b'. reverse_record_pointers b = Some b' \<and> fsb_holds b' rs (offsets rs)" using reverse_record_pointers_ok [OF h] by simp
  let ?b = "init_next_record_pointer b"
  obtain mem where "fsb_shape b mem" using h by (auto simp: fsb_holds_def)
  then have "fsb_holds ?b [] (rev (offsets []))" using init_next_ok by (simp add: offsets_def)
  from fill_pointers_ok [OF this] obtain b1 xs where f: "fill_pointers ?b = Some b1" "fsb_holds b1 xs (rev (offsets xs))" "length xs = unat (m_num_records b)" "\<forall>x \<in> set xs. length x = unat (m_record_length b)"
    by (auto simp: init_next_record_pointer_def)
  from reverse_record_pointers_ok [OF f(2)] obtain b' where "reverse_record_pointers b1 = Some b'" "fsb_holds b' xs (offsets xs)" by auto
  then show "\<exists>b' rs'. init_record_pointers b = Some b' \<and> fsb_holds b' rs' (map (\<lambda>i. i * unat (m_record_length b)) [0..<unat (m_num_records b)])"
    using f(1) offsets_fixed [OF f(4)] f(3) by (intro exI [of _ b'] exI [of _ xs]) (simp add: init_record_pointers_def)
qed (use below_number_not_full [OF h] record_bytes [OF h] in auto)

definition buffer0 :: Filesort_buffer where
  "buffer0 = fsb_init\<lparr>m_rawmem := Some (replicate 40 0), m_next_rec_ptr := Some 0, m_record_pointers := Some 32, m_num_records := 3, m_record_length := 4, m_size_in_bytes := 40\<rparr>"

theorem sort_buffer_holds_records_witness: "\<exists>b'. add_record [7, 8] buffer0 = Some b' \<and> fsb_holds b' [[7, 8]] [0]"
proof -
  have "fsb_holds buffer0 [] (rev (offsets []))" by (simp add: fsb_holds_def fsb_shape_def buffer0_def fsb_init_def key_array_def load_all_def offsets_def)
  from sort_buffer_holds_records [OF this, of "[7, 8]"] show ?thesis by (simp add: buffer0_def fsb_init_def offsets_def)
qed

end
