(* ===== verification/Sql_Sort.thy ===== *)
theory Sql_Sort imports Byte_Order Memory begin

text \<open>
  \<open>private/sql_sort.h\<close>: the lengths of packed records of a sort (\<open>Addon_fields\<close>, \<open>Sort_keys\<close>, \<open>Sort_param\<close>) and the chunks of a merge (\<open>Merge_chunk\<close>). A pointer to a record is an area and an
  index; reading outside the area is \<open>None\<close>. Of the classes the members that these functions use are modelled; the functions that the header only declares are left out.
\<close>

section \<open>Addon fields\<close>

record Addon_fields =
  m_addon_buf :: "nat option"
  m_addon_buf_length :: uint
  m_using_packed_addons :: bool

definition addon_fields_init :: Addon_fields where
  "addon_fields_init = \<lparr>m_addon_buf = None, m_addon_buf_length = 0, m_using_packed_addons = False\<rparr>"

text \<open>The first argument is the block that \<open>my_malloc\<close> returns, with what it contains.\<close>

definition allocate_addon_buf :: "(nat \<times> buffer) option \<Rightarrow> uint \<Rightarrow> blocks \<Rightarrow> Addon_fields \<Rightarrow> nat option \<times> blocks \<times> Addon_fields" where
  "allocate_addon_buf m sz mem a =
     (case m of
        None \<Rightarrow> (None, mem, a\<lparr>m_addon_buf := None\<rparr>)
      | Some (b, old) \<Rightarrow> (Some b, mem(b \<mapsto> old), a\<lparr>m_addon_buf := Some b, m_addon_buf_length := sz\<rparr>))"

definition free_addon_buff :: "blocks \<Rightarrow> Addon_fields \<Rightarrow> blocks \<times> Addon_fields" where
  "free_addon_buff mem a = (my_free mem (map_option (\<lambda>b. (b, 0)) (m_addon_buf a)), a\<lparr>m_addon_buf := None, m_addon_buf_length := 0\<rparr>)"

definition set_using_packed_addons :: "bool \<Rightarrow> Addon_fields \<Rightarrow> Addon_fields" where
  "set_using_packed_addons v a = a\<lparr>m_using_packed_addons := v\<rparr>"

definition can_pack_addon_fields :: "uint \<Rightarrow> bool" where
  "can_pack_addon_fields record_length \<longleftrightarrow> record_length \<le> 0xFFFF"

definition addon_length_field :: uint where "addon_length_field = 2"
definition sortkey_length_field :: uint where "sortkey_length_field = 4"

definition read_addon_length :: "buffer \<Rightarrow> nat \<Rightarrow> uint option" where
  "read_addon_length mem p = (if p + 2 \<le> length mem then Some (addon_length_field + ucast (uint2korr mem p)) else None)"

definition store_addon_length :: "buffer \<Rightarrow> nat \<Rightarrow> uint \<Rightarrow> buffer option" where
  "store_addon_length mem p sz = (if p + 2 \<le> length mem then Some (int2store mem p (ucast (sz - addon_length_field))) else None)"

section \<open>Sort keys\<close>

record Sort_keys =
  m_using_packed_sortkeys :: bool
  size_of_packable_fields :: uint
  sort_length_with_original_values :: uint
  sort_length_with_memcmp_values :: uint
  parameters_computed :: bool

definition sort_keys_init :: Sort_keys where
  "sort_keys_init = \<lparr>m_using_packed_sortkeys = False, size_of_packable_fields = 0, sort_length_with_original_values = 0, sort_length_with_memcmp_values = 0, parameters_computed = False\<rparr>"

definition increment_size_of_packable_fields :: "uint \<Rightarrow> Sort_keys \<Rightarrow> Sort_keys" where
  "increment_size_of_packable_fields len k = k\<lparr>size_of_packable_fields := size_of_packable_fields k + len\<rparr>"

definition increment_original_sort_length :: "uint \<Rightarrow> Sort_keys \<Rightarrow> Sort_keys" where
  "increment_original_sort_length len k = k\<lparr>sort_length_with_original_values := sort_length_with_original_values k + len\<rparr>"

definition store_sortkey_length :: "buffer \<Rightarrow> nat \<Rightarrow> uint \<Rightarrow> buffer option" where
  "store_sortkey_length mem p sz = (if p + 4 \<le> length mem then Some (int4store mem p (ucast (sz - sortkey_length_field))) else None)"

definition read_sortkey_length :: "buffer \<Rightarrow> nat \<Rightarrow> uint option" where
  "read_sortkey_length mem p = (if p + 4 \<le> length mem then Some (sortkey_length_field + uint4korr mem p) else None)"

section \<open>Lengths of records\<close>

text \<open>\<open>m_packed_addons\<close>, \<open>m_packed_sortkeys\<close> are the cached answers of the two objects; \<open>addon_fields\<close> tells whether the pointer is set.\<close>

record Sort_param =
  rec_length :: uint
  sort_length :: uint
  addon_length :: uint
  res_length :: uint
  addon_fields :: bool
  m_packed_addons :: bool
  m_packed_sortkeys :: bool
  m_packed_format :: bool

definition using_packed_addons :: "Sort_param \<Rightarrow> bool" where "using_packed_addons s = m_packed_addons s"
definition using_packed_sortkeys :: "Sort_param \<Rightarrow> bool" where "using_packed_sortkeys s = m_packed_sortkeys s"
definition using_addon_fields :: "Sort_param \<Rightarrow> bool" where "using_addon_fields s = addon_fields s"

definition get_result_length :: "Sort_param \<Rightarrow> buffer \<Rightarrow> nat \<Rightarrow> uint option" where
  "get_result_length s mem p = (if \<not> m_packed_addons s then Some (res_length s) else read_addon_length mem p)"

definition get_addon_length :: "Sort_param \<Rightarrow> buffer \<Rightarrow> nat \<Rightarrow> uint option" where
  "get_addon_length s mem p = (if using_packed_addons s then read_addon_length mem p else Some (addon_length s))"

definition get_sort_length :: "Sort_param \<Rightarrow> buffer \<Rightarrow> nat \<Rightarrow> uint option" where
  "get_sort_length s mem p =
     (if using_packed_sortkeys s then map_option (\<lambda>n. n + (if using_addon_fields s then 0 else res_length s)) (read_sortkey_length mem p) else Some (sort_length s))"

definition get_record_length :: "Sort_param \<Rightarrow> buffer \<Rightarrow> nat \<Rightarrow> uint option" where
  "get_record_length s mem p =
     (if m_packed_format s then do { sort_len \<leftarrow> get_sort_length s mem p; n \<leftarrow> get_addon_length s mem (p + unat sort_len); Some (sort_len + n) } else Some (rec_length s))"

definition get_rec_and_res_len :: "Sort_param \<Rightarrow> buffer \<Rightarrow> nat \<Rightarrow> (uint \<times> uint) option" where
  "get_rec_and_res_len s mem p =
     (if m_packed_format s
      then do { sort_len \<leftarrow> get_sort_length s mem p;
                addon_len \<leftarrow> get_addon_length s mem (p + unat sort_len);
                Some (sort_len + addon_len, if using_addon_fields s then addon_len else res_length s) }
      else Some (rec_length s, res_length s))"

section \<open>Merge chunks\<close>

text \<open>Pointers into the merge buffer are positions in it.\<close>

record Merge_chunk =
  m_current_key :: "nat option"
  m_file_position :: ulonglong
  m_buffer_start :: "nat option"
  m_buffer_end :: "nat option"
  m_rowcount :: ha_rows
  m_mem_count :: ha_rows
  m_max_keys :: ha_rows

definition merge_chunk_init :: Merge_chunk where
  "merge_chunk_init = \<lparr>m_current_key = None, m_file_position = 0, m_buffer_start = None, m_buffer_end = None, m_rowcount = 0, m_mem_count = 0, m_max_keys = 0\<rparr>"

definition advance_file_position :: "ulonglong \<Rightarrow> Merge_chunk \<Rightarrow> Merge_chunk" where
  "advance_file_position v c = c\<lparr>m_file_position := m_file_position c + v\<rparr>"

definition set_buffer :: "nat option \<Rightarrow> nat option \<Rightarrow> Merge_chunk \<Rightarrow> Merge_chunk" where
  "set_buffer s e c = c\<lparr>m_buffer_start := s, m_buffer_end := e\<rparr>"

definition set_buffer_start :: "nat option \<Rightarrow> Merge_chunk \<Rightarrow> Merge_chunk" where
  "set_buffer_start s c = c\<lparr>m_buffer_start := s\<rparr>"

definition set_buffer_end :: "nat option \<Rightarrow> Merge_chunk \<Rightarrow> Merge_chunk" where
  "set_buffer_end e c = c\<lparr>m_buffer_end := e\<rparr>"

definition init_current_key :: "Merge_chunk \<Rightarrow> Merge_chunk" where
  "init_current_key c = c\<lparr>m_current_key := m_buffer_start c\<rparr>"

definition advance_current_key :: "uint \<Rightarrow> Merge_chunk \<Rightarrow> Merge_chunk" where
  "advance_current_key v c = c\<lparr>m_current_key := map_option (\<lambda>p. p + unat v) (m_current_key c)\<rparr>"

definition decrement_rowcount :: "ha_rows \<Rightarrow> Merge_chunk \<Rightarrow> Merge_chunk" where
  "decrement_rowcount v c = c\<lparr>m_rowcount := m_rowcount c - v\<rparr>"

definition decrement_mem_count :: "Merge_chunk \<Rightarrow> ha_rows \<times> Merge_chunk" where
  "decrement_mem_count c = (m_mem_count c - 1, c\<lparr>m_mem_count := m_mem_count c - 1\<rparr>)"

definition buffer_size :: "Merge_chunk \<Rightarrow> size_t" where
  "buffer_size c = (case (m_buffer_start c, m_buffer_end c) of (Some s, Some e) \<Rightarrow> of_nat e - of_nat s | _ \<Rightarrow> 0)"

definition merge_freed_buff :: "Merge_chunk \<Rightarrow> Merge_chunk \<Rightarrow> bool \<times> Merge_chunk" where
  "merge_freed_buff this mc =
     (if m_buffer_end mc = m_buffer_start this then (True, mc\<lparr>m_buffer_end := m_buffer_end this, m_max_keys := m_max_keys mc + m_max_keys this\<rparr>)
      else if m_buffer_start mc = m_buffer_end this then (True, mc\<lparr>m_buffer_start := m_buffer_start this, m_max_keys := m_max_keys mc + m_max_keys this\<rparr>)
      else (False, mc))"

section \<open>Packed records\<close>

text \<open>The bytes of a record: a sort key, with its length in front when keys are packed, and a tail, which is the packed addon fields with their length in front, the addon fields in fixed form, or the reference of the
  row.\<close>

definition key_image :: "Sort_param \<Rightarrow> buffer \<Rightarrow> buffer" where
  "key_image s key = (if m_packed_sortkeys s then the (store_sortkey_length (replicate 4 0) 0 (of_nat (length key + 4))) @ key else key)"

definition tail_image :: "Sort_param \<Rightarrow> buffer \<Rightarrow> buffer" where
  "tail_image s tail = (if m_packed_addons s then the (store_addon_length (replicate 2 0) 0 (of_nat (length tail + 2))) @ tail else tail)"

definition record_image :: "Sort_param \<Rightarrow> buffer \<times> buffer \<Rightarrow> buffer" where
  "record_image s r = key_image s (fst r) @ tail_image s (snd r)"

text \<open>The parameters of a sort in packed format, and a record that fits them.\<close>

definition packed_param :: "Sort_param \<Rightarrow> bool" where
  "packed_param s \<longleftrightarrow> m_packed_format s \<and> (m_packed_addons s \<or> m_packed_sortkeys s) \<and> (m_packed_addons s \<longrightarrow> addon_fields s) \<and> (\<not> addon_fields s \<longrightarrow> addon_length s = 0)"

definition record_fits :: "Sort_param \<Rightarrow> buffer \<times> buffer \<Rightarrow> bool" where
  "record_fits s r \<longleftrightarrow> (\<not> m_packed_sortkeys s \<longrightarrow> length (fst r) = unat (sort_length s)) \<and>
     (if m_packed_addons s then length (snd r) \<le> 0xFFFF else if addon_fields s then length (snd r) = unat (addon_length s) else length (snd r) = unat (res_length s)) \<and>
     length (record_image s r) < 2 ^ 32"

definition at_record :: "buffer \<Rightarrow> nat \<Rightarrow> buffer \<Rightarrow> bool" where
  "at_record mem p r \<longleftrightarrow> p + length r \<le> length mem \<and> bytes mem p (length r) = r"

lemma at_record_nth: "at_record mem p r \<Longrightarrow> i < length r \<Longrightarrow> mem ! (p + i) = r ! i"
proof -
  assume a: "at_record mem p r" "i < length r"
  then have "bytes mem p (length r) ! i = mem ! (p + i)" unfolding bytes_def at_record_def by (metis add_leD1 nth_drop nth_take)
  then show "mem ! (p + i) = r ! i" using a(1) by (simp add: at_record_def)
qed

lemma at_record_append: "at_record mem p (a @ b) \<longleftrightarrow> at_record mem p a \<and> at_record mem (p + length a) b"
  by (auto simp: at_record_def bytes_append add.assoc length_bytes)

lemma at_recordI: "r \<noteq> [] \<Longrightarrow> bytes mem p (length r) = r \<Longrightarrow> at_record mem p r"
proof -
  assume r: "r \<noteq> []" "bytes mem p (length r) = r"
  then have "min (length r) (length mem - p) = length r" by (metis bytes_def length_drop length_take min.commute)
  then show "at_record mem p r" using r by (cases "length mem \<le> p") (auto simp: at_record_def min_def split: if_splits)
qed

lemma uint2korr_at: "at_record mem p h \<Longrightarrow> length h = 2 \<Longrightarrow> uint2korr mem p = uint2korr h 0"
  using at_record_nth [of mem p h 0] at_record_nth [of mem p h 1] by (simp add: uint2korr_def)

lemma uint4korr_at: "at_record mem p h \<Longrightarrow> length h = 4 \<Longrightarrow> uint4korr mem p = uint4korr h 0"
  using at_record_nth [of mem p h 0] at_record_nth [of mem p h 1] at_record_nth [of mem p h 2] at_record_nth [of mem p h 3] by (simp add: uint4korr_def numeral_2_eq_2)

lemma int2store_low: "int2store T p (ucast (x :: uint)) = int2store T p (ucast (ucast x :: uint16))"
proof -
  have "(ucast (ucast (ucast x :: ulonglong) :: uint) :: uchar) = ucast (ucast (ucast (ucast x :: uint16) :: ulonglong) :: uint)" by (rule word_bits_eqI) (simp add: bits_simps)
  moreover have "(ucast (drop_bit 8 (ucast (ucast x :: ulonglong) :: uint)) :: uchar) = ucast (drop_bit 8 (ucast (ucast (ucast x :: uint16) :: ulonglong) :: uint))" by (rule word_bits_eqI) (simp add: bits_simps)
  ultimately show ?thesis by (simp add: int2store_def Let_def)
qed

lemma addon_length_stored:
  assumes "p + 2 \<le> length mem"
  shows "\<exists>mem'. store_addon_length mem p sz = Some mem' \<and> length mem' = length mem \<and> read_addon_length mem' p = Some (2 + ucast (ucast (sz - 2) :: uint16))"
  using assms le2.load_store [of p mem "ucast (sz - 2)"] le2.length_store [of mem p "ucast (sz - 2)"]
  by (simp add: store_addon_length_def read_addon_length_def addon_length_field_def int2store_low)

lemma sortkey_length_stored:
  assumes "p + 4 \<le> length mem"
  shows "\<exists>mem'. store_sortkey_length mem p sz = Some mem' \<and> length mem' = length mem \<and> read_sortkey_length mem' p = Some sz"
  using assms le4.load_store [of p mem "sz - 4"] le4.length_store [of mem p "sz - 4"]
  by (simp add: store_sortkey_length_def read_sortkey_length_def sortkey_length_field_def)

lemma record_image_nonempty: "packed_param s \<Longrightarrow> record_image s r \<noteq> []"
  using sortkey_length_stored [of 0 "replicate 4 0" "of_nat (length (fst r) + 4)"] addon_length_stored [of 0 "replicate 2 0" "of_nat (length (snd r) + 2)"]
  by (auto simp: record_image_def key_image_def tail_image_def packed_param_def)

lemma read_sortkey_at:
  assumes "at_record mem p (key_image s key)" "m_packed_sortkeys s" "length key + 4 < 2 ^ 32"
  shows "read_sortkey_length mem p = Some (of_nat (length (key_image s key)))" "length (key_image s key) = length key + 4"
proof -
  obtain h where h: "store_sortkey_length (replicate 4 0) 0 (of_nat (length key + 4)) = Some h" "length h = 4" "read_sortkey_length h 0 = Some (of_nat (length key + 4))"
    using sortkey_length_stored [of 0 "replicate 4 0" "of_nat (length key + 4)"] by auto
  show l: "length (key_image s key) = length key + 4" using h(1,2) assms(2) by (simp add: key_image_def)
  have "at_record mem p h" using assms(1,2) h(1) by (simp add: key_image_def at_record_append)
  then show "read_sortkey_length mem p = Some (of_nat (length (key_image s key)))"
    unfolding l using uint4korr_at [of mem p h] h(2,3) by (simp add: read_sortkey_length_def at_record_def)
qed

lemma read_addon_at:
  assumes "at_record mem p (tail_image s tail)" "m_packed_addons s" "length tail \<le> 0xFFFF"
  shows "read_addon_length mem p = Some (of_nat (length (tail_image s tail)))" "length (tail_image s tail) = length tail + 2"
proof -
  obtain h where h: "store_addon_length (replicate 2 0) 0 (of_nat (length tail + 2)) = Some h" "length h = 2" "read_addon_length h 0 = Some (2 + ucast (ucast (of_nat (length tail + 2) - 2 :: uint) :: uint16))"
    using addon_length_stored [of 0 "replicate 2 0" "of_nat (length tail + 2)"] by auto
  show l: "length (tail_image s tail) = length tail + 2" using h(1,2) assms(2) by (simp add: tail_image_def)
  have "at_record mem p h" using assms(1,2) h(1) by (simp add: tail_image_def at_record_append)
  moreover have "(2 + ucast (ucast (of_nat (length tail + 2) - 2 :: uint) :: uint16) :: uint) = of_nat (length tail + 2)"
  proof -
    have "unat (of_nat (length tail) :: uint) = length tail" using assms(3) by (simp add: unat_of_nat)
    then have "unat (ucast (ucast (of_nat (length tail) :: uint) :: uint16) :: uint) = unat (of_nat (length tail) :: uint)" using assms(3) by (simp only: unat_ucast_mod) simp
    then have "(ucast (ucast (of_nat (length tail) :: uint) :: uint16) :: uint) = of_nat (length tail)" by (simp only: word_unat_eq_iff)
    then show ?thesis by simp
  qed
  ultimately show "read_addon_length mem p = Some (of_nat (length (tail_image s tail)))"
    unfolding l using uint2korr_at [of mem p h] h(2,3) by (simp add: read_addon_length_def at_record_def)
qed

text \<open>The lengths of a record in packed format.\<close>

lemma record_lengths:
  assumes s: "packed_param s" and r: "record_fits s r" and at: "at_record mem p (record_image s r)"
  shows "get_rec_and_res_len s mem p = Some (of_nat (length (record_image s r)), if addon_fields s then of_nat (length (tail_image s (snd r))) else res_length s)"
    "get_record_length s mem p = Some (of_nat (length (record_image s r)))"
proof -
  obtain key tail where kt: "r = (key, tail)" by (cases r)
  have a: "at_record mem p (key_image s key)" "at_record mem (p + length (key_image s key)) (tail_image s tail)" using at by (simp_all add: record_image_def at_record_append kt)
  have fit: "length (key_image s key) + length (tail_image s tail) < 2 ^ 32" using r by (simp add: record_fits_def record_image_def kt)
  let ?x = "if m_packed_sortkeys s \<and> \<not> addon_fields s then unat (res_length s) else 0"
  have small: "length key + 4 < 2 ^ 32" if "m_packed_sortkeys s"
  proof -
    have "length key + 4 \<le> length (key_image s key)"
      using that sortkey_length_stored [of 0 "replicate 4 0" "of_nat (length key + 4)"] by (auto simp: key_image_def)
    then show ?thesis using fit by simp
  qed
  have tl: "\<not> addon_fields s \<longrightarrow> length (tail_image s tail) = unat (res_length s)" "\<not> m_packed_addons s \<and> addon_fields s \<longrightarrow> length (tail_image s tail) = unat (addon_length s)"
    using r s by (auto simp: record_fits_def packed_param_def tail_image_def kt)
  have sl: "get_sort_length s mem p = Some (of_nat (length (key_image s key) + ?x))"
  proof (cases "m_packed_sortkeys s")
    case True
    then show ?thesis using read_sortkey_at(1) [OF a(1) True small [OF True]] by (simp add: get_sort_length_def using_packed_sortkeys_def using_addon_fields_def)
  next
    case False
    then show ?thesis using r by (simp add: get_sort_length_def using_packed_sortkeys_def record_fits_def key_image_def kt)
  qed
  have "length (key_image s key) + ?x < 2 ^ 32" using fit tl(1) by (auto split: if_splits)
  then have us: "unat (of_nat (length (key_image s key) + ?x) :: uint) = length (key_image s key) + ?x" by (simp only: unat_of_nat) simp
  have al: "get_addon_length s mem (p + unat (of_nat (length (key_image s key) + ?x) :: uint)) = Some (of_nat (length (tail_image s tail) - ?x))"
  proof (cases "m_packed_addons s")
    case True
    then have "addon_fields s" "length tail \<le> 0xFFFF" using s r by (auto simp: packed_param_def record_fits_def kt)
    then show ?thesis unfolding us using read_addon_at(1) [OF a(2) True] True by (simp add: get_addon_length_def using_packed_addons_def)
  next
    case False
    then have "of_nat (length (tail_image s tail) - ?x) = addon_length s" using tl s by (auto simp: packed_param_def)
    then show ?thesis using False by (simp add: get_addon_length_def using_packed_addons_def)
  qed
  have x: "?x \<le> length (tail_image s tail)" using tl(1) by auto
  have sum: "of_nat (length (key_image s key) + ?x) + of_nat (length (tail_image s tail) - ?x) = (of_nat (length (record_image s r)) :: uint)"
    using x by (simp add: record_image_def kt flip: of_nat_add del: of_nat_diff)
  have "addon_fields s \<longrightarrow> ?x = 0" by simp
  then show "get_rec_and_res_len s mem p = Some (of_nat (length (record_image s r)), if addon_fields s then of_nat (length (tail_image s (snd r))) else res_length s)"
    "get_record_length s mem p = Some (of_nat (length (record_image s r)))"
    using sl al sum s by (auto simp: get_rec_and_res_len_def get_record_length_def packed_param_def using_addon_fields_def kt)
qed

section \<open>Properties\<close>

text \<open>A reader of records that stand one behind the other, as the merge of sorted chunks walks through a buffer.\<close>

fun walk :: "Sort_param \<Rightarrow> buffer \<Rightarrow> nat \<Rightarrow> nat \<Rightarrow> buffer list option" where
  "walk s mem p 0 = Some []"
| "walk s mem p (Suc n) = do { l \<leftarrow> get_record_length s mem p; rest \<leftarrow> walk s mem (p + unat l) n; Some (bytes mem p (unat l) # rest) }"

text \<open>C31: packed records that stand one behind the other are found again: from the length of the key and of the addon fields, each of which may be packed or fixed, or from the length of the row reference, the walk
  computes the borders of the records that were written, without reading outside the buffer.\<close>

theorem packed_records_walk:
  assumes s: "packed_param s" and fit: "\<forall>r \<in> set rs. record_fits s r"
  shows "walk s (pre @ concat (map (record_image s) rs) @ post) (length pre) (length rs) = Some (map (record_image s) rs)"
  using fit
proof (induction rs arbitrary: pre)
  case (Cons r rs)
  let ?mem = "pre @ record_image s r @ concat (map (record_image s) rs) @ post"
  have fits: "record_fits s r" using Cons.prems by simp
  have at: "at_record ?mem (length pre) (record_image s r)" by (simp add: at_record_def bytes_def)
  have "length (record_image s r) < 2 ^ 32" using fits by (simp add: record_fits_def)
  then have u: "unat (of_nat (length (record_image s r)) :: uint) = length (record_image s r)" by (simp only: unat_of_nat) simp
  have "walk s ?mem (length pre + length (record_image s r)) (length rs) = Some (map (record_image s) rs)"
    using Cons.IH [of "pre @ record_image s r"] Cons.prems by simp
  then show ?case using record_lengths(2) [OF s fits at] u by (simp add: bytes_def)
qed simp

text \<open>The memory of a chunk.\<close>

definition chunk_area :: "Merge_chunk \<Rightarrow> nat set" where
  "chunk_area c = (case (m_buffer_start c, m_buffer_end c) of (Some s, Some e) \<Rightarrow> {s..<e} | _ \<Rightarrow> {})"

definition chunk_ok :: "Merge_chunk \<Rightarrow> bool" where
  "chunk_ok c \<longleftrightarrow> (\<exists>s e. m_buffer_start c = Some s \<and> m_buffer_end c = Some e \<and> s \<le> e)"

text \<open>the memory of a chunk that is used up goes to a neighbour: when \<open>merge_freed_buff\<close> succeeds the other chunk has exactly the memory of both, and stays apart from every chunk that was apart from both; it
  fails, without a change, only if the two are not neighbours.\<close>

theorem merge_freed_buff_area:
  assumes a: "chunk_ok a" and c: "chunk_ok c" and r: "merge_freed_buff a c = (ok, c')"
  shows "chunk_ok c' \<and>
    (if ok then chunk_area c' = chunk_area a \<union> chunk_area c \<and> m_max_keys c' = m_max_keys a + m_max_keys c else c' = c \<and> m_buffer_end c \<noteq> m_buffer_start a \<and> m_buffer_start c \<noteq> m_buffer_end a) \<and>
    (chunk_area x \<inter> (chunk_area a \<union> chunk_area c) = {} \<longrightarrow> chunk_area x \<inter> chunk_area c' = {})"
proof -
  obtain s e s' e' where "m_buffer_start a = Some s" "m_buffer_end a = Some e" "s \<le> e" "m_buffer_start c = Some s'" "m_buffer_end c = Some e'" "s' \<le> e'"
    using a c by (auto simp: chunk_ok_def)
  then have "chunk_ok c'" "if ok then chunk_area c' = chunk_area a \<union> chunk_area c \<and> m_max_keys c' = m_max_keys a + m_max_keys c else c' = c \<and> m_buffer_end c \<noteq> m_buffer_start a \<and> m_buffer_start c \<noteq> m_buffer_end a"
    using r by (auto simp: merge_freed_buff_def chunk_ok_def chunk_area_def split: if_splits)
  then show ?thesis by (auto split: if_splits)
qed

definition param0 :: Sort_param where
  "param0 = \<lparr>rec_length = 60, sort_length = 40, addon_length = 20, res_length = 20, addon_fields = True, m_packed_addons = True, m_packed_sortkeys = True, m_packed_format = True\<rparr>"

theorem packed_records_walk_witness:
  "walk param0 ([9] @ concat (map (record_image param0) [([1, 2], [3]), ([4], [5, 6])]) @ []) 1 2 = Some (map (record_image param0) [([1, 2], [3]), ([4], [5, 6])])"
proof -
  have "packed_param param0" by (simp add: packed_param_def param0_def)
  moreover have "\<forall>r \<in> set [([1, 2], [3]), ([4], [5, 6])]. record_fits param0 r"
    using sortkey_length_stored [of 0 "replicate 4 0"] addon_length_stored [of 0 "replicate 2 0"]
    by (auto simp: record_fits_def param0_def record_image_def key_image_def tail_image_def store_sortkey_length_def store_addon_length_def)
  ultimately show ?thesis using packed_records_walk [of param0 "[([1, 2], [3]), ([4], [5, 6])]" "[9]" "[]"] by (simp add: numeral_2_eq_2)
qed

theorem merge_freed_buff_area_witness:
  "chunk_area (snd (merge_freed_buff (set_buffer (Some 10) (Some 20) merge_chunk_init) (set_buffer (Some 0) (Some 10) merge_chunk_init))) = {0..<20}"
proof -
  let ?a = "set_buffer (Some 10) (Some 20) merge_chunk_init" and ?c = "set_buffer (Some 0) (Some 10) merge_chunk_init"
  have "chunk_ok ?a" "chunk_ok ?c" by (simp_all add: chunk_ok_def set_buffer_def)
  moreover have "merge_freed_buff ?a ?c = (True, ?c\<lparr>m_buffer_end := Some 20, m_max_keys := m_max_keys ?c + m_max_keys ?a\<rparr>)" (is "_ = (_, ?r)") by (simp add: merge_freed_buff_def set_buffer_def)
  ultimately have "chunk_area ?r = chunk_area ?a \<union> chunk_area ?c" using merge_freed_buff_area [of ?a ?c True ?r ?a] by simp
  then show ?thesis by (auto simp: merge_freed_buff_def chunk_area_def set_buffer_def)
qed

end
