(* ===== verification/Discrete_Interval.thy ===== *)
theory Discrete_Interval imports Prelude "HOL-Library.Monad_Syntax" begin

text \<open>
  \<open>private/structs.h\<close>, \<open>Discrete_interval\<close> and \<open>Discrete_intervals_list\<close>: the values that a statement reserved for an auto-increment column, and \<open>private/sql_class.h\<close>, the functions of \<open>THD\<close>
  that keep the insert ids of a session. The nodes of a list live in a store; a node that was deleted is gone. \<open>append\<close> is only declared in the header: it is an argument of \<open>force_one_auto_inc_interval\<close>.
\<close>

section \<open>Intervals\<close>

record Discrete_interval =
  interval_min :: ulonglong
  interval_values :: ulonglong
  interval_max :: ulonglong
  d_next :: "nat option"

definition ULONGLONG_MAX :: ulonglong where "ULONGLONG_MAX = - 1"

definition replace :: "ulonglong \<Rightarrow> ulonglong \<Rightarrow> ulonglong \<Rightarrow> Discrete_interval \<Rightarrow> Discrete_interval" where
  "replace start val incr i = i\<lparr>interval_min := start, interval_values := val, interval_max := (if val = ULONGLONG_MAX then val else start + val * incr)\<rparr>"

definition discrete_interval :: "ulonglong \<Rightarrow> ulonglong \<Rightarrow> ulonglong \<Rightarrow> Discrete_interval" where
  "discrete_interval start val incr = replace start val incr \<lparr>interval_min = 0, interval_values = 0, interval_max = 0, d_next = None\<rparr>"

text \<open>The result \<open>False\<close> means that the intervals were merged.\<close>

definition merge_if_contiguous :: "ulonglong \<Rightarrow> ulonglong \<Rightarrow> ulonglong \<Rightarrow> Discrete_interval \<Rightarrow> bool \<times> Discrete_interval" where
  "merge_if_contiguous start val incr i =
     (if interval_max i = start
      then (False, if val = ULONGLONG_MAX then i\<lparr>interval_values := val, interval_max := val\<rparr>
                   else i\<lparr>interval_values := interval_values i + val, interval_max := start + val * incr\<rparr>)
      else (True, i))"

section \<open>Lists of intervals\<close>

type_synonym interval_store = "nat \<rightharpoonup> Discrete_interval"

record Discrete_intervals_list =
  dl_head :: "nat option"
  dl_tail :: "nat option"
  dl_current :: "nat option"
  dl_elements :: uint

definition set_members :: "nat option \<Rightarrow> nat option \<Rightarrow> nat option \<Rightarrow> uint \<Rightarrow> Discrete_intervals_list \<Rightarrow> Discrete_intervals_list" where
  "set_members h t c el l = l\<lparr>dl_head := h, dl_tail := t, dl_current := c, dl_elements := el\<rparr>"

text \<open>The constructor leaves the tail as it is.\<close>

definition dil_init :: "Discrete_intervals_list \<Rightarrow> Discrete_intervals_list" where
  "dil_init old = old\<lparr>dl_head := None, dl_current := None, dl_elements := 0\<rparr>"

definition empty_no_free :: "Discrete_intervals_list \<Rightarrow> Discrete_intervals_list" where
  "empty_no_free l = set_members None None None 0 l"

partial_function (option) delete_loop :: "nat option \<Rightarrow> interval_store \<Rightarrow> interval_store option" where
  "delete_loop i m = (case i of None \<Rightarrow> Some m | Some a \<Rightarrow> do { x \<leftarrow> m a; delete_loop (d_next x) (m(a := None)) })"

definition dil_empty :: "interval_store \<Rightarrow> Discrete_intervals_list \<Rightarrow> (interval_store \<times> Discrete_intervals_list) option" where
  "dil_empty m l = do { m1 \<leftarrow> delete_loop (dl_head l) m; Some (m1, empty_no_free l) }"

definition copy_shallow :: "Discrete_intervals_list \<Rightarrow> Discrete_intervals_list \<Rightarrow> Discrete_intervals_list" where
  "copy_shallow dli l = l\<lparr>dl_head := dl_head dli, dl_tail := dl_tail dli, dl_current := dl_current dli, dl_elements := dl_elements dli\<rparr>"

text \<open>\<open>swap\<close> returns this list and the other one.\<close>

definition dil_swap :: "Discrete_intervals_list \<Rightarrow> Discrete_intervals_list \<Rightarrow> Discrete_intervals_list \<times> Discrete_intervals_list" where
  "dil_swap dli l =
     (let h = dl_head dli; t = dl_tail dli; c = dl_current dli; el = dl_elements dli;
          dli1 = copy_shallow l dli
      in (set_members h t c el l, dli1))"

definition get_next_interval :: "interval_store \<Rightarrow> Discrete_intervals_list \<Rightarrow> (nat option \<times> Discrete_intervals_list) option" where
  "get_next_interval m l =
     (case dl_current l of None \<Rightarrow> Some (None, l) | Some a \<Rightarrow> do { x \<leftarrow> m a; Some (Some a, l\<lparr>dl_current := d_next x\<rparr>) })"

definition dil_minimum :: "interval_store \<Rightarrow> Discrete_intervals_list \<Rightarrow> ulonglong option" where
  "dil_minimum m l = (case dl_head l of None \<Rightarrow> Some 0 | Some a \<Rightarrow> map_option interval_min (m a))"

definition dil_maximum :: "interval_store \<Rightarrow> Discrete_intervals_list \<Rightarrow> ulonglong option" where
  "dil_maximum m l = (case dl_head l of None \<Rightarrow> Some 0 | Some _ \<Rightarrow> do { a \<leftarrow> dl_tail l; x \<leftarrow> m a; Some (interval_max x) })"

section \<open>Insert ids of a session\<close>

record THD_insert_ids =
  first_successful_insert_id_in_cur_stmt :: ulonglong
  first_successful_insert_id_in_prev_stmt :: ulonglong
  first_successful_insert_id_in_prev_stmt_for_binlog :: ulonglong
  stmt_depends_on_first_successful_insert_id_in_prev_stmt :: bool
  auto_inc_intervals_forced :: Discrete_intervals_list

definition record_first_successful_insert_id_in_cur_stmt :: "ulonglong \<Rightarrow> THD_insert_ids \<Rightarrow> THD_insert_ids" where
  "record_first_successful_insert_id_in_cur_stmt id_arg t =
     (if first_successful_insert_id_in_cur_stmt t = 0 then t\<lparr>first_successful_insert_id_in_cur_stmt := id_arg\<rparr> else t)"

definition read_first_successful_insert_id_in_prev_stmt :: "THD_insert_ids \<Rightarrow> ulonglong \<times> THD_insert_ids" where
  "read_first_successful_insert_id_in_prev_stmt t =
     (first_successful_insert_id_in_prev_stmt t,
      if \<not> stmt_depends_on_first_successful_insert_id_in_prev_stmt t
      then t\<lparr>first_successful_insert_id_in_prev_stmt_for_binlog := first_successful_insert_id_in_prev_stmt t, stmt_depends_on_first_successful_insert_id_in_prev_stmt := True\<rparr>
      else t)"

definition force_one_auto_inc_interval ::
  "(ulonglong \<Rightarrow> ulonglong \<Rightarrow> ulonglong \<Rightarrow> interval_store \<Rightarrow> Discrete_intervals_list \<Rightarrow> interval_store \<times> Discrete_intervals_list) \<Rightarrow> ulonglong \<Rightarrow> interval_store \<Rightarrow> THD_insert_ids \<Rightarrow>
    (interval_store \<times> THD_insert_ids) option" where
  "force_one_auto_inc_interval append_op next_id m t =
     do { (m1, l1) \<leftarrow> dil_empty m (auto_inc_intervals_forced t);
          let (m2, l2) = append_op next_id ULONGLONG_MAX 0 m1 l1;
          Some (m2, t\<lparr>auto_inc_intervals_forced := l2\<rparr>) }"

section \<open>The values of an interval\<close>

text \<open>The values are exact, and the bound is not reached by the count that stands for no limit.\<close>

definition interval_ok :: "ulonglong \<Rightarrow> Discrete_interval \<Rightarrow> bool" where
  "interval_ok incr i \<longleftrightarrow> interval_values i \<noteq> ULONGLONG_MAX \<and> unat (interval_max i) = unat (interval_min i) + unat (interval_values i) * unat incr"

definition values_of :: "ulonglong \<Rightarrow> Discrete_interval \<Rightarrow> nat set" where
  "values_of incr i = (\<lambda>k. unat (interval_min i) + k * unat incr) ` {..<unat (interval_values i)}"

lemma unat_linear:
  assumes "unat a + unat v * unat c < 2 ^ 64"
  shows "unat (a + v * c :: ulonglong) = unat a + unat v * unat c"
proof -
  have "unat v * unat c < 2 ^ 64" using assms by simp
  then have "unat (v * c) = unat v * unat c" by (simp add: unat_word_ariths)
  then show ?thesis using assms by (simp add: unat_word_ariths)
qed

lemma replace_ok: "val \<noteq> ULONGLONG_MAX \<Longrightarrow> unat start + unat val * unat incr < 2 ^ 64 \<Longrightarrow> interval_ok incr (replace start val incr i)"
  by (simp add: interval_ok_def replace_def unat_linear)

lemma merge_exact:
  assumes i: "interval_ok incr i" and v: "val \<noteq> ULONGLONG_MAX" and b: "unat start + unat val * unat incr < 2 ^ 64" and c: "unat (interval_values i) + unat val < 2 ^ 64 - 1"
    and m: "interval_max i = start"
  shows "\<exists>i'. merge_if_contiguous start val incr i = (False, i') \<and> interval_ok incr i' \<and> interval_min i' = interval_min i \<and>
    values_of incr i' = values_of incr i \<union> values_of incr (discrete_interval start val incr)"
proof -
  let ?i = "i\<lparr>interval_values := interval_values i + val, interval_max := start + val * incr\<rparr>"
  have u: "unat (interval_values i + val) = unat (interval_values i) + unat val" using c by (intro unat_add_small) simp
  have "unat (interval_values i + val) \<noteq> unat ULONGLONG_MAX" unfolding u using c by (simp add: ULONGLONG_MAX_def unsigned_minus_1_eq_mask mask_eq_exp_minus_1)
  then have "interval_values i + val \<noteq> ULONGLONG_MAX" by metis
  moreover have s: "unat start = unat (interval_min i) + unat (interval_values i) * unat incr" using i m by (simp add: interval_ok_def)
  ultimately have "interval_ok incr ?i" using unat_linear [OF b] u by (simp add: interval_ok_def algebra_simps)
  moreover have "values_of incr ?i = values_of incr i \<union> values_of incr (discrete_interval start val incr)"
  proof -
    have "{..<unat (interval_values i) + unat val} = {..<unat (interval_values i)} \<union> (\<lambda>k. unat (interval_values i) + k) ` {..<unat val}"
      by (auto simp: image_iff) (metis add_diff_inverse_nat add_less_cancel_left lessThan_iff)
    then have "(\<lambda>k. unat (interval_min i) + k * unat incr) ` {..<unat (interval_values i) + unat val} =
      (\<lambda>k. unat (interval_min i) + k * unat incr) ` {..<unat (interval_values i)} \<union> (\<lambda>k. unat start + k * unat incr) ` {..<unat val}"
      by (simp add: image_Un image_image s add_mult_distrib add.assoc)
    then show ?thesis by (simp add: values_of_def discrete_interval_def replace_def u)
  qed
  ultimately show ?thesis using m v by (simp add: merge_if_contiguous_def)
qed

section \<open>Lists\<close>

fun iseg :: "interval_store \<Rightarrow> nat option \<Rightarrow> nat list \<Rightarrow> bool" where
  "iseg m p [] = (p = None)"
| "iseg m p (a # as) = (p = Some a \<and> (\<exists>x. m a = Some x \<and> iseg m (d_next x) as))"

lemma iseg_cong: "\<forall>a \<in> set as. m' a = m a \<Longrightarrow> iseg m' p as = iseg m p as"
  by (induction as arbitrary: p) auto

lemma delete_loop_ok: "iseg m p as \<Longrightarrow> distinct as \<Longrightarrow> delete_loop p m = Some (m |` (- set as))"
proof (induction as arbitrary: p m)
  case Nil then show ?case by (subst delete_loop.simps) (simp add: restrict_map_def)
next
  case (Cons a as)
  then obtain x where x: "p = Some a" "m a = Some x" "iseg m (d_next x) as" by auto
  then have "iseg (m(a := None)) (d_next x) as" using Cons.prems(2) by (subst iseg_cong [of as _ m]) auto
  then have "delete_loop (d_next x) (m(a := None)) = Some ((m(a := None)) |` (- set as))" by (rule Cons.IH) (use Cons.prems(2) in simp)
  moreover have "(m(a := None)) |` (- set as) = m |` (- set (a # as))" by (auto simp: restrict_map_def fun_eq_iff)
  ultimately show ?case using x by (subst delete_loop.simps) simp
qed

text \<open>Taking intervals one by one.\<close>

fun take_all :: "interval_store \<Rightarrow> nat \<Rightarrow> Discrete_intervals_list \<Rightarrow> nat option list option" where
  "take_all m 0 l = Some []"
| "take_all m (Suc n) l = do { (a, l1) \<leftarrow> get_next_interval m l; as \<leftarrow> take_all m n l1; Some (a # as) }"

lemma take_none: "dl_current l = None \<Longrightarrow> take_all m n l = Some (replicate n None)"
  by (induction n) (simp_all add: get_next_interval_def)

lemma take_all_ok: "iseg m (dl_current l) as \<Longrightarrow> take_all m (length as + n) l = Some (map Some as @ replicate n None)"
proof (induction as arbitrary: l)
  case Nil then show ?case by (simp add: take_none)
next
  case (Cons a as)
  then obtain x where x: "dl_current l = Some a" "m a = Some x" "iseg m (d_next x) as" by auto
  then have "take_all m (length as + n) (l\<lparr>dl_current := d_next x\<rparr>) = Some (map Some as @ replicate n None)" using Cons.IH by simp
  then show ?case using x by (simp add: get_next_interval_def)
qed

section \<open>Properties\<close>

text \<open>intervals of auto-increment values: an interval that starts where another ends, with the same increment and without overflow, is merged into it, and the result holds the values of both; a list gives its
  intervals in order and then none; emptying it deletes every node once and no other; \<open>swap\<close> exchanges two lists.\<close>

theorem auto_increment_intervals:
  assumes i: "interval_ok incr i" and v: "val \<noteq> ULONGLONG_MAX" "unat start + unat val * unat incr < 2 ^ 64" "unat (interval_values i) + unat val < 2 ^ 64 - 1"
    and l: "iseg m (dl_head l) as" "distinct as" and c: "iseg m (dl_current l) cs"
  shows "(case merge_if_contiguous start val incr i of (failed, i') \<Rightarrow>
      if failed then i' = i \<and> interval_max i \<noteq> start else interval_ok incr i' \<and> values_of incr i' = values_of incr i \<union> values_of incr (discrete_interval start val incr)) \<and>
    take_all m (length cs + n) l = Some (map Some cs @ replicate n None) \<and>
    dil_empty m l = Some (m |` (- set as), empty_no_free l) \<and> dl_head (empty_no_free l) = None \<and>
    dil_swap l k = (l, k)"
proof (intro conjI)
  show "case merge_if_contiguous start val incr i of (failed, i') \<Rightarrow>
      if failed then i' = i \<and> interval_max i \<noteq> start else interval_ok incr i' \<and> values_of incr i' = values_of incr i \<union> values_of incr (discrete_interval start val incr)"
  proof (cases "interval_max i = start")
    case True
    then show ?thesis using merge_exact [OF i v True] by auto
  qed (simp add: merge_if_contiguous_def)
  show "take_all m (length cs + n) l = Some (map Some cs @ replicate n None)" by (rule take_all_ok [OF c])
  show "dil_empty m l = Some (m |` (- set as), empty_no_free l)" using delete_loop_ok [OF l] by (simp add: dil_empty_def)
  show "dl_head (empty_no_free l) = None" by (simp add: empty_no_free_def set_members_def)
  show "dil_swap l k = (l, k)" by (simp add: dil_swap_def copy_shallow_def set_members_def Let_def)
qed

definition intervals0 :: interval_store where
  "intervals0 = [3 \<mapsto> (discrete_interval 1 2 1)\<lparr>d_next := Some 8\<rparr>, 8 \<mapsto> discrete_interval 10 5 1]"

definition list0 :: Discrete_intervals_list where
  "list0 = \<lparr>dl_head = Some 3, dl_tail = Some 8, dl_current = Some 3, dl_elements = 2\<rparr>"

theorem auto_increment_intervals_witness:
  "take_all intervals0 3 list0 = Some [Some 3, Some 8, None] \<and> \<not> fst (merge_if_contiguous 3 4 1 (discrete_interval 1 2 1)) \<and> values_of 1 (snd (merge_if_contiguous 3 4 1 (discrete_interval 1 2 1))) = {1..<7}"
proof -
  let ?i = "discrete_interval 1 2 1"
  have i: "interval_ok 1 ?i" by (simp add: interval_ok_def discrete_interval_def replace_def ULONGLONG_MAX_def)
  have s: "iseg intervals0 (dl_head list0) [3, 8]" "distinct [3, 8 :: nat]" "iseg intervals0 (dl_current list0) [3, 8]" by (simp_all add: intervals0_def list0_def discrete_interval_def replace_def)
  have v: "(4 :: ulonglong) \<noteq> ULONGLONG_MAX" "unat (3 :: ulonglong) + unat (4 :: ulonglong) * unat (1 :: ulonglong) < 2 ^ 64" "unat (interval_values ?i) + unat (4 :: ulonglong) < 2 ^ 64 - 1"
    by (simp_all add: ULONGLONG_MAX_def discrete_interval_def replace_def)
  have "merge_if_contiguous 3 4 1 ?i = (False, ?i\<lparr>interval_values := 6, interval_max := 7\<rparr>)" by (simp add: merge_if_contiguous_def discrete_interval_def replace_def ULONGLONG_MAX_def)
  moreover have "take_all intervals0 (length [3, 8 :: nat] + 1) list0 = Some (map Some [3, 8] @ replicate 1 None)"
    using auto_increment_intervals [OF i v s, of 1 list0] by blast
  moreover have "values_of 1 (?i\<lparr>interval_values := 6, interval_max := 7\<rparr>) = {1..<7}"
  proof -
    have "(\<lambda>k. 1 + k * 1) ` {..<6 :: nat} = {1..<7}" by (simp add: image_Suc_lessThan atLeastLessThanSuc_atLeastAtMost numeral_eq_Suc flip: lessThan_Suc_atMost)
    then show ?thesis by (simp add: values_of_def discrete_interval_def replace_def)
  qed
  ultimately show ?thesis by (simp add: numeral_3_eq_3)
qed

end
