(* ===== verification/Histogram.thy ===== *)
theory Histogram imports Byte_Order "HOL-Library.Signed_Division" "HOL-Library.Monad_Syntax" begin

text \<open>
  \<open>private/sql_statistics.h\<close>: the height-balanced histogram of the optimizer (class \<open>Histogram_binary\<close>), the counters collected while it is built (\<open>Basic_stats_collector\<close>) and the bitmap of
  the statistics a column has (\<open>Column_statistics\<close>). \<open>values\<close> is the contents of the value array; a read or write outside of it is \<open>None\<close>. The C expression that multiplies a \<open>double\<close> by the
  precision factor and truncates the product is the parameter \<open>mul_trunc\<close>: nothing is assumed of it. The loop of the binary search is a partial function: the outer \<open>option\<close> of its
  result says whether it ends. The selectivity estimates, parsing and serialisation are only declared in the header.
\<close>

section \<open>State\<close>

datatype Histogram_type = SINGLE_PREC_HB | DOUBLE_PREC_HB | JSON_HB | INVALID_HISTOGRAM

record Histogram_binary =
  hist_type :: Histogram_type
  hist_size :: uint8
  hist_values :: buffer

fun prec_factor :: "Histogram_type \<Rightarrow> uint" where
  "prec_factor SINGLE_PREC_HB = push_bit 8 1 - 1"
| "prec_factor DOUBLE_PREC_HB = push_bit 16 1 - 1"
| "prec_factor _ = 1"

definition get_width :: "Histogram_binary \<Rightarrow> uint" where
  "get_width h = (case hist_type h of
     SINGLE_PREC_HB \<Rightarrow> ucast (hist_size h)
   | DOUBLE_PREC_HB \<Rightarrow> ucast (hist_size h) div 2
   | _ \<Rightarrow> 0)"

definition get_value :: "Histogram_binary \<Rightarrow> uint \<Rightarrow> uint option" where
  "get_value h i = (case hist_type h of
     SINGLE_PREC_HB \<Rightarrow> if unat i < length (hist_values h) then Some (ucast (hist_values h ! unat i)) else None
   | DOUBLE_PREC_HB \<Rightarrow>
       if unat (i * 2) + 2 \<le> length (hist_values h) then Some (ucast (uint2korr (hist_values h) (unat (i * 2)))) else None
   | _ \<Rightarrow> Some 0)"

definition get_size :: "Histogram_binary \<Rightarrow> uint" where
  "get_size h = ucast (hist_size h)"

definition get_type :: "Histogram_binary \<Rightarrow> Histogram_type" where
  "get_type h = hist_type h"

definition set_value :: "('d \<Rightarrow> uint \<Rightarrow> uint) \<Rightarrow> Histogram_binary \<Rightarrow> uint \<Rightarrow> 'd \<Rightarrow> Histogram_binary option" where
  "set_value mul_trunc h i val = (case hist_type h of
     SINGLE_PREC_HB \<Rightarrow>
       if unat i < length (hist_values h)
       then Some (h\<lparr>hist_values := (hist_values h)[unat i := ucast (mul_trunc val (prec_factor (hist_type h)))]\<rparr>)
       else None
   | DOUBLE_PREC_HB \<Rightarrow>
       if unat (i * 2) + 2 \<le> length (hist_values h)
       then Some (h\<lparr>hist_values := int2store (hist_values h) (unat (i * 2)) (ucast (mul_trunc val (prec_factor (hist_type h))))\<rparr>)
       else None
   | _ \<Rightarrow> Some h)"

definition set_prev_value :: "Histogram_binary \<Rightarrow> uint \<Rightarrow> Histogram_binary option" where
  "set_prev_value h i = (case hist_type h of
     SINGLE_PREC_HB \<Rightarrow>
       if i \<noteq> 0 \<and> unat i < length (hist_values h)
       then Some (h\<lparr>hist_values := (hist_values h)[unat i := hist_values h ! unat (i - 1)]\<rparr>)
       else None
   | DOUBLE_PREC_HB \<Rightarrow>
       if i * 2 \<noteq> 0 \<and> unat (i * 2) + 2 \<le> length (hist_values h)
       then Some (h\<lparr>hist_values := int2store (hist_values h) (unat (i * 2)) (ucast (uint2korr (hist_values h) (unat (i * 2) - 2)))\<rparr>)
       else None
   | _ \<Rightarrow> Some h)"

section \<open>find_bucket\<close>

text \<open>The binary search; \<open>d\<close> is the distance of the probe \<open>i\<close> from the left end.\<close>

partial_function (option) find_loop :: "Histogram_binary \<Rightarrow> uint \<Rightarrow> int \<Rightarrow> int \<Rightarrow> int \<Rightarrow> uint \<Rightarrow> uint option option" where
  "find_loop h val lp rp d i =
     (if d = 0 then Some (Some i)
      else case get_value h i of
        None \<Rightarrow> Some None
      | Some v \<Rightarrow>
          if val = v then Some (Some i)
          else if val < v then
            find_loop h val lp (sint i) ((sint i - lp) sdiv 2) (word_of_int (lp + (sint i - lp) sdiv 2))
          else case get_value h (i + 1) of
            None \<Rightarrow> Some None
          | Some v1 \<Rightarrow>
              if v1 < val then
                find_loop h val (sint (i + 1)) rp ((rp - sint (i + 1)) sdiv 2) (word_of_int (sint (i + 1) + (rp - sint (i + 1)) sdiv 2))
              else Some (Some i))"

function scan_first :: "Histogram_binary \<Rightarrow> uint \<Rightarrow> uint \<Rightarrow> uint option" where
  "scan_first h val i =
     (if i \<noteq> 0 then
        (case get_value h (i - 1) of
           None \<Rightarrow> None
         | Some v \<Rightarrow> if val = v then scan_first h val (i - 1) else Some i)
      else Some i)"
  by pat_completeness auto
termination
  by (relation "measure (\<lambda>(h, val, i). unat i)") (auto simp: measure_unat)

function scan_last :: "Histogram_binary \<Rightarrow> uint \<Rightarrow> uint \<Rightarrow> uint option" where
  "scan_last h val i =
     (if i + 1 < get_width h then
        (case get_value h (i + 1) of
           None \<Rightarrow> None
         | Some v \<Rightarrow> if val = v then scan_last h val (i + 1) else Some i)
      else Some i)"
  by pat_completeness auto
termination
proof (relation "measure (\<lambda>(h, val, i). unat (get_width h - 1 - i))", goal_cases)
  case 1
  show ?case by simp
next
  case (2 h val i)
  let ?n = "get_width h - 1 - i"
  have "?n \<noteq> 0" using 2(1) by auto
  then have "unat (?n - 1) < unat ?n"
    by (metis measure_unat)
  moreover have "get_width h - 1 - (i + 1) = ?n - 1" by simp
  ultimately show ?case by simp
qed

declare scan_first.simps [simp del] scan_last.simps [simp del]

definition find_bucket :: "('d \<Rightarrow> uint \<Rightarrow> uint) \<Rightarrow> Histogram_binary \<Rightarrow> 'd \<Rightarrow> bool \<Rightarrow> uint option option" where
  "find_bucket mul_trunc h pos first =
     (let val = mul_trunc pos (prec_factor (hist_type h));
          lp = 0;
          rp = sint (get_width h - 1);
          d = sint (get_width h div 2)
      in case find_loop h val lp rp d (word_of_int (lp + d)) of
           None \<Rightarrow> None
         | Some None \<Rightarrow> Some None
         | Some (Some i) \<Rightarrow> Some (do {
             v \<leftarrow> get_value h i;
             let i = (if v < val \<and> i < get_width h - 1 then i + 1 else i);
             v \<leftarrow> get_value h i;
             if val = v then (if first then scan_first h val i else scan_last h val i) else Some i
           }))"

section \<open>Basic_stats_collector\<close>

record Basic_stats_collector =
  bs_count :: ulonglong
  bs_count_distinct :: ulonglong
  bs_count_distinct_single_occurence :: ulonglong

definition bs_init :: Basic_stats_collector where
  "bs_init = \<lparr>bs_count = 0, bs_count_distinct = 0, bs_count_distinct_single_occurence = 0\<rparr>"

definition bs_next :: "Basic_stats_collector \<Rightarrow> uint32 \<Rightarrow> Basic_stats_collector" where
  "bs_next s elem_cnt =
     (let s = s\<lparr>bs_count_distinct := bs_count_distinct s + 1\<rparr>;
          s = (if elem_cnt = 1 then s\<lparr>bs_count_distinct_single_occurence := bs_count_distinct_single_occurence s + 1\<rparr> else s)
      in s\<lparr>bs_count := bs_count s + ucast elem_cnt\<rparr>)"

definition get_count_distinct :: "Basic_stats_collector \<Rightarrow> ulonglong" where "get_count_distinct s = bs_count_distinct s"
definition get_count_single_occurence :: "Basic_stats_collector \<Rightarrow> ulonglong" where
  "get_count_single_occurence s = bs_count_distinct_single_occurence s"
definition get_count :: "Basic_stats_collector \<Rightarrow> ulonglong" where "get_count s = bs_count s"

section \<open>Column_statistics\<close>

datatype enum_column_stat_col = COLUMN_STAT_DB_NAME | COLUMN_STAT_TABLE_NAME | COLUMN_STAT_COLUMN_NAME
  | COLUMN_STAT_MIN_VALUE | COLUMN_STAT_MAX_VALUE | COLUMN_STAT_NULLS_RATIO | COLUMN_STAT_AVG_LENGTH
  | COLUMN_STAT_AVG_FREQUENCY | COLUMN_STAT_HIST_SIZE | COLUMN_STAT_HIST_TYPE | COLUMN_STAT_HISTOGRAM
  | COLUMN_STAT_N_FIELDS

fun stat_col_no :: "enum_column_stat_col \<Rightarrow> nat" where
  "stat_col_no COLUMN_STAT_DB_NAME = 0"
| "stat_col_no COLUMN_STAT_TABLE_NAME = 1"
| "stat_col_no COLUMN_STAT_COLUMN_NAME = 2"
| "stat_col_no COLUMN_STAT_MIN_VALUE = 3"
| "stat_col_no COLUMN_STAT_MAX_VALUE = 4"
| "stat_col_no COLUMN_STAT_NULLS_RATIO = 5"
| "stat_col_no COLUMN_STAT_AVG_LENGTH = 6"
| "stat_col_no COLUMN_STAT_AVG_FREQUENCY = 7"
| "stat_col_no COLUMN_STAT_HIST_SIZE = 8"
| "stat_col_no COLUMN_STAT_HIST_TYPE = 9"
| "stat_col_no COLUMN_STAT_HISTOGRAM = 10"
| "stat_col_no COLUMN_STAT_N_FIELDS = 11"

record Column_statistics =
  column_stat_nulls :: uint32
  nulls_ratio :: ulong
  avg_length :: ulonglong
  avg_frequency :: ulonglong

definition no_values_provided_bitmap :: uint32 where
  "no_values_provided_bitmap =
     push_bit (stat_col_no COLUMN_STAT_COLUMN_NAME + 1)
       (push_bit (stat_col_no COLUMN_STAT_HISTOGRAM - stat_col_no COLUMN_STAT_COLUMN_NAME) 1 - 1)"

definition set_all_nulls :: "Column_statistics \<Rightarrow> Column_statistics" where
  "set_all_nulls c = c\<lparr>column_stat_nulls := no_values_provided_bitmap\<rparr>"

definition set_not_null :: "Column_statistics \<Rightarrow> enum_column_stat_col \<Rightarrow> Column_statistics" where
  "set_not_null c stat_field_no = c\<lparr>column_stat_nulls := column_stat_nulls c AND NOT (push_bit (stat_col_no stat_field_no) 1)\<rparr>"

definition is_null :: "Column_statistics \<Rightarrow> enum_column_stat_col \<Rightarrow> bool" where
  "is_null c stat_field_no \<longleftrightarrow> column_stat_nulls c AND push_bit (stat_col_no stat_field_no) 1 \<noteq> 0"

definition min_max_values_are_provided :: "Column_statistics \<Rightarrow> bool" where
  "min_max_values_are_provided c \<longleftrightarrow> \<not> is_null c COLUMN_STAT_MIN_VALUE \<and> \<not> is_null c COLUMN_STAT_MAX_VALUE"

definition no_stat_values_provided :: "Column_statistics \<Rightarrow> bool" where
  "no_stat_values_provided c \<longleftrightarrow> column_stat_nulls c = no_values_provided_bitmap"

definition set_nulls_ratio :: "('d \<Rightarrow> uint \<Rightarrow> ulong) \<Rightarrow> Column_statistics \<Rightarrow> 'd \<Rightarrow> Column_statistics" where
  "set_nulls_ratio mul_trunc c val = c\<lparr>nulls_ratio := mul_trunc val 100000\<rparr>"

definition set_avg_length :: "('d \<Rightarrow> uint \<Rightarrow> ulonglong) \<Rightarrow> Column_statistics \<Rightarrow> 'd \<Rightarrow> Column_statistics" where
  "set_avg_length mul_trunc c val = c\<lparr>avg_length := mul_trunc val 100000\<rparr>"

definition set_avg_frequency :: "('d \<Rightarrow> uint \<Rightarrow> ulonglong) \<Rightarrow> Column_statistics \<Rightarrow> 'd \<Rightarrow> Column_statistics" where
  "set_avg_frequency mul_trunc c val = c\<lparr>avg_frequency := mul_trunc val 100000\<rparr>"

datatype Use_stat_tables_mode = NEVER | COMPLEMENTARY | PREFERABLY | COMPLEMENTARY_FOR_QUERIES | PREFERABLY_FOR_QUERIES

definition check_eits_collection_allowed :: "Use_stat_tables_mode \<Rightarrow> bool" where
  "check_eits_collection_allowed mode \<longleftrightarrow> mode = COMPLEMENTARY \<or> mode = PREFERABLY"

definition check_eits_preferred :: "Use_stat_tables_mode \<Rightarrow> bool" where
  "check_eits_preferred mode \<longleftrightarrow> mode = PREFERABLY \<or> mode = PREFERABLY_FOR_QUERIES"

section \<open>Access to the values\<close>

definition hist_ok :: "Histogram_binary \<Rightarrow> bool" where
  "hist_ok h \<longleftrightarrow> length (hist_values h) = unat (hist_size h) \<and> hist_type h \<in> {SINGLE_PREC_HB, DOUBLE_PREC_HB}"

abbreviation width :: "Histogram_binary \<Rightarrow> nat" where "width h \<equiv> unat (get_width h)"

definition bucket :: "Histogram_binary \<Rightarrow> nat \<Rightarrow> uint" where
  "bucket h k = the (get_value h (of_nat k))"

definition hist_sorted :: "Histogram_binary \<Rightarrow> bool" where
  "hist_sorted h \<longleftrightarrow> (\<forall>j k. j \<le> k \<longrightarrow> k < width h \<longrightarrow> bucket h j \<le> bucket h k)"

lemma width_eq: "hist_ok h \<Longrightarrow> width h = (if hist_type h = SINGLE_PREC_HB then unat (hist_size h) else unat (hist_size h) div 2)"
  using unat_less_length [of "hist_size h"]
  by (auto simp: hist_ok_def get_width_def unat_div unat_ucast_mod split: Histogram_type.splits)

lemma width_small: "hist_ok h \<Longrightarrow> width h \<le> 255"
  using unat_less_length [of "hist_size h"] by (auto simp: width_eq)

lemma get_value_in: "hist_ok h \<Longrightarrow> unat i < width h \<Longrightarrow> get_value h i = Some (bucket h (unat i))"
proof -
  assume h: "hist_ok h" and i: "unat i < width h"
  then have "unat (i * 2) = unat i * 2"
    using width_small [OF h] by (simp add: unat_word_ariths)
  then have "get_value h i \<noteq> None"
    using h i by (auto simp: width_eq get_value_def hist_ok_def split: Histogram_type.splits if_splits)
  then show ?thesis
    by (auto simp: bucket_def)
qed

lemma get_value_out: "hist_ok h \<Longrightarrow> width h \<le> unat i \<Longrightarrow> unat i < 2 ^ 31 \<Longrightarrow> get_value h i = None"
proof -
  assume h: "hist_ok h" and i: "width h \<le> unat i" "unat i < 2 ^ 31"
  then have "unat (i * 2) = unat i * 2"
    by (simp add: unat_word_ariths)
  then show ?thesis
    using h i by (auto simp: width_eq get_value_def hist_ok_def split: Histogram_type.splits if_splits)
qed

section \<open>The search\<close>

definition loop_post :: "Histogram_binary \<Rightarrow> uint \<Rightarrow> nat \<Rightarrow> bool" where
  "loop_post h val i \<longleftrightarrow> i < width h \<and>
     (bucket h i = val \<or> ((i = 0 \<or> bucket h i < val) \<and> (i + 2 < width h \<longrightarrow> val \<le> bucket h (i + 1))))"

lemma small_word: "0 \<le> k \<Longrightarrow> k < 2 ^ 31 \<Longrightarrow> sint (word_of_int k :: uint) = k \<and> unat (word_of_int k :: uint) = nat k"
  by (auto simp: sint_word_ariths unat_eq_nat_uint uint_word_of_int signed_take_bit_int_eq_self sint_sbintrunc' take_bit_int_eq_self)

lemma half: "0 \<le> (k :: int) \<Longrightarrow> k sdiv 2 = k div 2"
  by (simp add: signed_divide_int_def sgn_if)

lemma find_loop_post:
  assumes h: "hist_ok h" "hist_sorted h"
    and "0 \<le> lp" "lp \<le> rp" "nat rp < width h" "0 \<le> d" "rp - lp \<le> 2 * d + 1"
    and "d \<noteq> 0 \<longrightarrow> lp + d < rp \<or> lp + d = rp \<and> val \<le> bucket h (nat rp)"
    and "lp = 0 \<or> bucket h (nat lp) < val" "nat rp + 1 = width h \<or> val < bucket h (nat rp)"
  shows "\<exists>i. find_loop h val lp rp d (word_of_int (lp + d)) = Some (Some i) \<and> loop_post h val (unat i)"
  using assms(3-)
proof (induction "nat d" arbitrary: lp rp d rule: less_induct)
  case less
  let ?i = "word_of_int (lp + d) :: uint"
  have W: "width h \<le> 255" by (rule width_small [OF h(1)])
  have le: "lp + d \<le> rp" using less.prems by (cases "d = 0") auto
  have i: "sint ?i = lp + d" "unat ?i = nat (lp + d)"
    using small_word [of "lp + d"] less.prems W le by auto
  have get: "get_value h ?i = Some (bucket h (nat (lp + d)))"
    using get_value_in [OF h(1), of ?i] i le less.prems by simp
  have mono: "j \<le> k \<Longrightarrow> k < width h \<Longrightarrow> bucket h j \<le> bucket h k" for j k
    using h(2) by (auto simp: hist_sorted_def)
  consider "d = 0" | "d \<noteq> 0" "val = bucket h (nat (lp + d))" | "d \<noteq> 0" "val < bucket h (nat (lp + d))"
    | "d \<noteq> 0" "bucket h (nat (lp + d)) < val"
    by (metis linorder_neqE)
  then show ?case
  proof cases
    case 1
    have "loop_post h val (nat lp)"
    proof -
      have "nat lp + 2 < width h \<Longrightarrow> val \<le> bucket h (nat lp + 1)"
      proof -
        assume lt: "nat lp + 2 < width h"
        then have v: "val < bucket h (nat rp)" using less.prems 1 by auto
        also have "bucket h (nat rp) \<le> bucket h (nat lp + 1)"
          using less.prems 1 lt by (intro mono) auto
        finally show ?thesis by simp
      qed
      then show ?thesis using less.prems by (auto simp: loop_post_def)
    qed
    then show ?thesis using 1 i by (subst find_loop.simps) simp
  next
    case 2
    then show ?thesis using i get le less.prems by (subst find_loop.simps) (auto simp: loop_post_def)
  next
    case 3
    have "\<exists>j. find_loop h val lp (lp + d) (d div 2) (word_of_int (lp + d div 2)) = Some (Some j) \<and> loop_post h val (unat j)"
      using less.prems 3 le by (intro less.hyps) (auto simp: not_le)
    then show ?thesis using 3 i get less.prems(4) by (subst find_loop.simps) (auto simp: half)
  next
    case 4
    have lt: "lp + d < rp" using less.prems 4 by auto
    have i1: "?i + 1 = word_of_int (lp + d + 1)" by (simp add: add.assoc)
    have s1: "sint (?i + 1) = lp + d + 1" "unat (?i + 1) = nat (lp + d) + 1"
      unfolding i1 using small_word [of "lp + d + 1"] less.prems W lt by auto
    have get1: "get_value h (?i + 1) = Some (bucket h (nat (lp + d) + 1))"
      using get_value_in [OF h(1), of "?i + 1"] s1 lt less.prems by simp
    show ?thesis
    proof (cases "bucket h (nat (lp + d) + 1) < val")
      case True
      let ?l = "lp + d + 1"
      have n: "nat ?l = nat (lp + d) + 1" using less.prems by simp
      have "\<exists>j. find_loop h val ?l rp ((rp - ?l) div 2) (word_of_int (?l + (rp - ?l) div 2)) = Some (Some j) \<and> loop_post h val (unat j)"
        using less.prems 4 lt True n by (intro less.hyps) (auto simp: not_le)
      then show ?thesis using True 4 i s1 get get1 lt by (subst find_loop.simps) (auto simp: half)
    next
      case False
      then have "loop_post h val (nat (lp + d))" using 4 lt less.prems by (auto simp: loop_post_def)
      then show ?thesis using False 4 i get get1 by (subst find_loop.simps) auto
    qed
  qed
qed

lemma scan_first_run:
  assumes "hist_ok h" "unat i < width h" "bucket h (unat i) = val"
  shows "\<exists>j. scan_first h val i = Some j \<and> unat j < width h \<and> bucket h (unat j) = val \<and> (unat j = 0 \<or> bucket h (unat j - 1) \<noteq> val)"
  using assms
proof (induction h val i rule: scan_first.induct)
  case (1 h val i)
  show ?case
  proof (cases "i = 0")
    case True
    then show ?thesis using "1.prems" by (subst scan_first.simps) auto
  next
    case False
    then have p: "unat (i - 1) = unat i - 1" by (rule unat_minus_one)
    then have "unat (i - 1) < width h" using "1.prems"(2) by (metis less_imp_diff_less)
    then have get: "get_value h (i - 1) = Some (bucket h (unat i - 1))"
      unfolding p [symmetric] by (rule get_value_in [OF "1.prems"(1)])
    show ?thesis
    proof (cases "val = bucket h (unat i - 1)")
      case True
      have lt: "unat (i - 1) < width h" using "1.prems"(2) unfolding p by (rule less_imp_diff_less)
      have eq: "bucket h (unat (i - 1)) = val" using p True by simp
      have "\<exists>j. scan_first h val (i - 1) = Some j \<and> unat j < width h \<and> bucket h (unat j) = val \<and> (unat j = 0 \<or> bucket h (unat j - 1) \<noteq> val)"
        by (rule 1(1) [OF False get True "1.prems"(1) lt eq])
      then show ?thesis using False get True by (subst scan_first.simps) simp
    next
      case F: False
      then show ?thesis using False get "1.prems" by (subst scan_first.simps) auto
    qed
  qed
qed

lemma scan_last_run:
  assumes "hist_ok h" "unat i < width h" "bucket h (unat i) = val"
  shows "\<exists>j. scan_last h val i = Some j \<and> unat j < width h \<and> bucket h (unat j) = val \<and> (unat j + 1 = width h \<or> bucket h (unat j + 1) \<noteq> val)"
  using assms
proof (induction h val i rule: scan_last.induct)
  case (1 h val i)
  have p: "unat (i + 1) = unat i + 1"
    using "1.prems" width_small [OF "1.prems"(1)] by (intro unat_Suc_word) simp
  show ?case
  proof (cases "i + 1 < get_width h")
    case False
    then have "unat i + 1 = width h" using "1.prems" p by (simp add: word_less_nat_alt)
    then show ?thesis using "1.prems" False by (subst scan_last.simps) auto
  next
    case True
    then have lt: "unat (i + 1) < width h" by (simp add: word_less_nat_alt)
    then have get: "get_value h (i + 1) = Some (bucket h (unat i + 1))"
      unfolding p [symmetric] by (rule get_value_in [OF "1.prems"(1)])
    show ?thesis
    proof (cases "val = bucket h (unat i + 1)")
      case eq: True
      then have "bucket h (unat (i + 1)) = val" using p by simp
      then have "\<exists>j. scan_last h val (i + 1) = Some j \<and> unat j < width h \<and> bucket h (unat j) = val \<and> (unat j + 1 = width h \<or> bucket h (unat j + 1) \<noteq> val)"
        by (rule 1(1) [OF True get eq "1.prems"(1) lt])
      then show ?thesis using True get eq by (subst scan_last.simps) simp
    next
      case ne: False
      then show ?thesis using True get "1.prems" by (subst scan_last.simps) auto
    qed
  qed
qed

text \<open>The reference: how many buckets lie below the value, or not above it.\<close>

definition buckets :: "Histogram_binary \<Rightarrow> uint list" where
  "buckets h = map (bucket h) [0..<width h]"

definition find_bucket_ref :: "uint list \<Rightarrow> uint \<Rightarrow> bool \<Rightarrow> nat" where
  "find_bucket_ref vs val first =
     (if first \<or> val \<notin> set vs then min (length (filter (\<lambda>v. v < val) vs)) (length vs - 1)
      else length (filter (\<lambda>v. v \<le> val) vs) - 1)"

lemma length_filter_prefix:
  assumes "j \<le> length vs" "\<forall>k < j. P (vs ! k)" "\<forall>k. j \<le> k \<longrightarrow> k < length vs \<longrightarrow> \<not> P (vs ! k)"
  shows "length (filter P vs) = j"
proof -
  have "filter P (take j vs) = take j vs"
    using assms by (auto simp: filter_id_conv in_set_conv_nth)
  moreover have "filter P (drop j vs) = []"
    using assms by (auto simp: filter_empty_conv in_set_conv_nth)
  ultimately have "filter P (take j vs @ drop j vs) = take j vs"
    by (simp only: filter_append append_Nil2)
  then show ?thesis using assms(1) by simp
qed

lemma below_count:
  assumes "hist_sorted h" "j < width h" "\<forall>k < j. bucket h k < val" "val \<le> bucket h j"
  shows "length (filter (\<lambda>v. v < val) (buckets h)) = j"
proof (rule length_filter_prefix)
  show "\<forall>k. j \<le> k \<longrightarrow> k < length (buckets h) \<longrightarrow> \<not> buckets h ! k < val"
  proof (intro allI impI)
    fix k assume "j \<le> k" "k < length (buckets h)"
    then have "bucket h j \<le> bucket h k" using assms(1) by (auto simp: hist_sorted_def buckets_def)
    then show "\<not> buckets h ! k < val" using assms(4) \<open>k < length (buckets h)\<close> by (auto simp: buckets_def)
  qed
qed (use assms in \<open>auto simp: buckets_def\<close>)

lemma up_to_count:
  assumes "hist_sorted h" "j < width h" "bucket h j = val" "j + 1 = width h \<or> bucket h (j + 1) \<noteq> val"
  shows "length (filter (\<lambda>v. v \<le> val) (buckets h)) = j + 1"
proof (rule length_filter_prefix)
  have mono: "a \<le> b \<Longrightarrow> b < width h \<Longrightarrow> bucket h a \<le> bucket h b" for a b
    using assms(1) by (auto simp: hist_sorted_def)
  show "\<forall>k < j + 1. buckets h ! k \<le> val"
    using assms(2,3) mono [of _ j] by (auto simp: buckets_def)
  show "\<forall>k. j + 1 \<le> k \<longrightarrow> k < length (buckets h) \<longrightarrow> \<not> buckets h ! k \<le> val"
  proof (intro allI impI)
    fix k assume k: "j + 1 \<le> k" "k < length (buckets h)"
    then have "bucket h (j + 1) \<le> bucket h k" "val \<le> bucket h (j + 1)" "bucket h (j + 1) \<noteq> val"
      using assms(3,4) mono [of "j + 1" k] mono [of j "j + 1"] by (auto simp: buckets_def)
    then have "val < bucket h k" by simp
    then show "\<not> buckets h ! k \<le> val" using k by (simp add: buckets_def)
  qed
qed (use assms in \<open>auto simp: buckets_def\<close>)

lemma in_buckets: "j < width h \<Longrightarrow> bucket h j \<in> set (buckets h)"
  by (auto simp: buckets_def)

lemma settle_bucket:
  assumes h: "hist_ok h" "hist_sorted h" and post: "loop_post h val (unat i)"
  defines "i' \<equiv> (if bucket h (unat i) < val \<and> i < get_width h - 1 then i + 1 else i)"
  shows "unat i' < width h"
    and "bucket h (unat i') = val \<or> (\<forall>k < unat i'. bucket h k < val) \<and> (val \<le> bucket h (unat i') \<or> unat i' + 1 = width h)"
proof -
  have W: "width h \<le> 255" "0 < width h" using width_small [OF h(1)] post by (auto simp: loop_post_def)
  then have ne: "get_width h \<noteq> 0" by (auto simp: unat_eq_0)
  have w1: "unat (get_width h - 1) = width h - 1" by (rule unat_minus_one [OF ne])
  have s: "unat (i + 1) = unat i + 1"
    using post W by (intro unat_Suc_word) (auto simp: loop_post_def)
  have mono: "a \<le> b \<Longrightarrow> b < width h \<Longrightarrow> bucket h a \<le> bucket h b" for a b
    using h(2) by (auto simp: hist_sorted_def)
  have cond: "i < get_width h - 1 \<longleftrightarrow> unat i + 1 < width h"
    unfolding word_less_nat_alt w1 using W by auto
  have eq: "unat i' = (if bucket h (unat i) < val \<and> unat i + 1 < width h then unat i + 1 else unat i)"
    unfolding i'_def cond using s by simp
  show "unat i' < width h" unfolding eq using post by (auto simp: loop_post_def)
  have below: "bucket h (unat i) < val \<Longrightarrow> k \<le> unat i \<Longrightarrow> bucket h k < val" for k
    using mono [of k "unat i"] post by (auto simp: loop_post_def intro: le_less_trans)
  show "bucket h (unat i') = val \<or> (\<forall>k < unat i'. bucket h k < val) \<and> (val \<le> bucket h (unat i') \<or> unat i' + 1 = width h)"
    unfolding eq using post below by (auto simp: loop_post_def not_less)
qed

text \<open>The initial bounds of the search.\<close>

lemma search_start:
  assumes "hist_ok h" "0 < width h"
  shows "sint (get_width h - 1) = int (width h) - 1" "sint (get_width h div 2) = int (width h) div 2"
proof -
  have W: "width h \<le> 255" by (rule width_small [OF assms(1)])
  have ne: "get_width h \<noteq> 0" using assms(2) by (auto simp: unat_eq_0)
  have s: "unat w < 2 ^ 31 \<Longrightarrow> sint w = int (unat w)" for w :: uint
    using small_word [of "int (unat w)"] by (simp del: of_nat_unat, simp)
  show "sint (get_width h - 1) = int (width h) - 1"
    using s [of "get_width h - 1"] W assms(2) by (simp add: unat_minus_one [OF ne])
  show "sint (get_width h div 2) = int (width h) div 2"
    using s [of "get_width h div 2"] W by (simp add: unat_div zdiv_int)
qed

lemma find_bucket_end:
  assumes h: "hist_ok h" "hist_sorted h" and j: "unat j < width h"
    and cases: "bucket h (unat j) = val \<or> (\<forall>k < unat j. bucket h k < val) \<and> (val \<le> bucket h (unat j) \<or> unat j + 1 = width h)"
  shows "\<exists>r. (if val = bucket h (unat j) then (if first then scan_first h val j else scan_last h val j) else Some j) = Some r \<and>
           unat r = find_bucket_ref (buckets h) val first"
proof -
  have mono: "a \<le> b \<Longrightarrow> b < width h \<Longrightarrow> bucket h a \<le> bucket h b" for a b
    using h(2) by (auto simp: hist_sorted_def)
  have len: "length (buckets h) = width h" by (simp add: buckets_def)
  consider (eq_first) "val = bucket h (unat j)" first | (eq_last) "val = bucket h (unat j)" "\<not> first"
    | (lt) "val < bucket h (unat j)" | (gt) "bucket h (unat j) < val"
    by (metis linorder_neqE)
  then show ?thesis
  proof cases
    case eq_first
    obtain r where r: "scan_first h val j = Some r" "unat r < width h" "bucket h (unat r) = val"
        "unat r = 0 \<or> bucket h (unat r - 1) \<noteq> val"
      using scan_first_run [OF h(1) j] eq_first(1) by auto
    have "\<forall>k < unat r. bucket h k < val"
    proof (intro allI impI)
      fix k assume k: "k < unat r"
      then have "bucket h k \<le> bucket h (unat r - 1)" "bucket h (unat r - 1) \<le> val"
        using mono [of k "unat r - 1"] mono [of "unat r - 1" "unat r"] r by auto
      then show "bucket h k < val" using r(4) k by (auto simp: word_le_less_eq)
    qed
    then have "length (filter (\<lambda>v. v < val) (buckets h)) = unat r"
      using r by (intro below_count [OF h(2)]) auto
    then show ?thesis using eq_first r len by (simp add: find_bucket_ref_def)
  next
    case eq_last
    obtain r where r: "scan_last h val j = Some r" "unat r < width h" "bucket h (unat r) = val"
        "unat r + 1 = width h \<or> bucket h (unat r + 1) \<noteq> val"
      using scan_last_run [OF h(1) j] eq_last(1) by auto
    have "length (filter (\<lambda>v. v \<le> val) (buckets h)) = unat r + 1"
      by (rule up_to_count [OF h(2) r(2-4)])
    moreover have "val \<in> set (buckets h)" using in_buckets [OF r(2)] r(3) by simp
    ultimately show ?thesis using eq_last r by (simp add: find_bucket_ref_def)
  next
    case lt
    have below: "\<forall>k < unat j. bucket h k < val" using cases lt by auto
    have "length (filter (\<lambda>v. v < val) (buckets h)) = unat j"
      using lt below j by (intro below_count [OF h(2)]) auto
    moreover have "val \<notin> set (buckets h)"
    proof
      assume "val \<in> set (buckets h)"
      then obtain k where k: "k < width h" "val = bucket h k" by (auto simp: buckets_def)
      then show False using below lt mono [of "unat j" k] by (cases "k < unat j") auto
    qed
    ultimately show ?thesis using lt j len by (auto simp: find_bucket_ref_def)
  next
    case gt
    have e: "unat j + 1 = width h" using cases gt by auto
    have all: "k < width h \<Longrightarrow> bucket h k < val" for k
      using mono [of k "unat j"] gt e by (auto intro: le_less_trans)
    then have "filter (\<lambda>v. v < val) (buckets h) = buckets h" "val \<notin> set (buckets h)"
      by (force simp: buckets_def filter_id_conv)+
    then show ?thesis using gt e len by (auto simp: find_bucket_ref_def)
  qed
qed

text \<open>The search on every other histogram, and on two buckets with the position above both.\<close>

lemma find_bucket_found:
  assumes "hist_ok h" "hist_sorted h" "0 < width h"
    and "width h = 2 \<longrightarrow> mul_trunc pos (prec_factor (hist_type h)) \<le> bucket h 1"
  shows "\<exists>r. find_bucket mul_trunc h pos first = Some (Some r) \<and>
           unat r = find_bucket_ref (buckets h) (mul_trunc pos (prec_factor (hist_type h))) first"
proof -
  let ?val = "mul_trunc pos (prec_factor (hist_type h))"
  note start = search_start [OF assms(1,3)]
  obtain W where W: "width h = W" by simp
  have "\<exists>i. find_loop h ?val 0 (int (width h) - 1) (int (width h) div 2) (word_of_int (0 + int (width h) div 2)) = Some (Some i) \<and>
      loop_post h ?val (unat i)"
  proof (intro find_loop_post [OF assms(1,2)])
    have "W = 2 \<or> int W div 2 < int W - 1" if "int W div 2 \<noteq> 0" using that by auto
    then show "int (width h) div 2 \<noteq> 0 \<longrightarrow> 0 + int (width h) div 2 < int (width h) - 1 \<or>
        0 + int (width h) div 2 = int (width h) - 1 \<and> ?val \<le> bucket h (nat (int (width h) - 1))"
      using assms(4) unfolding W by auto
  qed (use assms(3) in \<open>unfold W, auto\<close>)
  then obtain i where i: "find_loop h ?val 0 (int (width h) - 1) (int (width h) div 2) (word_of_int (int (width h) div 2)) = Some (Some i)"
      and post: "loop_post h ?val (unat i)" by auto
  define j where "j = (if bucket h (unat i) < ?val \<and> i < get_width h - 1 then i + 1 else i)"
  note settle = settle_bucket [OF assms(1,2) post, folded j_def]
  have get: "get_value h i = Some (bucket h (unat i))" "get_value h j = Some (bucket h (unat j))"
    using post settle(1) by (auto simp: loop_post_def intro: get_value_in [OF assms(1)])
  have "find_bucket mul_trunc h pos first =
      Some (if ?val = bucket h (unat j) then (if first then scan_first h ?val j else scan_last h ?val j) else Some j)"
    by (simp only: find_bucket_def Let_def start add_0 i option.case get Option.bind.simps j_def [symmetric])
  then show ?thesis
    using find_bucket_end [OF assms(1,2) settle, of first] by auto
qed

lemma find_bucket_two:
  assumes "hist_ok h" "width h = 2" "bucket h 1 < mul_trunc pos (prec_factor (hist_type h))"
  shows "find_bucket mul_trunc h pos first = Some None"
proof -
  have pos: "0 < width h" using assms by simp
  have g1: "get_value h 1 = Some (bucket h 1)" using get_value_in [OF assms(1), of 1] assms(2) by simp
  have g2: "get_value h 2 = None" using assms(2) by (intro get_value_out [OF assms(1)]) simp_all
  have "find_loop h (mul_trunc pos (prec_factor (hist_type h))) 0 1 1 1 = Some None"
    using g1 g2 assms(3) by (subst find_loop.simps) auto
  then show ?thesis
    using search_start [OF assms(1) pos] assms(2) by (simp add: find_bucket_def Let_def)
qed

text \<open>C9: On a histogram of at least one bucket whose buckets are in ascending order, find_bucket ends, reads no value outside the array and returns what counting the buckets gives: the first
  (or the last) bucket that holds the scaled position, or else the first bucket above it, and the last bucket when there is none above. The exception, stated with it, is a histogram of exactly two
  buckets with the position above both: there the search ends by reading the value after the last bucket, outside the array.\<close>

theorem find_bucket_counts:
  assumes "hist_ok h" "hist_sorted h" "0 < width h"
  shows "if width h = 2 \<and> bucket h 1 < mul_trunc pos (prec_factor (hist_type h))
         then find_bucket mul_trunc h pos first = Some None
         else \<exists>r. find_bucket mul_trunc h pos first = Some (Some r) \<and>
           unat r = find_bucket_ref (buckets h) (mul_trunc pos (prec_factor (hist_type h))) first"
proof (cases "width h = 2 \<and> bucket h 1 < mul_trunc pos (prec_factor (hist_type h))")
  case True
  then show ?thesis using find_bucket_two [of h mul_trunc pos first] assms(1) by simp
next
  case False
  then have "width h = 2 \<longrightarrow> mul_trunc pos (prec_factor (hist_type h)) \<le> bucket h 1" by (auto simp: not_less)
  then show ?thesis using find_bucket_found [OF assms, of mul_trunc pos first] False by argo
qed

definition sample_hist :: Histogram_binary where
  "sample_hist = \<lparr>hist_type = SINGLE_PREC_HB, hist_size = 5, hist_values = [10, 20, 20, 20, 90]\<rparr>"

lemma sample_buckets: "buckets sample_hist = [10, 20, 20, 20, 90]" "width sample_hist = 5"
  by code_simp+

lemma sample_ok: "hist_ok sample_hist" "hist_sorted sample_hist"
proof -
  show "hist_ok sample_hist" by code_simp
  have "sorted (buckets sample_hist)" by (simp add: sample_buckets)
  then have "buckets sample_hist ! j \<le> buckets sample_hist ! k" if "j \<le> k" "k < width sample_hist" for j k
    using that by (auto simp: sorted_iff_nth_mono buckets_def)
  then show "hist_sorted sample_hist" by (auto simp: hist_sorted_def buckets_def)
qed

theorem find_bucket_counts_witness:
  "\<exists>r. find_bucket (\<lambda>pos f. pos) sample_hist 20 False = Some (Some r) \<and> unat r = 3"
  using find_bucket_counts [OF sample_ok, of "\<lambda>pos f. pos" 20 False]
  by (simp add: sample_buckets find_bucket_ref_def numeral_3_eq_3)

text \<open>Filling the histogram: a value stored is read back at its index, the others stay.\<close>

lemma bucket_set_value:
  assumes "hist_ok h" "unat i < width h" "k < width h"
    and "mul_trunc v (prec_factor (hist_type h)) \<le> prec_factor (hist_type h)"
  shows "\<exists>h'. set_value mul_trunc h i v = Some h' \<and> hist_ok h' \<and> get_width h' = get_width h \<and>
           bucket h' k = (if k = unat i then mul_trunc v (prec_factor (hist_type h)) else bucket h k)"
proof -
  have W: "width h \<le> 255" by (rule width_small [OF assms(1)])
  have e: "unat (of_nat k :: uint) = k" "unat (of_nat k * 2 :: uint) = k * 2" "unat (i * 2) = unat i * 2"
    using assms(2,3) W by (simp_all add: unat_of_nat unat_word_ariths)
  show ?thesis
  proof (cases "hist_type h")
    case SINGLE_PREC_HB
    have "unat (mul_trunc v 255) < 256"
      using assms(4) SINGLE_PREC_HB by (simp add: word_le_nat_alt)
    then have "ucast (ucast (mul_trunc v 255) :: uchar) = mul_trunc v 255"
      by (intro word_unat_eq_iff [THEN iffD2]) (simp add: unat_ucast_mod)
    then show ?thesis using SINGLE_PREC_HB assms(1-3) e
      by (auto simp: set_value_def hist_ok_def get_width_def bucket_def get_value_def nth_list_update unat_ucast_mod)
  next
    case DOUBLE_PREC_HB
    let ?x = "mul_trunc v 65535"
    have x: "unat ?x < 65536"
      using assms(4) DOUBLE_PREC_HB by (simp add: word_le_nat_alt)
    have fits: "unat i * 2 + 2 \<le> length (hist_values h)" "k * 2 + 2 \<le> length (hist_values h)"
      using assms DOUBLE_PREC_HB by (auto simp: width_eq hist_ok_def)
    have u: "(ucast ?x :: ulonglong) = ucast (ucast ?x :: uint16)" "ucast (ucast ?x :: uint16) = ?x"
      using x by (auto intro!: word_unat_eq_iff [THEN iffD2] simp: unat_ucast_mod)
    have "uint2korr (int2store (hist_values h) (unat i * 2) (ucast ?x)) (k * 2) =
        (if k = unat i then ucast ?x else uint2korr (hist_values h) (k * 2))"
    proof (cases "k = unat i")
      case True
      then show ?thesis unfolding u(1) using le2.load_store [OF fits(1)] by simp
    next
      case False
      then have "k * 2 + 2 \<le> unat i * 2 \<or> unat i * 2 + 2 \<le> k * 2" by auto
      then show ?thesis unfolding u(1) using False by (simp only: le2.load_store_other if_False)
    qed
    moreover have "length (int2store (hist_values h) (unat i * 2) (ucast ?x)) = length (hist_values h)"
      unfolding u(1) by (rule le2.length_store)
    ultimately show ?thesis using DOUBLE_PREC_HB assms(1) e fits u(2)
      by (auto simp: set_value_def hist_ok_def get_width_def bucket_def get_value_def)
  qed (use assms(1) in \<open>auto simp: hist_ok_def\<close>)
qed

section \<open>The counters\<close>

lemma foldl_next:
  "let s' = foldl bs_next s cs
   in get_count s' = get_count s + sum_list (map ucast cs) \<and>
      get_count_distinct s' = get_count_distinct s + of_nat (length cs) \<and>
      get_count_single_occurence s' = get_count_single_occurence s + of_nat (count_list cs 1)"
  by (induction cs arbitrary: s)
     (simp_all add: Let_def bs_next_def get_count_def get_count_distinct_def get_count_single_occurence_def)

lemma collected_counts:
  "get_count (foldl bs_next bs_init cs) = sum_list (map ucast cs)"
  "get_count_distinct (foldl bs_next bs_init cs) = of_nat (length cs)"
  "get_count_single_occurence (foldl bs_next bs_init cs) = of_nat (count_list cs 1)"
  using foldl_next [of bs_init cs]
  by (simp_all add: Let_def bs_init_def get_count_def get_count_distinct_def get_count_single_occurence_def)

section \<open>The bitmap of statistics\<close>

lemma stat_col_less: "stat_col_no c < 32"
  by (cases c) simp_all

lemma stat_col_inj: "stat_col_no c = stat_col_no c' \<longleftrightarrow> c = c'"
  by (cases c; cases c') simp_all

lemma is_null_bit: "is_null c f \<longleftrightarrow> bit (column_stat_nulls c) (stat_col_no f)"
  using and_bit_nonzero [of "column_stat_nulls c" "stat_col_no f"] by (simp add: is_null_def push_bit_eq_mult)

lemma is_null_set_not_null: "is_null (set_not_null c f) g \<longleftrightarrow> is_null c g \<and> f \<noteq> g"
  using stat_col_less [of g] stat_col_inj [of f g]
  by (auto simp: is_null_bit set_not_null_def bits_simps bit_1_iff)

lemma is_null_set_all_nulls: "is_null (set_all_nulls c) f \<longleftrightarrow> 2 < stat_col_no f \<and> stat_col_no f \<le> 10"
  by (cases f) (simp_all add: is_null_def set_all_nulls_def no_values_provided_bitmap_def push_bit_eq_mult)

end
