(* ===== verification/Mdl.thy ===== *)
theory Mdl imports Memory begin

text \<open>
  \<open>private/mdl.h\<close>: the keys of metadata locks (struct \<open>MDL_key\<close>), lock requests (\<open>MDL_request\<close>) and what the header says of tickets. A key is one byte for the namespace, the database
  name and the object name, each closed by a zero byte, in a buffer of \<open>MAX_MDLKEY_LENGTH\<close> bytes. A C string is the list of its bytes before the closing zero byte. \<open>strmake\<close> and the hash
  function of the binary character set are outside the repository: both are parameters, and \<open>strmake_copies\<close> is what the manual says of the first. Granting, waiting and the deadlock
  detector are only declared in the header.
\<close>

section \<open>Types\<close>

datatype enum_mdl_type = MDL_NOT_INITIALIZED | MDL_INTENTION_EXCLUSIVE | MDL_SHARED | MDL_SHARED_HIGH_PRIO
  | MDL_SHARED_READ | MDL_SHARED_WRITE | MDL_SHARED_UPGRADABLE | MDL_SHARED_READ_ONLY | MDL_SHARED_NO_WRITE
  | MDL_SHARED_NO_READ_WRITE | MDL_EXCLUSIVE | MDL_TYPE_END

fun mdl_type_no :: "enum_mdl_type \<Rightarrow> int" where
  "mdl_type_no MDL_NOT_INITIALIZED = - 1"
| "mdl_type_no MDL_INTENTION_EXCLUSIVE = 0"
| "mdl_type_no MDL_SHARED = 1"
| "mdl_type_no MDL_SHARED_HIGH_PRIO = 2"
| "mdl_type_no MDL_SHARED_READ = 3"
| "mdl_type_no MDL_SHARED_WRITE = 4"
| "mdl_type_no MDL_SHARED_UPGRADABLE = 5"
| "mdl_type_no MDL_SHARED_READ_ONLY = 6"
| "mdl_type_no MDL_SHARED_NO_WRITE = 7"
| "mdl_type_no MDL_SHARED_NO_READ_WRITE = 8"
| "mdl_type_no MDL_EXCLUSIVE = 9"
| "mdl_type_no MDL_TYPE_END = 10"

datatype enum_mdl_duration = MDL_STATEMENT | MDL_TRANSACTION | MDL_EXPLICIT | MDL_DURATION_END

datatype enum_mdl_namespace = BACKUP | SCHEMA | TABLE | FUNCTION | PROCEDURE | PACKAGE_BODY | TRIGGER | EVENT
  | USER_LOCK | NAMESPACE_END

fun namespace_no :: "enum_mdl_namespace \<Rightarrow> uchar" where
  "namespace_no BACKUP = 0"
| "namespace_no SCHEMA = 1"
| "namespace_no TABLE = 2"
| "namespace_no FUNCTION = 3"
| "namespace_no PROCEDURE = 4"
| "namespace_no PACKAGE_BODY = 5"
| "namespace_no TRIGGER = 6"
| "namespace_no EVENT = 7"
| "namespace_no USER_LOCK = 8"
| "namespace_no NAMESPACE_END = 9"

definition NAME_CHAR_LEN :: nat where "NAME_CHAR_LEN = 64"
definition SYSTEM_CHARSET_MBMAXLEN :: nat where "SYSTEM_CHARSET_MBMAXLEN = 3"
definition NAME_LEN :: nat where "NAME_LEN = NAME_CHAR_LEN * SYSTEM_CHARSET_MBMAXLEN"
definition MAX_MDLKEY_LENGTH :: nat where "MAX_MDLKEY_LENGTH = 1 + NAME_LEN + 1 + NAME_LEN + 1"

lemma name_len [simp]: "NAME_LEN = 192" "MAX_MDLKEY_LENGTH = 387"
  by (simp_all add: NAME_LEN_def NAME_CHAR_LEN_def SYSTEM_CHARSET_MBMAXLEN_def MAX_MDLKEY_LENGTH_def)

section \<open>MDL_key\<close>

record MDL_key =
  m_length :: uint16
  m_db_name_length :: uint16
  m_hash_value :: uint32
  m_ptr :: buffer

definition key_length :: "MDL_key \<Rightarrow> uint" where "key_length k = ucast (m_length k)"
definition db_name :: "MDL_key \<Rightarrow> nat" where "db_name k = 1"
definition db_name_length :: "MDL_key \<Rightarrow> uint" where "db_name_length k = ucast (m_db_name_length k)"
definition name :: "MDL_key \<Rightarrow> nat" where "name k = unat (m_db_name_length k) + 2"
definition name_length :: "MDL_key \<Rightarrow> uint" where "name_length k = ucast (m_length k) - ucast (m_db_name_length k) - 3"

definition mdl_namespace :: "MDL_key \<Rightarrow> uchar" where "mdl_namespace k = m_ptr k ! 0"

text \<open>\<open>strmake(dst + p, src, n)\<close> gives the destination and the index of the closing zero byte.\<close>

definition mdl_key_init ::
  "(buffer \<Rightarrow> nat \<Rightarrow> buffer \<Rightarrow> nat \<Rightarrow> buffer \<times> nat) \<Rightarrow> (buffer \<Rightarrow> uint32) \<Rightarrow> MDL_key \<Rightarrow> enum_mdl_namespace \<Rightarrow> buffer \<Rightarrow> buffer \<Rightarrow> MDL_key" where
  "mdl_key_init strmake my_hash_sort k mdl_namespace_arg db name_arg =
     (let p = (m_ptr k)[0 := namespace_no mdl_namespace_arg];
          (p, e) = strmake p 1 db NAME_LEN;
          dbl = of_nat (e - 1) :: uint16;
          (p, e) = strmake p (unat dbl + 2) name_arg NAME_LEN;
          len = of_nat (e + 1) :: uint16
      in k\<lparr>m_db_name_length := dbl, m_length := len,
           m_hash_value := my_hash_sort (take (unat len - 1) (drop 1 p)), m_ptr := p\<rparr>)"

definition mdl_key_copy :: "MDL_key \<Rightarrow> MDL_key \<Rightarrow> MDL_key" where
  "mdl_key_copy k rhs =
     k\<lparr>m_ptr := memcpy (m_ptr k) 0 (take (unat (m_length rhs)) (m_ptr rhs)), m_length := m_length rhs,
       m_db_name_length := m_db_name_length rhs, m_hash_value := m_hash_value rhs\<rparr>"

definition is_equal :: "MDL_key \<Rightarrow> MDL_key \<Rightarrow> bool" where
  "is_equal k rhs \<longleftrightarrow>
     m_length k = m_length rhs \<and> memcmp (take (unat (m_length k)) (m_ptr k)) (take (unat (m_length k)) (m_ptr rhs)) = 0"

definition cmp :: "MDL_key \<Rightarrow> MDL_key \<Rightarrow> int" where
  "cmp k rhs = (let n = min (unat (m_length k)) (unat (m_length rhs)) in memcmp (take n (m_ptr k)) (take n (m_ptr rhs)))"

definition hash_value :: "MDL_key \<Rightarrow> uint32" where
  "hash_value k = m_hash_value k + ucast (mdl_namespace k)"

definition tc_hash_value :: "MDL_key \<Rightarrow> uint32" where
  "tc_hash_value k = m_hash_value k"

section \<open>MDL_request and MDL_ticket\<close>

record MDL_request =
  req_type :: enum_mdl_type
  req_duration :: enum_mdl_duration
  next_in_list :: "nat option"
  prev_in_list :: "nat option"
  ticket :: "nat option"
  req_key :: MDL_key

definition set_type :: "MDL_request \<Rightarrow> enum_mdl_type \<Rightarrow> MDL_request" where
  "set_type r type_arg = r\<lparr>req_type := type_arg\<rparr>"

text \<open>The request moved to, and what is left of the source.\<close>

definition move_from :: "MDL_request \<Rightarrow> MDL_request \<Rightarrow> MDL_request \<times> MDL_request" where
  "move_from r from_r =
     (r\<lparr>req_type := req_type from_r, req_duration := req_duration from_r, ticket := ticket from_r,
        next_in_list := next_in_list from_r, prev_in_list := prev_in_list from_r,
        req_key := mdl_key_copy (req_key r) (req_key from_r)\<rparr>,
      from_r\<lparr>ticket := None\<rparr>)"

definition is_write_lock_request :: "MDL_request \<Rightarrow> bool" where
  "is_write_lock_request r \<longleftrightarrow>
     mdl_type_no MDL_SHARED_WRITE \<le> mdl_type_no (req_type r) \<and> req_type r \<noteq> MDL_SHARED_READ_ONLY"

definition request_assign :: "MDL_request \<Rightarrow> MDL_request \<Rightarrow> MDL_request" where
  "request_assign r rhs = r\<lparr>req_type := MDL_NOT_INITIALIZED, ticket := None\<rparr>"

definition request_construct :: "MDL_request \<Rightarrow> MDL_request" where
  "request_construct r = r\<lparr>req_type := MDL_NOT_INITIALIZED, ticket := None\<rparr>"

definition request_copy :: "MDL_request \<Rightarrow> MDL_request \<Rightarrow> MDL_request" where
  "request_copy r rhs =
     r\<lparr>req_type := req_type rhs, req_duration := req_duration rhs, ticket := None,
       req_key := mdl_key_copy (req_key r) (req_key rhs)\<rparr>"

definition is_upgradable_or_exclusive :: "enum_mdl_type \<Rightarrow> bool" where
  "is_upgradable_or_exclusive m_type \<longleftrightarrow>
     m_type = MDL_SHARED_UPGRADABLE \<or> m_type = MDL_SHARED_NO_WRITE \<or>
     m_type = MDL_SHARED_NO_READ_WRITE \<or> m_type = MDL_EXCLUSIVE"

section \<open>What a key represents\<close>

definition strmake_copies :: "(buffer \<Rightarrow> nat \<Rightarrow> buffer \<Rightarrow> nat \<Rightarrow> buffer \<times> nat) \<Rightarrow> bool" where
  "strmake_copies strmake \<longleftrightarrow>
     (\<forall>dst p src n. p + length (take n src) < length dst \<longrightarrow>
        strmake dst p src n = (memcpy dst p (take n src @ [0]), p + length (take n src)))"

definition c_string :: "buffer \<Rightarrow> bool" where "c_string s \<longleftrightarrow> 0 \<notin> set s"

definition key_bytes :: "enum_mdl_namespace \<Rightarrow> buffer \<Rightarrow> buffer \<Rightarrow> buffer" where
  "key_bytes ns db nm = namespace_no ns # db @ [0] @ nm @ [0]"

definition mdl_repr :: "(buffer \<Rightarrow> uint32) \<Rightarrow> MDL_key \<Rightarrow> enum_mdl_namespace \<Rightarrow> buffer \<Rightarrow> buffer \<Rightarrow> bool" where
  "mdl_repr my_hash_sort k ns db nm \<longleftrightarrow>
     length (m_ptr k) = MAX_MDLKEY_LENGTH \<and> length db \<le> NAME_LEN \<and> length nm \<le> NAME_LEN \<and> c_string db \<and> c_string nm \<and>
     unat (m_length k) = length db + length nm + 3 \<and> unat (m_db_name_length k) = length db \<and>
     take (length db + length nm + 3) (m_ptr k) = key_bytes ns db nm \<and>
     m_hash_value k = my_hash_sort (db @ [0] @ nm @ [0])"

lemma namespace_no_inj: "namespace_no a = namespace_no b \<longleftrightarrow> a = b"
  by (cases a; cases b) simp_all

lemma length_key_bytes [simp]: "length (key_bytes ns db nm) = length db + length nm + 3"
  by (simp add: key_bytes_def)

lemma zero_free_split:
  "c_string as \<Longrightarrow> c_string bs \<Longrightarrow> as @ 0 # x = bs @ 0 # y \<longleftrightarrow> as = bs \<and> x = y"
  by (induction as bs rule: list_induct2') (auto simp: c_string_def)

lemma key_bytes_inj:
  assumes "c_string db" "c_string db'" "c_string nm" "c_string nm'"
  shows "key_bytes ns db nm = key_bytes ns' db' nm' \<longleftrightarrow> ns = ns' \<and> db = db' \<and> nm = nm'"
  using zero_free_split [OF assms(1,2)] by (auto simp: key_bytes_def namespace_no_inj)

lemma head_bytes: "length d + 2 \<le> length p \<Longrightarrow> take (length d + 2) (memcpy (p[0 := x]) 1 (d @ [0])) = x # d @ [0]"
  by (cases p) (auto simp: memcpy_def)

lemma take_memcpy: "q \<le> length p \<Longrightarrow> take (q + length d) (memcpy p q d) = take q p @ d"
  by (simp add: memcpy_def)

lemma mdl_key_init_repr:
  assumes "strmake_copies strmake" "length (m_ptr k) = MAX_MDLKEY_LENGTH" "c_string db" "c_string nm"
  shows "mdl_repr h (mdl_key_init strmake h k ns db nm) ns (take NAME_LEN db) (take NAME_LEN nm)"
proof -
  let ?db = "take NAME_LEN db" and ?nm = "take NAME_LEN nm"
  let ?p0 = "(m_ptr k)[0 := namespace_no ns]"
  let ?p1 = "memcpy ?p0 1 (?db @ [0])"
  let ?p2 = "memcpy ?p1 (length ?db + 2) (?nm @ [0])"
  have len: "length ?db \<le> 192" "length ?nm \<le> 192" by simp_all
  have s1: "strmake ?p0 1 db NAME_LEN = (?p1, 1 + length ?db)"
    using assms(1,2) by (simp add: strmake_copies_def)
  have l1: "length ?p1 = 387" using assms(2) len by simp
  have s2: "strmake ?p1 (length ?db + 2) nm NAME_LEN = (?p2, length ?db + 2 + length ?nm)"
    using assms(1) l1 by (simp add: strmake_copies_def)
  have u1: "unat (of_nat (1 + length ?db - 1) :: uint16) = length ?db" using len by (simp add: unat_of_nat)
  have u2: "unat (of_nat (length ?db + 2 + length ?nm + 1) :: uint16) = length ?db + length ?nm + 3"
    using len by (subst unat_of_nat) simp
  have l2: "length ?p2 = 387" using l1 len by (subst length_memcpy) auto
  have t: "take (length ?db + length ?nm + 3) ?p2 = key_bytes ns ?db ?nm"
  proof -
    have e1: "take (length ?db + 2) ?p1 = namespace_no ns # ?db @ [0]"
      using assms(2) len by (intro head_bytes) simp
    have q: "length ?db + 2 \<le> length ?p1" using l1 len by simp
    have "take (length ?db + 2 + length (?nm @ [0])) ?p2 = (namespace_no ns # ?db @ [0]) @ ?nm @ [0]"
      unfolding take_memcpy [OF q] e1 by simp
    then show ?thesis by (simp add: key_bytes_def numeral_3_eq_3)
  qed
  have "take (unat (of_nat (length ?db + 2 + length ?nm + 1) :: uint16) - 1) (drop 1 ?p2) = ?db @ [0] @ ?nm @ [0]"
    unfolding u2 using arg_cong [OF t, of "drop 1"] by (simp add: take_drop key_bytes_def numeral_3_eq_3)
  moreover have "c_string ?db" "c_string ?nm"
    using assms(3,4) by (auto simp: c_string_def dest: in_set_takeD)
  ultimately show ?thesis
    unfolding mdl_key_init_def mdl_repr_def Let_def s1 case_prod_conv u1 s2
    using t l2 u1 u2 len by simp
qed

definition strmake_c :: "buffer \<Rightarrow> nat \<Rightarrow> buffer \<Rightarrow> nat \<Rightarrow> buffer \<times> nat" where
  "strmake_c dst p src n = (memcpy dst p (take n src @ [0]), p + length (take n src))"

lemma strmake_c_copies: "strmake_copies strmake_c"
  by (simp add: strmake_copies_def strmake_c_def)

definition blank_key :: MDL_key where
  "blank_key = \<lparr>m_length = 0, m_db_name_length = 0, m_hash_value = 0, m_ptr = replicate 387 7\<rparr>"

text \<open>Reading a key back.\<close>

lemma repr_accessors:
  assumes "mdl_repr h k ns db nm"
  shows "mdl_namespace k = namespace_no ns" "unat (db_name_length k) = length db" "unat (name_length k) = length nm"
    "bytes (m_ptr k) (db_name k) (length db + 1) = db @ [0]" "bytes (m_ptr k) (name k) (length nm + 1) = nm @ [0]"
proof -
  have r: "take (length db + length nm + 3) (m_ptr k) = key_bytes ns db nm" "length db \<le> 192" "length nm \<le> 192"
    "unat (m_length k) = length db + length nm + 3" "unat (m_db_name_length k) = length db" "length (m_ptr k) = 387"
    using assms by (simp_all add: mdl_repr_def)
  have "m_ptr k ! 0 = take (length db + length nm + 3) (m_ptr k) ! 0" by simp
  then show "mdl_namespace k = namespace_no ns" unfolding r(1) by (simp add: mdl_namespace_def key_bytes_def)
  show "unat (db_name_length k) = length db" using r by (simp add: db_name_length_def unat_ucast_mod)
  have a: "(ucast (m_length k) :: uint) = of_nat (unat (m_length k))" "(ucast (m_db_name_length k) :: uint) = of_nat (unat (m_db_name_length k))"
    by simp_all
  have "name_length k = of_nat (length nm)" unfolding name_length_def a r(4,5) by simp
  then show "unat (name_length k) = length nm" using r by (simp add: unat_of_nat)
  have part: "p + n \<le> length db + length nm + 3 \<Longrightarrow> bytes (m_ptr k) p n = bytes (key_bytes ns db nm) p n" for p n
    unfolding r(1) [symmetric] by (simp add: bytes_def take_drop min_def)
  show "bytes (m_ptr k) (db_name k) (length db + 1) = db @ [0]"
    by (simp add: part db_name_def) (simp add: bytes_def key_bytes_def)
  show "bytes (m_ptr k) (name k) (length nm + 1) = nm @ [0]"
    using part [of "name k" "length nm + 1"] r by (simp add: name_def bytes_def key_bytes_def)
qed

text \<open>C29: A key built from a namespace and two names gives them back, each name cut to NAME_LEN bytes and with its terminating zero, and the key ends within its buffer.\<close>

theorem mdl_key_reads_back:
  assumes "strmake_copies strmake" "length (m_ptr k) = MAX_MDLKEY_LENGTH" "c_string db" "c_string nm"
    and "key = mdl_key_init strmake h k ns db nm"
  shows "mdl_namespace key = namespace_no ns \<and>
    bytes (m_ptr key) (db_name key) (unat (db_name_length key) + 1) = take NAME_LEN db @ [0] \<and>
    bytes (m_ptr key) (name key) (unat (name_length key) + 1) = take NAME_LEN nm @ [0] \<and>
    unat (m_length key) \<le> MAX_MDLKEY_LENGTH \<and> length (m_ptr key) = MAX_MDLKEY_LENGTH"
proof -
  have r: "mdl_repr h key ns (take NAME_LEN db) (take NAME_LEN nm)"
    unfolding assms(5) by (rule mdl_key_init_repr [OF assms(1-4)])
  show ?thesis using repr_accessors [OF r] r by (simp add: mdl_repr_def)
qed

theorem mdl_key_reads_back_witness:
  "bytes (m_ptr (mdl_key_init strmake_c (\<lambda>bs. 5) blank_key TABLE [100, 98] [116]))
     (db_name (mdl_key_init strmake_c (\<lambda>bs. 5) blank_key TABLE [100, 98] [116]))
     (unat (db_name_length (mdl_key_init strmake_c (\<lambda>bs. 5) blank_key TABLE [100, 98] [116])) + 1) = [100, 98, 0]"
proof -
  have "length (m_ptr blank_key) = MAX_MDLKEY_LENGTH" "c_string [100, 98]" "c_string [116]"
    by (simp_all add: blank_key_def c_string_def)
  from mdl_key_reads_back [OF strmake_c_copies this refl, of "\<lambda>bs. 5" TABLE] show ?thesis by simp
qed

lemma repr_copy:
  assumes "mdl_repr h rhs ns db nm" "length (m_ptr k) = MAX_MDLKEY_LENGTH"
  shows "mdl_repr h (mdl_key_copy k rhs) ns db nm"
  using assms by (auto simp: mdl_repr_def mdl_key_copy_def memcpy_def min_def)

section \<open>Equality and order\<close>

lemma memcmp_take_min: "memcmp (take (min (length as) (length bs)) as) (take (min (length as) (length bs)) bs) = memcmp as bs"
  by (induction as bs rule: memcmp.induct) auto

lemma memcmp_take_min_long:
  assumes "n = min (length as) (length bs)"
  shows "memcmp (take n (as @ x)) (take n (bs @ y)) = memcmp as bs"
  using memcmp_take_min [of as bs] assms by (simp add: min_def)

lemma memcmp_strings:
  assumes "c_string as" "c_string bs"
  shows "memcmp (as @ 0 # x) (bs @ 0 # y) =
           (if ord_class.lexordp as bs then - 1 else if ord_class.lexordp bs as then 1 else memcmp x y)"
  using assms by (induction as bs rule: list_induct2') (auto simp: c_string_def word_gt_0)

definition key_less :: "enum_mdl_namespace \<times> buffer \<times> buffer \<Rightarrow> enum_mdl_namespace \<times> buffer \<times> buffer \<Rightarrow> bool" where
  "key_less a b = (case (a, b) of ((ns, db, nm), (ns', db', nm')) \<Rightarrow>
     namespace_no ns < namespace_no ns' \<or>
     ns = ns' \<and> (ord_class.lexordp db db' \<or> db = db' \<and> ord_class.lexordp nm nm'))"

lemma lex_linear: "\<not> ord_class.lexordp as bs \<Longrightarrow> \<not> ord_class.lexordp bs as \<Longrightarrow> as = (bs :: buffer)"
  by (induction as bs rule: list_induct2') auto

lemma memcmp_key_bytes:
  assumes "c_string db" "c_string db'" "c_string nm" "c_string nm'"
  shows "memcmp (key_bytes ns db nm) (key_bytes ns' db' nm') =
           (if key_less (ns, db, nm) (ns', db', nm') then - 1 else if key_less (ns', db', nm') (ns, db, nm) then 1 else 0)"
proof -
  have m: "memcmp (db @ 0 # nm @ [0]) (db' @ 0 # nm' @ [0]) =
      (if ord_class.lexordp db db' then - 1 else if ord_class.lexordp db' db then 1
       else if ord_class.lexordp nm nm' then - 1 else if ord_class.lexordp nm' nm then 1 else 0)"
    using memcmp_strings [OF assms(1,2), of "nm @ [0]" "nm' @ [0]"] memcmp_strings [OF assms(3,4), of "[]" "[]"] by simp
  have irr: "\<not> ord_class.lexordp x x" for x :: buffer by (rule lexordp_irreflexive) simp
  consider "namespace_no ns < namespace_no ns'" | "namespace_no ns' < namespace_no ns" | "ns = ns'"
    using namespace_no_inj by (metis linorder_neqE)
  then show ?thesis
  proof cases
    case 3
    then show ?thesis
      using m irr lex_linear [of db db'] by (auto simp: key_bytes_def key_less_def)
  qed (auto simp: key_bytes_def key_less_def)
qed

lemma repr_memcmp:
  assumes "mdl_repr h k ns db nm" "mdl_repr h k' ns' db' nm'"
  shows "cmp k k' = memcmp (key_bytes ns db nm) (key_bytes ns' db' nm')"
proof -
  let ?a = "key_bytes ns db nm" and ?b = "key_bytes ns' db' nm'"
  have t: "take (unat (m_length k)) (m_ptr k) = ?a" "take (unat (m_length k')) (m_ptr k') = ?b"
    "unat (m_length k) = length ?a" "unat (m_length k') = length ?b"
    using assms by (simp_all add: mdl_repr_def)
  let ?n = "min (length ?a) (length ?b)"
  have "take ?n (m_ptr k) = take ?n (take (unat (m_length k)) (m_ptr k))" "take ?n (m_ptr k') = take ?n (take (unat (m_length k')) (m_ptr k'))"
    using t(3,4) by (simp_all add: min_def)
  then have "take ?n (m_ptr k) = take ?n ?a" "take ?n (m_ptr k') = take ?n ?b"
    by (simp_all only: t(1,2))
  then show ?thesis
    using memcmp_take_min [of ?a ?b] t(3,4) by (simp add: cmp_def Let_def)
qed

text \<open>C11: For keys that hold namespaces and names, the comparison of keys is the lexicographic order of the triples (namespace, database, name); two keys are equal exactly when they hold the same
  triple, and then both hash values agree. The names need not have one length: the zero byte that ends each name keeps one key from being a proper prefix of another.\<close>

theorem mdl_key_order:
  assumes "mdl_repr h k ns db nm" "mdl_repr h k' ns' db' nm'"
  shows "(cmp k k' < 0 \<longleftrightarrow> key_less (ns, db, nm) (ns', db', nm')) \<and>
         (cmp k k' = 0 \<longleftrightarrow> is_equal k k') \<and>
         (is_equal k k' \<longleftrightarrow> (ns, db, nm) = (ns', db', nm')) \<and>
         (is_equal k k' \<longrightarrow> hash_value k = hash_value k' \<and> tc_hash_value k = tc_hash_value k')"
proof -
  have z: "c_string db" "c_string db'" "c_string nm" "c_string nm'" using assms by (auto simp: mdl_repr_def)
  note cmp_eq = repr_memcmp [OF assms, unfolded memcmp_key_bytes [OF z]]
  have eq: "is_equal k k' \<longleftrightarrow> key_bytes ns db nm = key_bytes ns' db' nm'"
  proof -
    let ?a = "key_bytes ns db nm" and ?b = "key_bytes ns' db' nm'"
    have t: "take (unat (m_length k)) (m_ptr k) = ?a" "take (unat (m_length k')) (m_ptr k') = ?b"
      "unat (m_length k) = length ?a" "unat (m_length k') = length ?b"
      using assms by (simp_all add: mdl_repr_def)
    have "m_length k = m_length k' \<longleftrightarrow> length ?a = length ?b"
      unfolding word_unat_eq_iff t(3,4) by (rule refl)
    then show ?thesis
      unfolding is_equal_def using t(1,2) by (metis memcmp_zero)
  qed
  have tri: "key_less (ns, db, nm) (ns', db', nm') \<or> key_less (ns', db', nm') (ns, db, nm) \<or> (ns, db, nm) = (ns', db', nm')"
    using lex_linear namespace_no_inj by (fastforce simp: key_less_def)
  have irr: "\<not> key_less (ns, db, nm) (ns, db, nm)"
    using lexordp_irreflexive [of db] lexordp_irreflexive [of nm] by (simp add: key_less_def)
  have same: "is_equal k k' \<longleftrightarrow> (ns, db, nm) = (ns', db', nm')"
    unfolding eq using key_bytes_inj [OF z] by simp
  have "is_equal k k' \<longrightarrow> hash_value k = hash_value k' \<and> tc_hash_value k = tc_hash_value k'"
    unfolding same using assms repr_accessors(1) [OF assms(1)] repr_accessors(1) [OF assms(2)]
    by (auto simp: hash_value_def tc_hash_value_def mdl_repr_def)
  then show ?thesis
    unfolding same using cmp_eq tri irr by (auto split: if_splits)
qed

theorem mdl_key_order_witness:
  "cmp (mdl_key_init strmake_c (\<lambda>bs. 5) blank_key TABLE [100] [116, 49]) (mdl_key_init strmake_c (\<lambda>bs. 5) blank_key TABLE [100, 98] [116]) < 0"
  using mdl_key_order
    [OF mdl_key_init_repr [OF strmake_c_copies, of blank_key "[100]" "[116, 49]" "\<lambda>bs. 5" TABLE]
        mdl_key_init_repr [OF strmake_c_copies, of blank_key "[100, 98]" "[116]" "\<lambda>bs. 5" TABLE]]
  by (simp add: blank_key_def c_string_def key_less_def)

lemma move_from_one_owner:
  assumes "move_from r s = (r', s')"
  shows "ticket r' = ticket s" "ticket s' = None" "req_type r' = req_type s" "req_key s' = req_key s"
  using assms by (auto simp: move_from_def)

lemma write_requests:
  "is_write_lock_request r \<longleftrightarrow> req_type r \<in> {MDL_SHARED_WRITE, MDL_SHARED_UPGRADABLE, MDL_SHARED_NO_WRITE, MDL_SHARED_NO_READ_WRITE, MDL_EXCLUSIVE, MDL_TYPE_END}"
  by (cases "req_type r") (simp_all add: is_write_lock_request_def)

lemma upgradable_writes: "is_upgradable_or_exclusive (req_type r) \<Longrightarrow> is_write_lock_request r"
  by (auto simp: is_upgradable_or_exclusive_def write_requests)

end
