(* ===== verification/Query_Tables.thy ===== *)
theory Query_Tables imports Prelude begin

unbundle bit_operations_syntax

text \<open>
  \<open>private/sql_lex.h\<close>, class \<open>Query_tables_list\<close>: the global list of the tables of a statement with its own part and the part added for prelocking, the marks that make a statement unsafe for
  statement-based replication, and the kinds of tables it accesses. A table is its address; \<open>next_global\<close> is its link, \<open>prev_global\<close> the place of the pointer to it. The table
  \<open>binlog_unsafe_map\<close> is filled by code outside the repository and is a parameter. The hash of stored routines is not modelled but for its element count.
\<close>

section \<open>State\<close>

text \<open>The address of a pointer to a table: the member \<open>query_tables\<close> or the \<open>next_global\<close> member of a table.\<close>

datatype tloc = QueryTables | NextGlobal nat

record Query_tables_list =
  query_tables :: "nat option"
  query_tables_last :: tloc
  query_tables_own_last :: "tloc option"
  sroutines_list_elements :: uint
  binlog_stmt_flags :: uint32
  stmt_accessed_table_flag :: uint32
  next_global :: "nat \<Rightarrow> nat option"
  prev_global :: "nat \<Rightarrow> tloc option"

definition qt_load :: "Query_tables_list \<Rightarrow> tloc \<Rightarrow> nat option" where
  "qt_load s l = (case l of QueryTables \<Rightarrow> query_tables s | NextGlobal a \<Rightarrow> next_global s a)"

definition qt_store :: "Query_tables_list \<Rightarrow> tloc \<Rightarrow> nat option \<Rightarrow> Query_tables_list" where
  "qt_store s l v = (case l of QueryTables \<Rightarrow> s\<lparr>query_tables := v\<rparr> | NextGlobal a \<Rightarrow> s\<lparr>next_global := (next_global s)(a := v)\<rparr>)"

section \<open>The list of tables\<close>

definition add_to_query_tables :: "Query_tables_list \<Rightarrow> nat \<Rightarrow> Query_tables_list" where
  "add_to_query_tables s table =
     (let s = s\<lparr>prev_global := (prev_global s)(table := Some (query_tables_last s))\<rparr>;
          s = qt_store s (query_tables_last s) (Some table)
      in s\<lparr>query_tables_last := NextGlobal table\<rparr>)"

definition requires_prelocking :: "Query_tables_list \<Rightarrow> bool" where
  "requires_prelocking s \<longleftrightarrow> query_tables_own_last s \<noteq> None"

definition mark_as_requiring_prelocking :: "Query_tables_list \<Rightarrow> tloc option \<Rightarrow> Query_tables_list" where
  "mark_as_requiring_prelocking s tables_own_last = s\<lparr>query_tables_own_last := tables_own_last\<rparr>"

definition first_not_own_table :: "Query_tables_list \<Rightarrow> nat option" where
  "first_not_own_table s = (case query_tables_own_last s of Some l \<Rightarrow> qt_load s l | None \<Rightarrow> None)"

definition chop_off_not_own_tables :: "Query_tables_list \<Rightarrow> Query_tables_list" where
  "chop_off_not_own_tables s = (case query_tables_own_last s of
     Some l \<Rightarrow> (qt_store s l None)\<lparr>query_tables_last := l, query_tables_own_last := None\<rparr>
   | None \<Rightarrow> s)"

text \<open>The table whose member \<open>next_global\<close> is at \<open>query_tables_last\<close>; the outer \<open>None\<close>: that is the address of no such member.\<close>

definition last_table :: "Query_tables_list \<Rightarrow> nat option option" where
  "last_table s =
     (if query_tables s \<noteq> None
      then (case query_tables_last s of NextGlobal a \<Rightarrow> Some (Some a) | QueryTables \<Rightarrow> None)
      else Some None)"

definition uses_stored_routines :: "Query_tables_list \<Rightarrow> bool" where
  "uses_stored_routines s \<longleftrightarrow> sroutines_list_elements s \<noteq> 0"

section \<open>Unsafe statements\<close>

datatype enum_binlog_stmt_unsafe = BINLOG_STMT_UNSAFE_LIMIT | BINLOG_STMT_UNSAFE_INSERT_DELAYED
  | BINLOG_STMT_UNSAFE_SYSTEM_TABLE | BINLOG_STMT_UNSAFE_AUTOINC_COLUMNS | BINLOG_STMT_UNSAFE_UDF
  | BINLOG_STMT_UNSAFE_SYSTEM_VARIABLE | BINLOG_STMT_UNSAFE_SYSTEM_FUNCTION | BINLOG_STMT_UNSAFE_NONTRANS_AFTER_TRANS
  | BINLOG_STMT_UNSAFE_MULTIPLE_ENGINES_AND_SELF_LOGGING_ENGINE | BINLOG_STMT_UNSAFE_MIXED_STATEMENT
  | BINLOG_STMT_UNSAFE_INSERT_IGNORE_SELECT | BINLOG_STMT_UNSAFE_INSERT_SELECT_UPDATE
  | BINLOG_STMT_UNSAFE_WRITE_AUTOINC_SELECT | BINLOG_STMT_UNSAFE_REPLACE_SELECT
  | BINLOG_STMT_UNSAFE_CREATE_IGNORE_SELECT | BINLOG_STMT_UNSAFE_CREATE_REPLACE_SELECT
  | BINLOG_STMT_UNSAFE_CREATE_SELECT_AUTOINC | BINLOG_STMT_UNSAFE_UPDATE_IGNORE | BINLOG_STMT_UNSAFE_INSERT_TWO_KEYS
  | BINLOG_STMT_UNSAFE_AUTOINC_NOT_FIRST | BINLOG_STMT_UNSAFE_AUTOINC_LOCK_MODE | BINLOG_STMT_UNSAFE_SKIP_LOCKED

fun unsafe_no :: "enum_binlog_stmt_unsafe \<Rightarrow> nat" where
  "unsafe_no BINLOG_STMT_UNSAFE_LIMIT = 0"
| "unsafe_no BINLOG_STMT_UNSAFE_INSERT_DELAYED = 1"
| "unsafe_no BINLOG_STMT_UNSAFE_SYSTEM_TABLE = 2"
| "unsafe_no BINLOG_STMT_UNSAFE_AUTOINC_COLUMNS = 3"
| "unsafe_no BINLOG_STMT_UNSAFE_UDF = 4"
| "unsafe_no BINLOG_STMT_UNSAFE_SYSTEM_VARIABLE = 5"
| "unsafe_no BINLOG_STMT_UNSAFE_SYSTEM_FUNCTION = 6"
| "unsafe_no BINLOG_STMT_UNSAFE_NONTRANS_AFTER_TRANS = 7"
| "unsafe_no BINLOG_STMT_UNSAFE_MULTIPLE_ENGINES_AND_SELF_LOGGING_ENGINE = 8"
| "unsafe_no BINLOG_STMT_UNSAFE_MIXED_STATEMENT = 9"
| "unsafe_no BINLOG_STMT_UNSAFE_INSERT_IGNORE_SELECT = 10"
| "unsafe_no BINLOG_STMT_UNSAFE_INSERT_SELECT_UPDATE = 11"
| "unsafe_no BINLOG_STMT_UNSAFE_WRITE_AUTOINC_SELECT = 12"
| "unsafe_no BINLOG_STMT_UNSAFE_REPLACE_SELECT = 13"
| "unsafe_no BINLOG_STMT_UNSAFE_CREATE_IGNORE_SELECT = 14"
| "unsafe_no BINLOG_STMT_UNSAFE_CREATE_REPLACE_SELECT = 15"
| "unsafe_no BINLOG_STMT_UNSAFE_CREATE_SELECT_AUTOINC = 16"
| "unsafe_no BINLOG_STMT_UNSAFE_UPDATE_IGNORE = 17"
| "unsafe_no BINLOG_STMT_UNSAFE_INSERT_TWO_KEYS = 18"
| "unsafe_no BINLOG_STMT_UNSAFE_AUTOINC_NOT_FIRST = 19"
| "unsafe_no BINLOG_STMT_UNSAFE_AUTOINC_LOCK_MODE = 20"
| "unsafe_no BINLOG_STMT_UNSAFE_SKIP_LOCKED = 21"

definition BINLOG_STMT_UNSAFE_COUNT :: nat where "BINLOG_STMT_UNSAFE_COUNT = 22"
definition BINLOG_STMT_TYPE_ROW_INJECTION :: nat where "BINLOG_STMT_TYPE_ROW_INJECTION = BINLOG_STMT_UNSAFE_COUNT"

definition BINLOG_STMT_UNSAFE_ALL_FLAGS :: uint32 where
  "BINLOG_STMT_UNSAFE_ALL_FLAGS = push_bit BINLOG_STMT_UNSAFE_COUNT 1 - 1"

definition get_stmt_unsafe_flags :: "Query_tables_list \<Rightarrow> uint32" where
  "get_stmt_unsafe_flags s = binlog_stmt_flags s AND BINLOG_STMT_UNSAFE_ALL_FLAGS"

definition is_stmt_unsafe :: "Query_tables_list \<Rightarrow> bool" where
  "is_stmt_unsafe s \<longleftrightarrow> get_stmt_unsafe_flags s \<noteq> 0"

definition is_stmt_unsafe_type :: "Query_tables_list \<Rightarrow> enum_binlog_stmt_unsafe \<Rightarrow> bool" where
  "is_stmt_unsafe_type s unsafe \<longleftrightarrow> binlog_stmt_flags s AND push_bit (unsafe_no unsafe) 1 \<noteq> 0"

definition set_stmt_unsafe :: "Query_tables_list \<Rightarrow> enum_binlog_stmt_unsafe \<Rightarrow> Query_tables_list" where
  "set_stmt_unsafe s unsafe_type = s\<lparr>binlog_stmt_flags := binlog_stmt_flags s OR push_bit (unsafe_no unsafe_type) 1\<rparr>"

definition set_stmt_unsafe_flags :: "Query_tables_list \<Rightarrow> uint32 \<Rightarrow> Query_tables_list" where
  "set_stmt_unsafe_flags s flags = s\<lparr>binlog_stmt_flags := binlog_stmt_flags s OR flags\<rparr>"

definition clear_stmt_unsafe :: "Query_tables_list \<Rightarrow> Query_tables_list" where
  "clear_stmt_unsafe s = s\<lparr>binlog_stmt_flags := binlog_stmt_flags s AND NOT BINLOG_STMT_UNSAFE_ALL_FLAGS\<rparr>"

definition is_stmt_row_injection :: "Query_tables_list \<Rightarrow> bool" where
  "is_stmt_row_injection s \<longleftrightarrow> binlog_stmt_flags s AND push_bit BINLOG_STMT_TYPE_ROW_INJECTION 1 \<noteq> 0"

definition set_stmt_row_injection :: "Query_tables_list \<Rightarrow> Query_tables_list" where
  "set_stmt_row_injection s = s\<lparr>binlog_stmt_flags := binlog_stmt_flags s OR push_bit BINLOG_STMT_TYPE_ROW_INJECTION 1\<rparr>"

section \<open>Accessed tables\<close>

datatype enum_stmt_accessed_table = STMT_READS_TRANS_TABLE | STMT_READS_NON_TRANS_TABLE | STMT_READS_TEMP_TRANS_TABLE
  | STMT_READS_TEMP_NON_TRANS_TABLE | STMT_WRITES_TRANS_TABLE | STMT_WRITES_NON_TRANS_TABLE
  | STMT_WRITES_TEMP_TRANS_TABLE | STMT_WRITES_TEMP_NON_TRANS_TABLE

fun accessed_no :: "enum_stmt_accessed_table \<Rightarrow> nat" where
  "accessed_no STMT_READS_TRANS_TABLE = 0"
| "accessed_no STMT_READS_NON_TRANS_TABLE = 1"
| "accessed_no STMT_READS_TEMP_TRANS_TABLE = 2"
| "accessed_no STMT_READS_TEMP_NON_TRANS_TABLE = 3"
| "accessed_no STMT_WRITES_TRANS_TABLE = 4"
| "accessed_no STMT_WRITES_NON_TRANS_TABLE = 5"
| "accessed_no STMT_WRITES_TEMP_TRANS_TABLE = 6"
| "accessed_no STMT_WRITES_TEMP_NON_TRANS_TABLE = 7"

definition BINLOG_DIRECT_ON :: uint where "BINLOG_DIRECT_ON = 0xF0"
definition BINLOG_DIRECT_OFF :: uint where "BINLOG_DIRECT_OFF = 0xF"
definition TRX_CACHE_EMPTY :: uint where "TRX_CACHE_EMPTY = 0x33"
definition TRX_CACHE_NOT_EMPTY :: uint where "TRX_CACHE_NOT_EMPTY = 0xCC"
definition IL_LT_REPEATABLE :: uint where "IL_LT_REPEATABLE = 0xAA"
definition IL_GTE_REPEATABLE :: uint where "IL_GTE_REPEATABLE = 0x55"
definition ISO_REPEATABLE_READ :: uint where "ISO_REPEATABLE_READ = 2"

definition set_stmt_accessed_table :: "Query_tables_list \<Rightarrow> enum_stmt_accessed_table \<Rightarrow> Query_tables_list" where
  "set_stmt_accessed_table s accessed_table =
     s\<lparr>stmt_accessed_table_flag := stmt_accessed_table_flag s OR push_bit (accessed_no accessed_table) 1\<rparr>"

definition stmt_accessed_table :: "Query_tables_list \<Rightarrow> enum_stmt_accessed_table \<Rightarrow> bool" where
  "stmt_accessed_table s accessed_table \<longleftrightarrow> stmt_accessed_table_flag s AND push_bit (accessed_no accessed_table) 1 \<noteq> 0"

definition stmt_accessed_trans_temp_table :: "Query_tables_list \<Rightarrow> bool" where
  "stmt_accessed_trans_temp_table s \<longleftrightarrow>
     stmt_accessed_table_flag s AND
       (push_bit (accessed_no STMT_READS_TEMP_TRANS_TABLE) 1 OR push_bit (accessed_no STMT_WRITES_TEMP_TRANS_TABLE) 1) \<noteq> 0"

definition stmt_accessed_non_trans_temp_table :: "Query_tables_list \<Rightarrow> bool" where
  "stmt_accessed_non_trans_temp_table s \<longleftrightarrow>
     stmt_accessed_table_flag s AND
       (push_bit (accessed_no STMT_READS_TEMP_NON_TRANS_TABLE) 1 OR push_bit (accessed_no STMT_WRITES_TEMP_NON_TRANS_TABLE) 1) \<noteq> 0"

definition stmt_accessed_temp_table :: "Query_tables_list \<Rightarrow> bool" where
  "stmt_accessed_temp_table s \<longleftrightarrow> stmt_accessed_non_trans_temp_table s \<or> stmt_accessed_trans_temp_table s"

definition stmt_writes_to_non_temp_table :: "Query_tables_list \<Rightarrow> bool" where
  "stmt_writes_to_non_temp_table s \<longleftrightarrow>
     stmt_accessed_table_flag s AND
       (push_bit (accessed_no STMT_WRITES_TRANS_TABLE) 1 OR push_bit (accessed_no STMT_WRITES_NON_TRANS_TABLE) 1) \<noteq> 0"

text \<open>The result is \<open>None\<close> when the array is read out of its bounds.\<close>

definition is_mixed_stmt_unsafe :: "uint list \<Rightarrow> Query_tables_list \<Rightarrow> bool \<Rightarrow> bool \<Rightarrow> bool \<Rightarrow> uint \<Rightarrow> bool option" where
  "is_mixed_stmt_unsafe binlog_unsafe_map s in_multi_stmt_transaction_mode binlog_direct trx_cache_is_not_empty tx_isolation =
     (let late = (stmt_accessed_table s STMT_WRITES_NON_TRANS_TABLE \<and> stmt_accessed_table s STMT_READS_TRANS_TABLE \<and>
            tx_isolation < ISO_REPEATABLE_READ \<or>
          stmt_accessed_table s STMT_WRITES_TEMP_NON_TRANS_TABLE \<and> stmt_accessed_table s STMT_READS_TRANS_TABLE \<and>
            tx_isolation < ISO_REPEATABLE_READ)
      in if in_multi_stmt_transaction_mode
         then let condition = (if binlog_direct then BINLOG_DIRECT_ON else BINLOG_DIRECT_OFF) AND
                    (if trx_cache_is_not_empty then TRX_CACHE_NOT_EMPTY else TRX_CACHE_EMPTY) AND
                    (if ISO_REPEATABLE_READ \<le> tx_isolation then IL_GTE_REPEATABLE else IL_LT_REPEATABLE);
                  i = unat (stmt_accessed_table_flag s)
              in if i < length binlog_unsafe_map
                 then Some (binlog_unsafe_map ! i AND condition \<noteq> 0 \<or> late)
                 else None
         else Some late)"

section \<open>The list invariant\<close>

fun path :: "Query_tables_list \<Rightarrow> tloc \<Rightarrow> nat list \<Rightarrow> bool" where
  "path s l [] \<longleftrightarrow> True"
| "path s l (a # as) \<longleftrightarrow> qt_load s l = Some a \<and> prev_global s a = Some l \<and> path s (NextGlobal a) as"

definition end_loc :: "nat list \<Rightarrow> tloc" where
  "end_loc as = (if as = [] then QueryTables else NextGlobal (last as))"

text \<open>The list holds the tables of the statement and then those added for prelocking.\<close>

definition qt_ok :: "Query_tables_list \<Rightarrow> nat list \<Rightarrow> nat list \<Rightarrow> bool" where
  "qt_ok s own others \<longleftrightarrow> distinct (own @ others) \<and> path s QueryTables (own @ others) \<and>
     query_tables_last s = end_loc (own @ others) \<and> qt_load s (query_tables_last s) = None \<and>
     (query_tables_own_last s = Some (end_loc own) \<or> query_tables_own_last s = None \<and> others = [])"

definition locs :: "nat list \<Rightarrow> tloc set" where "locs as = insert QueryTables (NextGlobal ` set as)"

lemma end_loc_simps [simp]: "end_loc [] = QueryTables" "end_loc (as @ [a]) = NextGlobal a"
  by (simp_all add: end_loc_def)

lemma end_loc_append: "bs \<noteq> [] \<Longrightarrow> end_loc (as @ bs) = NextGlobal (last bs)"
  by (simp add: end_loc_def)

lemma qt_store_simps [simp]:
  "qt_load (qt_store s l v) m = (if m = l then v else qt_load s m)"
  "query_tables_last (qt_store s l v) = query_tables_last s" "query_tables_own_last (qt_store s l v) = query_tables_own_last s"
  "prev_global (qt_store s l v) = prev_global s"
  by (cases l; cases m; simp add: qt_store_def qt_load_def)+

lemma qt_load_updates [simp]:
  "qt_load (s\<lparr>prev_global := f\<rparr>) l = qt_load s l" "qt_load (s\<lparr>query_tables_last := m\<rparr>) l = qt_load s l"
  "qt_load (s\<lparr>query_tables_own_last := o'\<rparr>) l = qt_load s l"
  by (cases l; simp add: qt_load_def)+

lemma path_cong:
  "\<forall>b \<in> set as. qt_load s' (NextGlobal b) = qt_load s (NextGlobal b) \<and> prev_global s' b = prev_global s b \<Longrightarrow>
   qt_load s' l = qt_load s l \<Longrightarrow> path s' l as = path s l as"
  by (induction as arbitrary: l) auto

lemma path_append: "path s QueryTables (as @ bs) \<longleftrightarrow> path s QueryTables as \<and> path s (end_loc as) bs"
proof -
  have "path s l (as @ bs) \<longleftrightarrow> path s l as \<and> path s (if as = [] then l else NextGlobal (last as)) bs" for l
    by (induction as arbitrary: l) auto
  then show ?thesis by (simp add: end_loc_def)
qed

lemma path_links:
  assumes "path s' (NextGlobal a) as = path s (NextGlobal a) as"
  shows "qt_load s' l = qt_load s l \<Longrightarrow> prev_global s' a = prev_global s a \<Longrightarrow> path s' l (a # as) = path s l (a # as)"
  using assms by simp

text \<open>A path depends on the links before its end only.\<close>

lemma path_prefix_cong:
  assumes "path s l as" "\<forall>b \<in> set (butlast as). qt_load s' (NextGlobal b) = qt_load s (NextGlobal b)"
    "\<forall>b \<in> set as. prev_global s' b = prev_global s b" "as \<noteq> [] \<longrightarrow> qt_load s' l = qt_load s l"
  shows "path s' l as"
  using assms by (induction as arbitrary: l) (auto split: if_splits)

lemma path_store_end:
  assumes "path s QueryTables as" "distinct as"
    and "\<forall>b \<in> set as. prev_global s' b = prev_global s b" "\<forall>l. l \<noteq> end_loc as \<longrightarrow> qt_load s' l = qt_load s l"
  shows "path s' QueryTables as"
proof (rule path_prefix_cong [OF assms(1)])
  show "\<forall>b \<in> set (butlast as). qt_load s' (NextGlobal b) = qt_load s (NextGlobal b)"
  proof
    fix b assume b: "b \<in> set (butlast as)"
    then have "as \<noteq> []" by auto
    then have "b \<noteq> last as" using b assms(2) by (metis append_butlast_last_id distinct_append disjoint_iff list.set_intros(1))
    then show "qt_load s' (NextGlobal b) = qt_load s (NextGlobal b)" using assms(4) \<open>as \<noteq> []\<close> by (simp add: end_loc_def)
  qed
  show "as \<noteq> [] \<longrightarrow> qt_load s' QueryTables = qt_load s QueryTables" using assms(4) by (simp add: end_loc_def)
qed (use assms in auto)

lemma add_to_query_tables_simps:
  "query_tables_last (add_to_query_tables s t) = NextGlobal t"
  "query_tables_own_last (add_to_query_tables s t) = query_tables_own_last s"
  "prev_global (add_to_query_tables s t) = (prev_global s)(t := Some (query_tables_last s))"
  "qt_load (add_to_query_tables s t) l = (if l = query_tables_last s then Some t else qt_load s l)"
  by (simp_all add: add_to_query_tables_def Let_def)

lemma add_path:
  assumes "path s QueryTables as" "distinct as" "query_tables_last s = end_loc as" "t \<notin> set as"
  shows "path (add_to_query_tables s t) QueryTables (as @ [t])"
proof -
  have "path (add_to_query_tables s t) QueryTables as"
    by (rule path_store_end [OF assms(1,2)]) (use assms(3,4) in \<open>auto simp: add_to_query_tables_simps\<close>)
  then show ?thesis using assms(3) by (simp add: path_append add_to_query_tables_simps)
qed

lemma end_loc_in: "end_loc as = NextGlobal t \<Longrightarrow> t \<in> set as"
  by (auto simp: end_loc_def split: if_splits)

lemma add_ok:
  assumes "qt_ok s own others" "t \<notin> set (own @ others)" "next_global s t = None"
  shows "if requires_prelocking s then qt_ok (add_to_query_tables s t) own (others @ [t]) else qt_ok (add_to_query_tables s t) (own @ [t]) []"
proof -
  have "query_tables_last s \<noteq> NextGlobal t" using assms(1,2) by (metis end_loc_in qt_ok_def)
  then have "qt_load (add_to_query_tables s t) (NextGlobal t) = None"
    using assms(3) by (simp add: add_to_query_tables_simps) (simp add: qt_load_def)
  then show ?thesis
    using add_path [of s "own @ others" t] assms(1,2)
    by (auto simp: qt_ok_def requires_prelocking_def add_to_query_tables_simps end_loc_append)
qed

lemma chop_parts:
  assumes "qt_ok s own others"
  shows "qt_ok (chop_off_not_own_tables s) own []" "\<not> requires_prelocking (chop_off_not_own_tables s)"
proof -
  have p: "path s QueryTables own" "distinct own" using assms by (auto simp: qt_ok_def path_append)
  show "qt_ok (chop_off_not_own_tables s) own []"
  proof (cases "query_tables_own_last s")
    case None
    then show ?thesis using assms by (auto simp: chop_off_not_own_tables_def qt_ok_def)
  next
    case (Some l)
    then have l: "l = end_loc own" using assms by (auto simp: qt_ok_def)
    have "path (chop_off_not_own_tables s) QueryTables own"
      by (rule path_store_end [OF p]) (simp_all add: chop_off_not_own_tables_def Some l)
    then show ?thesis using p Some l by (simp add: qt_ok_def chop_off_not_own_tables_def)
  qed
  show "\<not> requires_prelocking (chop_off_not_own_tables s)"
    by (auto simp: requires_prelocking_def chop_off_not_own_tables_def split: option.splits)
qed

lemma first_not_own_ok:
  assumes "qt_ok s own others"
  shows "first_not_own_table s = (if others = [] then None else Some (hd others))"
proof (cases "query_tables_own_last s")
  case None
  then show ?thesis using assms by (simp add: first_not_own_table_def qt_ok_def)
next
  case (Some l)
  then show ?thesis using assms by (cases others) (auto simp: first_not_own_table_def qt_ok_def path_append)
qed

lemma path_mark: "path (mark_as_requiring_prelocking s v) l as = path s l as"
  by (rule path_cong) (simp_all add: mark_as_requiring_prelocking_def)

text \<open>The mark may be set at the end of any first part of the list.\<close>

lemma mark_ok:
  assumes "qt_ok s own others" "as @ bs = own @ others"
  shows "qt_ok (mark_as_requiring_prelocking s (Some (end_loc as))) as bs \<and> requires_prelocking (mark_as_requiring_prelocking s (Some (end_loc as)))"
  using assms unfolding qt_ok_def path_mark assms(2)
  by (auto simp: mark_as_requiring_prelocking_def requires_prelocking_def)

text \<open>C13: The list of a statement's tables keeps its two parts: adding puts a table at the end of the part that is being filled, first_not_own_table is the head of the part for prelocking, cutting it
  off leaves the statement's own tables, and last_table is the last of all. Marking the end of a first part of the list makes the statement require prelocking with that part as its own tables and
  the rest as the other part: a table added after that goes to the other part, its head is the first table not the statement's own, and cutting off leaves the marked part.\<close>

theorem query_tables_parts:
  assumes "qt_ok s own others" "t \<notin> set (own @ others)" "next_global s t = None"
  shows "(if requires_prelocking s then qt_ok (add_to_query_tables s t) own (others @ [t]) else qt_ok (add_to_query_tables s t) (own @ [t]) []) \<and>
    first_not_own_table s = (if others = [] then None else Some (hd others)) \<and>
    qt_ok (chop_off_not_own_tables s) own [] \<and> \<not> requires_prelocking (chop_off_not_own_tables s) \<and>
    last_table s = Some (if own @ others = [] then None else Some (last (own @ others))) \<and>
    (\<forall>as bs. as @ bs = own @ others \<longrightarrow>
      (let m = mark_as_requiring_prelocking s (Some (end_loc as)) in
        requires_prelocking m \<and> qt_ok m as bs \<and> qt_ok (add_to_query_tables m t) as (bs @ [t]) \<and>
        first_not_own_table (add_to_query_tables m t) = Some (hd (bs @ [t])) \<and>
        qt_ok (chop_off_not_own_tables (add_to_query_tables m t)) as []))"
proof (intro conjI allI impI)
  show "last_table s = Some (if own @ others = [] then None else Some (last (own @ others)))"
  proof (cases "own @ others = []")
    case True
    then show ?thesis using assms(1) by (auto simp: last_table_def qt_ok_def qt_load_def)
  next
    case False
    then have "query_tables s \<noteq> None"
      using assms(1) by (cases "own @ others") (auto simp: qt_ok_def qt_load_def)
    then show ?thesis using False assms(1) by (simp add: last_table_def qt_ok_def end_loc_def)
  qed
  fix as bs assume split: "as @ bs = own @ others"
  define m where "m = mark_as_requiring_prelocking s (Some (end_loc as))"
  have m: "qt_ok m as bs" "requires_prelocking m" using mark_ok [OF assms(1) split] by (simp_all add: m_def)
  have t: "t \<notin> set (as @ bs)" "next_global m t = None"
    using assms(2,3) by (simp_all add: split m_def mark_as_requiring_prelocking_def)
  have a: "qt_ok (add_to_query_tables m t) as (bs @ [t])" using add_ok [OF m(1) t] m(2) by simp
  show "let m = mark_as_requiring_prelocking s (Some (end_loc as)) in
        requires_prelocking m \<and> qt_ok m as bs \<and> qt_ok (add_to_query_tables m t) as (bs @ [t]) \<and>
        first_not_own_table (add_to_query_tables m t) = Some (hd (bs @ [t])) \<and>
        qt_ok (chop_off_not_own_tables (add_to_query_tables m t)) as []"
    using m a first_not_own_ok [OF a] chop_parts [OF a] unfolding m_def [symmetric] Let_def by simp
qed (use add_ok [OF assms] first_not_own_ok [OF assms(1)] chop_parts [OF assms(1)] in simp_all)

definition sample_tables :: Query_tables_list where
  "sample_tables = \<lparr>query_tables = Some 10, query_tables_last = NextGlobal 30, query_tables_own_last = Some (NextGlobal 10),
     sroutines_list_elements = 0, binlog_stmt_flags = 0, stmt_accessed_table_flag = 0,
     next_global = (\<lambda>_. None)(10 := Some 30), prev_global = (\<lambda>_. None)(10 := Some QueryTables, 30 := Some (NextGlobal 10))\<rparr>"

theorem query_tables_parts_witness:
  "qt_ok (add_to_query_tables sample_tables 50) [10] [30, 50] \<and> last_table sample_tables = Some (Some 30)"
proof -
  have "qt_ok sample_tables [10] [30]" by (simp add: qt_ok_def sample_tables_def qt_load_def end_loc_def)
  then show ?thesis
    using query_tables_parts [of sample_tables "[10]" "[30]" 50] by (simp add: sample_tables_def requires_prelocking_def)
qed

section \<open>Flags\<close>

lemma and_flag: "(w AND push_bit k 1 \<noteq> 0) \<longleftrightarrow> bit (w :: uint32) k"
  using and_bit_nonzero [of w k] by (simp add: push_bit_eq_mult)

lemma unsafe_no_less: "unsafe_no u < 22"
  by (cases u) simp_all

lemma unsafe_no_inj: "unsafe_no u = unsafe_no v \<longleftrightarrow> u = v"
proof
  define nth where "nth k = [BINLOG_STMT_UNSAFE_LIMIT, BINLOG_STMT_UNSAFE_INSERT_DELAYED, BINLOG_STMT_UNSAFE_SYSTEM_TABLE,
    BINLOG_STMT_UNSAFE_AUTOINC_COLUMNS, BINLOG_STMT_UNSAFE_UDF, BINLOG_STMT_UNSAFE_SYSTEM_VARIABLE, BINLOG_STMT_UNSAFE_SYSTEM_FUNCTION,
    BINLOG_STMT_UNSAFE_NONTRANS_AFTER_TRANS, BINLOG_STMT_UNSAFE_MULTIPLE_ENGINES_AND_SELF_LOGGING_ENGINE, BINLOG_STMT_UNSAFE_MIXED_STATEMENT,
    BINLOG_STMT_UNSAFE_INSERT_IGNORE_SELECT, BINLOG_STMT_UNSAFE_INSERT_SELECT_UPDATE, BINLOG_STMT_UNSAFE_WRITE_AUTOINC_SELECT,
    BINLOG_STMT_UNSAFE_REPLACE_SELECT, BINLOG_STMT_UNSAFE_CREATE_IGNORE_SELECT, BINLOG_STMT_UNSAFE_CREATE_REPLACE_SELECT,
    BINLOG_STMT_UNSAFE_CREATE_SELECT_AUTOINC, BINLOG_STMT_UNSAFE_UPDATE_IGNORE, BINLOG_STMT_UNSAFE_INSERT_TWO_KEYS,
    BINLOG_STMT_UNSAFE_AUTOINC_NOT_FIRST, BINLOG_STMT_UNSAFE_AUTOINC_LOCK_MODE, BINLOG_STMT_UNSAFE_SKIP_LOCKED] ! k" for k :: nat
  have inv: "nth (unsafe_no w) = w" for w by (cases w) (simp_all add: nth_def)
  assume "unsafe_no u = unsafe_no v"
  then show "u = v" using inv by metis
qed simp

lemma all_flags_bit: "bit BINLOG_STMT_UNSAFE_ALL_FLAGS n \<longleftrightarrow> n < 22"
proof -
  have eq: "BINLOG_STMT_UNSAFE_ALL_FLAGS = mask 22"
    by (simp add: BINLOG_STMT_UNSAFE_ALL_FLAGS_def BINLOG_STMT_UNSAFE_COUNT_def mask_eq_exp_minus_1 push_bit_eq_mult)
  show ?thesis unfolding eq bit_mask_word by auto
qed

lemma flag_bits:
  "is_stmt_unsafe_type s u \<longleftrightarrow> bit (binlog_stmt_flags s) (unsafe_no u)"
  "is_stmt_row_injection s \<longleftrightarrow> bit (binlog_stmt_flags s) 22"
  "bit (binlog_stmt_flags (set_stmt_unsafe s u)) n \<longleftrightarrow> bit (binlog_stmt_flags s) n \<or> n = unsafe_no u"
  "bit (binlog_stmt_flags (set_stmt_row_injection s)) n \<longleftrightarrow> bit (binlog_stmt_flags s) n \<or> n = 22"
  "bit (binlog_stmt_flags (clear_stmt_unsafe s)) n \<longleftrightarrow> bit (binlog_stmt_flags s) n \<and> 22 \<le> n"
proof -
  show "is_stmt_unsafe_type s u \<longleftrightarrow> bit (binlog_stmt_flags s) (unsafe_no u)"
    unfolding is_stmt_unsafe_type_def by (rule and_flag)
  show "is_stmt_row_injection s \<longleftrightarrow> bit (binlog_stmt_flags s) 22"
    unfolding is_stmt_row_injection_def BINLOG_STMT_TYPE_ROW_INJECTION_def BINLOG_STMT_UNSAFE_COUNT_def by (rule and_flag)
  show "bit (binlog_stmt_flags (set_stmt_unsafe s u)) n \<longleftrightarrow> bit (binlog_stmt_flags s) n \<or> n = unsafe_no u"
    using unsafe_no_less [of u] by (auto simp: set_stmt_unsafe_def push_bit_eq_mult bits_simps)
  show "bit (binlog_stmt_flags (set_stmt_row_injection s)) n \<longleftrightarrow> bit (binlog_stmt_flags s) n \<or> n = 22"
    unfolding set_stmt_row_injection_def BINLOG_STMT_TYPE_ROW_INJECTION_def BINLOG_STMT_UNSAFE_COUNT_def
    by (auto simp: bit_or_iff bit_push_bit_iff bit_1_iff simp del: push_bit_of_1 push_bit_numeral)
  show "bit (binlog_stmt_flags (clear_stmt_unsafe s)) n \<longleftrightarrow> bit (binlog_stmt_flags s) n \<and> 22 \<le> n"
    using word_bit_length [of "binlog_stmt_flags s" n] by (auto simp: clear_stmt_unsafe_def bits_simps all_flags_bit)
qed

lemma unsafe_flag_simps:
  "is_stmt_unsafe_type (set_stmt_unsafe s u) v \<longleftrightarrow> u = v \<or> is_stmt_unsafe_type s v"
  "is_stmt_row_injection (set_stmt_unsafe s u) = is_stmt_row_injection s"
  "\<not> is_stmt_unsafe_type (clear_stmt_unsafe s) v"
  "is_stmt_row_injection (clear_stmt_unsafe s) = is_stmt_row_injection s"
  "is_stmt_unsafe_type (set_stmt_row_injection s) v = is_stmt_unsafe_type s v"
  "is_stmt_row_injection (set_stmt_row_injection s)"
  using unsafe_no_less [of u] unsafe_no_less [of v] unsafe_no_inj [of v u]
  by (auto simp: flag_bits)

lemma is_stmt_unsafe_iff: "is_stmt_unsafe s \<longleftrightarrow> (\<exists>n < 22. bit (binlog_stmt_flags s) n)"
  unfolding is_stmt_unsafe_def get_stmt_unsafe_flags_def word_nonzero_bit bit_and_iff all_flags_bit
  by (rule iffI; elim exE conjE; rule_tac x = n in exI; simp)

section \<open>Mixed statements\<close>

lemma accessed_no_less: "accessed_no a < 8"
  by (cases a) simp_all

lemma accessed_no_inj: "accessed_no a = accessed_no b \<longleftrightarrow> a = b"
  by (cases a; cases b) simp_all

lemma set_stmt_accessed_bit:
  "bit (stmt_accessed_table_flag (set_stmt_accessed_table s a)) n \<longleftrightarrow> bit (stmt_accessed_table_flag s) n \<or> n = accessed_no a"
  using accessed_no_less [of a] by (auto simp: set_stmt_accessed_table_def bits_simps bit_1_iff)

lemma fold_accessed_bit:
  "bit (stmt_accessed_table_flag (foldl set_stmt_accessed_table s ts)) n \<longleftrightarrow>
     bit (stmt_accessed_table_flag s) n \<or> n \<in> accessed_no ` set ts"
  by (induction ts arbitrary: s) (auto simp: set_stmt_accessed_bit)

lemma stmt_accessed_bit: "stmt_accessed_table s a \<longleftrightarrow> bit (stmt_accessed_table_flag s) (accessed_no a)"
  unfolding stmt_accessed_table_def by (rule and_flag)

lemma flag_in_bounds:
  assumes "\<forall>n. bit (w :: uint32) n \<longrightarrow> n < 8"
  shows "unat w < 256"
proof -
  have "w = take_bit 8 w" by (rule word_bits_eqI) (use assms in \<open>auto simp: bit_take_bit_iff\<close>)
  then have "unat w = take_bit 8 (unat w)" by (metis unsigned_take_bit_eq)
  also have "\<dots> < 2 ^ 8" by (rule take_bit_nat_less_exp)
  finally show ?thesis by simp
qed

lemma condition_bit:
  "(if direct then BINLOG_DIRECT_ON else BINLOG_DIRECT_OFF) AND (if not_empty then TRX_CACHE_NOT_EMPTY else TRX_CACHE_EMPTY) AND
   (if repeatable then IL_GTE_REPEATABLE else IL_LT_REPEATABLE) =
   2 ^ (4 * of_bool direct + 2 * of_bool not_empty + of_bool (\<not> repeatable))"
  by (cases direct; cases not_empty; cases repeatable)
     (simp_all add: BINLOG_DIRECT_ON_def BINLOG_DIRECT_OFF_def TRX_CACHE_EMPTY_def TRX_CACHE_NOT_EMPTY_def IL_LT_REPEATABLE_def IL_GTE_REPEATABLE_def)

text \<open>C26: Whatever tables a statement is marked as accessing, the table of unsafe combinations is read within its 256 cells, and the bit that decides is the one the comment assigns to the
  combination of the option, the state of the transaction cache and the isolation level; below REPEATABLE READ a statement that reads a transactional table and writes a
  non-transactional one is unsafe in any case.\<close>

theorem mixed_stmt_unsafe_decides:
  assumes "length unsafe_map = 256" "stmt_accessed_table_flag s0 = 0" "s = foldl set_stmt_accessed_table s0 ts"
  shows "is_mixed_stmt_unsafe unsafe_map s multi direct not_empty isolation =
    Some ((multi \<and> bit (unsafe_map ! unat (stmt_accessed_table_flag s))
                  (4 * of_bool direct + 2 * of_bool not_empty + of_bool (isolation < ISO_REPEATABLE_READ))) \<or>
          (isolation < ISO_REPEATABLE_READ \<and> STMT_READS_TRANS_TABLE \<in> set ts \<and>
           (STMT_WRITES_NON_TRANS_TABLE \<in> set ts \<or> STMT_WRITES_TEMP_NON_TRANS_TABLE \<in> set ts)))"
proof -
  have acc: "stmt_accessed_table s a \<longleftrightarrow> a \<in> set ts" for a
    using assms(2) accessed_no_inj by (auto simp: stmt_accessed_bit assms(3) fold_accessed_bit)
  have i: "unat (stmt_accessed_table_flag s) < 256"
    by (rule flag_in_bounds) (use assms(2) accessed_no_less in \<open>auto simp: assms(3) fold_accessed_bit\<close>)
  have iso: "\<not> ISO_REPEATABLE_READ \<le> isolation \<longleftrightarrow> isolation < ISO_REPEATABLE_READ" by auto
  show ?thesis
    using i assms(1) unfolding is_mixed_stmt_unsafe_def Let_def condition_bit and_bit_nonzero acc iso by auto
qed

theorem mixed_stmt_unsafe_decides_witness:
  "is_mixed_stmt_unsafe (replicate 256 0) (foldl set_stmt_accessed_table sample_tables [STMT_READS_TRANS_TABLE, STMT_WRITES_NON_TRANS_TABLE]) True True False 1 = Some True"
  by (subst mixed_stmt_unsafe_decides [OF _ _ refl]) (simp_all add: sample_tables_def ISO_REPEATABLE_READ_def)

lemma temp_tables_accessed:
  assumes "stmt_accessed_table_flag s0 = 0" "s = foldl set_stmt_accessed_table s0 ts"
  shows "stmt_accessed_trans_temp_table s \<longleftrightarrow> STMT_READS_TEMP_TRANS_TABLE \<in> set ts \<or> STMT_WRITES_TEMP_TRANS_TABLE \<in> set ts"
    "stmt_accessed_non_trans_temp_table s \<longleftrightarrow> STMT_READS_TEMP_NON_TRANS_TABLE \<in> set ts \<or> STMT_WRITES_TEMP_NON_TRANS_TABLE \<in> set ts"
    "stmt_writes_to_non_temp_table s \<longleftrightarrow> STMT_WRITES_TRANS_TABLE \<in> set ts \<or> STMT_WRITES_NON_TRANS_TABLE \<in> set ts"
proof -
  have acc: "bit (stmt_accessed_table_flag s) (accessed_no a) \<longleftrightarrow> a \<in> set ts" for a
    using assms accessed_no_inj by (auto simp: fold_accessed_bit)
  have two: "w AND (push_bit i 1 OR push_bit j 1) \<noteq> 0 \<longleftrightarrow> bit w i \<or> bit w j" for w :: uint32 and i j
    unfolding bit.conj_disj_distrib using and_flag [of w i] and_flag [of w j] by (metis or_eq_0_iff)
  show "stmt_accessed_trans_temp_table s \<longleftrightarrow> STMT_READS_TEMP_TRANS_TABLE \<in> set ts \<or> STMT_WRITES_TEMP_TRANS_TABLE \<in> set ts"
    unfolding stmt_accessed_trans_temp_table_def two acc by (rule refl)
  show "stmt_accessed_non_trans_temp_table s \<longleftrightarrow> STMT_READS_TEMP_NON_TRANS_TABLE \<in> set ts \<or> STMT_WRITES_TEMP_NON_TRANS_TABLE \<in> set ts"
    unfolding stmt_accessed_non_trans_temp_table_def two acc by (rule refl)
  show "stmt_writes_to_non_temp_table s \<longleftrightarrow> STMT_WRITES_TRANS_TABLE \<in> set ts \<or> STMT_WRITES_NON_TRANS_TABLE \<in> set ts"
    unfolding stmt_writes_to_non_temp_table_def two acc by (rule refl)
qed

end
