(* ===== verification/Window_Func.thy ===== *)
theory Window_Func imports Complex_Main Prelude "HOL-Library.Signed_Division" begin

text \<open>
  \<open>private/item_windowfunc.h\<close>: the window functions that are computed in one pass over the rows of a partition and the item that evaluates them (\<open>Item_window_func\<close>). An operation that
  reports an error gives it in the first component of its result. The expressions the functions get are arguments, \<open>None\<close> when they are NULL. The operations of \<open>double\<close> are a record of
  functions: nothing is assumed of them but what a lemma names. \<open>test_if_group_changed\<close> and the \<open>add\<close> operations of RANK, DENSE_RANK and PERCENT_RANK have their bodies elsewhere.
\<close>

section \<open>Numbers\<close>

record 'd double_ops =
  d_of_ll :: "longlong \<Rightarrow> 'd"
  d_of_ull :: "ulonglong \<Rightarrow> 'd"
  d_add :: "'d \<Rightarrow> 'd \<Rightarrow> 'd"
  d_sub :: "'d \<Rightarrow> 'd \<Rightarrow> 'd"
  d_mul :: "'d \<Rightarrow> 'd \<Rightarrow> 'd"
  d_div :: "'d \<Rightarrow> 'd \<Rightarrow> 'd"
  d_lt :: "'d \<Rightarrow> 'd \<Rightarrow> bool"
  d_le :: "'d \<Rightarrow> 'd \<Rightarrow> bool"
  d_eq :: "'d \<Rightarrow> 'd \<Rightarrow> bool"
  d_floor :: "'d \<Rightarrow> 'd"
  d_ceil :: "'d \<Rightarrow> 'd"

datatype win_error = ER_INVALID_NTILE_ARGUMENT | ER_ARGUMENT_OUT_OF_RANGE | ER_ARGUMENT_NOT_CONSTANT

section \<open>Group_bound_tracker\<close>

record 'c Group_bound_tracker =
  group_fields :: "'c list"
  first_check :: bool

definition gbt_init :: "'c Group_bound_tracker \<Rightarrow> 'c Group_bound_tracker" where
  "gbt_init g = g\<lparr>first_check := True\<rparr>"

text \<open>\<open>test_if_group_changed\<close> gives the number of the first field that changed or -1, and the fields with their new cached values.\<close>

definition check_if_next_group :: "('c list \<Rightarrow> int \<times> 'c list) \<Rightarrow> 'c Group_bound_tracker \<Rightarrow> bool \<times> 'c Group_bound_tracker" where
  "check_if_next_group test_if_group_changed g =
     (let (i, fs) = test_if_group_changed (group_fields g);
          g = g\<lparr>group_fields := fs\<rparr>
      in if - 1 < i \<or> first_check g then (True, g\<lparr>first_check := False\<rparr>) else (False, g))"

fun first_difference :: "('c \<Rightarrow> int) \<Rightarrow> 'c list \<Rightarrow> int" where
  "first_difference cmp_read_only [] = 0"
| "first_difference cmp_read_only (p # ps) = (let res = cmp_read_only p in if res \<noteq> 0 then res else first_difference cmp_read_only ps)"

definition compare_with_cache :: "('c \<Rightarrow> int) \<Rightarrow> 'c Group_bound_tracker \<Rightarrow> int" where
  "compare_with_cache cmp_read_only g = first_difference cmp_read_only (group_fields g)"

section \<open>ROW_NUMBER, RANK, DENSE_RANK, PERCENT_RANK, CUME_DIST\<close>

definition row_number_clear :: "longlong \<Rightarrow> longlong" where "row_number_clear count = 0"
definition row_number_add :: "longlong \<Rightarrow> longlong" where "row_number_add count = count + 1"
definition row_number_val_int :: "longlong \<Rightarrow> longlong" where "row_number_val_int count = count"

record Item_sum_rank =
  row_number :: longlong
  cur_rank :: longlong

definition rank_clear :: "Item_sum_rank \<Rightarrow> Item_sum_rank" where
  "rank_clear r = r\<lparr>cur_rank := 1, row_number := 0\<rparr>"

definition rank_val_int :: "Item_sum_rank \<Rightarrow> longlong" where "rank_val_int r = cur_rank r"

record Item_sum_dense_rank =
  dense_rank :: longlong
  first_add :: bool

definition dense_rank_clear :: "Item_sum_dense_rank \<Rightarrow> Item_sum_dense_rank" where
  "dense_rank_clear r = r\<lparr>dense_rank := 0, first_add := True\<rparr>"

definition dense_rank_val_int :: "Item_sum_dense_rank \<Rightarrow> longlong" where "dense_rank_val_int r = dense_rank r"

text \<open>\<open>calc_val_real\<close>: the value of \<open>*null_value\<close> and the result.\<close>

definition calc_val_real :: "'d double_ops \<Rightarrow> ulonglong \<Rightarrow> ulonglong \<Rightarrow> bool \<times> 'd" where
  "calc_val_real D partition_row_count current_row_count =
     (if partition_row_count = 0 then (True, d_of_ll D 0)
      else (False, d_div D (d_of_ull D current_row_count) (d_of_ull D partition_row_count)))"

definition get_row_count :: "ulonglong \<Rightarrow> longlong" where "get_row_count partition_row_count = partition_row_count"

definition percent_rank_val_real :: "'d double_ops \<Rightarrow> ulonglong \<Rightarrow> longlong \<Rightarrow> bool \<times> 'd" where
  "percent_rank_val_real D partition_row_count rk =
     (let partition_rows = get_row_count partition_row_count :: ulonglong
      in (\<not> 0 < partition_rows,
          if 1 < partition_rows then d_div D (d_of_ll D (rk - 1)) (d_of_ull D (partition_rows - 1)) else d_of_ll D 0))"

record Item_sum_cume_dist =
  cd_partition_row_count :: ulonglong
  cd_current_row_count :: ulonglong

definition cume_dist_clear :: "Item_sum_cume_dist \<Rightarrow> Item_sum_cume_dist" where
  "cume_dist_clear c = c\<lparr>cd_current_row_count := 0, cd_partition_row_count := 0\<rparr>"

definition cume_dist_add :: "Item_sum_cume_dist \<Rightarrow> Item_sum_cume_dist" where
  "cume_dist_add c = c\<lparr>cd_current_row_count := cd_current_row_count c + 1\<rparr>"

definition cume_dist_val_real :: "'d double_ops \<Rightarrow> Item_sum_cume_dist \<Rightarrow> bool \<times> 'd" where
  "cume_dist_val_real D c = calc_val_real D (cd_partition_row_count c) (cd_current_row_count c)"

section \<open>NTILE\<close>

record Item_sum_ntile =
  nt_partition_row_count :: ulonglong
  nt_current_row_count :: ulonglong
  n_old_val :: ulonglong
  nt_null_value :: bool

definition ntile_val_int :: "longlong \<Rightarrow> Item_sum_ntile \<Rightarrow> win_error option \<times> longlong \<times> Item_sum_ntile" where
  "ntile_val_int num_quantiles s =
     (if get_row_count (nt_partition_row_count s) = 0 then (None, 0, s\<lparr>nt_null_value := True\<rparr>)
      else if sint num_quantiles \<le> 0 \<or> num_quantiles \<noteq> n_old_val s \<and> 0 < n_old_val s
      then (Some ER_INVALID_NTILE_ARGUMENT, 1, s)
      else let s = s\<lparr>n_old_val := num_quantiles, nt_null_value := False\<rparr>;
               row_count = get_row_count (nt_partition_row_count s);
               quantile_size = word_of_int (sint row_count sdiv sint num_quantiles) :: ulonglong;
               extra_rows = row_count - quantile_size * num_quantiles :: ulonglong
           in (None,
               if nt_current_row_count s \<le> extra_rows * (quantile_size + 1)
               then (nt_current_row_count s - 1) div (quantile_size + 1) + 1
               else (nt_current_row_count s - 1 - extra_rows) div quantile_size + 1,
               s))"

definition ntile_add :: "Item_sum_ntile \<Rightarrow> Item_sum_ntile" where
  "ntile_add s = s\<lparr>nt_current_row_count := nt_current_row_count s + 1\<rparr>"

definition ntile_clear :: "Item_sum_ntile \<Rightarrow> Item_sum_ntile" where
  "ntile_clear s = s\<lparr>nt_current_row_count := 0, nt_partition_row_count := 0, n_old_val := 0\<rparr>"

definition ntile_set_partition_row_count :: "Item_sum_ntile \<Rightarrow> ulonglong \<Rightarrow> Item_sum_ntile" where
  "ntile_set_partition_row_count s count = s\<lparr>nt_partition_row_count := count\<rparr>"

section \<open>PERCENTILE_DISC\<close>

record ('d, 'v) Item_sum_percentile_disc =
  pd_partition_row_count :: ulonglong
  pd_current_row_count :: ulonglong
  pd_value :: "'v option"
  val_calculated :: bool
  pd_first_call :: bool
  pd_prev_value :: 'd
  pd_null_value :: bool

text \<open>The numeric values; an empty cache reads as zero.\<close>

definition disc_value :: "'v \<Rightarrow> 'd option \<Rightarrow> ('d, 'v) Item_sum_percentile_disc \<Rightarrow> 'v \<times> ('d, 'v) Item_sum_percentile_disc" where
  "disc_value zero arg s =
     (if get_row_count (pd_partition_row_count s) = 0 \<or> arg = None then (zero, s\<lparr>pd_null_value := True\<rparr>)
      else (case pd_value s of None \<Rightarrow> zero | Some v \<Rightarrow> v, s\<lparr>pd_null_value := False\<rparr>))"

text \<open>What is left of \<open>add\<close> when the argument has been checked; \<open>order_item\<close> is the value of the row in the ordering.\<close>

definition disc_store :: "'d double_ops \<Rightarrow> 'v option \<Rightarrow> ('d, 'v) Item_sum_percentile_disc \<Rightarrow> ('d, 'v) Item_sum_percentile_disc" where
  "disc_store D order_item s =
     (if val_calculated s then s
      else let s = s\<lparr>pd_value := order_item\<rparr>
           in if pd_value s = None then s
              else let s = s\<lparr>pd_current_row_count := pd_current_row_count s + 1\<rparr>;
                       (nv, val) = calc_val_real D (pd_partition_row_count s) (pd_current_row_count s);
                       s = s\<lparr>pd_null_value := nv\<rparr>
                   in if d_le D (pd_prev_value s) val \<and> \<not> val_calculated s then s\<lparr>val_calculated := True\<rparr> else s)"

definition disc_add :: "'d double_ops \<Rightarrow> 'd option \<Rightarrow> 'v option \<Rightarrow> ('d, 'v) Item_sum_percentile_disc \<Rightarrow>
    win_error option \<times> ('d, 'v) Item_sum_percentile_disc" where
  "disc_add D arg order_item s = (case arg of None \<Rightarrow> (None, s) | Some arg_val \<Rightarrow>
     let s' = (if pd_first_call s then s\<lparr>pd_prev_value := arg_val\<rparr> else s)
     in if pd_first_call s \<and> (d_lt D (d_of_ll D 1) (pd_prev_value s') \<or> d_lt D (pd_prev_value s') (d_of_ll D 0))
        then (Some ER_ARGUMENT_OUT_OF_RANGE, s')
        else let s' = (if pd_first_call s then s'\<lparr>pd_first_call := False\<rparr> else s')
             in if \<not> d_eq D (pd_prev_value s') arg_val then (Some ER_ARGUMENT_NOT_CONSTANT, s')
                else (None, disc_store D order_item s'))"

definition disc_clear :: "('d, 'v) Item_sum_percentile_disc \<Rightarrow> ('d, 'v) Item_sum_percentile_disc" where
  "disc_clear s = s\<lparr>val_calculated := False, pd_first_call := True, pd_value := None, pd_partition_row_count := 0, pd_current_row_count := 0\<rparr>"

definition disc_set_partition_row_count :: "('d, 'v) Item_sum_percentile_disc \<Rightarrow> ulonglong \<Rightarrow> ('d, 'v) Item_sum_percentile_disc" where
  "disc_set_partition_row_count s count = s\<lparr>pd_partition_row_count := count\<rparr>"

section \<open>PERCENTILE_CONT\<close>

record 'd Item_sum_percentile_cont =
  pc_partition_row_count :: ulonglong
  pc_current_row_count :: ulonglong
  floor_value :: "'d option"
  ceil_value :: "'d option"
  pc_first_call :: bool
  pc_prev_value :: 'd
  ceil_val_calculated :: bool
  floor_val_calculated :: bool
  pc_null_value :: bool

definition cont_row :: "'d double_ops \<Rightarrow> 'd Item_sum_percentile_cont \<Rightarrow> 'd" where
  "cont_row D s = d_add D (d_of_ll D 1) (d_mul D (pc_prev_value s) (d_of_ll D (get_row_count (pc_partition_row_count s) - 1)))"

text \<open>The value of an item that is NULL reads as zero.\<close>

definition cache_real :: "'d double_ops \<Rightarrow> 'd option \<Rightarrow> 'd" where
  "cache_real D v = (case v of None \<Rightarrow> d_of_ll D 0 | Some x \<Rightarrow> x)"

definition cont_val_real :: "'d double_ops \<Rightarrow> 'd option \<Rightarrow> 'd Item_sum_percentile_cont \<Rightarrow> 'd \<times> 'd Item_sum_percentile_cont" where
  "cont_val_real D arg s =
     (if get_row_count (pc_partition_row_count s) = 0 \<or> arg = None then (d_of_ll D 0, s\<lparr>pc_null_value := True\<rparr>)
      else let s = s\<lparr>pc_null_value := False\<rparr>;
               val = cont_row D s
           in if d_eq D (d_ceil D val) (d_floor D val) then (cache_real D (floor_value s), s)
              else (d_add D (d_mul D (d_sub D val (d_floor D val)) (cache_real D (ceil_value s)))
                            (d_mul D (d_sub D (d_ceil D val) val) (cache_real D (floor_value s))), s))"

definition cont_store :: "'d double_ops \<Rightarrow> 'd option \<Rightarrow> 'd Item_sum_percentile_cont \<Rightarrow> 'd Item_sum_percentile_cont" where
  "cont_store D order_item s =
     (let s1 = (if \<not> floor_val_calculated s then s\<lparr>floor_value := order_item\<rparr> else s);
          s2 = (if floor_val_calculated s1 \<and> \<not> ceil_val_calculated s1 then s1\<lparr>ceil_value := order_item\<rparr> else s1)
      in if \<not> floor_val_calculated s \<and> floor_value s1 = None then s1
         else if floor_val_calculated s1 \<and> \<not> ceil_val_calculated s1 \<and> ceil_value s2 = None then s2
         else let s = s2\<lparr>pc_current_row_count := pc_current_row_count s2 + 1\<rparr>;
                  val = cont_row D s;
                  s = (if \<not> floor_val_calculated s \<and> d_eq D (d_of_ull D (pc_current_row_count s)) (d_floor D val)
                       then s\<lparr>floor_val_calculated := True\<rparr> else s)
              in if \<not> ceil_val_calculated s \<and> d_eq D (d_of_ull D (pc_current_row_count s)) (d_ceil D val)
                 then s\<lparr>ceil_val_calculated := True\<rparr> else s)"

definition cont_add :: "'d double_ops \<Rightarrow> 'd option \<Rightarrow> 'd option \<Rightarrow> 'd Item_sum_percentile_cont \<Rightarrow>
    win_error option \<times> 'd Item_sum_percentile_cont" where
  "cont_add D arg order_item s = (case arg of None \<Rightarrow> (None, s) | Some arg_val \<Rightarrow>
     let s' = (if pc_first_call s then s\<lparr>pc_first_call := False, pc_prev_value := arg_val\<rparr> else s)
     in if pc_first_call s \<and> (d_lt D (d_of_ll D 1) (pc_prev_value s') \<or> d_lt D (pc_prev_value s') (d_of_ll D 0))
        then (Some ER_ARGUMENT_OUT_OF_RANGE, s')
        else if \<not> d_eq D (pc_prev_value s') arg_val then (Some ER_ARGUMENT_NOT_CONSTANT, s')
        else (None, cont_store D order_item s'))"

definition cont_clear :: "'d Item_sum_percentile_cont \<Rightarrow> 'd Item_sum_percentile_cont" where
  "cont_clear s = s\<lparr>pc_first_call := True, floor_value := None, ceil_value := None, floor_val_calculated := False,
     ceil_val_calculated := False, pc_partition_row_count := 0, pc_current_row_count := 0\<rparr>"

definition cont_set_partition_row_count :: "'d Item_sum_percentile_cont \<Rightarrow> ulonglong \<Rightarrow> 'd Item_sum_percentile_cont" where
  "cont_set_partition_row_count s count = s\<lparr>pc_partition_row_count := count\<rparr>"

section \<open>Item_window_func\<close>

datatype Sumfunctype = COUNT_FUNC | COUNT_DISTINCT_FUNC | SUM_FUNC | SUM_DISTINCT_FUNC | AVG_FUNC | AVG_DISTINCT_FUNC | MIN_FUNC
  | MAX_FUNC | STD_FUNC | VARIANCE_FUNC | SUM_BIT_FUNC | UDF_SUM_FUNC | GROUP_CONCAT_FUNC
  | ROW_NUMBER_FUNC | RANK_FUNC | DENSE_RANK_FUNC | PERCENT_RANK_FUNC | CUME_DIST_FUNC | NTILE_FUNC
  | FIRST_VALUE_FUNC | LAST_VALUE_FUNC | NTH_VALUE_FUNC | LEAD_FUNC | LAG_FUNC | PERCENTILE_CONT_FUNC | PERCENTILE_DISC_FUNC
  | SP_AGGREGATE_FUNC | JSON_ARRAYAGG_FUNC | JSON_OBJECTAGG_FUNC

definition is_frame_prohibited :: "Sumfunctype \<Rightarrow> bool" where
  "is_frame_prohibited f = (case f of
     ROW_NUMBER_FUNC \<Rightarrow> True | RANK_FUNC \<Rightarrow> True | DENSE_RANK_FUNC \<Rightarrow> True | PERCENT_RANK_FUNC \<Rightarrow> True
   | CUME_DIST_FUNC \<Rightarrow> True | NTILE_FUNC \<Rightarrow> True | PERCENTILE_CONT_FUNC \<Rightarrow> True | PERCENTILE_DISC_FUNC \<Rightarrow> True
   | _ \<Rightarrow> False)"

definition requires_special_cursors :: "Sumfunctype \<Rightarrow> bool" where
  "requires_special_cursors f = (case f of
     FIRST_VALUE_FUNC \<Rightarrow> True | LAST_VALUE_FUNC \<Rightarrow> True | NTH_VALUE_FUNC \<Rightarrow> True | LAG_FUNC \<Rightarrow> True | LEAD_FUNC \<Rightarrow> True
   | _ \<Rightarrow> False)"

definition requires_partition_size :: "Sumfunctype \<Rightarrow> bool" where
  "requires_partition_size f = (case f of
     PERCENT_RANK_FUNC \<Rightarrow> True | CUME_DIST_FUNC \<Rightarrow> True | NTILE_FUNC \<Rightarrow> True
   | PERCENTILE_CONT_FUNC \<Rightarrow> True | PERCENTILE_DISC_FUNC \<Rightarrow> True | _ \<Rightarrow> False)"

definition requires_peer_size :: "Sumfunctype \<Rightarrow> bool" where
  "requires_peer_size f = (case f of CUME_DIST_FUNC \<Rightarrow> True | _ \<Rightarrow> False)"

definition is_order_list_mandatory :: "Sumfunctype \<Rightarrow> bool" where
  "is_order_list_mandatory f = (case f of
     RANK_FUNC \<Rightarrow> True | DENSE_RANK_FUNC \<Rightarrow> True | PERCENT_RANK_FUNC \<Rightarrow> True | CUME_DIST_FUNC \<Rightarrow> True
   | LAG_FUNC \<Rightarrow> True | LEAD_FUNC \<Rightarrow> True | PERCENTILE_CONT_FUNC \<Rightarrow> True | PERCENTILE_DISC_FUNC \<Rightarrow> True
   | _ \<Rightarrow> False)"

definition only_single_element_order_list :: "Sumfunctype \<Rightarrow> bool" where
  "only_single_element_order_list f = (case f of PERCENTILE_CONT_FUNC \<Rightarrow> True | PERCENTILE_DISC_FUNC \<Rightarrow> True | _ \<Rightarrow> False)"

text \<open>What the item reads: a number with its NULL flag, from the field of the temporary table or from the window function.\<close>

record Item_window_func =
  force_return_blank :: bool
  read_value_from_result_field :: bool
  null_value :: bool

definition item_window_func :: Item_window_func where
  "item_window_func = \<lparr>force_return_blank = True, read_value_from_result_field = False, null_value = False\<rparr>"

definition set_phase_to_initial :: "Item_window_func \<Rightarrow> Item_window_func" where
  "set_phase_to_initial w = w\<lparr>force_return_blank := True, read_value_from_result_field := False\<rparr>"

definition set_phase_to_computation :: "Item_window_func \<Rightarrow> Item_window_func" where
  "set_phase_to_computation w = w\<lparr>force_return_blank := False, read_value_from_result_field := False\<rparr>"

definition set_phase_to_retrieval :: "Item_window_func \<Rightarrow> Item_window_func" where
  "set_phase_to_retrieval w = w\<lparr>force_return_blank := False, read_value_from_result_field := True\<rparr>"

definition wf_is_null :: "bool \<Rightarrow> bool \<Rightarrow> Item_window_func \<Rightarrow> bool" where
  "wf_is_null field_is_null func_is_null w =
     (if force_return_blank w then True
      else if read_value_from_result_field w then field_is_null
      else func_is_null)"

text \<open>\<open>val_real\<close> and \<open>val_int\<close> for the type of numbers \<open>'n\<close> with its zero.\<close>

definition wf_val_num :: "'n \<Rightarrow> 'n \<times> bool \<Rightarrow> 'n \<times> bool \<Rightarrow> Item_window_func \<Rightarrow> 'n \<times> Item_window_func" where
  "wf_val_num zero field func w =
     (if force_return_blank w then (zero, w\<lparr>null_value := True\<rparr>)
      else if read_value_from_result_field w then (fst field, w\<lparr>null_value := snd field\<rparr>)
      else (fst func, w\<lparr>null_value := snd func\<rparr>))"

text \<open>\<open>val_str\<close>, and likewise \<open>val_decimal\<close>: a pointer to the value, \<open>None\<close> for the null pointer.\<close>

definition wf_val_ptr :: "'n option \<times> bool \<Rightarrow> 'n option \<times> bool \<Rightarrow> Item_window_func \<Rightarrow> 'n option \<times> Item_window_func" where
  "wf_val_ptr field func w =
     (if force_return_blank w then (None, w\<lparr>null_value := True\<rparr>)
      else if read_value_from_result_field w
      then let w = w\<lparr>null_value := snd field\<rparr> in if null_value w then (None, w) else (fst field, w)
      else (fst func, w\<lparr>null_value := snd func\<rparr>))"

definition wf_get_date :: "bool \<times> bool \<Rightarrow> bool \<times> bool \<Rightarrow> Item_window_func \<Rightarrow> bool \<times> Item_window_func" where
  "wf_get_date field func w =
     (if force_return_blank w then (True, w\<lparr>null_value := True\<rparr>)
      else if read_value_from_result_field w
      then let w = w\<lparr>null_value := snd field\<rparr> in if null_value w then (True, w) else (fst field, w)
      else (fst func, w\<lparr>null_value := snd func\<rparr>))"

section \<open>NTILE deals the rows out evenly\<close>

text \<open>How many rows precede the group \<open>k\<close> when \<open>R\<close> rows are dealt out to \<open>n\<close> groups: the first \<open>R mod n\<close> groups get one row more.\<close>

definition tile_start :: "nat \<Rightarrow> nat \<Rightarrow> nat \<Rightarrow> nat" where
  "tile_start R n k = (k - 1) * (R div n) + min (k - 1) (R mod n)"

definition tile :: "nat \<Rightarrow> nat \<Rightarrow> nat \<Rightarrow> nat" where
  "tile R n c = (let q = R div n; e = R mod n in if c \<le> e * (q + 1) then (c - 1) div (q + 1) + 1 else (c - 1 - e) div q + 1)"

lemma tile_interval:
  assumes "0 < n" "0 < c" "c \<le> R"
  shows "1 \<le> tile R n c" "tile R n c \<le> n" "tile_start R n (tile R n c) < c" "c \<le> tile_start R n (tile R n c + 1)"
proof -
  define q where "q = R div n"
  define e where "e = R mod n"
  have R: "R = n * q + e" "e < n" using assms(1) by (simp_all add: q_def e_def)
  have "1 \<le> tile R n c \<and> tile R n c \<le> n \<and> tile_start R n (tile R n c) < c \<and> c \<le> tile_start R n (tile R n c + 1)"
  proof (cases "c \<le> e * (q + 1)")
    case True
    define j where "j = (c - 1) div (q + 1)"
    have t: "tile R n c = j + 1" using True by (simp add: tile_def j_def q_def [symmetric] e_def [symmetric])
    have j: "j * (q + 1) \<le> c - 1" "c - 1 < (j + 1) * (q + 1)"
      unfolding j_def by (metis div_times_less_eq_dividend) (metis dividend_less_div_times add.commute add_gr_0 mult.commute mult_Suc Suc_eq_plus1 zero_less_Suc)
    have "c - 1 < e * (q + 1)" using True assms(2) by simp
    then have je: "j < e" unfolding j_def by (simp add: less_mult_imp_div_less)
    have "tile_start R n (j + 1) = j * (q + 1)" "tile_start R n (j + 1 + 1) = (j + 1) * (q + 1)"
      using je by (simp_all add: tile_start_def q_def [symmetric] e_def [symmetric] algebra_simps)
    then show ?thesis unfolding t using j je R(2) assms(2) by auto
  next
    case False
    have q: "0 < q"
    proof (rule ccontr)
      assume "\<not> 0 < q"
      then show False using False assms(3) R(1) by simp
    qed
    define j where "j = (c - 1 - e) div q"
    have t: "tile R n c = j + 1" using False by (simp add: tile_def j_def q_def [symmetric] e_def [symmetric])
    have ce: "e * q \<le> c - 1 - e" "c - 1 - e < n * q" "e \<le> c - 1"
      using False assms(2,3) R by (simp_all add: algebra_simps)
    have j: "j * q \<le> c - 1 - e" "c - 1 - e < (j + 1) * q"
      unfolding j_def using q by (metis div_times_less_eq_dividend) (metis dividend_less_div_times q add.commute mult.commute mult_Suc Suc_eq_plus1)
    have je: "e \<le> j" "j < n"
      using ce q unfolding j_def by (simp_all add: less_eq_div_iff_mult_less_eq less_mult_imp_div_less)
    have "tile_start R n (j + 1) = j * q + e" "tile_start R n (j + 1 + 1) = (j + 1) * q + e"
      using je by (simp_all add: tile_start_def q_def [symmetric] e_def [symmetric])
    then show ?thesis unfolding t using j je ce assms(2) by auto
  qed
  then show "1 \<le> tile R n c" "tile R n c \<le> n" "tile_start R n (tile R n c) < c" "c \<le> tile_start R n (tile R n c + 1)"
    by blast+
qed

lemma sdiv_nat: "int a sdiv int b = int (a div b)"
  by (cases "a = 0"; cases "b = 0") (simp_all add: signed_divide_int_def zdiv_int sgn_if)

lemma ntile_val_int_eq:
  assumes "nt_partition_row_count s = R" "R \<noteq> 0" "0 < sint n" "n_old_val s = 0 \<or> n_old_val s = n"
  shows "ntile_val_int n s =
    (None,
     let q = word_of_int (sint R sdiv sint n); e = R - q * n
     in if nt_current_row_count s \<le> e * (q + 1) then (nt_current_row_count s - 1) div (q + 1) + 1
        else (nt_current_row_count s - 1 - e) div q + 1,
     s\<lparr>n_old_val := n, nt_null_value := False\<rparr>)"
  using assms by (auto simp: ntile_val_int_def Let_def get_row_count_def)

lemma ntile_val_int_tile:
  assumes "nt_partition_row_count s = R" "0 < unat R" "unat R < 2 ^ 63" "0 < unat n" "unat n < 2 ^ 63"
    and "n_old_val s = 0 \<or> n_old_val s = n" "0 < unat (nt_current_row_count s)" "nt_current_row_count s \<le> R"
  shows "ntile_val_int n s = (None, of_nat (tile (unat R) (unat n) (unat (nt_current_row_count s))), s\<lparr>n_old_val := n, nt_null_value := False\<rparr>)"
proof -
  let ?R = "unat R" and ?n = "unat n" and ?c = "unat (nt_current_row_count s)"
  define q where "q = ?R div ?n"
  define e where "e = ?R mod ?n"
  have R: "?R = ?n * q + e" "e < ?n" using assms(4) by (simp_all add: q_def e_def)
  have c: "0 < ?c" "?c \<le> ?R" using assms(7,8) by (simp_all add: word_le_nat_alt)
  have qR: "q \<le> ?R" by (simp add: q_def)
  have eq1: "e * (q + 1) \<le> ?R"
    using R mult_le_mono1 [of e ?n q] by (simp add: algebra_simps)
  have sR: "sint R = int ?R" "sint n = int ?n"
    by (rule sint_unat_small, use assms(3,5) in simp)+
  have "int ?R sdiv int ?n = int q"
    unfolding q_def by (rule sdiv_nat)
  then have q': "word_of_int (sint R sdiv sint n) = (of_nat q :: ulonglong)"
    unfolding sR by simp
  have uq: "unat (of_nat q :: ulonglong) = q" using qR assms(3) by (intro unat_of_nat_small) simp
  have uq1: "unat (of_nat q + 1 :: ulonglong) = q + 1"
    using qR assms(3) uq by (subst unat_Suc_word) simp_all
  have ue: "R - of_nat q * n = of_nat e"
  proof -
    have "R = of_nat (?n * q + e)" using R(1) by (metis of_nat_unat ucast_id)
    then show ?thesis by (simp add: mult.commute)
  qed
  have une: "unat (of_nat e :: ulonglong) = e" using R(2) assms(5) by (intro unat_of_nat_small) simp
  have um: "unat (of_nat e * (of_nat q + 1) :: ulonglong) = e * (q + 1)"
  proof -
    have "of_nat e * (of_nat q + 1) = (of_nat (e * (q + 1)) :: ulonglong)" by (simp add: algebra_simps)
    moreover have "unat (of_nat (e * (q + 1)) :: ulonglong) = e * (q + 1)" using eq1 assms(3) by (intro unat_of_nat_small) simp
    ultimately show ?thesis by (simp only:)
  qed
  have pre: "unat (nt_current_row_count s - 1) = ?c - 1" using c(1) by (subst unat_minus_one) auto
  have val: "(if nt_current_row_count s \<le> of_nat e * (of_nat q + 1)
               then (nt_current_row_count s - 1) div (of_nat q + 1) + 1
               else (nt_current_row_count s - 1 - of_nat e) div of_nat q + 1) = (of_nat (tile ?R ?n ?c) :: ulonglong)"
  proof (cases "?c \<le> e * (q + 1)")
    case True
    then have "nt_current_row_count s \<le> of_nat e * (of_nat q + 1)" unfolding word_le_nat_alt um .
    moreover have "(nt_current_row_count s - 1) div (of_nat q + 1) = of_nat ((?c - 1) div (q + 1))"
      by (metis of_nat_unat ucast_id unat_div uq1 pre)
    ultimately show ?thesis using True by (simp add: tile_def q_def [symmetric] e_def [symmetric])
  next
    case False
    then have "\<not> nt_current_row_count s \<le> of_nat e * (of_nat q + 1)" unfolding word_le_nat_alt um .
    moreover have "unat (nt_current_row_count s - 1 - of_nat e) = ?c - 1 - e"
      using False pre une by (subst unat_sub) (auto simp: word_le_nat_alt)
    then have "(nt_current_row_count s - 1 - of_nat e) div of_nat q = of_nat ((?c - 1 - e) div q)"
      by (metis of_nat_unat ucast_id unat_div uq)
    ultimately show ?thesis using False by (simp add: tile_def q_def [symmetric] e_def [symmetric])
  qed
  have ne: "R \<noteq> 0" using assms(2) by auto
  have pos: "0 < sint n"
    unfolding sR(2) using assms(4) by (simp del: of_nat_unat)
  show ?thesis
    unfolding ntile_val_int_eq [OF assms(1) ne pos assms(6)] Let_def q' ue val by (rule refl)
qed

text \<open>The rows of a partition one after the other, each with the value of the function.\<close>

fun ntile_rows :: "longlong \<Rightarrow> nat \<Rightarrow> Item_sum_ntile \<Rightarrow> (win_error option \<times> longlong) list" where
  "ntile_rows n 0 s = []"
| "ntile_rows n (Suc k) s = (let (err, v, s') = ntile_val_int n (ntile_add s) in (err, v) # ntile_rows n k s')"

lemma ntile_rows_tiles:
  assumes "nt_partition_row_count s = R" "0 < unat R" "unat R < 2 ^ 63" "0 < unat n" "unat n < 2 ^ 63"
    and "n_old_val s = 0 \<or> n_old_val s = n" "unat (nt_current_row_count s) + k = unat R"
  shows "ntile_rows n k s = map (\<lambda>c. (None, of_nat (tile (unat R) (unat n) c))) [unat (nt_current_row_count s) + 1..<unat R + 1]"
  using assms(1,6,7)
proof (induction k arbitrary: s)
  case 0
  then show ?case by simp
next
  case (Suc k)
  have u: "unat (nt_current_row_count s + 1) = unat (nt_current_row_count s) + 1"
    using Suc.prems(3) assms(3) by (intro unat_Suc_word) simp
  have v: "ntile_val_int n (ntile_add s) =
      (None, of_nat (tile (unat R) (unat n) (unat (nt_current_row_count s) + 1)), (ntile_add s)\<lparr>n_old_val := n, nt_null_value := False\<rparr>)"
    using ntile_val_int_tile [of "ntile_add s" R n] assms(2-5) Suc.prems u by (simp add: ntile_add_def word_le_nat_alt)
  have "ntile_rows n k ((ntile_add s)\<lparr>n_old_val := n, nt_null_value := False\<rparr>) =
      map (\<lambda>c. (None, of_nat (tile (unat R) (unat n) c))) [unat (nt_current_row_count s) + 2..<unat R + 1]"
    using Suc.IH [of "(ntile_add s)\<lparr>n_old_val := n, nt_null_value := False\<rparr>"] Suc.prems u by (simp add: ntile_add_def)
  moreover have "[unat (nt_current_row_count s) + 1..<unat R + 1] = (unat (nt_current_row_count s) + 1) # [unat (nt_current_row_count s) + 2..<unat R + 1]"
    using Suc.prems(3) by (simp add: upt_conv_Cons)
  ultimately show ?case by (simp add: v)
qed

text \<open>C17: NTILE deals the rows of a partition out evenly: over the rows in order it gives numbers of groups from one to the number asked for, without an error; the group \<open>k\<close> gets the rows
  behind those of the groups before it, and the first groups get the rows left over, one each.\<close>

theorem ntile_deals_evenly:
  assumes "0 < unat R" "unat R < 2 ^ 63" "0 < unat n" "unat n < 2 ^ 63"
    and "vs = ntile_rows n (unat R) (ntile_set_partition_row_count (ntile_clear s) R)"
  shows "length vs = unat R \<and>
    (\<forall>c < unat R. \<exists>k. vs ! c = (None, of_nat k) \<and> 1 \<le> k \<and> k \<le> unat n \<and>
       tile_start (unat R) (unat n) k \<le> c \<and> c < tile_start (unat R) (unat n) (k + 1))"
proof -
  have vs: "vs = map (\<lambda>c. (None, of_nat (tile (unat R) (unat n) c))) [1..<unat R + 1]"
    using ntile_rows_tiles [of "ntile_set_partition_row_count (ntile_clear s) R" R n "unat R"] assms
    by (simp add: ntile_set_partition_row_count_def ntile_clear_def)
  have "\<exists>k. vs ! c = (None, of_nat k) \<and> 1 \<le> k \<and> k \<le> unat n \<and>
       tile_start (unat R) (unat n) k \<le> c \<and> c < tile_start (unat R) (unat n) (k + 1)" if "c < unat R" for c
    using tile_interval [OF assms(3), of "c + 1" "unat R"] that
    by (intro exI [of _ "tile (unat R) (unat n) (c + 1)"]) (auto simp: vs nth_append simp del: upt_Suc)
  then show ?thesis by (simp add: vs)
qed

definition blank_ntile :: Item_sum_ntile where
  "blank_ntile = \<lparr>nt_partition_row_count = 0, nt_current_row_count = 0, n_old_val = 0, nt_null_value = False\<rparr>"

theorem ntile_deals_evenly_witness:
  "length (ntile_rows 3 7 (ntile_set_partition_row_count (ntile_clear blank_ntile) 7)) = 7"
  using ntile_deals_evenly [of 7 3 _ blank_ntile, OF _ _ _ _ refl] by simp

section \<open>PERCENTILE_DISC\<close>

text \<open>The rows of a partition that have the constant argument \<open>p\<close>; an error ends the scan.\<close>

fun disc_rows :: "'d double_ops \<Rightarrow> 'd \<Rightarrow> 'v option list \<Rightarrow> ('d, 'v) Item_sum_percentile_disc \<Rightarrow>
    win_error option \<times> ('d, 'v) Item_sum_percentile_disc" where
  "disc_rows D p [] s = (None, s)"
| "disc_rows D p (v # vs) s = (case disc_add D (Some p) v s of (Some e, s') \<Rightarrow> (Some e, s') | (None, s') \<Rightarrow> disc_rows D p vs s')"

definition valid_percentile :: "'d double_ops \<Rightarrow> 'd \<Rightarrow> bool" where
  "valid_percentile D p \<longleftrightarrow> \<not> d_lt D (d_of_ll D 1) p \<and> \<not> d_lt D p (d_of_ll D 0) \<and> d_eq D p p"

text \<open>The cumulative distribution of the first \<open>c\<close> of \<open>R\<close> rows.\<close>

definition reached :: "'d double_ops \<Rightarrow> 'd \<Rightarrow> ulonglong \<Rightarrow> nat \<Rightarrow> bool" where
  "reached D p R c \<longleftrightarrow> d_le D p (d_div D (d_of_ull D (of_nat c)) (d_of_ull D R))"

lemma disc_add_ok:
  assumes "valid_percentile D p" "pd_first_call s \<or> pd_prev_value s = p"
  shows "disc_add D (Some p) v s = (None, disc_store D v (s\<lparr>pd_first_call := False, pd_prev_value := p\<rparr>))"
proof (cases "pd_first_call s")
  case True
  then show ?thesis using assms(1)
    by (simp add: disc_add_def Let_def valid_percentile_def) (rule arg_cong [where f = "disc_store D v"], simp)
next
  case False
  then show ?thesis using assms by (cases s) (simp add: disc_add_def Let_def valid_percentile_def)
qed

lemma disc_rows_done:
  assumes "valid_percentile D p" "val_calculated s" "pd_first_call s \<or> pd_prev_value s = p"
  shows "\<exists>s'. disc_rows D p vs s = (None, s') \<and> val_calculated s' \<and> pd_value s' = pd_value s"
  using assms(2,3)
proof (induction vs arbitrary: s)
  case (Cons v vs)
  show ?case
    using Cons.IH [of "s\<lparr>pd_first_call := False, pd_prev_value := p\<rparr>"] Cons.prems
    by (simp add: disc_add_ok [OF assms(1)] disc_store_def)
qed simp

text \<open>The values that are not NULL, in order.\<close>

definition non_null :: "'v option list \<Rightarrow> 'v list" where
  "non_null vs = map the (filter (\<lambda>v. v \<noteq> None) vs)"

lemma non_null_simps [simp]: "non_null [] = []" "non_null (None # vs) = non_null vs" "non_null (Some v # vs) = v # non_null vs"
  by (simp_all add: non_null_def)

lemma disc_rows_scan:
  assumes "valid_percentile D p" "R \<noteq> 0" "\<not> val_calculated s" "pd_first_call s \<or> pd_prev_value s = p" "pd_partition_row_count s = R"
    and "k < length (non_null vs)" "reached D p R (c + k + 1)" "\<forall>j < k. \<not> reached D p R (c + j + 1)"
    and "pd_current_row_count s = of_nat c"
  shows "\<exists>s'. disc_rows D p vs s = (None, s') \<and> val_calculated s' \<and> pd_value s' = Some (non_null vs ! k)"
  using assms(3-)
proof (induction vs arbitrary: s c k)
  case (Cons v vs)
  let ?s = "s\<lparr>pd_first_call := False, pd_prev_value := p\<rparr>"
  show ?case
  proof (cases v)
    case None
    then show ?thesis
      using Cons.IH [of "?s\<lparr>pd_value := None\<rparr>" k c] Cons.prems
      by (simp add: disc_add_ok [OF assms(1)] disc_store_def)
  next
    case (Some x)
    have step: "disc_store D (Some x) ?s = ?s\<lparr>pd_value := Some x, pd_current_row_count := of_nat (c + 1), pd_null_value := False,
        val_calculated := reached D p R (c + 1)\<rparr>"
      using Some Cons.prems assms(2) 
      by (cases "reached D p R (c + 1)") (simp_all add: disc_store_def calc_val_real_def reached_def add.commute Let_def)
    show ?thesis
    proof (cases k)
      case 0
      then show ?thesis
        using disc_rows_done [OF assms(1), of "disc_store D (Some x) ?s" vs] Cons.prems Some
        by (simp add: disc_add_ok [OF assms(1)] step)
    next
      case (Suc k')
      have not: "\<not> reached D p R (c + 1)" "\<forall>j < k'. \<not> reached D p R (c + 1 + j + 1)"
        using Cons.prems(6) Suc by (auto dest: spec [of _ 0] spec [of _ "Suc j" for j])
      then show ?thesis
        using Cons.IH [of "disc_store D (Some x) ?s" k' "c + 1"] Cons.prems Some Suc
        by (simp add: disc_add_ok [OF assms(1)] step)
    qed
  qed
qed simp

text \<open>C15: PERCENTILE_DISC gives, of the values that are not NULL, the first one whose cumulative distribution reaches the argument, whatever NULLs stand between them and whatever rows follow; the
  scan reports no error when the argument lies between zero and one.\<close>

theorem percentile_disc_first_reached:
  assumes "valid_percentile D p" "R \<noteq> 0" "k < length (non_null vs)"
    and "reached D p R (k + 1)" "\<forall>j < k. \<not> reached D p R (j + 1)"
  shows "\<exists>s'. disc_rows D p vs (disc_set_partition_row_count (disc_clear s) R) = (None, s') \<and>
           fst (disc_value zero (Some p) s') = non_null vs ! k"
proof -
  have "\<exists>s'. disc_rows D p vs (disc_set_partition_row_count (disc_clear s) R) = (None, s') \<and> val_calculated s' \<and> pd_value s' = Some (non_null vs ! k)"
    using assms by (intro disc_rows_scan [where c = 0]) (simp_all add: disc_set_partition_row_count_def disc_clear_def)
  moreover have "pd_partition_row_count s' = R" if "disc_rows D p vs s0 = (None, s')" "pd_partition_row_count s0 = R" for s0 s'
    using that
  proof (induction vs arbitrary: s0)
    case (Cons v vs)
    obtain e s1 where "disc_add D (Some p) v s0 = (e, s1)" by fastforce
    moreover from this have "pd_partition_row_count s1 = pd_partition_row_count s0"
      by (auto simp: disc_add_def disc_store_def Let_def split: if_splits prod.splits)
    ultimately show ?case using Cons by (auto split: option.splits)
  qed simp
  ultimately show ?thesis
    using assms(2) by (fastforce simp: disc_value_def get_row_count_def disc_set_partition_row_count_def)
qed

text \<open>Exact rational arithmetic, for the examples.\<close>

definition rat_ops :: "rat double_ops" where
  "rat_ops = \<lparr>d_of_ll = (\<lambda>w. of_int (sint w)), d_of_ull = (\<lambda>w. of_nat (unat w)), d_add = (+), d_sub = (-), d_mul = (*), d_div = (/),
     d_lt = (<), d_le = (\<le>), d_eq = (=), d_floor = (\<lambda>x. of_int \<lfloor>x\<rfloor>), d_ceil = (\<lambda>x. of_int \<lceil>x\<rceil>)\<rparr>"

definition blank_disc :: "(rat, int) Item_sum_percentile_disc" where
  "blank_disc = \<lparr>pd_partition_row_count = 9, pd_current_row_count = 9, pd_value = Some 5, val_calculated = True, pd_first_call = False,
     pd_prev_value = 7, pd_null_value = True\<rparr>"

theorem percentile_disc_first_reached_witness:
  "\<exists>s'. disc_rows rat_ops (1 / 2) [None, Some 10, Some 20, Some 30] (disc_set_partition_row_count (disc_clear blank_disc) 3) = (None, s') \<and>
     fst (disc_value 0 (Some (1 / 2)) s') = (20 :: int)"
proof -
  have "\<forall>j < Suc 0. \<not> reached rat_ops (1 / 2) 3 (j + 1)" by (simp add: reached_def rat_ops_def)
  then show ?thesis
    using percentile_disc_first_reached [of rat_ops "1 / 2" 3 "Suc 0" "[None, Some 10, Some 20, Some 30]" blank_disc 0]
    by (simp add: valid_percentile_def rat_ops_def reached_def)
qed

section \<open>PERCENTILE_CONT\<close>

fun cont_rows :: "'d double_ops \<Rightarrow> 'd \<Rightarrow> 'd option list \<Rightarrow> 'd Item_sum_percentile_cont \<Rightarrow> win_error option \<times> 'd Item_sum_percentile_cont" where
  "cont_rows D p [] s = (None, s)"
| "cont_rows D p (v # vs) s = (case cont_add D (Some p) v s of (Some e, s') \<Rightarrow> (Some e, s') | (None, s') \<Rightarrow> cont_rows D p vs s')"

text \<open>The position \<open>1 + p * (R - 1)\<close> lies between the rows \<open>f\<close> and \<open>g\<close>, in the arithmetic of \<open>D\<close>.\<close>

definition between_rows :: "'d double_ops \<Rightarrow> 'd \<Rightarrow> ulonglong \<Rightarrow> nat \<Rightarrow> nat \<Rightarrow> bool" where
  "between_rows D p R f g \<longleftrightarrow>
     (let val = d_add D (d_of_ll D 1) (d_mul D p (d_of_ll D (R - 1)))
      in 1 \<le> f \<and> (g = f \<or> g = f + 1) \<and> g \<le> unat R \<and> (d_eq D (d_ceil D val) (d_floor D val) \<longleftrightarrow> f = g) \<and>
         (\<forall>c \<le> unat R. (d_eq D (d_of_ull D (of_nat c)) (d_floor D val) \<longleftrightarrow> c = f) \<and>
                        (d_eq D (d_of_ull D (of_nat c)) (d_ceil D val) \<longleftrightarrow> c = g)))"

lemma cont_add_ok:
  assumes "valid_percentile D p" "pc_first_call s \<or> pc_prev_value s = p"
  shows "cont_add D (Some p) v s = (None, cont_store D v (s\<lparr>pc_first_call := False, pc_prev_value := p\<rparr>))"
  using assms by (cases s) (auto simp: cont_add_def Let_def valid_percentile_def)

text \<open>The state after \<open>c\<close> rows that are not NULL.\<close>

definition cont_at :: "'d \<Rightarrow> ulonglong \<Rightarrow> nat \<Rightarrow> nat \<Rightarrow> 'd list \<Rightarrow> nat \<Rightarrow> 'd Item_sum_percentile_cont \<Rightarrow> bool" where
  "cont_at p R f g xs c s \<longleftrightarrow>
     (c < g \<longrightarrow> pc_current_row_count s = of_nat c) \<and> pc_partition_row_count s = R \<and>
     (pc_first_call s \<or> pc_prev_value s = p) \<and> (0 < c \<longrightarrow> pc_prev_value s = p) \<and>
     (floor_val_calculated s \<longleftrightarrow> f \<le> c) \<and> (ceil_val_calculated s \<longleftrightarrow> g \<le> c) \<and>
     (f \<le> c \<longrightarrow> floor_value s = Some (xs ! (f - 1))) \<and> (f < g \<longrightarrow> g \<le> c \<longrightarrow> ceil_value s = Some (xs ! (g - 1)))"

lemma cont_step_null:
  assumes "cont_at p R f g xs c s"
  shows "cont_at p R f g xs c (cont_store D None (s\<lparr>pc_first_call := False, pc_prev_value := p\<rparr>)) \<or> g \<le> c"
  using assms by (auto simp: cont_at_def cont_store_def Let_def)

lemma cont_step:
  assumes at: "cont_at p R f g xs c s" and rows: "between_rows D p R f g" and c: "c < unat R"
  shows "cont_at p R f g (xs) (c + 1) (cont_store D (Some (xs ! c)) (s\<lparr>pc_first_call := False, pc_prev_value := p\<rparr>))"
proof -
  let ?val = "d_add D (d_of_ll D 1) (d_mul D p (d_of_ll D (R - 1)))"
  have fg: "1 \<le> f" "g = f \<or> g = f + 1" using rows by (auto simp: between_rows_def Let_def)
  have eqs: "d_eq D (d_of_ull D (of_nat c + 1)) (d_floor D ?val) \<longleftrightarrow> c + 1 = f"
       "d_eq D (d_of_ull D (of_nat c + 1)) (d_ceil D ?val) \<longleftrightarrow> c + 1 = g"
    using rows c by (auto simp: between_rows_def Let_def add.commute dest: spec [of _ "Suc c"])
  let ?t = "s\<lparr>pc_first_call := False, pc_prev_value := p\<rparr>" and ?x = "xs ! c"
  have R: "pc_partition_row_count s = R" using at by (simp add: cont_at_def)
  consider "c < f" | "f \<le> c" "c < g" | "g \<le> c" by linarith
  then show ?thesis
  proof cases
    case 1
    then have st: "\<not> floor_val_calculated s" "\<not> ceil_val_calculated s" "pc_current_row_count s = of_nat c"
      using at fg by (auto simp: cont_at_def)
    have "cont_store D (Some ?x) ?t = ?t\<lparr>floor_value := Some ?x, pc_current_row_count := of_nat c + 1,
        floor_val_calculated := c + 1 = f, ceil_val_calculated := c + 1 = g\<rparr>"
      using st R eqs by (cases "c + 1 = f"; cases "c + 1 = g") (simp_all add: cont_store_def Let_def cont_row_def get_row_count_def)
    then show ?thesis using 1 fg R by (auto simp: cont_at_def intro: arg_cong [of _ _ "(!) xs"])
  next
    case 2
    then have st: "floor_val_calculated s" "\<not> ceil_val_calculated s" "pc_current_row_count s = of_nat c"
        "floor_value s = Some (xs ! (f - 1))"
      using at fg by (auto simp: cont_at_def)
    have "cont_store D (Some ?x) ?t = ?t\<lparr>ceil_value := Some ?x, pc_current_row_count := of_nat c + 1, ceil_val_calculated := c + 1 = g\<rparr>"
      using st R eqs by (cases "c + 1 = g") (simp_all add: cont_store_def Let_def cont_row_def get_row_count_def)
    then show ?thesis using 2 st fg R by (auto simp: cont_at_def intro: arg_cong [of _ _ "(!) xs"])
  next
    case 3
    then have st: "floor_val_calculated s" "ceil_val_calculated s" using at fg by (auto simp: cont_at_def)
    have "cont_store D (Some ?x) ?t = ?t\<lparr>pc_current_row_count := pc_current_row_count s + 1\<rparr>"
      using st by (simp add: cont_store_def Let_def)
    then show ?thesis using 3 at fg by (auto simp: cont_at_def)
  qed
qed

lemma cont_step_null_done:
  assumes "cont_at p R f g xs c s" "between_rows D p R f g" "g \<le> c"
  shows "cont_at p R f g xs c (cont_store D None (s\<lparr>pc_first_call := False, pc_prev_value := p\<rparr>))"
  using assms by (auto simp: cont_at_def cont_store_def Let_def)

lemma cont_rows_scan:
  assumes "valid_percentile D p" "between_rows D p R f g"
    and "cont_at p R f g xs c s" "xs = ys @ non_null vs" "length ys = c" "length xs = unat R"
  shows "\<exists>s'. cont_rows D p vs s = (None, s') \<and> cont_at p R f g xs (unat R) s'"
  using assms(3-)
proof (induction vs arbitrary: s c ys)
  case Nil
  then show ?case by simp
next
  case (Cons v vs)
  let ?s = "s\<lparr>pc_first_call := False, pc_prev_value := p\<rparr>"
  have ok: "pc_first_call s \<or> pc_prev_value s = p" using Cons.prems(1) by (simp add: cont_at_def)
  note add = cont_add_ok [OF assms(1) ok]
  show ?case
  proof (cases v)
    case None
    have "cont_at p R f g xs c (cont_store D None ?s)"
    proof (cases "g \<le> c")
      case False
      then show ?thesis using cont_step_null [OF Cons.prems(1), of D] by simp
    next
      case True
      show ?thesis using cont_step_null_done [OF Cons.prems(1) assms(2) True] .
    qed
    then show ?thesis
      using Cons.IH [of c "cont_store D None ?s" ys] Cons.prems None by (simp add: add)
  next
    case (Some x)
    have x: "xs ! c = x" "c < unat R" using Cons.prems Some by (auto simp: nth_append)
    have "cont_at p R f g xs (c + 1) (cont_store D (Some x) ?s)"
      using cont_step [OF Cons.prems(1) assms(2) x(2)] x(1) by simp
    then show ?thesis
      using Cons.IH [of "c + 1" "cont_store D (Some x) ?s" "ys @ [x]"] Cons.prems Some by (simp add: add)
  qed
qed

text \<open>C16: PERCENTILE_CONT keeps the values of the two rows its position lies between, counting the rows whose value is not NULL, and interpolates between them; when the position is a row, the value
  of that row is the result. The scan reports no error when the argument lies between zero and one.\<close>

theorem percentile_cont_interpolates:
  assumes "valid_percentile D p" "between_rows D p R f g" "length (non_null vs) = unat R"
  defines "val \<equiv> d_add D (d_of_ll D 1) (d_mul D p (d_of_ll D (R - 1)))"
  shows "\<exists>s'. cont_rows D p vs (cont_set_partition_row_count (cont_clear s) R) = (None, s') \<and>
    fst (cont_val_real D (Some p) s') =
      (if f = g then non_null vs ! (f - 1)
       else d_add D (d_mul D (d_sub D val (d_floor D val)) (non_null vs ! (g - 1)))
                    (d_mul D (d_sub D (d_ceil D val) val) (non_null vs ! (f - 1))))"
proof -
  have fg: "1 \<le> f" "f \<le> g" "g \<le> unat R" using assms(2) by (auto simp: between_rows_def Let_def)
  have "cont_at p R f g (non_null vs) 0 (cont_set_partition_row_count (cont_clear s) R)"
    using fg by (simp add: cont_at_def cont_set_partition_row_count_def cont_clear_def)
  then obtain s' where s': "cont_rows D p vs (cont_set_partition_row_count (cont_clear s) R) = (None, s')"
      "cont_at p R f g (non_null vs) (unat R) s'"
    using cont_rows_scan [OF assms(1,2), of "non_null vs" 0 _ "[]" vs] assms(3) by auto
  have "pc_prev_value s' = p"
    using s'(2) fg by (simp add: cont_at_def)
  then have "cont_row D s' = val" using s'(2) by (simp add: cont_row_def val_def cont_at_def get_row_count_def)
  moreover have "R \<noteq> 0" using fg by (auto simp: unat_eq_0)
  moreover have "d_eq D (d_ceil D val) (d_floor D val) \<longleftrightarrow> f = g" using assms(2) by (simp add: between_rows_def Let_def val_def)
  ultimately show ?thesis
    using s' fg by (auto simp: cont_val_real_def get_row_count_def cont_at_def cache_real_def Let_def cont_row_def)
qed

definition blank_cont :: "rat Item_sum_percentile_cont" where
  "blank_cont = \<lparr>pc_partition_row_count = 9, pc_current_row_count = 9, floor_value = Some 5, ceil_value = None, pc_first_call = False,
     pc_prev_value = 7, ceil_val_calculated = True, floor_val_calculated = True, pc_null_value = True\<rparr>"

lemma rat_row:
  "d_add rat_ops (d_of_ll rat_ops 1) (d_mul rat_ops (1 / 2) (d_of_ll rat_ops (4 - 1))) = 5 / 2"
  "d_floor rat_ops (5 / 2) = 2" "d_ceil rat_ops (5 / 2) = 3" "d_eq rat_ops x y \<longleftrightarrow> x = y"
  by (simp_all add: rat_ops_def floor_eq_iff ceiling_eq_iff)

lemma rat_between: "between_rows rat_ops (1 / 2) 4 2 3"
proof -
  have "d_of_ull rat_ops (of_nat c) = of_nat c" if "c \<le> 4" for c
    using that by (simp add: rat_ops_def unat_of_nat del: of_nat_unat)
  then show ?thesis unfolding between_rows_def Let_def rat_row by auto
qed

theorem percentile_cont_interpolates_witness:
  "\<exists>s'. cont_rows rat_ops (1 / 2) [None, Some 10, Some 20, Some 30, Some 50] (cont_set_partition_row_count (cont_clear blank_cont) 4) = (None, s') \<and>
     fst (cont_val_real rat_ops (Some (1 / 2)) s') = 25"
proof -
  have vp: "valid_percentile rat_ops (1 / 2)" by (simp add: valid_percentile_def rat_ops_def)
  have ops: "d_add rat_ops x y = x + y" "d_sub rat_ops x y = x - y" "d_mul rat_ops x y = x * y" for x y
    by (simp_all add: rat_ops_def)
  have len: "length (non_null [None, Some 10, Some 20, Some 30, Some (50 :: rat)]) = unat (4 :: ulonglong)" by simp
  show ?thesis
    using percentile_cont_interpolates [OF vp rat_between len, of blank_cont]
    unfolding rat_row(1) unfolding rat_row(2,3) unfolding ops by simp
qed

section \<open>Groups, shares and phases\<close>

text \<open>What the manual says of \<open>test_if_group_changed\<close>: it compares the current row with the cached fields and makes them those of the row.\<close>

definition groups_by :: "('c list \<Rightarrow> 'c list \<Rightarrow> int \<times> 'c list) \<Rightarrow> bool" where
  "groups_by test \<longleftrightarrow> (\<forall>row fs. snd (test row fs) = row \<and> (- 1 < fst (test row fs) \<longleftrightarrow> row \<noteq> fs))"

lemma groups_by_split: "groups_by test \<Longrightarrow> \<exists>i. test row fs = (i, row) \<and> (- 1 < i \<longleftrightarrow> row \<noteq> fs)"
  by (metis groups_by_def prod.collapse)

lemma check_first_group:
  assumes "groups_by test"
  shows "check_if_next_group (test row) (gbt_init g) = (True, g\<lparr>group_fields := row, first_check := False\<rparr>)"
  using groups_by_split [OF assms, of row "group_fields g"]
  by (cases g) (auto simp: check_if_next_group_def gbt_init_def Let_def)

lemma check_later_group:
  assumes "groups_by test" "\<not> first_check g"
  shows "check_if_next_group (test row) g = (row \<noteq> group_fields g, g\<lparr>group_fields := row\<rparr>)"
  using groups_by_split [OF assms(1), of row "group_fields g"] assms(2)
  by (cases g) (auto simp: check_if_next_group_def Let_def)

lemma compare_with_cache_zero: "compare_with_cache cmp g = 0 \<longleftrightarrow> (\<forall>f \<in> set (group_fields g). cmp f = 0)"
proof -
  have "first_difference cmp fs = 0 \<longleftrightarrow> (\<forall>f \<in> set fs. cmp f = 0)" for fs
    by (induction fs) (auto simp: Let_def)
  then show ?thesis by (simp add: compare_with_cache_def)
qed

lemma cume_dist_rows:
  "cume_dist_val_real D ((cume_dist_add ^^ k) \<lparr>cd_partition_row_count = R, cd_current_row_count = 0\<rparr>) =
     (if R = 0 then (True, d_of_ll D 0) else (False, d_div D (d_of_ull D (of_nat k)) (d_of_ull D R)))"
proof -
  have "(cume_dist_add ^^ k) \<lparr>cd_partition_row_count = R, cd_current_row_count = 0\<rparr> = \<lparr>cd_partition_row_count = R, cd_current_row_count = of_nat k\<rparr>"
    by (induction k) (simp_all add: cume_dist_add_def)
  then show ?thesis by (simp add: cume_dist_val_real_def calc_val_real_def)
qed

lemma row_number_rows: "row_number_val_int ((row_number_add ^^ k) (row_number_clear c)) = of_nat k"
  by (induction k) (simp_all add: row_number_val_int_def row_number_add_def row_number_clear_def)

lemmas phase_defs = set_phase_to_initial_def set_phase_to_computation_def set_phase_to_retrieval_def wf_is_null_def wf_val_num_def
  wf_val_ptr_def wf_get_date_def

lemma phases:
  "wf_is_null fn wn (set_phase_to_initial w)" "wf_is_null fn wn (set_phase_to_computation w) = wn" "wf_is_null fn wn (set_phase_to_retrieval w) = fn"
  "fst (wf_val_num z f v (set_phase_to_initial w)) = z" "fst (wf_val_num z f v (set_phase_to_computation w)) = fst v"
  "fst (wf_val_num z f v (set_phase_to_retrieval w)) = fst f"
  by (simp_all add: phase_defs)

lemma partition_size_no_special_cursor: "requires_partition_size f \<Longrightarrow> \<not> requires_special_cursors f \<and> is_frame_prohibited f"
  by (cases f) (simp_all add: requires_partition_size_def requires_special_cursors_def is_frame_prohibited_def)

end
