(* ===== verification/Analyze_Stmt.thy ===== *)
theory Analyze_Stmt imports Prelude begin

text \<open>
  \<open>private/sql_analyze_stmt.h\<close>: the counters and timers of ANALYZE statements. The value of the cycle counter is the argument \<open>now\<close>. \<open>process_gap_time_tracker\<close> and
  \<open>attach_gap_time_tracker\<close>, which change the session \<open>'thd\<close>, have their bodies elsewhere and are the parameters \<open>process\<close> and \<open>attach\<close>. A ratio, which the code computes in
  \<open>double\<close>, is the pair of the counters that are divided, or the constant the code returns in its place.
\<close>

section \<open>Timers\<close>

record Exec_time_tracker =
  tt_count :: ulonglong
  tt_cycles :: ulonglong
  last_start :: ulonglong
  my_gap_tracker :: "nat option"

definition tt_init :: Exec_time_tracker where
  "tt_init = \<lparr>tt_count = 0, tt_cycles = 0, last_start = 0, my_gap_tracker = None\<rparr>"

definition start_tracking :: "('thd \<Rightarrow> ulonglong \<Rightarrow> 'thd) \<Rightarrow> 'thd \<Rightarrow> ulonglong \<Rightarrow> Exec_time_tracker \<Rightarrow> 'thd \<times> Exec_time_tracker" where
  "start_tracking process thd now t = (let t = t\<lparr>last_start := now\<rparr> in (process thd (last_start t), t))"

definition cycles_stop_tracking ::
  "('thd \<Rightarrow> ulonglong \<Rightarrow> 'thd) \<Rightarrow> ('thd \<Rightarrow> nat \<Rightarrow> ulonglong \<Rightarrow> 'thd) \<Rightarrow> 'thd \<Rightarrow> ulonglong \<Rightarrow> Exec_time_tracker \<Rightarrow> 'thd \<times> Exec_time_tracker" where
  "cycles_stop_tracking process attach thd now t =
     (let end_t = now;
          t = t\<lparr>tt_cycles := tt_cycles t + (end_t - last_start t)\<rparr>;
          t = (if end_t < last_start t then t\<lparr>tt_cycles := tt_cycles t + (- 1)\<rparr> else t);
          thd = process thd end_t;
          thd = (case my_gap_tracker t of Some g \<Rightarrow> attach thd g end_t | None \<Rightarrow> thd)
      in (thd, t))"

definition stop_tracking ::
  "('thd \<Rightarrow> ulonglong \<Rightarrow> 'thd) \<Rightarrow> ('thd \<Rightarrow> nat \<Rightarrow> ulonglong \<Rightarrow> 'thd) \<Rightarrow> 'thd \<Rightarrow> ulonglong \<Rightarrow> Exec_time_tracker \<Rightarrow> 'thd \<times> Exec_time_tracker" where
  "stop_tracking process attach thd now t =
     (let t = t\<lparr>tt_count := tt_count t + 1\<rparr> in cycles_stop_tracking process attach thd now t)"

definition get_loops :: "Exec_time_tracker \<Rightarrow> ulonglong" where "get_loops t = tt_count t"

definition log_time :: "ulonglong \<Rightarrow> ulonglong \<Rightarrow> ulonglong \<Rightarrow> ulonglong" where
  "log_time cycles start_t end_t = cycles + (end_t - start_t)"

definition incr_loops :: "Exec_time_tracker \<Rightarrow> Exec_time_tracker" where
  "incr_loops t = t\<lparr>tt_count := tt_count t + 1\<rparr>"

definition analyze_start_tracking ::
  "('thd \<Rightarrow> ulonglong \<Rightarrow> 'thd) \<Rightarrow> bool \<Rightarrow> 'thd \<Rightarrow> ulonglong \<Rightarrow> Exec_time_tracker \<Rightarrow> 'thd \<times> Exec_time_tracker" where
  "analyze_start_tracking process timed thd now t =
     (let t = incr_loops t in if timed then start_tracking process thd now t else (thd, t))"

definition analyze_stop_tracking ::
  "('thd \<Rightarrow> ulonglong \<Rightarrow> 'thd) \<Rightarrow> ('thd \<Rightarrow> nat \<Rightarrow> ulonglong \<Rightarrow> 'thd) \<Rightarrow> bool \<Rightarrow> 'thd \<Rightarrow> ulonglong \<Rightarrow> Exec_time_tracker \<Rightarrow> 'thd \<times> Exec_time_tracker" where
  "analyze_stop_tracking process attach timed thd now t =
     (if timed then cycles_stop_tracking process attach thd now t else (thd, t))"

section \<open>Table_access_tracker\<close>

record Table_access_tracker =
  r_scans :: ha_rows
  r_rows :: ha_rows
  r_rows_after_where :: ha_rows

definition tat_init :: Table_access_tracker where
  "tat_init = \<lparr>r_scans = 0, r_rows = 0, r_rows_after_where = 0\<rparr>"

definition has_scans :: "Table_access_tracker \<Rightarrow> bool" where "has_scans t \<longleftrightarrow> r_scans t \<noteq> 0"
definition tat_get_loops :: "Table_access_tracker \<Rightarrow> ha_rows" where "tat_get_loops t = r_scans t"

definition get_avg_rows :: "Table_access_tracker \<Rightarrow> int + ha_rows \<times> ha_rows" where
  "get_avg_rows t = (if r_scans t \<noteq> 0 then Inr (r_rows t, r_scans t) else Inl 0)"

definition get_filtered_after_where :: "Table_access_tracker \<Rightarrow> int + ha_rows \<times> ha_rows" where
  "get_filtered_after_where t = (if 0 < r_rows t then Inr (r_rows_after_where t, r_rows t) else Inl 1)"

definition on_scan_init :: "Table_access_tracker \<Rightarrow> Table_access_tracker" where "on_scan_init t = t\<lparr>r_scans := r_scans t + 1\<rparr>"
definition on_record_read :: "Table_access_tracker \<Rightarrow> Table_access_tracker" where "on_record_read t = t\<lparr>r_rows := r_rows t + 1\<rparr>"
definition on_record_after_where :: "Table_access_tracker \<Rightarrow> Table_access_tracker" where
  "on_record_after_where t = t\<lparr>r_rows_after_where := r_rows_after_where t + 1\<rparr>"

section \<open>Filesort_tracker\<close>

record Filesort_tracker =
  time_tracker :: Exec_time_tracker
  timed :: bool
  r_limit :: ulonglong
  r_used_pq :: ulonglong
  r_examined_rows :: ulonglong
  r_sorted_rows :: ulonglong
  r_output_rows :: ulonglong
  sort_passes :: ulonglong
  sort_buffer_size :: ulonglong
  r_using_addons :: bool
  r_packed_addon_fields :: bool
  r_sort_keys_packed :: bool

definition ft_init :: "bool \<Rightarrow> Filesort_tracker" where
  "ft_init do_timing = \<lparr>time_tracker = tt_init, timed = do_timing, r_limit = 0, r_used_pq = 0, r_examined_rows = 0,
     r_sorted_rows = 0, r_output_rows = 0, sort_passes = 0, sort_buffer_size = 0, r_using_addons = False,
     r_packed_addon_fields = False, r_sort_keys_packed = False\<rparr>"

definition report_use :: "('thd \<Rightarrow> ulonglong \<Rightarrow> 'thd) \<Rightarrow> 'thd \<Rightarrow> ulonglong \<Rightarrow> ha_rows \<Rightarrow> Filesort_tracker \<Rightarrow> 'thd \<times> Filesort_tracker" where
  "report_use process thd now r_limit_arg f =
     (let f = (if get_loops (time_tracker f) = 0 then f\<lparr>r_limit := r_limit_arg\<rparr>
               else f\<lparr>r_limit := (if r_limit f \<noteq> r_limit_arg then 0 else r_limit_arg)\<rparr>);
          (thd, t) = analyze_start_tracking process (timed f) thd now (time_tracker f)
      in (thd, f\<lparr>time_tracker := t\<rparr>))"

definition incr_pq_used :: "Filesort_tracker \<Rightarrow> Filesort_tracker" where "incr_pq_used f = f\<lparr>r_used_pq := r_used_pq f + 1\<rparr>"

definition report_row_numbers :: "ha_rows \<Rightarrow> ha_rows \<Rightarrow> ha_rows \<Rightarrow> Filesort_tracker \<Rightarrow> Filesort_tracker" where
  "report_row_numbers examined_rows sorted_rows returned_rows f =
     f\<lparr>r_examined_rows := r_examined_rows f + examined_rows, r_sorted_rows := r_sorted_rows f + sorted_rows,
       r_output_rows := r_output_rows f + returned_rows\<rparr>"

definition report_merge_passes_at_start :: "ulong \<Rightarrow> Filesort_tracker \<Rightarrow> Filesort_tracker" where
  "report_merge_passes_at_start passes f = f\<lparr>sort_passes := sort_passes f - ucast passes\<rparr>"

definition report_merge_passes_at_end ::
  "('thd \<Rightarrow> ulonglong \<Rightarrow> 'thd) \<Rightarrow> ('thd \<Rightarrow> nat \<Rightarrow> ulonglong \<Rightarrow> 'thd) \<Rightarrow> 'thd \<Rightarrow> ulonglong \<Rightarrow> ulong \<Rightarrow> Filesort_tracker \<Rightarrow> 'thd \<times> Filesort_tracker" where
  "report_merge_passes_at_end process attach thd now passes f =
     (let (thd, t) = analyze_stop_tracking process attach (timed f) thd now (time_tracker f);
          f = f\<lparr>time_tracker := t\<rparr>
      in (thd, f\<lparr>sort_passes := sort_passes f + ucast passes\<rparr>))"

definition report_sort_buffer_size :: "size_t \<Rightarrow> Filesort_tracker \<Rightarrow> Filesort_tracker" where
  "report_sort_buffer_size bufsize f = (if sort_buffer_size f \<noteq> 0 then f\<lparr>sort_buffer_size := - 1\<rparr> else f\<lparr>sort_buffer_size := bufsize\<rparr>)"

definition report_addon_fields_format :: "bool \<Rightarrow> Filesort_tracker \<Rightarrow> Filesort_tracker" where
  "report_addon_fields_format addons_packed f = f\<lparr>r_using_addons := True, r_packed_addon_fields := addons_packed\<rparr>"

definition report_sort_keys_format :: "bool \<Rightarrow> Filesort_tracker \<Rightarrow> Filesort_tracker" where
  "report_sort_keys_format sort_keys_packed f = f\<lparr>r_sort_keys_packed := sort_keys_packed\<rparr>"

definition get_r_loops :: "Filesort_tracker \<Rightarrow> ulonglong" where "get_r_loops f = get_loops (time_tracker f)"

definition get_avg_examined_rows :: "Filesort_tracker \<Rightarrow> ulonglong \<times> ulonglong" where
  "get_avg_examined_rows f = (r_examined_rows f, get_r_loops f)"

definition get_avg_returned_rows :: "Filesort_tracker \<Rightarrow> ulonglong \<times> ulonglong" where
  "get_avg_returned_rows f = (r_output_rows f, get_r_loops f)"

definition get_r_filtered :: "Filesort_tracker \<Rightarrow> int + ulonglong \<times> ulonglong" where
  "get_r_filtered f = (if 0 < r_examined_rows f then Inr (r_sorted_rows f, r_examined_rows f) else Inl 1)"

section \<open>Rowid_filter_tracker\<close>

record Rowid_filter_tracker =
  rf_time_tracker :: Exec_time_tracker
  container_buff_size :: size_t
  container_elements :: uint
  n_checks :: uint
  n_positive_checks :: uint

definition rf_init :: Rowid_filter_tracker where
  "rf_init = \<lparr>rf_time_tracker = tt_init, container_buff_size = 0, container_elements = 0, n_checks = 0, n_positive_checks = 0\<rparr>"

definition report_container_buff_size :: "uint \<Rightarrow> Rowid_filter_tracker \<Rightarrow> Rowid_filter_tracker" where
  "report_container_buff_size elem_size r = r\<lparr>container_buff_size := ucast (container_elements r * elem_size div 8)\<rparr>"

definition increment_checked_elements_count :: "bool \<Rightarrow> Rowid_filter_tracker \<Rightarrow> Rowid_filter_tracker" where
  "increment_checked_elements_count was_checked r =
     (let r = r\<lparr>n_checks := n_checks r + 1\<rparr> in if was_checked then r\<lparr>n_positive_checks := n_positive_checks r + 1\<rparr> else r)"

definition increment_container_elements_count :: "Rowid_filter_tracker \<Rightarrow> Rowid_filter_tracker" where
  "increment_container_elements_count r = r\<lparr>container_elements := container_elements r + 1\<rparr>"

definition get_container_elements :: "Rowid_filter_tracker \<Rightarrow> uint" where "get_container_elements r = container_elements r"

definition get_r_selectivity_pct :: "Rowid_filter_tracker \<Rightarrow> uint \<times> uint" where
  "get_r_selectivity_pct r = (n_positive_checks r, n_checks r)"

definition get_container_buff_size :: "Rowid_filter_tracker \<Rightarrow> size_t" where "get_container_buff_size r = container_buff_size r"

section \<open>A statement that sorts several times\<close>

text \<open>One run of filesort as the tracker sees it: when it starts and ends, its limit, its rows, the merge passes counted so far when it starts and when it ends.\<close>

record sort_run =
  started :: ulonglong
  ended :: ulonglong
  limit :: ha_rows
  examined :: ha_rows
  sorted_rows :: ha_rows
  returned :: ha_rows
  passes_before :: ulong
  passes_after :: ulong

definition run_sort ::
  "('thd \<Rightarrow> ulonglong \<Rightarrow> 'thd) \<Rightarrow> ('thd \<Rightarrow> nat \<Rightarrow> ulonglong \<Rightarrow> 'thd) \<Rightarrow> 'thd \<times> Filesort_tracker \<Rightarrow> sort_run \<Rightarrow> 'thd \<times> Filesort_tracker" where
  "run_sort process attach = (\<lambda>(thd, f) r.
     let (thd, f) = report_use process thd (started r) (limit r) f;
         f = report_merge_passes_at_start (passes_before r) f;
         f = report_row_numbers (examined r) (sorted_rows r) (returned r) f
     in report_merge_passes_at_end process attach thd (ended r) (passes_after r) f)"

text \<open>What \<open>r_limit\<close> is to hold: the common limit, or zero when the limits differ.\<close>

definition common_limit :: "ha_rows list \<Rightarrow> ha_rows" where
  "common_limit ls = (case ls of [] \<Rightarrow> 0 | l # ls' \<Rightarrow> if \<forall>l' \<in> set ls'. l' = l then l else 0)"

definition tracks :: "Filesort_tracker \<Rightarrow> bool \<Rightarrow> sort_run list \<Rightarrow> bool" where
  "tracks f do_timing rs \<longleftrightarrow>
     get_r_loops f = of_nat (length rs) \<and> r_limit f = common_limit (map limit rs) \<and> timed f = do_timing \<and>
     r_examined_rows f = sum_list (map examined rs) \<and> r_sorted_rows f = sum_list (map sorted_rows rs) \<and>
     r_output_rows f = sum_list (map returned rs) \<and>
     sort_passes f = sum_list (map (\<lambda>r. ucast (passes_after r) - ucast (passes_before r)) rs) \<and>
     tt_cycles (time_tracker f) = (if do_timing then sum_list (map (\<lambda>r. ended r - started r) rs) else 0)"

lemma common_limit_snoc: "rs \<noteq> [] \<Longrightarrow> \<forall>r \<in> set (rs @ [r']). limit r \<noteq> 0 \<Longrightarrow>
    common_limit (map limit (rs @ [r'])) = (if common_limit (map limit rs) \<noteq> limit r' then 0 else limit r')"
  by (cases rs) (auto simp: common_limit_def)

lemma cycles_timed:
  assumes "\<not> now < last_start t"
  shows "snd (cycles_stop_tracking process attach thd now t) = t\<lparr>tt_cycles := tt_cycles t + (now - last_start t)\<rparr>"
  using assms by (auto simp: cycles_stop_tracking_def Let_def)

lemma run_sort_tracks:
  assumes "tracks f do_timing rs" "\<not> ended r < started r" "\<forall>r \<in> set (rs @ [r]). limit r \<noteq> 0" "length rs < 2 ^ 64"
  shows "tracks (snd (run_sort process attach (thd, f) r)) do_timing (rs @ [r])"
proof -
  have loops: "get_loops (time_tracker f) = 0 \<longleftrightarrow> rs = []"
    using assms(1,4) by (auto simp: tracks_def get_r_loops_def word_unat_eq_iff unat_of_nat_small)
  define l where "l = (if rs = [] then limit r else if r_limit f \<noteq> limit r then 0 else limit r)"
  have lim: "l = common_limit (map limit (rs @ [r]))"
    using common_limit_snoc [of rs r] assms(1,3) by (auto simp: l_def tracks_def common_limit_def)
  define t1 where "t1 = snd (analyze_start_tracking process (timed f) thd (started r) (time_tracker f))"
  define thd1 where "thd1 = fst (analyze_start_tracking process (timed f) thd (started r) (time_tracker f))"
  have use: "report_use process thd (started r) (limit r) f = (thd1, f\<lparr>r_limit := l, time_tracker := t1\<rparr>)"
    unfolding report_use_def loops by (auto simp: l_def t1_def thd1_def split_beta)
  define t2 where "t2 = snd (analyze_stop_tracking process attach (timed f) thd1 (ended r) t1)"
  have t1: "tt_count t1 = tt_count (time_tracker f) + 1" "tt_cycles t1 = tt_cycles (time_tracker f)" "timed f \<longrightarrow> last_start t1 = started r"
    by (cases "timed f"; simp add: t1_def analyze_start_tracking_def incr_loops_def start_tracking_def Let_def)+
  have t2: "tt_count t2 = tt_count (time_tracker f) + 1"
      "tt_cycles t2 = (if timed f then tt_cycles (time_tracker f) + (ended r - started r) else tt_cycles (time_tracker f))"
    using t1 assms(2) cycles_timed [of "ended r" t1 process attach thd1]
    by (auto simp: t2_def analyze_stop_tracking_def)
  have run: "snd (run_sort process attach (thd, f) r) =
      f\<lparr>r_limit := l, time_tracker := t2, r_examined_rows := r_examined_rows f + examined r, r_sorted_rows := r_sorted_rows f + sorted_rows r,
        r_output_rows := r_output_rows f + returned r, sort_passes := sort_passes f - ucast (passes_before r) + ucast (passes_after r)\<rparr>"
    unfolding run_sort_def by (simp add: use split_beta report_merge_passes_at_start_def report_row_numbers_def report_merge_passes_at_end_def t2_def)
  show ?thesis
    using assms(1) t2 lim unfolding run tracks_def by (simp add: get_r_loops_def get_loops_def algebra_simps)
qed

text \<open>After any number of sorts of one statement the tracker holds the number of sorts, their common limit or zero when the limits differed, the sums of the rows examined, sorted and returned,
  the merge passes made in between and, for a timed statement, the sum of the times from start to end, as long as the cycle counter does not run over during a sort.\<close>

theorem filesort_tracker_totals:
  assumes "\<forall>r \<in> set rs. limit r \<noteq> 0 \<and> started r \<le> ended r" "length rs \<le> 2 ^ 64"
  shows "tracks (snd (foldl (run_sort process attach) (thd, ft_init do_timing) rs)) do_timing rs"
  using assms
proof (induction rs rule: rev_induct)
  case Nil
  then show ?case by (simp add: tracks_def ft_init_def tt_init_def get_r_loops_def get_loops_def common_limit_def)
next
  case (snoc r rs)
  obtain thd' f where "foldl (run_sort process attach) (thd, ft_init do_timing) rs = (thd', f)" by fastforce
  then show ?case
    using snoc run_sort_tracks [of f do_timing rs r process attach thd'] by (auto simp: not_less)
qed

definition sample_run :: "ulonglong \<Rightarrow> sort_run" where
  "sample_run n = \<lparr>started = n, ended = n + 5, limit = 10, examined = 100, sorted_rows = 40, returned = 10, passes_before = 1, passes_after = 3\<rparr>"

theorem filesort_tracker_totals_witness:
  "tracks (snd (foldl (run_sort (\<lambda>s n. s) (\<lambda>s g n. s)) ((), ft_init True) [sample_run 3, sample_run 20])) True [sample_run 3, sample_run 20]"
  using filesort_tracker_totals [of "[sample_run 3, sample_run 20]" "\<lambda>s n. s" "\<lambda>s g n. s" "()" True] by (simp add: sample_run_def)

text \<open>The unsigned difference is already right when the counter runs over, so the correction takes one cycle away.\<close>

theorem timer_overrun_loses_cycle:
  assumes "now < last_start t"
  shows "tt_cycles (snd (cycles_stop_tracking process attach thd now t)) = tt_cycles t + (now - last_start t) - 1"
  using assms by (simp add: cycles_stop_tracking_def Let_def)

lemma sort_buffer_reported_twice:
  "size1 \<noteq> 0 \<Longrightarrow> sort_buffer_size (report_sort_buffer_size size1 (report_sort_buffer_size size1 (ft_init b))) = - 1"
  by (simp add: report_sort_buffer_size_def ft_init_def)

lemma container_size_wraps:
  "container_elements r = 2 ^ 30 \<Longrightarrow> get_container_buff_size (report_container_buff_size 64 r) = 0"
  by (simp add: get_container_buff_size_def report_container_buff_size_def)

lemma selectivity_counts:
  "get_r_selectivity_pct (foldl (\<lambda>r b. increment_checked_elements_count b r) rf_init bs) = (of_nat (length (filter id bs)), of_nat (length bs))"
proof -
  have "get_r_selectivity_pct (foldl (\<lambda>r b. increment_checked_elements_count b r) r bs) =
      (n_positive_checks r + of_nat (length (filter id bs)), n_checks r + of_nat (length bs))" for r
    by (induction bs arbitrary: r) (auto simp: get_r_selectivity_pct_def increment_checked_elements_count_def Let_def)
  then show ?thesis by (simp add: rf_init_def)
qed

end
