(* ===== verification/Async_State.thy ===== *)
theory Async_State imports Prelude begin

text \<open>
  \<open>private/sql_class.h\<close>, struct \<open>thd_async_state\<close>: the counter of pending asynchronous operations of a session and the protocol between the thread of the session and the threads that
  finish its operations. Each operation of the struct that holds the mutex is one function on its state; the step relation interleaves them. The wait on the condition variable releases the
  mutex, may return without a signal and is repeated while operations are pending. What a session does when it is resumed is not part of the header. The counter is an
  \<open>Atomic_counter<int>\<close> (\<open>private/my_counter.h\<close>): a 32-bit integer whose additions wrap, so the facts below name the largest number of operations in flight that they need.
\<close>

section \<open>Atomic_counter\<close>

text \<open>\<open>add\<close> and \<open>sub\<close> return the value before the operation, and the new counter. \<open>++\<close> after the counter is \<open>add(1)\<close>, \<open>--\<close> before it is \<open>sub(1) - 1\<close>.\<close>

definition counter_add :: "int32 \<Rightarrow> int32 \<Rightarrow> int32 \<times> int32" where
  "counter_add c i = (c, c + i)"

definition counter_sub :: "int32 \<Rightarrow> int32 \<Rightarrow> int32 \<times> int32" where
  "counter_sub c i = (c, c - i)"

definition counter_post_inc :: "int32 \<Rightarrow> int32 \<times> int32" where
  "counter_post_inc c = counter_add c 1"

definition counter_pre_dec :: "int32 \<Rightarrow> int32 \<times> int32" where
  "counter_pre_dec c = (let (old, c) = counter_sub c 1 in (old - 1, c))"

lemmas counter_defs = counter_add_def counter_sub_def counter_post_inc_def counter_pre_dec_def

section \<open>State and operations\<close>

datatype enum_async_state = NONE | SUSPENDED | RESUMED

record thd_async_state =
  m_state :: enum_async_state
  m_pending_ops :: int32

definition async_init :: thd_async_state where
  "async_init = \<lparr>m_state = NONE, m_pending_ops = 0\<rparr>"

definition try_suspend :: "thd_async_state \<Rightarrow> bool \<times> thd_async_state" where
  "try_suspend a = (if m_pending_ops a \<noteq> 0 then (True, a\<lparr>m_state := SUSPENDED\<rparr>) else (False, a))"

definition inc_pending_ops :: "thd_async_state \<Rightarrow> thd_async_state" where
  "inc_pending_ops a = a\<lparr>m_pending_ops := snd (counter_post_inc (m_pending_ops a))\<rparr>"

text \<open>The result, the state handed to the caller, whether the condition is signalled, and the new state.\<close>

definition dec_pending_ops :: "thd_async_state \<Rightarrow> int32 \<times> enum_async_state \<times> bool \<times> thd_async_state" where
  "dec_pending_ops a =
     (let (ret, c) = counter_pre_dec (m_pending_ops a); a = a\<lparr>m_pending_ops := c\<rparr>
      in (ret, m_state a, ret = 0, a))"

definition pending_ops :: "thd_async_state \<Rightarrow> int32" where
  "pending_ops a = m_pending_ops a"

text \<open>\<open>wait_for_pending_ops\<close>: where its thread stands, from the check without the mutex to the return.\<close>

datatype owner = Running | Checked | Blocked | Signalled | Returned | Left

definition wait_enter :: "thd_async_state \<Rightarrow> owner" where
  "wait_enter a = (if pending_ops a = 0 then Returned else Checked)"

definition wait_test :: "thd_async_state \<Rightarrow> owner" where
  "wait_test a = (if m_pending_ops a \<noteq> 0 then Blocked else Returned)"

section \<open>Sessions and their operations\<close>

text \<open>The struct, its session's thread, the operations handed out and not yet finished, and how often a finishing thread was told to resume the session.\<close>

record async_sys =
  async :: thd_async_state
  thread :: owner
  in_flight :: nat
  resumes :: nat

definition sys_init :: async_sys where
  "sys_init = \<lparr>async = async_init, thread = Running, in_flight = 0, resumes = 0\<rparr>"

inductive step :: "async_sys \<Rightarrow> async_sys \<Rightarrow> bool" where
  post: "thread s = Running \<Longrightarrow> step s (s\<lparr>async := inc_pending_ops (async s), in_flight := in_flight s + 1\<rparr>)"
| finish: "0 < in_flight s \<Longrightarrow> dec_pending_ops (async s) = (ret, st, signal, a) \<Longrightarrow>
    step s (s\<lparr>async := a, in_flight := in_flight s - 1,
              thread := (if signal \<and> thread s = Blocked then Signalled else thread s),
              resumes := (if ret = 0 \<and> st = SUSPENDED then resumes s + 1 else resumes s)\<rparr>)"
| suspend: "thread s = Running \<Longrightarrow> try_suspend (async s) = (ok, a) \<Longrightarrow>
    step s (s\<lparr>async := a, thread := (if ok then Left else Running)\<rparr>)"
| enter: "thread s = Running \<Longrightarrow> step s (s\<lparr>thread := wait_enter (async s)\<rparr>)"
| test: "thread s = Checked \<or> thread s = Signalled \<Longrightarrow> step s (s\<lparr>thread := wait_test (async s)\<rparr>)"
| spurious: "thread s = Blocked \<Longrightarrow> step s (s\<lparr>thread := Signalled\<rparr>)"

text \<open>The states reached with never more than \<open>n\<close> operations in flight.\<close>

inductive reachable :: "nat \<Rightarrow> async_sys \<Rightarrow> bool" for n where
  init: "reachable n sys_init"
| run: "reachable n s \<Longrightarrow> step s s' \<Longrightarrow> in_flight s' \<le> n \<Longrightarrow> reachable n s'"

inductive_cases step_elim: "step s s'"

section \<open>Invariant\<close>

text \<open>Whatever the number of operations, the counter is that number modulo \<open>2\<^sup>3\<^sup>2\<close>, and no one sleeps without an operation that will wake it.\<close>

definition count_inv :: "async_sys \<Rightarrow> bool" where
  "count_inv s \<longleftrightarrow> m_pending_ops (async s) = of_nat (in_flight s) \<and> (thread s = Blocked \<longrightarrow> m_pending_ops (async s) \<noteq> 0)"

lemma count_init: "count_inv sys_init"
  by (simp add: count_inv_def sys_init_def async_init_def)

lemma count_step: "step s s' \<Longrightarrow> count_inv s \<Longrightarrow> count_inv s'"
  by (erule step_elim)
     (auto simp: count_inv_def inc_pending_ops_def dec_pending_ops_def try_suspend_def wait_enter_def wait_test_def pending_ops_def
       counter_defs Let_def of_nat_diff split: if_splits)

lemma count_reachable: "reachable n s \<Longrightarrow> count_inv s"
  by (induction rule: reachable.induct) (auto intro: count_init count_step)

lemma pending_zero: "count_inv s \<Longrightarrow> in_flight s < 2 ^ 32 \<Longrightarrow> m_pending_ops (async s) = 0 \<longleftrightarrow> in_flight s = 0"
  by (auto simp: count_inv_def word_of_nat_eq_0_iff dest: dvd_imp_le)

lemma count_signed:
  assumes "count_inv s" "in_flight s < 2 ^ 31"
  shows "sint (pending_ops (async s)) = int (in_flight s)"
proof -
  have "sint (word_of_int (int (in_flight s)) :: int32) = int (in_flight s)"
    using assms(2) by (intro sint_word_of_int_small) auto
  then show ?thesis using assms(1) by (simp add: pending_ops_def count_inv_def)
qed

definition async_inv :: "async_sys \<Rightarrow> bool" where
  "async_inv s \<longleftrightarrow>
     (thread s = Returned \<longrightarrow> in_flight s = 0) \<and>
     (m_state (async s) = SUSPENDED \<longleftrightarrow> thread s = Left) \<and>
     (thread s = Left \<longrightarrow> resumes s = (if in_flight s = 0 then 1 else 0)) \<and>
     (thread s \<noteq> Left \<longrightarrow> resumes s = 0)"

lemma inv_init: "async_inv sys_init"
  by (simp add: async_inv_def sys_init_def async_init_def)

lemma inv_step:
  assumes "step s s'" "async_inv s"
    and "m_pending_ops (async s) = 0 \<longleftrightarrow> in_flight s = 0" and "m_pending_ops (async s') = 0 \<longleftrightarrow> in_flight s' = 0"
  shows "async_inv s'"
  using assms
  by (cases rule: step.cases)
     (auto simp: async_inv_def inc_pending_ops_def dec_pending_ops_def try_suspend_def wait_enter_def wait_test_def pending_ops_def counter_defs Let_def
       split: if_splits)

lemma inv_reachable: "reachable n s \<Longrightarrow> n < 2 ^ 32 \<Longrightarrow> in_flight s \<le> n \<and> async_inv s"
proof (induction rule: reachable.induct)
  case init
  then show ?case using inv_init by (simp add: sys_init_def)
next
  case (run s s')
  have "count_inv s" "count_inv s'" using count_reachable run(1) count_step run(2) by blast+
  moreover have "in_flight s < 2 ^ 32" "in_flight s' < 2 ^ 32" using run(3,4,5) by linarith+
  ultimately show ?case using inv_step [OF run(2)] run(3,4,5) pending_zero by blast
qed

text \<open>C3: In every state of a session and the threads that finish its operations, reached with at most \<open>n\<close> operations in flight, the 32-bit counter is the number in flight modulo \<open>2\<^sup>3\<^sup>2\<close> and
  the waiting thread never sleeps when nothing is pending. While \<open>n\<close> is below \<open>2\<^sup>3\<^sup>2\<close> the counter is zero exactly when nothing is in flight, the wait never returns while something is,
  and a session that was suspended is told to resume exactly once, by the thread that finishes its last operation; and while it is below \<open>2\<^sup>3\<^sup>1\<close> the counter, read as the signed
  integer it is, is the number in flight.\<close>

theorem async_session_protocol:
  assumes "reachable n s"
  shows "pending_ops (async s) = of_nat (in_flight s) \<and> (thread s = Blocked \<longrightarrow> 0 < in_flight s) \<and>
    (n < 2 ^ 32 \<longrightarrow> (pending_ops (async s) = 0 \<longleftrightarrow> in_flight s = 0) \<and> (thread s = Returned \<longrightarrow> in_flight s = 0) \<and>
       resumes s = (if thread s = Left \<and> in_flight s = 0 then 1 else 0)) \<and>
    (n < 2 ^ 31 \<longrightarrow> sint (pending_ops (async s)) = int (in_flight s))"
proof (intro conjI impI)
  have c: "count_inv s" using count_reachable [OF assms] .
  show "pending_ops (async s) = of_nat (in_flight s)" "thread s = Blocked \<Longrightarrow> 0 < in_flight s"
    using c by (auto simp: count_inv_def pending_ops_def intro: Suc_leI gr0I)
  show "pending_ops (async s) = 0 \<longleftrightarrow> in_flight s = 0" if "n < 2 ^ 32"
    using pending_zero [OF c] inv_reachable [OF assms that] that by (simp add: pending_ops_def)
  show "in_flight s = 0" if "n < 2 ^ 32" "thread s = Returned"
    using inv_reachable [OF assms that(1)] that(2) by (simp add: async_inv_def)
  show "resumes s = (if thread s = Left \<and> in_flight s = 0 then 1 else 0)" if "n < 2 ^ 32"
    using inv_reachable [OF assms that] by (auto simp: async_inv_def)
  show "sint (pending_ops (async s)) = int (in_flight s)" if "n < 2 ^ 31"
  proof -
    have "n < 2 ^ 32" using that by simp
    then show ?thesis using count_signed [OF c] inv_reachable [OF assms] that by (meson le_less_trans)
  qed
qed

definition sample_sys :: async_sys where
  "sample_sys = sys_init\<lparr>async := \<lparr>m_state = SUSPENDED, m_pending_ops = 0\<rparr>, thread := Left, resumes := 1\<rparr>"

lemma sample_reachable: "reachable 1 sample_sys"
proof -
  let ?s1 = "sys_init\<lparr>async := \<lparr>m_state = NONE, m_pending_ops = 1\<rparr>, in_flight := 1\<rparr>"
  let ?s2 = "?s1\<lparr>async := \<lparr>m_state = SUSPENDED, m_pending_ops = 1\<rparr>, thread := Left\<rparr>"
  have "step sys_init ?s1"
    using step.post [of sys_init] by (simp add: sys_init_def async_init_def inc_pending_ops_def counter_defs)
  moreover have "step ?s1 ?s2"
    using step.suspend [of ?s1 True "\<lparr>m_state = SUSPENDED, m_pending_ops = 1\<rparr>"] by (simp add: sys_init_def try_suspend_def)
  moreover have "step ?s2 sample_sys"
    using step.finish [of ?s2 0 SUSPENDED True "\<lparr>m_state = SUSPENDED, m_pending_ops = 0\<rparr>"]
    by (simp add: sys_init_def dec_pending_ops_def counter_defs sample_sys_def)
  moreover have "in_flight ?s1 \<le> 1" "in_flight ?s2 \<le> 1" "in_flight sample_sys \<le> 1" by (simp_all add: sample_sys_def sys_init_def)
  ultimately show ?thesis by (meson reachable.intros)
qed

theorem async_session_protocol_witness: "sint (pending_ops (async sample_sys)) = 0 \<and> resumes sample_sys = 1"
  using async_session_protocol [OF sample_reachable] by (simp add: sample_sys_def sys_init_def)

text \<open>Past the bound the counter wraps: with \<open>2\<^sup>3\<^sup>2\<close> operations in flight it is zero, and a wait returns at once.\<close>

lemma pending_ops_wraps: "count_inv s \<Longrightarrow> in_flight s = 2 ^ 32 \<Longrightarrow> pending_ops (async s) = 0 \<and> wait_enter (async s) = Returned"
  by (simp add: count_inv_def pending_ops_def wait_enter_def)

section \<open>Progress\<close>

inductive steps :: "async_sys \<Rightarrow> async_sys \<Rightarrow> bool" where
  refl: "steps s s"
| cons: "step s t \<Longrightarrow> steps t u \<Longrightarrow> steps s u"

lemma steps_trans: "steps s t \<Longrightarrow> steps t u \<Longrightarrow> steps s u"
  by (induction rule: steps.induct) (auto intro: steps.cons)

text \<open>Every pending operation can finish, whatever the session's thread does; no operation is added on the way.\<close>

lemma finish_all:
  assumes "reachable n s" "in_flight s \<le> n"
  shows "\<exists>t. steps s t \<and> reachable n t \<and> in_flight t = 0 \<and> (thread t = thread s \<or> thread s = Blocked \<and> thread t = Signalled)"
  using assms
proof (induction "in_flight s" arbitrary: s)
  case 0
  then show ?case by (metis steps.refl)
next
  case (Suc m)
  obtain ret st signal a where d: "dec_pending_ops (async s) = (ret, st, signal, a)" by (cases "dec_pending_ops (async s)")
  let ?t = "s\<lparr>async := a, in_flight := in_flight s - 1, thread := (if signal \<and> thread s = Blocked then Signalled else thread s),
              resumes := (if ret = 0 \<and> st = SUSPENDED then resumes s + 1 else resumes s)\<rparr>"
  have st: "step s ?t" using d Suc(2) by (intro step.finish) simp_all
  have m: "m = in_flight ?t" "in_flight ?t \<le> n" using Suc(2,4) by simp_all
  obtain u where "steps ?t u" "reachable n u" "in_flight u = 0" "thread u = thread ?t \<or> thread ?t = Blocked \<and> thread u = Signalled"
    using Suc(1) [OF m(1) reachable.run [OF Suc(3) st m(2)] m(2)] by blast
  then show ?case using st by (intro exI [of _ u]) (auto intro: steps.cons split: if_splits)
qed

text \<open>C4: From every state reached with fewer than \<open>2\<^sup>3\<^sup>2\<close> operations in flight the operations can finish, and then the session's thread has left with its one notice to resume, or a wait
  it has begun returns.\<close>

theorem async_session_completes:
  assumes "reachable n s" and "n < 2 ^ 32"
  shows "\<exists>t. steps s t \<and> in_flight t = 0 \<and>
    (if thread s = Left then resumes t = 1 else if thread s = Running then thread t = Running else thread t = Returned)"
proof -
  obtain t where t: "steps s t" "reachable n t" "in_flight t = 0" "thread t = thread s \<or> thread s = Blocked \<and> thread t = Signalled"
    using finish_all inv_reachable [OF assms] assms(1) by blast
  have inv: "count_inv t" "async_inv t" using count_reachable inv_reachable t(2) assms(2) by blast+
  show ?thesis
  proof (cases "thread t = Checked \<or> thread t = Signalled")
    case True
    let ?u = "t\<lparr>thread := wait_test (async t)\<rparr>"
    have "steps s ?u" using t(1) step.test [OF True] by (blast intro: steps_trans steps.intros)
    moreover have "thread ?u = Returned" using inv t(3) by (simp add: count_inv_def wait_test_def)
    moreover have "thread s \<noteq> Left" "thread s \<noteq> Running" using True t(4) by auto
    ultimately show ?thesis using t(3) by (intro exI [of _ ?u]) simp
  next
    case False
    then show ?thesis using t inv by (intro exI [of _ t]) (cases "thread t"; auto simp: async_inv_def count_inv_def)
  qed
qed

theorem async_session_completes_witness:
  "\<exists>t. steps sample_sys t \<and> in_flight t = 0 \<and> resumes t = 1"
  using async_session_completes [OF sample_reachable] by (simp add: sample_sys_def)

end
