(* ===== verification/Thd_State.thy ===== *)
theory Thd_State imports Sql_Temporal begin

unbundle bit_operations_syntax

text \<open>
  \<open>private/sql_class.h\<close>, parts of class \<open>THD\<close>: the time of a statement (\<open>set_system_time\<close> to \<open>update_server_status\<close>), the kill state, the format in which a statement is logged, and the
  counters of a statement. The clocks are arguments: \<open>hrtime\<close> is microseconds since the epoch, \<open>utime\<close> a running microsecond counter. \<open>my_time_t\<close> and \<open>ulong\<close> have 32 bits in this build.
  \<open>reset_killed\<close> has its body elsewhere and is a parameter.
\<close>

section \<open>Time of a statement\<close>

definition HRTIME_RESOLUTION :: ulonglong where "HRTIME_RESOLUTION = 1000000"

definition hrtime_to_my_time :: "ulonglong \<Rightarrow> int32" where "hrtime_to_my_time x = ucast (x div HRTIME_RESOLUTION)"
definition hrtime_sec_part :: "ulonglong \<Rightarrow> ulong" where "hrtime_sec_part x = ucast (x mod HRTIME_RESOLUTION)"
definition hrtime_from_time :: "int32 \<Rightarrow> ulonglong" where "hrtime_from_time x = scast x * HRTIME_RESOLUTION"

record thd_time =
  st_start :: ulonglong
  st_sec :: int32
  st_sec_part :: ulong
  user_time :: ulonglong
  start_time :: int32
  start_time_sec_part :: ulong
  start_utime :: ulonglong
  utime_after_lock :: ulonglong
  utime_after_query :: ulonglong
  query_start_sec_part_used :: bool
  server_status :: uint

definition set_system_time :: "ulonglong \<Rightarrow> thd_time \<Rightarrow> thd_time" where
  "set_system_time hrtime t =
     (let sec = hrtime_to_my_time hrtime; sec_part = hrtime_sec_part hrtime
      in if sint (st_sec t) < sint sec \<or> sec = st_sec t \<and> st_sec_part t < sec_part \<or> hrtime < st_start t
         then t\<lparr>st_sec := sec, st_sec_part := sec_part, st_start := hrtime\<rparr>
         else if st_sec_part t < TIME_MAX_SECOND_PART then t\<lparr>st_sec_part := st_sec_part t + 1\<rparr>
         else t\<lparr>st_sec := st_sec t + 1, st_sec_part := 0\<rparr>)"

definition set_start_time :: "ulonglong \<Rightarrow> thd_time \<Rightarrow> thd_time" where
  "set_start_time hrtime t =
     (if user_time t \<noteq> 0
      then t\<lparr>start_time := hrtime_to_my_time (user_time t), start_time_sec_part := hrtime_sec_part (user_time t)\<rparr>
      else let t = set_system_time hrtime t in t\<lparr>start_time := st_sec t, start_time_sec_part := st_sec_part t\<rparr>)"

definition set_time :: "ulonglong \<Rightarrow> ulonglong \<Rightarrow> thd_time \<Rightarrow> thd_time" where
  "set_time hrtime utime t = (set_start_time hrtime t)\<lparr>utime_after_lock := utime, start_utime := utime\<rparr>"

definition set_time_user :: "ulonglong \<Rightarrow> ulonglong \<Rightarrow> ulonglong \<Rightarrow> thd_time \<Rightarrow> thd_time" where
  "set_time_user hrtime utime user t = set_time hrtime utime (t\<lparr>user_time := user\<rparr>)"

definition force_set_time :: "int32 \<Rightarrow> ulong \<Rightarrow> thd_time \<Rightarrow> thd_time" where
  "force_set_time s sec_part t =
     t\<lparr>st_sec := s, start_time := s, st_sec_part := sec_part, start_time_sec_part := sec_part\<rparr>"

datatype secure_timestamp = SECTIME_NO | SECTIME_SUPER | SECTIME_REPL | SECTIME_YES

fun sectime_no :: "secure_timestamp \<Rightarrow> nat" where
  "sectime_no SECTIME_NO = 0"
| "sectime_no SECTIME_SUPER = 1"
| "sectime_no SECTIME_REPL = 2"
| "sectime_no SECTIME_YES = 3"

definition set_time_repl :: "secure_timestamp \<Rightarrow> bool \<Rightarrow> ulonglong \<Rightarrow> ulonglong \<Rightarrow> int32 \<Rightarrow> ulong \<Rightarrow> thd_time \<Rightarrow> thd_time" where
  "set_time_repl opt_secure_timestamp slave_thread hrtime utime s sec_part t =
     (if sectime_no (if slave_thread then SECTIME_REPL else SECTIME_SUPER) < sectime_no opt_secure_timestamp
      then set_time hrtime utime t
      else let t = (if sec_part \<le> TIME_MAX_SECOND_PART then force_set_time s sec_part t
                    else if s \<noteq> st_sec t then force_set_time s 0 t
                    else let t = t\<lparr>start_time := s, st_sec_part := st_sec_part t + 1\<rparr> in t\<lparr>start_time_sec_part := st_sec_part t\<rparr>)
           in t\<lparr>user_time := hrtime_from_time (start_time t) + ucast (start_time_sec_part t), utime_after_lock := utime, start_utime := utime\<rparr>)"

definition set_time_after_lock :: "ulonglong \<Rightarrow> thd_time \<Rightarrow> thd_time" where
  "set_time_after_lock utime t = t\<lparr>utime_after_lock := utime\<rparr>"

definition set_time_for_next_stage :: "ulonglong \<Rightarrow> thd_time \<Rightarrow> thd_time" where
  "set_time_for_next_stage utime t = t\<lparr>utime_after_query := utime\<rparr>"

definition SERVER_QUERY_WAS_SLOW :: uint where "SERVER_QUERY_WAS_SLOW = 2048"

definition update_server_status :: "ulonglong \<Rightarrow> ulonglong \<Rightarrow> thd_time \<Rightarrow> thd_time" where
  "update_server_status utime long_query_time t =
     (let t = set_time_for_next_stage utime t
      in if utime_after_lock t + long_query_time \<le> utime_after_query t
         then t\<lparr>server_status := server_status t OR SERVER_QUERY_WAS_SLOW\<rparr> else t)"

definition query_start :: "thd_time \<Rightarrow> int32" where "query_start t = start_time t"

definition query_start_sec_part :: "thd_time \<Rightarrow> ulong \<times> thd_time" where
  "query_start_sec_part t = (start_time_sec_part t, t\<lparr>query_start_sec_part_used := True\<rparr>)"

section \<open>Kill state\<close>

datatype killed_state = NOT_KILLED | KILL_HARD_BIT | KILL_BAD_DATA | KILL_BAD_DATA_HARD | KILL_QUERY | KILL_QUERY_HARD
  | ABORT_QUERY | ABORT_QUERY_HARD | KILL_TIMEOUT | KILL_TIMEOUT_HARD | KILL_SLAVE_SAME_ID
  | KILL_CONNECTION | KILL_CONNECTION_HARD | KILL_SYSTEM_THREAD | KILL_SYSTEM_THREAD_HARD | KILL_SERVER | KILL_SERVER_HARD
  | KILL_WAIT_TIMEOUT | KILL_WAIT_TIMEOUT_HARD

fun killed_no :: "killed_state \<Rightarrow> nat" where
  "killed_no NOT_KILLED = 0"
| "killed_no KILL_HARD_BIT = 1"
| "killed_no KILL_BAD_DATA = 2"
| "killed_no KILL_BAD_DATA_HARD = 3"
| "killed_no KILL_QUERY = 4"
| "killed_no KILL_QUERY_HARD = 5"
| "killed_no ABORT_QUERY = 6"
| "killed_no ABORT_QUERY_HARD = 7"
| "killed_no KILL_TIMEOUT = 8"
| "killed_no KILL_TIMEOUT_HARD = 9"
| "killed_no KILL_SLAVE_SAME_ID = 10"
| "killed_no KILL_CONNECTION = 12"
| "killed_no KILL_CONNECTION_HARD = 13"
| "killed_no KILL_SYSTEM_THREAD = 14"
| "killed_no KILL_SYSTEM_THREAD_HARD = 15"
| "killed_no KILL_SERVER = 16"
| "killed_no KILL_SERVER_HARD = 17"
| "killed_no KILL_WAIT_TIMEOUT = 18"
| "killed_no KILL_WAIT_TIMEOUT_HARD = 19"

definition killed_mask_hard :: "killed_state \<Rightarrow> nat" where
  "killed_mask_hard k = killed_no k - killed_no k mod 2"

record 'msg thd_kill =
  killed :: killed_state
  killed_err :: "(int \<times> 'msg) option"
  mysys_abort :: bool

text \<open>\<open>alloc\<close> says whether the memory for the error was given; \<open>trunc_msg\<close> is \<open>strmake\<close> into the buffer of the message.\<close>

definition set_killed_no_mutex :: "bool \<Rightarrow> ('msg \<Rightarrow> 'msg) \<Rightarrow> killed_state \<Rightarrow> int \<Rightarrow> 'msg \<Rightarrow> 'msg thd_kill \<Rightarrow> 'msg thd_kill" where
  "set_killed_no_mutex alloc trunc_msg killed_arg killed_errno_arg killed_err_msg_arg k =
     (if killed_no (killed k) \<le> killed_no killed_arg
      then let k = k\<lparr>killed := killed_arg\<rparr>
           in if killed_errno_arg \<noteq> 0
              then k\<lparr>killed_err := (if alloc then Some (killed_errno_arg, trunc_msg killed_err_msg_arg) else None)\<rparr>
              else k
      else k)"

definition set_killed :: "bool \<Rightarrow> ('msg \<Rightarrow> 'msg) \<Rightarrow> killed_state \<Rightarrow> int \<Rightarrow> 'msg \<Rightarrow> 'msg thd_kill \<Rightarrow> 'msg thd_kill" where
  "set_killed alloc trunc_msg killed_arg killed_errno_arg killed_err_msg_arg k =
     set_killed_no_mutex alloc trunc_msg killed_arg killed_errno_arg killed_err_msg_arg k"

definition reset_kill_query :: "('msg thd_kill \<Rightarrow> 'msg thd_kill) \<Rightarrow> 'msg thd_kill \<Rightarrow> 'msg thd_kill" where
  "reset_kill_query reset_killed k =
     (if killed_no (killed k) < killed_no KILL_CONNECTION then (reset_killed k)\<lparr>mysys_abort := False\<rparr> else k)"

section \<open>Format of the binary log\<close>

datatype enum_binlog_format = BINLOG_FORMAT_MIXED | BINLOG_FORMAT_STMT | BINLOG_FORMAT_ROW | BINLOG_FORMAT_UNSPEC

record thd_binlog =
  binlog_format :: enum_binlog_format
  current_stmt_binlog_format :: enum_binlog_format
  in_sub_stmt :: uint

definition get_binlog_format :: "thd_binlog \<Rightarrow> enum_binlog_format \<times> enum_binlog_format" where
  "get_binlog_format t = (binlog_format t, current_stmt_binlog_format t)"

definition set_binlog_format :: "enum_binlog_format \<Rightarrow> enum_binlog_format \<Rightarrow> thd_binlog \<Rightarrow> thd_binlog" where
  "set_binlog_format format current_format t = t\<lparr>binlog_format := format, current_stmt_binlog_format := current_format\<rparr>"

definition set_binlog_format_stmt :: "thd_binlog \<Rightarrow> thd_binlog" where
  "set_binlog_format_stmt t = t\<lparr>binlog_format := BINLOG_FORMAT_STMT, current_stmt_binlog_format := BINLOG_FORMAT_STMT\<rparr>"

definition set_current_stmt_binlog_format_row :: "thd_binlog \<Rightarrow> thd_binlog" where
  "set_current_stmt_binlog_format_row t = t\<lparr>current_stmt_binlog_format := BINLOG_FORMAT_ROW\<rparr>"

definition set_current_stmt_binlog_format_stmt :: "thd_binlog \<Rightarrow> enum_binlog_format \<times> thd_binlog" where
  "set_current_stmt_binlog_format_stmt t = (current_stmt_binlog_format t, t\<lparr>current_stmt_binlog_format := BINLOG_FORMAT_STMT\<rparr>)"

definition restore_stmt_binlog_format :: "enum_binlog_format \<Rightarrow> thd_binlog \<Rightarrow> thd_binlog" where
  "restore_stmt_binlog_format format t = t\<lparr>current_stmt_binlog_format := format\<rparr>"

definition set_current_stmt_binlog_format_row_if_mixed :: "thd_binlog \<Rightarrow> thd_binlog" where
  "set_current_stmt_binlog_format_row_if_mixed t =
     (if binlog_format t = BINLOG_FORMAT_MIXED \<and> in_sub_stmt t = 0 then set_current_stmt_binlog_format_row t else t)"

definition reset_current_stmt_binlog_format_row :: "bool \<Rightarrow> thd_binlog \<Rightarrow> thd_binlog" where
  "reset_current_stmt_binlog_format_row has_temporary_tables t =
     (if in_sub_stmt t = 0
      then if binlog_format t = BINLOG_FORMAT_ROW then set_current_stmt_binlog_format_row t
           else if \<not> has_temporary_tables then snd (set_current_stmt_binlog_format_stmt t) else t
      else t)"

definition is_current_stmt_binlog_format_row :: "thd_binlog \<Rightarrow> bool" where
  "is_current_stmt_binlog_format_row t \<longleftrightarrow> current_stmt_binlog_format t = BINLOG_FORMAT_ROW"

section \<open>Counters and modes\<close>

record thd_rows =
  first_successful_insert_id_in_cur_stmt :: ulonglong
  first_successful_insert_id_in_prev_stmt :: ulonglong
  first_successful_insert_id_in_prev_stmt_for_binlog :: ulonglong
  stmt_depends_on_first_successful_insert_id_in_prev_stmt :: bool
  m_row_count_func :: longlong
  affected_rows :: ha_rows

definition record_first_successful_insert_id_in_cur_stmt :: "ulonglong \<Rightarrow> thd_rows \<Rightarrow> thd_rows" where
  "record_first_successful_insert_id_in_cur_stmt id_arg t =
     (if first_successful_insert_id_in_cur_stmt t = 0 then t\<lparr>first_successful_insert_id_in_cur_stmt := id_arg\<rparr> else t)"

definition read_first_successful_insert_id_in_prev_stmt :: "thd_rows \<Rightarrow> ulonglong \<times> thd_rows" where
  "read_first_successful_insert_id_in_prev_stmt t =
     (let t = (if \<not> stmt_depends_on_first_successful_insert_id_in_prev_stmt t
               then t\<lparr>first_successful_insert_id_in_prev_stmt_for_binlog := first_successful_insert_id_in_prev_stmt t, stmt_depends_on_first_successful_insert_id_in_prev_stmt := True\<rparr> else t)
      in (first_successful_insert_id_in_prev_stmt t, t))"

definition set_row_count_func :: "longlong \<Rightarrow> thd_rows \<Rightarrow> thd_rows" where
  "set_row_count_func row_count_func t = t\<lparr>m_row_count_func := row_count_func\<rparr>"

definition get_row_count_func :: "thd_rows \<Rightarrow> longlong" where "get_row_count_func t = m_row_count_func t"

definition set_affected_rows :: "longlong \<Rightarrow> thd_rows \<Rightarrow> thd_rows" where
  "set_affected_rows row_count_func t = t\<lparr>affected_rows := affected_rows t + (if 0 \<le> sint row_count_func then row_count_func else 0)\<rparr>"

definition MODE_NO_BACKSLASH_ESCAPES :: ulonglong where "MODE_NO_BACKSLASH_ESCAPES = push_bit 20 1"
definition MODE_STRICT_TRANS_TABLES :: ulonglong where "MODE_STRICT_TRANS_TABLES = push_bit 21 1"
definition MODE_STRICT_ALL_TABLES :: ulonglong where "MODE_STRICT_ALL_TABLES = push_bit 22 1"
definition MODE_TIME_ROUND_FRACTIONAL :: ulonglong where "MODE_TIME_ROUND_FRACTIONAL = push_bit 34 1"
definition OPTION_NOT_AUTOCOMMIT :: ulonglong where "OPTION_NOT_AUTOCOMMIT = push_bit 19 1"
definition OPTION_BEGIN :: ulonglong where "OPTION_BEGIN = push_bit 20 1"

definition is_strict_mode :: "ulonglong \<Rightarrow> bool" where
  "is_strict_mode sql_mode \<longleftrightarrow> sql_mode AND (MODE_STRICT_TRANS_TABLES OR MODE_STRICT_ALL_TABLES) \<noteq> 0"

definition backslash_escapes :: "ulonglong \<Rightarrow> bool" where
  "backslash_escapes sql_mode \<longleftrightarrow> \<not> sql_mode AND MODE_NO_BACKSLASH_ESCAPES \<noteq> 0"

definition in_multi_stmt_transaction_mode :: "ulonglong \<Rightarrow> bool" where
  "in_multi_stmt_transaction_mode option_bits \<longleftrightarrow> option_bits AND (OPTION_NOT_AUTOCOMMIT OR OPTION_BEGIN) \<noteq> 0"

definition really_abort_on_warning :: "bool \<Rightarrow> bool \<Rightarrow> ulonglong \<Rightarrow> bool" where
  "really_abort_on_warning abort_on_warning modified_non_trans_table sql_mode \<longleftrightarrow>
     abort_on_warning \<and> (\<not> modified_non_trans_table \<or> sql_mode AND MODE_STRICT_ALL_TABLES \<noteq> 0)"


section \<open>Statement times\<close>

definition us_bound :: int where "us_bound = 2 ^ 31 * 1000000"

definition system_us :: "thd_time \<Rightarrow> int" where
  "system_us t = sint (st_sec t) * 1000000 + uint (st_sec_part t)"

definition time_valid :: "thd_time \<Rightarrow> bool" where
  "time_valid t \<longleftrightarrow> st_sec_part t \<le> TIME_MAX_SECOND_PART"

lemma reading_parts:
  assumes "uint h < us_bound"
  shows "sint (hrtime_to_my_time h) * 1000000 + uint (hrtime_sec_part h) = uint h" "uint (hrtime_sec_part h) < 1000000"
    "0 \<le> sint (hrtime_to_my_time h)"
proof -
  let ?q = "uint h div 1000000" and ?r = "uint h mod 1000000"
  have q: "0 \<le> ?q" "?q < 2 ^ 31" using assms by (simp_all add: us_bound_def pos_imp_zdiv_nonneg_iff)
  have r: "0 \<le> ?r" "?r < 1000000" by simp_all
  have s: "sint (hrtime_to_my_time h) = ?q"
  proof -
    have "hrtime_to_my_time h = word_of_int ?q" by (simp add: hrtime_to_my_time_def HRTIME_RESOLUTION_def ucast_eq uint_div)
    thus ?thesis using q by (simp add: sint_word_of_int_small)
  qed
  have p: "uint (hrtime_sec_part h) = ?r"
  proof -
    have "hrtime_sec_part h = word_of_int ?r" by (simp add: hrtime_sec_part_def HRTIME_RESOLUTION_def ucast_eq uint_mod)
    thus ?thesis using r by (simp add: uint_word_of_int take_bit_int_eq_self)
  qed
  show "sint (hrtime_to_my_time h) * 1000000 + uint (hrtime_sec_part h) = uint h" using s p by simp
  show "uint (hrtime_sec_part h) < 1000000" using p r by simp
  show "0 \<le> sint (hrtime_to_my_time h)" using s q by simp
qed

lemma sint_succ_small:
  fixes w :: int32
  assumes "sint w < 2 ^ 31 - 1"
  shows "sint (w + 1) = sint w + 1"
proof -
  obtain i where i: "sint w = i" by simp
  have low: "- (2 ^ 31) \<le> i" using sint_greater_eq [of w] i by simp
  have "w = word_of_int i" by (simp flip: i)
  hence e: "w + 1 = word_of_int (i + 1)" by (simp only: of_int_add of_int_1)
  have "sint (word_of_int (i + 1) :: int32) = i + 1" using low assms i by (intro sint_word_of_int_small) simp_all
  thus ?thesis by (simp only: e i)
qed

lemma set_system_time_step:
  assumes v: "time_valid t" and h: "uint h < us_bound" and u: "system_us t + 1 < us_bound" and s: "st_start t \<le> h"
  shows "system_us (set_system_time h t) = max (system_us t + 1) (uint h)" "time_valid (set_system_time h t)"
    "st_start (set_system_time h t) \<le> h"
proof -
  note r = reading_parts [OF h]
  have p: "uint (st_sec_part t) < 1000000" using v by (simp add: time_valid_def TIME_MAX_SECOND_PART_def word_le_def)
  have p0: "0 \<le> uint (st_sec_part t)" "0 \<le> uint (hrtime_sec_part h)" by simp_all
  let ?sec = "hrtime_to_my_time h" and ?part = "hrtime_sec_part h"
  have eqs: "?sec = st_sec t \<longleftrightarrow> sint ?sec = sint (st_sec t)" by (auto intro: signed_word_eqI)
  have newer: "sint (st_sec t) < sint ?sec \<or> ?sec = st_sec t \<and> st_sec_part t < ?part \<longleftrightarrow> system_us t < uint h"
    unfolding eqs system_us_def word_less_def using r p p0 by linarith
  have "system_us (set_system_time h t) = max (system_us t + 1) (uint h) \<and> time_valid (set_system_time h t) \<and> st_start (set_system_time h t) \<le> h"
  proof (cases "system_us t < uint h")
    case True
    have e: "set_system_time h t = t\<lparr>st_sec := ?sec, st_sec_part := ?part, st_start := h\<rparr>"
      using True newer by (auto simp: set_system_time_def Let_def)
    show ?thesis using r True by (simp add: e system_us_def time_valid_def TIME_MAX_SECOND_PART_def word_le_def)
  next
    case older: False
    have n: "\<not> h < st_start t" using s by simp
    have m: "max (system_us t + 1) (uint h) = system_us t + 1" using older by simp
    show ?thesis
    proof (cases "st_sec_part t < TIME_MAX_SECOND_PART")
      case True
      have e: "set_system_time h t = t\<lparr>st_sec_part := st_sec_part t + 1\<rparr>"
        using older newer n True by (auto simp add: set_system_time_def Let_def)
      have q: "uint (st_sec_part t + 1) = uint (st_sec_part t) + 1" "uint (st_sec_part t) < 999999"
        using True by (simp_all add: TIME_MAX_SECOND_PART_def word_less_def uint_word_ariths take_bit_int_eq_self)
      show ?thesis using q s m by (simp add: e system_us_def time_valid_def TIME_MAX_SECOND_PART_def word_le_def)
    next
      case False
      have e: "set_system_time h t = t\<lparr>st_sec := st_sec t + 1, st_sec_part := 0\<rparr>"
        using older newer n False by (auto simp add: set_system_time_def Let_def)
      have q: "uint (st_sec_part t) = 999999" using False v by (simp add: time_valid_def TIME_MAX_SECOND_PART_def word_le_def word_less_def)
      have "sint (st_sec t + 1) = sint (st_sec t) + 1" using u q by (intro sint_succ_small) (simp add: system_us_def us_bound_def)
      thus ?thesis using q s m by (simp add: e system_us_def time_valid_def)
    qed
  qed
  thus "system_us (set_system_time h t) = max (system_us t + 1) (uint h)" "time_valid (set_system_time h t)"
    "st_start (set_system_time h t) \<le> h" by simp_all
qed

lemma clock_stepped_back:
  assumes "uint h < us_bound" "h < st_start t"
  shows "system_us (set_system_time h t) = uint h \<and> time_valid (set_system_time h t)"
  using reading_parts [OF assms(1)] assms(2)
  by (auto simp: set_system_time_def Let_def system_us_def time_valid_def TIME_MAX_SECOND_PART_def word_le_def)

definition start_us :: "thd_time \<Rightarrow> int" where
  "start_us t = sint (query_start t) * 1000000 + uint (fst (query_start_sec_part t))"

lemma set_start_time_step:
  assumes "user_time t = 0" "time_valid t" "uint h < us_bound" "system_us t + 1 < us_bound" "st_start t \<le> h"
  shows "user_time (set_start_time h t) = 0" "time_valid (set_start_time h t)" "st_start (set_start_time h t) \<le> h"
    "system_us (set_start_time h t) = max (system_us t + 1) (uint h)" "start_us (set_start_time h t) = system_us (set_start_time h t)"
proof -
  let ?t = "set_system_time h t"
  have u: "user_time ?t = 0" using assms(1) by (simp add: set_system_time_def Let_def)
  have e: "set_start_time h t = ?t\<lparr>start_time := st_sec ?t, start_time_sec_part := st_sec_part ?t\<rparr>"
    using assms(1) by (simp add: set_start_time_def Let_def)
  note st = set_system_time_step [OF assms(2-5)]
  show "user_time (set_start_time h t) = 0" by (simp add: e u)
  show "time_valid (set_start_time h t)" using st(2) by (simp add: e time_valid_def)
  show "st_start (set_start_time h t) \<le> h" using st(3) by (simp add: e)
  show "system_us (set_start_time h t) = max (system_us t + 1) (uint h)" using st(1) by (simp add: e system_us_def)
  show "start_us (set_start_time h t) = system_us (set_start_time h t)"
    by (simp add: e start_us_def system_us_def query_start_def query_start_sec_part_def)
qed

fun statement_times :: "ulonglong list \<Rightarrow> thd_time \<Rightarrow> int list" where
  "statement_times [] t = []"
| "statement_times (h # hs) t = (let t = set_start_time h t in start_us t # statement_times hs t)"

lemma statement_times_lower:
  assumes "user_time t = 0" "time_valid t" "\<forall>h\<in>set hs. uint h + int (List.length hs) < us_bound"
    "system_us t + int (List.length hs) < us_bound" "sorted (st_start t # hs)"
  shows "sorted_wrt (<) (system_us t # statement_times hs t) \<and> list_all2 (\<lambda>h s. uint h \<le> s) hs (statement_times hs t)"
  using assms
proof (induction hs arbitrary: t)
  case Nil
  show ?case by simp
next
  case (Cons h hs)
  let ?t = "set_start_time h t"
  have b: "uint h < us_bound" "uint h + int (List.length hs) < us_bound" "system_us t + 1 < us_bound" "system_us t + 1 + int (List.length hs) < us_bound"
    using Cons.prems(3,4) by simp_all
  have h: "st_start t \<le> h" "sorted hs" "\<forall>g\<in>set hs. h \<le> g" using Cons.prems(5) by simp_all
  note st = set_start_time_step [OF Cons.prems(1,2) b(1,3) h(1)]
  have IH: "sorted_wrt (<) (system_us ?t # statement_times hs ?t) \<and> list_all2 (\<lambda>h s. uint h \<le> s) hs (statement_times hs ?t)"
  proof (rule Cons.IH [OF st(1,2)])
    show "\<forall>g\<in>set hs. uint g + int (List.length hs) < us_bound" using Cons.prems(3) by force
    show "system_us ?t + int (List.length hs) < us_bound" using b(2,4) by (simp add: st(4) max_def)
    show "sorted (st_start ?t # hs)" using h st(3) by (auto intro: order_trans)
  qed
  have lt: "system_us t < system_us ?t" "uint h \<le> system_us ?t" by (simp_all add: st(4))
  show ?case using IH lt by (auto simp: Let_def st(5))
qed

text \<open>C27: The times that the statements of a session see are strictly increasing, and none is before the reading of the clock at its start, for all readings that do not go back, several of them in the same microsecond included.\<close>

theorem statement_times_increase:
  assumes "user_time t = 0" "time_valid t" "sorted (st_start t # hs)"
    "\<forall>h\<in>set hs. uint h + int (List.length hs) < us_bound" "system_us t + int (List.length hs) < us_bound"
  shows "sorted_wrt (<) (system_us t # statement_times hs t) \<and> list_all2 (\<lambda>h s. uint h \<le> s) hs (statement_times hs t)"
  using assms by (intro statement_times_lower) auto

definition thd_new :: thd_time where
  "thd_new = \<lparr>st_start = 0, st_sec = 0, st_sec_part = 0, user_time = 0, start_time = 0, start_time_sec_part = 0, start_utime = 0,
     utime_after_lock = 0, utime_after_query = 0, query_start_sec_part_used = False, server_status = 0\<rparr>"

theorem statement_times_increase_witness:
  "sorted_wrt (<) (system_us thd_new # statement_times [1999999, 1999999, 2000000] thd_new) \<and>
   list_all2 (\<lambda>h s. uint h \<le> s) [1999999, 1999999, 2000000 :: ulonglong] (statement_times [1999999, 1999999, 2000000] thd_new)"
  by (rule statement_times_increase) (simp_all add: thd_new_def time_valid_def system_us_def us_bound_def)

text \<open>A replicated event without microseconds, after one in the last microsecond of the same second: \<open>++system_time.sec_part\<close> has no carry, and the part of the second is a whole second.\<close>

theorem replicated_part_overflows:
  "start_time_sec_part (set_time_repl SECTIME_NO True 0 0 7 4294967295 (thd_new\<lparr>st_sec := 7, st_sec_part := 999999\<rparr>)) = 1000000 \<and>
   \<not> time_valid (set_time_repl SECTIME_NO True 0 0 7 4294967295 (thd_new\<lparr>st_sec := 7, st_sec_part := 999999\<rparr>))"
  by (simp add: set_time_repl_def thd_new_def TIME_MAX_SECOND_PART_def Let_def time_valid_def)

section \<open>Kills\<close>

lemma killed_no_eq: "killed_no a = killed_no b \<longleftrightarrow> a = b"
  by (cases a; cases b; simp)

fun kill_all :: "bool \<Rightarrow> ('msg \<Rightarrow> 'msg) \<Rightarrow> (killed_state \<times> int \<times> 'msg) list \<Rightarrow> 'msg thd_kill \<Rightarrow> 'msg thd_kill" where
  "kill_all alloc trunc_msg [] k = k"
| "kill_all alloc trunc_msg ((a, no, msg) # rs) k = kill_all alloc trunc_msg rs (set_killed alloc trunc_msg a no msg k)"

lemma kill_all_max:
  "killed_no (killed (kill_all alloc trunc_msg rs k)) = fold max (map (killed_no \<circ> fst) rs) (killed_no (killed k))"
  by (induction alloc trunc_msg rs k rule: kill_all.induct)
    (simp_all add: set_killed_def set_killed_no_mutex_def Let_def max_def)

lemma fold_max_ge: "(m::nat) \<le> fold max xs m \<and> (\<forall>x\<in>set xs. x \<le> fold max xs m) \<and> (fold max xs m = m \<or> fold max xs m \<in> set xs)"
proof (induction xs arbitrary: m)
  case (Cons x xs)
  show ?case using Cons.IH [of "max x m"] by (auto simp: max_def split: if_splits)
qed simp

text \<open>Whatever the order of the requests, the session ends with the strongest of them.\<close>

theorem kill_never_weakened:
  "killed_no (killed k) \<le> killed_no (killed (kill_all alloc trunc_msg rs k)) \<and>
   (\<forall>a\<in>set (map fst rs). killed_no a \<le> killed_no (killed (kill_all alloc trunc_msg rs k))) \<and>
   killed (kill_all alloc trunc_msg rs k) \<in> insert (killed k) (set (map fst rs))"
  using fold_max_ge [of "killed_no (killed k)" "map (killed_no \<circ> fst) rs", folded kill_all_max [of alloc trunc_msg rs k]]
  by (auto simp: killed_no_eq image_iff intro: rev_bexI)

theorem connection_kill_survives_reset:
  assumes "(a, no, msg) \<in> set rs" "killed_no KILL_CONNECTION \<le> killed_no a"
  shows "reset_kill_query f (kill_all alloc trunc_msg rs k) = kill_all alloc trunc_msg rs k"
proof -
  have "killed_no a \<le> killed_no (killed (kill_all alloc trunc_msg rs k))" using kill_never_weakened [of k alloc trunc_msg rs] assms(1) by force
  thus ?thesis using assms(2) by (simp add: reset_kill_query_def)
qed

section \<open>Format of the statement log\<close>

text \<open>Inside a stored function or trigger the format of the statement stays, whatever is asked.\<close>

lemma format_fixed_in_sub_stmt:
  assumes "in_sub_stmt t \<noteq> 0"
  shows "set_current_stmt_binlog_format_row_if_mixed t = t" "reset_current_stmt_binlog_format_row tmp t = t"
  using assms by (simp_all add: set_current_stmt_binlog_format_row_if_mixed_def reset_current_stmt_binlog_format_row_def)

lemma format_after_mixed_statement:
  assumes "in_sub_stmt t = 0" "binlog_format t = BINLOG_FORMAT_MIXED"
  shows "is_current_stmt_binlog_format_row (reset_current_stmt_binlog_format_row tmp (set_current_stmt_binlog_format_row_if_mixed t)) \<longleftrightarrow> tmp"
  using assms by (simp add: set_current_stmt_binlog_format_row_if_mixed_def reset_current_stmt_binlog_format_row_def set_current_stmt_binlog_format_row_def
      set_current_stmt_binlog_format_stmt_def is_current_stmt_binlog_format_row_def)

end
