(* ===== verification/Partition_Info.thy ===== *)
theory Partition_Info imports Prelude "HOL-Library.Monad_Syntax" begin

text \<open>
  \<open>private/partition_info.h\<close> and \<open>private/partition_element.h\<close>: the partitions of a table, their numbers, and the names of new partitions by system time. The list of partitions is the
  sequence of its elements; the comparison of names without regard to case is the parameter \<open>name_eq\<close>. Loops that need not end are partial functions and are proved to return.
\<close>

section \<open>Partitions\<close>

datatype partition_type = NOT_A_PARTITION | RANGE_PARTITION | HASH_PARTITION | LIST_PARTITION | VERSIONING_PARTITION

datatype elem_type_enum = CONVENTIONAL | CURRENT | HISTORY

record partition_element =
  partition_name :: buffer
  el_id :: uint32
  el_type :: elem_type_enum

definition UINT_MAX32 :: uint32 where "UINT_MAX32 = 0xFFFFFFFF"

definition partition_element_init :: "buffer \<Rightarrow> partition_element" where
  "partition_element_init nm = \<lparr>partition_name = nm, el_id = UINT_MAX32, el_type = CONVENTIONAL\<rparr>"

record partition_info =
  partitions :: "partition_element list"
  part_type :: partition_type
  subpart_type :: partition_type
  num_parts :: uint
  num_subparts :: uint
  defined_max_value :: bool
  vers_limit :: ulonglong

definition has_default_partititon :: "partition_info \<Rightarrow> bool" where
  "has_default_partititon p \<longleftrightarrow> part_type p = LIST_PARTITION \<and> defined_max_value p"

definition is_sub_partitioned :: "partition_info \<Rightarrow> bool" where
  "is_sub_partitioned p \<longleftrightarrow> (if subpart_type p = NOT_A_PARTITION then False else True)"

definition get_tot_partitions :: "partition_info \<Rightarrow> uint" where
  "get_tot_partitions p = num_parts p * (if is_sub_partitioned p then num_subparts p else 1)"

definition vers_set_limit :: "ulonglong \<Rightarrow> partition_info \<Rightarrow> bool \<times> partition_info" where
  "vers_set_limit limit p = (limit = 0, p\<lparr>vers_limit := limit\<rparr>)"

definition vers_require_hist_part :: "bool \<Rightarrow> partition_info \<Rightarrow> bool" where
  "vers_require_hist_part history_generating p \<longleftrightarrow> part_type p = VERSIONING_PARTITION \<and> history_generating"

fun get_partition :: "partition_element list \<Rightarrow> uint \<Rightarrow> partition_element option" where
  "get_partition [] part_id = None"
| "get_partition (el # els) part_id = (if el_id el = part_id then Some el else get_partition els part_id)"

fun update_el_ids :: "uint32 \<Rightarrow> partition_element list \<Rightarrow> partition_element list" where
  "update_el_ids i [] = []"
| "update_el_ids i (el # els) =
     (if el_id el = UINT_MAX32 \<or> el_type el = CURRENT
      then if el_type el = CURRENT then el\<lparr>el_id := i\<rparr> # els
           else el\<lparr>el_id := i\<rparr> # update_el_ids (i + 1) els
      else el # update_el_ids (i + 1) els)"

definition vers_update_el_ids :: "partition_info \<Rightarrow> partition_info" where
  "vers_update_el_ids p = p\<lparr>partitions := update_el_ids 0 (partitions p)\<rparr>"

section \<open>Iterators\<close>

record PARTITION_ITERATOR =
  pn_start :: uint
  pn_cur :: uint
  pn_end :: uint
  ret_null_part :: bool
  ret_null_part_orig :: bool
  ret_default_part :: bool
  ret_default_part_orig :: bool

definition init_single_partition_iterator :: "uint32 \<Rightarrow> PARTITION_ITERATOR \<Rightarrow> PARTITION_ITERATOR" where
  "init_single_partition_iterator part_id it =
     it\<lparr>pn_start := part_id, pn_cur := part_id, pn_end := part_id + 1, ret_null_part := False, ret_null_part_orig := False,
        ret_default_part := False, ret_default_part_orig := False\<rparr>"

definition init_all_partitions_iterator :: "partition_info \<Rightarrow> PARTITION_ITERATOR \<Rightarrow> PARTITION_ITERATOR" where
  "init_all_partitions_iterator p it =
     it\<lparr>pn_start := 0, pn_cur := 0, pn_end := num_parts p, ret_null_part := False, ret_null_part_orig := False,
        ret_default_part := False, ret_default_part_orig := False\<rparr>"

section \<open>Names of new partitions\<close>

definition MAX_PART_NAME_SIZE :: nat where "MAX_PART_NAME_SIZE = 8"

text \<open>What \<open>%u\<close> prints.\<close>

fun digits_of :: "nat \<Rightarrow> buffer" where
  "digits_of n = (if n < 10 then [48 + of_nat n] else digits_of (n div 10) @ [48 + of_nat (n mod 10)])"

declare digits_of.simps [simp del]

definition make_partition_name :: "uint \<Rightarrow> buffer option" where
  "make_partition_name i =
     (let s = 112 # digits_of (unat i) in if MAX_PART_NAME_SIZE < length s then None else Some s)"

text \<open>The inner loop: the outer option is whether it ends, the inner one is empty when a name does not fit.\<close>

partial_function (option) next_free ::
  "(buffer \<Rightarrow> buffer \<Rightarrow> bool) \<Rightarrow> partition_element list \<Rightarrow> partition_element list \<Rightarrow> uint32 \<Rightarrow> buffer \<Rightarrow> uint32 option option" where
  "next_free name_eq all els suffix part_name =
     (case els of [] \<Rightarrow> Some (Some suffix)
      | el # rest \<Rightarrow>
          if name_eq (partition_name el) part_name
          then (case make_partition_name (suffix + 1) of
                  None \<Rightarrow> Some None
                | Some s \<Rightarrow> next_free name_eq all all (suffix + 1) s)
          else next_free name_eq all rest suffix part_name)"

partial_function (option) part_loop ::
  "(buffer \<Rightarrow> buffer \<Rightarrow> bool) \<Rightarrow> partition_element list \<Rightarrow> uint \<Rightarrow> uint \<Rightarrow> uint32 \<Rightarrow> uint32 option option" where
  "part_loop name_eq all new_parts cur_part suffix =
     (if cur_part < new_parts
      then (case make_partition_name suffix of
              None \<Rightarrow> Some None
            | Some s \<Rightarrow> do {
                r \<leftarrow> next_free name_eq all all suffix s;
                case r of
                  None \<Rightarrow> Some None
                | Some suffix' \<Rightarrow>
                    part_loop name_eq all new_parts ((if 0 < cur_part \<and> suffix < suffix' then 0 else cur_part) + 1) (suffix' + 1) })
      else Some (Some suffix))"

text \<open>\<open>existing\<close> is the list \<open>table->part_info->partitions\<close>, that of the table before it is altered.\<close>

definition next_part_no :: "(buffer \<Rightarrow> buffer \<Rightarrow> bool) \<Rightarrow> partition_element list \<Rightarrow> partition_info \<Rightarrow> uint \<Rightarrow> uint option" where
  "next_part_no name_eq existing p new_parts =
     (if part_type p \<noteq> VERSIONING_PARTITION then Some (num_parts p)
      else do {
        r \<leftarrow> part_loop name_eq existing new_parts 0 (num_parts p - 1);
        case r of None \<Rightarrow> Some 0 | Some suffix \<Rightarrow> Some (suffix - new_parts) })"

section \<open>Numbers of the partitions\<close>

text \<open>After a partition is put in front of the current one, or when all are new, the numbers are the positions again.\<close>

definition numbered :: "partition_element list \<Rightarrow> bool" where
  "numbered els \<longleftrightarrow> (\<forall>i < length els. el_id (els ! i) = of_nat i)"

lemma update_el_ids_positions:
  assumes "\<forall>j < length hs. el_id (hs ! j) = UINT_MAX32 \<or> el_id (hs ! j) = of_nat (i + j)" "\<forall>h\<in>set hs. el_type h \<noteq> CURRENT" "el_type c = CURRENT"
  shows "length (update_el_ids (of_nat i) (hs @ [c])) = length hs + 1 \<and>
    (\<forall>j \<le> length hs. el_id (update_el_ids (of_nat i) (hs @ [c]) ! j) = of_nat (i + j) \<and>
       partition_name (update_el_ids (of_nat i) (hs @ [c]) ! j) = partition_name ((hs @ [c]) ! j))"
  using assms
proof (induction hs arbitrary: i)
  case Nil
  then show ?case by simp
next
  case (Cons h hs)
  have "\<forall>j < length hs. el_id (hs ! j) = UINT_MAX32 \<or> el_id (hs ! j) = of_nat (Suc i + j)"
    using Cons.prems(1) by (metis Suc_less_eq add_Suc_shift length_Cons nth_Cons_Suc)
  note IH = Cons.IH [OF this] 
  have h: "el_id h = UINT_MAX32 \<or> el_id h = of_nat i" using Cons.prems(1) by force
  have e: "update_el_ids (of_nat i) ((h # hs) @ [c]) = h\<lparr>el_id := of_nat i\<rparr> # update_el_ids (of_nat (Suc i)) (hs @ [c])"
    using h Cons.prems(2) by (auto simp: add.commute)
  show ?case unfolding e using IH Cons.prems(2,3) by (auto simp: nth_Cons split: nat.splits)
qed

text \<open>Whatever new partitions stand among the history, all numbers are positions after the update.\<close>

theorem updated_ids_are_positions:
  assumes "partitions p = hs @ [c]" "el_type c = CURRENT" "\<forall>h\<in>set hs. el_type h \<noteq> CURRENT"
    "\<forall>j < length hs. el_id (hs ! j) = UINT_MAX32 \<or> el_id (hs ! j) = of_nat j"
  shows "numbered (partitions (vers_update_el_ids p)) \<and>
    map partition_name (partitions (vers_update_el_ids p)) = map partition_name (partitions p)"
proof -
  let ?els = "update_el_ids 0 (hs @ [c])"
  have r: "length ?els = length hs + 1" "\<forall>j \<le> length hs. el_id (?els ! j) = of_nat j \<and> partition_name (?els ! j) = partition_name ((hs @ [c]) ! j)"
    using update_el_ids_positions [of hs 0 c] assms by simp_all
  have "map partition_name ?els = map partition_name (hs @ [c])" by (rule nth_equalityI) (use r in \<open>simp_all del: map_append\<close>)
  then show ?thesis using r by (simp add: assms(1) vers_update_el_ids_def numbered_def)
qed

lemma get_partition_position:
  assumes "numbered els" "i < length els" "length els < 2 ^ 32"
  shows "get_partition els (of_nat i) = Some (els ! i)"
proof -
  have "get_partition (drop k els) (of_nat i) = Some (els ! i)" if "k \<le> i" for k
    using that
  proof (induction "i - k" arbitrary: k)
    case 0
    then show ?case using assms by (simp add: numbered_def Cons_nth_drop_Suc [symmetric])
  next
    case (Suc d)
    have "k < length els" using Suc.prems assms(2) Suc.hyps by simp
    moreover have "el_id (els ! k) \<noteq> of_nat i"
      using assms Suc by (auto simp: numbered_def dest!: arg_cong [of _ _ unat] simp: unat_of_nat)
    ultimately show ?case using Suc by (simp add: Cons_nth_drop_Suc [symmetric])
  qed
  from this [of 0] show ?thesis by simp
qed

section \<open>Free names\<close>

lemma digits_length: "0 < k \<Longrightarrow> length (digits_of n) \<le> k \<longleftrightarrow> n < 10 ^ k"
proof (induction n arbitrary: k rule: digits_of.induct)
  case (1 n)
  show ?case
  proof (cases "n < 10")
    case True
    have "(10::nat) ^ 1 \<le> 10 ^ k" using 1(2) by (intro power_increasing) auto
    then show ?thesis using True 1(2) by (simp add: digits_of.simps [of n])
  next
    case False
    show ?thesis
    proof (cases "k = 1")
      case True
      have "0 < length (digits_of (n div 10))" by (subst digits_of.simps) simp
      then show ?thesis using True False by (simp add: digits_of.simps [of n])
    next
      case k: False
      then obtain j where j: "k = Suc j" "0 < j" using 1(2) by (cases k) auto
      have "length (digits_of (n div 10)) \<le> j \<longleftrightarrow> n div 10 < 10 ^ j" using "1.IH" False j(2) by simp
      then show ?thesis using False j by (simp add: digits_of.simps [of n] div_less_iff_less_mult mult.commute)
    qed
  qed
qed

definition name_limit :: nat where "name_limit = 10000000"

lemma make_partition_name_some:
  "make_partition_name i = (if unat i < name_limit then Some (112 # digits_of (unat i)) else None)"
  using digits_length [of 7 "unat i"] by (auto simp: make_partition_name_def MAX_PART_NAME_SIZE_def name_limit_def)

definition free_name :: "(buffer \<Rightarrow> buffer \<Rightarrow> bool) \<Rightarrow> partition_element list \<Rightarrow> nat \<Rightarrow> bool" where
  "free_name name_eq els n \<longleftrightarrow> \<not> (\<exists>el\<in>set els. name_eq (partition_name el) (112 # digits_of n))"

lemma unat_suc: "unat (w :: uint32) < name_limit \<Longrightarrow> unat (w + 1) = unat w + 1"
  by (simp add: name_limit_def unat_word_ariths)

text \<open>The inner loop ends at the first suffix from its start whose name no partition has, if its name fits.\<close>

lemma next_free_first:
  assumes "unat w < name_limit" "\<exists>done. all = done @ els \<and> (\<forall>el\<in>set done. \<not> name_eq (partition_name el) (112 # digits_of (unat w)))"
  shows "\<exists>r. next_free name_eq all els w (112 # digits_of (unat w)) = Some r \<and>
    (case r of None \<Rightarrow> \<forall>n. unat w \<le> n \<and> n < name_limit \<longrightarrow> \<not> free_name name_eq all n
     | Some v \<Rightarrow> unat w \<le> unat v \<and> unat v < name_limit \<and> free_name name_eq all (unat v) \<and>
         (\<forall>n. unat w \<le> n \<and> n < unat v \<longrightarrow> \<not> free_name name_eq all n))"
  using assms
proof (induction "name_limit - unat w" arbitrary: w els rule: less_induct)
  case less
  note later = less(1) and w = less(2)
  have "\<forall>el\<in>set done. \<not> name_eq (partition_name el) (112 # digits_of (unat w)) \<Longrightarrow> all = done @ els \<Longrightarrow> ?case" for "done"
  proof (induction els arbitrary: "done")
    case Nil
    then have "free_name name_eq all (unat w)" by (simp add: free_name_def)
    then show ?case using w by (auto simp: next_free.simps)
  next
    case (Cons el els)
    let ?taken = "name_eq (partition_name el) (112 # digits_of (unat w))"
    show ?case
    proof (cases ?taken)
      case False
      then have "\<forall>e\<in>set (done @ [el]). \<not> name_eq (partition_name e) (112 # digits_of (unat w))" using Cons.prems by simp
      note IH = Cons.IH [OF this]
      have "next_free name_eq all (el # els) w (112 # digits_of (unat w)) = next_free name_eq all els w (112 # digits_of (unat w))"
        using False by (simp add: next_free.simps [of name_eq all "el # els"])
      then show ?thesis using IH Cons.prems(2) by simp
    next
      case True
      have taken: "\<not> free_name name_eq all (unat w)" using True Cons.prems by (auto simp: free_name_def)
      have split: "unat w \<le> n \<longleftrightarrow> n = unat w \<or> unat (w + 1) \<le> n" for n using w by (auto simp: unat_suc)
      show ?thesis
      proof (cases "unat (w + 1) < name_limit")
        case False
        then have "next_free name_eq all (el # els) w (112 # digits_of (unat w)) = Some None"
          using True by (simp add: next_free.simps make_partition_name_some)
        moreover have "n = unat w" if "unat w \<le> n" "n < name_limit" for n using that False w by (simp add: unat_suc)
        ultimately show ?thesis using taken by auto
      next
        case ok: True
        have "next_free name_eq all (el # els) w (112 # digits_of (unat w)) = next_free name_eq all all (w + 1) (112 # digits_of (unat (w + 1)))"
          using True ok by (simp add: next_free.simps [of name_eq all "el # els"] make_partition_name_some)
        moreover obtain r where "next_free name_eq all all (w + 1) (112 # digits_of (unat (w + 1))) = Some r"
          "case r of None \<Rightarrow> \<forall>n. unat (w + 1) \<le> n \<and> n < name_limit \<longrightarrow> \<not> free_name name_eq all n
           | Some v \<Rightarrow> unat (w + 1) \<le> unat v \<and> unat v < name_limit \<and> free_name name_eq all (unat v) \<and>
               (\<forall>n. unat (w + 1) \<le> n \<and> n < unat v \<longrightarrow> \<not> free_name name_eq all n)"
          using later [of "w + 1" all] w ok by (force simp: unat_suc)
        ultimately show ?thesis using taken split by (auto split: option.splits)
      qed
    qed
  qed
  then show ?case using less(3) by blast
qed

text \<open>\<open>new_parts\<close> names in a row are free.\<close>

definition free_run :: "(buffer \<Rightarrow> buffer \<Rightarrow> bool) \<Rightarrow> partition_element list \<Rightarrow> nat \<Rightarrow> nat \<Rightarrow> bool" where
  "free_run name_eq els k n \<longleftrightarrow> n + k \<le> name_limit \<and> (\<forall>i < k. free_name name_eq els (n + i))"

lemma part_loop_first:
  assumes "unat c \<le> unat new_parts" "unat c \<le> unat w" "unat w \<le> name_limit"
    "\<forall>i. unat w - unat c \<le> i \<and> i < unat w \<longrightarrow> free_name name_eq all i"
    "base \<le> unat w - unat c" "\<forall>n. base \<le> n \<and> n < unat w - unat c \<longrightarrow> \<not> free_run name_eq all (unat new_parts) n"
  shows "\<exists>r. part_loop name_eq all new_parts c w = Some r \<and>
    (case r of None \<Rightarrow> \<forall>n. base \<le> n \<longrightarrow> \<not> free_run name_eq all (unat new_parts) n
     | Some v \<Rightarrow> unat new_parts \<le> unat v \<and> base \<le> unat v - unat new_parts \<and> free_run name_eq all (unat new_parts) (unat v - unat new_parts) \<and>
         (\<forall>n. base \<le> n \<and> n < unat v - unat new_parts \<longrightarrow> \<not> free_run name_eq all (unat new_parts) n))"
  using assms
proof (induction "name_limit - unat w" arbitrary: c w rule: less_induct)
  case less
  let ?k = "unat new_parts"
  show ?case
  proof (cases "c < new_parts")
    case False
    then have c: "unat c = ?k" using less.prems(1) by (simp add: word_less_nat_alt)
    have "free_run name_eq all ?k (unat w - ?k)"
      unfolding free_run_def using less.prems(2,3) c by (auto intro!: less.prems(4) [rule_format])
    then show ?thesis using False less.prems c by (simp add: part_loop.simps)
  next
    case c: True
    then have ck: "unat c < ?k" by (simp add: word_less_nat_alt)
    show ?thesis
    proof (cases "unat w < name_limit")
      case False
      then have "part_loop name_eq all new_parts c w = Some None" using c by (simp add: part_loop.simps make_partition_name_some)
      moreover have "\<not> free_run name_eq all ?k n" if "base \<le> n" for n
        using that less.prems(2,3,6) False ck by (cases "n < unat w - unat c") (auto simp: free_run_def)
      ultimately show ?thesis by auto
    next
      case w: True
      obtain r where r: "next_free name_eq all all w (112 # digits_of (unat w)) = Some r"
        "case r of None \<Rightarrow> \<forall>n. unat w \<le> n \<and> n < name_limit \<longrightarrow> \<not> free_name name_eq all n
         | Some v \<Rightarrow> unat w \<le> unat v \<and> unat v < name_limit \<and> free_name name_eq all (unat v) \<and>
             (\<forall>n. unat w \<le> n \<and> n < unat v \<longrightarrow> \<not> free_name name_eq all n)"
        using next_free_first [OF w, of all all name_eq] by force
      text \<open>A run that starts before a taken name and reaches it is none.\<close>
      have none: "\<not> free_run name_eq all ?k n" if "n \<le> m" "m < n + ?k" "\<not> free_name name_eq all m" for n m
        using that by (auto simp: free_run_def intro!: exI [of _ "m - n"])
      show ?thesis
      proof (cases r)
        case None
        then have e: "part_loop name_eq all new_parts c w = Some None" using c w r(1) by (simp add: part_loop.simps make_partition_name_some)
        have nf: "\<not> free_name name_eq all m" if "unat w \<le> m" "m < name_limit" for m using r(2) None that by simp
        have "\<not> free_run name_eq all ?k n" if "base \<le> n" for n
        proof (cases "n < unat w - unat c")
          case True
          then show ?thesis using less.prems(6) that by simp
        next
          case False
          then show ?thesis
            using none [of n "max n (unat w)"] nf [of "max n (unat w)"] ck w less.prems(2)
            by (cases "max n (unat w) < name_limit") (auto simp: free_run_def max_def split: if_splits)
        qed
        then show ?thesis using e by auto
      next
        case (Some v)
        let ?c = "(if 0 < c \<and> w < v then 0 else c) + 1"
        have v: "unat w \<le> unat v" "unat v < name_limit" "free_name name_eq all (unat v)"
          "\<And>n. unat w \<le> n \<Longrightarrow> n < unat v \<Longrightarrow> \<not> free_name name_eq all n" using r(2) Some by auto
        have e: "part_loop name_eq all new_parts c w = part_loop name_eq all new_parts ?c (v + 1)"
          using c w r(1) Some by (simp add: part_loop.simps [of name_eq all new_parts c w] make_partition_name_some)
        have c1: "unat (c + 1) = unat c + 1" using ck unat_less_length [of new_parts] by (simp add: unat_word_ariths)
        have uc: "unat ?c = (if 0 < c \<and> w < v then 0 else unat c) + 1"
          by (simp add: c1)
        have uv: "unat (v + 1) = unat v + 1" using v(2) by (rule unat_suc)
        show ?thesis unfolding e
        proof (rule less.hyps)
          show "name_limit - unat (v + 1) < name_limit - unat w" using uv v(1,2) by simp
          show "unat ?c \<le> ?k" using uc ck by simp
          show "unat ?c \<le> unat (v + 1)" using uc uv v(1) less.prems(2) by simp
          show "unat (v + 1) \<le> name_limit" using uv v(2) by simp
          show "\<forall>i. unat (v + 1) - unat ?c \<le> i \<and> i < unat (v + 1) \<longrightarrow> free_name name_eq all i"
            using less.prems(2,4) v(1,3) by (auto simp: c1 uv word_less_nat_alt not_less less_Suc_eq split: if_splits)
          show "base \<le> unat (v + 1) - unat ?c"
            using less.prems(5) v(1) by (auto simp: c1 uv)
          show "\<forall>n. base \<le> n \<and> n < unat (v + 1) - unat ?c \<longrightarrow> \<not> free_run name_eq all ?k n"
          proof (intro allI impI)
            fix n assume n: "base \<le> n \<and> n < unat (v + 1) - unat ?c"
            show "\<not> free_run name_eq all ?k n"
            proof (cases "n < unat w - unat c")
              case True
              then show ?thesis using less.prems(6) n by simp
            next
              case False
              have "unat w < unat v" using False n v(1) less.prems(2) by (auto simp: c1 uv word_less_nat_alt split: if_splits)
              then show ?thesis
                using none [of n "max n (unat w)"] v(4) [of "max n (unat w)"] False n ck less.prems(2)
                by (cases "n \<le> unat w") (auto simp: c1 uv max_def word_less_nat_alt split: if_splits)
            qed
          qed
        qed
      qed
    qed
  qed
qed


text \<open>C14: Unless no names in a row fit, the new partitions of a table by system time get the first free suffixes in a row from the number of the partitions less one on, whatever names are taken; the search ends
  for every list of names and comparison, and returns zero exactly when there are none.\<close>

theorem next_part_no_first_free:
  assumes "part_type p = VERSIONING_PARTITION" "1 < num_parts p" "unat (num_parts p - 1) \<le> name_limit"
  shows "\<exists>r. next_part_no name_eq existing p new_parts = Some r \<and>
    (if r = 0 then \<forall>n. unat (num_parts p - 1) \<le> n \<longrightarrow> \<not> free_run name_eq existing (unat new_parts) n
     else unat (num_parts p - 1) \<le> unat r \<and> free_run name_eq existing (unat new_parts) (unat r) \<and>
       (\<forall>n. unat (num_parts p - 1) \<le> n \<and> n < unat r \<longrightarrow> \<not> free_run name_eq existing (unat new_parts) n))"
proof -
  let ?base = "unat (num_parts p - 1)"
  have base: "0 < ?base" using assms(2) by (simp add: word_less_nat_alt unat_sub word_le_nat_alt)
  have "\<exists>r. part_loop name_eq existing new_parts 0 (num_parts p - 1) = Some r \<and>
    (case r of None \<Rightarrow> \<forall>n. ?base \<le> n \<longrightarrow> \<not> free_run name_eq existing (unat new_parts) n
     | Some v \<Rightarrow> unat new_parts \<le> unat v \<and> ?base \<le> unat v - unat new_parts \<and> free_run name_eq existing (unat new_parts) (unat v - unat new_parts) \<and>
         (\<forall>n. ?base \<le> n \<and> n < unat v - unat new_parts \<longrightarrow> \<not> free_run name_eq existing (unat new_parts) n))"
    by (rule part_loop_first) (use assms(3) in auto)
  then obtain r where r: "part_loop name_eq existing new_parts 0 (num_parts p - 1) = Some r"
    "case r of None \<Rightarrow> \<forall>n. ?base \<le> n \<longrightarrow> \<not> free_run name_eq existing (unat new_parts) n
     | Some v \<Rightarrow> unat new_parts \<le> unat v \<and> ?base \<le> unat v - unat new_parts \<and> free_run name_eq existing (unat new_parts) (unat v - unat new_parts) \<and>
         (\<forall>n. ?base \<le> n \<and> n < unat v - unat new_parts \<longrightarrow> \<not> free_run name_eq existing (unat new_parts) n)"
    by blast
  show ?thesis
  proof (cases r)
    case None
    then show ?thesis using r assms(1) by (simp add: next_part_no_def)
  next
    case (Some v)
    then have d: "unat (v - new_parts) = unat v - unat new_parts" using r(2) by (simp add: unat_sub word_le_nat_alt)
    then have "v - new_parts \<noteq> 0" using r(2) Some base by (auto simp: unat_eq_0 [symmetric])
    then show ?thesis using r Some assms(1) d by (simp add: next_part_no_def)
  qed
qed

definition named :: "nat list \<Rightarrow> partition_info" where
  "named ns = \<lparr>partitions = map (\<lambda>n. partition_element_init (112 # digits_of n)) ns, part_type = VERSIONING_PARTITION,
     subpart_type = NOT_A_PARTITION, num_parts = of_nat (length ns), num_subparts = 0, defined_max_value = False, vers_limit = 0\<rparr>"

theorem next_part_no_first_free_witness:
  "\<exists>r. next_part_no (=) (partitions (named [0, 1, 4])) (named [0, 1, 4]) 2 = Some r \<and> r \<noteq> 0"
proof -
  have free: "free_run (=) (partitions (named [0, 1, 4])) 2 2"
    by (simp add: free_run_def free_name_def named_def partition_element_init_def name_limit_def digits_of.simps less_2_cases_iff)
  show ?thesis
    using next_part_no_first_free [of "named [0, 1, 4]" "(=)" "partitions (named [0, 1, 4])" 2] free
    by (auto simp: named_def name_limit_def split: if_splits)
qed

end
