(* ===== verification/Profile_Queue.thy ===== *)
theory Profile_Queue imports Prelude "HOL-Library.Monad_Syntax" begin

text \<open>
  \<open>private/sql_profile.h\<close>, class \<open>Queue<T>\<close>: the queue of the statement profiles of a session, a doubly linked list of items it allocates. The heap holds the items of the queue;
  an access to an item that is not allocated, or through a null pointer, is \<open>None\<close>. What \<open>my_malloc\<close> returns is an argument, the address and the old contents or nothing.
\<close>

section \<open>Items\<close>

record 'a queue_item =
  payload :: 'a
  qi_next :: "nat option"
  qi_previous :: "nat option"

record 'a Queue =
  q_first :: "nat option"
  q_last :: "nat option"
  elements :: ulong
  items :: "nat \<rightharpoonup> 'a queue_item"

definition queue_init :: "'a Queue" where
  "queue_init = \<lparr>q_first = None, q_last = None, elements = 0, items = Map.empty\<rparr>"

definition get_item :: "'a Queue \<Rightarrow> nat option \<Rightarrow> 'a queue_item option" where
  "get_item q p = Option.bind p (items q)"

definition put_item :: "nat option \<Rightarrow> ('a queue_item \<Rightarrow> 'a queue_item) \<Rightarrow> 'a Queue \<Rightarrow> 'a Queue option" where
  "put_item p f q = do { a \<leftarrow> p; x \<leftarrow> items q a; Some (q\<lparr>items := (items q)(a \<mapsto> f x)\<rparr>) }"

definition free_item :: "nat \<Rightarrow> 'a Queue \<Rightarrow> 'a Queue option" where
  "free_item a q = (case items q a of None \<Rightarrow> None | Some _ \<Rightarrow> Some (q\<lparr>items := (items q)(a := None)\<rparr>))"

section \<open>Operations\<close>

text \<open>The loop of \<open>empty\<close>.\<close>

partial_function (option) free_items :: "nat option \<Rightarrow> 'a Queue \<Rightarrow> 'a Queue option" where
  "free_items i q =
     (case i of None \<Rightarrow> Some q
      | Some a \<Rightarrow> do { x \<leftarrow> get_item q i; q \<leftarrow> free_item a q; free_items (qi_next x) q })"

definition queue_empty :: "'a Queue \<Rightarrow> 'a Queue option" where
  "queue_empty q = do { q \<leftarrow> free_items (q_first q) q; Some (q\<lparr>elements := 0\<rparr>) }"

definition queue_push_back :: "(nat \<times> 'a queue_item) option \<Rightarrow> 'a \<Rightarrow> 'a Queue \<Rightarrow> 'a Queue option" where
  "queue_push_back malloc v q = do {
     (new_item, old) \<leftarrow> malloc;
     let q = q\<lparr>items := (items q)(new_item \<mapsto> old\<lparr>payload := v\<rparr>)\<rparr>;
     let q = (if q_first q = None then q\<lparr>q_first := Some new_item\<rparr> else q);
     q \<leftarrow> (if q_last q \<noteq> None then put_item (q_last q) (\<lambda>x. x\<lparr>qi_next := Some new_item\<rparr>) q else Some q);
     q \<leftarrow> put_item (Some new_item) (\<lambda>x. x\<lparr>qi_previous := q_last q, qi_next := None\<rparr>) q;
     Some (q\<lparr>q_last := Some new_item, elements := elements q + 1\<rparr>) }"

definition queue_pop :: "'a Queue \<Rightarrow> ('a option \<times> 'a Queue) option" where
  "queue_pop q =
     (case q_first q of None \<Rightarrow> Some (None, q)
      | Some old_item \<Rightarrow> do {
          x \<leftarrow> items q old_item;
          q \<leftarrow> (if qi_next x \<noteq> None then put_item (qi_next x) (\<lambda>y. y\<lparr>qi_previous := None\<rparr>) q
                else Some (q\<lparr>q_last := None\<rparr>));
          let q = q\<lparr>q_first := qi_next x\<rparr>;
          q \<leftarrow> free_item old_item q;
          Some (Some (payload x), q\<lparr>elements := elements q - 1\<rparr>) })"

definition queue_is_empty :: "'a Queue \<Rightarrow> bool" where
  "queue_is_empty q \<longleftrightarrow> elements q = 0"

definition new_iterator :: "'a Queue \<Rightarrow> nat option" where
  "new_iterator q = q_first q"

definition iterator_next :: "'a Queue \<Rightarrow> nat option \<Rightarrow> nat option option" where
  "iterator_next q current = map_option qi_next (get_item q current)"

definition iterator_value :: "'a Queue \<Rightarrow> nat option \<Rightarrow> 'a option" where
  "iterator_value q current = map_option payload (get_item q current)"

section \<open>The sequence of the items\<close>

definition item_at :: "(nat \<times> 'a) list \<Rightarrow> nat \<Rightarrow> 'a queue_item" where
  "item_at xs i = \<lparr>payload = snd (xs ! i), qi_next = (if Suc i < length xs then Some (fst (xs ! Suc i)) else None),
     qi_previous = (case i of 0 \<Rightarrow> None | Suc j \<Rightarrow> Some (fst (xs ! j)))\<rparr>"

definition queue_ok :: "'a Queue \<Rightarrow> (nat \<times> 'a) list \<Rightarrow> bool" where
  "queue_ok q xs \<longleftrightarrow>
     distinct (map fst xs) \<and> length xs < 2 ^ 32 \<and> elements q = of_nat (length xs) \<and>
     q_first q = (case xs of [] \<Rightarrow> None | x # _ \<Rightarrow> Some (fst x)) \<and>
     q_last q = (if xs = [] then None else Some (fst (List.last xs))) \<and>
     dom (items q) = fst ` set xs \<and> (\<forall>i < length xs. items q (fst (xs ! i)) = Some (item_at xs i))"

lemma queue_init_ok: "queue_ok queue_init []"
  by (simp add: queue_ok_def queue_init_def)

lemma fst_nth_eq: "distinct (map fst xs) \<Longrightarrow> i < length xs \<Longrightarrow> j < length xs \<Longrightarrow> fst (xs ! i) = fst (xs ! j) \<longleftrightarrow> i = j"
  by (metis length_map nth_eq_iff_index_eq nth_map)

lemma queue_push_back_ok:
  assumes ok: "queue_ok q xs" and new: "a \<notin> dom (items q)" and len: "length xs + 1 < 2 ^ 32"
  shows "\<exists>q'. queue_push_back (Some (a, old)) v q = Some q' \<and> queue_ok q' (xs @ [(a, v)])"
proof (cases xs rule: rev_cases)
  case Nil
  then show ?thesis using ok new
    by (auto simp: queue_ok_def queue_push_back_def put_item_def item_at_def dom_def)
next
  case (snoc ys b)
  let ?n = "length ys"
  have ne: "xs \<noteq> []" "length xs = Suc ?n" "List.last xs = b" using snoc by simp_all
  have d: "distinct (map fst xs)" "length xs = Suc ?n" and l: "q_last q = Some (fst b)"
    and e: "elements q = of_nat (length xs)" and dom: "dom (items q) = fst ` set xs"
    and it: "\<And>i. i < length xs \<Longrightarrow> items q (fst (xs ! i)) = Some (item_at xs i)"
    using ok ne unfolding queue_ok_def by auto
  have f: "q_first q = Some (fst (xs ! 0))" using ok ne(1) unfolding queue_ok_def by (cases xs) simp_all
  have b: "b = xs ! ?n" using snoc by simp
  have ib: "items q (fst b) = Some (item_at xs ?n)" using it [of ?n] b d(2) by simp
  have ab: "a \<noteq> fst b" using new ib by auto
  let ?x = "(item_at xs ?n)\<lparr>qi_next := Some a\<rparr>" and ?y = "old\<lparr>payload := v, qi_previous := Some (fst b), qi_next := None\<rparr>"
  let ?q = "q\<lparr>items := (items q)(a \<mapsto> ?y, fst b \<mapsto> ?x), q_last := Some a, elements := elements q + 1\<rparr>"
  have r: "queue_push_back (Some (a, old)) v q = Some ?q"
    using f l ib ab by (simp add: queue_push_back_def put_item_def fun_upd_twist)
  have at: "items ?q (fst ((xs @ [(a, v)]) ! i)) = Some (item_at (xs @ [(a, v)]) i)" if i: "i < length (xs @ [(a, v)])" for i
  proof (cases "i < length xs")
    case False
    then have "i = Suc ?n" using i d(2) by simp
    then show ?thesis using ab b d(2) by (cases old) (simp add: item_at_def nth_append)
  next
    case True
    have na: "fst (xs ! i) \<noteq> a" using it [OF True] new by auto
    show ?thesis
    proof (cases "i = ?n")
      case True
      then show ?thesis using b d(2) by (cases ?n) (auto simp: item_at_def nth_append)
    next
      case False
      then have "fst (xs ! i) \<noteq> fst b" using fst_nth_eq [OF d(1), of i ?n] \<open>i < length xs\<close> d(2) b by simp
      moreover have "item_at (xs @ [(a, v)]) i = item_at xs i"
        using False \<open>i < length xs\<close> d(2) by (cases i) (auto simp: item_at_def nth_append)
      ultimately show ?thesis using na it [OF \<open>i < length xs\<close>] \<open>i < length xs\<close> by (simp add: nth_append)
    qed
  qed
  have hd: "(case xs @ [(a, v)] of [] \<Rightarrow> None | x # _ \<Rightarrow> Some (fst x)) = Some (fst (xs ! 0))" using ne(1) by (cases xs) simp_all
  have "a \<notin> fst ` set xs" using new dom by simp
  moreover have "dom (items ?q) = fst ` set (xs @ [(a, v)])" using dom snoc by auto
  ultimately have "queue_ok ?q (xs @ [(a, v)])"
    unfolding queue_ok_def hd using at d len e f ne by simp
  with r show ?thesis by blast
qed

lemma queue_pop_ok:
  assumes ok: "queue_ok q ((a, v) # xs)"
  shows "\<exists>q'. queue_pop q = Some (Some v, q') \<and> queue_ok q' xs"
proof -
  let ?xs = "(a, v) # xs"
  have d: "distinct (map fst xs)" "a \<notin> fst ` set xs" and f: "q_first q = Some a" and l: "q_last q = Some (fst (List.last ?xs))"
    and e: "elements q = of_nat (length xs) + 1" and dom: "dom (items q) = insert a (fst ` set xs)" and len: "length ?xs < 2 ^ 32"
    and it: "\<And>i. i < length ?xs \<Longrightarrow> items q (fst (?xs ! i)) = Some (item_at ?xs i)"
    using ok unfolding queue_ok_def by (auto simp: add.commute)
  have ia: "items q a = Some (item_at ?xs 0)" using it [of 0] by simp
  show ?thesis
  proof (cases xs)
    case Nil
    have "(items q)(a := None) = Map.empty" by (rule ext) (use dom Nil in \<open>auto simp: domIff\<close>)
    then show ?thesis using Nil f ia e l by (simp add: queue_pop_def item_at_def free_item_def queue_ok_def)
  next
    case (Cons b ys)
    have ib: "items q (fst b) = Some (item_at ?xs 1)" using it [of 1] Cons by simp
    have ab: "fst b \<noteq> a" using d(2) Cons by auto
    let ?q = "q\<lparr>items := (items q)(fst b \<mapsto> (item_at ?xs 1)\<lparr>qi_previous := None\<rparr>, a := None), q_first := Some (fst b), elements := elements q - 1\<rparr>"
    have r: "queue_pop q = Some (Some v, ?q)"
      using f ia ib ab Cons by (simp add: queue_pop_def put_item_def free_item_def) (simp add: item_at_def)
    have "items ?q (fst (xs ! i)) = Some (item_at xs i)" if i: "i < length xs" for i
    proof (cases i)
      case 0
      then show ?thesis using ab Cons by (simp add: item_at_def)
    next
      case (Suc j)
      have "fst (xs ! i) \<noteq> fst b" using fst_nth_eq [OF d(1), of i 0] i Suc Cons by simp
      moreover have "fst (xs ! i) \<noteq> a" using d(2) i by force
      ultimately show ?thesis using it [of "Suc i"] i Suc by (simp add: item_at_def)
    qed
    moreover have "dom (items ?q) = fst ` set xs" using dom d(2) Cons by auto
    ultimately have "queue_ok ?q xs" using d len e l Cons unfolding queue_ok_def by simp
    with r show ?thesis by blast
  qed
qed

lemma queue_pop_none: "queue_ok q [] \<Longrightarrow> queue_pop q = Some (None, q)"
  by (simp add: queue_pop_def queue_ok_def)

section \<open>Runs\<close>

datatype 'a queue_op = Push nat "'a queue_item" 'a | Pop

fun run_queue :: "'a queue_op list \<Rightarrow> 'a Queue \<Rightarrow> ('a option list \<times> 'a Queue) option" where
  "run_queue [] q = Some ([], q)"
| "run_queue (Push a old v # ops) q = do { q \<leftarrow> queue_push_back (Some (a, old)) v q; run_queue ops q }"
| "run_queue (Pop # ops) q = do { (r, q) \<leftarrow> queue_pop q; (rs, q) \<leftarrow> run_queue ops q; Some (r # rs, q) }"

text \<open>The operations on a list; a new item must not be one that is in use.\<close>

fun list_run :: "'a queue_op list \<Rightarrow> (nat \<times> 'a) list \<Rightarrow> ('a option list \<times> (nat \<times> 'a) list) option" where
  "list_run [] xs = Some ([], xs)"
| "list_run (Push a old v # ops) xs = (if a \<in> fst ` set xs \<or> \<not> length xs + 1 < 2 ^ 32 then None else list_run ops (xs @ [(a, v)]))"
| "list_run (Pop # ops) [] = map_option (\<lambda>(rs, ys). (None # rs, ys)) (list_run ops [])"
| "list_run (Pop # ops) ((a, v) # xs) = map_option (\<lambda>(rs, ys). (Some v # rs, ys)) (list_run ops xs)"

lemma run_queue_refines:
  "queue_ok q xs \<Longrightarrow> list_run ops xs = Some (rs, ys) \<Longrightarrow> \<exists>q'. run_queue ops q = Some (rs, q') \<and> queue_ok q' ys"
proof (induction ops xs arbitrary: q rs rule: list_run.induct)
  case (2 a old v ops xs)
  have a: "a \<notin> dom (items q)" "length xs + 1 < 2 ^ 32" using 2(2,3) by (auto simp: queue_ok_def split: if_splits)
  obtain q' where q': "queue_push_back (Some (a, old)) v q = Some q'" "queue_ok q' (xs @ [(a, v)])" using queue_push_back_ok [OF 2(2) a] by blast
  then show ?case using 2 by (auto split: if_splits)
next
  case (3 ops)
  then show ?case by (fastforce simp: queue_pop_none)
next
  case (4 ops a v xs)
  obtain q' where q': "queue_pop q = Some (Some v, q')" "queue_ok q' xs" using queue_pop_ok [OF 4(2)] by blast
  then show ?case using 4(1,3) by fastforce
qed auto

lemma free_items_ok:
  assumes "\<forall>i < length xs. items q (fst (xs ! i)) = Some (X i) \<and> qi_next (X i) = (if Suc i < length xs then Some (fst (xs ! Suc i)) else None)"
    "distinct (map fst xs)"
  shows "free_items (case xs of [] \<Rightarrow> None | x # _ \<Rightarrow> Some (fst x)) q = Some (q\<lparr>items := (items q) |` (- fst ` set xs)\<rparr>)"
  using assms
proof (induction xs arbitrary: q X)
  case Nil
  then show ?case by (simp add: free_items.simps)
next
  case (Cons x xs)
  have x: "items q (fst x) = Some (X 0)" "qi_next (X 0) = (case xs of [] \<Rightarrow> None | x # _ \<Rightarrow> Some (fst x))"
    using Cons.prems(1) by (auto dest!: spec [of _ 0] split: list.splits)
  let ?q = "q\<lparr>items := (items q)(fst x := None)\<rparr>"
  have "\<forall>i < length xs. items ?q (fst (xs ! i)) = Some (X (Suc i)) \<and> qi_next (X (Suc i)) = (if Suc i < length xs then Some (fst (xs ! Suc i)) else None)"
  proof (intro allI impI)
    fix i assume i: "i < length xs"
    then have "fst (xs ! i) \<in> fst ` set xs" by simp
    then have "fst (xs ! i) \<noteq> fst x" using Cons.prems(2) by (metis distinct.simps(2) list.simps(9) set_map)
    then show "items ?q (fst (xs ! i)) = Some (X (Suc i)) \<and> qi_next (X (Suc i)) = (if Suc i < length xs then Some (fst (xs ! Suc i)) else None)"
      using Cons.prems(1) [rule_format, of "Suc i"] i by simp
  qed
  moreover have "distinct (map fst xs)" using Cons.prems(2) by simp
  ultimately have r: "free_items (qi_next (X 0)) ?q = Some (?q\<lparr>items := (items ?q) |` (- fst ` set xs)\<rparr>)" unfolding x(2) by (rule Cons.IH)
  have u: "(items ?q) |` (- fst ` set xs) = (items q) |` (- fst ` set (x # xs))"
    by (rule ext) (simp add: restrict_map_def)
  have "free_items (Some (fst x)) q = free_items (qi_next (X 0)) ?q"
    using x(1) by (simp add: free_items.simps [of "Some (fst x)"] get_item_def free_item_def)
  then show ?case unfolding r u by simp
qed

text \<open>\<open>empty\<close> frees all items and sets the counter, but the pointers keep their values.\<close>

lemma queue_empty_ok:
  assumes "queue_ok q xs"
  shows "queue_empty q = Some (q\<lparr>items := Map.empty, elements := 0\<rparr>)"
proof -
  have o: "distinct (map fst xs)" "dom (items q) = fst ` set xs" "\<forall>i < length xs. items q (fst (xs ! i)) = Some (item_at xs i)"
    "q_first q = (case xs of [] \<Rightarrow> None | x # _ \<Rightarrow> Some (fst x))"
    using assms unfolding queue_ok_def by auto
  have "(items q) |` (- dom (items q)) = Map.empty" by (rule ext) (auto simp: restrict_map_def)
  moreover have "\<forall>i < length xs. items q (fst (xs ! i)) = Some (item_at xs i) \<and>
     qi_next (item_at xs i) = (if Suc i < length xs then Some (fst (xs ! Suc i)) else None)"
    using o(3) by (simp add: item_at_def)
  from free_items_ok [OF this o(1)] have "free_items (q_first q) q = Some (q\<lparr>items := (items q) |` (- fst ` set xs)\<rparr>)" unfolding o(4) .
  ultimately show ?thesis using o(2) by (simp add: queue_empty_def)
qed

text \<open>C18: From an empty queue, any pushes and pops give what the same operations give on a list, the items that stay allocated are those of the list, and no freed item or null pointer is used. Emptying
  the queue frees all items, but a queue that had elements cannot be used again: the next push writes to a freed item, unless the allocator returns the same address, and the next pop reads one.\<close>

theorem profile_queue_fifo:
  assumes "list_run ops [] = Some (rs, xs)"
  shows "\<exists>q. run_queue ops queue_init = Some (rs, q) \<and> dom (items q) = fst ` set xs \<and> (queue_is_empty q \<longleftrightarrow> xs = []) \<and>
    (\<exists>e. queue_empty q = Some e \<and> items e = Map.empty \<and> queue_is_empty e \<and>
      (xs \<noteq> [] \<longrightarrow> queue_pop e = None \<and> (\<forall>a old v. a \<noteq> fst (List.last xs) \<longrightarrow> queue_push_back (Some (a, old)) v e = None)))"
proof -
  obtain q where q: "run_queue ops queue_init = Some (rs, q)" "queue_ok q xs"
    using run_queue_refines [OF queue_init_ok assms] by blast
  let ?e = "q\<lparr>items := Map.empty, elements := 0\<rparr>"
  have e: "queue_empty q = Some ?e" by (rule queue_empty_ok [OF q(2)])
  have "queue_is_empty q \<longleftrightarrow> xs = []"
  proof -
    have "unat (elements q) = length xs" using q(2) by (simp add: queue_ok_def unat_of_nat)
    then show ?thesis by (auto simp: queue_is_empty_def unat_eq_0 [symmetric] simp flip: unat_eq_0)
  qed
  moreover have "queue_pop ?e = None \<and> (\<forall>a old v. a \<noteq> fst (List.last xs) \<longrightarrow> queue_push_back (Some (a, old)) v ?e = None)" if "xs \<noteq> []"
  proof -
    have "q_first q \<noteq> None" "q_last q = Some (fst (List.last xs))" using q(2) that by (auto simp: queue_ok_def split: list.splits)
    then show ?thesis by (auto simp: queue_pop_def queue_push_back_def put_item_def)
  qed
  ultimately show ?thesis using q e by (auto simp: queue_ok_def queue_is_empty_def)
qed

definition some_item :: "nat queue_item" where
  "some_item = \<lparr>payload = 0, qi_next = Some 9, qi_previous = Some 9\<rparr>"

theorem profile_queue_fifo_witness:
  "\<exists>q. run_queue [Push 10 some_item 7, Push 20 some_item 8, Pop, Push 10 some_item 9] queue_init = Some ([Some 7], q) \<and> dom (items q) = {10, 20}"
  using profile_queue_fifo [of "[Push 10 some_item 7, Push 20 some_item 8, Pop, Push 10 some_item 9]" "[Some 7]" "[(20, 8), (10, 9)]"]
  by auto

text \<open>When the memory is out, the new item is written through a null pointer.\<close>

theorem push_without_memory: "queue_push_back None v q = None"
  by (simp add: queue_push_back_def)

end
