(* ===== verification/Join_Buffer.thy ===== *)
theory Join_Buffer imports Byte_Order begin

text \<open>
  \<open>private/sql_join_cache.h\<close>, the inline members of \<open>JOIN_CACHE\<close>, \<open>JOIN_CACHE_HASHED\<close>, \<open>JOIN_CACHE_BKA\<close> and \<open>JOIN_CACHE_BKAH\<close>: the offsets stored in a join buffer, by which records refer to records and keys to keys, and
  the space that remains. Pointers are positions in the memory \<open>mem\<close>. Offsets to the back from a hash table that would leave the memory are \<open>None\<close>.
\<close>

section \<open>Offsets\<close>

definition offset_size :: "size_t \<Rightarrow> uint" where
  "offset_size len = (if len < 256 then 1 else if len < 256 * 256 then 2 else 4)"

definition get_offset :: "uint \<Rightarrow> buffer \<Rightarrow> nat \<Rightarrow> ulong" where
  "get_offset ofs_sz M ptr =
     (if ofs_sz = 1 then ucast (M ! ptr)
      else if ofs_sz = 2 then ucast (uint2korr M ptr)
      else if ofs_sz = 4 then uint4korr M ptr
      else 0)"

definition store_offset :: "uint \<Rightarrow> buffer \<Rightarrow> nat \<Rightarrow> ulong \<Rightarrow> buffer" where
  "store_offset ofs_sz M ptr ofs =
     (if ofs_sz = 1 then M[ptr := ucast ofs]
      else if ofs_sz = 2 then int2store M ptr (ucast (ucast ofs :: uint16))
      else if ofs_sz = 4 then int4store M ptr (ucast ofs)
      else M)"

section \<open>The caches\<close>

record JOIN_CACHE =
  mem :: buffer
  buff :: nat
  buff_size :: size_t
  aux_buff_size :: size_t
  end_pos :: nat
  size_of_rec_ofs :: uint
  size_of_rec_len :: uint
  size_of_fld_ofs :: uint
  base_prefix_length :: uint
  curr_rec_pos :: nat
  last_rec_pos :: nat
  last_rec_blob_data_is_in_rec_buff :: bool
  curr_rec_link :: "nat option"

definition get_rec_ref :: "('a) JOIN_CACHE_scheme \<Rightarrow> nat \<Rightarrow> nat" where
  "get_rec_ref c ptr = buff c + unat (get_offset (size_of_rec_ofs c) (mem c) (ptr - unat (size_of_rec_ofs c)))"

definition get_rec_length :: "('a) JOIN_CACHE_scheme \<Rightarrow> nat \<Rightarrow> ulong" where
  "get_rec_length c ptr = get_offset (size_of_rec_len c) (mem c) ptr"

definition get_fld_offset :: "('a) JOIN_CACHE_scheme \<Rightarrow> nat \<Rightarrow> ulong" where
  "get_fld_offset c ptr = get_offset (size_of_fld_ofs c) (mem c) ptr"

definition store_rec_ref :: "nat \<Rightarrow> nat \<Rightarrow> ('a) JOIN_CACHE_scheme \<Rightarrow> ('a) JOIN_CACHE_scheme" where
  "store_rec_ref ptr ref c =
     c\<lparr>mem := store_offset (size_of_rec_ofs c) (mem c) (ptr - unat (size_of_rec_ofs c)) (word_of_int (int ref - int (buff c)))\<rparr>"

definition store_rec_length :: "nat \<Rightarrow> ulong \<Rightarrow> ('a) JOIN_CACHE_scheme \<Rightarrow> ('a) JOIN_CACHE_scheme" where
  "store_rec_length ptr len c = c\<lparr>mem := store_offset (size_of_rec_len c) (mem c) ptr len\<rparr>"

definition store_fld_offset :: "nat \<Rightarrow> ulong \<Rightarrow> ('a) JOIN_CACHE_scheme \<Rightarrow> ('a) JOIN_CACHE_scheme" where
  "store_fld_offset ptr ofs c = c\<lparr>mem := store_offset (size_of_fld_ofs c) (mem c) ptr ofs\<rparr>"

text \<open>The difference of the pointers becomes unsigned when the sizes are subtracted.\<close>

definition rem_space :: "('a) JOIN_CACHE_scheme \<Rightarrow> size_t" where
  "rem_space c = max (buff_size c - word_of_int (int (end_pos c) - int (buff c)) - aux_buff_size c) 0"

definition blob_data_is_in_rec_buff :: "('a) JOIN_CACHE_scheme \<Rightarrow> nat \<Rightarrow> bool" where
  "blob_data_is_in_rec_buff c rec_ptr \<longleftrightarrow> rec_ptr = last_rec_pos c \<and> last_rec_blob_data_is_in_rec_buff c"

definition get_curr_rec_link :: "('a) JOIN_CACHE_scheme \<Rightarrow> nat" where
  "get_curr_rec_link c = (case curr_rec_link c of Some l \<Rightarrow> l | None \<Rightarrow> curr_rec_pos c)"

record JOIN_CACHE_HASHED = JOIN_CACHE +
  size_of_key_ofs :: uint
  key_entry_length :: uint
  hash_table :: nat
  curr_key_entry :: nat
  last_key_entry :: nat
  data_fields_offset :: uint

definition get_next_key_ref :: "JOIN_CACHE_HASHED \<Rightarrow> nat \<Rightarrow> nat option" where
  "get_next_key_ref c key_ref_ptr =
     (let ofs = unat (get_offset (size_of_key_ofs c) (mem c) key_ref_ptr)
      in if ofs \<le> hash_table c then Some (hash_table c - ofs) else None)"

definition store_next_key_ref :: "nat \<Rightarrow> nat \<Rightarrow> JOIN_CACHE_HASHED \<Rightarrow> JOIN_CACHE_HASHED" where
  "store_next_key_ref key_ref_ptr ref c =
     c\<lparr>mem := store_offset (size_of_key_ofs c) (mem c) key_ref_ptr (word_of_int (int (hash_table c) - int ref))\<rparr>"

definition is_null_key_ref :: "JOIN_CACHE_HASHED \<Rightarrow> nat \<Rightarrow> bool" where
  "is_null_key_ref c key_ref_ptr \<longleftrightarrow>
     memcmp (take (unat (size_of_key_ofs c)) (drop key_ref_ptr (mem c))) (replicate (unat (size_of_key_ofs c)) 0) = 0"

definition store_null_key_ref :: "nat \<Rightarrow> JOIN_CACHE_HASHED \<Rightarrow> JOIN_CACHE_HASHED" where
  "store_null_key_ref key_ref_ptr c = c\<lparr>mem := store_offset (size_of_key_ofs c) (mem c) key_ref_ptr 0\<rparr>"

definition get_next_rec_ref :: "JOIN_CACHE_HASHED \<Rightarrow> nat \<Rightarrow> nat" where
  "get_next_rec_ref c ref_ptr = buff c + unat (get_offset (size_of_rec_ofs c) (mem c) ref_ptr)"

definition store_next_rec_ref :: "nat \<Rightarrow> nat \<Rightarrow> JOIN_CACHE_HASHED \<Rightarrow> JOIN_CACHE_HASHED" where
  "store_next_rec_ref ref_ptr ref c =
     c\<lparr>mem := store_offset (size_of_rec_ofs c) (mem c) ref_ptr (word_of_int (int ref - int (buff c)))\<rparr>"

definition get_curr_emb_key :: "JOIN_CACHE_HASHED \<Rightarrow> nat" where
  "get_curr_emb_key c = curr_rec_pos c + unat (data_fields_offset c)"

definition get_emb_key :: "JOIN_CACHE_HASHED \<Rightarrow> nat \<Rightarrow> nat" where
  "get_emb_key c ref_ptr = buff c + unat (get_offset (size_of_rec_ofs c) (mem c) ref_ptr)"

definition store_emb_key_ref :: "nat \<Rightarrow> nat \<Rightarrow> JOIN_CACHE_HASHED \<Rightarrow> JOIN_CACHE_HASHED" where
  "store_emb_key_ref ref_ptr ref c =
     c\<lparr>mem := store_offset (size_of_rec_ofs c) (mem c) ref_ptr (word_of_int (int ref - int (buff c)))\<rparr>"

definition get_prefix_length :: "JOIN_CACHE_HASHED \<Rightarrow> uint" where
  "get_prefix_length c = base_prefix_length c + size_of_rec_ofs c"

definition hashed_rem_space :: "JOIN_CACHE_HASHED \<Rightarrow> size_t" where
  "hashed_rem_space c = max (word_of_int (int (last_key_entry c) - int (end_pos c)) - aux_buff_size c) 0"

definition extra_key_length :: "JOIN_CACHE_HASHED \<Rightarrow> uint" where
  "extra_key_length c = key_entry_length c"

definition get_curr_key_chain :: "JOIN_CACHE_HASHED \<Rightarrow> nat" where
  "get_curr_key_chain c = get_next_rec_ref c (curr_key_entry c + unat (key_entry_length c) - unat (size_of_rec_ofs c))"

text \<open>\<open>setup_aux_buffer\<close> of the two classes for batched key access: the bounds of the buffer.\<close>

definition bka_setup_aux_buffer :: "('a) JOIN_CACHE_scheme \<Rightarrow> nat \<times> nat" where
  "bka_setup_aux_buffer c = (end_pos c, buff c + unat (buff_size c))"

definition bkah_setup_aux_buffer :: "JOIN_CACHE_HASHED \<Rightarrow> nat \<times> nat" where
  "bkah_setup_aux_buffer c = (end_pos c, last_key_entry c)"

section \<open>Offsets come back\<close>

lemma ucast_down_up:
  fixes v :: ulong
  shows "unat v < 256 \<Longrightarrow> ucast (ucast v :: uchar) = v" "unat v < 65536 \<Longrightarrow> ucast (ucast v :: uint16) = v"
  by (intro word_unat_eq_iff [THEN iffD2], simp add: unat_ucast_mod)+

interpretation ofs1: byte_codec 1 "store_offset 1" "get_offset 1" "\<lambda>v. unat v < 256"
  by unfold_locales (auto simp: get_offset_def store_offset_def ucast_down_up)

interpretation ofs2: byte_codec 2 "store_offset 2" "get_offset 2" "\<lambda>v. unat v < 65536"
proof
  show "get_offset 2 (store_offset 2 buf t v) t = v" if "t + 2 \<le> length buf" "unat v < 65536" for buf t v
    using le2.load_store [OF that(1), of "ucast v"] that(2) by (simp add: get_offset_def store_offset_def ucast_down_up)
  show "get_offset 2 b1 t = get_offset 2 b2 t" if "\<And>i. t \<le> i \<Longrightarrow> i < t + 2 \<Longrightarrow> b1 ! i = b2 ! i" for t b1 b2
    using le2.load_local [OF that] by (simp add: get_offset_def)
qed (auto simp: store_offset_def le2.store_frame)

interpretation ofs4: byte_codec 4 "store_offset 4" "get_offset 4" "\<lambda>_. True"
proof
  show "get_offset 4 (store_offset 4 buf t v) t = v" if "t + 4 \<le> length buf" for buf t v
    using le4.load_store [OF that, of v] by (simp add: get_offset_def store_offset_def)
  show "get_offset 4 b1 t = get_offset 4 b2 t" if "\<And>i. t \<le> i \<Longrightarrow> i < t + 4 \<Longrightarrow> b1 ! i = b2 ! i" for t b1 b2
    using le4.load_local [OF that] by (simp add: get_offset_def)
qed (auto simp: store_offset_def le4.store_frame)

text \<open>The three widths together; \<open>sz\<close> is what \<open>offset_size\<close> gives.\<close>

definition is_offset_size :: "uint \<Rightarrow> bool" where "is_offset_size sz \<longleftrightarrow> sz \<in> {1, 2, 4}"

lemma offset_size_is: "is_offset_size (offset_size n)"
  by (simp add: is_offset_size_def offset_size_def)

lemma length_store_offset [simp]: "length (store_offset sz M p v) = length M"
  by (auto simp: store_offset_def int2store_def int4store_def Let_def)

lemma store_offset_frame: "i < p \<or> p + unat sz \<le> i \<Longrightarrow> is_offset_size sz \<Longrightarrow> store_offset sz M p v ! i = M ! i"
  using ofs1.store_frame ofs2.store_frame ofs4.store_frame by (auto simp: is_offset_size_def)

lemma get_offset_local:
  "is_offset_size sz \<Longrightarrow> (\<And>i. p \<le> i \<Longrightarrow> i < p + unat sz \<Longrightarrow> M ! i = M' ! i) \<Longrightarrow> get_offset sz M p = get_offset sz M' p"
  by (auto simp: is_offset_size_def intro!: ofs1.load_local ofs2.load_local ofs4.load_local)

lemma get_offset_other:
  assumes "p + unat sz \<le> q \<or> q + unat sz' \<le> p" "is_offset_size sz" "is_offset_size sz'"
  shows "get_offset sz (store_offset sz' M q v) p = get_offset sz M p"
  by (rule get_offset_local [OF assms(2)]) (use assms in \<open>auto intro!: store_offset_frame\<close>)

text \<open>A value comes back modulo what the width holds; \<open>offset_size\<close> gives a width that holds every offset up to the length it is given.\<close>

lemma get_store_offset:
  assumes "is_offset_size sz" "p + unat sz \<le> length M"
  shows "unat (get_offset sz (store_offset sz M p v) p) = unat v mod 256 ^ unat sz"
proof -
  consider "sz = 1" | "sz = 2" | "sz = 4" using assms(1) by (auto simp: is_offset_size_def)
  then show ?thesis
  proof cases
    case 1
    then show ?thesis using assms(2) by (simp add: get_offset_def store_offset_def unat_ucast_mod)
  next
    case 2
    then show ?thesis using assms(2) le2.load_store [of p M "ucast v"] by (simp add: get_offset_def store_offset_def unat_ucast_mod)
  next
    case 3
    then show ?thesis using assms(2) ofs4.load_store [of p M v] unat_less_length [of v] by simp
  qed
qed

lemma offset_size_holds:
  assumes "len < 2 ^ 32" "k \<le> unat len"
  shows "k < 256 ^ unat (offset_size len)"
proof -
  have "unat len < 256 \<Longrightarrow> k < 256" "unat len < 65536 \<Longrightarrow> k < 65536" "k < 4294967296"
    using assms by (simp_all add: word_less_nat_alt)
  then show ?thesis by (simp add: offset_size_def word_less_nat_alt)
qed

definition nil_at :: "uint \<Rightarrow> buffer \<Rightarrow> nat \<Rightarrow> bool" where
  "nil_at sz M p \<longleftrightarrow> take (unat sz) (drop p M) = replicate (unat sz) 0"

lemma nil_get:
  assumes "nil_at sz M p" "is_offset_size sz" "p + unat sz \<le> length M"
  shows "get_offset sz M p = 0"
proof -
  have "M ! (p + i) = 0" if "i < unat sz" for i
  proof -
    have "take (unat sz) (drop p M) ! i = 0" using assms(1) that by (simp add: nil_at_def)
    then show ?thesis using that assms(3) by simp
  qed
  note b = this [of 0] this [of 1] this [of 2] this [of 3]
  show ?thesis using assms(2) b by (auto simp: is_offset_size_def get_offset_def uint2korr_def uint4korr_def)
qed

lemma store_offset_mod:
  assumes "is_offset_size sz" "unat v mod 256 ^ unat sz = unat w mod 256 ^ unat sz"
  shows "store_offset sz M p v = store_offset sz M p w"
proof -
  consider "sz = 1" | "sz = 2" | "sz = 4" using assms(1) by (auto simp: is_offset_size_def)
  then show ?thesis
  proof cases
    case 1
    then have "(ucast v :: uchar) = ucast w" using assms(2) by (simp add: word_unat_eq_iff unat_ucast_mod)
    then show ?thesis using 1 by (simp add: store_offset_def)
  next
    case 2
    then have "(ucast v :: uint16) = ucast w" using assms(2) by (simp add: word_unat_eq_iff unat_ucast_mod)
    then show ?thesis using 2 by (simp add: store_offset_def)
  next
    case 3
    then have "v = w" using assms(2) unat_less_length [of v] unat_less_length [of w] by (simp add: word_unat_eq_iff)
    then show ?thesis by simp
  qed
qed

lemma store_nil:
  assumes "is_offset_size sz" "p + unat sz \<le> length M"
  shows "nil_at sz (store_offset sz M p 0) p"
  unfolding nil_at_def
proof (rule nth_equalityI)
  fix i assume "i < length (take (unat sz) (drop p (store_offset sz M p 0)))"
  then have i: "i < unat sz" by simp
  then show "take (unat sz) (drop p (store_offset sz M p 0)) ! i = replicate (unat sz) 0 ! i"
    using assms by (auto simp: is_offset_size_def store_offset_def int2store_def int4store_def nth_list_update)
qed (use assms in simp)

lemma is_null_key_ref_nil:
  "key_ref_ptr + unat (size_of_key_ofs c) \<le> length (mem c) \<Longrightarrow> is_null_key_ref c key_ref_ptr \<longleftrightarrow> nil_at (size_of_key_ofs c) (mem c) key_ref_ptr"
  by (simp add: is_null_key_ref_def nil_at_def)

section \<open>References in a join buffer\<close>

text \<open>The distance of two pointers, cut to the offset type and then to a width.\<close>

lemma unat_distance:
  assumes "a \<le> b"
  shows "unat (word_of_int (int b - int a) :: ulong) = (b - a) mod 2 ^ 32"
proof -
  have "word_of_int (int b - int a) = (of_nat (b - a) :: ulong)" using assms by (simp add: of_nat_diff)
  then show ?thesis by (simp only: unat_of_nat) simp
qed

lemma stored_distance:
  assumes "is_offset_size sz" "p + unat sz \<le> length M" "a \<le> b"
  shows "unat (get_offset sz (store_offset sz M p (word_of_int (int b - int a))) p) = (b - a) mod 256 ^ unat sz"
proof -
  have "256 ^ unat sz dvd (2 ^ 32 :: nat)" using assms(1) by (auto simp: is_offset_size_def)
  then show ?thesis unfolding get_store_offset [OF assms(1,2)] unat_distance [OF assms(3)] by (rule mod_mod_cancel)
qed

lemma nil_iff_zero:
  assumes "is_offset_size sz" "p + unat sz \<le> length M"
  shows "nil_at sz (store_offset sz M p v) p \<longleftrightarrow> unat v mod 256 ^ unat sz = 0"
proof
  assume "nil_at sz (store_offset sz M p v) p"
  then have "get_offset sz (store_offset sz M p v) p = 0" using nil_get assms by simp
  then show "unat v mod 256 ^ unat sz = 0" using get_store_offset [OF assms, of v] by simp
next
  assume "unat v mod 256 ^ unat sz = 0"
  then have "store_offset sz M p v = store_offset sz M p 0" by (intro store_offset_mod [OF assms(1)]) simp
  then show "nil_at sz (store_offset sz M p v) p" using store_nil [OF assms] by simp
qed

lemma rec_ref_stored:
  assumes "is_offset_size (size_of_rec_ofs c)" "buff c \<le> ref" "p + unat (size_of_rec_ofs c) \<le> length (mem c)"
  shows "get_next_rec_ref (store_next_rec_ref p ref c) p = buff c + (ref - buff c) mod 256 ^ unat (size_of_rec_ofs c)"
    and "get_emb_key (store_emb_key_ref p ref c) p = buff c + (ref - buff c) mod 256 ^ unat (size_of_rec_ofs c)"
    and "get_rec_ref (store_rec_ref (p + unat (size_of_rec_ofs c)) ref c) (p + unat (size_of_rec_ofs c)) =
      buff c + (ref - buff c) mod 256 ^ unat (size_of_rec_ofs c)"
  using stored_distance [OF assms(1,3,2)]
  by (simp_all add: get_next_rec_ref_def store_next_rec_ref_def get_emb_key_def store_emb_key_ref_def get_rec_ref_def store_rec_ref_def)

lemma key_ref_stored:
  assumes "is_offset_size (size_of_key_ofs c)" "ref \<le> hash_table c" "p + unat (size_of_key_ofs c) \<le> length (mem c)"
  shows "get_next_key_ref (store_next_key_ref p ref c) p = Some (hash_table c - (hash_table c - ref) mod 256 ^ unat (size_of_key_ofs c))"
    and "is_null_key_ref (store_next_key_ref p ref c) p \<longleftrightarrow> 256 ^ unat (size_of_key_ofs c) dvd hash_table c - ref"
    and "is_null_key_ref (store_null_key_ref p c) p"
proof -
  have m: "(hash_table c - ref) mod 256 ^ unat (size_of_key_ofs c) \<le> hash_table c" by (meson diff_le_self mod_less_eq_dividend order_trans)
  show "get_next_key_ref (store_next_key_ref p ref c) p = Some (hash_table c - (hash_table c - ref) mod 256 ^ unat (size_of_key_ofs c))"
    using stored_distance [OF assms(1,3,2)] m by (simp add: get_next_key_ref_def store_next_key_ref_def)
  have n: "is_null_key_ref (c\<lparr>mem := store_offset (size_of_key_ofs c) (mem c) p v\<rparr>) p \<longleftrightarrow> unat v mod 256 ^ unat (size_of_key_ofs c) = 0" for v
    using is_null_key_ref_nil [of p "c\<lparr>mem := store_offset (size_of_key_ofs c) (mem c) p v\<rparr>"] nil_iff_zero [OF assms(1,3)] assms(3) by simp
  show "is_null_key_ref (store_null_key_ref p c) p" unfolding store_null_key_ref_def n by simp
  have "256 ^ unat (size_of_key_ofs c) dvd (2 ^ 32 :: nat)" using assms(1) by (auto simp: is_offset_size_def)
  then show "is_null_key_ref (store_next_key_ref p ref c) p \<longleftrightarrow> 256 ^ unat (size_of_key_ofs c) dvd hash_table c - ref"
    unfolding store_next_key_ref_def n unat_distance [OF assms(2)] by (simp add: mod_mod_cancel dvd_eq_mod_eq_0)
qed

text \<open>The keys of one slot of the hash table: each entry refers to the next one, the last to none.\<close>

fun key_chain :: "JOIN_CACHE_HASHED \<Rightarrow> nat \<Rightarrow> nat list \<Rightarrow> bool" where
  "key_chain c p [] \<longleftrightarrow> is_null_key_ref c p"
| "key_chain c p (r # rs) \<longleftrightarrow> \<not> is_null_key_ref c p \<and> get_next_key_ref c p = Some r \<and> key_chain c r rs"

definition apart :: "nat \<Rightarrow> nat \<Rightarrow> nat \<Rightarrow> bool" where
  "apart w p q \<longleftrightarrow> p + w \<le> q \<or> q + w \<le> p"

lemma field_local:
  assumes "apart (unat sz) p x" "is_offset_size sz"
  shows "take (unat sz) (drop p (store_offset sz M x v)) = take (unat sz) (drop p M)"
  by (rule nth_equalityI) (use assms in \<open>auto simp: apart_def intro!: store_offset_frame\<close>)

lemma key_chain_other:
  assumes "\<forall>q \<in> set (p # rs). apart (unat (size_of_key_ofs c)) q x" "is_offset_size (size_of_key_ofs c)"
  shows "key_chain (store_next_key_ref x ref c) p rs = key_chain c p rs"
  using assms
proof (induction rs arbitrary: p)
  case Nil
  then show ?case by (simp add: is_null_key_ref_def store_next_key_ref_def field_local)
next
  case (Cons r rs)
  have g: "get_offset (size_of_key_ofs c) (store_offset (size_of_key_ofs c) (mem c) x v) p = get_offset (size_of_key_ofs c) (mem c) p" for v
    using Cons.prems by (intro get_offset_other) (auto simp: apart_def)
  show ?case using g Cons.IH [of r] Cons.prems by (simp add: is_null_key_ref_def store_next_key_ref_def field_local get_next_key_ref_def Let_def)
qed

text \<open>What is stored at a place is the only change of the memory.\<close>

lemma reference_frame:
  assumes "is_offset_size (size_of_rec_ofs c)" "is_offset_size (size_of_key_ofs c)"
  shows "i < p \<or> p + unat (size_of_rec_ofs c) \<le> i \<Longrightarrow> mem (store_next_rec_ref p ref c) ! i = mem c ! i \<and> mem (store_emb_key_ref p ref c) ! i = mem c ! i \<and>
      mem (store_rec_ref (p + unat (size_of_rec_ofs c)) ref c) ! i = mem c ! i"
    and "i < p \<or> p + unat (size_of_key_ofs c) \<le> i \<Longrightarrow> mem (store_next_key_ref p ref c) ! i = mem c ! i \<and> mem (store_null_key_ref p c) ! i = mem c ! i"
  using assms by (simp_all add: store_next_rec_ref_def store_emb_key_ref_def store_rec_ref_def store_next_key_ref_def store_null_key_ref_def store_offset_frame)

text \<open>C12: In a join buffer whose offsets of records and of keys have 1, 2 or 4 bytes, a reference to a record stored at a place (as the next record, as an embedded key, or in front of a record) is read there
  again up to the number of offsets its width holds, and so is a reference to a key, backward from the hash table; a reference to a key reads as nil exactly when its offset is a multiple of that
  number, and a nil reference that was stored always does. No store changes a byte outside its own offset. A width that \<open>offset_size\<close> gives for a length below 4 gigabytes brings every reference within
  that length back exactly, and a key entry to which another entry outside its chain is linked becomes the next entry of it, the rest of the chain following as before.\<close>

theorem join_buffer_references:
  assumes "is_offset_size (size_of_rec_ofs c)" "p + unat (size_of_rec_ofs c) \<le> length (mem c)" "buff c \<le> ref"
    and "is_offset_size (size_of_key_ofs c)" "q + unat (size_of_key_ofs c) \<le> length (mem c)" "key \<le> hash_table c"
  shows "get_next_rec_ref (store_next_rec_ref p ref c) p = buff c + (ref - buff c) mod 256 ^ unat (size_of_rec_ofs c) \<and>
    get_emb_key (store_emb_key_ref p ref c) p = buff c + (ref - buff c) mod 256 ^ unat (size_of_rec_ofs c) \<and>
    get_rec_ref (store_rec_ref (p + unat (size_of_rec_ofs c)) ref c) (p + unat (size_of_rec_ofs c)) = buff c + (ref - buff c) mod 256 ^ unat (size_of_rec_ofs c) \<and>
    get_next_key_ref (store_next_key_ref q key c) q = Some (hash_table c - (hash_table c - key) mod 256 ^ unat (size_of_key_ofs c)) \<and>
    (is_null_key_ref (store_next_key_ref q key c) q \<longleftrightarrow> 256 ^ unat (size_of_key_ofs c) dvd hash_table c - key) \<and>
    is_null_key_ref (store_null_key_ref q c) q \<and>
    (\<forall>i. i < p \<or> p + unat (size_of_rec_ofs c) \<le> i \<longrightarrow> mem (store_next_rec_ref p ref c) ! i = mem c ! i \<and>
       mem (store_emb_key_ref p ref c) ! i = mem c ! i \<and> mem (store_rec_ref (p + unat (size_of_rec_ofs c)) ref c) ! i = mem c ! i) \<and>
    (\<forall>i. i < q \<or> q + unat (size_of_key_ofs c) \<le> i \<longrightarrow> mem (store_next_key_ref q key c) ! i = mem c ! i \<and> mem (store_null_key_ref q c) ! i = mem c ! i) \<and>
    (\<forall>len. len < 2 ^ 32 \<and> size_of_rec_ofs c = offset_size len \<and> ref - buff c \<le> unat len \<longrightarrow> get_next_rec_ref (store_next_rec_ref p ref c) p = ref) \<and>
    (\<forall>len rs. len < 2 ^ 32 \<and> size_of_key_ofs c = offset_size len \<and> hash_table c - key \<le> unat len \<and> key < hash_table c \<and>
       key_chain c key rs \<and> (\<forall>r \<in> set (key # rs). apart (unat (size_of_key_ofs c)) r q) \<longrightarrow> key_chain (store_next_key_ref q key c) q (key # rs))"
proof (intro conjI allI impI)
  show "get_next_rec_ref (store_next_rec_ref p ref c) p = ref"
    if "len < 2 ^ 32 \<and> size_of_rec_ofs c = offset_size len \<and> ref - buff c \<le> unat len" for len
    using rec_ref_stored(1) [OF assms(1,3,2)] offset_size_holds [of len "ref - buff c"] that assms(3) by simp
  show "key_chain (store_next_key_ref q key c) q (key # rs)"
    if "len < 2 ^ 32 \<and> size_of_key_ofs c = offset_size len \<and> hash_table c - key \<le> unat len \<and> key < hash_table c \<and>
       key_chain c key rs \<and> (\<forall>r \<in> set (key # rs). apart (unat (size_of_key_ofs c)) r q)" for len rs
  proof -
    have l: "hash_table c - key < 256 ^ unat (size_of_key_ofs c)" using offset_size_holds that by simp
    then have "\<not> 256 ^ unat (size_of_key_ofs c) dvd hash_table c - key" using that by (simp add: nat_dvd_not_less)
    moreover have "key_chain (store_next_key_ref q key c) key rs" using key_chain_other [of key rs c q key] that assms(4) by blast
    ultimately show ?thesis using key_ref_stored [OF assms(4,6,5)] l assms(6) by simp
  qed
qed (use rec_ref_stored [OF assms(1,3,2)] key_ref_stored [OF assms(4,6,5)] reference_frame [OF assms(1,4)] in simp_all)

definition sample_cache :: JOIN_CACHE_HASHED where
  "sample_cache = \<lparr>mem = replicate 64 0, buff = 0, buff_size = 64, aux_buff_size = 16, end_pos = 52, size_of_rec_ofs = 1, size_of_rec_len = 1,
     size_of_fld_ofs = 1, base_prefix_length = 0, curr_rec_pos = 0, last_rec_pos = 0, last_rec_blob_data_is_in_rec_buff = False, curr_rec_link = None,
     size_of_key_ofs = 1, key_entry_length = 2, hash_table = 50, curr_key_entry = 0, last_key_entry = 56, data_fields_offset = 0\<rparr>"

theorem join_buffer_references_witness:
  "get_next_rec_ref (store_next_rec_ref 30 17 sample_cache) 30 = 17 \<and> key_chain (store_next_key_ref 60 20 sample_cache) 60 [20]"
proof -
  have w: "is_offset_size (size_of_rec_ofs sample_cache)" "is_offset_size (size_of_key_ofs sample_cache)" "offset_size 64 = 1"
    by (simp_all add: sample_cache_def is_offset_size_def offset_size_def)
  have k: "is_null_key_ref (store_next_key_ref 60 20 sample_cache) 20"
    by (simp add: is_null_key_ref_def store_next_key_ref_def store_offset_def sample_cache_def take_Suc_conv_app_nth)
  have "30 + unat (size_of_rec_ofs sample_cache) \<le> length (mem sample_cache)" "buff sample_cache \<le> 17"
    "60 + unat (size_of_key_ofs sample_cache) \<le> length (mem sample_cache)" "20 \<le> hash_table sample_cache" by (simp_all add: sample_cache_def)
  note j = join_buffer_references [OF w(1) this(1,2) w(2) this(3,4)]
  show ?thesis using j [THEN conjunct1] j [THEN conjunct2, THEN conjunct2, THEN conjunct2] k by (simp add: sample_cache_def)
qed

section \<open>Remaining space and large buffers\<close>

text \<open>The space that remains is exact as long as the auxiliary buffer fits. When it does not, the maximum with zero has no effect, because the difference is unsigned.\<close>

theorem rem_space_not_clamped:
  assumes "buff c \<le> end_pos c" "end_pos c - buff c \<le> unat (buff_size c)"
  shows "unat (rem_space c) =
    (if unat (aux_buff_size c) \<le> unat (buff_size c) - (end_pos c - buff c)
     then unat (buff_size c) - (end_pos c - buff c) - unat (aux_buff_size c)
     else 2 ^ 64 - (unat (aux_buff_size c) - (unat (buff_size c) - (end_pos c - buff c))))"
proof -
  let ?u = "of_nat (end_pos c - buff c) :: size_t"
  have u: "unat ?u = end_pos c - buff c" using assms(2) unat_less_length [of "buff_size c"] by (intro unat_of_nat_small) simp
  have e: "(word_of_int (int (end_pos c) - int (buff c)) :: size_t) = ?u" using assms(1) by (simp add: of_nat_diff)
  have r: "unat (buff_size c - ?u) = unat (buff_size c) - (end_pos c - buff c)" using assms(2) u by (simp add: unat_sub word_le_nat_alt)
  have m: "max w 0 = w" for w :: size_t by (simp add: max_def)
  show ?thesis
  proof (cases "unat (aux_buff_size c) \<le> unat (buff_size c - ?u)")
    case True
    then show ?thesis unfolding rem_space_def e m using r by (simp add: unat_sub word_le_nat_alt)
  next
    case False
    have "unat (x - a) = unat x + 2 ^ 64 - unat a" if "\<not> unat a \<le> unat x" for x a :: size_t
      using that by (simp add: unat_sub_if_size word_size)
    from this [OF False] have "unat (buff_size c - ?u - aux_buff_size c) = unat (buff_size c) - (end_pos c - buff c) + 2 ^ 64 - unat (aux_buff_size c)"
      unfolding r .
    then show ?thesis using False unat_less_length [of "aux_buff_size c"] unfolding rem_space_def e m r by (simp only: if_False) arith
  qed
qed

text \<open>In a buffer of four gigabytes or more a reference is cut to 32 bits.\<close>

theorem large_buffer_reference_lost:
  assumes "2 ^ 32 \<le> buff_size c" "size_of_rec_ofs c = offset_size (buff_size c)" "p + 4 \<le> length (mem c)"
  shows "get_next_rec_ref (store_next_rec_ref p (buff c + 2 ^ 32 + n) c) p = buff c + n mod 2 ^ 32"
proof -
  have sz: "size_of_rec_ofs c = 4" using assms(1,2) by (simp add: offset_size_def word_le_nat_alt word_less_nat_alt)
  have e: "(word_of_int (int (buff c + 2 ^ 32 + n) - int (buff c)) :: ulong) = of_nat n"
  proof -
    have "int (buff c + 2 ^ 32 + n) - int (buff c) = int n + 2 ^ 32" by simp
    then show ?thesis by (simp only: of_int_add of_int_of_nat_eq) simp
  qed
  have "get_next_rec_ref (store_next_rec_ref p (buff c + 2 ^ 32 + n) c) p =
      buff c + unat (get_offset 4 (store_offset 4 (mem c) p (of_nat n)) p)"
    unfolding store_next_rec_ref_def e by (simp add: get_next_rec_ref_def sz)
  then show ?thesis using ofs4.load_store [of p "mem c" "of_nat n"] assms(3) by (simp add: unat_of_nat)
qed

end
