(* ===== verification/Field_Layout.thy ===== *)
theory Field_Layout imports Prelude begin

unbundle bit_operations_syntax

text \<open>
  \<open>private/field.h\<close> and \<open>private/my_decimal.h\<close>: the NULL bits of the fields of a record, the flags of a field in the table definition, and the lengths of decimal numbers. Pointers are positions in the memory that
  holds the records.
\<close>

section \<open>NULL bits\<close>

record Field =
  ptr :: nat
  null_ptr :: "nat option"
  null_bit :: uchar

text \<open>Of the table: where its record stands, whether the row is one of NULLs only, and whether it may be.\<close>

record field_table =
  record_0 :: nat
  null_row :: bool
  tbl_maybe_null :: bool

definition null_pos :: "nat \<Rightarrow> int \<Rightarrow> nat" where
  "null_pos p row_offset = nat (int p + row_offset)"

definition is_null :: "buffer \<Rightarrow> field_table \<Rightarrow> Field \<Rightarrow> int \<Rightarrow> bool" where
  "is_null M t f row_offset =
     (case null_ptr f of Some p \<Rightarrow> M ! null_pos p row_offset AND null_bit f \<noteq> 0 | None \<Rightarrow> null_row t)"

definition is_real_null :: "buffer \<Rightarrow> Field \<Rightarrow> int \<Rightarrow> bool" where
  "is_real_null M f row_offset \<longleftrightarrow>
     (case null_ptr f of Some p \<Rightarrow> M ! null_pos p row_offset AND null_bit f \<noteq> 0 | None \<Rightarrow> False)"

definition maybe_null_in_table :: "field_table \<Rightarrow> Field \<Rightarrow> bool" where
  "maybe_null_in_table t f \<longleftrightarrow> (case null_ptr f of Some p \<Rightarrow> record_0 t \<le> p \<and> p \<le> ptr f | None \<Rightarrow> False)"

definition null_offset :: "Field \<Rightarrow> nat \<Rightarrow> uint" where
  "null_offset f rec = (case null_ptr f of Some p \<Rightarrow> word_of_int (int p - int rec) | None \<Rightarrow> word_of_int (- int rec))"

text \<open>The record is handed over as an area of its own.\<close>

definition is_null_in_record :: "field_table \<Rightarrow> Field \<Rightarrow> buffer \<Rightarrow> bool" where
  "is_null_in_record t f rec \<longleftrightarrow>
     (if maybe_null_in_table t f then rec ! unat (null_offset f (record_0 t)) AND null_bit f \<noteq> 0 else False)"

definition set_null :: "Field \<Rightarrow> int \<Rightarrow> buffer \<Rightarrow> buffer" where
  "set_null f row_offset M =
     (case null_ptr f of Some p \<Rightarrow> M[null_pos p row_offset := M ! null_pos p row_offset OR null_bit f] | None \<Rightarrow> M)"

definition set_notnull :: "Field \<Rightarrow> int \<Rightarrow> buffer \<Rightarrow> buffer" where
  "set_notnull f row_offset M =
     (case null_ptr f of Some p \<Rightarrow> M[null_pos p row_offset := M ! null_pos p row_offset AND NOT (null_bit f)] | None \<Rightarrow> M)"

definition maybe_null :: "field_table \<Rightarrow> Field \<Rightarrow> bool" where
  "maybe_null t f \<longleftrightarrow> null_ptr f \<noteq> None \<or> tbl_maybe_null t"

definition real_maybe_null :: "Field \<Rightarrow> bool" where
  "real_maybe_null f \<longleftrightarrow> null_ptr f \<noteq> None"

definition set_null_ptr :: "nat option \<Rightarrow> uint \<Rightarrow> Field \<Rightarrow> Field" where
  "set_null_ptr p_null_ptr p_null_bit f = f\<lparr>null_ptr := p_null_ptr, null_bit := ucast p_null_bit\<rparr>"

definition move_field :: "nat \<Rightarrow> nat option \<Rightarrow> uchar \<Rightarrow> Field \<Rightarrow> Field" where
  "move_field ptr_arg null_ptr_arg null_bit_arg f = f\<lparr>ptr := ptr_arg, null_ptr := null_ptr_arg, null_bit := null_bit_arg\<rparr>"

definition move_field_ptr :: "nat \<Rightarrow> Field \<Rightarrow> Field" where
  "move_field_ptr ptr_arg f = f\<lparr>ptr := ptr_arg\<rparr>"

definition move_field_offset :: "int \<Rightarrow> Field \<Rightarrow> Field" where
  "move_field_offset ptr_diff f =
     (let f = f\<lparr>ptr := nat (int (ptr f) + ptr_diff)\<rparr>
      in case null_ptr f of Some p \<Rightarrow> f\<lparr>null_ptr := Some (nat (int p + ptr_diff))\<rparr> | None \<Rightarrow> f)"

section \<open>Flags in the table definition\<close>

definition FIELDFLAG_DECIMAL :: uint where "FIELDFLAG_DECIMAL = 1"
definition FIELDFLAG_BINARY :: uint where "FIELDFLAG_BINARY = 1"
definition FIELDFLAG_NUMBER :: uint where "FIELDFLAG_NUMBER = 2"
definition FIELDFLAG_ZEROFILL :: uint where "FIELDFLAG_ZEROFILL = 4"
definition FIELDFLAG_PACK :: uint where "FIELDFLAG_PACK = 120"
definition FIELDFLAG_INTERVAL :: uint where "FIELDFLAG_INTERVAL = 256"
definition FIELDFLAG_BITFIELD :: uint where "FIELDFLAG_BITFIELD = 512"
definition FIELDFLAG_BLOB :: uint where "FIELDFLAG_BLOB = 1024"
definition FIELDFLAG_GEOM :: uint where "FIELDFLAG_GEOM = 2048"
definition FIELDFLAG_TREAT_BIT_AS_CHAR :: uint where "FIELDFLAG_TREAT_BIT_AS_CHAR = 4096"
definition FIELDFLAG_LONG_DECIMAL :: uint where "FIELDFLAG_LONG_DECIMAL = 8192"
definition FIELDFLAG_NO_DEFAULT :: uint where "FIELDFLAG_NO_DEFAULT = 16384"
definition FIELDFLAG_MAYBE_NULL :: uint where "FIELDFLAG_MAYBE_NULL = 32768"
definition FIELDFLAG_HEX_ESCAPE :: uint where "FIELDFLAG_HEX_ESCAPE = 0x10000"
definition FIELDFLAG_PACK_SHIFT :: nat where "FIELDFLAG_PACK_SHIFT = 3"
definition FIELDFLAG_DEC_SHIFT :: nat where "FIELDFLAG_DEC_SHIFT = 8"
definition FIELDFLAG_MAX_DEC :: uint where "FIELDFLAG_MAX_DEC = 63"
definition FIELDFLAG_DEC_MASK :: uint where "FIELDFLAG_DEC_MASK = 0x3F00"

definition MTYP_TYPENR :: "uint \<Rightarrow> uint" where "MTYP_TYPENR t = t AND 127"
definition f_is_dec :: "uint \<Rightarrow> bool" where "f_is_dec x \<longleftrightarrow> x AND FIELDFLAG_DECIMAL \<noteq> 0"
definition f_is_num :: "uint \<Rightarrow> bool" where "f_is_num x \<longleftrightarrow> x AND FIELDFLAG_NUMBER \<noteq> 0"
definition f_is_zerofill :: "uint \<Rightarrow> bool" where "f_is_zerofill x \<longleftrightarrow> x AND FIELDFLAG_ZEROFILL \<noteq> 0"
definition f_is_packed :: "uint \<Rightarrow> bool" where "f_is_packed x \<longleftrightarrow> x AND FIELDFLAG_PACK \<noteq> 0"
definition f_packtype :: "uint \<Rightarrow> uint" where "f_packtype x = drop_bit FIELDFLAG_PACK_SHIFT x AND 15"
definition f_decimals :: "uint \<Rightarrow> uint8" where "f_decimals x = ucast (drop_bit FIELDFLAG_DEC_SHIFT x AND FIELDFLAG_MAX_DEC)"
definition f_is_alpha :: "uint \<Rightarrow> bool" where "f_is_alpha x \<longleftrightarrow> \<not> f_is_num x"
definition f_is_binary :: "uint \<Rightarrow> bool" where "f_is_binary x \<longleftrightarrow> x AND FIELDFLAG_BINARY \<noteq> 0"
definition f_is_enum :: "uint \<Rightarrow> bool" where
  "f_is_enum x \<longleftrightarrow> x AND (FIELDFLAG_INTERVAL OR FIELDFLAG_NUMBER) = FIELDFLAG_INTERVAL"
definition f_is_bitfield :: "uint \<Rightarrow> bool" where
  "f_is_bitfield x \<longleftrightarrow> x AND (FIELDFLAG_BITFIELD OR FIELDFLAG_NUMBER) = FIELDFLAG_BITFIELD"
definition f_is_blob :: "uint \<Rightarrow> bool" where
  "f_is_blob x \<longleftrightarrow> x AND (FIELDFLAG_BLOB OR FIELDFLAG_NUMBER) = FIELDFLAG_BLOB"
definition f_is_geom :: "uint \<Rightarrow> bool" where
  "f_is_geom x \<longleftrightarrow> x AND (FIELDFLAG_GEOM OR FIELDFLAG_NUMBER) = FIELDFLAG_GEOM"
definition f_settype :: "uint \<Rightarrow> uint" where "f_settype x = push_bit FIELDFLAG_PACK_SHIFT x"
definition f_maybe_null :: "uint \<Rightarrow> bool" where "f_maybe_null x \<longleftrightarrow> x AND FIELDFLAG_MAYBE_NULL \<noteq> 0"
definition f_no_default :: "uint \<Rightarrow> bool" where "f_no_default x \<longleftrightarrow> x AND FIELDFLAG_NO_DEFAULT \<noteq> 0"
definition f_bit_as_char :: "uint \<Rightarrow> bool" where "f_bit_as_char x \<longleftrightarrow> x AND FIELDFLAG_TREAT_BIT_AS_CHAR \<noteq> 0"
definition f_is_hex_escape :: "uint \<Rightarrow> bool" where "f_is_hex_escape x \<longleftrightarrow> x AND FIELDFLAG_HEX_ESCAPE \<noteq> 0"

lemmas fieldflags = FIELDFLAG_DECIMAL_def FIELDFLAG_BINARY_def FIELDFLAG_NUMBER_def FIELDFLAG_ZEROFILL_def FIELDFLAG_PACK_def
  FIELDFLAG_INTERVAL_def FIELDFLAG_BITFIELD_def FIELDFLAG_BLOB_def FIELDFLAG_GEOM_def FIELDFLAG_TREAT_BIT_AS_CHAR_def
  FIELDFLAG_LONG_DECIMAL_def FIELDFLAG_NO_DEFAULT_def FIELDFLAG_MAYBE_NULL_def FIELDFLAG_HEX_ESCAPE_def FIELDFLAG_PACK_SHIFT_def
  FIELDFLAG_DEC_SHIFT_def FIELDFLAG_MAX_DEC_def FIELDFLAG_DEC_MASK_def

section \<open>Lengths of decimal numbers\<close>

type_synonym decimal_digits_t = "16 word"

definition DECIMAL_BUFF_LENGTH :: nat where "DECIMAL_BUFF_LENGTH = 9"
definition DECIMAL_MAX_POSSIBLE_PRECISION :: nat where "DECIMAL_MAX_POSSIBLE_PRECISION = DECIMAL_BUFF_LENGTH * 9"
definition DECIMAL_MAX_PRECISION :: decimal_digits_t where "DECIMAL_MAX_PRECISION = of_nat (DECIMAL_MAX_POSSIBLE_PRECISION - 8 * 2)"
definition DECIMAL_NOT_SPECIFIED :: decimal_digits_t where "DECIMAL_NOT_SPECIFIED = 39"

definition my_decimal_int_part :: "decimal_digits_t \<Rightarrow> decimal_digits_t \<Rightarrow> decimal_digits_t" where
  "my_decimal_int_part precision decimals = precision - (if decimals = DECIMAL_NOT_SPECIFIED then 0 else decimals)"

definition my_decimal_length_to_precision :: "decimal_digits_t \<Rightarrow> decimal_digits_t \<Rightarrow> bool \<Rightarrow> decimal_digits_t" where
  "my_decimal_length_to_precision len scale unsigned_flag =
     len - (if 0 < scale then 1 else 0) - (if unsigned_flag \<or> len = 0 then 0 else 1)"

definition my_decimal_precision_to_length_no_truncation :: "decimal_digits_t \<Rightarrow> decimal_digits_t \<Rightarrow> bool \<Rightarrow> decimal_digits_t" where
  "my_decimal_precision_to_length_no_truncation precision scale unsigned_flag =
     precision + (if 0 < scale then 1 else 0) + (if unsigned_flag \<or> precision = 0 then 0 else 1)"

definition my_decimal_precision_to_length :: "decimal_digits_t \<Rightarrow> decimal_digits_t \<Rightarrow> bool \<Rightarrow> decimal_digits_t" where
  "my_decimal_precision_to_length precision scale unsigned_flag =
     my_decimal_precision_to_length_no_truncation (if DECIMAL_MAX_PRECISION < precision then DECIMAL_MAX_PRECISION else precision) scale unsigned_flag"

section \<open>The NULL bits of a record\<close>

definition null_bits_ok :: "Field set \<Rightarrow> int \<Rightarrow> buffer \<Rightarrow> bool" where
  "null_bits_ok F off M \<longleftrightarrow>
     (\<forall>f\<in>F. \<exists>p. null_ptr f = Some p \<and> null_pos p off < length M \<and> null_bit f \<noteq> 0) \<and>
     (\<forall>f\<in>F. \<forall>g\<in>F. f \<noteq> g \<longrightarrow> null_pos (the (null_ptr f)) off \<noteq> null_pos (the (null_ptr g)) off \<or> null_bit f AND null_bit g = 0)"

fun run_nulls :: "(Field \<times> bool) list \<Rightarrow> int \<Rightarrow> buffer \<Rightarrow> buffer" where
  "run_nulls [] off M = M"
| "run_nulls ((f, b) # ops) off M = run_nulls ops off (if b then set_null f off M else set_notnull f off M)"

fun last_setting :: "(Field \<times> bool) list \<Rightarrow> Field \<Rightarrow> bool \<Rightarrow> bool" where
  "last_setting [] g c = c"
| "last_setting ((f, b) # ops) g c = last_setting ops g (if g = f then b else c)"

lemma and_or_disjoint:
  fixes x a b :: uchar
  assumes "a AND b = 0"
  shows "(x OR a) AND b = x AND b" "(x AND NOT a) AND b = x AND b"
proof -
  have d: "\<not> (bit a n \<and> bit b n)" for n using arg_cong [OF assms, of "\<lambda>w. bit w n"] by (simp add: bit_simps)
  show "(x OR a) AND b = x AND b" "(x AND NOT a) AND b = x AND b"
    by (rule bit_word_eqI; use d in \<open>auto simp: bit_simps\<close>)+
qed

lemma and_or_same:
  fixes x a :: uchar
  shows "(x OR a) AND a = a" "(x AND NOT a) AND a = 0"
  by (rule bit_word_eqI; auto simp: bit_simps)+

lemma null_op:
  assumes "null_bits_ok F off M" "f \<in> F" "g \<in> F"
  shows "is_real_null (if b then set_null f off M else set_notnull f off M) g off = (if g = f then b else is_real_null M g off)"
    "null_bits_ok F off (if b then set_null f off M else set_notnull f off M)"
proof -
  obtain p where p: "null_ptr f = Some p" "null_pos p off < length M" "null_bit f \<noteq> 0" using assms unfolding null_bits_ok_def by blast
  obtain q where q: "null_ptr g = Some q" "null_pos q off < length M" using assms unfolding null_bits_ok_def by blast
  show "is_real_null (if b then set_null f off M else set_notnull f off M) g off = (if g = f then b else is_real_null M g off)"
  proof (cases "g = f")
    case True
    then show ?thesis using p by (simp add: is_real_null_def set_null_def set_notnull_def and_or_same)
  next
    case False
    then have "null_pos p off \<noteq> null_pos q off \<or> null_bit f AND null_bit g = 0" using assms p(1) q(1) by (fastforce simp: null_bits_ok_def)
    then show ?thesis using p q False by (cases "null_pos p off = null_pos q off") (auto simp: is_real_null_def set_null_def set_notnull_def and_or_disjoint)
  qed
  show "null_bits_ok F off (if b then set_null f off M else set_notnull f off M)"
    using assms(1) p by (simp add: null_bits_ok_def set_null_def set_notnull_def)
qed

text \<open>C28: The NULL bits of the fields of a record, several in one byte, act as a map: after any sequence of settings each field is NULL as its own last setting says, or as before; bytes that hold no NULL bit stay.\<close>

theorem null_bits_are_a_map:
  assumes "null_bits_ok F off M" "fst ` set ops \<subseteq> F"
  shows "(\<forall>g\<in>F. is_real_null (run_nulls ops off M) g off = last_setting ops g (is_real_null M g off)) \<and>
    (\<forall>i. i \<notin> (\<lambda>f. null_pos (the (null_ptr f)) off) ` F \<longrightarrow> run_nulls ops off M ! i = M ! i) \<and>
    length (run_nulls ops off M) = length M"
  using assms
proof (induction ops off M rule: run_nulls.induct)
  case (1 off M)
  then show ?case by simp
next
  case (2 f b ops off M)
  let ?M = "if b then set_null f off M else set_notnull f off M"
  have f: "f \<in> F" "fst ` set ops \<subseteq> F" using 2(3) by auto
  have ok: "null_bits_ok F off ?M" by (rule null_op(2) [OF 2(2) f(1) f(1)])
  note IH = 2(1) [OF ok f(2)]
  have a: "is_real_null (run_nulls ops off ?M) g off = last_setting ops g (if g = f then b else is_real_null M g off)" if "g \<in> F" for g
    using IH that unfolding null_op(1) [OF 2(2) f(1) that, symmetric] by blast
  have b: "?M ! i = M ! i" if "i \<notin> (\<lambda>f. null_pos (the (null_ptr f)) off) ` F" for i
    using that imageI [OF f(1), of "\<lambda>f. null_pos (the (null_ptr f)) off"]
    by (cases "null_ptr f") (auto simp: set_null_def set_notnull_def intro!: nth_list_update_neq)
  have "length ?M = length M" by (auto simp: set_null_def set_notnull_def split: option.splits)
  with a b IH show ?case by simp
qed

definition field_of :: "nat \<Rightarrow> uchar \<Rightarrow> Field" where
  "field_of p b = \<lparr>ptr = p + 1, null_ptr = Some p, null_bit = b\<rparr>"

theorem null_bits_are_a_map_witness:
  "is_real_null (run_nulls [(field_of 0 1, True), (field_of 0 2, True), (field_of 0 1, False)] 0 [4, 0]) (field_of 0 2) 0"
proof -
  have "null_bits_ok {field_of 0 1, field_of 0 2} 0 [4, 0]" by (auto simp: null_bits_ok_def field_of_def null_pos_def)
  from null_bits_are_a_map [OF this, of "[(field_of 0 1, True), (field_of 0 2, True), (field_of 0 1, False)]"] show ?thesis
    by (simp add: field_of_def)
qed

text \<open>In a copy of the record a field is NULL as it is in the table's own record.\<close>

lemma is_null_in_copied_record:
  assumes "maybe_null_in_table t f" "null_ptr f = Some p" "p < record_0 t + length rec" "length rec < 2 ^ 32" "record_0 t + length rec \<le> length M"
  shows "is_null_in_record t f (take (length rec) (drop (record_0 t) M)) \<longleftrightarrow> is_real_null M f 0"
proof -
  have le: "record_0 t \<le> p" using assms(1,2) by (simp add: maybe_null_in_table_def)
  have "null_offset f (record_0 t) = of_nat (p - record_0 t)" using assms(2) le by (simp add: null_offset_def of_nat_diff)
  moreover have "p - record_0 t < 2 ^ 32" using assms(3,4) le by simp
  ultimately have "unat (null_offset f (record_0 t)) = p - record_0 t" by (simp add: unat_of_nat)
  then show ?thesis using assms le by (simp add: is_null_in_record_def is_real_null_def null_pos_def)
qed

section \<open>Flags come back\<close>

text \<open>A definition of kind, type, decimals and attributes: the first three bits, four bits, six bits, and the bits from the fourteenth on.\<close>

definition frm_flags :: "uint \<Rightarrow> uint \<Rightarrow> uint \<Rightarrow> uint \<Rightarrow> uint" where
  "frm_flags kind ftype decs attr = kind OR f_settype ftype OR push_bit FIELDFLAG_DEC_SHIFT decs OR attr"

lemma high_bits: "attr AND mask 14 = 0 \<Longrightarrow> n < 14 \<Longrightarrow> \<not> bit (attr :: uint) n"
  by (drule arg_cong [of _ _ "\<lambda>w. bit w n"]) (simp add: bit_simps)

text \<open>The type and the decimals are read as they were packed, and the flags of the kind and the attributes are undisturbed. The flag for a BIT shown as characters and the one for long decimals are bits of the
  decimals: a number with sixteen or more has them set.\<close>

theorem frm_flags_come_back:
  assumes "unat kind < 2 ^ 3" "unat ftype < 2 ^ 4" "unat decs < 2 ^ 6" "attr AND mask 14 = 0"
  shows "f_packtype (frm_flags kind ftype decs attr) = ftype" "f_decimals (frm_flags kind ftype decs attr) = ucast decs"
    "f_is_num (frm_flags kind ftype decs attr) = f_is_num kind" "f_is_zerofill (frm_flags kind ftype decs attr) = f_is_zerofill kind"
    "f_maybe_null (frm_flags kind ftype decs attr) = f_maybe_null attr" "f_no_default (frm_flags kind ftype decs attr) = f_no_default attr"
    "f_bit_as_char (frm_flags kind ftype decs attr) \<longleftrightarrow> bit decs 4"
proof -
  have b: "bit kind n \<Longrightarrow> n < 3" "bit ftype n \<Longrightarrow> n < 4" "bit decs n \<Longrightarrow> n < 6" "bit attr n \<Longrightarrow> 14 \<le> n" for n
    using word_small_no_bit [OF assms(1)] word_small_no_bit [OF assms(2)] word_small_no_bit [OF assms(3)] high_bits [OF assms(4)] not_le by blast+
  have m: "(15 :: uint) = mask 4" "(63 :: uint) = mask 6" by (simp_all add: mask_eq_exp_minus_1)
  let ?x = "frm_flags kind ftype decs attr"
  have x: "bit ?x n \<longleftrightarrow> n < 32 \<and> (bit kind n \<or> 3 \<le> n \<and> bit ftype (n - 3) \<or> 8 \<le> n \<and> bit decs (n - 8) \<or> bit attr n)" for n
    by (auto simp: frm_flags_def f_settype_def FIELDFLAG_PACK_SHIFT_def FIELDFLAG_DEC_SHIFT_def bit_simps dest: bit_imp_le_length)
  show "f_packtype ?x = ftype"
    unfolding f_packtype_def FIELDFLAG_PACK_SHIFT_def m
    by (rule bit_word_eqI) (auto simp: bit_simps x dest: b)
  show "f_decimals ?x = ucast decs"
    unfolding f_decimals_def FIELDFLAG_DEC_SHIFT_def FIELDFLAG_MAX_DEC_def m
    by (rule bit_word_eqI) (auto simp: bit_simps x dest: b)
  have flag: "(w :: uint) AND 2 ^ k \<noteq> 0 \<longleftrightarrow> bit w k" if "k < 32" for w k
    using that by (simp add: bit_iff_and_push_bit_not_eq_0 push_bit_eq_mult)
  have f: "FIELDFLAG_NUMBER = 2 ^ 1" "FIELDFLAG_ZEROFILL = 2 ^ 2" "FIELDFLAG_MAYBE_NULL = 2 ^ 15" "FIELDFLAG_NO_DEFAULT = 2 ^ 14"
    "FIELDFLAG_TREAT_BIT_AS_CHAR = 2 ^ 12" by (simp_all add: fieldflags)
  show "f_is_num ?x = f_is_num kind" "f_is_zerofill ?x = f_is_zerofill kind" "f_maybe_null ?x = f_maybe_null attr" "f_no_default ?x = f_no_default attr"
    unfolding f_is_num_def f_is_zerofill_def f_maybe_null_def f_no_default_def f
    by (subst (1 2) flag; force simp: x dest: b)+
  have "\<not> bit kind 12" "\<not> bit ftype 9" "\<not> bit attr 12" using b [of 12] b [of 9] by auto
  then show "f_bit_as_char ?x \<longleftrightarrow> bit decs 4"
    unfolding f_bit_as_char_def f by (subst flag) (simp_all add: x)
qed

section \<open>Lengths and precisions\<close>

lemma precision_of_length:
  assumes "0 < precision \<or> scale = 0" "unat precision < 2 ^ 16 - 2"
  shows "my_decimal_length_to_precision (my_decimal_precision_to_length_no_truncation precision scale unsigned_flag) scale unsigned_flag = precision"
proof -
  have "precision + 1 \<noteq> 0" "precision + 1 + 1 \<noteq> 0"
    using assms(2) by (auto simp: unat_eq_0 [symmetric] unat_word_ariths simp flip: unat_eq_0)
  then show ?thesis using assms(1)
    by (auto simp: my_decimal_length_to_precision_def my_decimal_precision_to_length_no_truncation_def word_gt_0)
qed

lemma precision_to_length_truncates:
  "my_decimal_precision_to_length precision scale unsigned_flag = my_decimal_precision_to_length_no_truncation (min precision 65) scale unsigned_flag"
  by (cases "65 < precision")
    (auto simp: my_decimal_precision_to_length_def DECIMAL_MAX_PRECISION_def DECIMAL_MAX_POSSIBLE_PRECISION_def DECIMAL_BUFF_LENGTH_def min_def)

text \<open>A signed length of one with a scale has no digit left, and the precision wraps around.\<close>

lemma length_too_short_wraps: "my_decimal_length_to_precision 1 1 False = 65535"
  by (simp add: my_decimal_length_to_precision_def)

end
