(* ===== verification/Spec2Isabelle.thy ===== *)
theory Spec2Isabelle
  imports My_Bit_Count Myisam_Pack My_Bitmap Sql_Bitmap Privilege_Actions Sql_List_Sort Ilist Sql_Plist Lifo_Buffer
    Sql_String Sql_Type_Int Sql_Error Sql_Limit Sql_I_List Thread_Cache Hash_Filo Bounded_Queue Sql_Sequence Mem_Root_Array
    Lex_Input_Stream Sql_Time Tranx_Allocator Xid Json_Writer Spatial_Mbr Handler_Trx Handler_Scan
    Opt_Range_Keys Filesort_Buffer Sql_Sort Discrete_Interval Histogram Mdl Query_Tables Window_Func
    Analyze_Stmt Async_State Thd_State Partition_Info Profile_Queue Join_Buffer Field_Layout
begin

text \<open>
  A verification library for the C and C++ code of the repository.

  \<^bold>\<open>The program.\<close> The repository is a library application (a PHP back office and an Angular front end) together with the installation of its
  database server. The C and C++ code is that of the server's headers under \<open>src/mariadb-fp/include/mysql/server/\<close> (\<open>private/\<close> below it): the inline functions, macros and class
  bodies on which the server is built. The development models the ones that carry logic of their own, with the integer widths of this build (64-bit Windows: \<open>int\<close> and \<open>long\<close> have 32 bits,
  \<open>long long\<close> and \<open>size_t\<close> 64) and with the debug assertions compiled out. Code that the headers only declare is a parameter of the definitions that call it.

  \<^bold>\<open>How the parts interact.\<close> Machine words and bytes are at the bottom: \<open>my_bit.h\<close> serves the bitmaps and the integer types, the byte order macros serve the key and record
  formats. The containers are used throughout: the intrusive lists hold the queue of the thread cache and the stack of warning areas, the memory-root array and the strings hold what statements build.
  The SQL layer on top has the privilege bits, the diagnostics, the limits, the sequences, the LIFO buffers of multi-range reads, the queue of the first rows of a sort, and the stream of characters the
  parser reads.

  \<^bold>\<open>Foundations.\<close>
  \<^item> Prelude: names of the C types, the development's collections of rules, lemmas on words and lists.
  \<^item> Memory: byte areas, allocated blocks and pointers; an access outside a block is \<open>None\<close>.
  \<^item> Byte_Codec, Bitset, Sequence: interfaces as locales, for fixed-width encodings, bitmaps and linked lists. Each is interpreted on the definitions of every component that provides it. Further locales stand with
    their components: \<open>lifo_stack\<close> (Lifo_Buffer), \<open>rights_store\<close> (Privilege), \<open>sort_order\<close> (Sql_List_Sort), \<open>lru_cache\<close> (Hash_Filo).

  \<^bold>\<open>Words and bytes.\<close>
  \<^item> My_Bit, My_Bit_Count (\<open>private/my_bit.h\<close>, \<open>my_byteorder.h\<close> constants): logarithm, powers of two, bit reversal, first bit, counting bits. They compute the highest
    bit and the number of bits set for all 32- and 64-bit words; the variants agree.
  \<^item> Byte_Order (\<open>byte_order_generic*.h\<close>, \<open>little_endian.h\<close>, \<open>big_endian.h\<close>) and Myisam_Pack (\<open>private/myisampack.h\<close>, \<open>private/my_compare.h\<close>): store and
    load macros. The processor-specific accesses equal the generic ones, values come back from memory, and the order of stored keys is the order of the numbers.

  \<^bold>\<open>Bitmaps.\<close> My_Bitmap (\<open>private/my_bitmap.h\<close>) and Sql_Bitmap (\<open>private/sql_bitmap.h\<close>): both represent sets of bit numbers, every operation acts on the set, and the iterator
    returns each member once and ends.

  \<^bold>\<open>Privileges.\<close> Privilege and Privilege_Actions (\<open>private/privilege.h\<close>): the bits, their versions, the rights of each level and the conversion to the stored form, which is one-to-one on the rights of the level;
    the rights that server actions ask for.

  \<^bold>\<open>Lists.\<close>
  \<^item> Sql_List, Sql_List_Inv, Sql_List_Iter, Sql_List_Sort (\<open>private/sql_list.h\<close>, \<open>base_list\<close>): nodes in an explicit store; operations, iterator with removal and replacement, and
    \<open>bubble_sort\<close>, which ends and sorts. Fuel: walks over a list and the passes of the sort get one step more than the list is long, which the theorems show to be enough.
  \<^item> Sql_I_List, Ilink (\<open>private/sql_list.h\<close>), Ilist (\<open>ilist.h\<close>), Sql_Plist (\<open>private/sql_plist.h\<close>): singly and doubly linked intrusive lists over a store of link fields, including
    pointers to pointers. Well-formedness is an invariant and each operation acts on the sequence as its name says; theorems show for some operations where the code does not.

  \<^bold>\<open>Threads.\<close> Thread_Cache (\<open>private/thread_cache.h\<close>): each region under the lock is a definition on the state record, and threads, condition variables and timeouts are an inductive step relation
    over them. The invariant of all reachable states covers the order of requests, the counters and the absence of lost wake-ups; a single flush can always be completed, overlapping ones may block for ever.

  \<^bold>\<open>Other containers.\<close>
  \<^item> Hash_Filo (\<open>private/hash_filo.h\<close>): refines a list ordered by last use. The hash is a parameter with the contract \<open>hash_contract\<close>, which a small hash is shown to meet.
  \<^item> Bounded_Queue (\<open>private/bounded_queue.h\<close>, \<open>private/queues.h\<close>): keeps the first keys of all that are pushed, given heap functions that meet \<open>queue_contract\<close>.
  \<^item> Mem_Root_Array (\<open>private/mem_root_array.h\<close>): an array of objects and raw places; refines a list and never uses a dead object, as long as the byte count fits. Loops that need not end are partial functions and
    are proved to return.
  \<^item> Lifo_Buffer (\<open>private/sql_lifo_buffer.h\<close>): the two buffers in one area are stacks, also when one takes over the space of the other.
  \<^item> Sql_String (\<open>private/sql_string.h\<close>, \<open>Binary_string\<close>): blocks, capacity and terminating zero as an invariant; appending within bounds, given an allocator that meets \<open>realloc_contract\<close>.

  \<^bold>\<open>Engines, transactions and replication.\<close>
  \<^item> Handler_Scan, Handler_Trx, Xid (\<open>private/handler.h\<close>): the public functions of \<open>handler\<close> around the calls of an engine, with the uses that the assertions allow as a step relation whose invariant
    is that the engine sees a sequence of calls in order; the list of engines of a transaction; the bytes of a transaction identifier.
  \<^item> Tranx_Allocator (\<open>private/semisync_master.h\<close>, \<open>Tranx_node_allocator\<close>): blocks in an explicit heap, where a freed block is gone; the nodes in use are a queue. Loops are partial functions, proved to return.

  \<^bold>\<open>Optimizer and sorting.\<close>
  \<^item> Opt_Range, Opt_Range_Keys (\<open>private/opt_range.h\<close>, flags of \<open>private/my_base.h\<close>): the intervals of the range optimizer as sets of values, and the keys built from a graph of intervals against the rows that
    satisfy it. \<open>sel_cmp\<close> and the constructor are parameters with \<open>sel_cmp_ok\<close> and \<open>constructor_ok\<close>; the shape of a graph is \<open>graph_ok\<close>. Fuel: a call per key part, and 256 suffices because part numbers have eight bits and grow.
  \<^item> Filesort_Buffer (\<open>private/filesort_utils.h\<close>) and Sql_Sort (\<open>private/sql_sort.h\<close>): records and the pointers to them in the two ends of one area, the lengths of packed records, and the memory of merge chunks. The root theory
    joins the two: packed records in a sort buffer are found at their pointers.
  \<^item> Discrete_Interval (\<open>private/structs.h\<close>, insert ids of \<open>private/sql_class.h\<close>): the auto-increment values a statement reserved, as intervals in a list of nodes.

  \<^item> Histogram (\<open>private/sql_statistics.h\<close>): the bucket search of a binary histogram, a partial function proved to return, gives the bucket that counting gives, but for two buckets with the position above both; the flags and counters of column statistics.
  \<^item> Join_Buffer (\<open>private/sql_join_cache.h\<close>): the offsets in a join buffer as an encoding of one, two or four bytes (\<open>byte_codec\<close>), references to records, embedded keys and keys with their frame, the remaining space.
  \<^item> Window_Func (\<open>private/item_windowfunc.h\<close>): the window functions whose bodies are in the header. Doubles are a record of operations; the theorems take it to be the rational numbers. NTILE deals the rows out
    evenly, the percentiles are those of the sequence of rows.

  \<^bold>\<open>Statements and sessions.\<close>
  \<^item> Query_Tables (\<open>private/sql_lex.h\<close>, \<open>Query_tables_list\<close>): the tables of a statement, its own and those of prelocking, in a list with pointers to pointers; the flags that make a statement unsafe for the log.
  \<^item> Mdl (\<open>private/mdl.h\<close>): the keys of metadata locks are triples of namespace and names in one buffer, ordered as the triples are. \<open>strmake\<close> is a parameter with the contract \<open>strmake_copies\<close>.
  \<^item> Async_State (\<open>private/sql_class.h\<close>, \<open>thd_async_state\<close>): suspending a session and waiting for its operations, a step relation with the protocol of wake-ups as its invariant, over the
    32-bit counter of \<open>private/my_counter.h\<close>: the facts say below which number of operations in flight they hold.
  \<^item> Thd_State (\<open>private/sql_class.h\<close>, \<open>THD\<close>): statement times increase strictly, the strongest kill stays, the format of the log is fixed inside stored functions.
  \<^item> Partition_Info (\<open>private/partition_info.h\<close>): numbers and names of partitions; the search for free names of new partitions ends, because a name has at most eight characters, and finds the first that are free.
  \<^item> Field_Layout (\<open>private/field.h\<close>, \<open>private/my_decimal.h\<close>): NULL bits of a record as a map, the flags of the table definition, lengths of decimals.
  \<^item> Profile_Queue (\<open>private/sql_profile.h\<close>): a queue of allocated items, as a list; what is left after emptying it.
  \<^item> Analyze_Stmt (\<open>private/sql_analyze_stmt.h\<close>): what ANALYZE counts of scans, sorts and filters, as sums over the runs.

  \<^bold>\<open>Traces and geometry.\<close> Json_Writer (\<open>private/my_json_writer.h\<close>): the scoped writers of objects and arrays, run by a block-structured client, make well-formed documents; strings with a size limit.
    Spatial_Mbr (\<open>private/spatial.h\<close>, \<open>MBR\<close>): bounding rectangles over any linear order of coordinates as sets of points.

  \<^bold>\<open>SQL values and statements.\<close> Sql_Type_Int (\<open>private/sql_type_int.h\<close>), Sql_Limit (\<open>private/sql_limit.h\<close>), Sql_Sequence (\<open>private/sql_sequence.h\<close>): integers of either signedness, the window of LIMIT and OFFSET
    and the next value of a sequence, each compared with unbounded integers. Sql_Error (\<open>private/sql_error.h\<close>): conditions, warning areas and the diagnostics area. Lex_Input_Stream (\<open>private/sql_lex.h\<close>): the two
    buffers of the character stream refine the sequence of consumed characters. Sql_Temporal and Sql_Time (\<open>mysql_time.h\<close>, \<open>private/my_time.h\<close>, \<open>private/sql_time.h\<close>, the temporal classes of \<open>private/sql_type.h\<close>):
    a DATE or DATETIME is refused or becomes a TIME as each mode says, rounding by nanoseconds and cutting fractions are exact, seconds convert to TIME and back, EXTRACT does not overflow. The conversions that
    the headers only declare are fields of \<open>time_env\<close> and \<open>conversions\<close>; \<open>zero_time\<close> and \<open>powers_of_ten\<close> say what the code relies on.

  \<^bold>\<open>Not modelled.\<close> The PHP, TypeScript and third-party JavaScript code (other languages), the binaries and data files, headers that hold declarations only (client interface, plugin services, storage engine
  interfaces, binary log, replication), the instrumentation macros, and the large class hierarchies (most of \<open>item*.h\<close>, \<open>field.h\<close>, the type handlers of \<open>sql_type.h\<close>, most of \<open>sql_class.h\<close>, the rest of \<open>handler.h\<close>)
  whose inline members mainly pass virtual calls on. Also left out are the character sets of \<open>sql_string.h\<close>, the wrappers of \<open>sql_array.h\<close>, and the classes \<open>Date\<close>, \<open>Datetime\<close> and
  \<open>Interval_DDhhmmssff\<close> of \<open>sql_type.h\<close>, whose work is done by functions with bodies elsewhere. Within the modelled classes, members that are only declared are parameters or left out, as the theories say.
\<close>

section \<open>Properties across components\<close>

text \<open>C38: SEC_TO_TIME followed by TIME_TO_SEC, from an SQL integer of either signedness through fixed-point seconds and a TIME back to an integer: the conversion reports an error
  exactly when the absolute value is beyond the range of TIME, and otherwise gives a valid TIME whose seconds are the integer again.\<close>

theorem integer_seconds_roundtrip:
  assumes z: "zero_time zt"
  shows "case sec_to_time zt cr (make_from_int nr) dec of (err, t) \<Rightarrow>
    (err \<longleftrightarrow> uint TIME_MAX_VALUE_SECONDS < \<bar>number_of nr\<bar>) \<and>
    (\<not> err \<longrightarrow> is_valid_time_slow t \<and> hour t \<le> TIME_MAX_HOUR \<and> second_part t = 0 \<and> sint (to_seconds t) = number_of nr)"
proof (cases "hybrid_abs nr \<le> TIME_MAX_VALUE_SECONDS")
  case False
  then show ?thesis by (simp add: sec_to_time_def make_from_int_def Let_def word_less_def not_le hybrid_abs_exact)
next
  case True
  let ?s = "make_from_int nr"
  have u: "uint (hybrid_abs nr) \<le> 3020399" using True by (simp add: word_le_def TIME_MAX_VALUE_SECONDS_def time_limits)
  have "sint (- hybrid_abs nr) = - uint (hybrid_abs nr)" "sint (hybrid_abs nr) = uint (hybrid_abs nr)"
    using u uint_bounds [of "hybrid_abs nr"] uint_minus [of "hybrid_abs nr"]
    by (cases "hybrid_abs nr = 0"; auto simp: sint_cases uint_0_iff word_neq_0_conv word_less_def)+
  moreover have "neg nr \<longleftrightarrow> number_of nr < 0" by (auto simp: neg_def number_of_def)
  ultimately have sec: "sint (if neg nr then - hybrid_abs nr else hybrid_abs nr) = number_of nr" by (simp add: hybrid_abs_exact)
  have "m_sec ?s \<le> TIME_MAX_VALUE_SECONDS" "m_usec ?s \<le> TIME_MAX_SECOND_PART" using True by (simp_all add: make_from_int_def)
  from sec_to_time_exact [OF z this, of cr dec] show ?thesis
    using sec True by (auto simp: make_from_int_def hybrid_abs_exact [symmetric] word_le_def split: prod.splits)
qed

theorem integer_seconds_roundtrip_witness:
  "case sec_to_time zero_of (\<lambda>t dec. t) (make_from_int \<lparr>h_value = - 3661, m_unsigned = False\<rparr>) 6 of (err, t) \<Rightarrow> \<not> err \<and> sint (to_seconds t) = - 3661"
proof -
  have "zero_time zero_of" by (simp add: zero_time_def zero_of_def)
  from integer_seconds_roundtrip [OF this, where cr = "\<lambda>t dec. t" and nr = "\<lparr>h_value = - 3661, m_unsigned = False\<rparr>" and dec = 6] show ?thesis
    by (simp add: number_of_def TIME_MAX_VALUE_SECONDS_def time_limits split: prod.splits)
qed

text \<open>A sort that packs its records: every record in the sort buffer is found at its pointer with the length that the length fields in it give, in insertion order after the pointers are reversed.\<close>

theorem sort_buffer_packed_records:
  assumes s: "packed_param s" and fit: "\<forall>r \<in> set rs. record_fits s r" and h: "fsb_holds b (map (record_image s) rs) (rev (offsets (map (record_image s) rs)))"
  shows "\<exists>b' mem. reverse_record_pointers b = Some b' \<and> m_rawmem b' = Some mem \<and> key_array b' (length rs) mem = map of_nat (offsets (map (record_image s) rs)) \<and>
    (\<forall>i < length rs. get_record_length s mem (offsets (map (record_image s) rs) ! i) = Some (of_nat (length (record_image s (rs ! i)))) \<and>
      bytes mem (offsets (map (record_image s) rs) ! i) (length (record_image s (rs ! i))) = record_image s (rs ! i))"
proof -
  let ?rs = "map (record_image s) rs"
  obtain b' where b': "reverse_record_pointers b = Some b'" "fsb_holds b' ?rs (offsets ?rs)" using reverse_record_pointers_ok [OF h] by auto
  obtain mem where m: "m_rawmem b' = Some mem" "key_array b' (length rs) mem = map of_nat (offsets ?rs)" using b'(2) by (auto simp: fsb_holds_def fsb_shape_def)
  have "get_record_length s mem (offsets ?rs ! i) = Some (of_nat (length (record_image s (rs ! i)))) \<and> bytes mem (offsets ?rs ! i) (length (record_image s (rs ! i))) = record_image s (rs ! i)" if i: "i < length rs" for i
  proof -
    have rb: "bytes mem (offsets ?rs ! i) (length (record_image s (rs ! i))) = record_image s (rs ! i)" using record_bytes [OF b'(2), of i] m(1) i by auto
    have "record_image s (rs ! i) \<noteq> []" using record_image_nonempty [OF s] .
    then have "at_record mem (offsets ?rs ! i) (record_image s (rs ! i))" using rb by (rule at_recordI)
    then show ?thesis using record_lengths(2) [OF s] fit i rb by simp
  qed
  then show ?thesis using b'(1) m by blast
qed

definition buffer1 :: Filesort_buffer where
  "buffer1 = fsb_init\<lparr>m_rawmem := Some (replicate 40 0), m_next_rec_ptr := Some 0, m_record_pointers := Some 32, m_num_records := 2, m_record_length := 10, m_size_in_bytes := 40\<rparr>"

theorem sort_buffer_packed_records_witness:
  "\<exists>b b' mem. add_record (record_image param0 ([1], [2])) buffer1 = Some b \<and> reverse_record_pointers b = Some b' \<and> m_rawmem b' = Some mem \<and> get_record_length param0 mem 0 = Some 8"
proof -
  have p: "packed_param param0" by (simp add: packed_param_def param0_def)
  have l: "length (record_image param0 ([1], [2])) = 8" by (simp add: record_image_def key_image_def tail_image_def param0_def store_sortkey_length_def store_addon_length_def int4store_def int2store_def Let_def)
  then have f: "\<forall>r \<in> set [([1], [2])]. record_fits param0 r" by (simp add: record_fits_def) (simp add: param0_def)
  have h: "fsb_holds buffer1 [] []" by (simp add: fsb_holds_def fsb_shape_def buffer1_def fsb_init_def key_array_def load_all_def)
  from add_record_ok [OF h, of "record_image param0 ([1], [2])"] l obtain b where b: "add_record (record_image param0 ([1], [2])) buffer1 = Some b" "fsb_holds b [record_image param0 ([1], [2])] [0]"
    by (auto simp: buffer1_def fsb_init_def)
  then have "fsb_holds b (map (record_image param0) [([1], [2])]) (rev (offsets (map (record_image param0) [([1], [2])])))" by (simp add: offsets_def)
  from sort_buffer_packed_records [OF p f this] show ?thesis using b(1) l by (auto simp: offsets_def)
qed

end
